(* ===== verification/Prelude.thy ===== *)
theory Prelude
  imports Main "HOL-Library.Word"
begin

unbundle bit_operations_syntax

text \<open>
  Shared vocabulary of the development: the C integer types as fixed-width words, the
  bit-level facts that the register and bitmap components use, and the collections of
  rewrite rules that the component theories extend.

  The target is a 32-bit little-endian MIPS (\<^verbatim>\<open>-mips2\<close>): \<^verbatim>\<open>int\<close>, \<^verbatim>\<open>unsigned int\<close>,
  \<^verbatim>\<open>long\<close>, \<^verbatim>\<open>unsigned long\<close> and pointers are 32 bits wide, \<^verbatim>\<open>short\<close> is 16 bits wide and
  plain \<^verbatim>\<open>char\<close> is a signed byte.
\<close>

type_synonym u8 = "8 word"
type_synonym u16 = "16 word"
type_synonym u32 = "32 word"

named_theorems frame_simps \<open>what an operation leaves unchanged\<close>

section \<open>Bits of machine words\<close>

lemma bit_exp_u32: "bit (2 ^ p :: u32) n \<longleftrightarrow> n = p \<and> p < 32"
  by (auto simp: bit_exp_iff)

lemma bit_set_mask: "bit (w OR 2 ^ p :: u32) n \<longleftrightarrow> bit w n \<or> (n = p \<and> p < 32)"
  by (auto simp: bit_or_iff bit_exp_u32)

lemma bit_clear_mask: "bit (w AND NOT (2 ^ p) :: u32) n \<longleftrightarrow> bit w n \<and> n \<noteq> p"
  by (auto simp: bit_and_iff bit_not_iff bit_exp_u32 dest: bit_imp_le_length)

lemma word_neq_0_bit: "(w :: 'a::len word) \<noteq> 0 \<longleftrightarrow> (\<exists>n. bit w n)"
  by (metis bit_0_eq bot_apply bot_bool_def bit_eqI)

lemma bit_u32_lt: "bit (w :: u32) n \<Longrightarrow> n < 32"
  by (auto dest: bit_imp_le_length)

section \<open>Words as indices\<close>

lemma unat_inc_lt:
  fixes w n :: "'a::len word"
  assumes "unat w < unat n"
  shows "unat (w + 1) = Suc (unat w)"
proof -
  have "unat n < 2 ^ LENGTH('a)" by (rule unsigned_less)
  then have "Suc (unat w) < 2 ^ LENGTH('a)" using assms by linarith
  then show ?thesis by (simp add: unat_word_ariths)
qed

lemma wrap_index:
  fixes i n :: nat
  shows "i < n \<Longrightarrow> (if Suc i \<ge> n then 0 else Suc i) = Suc i mod n"
  by (auto simp: mod_Suc)

lemma wrap_word:
  fixes w n :: "'a::len word"
  assumes "unat w < unat n"
  shows "unat (if w + 1 \<ge> n then 0 else w + 1) = Suc (unat w) mod unat n"
  using assms unat_inc_lt[OF assms] wrap_index[OF assms] by (auto simp: word_le_nat_alt)

section \<open>Words as numbers\<close>

lemma u32_lt: "unat (x :: u32) < 4294967296"
  using unsigned_less[of x, where ?'a = nat] by simp

lemma unat_plus: "unat (a :: u32) + unat b < 4294967296 \<Longrightarrow> unat (a + b) = unat a + unat b"
  by (simp add: unat_word_ariths)

lemma unat_minus: "unat (b :: u32) \<le> unat a \<Longrightarrow> unat (a - b) = unat a - unat b"
  by (subst unat_sub) (auto simp: word_le_nat_alt)

section \<open>Constant tables\<close>

text \<open>
  A property of every entry of a constant table, checked entry by entry; the index runs
  over integers so that the simplifier counts with numerals.
\<close>

fun table_ok :: "(int \<Rightarrow> 'a \<Rightarrow> bool) \<Rightarrow> int \<Rightarrow> 'a list \<Rightarrow> bool" where
  "table_ok P i [] \<longleftrightarrow> True"
| "table_ok P i (x # xs) \<longleftrightarrow> P i x \<and> table_ok P (i + 1) xs"

lemma table_ok_nth: "table_ok P i xs \<Longrightarrow> k < length xs \<Longrightarrow> P (i + int k) (xs ! k)"
proof (induction xs arbitrary: i k)
  case Nil
  then show ?case by simp
next
  case (Cons x xs)
  then show ?case using Cons.IH[of "i + 1" "k - 1"] by (cases k) (auto simp: algebra_simps)
qed

text \<open>Rounding down to a multiple of a power of two.\<close>

lemma and_not_low:
  fixes x :: u32
  shows "uint (x AND NOT (2 ^ j - 1)) = uint x div 2 ^ j * 2 ^ j"
proof -
  have "(2 ^ j - 1 :: u32) = mask j" by (simp add: mask_eq_exp_minus_1)
  moreover have "uint (x AND NOT (mask j)) = push_bit j (drop_bit j (uint x))"
    by (rule bit_eqI) (auto simp: bit_simps dest: bit_imp_le_length)
  ultimately show ?thesis by (simp add: push_bit_eq_mult drop_bit_eq_div)
qed

end
