(* ===== verification/Rt_List.thy ===== *)
theory Rt_List
  imports Prelude
begin

text \<open>
  Intrusive circular doubly linked lists (\<^verbatim>\<open>src/os/thread.c\<close>, \<^verbatim>\<open>rt_list_init\<close> to
  \<^verbatim>\<open>rt_list_insert_after\<close>; the node type is in \<^verbatim>\<open>src/os/include/rtdef.h\<close>). Every queue of
  the kernel is such a list: the ready table, the timers, the dead threads, the waiters
  of a semaphore or a mailbox. The store of all nodes is a pair of functions from node
  addresses to node addresses, and every assignment of the C text is one update of it,
  in the order of the text, so that aliasing (an empty list, a node inserted twice) has
  the effect it has in memory. \<open>dll\<close> says that a store holds a given sequence of nodes
  behind a header; the lemmas show that the pointer operations are the list operations.
\<close>

section \<open>The operations\<close>

record 'a links =
  lnext :: "'a \<Rightarrow> 'a"
  lprev :: "'a \<Rightarrow> 'a"

definition set_next :: "'a \<Rightarrow> 'a \<Rightarrow> 'a links \<Rightarrow> 'a links" where
  "set_next p v h = h\<lparr>lnext := (lnext h)(p := v)\<rparr>"

definition set_prev :: "'a \<Rightarrow> 'a \<Rightarrow> 'a links \<Rightarrow> 'a links" where
  "set_prev p v h = h\<lparr>lprev := (lprev h)(p := v)\<rparr>"

definition rt_list_init :: "'a \<Rightarrow> 'a links \<Rightarrow> 'a links" where
  "rt_list_init l h = set_next l l (set_prev l l h)"

definition rt_list_insert_before :: "'a \<Rightarrow> 'a \<Rightarrow> 'a links \<Rightarrow> 'a links" where
  "rt_list_insert_before l n h =
    (let h = set_next (lprev h l) n h;
         h = set_prev n (lprev h l) h;
         h = set_prev l n h
     in set_next n l h)"

definition rt_list_remove :: "'a \<Rightarrow> 'a links \<Rightarrow> 'a links" where
  "rt_list_remove n h =
    (let h = set_prev (lnext h n) (lprev h n) h;
         h = set_next (lprev h n) (lnext h n) h;
         h = set_prev n n h
     in set_next n n h)"

definition rt_list_isempty :: "'a \<Rightarrow> 'a links \<Rightarrow> bool" where
  "rt_list_isempty l h \<longleftrightarrow> lnext h l = l"

definition rt_list_insert_after :: "'a \<Rightarrow> 'a \<Rightarrow> 'a links \<Rightarrow> 'a links" where
  "rt_list_insert_after l n h =
    (let h = set_prev (lnext h l) n h;
         h = set_next n (lnext h l) h;
         h = set_next l n h
     in set_prev n l h)"

section \<open>Lists in the store\<close>

primrec chain :: "'a links \<Rightarrow> 'a \<Rightarrow> 'a list \<Rightarrow> 'a \<Rightarrow> bool" where
  "chain h a [] b \<longleftrightarrow> lnext h a = b \<and> lprev h b = a"
| "chain h a (x # xs) b \<longleftrightarrow> lnext h a = x \<and> lprev h x = a \<and> chain h x xs b"

definition dll :: "'a links \<Rightarrow> 'a \<Rightarrow> 'a list \<Rightarrow> bool" where
  "dll h l xs \<longleftrightarrow> distinct (l # xs) \<and> chain h l xs l"

lemma set_links_simps [simp]:
  "lnext (set_next p v h) = (lnext h)(p := v)" "lprev (set_next p v h) = lprev h"
  "lprev (set_prev p v h) = (lprev h)(p := v)" "lnext (set_prev p v h) = lnext h"
  by (simp_all add: set_next_def set_prev_def)

lemma chain_append [simp]:
  "chain h a (xs @ x # ys) b \<longleftrightarrow> chain h a xs x \<and> chain h x ys b"
  by (induction xs arbitrary: a) auto

lemma chain_cong:
  assumes "\<And>y. y \<in> insert a (set xs) \<Longrightarrow> lnext h' y = lnext h y"
    and "\<And>y. y \<in> insert b (set xs) \<Longrightarrow> lprev h' y = lprev h y"
  shows "chain h' a xs b = chain h a xs b"
  using assms by (induction xs arbitrary: a) auto

lemma chain_set_next [simp]: "p \<notin> insert a (set xs) \<Longrightarrow> chain (set_next p v h) a xs b = chain h a xs b"
  by (rule chain_cong) auto

lemma chain_set_prev [simp]: "p \<notin> insert b (set xs) \<Longrightarrow> chain (set_prev p v h) a xs b = chain h a xs b"
  by (rule chain_cong) auto

lemma dll_distinct: "dll h l xs \<Longrightarrow> distinct xs \<and> l \<notin> set xs"
  by (simp add: dll_def)

lemma dll_cong:
  assumes "\<And>y. y \<in> insert l (set xs) \<Longrightarrow> lnext h' y = lnext h y \<and> lprev h' y = lprev h y"
  shows "dll h' l xs = dll h l xs"
  using chain_cong[of l xs h' h l] assms by (auto simp: dll_def)

lemma dll_Nil: "dll h l [] \<longleftrightarrow> lnext h l = l \<and> lprev h l = l"
  by (simp add: dll_def)

lemma chain_closed:
  "chain h a xs b \<Longrightarrow> y \<in> insert a (set xs) \<Longrightarrow> lnext h y \<in> insert b (set xs)"
  by (induction xs arbitrary: a) auto

lemma chain_closed_prev:
  "chain h a xs b \<Longrightarrow> y \<in> insert b (set xs) \<Longrightarrow> lprev h y \<in> insert a (set xs)"
  by (induction xs arbitrary: a) auto

lemma dll_closed:
  "dll h l xs \<Longrightarrow> y \<in> insert l (set xs) \<Longrightarrow>
    lnext h y \<in> insert l (set xs) \<and> lprev h y \<in> insert l (set xs)"
  using chain_closed[of h l xs l y] chain_closed_prev[of h l xs l y] by (simp add: dll_def)

lemma dll_first: "dll h l xs \<Longrightarrow> lnext h l = (case xs of [] \<Rightarrow> l | x # _ \<Rightarrow> x)"
  by (cases xs) (auto simp: dll_def)

lemma dll_unique: "dll h l xs \<Longrightarrow> dll h l ys \<Longrightarrow> xs = ys"
proof -
  have "chain h a xs l \<Longrightarrow> chain h a ys l \<Longrightarrow> l \<notin> set xs \<Longrightarrow> l \<notin> set ys \<Longrightarrow> xs = ys" for a
  proof (induction xs arbitrary: a ys)
    case Nil
    then show ?case by (cases ys) auto
  next
    case (Cons x xs)
    then show ?case by (cases ys) auto
  qed
  then show "dll h l xs \<Longrightarrow> dll h l ys \<Longrightarrow> xs = ys" by (auto simp: dll_def)
qed

section \<open>The operations are the list operations\<close>

lemma dll_init: "dll (rt_list_init l h) l []"
  by (simp add: dll_Nil rt_list_init_def)

lemma chain_last: "chain h a xs b \<Longrightarrow> lprev h b = last (a # xs)"
  by (induction xs arbitrary: a) auto

lemma chain_snoc_redirect:
  assumes "chain h a xs b" "n \<notin> insert a (insert b (set xs))" "b \<notin> set xs" "distinct (a # xs)"
  shows "chain (set_next n b (set_prev b n (set_prev n (lprev h b)
           (set_next (lprev h b) n h)))) a (xs @ [n]) b"
  using assms
proof (induction xs arbitrary: a)
  case Nil
  then show ?case by auto
next
  case (Cons x xs)
  then have "lprev h b \<noteq> a" using chain_last[of h x xs b] by auto
  with Cons show ?case by auto
qed

lemma dll_insert_before:
  assumes "dll h l xs" "n \<notin> insert l (set xs)"
  shows "dll (rt_list_insert_before l n h) l (xs @ [n])"
  using assms chain_snoc_redirect[of h l xs l n]
  by (auto simp: dll_def rt_list_insert_before_def Let_def)

lemma dll_insert_after:
  assumes "dll h l xs" "n \<notin> insert l (set xs)"
  shows "dll (rt_list_insert_after l n h) l (n # xs)"
  using assms by (cases xs) (auto simp: dll_def rt_list_insert_after_def Let_def)

lemma dll_remove_split:
  assumes "dll h l (xs @ n # ys)"
  shows "dll (rt_list_remove n h) l (xs @ ys)"
proof -
  have d: "distinct (l # xs @ n # ys)" and c1: "chain h l xs n" and c2: "chain h n ys l"
    using assms by (auto simp: dll_def)
  let ?p = "lprev h n" let ?q = "lnext h n"
  have p: "?p = last (l # xs)" using chain_last[OF c1] .
  have h': "rt_list_remove n h = set_next n n (set_prev n n (set_next ?p ?q (set_prev ?q ?p h)))"
    if "?q \<noteq> n" using that by (simp add: rt_list_remove_def Let_def)
  have qn: "?q \<noteq> n" using c2 d by (cases ys) auto
  show ?thesis
  proof (cases xs rule: rev_cases)
    case Nil
    with d c1 c2 p qn show ?thesis by (cases ys) (auto simp: dll_def h')
  next
    case (snoc zs z)
    with d c1 c2 p qn show ?thesis by (cases ys) (auto simp: dll_def h')
  qed
qed

lemma dll_remove:
  assumes "dll h l xs" "n \<in> set xs"
  shows "dll (rt_list_remove n h) l (remove1 n xs)"
proof -
  obtain ys zs where xs: "xs = ys @ n # zs" "n \<notin> set ys"
    using split_list_first[OF assms(2)] by blast
  with dll_remove_split[of h l ys n zs] assms(1) show ?thesis
    by (simp add: remove1_append)
qed

lemma remove_self: "dll (rt_list_remove n h) n []"
  by (simp add: dll_Nil rt_list_remove_def Let_def)

lemma remove_unlinked: "dll h n [] \<Longrightarrow> rt_list_remove n h = h"
  by (simp add: dll_Nil rt_list_remove_def Let_def set_next_def set_prev_def fun_upd_idem)

lemma isempty_dll: "dll h l xs \<Longrightarrow> rt_list_isempty l h \<longleftrightarrow> xs = []"
  using dll_first[of h l xs] by (auto simp: rt_list_isempty_def dll_def split: list.splits)

section \<open>Frames: an operation on one list does not disturb a disjoint one\<close>

lemma dll_frame_set:
  "p \<notin> insert l (set xs) \<Longrightarrow> dll (set_next p v h) l xs = dll h l xs"
  "p \<notin> insert l (set xs) \<Longrightarrow> dll (set_prev p v h) l xs = dll h l xs"
  by (auto intro!: dll_cong)

lemma dll_frame_init: "n \<notin> insert l (set xs) \<Longrightarrow> dll (rt_list_init n h) l xs = dll h l xs"
  by (simp add: rt_list_init_def dll_frame_set)

lemma dll_frame_insert_before:
  assumes "dll h m ys" "insert m (set ys) \<inter> insert l (set xs) = {}" "n \<notin> insert l (set xs)"
  shows "dll (rt_list_insert_before m n h) l xs = dll h l xs"
proof -
  have "lprev h m \<notin> insert l (set xs)" using dll_closed[OF assms(1), of m] assms(2) by auto
  with assms show ?thesis
    by (auto simp: rt_list_insert_before_def Let_def dll_frame_set)
qed

lemma dll_frame_insert_after:
  assumes "dll h m ys" "insert m (set ys) \<inter> insert l (set xs) = {}" "n \<notin> insert l (set xs)"
  shows "dll (rt_list_insert_after m n h) l xs = dll h l xs"
proof -
  have "lnext h m \<notin> insert l (set xs)" using dll_closed[OF assms(1), of m] assms(2) by auto
  with assms show ?thesis
    by (auto simp: rt_list_insert_after_def Let_def dll_frame_set)
qed

lemma dll_frame_remove:
  assumes "dll h m ys" "n \<in> insert m (set ys)" "insert m (set ys) \<inter> insert l (set xs) = {}"
  shows "dll (rt_list_remove n h) l xs = dll h l xs"
proof -
  have "lnext h n \<notin> insert l (set xs)" "lprev h n \<notin> insert l (set xs)" "n \<notin> insert l (set xs)"
    using dll_closed[OF assms(1,2)] assms(2,3) by auto
  then show ?thesis
    by (auto simp: rt_list_remove_def Let_def dll_frame_set)
qed

section \<open>The interface the kernel relies on\<close>

text \<open>
  What the scheduler, the timers and the IPC objects need of a store of queues, as laws
  about its operations; the facts below are proved from the laws alone.
\<close>

definition disjoint_queues ::
  "('s \<Rightarrow> 'a \<Rightarrow> 'a list \<Rightarrow> bool) \<Rightarrow> 'a set \<Rightarrow> 'a set \<Rightarrow> ('a \<Rightarrow> 'a list) \<Rightarrow> 's \<Rightarrow> bool" where
  "disjoint_queues rep H N q s \<longleftrightarrow>
    (\<forall>l\<in>H. rep s l (q l) \<and> set (q l) \<subseteq> N) \<and> H \<inter> N = {} \<and>
    (\<forall>l\<in>H. \<forall>m\<in>H. \<forall>x\<in>set (q l). x \<in> set (q m) \<longrightarrow> l = m) \<and>
    (\<forall>n\<in>N. (\<forall>l\<in>H. n \<notin> set (q l)) \<longrightarrow> rep s n [])"

lemma disjoint_queuesD:
  "disjoint_queues rep H N q s \<Longrightarrow> x \<in> set (q l) \<Longrightarrow> x \<in> set (q m) \<Longrightarrow> l \<in> H \<Longrightarrow> m \<in> H \<Longrightarrow> l = m"
  unfolding disjoint_queues_def by blast

lemma disjoint_queues_cong:
  assumes "\<And>l. l \<in> H \<Longrightarrow> q l = q' l"
  shows "disjoint_queues rep H N q s = disjoint_queues rep H N q' s"
  unfolding disjoint_queues_def by (simp add: assms cong: ball_cong)

locale queue_store =
  fixes ins_back :: "'a \<Rightarrow> 'a \<Rightarrow> 's \<Rightarrow> 's"
    and ins_front :: "'a \<Rightarrow> 'a \<Rightarrow> 's \<Rightarrow> 's"
    and unlink :: "'a \<Rightarrow> 's \<Rightarrow> 's"
    and is_empty :: "'a \<Rightarrow> 's \<Rightarrow> bool"
    and first :: "'s \<Rightarrow> 'a \<Rightarrow> 'a"
    and rep :: "'s \<Rightarrow> 'a \<Rightarrow> 'a list \<Rightarrow> bool"
  assumes at_back: "rep s l xs \<Longrightarrow> n \<notin> insert l (set xs) \<Longrightarrow> rep (ins_back l n s) l (xs @ [n])"
    and at_front: "rep s l xs \<Longrightarrow> n \<notin> insert l (set xs) \<Longrightarrow> rep (ins_front l n s) l (n # xs)"
    and unlink: "rep s l xs \<Longrightarrow> n \<in> set xs \<Longrightarrow> rep (unlink n s) l (remove1 n xs)"
    and unlinked: "rep (unlink n s) n []"
    and unlink_idle: "rep s n [] \<Longrightarrow> unlink n s = s"
    and empty_iff: "rep s l xs \<Longrightarrow> is_empty l s \<longleftrightarrow> xs = []"
    and first_hd: "rep s l (x # xs) \<Longrightarrow> first s l = x"
    and frame_back: "rep s m ys \<Longrightarrow> insert m (set ys) \<inter> insert l (set xs) = {} \<Longrightarrow>
      n \<notin> insert l (set xs) \<Longrightarrow> rep (ins_back m n s) l xs = rep s l xs"
    and frame_front: "rep s m ys \<Longrightarrow> insert m (set ys) \<inter> insert l (set xs) = {} \<Longrightarrow>
      n \<notin> insert l (set xs) \<Longrightarrow> rep (ins_front m n s) l xs = rep s l xs"
    and frame_unlink: "rep s m ys \<Longrightarrow> n \<in> insert m (set ys) \<Longrightarrow>
      insert m (set ys) \<inter> insert l (set xs) = {} \<Longrightarrow> rep (unlink n s) l xs = rep s l xs"
    and distinct_rep: "rep s l xs \<Longrightarrow> distinct (l # xs)"
begin

lemma not_in_removed: "rep s l xs \<Longrightarrow> n \<notin> set (remove1 n xs)"
  using distinct_rep[of s l xs] by simp

lemma move_back_source:
  assumes "rep s l xs" "rep s m ys" "n \<in> set xs"
    and "insert m (set ys) \<inter> insert l (set xs) = {}"
  shows "rep (ins_back m n (unlink n s)) l (remove1 n xs)"
proof -
  have m: "rep (unlink n s) m ys"
    using assms frame_unlink[of s l xs n m ys] by auto
  have l: "rep (unlink n s) l (remove1 n xs)" using unlink[OF assms(1,3)] .
  have "insert m (set ys) \<inter> insert l (set (remove1 n xs)) = {}"
    using assms(4) set_remove1_subset[of n xs] by auto
  moreover have "n \<notin> insert l (set (remove1 n xs))"
    using not_in_removed[OF assms(1)] distinct_rep[OF assms(1)] assms(3) by auto
  ultimately show ?thesis using frame_back[OF m] l by blast
qed

lemma move_back_target:
  assumes "rep s l xs" "rep s m ys" "n \<in> set xs"
    and "insert m (set ys) \<inter> insert l (set xs) = {}"
  shows "rep (ins_back m n (unlink n s)) m (ys @ [n])"
proof (rule at_back)
  show "rep (unlink n s) m ys" using assms frame_unlink[of s l xs n m ys] by auto
  show "n \<notin> insert m (set ys)" using assms(3,4) by auto
qed

lemma queues_insert:
  assumes q: "disjoint_queues rep H N q s" and "l \<in> H" "n \<in> N" "\<forall>m\<in>H. n \<notin> set (q m)"
    and new: "rep s' l xs" "set xs = insert n (set (q l))"
    and fr: "\<And>m ys. insert l (set (q l)) \<inter> insert m (set ys) = {} \<Longrightarrow> n \<notin> insert m (set ys) \<Longrightarrow>
      rep s' m ys = rep s m ys"
  shows "disjoint_queues rep H N (q(l := xs)) s'"
  unfolding disjoint_queues_def
proof (intro conjI ballI impI)
  have H: "set (q m) \<subseteq> N" "rep s m (q m)" if "m \<in> H" for m
    using q that unfolding disjoint_queues_def by auto
  have HN: "H \<inter> N = {}" using q unfolding disjoint_queues_def by auto
  show "H \<inter> N = {}" by fact
  fix m assume m: "m \<in> H"
  show "set ((q(l := xs)) m) \<subseteq> N" using H m assms(2,3) new by auto
  show "rep s' m ((q(l := xs)) m)"
  proof (cases "m = l")
    case False
    then have "set (q l) \<inter> set (q m) = {}"
      using q m assms(2) unfolding disjoint_queues_def by blast
    then have "insert l (set (q l)) \<inter> insert m (set (q m)) = {}"
      using False H[OF m] H[OF assms(2)] HN m assms(2) by auto
    moreover have "n \<notin> insert m (set (q m))" using assms(3,4) m HN by auto
    ultimately show ?thesis using fr H(2)[OF m] False by simp
  qed (use new in simp)
  fix m' x assume "m' \<in> H" "x \<in> set ((q(l := xs)) m)" "x \<in> set ((q(l := xs)) m')"
  then show "m = m'"
    using m assms(2,4) new(2) disjoint_queuesD[OF q, of x m m'] by (auto split: if_splits)
next
  fix x assume x: "x \<in> N" and free: "\<forall>m\<in>H. x \<notin> set ((q(l := xs)) m)"
  then have xl: "x \<notin> insert n (set (q l))" using assms(2) new by auto
  have "\<forall>m\<in>H. x \<notin> set (q m)" using free xl by (metis fun_upd_apply insertCI)
  then have "rep s x []" using q x unfolding disjoint_queues_def by auto
  moreover have "insert l (set (q l)) \<inter> insert x (set []) = {}" "n \<notin> insert x (set [])"
    using xl x assms(2) q unfolding disjoint_queues_def by auto
  ultimately show "rep s' x []" using fr by blast
qed

lemma queues_back:
  assumes q: "disjoint_queues rep H N q s" and "l \<in> H" "n \<in> N" "\<forall>m\<in>H. n \<notin> set (q m)"
  shows "disjoint_queues rep H N (q(l := q l @ [n])) (ins_back l n s)"
proof (rule queues_insert[OF assms])
  have l: "rep s l (q l)" "n \<notin> insert l (set (q l))"
    using q assms(2-4) unfolding disjoint_queues_def by auto
  show "rep (ins_back l n s) l (q l @ [n])" using at_back[OF l] .
  show "rep (ins_back l n s) m ys = rep s m ys"
    if "insert l (set (q l)) \<inter> insert m (set ys) = {}" "n \<notin> insert m (set ys)" for m ys
    using frame_back[OF l(1) that] .
qed simp

lemma queues_front:
  assumes q: "disjoint_queues rep H N q s" and "l \<in> H" "n \<in> N" "\<forall>m\<in>H. n \<notin> set (q m)"
  shows "disjoint_queues rep H N (q(l := n # q l)) (ins_front l n s)"
proof (rule queues_insert[OF assms])
  have l: "rep s l (q l)" "n \<notin> insert l (set (q l))"
    using q assms(2-4) unfolding disjoint_queues_def by auto
  show "rep (ins_front l n s) l (n # q l)" using at_front[OF l] .
  show "rep (ins_front l n s) m ys = rep s m ys"
    if "insert l (set (q l)) \<inter> insert m (set ys) = {}" "n \<notin> insert m (set ys)" for m ys
    using frame_front[OF l(1) that] .
qed simp

lemma queues_unlink_free:
  assumes q: "disjoint_queues rep H N q s" and "n \<in> N" and free: "\<forall>m\<in>H. n \<notin> set (q m)"
  shows "unlink n s = s"
  using assms unlink_idle unfolding disjoint_queues_def by blast

lemma queues_unlink_in:
  assumes q: "disjoint_queues rep H N q s" and l: "l \<in> H" and n: "n \<in> set (q l)"
  shows "disjoint_queues rep H N (q(l := remove1 n (q l))) (unlink n s)"
  unfolding disjoint_queues_def
proof (intro conjI ballI impI)
  have H: "set (q m) \<subseteq> N" "rep s m (q m)" if "m \<in> H" for m
    using q that unfolding disjoint_queues_def by auto
  have HN: "H \<inter> N = {}" using q unfolding disjoint_queues_def by auto
  show "H \<inter> N = {}" by fact
  have d: "distinct (q l)" using distinct_rep[OF H(2)[OF l]] by simp
  fix m assume m: "m \<in> H"
  show "set ((q(l := remove1 n (q l))) m) \<subseteq> N" using H[OF m] H[OF l] d by auto
  show "rep (unlink n s) m ((q(l := remove1 n (q l))) m)"
  proof (cases "m = l")
    case False
    then have "set (q l) \<inter> set (q m) = {}" using q m l unfolding disjoint_queues_def by blast
    then have "insert l (set (q l)) \<inter> insert m (set (q m)) = {}"
      using False H[OF m] H[OF l] HN m l by auto
    then show ?thesis using frame_unlink[OF H(2)[OF l], of n m "q m"] n H(2)[OF m] False by simp
  qed (use unlink[OF H(2)[OF l] n] in simp)
  fix m' x assume "m' \<in> H" "x \<in> set ((q(l := remove1 n (q l))) m)"
    "x \<in> set ((q(l := remove1 n (q l))) m')"
  then have "x \<in> set (q m)" "x \<in> set (q m')"
    by (metis fun_upd_apply notin_set_remove1)+
  then show "m = m'" using disjoint_queuesD[OF q] m \<open>m' \<in> H\<close> by blast
next
  fix x assume x: "x \<in> N" and free: "\<forall>m\<in>H. x \<notin> set ((q(l := remove1 n (q l))) m)"
  have H: "set (q l) \<subseteq> N" "rep s l (q l)" "l \<notin> N" using q l unfolding disjoint_queues_def by auto
  show "rep (unlink n s) x []"
  proof (cases "x = n")
    case False
    then have out: "x \<notin> set (q l)" using free l distinct_rep[OF H(2)] by (auto dest!: bspec[of _ _ l])
    then have "\<forall>m\<in>H. x \<notin> set (q m)" using free by (metis fun_upd_apply)
    then have "rep s x []" using q x unfolding disjoint_queues_def by auto
    then show ?thesis using frame_unlink[OF H(2), of n x "[]"] n out x H by auto
  qed (use unlinked in simp)
qed

lemma queues_unlink:
  assumes q: "disjoint_queues rep H N q s" and n: "n \<in> N"
  shows "disjoint_queues rep H N (\<lambda>l. remove1 n (q l)) (unlink n s)"
proof (cases "\<exists>l\<in>H. n \<in> set (q l)")
  case True
  then obtain l where l: "l \<in> H" "n \<in> set (q l)" by blast
  then have "n \<notin> set (q m)" if "m \<in> H" "m \<noteq> l" for m
    using disjoint_queuesD[OF q] that by blast
  then have "disjoint_queues rep H N (q(l := remove1 n (q l))) (unlink n s) =
      disjoint_queues rep H N (\<lambda>m. remove1 n (q m)) (unlink n s)"
    by (intro disjoint_queues_cong) (auto simp: remove1_idem)
  then show ?thesis using queues_unlink_in[OF q l] by simp
next
  case False
  then have "disjoint_queues rep H N q s = disjoint_queues rep H N (\<lambda>m. remove1 n (q m)) s"
    by (intro disjoint_queues_cong) (auto simp: remove1_idem)
  then show ?thesis using queues_unlink_free[OF q n] False q by simp
qed

lemma queues_empty_iff: "disjoint_queues rep H N q s \<Longrightarrow> l \<in> H \<Longrightarrow> is_empty l s \<longleftrightarrow> q l = []"
  using empty_iff unfolding disjoint_queues_def by blast

lemma queues_first: "disjoint_queues rep H N q s \<Longrightarrow> l \<in> H \<Longrightarrow> q l \<noteq> [] \<Longrightarrow> first s l = hd (q l)"
  using first_hd[of s l "hd (q l)" "tl (q l)"] unfolding disjoint_queues_def by simp

lemma fifo_order:
  assumes "rep s l []" "a \<noteq> l" "b \<noteq> l" "a \<noteq> b"
  shows "first (ins_back l b (ins_back l a s)) l = a"
    and "first (unlink a (ins_back l b (ins_back l a s))) l = b"
proof -
  have "rep (ins_back l a s) l [a]" using at_back[OF assms(1), of a] assms(2) by simp
  then have ab: "rep (ins_back l b (ins_back l a s)) l [a, b]"
    using at_back[of "ins_back l a s" l "[a]" b] assms by simp
  then show "first (ins_back l b (ins_back l a s)) l = a" by (rule first_hd)
  from ab have "rep (unlink a (ins_back l b (ins_back l a s))) l [b]"
    using unlink[OF ab, of a] by simp
  then show "first (unlink a (ins_back l b (ins_back l a s))) l = b" by (rule first_hd)
qed

end

interpretation rtl: queue_store rt_list_insert_before rt_list_insert_after rt_list_remove
  rt_list_isempty lnext dll
proof unfold_locales
  show "dll s l (x # xs) \<Longrightarrow> lnext s l = x" for s :: "'a links" and l x xs
    using dll_first[of s l "x # xs"] by simp
  show "dll s l xs \<Longrightarrow> distinct (l # xs)" for s :: "'a links" and l xs
    by (simp add: dll_def)
qed (fact dll_insert_before dll_insert_after dll_remove remove_self remove_unlinked isempty_dll
    dll_frame_insert_before dll_frame_insert_after dll_frame_remove)+

end
