(* ===== verification/Bit_Search.thy ===== *)
theory Bit_Search
  imports Prelude
begin

unbundle bit_operations_syntax

text \<open>
  Searching a word for its first or last set bit: the table-driven \<^verbatim>\<open>__rt_ffs\<close> of the
  scheduler (\<^verbatim>\<open>src/os/thread.c\<close>), the shifting loop \<^verbatim>\<open>ffs\<close> (\<^verbatim>\<open>src/libc/ffs.c\<close>) that the
  interrupt dispatcher uses and the binary search \<^verbatim>\<open>fls\<close> (\<^verbatim>\<open>src/libc/fls.c\<close>) of the SPI
  clock divider. The three are related to the same reference, the position of the least
  or greatest set bit, and so the table lookup and the loop are the same function.
\<close>

section \<open>The lookup table and the search\<close>

definition lowest_bit_bitmap :: "u8 list" where
  "lowest_bit_bitmap =
  [0, 0, 1, 0, 2, 0, 1, 0, 3, 0, 1, 0, 2, 0, 1, 0,
   4, 0, 1, 0, 2, 0, 1, 0, 3, 0, 1, 0, 2, 0, 1, 0,
   5, 0, 1, 0, 2, 0, 1, 0, 3, 0, 1, 0, 2, 0, 1, 0,
   4, 0, 1, 0, 2, 0, 1, 0, 3, 0, 1, 0, 2, 0, 1, 0,
   6, 0, 1, 0, 2, 0, 1, 0, 3, 0, 1, 0, 2, 0, 1, 0,
   4, 0, 1, 0, 2, 0, 1, 0, 3, 0, 1, 0, 2, 0, 1, 0,
   5, 0, 1, 0, 2, 0, 1, 0, 3, 0, 1, 0, 2, 0, 1, 0,
   4, 0, 1, 0, 2, 0, 1, 0, 3, 0, 1, 0, 2, 0, 1, 0,
   7, 0, 1, 0, 2, 0, 1, 0, 3, 0, 1, 0, 2, 0, 1, 0,
   4, 0, 1, 0, 2, 0, 1, 0, 3, 0, 1, 0, 2, 0, 1, 0,
   5, 0, 1, 0, 2, 0, 1, 0, 3, 0, 1, 0, 2, 0, 1, 0,
   4, 0, 1, 0, 2, 0, 1, 0, 3, 0, 1, 0, 2, 0, 1, 0,
   6, 0, 1, 0, 2, 0, 1, 0, 3, 0, 1, 0, 2, 0, 1, 0,
   4, 0, 1, 0, 2, 0, 1, 0, 3, 0, 1, 0, 2, 0, 1, 0,
   5, 0, 1, 0, 2, 0, 1, 0, 3, 0, 1, 0, 2, 0, 1, 0,
   4, 0, 1, 0, 2, 0, 1, 0, 3, 0, 1, 0, 2, 0, 1, 0]"

definition rt_ffs :: "u32 \<Rightarrow> int" where
  "rt_ffs value =
    (if value = 0 then 0
     else if value AND 0xff \<noteq> 0 then
       uint (lowest_bit_bitmap ! unat (value AND 0xff)) + 1
     else if value AND 0xff00 \<noteq> 0 then
       uint (lowest_bit_bitmap ! unat (drop_bit 8 (value AND 0xff00))) + 9
     else if value AND 0xff0000 \<noteq> 0 then
       uint (lowest_bit_bitmap ! unat (drop_bit 16 (value AND 0xff0000))) + 17
     else uint (lowest_bit_bitmap ! unat (drop_bit 24 (value AND 0xff000000))) + 25)"

text \<open>
  The loop of \<^verbatim>\<open>ffs\<close> shifts an \<^verbatim>\<open>int\<close> to the right, so the shift is arithmetic; it stops
  at the first set bit, which a non-zero mask has.
\<close>

definition lowest :: "u32 \<Rightarrow> nat" where
  "lowest w = (LEAST n. bit w n)"

lemma lowest_eqI: "bit w n \<Longrightarrow> (\<And>j. j < n \<Longrightarrow> \<not> bit w j) \<Longrightarrow> lowest w = n"
  unfolding lowest_def by (rule Least_equality) (auto simp: not_less [symmetric])

lemma bit_lowest: "w \<noteq> 0 \<Longrightarrow> bit w (lowest w)"
  unfolding lowest_def using word_neq_0_bit[of w] by (auto intro: LeastI)

lemma lowest_least: "j < lowest w \<Longrightarrow> \<not> bit w j"
  unfolding lowest_def by (rule not_less_Least)

lemma lowest_lt: "w \<noteq> 0 \<Longrightarrow> lowest w < 32"
  using bit_lowest bit_u32_lt by blast

lemma lowest_shift:
  assumes "w \<noteq> 0" "\<not> bit w 0"
  shows "lowest w = Suc (lowest (signed_drop_bit 1 w))" "signed_drop_bit 1 w \<noteq> (0 :: u32)"
proof -
  obtain m where m: "lowest w = Suc m" using assms bit_lowest[of w] by (cases "lowest w") auto
  have lt: "Suc m < 32" using lowest_lt[OF assms(1)] m by simp
  have "bit (signed_drop_bit 1 w) m"
    using bit_lowest[OF assms(1)] m lt by (simp add: bit_signed_drop_bit_iff)
  moreover have "\<not> bit (signed_drop_bit 1 w) j" if "j < m" for j
    using that lt m lowest_least[of "Suc j" w] by (simp add: bit_signed_drop_bit_iff)
  ultimately show "lowest w = Suc (lowest (signed_drop_bit 1 w))"
    using lowest_eqI m by metis
  show "signed_drop_bit 1 w \<noteq> 0" using \<open>bit (signed_drop_bit 1 w) m\<close> by auto
qed

function ffs_loop :: "u32 \<Rightarrow> nat \<Rightarrow> nat" where
  "ffs_loop m n =
    (if m = 0 \<or> bit m 0 then n else ffs_loop (signed_drop_bit 1 m) (n + 1))"
  by pat_completeness auto
termination
  by (relation "measure (\<lambda>(m, n). lowest m)") (use lowest_shift in auto)

declare ffs_loop.simps [simp del]

definition ffs :: "u32 \<Rightarrow> nat" where
  "ffs m = (if m = 0 then 0 else ffs_loop m 1)"

definition fls :: "u32 \<Rightarrow> int" where
  "fls x =
    (if x = 0 then 0 else
     let (x, r) = (x, 32);
         (x, r) = (if x AND 0xffff0000 = 0 then (push_bit 16 x, r - 16) else (x, r));
         (x, r) = (if x AND 0xff000000 = 0 then (push_bit 8 x, r - 8) else (x, r));
         (x, r) = (if x AND 0xf0000000 = 0 then (push_bit 4 x, r - 4) else (x, r));
         (x, r) = (if x AND 0xc0000000 = 0 then (push_bit 2 x, r - 2) else (x, r));
         (x, r) = (if x AND 0x80000000 = 0 then (push_bit 1 x, r - 1) else (x, r))
     in r)"

section \<open>Correctness of the searches\<close>

definition byte_at :: "nat \<Rightarrow> u32 \<Rightarrow> nat" where
  "byte_at s w = unat (drop_bit s (w AND push_bit s 0xff))"

lemma bit_255: "bit (255 :: int) n \<longleftrightarrow> n < 8" "bit (255 :: nat) n \<longleftrightarrow> n < 8"
proof -
  have "(mask 8 :: int) = 255" "(mask 8 :: nat) = 255" by (simp_all add: mask_eq_exp_minus_1)
  then show "bit (255 :: int) n \<longleftrightarrow> n < 8" "bit (255 :: nat) n \<longleftrightarrow> n < 8"
    using bit_mask_iff[of 8 n, where 'a = int] bit_mask_iff[of 8 n, where 'a = nat] by auto
qed

lemma bit_byte_at: "s \<le> 24 \<Longrightarrow> bit (byte_at s w) j \<longleftrightarrow> j < 8 \<and> bit w (s + j)"
  by (auto simp: byte_at_def bit_unsigned_iff bit_drop_bit_eq bit_and_iff bit_push_bit_iff bit_255)

lemma byte_at_lt: "s \<le> 24 \<Longrightarrow> byte_at s w < 256"
proof -
  assume "s \<le> 24"
  then have "take_bit 8 (byte_at s w) = byte_at s w"
    by (auto simp: bit_eq_iff bit_take_bit_iff bit_byte_at)
  then show ?thesis by (simp add: take_bit_nat_eq_self_iff)
qed

lemma bitmap_table:
  "table_ok (\<lambda>i w. 2 ^ unat w dvd i \<and> odd (i div 2 ^ unat w)) 1 (tl lowest_bit_bitmap)"
  by (simp add: lowest_bit_bitmap_def)

lemma length_bitmap: "length lowest_bit_bitmap = 256"
  by (simp add: lowest_bit_bitmap_def)

lemma bitmap_entry:
  assumes "0 < i" "i < 256"
  shows "bit i (unat (lowest_bit_bitmap ! i))" "j < unat (lowest_bit_bitmap ! i) \<Longrightarrow> \<not> bit i j"
proof -
  define k where "k = unat (lowest_bit_bitmap ! i)"
  have "tl lowest_bit_bitmap ! (i - 1) = lowest_bit_bitmap ! i"
    using assms length_bitmap by (simp add: nth_tl)
  then have "2 ^ k dvd int i" and "odd (int i div 2 ^ k)"
    using table_ok_nth[OF bitmap_table, of "i - 1"] assms length_bitmap by (auto simp: k_def of_nat_diff)
  then have d: "2 ^ k dvd i" and o: "odd (i div 2 ^ k)"
    by (metis of_nat_dvd_iff of_nat_numeral of_nat_power,
        metis even_of_nat_iff of_nat_numeral of_nat_power zdiv_int)
  show "bit i (unat (lowest_bit_bitmap ! i))" using o by (simp add: bit_iff_odd k_def)
  assume "j < unat (lowest_bit_bitmap ! i)"
  then have "2 ^ Suc j dvd i" using d le_imp_power_dvd[of "Suc j" k "2::nat"] dvd_trans k_def by auto
  then show "\<not> bit i j" by (auto simp: bit_iff_odd elim!: dvdE)
qed

lemma lowest_byte:
  assumes "s \<le> 24" "byte_at s w \<noteq> 0" "\<And>j. j < s \<Longrightarrow> \<not> bit w j"
  shows "lowest w = s + unat (lowest_bit_bitmap ! byte_at s w)"
proof (rule lowest_eqI)
  let ?k = "unat (lowest_bit_bitmap ! byte_at s w)"
  show "bit w (s + ?k)"
    using bitmap_entry(1)[of "byte_at s w"] assms byte_at_lt bit_byte_at by auto
  then have k: "?k < 8" using bitmap_entry(1)[of "byte_at s w"] assms byte_at_lt bit_byte_at by auto
  fix j assume j: "j < s + ?k"
  show "\<not> bit w j"
  proof (cases "j < s")
    case False
    then obtain i where "j = s + i" by (metis le_iff_add not_less)
    with j k show ?thesis
      using bitmap_entry(2)[of "byte_at s w" i] assms byte_at_lt bit_byte_at[of s w i] by auto
  qed (use assms in auto)
qed

lemma byte_at_zero: "s \<le> 24 \<Longrightarrow> byte_at s w = 0 \<longleftrightarrow> (\<forall>j. s \<le> j \<and> j < s + 8 \<longrightarrow> \<not> bit w j)"
  by (auto simp: bit_eq_iff bit_byte_at) (metis add_less_cancel_left le_iff_add)

lemma and_byte_zero:
  assumes "s \<le> 24"
  shows "w AND push_bit s 0xff = 0 \<longleftrightarrow> byte_at s w = 0"
proof -
  have b: "bit (w AND push_bit s 0xff) n \<longleftrightarrow> bit w n \<and> s \<le> n \<and> n < s + 8" for n
    using bit_u32_lt[of w n] by (auto simp: bit_and_iff bit_push_bit_iff bit_255)
  have "w AND push_bit s 0xff = 0 \<longleftrightarrow> (\<forall>n. \<not> bit (w AND push_bit s 0xff) n)"
    using word_neq_0_bit[of "w AND push_bit s 0xff"] by blast
  then show ?thesis using assms by (simp only: b byte_at_zero) blast
qed

lemma rt_ffs_bytes:
  "rt_ffs w = (if w = 0 then 0
     else if byte_at 0 w \<noteq> 0 then int (unat (lowest_bit_bitmap ! byte_at 0 w)) + 1
     else if byte_at 8 w \<noteq> 0 then int (unat (lowest_bit_bitmap ! byte_at 8 w)) + 9
     else if byte_at 16 w \<noteq> 0 then int (unat (lowest_bit_bitmap ! byte_at 16 w)) + 17
     else int (unat (lowest_bit_bitmap ! byte_at 24 w)) + 25)"
  using and_byte_zero[of 0 w] and_byte_zero[of 8 w] and_byte_zero[of 16 w]
  by (simp add: rt_ffs_def byte_at_def)

lemma rt_ffs_lowest: "w \<noteq> 0 \<Longrightarrow> rt_ffs w = int (lowest w) + 1"
proof -
  assume w: "w \<noteq> 0"
  have z: "\<And>j. j < s + 8 \<Longrightarrow> \<not> bit w j"
    if "s \<le> 24" "byte_at s w = 0" "\<And>j. j < s \<Longrightarrow> \<not> bit w j" for s
    using that byte_at_zero[of s w] by (meson not_less)
  show ?thesis
  proof (cases "byte_at 0 w = 0")
    case b0: True
    then have z0: "\<not> bit w j" if "j < 8" for j using z[of 0 j] that by simp
    show ?thesis
    proof (cases "byte_at 8 w = 0")
      case b1: True
      then have z1: "\<not> bit w j" if "j < 16" for j using z[of 8 j] z0 that by simp
      show ?thesis
      proof (cases "byte_at 16 w = 0")
        case b2: True
        then have z2: "\<not> bit w j" if "j < 24" for j using z[of 16 j] z1 that by simp
        have "byte_at 24 w \<noteq> 0"
        proof
          assume "byte_at 24 w = 0"
          then have "\<not> bit w j" if "j < 32" for j using z[of 24 j] z2 that by simp
          then show False using w word_neq_0_bit[of w] bit_u32_lt[of w] by blast
        qed
        with lowest_byte[of 24 w] z2 w b0 b1 b2 show ?thesis by (simp add: rt_ffs_bytes)
      next
        case False
        with lowest_byte[of 16 w] z1 w b0 b1 show ?thesis by (simp add: rt_ffs_bytes)
      qed
    next
      case False
      with lowest_byte[of 8 w] z0 w b0 show ?thesis by (simp add: rt_ffs_bytes)
    qed
  next
    case False
    with lowest_byte[of 0 w] w show ?thesis by (simp add: rt_ffs_bytes)
  qed
qed

lemma ffs_loop_lowest: "m \<noteq> 0 \<Longrightarrow> ffs_loop m n = n + lowest m"
proof (induction m n rule: ffs_loop.induct)
  case (1 m n)
  show ?case
  proof (cases "bit m 0")
    case True
    then have "lowest m = 0" by (intro lowest_eqI) auto
    with True show ?thesis by (simp add: ffs_loop.simps[of m n])
  next
    case False
    with 1 lowest_shift[of m] show ?thesis by (simp add: ffs_loop.simps[of m n])
  qed
qed

section \<open>The most significant bit\<close>

definition top_bit :: "u32 \<Rightarrow> nat \<Rightarrow> bool" where
  "top_bit w h \<longleftrightarrow> bit w h \<and> (\<forall>j>h. \<not> bit w j)"

lemma top_bit_exists: "w \<noteq> 0 \<Longrightarrow> \<exists>h<32. top_bit w h"
proof -
  assume "w \<noteq> 0"
  then have ne: "{n. bit w n} \<noteq> {}" using word_neq_0_bit[of w] by auto
  have fin: "finite {n. bit w n}"
    using bit_u32_lt[of w] finite_subset[of "{n. bit w n}" "{..<32}"] by auto
  have "top_bit w (Max {n. bit w n})"
    using Max_in[OF fin ne] Max_ge[OF fin] by (auto simp: top_bit_def not_le [symmetric])
  then show ?thesis using bit_u32_lt top_bit_def by blast
qed

lemma high_mask_zero:
  "x AND push_bit (32 - k) (mask k) = (0 :: u32) \<longleftrightarrow> (\<forall>n\<ge>32 - k. \<not> bit x n)" if "k \<le> 32"
proof -
  have "bit (x AND push_bit (32 - k) (mask k)) n \<longleftrightarrow> bit x n \<and> 32 - k \<le> n" for n
    using that bit_u32_lt[of x n] by (auto simp: bit_and_iff bit_push_bit_iff bit_mask_iff)
  then show ?thesis using word_neq_0_bit[of "x AND push_bit (32 - k) (mask k)"] by metis
qed

lemma high_masks:
  "(0xffff0000 :: u32) = push_bit (32 - 16) (mask 16)" "(0xff000000 :: u32) = push_bit (32 - 8) (mask 8)"
  "(0xf0000000 :: u32) = push_bit (32 - 4) (mask 4)" "(0xc0000000 :: u32) = push_bit (32 - 2) (mask 2)"
  "(0x80000000 :: u32) = push_bit (32 - 1) (mask 1)"
  by (simp_all add: mask_eq_exp_minus_1 push_bit_eq_mult)

definition fls_stage :: "nat \<Rightarrow> u32 \<times> int \<Rightarrow> u32 \<times> int" where
  "fls_stage k = (\<lambda>(x, r). if x AND push_bit (32 - k) (mask k) = 0
     then (push_bit k x, r - int k) else (x, r))"

lemma fls_stage_eqs:
  "(if x AND 0xffff0000 = 0 then (push_bit 16 x, r - 16) else (x, r)) = fls_stage 16 (x, r)"
  "(if x AND 0xff000000 = 0 then (push_bit 8 x, r - 8) else (x, r)) = fls_stage 8 (x, r)"
  "(if x AND 0xf0000000 = 0 then (push_bit 4 x, r - 4) else (x, r)) = fls_stage 4 (x, r)"
  "(if x AND 0xc0000000 = 0 then (push_bit 2 x, r - 2) else (x, r)) = fls_stage 2 (x, r)"
  "(if x AND 0x80000000 = 0 then (push_bit 1 x, r - 1) else (x, r)) = fls_stage 1 (x, r)"
  by (simp_all only: fls_stage_def high_masks prod.case) simp_all

lemma fls_stages:
  "x \<noteq> 0 \<Longrightarrow> fls x = snd (fls_stage 1 (fls_stage 2 (fls_stage 4 (fls_stage 8 (fls_stage 16 (x, 32))))))"
  by (simp only: fls_def if_False Let_def fls_stage_eqs prod.case case_prod_unfold prod.collapse)

lemma fls_stage_step:
  assumes "top_bit x h" "h < 32" "32 - 2 * k \<le> h" "k \<le> 16"
  shows "\<exists>x' h'. fls_stage k (x, r) = (x', r - int h' + int h) \<and> top_bit x' h' \<and> h' < 32 \<and> 32 - k \<le> h'"
proof (cases "x AND push_bit (32 - k) (mask k) = 0")
  case True
  then have lt: "h < 32 - k" using high_mask_zero[of k x] assms by (auto simp: top_bit_def not_le)
  then have "top_bit (push_bit k x) (h + k)"
    using assms by (auto simp: top_bit_def bit_push_bit_iff)
  with True lt assms show ?thesis
    by (intro exI[of _ "push_bit k x"] exI[of _ "h + k"]) (auto simp: fls_stage_def)
next
  case False
  then obtain n where "32 - k \<le> n" "bit x n" using high_mask_zero[of k x] assms by auto
  then have "32 - k \<le> h" using assms(1) by (auto simp: top_bit_def) (meson leI le_trans)
  with False assms show ?thesis
    by (intro exI[of _ x] exI[of _ h]) (auto simp: fls_stage_def)
qed

lemma fls_top: "top_bit x h \<Longrightarrow> fls x = int h + 1"
proof -
  assume top: "top_bit x h"
  then have x: "x \<noteq> 0" and h: "h < 32" using bit_u32_lt by (auto simp: top_bit_def)
  obtain x1 h1 where 1: "fls_stage 16 (x, 32) = (x1, 32 - int h1 + int h)" "top_bit x1 h1" "h1 < 32" "16 \<le> h1"
    using fls_stage_step[OF top h, of 16 32] by auto
  obtain x2 h2 where 2: "fls_stage 8 (x1, 32 - int h1 + int h) = (x2, 32 - int h2 + int h)"
    "top_bit x2 h2" "h2 < 32" "24 \<le> h2"
    using fls_stage_step[OF 1(2,3), of 8 "32 - int h1 + int h"] 1 by auto
  obtain x3 h3 where 3: "fls_stage 4 (x2, 32 - int h2 + int h) = (x3, 32 - int h3 + int h)"
    "top_bit x3 h3" "h3 < 32" "28 \<le> h3"
    using fls_stage_step[OF 2(2,3), of 4 "32 - int h2 + int h"] 2 by auto
  obtain x4 h4 where 4: "fls_stage 2 (x3, 32 - int h3 + int h) = (x4, 32 - int h4 + int h)"
    "top_bit x4 h4" "h4 < 32" "30 \<le> h4"
    using fls_stage_step[OF 3(2,3), of 2 "32 - int h3 + int h"] 3 by auto
  obtain x5 h5 where 5: "fls_stage 1 (x4, 32 - int h4 + int h) = (x5, 32 - int h5 + int h)"
    "h5 < 32" "31 \<le> h5"
    using fls_stage_step[OF 4(2,3), of 1 "32 - int h4 + int h"] 4 by auto
  from 5 have "h5 = 31" by simp
  with x 1 2 3 4 5 show ?thesis by (simp add: fls_stages)
qed

end
