(* ===== verification/Kernel.thy ===== *)
theory Kernel
  imports Rt_List Bit_Search
begin

unbundle bit_operations_syntax

text \<open>
  The thread kernel of \<^verbatim>\<open>src/os/thread.c\<close>: the thread control block, the ready table and
  its priority bitmap, the scheduler, thread timers, suspending, resuming, sleeping and
  ending a thread, and the tick handler of \<^verbatim>\<open>src/lib/ls1c_sys_tick.c\<close> that drives them.

  The kernel state is one record. A thread is addressed by a number that stands for the
  address of its control block; every list node has an address in \<open>node\<close> and the links of
  all nodes are one store of \<open>Rt_List\<close>. \<open>irq\<close> is the interrupt enable bit that
  \<^verbatim>\<open>rt_hw_interrupt_disable\<close> returns and clears and \<^verbatim>\<open>rt_hw_interrupt_enable\<close> restores.
  \<open>cpu\<close> is the thread whose register context is on the processor and \<open>cpu_sp\<close> the stack
  pointer register; \<open>frames\<close> has, for a thread that is not on the processor, the register
  frame that \<^verbatim>\<open>SAVE_ALL\<close> left on top of its stack. After a switch the state is the one in
  which the new thread goes on, so what follows the call of \<^verbatim>\<open>rt_schedule\<close> in the caller is
  not executed then: it waits in the caller's frame. Where the code prints and spins
  forever, the operation returns \<open>Inl\<close> with the reason.
\<close>

section \<open>State\<close>

type_synonym tid = nat

datatype node =
    Ready nat | Dead | All_threads | Timer_list
  | TList tid | AllList tid | TimerNode tid
  | SemQ nat | MbQ nat | MbSendQ nat

datatype status =
    RT_THREAD_INIT | RT_THREAD_READY | RT_THREAD_SUSPEND | RT_THREAD_SLEEP
  | RT_THREAD_RUNNING | RT_THREAD_CLOSE | RT_THREAD_DEAD_SLEEP

datatype halt =
    Stack_overflow tid | Still_ready tid | No_current_thread | Bad_list | Assert_failed | Null_access

definition RT_EOK :: int where "RT_EOK = 0"
definition RT_ERROR :: int where "RT_ERROR = 1"
definition RT_ETIMEOUT :: int where "RT_ETIMEOUT = 2"
definition RT_EFULL :: int where "RT_EFULL = 3"

record rt_timer =
  timer_active :: bool
  timer_init_tick :: u32
  timeout_tick :: u32

record rt_thread =
  thread_name :: "u8 list"
  thread_id :: u32
  current_priority :: u8
  init_priority :: u8
  init_tick :: u32
  remaining_tick :: u32
  number_mask :: u32
  parameter :: u32
  statu :: status
  sp :: u32
  stack_addr :: u32
  stack_size :: u32
  stack_low :: u8
  error :: int
  thread_timer :: rt_timer

text \<open>
  A saved context, as far as the kernel depends on it: the stack pointer and the interrupt
  enable bit of the status register in the frame, and where the thread goes on: in
  \<^verbatim>\<open>rt_schedule\<close> behind \<^verbatim>\<open>rt_hw_context_switch\<close>, whose local \<^verbatim>\<open>level\<close> is part of the saved
  context, or elsewhere, where it was interrupted or at its entry.
\<close>

datatype resume_point = After_switch bool | Elsewhere

record frame =
  pt_r29 :: u32
  pt_status :: bool
  pt_epc :: resume_point

record kernel =
  links :: "node links"
  tcb :: "tid \<Rightarrow> rt_thread"
  rt_current_thread :: "tid option"
  rt_current_priority :: u8
  rt_thread_ready_priority_group :: u32
  system_tick :: u32
  rt_interrupt_nest :: u32
  irq :: bool
  cpu :: "tid option"
  cpu_sp :: u32
  frames :: "tid \<Rightarrow> frame"
  rt_thread_switch_interrupt_flag :: bool
  rt_interrupt_from_thread :: "tid option"
  rt_interrupt_to_thread :: "tid option"

definition upd_tcb ::
  "tid \<Rightarrow> (rt_thread \<Rightarrow> rt_thread) \<Rightarrow> 'z kernel_scheme \<Rightarrow> 'z kernel_scheme" where
  "upd_tcb t f k = k\<lparr>tcb := (tcb k)(t := f (tcb k t))\<rparr>"

definition upd_links ::
  "(node links \<Rightarrow> node links) \<Rightarrow> 'z kernel_scheme \<Rightarrow> 'z kernel_scheme" where
  "upd_links f k = k\<lparr>links := f (links k)\<rparr>"

abbreviation statu_of :: "'z kernel_scheme \<Rightarrow> tid \<Rightarrow> status" where
  "statu_of k t \<equiv> statu (tcb k t)"

abbreviation prio_of :: "'z kernel_scheme \<Rightarrow> tid \<Rightarrow> nat" where
  "prio_of k t \<equiv> unat (current_priority (tcb k t))"

definition set_statu :: "tid \<Rightarrow> status \<Rightarrow> 'z kernel_scheme \<Rightarrow> 'z kernel_scheme" where
  "set_statu t s = upd_tcb t (\<lambda>b. b\<lparr>statu := s\<rparr>)"

definition rt_hw_interrupt_disable :: "'z kernel_scheme \<Rightarrow> bool \<times> 'z kernel_scheme" where
  "rt_hw_interrupt_disable k = (irq k, k\<lparr>irq := False\<rparr>)"

definition rt_hw_interrupt_enable :: "bool \<Rightarrow> 'z kernel_scheme \<Rightarrow> 'z kernel_scheme" where
  "rt_hw_interrupt_enable level k = k\<lparr>irq := level\<rparr>"

section \<open>Timers\<close>

definition upd_timer ::
  "tid \<Rightarrow> (rt_timer \<Rightarrow> rt_timer) \<Rightarrow> 'z kernel_scheme \<Rightarrow> 'z kernel_scheme" where
  "upd_timer t f = upd_tcb t (\<lambda>b. b\<lparr>thread_timer := f (thread_timer b)\<rparr>)"

abbreviation timer_on :: "'z kernel_scheme \<Rightarrow> tid \<Rightarrow> bool" where
  "timer_on k t \<equiv> timer_active (thread_timer (tcb k t))"

definition rt_timer_init :: "tid \<Rightarrow> u32 \<Rightarrow> 'z kernel_scheme \<Rightarrow> 'z kernel_scheme" where
  "rt_timer_init t time k =
    (let k = upd_timer t (\<lambda>m. m\<lparr>timer_active := False\<rparr>) k;
         k = upd_timer t (\<lambda>m. m\<lparr>timeout_tick := 0\<rparr>) k;
         k = upd_timer t (\<lambda>m. m\<lparr>timer_init_tick := time\<rparr>) k
     in upd_links (rt_list_init (TimerNode t)) k)"

definition rt_timer_stop :: "tid \<Rightarrow> 'z kernel_scheme \<Rightarrow> int \<times> 'z kernel_scheme" where
  "rt_timer_stop t k =
    (let (level, k) = rt_hw_interrupt_disable k in
     if \<not> timer_on k t then (- RT_ERROR, rt_hw_interrupt_enable level k)
     else
       let k = upd_links (rt_list_remove (TimerNode t)) k;
           k = upd_timer t (\<lambda>m. m\<lparr>timer_active := False\<rparr>) k
       in (RT_EOK, rt_hw_interrupt_enable level k))"

definition sys_tick_get :: "'z kernel_scheme \<Rightarrow> u32" where
  "sys_tick_get k = system_tick k"

definition rt_timer_start :: "tid \<Rightarrow> 'z kernel_scheme \<Rightarrow> 'z kernel_scheme" where
  "rt_timer_start t k =
    (let (level, k) = rt_hw_interrupt_disable k;
         k = upd_timer t (\<lambda>m. m\<lparr>timeout_tick := sys_tick_get k + timer_init_tick m\<rparr>) k;
         k = upd_links (rt_list_insert_after Timer_list (TimerNode t)) k;
         k = upd_timer t (\<lambda>m. m\<lparr>timer_active := True\<rparr>) k
     in rt_hw_interrupt_enable level k)"

section \<open>The ready table and the scheduler\<close>

definition rt_schedule_insert_thread :: "tid \<Rightarrow> 'z kernel_scheme \<Rightarrow> 'z kernel_scheme" where
  "rt_schedule_insert_thread t k =
    (let (temp, k) = rt_hw_interrupt_disable k in
     if Some t = rt_current_thread k then
       rt_hw_interrupt_enable temp (set_statu t RT_THREAD_RUNNING k)
     else
       let k = set_statu t RT_THREAD_READY k;
           k = upd_links (rt_list_insert_before (Ready (prio_of k t)) (TList t)) k;
           k = k\<lparr>rt_thread_ready_priority_group :=
                  rt_thread_ready_priority_group k OR number_mask (tcb k t)\<rparr>
       in rt_hw_interrupt_enable temp k)"

definition rt_schedule_remove_thread :: "tid \<Rightarrow> 'z kernel_scheme \<Rightarrow> 'z kernel_scheme" where
  "rt_schedule_remove_thread t k =
    (let (level, k) = rt_hw_interrupt_disable k;
         k = upd_links (rt_list_remove (TList t)) k;
         k = (if rt_list_isempty (Ready (prio_of k t)) (links k)
              then k\<lparr>rt_thread_ready_priority_group :=
                       rt_thread_ready_priority_group k AND NOT (number_mask (tcb k t))\<rparr>
              else k)
     in rt_hw_interrupt_enable level k)"

text \<open>
  \<^verbatim>\<open>rt_list_entry\<close> turns the address of a list node into the thread that holds it; on the
  header of an empty queue it would compute a bogus address, which is \<open>None\<close> here.
\<close>

fun thread_entry :: "node \<Rightarrow> tid option" where
  "thread_entry (TList t) = Some t"
| "thread_entry _ = None"

definition get_highest_priority_thread :: "'z kernel_scheme \<Rightarrow> tid option \<times> u32" where
  "get_highest_priority_thread k =
    (let highest = rt_ffs (rt_thread_ready_priority_group k) - 1
     in (thread_entry (lnext (links k) (Ready (nat highest))), word_of_int highest))"

definition rt_scheduler_stack_check :: "tid \<Rightarrow> 'z kernel_scheme \<Rightarrow> bool" where
  "rt_scheduler_stack_check t k \<longleftrightarrow>
    \<not> (stack_low (tcb k t) \<noteq> 0x23 \<or>
       sp (tcb k t) \<le> stack_addr (tcb k t) \<or>
       sp (tcb k t) > stack_addr (tcb k t) + stack_size (tcb k t))"

text \<open>
  The macros \<^verbatim>\<open>SAVE_ALL\<close> and \<^verbatim>\<open>RESTORE_ALL_AND_RET\<close> of \<^verbatim>\<open>stackframe.h\<close> for the thread on the
  processor and the thread whose frame the stack pointer is set to. The restored thread goes
  on where it was saved; inside \<^verbatim>\<open>rt_schedule\<close> the next thing it does is
  \<^verbatim>\<open>rt_hw_interrupt_enable(level)\<close> with its own \<^verbatim>\<open>level\<close>.
\<close>

definition PT_SIZE :: u32 where "PT_SIZE = 152"

definition SAVE_ALL :: "tid \<Rightarrow> resume_point \<Rightarrow> 'z kernel_scheme \<Rightarrow> 'z kernel_scheme" where
  "SAVE_ALL t epc k =
    k\<lparr>frames := (frames k)(t := \<lparr>pt_r29 = cpu_sp k, pt_status = irq k, pt_epc = epc\<rparr>),
      cpu_sp := cpu_sp k - PT_SIZE\<rparr>"

definition RESTORE_ALL_AND_RET :: "tid \<Rightarrow> 'z kernel_scheme \<Rightarrow> 'z kernel_scheme" where
  "RESTORE_ALL_AND_RET t k =
    (let f = frames k t;
         k = k\<lparr>irq := pt_status f, cpu_sp := pt_r29 f, cpu := Some t\<rparr>
     in case pt_epc f of
          After_switch level \<Rightarrow> rt_hw_interrupt_enable level k
        | Elsewhere \<Rightarrow> k)"

definition rt_hw_context_switch :: "tid \<Rightarrow> tid \<Rightarrow> bool \<Rightarrow> 'z kernel_scheme \<Rightarrow> 'z kernel_scheme" where
  "rt_hw_context_switch from to level k =
    (let k = SAVE_ALL from (After_switch level) k;
         k = upd_tcb from (\<lambda>b. b\<lparr>sp := cpu_sp k\<rparr>) k;
         k = k\<lparr>cpu_sp := sp (tcb k to)\<rparr>
     in RESTORE_ALL_AND_RET to k)"

definition rt_hw_context_switch_to :: "tid \<Rightarrow> 'z kernel_scheme \<Rightarrow> 'z kernel_scheme" where
  "rt_hw_context_switch_to to k = RESTORE_ALL_AND_RET to (k\<lparr>cpu_sp := sp (tcb k to)\<rparr>)"

definition rt_hw_context_switch_interrupt ::
  "tid \<Rightarrow> tid \<Rightarrow> 'z kernel_scheme \<Rightarrow> 'z kernel_scheme" where
  "rt_hw_context_switch_interrupt from to k =
    (let k = (if rt_thread_switch_interrupt_flag k then k
              else k\<lparr>rt_thread_switch_interrupt_flag := True, rt_interrupt_from_thread := Some from\<rparr>)
     in k\<lparr>rt_interrupt_to_thread := Some to\<rparr>)"

definition rt_schedule :: "'z kernel_scheme \<Rightarrow> halt + 'z kernel_scheme" where
  "rt_schedule k =
    (let (level, k) = rt_hw_interrupt_disable k in
     case rt_current_thread k of
       None \<Rightarrow> Inl No_current_thread
     | Some from_thread \<Rightarrow>
       if rt_thread_ready_priority_group k \<noteq> 0 then
         (case get_highest_priority_thread k of
            (None, _) \<Rightarrow> Inl Bad_list
          | (Some to_thread, highest_ready_priority) \<Rightarrow>
            if Some to_thread \<noteq> rt_current_thread k then
              let k = k\<lparr>rt_current_priority := ucast highest_ready_priority\<rparr>;
                  k = k\<lparr>rt_current_thread := Some to_thread\<rparr>;
                  k = set_statu to_thread RT_THREAD_RUNNING k;
                  k = (if statu_of k from_thread \<noteq> RT_THREAD_CLOSE
                          \<and> statu_of k from_thread \<noteq> RT_THREAD_SLEEP
                          \<and> statu_of k from_thread \<noteq> RT_THREAD_SUSPEND
                       then rt_schedule_insert_thread from_thread k else k);
                  k = rt_schedule_remove_thread to_thread k
              in if \<not> rt_scheduler_stack_check to_thread k then Inl (Stack_overflow to_thread)
                 else if rt_interrupt_nest k = 0 then
                   Inr (rt_hw_context_switch from_thread to_thread level k)
                 else
                   Inr (rt_hw_interrupt_enable level
                          (rt_hw_context_switch_interrupt from_thread to_thread k))
            else Inl (Still_ready from_thread))
       else Inr (rt_hw_interrupt_enable level k))"

section \<open>Suspending, resuming, sleeping, ending\<close>

definition rt_thread_suspend :: "tid \<Rightarrow> status \<Rightarrow> 'z kernel_scheme \<Rightarrow> int \<times> 'z kernel_scheme" where
  "rt_thread_suspend t s k =
    (let (temp, k) = rt_hw_interrupt_disable k;
         stat = statu_of k t in
     if stat \<noteq> RT_THREAD_READY \<and> stat \<noteq> RT_THREAD_RUNNING then (- RT_ERROR, k)
     else
       let k = rt_schedule_remove_thread t k;
           k = set_statu t s k;
           (_, k) = rt_timer_stop t k
       in (RT_EOK, rt_hw_interrupt_enable temp k))"

definition rt_thread_resume :: "tid \<Rightarrow> 'z kernel_scheme \<Rightarrow> int \<times> 'z kernel_scheme" where
  "rt_thread_resume t k =
    (if statu_of k t \<noteq> RT_THREAD_SUSPEND \<and> statu_of k t \<noteq> RT_THREAD_SLEEP then (- RT_ERROR, k)
     else
       let (temp, k) = rt_hw_interrupt_disable k;
           k = upd_links (rt_list_remove (TList t)) k;
           (_, k) = rt_timer_stop t k;
           k = rt_schedule_insert_thread t k
       in (RT_EOK, rt_hw_interrupt_enable temp k))"

definition rt_thread_sleep :: "u32 \<Rightarrow> 'z kernel_scheme \<Rightarrow> halt + 'z kernel_scheme" where
  "rt_thread_sleep tick k =
    (let (temp, k) = rt_hw_interrupt_disable k in
     case rt_current_thread k of
       None \<Rightarrow> Inl No_current_thread
     | Some t \<Rightarrow>
       let k = upd_timer t (\<lambda>m. m\<lparr>timer_init_tick := tick\<rparr>) k;
           (_, k) = rt_thread_suspend t RT_THREAD_SLEEP k;
           k = rt_timer_start t k;
           k = rt_hw_interrupt_enable temp k
       in rt_schedule k)"

definition rt_thread_delay :: "u32 \<Rightarrow> 'z kernel_scheme \<Rightarrow> halt + 'z kernel_scheme" where
  "rt_thread_delay tick k = rt_thread_sleep tick k"

text \<open>The part shared by \<^verbatim>\<open>rt_thread_exit\<close>, \<^verbatim>\<open>rt_thread_dead_exit\<close> and \<^verbatim>\<open>killThreadFun\<close>.\<close>

definition close_thread :: "tid \<Rightarrow> 'z kernel_scheme \<Rightarrow> 'z kernel_scheme" where
  "close_thread t k =
    (let k = set_statu t RT_THREAD_CLOSE k;
         (_, k) = rt_timer_stop t k;
         k = rt_schedule_remove_thread t k
     in upd_links (rt_list_insert_after Dead (TList t)) k)"

definition rt_thread_exit :: "'z kernel_scheme \<Rightarrow> halt + 'z kernel_scheme" where
  "rt_thread_exit k =
    (let (temp, k) = rt_hw_interrupt_disable k in
     case rt_current_thread k of
       None \<Rightarrow> Inl No_current_thread
     | Some t \<Rightarrow> rt_schedule (rt_hw_interrupt_enable temp (close_thread t k)))"

definition rt_thread_dead_exit :: "'z kernel_scheme \<Rightarrow> halt + 'z kernel_scheme" where
  "rt_thread_dead_exit k =
    (let (temp, k) = rt_hw_interrupt_disable k in
     case rt_current_thread k of
       None \<Rightarrow> Inl No_current_thread
     | Some t \<Rightarrow>
       let k = (if statu_of k t \<noteq> RT_THREAD_CLOSE then close_thread t k else k)
       in rt_schedule (rt_hw_interrupt_enable temp k))"

section \<open>Time\<close>

definition rt_thread_timeout :: "tid \<Rightarrow> 'z kernel_scheme \<Rightarrow> halt + 'z kernel_scheme" where
  "rt_thread_timeout t k =
    (let k = upd_tcb t (\<lambda>b. b\<lparr>error := - RT_ETIMEOUT\<rparr>) k;
         k = upd_links (rt_list_remove (TList t)) k;
         k = rt_schedule_insert_thread t k
     in rt_schedule k)"

text \<open>
  One round of the walk over the timer list: \<open>pos\<close> is the node under the cursor, and the
  successor was read before the body ran, as \<^verbatim>\<open>rt_list_for_each_entry_safe\<close> does. Thread
  timers are the timers of the model, their callback is \<^verbatim>\<open>rt_thread_timeout\<close>. The walk is
  called by the tick handler only, in an interrupt, where \<^verbatim>\<open>rt_schedule\<close> records the switch
  and returns.
\<close>

definition timer_expire :: "tid \<Rightarrow> 'z kernel_scheme \<Rightarrow> halt + 'z kernel_scheme" where
  "timer_expire t k =
    (if timer_on k t \<and> sys_tick_get k > timeout_tick (thread_timer (tcb k t)) then
       (case rt_thread_timeout t (upd_links (rt_list_remove (TimerNode t)) k) of
          Inl e \<Rightarrow> Inl e
        | Inr k \<Rightarrow> Inr (upd_timer t (\<lambda>m. m\<lparr>timer_active := False\<rparr>) k))
     else Inr k)"

partial_function (option) timer_walk ::
  "node \<Rightarrow> node \<Rightarrow> 'z kernel_scheme \<Rightarrow> (halt + 'z kernel_scheme) option" where
  "timer_walk pos nxt k =
    (if pos = Timer_list then Some (Inr k)
     else case pos of
       TimerNode t \<Rightarrow>
         (case timer_expire t k of
            Inl e \<Rightarrow> Some (Inl e)
          | Inr k' \<Rightarrow> timer_walk nxt (lnext (links k') nxt) k')
     | _ \<Rightarrow> Some (Inl Bad_list))"

definition rt_timer_check :: "'z kernel_scheme \<Rightarrow> (halt + 'z kernel_scheme) option" where
  "rt_timer_check k =
    (let (level, k) = rt_hw_interrupt_disable k;
         pos = lnext (links k) Timer_list
     in case timer_walk pos (lnext (links k) pos) k of
          None \<Rightarrow> None
        | Some (Inl e) \<Rightarrow> Some (Inl e)
        | Some (Inr k) \<Rightarrow> Some (Inr (rt_hw_interrupt_enable level k)))"

definition charge_tick :: "tid \<Rightarrow> 'z kernel_scheme \<Rightarrow> halt + 'z kernel_scheme" where
  "charge_tick c k =
    (let k = upd_tcb c (\<lambda>b. b\<lparr>remaining_tick := remaining_tick b - 1\<rparr>) k in
     if remaining_tick (tcb k c) = 0 then
       rt_schedule (upd_tcb c (\<lambda>b. b\<lparr>remaining_tick := init_tick b\<rparr>) k)
     else Inr k)"

definition threadTask :: "'z kernel_scheme \<Rightarrow> halt + 'z kernel_scheme" where
  "threadTask k =
    (let (level, k) = rt_hw_interrupt_disable k in
     case rt_current_thread k of
       None \<Rightarrow> Inr (rt_hw_interrupt_enable level k)
     | Some c \<Rightarrow>
       (case charge_tick c k of
          Inl e \<Rightarrow> Inl e
        | Inr k' \<Rightarrow> Inr (if cpu k' = cpu k then rt_hw_interrupt_enable level k' else k')))"

definition sys_tick_increase :: "'z kernel_scheme \<Rightarrow> 'z kernel_scheme" where
  "sys_tick_increase k = k\<lparr>system_tick := system_tick k + 1\<rparr>"

definition sys_tick_handler :: "'z kernel_scheme \<Rightarrow> (halt + 'z kernel_scheme) option" where
  "sys_tick_handler k =
    (let k = sys_tick_increase k in
     case rt_current_thread k of
       None \<Rightarrow> Some (Inr k)
     | Some c \<Rightarrow>
       (case charge_tick c k of
          Inl e \<Rightarrow> Some (Inl e)
        | Inr k \<Rightarrow> rt_timer_check k))"

text \<open>The interrupt frame around a handler (\<^verbatim>\<open>handle_int\<close> in \<^verbatim>\<open>src/os/context_gcc.S\<close>).\<close>

definition rt_interrupt_enter :: "'z kernel_scheme \<Rightarrow> 'z kernel_scheme" where
  "rt_interrupt_enter k =
    (let (level, k) = rt_hw_interrupt_disable k;
         k = k\<lparr>rt_interrupt_nest := rt_interrupt_nest k + 1\<rparr>
     in rt_hw_interrupt_enable level k)"

definition rt_interrupt_leave :: "'z kernel_scheme \<Rightarrow> 'z kernel_scheme" where
  "rt_interrupt_leave k =
    (let (level, k) = rt_hw_interrupt_disable k;
         k = k\<lparr>rt_interrupt_nest := rt_interrupt_nest k - 1\<rparr>
     in rt_hw_interrupt_enable level k)"

text \<open>
  \<^verbatim>\<open>handle_int\<close>: the frame goes on the stack of the interrupted thread, on which the handlers
  run as well. On the way out a switch that the scheduler recorded stores the stack pointer in
  the control block of the thread to leave and loads that of the other one. Before the first
  thread runs, the start-up code is interrupted and goes on afterwards.
\<close>

definition irq_entry :: "'z kernel_scheme \<Rightarrow> 'z kernel_scheme" where
  "irq_entry k = (case cpu k of None \<Rightarrow> k | Some c \<Rightarrow> SAVE_ALL c Elsewhere k)"

definition irq_return :: "'z kernel_scheme \<Rightarrow> 'z kernel_scheme" where
  "irq_return k =
    (if rt_thread_switch_interrupt_flag k then
       let k = k\<lparr>rt_thread_switch_interrupt_flag := False\<rparr>;
           k = (case rt_interrupt_from_thread k of None \<Rightarrow> k | Some f \<Rightarrow> upd_tcb f (\<lambda>b. b\<lparr>sp := cpu_sp k\<rparr>) k)
       in (case rt_interrupt_to_thread k of
             None \<Rightarrow> k
           | Some t \<Rightarrow> RESTORE_ALL_AND_RET t (k\<lparr>cpu_sp := sp (tcb k t)\<rparr>))
     else case cpu k of None \<Rightarrow> k | Some c \<Rightarrow> RESTORE_ALL_AND_RET c k)"

definition timer_interrupt :: "'z kernel_scheme \<Rightarrow> (halt + 'z kernel_scheme) option" where
  "timer_interrupt k =
    (case sys_tick_handler (rt_interrupt_enter (irq_entry k)) of
       None \<Rightarrow> None
     | Some (Inl e) \<Rightarrow> Some (Inl e)
     | Some (Inr k) \<Rightarrow> Some (Inr (irq_return (rt_interrupt_leave k))))"

definition thread_init :: "'z kernel_scheme \<Rightarrow> 'z kernel_scheme" where
  "thread_init k =
    (let k = upd_links (\<lambda>h. foldl (\<lambda>h p. rt_list_init (Ready p) h) h [0..<32]) k;
         k = upd_links (rt_list_init Dead) k;
         k = upd_links (rt_list_init All_threads) k;
         k = upd_links (rt_list_init Timer_list) k
     in k\<lparr>rt_thread_ready_priority_group := 0\<rparr>)"

definition thread_start :: "'z kernel_scheme \<Rightarrow> halt + 'z kernel_scheme" where
  "thread_start k =
    (case fst (get_highest_priority_thread k) of
       None \<Rightarrow> Inl Bad_list
     | Some t \<Rightarrow>
       let k = k\<lparr>rt_current_thread := Some t\<rparr>;
           k = rt_schedule_remove_thread t k;
           k = set_statu t RT_THREAD_RUNNING k
       in Inr (rt_hw_context_switch_to t k))"

end
