(* ===== verification/Kernel_Inv.thy ===== *)
theory Kernel_Inv
  imports Kernel
begin

unbundle bit_operations_syntax

text \<open>
  The invariant of the thread kernel and its preservation by the operations of \<open>Kernel\<close>.
  \<open>kinv E S L q k\<close> says that the links of the state \<open>k\<close> hold the queues \<open>q\<close>: for every
  header (the 32 ready queues, the dead list, the list of all threads, the timer list and
  the wait queues \<open>S\<close> of initialised semaphores and mailboxes) the sequence \<open>q l\<close> of nodes,
  pairwise disjoint, over the threads \<open>L\<close>; that a thread stands in the queue its status
  says and a ready thread in the queue of its priority; that the bitmap has the bits of
  the non-empty ready queues; and that the timer list holds the active timers. Threads of
  \<open>E\<close> are being moved: they are in no queue and their status is not read yet.
\<close>

section \<open>The interrupt bracket\<close>

text \<open>Disabling and restoring interrupts around an operation leaves the enable bit as it was.\<close>

lemmas irq_defs = rt_hw_interrupt_disable_def rt_hw_interrupt_enable_def

lemma rt_schedule_remove_thread_eq:
  "rt_schedule_remove_thread t k =
    (upd_links (rt_list_remove (TList t)) k)\<lparr>rt_thread_ready_priority_group :=
       (if rt_list_isempty (Ready (prio_of k t)) (rt_list_remove (TList t) (links k))
        then rt_thread_ready_priority_group k AND NOT (number_mask (tcb k t))
        else rt_thread_ready_priority_group k)\<rparr>"
  by (simp add: rt_schedule_remove_thread_def irq_defs upd_links_def Let_def)

lemma rt_schedule_insert_thread_eq:
  "rt_schedule_insert_thread t k =
    (if rt_current_thread k = Some t then set_statu t RT_THREAD_RUNNING k
     else (upd_links (rt_list_insert_before (Ready (prio_of k t)) (TList t))
             (set_statu t RT_THREAD_READY k))\<lparr>rt_thread_ready_priority_group :=
               rt_thread_ready_priority_group k OR number_mask (tcb k t)\<rparr>)"
  by (auto simp: rt_schedule_insert_thread_def irq_defs upd_links_def set_statu_def upd_tcb_def Let_def)

lemma rt_timer_stop_eq:
  "rt_timer_stop t k =
    (if timer_on k t
     then (RT_EOK, upd_timer t (\<lambda>m. m\<lparr>timer_active := False\<rparr>) (upd_links (rt_list_remove (TimerNode t)) k))
     else (- RT_ERROR, k))"
  by (simp add: rt_timer_stop_def irq_defs upd_links_def upd_timer_def upd_tcb_def Let_def)

lemma rt_timer_start_eq:
  "rt_timer_start t k =
    upd_timer t (\<lambda>m. m\<lparr>timeout_tick := system_tick k + timer_init_tick m, timer_active := True\<rparr>)
      (upd_links (rt_list_insert_after Timer_list (TimerNode t)) k)"
  by (simp add: rt_timer_start_def irq_defs upd_links_def upd_timer_def upd_tcb_def sys_tick_get_def Let_def)

section \<open>The invariant\<close>

definition members :: "tid set \<Rightarrow> node set" where
  "members L = TList ` L \<union> AllList ` L \<union> TimerNode ` L"

definition wait_queues :: "node set" where
  "wait_queues = range SemQ \<union> range MbQ \<union> range MbSendQ"

definition headers :: "node set \<Rightarrow> node set" where
  "headers S = Ready ` {..<32} \<union> {Dead, All_threads, Timer_list} \<union> (S \<inter> wait_queues)"

fun place :: "'z kernel_scheme \<Rightarrow> node \<Rightarrow> tid \<Rightarrow> bool" where
  "place k (Ready p) t \<longleftrightarrow> statu_of k t = RT_THREAD_READY \<and> prio_of k t = p"
| "place k Dead t \<longleftrightarrow> statu_of k t = RT_THREAD_CLOSE"
| "place k (SemQ s) t \<longleftrightarrow> statu_of k t = RT_THREAD_SUSPEND"
| "place k (MbQ m) t \<longleftrightarrow> statu_of k t = RT_THREAD_SUSPEND"
| "place k (MbSendQ m) t \<longleftrightarrow> statu_of k t = RT_THREAD_SUSPEND"
| "place k _ t \<longleftrightarrow> False"

definition kinv ::
  "tid set \<Rightarrow> node set \<Rightarrow> tid set \<Rightarrow> (node \<Rightarrow> node list) \<Rightarrow> 'z kernel_scheme \<Rightarrow> bool" where
  "kinv E S L q k \<longleftrightarrow>
    disjoint_queues dll (headers S) (members L) q (links k) \<and>
    (\<forall>t\<in>L. prio_of k t < 32 \<and> number_mask (tcb k t) = 2 ^ prio_of k t) \<and>
    (\<forall>l\<in>headers S. \<forall>t. TList t \<in> set (q l) \<longrightarrow> t \<notin> E \<and> place k l t) \<and>
    (\<forall>l\<in>headers S. \<forall>t. TimerNode t \<in> set (q l) \<longrightarrow> l = Timer_list) \<and>
    (\<forall>l\<in>headers S. \<forall>t. AllList t \<in> set (q l) \<longrightarrow> l = All_threads) \<and>
    (\<forall>t\<in>L. t \<notin> E \<longrightarrow> statu_of k t = RT_THREAD_READY \<longrightarrow> TList t \<in> set (q (Ready (prio_of k t)))) \<and>
    (\<forall>t\<in>L. timer_on k t \<longleftrightarrow> TimerNode t \<in> set (q Timer_list)) \<and>
    (\<forall>p<32. bit (rt_thread_ready_priority_group k) p \<longleftrightarrow> q (Ready p) \<noteq> []) \<and>
    (\<forall>c. rt_current_thread k = Some c \<longrightarrow> c \<in> L \<and> (c \<notin> E \<longrightarrow> statu_of k c \<noteq> RT_THREAD_READY))"

lemma kinvD:
  assumes "kinv E S L q k"
  shows kinv_queues: "disjoint_queues dll (headers S) (members L) q (links k)"
    and kinv_prio: "t \<in> L \<Longrightarrow> prio_of k t < 32"
    and kinv_mask: "t \<in> L \<Longrightarrow> number_mask (tcb k t) = 2 ^ prio_of k t"
    and kinv_place: "TList t \<in> set (q l) \<Longrightarrow> l \<in> headers S \<Longrightarrow> t \<notin> E \<and> place k l t"
    and kinv_timer_only: "TimerNode t \<in> set (q l) \<Longrightarrow> l \<in> headers S \<Longrightarrow> l = Timer_list"
    and kinv_all_only: "AllList t \<in> set (q l) \<Longrightarrow> l \<in> headers S \<Longrightarrow> l = All_threads"
    and kinv_ready: "t \<in> L \<Longrightarrow> t \<notin> E \<Longrightarrow> statu_of k t = RT_THREAD_READY \<Longrightarrow>
      TList t \<in> set (q (Ready (prio_of k t)))"
    and kinv_timer: "t \<in> L \<Longrightarrow> timer_on k t \<longleftrightarrow> TimerNode t \<in> set (q Timer_list)"
    and kinv_group: "p < 32 \<Longrightarrow> bit (rt_thread_ready_priority_group k) p \<longleftrightarrow> q (Ready p) \<noteq> []"
    and kinv_current: "rt_current_thread k = Some c \<Longrightarrow> c \<in> L"
    and kinv_current_statu: "rt_current_thread k = Some c \<Longrightarrow> c \<notin> E \<Longrightarrow> statu_of k c \<noteq> RT_THREAD_READY"
proof -
  show "TimerNode t \<in> set (q l) \<Longrightarrow> l \<in> headers S \<Longrightarrow> l = Timer_list"
    using assms unfolding kinv_def by blast
  show "AllList t \<in> set (q l) \<Longrightarrow> l \<in> headers S \<Longrightarrow> l = All_threads"
    using assms unfolding kinv_def by blast
qed (use assms in \<open>simp_all add: kinv_def\<close>)

lemma kinvI:
  assumes "disjoint_queues dll (headers S) (members L) q (links k)"
    and "\<And>t. t \<in> L \<Longrightarrow> prio_of k t < 32" "\<And>t. t \<in> L \<Longrightarrow> number_mask (tcb k t) = 2 ^ prio_of k t"
    and "\<And>t l. TList t \<in> set (q l) \<Longrightarrow> l \<in> headers S \<Longrightarrow> t \<notin> E \<and> place k l t"
    and "\<And>t l. TimerNode t \<in> set (q l) \<Longrightarrow> l \<in> headers S \<Longrightarrow> l = Timer_list"
    and "\<And>t l. AllList t \<in> set (q l) \<Longrightarrow> l \<in> headers S \<Longrightarrow> l = All_threads"
    and "\<And>t. t \<in> L \<Longrightarrow> t \<notin> E \<Longrightarrow> statu_of k t = RT_THREAD_READY \<Longrightarrow>
      TList t \<in> set (q (Ready (prio_of k t)))"
    and "\<And>t. t \<in> L \<Longrightarrow> timer_on k t \<longleftrightarrow> TimerNode t \<in> set (q Timer_list)"
    and "\<And>p. p < 32 \<Longrightarrow> bit (rt_thread_ready_priority_group k) p \<longleftrightarrow> q (Ready p) \<noteq> []"
    and "\<And>c. rt_current_thread k = Some c \<Longrightarrow> c \<in> L \<and> (c \<notin> E \<longrightarrow> statu_of k c \<noteq> RT_THREAD_READY)"
  shows "kinv E S L q k"
  using assms by (simp add: kinv_def)

lemma in_headers [simp]:
  "Ready p \<in> headers S \<longleftrightarrow> p < 32" "Dead \<in> headers S" "All_threads \<in> headers S"
  "Timer_list \<in> headers S" "l \<in> wait_queues \<Longrightarrow> l \<in> headers S \<longleftrightarrow> l \<in> S"
  "TList t \<notin> headers S" "TimerNode t \<notin> headers S" "AllList t \<notin> headers S"
  by (auto simp: headers_def wait_queues_def)

lemma in_members [simp]:
  "TList t \<in> members L \<longleftrightarrow> t \<in> L" "AllList t \<in> members L \<longleftrightarrow> t \<in> L" "TimerNode t \<in> members L \<longleftrightarrow> t \<in> L"
  by (auto simp: members_def)

lemma kinv_distinct: "kinv E S L q k \<Longrightarrow> l \<in> headers S \<Longrightarrow> distinct (q l)"
  using kinv_queues[of E S L q k] dll_distinct[of "links k" l "q l"]
  unfolding disjoint_queues_def by simp

lemma kinv_in_L:
  assumes "kinv E S L q k" "l \<in> headers S"
  shows "TList t \<in> set (q l) \<Longrightarrow> t \<in> L" "TimerNode t \<in> set (q l) \<Longrightarrow> t \<in> L"
proof -
  have "set (q l) \<subseteq> members L"
    using kinv_queues[OF assms(1)] assms(2) unfolding disjoint_queues_def by simp
  then show "TList t \<in> set (q l) \<Longrightarrow> t \<in> L" "TimerNode t \<in> set (q l) \<Longrightarrow> t \<in> L"
    using in_members by (meson subsetD)+
qed

lemma place_cong:
  "statu_of k' t = statu_of k t \<Longrightarrow> prio_of k' t = prio_of k t \<Longrightarrow> place k' l t = place k l t"
  by (cases l) auto

lemma kinv_cong:
  assumes k: "kinv E S L q k" and q: "\<And>l. l \<in> headers S \<Longrightarrow> q' l = q l"
    and "links k' = links k" "rt_thread_ready_priority_group k' = rt_thread_ready_priority_group k"
      "rt_current_thread k' = rt_current_thread k"
    and t: "\<And>t. t \<in> L \<Longrightarrow> prio_of k' t = prio_of k t \<and> number_mask (tcb k' t) = number_mask (tcb k t)
      \<and> timer_on k' t = timer_on k t"
    and s: "\<And>t. t \<in> L \<Longrightarrow> t \<notin> E \<Longrightarrow> statu_of k' t = statu_of k t"
  shows "kinv E S L q' k'"
proof -
  have "disjoint_queues dll (headers S) (members L) q' (links k')"
    using kinv_queues[OF k] disjoint_queues_cong[of "headers S" q' q dll "members L"] assms(3) q by simp
  moreover have "t \<notin> E \<and> place k' l t" if "TList t \<in> set (q' l)" "l \<in> headers S" for l t
  proof -
    have tl: "TList t \<in> set (q l)" using that q by simp
    then have "t \<in> L" "t \<notin> E" "place k l t"
      using kinv_in_L(1)[OF k that(2)] kinv_place[OF k _ that(2)] by blast+
    then show ?thesis using place_cong[of k' t k l] t s by simp
  qed
  ultimately show ?thesis
    using kinv_timer_only[OF k] kinv_all_only[OF k] kinv_ready[OF k] kinv_timer[OF k]
      kinv_group[OF k] kinv_current[OF k] kinv_current_statu[OF k] kinv_prio[OF k] kinv_mask[OF k]
    unfolding kinv_def by (simp add: q t s assms(4,5) cong: ball_cong)
qed

lemma kinv_frame [frame_simps]:
  "kinv E S L q (k\<lparr>irq := b\<rparr>) = kinv E S L q k"
  "kinv E S L q (k\<lparr>cpu := c\<rparr>) = kinv E S L q k"
  "kinv E S L q (k\<lparr>cpu_sp := a\<rparr>) = kinv E S L q k"
  "kinv E S L q (k\<lparr>frames := f\<rparr>) = kinv E S L q k"
  "kinv E S L q (k\<lparr>system_tick := w\<rparr>) = kinv E S L q k"
  "kinv E S L q (k\<lparr>rt_current_priority := p\<rparr>) = kinv E S L q k"
  "kinv E S L q (k\<lparr>rt_interrupt_nest := w\<rparr>) = kinv E S L q k"
  "kinv E S L q (k\<lparr>rt_thread_switch_interrupt_flag := b\<rparr>) = kinv E S L q k"
  "kinv E S L q (k\<lparr>rt_interrupt_from_thread := c\<rparr>) = kinv E S L q k"
  "kinv E S L q (k\<lparr>rt_interrupt_to_thread := c\<rparr>) = kinv E S L q k"
  by (auto elim!: kinv_cong)

lemma kinv_upd_tcb:
  assumes "kinv E S L q k"
    and "\<And>b. current_priority (f b) = current_priority b \<and> number_mask (f b) = number_mask b
      \<and> timer_active (thread_timer (f b)) = timer_active (thread_timer b)"
    and "t \<in> E \<or> (\<forall>b. statu (f b) = statu b)"
  shows "kinv E S L q (upd_tcb t f k)"
  using assms(1) by (rule kinv_cong) (use assms(2,3) in \<open>auto simp: upd_tcb_def\<close>)

lemma kinv_set_statu: "kinv E S L q k \<Longrightarrow> t \<in> E \<Longrightarrow> kinv E S L q (set_statu t s k)"
  unfolding set_statu_def by (rule kinv_upd_tcb) auto

section \<open>Moving threads between queues\<close>

lemma kinv_settle:
  assumes "kinv E S L q k" "statu_of k t \<noteq> RT_THREAD_READY"
  shows "kinv (E - {t}) S L q k"
  using assms unfolding kinv_def by auto

lemma kinv_take_out:
  assumes k: "kinv E S L q k" and "t \<in> L" and out: "\<forall>l\<in>headers S. TList t \<notin> set (q l)"
  shows "kinv (insert t E) S L q k"
  using assms unfolding kinv_def by auto

lemma remove1_other: "x \<noteq> n \<Longrightarrow> x \<in> set (remove1 n xs) \<longleftrightarrow> x \<in> set xs"
  by (induction xs) auto

lemma kinv_unlink_thread:
  assumes k: "kinv E S L q k" and t: "t \<in> L"
    and g: "\<And>p. p < 32 \<Longrightarrow> bit g p \<longleftrightarrow> remove1 (TList t) (q (Ready p)) \<noteq> []"
  shows "kinv (insert t E) S L (\<lambda>l. remove1 (TList t) (q l))
           ((upd_links (rt_list_remove (TList t)) k)\<lparr>rt_thread_ready_priority_group := g\<rparr>)"
    (is "kinv _ _ _ ?q ?k")
proof -
  have dq: "disjoint_queues dll (headers S) (members L) ?q (links ?k)"
    using rtl.queues_unlink[OF kinv_queues[OF k], of "TList t"] t by (simp add: upd_links_def)
  have tcb: "tcb ?k = tcb k" "rt_current_thread ?k = rt_current_thread k"
    by (simp_all add: upd_links_def)
  have gone: "TList t \<notin> set (?q l)" if "l \<in> headers S" for l
    using kinv_distinct[OF k that] by simp
  have "t' \<notin> insert t E \<and> place ?k l t'" if "TList t' \<in> set (?q l)" "l \<in> headers S" for l t'
  proof -
    have "t' \<noteq> t" using gone that by blast
    then have "TList t' \<in> set (q l)" using that by (simp add: remove1_other)
    with kinv_place[OF k this that(2)] show ?thesis
      using \<open>t' \<noteq> t\<close> place_cong[of ?k t' k l] tcb by simp
  qed
  note pl = this
  show ?thesis
  proof (rule kinvI)
    show "t' \<notin> insert t E \<and> place ?k l t'" if "TList t' \<in> set (?q l)" "l \<in> headers S" for l t'
      using pl that .
  qed (use dq k g in \<open>auto simp: tcb remove1_other dest: kinvD\<close>)
qed

lemma kinv_unlink_waiting:
  assumes k: "kinv E S L q k" and t: "t \<in> L" "t \<in> E \<or> statu_of k t \<noteq> RT_THREAD_READY"
  shows "kinv (insert t E) S L (\<lambda>l. remove1 (TList t) (q l)) (upd_links (rt_list_remove (TList t)) k)"
proof -
  have "remove1 (TList t) (q (Ready p)) = q (Ready p)" if "p < 32" for p
    using kinv_place[OF k, of t "Ready p"] that t(2) by (auto intro: remove1_idem)
  then have "kinv (insert t E) S L (\<lambda>l. remove1 (TList t) (q l))
      ((upd_links (rt_list_remove (TList t)) k)
        \<lparr>rt_thread_ready_priority_group := rt_thread_ready_priority_group k\<rparr>)"
    using kinv_group[OF k] by (intro kinv_unlink_thread[OF k t(1)]) simp
  then show ?thesis by (simp add: upd_links_def)
qed

lemma kinv_remove_thread:
  assumes k: "kinv E S L q k" and t: "t \<in> L"
  shows "kinv (insert t E) S L (\<lambda>l. remove1 (TList t) (q l)) (rt_schedule_remove_thread t k)"
proof -
  define p where "p = prio_of k t"
  have p: "p < 32" using kinv_prio[OF k t] by (simp add: p_def)
  define h where "h = rt_list_remove (TList t) (links k)"
  have dq: "disjoint_queues dll (headers S) (members L) (\<lambda>l. remove1 (TList t) (q l)) h"
    using rtl.queues_unlink[OF kinv_queues[OF k], of "TList t"] t by (simp add: h_def)
  have emp: "rt_list_isempty (Ready p) h \<longleftrightarrow> remove1 (TList t) (q (Ready p)) = []"
    using rtl.queues_empty_iff[OF dq, of "Ready p"] p by simp
  have other: "remove1 (TList t) (q (Ready p')) = q (Ready p')" if "p' < 32" "p' \<noteq> p" for p'
    using kinv_place[OF k, of t "Ready p'"] that by (auto simp: p_def intro: remove1_idem)
  let ?g = "if rt_list_isempty (Ready p) h
    then rt_thread_ready_priority_group k AND NOT (2 ^ p) else rt_thread_ready_priority_group k"
  have "bit ?g p' \<longleftrightarrow> remove1 (TList t) (q (Ready p')) \<noteq> []" if "p' < 32" for p'
    using kinv_group[OF k that] other[OF that] emp by (cases "p' = p") (auto simp: bit_clear_mask)
  from kinv_unlink_thread[OF k t this]
  have "kinv (insert t E) S L (\<lambda>l. remove1 (TList t) (q l))
     ((upd_links (rt_list_remove (TList t)) k)\<lparr>rt_thread_ready_priority_group := ?g\<rparr>)" .
  moreover have "rt_schedule_remove_thread t k =
     (upd_links (rt_list_remove (TList t)) k)\<lparr>rt_thread_ready_priority_group := ?g\<rparr>"
    using kinv_mask[OF k t] by (simp add: rt_schedule_remove_thread_eq h_def p_def)
  ultimately show ?thesis by simp
qed

lemma kinv_enqueue:
  assumes k: "kinv E S L q k" and t: "t \<in> E" "t \<in> L" and l: "l \<in> headers S" "place k l t"
    and dq: "disjoint_queues dll (headers S) (members L) (q(l := xs)) h"
    and xs: "set xs = insert (TList t) (set (q l))"
    and g: "\<And>p. p < 32 \<Longrightarrow> bit g p \<longleftrightarrow> (q(l := xs)) (Ready p) \<noteq> []"
    and cur: "rt_current_thread k = Some t \<Longrightarrow> statu_of k t \<noteq> RT_THREAD_READY"
  shows "kinv (E - {t}) S L (q(l := xs)) (k\<lparr>links := h, rt_thread_ready_priority_group := g\<rparr>)"
    (is "kinv _ _ _ ?q ?k")
proof -
  have pk: "place ?k m t' = place k m t'" for m t' by (rule place_cong) simp_all
  have nl: "l \<noteq> Timer_list" "l \<noteq> All_threads" using l(2) by auto
  have pl: "t' \<notin> E - {t} \<and> place ?k m t'" if "TList t' \<in> set (?q m)" "m \<in> headers S" for m t'
  proof (cases "m = l \<and> t' = t")
    case False
    then have "TList t' \<in> set (q m)" using that xs by (auto split: if_splits)
    then show ?thesis using kinv_place[OF k _ that(2)] pk by auto
  qed (use l pk in auto)
  have rd: "TList t' \<in> set (?q (Ready (prio_of k t')))"
    if "t' \<in> L" "t' \<notin> E - {t}" "statu_of k t' = RT_THREAD_READY" for t'
  proof (cases "t' = t")
    case True
    then have "l = Ready (prio_of k t')" using l(2) that(3) by (cases l) auto
    then show ?thesis using True xs by simp
  next
    case False
    then show ?thesis using kinv_ready[OF k that(1) _ that(3)] that(2) xs by auto
  qed
  show ?thesis
  proof (rule kinvI)
    show "TimerNode t' \<in> set (?q m) \<Longrightarrow> m \<in> headers S \<Longrightarrow> m = Timer_list" for t' m
      using kinv_timer_only[OF k] xs by (auto split: if_splits)
    show "AllList t' \<in> set (?q m) \<Longrightarrow> m \<in> headers S \<Longrightarrow> m = All_threads" for t' m
      using kinv_all_only[OF k] xs by (auto split: if_splits)
    show "rt_current_thread ?k = Some c \<Longrightarrow> c \<in> L \<and> (c \<notin> E - {t} \<longrightarrow> statu_of ?k c \<noteq> RT_THREAD_READY)" for c
      using kinv_current[OF k] kinv_current_statu[OF k] cur by auto
  qed (use dq g pl rd nl kinv_prio[OF k] kinv_mask[OF k] kinv_timer[OF k] in simp_all)
qed

lemma kinv_out: "kinv E S L q k \<Longrightarrow> t \<in> E \<Longrightarrow> \<forall>l\<in>headers S. TList t \<notin> set (q l)"
  using kinv_place by blast

lemma kinv_group_other:
  assumes "kinv E S L q k" "\<And>p. l \<noteq> Ready p" "p < 32"
  shows "bit (rt_thread_ready_priority_group k) p \<longleftrightarrow> (q(l := xs)) (Ready p) \<noteq> []"
  using kinv_group[OF assms(1,3)] assms(2)[of p] by (auto simp: fun_upd_def)

lemma kinv_insert_ready:
  assumes k: "kinv E S L q k" and t: "t \<in> E" "t \<in> L" and c: "rt_current_thread k \<noteq> Some t"
  defines "p \<equiv> prio_of k t"
  shows "kinv (E - {t}) S L (q(Ready p := q (Ready p) @ [TList t])) (rt_schedule_insert_thread t k)"
proof -
  have p: "p < 32" using kinv_prio[OF k t(2)] by (simp add: p_def)
  let ?k = "set_statu t RT_THREAD_READY k"
  have k': "kinv E S L q ?k" using kinv_set_statu[OF k t(1)] .
  have tcb: "prio_of ?k t = p" "statu_of ?k t = RT_THREAD_READY" "links ?k = links k"
     "rt_current_thread ?k = rt_current_thread k"
    by (simp_all add: set_statu_def upd_tcb_def p_def)
  have "kinv (E - {t}) S L (q(Ready p := q (Ready p) @ [TList t]))
     (?k\<lparr>links := rt_list_insert_before (Ready p) (TList t) (links k),
         rt_thread_ready_priority_group := rt_thread_ready_priority_group k OR 2 ^ p\<rparr>)"
  proof (rule kinv_enqueue[OF k' t])
    show "disjoint_queues dll (headers S) (members L) (q(Ready p := q (Ready p) @ [TList t]))
        (rt_list_insert_before (Ready p) (TList t) (links k))"
      using rtl.queues_back[OF kinv_queues[OF k], of "Ready p" "TList t"] kinv_out[OF k t(1)] t p by simp
    show "bit (rt_thread_ready_priority_group k OR 2 ^ p) p' \<longleftrightarrow>
        (q(Ready p := q (Ready p) @ [TList t])) (Ready p') \<noteq> []" if "p' < 32" for p'
      using kinv_group[OF k that] p by (auto simp: bit_set_mask)
  qed (use p tcb c in simp_all)
  moreover have "rt_schedule_insert_thread t k =
     ?k\<lparr>links := rt_list_insert_before (Ready p) (TList t) (links k),
         rt_thread_ready_priority_group := rt_thread_ready_priority_group k OR 2 ^ p\<rparr>"
    using c kinv_mask[OF k t(2)]
    by (simp add: rt_schedule_insert_thread_eq upd_links_def tcb p_def)
  ultimately show ?thesis by simp
qed

lemma kinv_insert_current:
  assumes k: "kinv E S L q k" and t: "t \<in> E" and c: "rt_current_thread k = Some t"
  shows "kinv (E - {t}) S L q (rt_schedule_insert_thread t k)"
  using kinv_settle[OF kinv_set_statu[OF k t, of RT_THREAD_RUNNING], of t] c
  by (simp add: rt_schedule_insert_thread_eq set_statu_def upd_tcb_def)

lemma kinv_insert_dead:
  assumes k: "kinv E S L q k" and t: "t \<in> E" "t \<in> L" and s: "statu_of k t = RT_THREAD_CLOSE"
  shows "kinv (E - {t}) S L (q(Dead := TList t # q Dead)) (upd_links (rt_list_insert_after Dead (TList t)) k)"
proof -
  have "disjoint_queues dll (headers S) (members L) (q(Dead := TList t # q Dead))
      (rt_list_insert_after Dead (TList t) (links k))"
    using rtl.queues_front[OF kinv_queues[OF k], of Dead "TList t"] kinv_out[OF k t(1)] t by simp
  from kinv_enqueue[OF k t _ _ this _ kinv_group_other[OF k]] s
  show ?thesis by (simp add: upd_links_def)
qed

lemma kinv_insert_wait:
  assumes k: "kinv E S L q k" and t: "t \<in> E" "t \<in> L" and s: "statu_of k t = RT_THREAD_SUSPEND"
    and l: "l \<in> S" "l \<in> wait_queues"
  shows "kinv (E - {t}) S L (q(l := q l @ [TList t])) (upd_links (rt_list_insert_before l (TList t)) k)"
proof -
  have "disjoint_queues dll (headers S) (members L) (q(l := q l @ [TList t]))
      (rt_list_insert_before l (TList t) (links k))"
    using rtl.queues_back[OF kinv_queues[OF k], of l "TList t"] kinv_out[OF k t(1)] t l by simp
  moreover have "place k l t" "l \<noteq> Ready p" for p using l(2) s by (auto simp: wait_queues_def)
  ultimately show ?thesis using kinv_enqueue[OF k t _ _ _ _ kinv_group_other[OF k, of l]] l s
    by (simp add: upd_links_def)
qed

section \<open>Timers\<close>

lemma kinv_set_timer:
  assumes k: "kinv E S L q k" and t: "t \<in> L"
    and dq: "disjoint_queues dll (headers S) (members L) (q(Timer_list := ts)) h"
    and ts: "TimerNode t \<in> set ts \<longleftrightarrow> timer_active (f (thread_timer (tcb k t)))"
      "\<And>x. x \<noteq> TimerNode t \<Longrightarrow> x \<in> set ts \<longleftrightarrow> x \<in> set (q Timer_list)"
  shows "kinv E S L (q(Timer_list := ts)) (upd_timer t f (k\<lparr>links := h\<rparr>))" (is "kinv _ _ _ ?q ?k")
proof (rule kinvI)
  have tl: "TList t' \<in> set (?q m) \<longleftrightarrow> TList t' \<in> set (q m)" for t' m using ts(2) by auto
  have tcb: "statu_of ?k t' = statu_of k t'" "prio_of ?k t' = prio_of k t'"
     "number_mask (tcb ?k t') = number_mask (tcb k t')" "links ?k = h"
     "rt_current_thread ?k = rt_current_thread k"
     "rt_thread_ready_priority_group ?k = rt_thread_ready_priority_group k" for t'
    by (simp_all add: upd_timer_def upd_tcb_def)
  show "disjoint_queues dll (headers S) (members L) ?q (links ?k)" using dq tcb by simp
  show "t' \<notin> E \<and> place ?k m t'" if "TList t' \<in> set (?q m)" "m \<in> headers S" for t' m
    using kinv_place[OF k _ that(2), of t'] that(1) tl place_cong[of ?k t' k m] tcb by simp
  show "TimerNode t' \<in> set (?q m) \<Longrightarrow> m \<in> headers S \<Longrightarrow> m = Timer_list" for t' m
    using kinv_timer_only[OF k] by (auto split: if_splits)
  show "AllList t' \<in> set (?q m) \<Longrightarrow> m \<in> headers S \<Longrightarrow> m = All_threads" for t' m
    using kinv_all_only[OF k, of t' m] ts(2)[of "AllList t'"] by (auto split: if_splits)
  show "timer_on ?k t' \<longleftrightarrow> TimerNode t' \<in> set (?q Timer_list)" if "t' \<in> L" for t'
    using kinv_timer[OF k that] ts by (cases "t' = t") (simp_all add: upd_timer_def upd_tcb_def)
  show "TList t' \<in> set (?q (Ready (prio_of ?k t')))"
    if "t' \<in> L" "t' \<notin> E" "statu_of ?k t' = RT_THREAD_READY" for t'
    using kinv_ready[OF k that(1,2)] that(3) tcb by simp
qed (use kinv_prio[OF k] kinv_mask[OF k] kinv_group[OF k] kinv_current[OF k] kinv_current_statu[OF k]
  in \<open>auto simp: upd_timer_def upd_tcb_def\<close>)

lemma kinv_timer_stop:
  assumes k: "kinv E S L q k" and t: "t \<in> L"
  shows "kinv E S L (q(Timer_list := remove1 (TimerNode t) (q Timer_list))) (snd (rt_timer_stop t k))"
proof (cases "timer_on k t")
  case True
  then have "TimerNode t \<in> set (q Timer_list)" using kinv_timer[OF k t] by simp
  then have "kinv E S L (q(Timer_list := remove1 (TimerNode t) (q Timer_list)))
    (upd_timer t (\<lambda>m. m\<lparr>timer_active := False\<rparr>) (k\<lparr>links := rt_list_remove (TimerNode t) (links k)\<rparr>))"
    using rtl.queues_unlink_in[OF kinv_queues[OF k], of Timer_list "TimerNode t"]
      kinv_distinct[OF k, of Timer_list]
    by (intro kinv_set_timer[OF k t]) auto
  then show ?thesis using True by (simp add: rt_timer_stop_eq upd_links_def)
next
  case False
  then show ?thesis using kinv_timer[OF k t] k by (simp add: rt_timer_stop_eq remove1_idem)
qed

lemma kinv_timer_start:
  assumes k: "kinv E S L q k" and t: "t \<in> L" and off: "\<not> timer_on k t"
  shows "kinv E S L (q(Timer_list := TimerNode t # q Timer_list)) (rt_timer_start t k)"
proof -
  have "\<forall>m\<in>headers S. TimerNode t \<notin> set (q m)"
    using kinv_timer[OF k t] kinv_timer_only[OF k] off by blast
  then have "disjoint_queues dll (headers S) (members L) (q(Timer_list := TimerNode t # q Timer_list))
      (rt_list_insert_after Timer_list (TimerNode t) (links k))"
    using rtl.queues_front[OF kinv_queues[OF k], of Timer_list "TimerNode t"] t by simp
  from kinv_set_timer[OF k t this, of "\<lambda>m. m\<lparr>timeout_tick := system_tick k + timer_init_tick m, timer_active := True\<rparr>"]
  show ?thesis by (simp add: rt_timer_start_eq upd_links_def)
qed

end
