(* ===== verification/Scheduler.thy ===== *)
theory Scheduler
  imports Kernel_Inv
begin

unbundle bit_operations_syntax

text \<open>
  What \<^verbatim>\<open>rt_schedule\<close> and the thread operations built on it do to the queues. The scheduler
  takes the head of the non-empty ready queue with the smallest number, puts the thread it
  leaves at the tail of its own ready queue unless that thread is closed, asleep or waiting,
  and never stops for any other reason than the stack check.
\<close>

section \<open>The choice of the next thread\<close>

definition next_ready :: "(node \<Rightarrow> node list) \<Rightarrow> nat \<Rightarrow> tid \<Rightarrow> bool" where
  "next_ready q p t \<longleftrightarrow> p < 32 \<and> q (Ready p) \<noteq> [] \<and> hd (q (Ready p)) = TList t \<and> (\<forall>p'<p. q (Ready p') = [])"

definition leaves_cpu :: "status \<Rightarrow> bool" where
  "leaves_cpu s \<longleftrightarrow> s = RT_THREAD_CLOSE \<or> s = RT_THREAD_SLEEP \<or> s = RT_THREAD_SUSPEND"

definition requeue :: "tid \<Rightarrow> 'z kernel_scheme \<Rightarrow> (node \<Rightarrow> node list) \<Rightarrow> node \<Rightarrow> node list" where
  "requeue c k q = (if leaves_cpu (statu_of k c) then q
     else q(Ready (prio_of k c) := q (Ready (prio_of k c)) @ [TList c]))"

definition sched_queues ::
  "tid \<Rightarrow> tid \<Rightarrow> 'z kernel_scheme \<Rightarrow> (node \<Rightarrow> node list) \<Rightarrow> node \<Rightarrow> node list" where
  "sched_queues c t k q = (\<lambda>l. remove1 (TList t) (requeue c k q l))"

section \<open>Stacks and contexts\<close>

text \<open>
  A stack pointer inside the stack of a thread that leaves room for a register frame, and the
  stack pointer of a thread's own code: the register for the running thread, the saved one for
  the others and for the thread that is interrupted.
\<close>

definition in_stack :: "rt_thread \<Rightarrow> u32 \<Rightarrow> bool" where
  "in_stack b a \<longleftrightarrow> uint (stack_addr b) + uint PT_SIZE < uint a \<and> uint a \<le> uint (stack_addr b) + uint (stack_size b) \<and>
    uint (stack_addr b) + uint (stack_size b) < 2 ^ 32"

definition user_sp :: "'z kernel_scheme \<Rightarrow> tid \<Rightarrow> u32" where
  "user_sp k t = (if cpu k = Some t \<and> rt_interrupt_nest k = 0 then cpu_sp k else pt_r29 (frames k t))"

text \<open>
  Every thread has its stack pointer in its stack; the one in the control block passes the
  check of the scheduler, and that of a thread that is not on the processor is the address of
  its saved frame.
\<close>

definition stacks_ok :: "tid set \<Rightarrow> 'z kernel_scheme \<Rightarrow> bool" where
  "stacks_ok L k \<longleftrightarrow> (\<forall>t\<in>L. rt_scheduler_stack_check t k \<and> in_stack (tcb k t) (user_sp k t) \<and>
    (cpu k \<noteq> Some t \<longrightarrow> sp (tcb k t) = pt_r29 (frames k t) - PT_SIZE))"

lemma stacks_okD:
  assumes "stacks_ok L k" "t \<in> L"
  shows "rt_scheduler_stack_check t k" "in_stack (tcb k t) (user_sp k t)"
    "cpu k \<noteq> Some t \<Longrightarrow> sp (tcb k t) = pt_r29 (frames k t) - PT_SIZE"
  using assms by (simp_all add: stacks_ok_def)

lemma in_stack_frame:
  assumes "in_stack b a"
  shows "stack_addr b < a - PT_SIZE" "a - PT_SIZE \<le> stack_addr b + stack_size b"
proof -
  have s: "uint PT_SIZE = 152" by (simp add: PT_SIZE_def)
  have le: "PT_SIZE \<le> a" using assms s uint_ge_0[of "stack_addr b"] unfolding in_stack_def word_le_def by linarith
  then have u: "uint (a - PT_SIZE) = uint a - 152" using uint_minus_simple_iff[of a PT_SIZE] s word_sub_le[of PT_SIZE a] by simp
  have v: "uint (stack_addr b + stack_size b) = uint (stack_addr b) + uint (stack_size b)"
    using assms uint_add_lem[of "stack_addr b" "stack_size b"] by (simp add: in_stack_def)
  show "stack_addr b < a - PT_SIZE" "a - PT_SIZE \<le> stack_addr b + stack_size b"
    using assms u v s unfolding in_stack_def word_less_def word_le_def by linarith+
qed

text \<open>The interrupt level with which a saved thread goes on.\<close>

definition wake_irq :: "frame \<Rightarrow> bool" where
  "wake_irq f = (case pt_epc f of After_switch level \<Rightarrow> level | Elsewhere \<Rightarrow> pt_status f)"

lemma restore_eq:
  "RESTORE_ALL_AND_RET t k = k\<lparr>irq := wake_irq (frames k t), cpu_sp := pt_r29 (frames k t), cpu := Some t\<rparr>"
  by (simp add: RESTORE_ALL_AND_RET_def wake_irq_def rt_hw_interrupt_enable_def Let_def split: resume_point.split)

lemma context_switch_eq:
  "rt_hw_context_switch c t level k =
    k\<lparr>tcb := (tcb k)(c := (tcb k c)\<lparr>sp := cpu_sp k - PT_SIZE\<rparr>),
      frames := (frames k)(c := \<lparr>pt_r29 = cpu_sp k, pt_status = irq k, pt_epc = After_switch level\<rparr>),
      irq := wake_irq (frames k t), cpu_sp := pt_r29 (frames k t), cpu := Some t\<rparr>" if "c \<noteq> t"
  using that by (simp add: rt_hw_context_switch_def SAVE_ALL_def upd_tcb_def restore_eq Let_def)

section \<open>The head of the ready queues\<close>

lemma queue_members:
  assumes k: "kinv E S L q k" and l: "l \<in> headers S" "l \<noteq> Timer_list" "l \<noteq> All_threads" and x: "x \<in> set (q l)"
  obtains t where "x = TList t" "t \<in> L" "t \<notin> E" "place k l t"
proof -
  have "set (q l) \<subseteq> members L"
    using kinv_queues[OF k] l(1) unfolding disjoint_queues_def by simp
  then have "x \<in> members L" using x by blast
  then obtain t where t: "x = TList t" "t \<in> L"
    using kinv_timer_only[OF k _ l(1)] kinv_all_only[OF k _ l(1)] x l(2,3)
    unfolding members_def by blast
  with kinv_place[OF k, of t l] x l(1) show ?thesis using that by blast
qed

lemma next_ready_thread:
  assumes k: "kinv E S L q k" and n: "next_ready q p t"
  shows "t \<in> L \<and> t \<notin> E \<and> statu_of k t = RT_THREAD_READY \<and> prio_of k t = p \<and> p < 32"
    and "rt_current_thread k \<noteq> Some t"
proof -
  have p: "p < 32" and "TList t \<in> set (q (Ready p))"
    using n hd_in_set[of "q (Ready p)"] unfolding next_ready_def by auto
  with queue_members[OF k, of "Ready p" "TList t"]
  show *: "t \<in> L \<and> t \<notin> E \<and> statu_of k t = RT_THREAD_READY \<and> prio_of k t = p \<and> p < 32" by auto
  show "rt_current_thread k \<noteq> Some t" using kinv_current_statu[OF k] * by blast
qed

lemma group_lowest:
  assumes k: "kinv E S L q k" and g: "rt_thread_ready_priority_group k \<noteq> 0"
  shows "\<exists>t. next_ready q (lowest (rt_thread_ready_priority_group k)) t"
proof -
  let ?p = "lowest (rt_thread_ready_priority_group k)"
  have p: "?p < 32" and ne: "q (Ready ?p) \<noteq> []"
    using lowest_lt[OF g] kinv_group[OF k] bit_lowest[OF g] by auto
  obtain t where "hd (q (Ready ?p)) = TList t"
    using queue_members[OF k, of "Ready ?p" "hd (q (Ready ?p))"] ne p by auto
  moreover have "q (Ready p') = []" if "p' < ?p" for p'
    using kinv_group[OF k, of p'] lowest_least[OF that] that p by simp
  ultimately show ?thesis using p ne unfolding next_ready_def by blast
qed

lemma group_zero:
  assumes k: "kinv E S L q k"
  shows "rt_thread_ready_priority_group k = 0 \<longleftrightarrow> (\<forall>p<32. q (Ready p) = [])"
  using kinv_group[OF k] word_neq_0_bit[of "rt_thread_ready_priority_group k"] bit_u32_lt by metis

lemma next_ready_unique: "next_ready q p t \<Longrightarrow> next_ready q p' t' \<Longrightarrow> p = p' \<and> t = t'"
  unfolding next_ready_def by (metis linorder_neqE_nat node.inject(2))

lemma get_highest_next_ready:
  assumes k: "kinv E S L q k" and n: "next_ready q p t"
  shows "get_highest_priority_thread k = (Some t, of_nat p)" "rt_thread_ready_priority_group k \<noteq> 0"
proof -
  show g: "rt_thread_ready_priority_group k \<noteq> 0"
    using group_zero[OF k] n unfolding next_ready_def by blast
  then have low: "lowest (rt_thread_ready_priority_group k) = p"
    using group_lowest[OF k] next_ready_unique[OF n] by blast
  have "lnext (links k) (Ready p) = TList t"
    using rtl.queues_first[OF kinv_queues[OF k], of "Ready p"] n unfolding next_ready_def by simp
  then show "get_highest_priority_thread k = (Some t, of_nat p)"
    by (simp add: get_highest_priority_thread_def rt_ffs_lowest[OF g] low)
qed

section \<open>One call of the scheduler\<close>

text \<open>The state between choosing the next thread and switching to it.\<close>

definition dispatch :: "tid \<Rightarrow> tid \<Rightarrow> nat \<Rightarrow> 'z kernel_scheme \<Rightarrow> 'z kernel_scheme" where
  "dispatch c t p k =
    (let k1 = k\<lparr>rt_current_thread := None\<rparr>;
         k2 = (if leaves_cpu (statu_of k c) then k1 else rt_schedule_insert_thread c k1);
         k3 = (rt_schedule_remove_thread t k2)\<lparr>rt_current_thread := Some t, rt_current_priority := of_nat p\<rparr>
     in set_statu t RT_THREAD_RUNNING k3)"

definition switch_cpu :: "tid \<Rightarrow> tid \<Rightarrow> 'z kernel_scheme \<Rightarrow> 'z kernel_scheme" where
  "switch_cpu c t k = (if rt_interrupt_nest k = 0 then rt_hw_context_switch c t (irq k) (k\<lparr>irq := False\<rparr>)
     else rt_hw_context_switch_interrupt c t k)"

lemma dispatch_tcb:
  assumes "c \<noteq> t"
  shows "tcb (dispatch c t p k) t' = (if t' = t then (tcb k t)\<lparr>statu := RT_THREAD_RUNNING\<rparr>
     else if t' = c \<and> \<not> leaves_cpu (statu_of k c) then (tcb k c)\<lparr>statu := RT_THREAD_READY\<rparr> else tcb k t')"
  using assms
  by (simp add: dispatch_def rt_schedule_remove_thread_eq rt_schedule_insert_thread_eq
      upd_links_def set_statu_def upd_tcb_def Let_def)

lemma dispatch_frame:
  "irq (dispatch c t p k) = irq k" "cpu (dispatch c t p k) = cpu k"
  "cpu_sp (dispatch c t p k) = cpu_sp k" "frames (dispatch c t p k) = frames k"
  "system_tick (dispatch c t p k) = system_tick k"
  "rt_interrupt_nest (dispatch c t p k) = rt_interrupt_nest k"
  "rt_thread_switch_interrupt_flag (dispatch c t p k) = rt_thread_switch_interrupt_flag k"
  "rt_interrupt_from_thread (dispatch c t p k) = rt_interrupt_from_thread k"
  "rt_current_thread (dispatch c t p k) = Some t"
  "rt_current_priority (dispatch c t p k) = of_nat p"
  "kernel.more (dispatch c t p k) = kernel.more k"
  by (simp_all add: dispatch_def rt_schedule_remove_thread_eq rt_schedule_insert_thread_eq
      upd_links_def set_statu_def upd_tcb_def Let_def)

lemma rt_schedule_switch:
  assumes k: "kinv E S L q k" and c: "rt_current_thread k = Some c" and n: "next_ready q p t"
  shows "rt_schedule k = (if rt_scheduler_stack_check t k then Inr (switch_cpu c t (dispatch c t p k))
     else Inl (Stack_overflow t))"
proof -
  let ?d = "dispatch c t p k"
  have ct: "c \<noteq> t" using next_ready_thread(2)[OF k n] c by simp
  have p: "p < 32" using n by (simp add: next_ready_def)
  have hi: "get_highest_priority_thread (k\<lparr>irq := False\<rparr>) = (Some t, of_nat p)"
    using get_highest_next_ready(1)[OF k n] by (simp add: get_highest_priority_thread_def)
  let ?k = "k\<lparr>irq := False, rt_current_priority := of_nat p, rt_current_thread := Some t\<rparr>"
  let ?k1 = "set_statu t RT_THREAD_RUNNING ?k"
  let ?k2 = "if \<not> leaves_cpu (statu_of ?k1 c) then rt_schedule_insert_thread c ?k1 else ?k1"
  have d: "rt_schedule_remove_thread t ?k2 = ?d\<lparr>irq := False\<rparr>"
    using ct by (simp add: dispatch_def rt_schedule_remove_thread_eq rt_schedule_insert_thread_eq
      upd_links_def set_statu_def upd_tcb_def Let_def fun_upd_twist)
  have s: "rt_scheduler_stack_check t (?d\<lparr>irq := False\<rparr>) = rt_scheduler_stack_check t k"
    by (simp add: rt_scheduler_stack_check_def dispatch_tcb[OF ct])
  have u: "ucast (of_nat p :: u32) = (of_nat p :: u8)"
    using p by (simp add: unsigned_of_nat take_bit_nat_eq_self)
  have ne: "rt_thread_ready_priority_group k \<noteq> 0" by (rule get_highest_next_ready(2)[OF k n])
  have "rt_schedule k = (let k2 = rt_schedule_remove_thread t ?k2 in
     if \<not> rt_scheduler_stack_check t k2 then Inl (Stack_overflow t)
     else if rt_interrupt_nest k2 = 0 then Inr (rt_hw_context_switch c t (irq k) k2)
     else Inr (rt_hw_interrupt_enable (irq k) (rt_hw_context_switch_interrupt c t k2)))"
    using ct by (simp add: rt_schedule_def irq_defs c hi ne u leaves_cpu_def Let_def)
  then show ?thesis
    unfolding d by (simp add: s switch_cpu_def Let_def irq_defs rt_hw_context_switch_interrupt_def dispatch_frame)
qed

lemma dispatch_kinv:
  assumes k: "kinv {} S L q k" and c: "rt_current_thread k = Some c" and n: "next_ready q p t"
  shows "kinv {} S L (sched_queues c t k q) (dispatch c t p k)"
proof -
  have t: "t \<in> L" "t \<noteq> c" using next_ready_thread[OF k n] c by auto
  have cL: "c \<in> L" and cs: "statu_of k c \<noteq> RT_THREAD_READY"
    using kinv_current[OF k c] kinv_current_statu[OF k c] by auto
  let ?k1 = "k\<lparr>rt_current_thread := None\<rparr>"
  have k1: "kinv {} S L q ?k1" using k place_cong[of ?k1 _ k] unfolding kinv_def by simp
  let ?k2 = "if leaves_cpu (statu_of k c) then ?k1 else rt_schedule_insert_thread c ?k1"
  have k2: "kinv {} S L (requeue c k q) ?k2"
  proof (cases "leaves_cpu (statu_of k c)")
    case False
    have "TList c \<notin> set (q l)" if "l \<in> headers S" for l
    proof
      assume "TList c \<in> set (q l)"
      then have "place k l c" using kinv_place[OF k _ that] by blast
      then show False using False cs by (cases l) (auto simp: leaves_cpu_def)
    qed
    then have "kinv {c} S L q ?k1" using kinv_take_out[OF k1 cL] by simp
    from kinv_insert_ready[OF this] show ?thesis using False cL by (simp add: requeue_def)
  qed (use k1 in \<open>simp add: requeue_def\<close>)
  let ?k3 = "(rt_schedule_remove_thread t ?k2)\<lparr>rt_current_thread := Some t, rt_current_priority := of_nat p\<rparr>"
  have "kinv {t} S L (sched_queues c t k q) (rt_schedule_remove_thread t ?k2)"
    using kinv_remove_thread[OF k2 t(1)] by (simp add: sched_queues_def)
  then have "kinv {t} S L (sched_queues c t k q) ?k3"
    using t(1) place_cong[of ?k3 _ "rt_schedule_remove_thread t ?k2"] unfolding kinv_def by simp
  from kinv_settle[OF kinv_set_statu[OF this, of t RT_THREAD_RUNNING], of t]
  show ?thesis by (simp add: dispatch_def Let_def set_statu_def upd_tcb_def)
qed

lemma kinv_sp: "kinv E S L q (upd_tcb c (\<lambda>b. b\<lparr>sp := a\<rparr>) k) = kinv E S L q k"
  by (auto elim!: kinv_cong simp: upd_tcb_def split: if_splits)

lemma switch_cpu_frame:
  assumes "c \<noteq> t"
  shows "kinv E S L q (switch_cpu c t k) = kinv E S L q k"
    "tcb (switch_cpu c t k) t' = (if t' = c \<and> rt_interrupt_nest k = 0 then (tcb k c)\<lparr>sp := cpu_sp k - PT_SIZE\<rparr> else tcb k t')"
    "rt_current_thread (switch_cpu c t k) = rt_current_thread k"
    "system_tick (switch_cpu c t k) = system_tick k"
    "rt_current_priority (switch_cpu c t k) = rt_current_priority k"
    "rt_interrupt_nest (switch_cpu c t k) = rt_interrupt_nest k"
    "kernel.more (switch_cpu c t k) = kernel.more k"
proof -
  show "kinv E S L q (switch_cpu c t k) = kinv E S L q k"
    using kinv_sp[of E S L q c "cpu_sp k - PT_SIZE" k]
    by (simp add: switch_cpu_def context_switch_eq[OF assms] rt_hw_context_switch_interrupt_def frame_simps Let_def)
      (simp add: upd_tcb_def frame_simps)
qed (simp_all add: switch_cpu_def context_switch_eq[OF assms] rt_hw_context_switch_interrupt_def Let_def)

lemma rt_schedule_idle:
  assumes k: "kinv E S L q k" and c: "rt_current_thread k = Some c" and n: "\<forall>p<32. q (Ready p) = []"
  shows "rt_schedule k = Inr k"
  using group_zero[OF k] c n by (simp add: rt_schedule_def irq_defs)

section \<open>What a call of the scheduler may change\<close>

text \<open>
  \<open>sched_frame k k'\<close>: from \<open>k\<close> to \<open>k'\<close> only statuses, links, the current thread and the
  registers of the context switch differ; a thread that was not running or ready keeps its
  status.
\<close>

definition awake :: "status \<Rightarrow> bool" where
  "awake s \<longleftrightarrow> \<not> leaves_cpu s"

text \<open>
  In an interrupt the switch is only recorded: \<open>c\<close> is the interrupted thread, still on the
  processor; the first recorded switch names it as the thread to save and the last one names
  the current thread as the one to restore.
\<close>

definition isr_ok :: "tid \<Rightarrow> 'z kernel_scheme \<Rightarrow> bool" where
  "isr_ok c k \<longleftrightarrow> cpu k = Some c \<and>
    (if rt_thread_switch_interrupt_flag k
     then rt_interrupt_from_thread k = Some c \<and> rt_interrupt_to_thread k = rt_current_thread k
     else rt_current_thread k = Some c)"

text \<open>Outside interrupts the current thread is the one on the processor.\<close>

definition between_interrupts :: "'z kernel_scheme \<Rightarrow> bool" where
  "between_interrupts k \<longleftrightarrow> rt_interrupt_nest k = 0 \<and> \<not> rt_thread_switch_interrupt_flag k \<and> cpu k = rt_current_thread k"

definition cur_running :: "'z kernel_scheme \<Rightarrow> bool" where
  "cur_running k \<longleftrightarrow> (\<forall>c. rt_current_thread k = Some c \<longrightarrow> statu_of k c = RT_THREAD_RUNNING)"

text \<open>
  What a call of the scheduler does to the processor between interrupts: nothing, or the
  caller's context is saved on its stack, with the interrupt level it called with, and the
  next thread goes on with its own.
\<close>

definition handed :: "'z kernel_scheme \<Rightarrow> 'z kernel_scheme \<Rightarrow> bool" where
  "handed k k' \<longleftrightarrow>
    (if rt_current_thread k' = rt_current_thread k
     then irq k' = irq k \<and> cpu_sp k' = cpu_sp k \<and> frames k' = frames k \<and> (\<forall>t. sp (tcb k' t) = sp (tcb k t))
     else \<exists>c t. rt_current_thread k = Some c \<and> rt_current_thread k' = Some t \<and>
       frames k' = (frames k)(c := \<lparr>pt_r29 = cpu_sp k, pt_status = False, pt_epc = After_switch (irq k)\<rparr>) \<and>
       irq k' = wake_irq (frames k t) \<and> cpu_sp k' = pt_r29 (frames k t) \<and>
       (\<forall>t'. sp (tcb k' t') = (if t' = c then cpu_sp k - PT_SIZE else sp (tcb k t'))))"

definition sched_frame :: "'z kernel_scheme \<Rightarrow> 'z kernel_scheme \<Rightarrow> bool" where
  "sched_frame k k' \<longleftrightarrow>
    (\<forall>t. tcb k' t = (tcb k t)\<lparr>statu := statu_of k' t, sp := sp (tcb k' t)\<rparr>) \<and>
    (\<forall>t. awake (statu_of k' t) \<longleftrightarrow> awake (statu_of k t)) \<and>
    (\<forall>t. \<not> awake (statu_of k t) \<longrightarrow> statu_of k' t = statu_of k t) \<and>
    system_tick k' = system_tick k \<and> rt_interrupt_nest k' = rt_interrupt_nest k \<and>
    rt_current_thread k' \<noteq> None \<and> kernel.more k' = kernel.more k \<and>
    (cur_running k \<or> rt_current_thread k' \<noteq> rt_current_thread k \<longrightarrow> cur_running k') \<and>
    (rt_interrupt_nest k \<noteq> 0 \<longrightarrow> irq k' = irq k \<and> cpu k' = cpu k \<and> cpu_sp k' = cpu_sp k \<and> frames k' = frames k \<and>
      (\<forall>t. sp (tcb k' t) = sp (tcb k t)) \<and> (\<forall>c. isr_ok c k \<longrightarrow> isr_ok c k')) \<and>
    (between_interrupts k \<longrightarrow> between_interrupts k' \<and> handed k k')"

lemma sched_frame_tcb:
  assumes "sched_frame k k'" and "\<And>b s a. f (b\<lparr>statu := s, sp := a\<rparr>) = f b"
  shows "f (tcb k' t) = f (tcb k t)"
  using assms unfolding sched_frame_def by metis

lemma sched_frame_timer: "sched_frame k k' \<Longrightarrow> thread_timer (tcb k' t) = thread_timer (tcb k t)"
  by (erule sched_frame_tcb) simp

text \<open>The context of the processor fits the state: between interrupts, or inside one.\<close>

definition ctx_ok :: "'z kernel_scheme \<Rightarrow> bool" where
  "ctx_ok k \<longleftrightarrow> (if rt_interrupt_nest k = 0 then between_interrupts k
     else \<exists>c. isr_ok c k \<and> cpu_sp k = pt_r29 (frames k c) - PT_SIZE)"

lemma sched_frame_ctx: "sched_frame k k' \<Longrightarrow> ctx_ok k \<Longrightarrow> ctx_ok k'"
  unfolding ctx_ok_def sched_frame_def by metis

lemma handed_stacks:
  assumes f: "sched_frame k k'" and b: "between_interrupts k" and s: "stacks_ok L k"
  shows "stacks_ok L k'"
proof -
  have b': "between_interrupts k'" and h: "handed k k'" using f b by (simp_all add: sched_frame_def)
  have n: "rt_interrupt_nest k = 0" "rt_interrupt_nest k' = 0" "cpu k = rt_current_thread k" "cpu k' = rt_current_thread k'"
    using b b' by (simp_all add: between_interrupts_def)
  note fld = sched_frame_tcb[OF f, of stack_low] sched_frame_tcb[OF f, of stack_addr] sched_frame_tcb[OF f, of stack_size]
  have ist: "in_stack (tcb k' t) a = in_stack (tcb k t) a" for t a by (simp add: in_stack_def fld)
  show ?thesis
  proof (cases "rt_current_thread k' = rt_current_thread k")
    case True
    then show ?thesis using h s n by (simp add: handed_def stacks_ok_def rt_scheduler_stack_check_def fld ist user_sp_def) metis
  next
    case False
    obtain c t where ct: "rt_current_thread k = Some c" "rt_current_thread k' = Some t" "cpu_sp k' = pt_r29 (frames k t)"
        "frames k' = (frames k)(c := \<lparr>pt_r29 = cpu_sp k, pt_status = False, pt_epc = After_switch (irq k)\<rparr>)"
        "\<forall>t'. sp (tcb k' t') = (if t' = c then cpu_sp k - PT_SIZE else sp (tcb k t'))"
      using h False by (auto simp: handed_def)
    have ne: "c \<noteq> t" using False ct by auto
    have "rt_scheduler_stack_check t' k' \<and> in_stack (tcb k' t') (user_sp k' t') \<and>
        (cpu k' \<noteq> Some t' \<longrightarrow> sp (tcb k' t') = pt_r29 (frames k' t') - PT_SIZE)" if t': "t' \<in> L" for t'
    proof -
      note st = stacks_okD[OF s t']
      have u: "user_sp k' t' = user_sp k t'" using ct n ne by (auto simp: user_sp_def)
      have "rt_scheduler_stack_check t' k'"
        using st(1) in_stack_frame[OF st(2)] ct n by (auto simp: rt_scheduler_stack_check_def fld user_sp_def)
      then show ?thesis using st u ct n ne by (simp add: ist)
    qed
    then show ?thesis by (simp add: stacks_ok_def)
  qed
qed

lemma sched_frame_stacks:
  assumes f: "sched_frame k k'" and c: "ctx_ok k" and s: "stacks_ok L k"
  shows "stacks_ok L k'"
proof (cases "rt_interrupt_nest k = 0")
  case True
  then show ?thesis using handed_stacks[OF f _ s] c by (simp add: ctx_ok_def)
next
  case False
  then show ?thesis using f s
    by (simp add: sched_frame_def stacks_ok_def rt_scheduler_stack_check_def in_stack_def user_sp_def
        sched_frame_tcb[OF f, of stack_low] sched_frame_tcb[OF f, of stack_addr] sched_frame_tcb[OF f, of stack_size])
qed

lemma sched_frame_refl: "rt_current_thread k \<noteq> None \<Longrightarrow> sched_frame k k"
  by (simp add: sched_frame_def handed_def)

definition same_waiting :: "node set \<Rightarrow> (node \<Rightarrow> node list) \<Rightarrow> (node \<Rightarrow> node list) \<Rightarrow> bool" where
  "same_waiting S q q' \<longleftrightarrow> (\<forall>l\<in>headers S. (\<forall>p. l \<noteq> Ready p) \<longrightarrow> q' l = q l)"

lemma switch_frame:
  assumes "c \<noteq> t" "statu_of k t = RT_THREAD_READY" "rt_current_thread k = Some c"
  shows "sched_frame k (switch_cpu c t (dispatch c t p k))"
proof -
  let ?k = "switch_cpu c t (dispatch c t p k)"
  note fr = switch_cpu_frame[OF assms(1)] dispatch_frame dispatch_tcb[OF assms(1)]
  have "irq ?k = irq k \<and> cpu ?k = cpu k \<and> cpu_sp ?k = cpu_sp k \<and> frames ?k = frames k \<and>
      (\<forall>t. sp (tcb ?k t) = sp (tcb k t)) \<and> (\<forall>c'. isr_ok c' k \<longrightarrow> isr_ok c' ?k)" if n: "rt_interrupt_nest k \<noteq> 0"
  proof -
    have "?k = rt_hw_context_switch_interrupt c t (dispatch c t p k)" using n by (simp add: switch_cpu_def dispatch_frame)
    then show ?thesis using assms(3) by (simp add: rt_hw_context_switch_interrupt_def isr_ok_def dispatch_frame dispatch_tcb[OF assms(1)] Let_def)
  qed
  moreover have "between_interrupts ?k \<and> handed k ?k" if b: "between_interrupts k"
  proof -
    have n: "rt_interrupt_nest k = 0" using b by (simp add: between_interrupts_def)
    have e: "?k = rt_hw_context_switch c t (irq k) ((dispatch c t p k)\<lparr>irq := False\<rparr>)" using n by (simp add: switch_cpu_def dispatch_frame)
    have "irq ?k = wake_irq (frames k t)" "cpu_sp ?k = pt_r29 (frames k t)" "cpu ?k = Some t"
      "frames ?k = (frames k)(c := \<lparr>pt_r29 = cpu_sp k, pt_status = False, pt_epc = After_switch (irq k)\<rparr>)"
      "rt_thread_switch_interrupt_flag ?k = rt_thread_switch_interrupt_flag k"
      unfolding e context_switch_eq[OF assms(1)] by (simp_all add: dispatch_frame)
    moreover have "sp (tcb ?k t') = (if t' = c then cpu_sp k - PT_SIZE else sp (tcb k t'))" for t'
      using n by (simp add: fr)
    ultimately show ?thesis using b assms(1,3) by (simp add: between_interrupts_def handed_def fr)
  qed
  moreover have "cur_running ?k" using assms(1) by (simp add: cur_running_def fr)
  ultimately show ?thesis using assms(1,2)
    by (simp add: sched_frame_def fr awake_def leaves_cpu_def)
qed

lemma sched_queues_waiting:
  assumes k: "kinv {} S L q k" and n: "next_ready q p t"
  shows "same_waiting S q (sched_queues c t k q)"
  unfolding same_waiting_def
proof (intro ballI impI)
  fix l assume l: "l \<in> headers S" "\<forall>p. l \<noteq> Ready p"
  have "TList t \<in> set (q (Ready p))" "Ready p \<in> headers S"
    using n hd_in_set[of "q (Ready p)"] unfolding next_ready_def by auto
  then have "TList t \<notin> set (q l)"
    using disjoint_queuesD[OF kinv_queues[OF k], of "TList t" l "Ready p"] l by auto
  then show "sched_queues c t k q l = q l"
    using l(2) by (simp add: sched_queues_def requeue_def remove1_idem)
qed

definition picks :: "(node \<Rightarrow> node list) \<Rightarrow> 'z kernel_scheme \<Rightarrow> 'z kernel_scheme \<Rightarrow> bool" where
  "picks q k k' \<longleftrightarrow> (if \<forall>p<32. q (Ready p) = [] then k' = k
     else \<exists>p t. next_ready q p t \<and> rt_current_thread k' = Some t \<and> rt_current_thread k \<noteq> Some t)"

lemma rt_schedule_total:
  assumes k: "kinv {} S L q k" and c: "rt_current_thread k = Some c" and s: "\<And>t. t \<in> L \<Longrightarrow> rt_scheduler_stack_check t k"
  shows "\<exists>k' q'. rt_schedule k = Inr k' \<and> kinv {} S L q' k' \<and> sched_frame k k' \<and> same_waiting S q q'
    \<and> picks q k k'"
proof (cases "rt_thread_ready_priority_group k = 0")
  case True
  then have "rt_schedule k = Inr k" using rt_schedule_idle[OF k c] group_zero[OF k] by blast
  then show ?thesis using k c sched_frame_refl[of k] group_zero[OF k] True
    by (auto simp: same_waiting_def picks_def)
next
  case False
  then obtain p t where n: "next_ready q p t" using group_lowest[OF k] by blast
  have t: "t \<in> L" "statu_of k t = RT_THREAD_READY" "c \<noteq> t"
    using next_ready_thread[OF k n] c by auto
  have "rt_schedule k = Inr (switch_cpu c t (dispatch c t p k))"
    using rt_schedule_switch[OF k c n] s t(1) by simp
  moreover have "kinv {} S L (sched_queues c t k q) (switch_cpu c t (dispatch c t p k))"
    using dispatch_kinv[OF k c n] by (simp add: switch_cpu_frame[OF t(3)])
  moreover have "picks q k (switch_cpu c t (dispatch c t p k))"
    using False group_zero[OF k] n t(3) c by (auto simp: picks_def switch_cpu_frame[OF t(3)] dispatch_frame)
  ultimately show ?thesis
    using switch_frame[OF t(3,2) c] sched_queues_waiting[OF k n] by blast
qed

end
