(* ===== verification/Thread_Ops.thy ===== *)
theory Thread_Ops
  imports Scheduler
begin

unbundle bit_operations_syntax

text \<open>
  The thread operations and the tick on the invariant of a running system: \<open>sys_inv\<close> adds
  to \<open>kinv\<close> that a current thread exists, that every stack pointer is in its stack and passes
  the scheduler's check, that only sleeping and suspended threads have an active timer and
  that the context on the processor is that of the current or the interrupted thread. Suspending, resuming,
  sleeping, ending a thread, a timeout, the walk over the timer list and the whole tick
  handler keep it, and the handler always comes to an end.
\<close>

definition sys_inv ::
  "node set \<Rightarrow> tid set \<Rightarrow> (node \<Rightarrow> node list) \<Rightarrow> 'z kernel_scheme \<Rightarrow> bool" where
  "sys_inv S L q k \<longleftrightarrow> kinv {} S L q k \<and> rt_current_thread k \<noteq> None \<and> stacks_ok L k \<and>
    (\<forall>t\<in>L. timer_on k t \<longrightarrow> statu_of k t = RT_THREAD_SLEEP \<or> statu_of k t = RT_THREAD_SUSPEND) \<and> ctx_ok k"

lemma sys_invD:
  assumes "sys_inv S L q k"
  shows "kinv {} S L q k" "rt_current_thread k \<noteq> None" "stacks_ok L k"
    "t \<in> L \<Longrightarrow> timer_on k t \<Longrightarrow> statu_of k t = RT_THREAD_SLEEP \<or> statu_of k t = RT_THREAD_SUSPEND" "ctx_ok k"
  using assms by (simp_all add: sys_inv_def)

text \<open>The registers of the processor and what belongs to a switch.\<close>

definition regs :: "'z kernel_scheme \<Rightarrow> tid option \<times> u32 \<times> (tid \<Rightarrow> frame) \<times> u32 \<times> bool \<times> tid option \<times> tid option" where
  "regs k = (cpu k, cpu_sp k, frames k, rt_interrupt_nest k, rt_thread_switch_interrupt_flag k,
     rt_interrupt_from_thread k, rt_interrupt_to_thread k)"

lemma regsD:
  assumes "regs k' = regs k"
  shows "cpu k' = cpu k" "cpu_sp k' = cpu_sp k" "frames k' = frames k" "rt_interrupt_nest k' = rt_interrupt_nest k"
    "rt_thread_switch_interrupt_flag k' = rt_thread_switch_interrupt_flag k"
    "rt_interrupt_from_thread k' = rt_interrupt_from_thread k" "rt_interrupt_to_thread k' = rt_interrupt_to_thread k"
  using assms by (simp_all add: regs_def)

lemma regs_simps [simp]:
  "regs (k\<lparr>irq := b\<rparr>) = regs k" "regs (k\<lparr>tcb := f\<rparr>) = regs k" "regs (k\<lparr>links := h\<rparr>) = regs k"
  "regs (k\<lparr>rt_thread_ready_priority_group := g\<rparr>) = regs k" "regs (k\<lparr>system_tick := w\<rparr>) = regs k"
  "regs (k\<lparr>rt_current_thread := c\<rparr>) = regs k" "regs (upd_tcb t f' k) = regs k" "regs (upd_timer t f'' k) = regs k"
  by (simp_all add: regs_def upd_tcb_def upd_timer_def)

lemma between_cong:
  "regs k' = regs k \<Longrightarrow> rt_current_thread k' = rt_current_thread k \<Longrightarrow> between_interrupts k' = between_interrupts k"
  "regs k' = regs k \<Longrightarrow> rt_current_thread k' = rt_current_thread k \<Longrightarrow> isr_ok c k' = isr_ok c k"
  "regs k' = regs k \<Longrightarrow> rt_current_thread k' = rt_current_thread k \<Longrightarrow> ctx_ok k' = ctx_ok k"
  by (auto simp: regs_def between_interrupts_def isr_ok_def ctx_ok_def)

lemma stacks_ok_cong:
  assumes "\<And>t. t \<in> L \<Longrightarrow> stack_low (tcb k' t) = stack_low (tcb k t) \<and> sp (tcb k' t) = sp (tcb k t) \<and>
    stack_addr (tcb k' t) = stack_addr (tcb k t) \<and> stack_size (tcb k' t) = stack_size (tcb k t)"
    and "regs k' = regs k"
  shows "stacks_ok L k' = stacks_ok L k"
  using assms(1) regsD[OF assms(2)] by (simp add: stacks_ok_def rt_scheduler_stack_check_def in_stack_def user_sp_def)

section \<open>Effects on the control blocks\<close>

lemma tcb_field_order:
  "b\<lparr>thread_timer := m, statu := s\<rparr> = b\<lparr>statu := s, thread_timer := m\<rparr>"
  "b\<lparr>error := e, statu := s\<rparr> = b\<lparr>statu := s, error := e\<rparr>"
  "b\<lparr>thread_timer := m, error := e\<rparr> = b\<lparr>error := e, thread_timer := m\<rparr>"
  "b\<lparr>thread_timer := m, sp := a\<rparr> = b\<lparr>sp := a, thread_timer := m\<rparr>" for b :: rt_thread
  by simp_all

lemma timer_stop_frame:
  "tcb (snd (rt_timer_stop t k)) = (tcb k)(t := (tcb k t)\<lparr>thread_timer := (thread_timer (tcb k t))\<lparr>timer_active := False\<rparr>\<rparr>)"
  "rt_current_thread (snd (rt_timer_stop t k)) = rt_current_thread k"
  "irq (snd (rt_timer_stop t k)) = irq k" "system_tick (snd (rt_timer_stop t k)) = system_tick k"
  "rt_interrupt_nest (snd (rt_timer_stop t k)) = rt_interrupt_nest k"
  "kernel.more (snd (rt_timer_stop t k)) = kernel.more k"
  "regs (snd (rt_timer_stop t k)) = regs k"
proof -
  show "tcb (snd (rt_timer_stop t k)) = (tcb k)(t := (tcb k t)\<lparr>thread_timer := (thread_timer (tcb k t))\<lparr>timer_active := False\<rparr>\<rparr>)"
  proof (cases "timer_on k t")
    case False
    then have "(tcb k t)\<lparr>thread_timer := (thread_timer (tcb k t))\<lparr>timer_active := False\<rparr>\<rparr> = tcb k t"
      by simp
    then have "(tcb k)(t := (tcb k t)\<lparr>thread_timer := (thread_timer (tcb k t))\<lparr>timer_active := False\<rparr>\<rparr>) = tcb k"
      by (rule fun_upd_idem[OF sym])
    moreover have "tcb (snd (rt_timer_stop t k)) = tcb k" using False by (simp add: rt_timer_stop_eq)
    ultimately show ?thesis by (rule trans[OF _ sym, rotated])
  qed (simp add: rt_timer_stop_eq upd_timer_def upd_tcb_def upd_links_def)
qed (simp_all add: rt_timer_stop_eq upd_timer_def upd_tcb_def upd_links_def regs_def)

lemma timer_start_frame:
  "tcb (rt_timer_start t k) = (tcb k)(t := (tcb k t)\<lparr>thread_timer := (thread_timer (tcb k t))
     \<lparr>timeout_tick := system_tick k + timer_init_tick (thread_timer (tcb k t)), timer_active := True\<rparr>\<rparr>)"
  "rt_current_thread (rt_timer_start t k) = rt_current_thread k"
  "irq (rt_timer_start t k) = irq k" "system_tick (rt_timer_start t k) = system_tick k"
  "rt_interrupt_nest (rt_timer_start t k) = rt_interrupt_nest k"
  "kernel.more (rt_timer_start t k) = kernel.more k"
  "regs (rt_timer_start t k) = regs k"
  by (simp_all add: rt_timer_start_eq upd_timer_def upd_tcb_def upd_links_def regs_def)

lemma remove_thread_frame:
  "tcb (rt_schedule_remove_thread t k) = tcb k"
  "rt_current_thread (rt_schedule_remove_thread t k) = rt_current_thread k"
  "irq (rt_schedule_remove_thread t k) = irq k" "system_tick (rt_schedule_remove_thread t k) = system_tick k"
  "rt_interrupt_nest (rt_schedule_remove_thread t k) = rt_interrupt_nest k"
  "kernel.more (rt_schedule_remove_thread t k) = kernel.more k"
  "regs (rt_schedule_remove_thread t k) = regs k"
  by (simp_all add: rt_schedule_remove_thread_eq upd_links_def regs_def)

lemma insert_thread_frame:
  "tcb (rt_schedule_insert_thread t k) = (tcb k)(t := (tcb k t)\<lparr>statu :=
     if rt_current_thread k = Some t then RT_THREAD_RUNNING else RT_THREAD_READY\<rparr>)"
  "rt_current_thread (rt_schedule_insert_thread t k) = rt_current_thread k"
  "irq (rt_schedule_insert_thread t k) = irq k" "system_tick (rt_schedule_insert_thread t k) = system_tick k"
  "rt_interrupt_nest (rt_schedule_insert_thread t k) = rt_interrupt_nest k"
  "kernel.more (rt_schedule_insert_thread t k) = kernel.more k"
  "regs (rt_schedule_insert_thread t k) = regs k"
  by (simp_all add: rt_schedule_insert_thread_eq upd_links_def set_statu_def upd_tcb_def regs_def)

lemma set_statu_frame:
  "tcb (set_statu t s k) = (tcb k)(t := (tcb k t)\<lparr>statu := s\<rparr>)"
  "rt_current_thread (set_statu t s k) = rt_current_thread k" "links (set_statu t s k) = links k"
  "irq (set_statu t s k) = irq k" "system_tick (set_statu t s k) = system_tick k"
  "rt_interrupt_nest (set_statu t s k) = rt_interrupt_nest k"
  "kernel.more (set_statu t s k) = kernel.more k"
  "regs (set_statu t s k) = regs k"
  by (simp_all add: set_statu_def upd_tcb_def regs_def)

lemma upd_links_frame:
  "tcb (upd_links f k) = tcb k" "rt_current_thread (upd_links f k) = rt_current_thread k"
  "irq (upd_links f k) = irq k" "system_tick (upd_links f k) = system_tick k"
  "rt_interrupt_nest (upd_links f k) = rt_interrupt_nest k"
  "kernel.more (upd_links f k) = kernel.more k"
  "regs (upd_links f k) = regs k"
  by (simp_all add: upd_links_def regs_def)

lemmas op_frames = timer_stop_frame timer_start_frame remove_thread_frame insert_thread_frame
  set_statu_frame upd_links_frame

section \<open>Suspend and resume\<close>

definition unqueue :: "tid \<Rightarrow> (node \<Rightarrow> node list) \<Rightarrow> node \<Rightarrow> node list" where
  "unqueue t q = (\<lambda>l. remove1 (TList t) (q l))"

definition stop_queue :: "tid \<Rightarrow> (node \<Rightarrow> node list) \<Rightarrow> node \<Rightarrow> node list" where
  "stop_queue t q = q(Timer_list := remove1 (TimerNode t) (q Timer_list))"

definition wake_queue :: "tid \<Rightarrow> 'z kernel_scheme \<Rightarrow> (node \<Rightarrow> node list) \<Rightarrow> node \<Rightarrow> node list" where
  "wake_queue t k q = (if rt_current_thread k = Some t then q
     else q(Ready (prio_of k t) := q (Ready (prio_of k t)) @ [TList t]))"

lemma wake_queue_cong:
  "rt_current_thread k' = rt_current_thread k \<Longrightarrow> prio_of k' t = prio_of k t \<Longrightarrow>
    wake_queue t k' q = wake_queue t k q"
  by (simp add: wake_queue_def)

lemma kinv_insert_thread:
  assumes k: "kinv E S L q k" and t: "t \<in> E" "t \<in> L"
  shows "kinv (E - {t}) S L (wake_queue t k q) (rt_schedule_insert_thread t k)"
  using kinv_insert_ready[OF k t] kinv_insert_current[OF k t(1)] by (simp add: wake_queue_def)

lemma rt_thread_suspend_eq:
  "rt_thread_suspend t s k =
    (if statu_of k t \<noteq> RT_THREAD_READY \<and> statu_of k t \<noteq> RT_THREAD_RUNNING then (- RT_ERROR, k\<lparr>irq := False\<rparr>)
     else (RT_EOK, snd (rt_timer_stop t (set_statu t s (rt_schedule_remove_thread t k)))))"
  by (simp add: rt_thread_suspend_def rt_schedule_remove_thread_eq rt_timer_stop_eq irq_defs
      set_statu_def upd_tcb_def upd_links_def upd_timer_def Let_def)

lemma rt_thread_resume_eq:
  "rt_thread_resume t k =
    (if statu_of k t \<noteq> RT_THREAD_SUSPEND \<and> statu_of k t \<noteq> RT_THREAD_SLEEP then (- RT_ERROR, k)
     else (RT_EOK, rt_schedule_insert_thread t (snd (rt_timer_stop t (upd_links (rt_list_remove (TList t)) k)))))"
  by (simp add: rt_thread_resume_def rt_schedule_insert_thread_eq rt_timer_stop_eq irq_defs
      set_statu_def upd_tcb_def upd_links_def upd_timer_def Let_def)

lemma suspend_kinv:
  assumes k: "kinv E S L q k" and t: "t \<in> L" and r: "statu_of k t = RT_THREAD_READY \<or> statu_of k t = RT_THREAD_RUNNING"
  shows "kinv (insert t E) S L (stop_queue t (unqueue t q)) (snd (rt_thread_suspend t s k))"
proof -
  have "kinv (insert t E) S L (unqueue t q) (set_statu t s (rt_schedule_remove_thread t k))"
    using kinv_set_statu[OF kinv_remove_thread[OF k t]] by (simp add: unqueue_def)
  from kinv_timer_stop[OF this t] show ?thesis
    using r by (auto simp: rt_thread_suspend_eq stop_queue_def)
qed

lemma resume_kinv:
  assumes k: "kinv {} S L q k" and t: "t \<in> L" and r: "statu_of k t = RT_THREAD_SUSPEND \<or> statu_of k t = RT_THREAD_SLEEP"
  shows "kinv {} S L (wake_queue t k (stop_queue t (unqueue t q))) (snd (rt_thread_resume t k))"
proof -
  let ?k = "snd (rt_timer_stop t (upd_links (rt_list_remove (TList t)) k))"
  have "kinv {t} S L (unqueue t q) (upd_links (rt_list_remove (TList t)) k)"
    using kinv_unlink_waiting[OF k t] r by (auto simp: unqueue_def)
  from kinv_insert_thread[OF kinv_timer_stop[OF this t]] t
  have "kinv {} S L (wake_queue t ?k (stop_queue t (unqueue t q))) (rt_schedule_insert_thread t ?k)"
    by (simp add: stop_queue_def)
  then show ?thesis using r by (auto simp: rt_thread_resume_eq wake_queue_def op_frames)
qed

lemma rt_schedule_sys_inv:
  assumes k: "sys_inv S L q k"
  shows "\<exists>k' q'. rt_schedule k = Inr k' \<and> sys_inv S L q' k' \<and> sched_frame k k' \<and> same_waiting S q q'
    \<and> picks q k k'"
proof -
  note inv = sys_invD[OF k]
  obtain c where c: "rt_current_thread k = Some c" using inv(2) by blast
  obtain k' q' where r: "rt_schedule k = Inr k'" "kinv {} S L q' k'" "sched_frame k k'"
      "same_waiting S q q'" "picks q k k'"
    using rt_schedule_total[OF inv(1) c stacks_okD(1)[OF inv(3)]] by blast
  have "statu_of k' t = RT_THREAD_SLEEP \<or> statu_of k' t = RT_THREAD_SUSPEND" if "t \<in> L" "timer_on k' t" for t
    using inv(4)[of t] that sched_frame_timer[OF r(3), of t] r(3)
    unfolding sched_frame_def awake_def leaves_cpu_def by auto
  then have "sys_inv S L q' k'"
    using r inv sched_frame_stacks[OF r(3) inv(5,3)] sched_frame_ctx[OF r(3) inv(5)] by (simp add: sys_inv_def sched_frame_def)
  then show ?thesis using r by blast
qed

section \<open>Sleeping\<close>

text \<open>The state in which a sleeping thread calls the scheduler.\<close>

definition asleep :: "tid \<Rightarrow> u32 \<Rightarrow> 'z kernel_scheme \<Rightarrow> 'z kernel_scheme" where
  "asleep c tick k = rt_timer_start c (snd (rt_thread_suspend c RT_THREAD_SLEEP
     (upd_timer c (\<lambda>m. m\<lparr>timer_init_tick := tick\<rparr>) k)))"

lemma rt_thread_sleep_eq:
  assumes "rt_current_thread k = Some c" "statu_of k c = RT_THREAD_RUNNING"
  shows "rt_thread_sleep tick k = rt_schedule (asleep c tick k)"
  using assms
  by (simp add: rt_thread_sleep_def asleep_def rt_thread_suspend_eq rt_schedule_remove_thread_eq
      rt_timer_stop_eq rt_timer_start_eq irq_defs upd_timer_def upd_tcb_def upd_links_def
      set_statu_def Let_def split_def)

lemma timer_fields:
  "m\<lparr>timer_init_tick := a, timeout_tick := b, timer_active := d\<rparr> =
    \<lparr>timer_active = d, timer_init_tick = a, timeout_tick = b\<rparr>" for m :: rt_timer
  by (cases m) simp

lemma asleep_frame:
  assumes "statu_of k c = RT_THREAD_RUNNING"
  shows "tcb (asleep c tick k) = (tcb k)(c := (tcb k c)\<lparr>statu := RT_THREAD_SLEEP, thread_timer :=
     \<lparr>timer_active = True, timer_init_tick = tick, timeout_tick = system_tick k + tick\<rparr>\<rparr>)"
    "rt_current_thread (asleep c tick k) = rt_current_thread k" "irq (asleep c tick k) = irq k"
    "system_tick (asleep c tick k) = system_tick k"
    "rt_interrupt_nest (asleep c tick k) = rt_interrupt_nest k"
    "kernel.more (asleep c tick k) = kernel.more k" "regs (asleep c tick k) = regs k"
  using assms by (simp_all add: asleep_def rt_thread_suspend_eq op_frames upd_timer_def upd_tcb_def timer_fields)

lemma kinv_upd_init_tick:
  "kinv E S L q k \<Longrightarrow> kinv E S L q (upd_timer t (\<lambda>m. m\<lparr>timer_init_tick := tick\<rparr>) k)"
  unfolding upd_timer_def by (erule kinv_upd_tcb) auto

lemma asleep_kinv:
  assumes k: "kinv {} S L q k" and c: "c \<in> L" "statu_of k c = RT_THREAD_RUNNING"
  defines "q1 \<equiv> stop_queue c (unqueue c q)"
  shows "kinv {} S L (q1(Timer_list := TimerNode c # q1 Timer_list)) (asleep c tick k)"
proof -
  let ?k = "snd (rt_thread_suspend c RT_THREAD_SLEEP (upd_timer c (\<lambda>m. m\<lparr>timer_init_tick := tick\<rparr>) k))"
  have r: "statu_of (upd_timer c (\<lambda>m. m\<lparr>timer_init_tick := tick\<rparr>) k) c = RT_THREAD_RUNNING"
    using c(2) by (simp add: upd_timer_def upd_tcb_def)
  have "kinv {c} S L q1 ?k"
    using suspend_kinv[OF kinv_upd_init_tick[OF k] c(1)] r by (simp add: q1_def)
  moreover have "\<not> timer_on ?k c"
    using r by (simp add: rt_thread_suspend_eq op_frames)
  ultimately have "kinv {c} S L (q1(Timer_list := TimerNode c # q1 Timer_list)) (asleep c tick k)"
    unfolding asleep_def using kinv_timer_start c(1) by blast
  from kinv_settle[OF this, of c] show ?thesis by (simp add: asleep_frame[OF c(2)])
qed

lemma sys_inv_step:
  assumes k: "sys_inv S L q k" and k': "kinv {} S L q' k'"
    and c: "rt_current_thread k' = rt_current_thread k"
    and t: "\<And>t. t \<in> L \<Longrightarrow> stack_low (tcb k' t) = stack_low (tcb k t) \<and> sp (tcb k' t) = sp (tcb k t) \<and>
      stack_addr (tcb k' t) = stack_addr (tcb k t) \<and> stack_size (tcb k' t) = stack_size (tcb k t)"
    and on: "\<And>t. t \<in> L \<Longrightarrow> timer_on k' t \<Longrightarrow> statu_of k' t \<noteq> RT_THREAD_SLEEP \<Longrightarrow> statu_of k' t \<noteq> RT_THREAD_SUSPEND \<Longrightarrow>
      timer_on k t \<and> statu_of k' t = statu_of k t"
    and g: "regs k' = regs k"
  shows "sys_inv S L q' k'"
  using sys_invD[OF k] k' c stacks_ok_cong[of L k' k, OF t g] between_cong(3)[OF g c] on unfolding sys_inv_def by metis

text \<open>The effect on the processor, seen from a state with the same registers.\<close>

lemma handed_from:
  assumes "regs k1 = regs k" "rt_current_thread k1 = rt_current_thread k" "irq k1 = irq k"
    and "\<And>t. sp (tcb k1 t) = sp (tcb k t)" "handed k1 k'"
  shows "handed k k'"
  using assms(5) unfolding handed_def assms(2-4) regsD(2,3)[OF assms(1)] .

lemma asleep_sys_inv:
  assumes k: "sys_inv S L q k" and c: "rt_current_thread k = Some c" "statu_of k c = RT_THREAD_RUNNING"
  defines "q1 \<equiv> stop_queue c (unqueue c q)"
  shows "sys_inv S L (q1(Timer_list := TimerNode c # q1 Timer_list)) (asleep c tick k)"
  unfolding q1_def
  by (rule sys_inv_step[OF k asleep_kinv[OF sys_invD(1)[OF k] kinv_current[OF sys_invD(1)[OF k] c(1)] c(2)]])
     (auto simp: asleep_frame[OF c(2)] split: if_splits)

lemma ready_kept:
  assumes "kinv {} S L q k" "statu_of k c \<noteq> RT_THREAD_READY" "p < 32"
  shows "stop_queue c (unqueue c q) (Ready p) = q (Ready p)"
  using kinv_place[OF assms(1), of c "Ready p"] assms(2,3)
  by (auto simp: stop_queue_def unqueue_def intro: remove1_idem)

lemma running_not_queued:
  assumes "kinv {} S L q k" "statu_of k c = RT_THREAD_RUNNING" "l \<in> headers S"
  shows "TList c \<notin> set (q l)"
proof
  assume "TList c \<in> set (q l)"
  then have "place k l c" using kinv_place[OF assms(1) _ assms(3)] by blast
  then show False using assms(2) by (cases l) auto
qed

lemma sleep_sys_inv:
  assumes k: "sys_inv S L q k" and c: "rt_current_thread k = Some c" "statu_of k c = RT_THREAD_RUNNING"
  shows "\<exists>k' q'. rt_thread_sleep tick k = Inr k' \<and> sys_inv S L q' k' \<and> statu_of k' c = RT_THREAD_SLEEP \<and>
    thread_timer (tcb k' c) = \<lparr>timer_active = True, timer_init_tick = tick, timeout_tick = system_tick k + tick\<rparr> \<and>
    ((\<exists>p<32. q (Ready p) \<noteq> []) \<longrightarrow> rt_current_thread k' \<noteq> Some c \<and> cur_running k') \<and>
    kernel.more k' = kernel.more k \<and> (between_interrupts k \<longrightarrow> between_interrupts k' \<and> handed k k') \<and>
    (\<forall>t. error (tcb k' t) = error (tcb k t)) \<and>
    (\<forall>l\<in>S. l \<in> wait_queues \<longrightarrow> q' l = q l)"
proof -
  let ?q1 = "stop_queue c (unqueue c q)"
  let ?q2 = "?q1(Timer_list := TimerNode c # ?q1 Timer_list)"
  obtain k' q' where r: "rt_schedule (asleep c tick k) = Inr k'" "sys_inv S L q' k'"
      "sched_frame (asleep c tick k) k'" "picks ?q2 (asleep c tick k) k'" "same_waiting S ?q2 q'"
    using rt_schedule_sys_inv[OF asleep_sys_inv[OF k c]] by blast
  have "?q2 (Ready p) = q (Ready p)" if "p < 32" for p
    using ready_kept[OF sys_invD(1)[OF k], of c p] c(2) that by simp
  then have "(\<exists>p<32. q (Ready p) \<noteq> []) \<longleftrightarrow> \<not> (\<forall>p<32. ?q2 (Ready p) = [])" by metis
  then have "(\<exists>p<32. q (Ready p) \<noteq> []) \<longrightarrow> rt_current_thread k' \<noteq> Some c"
    using r(4) c(1) asleep_frame(2)[OF c(2), of tick] unfolding picks_def by metis
  then have "(\<exists>p<32. q (Ready p) \<noteq> []) \<longrightarrow> rt_current_thread k' \<noteq> Some c \<and> cur_running k'"
    using r(3) c(1) asleep_frame(2)[OF c(2), of tick] unfolding sched_frame_def by metis
  moreover have "statu_of k' c = RT_THREAD_SLEEP"
    using r(3) asleep_frame[OF c(2)] by (simp add: sched_frame_def awake_def leaves_cpu_def)
  moreover have "kernel.more k' = kernel.more k" "between_interrupts k \<longrightarrow> between_interrupts k' \<and> handed k k'"
    using r(3) asleep_frame[OF c(2)] between_cong(1)[OF asleep_frame(7,2)[OF c(2)]]
      handed_from[OF asleep_frame(7,2,3)[OF c(2)], of tick k'] by (auto simp: sched_frame_def)
  moreover have "error (tcb k' t) = error (tcb k t)" for t
    using sched_frame_tcb[OF r(3), of error t] asleep_frame(1)[OF c(2)] by simp
  moreover have "q' l = q l" if "l \<in> S" "l \<in> wait_queues" for l
    using r(5) running_not_queued[OF sys_invD(1)[OF k] c(2), of l] that
    by (auto simp: same_waiting_def stop_queue_def unqueue_def wait_queues_def remove1_idem)
  moreover have "thread_timer (tcb k' c) = \<lparr>timer_active = True, timer_init_tick = tick, timeout_tick = system_tick k + tick\<rparr>"
    using sched_frame_timer[OF r(3), of c] r(3) asleep_frame[OF c(2)] by (simp_all add: sched_frame_def)
  ultimately show ?thesis using r(1,2) rt_thread_sleep_eq[OF c] by (intro exI[of _ k'] exI[of _ q']) simp
qed

section \<open>Ending a thread\<close>

lemma close_thread_eq:
  "close_thread t k = upd_links (rt_list_insert_after Dead (TList t))
     (set_statu t RT_THREAD_CLOSE (rt_schedule_remove_thread t (snd (rt_timer_stop t k))))"
  by (simp add: close_thread_def rt_schedule_remove_thread_eq rt_timer_stop_eq set_statu_def
      upd_tcb_def upd_links_def upd_timer_def tcb_field_order Let_def split_def)

definition dead_queue :: "tid \<Rightarrow> (node \<Rightarrow> node list) \<Rightarrow> node \<Rightarrow> node list" where
  "dead_queue t q = (unqueue t (stop_queue t q))(Dead := TList t # unqueue t (stop_queue t q) Dead)"

lemma close_thread_kinv:
  assumes k: "kinv {} S L q k" and t: "t \<in> L"
  shows "kinv {} S L (dead_queue t q) (close_thread t k)"
proof -
  have "kinv {t} S L (unqueue t (stop_queue t q)) (rt_schedule_remove_thread t (snd (rt_timer_stop t k)))"
    using kinv_remove_thread[OF kinv_timer_stop[OF k t] t] by (simp add: unqueue_def stop_queue_def)
  from kinv_insert_dead[OF kinv_set_statu[OF this, of t RT_THREAD_CLOSE]] t
  show ?thesis by (simp add: close_thread_eq dead_queue_def set_statu_frame)
qed

lemma close_thread_frame:
  "tcb (close_thread t k) = (tcb k)(t := (tcb k t)\<lparr>statu := RT_THREAD_CLOSE,
     thread_timer := (thread_timer (tcb k t))\<lparr>timer_active := False\<rparr>\<rparr>)"
  "rt_current_thread (close_thread t k) = rt_current_thread k" "irq (close_thread t k) = irq k"
  "system_tick (close_thread t k) = system_tick k" "kernel.more (close_thread t k) = kernel.more k"
  "regs (close_thread t k) = regs k"
  by (simp_all add: close_thread_eq op_frames tcb_field_order)

lemma close_thread_sys_inv:
  assumes k: "sys_inv S L q k" and t: "t \<in> L"
  shows "sys_inv S L (dead_queue t q) (close_thread t k)"
  by (rule sys_inv_step[OF k close_thread_kinv[OF sys_invD(1)[OF k] t]])
     (auto simp: close_thread_frame split: if_splits)

lemma rt_thread_exit_eq:
  assumes "rt_current_thread k = Some c"
  shows "rt_thread_exit k = rt_schedule (close_thread c k)"
    and "rt_thread_dead_exit k = rt_schedule (if statu_of k c \<noteq> RT_THREAD_CLOSE then close_thread c k else k)"
  using assms
  by (simp_all add: rt_thread_exit_def rt_thread_dead_exit_def close_thread_eq rt_schedule_remove_thread_eq
      rt_timer_stop_eq set_statu_def irq_defs upd_tcb_def upd_links_def upd_timer_def Let_def split_def)

lemma picks_running:
  assumes "sched_frame k k'" "picks q k k'" "p < 32" "q (Ready p) \<noteq> []"
  shows "cur_running k'" "rt_current_thread k' \<noteq> rt_current_thread k"
proof -
  have "\<not> (\<forall>p<32. q (Ready p) = [])" using assms(3,4) by blast
  then show "rt_current_thread k' \<noteq> rt_current_thread k" using assms(2) unfolding picks_def by metis
  then show "cur_running k'" using assms(1) by (simp add: sched_frame_def)
qed

lemma dead_queue_ready:
  assumes "kinv {} S L q k" "statu_of k c \<noteq> RT_THREAD_READY" "p < 32"
  shows "dead_queue c q (Ready p) = q (Ready p)"
  using kinv_place[OF assms(1), of c "Ready p"] assms(2,3)
  by (auto simp: dead_queue_def stop_queue_def unqueue_def intro: remove1_idem)

lemma exit_sys_inv:
  assumes k: "sys_inv S L q k" and c: "rt_current_thread k = Some c"
  shows "\<exists>k' q'. rt_thread_exit k = Inr k' \<and> sys_inv S L q' k' \<and> statu_of k' c = RT_THREAD_CLOSE \<and>
    \<not> timer_on k' c \<and> TList c \<in> set (q' Dead) \<and> (\<forall>p<32. TList c \<notin> set (q' (Ready p))) \<and>
    kernel.more k' = kernel.more k \<and> (between_interrupts k \<longrightarrow> between_interrupts k') \<and>
    (\<forall>t. error (tcb k' t) = error (tcb k t)) \<and>
    (\<forall>l\<in>S. l \<in> wait_queues \<longrightarrow> q' l = remove1 (TList c) (q l)) \<and>
    ((\<exists>p<32. q (Ready p) \<noteq> []) \<longrightarrow> statu_of k c \<noteq> RT_THREAD_READY \<longrightarrow> cur_running k')"
proof -
  have "c \<in> L" using kinv_current[OF sys_invD(1)[OF k] c] .
  then obtain k' q' where r: "rt_schedule (close_thread c k) = Inr k'" "sys_inv S L q' k'"
      "sched_frame (close_thread c k) k'" "same_waiting S (dead_queue c q) q'" "picks (dead_queue c q) (close_thread c k) k'"
    using rt_schedule_sys_inv[OF close_thread_sys_inv[OF k]] by blast
  have s: "statu_of k' c = RT_THREAD_CLOSE"
    using r(3) by (simp add: sched_frame_def close_thread_frame awake_def leaves_cpu_def)
  have "TList c \<in> set (q' Dead)" using r(4) by (simp add: same_waiting_def dead_queue_def)
  moreover have "TList c \<notin> set (q' (Ready p))" if "p < 32" for p
    using kinv_place[OF sys_invD(1)[OF r(2)], of c "Ready p"] s that by auto
  moreover have "\<not> timer_on k' c" using sched_frame_timer[OF r(3), of c] by (simp add: close_thread_frame)
  moreover have "kernel.more k' = kernel.more k" "between_interrupts k \<longrightarrow> between_interrupts k'"
    using r(3) between_cong(1)[OF close_thread_frame(6,2)] by (auto simp: sched_frame_def close_thread_frame)
  moreover have "(\<exists>p<32. q (Ready p) \<noteq> []) \<longrightarrow> statu_of k c \<noteq> RT_THREAD_READY \<longrightarrow> cur_running k'"
    using picks_running[OF r(3,5)] dead_queue_ready[OF sys_invD(1)[OF k], of c] c by (auto simp: close_thread_frame)
  moreover have "error (tcb k' t) = error (tcb k t)" for t
    using sched_frame_tcb[OF r(3), of error t] by (simp add: close_thread_frame)
  moreover have "q' l = remove1 (TList c) (q l)" if "l \<in> S" "l \<in> wait_queues" for l
    using r(4) that by (auto simp: same_waiting_def dead_queue_def stop_queue_def unqueue_def wait_queues_def)
  ultimately show ?thesis
    using r(1,2) s rt_thread_exit_eq(1)[OF c] by (intro exI[of _ k'] exI[of _ q']) simp
qed

section \<open>Timeouts\<close>

text \<open>
  The state in which an expired thread calls the scheduler. The timer's flag is cleared only
  after the callback returns; the callback never reads it, so clearing it first is the same.
\<close>

definition woken :: "tid \<Rightarrow> 'z kernel_scheme \<Rightarrow> 'z kernel_scheme" where
  "woken t k = rt_schedule_insert_thread t (upd_links (rt_list_remove (TList t))
     (upd_tcb t (\<lambda>b. b\<lparr>error := - RT_ETIMEOUT\<rparr>) (snd (rt_timer_stop t k))))"

lemma upd_timer_schedule:
  "rt_schedule (upd_timer t f k) = map_sum id (upd_timer t f) (rt_schedule k)"
proof -
  have ins: "rt_schedule_insert_thread c (upd_timer t f k) = upd_timer t f (rt_schedule_insert_thread c k)" for c k
    by (simp add: rt_schedule_insert_thread_eq upd_timer_def upd_tcb_def upd_links_def set_statu_def fun_upd_twist
        tcb_field_order)
  have rem: "rt_schedule_remove_thread c (upd_timer t f k) = upd_timer t f (rt_schedule_remove_thread c k)" for c k
    by (simp add: rt_schedule_remove_thread_eq upd_timer_def upd_tcb_def upd_links_def)
  have st: "set_statu c s (upd_timer t f k) = upd_timer t f (set_statu c s k)" for c s k
    by (simp add: set_statu_def upd_timer_def upd_tcb_def fun_upd_twist tcb_field_order)
  have chk: "rt_scheduler_stack_check c (upd_timer t f k) = rt_scheduler_stack_check c k" for c k
    by (simp add: rt_scheduler_stack_check_def upd_timer_def upd_tcb_def)
  have sel: "rt_current_thread (upd_timer t f k) = rt_current_thread k" "irq (upd_timer t f k) = irq k"
    "rt_thread_ready_priority_group (upd_timer t f k) = rt_thread_ready_priority_group k"
    "rt_interrupt_nest (upd_timer t f k) = rt_interrupt_nest k"
    "get_highest_priority_thread (upd_timer t f k) = get_highest_priority_thread k"
    "statu_of (upd_timer t f k) c = statu_of k c" for k c
    by (simp_all add: upd_timer_def upd_tcb_def get_highest_priority_thread_def)
  have upd: "(upd_timer t f k)\<lparr>irq := b\<rparr> = upd_timer t f (k\<lparr>irq := b\<rparr>)"
    "(upd_timer t f k)\<lparr>rt_current_thread := c\<rparr> = upd_timer t f (k\<lparr>rt_current_thread := c\<rparr>)"
    "(upd_timer t f k)\<lparr>rt_current_priority := p\<rparr> = upd_timer t f (k\<lparr>rt_current_priority := p\<rparr>)"
    "rt_hw_context_switch x y b (upd_timer t f k) = upd_timer t f (rt_hw_context_switch x y b k)"
    "rt_hw_context_switch_interrupt x y (upd_timer t f k) = upd_timer t f (rt_hw_context_switch_interrupt x y k)"
    for k b c p x y
    by (simp_all add: upd_timer_def upd_tcb_def rt_hw_context_switch_def SAVE_ALL_def restore_eq fun_upd_twist tcb_field_order
        rt_hw_context_switch_interrupt_def Let_def)
  show ?thesis
    by (simp add: rt_schedule_def irq_defs sel upd Let_def split: option.split prod.split)
      (auto simp: ins rem st chk sel upd)
qed

lemma timer_expire_eq:
  assumes "timer_on k t" "system_tick k > timeout_tick (thread_timer (tcb k t))"
  shows "timer_expire t k = rt_schedule (woken t k)"
proof -
  let ?off = "upd_timer t (\<lambda>m. m\<lparr>timer_active := False\<rparr>)"
  let ?k1 = "upd_links (rt_list_remove (TimerNode t)) k"
  let ?k2 = "rt_schedule_insert_thread t (upd_links (rt_list_remove (TList t))
     (upd_tcb t (\<lambda>b. b\<lparr>error := - RT_ETIMEOUT\<rparr>) ?k1))"
  have "woken t k = ?off ?k2"
    using assms(1)
    by (simp add: woken_def rt_timer_stop_eq rt_schedule_insert_thread_eq upd_timer_def upd_tcb_def
        upd_links_def set_statu_def tcb_field_order)
  then have "rt_schedule (woken t k) = map_sum id ?off (rt_schedule ?k2)"
    by (simp add: upd_timer_schedule)
  moreover have "rt_thread_timeout t ?k1 = rt_schedule ?k2"
    by (simp add: rt_thread_timeout_def Let_def)
  ultimately show ?thesis
    using assms by (cases "rt_schedule ?k2") (simp_all add: timer_expire_def sys_tick_get_def)
qed

lemma woken_frame:
  "tcb (woken t k) = (tcb k)(t := (tcb k t)\<lparr>error := - RT_ETIMEOUT,
     statu := (if rt_current_thread k = Some t then RT_THREAD_RUNNING else RT_THREAD_READY),
     thread_timer := (thread_timer (tcb k t))\<lparr>timer_active := False\<rparr>\<rparr>)"
  "rt_current_thread (woken t k) = rt_current_thread k" "irq (woken t k) = irq k"
  "system_tick (woken t k) = system_tick k" "rt_interrupt_nest (woken t k) = rt_interrupt_nest k"
  "kernel.more (woken t k) = kernel.more k" "regs (woken t k) = regs k"
  by (simp_all add: woken_def op_frames) (simp_all add: upd_tcb_def op_frames tcb_field_order)

lemma woken_isr: "isr_ok c (woken t k) = isr_ok c k"
  by (rule between_cong(2)[OF woken_frame(7,2)])

lemma woken_kinv:
  assumes k: "kinv {} S L q k" and t: "t \<in> L" "statu_of k t \<noteq> RT_THREAD_READY"
  shows "kinv {} S L (wake_queue t k (unqueue t (stop_queue t q))) (woken t k)"
proof -
  let ?k1 = "upd_tcb t (\<lambda>b. b\<lparr>error := - RT_ETIMEOUT\<rparr>) (snd (rt_timer_stop t k))"
  have k1: "kinv {} S L (stop_queue t q) ?k1"
    using kinv_timer_stop[OF k t(1)] unfolding stop_queue_def by (rule kinv_upd_tcb) auto
  have "statu_of ?k1 t \<noteq> RT_THREAD_READY" using t(2) by (simp add: upd_tcb_def op_frames)
  with kinv_unlink_waiting[OF k1 t(1)]
  have "kinv {t} S L (unqueue t (stop_queue t q)) (upd_links (rt_list_remove (TList t)) ?k1)"
    by (simp add: unqueue_def)
  from kinv_insert_thread[OF this] t(1) wake_queue_cong[of "upd_links (rt_list_remove (TList t)) ?k1" k t]
  show ?thesis by (simp add: woken_def op_frames upd_tcb_def)
qed

definition expired :: "'z kernel_scheme \<Rightarrow> tid \<Rightarrow> bool" where
  "expired k t \<longleftrightarrow> timer_on k t \<and> system_tick k > timeout_tick (thread_timer (tcb k t))"

text \<open>
  \<open>woke X k k'\<close>: from \<open>k\<close> to \<open>k'\<close> the threads of \<open>X\<close> were woken by their timers and every
  other thread kept its timer, its error code and whether it is awake.
\<close>

definition woke :: "tid set \<Rightarrow> 'z kernel_scheme \<Rightarrow> 'z kernel_scheme \<Rightarrow> bool" where
  "woke X k k' \<longleftrightarrow> system_tick k' = system_tick k \<and>
    rt_interrupt_nest k' = rt_interrupt_nest k \<and> kernel.more k' = kernel.more k \<and>
    (rt_interrupt_nest k \<noteq> 0 \<longrightarrow> irq k' = irq k \<and> cpu k' = cpu k \<and> cpu_sp k' = cpu_sp k \<and> frames k' = frames k \<and>
      (\<forall>t. sp (tcb k' t) = sp (tcb k t)) \<and> (\<forall>c. isr_ok c k \<longrightarrow> isr_ok c k')) \<and>
    (cur_running k \<longrightarrow> cur_running k') \<and>
    (\<forall>t. if t \<in> X then awake (statu_of k' t) \<and> \<not> timer_on k' t \<and> error (tcb k' t) = - RT_ETIMEOUT
         else (awake (statu_of k' t) \<longleftrightarrow> awake (statu_of k t)) \<and>
              thread_timer (tcb k' t) = thread_timer (tcb k t) \<and> error (tcb k' t) = error (tcb k t))"

lemma woke_refl: "woke {} k k"
  by (simp add: woke_def)

lemma woke_trans: "woke X k k' \<Longrightarrow> woke Y k' k'' \<Longrightarrow> woke (X \<union> Y) k k''"
  unfolding woke_def by (simp split: if_splits) metis

lemma woke_expired: "woke X k k' \<Longrightarrow> t \<notin> X \<Longrightarrow> expired k' t = expired k t"
  unfolding woke_def expired_def by (metis (no_types, lifting))

text \<open>\<open>dropped S X q q'\<close>: the queues other than the ready queues and the timer list lost
  exactly the threads of \<open>X\<close>.\<close>

definition dropped :: "node set \<Rightarrow> tid set \<Rightarrow> (node \<Rightarrow> node list) \<Rightarrow> (node \<Rightarrow> node list) \<Rightarrow> bool" where
  "dropped S X q q' \<longleftrightarrow> (\<forall>l\<in>headers S. l \<noteq> Timer_list \<longrightarrow> (\<forall>p. l \<noteq> Ready p) \<longrightarrow>
     q' l = filter (\<lambda>n. n \<notin> TList ` X) (q l))"

lemma dropped_refl: "same_waiting S q q' \<Longrightarrow> dropped S {} q q'"
  by (simp add: dropped_def same_waiting_def)

lemma dropped_trans: "dropped S X q q' \<Longrightarrow> dropped S Y q' q'' \<Longrightarrow> dropped S (X \<union> Y) q q''"
  unfolding dropped_def by (auto simp: image_Un conj_commute intro!: filter_cong)

lemma woken_sys_inv:
  assumes k: "sys_inv S L q k" and t: "t \<in> L" "expired k t"
  shows "sys_inv S L (wake_queue t k (unqueue t (stop_queue t q))) (woken t k)"
proof -
  have "statu_of k t \<noteq> RT_THREAD_READY"
    using sys_invD(4)[OF k t(1)] t(2) by (auto simp: expired_def)
  from woken_kinv[OF sys_invD(1)[OF k] t(1) this] show ?thesis
    by (rule sys_inv_step[OF k]) (auto simp: woken_frame split: if_splits)
qed

lemma expire_sys_inv:
  assumes k: "sys_inv S L q k" and t: "t \<in> L" "expired k t"
  shows "\<exists>k' q'. timer_expire t k = Inr k' \<and> sys_inv S L q' k' \<and> woke {t} k k' \<and> dropped S {t} q q' \<and>
    q' Timer_list = remove1 (TimerNode t) (q Timer_list)"
proof -
  have e: "timer_expire t k = rt_schedule (woken t k)"
    using t(2) by (intro timer_expire_eq) (auto simp: expired_def)
  obtain k' q' where r: "rt_schedule (woken t k) = Inr k'" "sys_inv S L q' k'" "sched_frame (woken t k) k'"
      "same_waiting S (wake_queue t k (unqueue t (stop_queue t q))) q'"
    using rt_schedule_sys_inv[OF woken_sys_inv[OF k t]] by blast
  have "TList t \<notin> set (remove1 (TimerNode t) (q Timer_list))"
    using kinv_place[OF sys_invD(1)[OF k], of t Timer_list] by (auto dest: notin_set_remove1)
  then have "q' Timer_list = remove1 (TimerNode t) (q Timer_list)"
    using r(4) by (simp add: same_waiting_def wake_queue_def unqueue_def stop_queue_def remove1_idem)
  moreover have "dropped S {t} q q'"
    using r(4) kinv_distinct[OF sys_invD(1)[OF k]]
    by (auto simp: dropped_def same_waiting_def wake_queue_def unqueue_def stop_queue_def
        distinct_remove1_removeAll removeAll_filter_not_eq intro!: filter_cong)
  moreover have "woke {t} k k'"
  proof -
    have sf: "sched_frame (woken t k) k'" using r(3) .
    have "cur_running (woken t k)" if "cur_running k" using that by (simp add: cur_running_def woken_frame)
    then show ?thesis
      using sf woken_frame[of t k] woken_isr[of _ t k] sched_frame_timer[OF r(3)] sched_frame_tcb[OF r(3), of error]
        regsD[OF woken_frame(7), of t k]
      by (auto simp: woke_def sched_frame_def awake_def leaves_cpu_def)
  qed
  ultimately show ?thesis using r e by auto
qed

section \<open>The walk over the timer list\<close>

lemma dll_next: "dll h l (pre @ x # suf) \<Longrightarrow> lnext h x = hd (suf @ [l])"
  by (cases suf) (auto simp: dll_def)

lemma timer_list_members:
  assumes k: "kinv E S L q k" and x: "x \<in> set (q Timer_list)"
  obtains t where "x = TimerNode t" "t \<in> L"
proof -
  have "set (q Timer_list) \<subseteq> members L"
    using kinv_queues[OF k] unfolding disjoint_queues_def by simp
  then have "x \<in> members L" using x by blast
  moreover have "x \<noteq> TList t" "x \<noteq> AllList t" for t
    using kinv_place[OF k, of t Timer_list] kinv_all_only[OF k, of t Timer_list] x by auto
  ultimately show ?thesis using that unfolding members_def by blast
qed

definition keeps :: "'z kernel_scheme \<Rightarrow> node \<Rightarrow> bool" where
  "keeps k n \<longleftrightarrow> (\<forall>t. n = TimerNode t \<longrightarrow> \<not> expired k t)"

lemma timer_walk_total:
  assumes "sys_inv S L q k" "q Timer_list = pre @ xs" "xs \<noteq> [] \<Longrightarrow> nxt = hd (tl xs @ [Timer_list])"
  shows "\<exists>k' q'. timer_walk (hd (xs @ [Timer_list])) nxt k = Some (Inr k') \<and> sys_inv S L q' k' \<and>
    q' Timer_list = pre @ filter (keeps k) xs \<and> woke {t. TimerNode t \<in> set xs \<and> expired k t} k k' \<and>
    dropped S {t. TimerNode t \<in> set xs \<and> expired k t} q q'"
  using assms
proof (induction xs arbitrary: pre q k nxt)
  case Nil
  then show ?case using woke_refl[of k] dropped_refl[of S q q]
    by (auto simp: timer_walk.simps[of Timer_list] same_waiting_def)
next
  case (Cons x ys)
  obtain t where t: "x = TimerNode t" "t \<in> L"
    using timer_list_members[OF sys_invD(1)[OF Cons.prems(1)], of x] Cons.prems(2) by auto
  have d: "distinct (pre @ x # ys)"
    using kinv_distinct[OF sys_invD(1)[OF Cons.prems(1)], of Timer_list] Cons.prems(2) by simp
  have nxt: "nxt = hd (ys @ [Timer_list])" using Cons.prems(3) by simp
  obtain k1 q1 pre1 X where k1: "timer_expire t k = Inr k1" "sys_inv S L q1 k1" "woke X k k1"
      "dropped S X q q1" "q1 Timer_list = pre1 @ ys" "pre1 = (if expired k t then pre else pre @ [x])"
      "X = (if expired k t then {t} else {})"
  proof (cases "expired k t")
    case True
    then obtain k1 q1 where "timer_expire t k = Inr k1" "sys_inv S L q1 k1" "woke {t} k k1"
        "dropped S {t} q q1" "q1 Timer_list = remove1 (TimerNode t) (q Timer_list)"
      using expire_sys_inv[OF Cons.prems(1) t(2)] by blast
    then show ?thesis using that[of k1 q1 "{t}" pre] True d t(1) Cons.prems(2)
      by (simp add: remove1_append)
  next
    case False
    then have "timer_expire t k = Inr k" by (auto simp: timer_expire_def expired_def sys_tick_get_def)
    then show ?thesis using that[of k q "{}" "pre @ [x]"] False Cons.prems woke_refl[of k]
      dropped_refl[of S q q] by (simp add: same_waiting_def)
  qed
  have "lnext (links k1) nxt = hd (tl ys @ [Timer_list])" if "ys \<noteq> []"
  proof -
    have "dll (links k1) Timer_list (q1 Timer_list)"
      using kinv_queues[OF sys_invD(1)[OF k1(2)]] unfolding disjoint_queues_def by simp
    then show ?thesis using dll_next[of "links k1" Timer_list pre1 "hd ys" "tl ys"] k1(5) nxt that by simp
  qed
  from Cons.IH[OF k1(2,5) this]
  obtain k' q' where r: "timer_walk nxt (lnext (links k1) nxt) k1 = Some (Inr k')" "sys_inv S L q' k'"
    "q' Timer_list = pre1 @ filter (keeps k1) ys"
    "woke {t'. TimerNode t' \<in> set ys \<and> expired k1 t'} k1 k'"
    "dropped S {t'. TimerNode t' \<in> set ys \<and> expired k1 t'} q1 q'"
    unfolding nxt by blast
  have same: "expired k1 t' = expired k t'" if "TimerNode t' \<in> set ys" for t'
    using woke_expired[OF k1(3), of t'] k1(7) that d t(1) by (auto split: if_splits)
  then have "filter (keeps k1) ys = filter (keeps k) ys"
    by (auto simp: keeps_def intro!: filter_cong)
  moreover have "{t'. TimerNode t' \<in> set (x # ys) \<and> expired k t'} =
      X \<union> {t'. TimerNode t' \<in> set ys \<and> expired k1 t'}"
    using same k1(7) t(1) by auto
  moreover have "timer_walk (hd ((x # ys) @ [Timer_list])) nxt k = Some (Inr k')"
    using r(1) k1(1) t(1) by (simp add: timer_walk.simps[of "TimerNode t"])
  moreover have "keeps k x \<longleftrightarrow> \<not> expired k t" using t(1) by (simp add: keeps_def)
  ultimately show ?case
    using r(2,3) woke_trans[OF k1(3) r(4)] dropped_trans[OF k1(4) r(5)] k1(6) by auto
qed

lemma woke_irq: "woke X (k\<lparr>irq := b\<rparr>) k' \<Longrightarrow> woke X k (k'\<lparr>irq := irq k\<rparr>)"
  by (simp add: woke_def isr_ok_def cur_running_def)

lemma expired_irq [simp]: "expired (k\<lparr>irq := b\<rparr>) = expired k"
  by (simp add: expired_def fun_eq_iff)

lemma sys_inv_irq [simp]: "sys_inv S L q (k\<lparr>irq := b\<rparr>) = sys_inv S L q k"
  by (simp add: sys_inv_def frame_simps stacks_ok_cong[of L "k\<lparr>irq := b\<rparr>" k] between_cong(3)[of "k\<lparr>irq := b\<rparr>" k])

lemma timer_check_total:
  assumes k: "sys_inv S L q k"
  shows "\<exists>k' q'. rt_timer_check k = Some (Inr k') \<and> sys_inv S L q' k' \<and>
    q' Timer_list = filter (keeps k) (q Timer_list) \<and> woke {t. t \<in> L \<and> expired k t} k k' \<and>
    dropped S {t. t \<in> L \<and> expired k t} q q'"
proof -
  let ?k = "k\<lparr>irq := False\<rparr>"
  have dq: "dll (links k) Timer_list (q Timer_list)"
    using kinv_queues[OF sys_invD(1)[OF k]] unfolding disjoint_queues_def by simp
  have pos: "lnext (links k) Timer_list = hd (q Timer_list @ [Timer_list])"
    using dll_first[OF dq] by (simp split: list.splits)
  have nxt: "lnext (links k) (hd (q Timer_list @ [Timer_list])) = hd (tl (q Timer_list) @ [Timer_list])"
    if "q Timer_list \<noteq> []"
    using dll_next[of "links k" Timer_list "[]" "hd (q Timer_list)" "tl (q Timer_list)"] dq that by simp
  obtain k' q' where r: "timer_walk (hd (q Timer_list @ [Timer_list]))
        (lnext (links k) (hd (q Timer_list @ [Timer_list]))) ?k = Some (Inr k')" "sys_inv S L q' k'"
      "q' Timer_list = filter (keeps ?k) (q Timer_list)"
      "woke {t. TimerNode t \<in> set (q Timer_list) \<and> expired k t} ?k k'"
      "dropped S {t. TimerNode t \<in> set (q Timer_list) \<and> expired k t} q q'"
    using timer_walk_total[of S L q ?k "[]" "q Timer_list", OF _ _ nxt] k by auto
  have "{t. TimerNode t \<in> set (q Timer_list) \<and> expired k t} = {t. t \<in> L \<and> expired k t}"
    using kinv_timer[OF sys_invD(1)[OF k]] kinv_in_L(2)[OF sys_invD(1)[OF k], of Timer_list]
    by (auto simp: expired_def)
  moreover have "rt_timer_check k = Some (Inr (k'\<lparr>irq := irq k\<rparr>))"
    using r(1) pos by (simp add: rt_timer_check_def irq_defs Let_def)
  moreover have "keeps ?k = keeps k" by (simp add: keeps_def fun_eq_iff)
  ultimately show ?thesis
    using r woke_irq[OF r(4)] by (intro exI[of _ "k'\<lparr>irq := irq k\<rparr>"] exI[of _ q']) simp
qed

section \<open>The tick\<close>

lemma sys_inv_charge:
  assumes "sys_inv S L q k"
  shows "sys_inv S L q (upd_tcb t (\<lambda>b. b\<lparr>remaining_tick := f b\<rparr>) k)"
  using kinv_upd_tcb[OF sys_invD(1)[OF assms], of "\<lambda>b. b\<lparr>remaining_tick := f b\<rparr>" t]
  by (intro sys_inv_step[OF assms]) (auto simp: upd_tcb_def)

lemma sys_inv_tick: "sys_inv S L q (sys_tick_increase k) = sys_inv S L q k"
  by (simp add: sys_tick_increase_def sys_inv_def frame_simps stacks_ok_cong[of L "k\<lparr>system_tick := w\<rparr>" k for w]
      between_cong(3)[of "k\<lparr>system_tick := w\<rparr>" k for w])

lemma charge_total:
  assumes k: "sys_inv S L q k"
  shows "\<exists>k' q'. charge_tick c k = Inr k' \<and> sys_inv S L q' k' \<and> same_waiting S q q' \<and> woke {} k k' \<and>
    (remaining_tick (tcb k c) \<noteq> 1 \<longrightarrow> rt_current_thread k' = rt_current_thread k) \<and>
    (remaining_tick (tcb k c) = 1 \<and> (\<exists>p<32. q (Ready p) \<noteq> []) \<longrightarrow>
       (\<exists>p t. next_ready q p t \<and> rt_current_thread k' = Some t \<and> rt_current_thread k \<noteq> Some t))"
proof (cases "remaining_tick (tcb k c) = 1")
  case True
  let ?k = "upd_tcb c (\<lambda>b. b\<lparr>remaining_tick := init_tick b\<rparr>)
     (upd_tcb c (\<lambda>b. b\<lparr>remaining_tick := remaining_tick b - 1\<rparr>) k)"
  have "sys_inv S L q ?k" by (intro sys_inv_charge k)
  then obtain k' q' where r: "rt_schedule ?k = Inr k'" "sys_inv S L q' k'" "sched_frame ?k k'"
      "same_waiting S q q'" "picks q ?k k'"
    using rt_schedule_sys_inv by blast
  have "isr_ok d ?k = isr_ok d k" for d by (rule between_cong(2)) (simp_all add: upd_tcb_def)
  then have "woke {} k k'"
    using sched_frame_timer[OF r(3)] sched_frame_tcb[OF r(3), of error] r(3)
    by (auto simp: woke_def sched_frame_def upd_tcb_def cur_running_def)
  moreover have "charge_tick c k = Inr k'"
    using r(1) True by (simp add: charge_tick_def upd_tcb_def Let_def)
  moreover have "(\<exists>p<32. q (Ready p) \<noteq> []) \<longrightarrow>
       (\<exists>p t. next_ready q p t \<and> rt_current_thread k' = Some t \<and> rt_current_thread k \<noteq> Some t)"
    using r(5) by (auto simp: picks_def upd_tcb_def split: if_splits)
  ultimately show ?thesis using r(2,4) True by blast
next
  case False
  then have "charge_tick c k = Inr (upd_tcb c (\<lambda>b. b\<lparr>remaining_tick := remaining_tick b - 1\<rparr>) k)"
    by (simp add: charge_tick_def upd_tcb_def Let_def)
  moreover have "woke {} k (upd_tcb c (\<lambda>b. b\<lparr>remaining_tick := remaining_tick b - 1\<rparr>) k)"
    by (simp add: woke_def upd_tcb_def isr_ok_def cur_running_def)
  moreover have "sys_inv S L q (upd_tcb c (\<lambda>b. b\<lparr>remaining_tick := remaining_tick b - 1\<rparr>) k)"
    by (intro sys_inv_charge k)
  ultimately show ?thesis using False by (auto simp: same_waiting_def upd_tcb_def)
qed

lemma tick_total:
  assumes k: "sys_inv S L q k"
  defines "k1 \<equiv> sys_tick_increase k"
  shows "\<exists>k' q'. sys_tick_handler k = Some (Inr k') \<and> sys_inv S L q' k' \<and>
    q' Timer_list = filter (keeps k1) (q Timer_list) \<and> woke {t. t \<in> L \<and> expired k1 t} k1 k' \<and>
    dropped S {t. t \<in> L \<and> expired k1 t} q q'"
proof -
  obtain c where c: "rt_current_thread k = Some c" using sys_invD(2)[OF k] by blast
  have "sys_inv S L q k1" using k by (simp add: k1_def sys_inv_tick)
  then obtain k2 q2 where r: "charge_tick c k1 = Inr k2" "sys_inv S L q2 k2" "same_waiting S q q2" "woke {} k1 k2"
    using charge_total by blast
  obtain k' q' where r': "rt_timer_check k2 = Some (Inr k')" "sys_inv S L q' k'"
      "q' Timer_list = filter (keeps k2) (q2 Timer_list)" "woke {t. t \<in> L \<and> expired k2 t} k2 k'"
      "dropped S {t. t \<in> L \<and> expired k2 t} q2 q'"
    using timer_check_total[OF r(2)] by blast
  have e: "expired k2 = expired k1" using woke_expired[OF r(4)] by auto
  then have "keeps k2 = keeps k1" by (simp add: keeps_def fun_eq_iff)
  moreover have "q2 Timer_list = q Timer_list" using r(3) by (simp add: same_waiting_def)
  moreover have "sys_tick_handler k = Some (Inr k')"
    using c r(1) r'(1) by (simp add: sys_tick_handler_def k1_def sys_tick_increase_def)
  ultimately show ?thesis
    using r' woke_trans[OF r(4) r'(4)] dropped_trans[OF dropped_refl[OF r(3)] r'(5)] e by auto
qed

section \<open>The timer interrupt\<close>

text \<open>
  \<open>interrupted c k k'\<close>: what an interrupt of \<open>c\<close> does to the processor. The context of \<open>c\<close>
  is on its stack; the thread that goes on afterwards is \<open>c\<close> as if nothing had happened, or
  the current thread with the context it had saved.
\<close>

definition interrupted :: "tid \<Rightarrow> 'z kernel_scheme \<Rightarrow> 'z kernel_scheme \<Rightarrow> bool" where
  "interrupted c k k' \<longleftrightarrow>
    frames k' = (frames k)(c := \<lparr>pt_r29 = cpu_sp k, pt_status = irq k, pt_epc = Elsewhere\<rparr>) \<and>
    (if rt_current_thread k' = Some c then irq k' = irq k \<and> cpu_sp k' = cpu_sp k
     else \<exists>t. rt_current_thread k' = Some t \<and> irq k' = wake_irq (frames k t) \<and> cpu_sp k' = pt_r29 (frames k t) \<and>
       sp (tcb k' c) = cpu_sp k - PT_SIZE)"

lemma enter_interrupt:
  assumes k: "sys_inv S L q k" and b: "between_interrupts k" and c: "rt_current_thread k = Some c"
  defines "k1 \<equiv> rt_interrupt_enter (irq_entry k)"
  shows "k1 = k\<lparr>frames := (frames k)(c := \<lparr>pt_r29 = cpu_sp k, pt_status = irq k, pt_epc = Elsewhere\<rparr>),
      cpu_sp := cpu_sp k - PT_SIZE, rt_interrupt_nest := 1\<rparr>"
    and "sys_inv S L q k1" "isr_ok c k1"
proof -
  have n: "rt_interrupt_nest k = 0" "cpu k = Some c" "\<not> rt_thread_switch_interrupt_flag k"
    using b c by (simp_all add: between_interrupts_def)
  show e: "k1 = k\<lparr>frames := (frames k)(c := \<lparr>pt_r29 = cpu_sp k, pt_status = irq k, pt_epc = Elsewhere\<rparr>),
      cpu_sp := cpu_sp k - PT_SIZE, rt_interrupt_nest := 1\<rparr>"
    using n by (simp add: k1_def rt_interrupt_enter_def irq_entry_def SAVE_ALL_def irq_defs Let_def)
  show i: "isr_ok c k1" using n c by (simp add: e isr_ok_def)
  have "kinv {} S L q k1" using sys_invD(1)[OF k] by (simp add: e frame_simps)
  moreover have "stacks_ok L k1"
    using sys_invD(3)[OF k] n by (auto simp: e stacks_ok_def rt_scheduler_stack_check_def user_sp_def split: if_splits)
  moreover have "ctx_ok k1" using i unfolding ctx_ok_def by (intro if_split[THEN iffD2]) (auto simp: e)
  ultimately show "sys_inv S L q k1" using k by (simp add: sys_inv_def e)
qed

lemma leave_interrupt:
  assumes k: "sys_inv S L q k" and i: "isr_ok c k" "rt_interrupt_nest k = 1"
  defines "k1 \<equiv> irq_return (rt_interrupt_leave k)"
  shows "sys_inv S L q k1" "between_interrupts k1" "frames k1 = frames k"
    "tcb k1 = (if rt_thread_switch_interrupt_flag k then (tcb k)(c := (tcb k c)\<lparr>sp := cpu_sp k\<rparr>) else tcb k)"
    "irq k1 = wake_irq (frames k (the (rt_current_thread k)))" "cpu_sp k1 = pt_r29 (frames k (the (rt_current_thread k)))"
    "rt_current_thread k1 = rt_current_thread k" "system_tick k1 = system_tick k" "kernel.more k1 = kernel.more k"
proof -
  obtain t where t: "rt_current_thread k = Some t" using sys_invD(2)[OF k] by blast
  have sp: "cpu_sp k = pt_r29 (frames k c) - PT_SIZE"
    using sys_invD(5)[OF k] i by (auto simp: ctx_ok_def isr_ok_def)
  have l: "rt_interrupt_leave k = k\<lparr>rt_interrupt_nest := 0\<rparr>"
    using i(2) by (simp add: rt_interrupt_leave_def irq_defs Let_def)
  have fl: "rt_interrupt_from_thread k = Some c" "rt_interrupt_to_thread k = Some t" if "rt_thread_switch_interrupt_flag k"
    using i(1) t that by (simp_all add: isr_ok_def)
  have nf: "t = c" "cpu k = Some c" if "\<not> rt_thread_switch_interrupt_flag k" using i(1) t that by (simp_all add: isr_ok_def)
  let ?tcb = "if rt_thread_switch_interrupt_flag k then (tcb k)(c := (tcb k c)\<lparr>sp := cpu_sp k\<rparr>) else tcb k"
  have e: "k1 = k\<lparr>tcb := ?tcb, rt_thread_switch_interrupt_flag := False, rt_interrupt_nest := 0,
      irq := wake_irq (frames k t), cpu_sp := pt_r29 (frames k t), cpu := Some t\<rparr>"
  proof (cases "rt_thread_switch_interrupt_flag k")
    case True
    then show ?thesis using fl by (simp add: k1_def l irq_return_def restore_eq upd_tcb_def Let_def)
  next
    case False
    then show ?thesis using nf by (simp add: k1_def l irq_return_def restore_eq)
  qed
  show "between_interrupts k1" using t by (simp add: e between_interrupts_def)
  show "frames k1 = frames k" "tcb k1 = ?tcb" "irq k1 = wake_irq (frames k (the (rt_current_thread k)))"
    "cpu_sp k1 = pt_r29 (frames k (the (rt_current_thread k)))" "rt_current_thread k1 = rt_current_thread k"
    "system_tick k1 = system_tick k" "kernel.more k1 = kernel.more k"
    using t by (simp_all add: e)
  have "k\<lparr>tcb := ?tcb\<rparr> = (if rt_thread_switch_interrupt_flag k then upd_tcb c (\<lambda>b. b\<lparr>sp := cpu_sp k\<rparr>) k else k)"
    by (simp add: upd_tcb_def)
  then have "kinv {} S L q (k\<lparr>tcb := ?tcb\<rparr>)" using sys_invD(1)[OF k] kinv_sp[of "{}" S L q c "cpu_sp k" k] by simp
  then have "kinv {} S L q k1" by (simp add: e frame_simps)
  moreover have "rt_scheduler_stack_check t' k1 \<and> in_stack (tcb k1 t') (user_sp k1 t') \<and>
      (cpu k1 \<noteq> Some t' \<longrightarrow> sp (tcb k1 t') = pt_r29 (frames k1 t') - PT_SIZE)" if t': "t' \<in> L" for t'
  proof -
    note st = stacks_okD[OF sys_invD(3)[OF k] t']
    have u: "user_sp k t' = pt_r29 (frames k t')" using i(2) by (simp add: user_sp_def)
    then have u1: "user_sp k1 t' = user_sp k t'" by (simp add: e user_sp_def)
    have "rt_scheduler_stack_check t' k1"
      using st(1) in_stack_frame[OF st(2)] u sp by (auto simp: e rt_scheduler_stack_check_def)
    moreover have "in_stack (tcb k1 t') a = in_stack (tcb k t') a" for a by (simp add: e in_stack_def)
    moreover have "sp (tcb k1 t') = pt_r29 (frames k t') - PT_SIZE" if "t' \<noteq> t"
      using that st(3) sp nf i(1) by (auto simp: e isr_ok_def)
    ultimately show ?thesis using st(2) u1 by (simp add: e)
  qed
  moreover have "ctx_ok k1" using t by (simp add: ctx_ok_def e between_interrupts_def)
  moreover have "statu_of k1 t' = RT_THREAD_SLEEP \<or> statu_of k1 t' = RT_THREAD_SUSPEND" if "t' \<in> L" "timer_on k1 t'" for t'
    using sys_invD(4)[OF k that(1)] that(2) by (auto simp: e split: if_splits)
  ultimately show "sys_inv S L q k1"
    using t \<open>rt_current_thread k1 = rt_current_thread k\<close> by (simp add: sys_inv_def stacks_ok_def)
qed

lemma timer_interrupt_total:
  assumes k: "sys_inv S L q k" "between_interrupts k" and c: "rt_current_thread k = Some c"
  defines "k1 \<equiv> sys_tick_increase k"
  shows "\<exists>k' q'. timer_interrupt k = Some (Inr k') \<and> sys_inv S L q' k' \<and> between_interrupts k' \<and>
    q' Timer_list = filter (keeps k1) (q Timer_list) \<and> dropped S {t. t \<in> L \<and> expired k1 t} q q' \<and>
    (\<forall>t\<in>L. expired k1 t \<longrightarrow> awake (statu_of k' t) \<and> \<not> timer_on k' t \<and> error (tcb k' t) = - RT_ETIMEOUT) \<and>
    (\<forall>t. \<not> (t \<in> L \<and> expired k1 t) \<longrightarrow> awake (statu_of k' t) = awake (statu_of k t) \<and>
       thread_timer (tcb k' t) = thread_timer (tcb k t) \<and> error (tcb k' t) = error (tcb k t)) \<and>
    system_tick k' = system_tick k + 1 \<and> interrupted c k k' \<and> (cur_running k \<longrightarrow> cur_running k') \<and>
    kernel.more k' = kernel.more k"
proof -
  let ?k = "rt_interrupt_enter (irq_entry k)"
  note en = enter_interrupt[OF k c]
  let ?k1 = "sys_tick_increase ?k"
  have ex: "expired ?k1 = expired k1" by (simp add: en(1) k1_def expired_def sys_tick_increase_def fun_eq_iff)
  obtain k2 q' where r: "sys_tick_handler ?k = Some (Inr k2)" "sys_inv S L q' k2"
      "q' Timer_list = filter (keeps ?k1) (q Timer_list)" "woke {t. t \<in> L \<and> expired k1 t} ?k1 k2"
      "dropped S {t. t \<in> L \<and> expired k1 t} q q'"
    using tick_total[OF en(2)] unfolding ex by auto
  let ?k' = "irq_return (rt_interrupt_leave k2)"
  have i: "isr_ok c ?k1" using en(3) by (simp add: isr_ok_def sys_tick_increase_def)
  have n: "rt_interrupt_nest ?k1 = 1" by (simp add: en(1) sys_tick_increase_def)
  have i2: "isr_ok c k2" "rt_interrupt_nest k2 = 1" "frames k2 = frames ?k" "cpu_sp k2 = cpu_sp ?k"
      "cur_running k \<longrightarrow> cur_running k2"
    using r(4) i n by (simp_all add: woke_def) (simp_all add: en(1) sys_tick_increase_def cur_running_def)
  have fc: "frames k2 = (frames k)(c := \<lparr>pt_r29 = cpu_sp k, pt_status = irq k, pt_epc = Elsewhere\<rparr>)" "cpu_sp k2 = cpu_sp k - PT_SIZE"
    using i2(3,4) by (simp_all add: en(1))
  note lv = leave_interrupt[OF r(2) i2(1,2)]
  obtain t where t: "rt_current_thread k2 = Some t" using sys_invD(2)[OF r(2)] by blast
  have "interrupted c k ?k'"
  proof (cases "t = c")
    case False
    then have "rt_thread_switch_interrupt_flag k2" using i2(1) t by (auto simp: isr_ok_def split: if_splits)
    then show ?thesis using False t by (simp add: interrupted_def lv(3-7) fc)
  qed (use t in \<open>simp add: interrupted_def lv(3-7) fc wake_irq_def\<close>)
  moreover have "cur_running k \<longrightarrow> cur_running ?k'" using i2(5) by (simp add: cur_running_def lv(4,7))
  moreover have w: "if t \<in> {t. t \<in> L \<and> expired k1 t} then awake (statu_of ?k' t) \<and> \<not> timer_on ?k' t \<and> error (tcb ?k' t) = - RT_ETIMEOUT
         else (awake (statu_of ?k' t) \<longleftrightarrow> awake (statu_of k t)) \<and>
              thread_timer (tcb ?k' t) = thread_timer (tcb k t) \<and> error (tcb ?k' t) = error (tcb k t)" for t
  proof -
    have "if t \<in> {t. t \<in> L \<and> expired k1 t} then awake (statu_of k2 t) \<and> \<not> timer_on k2 t \<and> error (tcb k2 t) = - RT_ETIMEOUT
         else (awake (statu_of k2 t) \<longleftrightarrow> awake (statu_of k t)) \<and>
              thread_timer (tcb k2 t) = thread_timer (tcb k t) \<and> error (tcb k2 t) = error (tcb k t)"
      using r(4) unfolding woke_def by (simp add: en(1) sys_tick_increase_def)
    moreover have "statu_of ?k' t = statu_of k2 t" "thread_timer (tcb ?k' t) = thread_timer (tcb k2 t)" "error (tcb ?k' t) = error (tcb k2 t)"
      by (simp_all add: lv(4))
    ultimately show ?thesis by simp
  qed
  moreover have "keeps ?k1 = keeps k1" by (simp add: keeps_def ex fun_eq_iff)
  moreover have "system_tick ?k' = system_tick k + 1" "kernel.more ?k' = kernel.more k"
    using r(4) lv(8,9) by (simp_all add: woke_def en(1) sys_tick_increase_def)
  moreover have "timer_interrupt k = Some (Inr ?k')" using r(1) by (simp add: timer_interrupt_def)
  ultimately show ?thesis
    using lv(1,2) r(3,5) by (intro exI[of _ ?k'] exI[of _ q'] conjI ballI allI impI) (simp_all split: if_splits)
qed

end
