(* ===== verification/Ipc.thy ===== *)
theory Ipc
  imports Thread_Ops
begin

unbundle bit_operations_syntax

text \<open>
  Semaphores and mailboxes of \<^verbatim>\<open>src/os/thread.c\<close>. A call that has to wait calls \<^verbatim>\<open>rt_schedule\<close>.
  When that switches to another thread, the code after it runs once the thread is switched to
  again: the result is \<open>Blocked\<close> with the locals that live across the call, and the rest of
  the call is a definition of its own (suffix \<open>_resumed\<close>). When no thread is ready,
  \<^verbatim>\<open>rt_schedule\<close> returns, the caller is still on the processor and the rest follows at once.
  A call that returns gives \<open>Ret\<close> with its return value; where it ends with a call of
  \<^verbatim>\<open>rt_schedule\<close> to let a woken thread run, the caller gets that value when it runs again. Objects are addressed by numbers and their wait queues are the headers
  \<open>SemQ\<close>, \<open>MbQ\<close> and \<open>MbSendQ\<close> of the link store. \<^verbatim>\<open>malloc\<close> enters the create functions as
  the pointer it returned (\<open>None\<close> for NULL).
\<close>

section \<open>State\<close>

record rt_semaphore =
  sem_value :: u16
  sem_flag :: u8

record rt_mailbox =
  msg_pool :: "nat \<Rightarrow> u32"
  mb_size :: u16
  entry :: u16
  in_offset :: u16
  out_offset :: u16
  mb_flag :: u8

record ipc = kernel +
  sems :: "nat \<Rightarrow> rt_semaphore"
  mbs :: "nat \<Rightarrow> rt_mailbox"

datatype 'l outcome = Ret int | Blocked tid 'l

text \<open>The thread still has the processor: the scheduler has returned to it.\<close>

definition on_cpu :: "tid \<Rightarrow> 'z kernel_scheme \<Rightarrow> bool" where
  "on_cpu t k \<longleftrightarrow> cpu k = Some t"

definition upd_sem :: "nat \<Rightarrow> (rt_semaphore \<Rightarrow> rt_semaphore) \<Rightarrow> ipc \<Rightarrow> ipc" where
  "upd_sem s f k = k\<lparr>sems := (sems k)(s := f (sems k s))\<rparr>"

definition upd_mb :: "nat \<Rightarrow> (rt_mailbox \<Rightarrow> rt_mailbox) \<Rightarrow> ipc \<Rightarrow> ipc" where
  "upd_mb m f k = k\<lparr>mbs := (mbs k)(m := f (mbs k m))\<rparr>"

definition rt_thread_self :: "'z kernel_scheme \<Rightarrow> tid option" where
  "rt_thread_self k = rt_current_thread k"

text \<open>
  \<^verbatim>\<open>RT_DEBUG_NOT_IN_INTERRUPT\<close> and \<^verbatim>\<open>RT_DEBUG_IN_THREAD_CONTEXT\<close>: with no assert hook
  installed the assert handler spins, which is \<open>Inl Assert_failed\<close>.
\<close>

definition rt_interrupt_get_nest :: "'z kernel_scheme \<Rightarrow> u8" where
  "rt_interrupt_get_nest k = ucast (rt_interrupt_nest k)"

definition not_in_interrupt :: "'z kernel_scheme \<Rightarrow> bool" where
  "not_in_interrupt k \<longleftrightarrow> rt_interrupt_get_nest k = 0"

definition in_thread_context :: "'z kernel_scheme \<Rightarrow> bool" where
  "in_thread_context k \<longleftrightarrow> rt_thread_self k \<noteq> None \<and> not_in_interrupt k"

section \<open>Waiting\<close>

text \<open>
  The sequence by which the blocking calls put the calling thread on a wait queue, with the
  timer started when a time was given.
\<close>

definition ipc_suspend :: "node \<Rightarrow> tid \<Rightarrow> u32 option \<Rightarrow> 'z kernel_scheme \<Rightarrow> 'z kernel_scheme" where
  "ipc_suspend l thread time k =
    (let (_, k) = rt_thread_suspend thread RT_THREAD_SUSPEND k;
         k = upd_links (rt_list_insert_before l (TList thread)) k
     in case time of
          None \<Rightarrow> k
        | Some w \<Rightarrow> rt_timer_start thread (upd_timer thread (\<lambda>m. m\<lparr>timer_init_tick := w\<rparr>) k))"

text \<open>The loop that resumes every thread of a wait queue.\<close>

partial_function (option) resume_walk ::
  "node \<Rightarrow> node \<Rightarrow> node \<Rightarrow> 'z kernel_scheme \<Rightarrow> (halt + 'z kernel_scheme) option" where
  "resume_walk head pos nxt k =
    (if pos = head then Some (Inr k)
     else case thread_entry pos of
       None \<Rightarrow> Some (Inl Bad_list)
     | Some t \<Rightarrow>
       let k = snd (rt_thread_resume t k)
       in resume_walk head nxt (lnext (links k) nxt) k)"

definition resume_all :: "node \<Rightarrow> 'z kernel_scheme \<Rightarrow> (halt + 'z kernel_scheme) option" where
  "resume_all head k =
    (let pos = lnext (links k) head in resume_walk head pos (lnext (links k) pos) k)"

section \<open>Semaphores\<close>

definition rt_sem_init :: "nat \<Rightarrow> u32 \<Rightarrow> u8 \<Rightarrow> ipc \<Rightarrow> int \<times> ipc" where
  "rt_sem_init sem val flag k =
    (let k = upd_links (rt_list_init (SemQ sem)) k;
         k = upd_sem sem (\<lambda>s. s\<lparr>sem_value := ucast val\<rparr>) k;
         k = upd_sem sem (\<lambda>s. s\<lparr>sem_flag := flag\<rparr>) k
     in (RT_EOK, k))"

definition rt_sem_create :: "nat option \<Rightarrow> u32 \<Rightarrow> u8 \<Rightarrow> ipc \<Rightarrow> halt + nat option \<times> ipc" where
  "rt_sem_create mem val flag k =
    (if \<not> val < 0x10000 then Inl Assert_failed
     else case mem of
       None \<Rightarrow> Inl Null_access
     | Some sem \<Rightarrow>
       let k = upd_sem sem (\<lambda>_. \<lparr>sem_value = 0, sem_flag = 0\<rparr>) k;
           k = upd_links (rt_list_init (SemQ sem)) k;
           k = upd_sem sem (\<lambda>s. s\<lparr>sem_value := ucast val\<rparr>) k;
           k = upd_sem sem (\<lambda>s. s\<lparr>sem_flag := flag\<rparr>) k
       in Inr (Some sem, k))"

definition rt_sem_delete :: "nat \<Rightarrow> ipc \<Rightarrow> (halt + int \<times> ipc) option" where
  "rt_sem_delete sem k =
    (case resume_all (SemQ sem) k of
       None \<Rightarrow> None
     | Some (Inl e) \<Rightarrow> Some (Inl e)
     | Some (Inr k) \<Rightarrow> Some (Inr (RT_EOK, k)))"

definition rt_sem_take_resumed :: "tid \<Rightarrow> ipc \<Rightarrow> int" where
  "rt_sem_take_resumed thread k =
    (if error (tcb k thread) \<noteq> RT_EOK then error (tcb k thread) else RT_EOK)"

definition rt_sem_take :: "nat \<Rightarrow> int \<Rightarrow> ipc \<Rightarrow> halt + unit outcome \<times> ipc" where
  "rt_sem_take sem time k =
    (let (temp, k) = rt_hw_interrupt_disable k in
     if sem_value (sems k sem) > 0 then
       Inr (Ret RT_EOK, rt_hw_interrupt_enable temp (upd_sem sem (\<lambda>s. s\<lparr>sem_value := sem_value s - 1\<rparr>) k))
     else if time = 0 then Inr (Ret (- RT_ETIMEOUT), rt_hw_interrupt_enable temp k)
     else if \<not> in_thread_context k then Inl Assert_failed
     else case rt_thread_self k of
       None \<Rightarrow> Inr (Ret (- RT_ERROR), rt_hw_interrupt_enable temp k)
     | Some thread \<Rightarrow>
       let k = upd_tcb thread (\<lambda>b. b\<lparr>error := RT_EOK\<rparr>) k;
           k = ipc_suspend (SemQ sem) thread (if time > 0 then Some (word_of_int time) else None) k;
           k = rt_hw_interrupt_enable temp k
       in (case rt_schedule k of
             Inl e \<Rightarrow> Inl e
           | Inr k \<Rightarrow> Inr (if on_cpu thread k then Ret (rt_sem_take_resumed thread k) else Blocked thread (), k)))"

definition rt_sem_release :: "nat \<Rightarrow> ipc \<Rightarrow> halt + int \<times> ipc" where
  "rt_sem_release sem k =
    (let (temp, k) = rt_hw_interrupt_disable k in
     if \<not> rt_list_isempty (SemQ sem) (links k) then
       (case thread_entry (lnext (links k) (SemQ sem)) of
          None \<Rightarrow> Inl Bad_list
        | Some thread \<Rightarrow>
          let (_, k) = rt_thread_resume thread k;
              k = rt_hw_interrupt_enable temp k
          in (case rt_schedule k of
                Inl e \<Rightarrow> Inl e
              | Inr k \<Rightarrow> Inr (RT_EOK, k)))
     else
       let k = upd_sem sem (\<lambda>s. s\<lparr>sem_value := sem_value s + 1\<rparr>) k
       in Inr (RT_EOK, rt_hw_interrupt_enable temp k))"

definition rt_sem_detach :: "nat \<Rightarrow> ipc \<Rightarrow> (halt + int \<times> ipc) option" where
  "rt_sem_detach sem k =
    (let (temp, k) = rt_hw_interrupt_disable k in
     case resume_all (SemQ sem) k of
       None \<Rightarrow> None
     | Some (Inl e) \<Rightarrow> Some (Inl e)
     | Some (Inr k) \<Rightarrow> Some (Inr (RT_EOK, rt_hw_interrupt_enable temp k)))"

section \<open>Mailboxes\<close>

definition mb_reset :: "rt_mailbox \<Rightarrow> rt_mailbox" where
  "mb_reset b = b\<lparr>entry := 0, in_offset := 0, out_offset := 0\<rparr>"

definition rt_mb_init :: "nat \<Rightarrow> (nat \<Rightarrow> u32) \<Rightarrow> u32 \<Rightarrow> u8 \<Rightarrow> ipc \<Rightarrow> int \<times> ipc" where
  "rt_mb_init mb pool size_arg flag k =
    (let k = upd_mb mb (\<lambda>b. b\<lparr>mb_flag := flag\<rparr>) k;
         k = upd_links (rt_list_init (MbQ mb)) k;
         k = upd_mb mb (\<lambda>b. b\<lparr>msg_pool := pool, mb_size := ucast size_arg\<rparr>) k;
         k = upd_mb mb mb_reset k;
         k = upd_links (rt_list_init (MbSendQ mb)) k
     in (RT_EOK, k))"

definition rt_mb_create ::
  "nat option \<Rightarrow> (nat \<Rightarrow> u32) option \<Rightarrow> u32 \<Rightarrow> u8 \<Rightarrow> ipc \<Rightarrow> halt + nat option \<times> ipc" where
  "rt_mb_create mem pool size_arg flag k =
    (if \<not> not_in_interrupt k then Inl Assert_failed
     else case mem of
       None \<Rightarrow> Inr (None, k)
     | Some mb \<Rightarrow>
       let k = upd_mb mb (\<lambda>b. b\<lparr>mb_flag := flag\<rparr>) k;
           k = upd_links (rt_list_init (MbQ mb)) k;
           k = upd_mb mb (\<lambda>b. b\<lparr>mb_size := ucast size_arg\<rparr>) k
       in (case pool of
             None \<Rightarrow> Inr (None, k)
           | Some p \<Rightarrow>
             let k = upd_mb mb (\<lambda>b. b\<lparr>msg_pool := p\<rparr>) k;
                 k = upd_mb mb mb_reset k;
                 k = upd_links (rt_list_init (MbSendQ mb)) k
             in Inr (Some mb, k)))"

definition rt_mb_delete :: "nat \<Rightarrow> ipc \<Rightarrow> (halt + int \<times> ipc) option" where
  "rt_mb_delete mb k =
    (if \<not> not_in_interrupt k then Some (Inl Assert_failed)
     else case resume_all (MbQ mb) k of
       None \<Rightarrow> None
     | Some (Inl e) \<Rightarrow> Some (Inl e)
     | Some (Inr k) \<Rightarrow>
       (case resume_all (MbSendQ mb) k of
          None \<Rightarrow> None
        | Some (Inl e) \<Rightarrow> Some (Inl e)
        | Some (Inr k) \<Rightarrow> Some (Inr (RT_EOK, k))))"

text \<open>The ring of the mailbox: storing a message and fetching one.\<close>

definition mb_put :: "u32 \<Rightarrow> rt_mailbox \<Rightarrow> rt_mailbox" where
  "mb_put v b =
    (let b = b\<lparr>msg_pool := (msg_pool b)(unat (in_offset b) := v)\<rparr>;
         b = b\<lparr>in_offset := in_offset b + 1\<rparr>;
         b = (if in_offset b \<ge> mb_size b then b\<lparr>in_offset := 0\<rparr> else b)
     in b\<lparr>entry := entry b + 1\<rparr>)"

definition mb_get :: "rt_mailbox \<Rightarrow> u32 \<times> rt_mailbox" where
  "mb_get b =
    (let v = msg_pool b (unat (out_offset b));
         b = b\<lparr>out_offset := out_offset b + 1\<rparr>;
         b = (if out_offset b \<ge> mb_size b then b\<lparr>out_offset := 0\<rparr> else b)
     in (v, b\<lparr>entry := entry b - 1\<rparr>))"

definition mb_full :: "rt_mailbox \<Rightarrow> bool" where
  "mb_full b \<longleftrightarrow> entry b = mb_size b"

definition mb_empty :: "rt_mailbox \<Rightarrow> bool" where
  "mb_empty b \<longleftrightarrow> entry b = 0"

text \<open>
  One round of the loop of a waiting call ends the call or, when the scheduler came back
  without a switch, starts the next round with the locals that changed.
\<close>

datatype ('r, 'l) round = Leaves 'r | Repeats 'l

text \<open>
  One round of the sender, entered with interrupts disabled: wait, or store the message and
  wake the first receiver. The locals that survive the wait are the remaining time and the
  tick at which the timer started.
\<close>

definition mb_send_round ::
  "nat \<Rightarrow> u32 \<Rightarrow> tid \<Rightarrow> int \<Rightarrow> u32 \<Rightarrow> bool \<Rightarrow> ipc \<Rightarrow> halt + ((int \<times> u32) outcome, int \<times> u32) round \<times> ipc" where
  "mb_send_round mb v thread timeout tick_delta temp k =
    (if mb_full (mbs k mb) then
       let k = upd_tcb thread (\<lambda>b. b\<lparr>error := RT_EOK\<rparr>) k in
       if timeout = 0 then Inr (Leaves (Ret (- RT_EFULL)), rt_hw_interrupt_enable temp k)
       else if \<not> in_thread_context k then Inl Assert_failed
       else
         let tick_delta = (if timeout > 0 then sys_tick_get k else tick_delta);
             k = ipc_suspend (MbSendQ mb) thread (if timeout > 0 then Some (word_of_int timeout) else None) k;
             k = rt_hw_interrupt_enable temp k
         in (case rt_schedule k of
               Inl e \<Rightarrow> Inl e
             | Inr k \<Rightarrow> Inr (if on_cpu thread k then Repeats (timeout, tick_delta)
                               else Leaves (Blocked thread (timeout, tick_delta)), k))
     else
       let k = upd_mb mb (mb_put v) k in
       if \<not> rt_list_isempty (MbQ mb) (links k) then
         (case thread_entry (lnext (links k) (MbQ mb)) of
            None \<Rightarrow> Inl Bad_list
          | Some t \<Rightarrow>
            let (_, k) = rt_thread_resume t k;
                k = rt_hw_interrupt_enable temp k
            in (case rt_schedule k of
                  Inl e \<Rightarrow> Inl e
                | Inr k \<Rightarrow> Inr (Leaves (Ret RT_EOK), k)))
       else Inr (Leaves (Ret RT_EOK), rt_hw_interrupt_enable temp k))"

text \<open>The rest of a round behind the call of the scheduler: an error, or the locals of the next round.\<close>

definition mb_send_back :: "tid \<Rightarrow> int \<Rightarrow> u32 \<Rightarrow> ipc \<Rightarrow> int + int \<times> u32 \<times> bool \<times> ipc" where
  "mb_send_back thread timeout tick_delta k =
    (if error (tcb k thread) \<noteq> RT_EOK then Inl (error (tcb k thread))
     else
       let (temp, k) = rt_hw_interrupt_disable k;
           tick_delta' = (if timeout > 0 then sys_tick_get k - tick_delta else tick_delta);
           timeout' = (if timeout > 0 then sint (word_of_int timeout - tick_delta' :: u32) else timeout);
           timeout' = (if timeout > 0 \<and> timeout' < 0 then 0 else timeout')
       in Inr (timeout', tick_delta', temp, k))"

partial_function (option) mb_send_loop ::
  "nat \<Rightarrow> u32 \<Rightarrow> tid \<Rightarrow> int \<Rightarrow> u32 \<Rightarrow> bool \<Rightarrow> ipc \<Rightarrow> (halt + (int \<times> u32) outcome \<times> ipc) option" where
  "mb_send_loop mb v thread timeout tick_delta temp k =
    (case mb_send_round mb v thread timeout tick_delta temp k of
       Inl e \<Rightarrow> Some (Inl e)
     | Inr (Leaves r, k) \<Rightarrow> Some (Inr (r, k))
     | Inr (Repeats (timeout, tick_delta), k) \<Rightarrow>
       (case mb_send_back thread timeout tick_delta k of
          Inl e \<Rightarrow> Some (Inr (Ret e, k))
        | Inr (timeout, tick_delta, temp, k) \<Rightarrow> mb_send_loop mb v thread timeout tick_delta temp k))"

declare mb_send_loop.simps [code]

definition rt_mb_send_wait ::
  "nat \<Rightarrow> u32 \<Rightarrow> int \<Rightarrow> ipc \<Rightarrow> (halt + (int \<times> u32) outcome \<times> ipc) option" where
  "rt_mb_send_wait mb v timeout k =
    (case rt_thread_self k of
       None \<Rightarrow> Some (Inr (Ret (- RT_ERROR), k))
     | Some thread \<Rightarrow>
       let (temp, k) = rt_hw_interrupt_disable k in
       if mb_full (mbs k mb) \<and> timeout = 0
       then Some (Inr (Ret (- RT_EFULL), rt_hw_interrupt_enable temp k))
       else mb_send_loop mb v thread timeout 0 temp k)"

definition rt_mb_send_wait_resumed ::
  "nat \<Rightarrow> u32 \<Rightarrow> tid \<Rightarrow> int \<Rightarrow> u32 \<Rightarrow> ipc \<Rightarrow> (halt + (int \<times> u32) outcome \<times> ipc) option" where
  "rt_mb_send_wait_resumed mb v thread timeout tick_delta k =
    (case mb_send_back thread timeout tick_delta k of
       Inl e \<Rightarrow> Some (Inr (Ret e, k))
     | Inr (timeout, tick_delta, temp, k) \<Rightarrow> mb_send_loop mb v thread timeout tick_delta temp k)"

definition rt_mb_send :: "nat \<Rightarrow> u32 \<Rightarrow> ipc \<Rightarrow> (halt + (int \<times> u32) outcome \<times> ipc) option" where
  "rt_mb_send mb v k = rt_mb_send_wait mb v 0 k"

text \<open>The receiver: the time is unsigned here, so the test for a negative rest never fires.\<close>

definition mb_recv_round ::
  "nat \<Rightarrow> tid \<Rightarrow> u32 \<Rightarrow> u32 \<Rightarrow> bool \<Rightarrow> ipc \<Rightarrow>
    halt + ((u32 \<times> u32) outcome \<times> u32 option, u32 \<times> u32) round \<times> ipc" where
  "mb_recv_round mb thread timeout tick_delta temp k =
    (if mb_empty (mbs k mb) then
       let k = upd_tcb thread (\<lambda>b. b\<lparr>error := RT_EOK\<rparr>) k in
       if timeout = 0 then
         Inr (Leaves (Ret (- RT_ETIMEOUT), None),
           upd_tcb thread (\<lambda>b. b\<lparr>error := - RT_ETIMEOUT\<rparr>) (rt_hw_interrupt_enable temp k))
       else if \<not> in_thread_context k then Inl Assert_failed
       else
         let tick_delta = (if timeout > 0 then sys_tick_get k else tick_delta);
             k = ipc_suspend (MbQ mb) thread (if timeout > 0 then Some timeout else None) k;
             k = rt_hw_interrupt_enable temp k
         in (case rt_schedule k of
               Inl e \<Rightarrow> Inl e
             | Inr k \<Rightarrow> Inr (if on_cpu thread k then Repeats (timeout, tick_delta)
                               else Leaves (Blocked thread (timeout, tick_delta), None), k))
     else
       let (v, b) = mb_get (mbs k mb);
           k = upd_mb mb (\<lambda>_. b) k in
       if \<not> rt_list_isempty (MbSendQ mb) (links k) then
         (case thread_entry (lnext (links k) (MbSendQ mb)) of
            None \<Rightarrow> Inl Bad_list
          | Some t \<Rightarrow>
            let k = upd_links (rt_list_remove (TList t)) k;
                (_, k) = rt_timer_stop t k;
                k = rt_schedule_insert_thread t k;
                k = rt_hw_interrupt_enable temp k
            in (case rt_schedule k of
                  Inl e \<Rightarrow> Inl e
                | Inr k \<Rightarrow> Inr (Leaves (Ret RT_EOK, Some v), k)))
       else Inr (Leaves (Ret RT_EOK, Some v), rt_hw_interrupt_enable temp k))"

definition mb_recv_back :: "tid \<Rightarrow> u32 \<Rightarrow> u32 \<Rightarrow> ipc \<Rightarrow> int + u32 \<times> u32 \<times> bool \<times> ipc" where
  "mb_recv_back thread timeout tick_delta k =
    (if error (tcb k thread) \<noteq> RT_EOK then Inl (error (tcb k thread))
     else
       let (temp, k) = rt_hw_interrupt_disable k;
           tick_delta' = (if timeout > 0 then sys_tick_get k - tick_delta else tick_delta);
           timeout' = (if timeout > 0 then timeout - tick_delta' else timeout)
       in Inr (timeout', tick_delta', temp, k))"

partial_function (option) mb_recv_loop ::
  "nat \<Rightarrow> tid \<Rightarrow> u32 \<Rightarrow> u32 \<Rightarrow> bool \<Rightarrow> ipc \<Rightarrow> (halt + ((u32 \<times> u32) outcome \<times> u32 option) \<times> ipc) option" where
  "mb_recv_loop mb thread timeout tick_delta temp k =
    (case mb_recv_round mb thread timeout tick_delta temp k of
       Inl e \<Rightarrow> Some (Inl e)
     | Inr (Leaves r, k) \<Rightarrow> Some (Inr (r, k))
     | Inr (Repeats (timeout, tick_delta), k) \<Rightarrow>
       (case mb_recv_back thread timeout tick_delta k of
          Inl e \<Rightarrow> Some (Inr ((Ret e, None), k))
        | Inr (timeout, tick_delta, temp, k) \<Rightarrow> mb_recv_loop mb thread timeout tick_delta temp k))"

declare mb_recv_loop.simps [code]

definition rt_mb_recv ::
  "nat \<Rightarrow> u32 \<Rightarrow> ipc \<Rightarrow> (halt + ((u32 \<times> u32) outcome \<times> u32 option) \<times> ipc) option" where
  "rt_mb_recv mb timeout k =
    (case rt_thread_self k of
       None \<Rightarrow> Some (Inr ((Ret (- RT_ERROR), None), k))
     | Some thread \<Rightarrow>
       let (temp, k) = rt_hw_interrupt_disable k in
       if mb_empty (mbs k mb) \<and> timeout = 0
       then Some (Inr ((Ret (- RT_ETIMEOUT), None), rt_hw_interrupt_enable temp k))
       else mb_recv_loop mb thread timeout 0 temp k)"

definition rt_mb_recv_resumed ::
  "nat \<Rightarrow> tid \<Rightarrow> u32 \<Rightarrow> u32 \<Rightarrow> ipc \<Rightarrow> (halt + ((u32 \<times> u32) outcome \<times> u32 option) \<times> ipc) option" where
  "rt_mb_recv_resumed mb thread timeout tick_delta k =
    (case mb_recv_back thread timeout tick_delta k of
       Inl e \<Rightarrow> Some (Inr ((Ret e, None), k))
     | Inr (timeout, tick_delta, temp, k) \<Rightarrow> mb_recv_loop mb thread timeout tick_delta temp k)"

end
