(* ===== verification/Ring.thy ===== *)
theory Ring
  imports Prelude
begin

text \<open>
  Ring buffers. The mailbox of \<^verbatim>\<open>src/os/thread.c\<close> and the serial receive buffer of
  \<^verbatim>\<open>src/os/getchar.c\<close> both keep messages in an array with wrapping indices; this theory has
  the arithmetic they share and their interface: \<open>bounded_queue\<close> is a queue of limited
  capacity, \<open>lossy_queue\<close> one that drops the oldest item when a full queue is written.
\<close>

section \<open>The items of a ring\<close>

definition ring_items :: "(nat \<Rightarrow> 'v) \<Rightarrow> nat \<Rightarrow> nat \<Rightarrow> nat \<Rightarrow> 'v list" where
  "ring_items f n out cnt = map (\<lambda>i. f ((out + i) mod n)) [0..<cnt]"

lemma length_ring_items [simp]: "length (ring_items f n out cnt) = cnt"
  by (simp add: ring_items_def)

lemma ring_items_0 [simp]: "ring_items f n out 0 = []"
  by (simp add: ring_items_def)

lemma ring_slots_distinct:
  assumes "i < cnt" "cnt < n"
  shows "(out + i) mod n \<noteq> (out + cnt) mod (n :: nat)"
proof
  assume "(out + i) mod n = (out + cnt) mod n"
  then have "(out + cnt - (out + i)) mod n = 0"
    using assms by (intro mod_eq_dvd_iff_nat[THEN iffD1, THEN dvd_imp_mod_0]) auto
  then show False using assms by auto
qed

lemma ring_put:
  assumes "cnt < n"
  shows "ring_items (f((out + cnt) mod n := v)) n out (Suc cnt) = ring_items f n out cnt @ [v]"
  using ring_slots_distinct[OF _ assms] by (auto simp: ring_items_def)

lemma ring_get:
  assumes "out < n"
  shows "ring_items f n out (Suc cnt) = f out # ring_items f n (Suc out mod n) cnt"
proof -
  have "ring_items f n out (Suc cnt) = f (out mod n) # map (\<lambda>i. f ((out + Suc i) mod n)) [0..<cnt]"
    unfolding ring_items_def
    by (simp add: upt_conv_Cons map_Suc_upt[symmetric] comp_def del: upt_Suc)
  also have "\<dots> = f out # ring_items f n (Suc out mod n) cnt"
    using assms by (simp add: ring_items_def mod_simps)
  finally show ?thesis .
qed

text \<open>The number of items between a read and a write position of a ring that keeps one slot free.\<close>

lemma ring_count_add: "((g + c) mod n + n - g) mod n = (c :: nat)" if "c < n" "g < n"
proof (cases "g + c < n")
  case False
  then have "(g + c) mod n = g + c - n" using that by (simp add: mod_if)
  then show ?thesis using False that by simp
qed (use that in simp)

lemma ring_count_pos: "(g + (p + n - g) mod n) mod n = (p :: nat)" if "p < n" "g < n"
  using that by (simp add: mod_simps)

section \<open>Interfaces\<close>

locale bounded_queue =
  fixes inv :: "'s \<Rightarrow> bool" and items :: "'s \<Rightarrow> 'v list" and cap :: "'s \<Rightarrow> nat"
    and put :: "'v \<Rightarrow> 's \<Rightarrow> 's" and get :: "'s \<Rightarrow> 'v \<times> 's"
    and full :: "'s \<Rightarrow> bool" and empty :: "'s \<Rightarrow> bool"
  assumes full_iff: "inv s \<Longrightarrow> full s \<longleftrightarrow> length (items s) = cap s"
    and empty_iff: "inv s \<Longrightarrow> empty s \<longleftrightarrow> items s = []"
    and within: "inv s \<Longrightarrow> length (items s) \<le> cap s"
    and put_inv: "inv s \<Longrightarrow> \<not> full s \<Longrightarrow> inv (put v s)"
    and put_items: "inv s \<Longrightarrow> \<not> full s \<Longrightarrow> items (put v s) = items s @ [v]"
    and put_cap: "inv s \<Longrightarrow> cap (put v s) = cap s"
    and get_inv: "inv s \<Longrightarrow> \<not> empty s \<Longrightarrow> inv (snd (get s))"
    and get_items: "inv s \<Longrightarrow> \<not> empty s \<Longrightarrow> items s = fst (get s) # items (snd (get s))"
    and get_cap: "inv s \<Longrightarrow> cap (snd (get s)) = cap s"
begin

lemma put_not_empty: "inv s \<Longrightarrow> \<not> full s \<Longrightarrow> \<not> empty (put v s)"
  using empty_iff[of "put v s"] put_inv put_items by auto

lemma get_not_full: "inv s \<Longrightarrow> \<not> empty s \<Longrightarrow> \<not> full (snd (get s))"
  using full_iff[of "snd (get s)"] get_inv get_items[of s] get_cap within[of s] by auto

lemma puts_run:
  assumes "inv s" "length (items s) + length vs \<le> cap s"
  shows "inv (fold put vs s) \<and> items (fold put vs s) = items s @ vs \<and> cap (fold put vs s) = cap s"
  using assms
proof (induction vs arbitrary: s)
  case (Cons v vs)
  then have nf: "\<not> full s" using full_iff by auto
  have "length (items (put v s)) + length vs \<le> cap (put v s)"
    using put_items[OF Cons.prems(1) nf] put_cap[OF Cons.prems(1)] Cons.prems(2) by simp
  from Cons.IH[OF put_inv[OF Cons.prems(1) nf] this] show ?case
    using put_items[OF Cons.prems(1) nf] put_cap[OF Cons.prems(1)] by simp
qed simp

text \<open>Messages written into an empty queue come out in the order they went in.\<close>

lemma fifo:
  assumes "inv s" "empty s" "length (v # vs) \<le> cap s"
  shows "fst (get (fold put (v # vs) s)) = v"
    and "items (snd (get (fold put (v # vs) s))) = vs"
proof -
  let ?s = "fold put (v # vs) s"
  have r: "inv ?s" "items ?s = v # vs"
    using puts_run[of s "v # vs"] assms empty_iff by auto
  then have "\<not> empty ?s" using empty_iff[of ?s] by simp
  then show "fst (get ?s) = v" "items (snd (get ?s)) = vs"
    using get_items[OF r(1)] r(2) by simp_all
qed

end

locale lossy_queue = bounded_queue +
  assumes put_full_inv: "inv s \<Longrightarrow> full s \<Longrightarrow> inv (put v s)"
    and put_full_items: "inv s \<Longrightarrow> full s \<Longrightarrow> items (put v s) = tl (items s) @ [v]"
    and cap_pos: "inv s \<Longrightarrow> 0 < cap s"
begin

text \<open>After any run of writes the queue holds the newest items that fit, in order.\<close>

lemma newest:
  assumes "inv s"
  shows "inv (fold put vs s) \<and> cap (fold put vs s) = cap s \<and>
    items (fold put vs s) = drop (length (items s @ vs) - cap s) (items s @ vs)"
  using assms
proof (induction vs arbitrary: s)
  case Nil
  then show ?case using within by simp
next
  case (Cons v vs)
  have i: "inv (put v s)" using put_inv put_full_inv Cons.prems by blast
  note IH = Cons.IH[OF i]
  have c: "cap (put v s) = cap s" using put_cap[OF Cons.prems] .
  show ?case
  proof (cases "full s")
    case True
    then obtain x xs where x: "items s = x # xs" "cap s = Suc (length xs)"
      using full_iff[OF Cons.prems] cap_pos[OF Cons.prems] by (cases "items s") auto
    then show ?thesis using IH c put_full_items[OF Cons.prems True] by simp
  next
    case False
    then show ?thesis using IH c put_items[OF Cons.prems False] by simp
  qed
qed

end

end
