(* ===== verification/Ipc_Inv.thy ===== *)
theory Ipc_Inv
  imports Ipc Ring
begin

unbundle bit_operations_syntax

text \<open>
  What the semaphore and mailbox operations promise. The ring of a mailbox is a bounded
  queue; \<open>ipc_inv\<close> adds to the invariant of the running system that threads on wait queues
  carry no error, that a semaphore with waiters has the value zero and that every
  initialised mailbox has consistent ring indices.
\<close>

section \<open>The mailbox ring\<close>

definition mb_inv :: "rt_mailbox \<Rightarrow> bool" where
  "mb_inv b \<longleftrightarrow> 0 < unat (mb_size b) \<and> unat (entry b) \<le> unat (mb_size b) \<and>
    unat (out_offset b) < unat (mb_size b) \<and>
    unat (in_offset b) = (unat (out_offset b) + unat (entry b)) mod unat (mb_size b)"

definition mb_items :: "rt_mailbox \<Rightarrow> u32 list" where
  "mb_items b = ring_items (msg_pool b) (unat (mb_size b)) (unat (out_offset b)) (unat (entry b))"

definition mb_cap :: "rt_mailbox \<Rightarrow> nat" where
  "mb_cap b = unat (mb_size b)"

lemma mb_put_eq:
  "mb_put v b = b\<lparr>msg_pool := (msg_pool b)(unat (in_offset b) := v),
     in_offset := (if in_offset b + 1 \<ge> mb_size b then 0 else in_offset b + 1), entry := entry b + 1\<rparr>"
  by (simp add: mb_put_def Let_def)

lemma mb_get_eq:
  "mb_get b = (msg_pool b (unat (out_offset b)),
     b\<lparr>out_offset := (if out_offset b + 1 \<ge> mb_size b then 0 else out_offset b + 1), entry := entry b - 1\<rparr>)"
  by (simp add: mb_get_def Let_def)

interpretation mbq: bounded_queue mb_inv mb_items mb_cap mb_put mb_get mb_full mb_empty
proof unfold_locales
  fix s :: rt_mailbox and v :: u32
  assume i: "mb_inv s"
  let ?n = "unat (mb_size s)" and ?o = "unat (out_offset s)" and ?e = "unat (entry s)"
  show "mb_full s \<longleftrightarrow> length (mb_items s) = mb_cap s"
    by (simp add: mb_full_def mb_items_def mb_cap_def word_unat_eq_iff)
  show "mb_empty s \<longleftrightarrow> mb_items s = []"
    by (simp add: mb_empty_def mb_items_def ring_items_def unat_eq_zero)
  show "length (mb_items s) \<le> mb_cap s"
    using i by (simp add: mb_items_def mb_cap_def mb_inv_def)
  show "mb_cap (mb_put v s) = mb_cap s" by (simp add: mb_put_eq mb_cap_def)
  show "mb_cap (snd (mb_get s)) = mb_cap s" by (simp add: mb_get_eq mb_cap_def)
  have io: "unat (in_offset s) < ?n" using i by (simp add: mb_inv_def)
  {
    assume "\<not> mb_full s"
    then have e: "?e < ?n" using i by (simp add: mb_inv_def mb_full_def word_unat_eq_iff)
    note inc = unat_inc_lt[OF e]
    show "mb_inv (mb_put v s)"
      using i e inc wrap_word[OF io] by (simp add: mb_inv_def mb_put_eq mod_simps)
    show "mb_items (mb_put v s) = mb_items s @ [v]"
      using i e inc ring_put[OF e, of "msg_pool s" ?o v] by (simp add: mb_items_def mb_put_eq mb_inv_def)
  }
  {
    assume "\<not> mb_empty s"
    then obtain m where e: "?e = Suc m"
      by (metis mb_empty_def not0_implies_Suc unat_eq_zero)
    then have dec: "unat (entry s - 1) = m"
      using unat_minus_one[of "entry s"] by (metis diff_Suc_1 nat.simps(3) unat_0)
    have o: "?o < ?n" using i by (simp add: mb_inv_def)
    show "mb_inv (snd (mb_get s))"
      using i e dec wrap_word[OF o] by (auto simp: mb_inv_def mb_get_eq mod_simps)
    have "mb_items s = ring_items (msg_pool s) ?n ?o (Suc m)" using e by (simp add: mb_items_def)
    also have "\<dots> = fst (mb_get s) # mb_items (snd (mb_get s))"
      using ring_get[OF o] dec wrap_word[OF o] by (simp add: mb_items_def mb_get_eq)
    finally show "mb_items s = fst (mb_get s) # mb_items (snd (mb_get s))" .
  }
qed

lemma mb_init_ring:
  fixes size_arg :: u32
  assumes "(ucast size_arg :: u16) \<noteq> 0"
  shows "mb_inv (mb_reset (b\<lparr>mb_size := ucast size_arg\<rparr>))" "mb_empty (mb_reset (b\<lparr>mb_size := ucast size_arg\<rparr>))"
  using assms by (simp_all add: mb_inv_def mb_reset_def mb_empty_def unat_gt_0)

section \<open>Waiting\<close>

lemma ipc_suspend_eq:
  "ipc_suspend l t time k = (let k = upd_links (rt_list_insert_before l (TList t)) (snd (rt_thread_suspend t RT_THREAD_SUSPEND k))
     in case time of None \<Rightarrow> k | Some w \<Rightarrow> rt_timer_start t (upd_timer t (\<lambda>m. m\<lparr>timer_init_tick := w\<rparr>) k))"
  by (simp add: ipc_suspend_def split_def)

definition wait_queue :: "node \<Rightarrow> tid \<Rightarrow> u32 option \<Rightarrow> (node \<Rightarrow> node list) \<Rightarrow> node \<Rightarrow> node list" where
  "wait_queue l t time q =
    (let q1 = stop_queue t (unqueue t q); q2 = q1(l := q1 l @ [TList t])
     in case time of None \<Rightarrow> q2 | Some _ \<Rightarrow> q2(Timer_list := TimerNode t # q2 Timer_list))"

lemma ipc_suspend_frame:
  assumes "statu_of k t = RT_THREAD_RUNNING"
  shows "tcb (ipc_suspend l t time k) = (tcb k)(t := (tcb k t)\<lparr>statu := RT_THREAD_SUSPEND, thread_timer :=
     (case time of None \<Rightarrow> (thread_timer (tcb k t))\<lparr>timer_active := False\<rparr>
      | Some w \<Rightarrow> \<lparr>timer_active = True, timer_init_tick = w, timeout_tick = system_tick k + w\<rparr>)\<rparr>)"
    "rt_current_thread (ipc_suspend l t time k) = rt_current_thread k" "irq (ipc_suspend l t time k) = irq k"
    "system_tick (ipc_suspend l t time k) = system_tick k"
    "rt_interrupt_nest (ipc_suspend l t time k) = rt_interrupt_nest k"
    "kernel.more (ipc_suspend l t time k) = kernel.more k" "regs (ipc_suspend l t time k) = regs k"
  using assms
  by (simp_all add: ipc_suspend_eq rt_thread_suspend_eq op_frames Let_def split: option.split)
    (simp_all add: upd_timer_def upd_tcb_def timer_fields op_frames)

lemma ipc_suspend_kinv:
  assumes k: "kinv {} S L q k" and t: "t \<in> L" "statu_of k t = RT_THREAD_RUNNING"
    and l: "l \<in> S" "l \<in> wait_queues"
  shows "kinv {} S L (wait_queue l t time q) (ipc_suspend l t time k)"
proof -
  let ?q1 = "stop_queue t (unqueue t q)"
  let ?k1 = "snd (rt_thread_suspend t RT_THREAD_SUSPEND k)"
  let ?k2 = "upd_links (rt_list_insert_before l (TList t)) ?k1"
  have tl: "Timer_list \<noteq> l" using l(2) by (auto simp: wait_queues_def)
  have "kinv {t} S L ?q1 ?k1" using suspend_kinv[OF k t(1)] t(2) by simp
  moreover have s: "statu_of ?k1 t = RT_THREAD_SUSPEND" "\<not> timer_on ?k2 t"
    using t(2) by (simp_all add: rt_thread_suspend_eq op_frames)
  ultimately have k2: "kinv {} S L (?q1(l := ?q1 l @ [TList t])) ?k2"
    using kinv_insert_wait[of "{t}" S L ?q1 ?k1 t l] t(1) l by simp
  show ?thesis
  proof (cases time)
    case (Some w)
    let ?k3 = "upd_timer t (\<lambda>m. m\<lparr>timer_init_tick := w\<rparr>) ?k2"
    have "\<not> timer_on ?k3 t" using s by (simp add: upd_timer_def upd_tcb_def)
    from kinv_timer_start[OF kinv_upd_init_tick[OF k2] t(1) this] show ?thesis
      using Some by (simp add: ipc_suspend_eq wait_queue_def Let_def)
  qed (use k2 in \<open>simp add: ipc_suspend_eq wait_queue_def Let_def\<close>)
qed

lemma ipc_suspend_sys_inv:
  assumes k: "sys_inv S L q k" and t: "rt_current_thread k = Some t" "statu_of k t = RT_THREAD_RUNNING"
    and l: "l \<in> S" "l \<in> wait_queues"
  shows "sys_inv S L (wait_queue l t time q) (ipc_suspend l t time k)"
  by (rule sys_inv_step[OF k ipc_suspend_kinv[OF sys_invD(1)[OF k] kinv_current[OF sys_invD(1)[OF k] t(1)] t(2) l]])
     (auto simp: ipc_suspend_frame[OF t(2)] split: if_splits)

section \<open>The invariant of the IPC objects\<close>

definition ipc_inv :: "node set \<Rightarrow> tid set \<Rightarrow> (node \<Rightarrow> node list) \<Rightarrow> ipc \<Rightarrow> bool" where
  "ipc_inv S L q k \<longleftrightarrow> sys_inv S L q k \<and>
    (\<forall>l\<in>S. l \<in> wait_queues \<longrightarrow> (\<forall>t. TList t \<in> set (q l) \<longrightarrow> error (tcb k t) = RT_EOK)) \<and>
    (\<forall>s. SemQ s \<in> S \<longrightarrow> sem_value (sems k s) \<noteq> 0 \<longrightarrow> q (SemQ s) = []) \<and>
    (\<forall>m. MbQ m \<in> S \<or> MbSendQ m \<in> S \<longrightarrow> MbQ m \<in> S \<and> MbSendQ m \<in> S \<and> mb_inv (mbs k m))"

lemma ipc_invD:
  assumes "ipc_inv S L q k"
  shows "sys_inv S L q k"
    "l \<in> S \<Longrightarrow> l \<in> wait_queues \<Longrightarrow> TList t \<in> set (q l) \<Longrightarrow> error (tcb k t) = RT_EOK"
    "SemQ s \<in> S \<Longrightarrow> sem_value (sems k s) \<noteq> 0 \<Longrightarrow> q (SemQ s) = []"
    "MbQ m \<in> S \<Longrightarrow> mb_inv (mbs k m)" "MbQ m \<in> S \<Longrightarrow> MbSendQ m \<in> S"
  using assms by (simp_all add: ipc_inv_def)

lemma ipc_more:
  fixes k k' :: ipc
  assumes "kernel.more k' = kernel.more k"
  shows "sems k' = sems k" "mbs k' = mbs k"
  using assms by (cases k; cases k'; simp)+

lemma in_wait_queues [simp]: "SemQ s \<in> wait_queues" "MbQ m \<in> wait_queues" "MbSendQ m \<in> wait_queues"
  by (auto simp: wait_queues_def)

text \<open>
  A step that keeps the objects and takes threads off wait queues only, or puts threads
  without an error on them, keeps the IPC part of the invariant.
\<close>

lemma ipc_inv_step:
  fixes k k' :: ipc
  assumes k: "ipc_inv S L q k" and s: "sys_inv S L q' k'" and m: "kernel.more k' = kernel.more k"
    and q: "\<And>l t. l \<in> S \<Longrightarrow> l \<in> wait_queues \<Longrightarrow> TList t \<in> set (q' l) \<Longrightarrow>
      error (tcb k' t) = RT_EOK \<or> (TList t \<in> set (q l) \<and> error (tcb k' t) = error (tcb k t))"
    and e: "\<And>s. SemQ s \<in> S \<Longrightarrow> q (SemQ s) = [] \<Longrightarrow> sem_value (sems k s) \<noteq> 0 \<Longrightarrow> q' (SemQ s) = []"
  shows "ipc_inv S L q' k'"
  using assms ipc_more[OF m] unfolding ipc_inv_def by metis

lemma sched_ipc_inv:
  assumes k: "ipc_inv S L q k" and s: "sys_inv S L q' k'" "sched_frame k k'" "same_waiting S q q'"
  shows "ipc_inv S L q' k'"
proof (rule ipc_inv_step[OF k s(1)])
  show "kernel.more k' = kernel.more k" using s(2) by (simp add: sched_frame_def)
  have same: "q' l = q l" if "l \<in> S" "l \<in> wait_queues" for l
    using s(3) that by (auto simp: same_waiting_def wait_queues_def)
  show "error (tcb k' t) = RT_EOK \<or> (TList t \<in> set (q l) \<and> error (tcb k' t) = error (tcb k t))"
    if "l \<in> S" "l \<in> wait_queues" "TList t \<in> set (q' l)" for l t
    using same[OF that(1,2)] that(3) sched_frame_tcb[OF s(2), of error] by simp
  show "q' (SemQ s) = []" if "SemQ s \<in> S" "q (SemQ s) = []" for s
    using same[of "SemQ s"] that by simp
qed

text \<open>The tick handler keeps the whole invariant: a timeout takes a waiting thread off its queue.\<close>

lemma tick_ipc_inv:
  assumes k: "ipc_inv S L q k"
  shows "\<exists>k' q'. sys_tick_handler k = Some (Inr k') \<and> ipc_inv S L q' k'"
proof -
  let ?k1 = "sys_tick_increase k"
  let ?X = "{t. t \<in> L \<and> expired ?k1 t}"
  obtain k' q' where r: "sys_tick_handler k = Some (Inr k')" "sys_inv S L q' k'" "woke ?X ?k1 k'"
      "dropped S ?X q q'"
    using tick_total[OF ipc_invD(1)[OF k]] by blast
  have d: "q' l = filter (\<lambda>n. n \<notin> TList ` ?X) (q l)" if "l \<in> S" "l \<in> wait_queues" for l
    using r(4) that by (auto simp: dropped_def wait_queues_def)
  have "ipc_inv S L q' k'"
  proof (rule ipc_inv_step[OF k r(2)])
    show "kernel.more k' = kernel.more k" using r(3) by (simp add: woke_def sys_tick_increase_def)
    show "error (tcb k' t) = RT_EOK \<or> (TList t \<in> set (q l) \<and> error (tcb k' t) = error (tcb k t))"
      if "l \<in> S" "l \<in> wait_queues" "TList t \<in> set (q' l)" for l t
    proof -
      have "t \<notin> ?X" "TList t \<in> set (q l)" using d[OF that(1,2)] that(3) by auto
      then show ?thesis using r(3) unfolding woke_def by (simp add: sys_tick_increase_def)
    qed
    show "q' (SemQ s) = []" if "SemQ s \<in> S" "q (SemQ s) = []" for s
      using d[of "SemQ s"] that by simp
  qed
  then show ?thesis using r(1) by blast
qed

section \<open>Blocking and waking\<close>

lemma resume_irq: "(snd (rt_thread_resume t (k\<lparr>irq := b\<rparr>)))\<lparr>irq := irq k\<rparr> = snd (rt_thread_resume t k)"
  by (simp add: rt_thread_resume_eq rt_schedule_insert_thread_eq rt_timer_stop_eq set_statu_def
      upd_tcb_def upd_links_def upd_timer_def)

lemma ipc_suspend_irq:
  assumes "statu_of k t = RT_THREAD_RUNNING"
  shows "(ipc_suspend l t time (k\<lparr>irq := b\<rparr>))\<lparr>irq := irq k\<rparr> = ipc_suspend l t time k"
  using assms
  by (simp add: ipc_suspend_eq rt_thread_suspend_eq rt_schedule_remove_thread_eq rt_timer_stop_eq
      rt_timer_start_eq set_statu_def upd_tcb_def upd_links_def upd_timer_def Let_def split: option.split)

lemma upd_tcb_irq: "upd_tcb t f (k\<lparr>irq := b\<rparr>) = (upd_tcb t f k)\<lparr>irq := b\<rparr>"
  by (simp add: upd_tcb_def)

lemma block_irq:
  assumes "statu_of k t = RT_THREAD_RUNNING"
  shows "(ipc_suspend l t time (upd_tcb t (\<lambda>b. b\<lparr>error := RT_EOK\<rparr>) (k\<lparr>irq := False\<rparr>)))\<lparr>irq := irq k\<rparr> =
    ipc_suspend l t time (upd_tcb t (\<lambda>b. b\<lparr>error := RT_EOK\<rparr>) k)"
proof -
  let ?k = "upd_tcb t (\<lambda>b. b\<lparr>error := RT_EOK\<rparr>) k"
  have "statu_of ?k t = RT_THREAD_RUNNING" "irq ?k = irq k" using assms by (simp_all add: upd_tcb_def)
  with ipc_suspend_irq[OF this(1), of l time False] show ?thesis by (simp add: upd_tcb_irq)
qed

lemma wait_queue_other:
  assumes k: "kinv {} S L q k" and t: "statu_of k t = RT_THREAD_RUNNING"
    and l: "l \<in> S" "l \<in> wait_queues"
  shows "l' \<in> headers S \<Longrightarrow> l' \<noteq> Timer_list \<Longrightarrow> wait_queue l t time q l' = (if l' = l then q l @ [TList t] else q l')"
proof -
  assume l': "l' \<in> headers S" "l' \<noteq> Timer_list"
  have "TList t \<notin> set (q m)" if "m \<in> headers S" for m
  proof
    assume "TList t \<in> set (q m)"
    then have "place k m t" using kinv_place[OF k _ that] by blast
    then show False using t by (cases m) auto
  qed
  moreover have "l \<in> headers S" "l \<noteq> Timer_list" using l by (auto simp: wait_queues_def)
  ultimately show "wait_queue l t time q l' = (if l' = l then q l @ [TList t] else q l')"
    using l' by (simp add: wait_queue_def stop_queue_def unqueue_def remove1_idem Let_def split: option.split)
qed

definition blocked_on ::
  "node set \<Rightarrow> tid set \<Rightarrow> (node \<Rightarrow> node list) \<Rightarrow> node \<Rightarrow> tid \<Rightarrow> u32 option \<Rightarrow> ipc \<Rightarrow> ipc \<Rightarrow> bool" where
  "blocked_on S L q l c time k k' \<longleftrightarrow>
    (\<exists>q'. ipc_inv S L q' k' \<and> q' l = q l @ [TList c] \<and> (\<forall>l'\<in>S. l' \<in> wait_queues \<longrightarrow> l' \<noteq> l \<longrightarrow> q' l' = q l')) \<and>
    statu_of k' c = RT_THREAD_SUSPEND \<and> error (tcb k' c) = RT_EOK \<and>
    timer_on k' c = (time \<noteq> None) \<and>
    (\<forall>w. time = Some w \<longrightarrow> timeout_tick (thread_timer (tcb k' c)) = system_tick k + w) \<and>
    sems k' = sems k \<and> mbs k' = mbs k \<and> system_tick k' = system_tick k \<and>
    (if \<exists>p<32. q (Ready p) \<noteq> [] then rt_current_thread k' \<noteq> Some c \<and> cur_running k' else rt_current_thread k' = Some c) \<and>
    (between_interrupts k \<longrightarrow> between_interrupts k' \<and> handed k k')"

lemma ipc_inv_error:
  assumes "ipc_inv S L q k"
  shows "ipc_inv S L q (upd_tcb t (\<lambda>b. b\<lparr>error := RT_EOK\<rparr>) k)"
proof (rule ipc_inv_step[OF assms])
  show "sys_inv S L q (upd_tcb t (\<lambda>b. b\<lparr>error := RT_EOK\<rparr>) k)"
    using kinv_upd_tcb[OF sys_invD(1)[OF ipc_invD(1)[OF assms]], of "\<lambda>b. b\<lparr>error := RT_EOK\<rparr>" t]
    by (intro sys_inv_step[OF ipc_invD(1)[OF assms]]) (auto simp: upd_tcb_def)
qed (auto simp: upd_tcb_def)

lemma block_ipc_inv:
  assumes k: "ipc_inv S L q k" and c: "rt_current_thread k = Some c" "statu_of k c = RT_THREAD_RUNNING"
    and l: "l \<in> S" "l \<in> wait_queues" and v: "\<And>s. l = SemQ s \<Longrightarrow> sem_value (sems k s) = 0"
  shows "\<exists>k'. rt_schedule (ipc_suspend l c time (upd_tcb c (\<lambda>b. b\<lparr>error := RT_EOK\<rparr>) k)) = Inr k' \<and>
    blocked_on S L q l c time k k'"
proof -
  let ?k0 = "upd_tcb c (\<lambda>b. b\<lparr>error := RT_EOK\<rparr>) k"
  let ?k1 = "ipc_suspend l c time ?k0"
  let ?q1 = "wait_queue l c time q"
  have k0: "ipc_inv S L q ?k0" by (rule ipc_inv_error[OF k])
  have c0: "rt_current_thread ?k0 = Some c" "statu_of ?k0 c = RT_THREAD_RUNNING"
    using c by (simp_all add: upd_tcb_def)
  note fr = ipc_suspend_frame[OF c0(2), of l time]
  note wq = wait_queue_other[OF sys_invD(1)[OF ipc_invD(1)[OF k0]] c0(2) l, of _ time]
  have s1: "sys_inv S L ?q1 ?k1" by (rule ipc_suspend_sys_inv[OF ipc_invD(1)[OF k0] c0 l])
  have nt: "l' \<in> headers S" "l' \<noteq> Timer_list" if "l' \<in> S" "l' \<in> wait_queues" for l'
    using that by (auto simp: wait_queues_def)
  have er: "error (tcb ?k1 t) = (if t = c then RT_EOK else error (tcb k t))"
      "error (tcb ?k0 t) = (if t = c then RT_EOK else error (tcb k t))" for t
    unfolding fr(1) by (simp_all add: upd_tcb_def)
  have i1: "ipc_inv S L ?q1 ?k1"
  proof (rule ipc_inv_step[OF k0 s1])
    show "kernel.more ?k1 = kernel.more ?k0" by (rule fr(6))
    show "error (tcb ?k1 t) = RT_EOK \<or> (TList t \<in> set (q l') \<and> error (tcb ?k1 t) = error (tcb ?k0 t))"
      if "l' \<in> S" "l' \<in> wait_queues" "TList t \<in> set (?q1 l')" for l' t
      using that wq[OF nt[OF that(1,2)]] by (auto simp: er split: if_splits)
    show "?q1 (SemQ s) = []" if "SemQ s \<in> S" "q (SemQ s) = []" "sem_value (sems ?k0 s) \<noteq> 0" for s
      using that wq[of "SemQ s"] v[of s] by (auto simp: upd_tcb_def)
  qed
  obtain k' q' where r: "rt_schedule ?k1 = Inr k'" "sys_inv S L q' k'" "sched_frame ?k1 k'"
      "same_waiting S ?q1 q'" "picks ?q1 ?k1 k'"
    using rt_schedule_sys_inv[OF s1] by blast
  have i': "ipc_inv S L q' k'" by (rule sched_ipc_inv[OF i1 r(2,3,4)])
  have same: "q' l' = (if l' = l then q l @ [TList c] else q l')" if "l' \<in> S" "l' \<in> wait_queues" for l'
    using r(4) nt[OF that] wq[OF nt[OF that]] that by (auto simp: same_waiting_def wait_queues_def)
  have "?q1 (Ready p) = q (Ready p)" if "p < 32" for p using wq[of "Ready p"] that l by (auto simp: wait_queues_def)
  then have "(\<exists>p<32. q (Ready p) \<noteq> []) \<longleftrightarrow> \<not> (\<forall>p<32. ?q1 (Ready p) = [])" by metis
  then have cur: "if \<exists>p<32. q (Ready p) \<noteq> [] then rt_current_thread k' \<noteq> Some c \<and> cur_running k' else rt_current_thread k' = Some c"
    using r(5) fr(2) c0(1) picks_running[OF r(3,5)] by (auto simp: picks_def)
  have "statu_of k' c = RT_THREAD_SUSPEND" "kernel.more k' = kernel.more k" "system_tick k' = system_tick k"
    using r(3) fr by (simp_all add: sched_frame_def awake_def leaves_cpu_def upd_tcb_def)
  moreover have "error (tcb k' c) = RT_EOK" using sched_frame_tcb[OF r(3), of error] fr(1) by (simp add: upd_tcb_def)
  moreover have "timer_on k' c = (time \<noteq> None)"
      "\<forall>w. time = Some w \<longrightarrow> timeout_tick (thread_timer (tcb k' c)) = system_tick k + w"
    using sched_frame_timer[OF r(3), of c] fr(1) by (auto simp: upd_tcb_def split: option.splits)
  moreover have "between_interrupts k \<longrightarrow> between_interrupts k' \<and> handed k k'"
  proof -
    have k1: "regs ?k1 = regs k" "rt_current_thread ?k1 = rt_current_thread k" "irq ?k1 = irq k" "\<And>t. sp (tcb ?k1 t) = sp (tcb k t)"
      using fr by (simp_all add: upd_tcb_def)
    show ?thesis using r(3) between_cong(1)[OF k1(1,2)] handed_from[OF k1] by (auto simp: sched_frame_def)
  qed
  ultimately have "blocked_on S L q l c time k k'"
    unfolding blocked_on_def using i' same l cur ipc_more[of k' k] by (intro conjI exI[of _ q']) auto
  then show ?thesis using r(1) by blast
qed

lemma resume_frame:
  assumes "statu_of k t = RT_THREAD_SUSPEND \<or> statu_of k t = RT_THREAD_SLEEP"
  shows "tcb (snd (rt_thread_resume t k)) = (tcb k)(t := (tcb k t)\<lparr>
       statu := (if rt_current_thread k = Some t then RT_THREAD_RUNNING else RT_THREAD_READY),
       thread_timer := (thread_timer (tcb k t))\<lparr>timer_active := False\<rparr>\<rparr>)"
    "rt_current_thread (snd (rt_thread_resume t k)) = rt_current_thread k"
    "irq (snd (rt_thread_resume t k)) = irq k" "fst (rt_thread_resume t k) = RT_EOK"
    "system_tick (snd (rt_thread_resume t k)) = system_tick k"
    "rt_interrupt_nest (snd (rt_thread_resume t k)) = rt_interrupt_nest k"
    "kernel.more (snd (rt_thread_resume t k)) = kernel.more k" "regs (snd (rt_thread_resume t k)) = regs k"
  using assms by (auto simp: rt_thread_resume_eq op_frames tcb_field_order)

lemma resume_ipc_inv:
  assumes k: "ipc_inv S L q k" and l: "l \<in> S" "l \<in> wait_queues" and t: "q l = TList t # r"
  shows "\<exists>q'. ipc_inv S L q' (snd (rt_thread_resume t k)) \<and>
      (\<forall>l'\<in>S. l' \<in> wait_queues \<longrightarrow> q' l' = (if l' = l then r else q l'))"
    and "statu_of k t = RT_THREAD_SUSPEND \<and> t \<in> L \<and> error (tcb k t) = RT_EOK"
proof -
  note s = ipc_invD(1)[OF k]
  note ki = sys_invD(1)[OF s]
  have lh: "l \<in> headers S" using l by simp
  have tl: "t \<in> L" "place k l t" using kinv_in_L(1)[OF ki lh] kinv_place[OF ki _ lh] t by auto
  then have st: "statu_of k t = RT_THREAD_SUSPEND" using l(2) by (auto simp: wait_queues_def)
  then show a: "statu_of k t = RT_THREAD_SUSPEND \<and> t \<in> L \<and> error (tcb k t) = RT_EOK"
    using ipc_invD(2)[OF k l] t tl by simp
  let ?k = "snd (rt_thread_resume t k)" and ?q = "wake_queue t k (stop_queue t (unqueue t q))"
  note fr = resume_frame[OF disjI1[OF st]]
  have s1: "sys_inv S L ?q ?k"
    by (rule sys_inv_step[OF s resume_kinv[OF ki tl(1) disjI1[OF st]]]) (auto simp: fr split: if_splits)
  have q': "?q l' = (if l' = l then r else q l')" if "l' \<in> S" "l' \<in> wait_queues" for l'
  proof -
    have "TList t \<notin> set (q l')" if "l' \<noteq> l"
      using disjoint_queuesD[OF kinv_queues[OF ki], of "TList t" l l'] t lh that \<open>l' \<in> S\<close> \<open>l' \<in> wait_queues\<close> by auto
    then show ?thesis using that t
      by (auto simp: wake_queue_def stop_queue_def unqueue_def wait_queues_def remove1_idem)
  qed
  have "ipc_inv S L ?q ?k"
  proof (rule ipc_inv_step[OF k s1 fr(7)], goal_cases)
    case (1 l' t')
    then show ?case using q'[of l'] t ipc_invD(2)[OF k, of l' t'] by (auto simp: fr(1) split: if_splits)
  next
    case (2 s')
    then show ?case using q'[of "SemQ s'"] t by (auto split: if_splits)
  qed
  then show "\<exists>q'. ipc_inv S L q' ?k \<and> (\<forall>l'\<in>S. l' \<in> wait_queues \<longrightarrow> q' l' = (if l' = l then r else q l'))"
    using q' by blast
qed

definition woken_from ::
  "node set \<Rightarrow> tid set \<Rightarrow> (node \<Rightarrow> node list) \<Rightarrow> node \<Rightarrow> tid \<Rightarrow> node list \<Rightarrow> ipc \<Rightarrow> ipc \<Rightarrow> bool" where
  "woken_from S L q l t r k k' \<longleftrightarrow>
    (\<exists>q'. ipc_inv S L q' k' \<and> (\<forall>l'\<in>S. l' \<in> wait_queues \<longrightarrow> q' l' = (if l' = l then r else q l'))) \<and>
    awake (statu_of k' t) \<and> error (tcb k' t) = RT_EOK \<and> \<not> timer_on k' t \<and>
    sems k' = sems k \<and> mbs k' = mbs k \<and> (cur_running k \<longrightarrow> cur_running k') \<and>
    (between_interrupts k \<longrightarrow> between_interrupts k' \<and> handed k k')"

lemma wake_ipc_inv:
  assumes k: "ipc_inv S L q k" and l: "l \<in> S" "l \<in> wait_queues" and t: "q l = TList t # r"
  shows "\<exists>k'. rt_schedule (snd (rt_thread_resume t k)) = Inr k' \<and> woken_from S L q l t r k k'"
proof -
  let ?k1 = "snd (rt_thread_resume t k)"
  obtain q1 where q1: "ipc_inv S L q1 ?k1"
      "\<forall>l'\<in>S. l' \<in> wait_queues \<longrightarrow> q1 l' = (if l' = l then r else q l')"
    using resume_ipc_inv(1)[OF assms] by blast
  have st: "statu_of k t = RT_THREAD_SUSPEND" "error (tcb k t) = RT_EOK" using resume_ipc_inv(2)[OF assms] by auto
  note fr = resume_frame[OF disjI1[OF st(1)]]
  obtain k' q' where r: "rt_schedule ?k1 = Inr k'" "sys_inv S L q' k'" "sched_frame ?k1 k'" "same_waiting S q1 q'"
    using rt_schedule_sys_inv[OF ipc_invD(1)[OF q1(1)]] by blast
  have "ipc_inv S L q' k'" by (rule sched_ipc_inv[OF q1(1) r(2,3,4)])
  moreover have "q' l' = (if l' = l then r else q l')" if "l' \<in> S" "l' \<in> wait_queues" for l'
    using r(4) q1(2) that by (auto simp: same_waiting_def wait_queues_def)
  moreover have "awake (statu_of k' t)" "kernel.more k' = kernel.more k"
    using r(3) fr by (auto simp: sched_frame_def awake_def leaves_cpu_def)
  moreover have "cur_running k \<longrightarrow> cur_running k'"
    using r(3) fr(1,2) by (auto simp: sched_frame_def cur_running_def)
  moreover have "error (tcb k' t) = RT_EOK" "\<not> timer_on k' t"
    using sched_frame_tcb[OF r(3), of error] sched_frame_timer[OF r(3), of t] fr(1) st(2) by auto
  moreover have "between_interrupts k \<longrightarrow> between_interrupts k' \<and> handed k k'"
    using r(3) between_cong(1)[OF fr(8,2)] handed_from[OF fr(8,2,3), of k'] by (auto simp: sched_frame_def fr(1))
  ultimately have "woken_from S L q l t r k k'"
    unfolding woken_from_def using ipc_more[of k' k] by (intro conjI exI[of _ q']) auto
  then show ?thesis using r(1) by blast
qed

text \<open>A blocked thread has left the processor when any thread was ready.\<close>

lemma blocked_cpu:
  assumes "ipc_inv S L q k" "rt_interrupt_nest k = 0" "blocked_on S L q l c time k k'"
  shows "on_cpu c k' \<longleftrightarrow> (\<forall>p<32. q (Ready p) = [])"
proof -
  have "between_interrupts k" using sys_invD(5)[OF ipc_invD(1)[OF assms(1)]] assms(2) by (simp add: ctx_ok_def)
  then have "cpu k' = rt_current_thread k'" using assms(3) by (simp add: blocked_on_def between_interrupts_def)
  then show ?thesis using assms(3) by (auto simp: on_cpu_def blocked_on_def split: if_splits)
qed

section \<open>Semaphore operations\<close>

lemma sem_take_available:
  "sem_value (sems k s) \<noteq> 0 \<Longrightarrow>
    rt_sem_take s time k = Inr (Ret RT_EOK, upd_sem s (\<lambda>m. m\<lparr>sem_value := sem_value m - 1\<rparr>) k)"
  by (simp add: rt_sem_take_def irq_defs upd_sem_def word_gt_0)

lemma sem_take_poll:
  "sem_value (sems k s) = 0 \<Longrightarrow> rt_sem_take s 0 k = Inr (Ret (- RT_ETIMEOUT), k)"
  by (simp add: rt_sem_take_def irq_defs)

lemma sem_take_blocks:
  assumes k: "ipc_inv S L q k" and c: "rt_current_thread k = Some c" "statu_of k c = RT_THREAD_RUNNING"
    and l: "SemQ s \<in> S" and v: "sem_value (sems k s) = 0" "time \<noteq> 0" and n: "rt_interrupt_nest k = 0"
  shows "\<exists>k'. rt_sem_take s time k = Inr (if \<exists>p<32. q (Ready p) \<noteq> [] then Blocked c () else Ret RT_EOK, k') \<and>
    blocked_on S L q (SemQ s) c (if time > 0 then Some (word_of_int time) else None) k k'"
proof -
  let ?tm = "if time > 0 then Some (word_of_int time) else None"
  let ?k0 = "upd_tcb c (\<lambda>b. b\<lparr>error := RT_EOK\<rparr>) k"
  obtain k' where r: "rt_schedule (ipc_suspend (SemQ s) c ?tm ?k0) = Inr k'" "blocked_on S L q (SemQ s) c ?tm k k'"
    using block_ipc_inv[OF k c l, of ?tm] v by auto
  have "rt_sem_take s time k = Inr (if on_cpu c k' then Ret (rt_sem_take_resumed c k') else Blocked c (), k')"
    using r v n c block_irq[OF c(2), of "SemQ s" ?tm]
    by (simp add: rt_sem_take_def irq_defs in_thread_context_def not_in_interrupt_def rt_interrupt_get_nest_def rt_thread_self_def
        Let_def cong: if_cong)
  then show ?thesis using r(2) blocked_cpu[OF k n r(2)] by (auto simp: rt_sem_take_resumed_def blocked_on_def)
qed

lemma ipc_upd_sem:
  assumes k: "ipc_inv S L q k" and e: "SemQ s \<in> S \<Longrightarrow> sem_value (f (sems k s)) \<noteq> 0 \<Longrightarrow> q (SemQ s) = []"
  shows "ipc_inv S L q (upd_sem s f k)"
proof -
  have kk: "kinv {} S L q (upd_sem s f k)"
    by (rule kinv_cong[OF sys_invD(1)[OF ipc_invD(1)[OF k]]]) (simp_all add: upd_sem_def)
  have "sys_inv S L q (upd_sem s f k)"
    by (rule sys_inv_step[OF ipc_invD(1)[OF k] kk]) (simp_all add: upd_sem_def regs_def)
  then show ?thesis using k e by (auto simp: ipc_inv_def upd_sem_def)
qed

lemma ipc_upd_mb:
  assumes k: "ipc_inv S L q k" and m: "mb_inv (mbs k m) \<Longrightarrow> mb_inv (f (mbs k m))"
  shows "ipc_inv S L q (upd_mb m f k)"
proof -
  have kk: "kinv {} S L q (upd_mb m f k)"
    by (rule kinv_cong[OF sys_invD(1)[OF ipc_invD(1)[OF k]]]) (simp_all add: upd_mb_def)
  have "sys_inv S L q (upd_mb m f k)"
    by (rule sys_inv_step[OF ipc_invD(1)[OF k] kk]) (simp_all add: upd_mb_def regs_def)
  then show ?thesis using k m by (auto simp: ipc_inv_def upd_mb_def)
qed

lemma wait_first:
  assumes k: "ipc_inv S L q k" and l: "l \<in> S" "l \<in> wait_queues"
  shows "rt_list_isempty l (links k) \<longleftrightarrow> q l = []"
    and "q l \<noteq> [] \<Longrightarrow> \<exists>t r. q l = TList t # r \<and> thread_entry (lnext (links k) l) = Some t"
proof -
  note ki = sys_invD(1)[OF ipc_invD(1)[OF k]]
  have lh: "l \<in> headers S" "l \<noteq> Timer_list" "l \<noteq> All_threads" using l by (auto simp: wait_queues_def)
  show "rt_list_isempty l (links k) \<longleftrightarrow> q l = []" by (rule rtl.queues_empty_iff[OF kinv_queues[OF ki] lh(1)])
  assume ne: "q l \<noteq> []"
  then obtain t where "hd (q l) = TList t" using queue_members[OF ki lh, of "hd (q l)"] by auto
  then show "\<exists>t r. q l = TList t # r \<and> thread_entry (lnext (links k) l) = Some t"
    using rtl.queues_first[OF kinv_queues[OF ki] lh(1) ne] ne by (cases "q l") auto
qed

lemma sem_release_free:
  assumes k: "ipc_inv S L q k" and l: "SemQ s \<in> S" and e: "q (SemQ s) = []"
  shows "rt_sem_release s k = Inr (RT_EOK, upd_sem s (\<lambda>m. m\<lparr>sem_value := sem_value m + 1\<rparr>) k)"
  using wait_first(1)[OF k l] e by (simp add: rt_sem_release_def irq_defs upd_sem_def)

lemma sem_release_waiter:
  assumes k: "ipc_inv S L q k" and l: "SemQ s \<in> S" and t: "q (SemQ s) = TList t # r"
  shows "\<exists>k'. rt_sem_release s k = Inr (RT_EOK, k') \<and> woken_from S L q (SemQ s) t r k k'"
proof -
  obtain k' where k': "rt_schedule (snd (rt_thread_resume t k)) = Inr k'" "woken_from S L q (SemQ s) t r k k'"
    using wake_ipc_inv[OF k l _ t] by auto
  have "thread_entry (lnext (links k) (SemQ s)) = Some t" using wait_first(2)[OF k l] t by auto
  then show ?thesis using k' wait_first(1)[OF k l] t resume_irq[where t = t and k = k and b = False]
    by (simp add: rt_sem_release_def irq_defs split_def)
qed

section \<open>Emptying a wait queue\<close>

lemma resume_walk_total:
  assumes "ipc_inv S L q k" "l \<in> S" "l \<in> wait_queues" "q l = xs" "xs \<noteq> [] \<Longrightarrow> nxt = hd (tl xs @ [l])"
  shows "\<exists>k' q'. resume_walk l (hd (xs @ [l])) nxt k = Some (Inr k') \<and> ipc_inv S L q' k' \<and> q' l = [] \<and>
    (\<forall>l'\<in>S. l' \<in> wait_queues \<longrightarrow> l' \<noteq> l \<longrightarrow> q' l' = q l') \<and>
    (\<forall>t. TList t \<in> set xs \<or> awake (statu_of k t) \<longrightarrow> awake (statu_of k' t)) \<and>
    rt_current_thread k' = rt_current_thread k \<and> irq k' = irq k \<and> kernel.more k' = kernel.more k"
  using assms
proof (induction xs arbitrary: q k nxt)
  case Nil
  then show ?case by (auto simp: resume_walk.simps[of l l])
next
  case (Cons x ys)
  note k = Cons.prems(1) and l = Cons.prems(2,3)
  have lh: "l \<in> headers S" "l \<noteq> Timer_list" "l \<noteq> All_threads" using l by (auto simp: wait_queues_def)
  obtain t where t: "x = TList t"
    using queue_members[OF sys_invD(1)[OF ipc_invD(1)[OF k]] lh, of x] Cons.prems(4) by auto
  have ql: "q l = TList t # ys" using Cons.prems(4) t by simp
  let ?k1 = "snd (rt_thread_resume t k)"
  obtain q1 where q1: "ipc_inv S L q1 ?k1" "\<forall>l'\<in>S. l' \<in> wait_queues \<longrightarrow> q1 l' = (if l' = l then ys else q l')"
    using resume_ipc_inv(1)[OF k l ql] by blast
  have st: "statu_of k t = RT_THREAD_SUSPEND" using resume_ipc_inv(2)[OF k l ql] by simp
  note fr = resume_frame[OF disjI1[OF st]]
  have q1l: "q1 l = ys" using q1(2) l by simp
  have dl: "dll (links ?k1) l ys"
    using kinv_queues[OF sys_invD(1)[OF ipc_invD(1)[OF q1(1)]]] lh(1) q1l unfolding disjoint_queues_def by auto
  have nxt: "nxt = hd (ys @ [l])" using Cons.prems(5) by simp
  have "lnext (links ?k1) nxt = hd (tl ys @ [l])" if "ys \<noteq> []"
    using dll_next[of "links ?k1" l "[]" "hd ys" "tl ys"] dl nxt that by simp
  from Cons.IH[OF q1(1) l q1l this] obtain k' q' where r:
    "resume_walk l nxt (lnext (links ?k1) nxt) ?k1 = Some (Inr k')" "ipc_inv S L q' k'" "q' l = []"
    "\<forall>l'\<in>S. l' \<in> wait_queues \<longrightarrow> l' \<noteq> l \<longrightarrow> q' l' = q1 l'"
    "\<forall>t. TList t \<in> set ys \<or> awake (statu_of ?k1 t) \<longrightarrow> awake (statu_of k' t)"
    "rt_current_thread k' = rt_current_thread ?k1" "irq k' = irq ?k1" "kernel.more k' = kernel.more ?k1"
    unfolding nxt by blast
  have "resume_walk l (hd ((x # ys) @ [l])) nxt k = Some (Inr k')"
    using r(1) t l(2) by (auto simp: resume_walk.simps[of l "TList t"] Let_def wait_queues_def)
  moreover have "\<forall>t'. TList t' \<in> set (x # ys) \<or> awake (statu_of k t') \<longrightarrow> awake (statu_of k' t')"
    using r(5) t fr(1) by (auto simp: awake_def leaves_cpu_def)
  ultimately show ?case using r q1(2) fr by (intro exI[of _ k'] exI[of _ q']) simp
qed

lemma resume_all_total:
  assumes k: "ipc_inv S L q k" and l: "l \<in> S" "l \<in> wait_queues"
  shows "\<exists>k' q'. resume_all l k = Some (Inr k') \<and> ipc_inv S L q' k' \<and> q' l = [] \<and>
    (\<forall>l'\<in>S. l' \<in> wait_queues \<longrightarrow> l' \<noteq> l \<longrightarrow> q' l' = q l') \<and>
    (\<forall>t. TList t \<in> set (q l) \<or> awake (statu_of k t) \<longrightarrow> awake (statu_of k' t)) \<and>
    rt_current_thread k' = rt_current_thread k \<and> irq k' = irq k \<and> kernel.more k' = kernel.more k"
proof -
  have dl: "dll (links k) l (q l)"
    using kinv_queues[OF sys_invD(1)[OF ipc_invD(1)[OF k]]] l unfolding disjoint_queues_def by simp
  have pos: "lnext (links k) l = hd (q l @ [l])" using dll_first[OF dl] by (simp split: list.splits)
  have "lnext (links k) (hd (q l @ [l])) = hd (tl (q l) @ [l])" if "q l \<noteq> []"
    using dll_next[of "links k" l "[]" "hd (q l)" "tl (q l)"] dl that by simp
  from resume_walk_total[OF k l refl this] show ?thesis
    by (simp add: resume_all_def pos Let_def)
qed

section \<open>Mailbox operations\<close>

lemma mb_send_space:
  assumes k: "ipc_inv S L q k" and m: "MbQ m \<in> S" and f: "\<not> mb_full (mbs k m)"
  shows "q (MbQ m) = [] \<Longrightarrow> rt_mb_send_wait m v time k = Some (Inr (Ret RT_EOK, upd_mb m (mb_put v) k))"
    and "q (MbQ m) = TList t # r \<Longrightarrow> \<exists>k'. rt_mb_send_wait m v time k = Some (Inr (Ret RT_EOK, k')) \<and>
      woken_from S L q (MbQ m) t r (upd_mb m (mb_put v) k) k'"
proof -
  let ?k = "upd_mb m (mb_put v) k"
  have i: "ipc_inv S L q ?k" by (rule ipc_upd_mb[OF k]) (rule mbq.put_inv[OF _ f])
  obtain c where c: "rt_current_thread k = Some c" using sys_invD(2)[OF ipc_invD(1)[OF k]] by blast
  have eq: "rt_mb_send_wait m v time k = mb_send_loop m v c time 0 (irq k) (k\<lparr>irq := False\<rparr>)"
    using c f by (simp add: rt_mb_send_wait_def rt_thread_self_def irq_defs)
  have ln: "links (upd_mb m (mb_put v) (k\<lparr>irq := False\<rparr>)) = links ?k" by (simp add: upd_mb_def)
  show "q (MbQ m) = [] \<Longrightarrow> rt_mb_send_wait m v time k = Some (Inr (Ret RT_EOK, ?k))"
    using wait_first(1)[OF i m] f eq by (simp add: mb_send_loop.simps mb_send_round_def irq_defs upd_mb_def)
  assume t: "q (MbQ m) = TList t # r"
  obtain k' where k': "rt_schedule (snd (rt_thread_resume t ?k)) = Inr k'" "woken_from S L q (MbQ m) t r ?k k'"
    using wake_ipc_inv[OF i m _ t] by auto
  have "(upd_mb m (mb_put v) (k\<lparr>irq := False\<rparr>)) = ?k\<lparr>irq := False\<rparr>" "irq ?k = irq k" by (simp_all add: upd_mb_def)
  then have "(snd (rt_thread_resume t (upd_mb m (mb_put v) (k\<lparr>irq := False\<rparr>))))\<lparr>irq := irq k\<rparr> = snd (rt_thread_resume t ?k)"
    using resume_irq[where t = t and k = ?k and b = False] by simp
  then have "mb_send_round m v c time 0 (irq k) (k\<lparr>irq := False\<rparr>) = Inr (Leaves (Ret RT_EOK), k')"
    using k' wait_first[OF i m] t f ln by (auto simp: mb_send_round_def irq_defs split_def Let_def)
  then show "\<exists>k'. rt_mb_send_wait m v time k = Some (Inr (Ret RT_EOK, k')) \<and> woken_from S L q (MbQ m) t r ?k k'"
    using k'(2) eq by (simp add: mb_send_loop.simps)
qed

lemma mb_recv_message:
  assumes k: "ipc_inv S L q k" and m: "MbQ m \<in> S" and f: "\<not> mb_empty (mbs k m)"
  defines "k1 \<equiv> upd_mb m (\<lambda>_. snd (mb_get (mbs k m))) k"
  shows "q (MbSendQ m) = [] \<Longrightarrow> rt_mb_recv m time k = Some (Inr ((Ret RT_EOK, Some (fst (mb_get (mbs k m)))), k1))"
    and "q (MbSendQ m) = TList t # r \<Longrightarrow> \<exists>k'. rt_mb_recv m time k =
      Some (Inr ((Ret RT_EOK, Some (fst (mb_get (mbs k m)))), k')) \<and> woken_from S L q (MbSendQ m) t r k1 k'"
proof -
  have i: "ipc_inv S L q k1" unfolding k1_def by (rule ipc_upd_mb[OF k]) (rule mbq.get_inv[OF _ f])
  have m': "MbSendQ m \<in> S" using ipc_invD(5)[OF k m] .
  obtain c where c: "rt_current_thread k = Some c" using sys_invD(2)[OF ipc_invD(1)[OF k]] by blast
  have eq: "rt_mb_recv m time k = mb_recv_loop m c time 0 (irq k) (k\<lparr>irq := False\<rparr>)"
    using c f by (simp add: rt_mb_recv_def rt_thread_self_def irq_defs)
  let ?k1 = "upd_mb m (\<lambda>_. snd (mb_get (mbs k m))) (k\<lparr>irq := False\<rparr>)"
  have k1: "?k1 = k1\<lparr>irq := False\<rparr>" "irq k1 = irq k" by (simp_all add: upd_mb_def k1_def)
  show "q (MbSendQ m) = [] \<Longrightarrow> rt_mb_recv m time k = Some (Inr ((Ret RT_EOK, Some (fst (mb_get (mbs k m)))), k1))"
    using wait_first(1)[OF i m'] f eq k1 by (simp add: mb_recv_loop.simps mb_recv_round_def irq_defs split_def Let_def)
  assume t: "q (MbSendQ m) = TList t # r"
  obtain k' where k': "rt_schedule (snd (rt_thread_resume t k1)) = Inr k'" "woken_from S L q (MbSendQ m) t r k1 k'"
    using wake_ipc_inv[OF i m' _ t] by auto
  have st: "statu_of k1 t = RT_THREAD_SUSPEND" using resume_ipc_inv(2)[OF i m' _ t] by simp
  then have "snd (rt_thread_resume t k1) = (rt_schedule_insert_thread t
      (snd (rt_timer_stop t (upd_links (rt_list_remove (TList t)) ?k1))))\<lparr>irq := irq k\<rparr>"
    by (simp add: rt_thread_resume_eq k1 rt_schedule_insert_thread_eq rt_timer_stop_eq
        upd_links_def upd_timer_def upd_tcb_def set_statu_def)
  then have "mb_recv_round m c time 0 (irq k) (k\<lparr>irq := False\<rparr>) = Inr (Leaves (Ret RT_EOK, Some (fst (mb_get (mbs k m)))), k')"
    using k' wait_first[OF i m'] t f k1 by (auto simp: mb_recv_round_def irq_defs split_def Let_def)
  then show "\<exists>k'. rt_mb_recv m time k =
      Some (Inr ((Ret RT_EOK, Some (fst (mb_get (mbs k m)))), k')) \<and> woken_from S L q (MbSendQ m) t r k1 k'"
    using k'(2) eq by (simp add: mb_recv_loop.simps)
qed

text \<open>
  A round that waits: with another thread ready it leaves the processor, otherwise the loop
  goes on although the thread is already queued.
\<close>

lemma send_round_waits:
  assumes k: "ipc_inv S L q k" and c: "rt_current_thread k = Some c" "statu_of k c = RT_THREAD_RUNNING"
    and m: "MbQ m \<in> S" and f: "mb_full (mbs k m)" "time \<noteq> 0" and n: "rt_interrupt_nest k = 0"
  shows "\<exists>k' d'. mb_send_round m v c time d (irq k) (k\<lparr>irq := False\<rparr>) =
      Inr (if \<exists>p<32. q (Ready p) \<noteq> [] then Leaves (Blocked c (time, d')) else Repeats (time, d'), k') \<and>
    blocked_on S L q (MbSendQ m) c (if time > 0 then Some (word_of_int time) else None) k k'"
proof -
  let ?tm = "if time > 0 then Some (word_of_int time) else None"
  obtain k' where r: "rt_schedule (ipc_suspend (MbSendQ m) c ?tm (upd_tcb c (\<lambda>b. b\<lparr>error := RT_EOK\<rparr>) k)) = Inr k'"
      "blocked_on S L q (MbSendQ m) c ?tm k k'"
    using block_ipc_inv[OF k c ipc_invD(5)[OF k m], of ?tm] by auto
  have n': "in_thread_context (upd_tcb c (\<lambda>b. b\<lparr>error := RT_EOK\<rparr>) (k\<lparr>irq := False\<rparr>))"
    using n c by (simp add: in_thread_context_def not_in_interrupt_def rt_interrupt_get_nest_def rt_thread_self_def upd_tcb_def)
  let ?d = "if time > 0 then sys_tick_get (upd_tcb c (\<lambda>b. b\<lparr>error := RT_EOK\<rparr>) (k\<lparr>irq := False\<rparr>)) else d"
  have "mb_send_round m v c time d (irq k) (k\<lparr>irq := False\<rparr>) =
      Inr (if on_cpu c k' then Repeats (time, ?d) else Leaves (Blocked c (time, ?d)), k')"
    using r f n' block_irq[OF c(2), of "MbSendQ m" ?tm] by (simp add: mb_send_round_def irq_defs Let_def cong: if_cong)
  then show ?thesis using r(2) blocked_cpu[OF k n r(2)] by (intro exI[of _ k'] exI[of _ ?d]) auto
qed

lemma recv_round_waits:
  assumes k: "ipc_inv S L q k" and c: "rt_current_thread k = Some c" "statu_of k c = RT_THREAD_RUNNING"
    and m: "MbQ m \<in> S" and f: "mb_empty (mbs k m)" "time \<noteq> 0" and n: "rt_interrupt_nest k = 0"
  shows "\<exists>k' d'. mb_recv_round m c time d (irq k) (k\<lparr>irq := False\<rparr>) =
      Inr (if \<exists>p<32. q (Ready p) \<noteq> [] then Leaves (Blocked c (time, d'), None) else Repeats (time, d'), k') \<and>
    blocked_on S L q (MbQ m) c (Some time) k k'"
proof -
  obtain k' where r: "rt_schedule (ipc_suspend (MbQ m) c (Some time) (upd_tcb c (\<lambda>b. b\<lparr>error := RT_EOK\<rparr>) k)) = Inr k'"
      "blocked_on S L q (MbQ m) c (Some time) k k'"
    using block_ipc_inv[OF k c m, of "Some time"] by auto
  have n': "in_thread_context (upd_tcb c (\<lambda>b. b\<lparr>error := RT_EOK\<rparr>) (k\<lparr>irq := False\<rparr>))"
    using n c by (simp add: in_thread_context_def not_in_interrupt_def rt_interrupt_get_nest_def rt_thread_self_def upd_tcb_def)
  let ?d = "sys_tick_get (upd_tcb c (\<lambda>b. b\<lparr>error := RT_EOK\<rparr>) (k\<lparr>irq := False\<rparr>))"
  have "mb_recv_round m c time d (irq k) (k\<lparr>irq := False\<rparr>) =
      Inr (if on_cpu c k' then Repeats (time, ?d) else Leaves (Blocked c (time, ?d), None), k')"
    using r f n' block_irq[OF c(2), of "MbQ m" "Some time"] by (simp add: mb_recv_round_def irq_defs Let_def word_gt_0)
  then show ?thesis using r(2) blocked_cpu[OF k n r(2)] by (intro exI[of _ k'] exI[of _ ?d]) auto
qed

lemma mb_send_blocks:
  assumes k: "ipc_inv S L q k" and c: "rt_current_thread k = Some c" "statu_of k c = RT_THREAD_RUNNING"
    and m: "MbQ m \<in> S" and f: "mb_full (mbs k m)" "time \<noteq> 0" and n: "rt_interrupt_nest k = 0" and w: "\<exists>p<32. q (Ready p) \<noteq> []"
  shows "\<exists>k' d. rt_mb_send_wait m v time k = Some (Inr (Blocked c (time, d), k')) \<and>
    blocked_on S L q (MbSendQ m) c (if time > 0 then Some (word_of_int time) else None) k k'"
proof -
  obtain k' d where "mb_send_round m v c time 0 (irq k) (k\<lparr>irq := False\<rparr>) = Inr (Leaves (Blocked c (time, d)), k')"
      "blocked_on S L q (MbSendQ m) c (if time > 0 then Some (word_of_int time) else None) k k'"
    using send_round_waits[OF k c m f n, of v 0] w by auto
  then show ?thesis using c f by (auto simp: rt_mb_send_wait_def mb_send_loop.simps irq_defs rt_thread_self_def)
qed

lemma mb_recv_blocks:
  assumes k: "ipc_inv S L q k" and c: "rt_current_thread k = Some c" "statu_of k c = RT_THREAD_RUNNING"
    and m: "MbQ m \<in> S" and f: "mb_empty (mbs k m)" "time \<noteq> 0" and n: "rt_interrupt_nest k = 0" and w: "\<exists>p<32. q (Ready p) \<noteq> []"
  shows "\<exists>k' d. rt_mb_recv m time k = Some (Inr ((Blocked c (time, d), None), k')) \<and>
    blocked_on S L q (MbQ m) c (Some time) k k'"
proof -
  obtain k' d where "mb_recv_round m c time 0 (irq k) (k\<lparr>irq := False\<rparr>) = Inr (Leaves (Blocked c (time, d), None), k')"
      "blocked_on S L q (MbQ m) c (Some time) k k'"
    using recv_round_waits[OF k c m f n, of 0] w by auto
  then show ?thesis using c f by (auto simp: rt_mb_recv_def mb_recv_loop.simps irq_defs rt_thread_self_def)
qed

end
