(* ===== verification/Cstring.thy ===== *)
theory Cstring
  imports Prelude
begin

text \<open>
  The string functions that only read their arguments (\<^verbatim>\<open>src/libc\<close> and
  \<^verbatim>\<open>src/os/common_fun.c\<close>). A C string is the list of its bytes before the terminating NUL,
  so \<open>cstring\<close> lists have no zero byte; a pointer into a string is the suffix that starts
  there, and \<open>None\<close> is the null pointer. Reading \<^verbatim>\<open>*p\<close> at the end of the list gives the
  terminator.
\<close>

type_synonym cstring = "u8 list"

definition cstring_ok :: "cstring \<Rightarrow> bool" where
  "cstring_ok s \<longleftrightarrow> 0 \<notin> set s"

fun at :: "cstring \<Rightarrow> u8" where
  "at [] = 0"
| "at (c # _) = c"

text \<open>A byte as a plain \<^verbatim>\<open>char\<close>, which is signed on this target.\<close>

definition schar :: "u8 \<Rightarrow> int" where
  "schar c = sint c"

definition chr :: "char \<Rightarrow> u8" where
  "chr c = of_nat (of_char c)"

section \<open>Length, comparison and search\<close>

fun strlen :: "cstring \<Rightarrow> nat" where
  "strlen [] = 0"
| "strlen (_ # p) = Suc (strlen p)"

fun strcmp :: "cstring \<Rightarrow> cstring \<Rightarrow> int" where
  "strcmp s1 s2 =
    (if at s1 = at s2 then
       (case s1 of [] \<Rightarrow> 0 | c # s1' \<Rightarrow> if c = 0 then 0 else strcmp s1' (tl s2))
     else uint (at s1) - uint (at s2))"

fun strchr :: "cstring \<Rightarrow> int \<Rightarrow> cstring option" where
  "strchr [] c = None"
| "strchr (x # p) c = (if schar x = c then Some (x # p) else strchr p c)"

fun strindex :: "cstring \<Rightarrow> int \<Rightarrow> cstring option" where
  "strindex [] c = None"
| "strindex (x # p) c = (if schar x = c then Some (x # p) else strindex p c)"

fun strpbrk :: "cstring \<Rightarrow> cstring \<Rightarrow> cstring option" where
  "strpbrk [] s2 = None"
| "strpbrk (x # s1) s2 = (if strchr s2 (schar x) \<noteq> None then Some (x # s1) else strpbrk s1 s2)"

fun cspn_inner :: "cstring \<Rightarrow> u8 \<Rightarrow> bool" where
  "cspn_inner [] c \<longleftrightarrow> False"
| "cspn_inner (x # s) c \<longleftrightarrow> (if x = c then True else cspn_inner s c)"

fun strcspn :: "cstring \<Rightarrow> cstring \<Rightarrow> nat" where
  "strcspn [] s = 0"
| "strcspn (c # p) s = (if cspn_inner s c then 0 else Suc (strcspn p s))"

text \<open>The inner loop of \<^verbatim>\<open>strstr\<close> and \<^verbatim>\<open>strposn\<close>: what is left of \<open>s\<close> when it stops.\<close>

fun match_tail :: "cstring \<Rightarrow> cstring \<Rightarrow> cstring" where
  "match_tail [] s = s"
| "match_tail (x # t) [] = []"
| "match_tail (x # t) (y # s) = (if x \<noteq> y then y # s else match_tail t s)"

fun strstr_loop :: "cstring \<Rightarrow> cstring \<Rightarrow> cstring option" where
  "strstr_loop [] q = None"
| "strstr_loop (x # p) q =
    (if x = at q \<and> match_tail (x # p) q = [] then Some (x # p) else strstr_loop p q)"

definition strstr :: "cstring option \<Rightarrow> cstring option \<Rightarrow> cstring option" where
  "strstr p q =
    (case (p, q) of
       (Some p, Some q) \<Rightarrow> if at q = 0 then Some p else strstr_loop p q
     | _ \<Rightarrow> None)"

definition strposn :: "cstring option \<Rightarrow> cstring option \<Rightarrow> cstring option" where
  "strposn p q =
    (case (p, q) of
       (Some p, Some q) \<Rightarrow> if at q = 0 then Some (drop (strlen p) p) else strstr_loop p q
     | _ \<Rightarrow> None)"

text \<open>\<^verbatim>\<open>__res\<close> is a signed byte: the difference of two chars is truncated to it.\<close>

fun strncmp_loop :: "nat \<Rightarrow> cstring \<Rightarrow> cstring \<Rightarrow> u8 \<Rightarrow> u8" where
  "strncmp_loop 0 cs ct res = res"
| "strncmp_loop (Suc n) cs ct res =
    (let res = at cs - at ct in
     if res \<noteq> 0 \<or> at cs = 0 then res else strncmp_loop n (tl cs) (tl ct) res)"

definition strncmp :: "cstring \<Rightarrow> cstring \<Rightarrow> nat \<Rightarrow> int" where
  "strncmp cs ct count = schar (strncmp_loop count cs ct 0)"

fun str_common :: "cstring \<Rightarrow> cstring \<Rightarrow> nat" where
  "str_common (x # s) (y # t) = (if x = y then Suc (str_common s t) else 0)"
| "str_common _ _ = 0"

definition striequ :: "cstring \<Rightarrow> cstring \<Rightarrow> bool" where
  "striequ s1 s2 \<longleftrightarrow> strlen s1 = strlen s2 \<and> strcmp s1 s2 = 0"

fun strbequ_loop :: "cstring \<Rightarrow> cstring \<Rightarrow> bool" where
  "strbequ_loop (x # s1) (y # s2) = (if x \<noteq> y then False else strbequ_loop s1 s2)"
| "strbequ_loop _ s2 = (at s2 = 0)"

definition strbequ :: "cstring option \<Rightarrow> cstring option \<Rightarrow> bool" where
  "strbequ s1 s2 = (case (s1, s2) of (Some s1, Some s2) \<Rightarrow> strbequ_loop s1 s2 | _ \<Rightarrow> False)"

section \<open>What they compute\<close>

lemma strlen_length: "strlen s = length s"
  by (induction s) auto

declare strcmp.simps [simp del]

lemma strcmp_Nil [simp]: "strcmp [] [] = 0"
  by (simp add: strcmp.simps)

lemma strcmp_Cons [simp]: "c \<noteq> 0 \<Longrightarrow> strcmp (c # s) (c # t) = strcmp s t"
  by (subst strcmp.simps) simp

lemma strcmp_eq:
  assumes "cstring_ok s" "cstring_ok t"
  shows "strcmp s t = 0 \<longleftrightarrow> s = t"
  using assms
proof (induction s arbitrary: t)
  case Nil
  then show ?case by (cases t) (auto simp: strcmp.simps cstring_ok_def uint_0_iff)
next
  case (Cons c s)
  then have c: "c \<noteq> 0" "cstring_ok s" by (auto simp: cstring_ok_def)
  show ?case
  proof (cases t)
    case Nil
    then show ?thesis using c by (subst strcmp.simps) (simp add: uint_0_iff)
  next
    case t: (Cons d t')
    then have d: "cstring_ok t'" using Cons.prems by (auto simp: cstring_ok_def)
    show ?thesis
    proof (cases "c = d")
      case True
      then show ?thesis using Cons.IH[OF c(2) d] c t by simp
    next
      case False
      then show ?thesis using t by (subst strcmp.simps) (simp add: word_uint_eq_iff)
    qed
  qed
qed

lemma striequ_eq: "cstring_ok s \<Longrightarrow> cstring_ok t \<Longrightarrow> striequ s t \<longleftrightarrow> s = t"
  using strcmp_eq[of s t] by (auto simp: striequ_def)

lemma cspn_inner_mem: "cspn_inner s c \<longleftrightarrow> c \<in> set s"
  by (induction s) auto

lemma strcspn_takeWhile: "strcspn p s = length (takeWhile (\<lambda>c. c \<notin> set s) p)"
  by (induction p) (auto simp: cspn_inner_mem)

lemma schar_inj: "schar x = schar y \<longleftrightarrow> x = y"
  unfolding schar_def by (auto intro: signed_word_eqI)

lemma strncmp_zero:
  assumes "cstring_ok s" "cstring_ok t"
  shows "strncmp s t n = 0 \<longleftrightarrow> take n s = take n t"
proof -
  have "strncmp_loop n s t 0 = 0 \<longleftrightarrow> take n s = take n t"
    using assms
  proof (induction n arbitrary: s t)
    case (Suc n)
    then show ?case by (cases s; cases t) (auto simp: Let_def cstring_ok_def)
  qed simp
  then show ?thesis using schar_inj[of _ 0] by (simp add: strncmp_def schar_def)
qed

lemma strchr_dropWhile: "strchr p (schar c) = (if c \<in> set p then Some (dropWhile (\<lambda>x. x \<noteq> c) p) else None)"
  by (induction p) (auto simp: schar_inj)

lemma match_tail_prefix: "match_tail t s = [] \<longleftrightarrow> (\<exists>u. t = s @ u)"
  by (induction t s rule: match_tail.induct) auto

lemma strstr_loop_some:
  "strstr_loop p q = Some r \<Longrightarrow> q \<noteq> [] \<Longrightarrow> (\<exists>pre u. p = pre @ r \<and> r = q @ u \<and>
     (\<forall>pre' u'. p = pre' @ q @ u' \<longrightarrow> length pre \<le> length pre'))"
proof (induction p)
  case (Cons x p)
  show ?case
  proof (cases "x = at q \<and> match_tail (x # p) q = []")
    case True
    then obtain u where "x # p = q @ u" using match_tail_prefix by blast
    moreover have "r = x # p" using True Cons.prems(1) by auto
    ultimately show ?thesis by (intro exI[of _ "[]"] exI[of _ u]) auto
  next
    case False
    then have "strstr_loop p q = Some r" using Cons.prems(1) by (auto split: if_splits)
    then obtain pre u where r: "p = pre @ r" "r = q @ u"
        "\<forall>pre' u'. p = pre' @ q @ u' \<longrightarrow> length pre \<le> length pre'"
      using Cons.IH Cons.prems(2) by blast
    have "length (x # pre) \<le> length pre'" if "x # p = pre' @ q @ u'" for pre' u'
    proof (cases pre')
      case Nil
      then have "x = at q" "match_tail (x # p) q = []"
        using that Cons.prems(2) match_tail_prefix[of "x # p" q] by (cases q; auto)+
      then show ?thesis using False by blast
    next
      case (Cons y ys)
      then show ?thesis using r(3) that by auto
    qed
    then show ?thesis using r by (intro exI[of _ "x # pre"] exI[of _ u]) auto
  qed
qed simp

lemma strstr_loop_none:
  "strstr_loop p q = None \<Longrightarrow> q \<noteq> [] \<Longrightarrow> p \<noteq> pre @ q @ u"
proof (induction p arbitrary: pre)
  case (Cons x p)
  show ?case
  proof
    assume e: "x # p = pre @ q @ u"
    show False
    proof (cases pre)
      case Nil
      then have "match_tail (x # p) q = []" "x = at q"
        using e Cons.prems(2) match_tail_prefix[of "x # p" q] by (cases q; auto)+
      then show ?thesis using Cons.prems(1) by simp
    next
      case (Cons y ys)
      then show ?thesis using Cons.IH[of ys] Cons.prems e by (auto split: if_splits)
    qed
  qed
qed simp

end
