(* ===== verification/Threads.thy ===== *)
theory Threads
  imports Ipc_Inv Cstring
begin

unbundle bit_operations_syntax

text \<open>
  The life of a thread in \<^verbatim>\<open>src/os/thread.c\<close>: the initial register frame on its stack,
  creation by \<^verbatim>\<open>thread_join_init\<close>, the start of the first thread, ending another thread by
  number (\<^verbatim>\<open>killThreadFun\<close>) and the removal of closed threads by the idle thread. The two
  calls of \<^verbatim>\<open>malloc\<close> enter as the pointers they returned, \<^verbatim>\<open>free\<close> as the list of pointers
  that were freed.
\<close>

section \<open>The register frame\<close>

text \<open>
  The stores of \<^verbatim>\<open>rt_hw_stack_init\<close> in program order: index of the register in
  \<^verbatim>\<open>struct threadframe\<close> (38 words, \<^verbatim>\<open>zero\<close> first, \<^verbatim>\<open>pc\<close> last) and value. The result is the
  address of the frame.
\<close>

definition frame_words :: u32 where
  "frame_words = 38"

definition frame_layout :: "u32 \<Rightarrow> u32 \<Rightarrow> u32 \<Rightarrow> u32 \<Rightarrow> u32 \<Rightarrow> u32 \<Rightarrow> (nat \<times> u32) list" where
  "frame_layout tentry param stack_top texit sr gp =
    [(37, tentry), (36, 0), (35, 0), (33, 0), (34, 0), (32, sr), (31, texit), (30, 0),
     (29, stack_top), (28, gp), (27, 0), (26, 0), (25, 0), (24, 0),
     (23, 0), (22, 0), (21, 0), (20, 0), (19, 0), (18, 0), (17, 0), (16, 0),
     (15, 0), (14, 0), (13, 0), (12, 0), (11, 0), (10, 0), (9, 0), (8, 0),
     (7, 0), (6, 0), (5, 0), (4, param), (3, 0), (2, 0), (1, 0), (0, 0)]"

definition rt_hw_stack_init ::
  "u32 \<Rightarrow> u32 \<Rightarrow> u32 \<Rightarrow> u32 \<Rightarrow> u32 \<Rightarrow> u32 \<Rightarrow> u32 \<times> (u32 \<times> u32) list" where
  "rt_hw_stack_init tentry param stack_top texit sr gp =
    (let tf = stack_top - 4 * frame_words
     in (tf, map (\<lambda>(i, v). (tf + 4 * of_nat i, v)) (frame_layout tentry param stack_top texit sr gp)))"

text \<open>
  What \<^verbatim>\<open>RESTORE_ALL_AND_RET\<close> reads from such a frame: \<^verbatim>\<open>PT_R29\<close> is word 29 and \<^verbatim>\<open>PT_STATUS\<close> word
  32, whose lowest bit enables interrupts.
\<close>

definition initial_frame :: "(nat \<times> u32) list \<Rightarrow> frame" where
  "initial_frame ws = \<lparr>pt_r29 = the (map_of ws 29), pt_status = bit (the (map_of ws 32)) 0, pt_epc = Elsewhere\<rparr>"

text \<open>The static status and global pointer values, read once.\<close>

definition frame_statics :: "u32 \<Rightarrow> u32 \<Rightarrow> u32 \<Rightarrow> u32 \<Rightarrow> u32 \<times> u32" where
  "frame_statics g_sr g_gp c0_status gp =
    (if g_sr = 0 then ((c0_status AND 0xfffffffe) OR 0x8401, gp) else (g_sr, g_gp))"

text \<open>The byte at an address after a list of little-endian word stores.\<close>

fun store_byte :: "(u32 \<times> u32) list \<Rightarrow> u32 \<Rightarrow> u8 \<Rightarrow> u8" where
  "store_byte [] x b = b"
| "store_byte ((a, w) # st) x b =
    store_byte st x (if x - a < 4 then ucast (drop_bit (8 * unat (x - a)) w) else b)"

section \<open>Creation\<close>

record thread_statics =
  threadIdIndex :: u32
  g_sr :: u32
  g_gp :: u32

record machine =
  malloc_tcb :: "tid option"
  malloc_stack :: "u32 option"
  exit_addr :: u32
  c0_status :: u32
  gp_reg :: u32

definition RT_NAME_MAX :: nat where "RT_NAME_MAX = 24"

definition new_tcb ::
  "cstring \<Rightarrow> u32 \<Rightarrow> int \<Rightarrow> int \<Rightarrow> u32 \<Rightarrow> u32 \<Rightarrow> int \<Rightarrow> rt_thread" where
  "new_tcb thread_name_arg userdata stackSize runtick ident addr priority =
    \<lparr>thread_name = (if strlen thread_name_arg > RT_NAME_MAX - 1
                     then take (RT_NAME_MAX - 1) thread_name_arg else thread_name_arg),
     thread_id = ident,
     current_priority = word_of_int priority, init_priority = word_of_int priority,
     init_tick = word_of_int runtick, remaining_tick = word_of_int runtick,
     number_mask = 0, parameter = userdata, statu = RT_THREAD_INIT, sp = 0,
     stack_addr = addr, stack_size = word_of_int stackSize, stack_low = 0x23, error = 0,
     thread_timer = \<lparr>timer_active = False, timer_init_tick = 0, timeout_tick = 0\<rparr>\<rparr>"

definition thread_join_init ::
  "cstring \<Rightarrow> u32 \<Rightarrow> u32 \<Rightarrow> int \<Rightarrow> int \<Rightarrow> int \<Rightarrow> machine \<Rightarrow> thread_statics \<Rightarrow> 'z kernel_scheme \<Rightarrow>
    tid option \<times> thread_statics \<times> 'z kernel_scheme" where
  "thread_join_init name fn userdata stackSize priority runtick m st k =
    (let running = (rt_current_thread k \<noteq> None);
         level = irq k;
         k = (if running then snd (rt_hw_interrupt_disable k) else k) in
     if priority > 32 - 1 then (None, st, k)
     else case malloc_tcb m of
       None \<Rightarrow> (None, st, k)
     | Some t \<Rightarrow>
       if stackSize = 0 then (None, st, k)
       else case malloc_stack m of
         None \<Rightarrow> (None, st, k)
       | Some addr \<Rightarrow>
         let k = upd_tcb t (\<lambda>_. new_tcb name userdata stackSize runtick (threadIdIndex st) addr priority) k;
             st = st\<lparr>threadIdIndex := threadIdIndex st + 1\<rparr>;
             k = rt_timer_init t 0 k;
             k = upd_links (rt_list_init (TList t)) k;
             k = upd_links (rt_list_init (AllList t)) k;
             k = upd_links (rt_list_insert_after All_threads (AllList t)) k;
             k = upd_tcb t (\<lambda>b. b\<lparr>number_mask := push_bit (unat (current_priority b) mod 32) 1\<rparr>) k;
             stack_top = addr + word_of_int stackSize - 4;
             (sr, gp) = frame_statics (g_sr st) (g_gp st) (c0_status m) (gp_reg m);
             st = st\<lparr>g_sr := sr, g_gp := gp\<rparr>;
             (tf, stores) = rt_hw_stack_init fn userdata stack_top (exit_addr m) sr gp;
             k = k\<lparr>frames := (frames k)(t := initial_frame (frame_layout fn userdata stack_top (exit_addr m) sr gp))\<rparr>;
             k = upd_tcb t (\<lambda>b. b\<lparr>sp := tf, stack_low := store_byte stores addr (stack_low b)\<rparr>) k;
             k = set_statu t RT_THREAD_READY k;
             k = k\<lparr>rt_thread_ready_priority_group :=
                     rt_thread_ready_priority_group k OR number_mask (tcb k t)\<rparr>;
             k = upd_links (rt_list_insert_before (Ready (prio_of k t)) (TList t)) k;
             k = (if running then rt_hw_interrupt_enable level k else k)
         in (Some t, st, k))"

section \<open>Finding and killing\<close>

fun all_entry :: "node \<Rightarrow> tid option" where
  "all_entry (AllList t) = Some t"
| "all_entry _ = None"

partial_function (option) find_walk ::
  "node \<Rightarrow> u32 \<Rightarrow> 'z kernel_scheme \<Rightarrow> (halt + tid option) option" where
  "find_walk pos ident k =
    (if pos = All_threads then Some (Inr None)
     else case all_entry pos of
       None \<Rightarrow> Some (Inl Bad_list)
     | Some t \<Rightarrow> if thread_id (tcb k t) = ident then Some (Inr (Some t))
                 else find_walk (lnext (links k) pos) ident k)"

definition find_thread_by_id :: "u32 \<Rightarrow> 'z kernel_scheme \<Rightarrow> (halt + tid option) option" where
  "find_thread_by_id ident k = find_walk (lnext (links k) All_threads) ident k"

definition idle_name :: cstring where
  "idle_name = map chr ''idle''"

definition shell_name :: cstring where
  "shell_name = map chr ''shell''"

definition killThreadFun :: "u32 \<Rightarrow> 'z kernel_scheme \<Rightarrow> (halt + 'z kernel_scheme) option" where
  "killThreadFun ident k =
    (let (temp, k) = rt_hw_interrupt_disable k in
     case find_thread_by_id ident k of
       None \<Rightarrow> None
     | Some (Inl e) \<Rightarrow> Some (Inl e)
     | Some (Inr None) \<Rightarrow> Some (Inr (rt_hw_interrupt_enable temp k))
     | Some (Inr (Some t)) \<Rightarrow>
       if \<not> striequ idle_name (thread_name (tcb k t)) \<and> \<not> striequ shell_name (thread_name (tcb k t)) then
         let k = close_thread t k in
         if Some t = rt_current_thread k then
           (case rt_schedule k of
              Inl e \<Rightarrow> Some (Inl e)
            | Inr k \<Rightarrow> Some (Inr (if on_cpu t k then rt_hw_interrupt_enable temp k else k)))
         else Some (Inr (rt_hw_interrupt_enable temp k))
       else Some (Inr (rt_hw_interrupt_enable temp k)))"

section \<open>The idle thread\<close>

text \<open>The cleaning loop; the last argument collects what is freed, newest first.\<close>

partial_function (option) idle_walk ::
  "node \<Rightarrow> node \<Rightarrow> (u32 \<times> tid) list \<Rightarrow> 'z kernel_scheme \<Rightarrow> (halt + (u32 \<times> tid) list \<times> 'z kernel_scheme) option" where
  "idle_walk pos nxt freed k =
    (if pos = Dead then Some (Inr (freed, k))
     else case thread_entry pos of
       None \<Rightarrow> Some (Inl Bad_list)
     | Some t \<Rightarrow>
       let k = upd_links (rt_list_remove (TList t)) k;
           k = upd_links (rt_list_remove (AllList t)) k;
           freed = (if statu_of k t = RT_THREAD_CLOSE then (stack_addr (tcb k t), t) # freed else freed)
       in idle_walk nxt (lnext (links k) nxt) freed k)"

definition idle_round :: "'z kernel_scheme \<Rightarrow> (halt + (u32 \<times> tid) list \<times> 'z kernel_scheme) option" where
  "idle_round k =
    (if \<not> rt_list_isempty Dead (links k) then
       let (temp, k) = rt_hw_interrupt_disable k;
           pos = lnext (links k) Dead
       in (case idle_walk pos (lnext (links k) pos) [] k of
             None \<Rightarrow> None
           | Some (Inl e) \<Rightarrow> Some (Inl e)
           | Some (Inr (freed, k)) \<Rightarrow> Some (Inr (freed, rt_hw_interrupt_enable temp k)))
     else
       (case rt_thread_delay 1000 k of
          Inl e \<Rightarrow> Some (Inl e)
        | Inr k \<Rightarrow> Some (Inr ([], k))))"

end
