(* ===== verification/Thread_Inv.thy ===== *)
theory Thread_Inv
  imports Threads
begin

unbundle bit_operations_syntax

text \<open>
  Creation, start and removal of threads on the kernel invariant. A created thread enters the
  set \<open>L\<close> of known threads at the tail of its ready queue with a register frame that passes
  the scheduler's stack check; the idle thread's loop takes every closed thread off the dead
  list and the list of all threads and frees its stack and control block once.
\<close>

section \<open>The stack of a new thread\<close>

lemma store_byte_untouched: "\<forall>(a, w)\<in>set st. \<not> x - a < 4 \<Longrightarrow> store_byte st x b = b"
  by (induction st x b rule: store_byte.induct) auto

lemma neg_small:
  assumes "4 \<le> m" "m \<le> 2 ^ 32 - 4"
  shows "\<not> - (of_nat m :: u32) < 4"
proof -
  have "(of_nat (2 ^ 32 - m) :: u32) = of_nat (2 ^ 32) - of_nat m"
    using assms by (intro of_nat_diff) simp
  then have "- (of_nat m :: u32) = of_nat (2 ^ 32 - m)" by simp
  moreover have u: "unat (of_nat k :: u32) = k" if "k < 2 ^ 32" for k
    using that by (simp add: unsigned_of_nat take_bit_nat_eq_self)
  have "unat (of_nat (2 ^ 32 - m) :: u32) = 2 ^ 32 - m" by (rule u) (use assms in simp)
  ultimately have "unat (- of_nat m :: u32) = 2 ^ 32 - m" by metis
  then show ?thesis using assms by (simp add: word_less_nat_alt)
qed

text \<open>Every word of the frame lies at or above \<open>addr + 4\<close> and below \<open>stack_top\<close>.\<close>

lemma frame_layout_index: "\<forall>(i, v)\<in>set (frame_layout fn ud tp ex sr gp). i < 38"
  by (simp add: frame_layout_def)

lemma frame_above:
  assumes n: "160 \<le> n" "n < 2 ^ 32"
    and s: "(a, w) \<in> set (snd (rt_hw_stack_init fn ud (addr + of_nat n - 4) ex sr gp))"
  shows "\<not> addr - a < 4"
proof -
  obtain i where i: "i < 38" "a = addr + of_nat n - 4 - 4 * frame_words + 4 * of_nat i"
  proof -
    let ?l = "frame_layout fn ud (addr + of_nat n - 4) ex sr gp"
    obtain i where "(i, w) \<in> set ?l" "a = addr + of_nat n - 4 - 4 * frame_words + 4 * of_nat i"
      using s by (auto simp: rt_hw_stack_init_def Let_def)
    moreover from this(1) have "i < 38" using frame_layout_index[of fn ud "addr + of_nat n - 4" ex sr gp] by blast
    ultimately show ?thesis using that by blast
  qed
  have "addr - a = - (of_nat n - 156 + 4 * of_nat i)" by (simp add: i(2) frame_words_def)
  also have "\<dots> = - of_nat (n - 156 + 4 * i)" using n by (simp add: of_nat_diff)
  finally show ?thesis using neg_small[of "n - 156 + 4 * i"] n i(1) by simp
qed

lemma frame_sp: "fst (rt_hw_stack_init fn ud tp ex sr gp) = tp - 152"
  by (simp add: rt_hw_stack_init_def frame_words_def Let_def)

section \<open>New nodes and headers\<close>

lemma dq_new_member:
  assumes q: "disjoint_queues dll H N q s" and n: "n \<notin> H" "n \<notin> N"
  shows "disjoint_queues dll H (insert n N) q (rt_list_init n s)"
proof -
  have fr: "dll (rt_list_init n s) l (q l) = dll s l (q l)" if "l \<in> H" for l
    using q n that unfolding disjoint_queues_def by (intro dll_frame_init) auto
  have "dll (rt_list_init n s) m [] = dll s m []" if "m \<in> N" for m
    using n that by (intro dll_frame_init) auto
  then show ?thesis using q fr n dll_init[of n s] unfolding disjoint_queues_def by auto
qed

lemma dq_new_header:
  assumes q: "disjoint_queues dll H N q s" and l: "l \<notin> H" "l \<notin> N"
  shows "disjoint_queues dll (insert l H) N (q(l := [])) (rt_list_init l s)"
proof -
  have fr: "dll (rt_list_init l s) m (q m) = dll s m (q m)" if "m \<in> H" for m
    using q l that unfolding disjoint_queues_def by (intro dll_frame_init) auto
  have fr': "dll (rt_list_init l s) m [] = dll s m []" if "m \<in> N" for m
    using l that by (intro dll_frame_init) auto
  have ne: "m \<noteq> l" if "m \<in> H" for m using l that by blast
  show ?thesis using q fr fr' l ne dll_init[of l s] unfolding disjoint_queues_def by (simp add: ball_simps)
qed

lemma members_insert: "members (insert t L) = insert (AllList t) (insert (TList t) (insert (TimerNode t) (members L)))"
  by (auto simp: members_def)

lemma queue_subset: "kinv E S L q k \<Longrightarrow> l \<in> headers S \<Longrightarrow> set (q l) \<subseteq> members L"
  using kinv_queues[of E S L q k] unfolding disjoint_queues_def by simp

lemma new_nodes_out:
  assumes "kinv E S L q k" "t \<notin> L" "l \<in> headers S"
  shows "TList t \<notin> set (q l)" "TimerNode t \<notin> set (q l)" "AllList t \<notin> set (q l)"
  using queue_subset[OF assms(1,3)] assms(2) by (auto simp: members_def)

definition new_node_links :: "tid \<Rightarrow> node links \<Rightarrow> node links" where
  "new_node_links t h = rt_list_init (AllList t) (rt_list_init (TList t) (rt_list_init (TimerNode t) h))"

lemma kinv_new_thread:
  assumes k: "kinv {} S L q k" and t: "t \<notin> L" and b: "unat (current_priority b) < 32"
      "number_mask b = 2 ^ unat (current_priority b)" "\<not> timer_active (thread_timer b)"
  shows "kinv {t} S (insert t L) q (upd_links (new_node_links t) (upd_tcb t (\<lambda>_. b) k))" (is "kinv _ _ _ _ ?k")
proof (rule kinvI)
  have dq: "disjoint_queues dll (headers S) (insert (AllList t) (insert (TList t) (insert (TimerNode t) (members L))))
      q (new_node_links t (links k))"
    unfolding new_node_links_def
    by (intro dq_new_member kinv_queues[OF k]) (use t in \<open>auto simp: members_def\<close>)
  then show "disjoint_queues dll (headers S) (members (insert t L)) q (links ?k)"
    by (simp add: members_insert upd_links_def upd_tcb_def)
  have tcb: "tcb ?k t' = (if t' = t then b else tcb k t')" for t' by (simp add: upd_links_def upd_tcb_def)
  show "t' \<notin> {t} \<and> place ?k l t'" if "TList t' \<in> set (q l)" "l \<in> headers S" for t' l
  proof -
    have "t' \<noteq> t" using new_nodes_out(1)[OF k t that(2)] that(1) by auto
    then show ?thesis using kinv_place[OF k that] place_cong[of ?k t' k l] tcb[of t'] by simp
  qed
  show "TList t' \<in> set (q (Ready (prio_of ?k t')))"
    if "t' \<in> insert t L" "t' \<notin> {t}" "statu_of ?k t' = RT_THREAD_READY" for t'
    using kinv_ready[OF k, of t'] that tcb[of t'] by simp
  show "timer_on ?k t' \<longleftrightarrow> TimerNode t' \<in> set (q Timer_list)" if "t' \<in> insert t L" for t'
    using kinv_timer[OF k, of t'] that b(3) new_nodes_out(2)[OF k t, of Timer_list] tcb[of t'] by auto
  show "rt_current_thread ?k = Some c \<Longrightarrow> c \<in> insert t L \<and> (c \<notin> {t} \<longrightarrow> statu_of ?k c \<noteq> RT_THREAD_READY)" for c
    using kinv_current[OF k, of c] kinv_current_statu[OF k, of c] tcb[of c] by (auto simp: upd_links_def upd_tcb_def)
qed (use b kinv_prio[OF k] kinv_mask[OF k] kinv_timer_only[OF k] kinv_all_only[OF k] kinv_group[OF k]
  in \<open>auto simp: upd_links_def upd_tcb_def\<close>)

lemma kinv_insert_all:
  assumes k: "kinv E S L q k" and t: "t \<in> L" "AllList t \<notin> set (q All_threads)"
  shows "kinv E S L (q(All_threads := AllList t # q All_threads))
    (upd_links (rt_list_insert_after All_threads (AllList t)) k)" (is "kinv _ _ _ ?q ?k")
proof (rule kinvI)
  have "\<forall>m\<in>headers S. AllList t \<notin> set (q m)" using kinv_all_only[OF k, of t] t(2) by auto
  then show "disjoint_queues dll (headers S) (members L) ?q (links ?k)"
    using rtl.queues_front[OF kinv_queues[OF k], of All_threads "AllList t"] t by (simp add: upd_links_def)
  show "t' \<notin> E \<and> place ?k l t'" if "TList t' \<in> set (?q l)" "l \<in> headers S" for t' l
    using kinv_place[OF k, of t' l] that place_cong[of ?k t' k l] by (auto simp: upd_links_def split: if_splits)
  show "AllList t' \<in> set (?q l) \<Longrightarrow> l \<in> headers S \<Longrightarrow> l = All_threads" for t' l
    using kinv_all_only[OF k, of t' l] by (auto split: if_splits)
  show "TimerNode t' \<in> set (?q l) \<Longrightarrow> l \<in> headers S \<Longrightarrow> l = Timer_list" for t' l
    using kinv_timer_only[OF k, of t' l] by (auto split: if_splits)
qed (use kinv_prio[OF k] kinv_mask[OF k] kinv_group[OF k] kinv_ready[OF k] kinv_timer[OF k]
    kinv_current[OF k] kinv_current_statu[OF k] in \<open>auto simp: upd_links_def\<close>)

section \<open>Creation\<close>

definition join_queue :: "tid \<Rightarrow> nat \<Rightarrow> (node \<Rightarrow> node list) \<Rightarrow> node \<Rightarrow> node list" where
  "join_queue t p q = q(All_threads := AllList t # q All_threads, Ready p := q (Ready p) @ [TList t])"

definition join_tcb ::
  "cstring \<Rightarrow> u32 \<Rightarrow> u32 \<Rightarrow> int \<Rightarrow> int \<Rightarrow> int \<Rightarrow> machine \<Rightarrow> thread_statics \<Rightarrow> u32 \<Rightarrow> rt_thread" where
  "join_tcb name fn ud n prio run m st addr =
    (let b = new_tcb name ud n run (threadIdIndex st) addr prio;
         (sr, gp) = frame_statics (g_sr st) (g_gp st) (c0_status m) (gp_reg m);
         (tf, stores) = rt_hw_stack_init fn ud (addr + word_of_int n - 4) (exit_addr m) sr gp
     in b\<lparr>number_mask := push_bit (unat (current_priority b) mod 32) 1, statu := RT_THREAD_READY,
          sp := tf, stack_low := store_byte stores addr 0x23\<rparr>)"

lemma join_tcb_fields:
  assumes p: "0 \<le> prio" "prio < 32"
  shows "unat (current_priority (join_tcb name fn ud n prio run m st addr)) = nat prio"
    "number_mask (join_tcb name fn ud n prio run m st addr) = 2 ^ nat prio"
    "statu (join_tcb name fn ud n prio run m st addr) = RT_THREAD_READY"
    "\<not> timer_active (thread_timer (join_tcb name fn ud n prio run m st addr))"
proof -
  have "unat (word_of_int prio :: u8) = nat prio"
    using p by (simp add: unat_eq_nat_uint uint_word_of_int)
  moreover from this have "2 ^ (unat (word_of_int prio :: u8) mod 32) = (2 ^ nat prio :: u32)"
    using p by simp
  ultimately show "unat (current_priority (join_tcb name fn ud n prio run m st addr)) = nat prio"
    "number_mask (join_tcb name fn ud n prio run m st addr) = 2 ^ nat prio"
    "statu (join_tcb name fn ud n prio run m st addr) = RT_THREAD_READY"
    "\<not> timer_active (thread_timer (join_tcb name fn ud n prio run m st addr))"
    using p by (simp_all add: join_tcb_def new_tcb_def Let_def split_def push_bit_eq_mult)
qed

definition join_frame :: "u32 \<Rightarrow> u32 \<Rightarrow> int \<Rightarrow> machine \<Rightarrow> thread_statics \<Rightarrow> u32 \<Rightarrow> frame" where
  "join_frame fn ud n m st addr =
    (let (sr, gp) = frame_statics (g_sr st) (g_gp st) (c0_status m) (gp_reg m)
     in initial_frame (frame_layout fn ud (addr + word_of_int n - 4) (exit_addr m) sr gp))"

lemma join_frame_fields:
  "pt_r29 (join_frame fn ud n m st addr) = addr + word_of_int n - 4" "pt_epc (join_frame fn ud n m st addr) = Elsewhere"
  "pt_status (join_frame fn ud n m st addr) = bit (fst (frame_statics (g_sr st) (g_gp st) (c0_status m) (gp_reg m))) 0"
  by (simp_all add: join_frame_def initial_frame_def frame_layout_def split_def)

lemma upd_merge:
  "upd_tcb t f (upd_links g k) = upd_links g (upd_tcb t f k)"
  "upd_tcb t f (upd_tcb t f' k) = upd_tcb t (\<lambda>b. f (f' b)) k"
  "upd_links g (upd_links g' k) = upd_links (\<lambda>h. g (g' h)) k"
  "tcb (upd_links g k) = tcb k" "tcb (upd_tcb t f k) t = f (tcb k t)"
  "upd_links g (k\<lparr>rt_thread_ready_priority_group := w\<rparr>) = (upd_links g k)\<lparr>rt_thread_ready_priority_group := w\<rparr>"
  "rt_thread_ready_priority_group (upd_links g k) = rt_thread_ready_priority_group k"
  "rt_thread_ready_priority_group (upd_tcb t f k) = rt_thread_ready_priority_group k"
  "rt_current_thread (upd_links g k) = rt_current_thread k" "rt_current_thread (upd_tcb t f k) = rt_current_thread k"
  "(upd_links g k)\<lparr>irq := b\<rparr> = upd_links g (k\<lparr>irq := b\<rparr>)" "(upd_tcb t f k)\<lparr>irq := b\<rparr> = upd_tcb t f (k\<lparr>irq := b\<rparr>)"
  "k\<lparr>rt_thread_ready_priority_group := w, irq := b\<rparr> = k\<lparr>irq := b, rt_thread_ready_priority_group := w\<rparr>"
  "k\<lparr>irq := b, irq := b'\<rparr> = k\<lparr>irq := b'\<rparr>" "k\<lparr>irq := irq k\<rparr> = k"
  "links (upd_links g k) = g (links k)" "links (upd_tcb t f k) = links k"
  "(upd_links g k)\<lparr>frames := F\<rparr> = upd_links g (k\<lparr>frames := F\<rparr>)" "(upd_tcb t f k)\<lparr>frames := F\<rparr> = upd_tcb t f (k\<lparr>frames := F\<rparr>)"
  "frames (upd_links g k) = frames k" "frames (upd_tcb t f k) = frames k" "irq (upd_links g k) = irq k" "irq (upd_tcb t f k) = irq k"
  by (simp_all add: upd_tcb_def upd_links_def)

lemma join_state:
  fixes name :: cstring and fn ud :: u32 and run :: int and st :: thread_statics and k :: "'z kernel_scheme"
  assumes "prio < 32" "malloc_tcb m = Some t" "n \<noteq> 0" "malloc_stack m = Some addr"
  defines "b \<equiv> join_tcb name fn ud n prio run m st addr"
  defines "k1 \<equiv> upd_links (rt_list_insert_after All_threads (AllList t))
    (upd_links (new_node_links t) (upd_tcb t (\<lambda>_. b) (k\<lparr>frames := (frames k)(t := join_frame fn ud n m st addr)\<rparr>)))"
  shows "fst (thread_join_init name fn ud n prio run m st k) = Some t"
    "snd (snd (thread_join_init name fn ud n prio run m st k)) =
      (upd_links (rt_list_insert_before (Ready (unat (current_priority b))) (TList t)) k1)
        \<lparr>rt_thread_ready_priority_group := rt_thread_ready_priority_group k OR number_mask b\<rparr>"
proof -
  obtain sr gp where fs: "frame_statics (g_sr st) (g_gp st) (c0_status m) (gp_reg m) = (sr, gp)" by fastforce
  obtain tf stores where hw: "rt_hw_stack_init fn ud (addr + word_of_int n - 4) (exit_addr m) sr gp = (tf, stores)"
    by fastforce
  note sm = thread_join_init_def rt_timer_init_def upd_timer_def set_statu_def irq_defs upd_merge fs hw
    assms(2-4) join_tcb_def new_tcb_def new_node_links_def join_frame_def Let_def
  show "fst (thread_join_init name fn ud n prio run m st k) = Some t"
    using assms(1) by (simp add: sm)
  show "snd (snd (thread_join_init name fn ud n prio run m st k)) =
      (upd_links (rt_list_insert_before (Ready (unat (current_priority b))) (TList t)) k1)
        \<lparr>rt_thread_ready_priority_group := rt_thread_ready_priority_group k OR number_mask b\<rparr>"
    unfolding k1_def b_def using assms(1)
    by (simp add: sm)
qed

lemma join_kinv:
  assumes k: "kinv {} S L q k" and t: "t \<notin> L" and p: "0 \<le> prio" "prio < 32"
    and m: "malloc_tcb m = Some t" "n \<noteq> 0" "malloc_stack m = Some addr"
  shows "kinv {} S (insert t L) (join_queue t (nat prio) q) (snd (snd (thread_join_init name fn ud n prio run m st k)))"
proof -
  let ?b = "join_tcb name fn ud n prio run m st addr" and ?p = "nat prio"
  let ?k0 = "k\<lparr>frames := (frames k)(t := join_frame fn ud n m st addr)\<rparr>"
  let ?k1 = "upd_links (new_node_links t) (upd_tcb t (\<lambda>_. ?b) ?k0)"
  let ?k2 = "upd_links (rt_list_insert_after All_threads (AllList t)) ?k1"
  let ?q1 = "q(All_threads := AllList t # q All_threads)"
  note b = join_tcb_fields[OF p, of name fn ud n run m st addr]
  have p32: "?p < 32" using p by simp
  have k0: "kinv {} S L q ?k0" using k by (simp add: frame_simps)
  have "kinv {t} S (insert t L) q ?k1" by (rule kinv_new_thread[OF k0 t]) (use b p32 in simp_all)
  then have k2: "kinv {t} S (insert t L) ?q1 ?k2"
    using new_nodes_out(3)[OF k t, of All_threads] by (intro kinv_insert_all) auto
  have tcb: "tcb ?k2 t = ?b" "rt_thread_ready_priority_group ?k2 = rt_thread_ready_priority_group k"
      "rt_current_thread ?k2 = rt_current_thread k"
    by (simp_all add: upd_links_def upd_tcb_def)
  have "kinv ({t} - {t}) S (insert t L) (?q1(Ready ?p := q (Ready ?p) @ [TList t]))
      (?k2\<lparr>links := rt_list_insert_before (Ready ?p) (TList t) (links ?k2),
           rt_thread_ready_priority_group := rt_thread_ready_priority_group k OR 2 ^ ?p\<rparr>)"
  proof (rule kinv_enqueue[OF k2])
    show "disjoint_queues dll (headers S) (members (insert t L)) (?q1(Ready ?p := q (Ready ?p) @ [TList t]))
        (rt_list_insert_before (Ready ?p) (TList t) (links ?k2))"
      using rtl.queues_back[OF kinv_queues[OF k2], of "Ready ?p" "TList t"] kinv_out[OF k2, of t] p32 by simp
    show "bit (rt_thread_ready_priority_group k OR 2 ^ ?p) p' \<longleftrightarrow>
        (?q1(Ready ?p := q (Ready ?p) @ [TList t])) (Ready p') \<noteq> []" if "p' < 32" for p'
      using kinv_group[OF k that] p32 by (auto simp: bit_set_mask)
    show "rt_current_thread ?k2 = Some t \<Longrightarrow> statu_of ?k2 t \<noteq> RT_THREAD_READY"
      using kinv_current[OF k] t tcb by auto
  qed (use p32 b tcb in simp_all)
  then show ?thesis using join_state(2)[OF p(2) m, of name fn ud run st k] b
    by (simp add: join_queue_def upd_links_def)
qed

text \<open>A stack of at least 160 bytes that does not wrap around the address space passes the check.\<close>

lemma join_stack_ok:
  assumes n: "160 \<le> n" "uint addr + n < 2 ^ 32"
  shows "let b = join_tcb name fn ud n prio run m st addr in
    stack_low b = 0x23 \<and> \<not> sp b \<le> addr \<and>
    \<not> sp b > addr + stack_size b \<and> stack_addr b = addr \<and> sp b = pt_r29 (join_frame fn ud n m st addr) - PT_SIZE \<and>
    in_stack b (pt_r29 (join_frame fn ud n m st addr))"
proof -
  define w where "w = nat n"
  have iw: "int w = n" using n(1) by (simp add: w_def)
  have "int (unat addr + w) < int (2 ^ 32)" using n(2) iw by simp
  then have w4: "unat addr + w < 2 ^ 32" by (simp only: of_nat_less_iff)
  have "(word_of_int n :: u32) = of_nat w" unfolding iw[symmetric] by simp
  moreover have "160 \<le> w" using n(1) by (simp add: w_def)
  moreover have "w < 2 ^ 32" using w4 by (rule order.strict_trans1[rotated]) simp
  ultimately have w: "160 \<le> w" "w < 2 ^ 32" "(word_of_int n :: u32) = of_nat w" "unat addr + w < 2 ^ 32"
    using w4 by blast+
  obtain sr gp where fs: "frame_statics (g_sr st) (g_gp st) (c0_status m) (gp_reg m) = (sr, gp)" by fastforce
  obtain tf stores where hw: "rt_hw_stack_init fn ud (addr + of_nat w - 4) (exit_addr m) sr gp = (tf, stores)"
    by fastforce
  have "\<forall>(a, v)\<in>set stores. \<not> addr - a < 4"
    using frame_above[OF w(1,2), of _ _ fn ud addr "exit_addr m" sr gp] hw by auto
  then have low: "store_byte stores addr 0x23 = 0x23" by (rule store_byte_untouched)
  have tf: "tf = addr + of_nat (w - 156)"
    using frame_sp[of fn ud "addr + of_nat w - 4" "exit_addr m" sr gp] hw w(1) by (simp add: of_nat_diff)
  have u: "unat (addr + of_nat v) = unat addr + v" if "unat addr + v < 2 ^ 32" for v
    using that by (simp add: unat_word_ariths unsigned_of_nat take_bit_nat_eq_self)
  have "unat tf = unat addr + (w - 156)" unfolding tf by (rule u) (use w in linarith)
  moreover have "unat (addr + of_nat w) = unat addr + w" by (rule u[OF w(4)])
  ultimately have "unat tf = unat addr + (w - 156)" "unat (addr + of_nat w) = unat addr + w" by blast+
  then have "\<not> tf \<le> addr" "\<not> addr + of_nat w < tf"
    using w(1) by (simp_all add: word_le_nat_alt word_less_nat_alt)
  moreover have "in_stack (join_tcb name fn ud n prio run m st addr) (addr + word_of_int n - 4)"
  proof -
    have f: "stack_addr (join_tcb name fn ud n prio run m st addr) = addr" "stack_size (join_tcb name fn ud n prio run m st addr) = of_nat w"
      using w(3) by (simp_all add: join_tcb_def new_tcb_def Let_def split_def)
    have "unat (addr + of_nat (w - 4)) = unat addr + (w - 4)" by (rule u) (use w in linarith)
    moreover have "addr + word_of_int n - 4 = addr + of_nat (w - 4)" using w(1,3) by (simp add: of_nat_diff)
    ultimately have "uint (addr + word_of_int n - 4) = uint addr + (int w - 4)"
      unfolding uint_nat using w(1) by (simp only: of_nat_diff of_nat_add)
    moreover have "uint (of_nat w :: u32) = int w" using w(2) by (simp add: unsigned_of_nat take_bit_nat_eq_self)
    ultimately show ?thesis using w(1) n(2) iw by (simp add: in_stack_def f PT_SIZE_def)
  qed
  ultimately show ?thesis using fs hw low tf w(1,3) join_frame_fields(1)[of fn ud n m st addr]
    by (simp add: join_tcb_def new_tcb_def Let_def of_nat_diff PT_SIZE_def)
qed

lemma join_regs:
  fixes name :: cstring and fn ud :: u32 and run :: int and st :: thread_statics and k :: "'z kernel_scheme"
  assumes "prio < 32" "malloc_tcb m = Some t" "n \<noteq> 0" "malloc_stack m = Some addr"
  defines "k' \<equiv> snd (snd (thread_join_init name fn ud n prio run m st k))"
  shows "frames k' = (frames k)(t := join_frame fn ud n m st addr)" "cpu k' = cpu k" "cpu_sp k' = cpu_sp k"
    "rt_interrupt_nest k' = rt_interrupt_nest k" "rt_thread_switch_interrupt_flag k' = rt_thread_switch_interrupt_flag k"
    "rt_interrupt_from_thread k' = rt_interrupt_from_thread k" "rt_interrupt_to_thread k' = rt_interrupt_to_thread k"
  unfolding k'_def join_state(2)[OF assms(1-4)] by (simp_all add: upd_links_def upd_tcb_def)

lemma join_stacks:
  assumes k: "stacks_ok L k" and t: "t \<notin> L" "cpu k \<noteq> Some t" and p: "0 \<le> prio" "prio < 32"
    and m: "malloc_tcb m = Some t" "malloc_stack m = Some addr" and n: "160 \<le> n" "uint addr + n < 2 ^ 32"
  shows "stacks_ok (insert t L) (snd (snd (thread_join_init name fn ud n prio run m st k)))" (is "stacks_ok _ ?k")
proof -
  let ?b = "join_tcb name fn ud n prio run m st addr"
  have n0: "n \<noteq> 0" using n by simp
  have tcb: "tcb ?k t' = (if t' = t then ?b else tcb k t')" for t'
    using join_state(2)[OF p(2) m(1) n0 m(2), of name fn ud run st k] by (simp add: upd_links_def upd_tcb_def)
  note jr = join_regs[OF p(2) m(1) n0 m(2), of name fn ud run st k]
  note b = join_stack_ok[OF n, of name fn ud prio run m st, unfolded Let_def]
  have "rt_scheduler_stack_check t' ?k \<and> in_stack (tcb ?k t') (user_sp ?k t') \<and>
      (cpu ?k \<noteq> Some t' \<longrightarrow> sp (tcb ?k t') = pt_r29 (frames ?k t') - PT_SIZE)" if "t' \<in> insert t L" for t'
  proof (cases "t' = t")
    case True
    then show ?thesis using b t(2) unfolding rt_scheduler_stack_check_def tcb user_sp_def jr by (simp del: not_le not_less) (metis (full_types))
  next
    case False
    then show ?thesis using stacks_okD[OF k, of t'] that by (auto simp: rt_scheduler_stack_check_def tcb user_sp_def jr split: if_splits)
  qed
  then show ?thesis by (simp add: stacks_ok_def)
qed

lemma join_sys_inv:
  assumes k: "sys_inv S L q k" and t: "t \<notin> L" "cpu k \<noteq> Some t" and p: "0 \<le> prio" "prio < 32"
    and m: "malloc_tcb m = Some t" "malloc_stack m = Some addr" and n: "160 \<le> n" "uint addr + n < 2 ^ 32"
  shows "sys_inv S (insert t L) (join_queue t (nat prio) q) (snd (snd (thread_join_init name fn ud n prio run m st k)))"
proof -
  let ?k = "snd (snd (thread_join_init name fn ud n prio run m st k))"
  let ?b = "join_tcb name fn ud n prio run m st addr"
  have n0: "n \<noteq> 0" using n by simp
  have tcb: "tcb ?k t' = (if t' = t then ?b else tcb k t')" "rt_current_thread ?k = rt_current_thread k" for t'
    using join_state(2)[OF p(2) m(1) n0 m(2), of name fn ud run st k]
    by (simp_all add: upd_links_def upd_tcb_def)
  note jr = join_regs[OF p(2) m(1) n0 m(2), of name fn ud run st k]
  have "kinv {} S (insert t L) (join_queue t (nat prio) q) ?k"
    by (rule join_kinv[OF sys_invD(1)[OF k] t(1) p m(1) n0 m(2)])
  moreover have "stacks_ok (insert t L) ?k" by (rule join_stacks[OF sys_invD(3)[OF k] t p m n])
  moreover have "statu_of ?k t' = RT_THREAD_SLEEP \<or> statu_of ?k t' = RT_THREAD_SUSPEND"
    if "t' \<in> insert t L" "timer_on ?k t'" for t'
    using that sys_invD(4)[OF k, of t'] join_tcb_fields(4)[OF p] tcb(1)[of t'] by (auto split: if_splits)
  moreover have "ctx_ok ?k"
  proof (cases "rt_interrupt_nest k = 0")
    case True
    then show ?thesis using sys_invD(5)[OF k] by (simp add: ctx_ok_def between_interrupts_def jr tcb(2))
  next
    case False
    then obtain c where c: "isr_ok c k" "cpu_sp k = pt_r29 (frames k c) - PT_SIZE" using sys_invD(5)[OF k] by (auto simp: ctx_ok_def)
    then have "c \<noteq> t" using t(2) by (auto simp: isr_ok_def)
    then have "isr_ok c ?k \<and> cpu_sp ?k = pt_r29 (frames ?k c) - PT_SIZE" using c by (simp add: isr_ok_def jr tcb(2))
    then show ?thesis using False unfolding ctx_ok_def jr by auto
  qed
  ultimately show ?thesis using sys_invD(2)[OF k] tcb(2) by (simp add: sys_inv_def)
qed

text \<open>
  Every refused creation returns with interrupts off when the scheduler is running: the
  error returns skip the restoring call.
\<close>

lemma join_refused:
  assumes "rt_current_thread k = Some c"
    and "31 < prio \<or> malloc_tcb m = None \<or> n = 0 \<or> malloc_stack m = None"
  shows "thread_join_init name fn ud n prio run m st k = (None, st, k\<lparr>irq := False\<rparr>)"
proof -
  consider "31 < prio" | "\<not> 31 < prio" "malloc_tcb m = None"
    | t where "\<not> 31 < prio" "malloc_tcb m = Some t" "n = 0"
    | t where "\<not> 31 < prio" "malloc_tcb m = Some t" "n \<noteq> 0" "malloc_stack m = None"
    using assms(2) by (cases "malloc_tcb m") auto
  then show ?thesis
    by cases (simp_all add: thread_join_init_def irq_defs assms(1))
qed

section \<open>Booting\<close>

lemma upd_nil: "(\<lambda>_. [])(l := []) = (\<lambda>_. [])"
  by auto

lemma init_ready_headers:
  "disjoint_queues dll (Ready ` {..<n}) {} (\<lambda>_. []) (foldl (\<lambda>h p. rt_list_init (Ready p) h) h [0..<n])"
proof (induction n)
  case 0
  then show ?case by (simp add: disjoint_queues_def)
next
  case (Suc n)
  from dq_new_header[OF this, of "Ready n"] show ?case
    by (simp add: lessThan_Suc upd_nil image_iff)
qed

lemma thread_init_kinv:
  assumes "rt_current_thread k = None"
  shows "kinv {} {} {} (\<lambda>_. []) (thread_init k)"
proof (rule kinvI)
  have "headers {} = insert Timer_list (insert All_threads (insert Dead (Ready ` {..<32})))"
    by (auto simp: headers_def)
  moreover have "disjoint_queues dll (insert Timer_list (insert All_threads (insert Dead (Ready ` {..<32})))) {}
      (\<lambda>_. []) (rt_list_init Timer_list (rt_list_init All_threads (rt_list_init Dead
        (foldl (\<lambda>h p. rt_list_init (Ready p) h) (links k) [0..<32]))))"
    by (intro dq_new_header[where q = "\<lambda>_. []", unfolded upd_nil] init_ready_headers) auto
  moreover have "links (thread_init k) = rt_list_init Timer_list (rt_list_init All_threads (rt_list_init Dead
        (foldl (\<lambda>h p. rt_list_init (Ready p) h) (links k) [0..<32])))"
    unfolding thread_init_def upd_links_def Let_def by (simp del: upt_rec_numeral)
  ultimately show "disjoint_queues dll (headers {}) (members {}) (\<lambda>_. []) (links (thread_init k))"
    by (simp add: members_def del: upt_rec_numeral)
  show "bit (rt_thread_ready_priority_group (thread_init k)) p \<longleftrightarrow> [] \<noteq> ([] :: node list)" for p
    by (simp add: thread_init_def upd_links_def del: upt_rec_numeral)
qed (use assms in \<open>simp_all add: thread_init_def upd_links_def del: upt_rec_numeral\<close>)

lemma start_kinv:
  assumes k: "kinv {} S L q k" and c: "rt_current_thread k = None" and n: "next_ready q p t"
  shows "\<exists>k'. thread_start k = Inr k' \<and> kinv {} S L (unqueue t q) k' \<and> rt_current_thread k' = Some t \<and>
    cpu k' = Some t \<and> tcb k' = (tcb k)(t := (tcb k t)\<lparr>statu := RT_THREAD_RUNNING\<rparr>) \<and>
    rt_interrupt_nest k' = rt_interrupt_nest k \<and> kernel.more k' = kernel.more k \<and>
    rt_thread_switch_interrupt_flag k' = rt_thread_switch_interrupt_flag k \<and> system_tick k' = system_tick k \<and>
    frames k' = frames k \<and> cpu_sp k' = pt_r29 (frames k t) \<and> irq k' = wake_irq (frames k t)"
proof -
  have t: "t \<in> L" using next_ready_thread[OF k n] by simp
  let ?k1 = "rt_schedule_remove_thread t k"
  let ?k2 = "?k1\<lparr>rt_current_thread := Some t\<rparr>"
  have "kinv {t} S L (unqueue t q) ?k1" using kinv_remove_thread[OF k t] by (simp add: unqueue_def)
  then have "kinv {t} S L (unqueue t q) ?k2"
    using t place_cong[of ?k2 _ ?k1] unfolding kinv_def by simp
  from kinv_settle[OF kinv_set_statu[OF this, of t RT_THREAD_RUNNING], of t]
  have "kinv {} S L (unqueue t q) (set_statu t RT_THREAD_RUNNING ?k2)" by (simp add: set_statu_frame)
  moreover have "rt_schedule_remove_thread t (k\<lparr>rt_current_thread := Some t\<rparr>) = ?k2"
    by (simp add: rt_schedule_remove_thread_eq upd_links_def)
  then have "thread_start k = Inr (rt_hw_context_switch_to t (set_statu t RT_THREAD_RUNNING ?k2))"
    using get_highest_next_ready(1)[OF k n] by (simp add: thread_start_def Let_def)
  moreover have "rt_thread_switch_interrupt_flag ?k1 = rt_thread_switch_interrupt_flag k"
    "frames ?k1 = frames k"
    by (simp_all add: rt_schedule_remove_thread_eq upd_links_def)
  ultimately show ?thesis
    by (simp add: rt_hw_context_switch_to_def restore_eq frame_simps set_statu_frame remove_thread_frame) (simp add: set_statu_def upd_tcb_def)
qed

section \<open>New IPC objects\<close>

lemma kinv_new_header:
  assumes k: "kinv {} S L q k" and l: "l \<in> wait_queues" "l \<notin> S"
  shows "kinv {} (insert l S) L (q(l := [])) (upd_links (rt_list_init l) k)" (is "kinv _ _ _ ?q ?k")
proof (rule kinvI)
  have h: "headers (insert l S) = insert l (headers S)" using l by (auto simp: headers_def)
  have nl: "l \<noteq> Timer_list" "l \<noteq> All_threads" "l \<noteq> Ready p" for p using l by (auto simp: wait_queues_def)
  have "l \<notin> headers S" using l by simp
  moreover have "l \<notin> members L" using l by (auto simp: members_def wait_queues_def)
  ultimately show "disjoint_queues dll (headers (insert l S)) (members L) ?q (links ?k)"
    unfolding h using dq_new_header[OF kinv_queues[OF k], of l] by (simp add: upd_links_def)
  show "t \<notin> {} \<and> place ?k m t" if "TList t \<in> set (?q m)" "m \<in> headers (insert l S)" for t m
    using that kinv_place[OF k, of t m] h place_cong[of ?k t k m] by (auto simp: upd_links_def split: if_splits)
  show "TimerNode t \<in> set (?q m) \<Longrightarrow> m \<in> headers (insert l S) \<Longrightarrow> m = Timer_list" for t m
    using kinv_timer_only[OF k, of t m] h by (auto split: if_splits)
  show "AllList t \<in> set (?q m) \<Longrightarrow> m \<in> headers (insert l S) \<Longrightarrow> m = All_threads" for t m
    using kinv_all_only[OF k, of t m] h by (auto split: if_splits)
  show "TList t \<in> set (?q (Ready (prio_of ?k t)))"
    if "t \<in> L" "t \<notin> {}" "statu_of ?k t = RT_THREAD_READY" for t
    using kinv_ready[OF k, of t] that nl(3) by (auto simp: upd_links_def)
  show "timer_on ?k t \<longleftrightarrow> TimerNode t \<in> set (?q Timer_list)" if "t \<in> L" for t
    using kinv_timer[OF k that] nl(1) by (auto simp: upd_links_def)
  show "bit (rt_thread_ready_priority_group ?k) p \<longleftrightarrow> ?q (Ready p) \<noteq> []" if "p < 32" for p
    using kinv_group[OF k that] nl(3)[of p] by (auto simp: upd_links_def)
qed (use kinv_prio[OF k] kinv_mask[OF k] kinv_current[OF k] kinv_current_statu[OF k]
  in \<open>auto simp: upd_links_def\<close>)

lemma sys_inv_new_header:
  assumes k: "sys_inv S L q k" and l: "l \<in> wait_queues" "l \<notin> S"
  shows "sys_inv (insert l S) L (q(l := [])) (upd_links (rt_list_init l) k)"
  using kinv_new_header[OF sys_invD(1)[OF k] l] k
  by (simp add: sys_inv_def stacks_ok_cong[of L "upd_links f k" k for f] between_cong(3)[of "upd_links f k" k for f] upd_links_frame)

lemma sys_inv_cong_more:
  assumes k: "sys_inv S L q k" and "links k' = links k" "tcb k' = tcb k" "rt_current_thread k' = rt_current_thread k"
    "rt_thread_ready_priority_group k' = rt_thread_ready_priority_group k" "regs k' = regs k"
  shows "sys_inv S L q k'"
proof -
  have "kinv {} S L q k'" using kinv_cong[OF sys_invD(1)[OF k], of q k'] assms by simp
  then show ?thesis using k assms stacks_ok_cong[of L k' k] between_cong(3)[of k' k] by (simp add: sys_inv_def)
qed

lemma sem_init_inv:
  assumes k: "ipc_inv S L q k" and s: "SemQ s \<notin> S"
  shows "ipc_inv (insert (SemQ s) S) L (q(SemQ s := [])) (snd (rt_sem_init s v f k))"
proof -
  let ?k = "snd (rt_sem_init s v f k)"
  have k1: "sys_inv (insert (SemQ s) S) L (q(SemQ s := [])) (upd_links (rt_list_init (SemQ s)) k)"
    by (rule sys_inv_new_header[OF ipc_invD(1)[OF k] _ s]) simp
  have "sys_inv (insert (SemQ s) S) L (q(SemQ s := [])) ?k"
    by (rule sys_inv_cong_more[OF k1]) (simp_all add: rt_sem_init_def upd_sem_def upd_links_def Let_def regs_def)
  moreover have "tcb ?k = tcb k" "mbs ?k = mbs k" "\<And>s'. s' \<noteq> s \<Longrightarrow> sems ?k s' = sems k s'"
    by (simp_all add: rt_sem_init_def upd_sem_def upd_links_def Let_def)
  ultimately show ?thesis using k by (auto simp: ipc_inv_def)
qed

lemma mb_init_inv:
  assumes k: "ipc_inv S L q k" and m: "MbQ m \<notin> S" "MbSendQ m \<notin> S" and n: "(ucast n :: u16) \<noteq> 0"
  shows "ipc_inv (insert (MbSendQ m) (insert (MbQ m) S)) L (q(MbQ m := [], MbSendQ m := []))
    (snd (rt_mb_init m pool n f k))"
proof -
  let ?k = "snd (rt_mb_init m pool n f k)" and ?S = "insert (MbSendQ m) (insert (MbQ m) S)"
  have k1: "sys_inv (insert (MbQ m) S) L (q(MbQ m := [])) (upd_links (rt_list_init (MbQ m)) k)"
    by (rule sys_inv_new_header[OF ipc_invD(1)[OF k] _ m(1)]) simp
  have k2: "sys_inv ?S L (q(MbQ m := [], MbSendQ m := []))
      (upd_links (rt_list_init (MbSendQ m)) (upd_links (rt_list_init (MbQ m)) k))"
    by (rule sys_inv_new_header[OF k1]) (use m in simp_all)
  have "sys_inv ?S L (q(MbQ m := [], MbSendQ m := [])) ?k"
    by (rule sys_inv_cong_more[OF k2]) (simp_all add: rt_mb_init_def upd_mb_def upd_links_def Let_def regs_def)
  moreover have "tcb ?k = tcb k" "sems ?k = sems k" "\<And>m'. m' \<noteq> m \<Longrightarrow> mbs ?k m' = mbs k m'"
    by (simp_all add: rt_mb_init_def upd_mb_def upd_links_def Let_def)
  moreover have "mb_inv (mbs ?k m)"
    using n by (simp add: rt_mb_init_def upd_mb_def upd_links_def Let_def mb_inv_def mb_reset_def unat_gt_0)
  moreover from calculation(4,5)
  have "mb_inv (mbs ?k m')" if "m' = m \<or> MbQ m' \<in> S \<or> MbSendQ m' \<in> S" for m'
    using k that by (cases "m' = m") (auto simp: ipc_inv_def)
  ultimately show ?thesis using k by (auto simp: ipc_inv_def)
qed

section \<open>Finding and killing\<close>

lemma all_members:
  assumes k: "kinv E S L q k" and x: "x \<in> set (q All_threads)"
  obtains t where "x = AllList t" "t \<in> L"
proof -
  have "x \<in> members L" using queue_subset[OF k, of All_threads] x by auto
  moreover have "x \<noteq> TList t" "x \<noteq> TimerNode t" for t
    using kinv_place[OF k, of t All_threads] kinv_timer_only[OF k, of t All_threads] x by auto
  ultimately show ?thesis using that unfolding members_def by blast
qed

lemma find_walk_total:
  assumes k: "kinv E S L q k" and "q All_threads = pre @ xs"
  shows "find_walk (hd (xs @ [All_threads])) ident k =
    Some (Inr (map_option (\<lambda>n. the (all_entry n)) (find (\<lambda>n. thread_id (tcb k (the (all_entry n))) = ident) xs)))"
  using assms(2)
proof (induction xs arbitrary: pre)
  case Nil
  then show ?case by (simp add: find_walk.simps[of All_threads])
next
  case (Cons x ys)
  obtain t where t: "x = AllList t" using all_members[OF k, of x] Cons.prems by auto
  have "dll (links k) All_threads (q All_threads)"
    using kinv_queues[OF k] unfolding disjoint_queues_def by simp
  then have "lnext (links k) x = hd (ys @ [All_threads])"
    using dll_next[of "links k" All_threads pre x ys] Cons.prems by simp
  then show ?case using Cons.IH[of "pre @ [x]"] Cons.prems t
    by (simp add: find_walk.simps[of "AllList t"])
qed

definition find_result :: "(node \<Rightarrow> node list) \<Rightarrow> u32 \<Rightarrow> 'z kernel_scheme \<Rightarrow> tid option" where
  "find_result q ident k = map_option (\<lambda>n. the (all_entry n))
     (find (\<lambda>n. thread_id (tcb k (the (all_entry n))) = ident) (q All_threads))"

lemma find_thread_eq:
  assumes k: "kinv E S L q k"
  shows "find_thread_by_id ident k = Some (Inr (find_result q ident k))"
proof -
  have "dll (links k) All_threads (q All_threads)"
    using kinv_queues[OF k] unfolding disjoint_queues_def by simp
  then have "lnext (links k) All_threads = hd (q All_threads @ [All_threads])"
    using dll_first[of "links k" All_threads "q All_threads"] by (simp split: list.splits)
  then show ?thesis
    using find_walk_total[OF k, of "[]" "q All_threads" ident]
    by (simp add: find_thread_by_id_def find_result_def)
qed

lemma find_result_spec:
  assumes k: "kinv E S L q k"
  shows "find_result q ident k = None \<Longrightarrow> AllList t \<in> set (q All_threads) \<Longrightarrow> thread_id (tcb k t) \<noteq> ident"
    and "find_result q ident k = Some t \<Longrightarrow> AllList t \<in> set (q All_threads) \<and> t \<in> L \<and> thread_id (tcb k t) = ident"
proof -
  let ?P = "\<lambda>n. thread_id (tcb k (the (all_entry n))) = ident"
  show "find_result q ident k = None \<Longrightarrow> AllList t \<in> set (q All_threads) \<Longrightarrow> thread_id (tcb k t) \<noteq> ident"
    unfolding find_result_def by (force simp: find_None_iff)
  assume "find_result q ident k = Some t"
  then obtain n where n: "find ?P (q All_threads) = Some n" "t = the (all_entry n)"
    by (auto simp: find_result_def)
  then have "n \<in> set (q All_threads)" "?P n" by (auto simp: find_Some_iff)
  moreover then obtain u where "n = AllList u" "u \<in> L" using all_members[OF k] by blast
  ultimately show "AllList t \<in> set (q All_threads) \<and> t \<in> L \<and> thread_id (tcb k t) = ident" using n(2) by simp
qed

definition protected :: "cstring \<Rightarrow> bool" where
  "protected s \<longleftrightarrow> striequ idle_name s \<or> striequ shell_name s"

lemma close_thread_irq: "(close_thread t (k\<lparr>irq := b\<rparr>)) = (close_thread t k)\<lparr>irq := b\<rparr>"
  by (simp add: close_thread_eq rt_schedule_remove_thread_eq rt_timer_stop_eq set_statu_def upd_tcb_def
      upd_links_def upd_timer_def)

lemma kill_sys_inv:
  assumes k: "sys_inv S L q k"
  shows "\<exists>k' q'. killThreadFun ident k = Some (Inr k') \<and> sys_inv S L q' k' \<and>
    (case find_result q ident k of None \<Rightarrow> k' = k
     | Some t \<Rightarrow> if protected (thread_name (tcb k t)) then k' = k
        else statu_of k' t = RT_THREAD_CLOSE \<and> TList t \<in> set (q' Dead)) \<and>
    kernel.more k' = kernel.more k \<and> (between_interrupts k \<longrightarrow> between_interrupts k') \<and>
    (\<forall>t. error (tcb k' t) = error (tcb k t)) \<and>
    (\<forall>l\<in>S. l \<in> wait_queues \<longrightarrow> set (q' l) \<subseteq> set (q l)) \<and>
    (cur_running k \<and> (\<forall>c. rt_current_thread k = Some c \<longrightarrow> thread_id (tcb k c) = ident \<longrightarrow> (\<exists>p<32. q (Ready p) \<noteq> [])) \<longrightarrow> cur_running k')"
proof -
  note ki = sys_invD(1)[OF k]
  have f: "find_thread_by_id ident (k\<lparr>irq := False\<rparr>) = Some (Inr (find_result q ident k))"
    using find_thread_eq[of "{}" S L q "k\<lparr>irq := False\<rparr>" ident] ki by (simp add: frame_simps find_result_def)
  consider "find_result q ident k = None" | t where "find_result q ident k = Some t" "protected (thread_name (tcb k t))"
    | t where "find_result q ident k = Some t" "\<not> protected (thread_name (tcb k t))" by (cases "find_result q ident k") auto
  then show ?thesis
  proof cases
    case 1
    then show ?thesis using f k by (auto simp: killThreadFun_def irq_defs)
  next
    case (2 t)
    then show ?thesis using f k by (auto simp: killThreadFun_def irq_defs protected_def)
  next
    case (3 t)
    let ?k1 = "close_thread t k"
    have t: "t \<in> L" using find_result_spec(2)[OF ki 3(1)] by simp
    have s1: "sys_inv S L (dead_queue t q) ?k1" by (rule close_thread_sys_inv[OF k t])
    have st: "statu_of ?k1 t = RT_THREAD_CLOSE" by (simp add: close_thread_frame)
    show ?thesis
    proof (cases "rt_current_thread k = Some t")
      case True
      obtain k' q' where r: "rt_schedule (?k1\<lparr>irq := False\<rparr>) = Inr k'" "sys_inv S L q' k'"
          "sched_frame (?k1\<lparr>irq := False\<rparr>) k'" "same_waiting S (dead_queue t q) q'"
          "picks (dead_queue t q) (?k1\<lparr>irq := False\<rparr>) k'"
        using rt_schedule_sys_inv[of S L "dead_queue t q" "?k1\<lparr>irq := False\<rparr>"] s1 by auto
      let ?k' = "if on_cpu t k' then k'\<lparr>irq := irq k\<rparr> else k'"
      have "killThreadFun ident k = Some (Inr ?k')"
        using f 3 True r(1) by (simp add: killThreadFun_def irq_defs protected_def close_thread_irq close_thread_frame)
      moreover have "cur_running ?k'" if w: "cur_running k" "\<exists>p<32. q (Ready p) \<noteq> []"
      proof -
        have "statu_of k t \<noteq> RT_THREAD_READY" using w(1) True by (simp add: cur_running_def)
        then have "cur_running k'" using picks_running[OF r(3,5)] dead_queue_ready[OF ki, of t] w(2) by auto
        then show ?thesis by (simp add: cur_running_def)
      qed
      moreover have "statu_of k' t = RT_THREAD_CLOSE" "TList t \<in> set (q' Dead)"
        using r(3,4) st by (simp_all add: sched_frame_def awake_def leaves_cpu_def same_waiting_def dead_queue_def)
      moreover have "kernel.more k' = kernel.more k" "between_interrupts k \<longrightarrow> between_interrupts ?k'"
        using r(3) between_cong(1)[OF close_thread_frame(6,2), of t k] by (auto simp: sched_frame_def close_thread_frame(5) between_interrupts_def)
      moreover have "error (tcb k' t') = error (tcb k t')" for t'
        using sched_frame_tcb[OF r(3), of error t'] by (simp add: close_thread_frame)
      moreover have "set (q' l) \<subseteq> set (q l)" if "l \<in> S" "l \<in> wait_queues" for l
        using r(4) that set_remove1_subset[of "TList t" "q l"]
        by (auto simp: same_waiting_def dead_queue_def stop_queue_def unqueue_def wait_queues_def)
      moreover have "thread_id (tcb k t) = ident" using find_result_spec(2)[OF ki 3(1)] by simp
      ultimately show ?thesis using r(2) 3 True by (intro exI[of _ ?k'] exI[of _ q']) simp
    next
      case False
      have "killThreadFun ident k = Some (Inr ?k1)"
        using f 3 False by (simp add: killThreadFun_def irq_defs protected_def close_thread_irq close_thread_frame
            eq_commute[of "Some t"])
      moreover have "set (dead_queue t q l) \<subseteq> set (q l)" if "l \<in> S" "l \<in> wait_queues" for l
        using that set_remove1_subset[of "TList t" "q l"]
        by (auto simp: dead_queue_def stop_queue_def unqueue_def wait_queues_def)
      moreover have "TList t \<in> set (dead_queue t q Dead)" by (simp add: dead_queue_def)
      moreover have "cur_running k \<longrightarrow> cur_running ?k1" using False by (auto simp: cur_running_def close_thread_frame)
      moreover have "between_interrupts ?k1 = between_interrupts k" by (rule between_cong(1)[OF close_thread_frame(6,2)])
      ultimately show ?thesis using s1 st 3
        by (intro exI[of _ ?k1] exI[of _ "dead_queue t q"]) (simp add: close_thread_frame)
    qed
  qed
qed

section \<open>The idle thread\<close>

lemma kinv_dll: "kinv E S L q k \<Longrightarrow> l \<in> headers S \<Longrightarrow> dll (links k) l (q l)"
  using kinv_queues[of E S L q k] unfolding disjoint_queues_def by simp

lemma kinv_remove_all:
  assumes k: "kinv E S L q k" and t: "t \<in> L"
  shows "kinv E S L (q(All_threads := remove1 (AllList t) (q All_threads)))
    (upd_links (rt_list_remove (AllList t)) k)" (is "kinv _ _ _ ?q ?k")
proof (rule kinvI)
  have e: "remove1 (AllList t) (q l) = ?q l" if "l \<in> headers S" for l
    using kinv_all_only[OF k, of t l] that by (cases "l = All_threads") (auto intro: remove1_idem)
  have "disjoint_queues dll (headers S) (members L) (\<lambda>l. remove1 (AllList t) (q l)) (links ?k) =
      disjoint_queues dll (headers S) (members L) ?q (links ?k)" by (rule disjoint_queues_cong) (rule e)
  then show "disjoint_queues dll (headers S) (members L) ?q (links ?k)"
    using rtl.queues_unlink[OF kinv_queues[OF k], of "AllList t"] t by (simp add: upd_links_def)
  show "t' \<notin> E \<and> place ?k l t'" if "TList t' \<in> set (?q l)" "l \<in> headers S" for t' l
    using kinv_place[OF k, of t' l] that place_cong[of ?k t' k l]
    by (auto simp: upd_links_def remove1_other split: if_splits)
  show "AllList t' \<in> set (?q l) \<Longrightarrow> l \<in> headers S \<Longrightarrow> l = All_threads" for t' l
    using kinv_all_only[OF k, of t' l] by (auto split: if_splits)
  show "TimerNode t' \<in> set (?q l) \<Longrightarrow> l \<in> headers S \<Longrightarrow> l = Timer_list" for t' l
    using kinv_timer_only[OF k, of t' l] by (auto simp: remove1_other split: if_splits)
qed (use kinv_prio[OF k] kinv_mask[OF k] kinv_group[OF k] kinv_ready[OF k] kinv_timer[OF k]
    kinv_current[OF k] kinv_current_statu[OF k] in \<open>auto simp: upd_links_def\<close>)

definition clean_queue :: "tid \<Rightarrow> (node \<Rightarrow> node list) \<Rightarrow> node \<Rightarrow> node list" where
  "clean_queue t q = (unqueue t q)(All_threads := remove1 (AllList t) (unqueue t q All_threads))"

definition clean_state :: "tid \<Rightarrow> 'z kernel_scheme \<Rightarrow> 'z kernel_scheme" where
  "clean_state t k = upd_links (rt_list_remove (AllList t)) (upd_links (rt_list_remove (TList t)) k)"

lemma clean_kinv:
  assumes k: "kinv {} S L q k" and t: "TList t \<in> set (q Dead)"
  shows "kinv {} S L (clean_queue t q) (clean_state t k)" "statu_of k t = RT_THREAD_CLOSE" "t \<in> L"
proof -
  show tl: "t \<in> L" and st: "statu_of k t = RT_THREAD_CLOSE"
    using kinv_in_L(1)[OF k, of Dead t] kinv_place[OF k, of t Dead] t by auto
  have "kinv {t} S L (unqueue t q) (upd_links (rt_list_remove (TList t)) k)"
    using kinv_unlink_waiting[OF k tl] st by (simp add: unqueue_def)
  from kinv_settle[OF this, of t] have "kinv {} S L (unqueue t q) (upd_links (rt_list_remove (TList t)) k)"
    using st by (simp add: upd_links_def)
  from kinv_remove_all[OF this tl] show "kinv {} S L (clean_queue t q) (clean_state t k)"
    by (simp add: clean_queue_def clean_state_def)
qed

lemma clean_same: "tcb (clean_state t k) = tcb k" "rt_current_thread (clean_state t k) = rt_current_thread k"
  "irq (clean_state t k) = irq k" "kernel.more (clean_state t k) = kernel.more k" "regs (clean_state t k) = regs k"
  by (simp_all add: clean_state_def upd_links_frame)

lemma idle_walk_total:
  assumes "kinv {} S L q k" "q Dead = map TList ts" "ts \<noteq> [] \<Longrightarrow> nxt = hd (tl (map TList ts) @ [Dead])"
  shows "\<exists>k' q'. idle_walk (hd (map TList ts @ [Dead])) nxt fr k =
      Some (Inr (rev (map (\<lambda>t. (stack_addr (tcb k t), t)) ts) @ fr, k')) \<and>
    kinv {} S L q' k' \<and> q' Dead = [] \<and> tcb k' = tcb k \<and> rt_current_thread k' = rt_current_thread k \<and> irq k' = irq k \<and>
    kernel.more k' = kernel.more k \<and> regs k' = regs k \<and>
    q' All_threads = filter (\<lambda>n. n \<notin> AllList ` set ts) (q All_threads) \<and>
    (\<forall>l\<in>headers S. l \<noteq> Dead \<longrightarrow> l \<noteq> All_threads \<longrightarrow> q' l = q l)"
  using assms
proof (induction ts arbitrary: q k nxt fr)
  case Nil
  then show ?case by (auto simp: idle_walk.simps[of Dead])
next
  case (Cons t ts)
  note k = Cons.prems(1)
  have td: "TList t \<in> set (q Dead)" using Cons.prems(2) by simp
  let ?k = "clean_state t k" and ?q = "clean_queue t q"
  note c = clean_kinv[OF k td]
  have d: "distinct (map TList (t # ts))" using kinv_distinct[OF k, of Dead] Cons.prems(2) by simp
  have qd: "?q Dead = map TList ts" using Cons.prems(2) d by (simp add: clean_queue_def unqueue_def)
  have other: "TList t \<notin> set (q l)" if "l \<in> headers S" "l \<noteq> Dead" for l
    using disjoint_queuesD[OF kinv_queues[OF k], of "TList t" Dead l] td that by auto
  have nxt: "nxt = hd (map TList ts @ [Dead])" using Cons.prems(3) by simp
  have "dll (links ?k) Dead (map TList ts)" using kinv_dll[OF c(1), of Dead] qd by simp
  then have "lnext (links ?k) nxt = hd (tl (map TList ts) @ [Dead])" if "ts \<noteq> []"
    using dll_next[of "links ?k" Dead "[]" "hd (map TList ts)" "tl (map TList ts)"] nxt that by simp
  from Cons.IH[OF c(1) qd this, of "(stack_addr (tcb k t), t) # fr"]
  obtain k' q' where r: "idle_walk nxt (lnext (links ?k) nxt) ((stack_addr (tcb k t), t) # fr) ?k =
      Some (Inr (rev (map (\<lambda>t. (stack_addr (tcb k t), t)) ts) @ (stack_addr (tcb k t), t) # fr, k'))"
    "kinv {} S L q' k'" "q' Dead = []" "tcb k' = tcb k" "rt_current_thread k' = rt_current_thread k" "irq k' = irq k"
    "kernel.more k' = kernel.more k" "regs k' = regs k"
    "q' All_threads = filter (\<lambda>n. n \<notin> AllList ` set ts) (?q All_threads)"
    "\<forall>l\<in>headers S. l \<noteq> Dead \<longrightarrow> l \<noteq> All_threads \<longrightarrow> q' l = ?q l"
    unfolding nxt clean_same by blast
  have "idle_walk (hd (map TList (t # ts) @ [Dead])) nxt fr k =
      Some (Inr (rev (map (\<lambda>t. (stack_addr (tcb k t), t)) (t # ts)) @ fr, k'))"
    using r(1) c(2) by (simp add: idle_walk.simps[of "TList t"] clean_state_def Let_def upd_links_def)
  moreover have "?q All_threads = filter (\<lambda>n. n \<noteq> AllList t) (q All_threads)"
    using other[of All_threads] kinv_distinct[OF k, of All_threads]
    by (simp add: clean_queue_def unqueue_def remove1_idem distinct_remove1_removeAll removeAll_filter_not_eq)
       (auto intro!: filter_cong)
  then have "q' All_threads = filter (\<lambda>n. n \<notin> AllList ` set (t # ts)) (q All_threads)"
    using r(9) by (auto intro!: filter_cong)
  moreover have "?q l = q l" if "l \<in> headers S" "l \<noteq> Dead" "l \<noteq> All_threads" for l
    using other[OF that(1,2)] that by (simp add: clean_queue_def unqueue_def remove1_idem)
  ultimately show ?case using r by (intro exI[of _ k'] exI[of _ q']) simp
qed

lemma dead_list_threads:
  assumes k: "kinv E S L q k"
  shows "\<exists>ts. q Dead = map TList ts \<and> set ts \<subseteq> L \<and> distinct ts"
proof -
  have "\<exists>t. x = TList t" if "x \<in> set (q Dead)" for x
    using queue_members[OF k _ _ _ that] by auto
  then obtain ts where ts: "q Dead = map TList ts"
    using ex_map_conv[of "q Dead" TList] by auto
  then show ?thesis using kinv_in_L(1)[OF k, of Dead] kinv_distinct[OF k, of Dead] by (auto simp: distinct_map)
qed

lemma kinv_shrink:
  assumes k: "kinv {} S L q k" and c: "\<And>c. rt_current_thread k = Some c \<Longrightarrow> c \<notin> X"
    and out: "\<And>t l. t \<in> X \<Longrightarrow> l \<in> headers S \<Longrightarrow> TList t \<notin> set (q l) \<and> AllList t \<notin> set (q l) \<and> TimerNode t \<notin> set (q l)"
  shows "kinv {} S (L - X) q k"
proof (rule kinvI)
  have "set (q l) \<subseteq> members (L - X)" if "l \<in> headers S" for l
    using queue_subset[OF k that] out[OF _ that] unfolding members_def by blast
  moreover have "members (L - X) \<subseteq> members L" by (auto simp: members_def)
  ultimately show "disjoint_queues dll (headers S) (members (L - X)) q (links k)"
    using kinv_queues[OF k] unfolding disjoint_queues_def by blast
  show "rt_current_thread k = Some c \<Longrightarrow> c \<in> L - X \<and> (c \<notin> {} \<longrightarrow> statu_of k c \<noteq> RT_THREAD_READY)" for c
    using kinv_current[OF k] kinv_current_statu[OF k] assms(2) by blast
  show "TimerNode t \<in> set (q l) \<Longrightarrow> l \<in> headers S \<Longrightarrow> l = Timer_list" for t l by (rule kinv_timer_only[OF k])
  show "AllList t \<in> set (q l) \<Longrightarrow> l \<in> headers S \<Longrightarrow> l = All_threads" for t l by (rule kinv_all_only[OF k])
  show "t \<notin> {} \<and> place k l t" if "TList t \<in> set (q l)" "l \<in> headers S" for t l by (rule kinv_place[OF k that])
qed (use kinv_prio[OF k] kinv_mask[OF k] kinv_group[OF k] kinv_ready[OF k] kinv_timer[OF k] in \<open>simp_all\<close>)

lemma idle_clean_total:
  assumes k: "sys_inv S L q k" and c: "rt_current_thread k = Some c" "statu_of k c \<noteq> RT_THREAD_CLOSE"
    and d: "q Dead = map TList ts" "ts \<noteq> []"
  shows "\<exists>k' q'. idle_round k = Some (Inr (rev (map (\<lambda>t. (stack_addr (tcb k t), t)) ts), k')) \<and>
    sys_inv S (L - set ts) q' k' \<and> q' Dead = [] \<and> irq k' = irq k \<and> tcb k' = tcb k \<and>
    (\<forall>t\<in>set ts. AllList t \<notin> set (q' All_threads))"
proof -
  note ki = sys_invD(1)[OF k]
  let ?k = "k\<lparr>irq := False\<rparr>"
  have ki': "kinv {} S L q ?k" using ki by (simp add: frame_simps)
  have dl: "dll (links k) Dead (map TList ts)" using kinv_dll[OF ki, of Dead] d(1) by simp
  have pos: "lnext (links k) Dead = hd (map TList ts @ [Dead])" using dll_first[OF dl] d(2) by (cases ts) auto
  have nxt: "lnext (links k) (hd (map TList ts @ [Dead])) = hd (tl (map TList ts) @ [Dead])"
    using dll_next[of "links k" Dead "[]" "hd (map TList ts)" "tl (map TList ts)"] dl d(2) by simp
  obtain k' q' where r: "idle_walk (hd (map TList ts @ [Dead])) (lnext (links k) (hd (map TList ts @ [Dead]))) [] ?k =
      Some (Inr (rev (map (\<lambda>t. (stack_addr (tcb k t), t)) ts), k'))"
    "kinv {} S L q' k'" "q' Dead = []" "tcb k' = tcb k" "rt_current_thread k' = rt_current_thread k"
    "q' All_threads = filter (\<lambda>n. n \<notin> AllList ` set ts) (q All_threads)"
    "\<forall>l\<in>headers S. l \<noteq> Dead \<longrightarrow> l \<noteq> All_threads \<longrightarrow> q' l = q l" "regs k' = regs k"
    using idle_walk_total[OF ki' d(1) nxt, of "[]"] by auto
  have cl: "t \<in> set ts \<Longrightarrow> statu_of k t = RT_THREAD_CLOSE \<and> TList t \<in> set (q Dead) \<and> t \<in> L" for t
    using clean_kinv(2,3)[OF ki, of t] d(1) by auto
  have "kinv {} S (L - set ts) q' k'"
  proof (rule kinv_shrink[OF r(2)])
    show "rt_current_thread k' = Some c' \<Longrightarrow> c' \<notin> set ts" for c' using r(5) c cl by auto
    fix t l assume t: "t \<in> set ts" and l: "l \<in> headers S"
    have "TList t \<notin> set (q' l)"
      using kinv_place[OF r(2), of t l] l cl[OF t] r(3,4) by (cases l) auto
    moreover have "AllList t \<notin> set (q' l)"
      using kinv_all_only[OF r(2), of t l] l r(6) t by (cases "l = All_threads") auto
    moreover have "TimerNode t \<notin> set (q' l)"
      using kinv_timer_only[OF r(2), of t l] l kinv_timer[OF r(2), of t] cl[OF t] sys_invD(4)[OF k, of t] r(4)
      by (cases "l = Timer_list") auto
    ultimately show "TList t \<notin> set (q' l) \<and> AllList t \<notin> set (q' l) \<and> TimerNode t \<notin> set (q' l)" by blast
  qed
  then have "sys_inv S (L - set ts) q' (k'\<lparr>irq := irq k\<rparr>)"
    using k r(4,5) regsD[OF r(8)] between_cong(3)[of "k'\<lparr>irq := irq k\<rparr>" k]
    by (auto simp: sys_inv_def frame_simps stacks_ok_def rt_scheduler_stack_check_def user_sp_def r(8))
  moreover have "\<not> rt_list_isempty Dead (links k)"
    using rtl.queues_empty_iff[OF kinv_queues[OF ki], of Dead] d by simp
  then have "idle_round k = Some (Inr (rev (map (\<lambda>t. (stack_addr (tcb k t), t)) ts), k'\<lparr>irq := irq k\<rparr>))"
    using r(1) pos by (simp add: idle_round_def irq_defs Let_def)
  ultimately show ?thesis using r(3,4,6) by (intro exI[of _ "k'\<lparr>irq := irq k\<rparr>"] exI[of _ q']) auto
qed

end
