(* ===== verification/Boot.thy ===== *)
theory Boot
  imports Thread_Inv
begin

text \<open>
  The thread part of the start-up: the creation calls of \<^verbatim>\<open>src/os/sys_thread.c\<close> in the order
  of \<^verbatim>\<open>osMain\<close> in \<^verbatim>\<open>src/os/os.c\<close> and the start of the first thread. The entry addresses of
  the thread functions and the results of \<^verbatim>\<open>malloc\<close> are arguments. \<^verbatim>\<open>eth_rt_tx_init\<close>, which
  belongs to the network stack, is not part of the sequence.
\<close>

definition TCPIP_THREAD_PRIO_GLO :: int where
  "TCPIP_THREAD_PRIO_GLO = 12"

type_synonym 'z join = "machine \<Rightarrow> thread_statics \<times> 'z kernel_scheme \<Rightarrow> thread_statics \<times> 'z kernel_scheme"

definition shell_init :: "u32 \<Rightarrow> 'z join" where
  "shell_init fn m = (\<lambda>(st, k). snd (thread_join_init shell_name fn 0 2048 (32 - 1) 8 m st k))"

definition idle_init :: "u32 \<Rightarrow> 'z join" where
  "idle_init fn m = (\<lambda>(st, k). snd (thread_join_init idle_name fn 0 2048 (32 - 1) 8 m st k))"

definition rt_hw_eth_init :: "u32 \<Rightarrow> 'z join" where
  "rt_hw_eth_init fn m = (\<lambda>(st, k). snd (thread_join_init (map chr ''hw_eth_init'') fn 0 2048 12 1000 m st k))"

definition usb_init :: "u32 \<Rightarrow> 'z join" where
  "usb_init fn m =
    (\<lambda>(st, k). snd (thread_join_init (map chr ''usb_init'') fn 0 (4096 * 2) (TCPIP_THREAD_PRIO_GLO + 3) 100 m st k))"

definition nand_init :: "u32 \<Rightarrow> 'z join" where
  "nand_init fn m =
    (\<lambda>(st, k). snd (thread_join_init (map chr ''nand_init'') fn 0 4096 (TCPIP_THREAD_PRIO_GLO + 2) 100 m st k))"

record 'm five =
  for_shell :: 'm
  for_idle :: 'm
  for_eth :: 'm
  for_usb :: 'm
  for_nand :: 'm

definition boot_created ::
  "u32 five \<Rightarrow> machine five \<Rightarrow> thread_statics \<times> 'z kernel_scheme \<Rightarrow> thread_statics \<times> 'z kernel_scheme" where
  "boot_created fn m = (\<lambda>(st, k).
    nand_init (for_nand fn) (for_nand m)
      (usb_init (for_usb fn) (for_usb m)
        (rt_hw_eth_init (for_eth fn) (for_eth m)
          (idle_init (for_idle fn) (for_idle m)
            (shell_init (for_shell fn) (for_shell m) (st, thread_init k))))))"

definition boot_threads ::
  "u32 five \<Rightarrow> machine five \<Rightarrow> thread_statics \<times> 'z kernel_scheme \<Rightarrow> halt + 'z kernel_scheme" where
  "boot_threads fn m s = thread_start (snd (boot_created fn m s))"

section \<open>The booted system\<close>

text \<open>
  A control block and a stack were found, the stack lies inside the address space.
\<close>

definition mem_ok :: "int \<Rightarrow> tid \<Rightarrow> machine \<Rightarrow> bool" where
  "mem_ok n t m \<longleftrightarrow> malloc_tcb m = Some t \<and> (\<exists>a. malloc_stack m = Some a \<and> uint a + n < 2 ^ 32)"

definition queue_good :: "node set \<Rightarrow> tid set \<Rightarrow> (node \<Rightarrow> node list) \<Rightarrow> 'z kernel_scheme \<Rightarrow> bool" where
  "queue_good S L q k \<longleftrightarrow> kinv {} S L q k \<and> rt_current_thread k = None \<and> stacks_ok L k \<and> (\<forall>t\<in>L. \<not> timer_on k t) \<and> cpu k = None"

definition same_base :: "'z kernel_scheme \<Rightarrow> 'z kernel_scheme \<Rightarrow> bool" where
  "same_base k k' \<longleftrightarrow> rt_interrupt_nest k' = rt_interrupt_nest k \<and> kernel.more k' = kernel.more k \<and>
    rt_thread_switch_interrupt_flag k' = rt_thread_switch_interrupt_flag k \<and> system_tick k' = system_tick k"

lemma join_good:
  assumes k: "queue_good S L q k" and t: "t \<notin> L" and p: "0 \<le> prio" "prio < 32" and m: "mem_ok n t m" and n: "160 \<le> n"
  shows "queue_good S (insert t L) (join_queue t (nat prio) q) (snd (snd (thread_join_init name fn ud n prio run m st k)))"
    and "same_base k (snd (snd (thread_join_init name fn ud n prio run m st k)))"
proof -
  obtain addr where a: "malloc_tcb m = Some t" "malloc_stack m = Some addr" "uint addr + n < 2 ^ 32"
    using m by (auto simp: mem_ok_def)
  let ?k = "snd (snd (thread_join_init name fn ud n prio run m st k))"
  let ?b = "join_tcb name fn ud n prio run m st addr"
  have n0: "n \<noteq> 0" using n by simp
  have tcb: "tcb ?k t' = (if t' = t then ?b else tcb k t')" "rt_current_thread ?k = rt_current_thread k" for t'
    using join_state(2)[OF p(2) a(1) n0 a(2), of name fn ud run st k] by (simp_all add: upd_links_def upd_tcb_def)
  have "kinv {} S (insert t L) (join_queue t (nat prio) q) ?k"
    using k by (intro join_kinv[OF _ t p a(1) n0 a(2)]) (simp add: queue_good_def)
  moreover have "stacks_ok (insert t L) ?k" "cpu ?k = None"
    using k by (auto intro!: join_stacks[OF _ t _ p a(1,2) n a(3)] simp: queue_good_def join_regs[OF p(2) a(1) n0 a(2)])
  ultimately show "queue_good S (insert t L) (join_queue t (nat prio) q) ?k"
    using k tcb join_tcb_fields(4)[OF p] by (auto simp: queue_good_def)
  show "same_base k ?k"
    using join_state(2)[OF p(2) a(1) n0 a(2), of name fn ud run st k]
    by (simp add: same_base_def upd_links_def upd_tcb_def)
qed

definition boot_queues :: "tid five \<Rightarrow> node \<Rightarrow> node list" where
  "boot_queues t = join_queue (for_nand t) 14 (join_queue (for_usb t) 15 (join_queue (for_eth t) 12
     (join_queue (for_idle t) 31 (join_queue (for_shell t) 31 (\<lambda>_. [])))))"

definition five_set :: "'m five \<Rightarrow> 'm set" where
  "five_set t = {for_shell t, for_idle t, for_eth t, for_usb t, for_nand t}"

definition five_distinct :: "'m five \<Rightarrow> bool" where
  "five_distinct t \<longleftrightarrow> distinct [for_shell t, for_idle t, for_eth t, for_usb t, for_nand t]"

definition boot_mem :: "tid five \<Rightarrow> machine five \<Rightarrow> bool" where
  "boot_mem t m \<longleftrightarrow> five_distinct t \<and> mem_ok 2048 (for_shell t) (for_shell m) \<and> mem_ok 2048 (for_idle t) (for_idle m) \<and>
     mem_ok 2048 (for_eth t) (for_eth m) \<and> mem_ok 8192 (for_usb t) (for_usb m) \<and> mem_ok 4096 (for_nand t) (for_nand m)"

lemma boot_created_good:
  assumes "boot_mem t m" "rt_current_thread k = None" "cpu k = None"
  shows "queue_good {} (five_set t) (boot_queues t) (snd (boot_created fn m (st, k)))"
    and "same_base k (snd (boot_created fn m (st, k)))"
proof -
  note d = assms(1)[unfolded boot_mem_def five_distinct_def]
  have k0: "queue_good {} {} (\<lambda>_. []) (thread_init k)"
    using thread_init_kinv[OF assms(2)] assms(2,3)
    by (simp add: queue_good_def stacks_ok_def thread_init_def upd_links_def del: upt_rec_numeral)
  let ?s1 = "shell_init (for_shell fn) (for_shell m) (st, thread_init k)"
  let ?s2 = "idle_init (for_idle fn) (for_idle m) ?s1"
  let ?s3 = "rt_hw_eth_init (for_eth fn) (for_eth m) ?s2"
  let ?s4 = "usb_init (for_usb fn) (for_usb m) ?s3"
  have k1: "queue_good {} {for_shell t} (join_queue (for_shell t) 31 (\<lambda>_. [])) (snd ?s1)" "same_base (thread_init k) (snd ?s1)"
    using join_good[OF k0, of "for_shell t" 31] d by (simp_all add: shell_init_def)
  have k2: "queue_good {} {for_idle t, for_shell t} (join_queue (for_idle t) 31 (join_queue (for_shell t) 31 (\<lambda>_. []))) (snd ?s2)"
      "same_base (snd ?s1) (snd ?s2)"
    using join_good[OF k1(1), of "for_idle t" 31] d by (auto simp: idle_init_def split_def)
  have k3: "queue_good {} {for_eth t, for_idle t, for_shell t} (join_queue (for_eth t) 12
      (join_queue (for_idle t) 31 (join_queue (for_shell t) 31 (\<lambda>_. [])))) (snd ?s3)"
      "same_base (snd ?s2) (snd ?s3)"
    using join_good[OF k2(1), of "for_eth t" 12] d by (auto simp: rt_hw_eth_init_def split_def)
  have k4: "queue_good {} {for_usb t, for_eth t, for_idle t, for_shell t} (join_queue (for_usb t) 15 (join_queue (for_eth t) 12
      (join_queue (for_idle t) 31 (join_queue (for_shell t) 31 (\<lambda>_. []))))) (snd ?s4)"
      "same_base (snd ?s3) (snd ?s4)"
    using join_good[OF k3(1), of "for_usb t" 15] d by (auto simp: usb_init_def split_def TCPIP_THREAD_PRIO_GLO_def)
  have k5: "queue_good {} {for_nand t, for_usb t, for_eth t, for_idle t, for_shell t} (boot_queues t)
      (snd (nand_init (for_nand fn) (for_nand m) ?s4))" "same_base (snd ?s4) (snd (nand_init (for_nand fn) (for_nand m) ?s4))"
    using join_good[OF k4(1), of "for_nand t" 14] d
    by (auto simp: nand_init_def split_def TCPIP_THREAD_PRIO_GLO_def boot_queues_def)
  have "five_set t = {for_nand t, for_usb t, for_eth t, for_idle t, for_shell t}"
    by (auto simp: five_set_def)
  then show "queue_good {} (five_set t) (boot_queues t) (snd (boot_created fn m (st, k)))"
    using k5 by (simp add: boot_created_def)
  have "same_base k (thread_init k)"
    by (simp add: same_base_def thread_init_def upd_links_def del: upt_rec_numeral)
  then show "same_base k (snd (boot_created fn m (st, k)))"
    using k1(2) k2(2) k3(2) k4(2) k5(2) by (simp add: boot_created_def same_base_def)
qed

lemma boot_next: "next_ready (boot_queues t) 12 (for_eth t)"
  by (auto simp: next_ready_def boot_queues_def join_queue_def)

lemma start_good:
  assumes g: "queue_good S L q k" and n: "next_ready q p t" and z: "rt_interrupt_nest k = 0" "\<not> rt_thread_switch_interrupt_flag k"
  shows "\<exists>k'. thread_start k = Inr k' \<and> sys_inv S L (unqueue t q) k' \<and> rt_current_thread k' = Some t \<and>
    tcb k' = (tcb k)(t := (tcb k t)\<lparr>statu := RT_THREAD_RUNNING\<rparr>) \<and> cpu k' = Some t \<and> same_base k k'"
proof -
  have gk: "kinv {} S L q k" "rt_current_thread k = None" using g by (simp_all add: queue_good_def)
  obtain k' where r: "thread_start k = Inr k'" "kinv {} S L (unqueue t q) k'" "rt_current_thread k' = Some t" "cpu k' = Some t"
      "tcb k' = (tcb k)(t := (tcb k t)\<lparr>statu := RT_THREAD_RUNNING\<rparr>)" "same_base k k'"
      "frames k' = frames k" "cpu_sp k' = pt_r29 (frames k t)"
    using start_kinv[OF gk n] by (auto simp: same_base_def)
  moreover have "stacks_ok L k'" "\<forall>t'\<in>L. \<not> timer_on k' t'"
    using g r(4-8) by (auto simp: queue_good_def stacks_ok_def rt_scheduler_stack_check_def user_sp_def in_stack_def)
  moreover have "ctx_ok k'" using r(3,4,6) z by (simp add: ctx_ok_def between_interrupts_def same_base_def)
  ultimately show ?thesis by (auto simp: sys_inv_def)
qed

lemma boot_sys_inv:
  assumes m: "boot_mem t m" and c: "rt_current_thread k = None" "cpu k = None"
    and z: "rt_interrupt_nest k = 0" "\<not> rt_thread_switch_interrupt_flag k"
  shows "\<exists>k'. boot_threads fn m (st, k) = Inr k' \<and> sys_inv {} (five_set t) (unqueue (for_eth t) (boot_queues t)) k' \<and>
    rt_current_thread k' = Some (for_eth t) \<and> statu_of k' (for_eth t) = RT_THREAD_RUNNING \<and> cpu k' = Some (for_eth t) \<and>
    same_base k k'"
  using start_good[OF boot_created_good(1)[OF m c] boot_next, of fn st] boot_created_good(2)[OF m c, of fn st] z
  by (auto simp: boot_threads_def same_base_def)

end
