(* ===== verification/System.thy ===== *)
theory System
  imports Boot
begin

text \<open>
  The kernel as a transition system. A configuration is the set of initialised wait queues,
  the set of created threads and the state. Between interrupts the current thread may run its
  own code, which moves its stack pointer and switches interrupts on and off, or call the
  kernel; while interrupts are on, the timer may interrupt. A call that blocks is one step up
  to the switch; the code after the switch (\<open>rt_mb_send_wait_resumed\<close>, \<open>rt_mb_recv_resumed\<close>)
  is a step of its own.

  Two things are asked of the threads. Their code keeps the stack pointer inside the stack with
  room for a register frame. And a thread gives up the processor, by sleeping, waiting or
  ending, only when another thread is ready: otherwise \<^verbatim>\<open>rt_schedule\<close> returns to it, it runs on
  although it is queued, and its next call inserts its list nodes a second time.
\<close>

type_synonym config = "node set \<times> tid set \<times> ipc"

definition running :: "tid \<Rightarrow> ipc \<Rightarrow> bool" where
  "running c k \<longleftrightarrow> rt_current_thread k = Some c \<and> statu_of k c = RT_THREAD_RUNNING"

definition another_ready :: "ipc \<Rightarrow> bool" where
  "another_ready k \<longleftrightarrow> rt_thread_ready_priority_group k \<noteq> 0"

inductive sys_step :: "config \<Rightarrow> config \<Rightarrow> bool" where
  Tick: "irq k \<Longrightarrow> timer_interrupt k = Some (Inr k') \<Longrightarrow> sys_step (S, L, k) (S, L, k')"
| Run: "running c k \<Longrightarrow> in_stack (tcb k c) a \<Longrightarrow> sys_step (S, L, k) (S, L, k\<lparr>cpu_sp := a, irq := b\<rparr>)"
| Sleep: "running c k \<Longrightarrow> another_ready k \<Longrightarrow> rt_thread_delay n k = Inr k' \<Longrightarrow> sys_step (S, L, k) (S, L, k')"
| Exit: "running c k \<Longrightarrow> another_ready k \<Longrightarrow> rt_thread_exit k = Inr k' \<Longrightarrow> sys_step (S, L, k) (S, L, k')"
| Kill: "running c k \<Longrightarrow> (thread_id (tcb k c) = i \<longrightarrow> another_ready k) \<Longrightarrow> killThreadFun i k = Some (Inr k') \<Longrightarrow>
    sys_step (S, L, k) (S, L, k')"
| Join: "running c k \<Longrightarrow> malloc_tcb m = Some t \<Longrightarrow> t \<notin> L \<Longrightarrow> malloc_stack m = Some a \<Longrightarrow>
    0 \<le> prio \<Longrightarrow> prio < 32 \<Longrightarrow> 160 \<le> n \<Longrightarrow> uint a + n < 2 ^ 32 \<Longrightarrow>
    thread_join_init name fn ud n prio run m st k = (Some t, st', k') \<Longrightarrow> sys_step (S, L, k) (S, insert t L, k')"
| Sem_init: "running c k \<Longrightarrow> SemQ s \<notin> S \<Longrightarrow> rt_sem_init s v f k = (r, k') \<Longrightarrow>
    sys_step (S, L, k) (insert (SemQ s) S, L, k')"
| Sem_take: "running c k \<Longrightarrow> SemQ s \<in> S \<Longrightarrow> (sem_value (sems k s) = 0 \<and> time \<noteq> 0 \<longrightarrow> another_ready k) \<Longrightarrow>
    rt_sem_take s time k = Inr (r, k') \<Longrightarrow> sys_step (S, L, k) (S, L, k')"
| Sem_release: "running c k \<Longrightarrow> SemQ s \<in> S \<Longrightarrow> rt_sem_release s k = Inr (r, k') \<Longrightarrow> sys_step (S, L, k) (S, L, k')"
| Mb_init: "running c k \<Longrightarrow> MbQ m \<notin> S \<Longrightarrow> MbSendQ m \<notin> S \<Longrightarrow> (ucast n :: u16) \<noteq> 0 \<Longrightarrow>
    rt_mb_init m pool n f k = (r, k') \<Longrightarrow> sys_step (S, L, k) (insert (MbSendQ m) (insert (MbQ m) S), L, k')"
| Mb_send: "running c k \<Longrightarrow> MbQ m \<in> S \<Longrightarrow> (mb_full (mbs k m) \<and> time \<noteq> 0 \<longrightarrow> another_ready k) \<Longrightarrow>
    rt_mb_send_wait m v time k = Some (Inr (r, k')) \<Longrightarrow> sys_step (S, L, k) (S, L, k')"
| Mb_recv: "running c k \<Longrightarrow> MbQ m \<in> S \<Longrightarrow> (mb_empty (mbs k m) \<and> wtime \<noteq> 0 \<longrightarrow> another_ready k) \<Longrightarrow>
    rt_mb_recv m wtime k = Some (Inr (r, k')) \<Longrightarrow> sys_step (S, L, k) (S, L, k')"
| Mb_send_resumed: "running c k \<Longrightarrow> MbQ m \<in> S \<Longrightarrow> (mb_full (mbs k m) \<longrightarrow> another_ready k) \<Longrightarrow>
    rt_mb_send_wait_resumed m v c time d k = Some (Inr (r, k')) \<Longrightarrow> sys_step (S, L, k) (S, L, k')"
| Mb_recv_resumed: "running c k \<Longrightarrow> MbQ m \<in> S \<Longrightarrow> (mb_empty (mbs k m) \<longrightarrow> another_ready k) \<Longrightarrow>
    rt_mb_recv_resumed m c wtime d k = Some (Inr (r, k')) \<Longrightarrow> sys_step (S, L, k) (S, L, k')"

inductive_cases sys_stepE: "sys_step x y"

text \<open>
  The invariant of a configuration. Its last part says that the current thread is always one
  that may call the kernel: the guard \<open>running\<close> of the steps only names it.
\<close>

definition config_ok :: "config \<Rightarrow> bool" where
  "config_ok x \<longleftrightarrow> (case x of (S, L, k) \<Rightarrow> (\<exists>q. ipc_inv S L q k) \<and> between_interrupts k \<and> cur_running k)"

section \<open>Every step keeps the invariant\<close>

lemma config_okI: "ipc_inv S L q k \<Longrightarrow> between_interrupts k \<Longrightarrow> cur_running k \<Longrightarrow> config_ok (S, L, k)"
  by (auto simp: config_ok_def)

lemma config_okE:
  assumes "config_ok (S, L, k)"
  obtains q where "ipc_inv S L q k" "between_interrupts k" "cur_running k"
  using assms by (auto simp: config_ok_def)

lemma another_ready_queue:
  assumes "ipc_inv S L q k"
  shows "another_ready k \<longleftrightarrow> (\<exists>p<32. q (Ready p) \<noteq> [])"
  using group_zero[OF sys_invD(1)[OF ipc_invD(1)[OF assms]]] by (auto simp: another_ready_def)

lemma timer_interrupt_ipc:
  assumes k: "ipc_inv S L q k" and b: "between_interrupts k" "cur_running k" and t: "timer_interrupt k = Some (Inr k')"
  shows "config_ok (S, L, k')"
proof -
  let ?X = "{t. t \<in> L \<and> expired (sys_tick_increase k) t}"
  obtain c where c: "rt_current_thread k = Some c" using sys_invD(2)[OF ipc_invD(1)[OF k]] by blast
  obtain k2 q' where r: "timer_interrupt k = Some (Inr k2)" "sys_inv S L q' k2" "between_interrupts k2" "dropped S ?X q q'"
      "\<forall>t. \<not> (t \<in> L \<and> expired (sys_tick_increase k) t) \<longrightarrow> error (tcb k2 t) = error (tcb k t)" "cur_running k2"
      "kernel.more k2 = kernel.more k"
    using timer_interrupt_total[OF ipc_invD(1)[OF k] b(1) c] b(2) by blast
  have d: "q' l = filter (\<lambda>n. n \<notin> TList ` ?X) (q l)" if "l \<in> S" "l \<in> wait_queues" for l
    using r(4) that by (auto simp: dropped_def wait_queues_def)
  have "ipc_inv S L q' k2" by (rule ipc_inv_step[OF k r(2,7)]) (use d r(5) in auto)
  then show ?thesis using r(1,3,6) t by (auto intro: config_okI)
qed

lemma run_ipc:
  assumes k: "ipc_inv S L q k" "between_interrupts k" "cur_running k" and c: "running c k" and a: "in_stack (tcb k c) a"
  shows "config_ok (S, L, k\<lparr>cpu_sp := a, irq := b\<rparr>)"
proof -
  let ?k = "k\<lparr>cpu_sp := a, irq := b\<rparr>"
  note s = ipc_invD(1)[OF k(1)]
  have n: "rt_interrupt_nest k = 0" "cpu k = Some c" using k(2) c by (simp_all add: between_interrupts_def running_def)
  have b: "between_interrupts ?k" "cur_running ?k" using k(2,3) by (simp_all add: between_interrupts_def cur_running_def)
  have "stacks_ok L ?k"
    using sys_invD(3)[OF s] n a by (auto simp: stacks_ok_def rt_scheduler_stack_check_def user_sp_def split: if_splits)
  then have "sys_inv S L q ?k" using s n b by (simp add: sys_inv_def frame_simps ctx_ok_def)
  then have "ipc_inv S L q ?k" by (rule ipc_inv_step[OF k(1)]) (auto simp: ipc_invD(2)[OF k(1)])
  then show ?thesis using b by (rule config_okI)
qed

lemma sleep_ipc:
  assumes k: "ipc_inv S L q k" "between_interrupts k" and c: "running c k" "another_ready k" and r: "rt_thread_sleep n k = Inr k'"
  shows "config_ok (S, L, k')"
proof -
  obtain k2 q' where k2: "rt_thread_sleep n k = Inr k2" "sys_inv S L q' k2" "kernel.more k2 = kernel.more k"
      "between_interrupts k2" "\<forall>t. error (tcb k2 t) = error (tcb k t)" "\<forall>l\<in>S. l \<in> wait_queues \<longrightarrow> q' l = q l" "cur_running k2"
    using sleep_sys_inv[OF ipc_invD(1)[OF k(1)], of c n] c another_ready_queue[OF k(1)] k(2) unfolding running_def by blast
  have "ipc_inv S L q' k2" by (rule ipc_inv_step[OF k(1) k2(2,3)]) (use k2(5,6) in auto)
  then show ?thesis using k2(1,4,7) r by (auto intro: config_okI)
qed

lemma exit_ipc:
  assumes k: "ipc_inv S L q k" "between_interrupts k" and c: "running c k" "another_ready k" and r: "rt_thread_exit k = Inr k'"
  shows "config_ok (S, L, k')"
proof -
  have st: "rt_current_thread k = Some c" "statu_of k c \<noteq> RT_THREAD_READY" using c(1) by (simp_all add: running_def)
  obtain k2 q' where k2: "rt_thread_exit k = Inr k2" "sys_inv S L q' k2" "kernel.more k2 = kernel.more k"
      "between_interrupts k2" "\<forall>t. error (tcb k2 t) = error (tcb k t)"
      "\<forall>l\<in>S. l \<in> wait_queues \<longrightarrow> q' l = remove1 (TList c) (q l)" "cur_running k2"
    using exit_sys_inv[OF ipc_invD(1)[OF k(1)] st(1)] st(2) c(2) another_ready_queue[OF k(1)] k(2) by blast
  have "ipc_inv S L q' k2"
    by (rule ipc_inv_step[OF k(1) k2(2,3)]) (use k2(5,6) in \<open>auto dest: notin_set_remove1\<close>)
  then show ?thesis using k2(1,4,7) r by (auto intro: config_okI)
qed

lemma kill_ipc:
  assumes k: "ipc_inv S L q k" "between_interrupts k" "cur_running k"
    and c: "running c k" "thread_id (tcb k c) = i \<longrightarrow> another_ready k" and r: "killThreadFun i k = Some (Inr k')"
  shows "config_ok (S, L, k')"
proof -
  have w: "\<forall>c. rt_current_thread k = Some c \<longrightarrow> thread_id (tcb k c) = i \<longrightarrow> (\<exists>p<32. q (Ready p) \<noteq> [])"
    using c another_ready_queue[OF k(1)] by (auto simp: running_def)
  obtain k2 q' where k2: "killThreadFun i k = Some (Inr k2)" "sys_inv S L q' k2" "kernel.more k2 = kernel.more k"
      "between_interrupts k2" "\<forall>t. error (tcb k2 t) = error (tcb k t)"
      "\<forall>l\<in>S. l \<in> wait_queues \<longrightarrow> set (q' l) \<subseteq> set (q l)" "cur_running k2"
    using kill_sys_inv[OF ipc_invD(1)[OF k(1)], of i] k(2,3) w by blast
  have "ipc_inv S L q' k2"
    by (rule ipc_inv_step[OF k(1) k2(2,3)]) (use k2(5,6) in auto)
  then show ?thesis using k2(1,4,7) r by (auto intro: config_okI)
qed

lemma join_ipc:
  assumes k: "ipc_inv S L q k" "between_interrupts k" "cur_running k" and m: "malloc_tcb m = Some t" "t \<notin> L" "malloc_stack m = Some a"
    and p: "0 \<le> prio" "prio < 32" "160 \<le> n" "uint a + n < 2 ^ 32"
    and r: "thread_join_init name fn ud n prio run m st k = (Some t, st', k')"
  shows "config_ok (S, insert t L, k')"
proof -
  let ?q = "join_queue t (nat prio) q"
  note ki = sys_invD(1)[OF ipc_invD(1)[OF k(1)]]
  have n0: "n \<noteq> 0" using p by simp
  have k': "k' = snd (snd (thread_join_init name fn ud n prio run m st k))" using r by simp
  have tc: "rt_current_thread k \<noteq> Some t" using kinv_current[OF ki] m(2) by blast
  then have tp: "cpu k \<noteq> Some t" using k(2) by (simp add: between_interrupts_def)
  have s: "sys_inv S (insert t L) ?q k'"
    unfolding k' by (rule join_sys_inv[OF ipc_invD(1)[OF k(1)] m(2) tp p(1,2) m(1,3) p(3,4)])
  note js = join_state(2)[OF p(2) m(1) n0 m(3), of name fn ud run st k, folded k']
  have fr: "kernel.more k' = kernel.more k" "between_interrupts k'" "\<And>t'. t' \<noteq> t \<Longrightarrow> tcb k' t' = tcb k t'" "cur_running k'"
    using js k(2,3) tc by (auto simp: upd_links_def upd_tcb_def between_interrupts_def cur_running_def)
  have out: "TList t \<notin> set (q l)" if "l \<in> S" "l \<in> wait_queues" for l
    using new_nodes_out(1)[OF ki m(2), of l] that by simp
  have q: "?q l = q l" if "l \<in> wait_queues" for l using that by (auto simp: join_queue_def wait_queues_def)
  have "error (tcb k' t') = RT_EOK" if "l \<in> S" "l \<in> wait_queues" "TList t' \<in> set (q l)" for l t'
    using ipc_invD(2)[OF k(1) that] out[OF that(1,2)] that(3) fr(3)[of t'] by (cases "t' = t") auto
  then have "ipc_inv S (insert t L) ?q k'"
    using s k(1) q ipc_more[OF fr(1)] by (simp add: ipc_inv_def)
  then show ?thesis using fr(2,4) by (rule config_okI)
qed

lemma objects_between:
  "between_interrupts (snd (rt_sem_init s v f k)) = between_interrupts k"
  "between_interrupts (snd (rt_mb_init m pool n f k)) = between_interrupts k"
  "between_interrupts (upd_sem s g k) = between_interrupts k" "between_interrupts (upd_mb m h k) = between_interrupts k"
  "cur_running (snd (rt_sem_init s v f k)) = cur_running k"
  "cur_running (snd (rt_mb_init m pool n f k)) = cur_running k"
  "cur_running (upd_sem s g k) = cur_running k" "cur_running (upd_mb m h k) = cur_running k"
  by (simp_all add: between_interrupts_def cur_running_def rt_sem_init_def rt_mb_init_def upd_sem_def upd_mb_def upd_links_def Let_def)

lemma blocked_config:
  assumes "blocked_on S L q l c time k k'" "between_interrupts k" "\<exists>p<32. q (Ready p) \<noteq> []"
  shows "config_ok (S, L, k')"
  using assms by (auto simp: blocked_on_def intro: config_okI)

lemma take_ipc:
  assumes k: "ipc_inv S L q k" "between_interrupts k" "cur_running k" and c: "running c k" and s: "SemQ s \<in> S"
    and w: "sem_value (sems k s) = 0 \<and> time \<noteq> 0 \<longrightarrow> another_ready k"
    and r: "rt_sem_take s time k = Inr (x, k')"
  shows "config_ok (S, L, k')"
proof -
  have n: "rt_interrupt_nest k = 0" using k(2) by (simp add: between_interrupts_def)
  consider "sem_value (sems k s) \<noteq> 0" | "sem_value (sems k s) = 0" "time = 0" | "sem_value (sems k s) = 0" "time \<noteq> 0" by blast
  then show ?thesis
  proof cases
    case 1
    have "ipc_inv S L q (upd_sem s (\<lambda>m. m\<lparr>sem_value := sem_value m - 1\<rparr>) k)"
      using ipc_invD(3)[OF k(1) s 1] by (intro ipc_upd_sem[OF k(1)]) auto
    then show ?thesis using sem_take_available[OF 1] r k(2,3) by (auto intro!: config_okI simp: objects_between)
  next
    case 2
    then show ?thesis using sem_take_poll[of k s] r k by (auto intro: config_okI)
  next
    case 3
    then have ne: "\<exists>p<32. q (Ready p) \<noteq> []" using w another_ready_queue[OF k(1)] by simp
    obtain k2 y tm where "rt_sem_take s time k = Inr (y, k2)" "blocked_on S L q (SemQ s) c tm k k2"
      using sem_take_blocks[OF k(1), of c s time] c s n 3 unfolding running_def by blast
    then show ?thesis using r blocked_config[OF _ k(2) ne] by auto
  qed
qed

lemma woken_config: "woken_from S L q l t r k k' \<Longrightarrow> between_interrupts k \<Longrightarrow> cur_running k \<Longrightarrow> config_ok (S, L, k')"
  by (auto simp: woken_from_def intro: config_okI)

lemma wait_shape:
  assumes "ipc_inv S L q k" "l \<in> S" "l \<in> wait_queues"
  obtains "q l = []" | t r where "q l = TList t # r"
  using wait_first(2)[OF assms] by blast

lemma release_ipc:
  assumes k: "ipc_inv S L q k" "between_interrupts k" "cur_running k" and s: "SemQ s \<in> S" and r: "rt_sem_release s k = Inr (x, k')"
  shows "config_ok (S, L, k')"
proof (cases rule: wait_shape[OF k(1) s])
  case 2
  have "ipc_inv S L q (upd_sem s (\<lambda>m. m\<lparr>sem_value := sem_value m + 1\<rparr>) k)" using 2 by (intro ipc_upd_sem[OF k(1)]) auto
  then show ?thesis using sem_release_free[OF k(1) s 2] r k(2,3) by (auto intro!: config_okI simp: objects_between)
next
  case (3 t rest)
  then show ?thesis using sem_release_waiter[OF k(1) s 3] r k(2,3) by (auto intro: woken_config)
qed simp

lemma running_error_ipc:
  assumes k: "ipc_inv S L q k" "between_interrupts k" "cur_running k" and c: "running c k"
  shows "config_ok (S, L, upd_tcb c (\<lambda>b. b\<lparr>error := e\<rparr>) k)"
proof -
  let ?k = "upd_tcb c (\<lambda>b. b\<lparr>error := e\<rparr>) k"
  note s = ipc_invD(1)[OF k(1)]
  have "ipc_inv S L q ?k"
  proof (rule ipc_inv_step[OF k(1)])
    show "sys_inv S L q ?k"
      using kinv_upd_tcb[OF sys_invD(1)[OF s], of "\<lambda>b. b\<lparr>error := e\<rparr>" c]
      by (intro sys_inv_step[OF s]) (auto simp: upd_tcb_def)
    show "error (tcb ?k t) = RT_EOK \<or> (TList t \<in> set (q l) \<and> error (tcb ?k t) = error (tcb k t))"
      if "l \<in> S" "l \<in> wait_queues" "TList t \<in> set (q l)" for l t
      using running_not_queued[OF sys_invD(1)[OF s], of c l] c that by (auto simp: running_def upd_tcb_def)
  qed (simp_all add: upd_tcb_def)
  then show ?thesis using k(2,3) by (auto intro!: config_okI simp: between_interrupts_def cur_running_def upd_tcb_def)
qed

text \<open>The loops of the mailbox calls, entered with any rest of the time.\<close>

lemma send_loop_ipc:
  assumes k: "ipc_inv S L q k" "between_interrupts k" "cur_running k" and c: "running c k" and m: "MbQ m \<in> S"
    and w: "mb_full (mbs k m) \<and> time \<noteq> 0 \<longrightarrow> another_ready k"
    and r: "mb_send_loop m v c time d (irq k) (k\<lparr>irq := False\<rparr>) = Some (Inr (x, k'))"
  shows "config_ok (S, L, k')"
proof -
  have n: "rt_interrupt_nest k = 0" using k(2) by (simp add: between_interrupts_def)
  note cr = c[unfolded running_def]
  consider "mb_full (mbs k m)" "time = 0" | "mb_full (mbs k m)" "time \<noteq> 0" | "\<not> mb_full (mbs k m)" by blast
  then show ?thesis
  proof cases
    case 1
    then have "k' = upd_tcb c (\<lambda>b. b\<lparr>error := RT_EOK\<rparr>) k"
      using r by (simp add: mb_send_loop.simps mb_send_round_def irq_defs upd_tcb_def Let_def)
    then show ?thesis using running_error_ipc[OF k c] by simp
  next
    case 2
    then have ne: "\<exists>p<32. q (Ready p) \<noteq> []" using w another_ready_queue[OF k(1)] by simp
    obtain k2 d' tm where "mb_send_round m v c time d (irq k) (k\<lparr>irq := False\<rparr>) = Inr (Leaves (Blocked c (time, d')), k2)"
        "blocked_on S L q (MbSendQ m) c tm k k2"
      using send_round_waits[OF k(1) conjunct1[OF cr] conjunct2[OF cr] m 2 n, of v d] ne by auto
    then show ?thesis using r blocked_config[OF _ k(2) ne] by (simp add: mb_send_loop.simps)
  next
    case 3
    then have "mb_send_round m v c time d (irq k) (k\<lparr>irq := False\<rparr>) = mb_send_round m v c time 0 (irq k) (k\<lparr>irq := False\<rparr>)"
      by (simp add: mb_send_round_def)
    then have "mb_send_loop m v c time d (irq k) (k\<lparr>irq := False\<rparr>) = rt_mb_send_wait m v time k"
      using 3 cr by (simp add: rt_mb_send_wait_def rt_thread_self_def irq_defs mb_send_loop.simps[of m v c time])
    then have w: "rt_mb_send_wait m v time k = Some (Inr (x, k'))" using r by simp
    show ?thesis
    proof (cases rule: wait_shape[OF k(1) m])
      case 2
      have "ipc_inv S L q (upd_mb m (mb_put v) k)" by (rule ipc_upd_mb[OF k(1)]) (rule mbq.put_inv[OF _ 3])
      then show ?thesis using mb_send_space(1)[OF k(1) m 3 2] w k(2,3) by (auto intro!: config_okI simp: objects_between)
    next
      case (3 t rest)
      obtain k2 where "rt_mb_send_wait m v time k = Some (Inr (Ret RT_EOK, k2))" "woken_from S L q (MbQ m) t rest (upd_mb m (mb_put v) k) k2"
        using mb_send_space(2)[OF k(1) m \<open>\<not> mb_full (mbs k m)\<close> 3, of v time] by blast
      then show ?thesis using w k(2,3) woken_config[of S L q "MbQ m" t rest "upd_mb m (mb_put v) k" k2] by (simp add: objects_between)
    qed simp
  qed
qed

lemma send_ipc:
  assumes k: "ipc_inv S L q k" "between_interrupts k" "cur_running k" and c: "running c k" and m: "MbQ m \<in> S"
    and w: "mb_full (mbs k m) \<and> time \<noteq> 0 \<longrightarrow> another_ready k"
    and r: "rt_mb_send_wait m v time k = Some (Inr (x, k'))"
  shows "config_ok (S, L, k')"
proof (cases "mb_full (mbs k m) \<and> time = 0")
  case True
  then show ?thesis using r c k by (auto simp: rt_mb_send_wait_def rt_thread_self_def irq_defs running_def intro: config_okI)
next
  case False
  then have "mb_send_loop m v c time 0 (irq k) (k\<lparr>irq := False\<rparr>) = Some (Inr (x, k'))"
    using r c by (auto simp: rt_mb_send_wait_def rt_thread_self_def irq_defs running_def)
  then show ?thesis by (rule send_loop_ipc[OF k c m w])
qed

lemma send_resumed_ipc:
  assumes k: "ipc_inv S L q k" "between_interrupts k" "cur_running k" and c: "running c k" and m: "MbQ m \<in> S"
    and w: "mb_full (mbs k m) \<longrightarrow> another_ready k"
    and r: "rt_mb_send_wait_resumed m v c time d k = Some (Inr (x, k'))"
  shows "config_ok (S, L, k')"
proof (cases "error (tcb k c) = RT_EOK")
  case True
  then obtain time' d' where "mb_send_loop m v c time' d' (irq k) (k\<lparr>irq := False\<rparr>) = Some (Inr (x, k'))"
    using r by (auto simp: rt_mb_send_wait_resumed_def mb_send_back_def irq_defs Let_def)
  then show ?thesis using w by (intro send_loop_ipc[OF k c m]) auto
qed (use r k in \<open>auto simp: rt_mb_send_wait_resumed_def mb_send_back_def intro: config_okI\<close>)

lemma recv_loop_ipc:
  assumes k: "ipc_inv S L q k" "between_interrupts k" "cur_running k" and c: "running c k" and m: "MbQ m \<in> S"
    and w: "mb_empty (mbs k m) \<and> time \<noteq> 0 \<longrightarrow> another_ready k"
    and r: "mb_recv_loop m c time d (irq k) (k\<lparr>irq := False\<rparr>) = Some (Inr (x, k'))"
  shows "config_ok (S, L, k')"
proof -
  have n: "rt_interrupt_nest k = 0" using k(2) by (simp add: between_interrupts_def)
  note cr = c[unfolded running_def] and ms = ipc_invD(5)[OF k(1) m]
  consider "mb_empty (mbs k m)" "time = 0" | "mb_empty (mbs k m)" "time \<noteq> 0" | "\<not> mb_empty (mbs k m)" by blast
  then show ?thesis
  proof cases
    case 1
    then have "k' = upd_tcb c (\<lambda>b. b\<lparr>error := - RT_ETIMEOUT\<rparr>) k"
      using r by (simp add: mb_recv_loop.simps mb_recv_round_def irq_defs upd_tcb_def Let_def)
    then show ?thesis using running_error_ipc[OF k c] by simp
  next
    case 2
    then have ne: "\<exists>p<32. q (Ready p) \<noteq> []" using w another_ready_queue[OF k(1)] by simp
    obtain k2 d' where "mb_recv_round m c time d (irq k) (k\<lparr>irq := False\<rparr>) = Inr (Leaves (Blocked c (time, d'), None), k2)"
        "blocked_on S L q (MbQ m) c (Some time) k k2"
      using recv_round_waits[OF k(1) conjunct1[OF cr] conjunct2[OF cr] m 2 n, of d] ne by auto
    then show ?thesis using r blocked_config[OF _ k(2) ne] by (auto simp: mb_recv_loop.simps)
  next
    case 3
    then have "mb_recv_round m c time d (irq k) (k\<lparr>irq := False\<rparr>) = mb_recv_round m c time 0 (irq k) (k\<lparr>irq := False\<rparr>)"
      by (simp add: mb_recv_round_def)
    then have "mb_recv_loop m c time d (irq k) (k\<lparr>irq := False\<rparr>) = rt_mb_recv m time k"
      using 3 cr by (simp add: rt_mb_recv_def rt_thread_self_def irq_defs mb_recv_loop.simps[of m c time])
    then have w: "rt_mb_recv m time k = Some (Inr (x, k'))" using r by simp
    let ?k1 = "upd_mb m (\<lambda>_. snd (mb_get (mbs k m))) k"
    show ?thesis
    proof (cases rule: wait_shape[OF k(1) ms])
      case 2
      have "ipc_inv S L q ?k1" by (rule ipc_upd_mb[OF k(1)]) (rule mbq.get_inv[OF _ 3])
      then show ?thesis using mb_recv_message(1)[OF k(1) m 3 2] w k(2,3) by (auto intro!: config_okI simp: objects_between)
    next
      case (3 t rest)
      obtain k2 y where "rt_mb_recv m time k = Some (Inr (y, k2))" "woken_from S L q (MbSendQ m) t rest ?k1 k2"
        using mb_recv_message(2)[OF k(1) m \<open>\<not> mb_empty (mbs k m)\<close> 3, of time] by blast
      then show ?thesis using w k(2,3) woken_config[of S L q "MbSendQ m" t rest ?k1 k2] by (simp add: objects_between)
    qed simp
  qed
qed

lemma recv_ipc:
  assumes k: "ipc_inv S L q k" "between_interrupts k" "cur_running k" and c: "running c k" and m: "MbQ m \<in> S"
    and w: "mb_empty (mbs k m) \<and> time \<noteq> 0 \<longrightarrow> another_ready k"
    and r: "rt_mb_recv m time k = Some (Inr (x, k'))"
  shows "config_ok (S, L, k')"
proof (cases "mb_empty (mbs k m) \<and> time = 0")
  case True
  then show ?thesis using r c k by (auto simp: rt_mb_recv_def rt_thread_self_def irq_defs running_def intro: config_okI)
next
  case False
  then have "mb_recv_loop m c time 0 (irq k) (k\<lparr>irq := False\<rparr>) = Some (Inr (x, k'))"
    using r c by (auto simp: rt_mb_recv_def rt_thread_self_def irq_defs running_def)
  then show ?thesis by (rule recv_loop_ipc[OF k c m w])
qed

lemma recv_resumed_ipc:
  assumes k: "ipc_inv S L q k" "between_interrupts k" "cur_running k" and c: "running c k" and m: "MbQ m \<in> S"
    and w: "mb_empty (mbs k m) \<longrightarrow> another_ready k"
    and r: "rt_mb_recv_resumed m c time d k = Some (Inr (x, k'))"
  shows "config_ok (S, L, k')"
proof (cases "error (tcb k c) = RT_EOK")
  case True
  then obtain time' d' where "mb_recv_loop m c time' d' (irq k) (k\<lparr>irq := False\<rparr>) = Some (Inr (x, k'))"
    using r by (auto simp: rt_mb_recv_resumed_def mb_recv_back_def irq_defs Let_def)
  then show ?thesis using w by (intro recv_loop_ipc[OF k c m]) auto
qed (use r k in \<open>auto simp: rt_mb_recv_resumed_def mb_recv_back_def intro: config_okI\<close>)

lemma step_config_ok:
  assumes "sys_step x y" "config_ok x"
  shows "config_ok y"
  using assms
proof (induction rule: sys_step.induct)
  case (Sem_init c k s S v f r k' L)
  then obtain q where q: "ipc_inv S L q k" "between_interrupts k" "cur_running k" by (auto simp: config_ok_def)
  from sem_init_inv[OF q(1) Sem_init(2), of v f] show ?case
    using Sem_init(3) q(2,3) objects_between(1,5)[of s v f k] by (auto intro!: config_okI)
next
  case (Mb_init c k m S n pool f r k' L)
  then obtain q where q: "ipc_inv S L q k" "between_interrupts k" "cur_running k" by (auto simp: config_ok_def)
  from mb_init_inv[OF q(1) Mb_init(2,3,4), of pool f] show ?case
    using Mb_init(5) q(2,3) objects_between(2,6)[of m pool n f k] by (auto intro!: config_okI)
next
  case (Join c k m t L a prio n name fn ud run st st' k' S)
  from Join.prems obtain q where "ipc_inv S L q k" "between_interrupts k" "cur_running k" by (rule config_okE)
  then show ?case using Join.hyps(2-9) by (rule join_ipc)
next
  case (Tick k k' S L)
  then show ?case by (blast elim: config_okE intro: timer_interrupt_ipc)
next
  case (Run c k a S L b)
  then show ?case by (blast elim: config_okE intro: run_ipc)
next
  case (Sleep c k n k' S L)
  then show ?case unfolding rt_thread_delay_def by (blast elim: config_okE intro: sleep_ipc)
next
  case (Exit c k k' S L)
  then show ?case by (blast elim: config_okE intro: exit_ipc)
next
  case (Kill c k i k' S L)
  then show ?case by (blast elim: config_okE intro: kill_ipc)
next
  case (Sem_take c k s S time r k' L)
  then show ?case by (blast elim: config_okE intro: take_ipc)
next
  case (Sem_release c k s S r k' L)
  then show ?case by (blast elim: config_okE intro: release_ipc)
next
  case (Mb_send c k m S time v r k' L)
  then show ?case by (blast elim: config_okE intro: send_ipc)
next
  case (Mb_recv c k m S wtime r k' L)
  then show ?case by (blast elim: config_okE intro: recv_ipc)
next
  case (Mb_send_resumed c k m S v time d r k' L)
  then show ?case by (blast elim: config_okE intro: send_resumed_ipc)
next
  case (Mb_recv_resumed c k m S wtime d r k' L)
  then show ?case by (blast elim: config_okE intro: recv_resumed_ipc)
qed

lemma reachable_config_ok: "sys_step\<^sup>*\<^sup>* x y \<Longrightarrow> config_ok x \<Longrightarrow> config_ok y"
  by (induction rule: rtranclp_induct) (auto intro: step_config_ok)

end
