(* ===== verification/Sample.thy ===== *)
theory Sample
  imports Boot
begin

text \<open>
  A concrete booted system: five threads with their stacks, one semaphore with the value one
  and one mailbox for two messages. It shows that the invariants can hold and is the state at
  which the theorems of the kernel are instantiated.
\<close>

definition raw_ipc :: ipc where
  "raw_ipc = \<lparr>links = \<lparr>lnext = (\<lambda>n. n), lprev = (\<lambda>n. n)\<rparr>,
     tcb = (\<lambda>_. new_tcb [] 0 0 0 0 0 0), rt_current_thread = None, rt_current_priority = 0,
     rt_thread_ready_priority_group = 0, system_tick = 100, rt_interrupt_nest = 0, irq = True, cpu = None,
     cpu_sp = 0x81afffe0, frames = (\<lambda>_. \<lparr>pt_r29 = 0, pt_status = False, pt_epc = Elsewhere\<rparr>),
     rt_thread_switch_interrupt_flag = False, rt_interrupt_from_thread = None, rt_interrupt_to_thread = None,
     sems = (\<lambda>_. \<lparr>sem_value = 0, sem_flag = 0\<rparr>),
     mbs = (\<lambda>_. \<lparr>msg_pool = (\<lambda>_. 0), mb_size = 0, entry = 0, in_offset = 0, out_offset = 0, mb_flag = 0\<rparr>)\<rparr>"

definition sample_machine :: "tid \<Rightarrow> u32 \<Rightarrow> machine" where
  "sample_machine t a = \<lparr>malloc_tcb = Some t, malloc_stack = Some a, exit_addr = 0x80200000,
     c0_status = 0x10000001, gp_reg = 0x80300000\<rparr>"

definition sample_mem :: "machine five" where
  "sample_mem = \<lparr>for_shell = sample_machine 1 0x81b01000, for_idle = sample_machine 2 0x81b02000,
     for_eth = sample_machine 3 0x81b03000, for_usb = sample_machine 4 0x81b04000, for_nand = sample_machine 5 0x81b08000\<rparr>"

definition sample_tids :: "tid five" where
  "sample_tids = \<lparr>for_shell = 1, for_idle = 2, for_eth = 3, for_usb = 4, for_nand = 5\<rparr>"

definition sample_entries :: "u32 five" where
  "sample_entries = \<lparr>for_shell = 0x80210000, for_idle = 0x80211000, for_eth = 0x80212000,
     for_usb = 0x80213000, for_nand = 0x80214000\<rparr>"

definition sample_statics :: thread_statics where
  "sample_statics = \<lparr>threadIdIndex = 1, g_sr = 0, g_gp = 0\<rparr>"

definition booted :: ipc where
  "booted = projr (boot_threads sample_entries sample_mem (sample_statics, raw_ipc))"

definition sample :: ipc where
  "sample = snd (rt_mb_init 0 (\<lambda>_. 0) 2 0 (snd (rt_sem_init 0 1 0 booted)))"

definition sample_objs :: "node set" where
  "sample_objs = {SemQ 0, MbQ 0, MbSendQ 0}"

definition sample_queues :: "node \<Rightarrow> node list" where
  "sample_queues = (unqueue 3 (boot_queues sample_tids))(SemQ 0 := [], MbQ 0 := [], MbSendQ 0 := [])"

definition sample_threads :: "tid set" where
  "sample_threads = {1, 2, 3, 4, 5}"

lemma sample_boot_mem: "boot_mem sample_tids sample_mem"
  by (simp add: boot_mem_def five_distinct_def sample_tids_def sample_mem_def mem_ok_def sample_machine_def)

lemma booted_inv:
  "boot_threads sample_entries sample_mem (sample_statics, raw_ipc) = Inr booted"
  "sys_inv {} sample_threads (unqueue 3 (boot_queues sample_tids)) booted"
  "rt_current_thread booted = Some 3" "statu_of booted 3 = RT_THREAD_RUNNING" "cpu booted = Some 3"
  "same_base raw_ipc booted"
proof -
  have "rt_current_thread raw_ipc = None" "cpu raw_ipc = None" "rt_interrupt_nest raw_ipc = 0" "\<not> rt_thread_switch_interrupt_flag raw_ipc"
    by (simp_all add: raw_ipc_def)
  from boot_sys_inv[OF sample_boot_mem this, of sample_entries sample_statics]
  obtain k where k: "boot_threads sample_entries sample_mem (sample_statics, raw_ipc) = Inr k"
    "sys_inv {} (five_set sample_tids) (unqueue 3 (boot_queues sample_tids)) k"
    "rt_current_thread k = Some 3" "statu_of k 3 = RT_THREAD_RUNNING" "cpu k = Some 3" "same_base raw_ipc k"
    by (auto simp: sample_tids_def)
  have "five_set sample_tids = sample_threads" by (auto simp: five_set_def sample_tids_def sample_threads_def)
  moreover have "booted = k" using k(1) by (simp add: booted_def)
  ultimately show "boot_threads sample_entries sample_mem (sample_statics, raw_ipc) = Inr booted"
    "sys_inv {} sample_threads (unqueue 3 (boot_queues sample_tids)) booted"
    "rt_current_thread booted = Some 3" "statu_of booted 3 = RT_THREAD_RUNNING" "cpu booted = Some 3"
    "same_base raw_ipc booted"
    using k by simp_all
qed

lemma sample_inv: "ipc_inv sample_objs sample_threads sample_queues sample"
proof -
  have "ipc_inv {} sample_threads (unqueue 3 (boot_queues sample_tids)) booted"
    using booted_inv(2) by (simp add: ipc_inv_def)
  from sem_init_inv[OF this, of 0 1 0]
  have "ipc_inv {SemQ 0} sample_threads ((unqueue 3 (boot_queues sample_tids))(SemQ 0 := [])) (snd (rt_sem_init 0 1 0 booted))"
    by simp
  from mb_init_inv[OF this, of 0 2 "\<lambda>_. 0" 0] show ?thesis
    by (simp add: sample_def sample_objs_def sample_queues_def insert_commute)
qed

lemma sample_facts:
  "rt_current_thread sample = Some 3" "statu_of sample 3 = RT_THREAD_RUNNING" "rt_interrupt_nest sample = 0"
  "cpu sample = Some 3" "cur_running sample" "system_tick sample = 100" "between_interrupts sample"
  "sem_value (sems sample 0) = 1" "mb_empty (mbs sample 0)" "mb_size (mbs sample 0) = 2" "mb_inv (mbs sample 0)"
proof -
  have fr: "rt_current_thread sample = rt_current_thread booted" "tcb sample = tcb booted"
      "rt_interrupt_nest sample = rt_interrupt_nest booted" "cpu sample = cpu booted"
      "system_tick sample = system_tick booted"
      "rt_thread_switch_interrupt_flag sample = rt_thread_switch_interrupt_flag booted"
      "sem_value (sems sample 0) = 1" "mb_empty (mbs sample 0)" "mb_size (mbs sample 0) = 2"
    by (simp_all add: sample_def rt_mb_init_def rt_sem_init_def upd_mb_def upd_sem_def upd_links_def Let_def
        mb_reset_def mb_empty_def)
  have base: "rt_interrupt_nest booted = 0" "system_tick booted = 100" "\<not> rt_thread_switch_interrupt_flag booted"
    using booted_inv(6) by (simp_all add: same_base_def raw_ipc_def)
  show "rt_current_thread sample = Some 3" "statu_of sample 3 = RT_THREAD_RUNNING" "rt_interrupt_nest sample = 0"
    "cpu sample = Some 3" "cur_running sample" "system_tick sample = 100" "between_interrupts sample"
    "sem_value (sems sample 0) = 1" "mb_empty (mbs sample 0)" "mb_size (mbs sample 0) = 2"
    using fr base booted_inv by (simp_all add: between_interrupts_def cur_running_def)
  show "mb_inv (mbs sample 0)" using ipc_invD(4)[OF sample_inv, of 0] by (simp add: sample_objs_def)
qed

lemma sample_ready: "next_ready sample_queues 14 5"
  by (auto simp: next_ready_def sample_queues_def unqueue_def boot_queues_def join_queue_def sample_tids_def)

lemma sample_some_ready: "\<exists>p<32. sample_queues (Ready p) \<noteq> []"
  using sample_ready unfolding next_ready_def by blast

lemma sample_queue_simps [simp]:
  "SemQ 0 \<in> sample_objs" "MbQ 0 \<in> sample_objs" "MbSendQ 0 \<in> sample_objs"
  "sample_queues (SemQ 0) = []" "sample_queues (MbQ 0) = []" "sample_queues (MbSendQ 0) = []"
  by (simp_all add: sample_objs_def sample_queues_def)

end
