(* ===== verification/Kernel_Claims.thy ===== *)
theory Kernel_Claims
  imports System Sample
begin

unbundle bit_operations_syntax

text \<open>
  The properties of the thread kernel and of its IPC objects, each with an instance at the
  booted sample system.
\<close>

section \<open>Scheduling\<close>

text \<open>
  C1. When a thread is ready, \<^verbatim>\<open>rt_schedule\<close> switches to the head of the non-empty ready queue
  with the smallest priority number. The thread it leaves goes to the tail of its ready queue
  unless it is closed, asleep or waiting, no other control block changes, and the kernel
  invariant holds again with exactly these queues. Outside interrupts the caller's context,
  with its interrupt level, is saved on its stack below the stack pointer, the address of that
  frame goes to its control block, and the chosen thread goes on with its own stack pointer
  and interrupt level; inside an interrupt the switch is recorded for the way out and the
  registers stay.
\<close>

theorem rt_schedule_switches:
  assumes "kinv {} S L q k" "rt_current_thread k = Some c" "next_ready q p t" "rt_scheduler_stack_check t k"
  shows "\<exists>k'. rt_schedule k = Inr k' \<and> rt_current_thread k' = Some t \<and> rt_current_priority k' = of_nat p \<and>
    tcb k' t = (tcb k t)\<lparr>statu := RT_THREAD_RUNNING\<rparr> \<and>
    (\<forall>t'. t' \<noteq> t \<longrightarrow> t' \<noteq> c \<longrightarrow> tcb k' t' = tcb k t') \<and>
    kinv {} S L (sched_queues c t k q) k' \<and>
    (let b = (if leaves_cpu (statu_of k c) then tcb k c else (tcb k c)\<lparr>statu := RT_THREAD_READY\<rparr>) in
     if rt_interrupt_nest k = 0 then
       tcb k' c = b\<lparr>sp := cpu_sp k - PT_SIZE\<rparr> \<and>
       frames k' = (frames k)(c := \<lparr>pt_r29 = cpu_sp k, pt_status = False, pt_epc = After_switch (irq k)\<rparr>) \<and>
       cpu k' = Some t \<and> cpu_sp k' = pt_r29 (frames k t) \<and> irq k' = wake_irq (frames k t)
     else
       tcb k' c = b \<and> frames k' = frames k \<and> cpu k' = cpu k \<and> cpu_sp k' = cpu_sp k \<and> irq k' = irq k \<and>
       rt_thread_switch_interrupt_flag k' \<and> rt_interrupt_to_thread k' = Some t \<and>
       rt_interrupt_from_thread k' =
         (if rt_thread_switch_interrupt_flag k then rt_interrupt_from_thread k else Some c))"
proof -
  have ct: "c \<noteq> t" using next_ready_thread(2)[OF assms(1,3)] assms(2) by simp
  let ?k = "switch_cpu c t (dispatch c t p k)"
  have "rt_schedule k = Inr ?k" using rt_schedule_switch[OF assms(1,2,3)] assms(4) by simp
  moreover have "kinv {} S L (sched_queues c t k q) ?k"
    using dispatch_kinv[OF assms(1,2,3)] by (simp add: switch_cpu_frame[OF ct])
  moreover note regs = switch_cpu_def context_switch_eq[OF ct] rt_hw_context_switch_interrupt_def dispatch_frame
  ultimately show ?thesis
    using ct dispatch_tcb[OF ct, of p k]
    by (intro exI[of _ ?k]) (simp add: switch_cpu_frame[OF ct] dispatch_frame Let_def, simp add: regs Let_def)
qed

theorem rt_schedule_switches_witness:
  "\<exists>k'. rt_schedule sample = Inr k' \<and> rt_current_thread k' = Some 5"
proof -
  note s = ipc_invD(1)[OF sample_inv]
  have "rt_scheduler_stack_check 5 sample"
    using sys_invD(3)[OF s] by (simp add: stacks_ok_def sample_threads_def)
  from rt_schedule_switches[OF sys_invD(1)[OF s] sample_facts(1) sample_ready this]
  show ?thesis by blast
qed

text \<open>
  C2. The timer interrupt always comes to an end. It advances the tick by one, keeps the
  invariant, wakes exactly the threads whose timer has expired, with the error code set to
  \<^verbatim>\<open>-RT_ETIMEOUT\<close> and the timer off, takes exactly them off the timer list, and leaves the
  timer, the error code and the sleep of all others alone. The interrupted thread's context is
  saved on its stack: it goes on with its stack pointer and interrupt level as they were, or,
  if the interrupt chose another thread, the address of the frame is in its control block and
  the other thread goes on with its own saved context.
\<close>

theorem timer_interrupt_spec:
  assumes "sys_inv S L q k" "between_interrupts k" "rt_current_thread k = Some c"
  shows "\<exists>k' q'. timer_interrupt k = Some (Inr k') \<and> sys_inv S L q' k' \<and> between_interrupts k' \<and>
    q' Timer_list = filter (keeps (sys_tick_increase k)) (q Timer_list) \<and>
    (\<forall>t\<in>L. expired (sys_tick_increase k) t \<longrightarrow>
       awake (statu_of k' t) \<and> \<not> timer_on k' t \<and> error (tcb k' t) = - RT_ETIMEOUT) \<and>
    (\<forall>t\<in>L. \<not> expired (sys_tick_increase k) t \<longrightarrow> awake (statu_of k' t) = awake (statu_of k t) \<and>
       thread_timer (tcb k' t) = thread_timer (tcb k t) \<and> error (tcb k' t) = error (tcb k t)) \<and>
    system_tick k' = system_tick k + 1 \<and> interrupted c k k'"
  using timer_interrupt_total[OF assms] by blast

theorem timer_interrupt_spec_witness:
  "\<exists>k'. timer_interrupt sample = Some (Inr k') \<and> system_tick k' = 101"
  using timer_interrupt_spec[OF ipc_invD(1)[OF sample_inv] sample_facts(7,1)] by (auto simp: sample_facts)



section \<open>Sleeping, ending, reclaiming\<close>

lemma delay_alone:
  assumes "sys_inv S L q k" "rt_current_thread k = Some c" "statu_of k c = RT_THREAD_RUNNING" "\<forall>p<32. q (Ready p) = []"
  shows "rt_thread_delay n k = Inr (asleep c n k)" "rt_thread_ready_priority_group (asleep c n k) = 0"
    "lnext (links (asleep c n k)) Timer_list = TimerNode c"
proof -
  let ?q1 = "stop_queue c (unqueue c q)"
  let ?q2 = "?q1(Timer_list := TimerNode c # ?q1 Timer_list)"
  have i: "kinv {} S L ?q2 (asleep c n k)" by (rule sys_invD(1)[OF asleep_sys_inv[OF assms(1-3)]])
  have r: "\<forall>p<32. ?q2 (Ready p) = []" using ready_kept[OF sys_invD(1)[OF assms(1)], of c] assms(3,4) by simp
  have "rt_current_thread (asleep c n k) = Some c" using asleep_frame(2)[OF assms(3)] assms(2) by simp
  then show "rt_thread_delay n k = Inr (asleep c n k)"
    using rt_schedule_idle[OF i _ r] rt_thread_sleep_eq[OF assms(2,3)] by (simp add: rt_thread_delay_def)
  show "rt_thread_ready_priority_group (asleep c n k) = 0" using group_zero[OF i] r by simp
  show "lnext (links (asleep c n k)) Timer_list = TimerNode c"
    using rtl.queues_first[OF kinv_queues[OF i], of Timer_list] by simp
qed

text \<open>
  C4. \<^verbatim>\<open>rt_thread_delay\<close> puts the calling thread to sleep with its timer set to the current tick
  plus the delay and keeps the invariant. When another thread is ready, the processor is
  handed over: the caller's context and interrupt level are saved on its stack, and the next
  thread is running and goes on with its own. When none is ready, the call returns to the
  caller, which goes on although it is marked as asleep.
\<close>

theorem rt_thread_delay_sleeps:
  assumes "sys_inv S L q k" "rt_current_thread k = Some c" "statu_of k c = RT_THREAD_RUNNING" "rt_interrupt_nest k = 0"
  shows "\<exists>k' q'. rt_thread_delay n k = Inr k' \<and> sys_inv S L q' k' \<and> statu_of k' c = RT_THREAD_SLEEP \<and>
    thread_timer (tcb k' c) = \<lparr>timer_active = True, timer_init_tick = n, timeout_tick = system_tick k + n\<rparr> \<and>
    between_interrupts k' \<and> handed k k' \<and>
    (if \<exists>p<32. q (Ready p) \<noteq> [] then rt_current_thread k' \<noteq> Some c \<and> cur_running k' else rt_current_thread k' = Some c)"
proof -
  have b: "between_interrupts k" using sys_invD(5)[OF assms(1)] assms(4) by (simp add: ctx_ok_def)
  obtain k' q' where r: "rt_thread_delay n k = Inr k'" "sys_inv S L q' k'" "statu_of k' c = RT_THREAD_SLEEP"
      "thread_timer (tcb k' c) = \<lparr>timer_active = True, timer_init_tick = n, timeout_tick = system_tick k + n\<rparr>"
      "(\<exists>p<32. q (Ready p) \<noteq> []) \<longrightarrow> rt_current_thread k' \<noteq> Some c \<and> cur_running k'" "between_interrupts k'" "handed k k'"
    using sleep_sys_inv[OF assms(1-3), of n] b unfolding rt_thread_delay_def by blast
  moreover have "rt_current_thread k' = Some c" if "\<forall>p<32. q (Ready p) = []"
    using delay_alone(1)[OF assms(1-3) that, of n] r(1) asleep_frame(2)[OF assms(3), of n] assms(2) by simp
  ultimately show ?thesis by (intro exI[of _ k'] exI[of _ q']) auto
qed

theorem rt_thread_delay_sleeps_witness:
  "\<exists>k'. rt_thread_delay 10 sample = Inr k' \<and> statu_of k' 3 = RT_THREAD_SLEEP \<and> rt_current_thread k' \<noteq> Some 3"
  using rt_thread_delay_sleeps[OF ipc_invD(1)[OF sample_inv] sample_facts(1-3), of 10] sample_some_ready by auto

lemma schedule_none_ready:
  "rt_current_thread k = Some c \<Longrightarrow> rt_thread_ready_priority_group k = 0 \<Longrightarrow> rt_schedule k = Inr k"
  by (simp add: rt_schedule_def irq_defs)

text \<open>The walk over the timer list does not come back from a node that is its own successor.\<close>

lemma timer_walk_stuck:
  assumes "lnext (links k) (TimerNode c) = TimerNode c" "\<not> expired k c"
  shows "timer_walk (TimerNode c) (TimerNode c) k = None"
proof -
  have e: "timer_expire c k = Inr k" using assms(2) by (auto simp: timer_expire_def expired_def sys_tick_get_def)
  have "\<not> (pos = TimerNode c \<and> nxt = TimerNode c \<and> k1 = k)" if "timer_walk pos nxt k1 = Some y" for pos nxt k1 y
    by (rule timer_walk.raw_induct[where P = "\<lambda>pos nxt k1 y. \<not> (pos = TimerNode c \<and> nxt = TimerNode c \<and> k1 = k)", OF _ that])
      (use assms(1) e in fastforce)
  then show ?thesis by (cases "timer_walk (TimerNode c) (TimerNode c) k") auto
qed

lemma charge_none_ready:
  assumes "rt_current_thread k = Some c" "rt_thread_ready_priority_group k = 0"
  shows "\<exists>r. charge_tick c k = Inr (upd_tcb c (\<lambda>b. b\<lparr>remaining_tick := r\<rparr>) k)"
proof (cases "remaining_tick (tcb k c) = 1")
  case True
  then show ?thesis using assms
    by (intro exI[of _ "init_tick (tcb k c)"]) (simp add: charge_tick_def upd_tcb_def Let_def schedule_none_ready)
next
  case False
  then show ?thesis by (intro exI[of _ "remaining_tick (tcb k c) - 1"]) (simp add: charge_tick_def upd_tcb_def Let_def)
qed

lemma tick_hangs:
  assumes c: "rt_current_thread k = Some c" "rt_thread_ready_priority_group k = 0"
    and l: "lnext (links k) Timer_list = TimerNode c" "lnext (links k) (TimerNode c) = TimerNode c"
    and e: "\<not> expired (sys_tick_increase k) c"
  shows "timer_interrupt k = None"
proof -
  let ?k = "sys_tick_increase (rt_interrupt_enter (irq_entry k))"
  have fr: "rt_current_thread ?k = Some c" "rt_thread_ready_priority_group ?k = 0" "links ?k = links k" "tcb ?k = tcb k"
      "system_tick ?k = system_tick (sys_tick_increase k)"
    using c by (simp_all add: sys_tick_increase_def rt_interrupt_enter_def irq_entry_def SAVE_ALL_def irq_defs Let_def split: option.split)
  obtain r where r: "charge_tick c ?k = Inr (upd_tcb c (\<lambda>b. b\<lparr>remaining_tick := r\<rparr>) ?k)"
    using charge_none_ready[OF fr(1,2)] by blast
  let ?k1 = "(upd_tcb c (\<lambda>b. b\<lparr>remaining_tick := r\<rparr>) ?k)\<lparr>irq := False\<rparr>"
  have l1: "lnext (links ?k1) Timer_list = TimerNode c" "lnext (links ?k1) (TimerNode c) = TimerNode c"
    using l fr(3) by (simp_all add: upd_tcb_def)
  have "\<not> expired ?k1 c" using e fr(4,5) by (simp add: expired_def upd_tcb_def sys_tick_increase_def)
  then have "timer_walk (TimerNode c) (TimerNode c) ?k1 = None" by (rule timer_walk_stuck[OF l1(2)])
  then have "rt_timer_check (upd_tcb c (\<lambda>b. b\<lparr>remaining_tick := r\<rparr>) ?k) = None"
    using l1 by (simp add: rt_timer_check_def irq_defs)
  then show ?thesis using r fr(1) by (simp add: timer_interrupt_def sys_tick_handler_def Let_def)
qed

text \<open>
  C16. The idle thread goes to sleep when there is nothing to clean up. When no other thread is
  ready at that moment, its sleep returns at once, its loop sleeps again, and this second call
  inserts its timer, which is the head of the timer list, once more: the node becomes its own
  successor, and the next timer interrupt walks the list forever.
\<close>

theorem idle_alone_hangs:
  assumes "sys_inv S L q k" "rt_current_thread k = Some c" "statu_of k c = RT_THREAD_RUNNING"
    and "\<forall>p<32. q (Ready p) = []" "q Dead = []" "system_tick k + 1 \<le> system_tick k + 1000"
  shows "\<exists>k1 k2. idle_round k = Some (Inr ([], k1)) \<and> idle_round k1 = Some (Inr ([], k2)) \<and>
    rt_current_thread k2 = Some c \<and> lnext (links k2) (TimerNode c) = TimerNode c \<and> timer_interrupt k2 = None"
proof -
  let ?k1 = "asleep c 1000 k"
  note al = delay_alone[OF assms(1-4), of 1000] and fr = asleep_frame[OF assms(3), of 1000]
  note i1 = sys_invD(1)[OF asleep_sys_inv[OF assms(1-3), of 1000]]
  have d: "rt_list_isempty Dead (links k)" "rt_list_isempty Dead (links ?k1)"
    using rtl.queues_empty_iff[OF kinv_queues[OF sys_invD(1)[OF assms(1)]], of Dead] assms(5)
      rtl.queues_empty_iff[OF kinv_queues[OF i1], of Dead] by (simp_all add: stop_queue_def unqueue_def)
  let ?k2 = "(rt_timer_start c (upd_timer c (\<lambda>m. m\<lparr>timer_init_tick := 1000\<rparr>) ?k1))"
  have c2: "rt_current_thread ?k2 = Some c" "rt_thread_ready_priority_group ?k2 = 0"
    using assms(2) al(2) fr(2) by (simp_all add: rt_timer_start_eq upd_timer_def upd_tcb_def upd_links_def)
  have "rt_thread_delay 1000 ?k1 = rt_schedule ?k2"
    using assms(2) fr(1,2) by (simp add: rt_thread_delay_def rt_thread_sleep_def rt_thread_suspend_eq rt_timer_start_eq
        irq_defs upd_timer_def upd_tcb_def upd_links_def Let_def)
  then have "rt_thread_delay 1000 ?k1 = Inr ?k2" using schedule_none_ready[OF c2] by simp
  moreover have l2: "lnext (links ?k2) Timer_list = TimerNode c" "lnext (links ?k2) (TimerNode c) = TimerNode c"
    using al(3) by (simp_all add: rt_timer_start_eq upd_timer_def upd_tcb_def upd_links_def rt_list_insert_after_def set_next_def set_prev_def Let_def)
  moreover have "timer_interrupt ?k2 = None"
    using assms(6) fr(1,4) by (intro tick_hangs[OF c2 l2])
      (simp add: expired_def sys_tick_increase_def timer_start_frame upd_timer_def upd_tcb_def)
  ultimately show ?thesis using al(1) d c2(1) by (intro exI[of _ ?k1] exI[of _ ?k2]) (simp add: idle_round_def)
qed

theorem idle_alone_hangs_witness:
  "\<exists>k k1 k2. thread_start (snd (idle_init 0x80211000 (sample_machine 2 0x81b02000) (sample_statics, thread_init raw_ipc))) = Inr k \<and>
    idle_round k = Some (Inr ([], k1)) \<and> idle_round k1 = Some (Inr ([], k2)) \<and> timer_interrupt k2 = None"
proof -
  let ?k = "snd (idle_init 0x80211000 (sample_machine 2 0x81b02000) (sample_statics, thread_init raw_ipc))"
  have base: "rt_current_thread raw_ipc = None" "cpu raw_ipc = None" "rt_interrupt_nest raw_ipc = 0"
      "\<not> rt_thread_switch_interrupt_flag raw_ipc" "system_tick raw_ipc = 100"
    by (simp_all add: raw_ipc_def)
  have b: "same_base raw_ipc (thread_init raw_ipc)"
    by (simp add: same_base_def thread_init_def upd_links_def del: upt_rec_numeral)
  have "queue_good {} {} (\<lambda>_. []) (thread_init raw_ipc)"
    using thread_init_kinv[OF base(1)] base
    by (simp add: queue_good_def stacks_ok_def thread_init_def upd_links_def del: upt_rec_numeral)
  from join_good[OF this, of 2 31] have j: "queue_good {} {2} (join_queue 2 31 (\<lambda>_. [])) ?k" "same_base (thread_init raw_ipc) ?k"
    by (simp_all add: idle_init_def mem_ok_def sample_machine_def)
  have n: "next_ready (join_queue 2 31 (\<lambda>_. [])) 31 2" by (auto simp: next_ready_def join_queue_def)
  have z: "rt_interrupt_nest ?k = 0" "\<not> rt_thread_switch_interrupt_flag ?k" "system_tick ?k = 100"
    using j(2) b base by (simp_all add: same_base_def)
  obtain k where k: "thread_start ?k = Inr k" "sys_inv {} {2} (unqueue 2 (join_queue 2 31 (\<lambda>_. []))) k" "rt_current_thread k = Some 2"
      "statu_of k 2 = RT_THREAD_RUNNING" "system_tick k = 100"
    using start_good[OF j(1) n z(1,2)] z(3) by (auto simp: same_base_def)
  have "\<forall>p<32. unqueue 2 (join_queue 2 31 (\<lambda>_. [])) (Ready p) = []" "unqueue 2 (join_queue 2 31 (\<lambda>_. [])) Dead = []"
    by (simp_all add: unqueue_def join_queue_def)
  from idle_alone_hangs[OF k(2,3,4) this] k(1,5) show ?thesis by auto
qed

text \<open>
  A thread that ends goes to the dead list with its timer off and is in no ready queue; the
  cleaning round of the idle thread then frees the stack and the control block of every thread
  on the dead list exactly once, in reverse order of the list, empties the list, and the
  remaining threads satisfy the invariant without them.
\<close>

lemma exit_and_reclaim:
  assumes "sys_inv S L q k" "rt_current_thread k = Some c"
  shows "\<exists>k' q'. rt_thread_exit k = Inr k' \<and> sys_inv S L q' k' \<and> statu_of k' c = RT_THREAD_CLOSE \<and>
      \<not> timer_on k' c \<and> TList c \<in> set (q' Dead) \<and> (\<forall>p<32. TList c \<notin> set (q' (Ready p))) \<and>
      (\<forall>i ts. rt_current_thread k' = Some i \<longrightarrow> statu_of k' i \<noteq> RT_THREAD_CLOSE \<longrightarrow> q' Dead = map TList ts \<longrightarrow>
        (\<exists>k'' q''. idle_round k' = Some (Inr (rev (map (\<lambda>t. (stack_addr (tcb k' t), t)) ts), k'')) \<and>
          distinct ts \<and> c \<in> set ts \<and> sys_inv S (L - set ts) q'' k'' \<and> q'' Dead = [] \<and>
          (\<forall>t\<in>set ts. AllList t \<notin> set (q'' All_threads))))"
proof -
  obtain k' q' where r: "rt_thread_exit k = Inr k'" "sys_inv S L q' k'" "statu_of k' c = RT_THREAD_CLOSE"
      "\<not> timer_on k' c" "TList c \<in> set (q' Dead)" "\<forall>p<32. TList c \<notin> set (q' (Ready p))"
    using exit_sys_inv[OF assms] by blast
  have "\<exists>k'' q''. idle_round k' = Some (Inr (rev (map (\<lambda>t. (stack_addr (tcb k' t), t)) ts), k'')) \<and>
      distinct ts \<and> c \<in> set ts \<and> sys_inv S (L - set ts) q'' k'' \<and> q'' Dead = [] \<and>
      (\<forall>t\<in>set ts. AllList t \<notin> set (q'' All_threads))"
    if "rt_current_thread k' = Some i" "statu_of k' i \<noteq> RT_THREAD_CLOSE" "q' Dead = map TList ts" for i ts
  proof -
    have "ts \<noteq> []" "c \<in> set ts" using r(5) that(3) by auto
    moreover have "distinct ts"
      using kinv_distinct[OF sys_invD(1)[OF r(2)], of Dead] that(3) by (simp add: distinct_map)
    ultimately show ?thesis using idle_clean_total[OF r(2) that] by blast
  qed
  then show ?thesis using r by (intro exI[of _ k'] exI[of _ q']) blast
qed

section \<open>Semaphores\<close>

text \<open>
  C5. \<^verbatim>\<open>rt_sem_take\<close> on every branch: an available semaphore is decremented and nothing else
  changes; an unavailable one returns \<^verbatim>\<open>-RT_ETIMEOUT\<close> at once when no time is given; otherwise
  the caller is suspended at the tail of the semaphore's queue, with the timer started for a
  positive time and no timer for a negative one, and the invariant is kept. If another thread
  is ready, that thread goes on and the call is pending; if none is, the call returns
  \<^verbatim>\<open>RT_EOK\<close> at once although the caller has not got the semaphore and stays in its queue.
\<close>

theorem rt_sem_take_spec:
  assumes "ipc_inv S L q k" "running c k" "SemQ s \<in> S" "rt_interrupt_nest k = 0"
  shows "if sem_value (sems k s) \<noteq> 0 then
      rt_sem_take s time k = Inr (Ret RT_EOK, upd_sem s (\<lambda>m. m\<lparr>sem_value := sem_value m - 1\<rparr>) k)
    else if time = 0 then rt_sem_take s time k = Inr (Ret (- RT_ETIMEOUT), k)
    else \<exists>k'. rt_sem_take s time k = Inr (if another_ready k then Blocked c () else Ret RT_EOK, k') \<and>
      blocked_on S L q (SemQ s) c (if time > 0 then Some (word_of_int time) else None) k k'"
  using sem_take_available[of k s time] sem_take_poll[of k s] sem_take_blocks[OF assms(1) _ _ assms(3) _ _ assms(4)]
    assms(2) unfolding running_def another_ready_queue[OF assms(1)] by auto

theorem rt_sem_take_spec_witness: "\<exists>k'. rt_sem_take 0 (-1) sample = Inr (Ret RT_EOK, k') \<and> sem_value (sems k' 0) = 0"
proof -
  have "running 3 sample" using sample_facts by (simp add: running_def)
  from rt_sem_take_spec[OF sample_inv this _ sample_facts(3), of 0 "-1"] show ?thesis
    by (simp add: sample_facts upd_sem_def)
qed

text \<open>
  C6. \<^verbatim>\<open>rt_sem_release\<close> hands the semaphore to the longest waiting thread: with waiters the
  first one is taken off the queue, becomes ready, its timer stops, its pending
  \<^verbatim>\<open>rt_sem_take\<close> returns \<^verbatim>\<open>RT_EOK\<close>, the value stays, the invariant is kept, and outside
  interrupts the scheduler either leaves the processor to the caller or hands it over with the
  contexts saved and restored; without waiters only the value grows by one, modulo 65536.
\<close>

theorem rt_sem_release_spec:
  assumes "ipc_inv S L q k" "SemQ s \<in> S"
  shows "case q (SemQ s) of
      [] \<Rightarrow> rt_sem_release s k = Inr (RT_EOK, upd_sem s (\<lambda>m. m\<lparr>sem_value := sem_value m + 1\<rparr>) k)
    | n # r \<Rightarrow> \<exists>t k' q'. n = TList t \<and> rt_sem_release s k = Inr (RT_EOK, k') \<and> ipc_inv S L q' k' \<and>
        q' (SemQ s) = r \<and> awake (statu_of k' t) \<and> \<not> timer_on k' t \<and>
        rt_sem_take_resumed t k' = RT_EOK \<and> sems k' = sems k \<and>
        (between_interrupts k \<longrightarrow> between_interrupts k' \<and> handed k k')"
proof (cases rule: wait_shape[OF assms])
  case 2
  then show ?thesis using sem_release_free[OF assms] by simp
next
  case (3 t r)
  then obtain k' where "rt_sem_release s k = Inr (RT_EOK, k')" "woken_from S L q (SemQ s) t r k k'"
    using sem_release_waiter[OF assms] by blast
  then show ?thesis using 3 assms(2) by (auto simp: woken_from_def rt_sem_take_resumed_def)
qed simp

theorem rt_sem_release_spec_witness:
  "\<exists>k1 k2. rt_sem_take 0 5 (upd_sem 0 (\<lambda>m. m\<lparr>sem_value := 0\<rparr>) sample) = Inr (Blocked 3 (), k1) \<and>
     rt_sem_release 0 k1 = Inr (RT_EOK, k2) \<and> rt_sem_take_resumed 3 k2 = RT_EOK"
proof -
  let ?k = "upd_sem 0 (\<lambda>m. m\<lparr>sem_value := 0\<rparr>) sample"
  have i: "ipc_inv sample_objs sample_threads sample_queues ?k" by (rule ipc_upd_sem[OF sample_inv]) simp
  have f: "rt_current_thread ?k = Some 3" "statu_of ?k 3 = RT_THREAD_RUNNING" "sem_value (sems ?k 0) = 0" "rt_interrupt_nest ?k = 0"
    using sample_facts by (simp_all add: upd_sem_def)
  obtain k1 q1 where k1: "rt_sem_take 0 5 ?k = Inr (Blocked 3 (), k1)" "ipc_inv sample_objs sample_threads q1 k1"
      "q1 (SemQ 0) = [TList 3]"
    using sem_take_blocks[OF i f(1,2) _ f(3) _ f(4), of 5] sample_some_ready by (auto simp: blocked_on_def)
  with rt_sem_release_spec[OF k1(2), of 0] show ?thesis by auto
qed

text \<open>
  A thread waiting with a time limit is released by the timer: when the interrupt finds its
  timer expired, it leaves the wait queue, becomes awake and its pending \<^verbatim>\<open>rt_sem_take\<close>
  returns \<^verbatim>\<open>-RT_ETIMEOUT\<close>; the invariant is kept.
\<close>

lemma rt_sem_take_timeout:
  assumes "ipc_inv S L q k" "between_interrupts k" "SemQ s \<in> S" "TList t \<in> set (q (SemQ s))"
    and "expired (sys_tick_increase k) t" "cur_running k"
  shows "\<exists>k' q'. timer_interrupt k = Some (Inr k') \<and> ipc_inv S L q' k' \<and> TList t \<notin> set (q' (SemQ s)) \<and>
    awake (statu_of k' t) \<and> rt_sem_take_resumed t k' = - RT_ETIMEOUT"
proof -
  have t: "t \<in> L" using kinv_in_L(1)[OF sys_invD(1)[OF ipc_invD(1)[OF assms(1)]], of "SemQ s"] assms(3,4) by simp
  obtain c where c: "rt_current_thread k = Some c" using sys_invD(2)[OF ipc_invD(1)[OF assms(1)]] by blast
  obtain k' where k': "timer_interrupt k = Some (Inr k')" "awake (statu_of k' t)" "error (tcb k' t) = - RT_ETIMEOUT"
    using timer_interrupt_total[OF ipc_invD(1)[OF assms(1)] assms(2) c] t assms(5) by blast
  obtain q' where q': "ipc_inv S L q' k'"
    using timer_interrupt_ipc[OF assms(1,2,6) k'(1)] by (auto simp: config_ok_def)
  have "TList t \<notin> set (q' (SemQ s))"
    using kinv_place[OF sys_invD(1)[OF ipc_invD(1)[OF q']], of t "SemQ s"] assms(3) k'(2)
    by (auto simp: awake_def leaves_cpu_def)
  then show ?thesis using k' q' by (auto simp: rt_sem_take_resumed_def RT_EOK_def RT_ETIMEOUT_def)
qed

section \<open>Mailboxes\<close>

lemma handed_upd_mb: "handed (upd_mb m f k) k' = handed k k'"
  by (simp add: handed_def upd_mb_def)

lemma handed_upd: "handed k (upd_mb m f k)"
  by (simp add: handed_def upd_mb_def)

lemma mb_send_fifo:
  assumes "ipc_inv S L q k" "MbQ m \<in> S" and f: "\<not> mb_full (mbs k m)"
  shows "\<exists>k' q'. rt_mb_send_wait m v time k = Some (Inr (Ret RT_EOK, k')) \<and>
      ipc_inv S L q' k' \<and> mb_items (mbs k' m) = mb_items (mbs k m) @ [v] \<and> q' (MbQ m) = tl (q (MbQ m)) \<and>
      (\<forall>t r. q (MbQ m) = TList t # r \<longrightarrow> awake (statu_of k' t)) \<and>
      (between_interrupts k \<longrightarrow> between_interrupts k' \<and> handed k k')"
proof -
  have put: "mb_items (mbs (upd_mb m (mb_put v) k) m) = mb_items (mbs k m) @ [v]"
    using mbq.put_items[OF ipc_invD(4)[OF assms(1,2)] f] by (simp add: upd_mb_def)
  show ?thesis
  proof (cases rule: wait_shape[OF assms(1,2)])
    case 2
    have "ipc_inv S L q (upd_mb m (mb_put v) k)" by (rule ipc_upd_mb[OF assms(1)]) (rule mbq.put_inv[OF _ f])
    then show ?thesis using mb_send_space(1)[OF assms 2] put 2 by (auto simp: objects_between handed_upd)
  next
    case (3 t r)
    obtain k' where k': "rt_mb_send_wait m v time k = Some (Inr (Ret RT_EOK, k'))"
        "woken_from S L q (MbQ m) t r (upd_mb m (mb_put v) k) k'"
      using mb_send_space(2)[OF assms 3, of v time] by blast
    then obtain q' where "ipc_inv S L q' k'" "q' (MbQ m) = r" using assms(2) by (auto simp: woken_from_def)
    then show ?thesis using k' put 3
      by (intro exI[of _ k'] exI[of _ q']) (auto simp: woken_from_def objects_between handed_upd_mb)
  qed simp
qed

lemma mb_recv_fifo:
  assumes "ipc_inv S L q k" "MbQ m \<in> S" and e: "\<not> mb_empty (mbs k m)"
  shows "\<exists>w k' q'. rt_mb_recv m time k = Some (Inr ((Ret RT_EOK, Some w), k')) \<and>
      ipc_inv S L q' k' \<and> mb_items (mbs k m) = w # mb_items (mbs k' m) \<and> q' (MbSendQ m) = tl (q (MbSendQ m)) \<and>
      (\<forall>t r. q (MbSendQ m) = TList t # r \<longrightarrow> awake (statu_of k' t)) \<and>
      (between_interrupts k \<longrightarrow> between_interrupts k' \<and> handed k k')"
proof -
  note ms = ipc_invD(5)[OF assms(1,2)]
  let ?k = "upd_mb m (\<lambda>_. snd (mb_get (mbs k m))) k"
  have get: "mb_items (mbs k m) = fst (mb_get (mbs k m)) # mb_items (mbs ?k m)"
    using mbq.get_items[OF ipc_invD(4)[OF assms(1,2)] e] by (simp add: upd_mb_def)
  show ?thesis
  proof (cases rule: wait_shape[OF assms(1) ms])
    case 2
    have "ipc_inv S L q ?k" by (rule ipc_upd_mb[OF assms(1)]) (rule mbq.get_inv[OF _ e])
    then show ?thesis using mb_recv_message(1)[OF assms 2] get 2 by (auto simp: objects_between handed_upd)
  next
    case (3 t r)
    obtain k' where k': "rt_mb_recv m time k = Some (Inr ((Ret RT_EOK, Some (fst (mb_get (mbs k m)))), k'))"
        "woken_from S L q (MbSendQ m) t r ?k k'"
      using mb_recv_message(2)[OF assms 3, of time] by blast
    then obtain q' where "ipc_inv S L q' k'" "q' (MbSendQ m) = r" using ms by (auto simp: woken_from_def)
    then show ?thesis using k' get 3
      by (intro exI[of _ "fst (mb_get (mbs k m))"] exI[of _ k'] exI[of _ q'])
        (auto simp: woken_from_def objects_between handed_upd_mb)
  qed simp
qed

text \<open>
  C7. A mailbox is a bounded first-in first-out queue for the threads: a send into a mailbox
  that is not full returns \<^verbatim>\<open>RT_EOK\<close> and appends the message; a receive from one that is not
  empty returns \<^verbatim>\<open>RT_EOK\<close> and the oldest message and removes it; both keep the invariant and
  wake the first waiting receiver or sender, to which the scheduler may hand the processor
  with the contexts saved and restored.
\<close>

theorem mailbox_fifo:
  assumes "ipc_inv S L q k" "MbQ m \<in> S"
  shows "(\<not> mb_full (mbs k m) \<longrightarrow> (\<exists>k' q'. rt_mb_send_wait m v time k = Some (Inr (Ret RT_EOK, k')) \<and>
      ipc_inv S L q' k' \<and> mb_items (mbs k' m) = mb_items (mbs k m) @ [v] \<and> q' (MbQ m) = tl (q (MbQ m)) \<and>
      (\<forall>t r. q (MbQ m) = TList t # r \<longrightarrow> awake (statu_of k' t)) \<and>
      (between_interrupts k \<longrightarrow> between_interrupts k' \<and> handed k k'))) \<and>
    (\<not> mb_empty (mbs k m) \<longrightarrow> (\<exists>w k' q'. rt_mb_recv m wtime k = Some (Inr ((Ret RT_EOK, Some w), k')) \<and>
      ipc_inv S L q' k' \<and> mb_items (mbs k m) = w # mb_items (mbs k' m) \<and> q' (MbSendQ m) = tl (q (MbSendQ m)) \<and>
      (\<forall>t r. q (MbSendQ m) = TList t # r \<longrightarrow> awake (statu_of k' t)) \<and>
      (between_interrupts k \<longrightarrow> between_interrupts k' \<and> handed k k')))"
  using mb_send_fifo[OF assms] mb_recv_fifo[OF assms] by blast

theorem mailbox_fifo_witness:
  "\<exists>k1 k2. rt_mb_send_wait 0 7 0 sample = Some (Inr (Ret RT_EOK, k1)) \<and> rt_mb_recv 0 0 k1 = Some (Inr ((Ret RT_EOK, Some 7), k2))"
proof -
  have nf: "\<not> mb_full (mbs sample 0)" and e: "mb_items (mbs sample 0) = []"
    using sample_facts(9,10) mbq.empty_iff[OF sample_facts(11)] by (auto simp: mb_full_def mb_empty_def)
  from mailbox_fifo[OF sample_inv, of 0 7 0] nf obtain k1 q1 where
    k1: "rt_mb_send_wait 0 7 0 sample = Some (Inr (Ret RT_EOK, k1))" "ipc_inv sample_objs sample_threads q1 k1"
      "mb_items (mbs k1 0) = [7]" by (auto simp: e)
  then have "\<not> mb_empty (mbs k1 0)" using mbq.empty_iff[OF ipc_invD(4)[OF k1(2), of 0]] by simp
  with mailbox_fifo[OF k1(2), of 0 0 0 0] show ?thesis using k1 by auto
qed

lemma pred_less_suc: "x - 1 < x + 1" if "x \<noteq> 0" "x \<noteq> - 1" for x :: u32
proof -
  have "unat (x + 1) = Suc (unat x)" using that(2) unatSuc[of x] by (simp add: add.commute eq_neg_iff_add_eq_0)
  then show ?thesis using that(1) by (simp add: word_less_nat_alt unat_minus_one)
qed

text \<open>
  C8. \<^verbatim>\<open>rt_mb_recv\<close> takes its time as an unsigned number, so a call with
  \<^verbatim>\<open>RT_WAITING_FOREVER\<close> (-1) on an empty mailbox, made while another thread is ready, starts a
  timer whose deadline already lies one tick in the past: the next timer interrupt wakes the
  thread and the call returns \<^verbatim>\<open>-RT_ETIMEOUT\<close>. (The tick counter is neither 0 nor about to
  wrap.)
\<close>

theorem rt_mb_recv_forever_times_out:
  assumes "ipc_inv S L q k" "running c k" "between_interrupts k" "MbQ m \<in> S" "mb_empty (mbs k m)"
    and "system_tick k \<noteq> 0" "system_tick k \<noteq> - 1" "another_ready k"
  shows "\<exists>k1 d k2. rt_mb_recv m (- 1) k = Some (Inr ((Blocked c (- 1, d), None), k1)) \<and>
    timer_interrupt k1 = Some (Inr k2) \<and>
    rt_mb_recv_resumed m c (- 1) d k2 = Some (Inr ((Ret (- RT_ETIMEOUT), None), k2))"
proof -
  have n: "rt_interrupt_nest k = 0" using assms(3) by (simp add: between_interrupts_def)
  have c: "rt_current_thread k = Some c" "statu_of k c = RT_THREAD_RUNNING" using assms(2) by (simp_all add: running_def)
  have m1: "(- 1 :: u32) \<noteq> 0" by simp
  obtain k1 d where k1: "rt_mb_recv m (- 1) k = Some (Inr ((Blocked c (- 1, d), None), k1))"
      "blocked_on S L q (MbQ m) c (Some (- 1)) k k1"
    using mb_recv_blocks[OF assms(1) c assms(4,5) m1 n] assms(8) another_ready_queue[OF assms(1)] by blast
  then obtain q1 where q1: "ipc_inv S L q1 k1" "q1 (MbQ m) = q (MbQ m) @ [TList c]" "between_interrupts k1"
      "timer_on k1 c" "timeout_tick (thread_timer (tcb k1 c)) = system_tick k - 1"
    using assms(3) by (auto simp: blocked_on_def)
  have "system_tick k1 = system_tick k" using k1(2) by (simp add: blocked_on_def)
  then have "expired (sys_tick_increase k1) c"
    using q1(4,5) pred_less_suc[OF assms(6,7)] by (simp add: expired_def sys_tick_increase_def)
  moreover have "c \<in> L"
    using kinv_in_L(1)[OF sys_invD(1)[OF ipc_invD(1)[OF q1(1)]], of "MbQ m" c] q1(2) assms(4) by simp
  moreover obtain c' where "rt_current_thread k1 = Some c'" using sys_invD(2)[OF ipc_invD(1)[OF q1(1)]] by blast
  ultimately obtain k2 where "timer_interrupt k1 = Some (Inr k2)" "error (tcb k2 c) = - RT_ETIMEOUT"
    using timer_interrupt_total[OF ipc_invD(1)[OF q1(1)] q1(3)] by blast
  then show ?thesis using k1(1) by (auto simp: rt_mb_recv_resumed_def mb_recv_back_def RT_EOK_def RT_ETIMEOUT_def)
qed

theorem rt_mb_recv_forever_times_out_witness:
  "\<exists>k1 d k2. rt_mb_recv 0 (- 1) sample = Some (Inr ((Blocked 3 (- 1, d), None), k1)) \<and> timer_interrupt k1 = Some (Inr k2) \<and>
    rt_mb_recv_resumed 0 3 (- 1) d k2 = Some (Inr ((Ret (- RT_ETIMEOUT), None), k2))"
proof -
  have "running 3 sample" using sample_facts by (simp add: running_def)
  moreover have "another_ready sample" using another_ready_queue[OF sample_inv] sample_some_ready by simp
  ultimately show ?thesis
    using rt_mb_recv_forever_times_out[OF sample_inv _ sample_facts(7), of 3 0] by (simp add: sample_facts)
qed

end
