(* ===== verification/Bus.thy ===== *)
theory Bus
  imports Prelude "HOL-Library.Monad_Syntax"
begin

unbundle bit_operations_syntax

text \<open>
  Memory-mapped registers and the access functions of \<^verbatim>\<open>src/lib/ls1c_public.c\<close>. The 32-bit
  and the 8-bit registers of the chip are disjoint, so the bus has one map for each width. It
  also keeps the sequence of 32-bit and of 8-bit writes, oldest first: what a driver
  does on a pin over time is read off that sequence. A register whose value comes from
  outside the chip (a GPIO input, a status flag) is answered by \<open>ext\<close>, an arbitrary function of
  the writes done so far. An access through NULL is an exception: the operation has no result.
\<close>

record bus =
  reg32 :: "u32 \<Rightarrow> u32"
  reg8 :: "u32 \<Rightarrow> u8"
  log32 :: "(u32 \<times> u32) list"
  log8 :: "(u32 \<times> u8) list"
  ext :: "(u32 \<times> u32) list \<Rightarrow> u32 \<Rightarrow> u32 option"

section \<open>Access functions\<close>

text \<open>The value a read of a register finds.\<close>

definition seen :: "u32 \<Rightarrow> 'z bus_scheme \<Rightarrow> u32" where
  "seen addr b = (case ext b (log32 b) addr of Some v \<Rightarrow> v | None \<Rightarrow> reg32 b addr)"

definition reg_read_32 :: "u32 \<Rightarrow> 'z bus_scheme \<Rightarrow> u32 option" where
  "reg_read_32 addr b =
    (if addr = 0 then None
     else Some (seen addr b))"

definition reg_write_32 :: "u32 \<Rightarrow> u32 \<Rightarrow> 'z bus_scheme \<Rightarrow> 'z bus_scheme option" where
  "reg_write_32 data addr b =
    (if addr = 0 then None
     else Some (b\<lparr>reg32 := (reg32 b)(addr := data), log32 := log32 b @ [(addr, data)]\<rparr>))"

definition reg_read_8 :: "u32 \<Rightarrow> 'z bus_scheme \<Rightarrow> u8 option" where
  "reg_read_8 addr b =
    (if addr = 0 then None
     else Some (case ext b (log32 b) addr of Some v \<Rightarrow> ucast v | None \<Rightarrow> reg8 b addr))"

definition reg_write_8 :: "u8 \<Rightarrow> u32 \<Rightarrow> 'z bus_scheme \<Rightarrow> 'z bus_scheme option" where
  "reg_write_8 data addr b =
    (if addr = 0 then None
     else Some (b\<lparr>reg8 := (reg8 b)(addr := data), log8 := log8 b @ [(addr, data)]\<rparr>))"

definition reg_set_one_bit :: "u32 \<Rightarrow> u32 \<Rightarrow> 'z bus_scheme \<Rightarrow> 'z bus_scheme option" where
  "reg_set_one_bit reg n b =
    do { let m = push_bit (unat n) 1;
         temp \<leftarrow> reg_read_32 reg b;
         reg_write_32 (temp OR m) reg b }"

definition reg_clr_one_bit :: "u32 \<Rightarrow> u32 \<Rightarrow> 'z bus_scheme \<Rightarrow> 'z bus_scheme option" where
  "reg_clr_one_bit reg n b =
    do { let m = push_bit (unat n) 1;
         temp \<leftarrow> reg_read_32 reg b;
         reg_write_32 (temp AND NOT m) reg b }"

definition reg_get_bit :: "u32 \<Rightarrow> u32 \<Rightarrow> 'z bus_scheme \<Rightarrow> u32 option" where
  "reg_get_bit reg n b =
    do { temp \<leftarrow> reg_read_32 reg b;
         Some (drop_bit (unat n) temp AND 1) }"

section \<open>Effects\<close>

text \<open>One write, and what a register is that no outside signal drives.\<close>

definition wrote :: "u32 \<Rightarrow> u32 \<Rightarrow> 'z bus_scheme \<Rightarrow> 'z bus_scheme" where
  "wrote a v b = b\<lparr>reg32 := (reg32 b)(a := v), log32 := log32 b @ [(a, v)]\<rparr>"

definition internal :: "u32 \<Rightarrow> 'z bus_scheme \<Rightarrow> bool" where
  "internal a b \<longleftrightarrow> a \<noteq> 0 \<and> (\<forall>l. ext b l a = None)"

lemma wrote_sel [simp]:
  "reg32 (wrote a v b) = (reg32 b)(a := v)" "log32 (wrote a v b) = log32 b @ [(a, v)]"
  "reg8 (wrote a v b) = reg8 b" "log8 (wrote a v b) = log8 b" "ext (wrote a v b) = ext b"
  by (simp_all add: wrote_def)

lemma wrote_internal [simp]: "internal a (wrote a' v b) = internal a b"
  by (simp add: internal_def)

lemma reg_write_32_eq: "a \<noteq> 0 \<Longrightarrow> reg_write_32 v a b = Some (wrote a v b)"
  by (simp add: reg_write_32_def wrote_def)

lemma reg_read_32_eq: "internal a b \<Longrightarrow> reg_read_32 a b = Some (reg32 b a)"
  by (simp add: reg_read_32_def seen_def internal_def)

lemma reg_set_one_bit_eq:
  "internal a b \<Longrightarrow> reg_set_one_bit a n b = Some (wrote a (set_bit (unat n) (reg32 b a)) b)"
  by (simp add: reg_set_one_bit_def reg_read_32_eq reg_write_32_eq internal_def set_bit_eq_or)

lemma reg_clr_one_bit_eq:
  "internal a b \<Longrightarrow> reg_clr_one_bit a n b = Some (wrote a (unset_bit (unat n) (reg32 b a)) b)"
  by (simp add: reg_clr_one_bit_def reg_read_32_eq reg_write_32_eq internal_def unset_bit_eq_and_not)

lemma reg_get_bit_eq:
  "a \<noteq> 0 \<Longrightarrow> reg_get_bit a n b =
    Some (of_bool (bit (seen a b) (unat n)))"
  by (simp add: reg_get_bit_def reg_read_32_def bit_iff_odd_drop_bit and_one_eq odd_iff_mod_2_eq_one)

lemma null_access [simp]:
  "reg_set_one_bit 0 n b = None" "reg_clr_one_bit 0 n b = None" "reg_read_32 0 b = None" "reg_write_32 v 0 b = None"
  by (simp_all add: reg_set_one_bit_def reg_clr_one_bit_def reg_read_32_def reg_write_32_def)

lemmas bus_access = reg_set_one_bit_eq reg_clr_one_bit_eq reg_read_32_eq reg_write_32_eq

end
