(* ===== verification/Gpio.thy ===== *)
theory Gpio
  imports Bus
begin

unbundle bit_operations_syntax

text \<open>
  Pins: \<^verbatim>\<open>src/lib/ls1c_pin.c\<close> and \<^verbatim>\<open>src/lib/ls1c_gpio.c\<close>. The enumerations of the headers
  are datatypes; the register addresses are those of \<^verbatim>\<open>ls1c_regs.h\<close>.
\<close>

datatype gpio_mode = gpio_mode_output | gpio_mode_input

datatype gpio_level = gpio_level_low | gpio_level_high

datatype gpio_irq_type =
  IRQ_TYPE_EDGE_RISING | IRQ_TYPE_EDGE_FALLING | IRQ_TYPE_EDGE_BOTH
  | IRQ_TYPE_LEVEL_HIGH | IRQ_TYPE_LEVEL_LOW | IRQ_TYPE_LEVEL_MASK

datatype pin_purpose = PIN_PURPOSE_GPIO | PIN_PURPOSE_OTHER

datatype pin_remap =
  PIN_REMAP_FIRST | PIN_REMAP_SECOND | PIN_REMAP_THIRD | PIN_REMAP_FOURTH | PIN_REMAP_FIFTH
  | PIN_REMAP_DEFAULT

definition GPIO_GET_PORT :: "u32 \<Rightarrow> u32" where
  "GPIO_GET_PORT gpio = gpio div 32"

definition GPIO_GET_PIN :: "u32 \<Rightarrow> u32" where
  "GPIO_GET_PIN gpio = gpio mod 32"

section \<open>Register addresses\<close>

definition gpio_get_cfg_reg :: "u32 \<Rightarrow> u32" where
  "gpio_get_cfg_reg gpio =
    (let port = GPIO_GET_PORT gpio in
     if port = 0 then 0xbfd010c0
     else if port = 1 then 0xbfd010c4
     else if port = 2 then 0xbfd010c8
     else if port = 3 then 0xbfd010cc
     else 0)"

definition gpio_get_en_reg :: "u32 \<Rightarrow> u32" where
  "gpio_get_en_reg gpio =
    (let port = GPIO_GET_PORT gpio in
     if port = 0 then 0xbfd010d0
     else if port = 1 then 0xbfd010d4
     else if port = 2 then 0xbfd010d8
     else if port = 3 then 0xbfd010dc
     else 0)"

section \<open>Pins\<close>

definition pin_set_purpose :: "u32 \<Rightarrow> pin_purpose \<Rightarrow> bus \<Rightarrow> bus option" where
  "pin_set_purpose gpio purpose b =
    (let pin = GPIO_GET_PIN gpio;
         gpio_cfgx = gpio_get_cfg_reg gpio
     in if purpose = PIN_PURPOSE_GPIO then reg_set_one_bit gpio_cfgx pin b
        else reg_clr_one_bit gpio_cfgx pin b)"

definition remap_reg :: "u32 \<Rightarrow> pin_remap \<Rightarrow> u32 option" where
  "remap_reg port remap =
    (if port = 0 then
       (case remap of PIN_REMAP_FIRST \<Rightarrow> Some 0xbfd011c0 | PIN_REMAP_SECOND \<Rightarrow> Some 0xbfd011d0
        | PIN_REMAP_THIRD \<Rightarrow> Some 0xbfd011e0 | PIN_REMAP_FOURTH \<Rightarrow> Some 0xbfd011f0
        | PIN_REMAP_FIFTH \<Rightarrow> Some 0xbfd01200 | PIN_REMAP_DEFAULT \<Rightarrow> None)
     else if port = 1 then
       (case remap of PIN_REMAP_FIRST \<Rightarrow> Some 0xbfd011c4 | PIN_REMAP_SECOND \<Rightarrow> Some 0xbfd011d4
        | PIN_REMAP_THIRD \<Rightarrow> Some 0xbfd011e4 | PIN_REMAP_FOURTH \<Rightarrow> Some 0xbfd011f4
        | PIN_REMAP_FIFTH \<Rightarrow> Some 0xbfd01204 | PIN_REMAP_DEFAULT \<Rightarrow> None)
     else if port = 2 then
       (case remap of PIN_REMAP_FIRST \<Rightarrow> Some 0xbfd011c8 | PIN_REMAP_SECOND \<Rightarrow> Some 0xbfd011d8
        | PIN_REMAP_THIRD \<Rightarrow> Some 0xbfd011e8 | PIN_REMAP_FOURTH \<Rightarrow> Some 0xbfd011f8
        | PIN_REMAP_FIFTH \<Rightarrow> Some 0xbfd01208 | PIN_REMAP_DEFAULT \<Rightarrow> None)
     else if port = 3 then
       (case remap of PIN_REMAP_FIRST \<Rightarrow> Some 0xbfd011cc | PIN_REMAP_SECOND \<Rightarrow> Some 0xbfd011dc
        | PIN_REMAP_THIRD \<Rightarrow> Some 0xbfd011ec | PIN_REMAP_FOURTH \<Rightarrow> Some 0xbfd011fc
        | PIN_REMAP_FIFTH \<Rightarrow> Some 0xbfd0120c | PIN_REMAP_DEFAULT \<Rightarrow> None)
     else None)"

fun clear_remaps :: "u32 list \<Rightarrow> u32 \<Rightarrow> u32 \<Rightarrow> bus \<Rightarrow> bus option" where
  "clear_remaps [] port pin b = Some b"
| "clear_remaps (i # is) port pin b =
    do { b \<leftarrow> reg_clr_one_bit (0xbfd011c0 + port * 0x04 + i * 0x10) pin b;
         clear_remaps is port pin b }"

definition pin_set_remap :: "u32 \<Rightarrow> pin_remap \<Rightarrow> bus \<Rightarrow> bus option" where
  "pin_set_remap gpio remap b =
    (let port = GPIO_GET_PORT gpio; pin = GPIO_GET_PIN gpio in
     do { b \<leftarrow> clear_remaps [0, 1, 2, 3, 4] port pin b;
          if remap = PIN_REMAP_DEFAULT then Some b
          else case remap_reg port remap of
            None \<Rightarrow> Some b
          | Some reg \<Rightarrow> reg_set_one_bit reg pin b })"

section \<open>GPIO\<close>

definition gpio_init :: "u32 \<Rightarrow> gpio_mode \<Rightarrow> bus \<Rightarrow> bus option" where
  "gpio_init gpio mode b =
    (let pin = GPIO_GET_PIN gpio in
     do { b \<leftarrow> pin_set_purpose gpio PIN_PURPOSE_GPIO b;
          let gpio_enx = gpio_get_en_reg gpio;
          if mode = gpio_mode_output then reg_clr_one_bit gpio_enx pin b
          else reg_set_one_bit gpio_enx pin b })"

definition gpio_set :: "u32 \<Rightarrow> gpio_level \<Rightarrow> bus \<Rightarrow> bus option" where
  "gpio_set gpio level b =
    (let port = GPIO_GET_PORT gpio; pin = GPIO_GET_PIN gpio;
         out = (\<lambda>gpio_outx. if level = gpio_level_low then reg_clr_one_bit gpio_outx pin b
                             else reg_set_one_bit gpio_outx pin b)
     in if port = 0 then out 0xbfd010f0
        else if port = 1 then out 0xbfd010f4
        else if port = 2 then out 0xbfd010f8
        else if port = 3 then out 0xbfd010fc
        else Some b)"

definition gpio_get :: "u32 \<Rightarrow> bus \<Rightarrow> u32 option" where
  "gpio_get gpio b =
    (let port = GPIO_GET_PORT gpio; pin = GPIO_GET_PIN gpio in
     if port = 0 then reg_get_bit 0xbfd010e0 pin b
     else if port = 1 then reg_get_bit 0xbfd010e4 pin b
     else if port = 2 then reg_get_bit 0xbfd010e8 pin b
     else if port = 3 then reg_get_bit 0xbfd010ec pin b
     else Some 0)"

definition gpio_set_irq_type :: "u32 \<Rightarrow> gpio_irq_type \<Rightarrow> bus \<Rightarrow> bus option" where
  "gpio_set_irq_type gpio type b =
    (let port = GPIO_GET_PORT gpio; pin = GPIO_GET_PIN gpio;
         int_pol = (if port = 0 then 0xbfd01080 else if port = 1 then 0xbfd01098
                    else if port = 2 then 0xbfd010b0 else 0);
         int_edge = (if port = 0 then 0xbfd01084 else if port = 1 then 0xbfd0109c
                     else if port = 2 then 0xbfd010b4 else 0)
     in case type of
          IRQ_TYPE_EDGE_RISING \<Rightarrow> do { b \<leftarrow> reg_set_one_bit int_pol pin b; reg_set_one_bit int_edge pin b }
        | IRQ_TYPE_EDGE_FALLING \<Rightarrow> do { b \<leftarrow> reg_clr_one_bit int_pol pin b; reg_set_one_bit int_edge pin b }
        | IRQ_TYPE_LEVEL_HIGH \<Rightarrow> do { b \<leftarrow> reg_set_one_bit int_pol pin b; reg_clr_one_bit int_edge pin b }
        | IRQ_TYPE_LEVEL_LOW \<Rightarrow> do { b \<leftarrow> reg_clr_one_bit int_pol pin b; reg_clr_one_bit int_edge pin b }
        | IRQ_TYPE_EDGE_BOTH \<Rightarrow> Some b
        | IRQ_TYPE_LEVEL_MASK \<Rightarrow> Some b)"

section \<open>Which register and bit belongs to a pin\<close>

text \<open>The registers of one function for ports 0 to 3 are consecutive words.\<close>

definition pin_reg :: "u32 \<Rightarrow> u32 \<Rightarrow> u32" where
  "pin_reg base gpio = base + 4 * (gpio div 32)"

abbreviation CFG :: u32 where "CFG \<equiv> 0xbfd010c0"
abbreviation EN :: u32 where "EN \<equiv> 0xbfd010d0"
abbreviation IN :: u32 where "IN \<equiv> 0xbfd010e0"
abbreviation OUT :: u32 where "OUT \<equiv> 0xbfd010f0"

fun CBUS :: "pin_remap \<Rightarrow> u32" where
  "CBUS PIN_REMAP_FIRST = 0xbfd011c0"
| "CBUS PIN_REMAP_SECOND = 0xbfd011d0"
| "CBUS PIN_REMAP_THIRD = 0xbfd011e0"
| "CBUS PIN_REMAP_FOURTH = 0xbfd011f0"
| "CBUS PIN_REMAP_FIFTH = 0xbfd01200"
| "CBUS PIN_REMAP_DEFAULT = 0"

definition pin_bit :: "u32 \<Rightarrow> nat" where
  "pin_bit gpio = unat (gpio mod 32)"

definition pin_bases :: "u32 set" where
  "pin_bases = {CFG, EN, OUT, 0xbfd011c0, 0xbfd011d0, 0xbfd011e0, 0xbfd011f0, 0xbfd01200}"

definition pins_internal :: "bus \<Rightarrow> bool" where
  "pins_internal b \<longleftrightarrow> (\<forall>base\<in>pin_bases. \<forall>gpio<128. internal (pin_reg base gpio) b)"

lemma port_cases:
  assumes "gpio < 128"
  obtains "gpio div 32 = 0" | "gpio div 32 = 1" | "gpio div 32 = 2" | "gpio div 32 = (3 :: u32)"
proof -
  have "unat (gpio div 32) < 4" using assms by (simp add: unat_div word_less_nat_alt less_mult_imp_div_less)
  then have "unat (gpio div 32) \<in> {0, 1, 2, 3}" by auto
  then show thesis using that by (auto simp: word_unat_eq_iff)
qed

lemma pin_bit_lt: "pin_bit gpio < 32"
  by (simp add: pin_bit_def unat_mod)

lemma pins_internalD: "pins_internal b \<Longrightarrow> base \<in> pin_bases \<Longrightarrow> gpio < 128 \<Longrightarrow> internal (pin_reg base gpio) b"
  by (simp add: pins_internal_def)

lemma pins_internal_wrote [simp]: "pins_internal (wrote a v b) = pins_internal b"
  by (simp add: pins_internal_def)

lemma gpio_regs:
  assumes "gpio < 128"
  shows "gpio_get_cfg_reg gpio = pin_reg CFG gpio" "gpio_get_en_reg gpio = pin_reg EN gpio"
  by (rule port_cases[OF assms];
      simp add: gpio_get_cfg_reg_def gpio_get_en_reg_def pin_reg_def GPIO_GET_PORT_def)+

lemma remap_reg_eq:
  assumes "gpio < 128" "r \<noteq> PIN_REMAP_DEFAULT"
  shows "remap_reg (GPIO_GET_PORT gpio) r = Some (pin_reg (CBUS r) gpio)"
proof -
  have "remap_reg 0 r = Some (CBUS r)" "remap_reg 1 r = Some (CBUS r + 4)"
    "remap_reg 2 r = Some (CBUS r + 8)" "remap_reg 3 r = Some (CBUS r + 12)"
    using assms(2) by (cases r; simp add: remap_reg_def)+
  then show ?thesis by (rule_tac port_cases[OF assms(1)]) (simp_all add: GPIO_GET_PORT_def pin_reg_def)
qed

lemma pin_reg_neq: "base \<noteq> base' \<Longrightarrow> pin_reg base gpio \<noteq> pin_reg base' gpio"
  by (simp add: pin_reg_def)

section \<open>What the operations do to the registers\<close>

lemma pin_set_purpose_eq:
  assumes "gpio < 128" "pins_internal b"
  shows "pin_set_purpose gpio PIN_PURPOSE_GPIO b =
      Some (wrote (pin_reg CFG gpio) (set_bit (pin_bit gpio) (reg32 b (pin_reg CFG gpio))) b)"
    "pin_set_purpose gpio PIN_PURPOSE_OTHER b =
      Some (wrote (pin_reg CFG gpio) (unset_bit (pin_bit gpio) (reg32 b (pin_reg CFG gpio))) b)"
  using pins_internalD[OF assms(2) _ assms(1), of CFG]
  by (simp_all add: pin_set_purpose_def gpio_regs[OF assms(1)] bus_access GPIO_GET_PIN_def pin_bit_def pin_bases_def)

lemma gpio_init_eq:
  fixes b :: bus
  assumes "gpio < 128" "pins_internal b"
  defines "b1 \<equiv> wrote (pin_reg CFG gpio) (set_bit (pin_bit gpio) (reg32 b (pin_reg CFG gpio))) b"
  shows "gpio_init gpio mode b = Some (wrote (pin_reg EN gpio)
      ((if mode = gpio_mode_output then unset_bit else set_bit) (pin_bit gpio) (reg32 b (pin_reg EN gpio))) b1)"
proof -
  have "internal (pin_reg EN gpio) b1"
    using pins_internalD[OF assms(2) _ assms(1), of EN] by (simp add: pin_bases_def b1_def)
  moreover have "reg32 b1 (pin_reg EN gpio) = reg32 b (pin_reg EN gpio)"
    by (simp add: b1_def pin_reg_def)
  ultimately show ?thesis
    by (simp add: gpio_init_def pin_set_purpose_eq[OF assms(1,2)] gpio_regs[OF assms(1)] bus_access
        GPIO_GET_PIN_def pin_bit_def b1_def pin_reg_neq Let_def)
qed

lemma gpio_set_eq:
  assumes "gpio < 128" "pins_internal b"
  shows "gpio_set gpio level b = Some (wrote (pin_reg OUT gpio)
      ((if level = gpio_level_low then unset_bit else set_bit) (pin_bit gpio) (reg32 b (pin_reg OUT gpio))) b)"
proof -
  have i: "internal (pin_reg OUT gpio) b" using pins_internalD[OF assms(2) _ assms(1), of OUT] by (simp add: pin_bases_def)
  then show ?thesis by (rule_tac port_cases[OF assms(1)])
    (simp_all add: gpio_set_def GPIO_GET_PORT_def GPIO_GET_PIN_def pin_bit_def pin_reg_def bus_access)
qed

lemma gpio_get_eq:
  assumes "gpio < 128"
  shows "gpio_get gpio b = Some (of_bool (bit (seen (pin_reg IN gpio) b) (pin_bit gpio)))"
  by (rule port_cases[OF assms])
    (simp_all add: gpio_get_def GPIO_GET_PORT_def GPIO_GET_PIN_def pin_bit_def pin_reg_def reg_get_bit_eq)

section \<open>Remapping\<close>

text \<open>The loop of \<^verbatim>\<open>pin_set_remap\<close> clears the pin's bit in each of the five remap registers.\<close>

definition cleared :: "u32 \<Rightarrow> u32 \<Rightarrow> bus \<Rightarrow> bus" where
  "cleared gpio base b = wrote (pin_reg base gpio) (unset_bit (pin_bit gpio) (reg32 b (pin_reg base gpio))) b"

definition remaps_cleared :: "u32 \<Rightarrow> bus \<Rightarrow> bus" where
  "remaps_cleared gpio b = cleared gpio 0xbfd01200 (cleared gpio 0xbfd011f0 (cleared gpio 0xbfd011e0
     (cleared gpio 0xbfd011d0 (cleared gpio 0xbfd011c0 b))))"

lemma cleared_internal [simp]: "pins_internal (cleared gpio base b) = pins_internal b"
  by (simp add: cleared_def)

lemma reg_clr_pin:
  assumes "gpio < 128" "pins_internal b" "base \<in> pin_bases"
  shows "reg_clr_one_bit (pin_reg base gpio) (gpio mod 32) b = Some (cleared gpio base b)"
  using pins_internalD[OF assms(2,3,1)] by (simp add: bus_access cleared_def pin_bit_def)

lemma clear_remaps_eq:
  assumes "gpio < 128" "pins_internal b"
  shows "clear_remaps [0, 1, 2, 3, 4] (GPIO_GET_PORT gpio) (GPIO_GET_PIN gpio) b = Some (remaps_cleared gpio b)"
proof -
  have step: "clear_remaps (i # is) (gpio div 32) (gpio mod 32) b =
      clear_remaps is (gpio div 32) (gpio mod 32) (cleared gpio (0xbfd011c0 + i * 0x10) b)"
    if "pins_internal b" "0xbfd011c0 + i * 0x10 \<in> pin_bases" for i "is" b
    using reg_clr_pin[OF assms(1) that] by (simp add: pin_reg_def add_ac mult_ac)
  show ?thesis
    using assms(2)
    by (simp add: step pin_bases_def GPIO_GET_PORT_def GPIO_GET_PIN_def remaps_cleared_def del: clear_remaps.simps(2))
qed

lemma bit_cleared:
  "bit (reg32 (cleared gpio base b) a) n \<longleftrightarrow> bit (reg32 b a) n \<and> \<not> (a = pin_reg base gpio \<and> n = pin_bit gpio)"
  by (auto simp: cleared_def bit_unset_bit_iff)

lemma pin_set_remap_bits:
  assumes "gpio < 128" "pins_internal b"
  obtains b' where "pin_set_remap gpio remap b = Some b'"
    "\<And>a n. bit (reg32 b' a) n \<longleftrightarrow>
      (if n = pin_bit gpio \<and> (\<exists>r. r \<noteq> PIN_REMAP_DEFAULT \<and> a = pin_reg (CBUS r) gpio)
       then remap \<noteq> PIN_REMAP_DEFAULT \<and> a = pin_reg (CBUS remap) gpio
       else bit (reg32 b a) n)"
proof -
  let ?b = "remaps_cleared gpio b"
  have ex: "(\<exists>r. r \<noteq> PIN_REMAP_DEFAULT \<and> a = pin_reg (CBUS r) gpio) \<longleftrightarrow>
      a = pin_reg 0xbfd011c0 gpio \<or> a = pin_reg 0xbfd011d0 gpio \<or> a = pin_reg 0xbfd011e0 gpio \<or>
      a = pin_reg 0xbfd011f0 gpio \<or> a = pin_reg 0xbfd01200 gpio" for a
    by (metis CBUS.simps pin_remap.distinct pin_remap.exhaust)
  have c: "bit (reg32 ?b a) n \<longleftrightarrow> bit (reg32 b a) n \<and>
      \<not> (n = pin_bit gpio \<and> (\<exists>r. r \<noteq> PIN_REMAP_DEFAULT \<and> a = pin_reg (CBUS r) gpio))" for a n
    unfolding ex by (auto simp: remaps_cleared_def bit_cleared)
  show thesis
  proof (cases "remap = PIN_REMAP_DEFAULT")
    case True
    then have "pin_set_remap gpio remap b = Some ?b"
      using clear_remaps_eq[OF assms] by (simp add: pin_set_remap_def Let_def del: clear_remaps.simps)
    then show thesis by (rule that) (use True c in auto)
  next
    case False
    let ?a = "pin_reg (CBUS remap) gpio"
    have "CBUS remap \<in> pin_bases" using False by (cases remap) (simp_all add: pin_bases_def)
    then have "internal ?a ?b" using pins_internalD[OF _ _ assms(1)] assms(2) by (simp add: remaps_cleared_def)
    then have "pin_set_remap gpio remap b = Some (wrote ?a (set_bit (pin_bit gpio) (reg32 ?b ?a)) ?b)"
      using clear_remaps_eq[OF assms] False
      by (simp add: pin_set_remap_def Let_def remap_reg_eq[OF assms(1)] bus_access pin_bit_def GPIO_GET_PIN_def
          del: clear_remaps.simps)
    then show thesis
      by (rule that) (use False c pin_bit_lt in \<open>auto simp: bit_set_bit_iff split: if_splits\<close>)
  qed
qed

section \<open>Interrupt conditions of a pin\<close>

lemma gpio_irq_type_port3:
  assumes "96 \<le> gpio" "type \<notin> {IRQ_TYPE_EDGE_BOTH, IRQ_TYPE_LEVEL_MASK}"
  shows "gpio_set_irq_type gpio type b = None"
proof -
  have "3 \<le> unat gpio div 32" using assms(1) by (simp add: word_le_nat_alt)
  then have "gpio div 32 \<noteq> 0" "gpio div 32 \<noteq> 1" "gpio div 32 \<noteq> 2"
    by (auto simp: word_unat_eq_iff unat_div)
  then show ?thesis using assms(2) by (cases type) (simp_all add: gpio_set_irq_type_def GPIO_GET_PORT_def Let_def)
qed

end
