(* ===== verification/I2c.thy ===== *)
theory I2c
  imports Gpio
begin

unbundle bit_operations_syntax

text \<open>
  The two-wire bus driven by software, \<^verbatim>\<open>src/lib/ls1c_simulate_i2c.c\<close>. The delays between the
  accesses touch no register and are left out; the order of the accesses is kept. What the
  operations put on the two wires is read off the sequence of register writes: \<open>wave\<close> lists
  the levels of SCL and SDA after every write, \<open>samples\<close> what a slave reads at the rising
  edges of SCL, \<open>conditions\<close> the start and stop conditions (SDA changing while SCL is high).
\<close>

record simulate_i2c =
  scl_gpio :: u32
  sda_gpio :: u32

section \<open>Operations\<close>

definition simulate_i2c_config_scl_out :: "simulate_i2c \<Rightarrow> bus \<Rightarrow> bus option" where
  "simulate_i2c_config_scl_out i b = gpio_init (scl_gpio i) gpio_mode_output b"

definition simulate_i2c_config_sda_out :: "simulate_i2c \<Rightarrow> bus \<Rightarrow> bus option" where
  "simulate_i2c_config_sda_out i b = gpio_init (sda_gpio i) gpio_mode_output b"

definition simulate_i2c_config_sda_in :: "simulate_i2c \<Rightarrow> bus \<Rightarrow> bus option" where
  "simulate_i2c_config_sda_in i b = gpio_init (sda_gpio i) gpio_mode_input b"

definition simulate_i2c_scl_out_high :: "simulate_i2c \<Rightarrow> bus \<Rightarrow> bus option" where
  "simulate_i2c_scl_out_high i b = gpio_set (scl_gpio i) gpio_level_high b"

definition simulate_i2c_scl_out_low :: "simulate_i2c \<Rightarrow> bus \<Rightarrow> bus option" where
  "simulate_i2c_scl_out_low i b = gpio_set (scl_gpio i) gpio_level_low b"

definition simulate_i2c_sda_out_high :: "simulate_i2c \<Rightarrow> bus \<Rightarrow> bus option" where
  "simulate_i2c_sda_out_high i b = gpio_set (sda_gpio i) gpio_level_high b"

definition simulate_i2c_sda_out_low :: "simulate_i2c \<Rightarrow> bus \<Rightarrow> bus option" where
  "simulate_i2c_sda_out_low i b = gpio_set (sda_gpio i) gpio_level_low b"

definition simulate_i2c_sda_in :: "simulate_i2c \<Rightarrow> bus \<Rightarrow> u32 option" where
  "simulate_i2c_sda_in i b = gpio_get (sda_gpio i) b"

definition simulate_i2c_init :: "simulate_i2c \<Rightarrow> bus \<Rightarrow> bus option" where
  "simulate_i2c_init i b =
    do { b \<leftarrow> simulate_i2c_config_scl_out i b;
         simulate_i2c_scl_out_high i b }"

definition simulate_i2c_start :: "simulate_i2c \<Rightarrow> bus \<Rightarrow> bus option" where
  "simulate_i2c_start i b =
    do { b \<leftarrow> simulate_i2c_config_sda_out i b;
         b \<leftarrow> simulate_i2c_scl_out_high i b;
         b \<leftarrow> simulate_i2c_sda_out_high i b;
         b \<leftarrow> simulate_i2c_sda_out_low i b;
         simulate_i2c_scl_out_low i b }"

definition simulate_i2c_stop :: "simulate_i2c \<Rightarrow> bus \<Rightarrow> bus option" where
  "simulate_i2c_stop i b =
    do { b \<leftarrow> simulate_i2c_config_sda_out i b;
         b \<leftarrow> simulate_i2c_scl_out_low i b;
         b \<leftarrow> simulate_i2c_sda_out_low i b;
         b \<leftarrow> simulate_i2c_scl_out_high i b;
         simulate_i2c_sda_out_high i b }"

definition simulate_i2c_send_ack :: "simulate_i2c \<Rightarrow> bus \<Rightarrow> bus option" where
  "simulate_i2c_send_ack i b =
    do { b \<leftarrow> simulate_i2c_config_sda_out i b;
         b \<leftarrow> simulate_i2c_sda_out_low i b;
         b \<leftarrow> simulate_i2c_scl_out_high i b;
         simulate_i2c_scl_out_low i b }"

definition simulate_i2c_send_no_ack :: "simulate_i2c \<Rightarrow> bus \<Rightarrow> bus option" where
  "simulate_i2c_send_no_ack i b =
    do { b \<leftarrow> simulate_i2c_config_sda_out i b;
         b \<leftarrow> simulate_i2c_sda_out_high i b;
         b \<leftarrow> simulate_i2c_scl_out_high i b;
         simulate_i2c_scl_out_low i b }"

definition simulate_i2c_read_ack :: "simulate_i2c \<Rightarrow> bus \<Rightarrow> (u32 \<times> bus) option" where
  "simulate_i2c_read_ack i b =
    do { b \<leftarrow> simulate_i2c_config_sda_in i b;
         b \<leftarrow> simulate_i2c_scl_out_high i b;
         ack \<leftarrow> simulate_i2c_sda_in i b;
         b \<leftarrow> simulate_i2c_scl_out_low i b;
         Some (ack, b) }"

fun read_bits :: "nat \<Rightarrow> simulate_i2c \<Rightarrow> u8 \<Rightarrow> bus \<Rightarrow> (u8 \<times> bus) option" where
  "read_bits 0 i data b = Some (data, b)"
| "read_bits (Suc n) i data b =
    do { b \<leftarrow> simulate_i2c_scl_out_high i b;
         let data = push_bit 1 data;
         v \<leftarrow> simulate_i2c_sda_in i b;
         let data = (if v = 1 then data OR 0x01 else data);
         b \<leftarrow> simulate_i2c_scl_out_low i b;
         read_bits n i data b }"

definition simulate_i2c_read_byte :: "simulate_i2c \<Rightarrow> bus \<Rightarrow> (u8 \<times> bus) option" where
  "simulate_i2c_read_byte i b =
    do { b \<leftarrow> simulate_i2c_config_sda_in i b;
         read_bits 8 i 0 b }"

fun write_bits :: "nat \<Rightarrow> simulate_i2c \<Rightarrow> u8 \<Rightarrow> bus \<Rightarrow> bus option" where
  "write_bits 0 i data b = Some b"
| "write_bits (Suc n) i data b =
    do { b \<leftarrow> (if data AND 0x80 \<noteq> 0 then simulate_i2c_sda_out_high i b else simulate_i2c_sda_out_low i b);
         b \<leftarrow> simulate_i2c_scl_out_high i b;
         b \<leftarrow> simulate_i2c_scl_out_low i b;
         write_bits n i (push_bit 1 data) b }"

definition simulate_i2c_write_byte :: "simulate_i2c \<Rightarrow> u8 \<Rightarrow> bus \<Rightarrow> bus option" where
  "simulate_i2c_write_byte i data b =
    do { b \<leftarrow> simulate_i2c_config_sda_out i b;
         write_bits 8 i data b }"

section \<open>The wires\<close>

definition level :: "u32 \<Rightarrow> (u32 \<Rightarrow> u32) \<Rightarrow> bool" where
  "level gpio r \<longleftrightarrow> bit (r (pin_reg OUT gpio)) (pin_bit gpio)"

definition wires :: "simulate_i2c \<Rightarrow> (u32 \<Rightarrow> u32) \<Rightarrow> bool \<times> bool" where
  "wires i r = (level (scl_gpio i) r, level (sda_gpio i) r)"

fun wave :: "simulate_i2c \<Rightarrow> (u32 \<Rightarrow> u32) \<Rightarrow> (u32 \<times> u32) list \<Rightarrow> (bool \<times> bool) list" where
  "wave i r [] = []"
| "wave i r ((a, v) # l) = wires i (r(a := v)) # wave i (r(a := v)) l"

fun replay :: "(u32 \<Rightarrow> u32) \<Rightarrow> (u32 \<times> u32) list \<Rightarrow> u32 \<Rightarrow> u32" where
  "replay r [] = r"
| "replay r ((a, v) # l) = replay (r(a := v)) l"

datatype condition = Start | Stop

fun samples :: "bool \<Rightarrow> (bool \<times> bool) list \<Rightarrow> bool list" where
  "samples scl [] = []"
| "samples scl ((c, d) # w) = (if \<not> scl \<and> c then [d] else []) @ samples c w"

fun conditions :: "bool \<times> bool \<Rightarrow> (bool \<times> bool) list \<Rightarrow> condition list" where
  "conditions p [] = []"
| "conditions p ((c, d) # w) =
    (if fst p \<and> c \<and> snd p \<and> \<not> d then [Start] else if fst p \<and> c \<and> \<not> snd p \<and> d then [Stop] else []) @
    conditions (c, d) w"

definition moves :: "simulate_i2c \<Rightarrow> bus \<Rightarrow> (bool \<times> bool) list \<Rightarrow> bus \<Rightarrow> bool" where
  "moves i b w b' \<longleftrightarrow>
    (\<exists>l. log32 b' = log32 b @ l \<and> reg32 b' = replay (reg32 b) l \<and> wave i (reg32 b) l = w) \<and> ext b' = ext b"

definition i2c_ok :: "simulate_i2c \<Rightarrow> bus \<Rightarrow> bool" where
  "i2c_ok i b \<longleftrightarrow> scl_gpio i < 128 \<and> sda_gpio i < 128 \<and> scl_gpio i \<noteq> sda_gpio i \<and> pins_internal b"

lemma replay_append: "replay r (l @ l') = replay (replay r l) l'"
  by (induction l arbitrary: r) (auto simp: split_paired_all)

lemma wave_append: "wave i r (l @ l') = wave i r l @ wave i (replay r l) l'"
  by (induction l arbitrary: r) (auto simp: split_paired_all)

lemma moves_trans:
  assumes "moves i b w b1" "moves i b1 w' b2"
  shows "moves i b (w @ w') b2"
proof -
  obtain l where l: "log32 b1 = log32 b @ l" "reg32 b1 = replay (reg32 b) l" "wave i (reg32 b) l = w"
    using assms(1) by (auto simp: moves_def)
  obtain l' where l': "log32 b2 = log32 b1 @ l'" "reg32 b2 = replay (reg32 b1) l'" "wave i (reg32 b1) l' = w'"
    using assms(2) by (auto simp: moves_def)
  show ?thesis using assms l l'
    by (auto simp: moves_def replay_append wave_append intro!: exI[of _ "l @ l'"])
qed

lemma moves_refl: "moves i b [] b"
  by (auto simp: moves_def intro!: exI[of _ "[]"])

lemma moves_wrote: "moves i b [wires i ((reg32 b)(a := v))] (wrote a v b)"
  by (auto simp: moves_def intro!: exI[of _ "[(a, v)]"])

lemma moves_internal: "moves i b w b' \<Longrightarrow> pins_internal b' = pins_internal b"
  by (simp add: moves_def pins_internal_def internal_def)

lemma moves_ok: "moves i b w b' \<Longrightarrow> i2c_ok i b' = i2c_ok i b"
  by (simp add: i2c_ok_def moves_internal)

lemma moves_wires: "moves i b w b' \<Longrightarrow> wires i (reg32 b') = last (wires i (reg32 b) # w)"
proof -
  have "wires i (replay r l) = last (wires i r # wave i r l)" for r l
    by (induction l arbitrary: r) (auto simp: split_paired_all)
  then show "moves i b w b' \<Longrightarrow> wires i (reg32 b') = last (wires i (reg32 b) # w)"
    by (auto simp: moves_def)
qed

section \<open>One access\<close>

lemma pins_distinct:
  assumes "pin_reg base gpio' = pin_reg base gpio" "pin_bit gpio = pin_bit gpio'" "gpio < 128" "gpio' < 128"
  shows "gpio' = gpio"
proof -
  have d: "gpio div 32 = gpio' div 32"
    by (rule port_cases[OF assms(3)]; rule port_cases[OF assms(4)]) (use assms(1) in \<open>simp_all add: pin_reg_def\<close>)
  have "gpio mod 32 = gpio' mod 32" using assms(2) by (simp add: pin_bit_def word_unat_eq_iff)
  then show ?thesis using d by (metis div_mult_mod_eq)
qed

lemma out_apart:
  assumes "gpio < 128" "gpio' < 128"
  shows "pin_reg CFG gpio \<noteq> pin_reg OUT gpio'" "pin_reg EN gpio \<noteq> pin_reg OUT gpio'"
  by (rule port_cases[OF assms(1)]; rule port_cases[OF assms(2)]; simp add: pin_reg_def)+

lemma level_set:
  assumes "gpio < 128" "gpio' < 128"
  shows "level gpio' (r(pin_reg OUT gpio := set_bit (pin_bit gpio) (r (pin_reg OUT gpio)))) \<longleftrightarrow> gpio' = gpio \<or> level gpio' r"
    "level gpio' (r(pin_reg OUT gpio := unset_bit (pin_bit gpio) (r (pin_reg OUT gpio)))) \<longleftrightarrow> gpio' \<noteq> gpio \<and> level gpio' r"
  using pins_distinct[OF _ _ assms, of OUT] pin_bit_lt[of gpio]
  by (auto simp: level_def bit_set_bit_iff bit_unset_bit_iff)

lemma set_moves:
  assumes "i2c_ok i b"
  shows "\<exists>b'. simulate_i2c_scl_out_high i b = Some b' \<and> moves i b [(True, snd (wires i (reg32 b)))] b'"
    "\<exists>b'. simulate_i2c_scl_out_low i b = Some b' \<and> moves i b [(False, snd (wires i (reg32 b)))] b'"
    "\<exists>b'. simulate_i2c_sda_out_high i b = Some b' \<and> moves i b [(fst (wires i (reg32 b)), True)] b'"
    "\<exists>b'. simulate_i2c_sda_out_low i b = Some b' \<and> moves i b [(fst (wires i (reg32 b)), False)] b'"
proof -
  have o: "scl_gpio i < 128" "sda_gpio i < 128" "scl_gpio i \<noteq> sda_gpio i" "pins_internal b"
    using assms by (simp_all add: i2c_ok_def)
  note m = moves_wrote[of i b "pin_reg OUT (scl_gpio i)"] moves_wrote[of i b "pin_reg OUT (sda_gpio i)"]
  show "\<exists>b'. simulate_i2c_scl_out_high i b = Some b' \<and> moves i b [(True, snd (wires i (reg32 b)))] b'"
    "\<exists>b'. simulate_i2c_scl_out_low i b = Some b' \<and> moves i b [(False, snd (wires i (reg32 b)))] b'"
    "\<exists>b'. simulate_i2c_sda_out_high i b = Some b' \<and> moves i b [(fst (wires i (reg32 b)), True)] b'"
    "\<exists>b'. simulate_i2c_sda_out_low i b = Some b' \<and> moves i b [(fst (wires i (reg32 b)), False)] b'"
    using m[of "set_bit (pin_bit (scl_gpio i)) (reg32 b (pin_reg OUT (scl_gpio i)))"]
      m[of "unset_bit (pin_bit (scl_gpio i)) (reg32 b (pin_reg OUT (scl_gpio i)))"]
      m[of "set_bit (pin_bit (sda_gpio i)) (reg32 b (pin_reg OUT (sda_gpio i)))"]
      m[of "unset_bit (pin_bit (sda_gpio i)) (reg32 b (pin_reg OUT (sda_gpio i)))"] o
    by (auto simp: simulate_i2c_scl_out_high_def simulate_i2c_scl_out_low_def simulate_i2c_sda_out_high_def
        simulate_i2c_sda_out_low_def gpio_set_eq wires_def level_set)
qed

lemma config_moves:
  assumes "i2c_ok i b" "gpio < 128"
  shows "\<exists>b'. gpio_init gpio mode b = Some b' \<and> moves i b [wires i (reg32 b), wires i (reg32 b)] b'"
proof -
  have o: "scl_gpio i < 128" "sda_gpio i < 128" "pins_internal b" using assms by (simp_all add: i2c_ok_def)
  have w: "wires i (r(pin_reg CFG gpio := v)) = wires i r" "wires i (r(pin_reg EN gpio := v)) = wires i r" for r v
    using out_apart[OF assms(2) o(1)] out_apart[OF assms(2) o(2)] by (auto simp: wires_def level_def)
  let ?b1 = "wrote (pin_reg CFG gpio) (set_bit (pin_bit gpio) (reg32 b (pin_reg CFG gpio))) b"
  have "moves i b ([wires i (reg32 b)] @ [wires i (reg32 b)]) (wrote (pin_reg EN gpio) v ?b1)" for v
    by (rule moves_trans[where ?b1.0 = ?b1])
      (use moves_wrote[of i b "pin_reg CFG gpio" "set_bit (pin_bit gpio) (reg32 b (pin_reg CFG gpio))"]
        moves_wrote[of i ?b1 "pin_reg EN gpio" v] in \<open>simp_all add: w\<close>)
  then show ?thesis using gpio_init_eq[OF assms(2) o(3), of mode] by auto
qed

section \<open>The protocol\<close>

text \<open>
  A chain of accesses: each step knows the levels it starts from, so the wave of a whole
  operation is computed from the levels at its start.
\<close>

definition steps :: "simulate_i2c \<Rightarrow> bus \<Rightarrow> (bool \<times> bool) list \<Rightarrow> bus \<Rightarrow> bool" where
  "steps i b w b' \<longleftrightarrow> moves i b w b' \<and> i2c_ok i b' \<and> wires i (reg32 b') = last (wires i (reg32 b) # w)"

lemma stepsI: "i2c_ok i b \<Longrightarrow> moves i b w b' \<Longrightarrow> steps i b w b'"
  by (simp add: steps_def moves_ok moves_wires)

lemma steps_trans: "steps i b w b1 \<Longrightarrow> steps i b1 w' b2 \<Longrightarrow> steps i b (w @ w') b2"
  using moves_trans[of i b w b1 w' b2] by (auto simp: steps_def)

lemma steps_ok: "steps i b w b' \<Longrightarrow> i2c_ok i b'"
  by (simp add: steps_def)

lemma bind_steps:
  assumes "\<exists>b1. m = Some b1 \<and> steps i b w b1" "\<And>b1. steps i b w b1 \<Longrightarrow> \<exists>b2. g b1 = Some b2 \<and> steps i b1 w' b2"
  shows "\<exists>b2. m \<bind> g = Some b2 \<and> steps i b (w @ w') b2"
  using assms steps_trans by fastforce

lemma access_steps:
  assumes "i2c_ok i b" "wires i (reg32 b) = (c, d)"
  shows "\<exists>b'. simulate_i2c_scl_out_high i b = Some b' \<and> steps i b [(True, d)] b'"
    "\<exists>b'. simulate_i2c_scl_out_low i b = Some b' \<and> steps i b [(False, d)] b'"
    "\<exists>b'. simulate_i2c_sda_out_high i b = Some b' \<and> steps i b [(c, True)] b'"
    "\<exists>b'. simulate_i2c_sda_out_low i b = Some b' \<and> steps i b [(c, False)] b'"
    "\<exists>b'. simulate_i2c_config_sda_out i b = Some b' \<and> steps i b [(c, d), (c, d)] b'"
    "\<exists>b'. simulate_i2c_config_sda_in i b = Some b' \<and> steps i b [(c, d), (c, d)] b'"
    "\<exists>b'. simulate_i2c_config_scl_out i b = Some b' \<and> steps i b [(c, d), (c, d)] b'"
proof -
  have cfg: "\<exists>b'. gpio_init gpio mode b = Some b' \<and> steps i b [(c, d), (c, d)] b'" if "gpio < 128" for gpio mode
    using config_moves[OF assms(1) that, of mode] stepsI[OF assms(1)] assms(2) by force
  then show "\<exists>b'. simulate_i2c_config_sda_out i b = Some b' \<and> steps i b [(c, d), (c, d)] b'"
    "\<exists>b'. simulate_i2c_config_sda_in i b = Some b' \<and> steps i b [(c, d), (c, d)] b'"
    "\<exists>b'. simulate_i2c_config_scl_out i b = Some b' \<and> steps i b [(c, d), (c, d)] b'"
    using assms(1)
    by (simp_all add: simulate_i2c_config_sda_out_def simulate_i2c_config_sda_in_def simulate_i2c_config_scl_out_def i2c_ok_def)
qed (use set_moves[OF assms(1)] stepsI[OF assms(1)] assms(2) in force)+

lemma steps_wires:
  "steps i b [x] b' \<Longrightarrow> wires i (reg32 b') = x" "steps i b [x, y] b' \<Longrightarrow> wires i (reg32 b') = y"
  by (simp_all add: steps_def)

lemma start_steps:
  assumes "i2c_ok i b" "wires i (reg32 b) = (c, d)"
  shows "\<exists>b'. simulate_i2c_start i b = Some b' \<and>
    steps i b ([(c, d), (c, d)] @ [(True, d)] @ [(True, True)] @ [(True, False)] @ [(False, False)]) b'"
  unfolding simulate_i2c_start_def
  by (insert assms) (rule bind_steps access_steps | erule steps_ok steps_wires | assumption)+

lemma stop_steps:
  assumes "i2c_ok i b" "wires i (reg32 b) = (c, d)"
  shows "\<exists>b'. simulate_i2c_stop i b = Some b' \<and>
    steps i b ([(c, d), (c, d)] @ [(False, d)] @ [(False, False)] @ [(True, False)] @ [(True, True)]) b'"
  unfolding simulate_i2c_stop_def
  by (insert assms) (rule bind_steps access_steps | erule steps_ok steps_wires | assumption)+

fun bit_wave :: "nat \<Rightarrow> u8 \<Rightarrow> (bool \<times> bool) list" where
  "bit_wave 0 data = []"
| "bit_wave (Suc n) data = [(False, bit data 7)] @ [(True, bit data 7)] @ [(False, bit data 7)] @ bit_wave n (push_bit 1 data)"

lemma top_bit_test: "(data :: u8) AND 0x80 \<noteq> 0 \<longleftrightarrow> bit data 7"
  using and_exp_eq_0_iff_not_bit[of data 7] by simp

lemma write_bits_steps:
  assumes "i2c_ok i b" "wires i (reg32 b) = (False, d)"
  shows "\<exists>b'. write_bits n i data b = Some b' \<and> steps i b (bit_wave n data) b'"
  using assms
proof (induction n arbitrary: data b d)
  case 0
  then show ?case using stepsI[OF 0(1) moves_refl] by simp
next
  case (Suc n)
  have one: "\<exists>b'. (if data AND 0x80 \<noteq> 0 then simulate_i2c_sda_out_high i b else simulate_i2c_sda_out_low i b) = Some b' \<and>
      steps i b [(False, bit data 7)] b'"
    unfolding top_bit_test using access_steps(3,4)[OF Suc.prems] by (cases "bit data 7") auto
  show ?case
    unfolding write_bits.simps bit_wave.simps
    by (insert Suc.prems) (rule bind_steps[OF one] bind_steps access_steps Suc.IH | erule steps_ok steps_wires | assumption)+
qed

lemma write_byte_steps:
  assumes "i2c_ok i b" "wires i (reg32 b) = (False, d)"
  shows "\<exists>b'. simulate_i2c_write_byte i data b = Some b' \<and> steps i b ([(False, d), (False, d)] @ bit_wave 8 data) b'"
  unfolding simulate_i2c_write_byte_def
  by (insert assms) (rule bind_steps access_steps write_bits_steps | erule steps_ok steps_wires | assumption)+

lemma bit_wave_samples: "n \<le> 8 \<Longrightarrow> samples False (bit_wave n data) = map (\<lambda>k. bit data (7 - k)) [0..<n]"
proof (induction n arbitrary: data)
  case (Suc n)
  have "bit (push_bit 1 data) (7 - k) = bit data (7 - Suc k)" if "k < n" for k
    using that Suc.prems by (subst bit_push_bit_iff) auto
  then have "map (\<lambda>k. bit (push_bit 1 data) (7 - k)) [0..<n] = map (\<lambda>k. bit data (7 - Suc k)) [0..<n]"
    by simp
  then show ?case using Suc by (simp add: upt_conv_Cons map_Suc_upt[symmetric] comp_def del: upt_Suc)
qed simp

lemma bit_wave_conditions: "conditions (False, d) (bit_wave n data) = []"
  by (induction n arbitrary: d data) auto

lemma bit_wave_last: "0 < n \<Longrightarrow> bit_wave n data \<noteq> [] \<and> \<not> fst (last (bit_wave n data))"
proof (induction n arbitrary: data)
  case (Suc n)
  then show ?case using Suc.IH[of "push_bit 1 data"] by (cases "n = 0") auto
qed simp

section \<open>Reading\<close>

text \<open>What the slave holds on SDA at the next rising edges of SCL.\<close>

definition sda_seen :: "simulate_i2c \<Rightarrow> bus \<Rightarrow> bool" where
  "sda_seen i b \<longleftrightarrow> bit (seen (pin_reg IN (sda_gpio i)) b) (pin_bit (sda_gpio i))"

fun slave_bits :: "nat \<Rightarrow> simulate_i2c \<Rightarrow> bus \<Rightarrow> bool list" where
  "slave_bits 0 i b = []"
| "slave_bits (Suc n) i b =
    (case simulate_i2c_scl_out_high i b of
       None \<Rightarrow> []
     | Some b \<Rightarrow> sda_seen i b #
        (case simulate_i2c_scl_out_low i b of None \<Rightarrow> [] | Some b \<Rightarrow> slave_bits n i b))"

definition shift_in :: "u8 \<Rightarrow> bool list \<Rightarrow> u8" where
  "shift_in = foldl (\<lambda>d v. push_bit 1 d OR of_bool v)"

lemma bit_shift_in:
  "k < 8 \<Longrightarrow> bit (shift_in d vs) k \<longleftrightarrow> (if k < length vs then vs ! (length vs - Suc k) else bit d (k - length vs))"
proof (induction vs arbitrary: k rule: rev_induct)
  case Nil
  then show ?case by (simp add: shift_in_def)
next
  case (snoc v vs)
  have "shift_in d (vs @ [v]) = push_bit 1 (shift_in d vs) OR of_bool v" by (simp add: shift_in_def)
  then have "bit (shift_in d (vs @ [v])) k \<longleftrightarrow> (if k = 0 then v else bit (shift_in d vs) (k - 1))"
    using snoc.prems by (subst \<open>shift_in d (vs @ [v]) = _\<close>, subst bit_or_iff, subst bit_push_bit_iff) (auto simp: bit_1_iff)
  then show ?case using snoc by (cases k) (auto simp: nth_append)
qed

lemma sda_in_eq: "i2c_ok i b \<Longrightarrow> simulate_i2c_sda_in i b = Some (of_bool (sda_seen i b))"
  by (simp add: simulate_i2c_sda_in_def sda_seen_def gpio_get_eq i2c_ok_def)

fun clock_wave :: "nat \<Rightarrow> bool \<Rightarrow> (bool \<times> bool) list" where
  "clock_wave 0 d = []"
| "clock_wave (Suc n) d = [(True, d)] @ [(False, d)] @ clock_wave n d"

lemma read_bits_steps:
  assumes "i2c_ok i b" "wires i (reg32 b) = (False, d)"
  shows "\<exists>b'. read_bits n i data b = Some (shift_in data (slave_bits n i b), b') \<and>
    steps i b (clock_wave n d) b' \<and> length (slave_bits n i b) = n"
  using assms
proof (induction n arbitrary: data b)
  case 0
  then show ?case using stepsI[OF 0(1) moves_refl] by (simp add: shift_in_def)
next
  case (Suc n)
  obtain b1 where b1: "simulate_i2c_scl_out_high i b = Some b1" "steps i b [(True, d)] b1"
    using access_steps(1)[OF Suc.prems] by blast
  obtain b2 where b2: "simulate_i2c_scl_out_low i b1 = Some b2" "steps i b1 [(False, d)] b2"
    using access_steps(2)[OF steps_ok[OF b1(2)] steps_wires(1)[OF b1(2)]] by blast
  let ?data = "push_bit 1 data OR of_bool (sda_seen i b1)"
  obtain b3 where b3: "read_bits n i ?data b2 = Some (shift_in ?data (slave_bits n i b2), b3)"
      "steps i b2 (clock_wave n d) b3" "length (slave_bits n i b2) = n"
    using Suc.IH[OF steps_ok[OF b2(2)] steps_wires(1)[OF b2(2)], of ?data] by blast
  have "read_bits (Suc n) i data b = Some (shift_in data (slave_bits (Suc n) i b), b3)"
    using b1 b2 b3(1) sda_in_eq[OF steps_ok[OF b1(2)]] by (cases "sda_seen i b1") (simp_all add: shift_in_def)
  moreover have "steps i b (clock_wave (Suc n) d) b3"
    unfolding clock_wave.simps by (intro steps_trans[OF b1(2)] steps_trans[OF b2(2)] b3(2))
  ultimately show ?case using b1(1) b2(1) b3(3) by simp
qed

lemma clock_wave_quiet: "conditions (False, d) (clock_wave n d) = []"
  by (induction n) auto

end
