(* ===== verification/Clock.thy ===== *)
theory Clock
  imports Gpio
begin

unbundle bit_operations_syntax

text \<open>
  Clock rates (\<^verbatim>\<open>src/lib/ls1c_clock.c\<close>), the hardware timers
  (\<^verbatim>\<open>src/lib/ls1c_timer.c\<close>), the register side of the pulse generators
  (\<^verbatim>\<open>src/lib/ls1c_pwm.c\<close>) and the busy-wait loops (\<^verbatim>\<open>src/lib/ls1c_delay.c\<close>). The rates are
  32-bit unsigned numbers; a division by zero traps, which is \<open>None\<close>. A delay is the number of
  rounds its loop makes.
\<close>

section \<open>Rates\<close>

definition APB_CLK :: u32 where "APB_CLK = 24000000"

definition div_trap :: "u32 \<Rightarrow> u32 \<Rightarrow> u32 option" where
  "div_trap a b = (if b = 0 then None else Some (a div b))"

definition clk_get_pll_rate :: "bus \<Rightarrow> u32 option" where
  "clk_get_pll_rate b =
    do { ctrl \<leftarrow> reg_read_32 0xbfe78030 b;
         Some ((drop_bit 8 (ctrl AND push_bit 8 0xff) + drop_bit 16 (ctrl AND push_bit 16 0xff)) * APB_CLK div 4) }"

definition clk_get_cpu_rate :: "bus \<Rightarrow> u32 option" where
  "clk_get_cpu_rate b =
    do { pll_rate \<leftarrow> clk_get_pll_rate b;
         ctrl \<leftarrow> reg_read_32 0xbfe78034 b;
         if ctrl AND 1 \<noteq> 0 then
           (if ctrl AND push_bit 15 1 \<noteq> 0 then div_trap pll_rate (drop_bit 8 (ctrl AND push_bit 8 0x7f))
            else Some (pll_rate div 2))
         else Some APB_CLK }"

definition clk_get_ddr_rate :: "bus \<Rightarrow> u32 option" where
  "clk_get_ddr_rate b =
    do { cpu_rate \<leftarrow> clk_get_cpu_rate b;
         ctrl \<leftarrow> reg_read_32 0xbfe78030 b;
         let ctrl = ctrl AND 3;
         Some (if ctrl = 0 then cpu_rate div 2
               else if ctrl = 1 then cpu_rate div 4
               else cpu_rate div 3) }"

definition clk_get_apb_rate :: "bus \<Rightarrow> u32 option" where
  "clk_get_apb_rate b = clk_get_ddr_rate b"

definition clk_get_dc_rate :: "bus \<Rightarrow> u32 option" where
  "clk_get_dc_rate b =
    do { pll_rate \<leftarrow> clk_get_pll_rate b;
         ctrl \<leftarrow> reg_read_32 0xbfe78034 b;
         div_trap pll_rate (drop_bit 24 (ctrl AND push_bit 24 0x7f)) }"

section \<open>Hardware timers and pulse generators\<close>

datatype ls1c_timer = TIMER_PWM0 | TIMER_PWM1 | TIMER_PWM2 | TIMER_PWM3

record timer_info =
  timer :: ls1c_timer
  time_ns :: u32

definition timer_get_reg_base :: "ls1c_timer \<Rightarrow> u32" where
  "timer_get_reg_base t =
    (case t of TIMER_PWM0 \<Rightarrow> 0xbfe5c000 | TIMER_PWM1 \<Rightarrow> 0xbfe5c010
     | TIMER_PWM2 \<Rightarrow> 0xbfe5c020 | TIMER_PWM3 \<Rightarrow> 0xbfe5c030)"

definition timer_ctrl :: u32 where
  "timer_ctrl = push_bit 11 1 OR push_bit 5 1 OR push_bit 3 1 OR push_bit 0 1"

definition timer_init :: "timer_info option \<Rightarrow> bus \<Rightarrow> bus option" where
  "timer_init info b =
    (case info of
       None \<Rightarrow> Some b
     | Some t \<Rightarrow>
       do { timer_clk \<leftarrow> clk_get_apb_rate b;
            let tmp = (timer_clk div 1000000) * (time_ns t div 1000);
            let tmp = (if tmp < 0xffffff then tmp else 0xffffff);
            let base = timer_get_reg_base (timer t);
            b \<leftarrow> reg_write_32 0 (base + 4) b;
            b \<leftarrow> reg_write_32 tmp (base + 8) b;
            b \<leftarrow> reg_write_32 0 base b;
            reg_write_32 timer_ctrl (base + 12) b })"

definition timer_stop :: "timer_info option \<Rightarrow> bus \<Rightarrow> bus option" where
  "timer_stop info b =
    (case info of
       None \<Rightarrow> Some b
     | Some t \<Rightarrow> reg_write_32 0 (timer_get_reg_base (timer t) + 12) b)"

definition timer_restart :: "timer_info \<Rightarrow> bus \<Rightarrow> bus option" where
  "timer_restart t b = reg_write_32 timer_ctrl (timer_get_reg_base (timer t) + 12) b"

definition pwm_get_reg_base :: "u32 \<Rightarrow> u32" where
  "pwm_get_reg_base gpio =
    (if gpio = 6 \<or> gpio = 4 then 0xbfe5c000
     else if gpio = 92 \<or> gpio = 5 then 0xbfe5c010
     else if gpio = 52 \<or> gpio = 46 then 0xbfe5c020
     else if gpio = 47 \<or> gpio = 53 then 0xbfe5c030
     else 0)"

definition pwm_disable :: "u32 option \<Rightarrow> bus \<Rightarrow> bus option" where
  "pwm_disable info b =
    (case info of None \<Rightarrow> Some b | Some gpio \<Rightarrow> reg_write_32 0 (pwm_get_reg_base gpio + 12) b)"

datatype pwm_mode = PWM_MODE_NORMAL | PWM_MODE_PULSE

definition pwm_enable :: "(u32 \<times> pwm_mode) option \<Rightarrow> bus \<Rightarrow> bus option" where
  "pwm_enable info b =
    (case info of
       None \<Rightarrow> Some b
     | Some (gpio, mode) \<Rightarrow>
       do { let base = pwm_get_reg_base gpio;
            b \<leftarrow> reg_write_32 0 base b;
            let ctrl = push_bit 0 1;
            let ctrl = (if mode = PWM_MODE_PULSE then ctrl OR push_bit 4 1 else ctrl AND NOT (push_bit 4 1));
            reg_write_32 ctrl (base + 12) b })"

section \<open>Delays\<close>

text \<open>Rounds of the busy loops; \<^verbatim>\<open>int\<close> arithmetic with truncating division.\<close>

definition delay_ms_rounds :: "int \<Rightarrow> bus \<Rightarrow> nat option" where
  "delay_ms_rounds j b =
    do { rate \<leftarrow> clk_get_cpu_rate b;
         let k_max = sint (rate div 1000 div 92);
         Some (nat j * nat k_max) }"

definition delay_us_rounds :: "int \<Rightarrow> nat" where
  "delay_us_rounds n =
    (let count_1us = 252000000 div 1000000 div 84;
         count_max = n * count_1us;
         count_max = (if 10 \<ge> n then (if count_max < 0 then - (- count_max div 3) else count_max div 3)
                      else if 100 \<ge> n then count_max - count_max div 5
                      else count_max - count_max div 10)
     in nat count_max)"

section \<open>Facts\<close>

text \<open>The last step of every rate computation is a division, which bounds the rates.\<close>

lemma pll_rate_bound:
  assumes "clk_get_pll_rate b = Some r"
  shows "unat r \<le> 1073741823"
proof -
  obtain x :: u32 where "r = x div 4" using assms by (auto simp: clk_get_pll_rate_def Option.bind_eq_Some_conv)
  then show ?thesis using u32_lt[of x] by (simp add: unat_div)
qed

lemma cpu_rate_bound:
  assumes "clk_get_cpu_rate b = Some r"
  shows "unat r \<le> 1073741823"
proof -
  obtain p where p: "clk_get_pll_rate b = Some p" using assms by (auto simp: clk_get_cpu_rate_def Option.bind_eq_Some_conv)
  have "unat (p div d) \<le> 1073741823" for d
    unfolding unat_div using pll_rate_bound[OF p] div_le_dividend[of "unat p" "unat d"] by (rule order_trans[rotated])
  then show ?thesis using assms p
    by (auto simp: clk_get_cpu_rate_def Option.bind_eq_Some_conv div_trap_def APB_CLK_def split: if_splits)
qed

lemma apb_rate_bound:
  assumes "clk_get_apb_rate b = Some r"
  shows "unat r \<le> 536870911"
proof -
  obtain c where "clk_get_cpu_rate b = Some c" "r = c div 2 \<or> r = c div 4 \<or> r = c div 3"
    using assms by (auto simp: clk_get_apb_rate_def clk_get_ddr_rate_def Option.bind_eq_Some_conv Let_def)
  then show ?thesis using cpu_rate_bound[of b c] by (auto simp: unat_div)
qed

text \<open>The rate the registers stand for, when the multiplication does not wrap.\<close>

lemma pll_rate_exact:
  fixes b :: bus
  assumes "internal 0xbfe78030 b"
  defines "m \<equiv> unat (drop_bit 8 (reg32 b 0xbfe78030 AND push_bit 8 0xff)) +
     unat (drop_bit 16 (reg32 b 0xbfe78030 AND push_bit 16 0xff))"
  assumes "m \<le> 178"
  shows "map_option unat (clk_get_pll_rate b) = Some (m * 6000000)"
proof -
  let ?c = "reg32 b 0xbfe78030"
  let ?x = "drop_bit 8 (?c AND push_bit 8 0xff) + drop_bit 16 (?c AND push_bit 16 0xff)"
  have x: "unat ?x = m" using assms(3) by (simp only: unat_word_ariths m_def) simp
  then have "unat (?x * APB_CLK) = m * 24000000"
    using assms(3) by (simp only: unat_word_ariths) (simp add: APB_CLK_def)
  then show ?thesis using reg_read_32_eq[OF assms(1)] by (simp add: clk_get_pll_rate_def unat_div del: push_bit_numeral)
qed

text \<open>The count of a hardware timer is never truncated by the 32-bit product.\<close>

lemma timer_product:
  assumes "clk_get_apb_rate b = Some clk"
  shows "unat ((clk div 1000000) * (ns div 1000)) = (unat clk div 1000000) * (unat ns div 1000)"
proof -
  have "unat clk div 1000000 \<le> 536" using apb_rate_bound[OF assms] by simp
  moreover have "unat ns div 1000 \<le> 4294967" using u32_lt[of ns] by simp
  ultimately have "(unat clk div 1000000) * (unat ns div 1000) \<le> 536 * 4294967" by (rule mult_le_mono)
  moreover have "unat ((clk div 1000000) * (ns div 1000)) = unat (clk div 1000000) * unat (ns div 1000) mod 4294967296"
    by (simp add: unat_word_ariths)
  ultimately show ?thesis by (simp add: unat_div)
qed

end
