(* ===== verification/Irq.thy ===== *)
theory Irq
  imports Bus Bit_Search
begin

unbundle bit_operations_syntax

text \<open>
  Interrupt dispatch, \<^verbatim>\<open>src/lib/ls1c_irq.c\<close>, with the mask functions of \<^verbatim>\<open>src/os/os.c\<close> and
  the installer of \<^verbatim>\<open>src/os/getchar.c\<close>. The chip has five groups of 32 interrupt lines with
  six registers each; a line's handler is a function pointer in \<open>irq_handlers\<close>. What calling a
  function pointer does is the argument \<open>run\<close> of the dispatchers (handler address, interrupt
  number, parameter), and the tick handler, which belongs to the kernel, is the argument \<open>tick\<close>.
\<close>

section \<open>State\<close>

record irq_desc =
  handler :: u32
  param :: u32

record irqs = bus +
  irq_handlers :: "int \<Rightarrow> irq_desc"
  exception_handlers :: "int \<Rightarrow> u32"
  cp0_status :: u32
  cp0_cause :: u32

definition IRQ_MAX_NUM :: int where "IRQ_MAX_NUM = 32 * 5"

definition icreg :: "int \<Rightarrow> u32 \<Rightarrow> u32" where
  "icreg n off = 0xbfd01040 + 24 * word_of_int n + off"

abbreviation int_isr :: u32 where "int_isr \<equiv> 0"
abbreviation int_en :: u32 where "int_en \<equiv> 4"
abbreviation int_clr :: u32 where "int_clr \<equiv> 12"
abbreviation int_pol :: u32 where "int_pol \<equiv> 16"
abbreviation int_edge :: u32 where "int_edge \<equiv> 20"

section \<open>Operations\<close>

definition irq_set_one_exception_handler :: "int \<Rightarrow> u32 \<Rightarrow> irqs \<Rightarrow> irqs" where
  "irq_set_one_exception_handler n addr s = s\<lparr>exception_handlers := (exception_handlers s)(n := addr)\<rparr>"

definition irq_enable :: "int \<Rightarrow> irqs \<Rightarrow> irqs option" where
  "irq_enable IRQn s =
    do { v \<leftarrow> reg_read_32 (icreg (IRQn div 32) int_en) s;
         reg_write_32 (v OR push_bit (nat (IRQn mod 32)) 1) (icreg (IRQn div 32) int_en) s }"

definition irq_disable :: "int \<Rightarrow> irqs \<Rightarrow> irqs option" where
  "irq_disable IRQn s =
    do { v \<leftarrow> reg_read_32 (icreg (IRQn div 32) int_en) s;
         reg_write_32 (v AND NOT (push_bit (nat (IRQn mod 32)) 1)) (icreg (IRQn div 32) int_en) s }"

definition rt_hw_interrupt_umask :: "int \<Rightarrow> irqs \<Rightarrow> irqs option" where
  "rt_hw_interrupt_umask vector s =
    do { v \<leftarrow> reg_read_32 (icreg (vector div 32) int_en) s;
         reg_write_32 (v OR push_bit (nat (vector mod 32)) 1) (icreg (vector div 32) int_en) s }"

definition rt_hw_interrupt_mask :: "int \<Rightarrow> irqs \<Rightarrow> irqs option" where
  "rt_hw_interrupt_mask vector s =
    do { v \<leftarrow> reg_read_32 (icreg (vector div 32) int_en) s;
         reg_write_32 (v AND NOT (push_bit (nat (vector mod 32)) 1)) (icreg (vector div 32) int_en) s }"

definition irq_install :: "int \<Rightarrow> u32 \<Rightarrow> u32 \<Rightarrow> irqs \<Rightarrow> u32 \<times> irqs" where
  "irq_install IRQn new_handler prm s =
    (if 0 \<le> IRQn \<and> IRQ_MAX_NUM > IRQn then
       (handler (irq_handlers s IRQn),
        s\<lparr>irq_handlers := (irq_handlers s)(IRQn := \<lparr>handler = new_handler, param = prm\<rparr>)\<rparr>)
     else (0, s))"

definition rt_hw_interrupt_install :: "int \<Rightarrow> u32 \<Rightarrow> u32 \<Rightarrow> irqs \<Rightarrow> u32 \<times> irqs" where
  "rt_hw_interrupt_install vector h prm s =
    (if vector \<ge> 0 \<and> vector < IRQ_MAX_NUM then
       (handler (irq_handlers s vector),
        s\<lparr>irq_handlers := (irq_handlers s)(vector := \<lparr>handler = h, param = prm\<rparr>)\<rparr>)
     else (0, s))"

fun init_groups :: "int list \<Rightarrow> irqs \<Rightarrow> irqs option" where
  "init_groups [] s = Some s"
| "init_groups (i # is) s =
    do { s \<leftarrow> reg_write_32 0 (icreg i int_en) s;
         s \<leftarrow> reg_write_32 (- 1) (icreg i int_pol) s;
         s \<leftarrow> reg_write_32 0 (icreg i int_edge) s;
         s \<leftarrow> reg_write_32 0xffffffff (icreg i int_clr) s;
         init_groups is s }"

definition irq_init :: "u32 \<Rightarrow> irqs \<Rightarrow> irqs option" where
  "irq_init irq_default_handler s =
    do { s \<leftarrow> init_groups [0, 1, 2, 3, 4] s;
         Some (foldl (\<lambda>s IRQn. s\<lparr>irq_handlers := (irq_handlers s)(IRQn := \<lparr>handler = irq_default_handler, param = 0\<rparr>)\<rparr>)
           s [0..IRQ_MAX_NUM - 1]) }"

definition irq_disable_all :: "irqs \<Rightarrow> irqs" where
  "irq_disable_all s = s\<lparr>cp0_status := cp0_status s AND 0xfffffffe\<rparr>"

definition irq_enable_all :: "irqs \<Rightarrow> irqs" where
  "irq_enable_all s =
    (let status = cp0_status s;
         status = status OR (push_bit 14 1 OR push_bit 13 1 OR push_bit 12 1 OR push_bit 11 1 OR push_bit 10 1 OR 1);
         status = status AND NOT (push_bit 15 1)
     in s\<lparr>cp0_status := status\<rparr>)"

definition ls1c_do_IRQ :: "(u32 \<Rightarrow> int \<Rightarrow> u32 \<Rightarrow> irqs \<Rightarrow> irqs) \<Rightarrow> int \<Rightarrow> irqs \<Rightarrow> irqs" where
  "ls1c_do_IRQ run IRQn s =
    (let irq_handler = handler (irq_handlers s IRQn);
         prm = param (irq_handlers s IRQn)
     in run irq_handler IRQn prm s)"

definition ls1c_irq_dispatch :: "(u32 \<Rightarrow> int \<Rightarrow> u32 \<Rightarrow> irqs \<Rightarrow> irqs) \<Rightarrow> int \<Rightarrow> irqs \<Rightarrow> irqs option" where
  "ls1c_irq_dispatch run n s =
    do { isr \<leftarrow> reg_read_32 (icreg n int_isr) s;
         en \<leftarrow> reg_read_32 (icreg n int_en) s;
         let intstatus = isr AND en;
         if intstatus = 0 then Some s
         else do {
           let irq = int (ffs intstatus) - 1;
           let s = ls1c_do_IRQ run (n * 32 + irq) s;
           clr \<leftarrow> reg_read_32 (icreg n int_clr) s;
           reg_write_32 (clr OR push_bit (nat irq) 1) (icreg n int_clr) s } }"

definition plat_irq_dispatch ::
  "(irqs \<Rightarrow> irqs option) \<Rightarrow> (u32 \<Rightarrow> int \<Rightarrow> u32 \<Rightarrow> irqs \<Rightarrow> irqs) \<Rightarrow> irqs \<Rightarrow> irqs option" where
  "plat_irq_dispatch tick run s =
    (let pending = cp0_cause s AND cp0_status s AND 0x0000ff00 in
     if pending AND push_bit 15 1 \<noteq> 0 then tick s
     else if pending AND push_bit 10 1 \<noteq> 0 then ls1c_irq_dispatch run 0 s
     else if pending AND push_bit 11 1 \<noteq> 0 then ls1c_irq_dispatch run 1 s
     else if pending AND push_bit 12 1 \<noteq> 0 then ls1c_irq_dispatch run 2 s
     else if pending AND push_bit 13 1 \<noteq> 0 then ls1c_irq_dispatch run 3 s
     else if pending AND push_bit 14 1 \<noteq> 0 then ls1c_irq_dispatch run 4 s
     else Some s)"

section \<open>Dispatch\<close>

definition group_internal :: "irqs \<Rightarrow> bool" where
  "group_internal s \<longleftrightarrow> (\<forall>n. 0 \<le> n \<and> n < 5 \<longrightarrow> internal (icreg n int_en) s \<and> internal (icreg n int_clr) s)"

lemma group_cases:
  assumes "0 \<le> (n :: int)" "n < 5"
  obtains "n = 0" | "n = 1" | "n = 2" | "n = 3" | "n = 4"
  using assms by linarith

lemma icreg_neq_0: "0 \<le> n \<Longrightarrow> n < 5 \<Longrightarrow> icreg n int_isr \<noteq> 0"
  by (rule group_cases[of n]) (simp_all add: icreg_def)

text \<open>The lines of a group that are both raised and enabled.\<close>

definition raised :: "int \<Rightarrow> irqs \<Rightarrow> u32" where
  "raised n s = seen (icreg n int_isr) s AND reg32 s (icreg n int_en)"

lemma irq_dispatch_idle:
  assumes "group_internal s" "0 \<le> n" "n < 5" "raised n s = 0"
  shows "ls1c_irq_dispatch run n s = Some s"
proof -
  have "internal (icreg n int_en) s" using assms by (simp add: group_internal_def)
  then show ?thesis using assms(4) icreg_neq_0[OF assms(2,3)]
    by (simp add: ls1c_irq_dispatch_def reg_read_32_eq) (simp add: reg_read_32_def raised_def)
qed

lemma irq_dispatch_raised:
  fixes s :: irqs and n :: int and run :: "u32 \<Rightarrow> int \<Rightarrow> u32 \<Rightarrow> irqs \<Rightarrow> irqs"
  assumes "group_internal s" "0 \<le> n" "n < 5" "raised n s \<noteq> 0"
  defines "i \<equiv> lowest (raised n s)"
  defines "s1 \<equiv> ls1c_do_IRQ run (n * 32 + int i) s"
  assumes "group_internal s1"
  shows "ls1c_irq_dispatch run n s = Some (wrote (icreg n int_clr) (set_bit i (reg32 s1 (icreg n int_clr))) s1)"
proof -
  have en: "internal (icreg n int_en) s" and clr: "internal (icreg n int_clr) s1"
    using assms by (simp_all add: group_internal_def)
  have f: "int (ffs (raised n s)) - 1 = int i"
    using assms(4) ffs_loop_lowest[OF assms(4), of 1] by (simp add: ffs_def i_def)
  have "reg_read_32 (icreg n int_isr) s = Some (seen (icreg n int_isr) s)"
    using icreg_neq_0[OF assms(2,3)] by (simp add: reg_read_32_def)
  then show ?thesis
    using assms(4) en clr f
    by (simp add: ls1c_irq_dispatch_def raised_def[symmetric] reg_read_32_eq s1_def[symmetric] Let_def
        reg_write_32_eq internal_def set_bit_eq_or)
qed

lemma irq_enable_eq:
  assumes "group_internal s" "0 \<le> IRQn" "IRQn < 160"
  shows "irq_enable IRQn s = Some (wrote (icreg (IRQn div 32) int_en)
    (set_bit (nat (IRQn mod 32)) (reg32 s (icreg (IRQn div 32) int_en))) s)"
proof -
  have "0 \<le> IRQn div 32 \<and> IRQn div 32 < 5" using assms by presburger
  then have "internal (icreg (IRQn div 32) int_en) s" using assms by (simp add: group_internal_def)
  then show ?thesis by (simp add: irq_enable_def reg_read_32_eq reg_write_32_eq internal_def set_bit_eq_or)
qed

lemma mask_functions_same: "rt_hw_interrupt_umask = irq_enable" "rt_hw_interrupt_mask = irq_disable"
    "rt_hw_interrupt_install = irq_install"
  by (auto simp: fun_eq_iff rt_hw_interrupt_umask_def irq_enable_def rt_hw_interrupt_mask_def irq_disable_def
      rt_hw_interrupt_install_def irq_install_def)

end
