(* ===== verification/Serial.thy ===== *)
theory Serial
  imports Clock Irq Ring
begin

unbundle bit_operations_syntax

text \<open>
  The serial line: \<^verbatim>\<open>src/lib/ls1c_uart.c\<close> (setting up and sending) and \<^verbatim>\<open>src/os/getchar.c\<close>
  (receiving by interrupt into a ring of 16 bytes, and \<^verbatim>\<open>getchar\<close>). The line status register
  of the device changes on its own. For sending, each poll takes the next value of a given
  sequence of status values; a sequence that ends while the driver still waits gives \<open>None\<close>.
  For receiving, the bytes that wait in the device are the list \<open>rx_line\<close>: the ready bit says
  that the list is not empty and a read of the data register takes its first byte.
\<close>

section \<open>Sending\<close>

datatype ls1c_uart =
  LS1C_UART00 | LS1C_UART01 | LS1C_UART1 | LS1C_UART2 | LS1C_UART3 | LS1C_UART4 | LS1C_UART5
  | LS1C_UART6 | LS1C_UART7 | LS1C_UART8 | LS1C_UART9 | LS1C_UART10 | LS1C_UART11

record ls1c_uart_info =
  UARTx :: ls1c_uart
  baudrate :: u32
  rx_enable :: bool

definition uart_get_base :: "ls1c_uart \<Rightarrow> u32" where
  "uart_get_base u =
    (case u of LS1C_UART00 \<Rightarrow> 0xbfe40000 | LS1C_UART01 \<Rightarrow> 0xbfe41000 | LS1C_UART1 \<Rightarrow> 0xbfe44000
     | LS1C_UART2 \<Rightarrow> 0xbfe48000 | LS1C_UART3 \<Rightarrow> 0xbfe4c000 | LS1C_UART4 \<Rightarrow> 0xbfe4c400
     | LS1C_UART5 \<Rightarrow> 0xbfe4c500 | LS1C_UART6 \<Rightarrow> 0xbfe4c600 | LS1C_UART7 \<Rightarrow> 0xbfe4c700
     | LS1C_UART8 \<Rightarrow> 0xbfe4c800 | LS1C_UART9 \<Rightarrow> 0xbfe4c900 | LS1C_UART10 \<Rightarrow> 0xbfe4ca00
     | LS1C_UART11 \<Rightarrow> 0xbfe4cb00)"

definition uart_init :: "ls1c_uart_info \<Rightarrow> bus \<Rightarrow> bus option" where
  "uart_init info b =
    (let base = uart_get_base (UARTx info) in
     do { b \<leftarrow> reg_write_8 0 (base + 1) b;
          b \<leftarrow> reg_write_8 0xc3 (base + 2) b;
          b \<leftarrow> reg_write_8 0x80 (base + 3) b;
          rate \<leftarrow> clk_get_cpu_rate b;
          d \<leftarrow> div_trap (rate div 16) (baudrate info);
          let baudrate_div = d div 2;
          b \<leftarrow> reg_write_8 (ucast (drop_bit 8 baudrate_div AND 0xff)) (base + 1) b;
          b \<leftarrow> reg_write_8 (ucast (baudrate_div AND 0xff)) base b;
          b \<leftarrow> reg_write_8 0x03 (base + 3) b;
          if rx_enable info then reg_write_8 (0x1 OR 0x4) (base + 1) b else Some b })"

definition uart_is_transmit_empty :: "u8 \<Rightarrow> bool" where
  "uart_is_transmit_empty status \<longleftrightarrow> status AND (push_bit 6 1 OR push_bit 5 1) \<noteq> 0"

fun uart_wait :: "u8 list \<Rightarrow> u8 list option" where
  "uart_wait [] = None"
| "uart_wait (status # l) = (if uart_is_transmit_empty status then Some l else uart_wait l)"

definition uart_putc :: "ls1c_uart \<Rightarrow> u8 \<Rightarrow> u8 list \<times> bus \<Rightarrow> (u8 list \<times> bus) option" where
  "uart_putc uartx ch = (\<lambda>(lsr, b).
    (let base = uart_get_base uartx in
     do { lsr \<leftarrow> uart_wait lsr;
          b \<leftarrow> (if ch = 10 then reg_write_8 13 base b else Some b);
          b \<leftarrow> reg_write_8 ch base b;
          Some (lsr, b) }))"

fun uart_print :: "ls1c_uart \<Rightarrow> u8 list \<Rightarrow> u8 list \<times> bus \<Rightarrow> (u8 list \<times> bus) option" where
  "uart_print uartx [] s = Some s"
| "uart_print uartx (ch # str) s =
    (if ch = 0 then Some s
     else do { s \<leftarrow> uart_putc uartx ch s; uart_print uartx str s })"

definition uart_irqn_to_uartx :: "int \<Rightarrow> ls1c_uart" where
  "uart_irqn_to_uartx IRQn =
    (if IRQn = 4 then LS1C_UART1 else if IRQn = 5 then LS1C_UART2 else if IRQn = 29 then LS1C_UART3
     else if IRQn = 32 + 5 then LS1C_UART4 else if IRQn = 32 + 6 then LS1C_UART5
     else if IRQn = 32 + 7 then LS1C_UART6 else if IRQn = 32 + 8 then LS1C_UART7
     else if IRQn = 32 + 9 then LS1C_UART8 else if IRQn = 32 + 13 then LS1C_UART9
     else if IRQn = 32 + 14 then LS1C_UART10 else if IRQn = 32 + 15 then LS1C_UART11
     else LS1C_UART2)"

section \<open>The receive buffer\<close>

record rt_serial_rx_fifo =
  buffer :: "nat \<Rightarrow> u8"
  put_index :: u16
  get_index :: u16
  is_full :: bool

definition UART_BUF_SIZE :: u16 where "UART_BUF_SIZE = 16"

text \<open>\<^verbatim>\<open>uart2GetCharInit\<close>: the fresh buffer.\<close>

definition fifo_init :: rt_serial_rx_fifo where
  "fifo_init = \<lparr>buffer = (\<lambda>_. 0), put_index = 0, get_index = 0, is_full = False\<rparr>"

definition ls1c_uart_getc :: "u8 list \<Rightarrow> int \<times> u8 list" where
  "ls1c_uart_getc rx_line = (case rx_line of [] \<Rightarrow> (- 1, []) | c # l \<Rightarrow> (uint c, l))"

definition fifo_put :: "u8 \<Rightarrow> rt_serial_rx_fifo \<Rightarrow> rt_serial_rx_fifo" where
  "fifo_put ch f =
    (let f = f\<lparr>buffer := (buffer f)(unat (put_index f) := ch)\<rparr>;
         f = f\<lparr>put_index := put_index f + 1\<rparr>;
         f = (if put_index f \<ge> UART_BUF_SIZE then f\<lparr>put_index := 0\<rparr> else f)
     in if put_index f = get_index f then
          let f = f\<lparr>get_index := get_index f + 1\<rparr>;
              f = f\<lparr>is_full := True\<rparr>
          in (if get_index f \<ge> UART_BUF_SIZE then f\<lparr>get_index := 0\<rparr> else f)
        else f)"

function serial_loop :: "u8 list \<Rightarrow> rt_serial_rx_fifo \<Rightarrow> u8 list \<times> rt_serial_rx_fifo" where
  "serial_loop rx_line f =
    (let (ch, rx_line) = ls1c_uart_getc rx_line
     in if ch = - 1 then (rx_line, f)
        else serial_loop rx_line (fifo_put (word_of_int ch) f))"
  by pat_completeness auto
termination
  by (relation "measure (\<lambda>(l, f). length l)") (auto simp: ls1c_uart_getc_def split: list.splits)

declare serial_loop.simps [simp del]

definition rt_hw_serial_isr :: "u8 list \<Rightarrow> rt_serial_rx_fifo \<Rightarrow> u8 list \<times> rt_serial_rx_fifo" where
  "rt_hw_serial_isr rx_line f = serial_loop rx_line f"

definition uart_irq_handler :: "u8 \<Rightarrow> u8 list \<Rightarrow> rt_serial_rx_fifo \<Rightarrow> u8 list \<times> rt_serial_rx_fifo" where
  "uart_irq_handler iir rx_line f =
    (if 0xc AND iir \<noteq> 0 \<or> 0x4 AND iir \<noteq> 0 then rt_hw_serial_isr rx_line f else (rx_line, f))"

definition fifo_get :: "rt_serial_rx_fifo \<Rightarrow> u8 \<times> rt_serial_rx_fifo" where
  "fifo_get f =
    (let ch = buffer f (unat (get_index f));
         f = f\<lparr>get_index := get_index f + 1\<rparr>;
         f = (if get_index f \<ge> UART_BUF_SIZE then f\<lparr>get_index := 0\<rparr> else f);
         f = (if is_full f then f\<lparr>is_full := False\<rparr> else f)
     in (ch, f))"

definition fifo_empty :: "rt_serial_rx_fifo \<Rightarrow> bool" where
  "fifo_empty f \<longleftrightarrow> get_index f = put_index f \<and> \<not> is_full f"

text \<open>\<^verbatim>\<open>_serial_int_rx\<close>: the bytes it stored, and the buffer after.\<close>

fun serial_int_rx :: "nat \<Rightarrow> rt_serial_rx_fifo \<Rightarrow> u8 list \<times> rt_serial_rx_fifo" where
  "serial_int_rx 0 f = ([], f)"
| "serial_int_rx (Suc n) f =
    (if fifo_empty f then ([], f)
     else let (ch, f) = fifo_get f; (cs, f) = serial_int_rx n f in (ch # cs, f))"

text \<open>
  \<^verbatim>\<open>getchar\<close> polls until a byte is there. Its environment is the sequence of byte groups that
  receive interrupts deliver before each poll.
\<close>

fun getchar :: "u8 list list \<Rightarrow> rt_serial_rx_fifo \<Rightarrow> (int \<times> u8 list list \<times> rt_serial_rx_fifo) option" where
  "getchar [] f = None"
| "getchar (arrived # later) f =
    (let f = snd (rt_hw_serial_isr arrived f);
         (cs, f) = serial_int_rx 1 f
     in case cs of [] \<Rightarrow> getchar later f | c # _ \<Rightarrow> Some (sint c, later, f))"

section \<open>The receive buffer is a queue that drops the oldest byte\<close>

definition fifo_inv :: "rt_serial_rx_fifo \<Rightarrow> bool" where
  "fifo_inv f \<longleftrightarrow> unat (put_index f) < 16 \<and> unat (get_index f) < 16 \<and> (is_full f \<longrightarrow> put_index f \<noteq> get_index f)"

definition fifo_count :: "rt_serial_rx_fifo \<Rightarrow> nat" where
  "fifo_count f = (unat (put_index f) + 16 - unat (get_index f)) mod 16"

definition fifo_items :: "rt_serial_rx_fifo \<Rightarrow> u8 list" where
  "fifo_items f = ring_items (buffer f) 16 (unat (get_index f)) (fifo_count f)"

definition fifo_full :: "rt_serial_rx_fifo \<Rightarrow> bool" where
  "fifo_full f \<longleftrightarrow> fifo_count f = 15"

definition fifo_cap :: "rt_serial_rx_fifo \<Rightarrow> nat" where
  "fifo_cap f = 15"

lemma buf_size: "unat UART_BUF_SIZE = 16"
  by (simp add: UART_BUF_SIZE_def)

definition bump :: "u16 \<Rightarrow> u16" where
  "bump w = (if w + 1 \<ge> UART_BUF_SIZE then 0 else w + 1)"

lemma unat_bump: "unat w < 16 \<Longrightarrow> unat (bump w) = Suc (unat w) mod 16"
  using wrap_word[of w UART_BUF_SIZE] by (simp add: bump_def buf_size)

lemma fifo_put_eq:
  "fifo_put ch f = f\<lparr>buffer := (buffer f)(unat (put_index f) := ch), put_index := bump (put_index f),
     get_index := (if bump (put_index f) = get_index f then bump (get_index f) else get_index f),
     is_full := (is_full f \<or> bump (put_index f) = get_index f)\<rparr>"
  by (simp add: fifo_put_def bump_def Let_def)

lemma fifo_get_eq:
  "fifo_get f = (buffer f (unat (get_index f)), f\<lparr>get_index := bump (get_index f), is_full := False\<rparr>)"
  by (simp add: fifo_get_def bump_def Let_def)

lemma fifo_position:
  assumes "fifo_inv f"
  shows "unat (put_index f) = (unat (get_index f) + fifo_count f) mod 16" "fifo_count f < 16"
  unfolding fifo_count_def using assms ring_count_pos[of "unat (put_index f)" 16 "unat (get_index f)"]
  by (simp_all add: fifo_inv_def)

lemma fifo_countI:
  assumes "unat (put_index f) = (g + c) mod 16" "unat (get_index f) = g" "g < 16" "c < 16"
  shows "fifo_count f = c"
  using ring_count_add[of c 16 g] assms by (simp add: fifo_count_def)

lemma fifo_bump_meets:
  assumes "fifo_inv f"
  shows "bump (put_index f) = get_index f \<longleftrightarrow> fifo_count f = 15"
proof -
  let ?g = "unat (get_index f)" and ?c = "fifo_count f"
  note p = fifo_position[OF assms]
  have g: "?g < 16" and pl: "unat (put_index f) < 16" using assms by (simp_all add: fifo_inv_def)
  have "unat (bump (put_index f)) = (?g + Suc ?c) mod 16" using unat_bump[OF pl] p(1) by (simp add: mod_simps)
  moreover have "(?g + Suc ?c) mod 16 = ?g \<longleftrightarrow> ?c = 15"
    using ring_slots_distinct[of 0 "Suc ?c" 16 ?g] g p(2) by (cases "?c = 15") auto
  ultimately show ?thesis by (simp add: word_unat_eq_iff)
qed

interpretation rxq: lossy_queue fifo_inv fifo_items fifo_cap fifo_put fifo_get fifo_full fifo_empty
proof unfold_locales
  fix s :: rt_serial_rx_fifo and v :: u8
  assume i: "fifo_inv s"
  let ?g = "unat (get_index s)" and ?c = "fifo_count s" and ?p = "unat (put_index s)"
  have g: "?g < 16" and p: "?p < 16" using i by (simp_all add: fifo_inv_def)
  note pos = fifo_position[OF i] and meets = fifo_bump_meets[OF i]
  have bp: "unat (bump (put_index s)) = (?g + Suc ?c) mod 16" using unat_bump[OF p] pos(1) by (simp add: mod_simps)
  have z: "?c = 0 \<longleftrightarrow> put_index s = get_index s"
    using pos g by (auto simp: word_unat_eq_iff fifo_count_def)
  show "fifo_full s \<longleftrightarrow> length (fifo_items s) = fifo_cap s" by (simp add: fifo_full_def fifo_items_def fifo_cap_def)
  show "fifo_empty s \<longleftrightarrow> fifo_items s = []"
    using z i by (auto simp: fifo_empty_def fifo_items_def ring_items_def fifo_inv_def)
  show "length (fifo_items s) \<le> fifo_cap s" using pos(2) by (simp add: fifo_items_def fifo_cap_def)
  show "fifo_cap (fifo_put v s) = fifo_cap s" "fifo_cap (snd (fifo_get s)) = fifo_cap s" "0 < fifo_cap s"
    by (simp_all add: fifo_cap_def)
  have ne: "bump (get_index s) \<noteq> get_index s"
    using unat_bump[OF g] g by (auto simp: word_unat_eq_iff mod_Suc)
  have written: "ring_items ((buffer s)(?p := v)) 16 ?g (Suc ?c) = fifo_items s @ [v]"
    using ring_put[of ?c 16 "buffer s" ?g v] pos by (simp add: fifo_items_def)
  {
    assume "\<not> fifo_full s"
    then have nf: "bump (put_index s) \<noteq> get_index s" and c: "Suc ?c < 16" using meets pos(2) by (auto simp: fifo_full_def)
    then have "fifo_count (fifo_put v s) = Suc ?c" by (intro fifo_countI[of _ ?g]) (simp_all add: fifo_put_eq bp g)
    then show "fifo_items (fifo_put v s) = fifo_items s @ [v]"
      using written nf by (simp add: fifo_items_def fifo_put_eq)
    show "fifo_inv (fifo_put v s)" using nf g unat_bump[OF p] by (simp add: fifo_inv_def fifo_put_eq)
  }
  {
    assume "fifo_full s"
    then have c: "?c = 15" and m: "bump (put_index s) = get_index s" using meets by (auto simp: fifo_full_def)
    have "(Suc ?g mod 16 + 15) mod 16 = ?g" using g by presburger
    then have "fifo_count (fifo_put v s) = 15"
      by (intro fifo_countI[of _ "Suc ?g mod 16"]) (simp_all add: fifo_put_eq m unat_bump[OF g])
    moreover have "ring_items ((buffer s)(?p := v)) 16 ?g (Suc 15) =
        ((buffer s)(?p := v)) ?g # ring_items ((buffer s)(?p := v)) 16 (Suc ?g mod 16) 15"
      by (rule ring_get[OF g])
    moreover have "fifo_items s \<noteq> []" using c by (simp add: fifo_items_def ring_items_def)
    ultimately show "fifo_items (fifo_put v s) = tl (fifo_items s) @ [v]"
      using written c m unat_bump[OF g] by (simp add: fifo_items_def fifo_put_eq) (metis list.sel(3) tl_append2)
    show "fifo_inv (fifo_put v s)"
      using m ne g unat_bump[OF g] unat_bump[OF p] by (simp add: fifo_inv_def fifo_put_eq)
  }
  {
    assume "\<not> fifo_empty s"
    then have "?c \<noteq> 0" using z i by (auto simp: fifo_empty_def fifo_inv_def)
    then obtain m where m: "?c = Suc m" by (cases ?c) auto
    have "(Suc ?g mod 16 + m) mod 16 = ?p" using pos(1) m by (simp add: mod_simps)
    then have "fifo_count (snd (fifo_get s)) = m"
      using m pos(2) by (intro fifo_countI[of _ "Suc ?g mod 16"]) (simp_all add: fifo_get_eq unat_bump[OF g])
    then show "fifo_items s = fst (fifo_get s) # fifo_items (snd (fifo_get s))"
      using ring_get[OF g, of "buffer s" m] m by (simp add: fifo_items_def fifo_get_eq unat_bump[OF g])
    show "fifo_inv (snd (fifo_get s))" using p unat_bump[OF g] by (simp add: fifo_inv_def fifo_get_eq)
  }
qed

section \<open>Reception and \<^verbatim>\<open>getchar\<close>\<close>

lemma serial_loop_fold: "serial_loop l f = ([], fold fifo_put l f)"
proof (induction l arbitrary: f)
  case Nil
  then show ?case by (simp add: serial_loop.simps ls1c_uart_getc_def)
next
  case (Cons c l)
  have "uint c \<noteq> - 1" using unsigned_greater_eq[of c, where ?'a = int] by linarith
  then show ?case using Cons by (simp add: serial_loop.simps[of "c # l"] ls1c_uart_getc_def)
qed

lemma serial_isr_newest:
  assumes "fifo_inv f"
  shows "fifo_inv (snd (rt_hw_serial_isr l f)) \<and>
    fifo_items (snd (rt_hw_serial_isr l f)) = drop (length (fifo_items f @ l) - 15) (fifo_items f @ l)"
  using rxq.newest[OF assms, of l] by (simp add: rt_hw_serial_isr_def serial_loop_fold fifo_cap_def)

lemma serial_int_rx_items:
  assumes "fifo_inv f" "serial_int_rx n f = (cs, f')"
  shows "fifo_inv f' \<and> cs = take n (fifo_items f) \<and> fifo_items f' = drop n (fifo_items f)"
  using assms
proof (induction n arbitrary: f cs f')
  case (Suc n)
  show ?case
  proof (cases "fifo_empty f")
    case True
    then show ?thesis using Suc.prems rxq.empty_iff[of f] by auto
  next
    case False
    obtain ch f1 where f1: "fifo_get f = (ch, f1)" by fastforce
    obtain ds f2 where f2: "serial_int_rx n f1 = (ds, f2)" by fastforce
    have "fifo_inv f1" "fifo_items f = ch # fifo_items f1"
      using rxq.get_inv[OF Suc.prems(1) False] rxq.get_items[OF Suc.prems(1) False] f1 by auto
    then show ?thesis using Suc.IH[OF _ f2] Suc.prems(2) False f1 f2 by auto
  qed
qed auto

lemma getchar_waits: "fifo_inv f \<Longrightarrow> fifo_items f = [] \<Longrightarrow> getchar ([] # later) f = getchar later f"
  using rxq.empty_iff[of f] by (simp add: rt_hw_serial_isr_def serial_loop_fold)

lemma getchar_ready:
  assumes "fifo_inv f" "fifo_items f @ arrived \<noteq> []"
  shows "\<exists>b f'. getchar (arrived # later) f = Some (sint b, later, f') \<and> fifo_inv f' \<and>
    drop (length (fifo_items f @ arrived) - 15) (fifo_items f @ arrived) = b # fifo_items f'"
proof -
  let ?f = "snd (rt_hw_serial_isr arrived f)"
  let ?l = "drop (length (fifo_items f @ arrived) - 15) (fifo_items f @ arrived)"
  have f: "fifo_inv ?f" "fifo_items ?f = ?l" using serial_isr_newest[OF assms(1), of arrived] by auto
  have "drop (length xs - 15) xs \<noteq> []" if "xs \<noteq> []" for xs :: "u8 list"
    using that by (simp add: not_le)
  then obtain b r where br: "?l = b # r" using assms(2) by (meson list.exhaust)
  obtain cs f' where r: "serial_int_rx 1 ?f = (cs, f')" by fastforce
  have "fifo_inv f'" "cs = [b]" "fifo_items f' = r"
    using serial_int_rx_items[OF f(1) r, unfolded f(2) br] by auto
  then show ?thesis using r br by (simp add: split_def)
qed

section \<open>Sending\<close>

lemma reg_write_8_eq: "a \<noteq> 0 \<Longrightarrow> reg_write_8 v a b = Some (b\<lparr>reg8 := (reg8 b)(a := v), log8 := log8 b @ [(a, v)]\<rparr>)"
  by (simp add: reg_write_8_def)

lemma uart_base_neq_0: "uart_get_base u \<noteq> 0"
  by (cases u) (simp_all add: uart_get_base_def)

text \<open>A sequence of status values with enough ready ones.\<close>

definition ready_polls :: "u8 list \<Rightarrow> nat" where
  "ready_polls l = length (filter uart_is_transmit_empty l)"

lemma uart_wait_ready:
  "ready_polls l = Suc n \<Longrightarrow> \<exists>l'. uart_wait l = Some l' \<and> ready_polls l' = n"
  by (induction l) (auto simp: ready_polls_def)

lemma uart_putc_sends:
  assumes "ready_polls l = Suc n"
  shows "\<exists>l' b'. uart_putc u ch (l, b) = Some (l', b') \<and> ready_polls l' = n \<and> reg32 b' = reg32 b \<and>
    log8 b' = log8 b @ map (Pair (uart_get_base u)) ((if ch = 10 then [13] else []) @ [ch])"
proof -
  obtain l' where "uart_wait l = Some l'" "ready_polls l' = n" using uart_wait_ready[OF assms] by blast
  then show ?thesis using uart_base_neq_0[of u] by (auto simp: uart_putc_def reg_write_8_eq Let_def)
qed

lemma uart_print_sends:
  assumes "ready_polls l = length (takeWhile (\<lambda>c. c \<noteq> 0) s) + n"
  shows "\<exists>l' b'. uart_print u s (l, b) = Some (l', b') \<and> ready_polls l' = n \<and> reg32 b' = reg32 b \<and>
    log8 b' = log8 b @ map (Pair (uart_get_base u))
      (concat (map (\<lambda>c. if c = 10 then [13, 10] else [c]) (takeWhile (\<lambda>c. c \<noteq> 0) s)))"
  using assms
proof (induction s arbitrary: l b)
  case (Cons c s)
  show ?case
  proof (cases "c = 0")
    case False
    then have "ready_polls l = Suc (length (takeWhile (\<lambda>c. c \<noteq> 0) s) + n)" using Cons.prems by simp
    then obtain l1 b1 where l1: "uart_putc u c (l, b) = Some (l1, b1)"
        "ready_polls l1 = length (takeWhile (\<lambda>c. c \<noteq> 0) s) + n" "reg32 b1 = reg32 b"
        "log8 b1 = log8 b @ map (Pair (uart_get_base u)) ((if c = 10 then [13] else []) @ [c])"
      using uart_putc_sends by blast
    then show ?thesis using Cons.IH[OF l1(2), of b1] False by auto
  qed (use Cons.prems in simp)
qed simp

end
