(* ===== verification/Driver_Claims.thy ===== *)
theory Driver_Claims
  imports I2c Serial
begin

unbundle bit_operations_syntax

text \<open>
  The properties of the pin drivers and of the two-wire bus, with instances on a bus whose
  registers are all zero and whose inputs are all low.
\<close>

definition quiet_bus :: bus where
  "quiet_bus = \<lparr>reg32 = (\<lambda>_. 0), reg8 = (\<lambda>_. 0), log32 = [], log8 = [], ext = (\<lambda>_ _. None)\<rparr>"

definition sample_i2c :: simulate_i2c where
  "sample_i2c = \<lparr>scl_gpio = 86, sda_gpio = 87\<rparr>"

lemma pin_base_neq_0:
  assumes "base \<in> pin_bases" "gpio < 128"
  shows "pin_reg base gpio \<noteq> 0"
  by (rule port_cases[OF assms(2)]) (use assms(1) in \<open>auto simp: pin_bases_def pin_reg_def\<close>)

lemma quiet_bus_internal: "pins_internal quiet_bus"
  by (simp add: pins_internal_def internal_def quiet_bus_def pin_base_neq_0)

lemma sample_i2c_ok: "i2c_ok sample_i2c quiet_bus" "wires sample_i2c (reg32 quiet_bus) = (False, False)"
  by (simp_all add: i2c_ok_def quiet_bus_internal) (simp_all add: sample_i2c_def quiet_bus_def wires_def level_def)

section \<open>Pins\<close>

text \<open>
  Making a pin an output and setting its level touches exactly three bits: the pin's bit in
  the configuration register of its port is set, its bit in the enable register is cleared, and
  its bit in the output register has the level; all other bits of all registers keep their value.
\<close>

lemma gpio_output_bits:
  assumes "gpio < 128" "pins_internal b"
  shows "\<exists>b'. gpio_init gpio gpio_mode_output b \<bind> gpio_set gpio lv = Some b' \<and>
    (\<forall>a n. bit (reg32 b' a) n =
      (if n = pin_bit gpio \<and> a = pin_reg CFG gpio then True
       else if n = pin_bit gpio \<and> a = pin_reg EN gpio then False
       else if n = pin_bit gpio \<and> a = pin_reg OUT gpio then lv = gpio_level_high
       else bit (reg32 b a) n))"
proof -
  have ne: "pin_reg CFG gpio \<noteq> pin_reg OUT gpio" "pin_reg EN gpio \<noteq> pin_reg OUT gpio" "pin_reg CFG gpio \<noteq> pin_reg EN gpio"
    by (simp_all add: pin_reg_neq)
  obtain b1 where b1: "gpio_init gpio gpio_mode_output b = Some b1" "pins_internal b1"
      "\<And>a n. bit (reg32 b1 a) n = (if n = pin_bit gpio \<and> a = pin_reg CFG gpio then True
         else if n = pin_bit gpio \<and> a = pin_reg EN gpio then False else bit (reg32 b a) n)"
    using gpio_init_eq[OF assms, of gpio_mode_output] assms(2) pin_bit_lt[of gpio] ne
    by (auto simp: bit_set_bit_iff bit_unset_bit_iff)
  show ?thesis using gpio_set_eq[OF assms(1) b1(2), of lv] b1(1,3) ne pin_bit_lt[of gpio]
    by (cases lv) (simp_all add: bit_set_bit_iff bit_unset_bit_iff)
qed

text \<open>
  \<^verbatim>\<open>pin_set_remap\<close> makes the chosen remapping of a pin the only one: of the pin's bits in
  the five remap registers of its port exactly the one of the chosen register is set (none for
  the default), and no other bit of any register changes.
\<close>

lemma pin_set_remap_exclusive:
  assumes "gpio < 128" "pins_internal b"
  shows "\<exists>b'. pin_set_remap gpio remap b = Some b' \<and>
    (\<forall>a n. bit (reg32 b' a) n =
      (if n = pin_bit gpio \<and> (\<exists>r. r \<noteq> PIN_REMAP_DEFAULT \<and> a = pin_reg (CBUS r) gpio)
       then remap \<noteq> PIN_REMAP_DEFAULT \<and> a = pin_reg (CBUS remap) gpio
       else bit (reg32 b a) n))"
proof (rule pin_set_remap_bits[OF assms, of remap], goal_cases)
  case (1 b')
  show ?case by (intro exI[of _ b'] conjI allI 1)
qed

section \<open>The two-wire bus\<close>

text \<open>
  C9. Sending a byte: a slave that samples SDA at the rising edges of SCL reads exactly the eight
  bits of the byte, most significant first, SDA never changes while SCL is high, so no start or
  stop condition appears, and SCL is low again at the end.
\<close>

theorem i2c_write_byte_bits:
  assumes "i2c_ok i b" "wires i (reg32 b) = (False, d)"
  shows "\<exists>b' w. simulate_i2c_write_byte i data b = Some b' \<and> moves i b w b' \<and>
    samples False w = map (\<lambda>k. bit data (7 - k)) [0..<8] \<and> conditions (False, d) w = [] \<and>
    \<not> level (scl_gpio i) (reg32 b')"
proof -
  let ?w = "[(False, d), (False, d)] @ bit_wave 8 data"
  obtain b' where b': "simulate_i2c_write_byte i data b = Some b'" "steps i b ?w b'"
    using write_byte_steps[OF assms] by blast
  have "\<not> fst (wires i (reg32 b'))" using bit_wave_last[of 8 data] b'(2) by (simp add: steps_def)
  then have "\<not> level (scl_gpio i) (reg32 b')" by (simp add: wires_def)
  then show ?thesis using b' bit_wave_samples[of 8 data] bit_wave_conditions[of d 8 data]
    by (intro exI[of _ b'] exI[of _ ?w]) (simp add: steps_def)
qed

theorem i2c_write_byte_bits_witness:
  "\<exists>b' w. simulate_i2c_write_byte sample_i2c 0xA5 quiet_bus = Some b' \<and> moves sample_i2c quiet_bus w b' \<and>
    samples False w = [True, False, True, False, False, True, False, True]"
proof -
  have "map (\<lambda>k. bit (0xA5 :: u8) (7 - k)) [0..<8] = [True, False, True, False, False, True, False, True]"
    by code_simp
  then show ?thesis using i2c_write_byte_bits[OF sample_i2c_ok, of "0xA5"] by metis
qed

text \<open>
  Framing: the start operation makes a start condition, after a stop condition if SDA was
  low, and leaves both wires low; the stop operation makes a stop condition and nothing else and
  leaves both wires high.
\<close>

lemma i2c_start_stop:
  assumes "i2c_ok i b" "wires i (reg32 b) = (c, d)"
  shows "(\<exists>b' w. simulate_i2c_start i b = Some b' \<and> moves i b w b' \<and>
      conditions (c, d) w = (if d then [] else [Stop]) @ [Start] \<and> wires i (reg32 b') = (False, False)) \<and>
    (\<exists>b' w. simulate_i2c_stop i b = Some b' \<and> moves i b w b' \<and>
      conditions (c, d) w = [Stop] \<and> wires i (reg32 b') = (True, True))"
  using start_steps[OF assms] stop_steps[OF assms] by (fastforce simp: steps_def)

text \<open>
  Reading a byte: the result has, most significant bit first, the levels the slave holds on
  SDA at the eight clock pulses, and the master makes no start or stop condition.
\<close>

lemma i2c_read_byte_bits:
  assumes "i2c_ok i b" "wires i (reg32 b) = (False, d)"
  shows "\<exists>data b1 b' w. simulate_i2c_config_sda_in i b = Some b1 \<and> simulate_i2c_read_byte i b = Some (data, b') \<and>
    (\<forall>k<8. bit data (7 - k) = slave_bits 8 i b1 ! k) \<and> moves i b w b' \<and> conditions (False, d) w = []"
proof -
  obtain b1 where b1: "simulate_i2c_config_sda_in i b = Some b1" "steps i b [(False, d), (False, d)] b1"
    using access_steps(6)[OF assms] by blast
  obtain b' where b': "read_bits 8 i 0 b1 = Some (shift_in 0 (slave_bits 8 i b1), b')"
      "steps i b1 (clock_wave 8 d) b'" "length (slave_bits 8 i b1) = 8"
    using read_bits_steps[OF steps_ok[OF b1(2)] steps_wires(2)[OF b1(2)]] by blast
  have "moves i b ([(False, d), (False, d)] @ clock_wave 8 d) b'"
    using steps_trans[OF b1(2) b'(2)] by (simp add: steps_def)
  moreover have "conditions (False, d) ([(False, d), (False, d)] @ clock_wave 8 d) = []"
    using clock_wave_quiet[of d 8] by simp
  moreover have "bit (shift_in 0 (slave_bits 8 i b1)) (7 - k) = slave_bits 8 i b1 ! k" if "k < 8" for k
  proof -
    have "7 - k < 8" by simp
    then show ?thesis using that b'(3) by (simp add: bit_shift_in)
  qed
  ultimately show ?thesis using b1(1) b'(1) by (fastforce simp: simulate_i2c_read_byte_def)
qed

section \<open>Interrupt dispatch\<close>

text \<open>
  C10. An interrupt line whose handler was installed and which was enabled is served: when it is
  the lowest raised line of its group, the dispatcher calls the installed handler with the line's
  number and the installed parameter, once, and then writes the clear register back with this
  line's bit set and every other bit as it reads it after the handler (so a line whose bit reads
  as one there is acknowledged as well). This holds whatever the handler does, as long as it leaves the interrupt controller's registers alone.
\<close>

theorem installed_handler_runs:
  assumes "group_internal s" "0 \<le> IRQn" "IRQn < 160" "irq_enable IRQn (snd (irq_install IRQn h prm s)) = Some s1"
    and "\<And>j. j < nat (IRQn mod 32) \<Longrightarrow> \<not> bit (raised (IRQn div 32) s1) j"
    and "bit (seen (icreg (IRQn div 32) int_isr) s1) (nat (IRQn mod 32))"
    and "group_internal (run h IRQn prm s1)"
  shows "ls1c_irq_dispatch run (IRQn div 32) s1 =
    Some (wrote (icreg (IRQn div 32) int_clr)
      (set_bit (nat (IRQn mod 32)) (reg32 (run h IRQn prm s1) (icreg (IRQn div 32) int_clr))) (run h IRQn prm s1))"
proof -
  let ?g = "IRQn div 32" and ?i = "nat (IRQn mod 32)"
  let ?s0 = "s\<lparr>irq_handlers := (irq_handlers s)(IRQn := \<lparr>handler = h, param = prm\<rparr>)\<rparr>"
  have s0: "snd (irq_install IRQn h prm s) = ?s0" using assms(2,3) by (simp add: irq_install_def IRQ_MAX_NUM_def)
  have i0: "group_internal ?s0" using assms(1) by (simp add: group_internal_def internal_def)
  have g: "0 \<le> ?g" "?g < 5" "?i < 32" using assms(2,3) by (presburger, presburger, simp add: nat_less_iff)
  have s1: "s1 = wrote (icreg ?g int_en) (set_bit ?i (reg32 ?s0 (icreg ?g int_en))) ?s0"
    using irq_enable_eq[OF i0 assms(2,3)] assms(4) s0 by simp
  have i1: "group_internal s1" using i0 by (simp add: s1 group_internal_def)
  have hd: "irq_handlers s1 IRQn = \<lparr>handler = h, param = prm\<rparr>" by (simp add: s1 wrote_def)
  have low: "lowest (raised ?g s1) = ?i" and nz: "raised ?g s1 \<noteq> 0"
  proof -
    have b: "bit (raised ?g s1) ?i"
      using assms(6) g(3) by (simp add: raised_def bit_and_iff) (simp add: s1 bit_set_bit_iff)
    then show "lowest (raised ?g s1) = ?i" by (intro lowest_eqI assms(5))
    show "raised ?g s1 \<noteq> 0" using b by auto
  qed
  have call: "ls1c_do_IRQ run (?g * 32 + int ?i) s1 = run h IRQn prm s1"
    using hd assms(2) by (simp add: ls1c_do_IRQ_def)
  show ?thesis using irq_dispatch_raised[OF i1 g(1,2) nz, of run] low call assms(7) by simp
qed

definition quiet_irqs :: irqs where
  "quiet_irqs = bus.extend quiet_bus (irqs.fields (\<lambda>_. \<lparr>handler = 0, param = 0\<rparr>) (\<lambda>_. 0) 0 0)"

theorem installed_handler_runs_witness:
  "\<exists>s1 s2. irq_enable 5 (snd (irq_install 5 0x80001000 7 (quiet_irqs\<lparr>ext := (\<lambda>_ a. if a = 0xbfd01040 then Some 0x20 else None)\<rparr>))) = Some s1 \<and>
    ls1c_irq_dispatch (\<lambda>h n p s. s\<lparr>cp0_cause := h + p\<rparr>) 0 s1 = Some s2 \<and> cp0_cause s2 = 0x80001007"
proof -
  let ?s = "quiet_irqs\<lparr>ext := (\<lambda>_ a. if a = 0xbfd01040 then Some 0x20 else None)\<rparr>"
  let ?run = "\<lambda>h n p s. s\<lparr>cp0_cause := h + p\<rparr>"
  have gi: "group_internal ?s"
    unfolding group_internal_def by (auto elim!: group_cases simp: internal_def icreg_def)
  have gi0: "group_internal (snd (irq_install 5 0x80001000 7 ?s))"
    using gi by (simp add: irq_install_def IRQ_MAX_NUM_def group_internal_def internal_def)
  obtain s1 where s1: "irq_enable 5 (snd (irq_install 5 0x80001000 7 ?s)) = Some s1"
      "s1 = wrote (icreg 0 int_en) (set_bit 5 (reg32 (snd (irq_install 5 0x80001000 7 ?s)) (icreg 0 int_en)))
         (snd (irq_install 5 0x80001000 7 ?s))"
    using irq_enable_eq[OF gi0, of 5] by simp
  have e: "ext s1 = ext ?s" by (simp add: s1(2) irq_install_def IRQ_MAX_NUM_def)
  have seen: "seen (icreg 0 int_isr) s1 = 0x20" by (simp add: seen_def e icreg_def)
  have low: "\<not> bit (0x20 AND w :: u32) j" if "j < 5" for w j
    using that by (auto simp: less_Suc_eq numeral_eq_Suc bit_and_iff)
  have g1: "group_internal (?run 0x80001000 5 7 s1)"
    using gi e by (simp add: group_internal_def internal_def)
  from installed_handler_runs[OF gi _ _ s1(1), of ?run] low g1 seen show ?thesis
    using s1(1) by (simp add: raised_def wrote_def)
qed

section \<open>Timers\<close>

text \<open>
  The count of a hardware timer is the clock in megahertz times the time in microseconds,
  limited to the 24 bits of the counter: no clock setting and no time makes the 32-bit product
  wrap, and the timer ends up enabled with its interrupt on.
\<close>

lemma timer_init_count:
  assumes "clk_get_apb_rate b = Some clk"
  shows "\<exists>b'. timer_init (Some t) b = Some b' \<and>
    unat (reg32 b' (timer_get_reg_base (timer t) + 8)) = min ((unat clk div 1000000) * (unat (time_ns t) div 1000)) 0xffffff \<and>
    reg32 b' (timer_get_reg_base (timer t) + 12) = 0x829"
proof -
  let ?p = "(clk div 1000000) * (time_ns t div 1000)"
  have "unat (if ?p < 0xffffff then ?p else 0xffffff) = min ((unat clk div 1000000) * (unat (time_ns t) div 1000)) 0xffffff"
    using timer_product[OF assms, of "time_ns t"] by (auto simp: word_less_nat_alt)
  moreover have "timer_ctrl = 0x829" by (simp add: timer_ctrl_def)
  ultimately show ?thesis using assms
    by (cases "timer t") (simp_all add: timer_init_def timer_get_reg_base_def reg_write_32_eq Let_def)
qed

definition sample_clock :: bus where
  "sample_clock = quiet_bus\<lparr>reg32 := (\<lambda>a. if a = 0xbfe78030 then 0x2a00 else if a = 0xbfe78034 then 0x8101 else 0)\<rparr>"

section \<open>The serial line\<close>

text \<open>
  C11. The receive buffer refines a queue of capacity 15 that drops its oldest byte when it
  overflows: after an interrupt that delivers any number of bytes the buffer holds the newest 15 of
  the old content followed by the new bytes, in order, and reading \<open>n\<close> bytes returns the first
  \<open>n\<close> of them and leaves exactly the others in the buffer.
\<close>

theorem serial_buffer_newest:
  assumes "fifo_inv f"
  shows "fifo_inv (snd (rt_hw_serial_isr l f)) \<and>
    fifo_items (snd (rt_hw_serial_isr l f)) = drop (length (fifo_items f @ l) - 15) (fifo_items f @ l) \<and>
    fst (serial_int_rx n (snd (rt_hw_serial_isr l f))) =
      take n (drop (length (fifo_items f @ l) - 15) (fifo_items f @ l)) \<and>
    fifo_inv (snd (serial_int_rx n (snd (rt_hw_serial_isr l f)))) \<and>
    fifo_items (snd (serial_int_rx n (snd (rt_hw_serial_isr l f)))) =
      drop n (drop (length (fifo_items f @ l) - 15) (fifo_items f @ l))"
proof -
  let ?f = "snd (rt_hw_serial_isr l f)"
  obtain cs f' where r: "serial_int_rx n ?f = (cs, f')" by fastforce
  then show ?thesis using serial_isr_newest[OF assms, of l] serial_int_rx_items[OF _ r] by auto
qed

lemma fifo_init_inv: "fifo_inv fifo_init" "fifo_items fifo_init = []"
  by (simp_all add: fifo_inv_def fifo_init_def fifo_items_def fifo_count_def)

theorem serial_buffer_newest_witness:
  "fst (serial_int_rx 13 (snd (rt_hw_serial_isr (map of_nat [0..<20]) fifo_init))) = [5, 6, 7, 8, 9, 10, 11, 12, 13, 14, 15, 16, 17] \<and>
    fifo_items (snd (serial_int_rx 13 (snd (rt_hw_serial_isr (map of_nat [0..<20]) fifo_init)))) = [18, 19]"
  using serial_buffer_newest[OF fifo_init_inv(1), of "map of_nat [0..<20]" 13]
  by (simp add: fifo_init_inv take_map drop_map upt_rec_numeral)

text \<open>
  C12. \<^verbatim>\<open>getchar\<close> returns: with an empty buffer it keeps polling while nothing arrives, and at
  the first poll before which bytes arrived it returns the oldest byte still in the buffer, as a
  signed character, and leaves the others for later calls.
\<close>

theorem getchar_returns:
  assumes "fifo_inv f" "fifo_items f = []" "arrived \<noteq> []"
  shows "\<exists>b f'. getchar (replicate k [] @ arrived # later) f = Some (sint b, later, f') \<and> fifo_inv f' \<and>
    b # fifo_items f' = drop (length arrived - 15) arrived"
proof -
  have "getchar (replicate k [] @ arrived # later) f = getchar (arrived # later) f"
    by (induction k) (use getchar_waits[OF assms(1,2)] in simp_all)
  then show ?thesis using getchar_ready[OF assms(1), of arrived later] assms(2,3) by auto
qed

theorem getchar_returns_witness:
  "\<exists>b f'. getchar [[], [], [0x41, 0x42]] fifo_init = Some (sint b, [], f') \<and> b # fifo_items f' = [0x41, 0x42]"
  using getchar_returns[OF fifo_init_inv, of "[0x41, 0x42]" 2 "[]"] by (auto simp: numeral_2_eq_2)

text \<open>
  Sending a string writes exactly its bytes up to the terminating zero to the data register,
  in order, with a carriage return before every line feed, as soon as the device reported
  readiness often enough; it writes no other register.
\<close>

lemma uart_print_writes:
  assumes "length (takeWhile (\<lambda>c. c \<noteq> 0) s) \<le> ready_polls l"
  shows "\<exists>l' b'. uart_print u s (l, b) = Some (l', b') \<and> reg32 b' = reg32 b \<and>
    log8 b' = log8 b @ map (Pair (uart_get_base u))
      (concat (map (\<lambda>c. if c = 10 then [13, 10] else [c]) (takeWhile (\<lambda>c. c \<noteq> 0) s)))"
  using uart_print_sends[of l s "ready_polls l - length (takeWhile (\<lambda>c. c \<noteq> 0) s)" u b] assms by auto

end
