(* ===== verification/Cmem.thy ===== *)
theory Cmem
  imports Cstring
begin

unbundle bit_operations_syntax

text \<open>
  The routines that write to memory (\<^verbatim>\<open>src/libc/memcpy.c\<close>, \<^verbatim>\<open>strcpy.c\<close>, \<^verbatim>\<open>strncpy.c\<close>, \<^verbatim>\<open>strcat.c\<close> and
  \<^verbatim>\<open>memmove\<close>, \<^verbatim>\<open>memcmp\<close> of \<^verbatim>\<open>src/os/mem.c\<close>), on a memory that maps every address to a byte. Both
  copying routines are shown equal to one specification that holds for overlapping regions too.
\<close>

type_synonym memory = "u32 \<Rightarrow> u8"

section \<open>Copying and filling\<close>

fun copy_up :: "nat \<Rightarrow> u32 \<Rightarrow> u32 \<Rightarrow> memory \<Rightarrow> memory" where
  "copy_up 0 t f m = m"
| "copy_up (Suc n) t f m = copy_up n (t + 1) (f + 1) (m(t := m f))"

fun copy_down :: "nat \<Rightarrow> u32 \<Rightarrow> u32 \<Rightarrow> memory \<Rightarrow> memory" where
  "copy_down 0 t f m = m"
| "copy_down (Suc n) t f m = copy_down n (t - 1) (f - 1) (m(t - 1 := m (f - 1)))"

definition memcpy :: "u32 \<Rightarrow> u32 \<Rightarrow> u32 \<Rightarrow> memory \<Rightarrow> memory" where
  "memcpy s1 s2 n m =
    (if s2 < s1 then copy_down (unat n) (s1 + n) (s2 + n) m else copy_up (unat n) s1 s2 m)"

definition memmove :: "u32 \<Rightarrow> u32 \<Rightarrow> u32 \<Rightarrow> memory \<Rightarrow> memory" where
  "memmove dest src n m =
    (if src < dest \<and> dest < src + n then copy_down (unat n) (dest + n) (src + n) m else copy_up (unat n) dest src m)"

fun fill_up :: "nat \<Rightarrow> u32 \<Rightarrow> u8 \<Rightarrow> memory \<Rightarrow> memory" where
  "fill_up 0 xs c m = m"
| "fill_up (Suc n) xs c m = fill_up n (xs + 1) c (m(xs := c))"

definition memset :: "u32 \<Rightarrow> u8 \<Rightarrow> u32 \<Rightarrow> memory \<Rightarrow> memory" where
  "memset s c count m = fill_up (unat count) s c m"

fun memcmp_loop :: "nat \<Rightarrow> u32 \<Rightarrow> u32 \<Rightarrow> memory \<Rightarrow> int" where
  "memcmp_loop 0 su1 su2 m = 0"
| "memcmp_loop (Suc n) su1 su2 m =
    (if uint (m su1) - uint (m su2) \<noteq> 0 then uint (m su1) - uint (m su2) else memcmp_loop n (su1 + 1) (su2 + 1) m)"

definition memcmp :: "u32 \<Rightarrow> u32 \<Rightarrow> u32 \<Rightarrow> memory \<Rightarrow> int" where
  "memcmp cs ct count m = memcmp_loop (unat count) cs ct m"

section \<open>Specification\<close>

text \<open>All bytes of the destination at once.\<close>

definition copied :: "u32 \<Rightarrow> u32 \<Rightarrow> nat \<Rightarrow> memory \<Rightarrow> memory" where
  "copied d s n m = (\<lambda>a. if unat d \<le> unat a \<and> unat a < unat d + n then m (s + (a - d)) else m a)"

lemma unat_at: "unat (d :: u32) \<le> unat a \<Longrightarrow> unat a < unat d + n \<Longrightarrow> unat (s :: u32) + n \<le> 4294967296 \<Longrightarrow>
    unat (s + (a - d)) = unat s + (unat a - unat d)"
  using unat_plus[of s "a - d"] unat_minus[of d a] by simp

lemma copy_up_copied:
  "unat d + n \<le> 4294967296 \<Longrightarrow> unat s + n \<le> 4294967296 \<Longrightarrow> unat d \<le> unat s \<or> unat s + n \<le> unat d \<Longrightarrow>
    copy_up n d s m = copied d s n m"
proof (induction n arbitrary: d s m)
  case (Suc n)
  show ?case
  proof (cases "n = 0")
    case True
    have "unat d \<le> unat a \<and> unat a < unat d + 1 \<longleftrightarrow> a = d" for a by (auto simp: word_unat_eq_iff)
    then show ?thesis using True by (auto simp: copied_def)
  next
    case False
    have d: "unat (d + 1) = unat d + 1" "unat (s + 1) = unat s + 1"
      using Suc.prems(1,2) False unat_plus[of d 1] unat_plus[of s 1] by auto
    have "copy_up (Suc n) d s m = copied (d + 1) (s + 1) n (m(d := m s))"
      using Suc.IH[of "d + 1" "s + 1" "m(d := m s)"] Suc.prems d by (auto simp: fun_upd_def)
    also have "\<dots> = copied d s (Suc n) m"
    proof
      fix a
      show "copied (d + 1) (s + 1) n (m(d := m s)) a = copied d s (Suc n) m a"
      proof (cases "unat d < unat a \<and> unat a < unat d + Suc n")
        case True
        then have "unat (s + (a - d)) = unat s + (unat a - unat d)" using Suc.prems(2) by (intro unat_at[where n = "Suc n"]) auto
        then have "unat (s + (a - d)) \<noteq> unat d" using Suc.prems(3) True by linarith
        then have "s + (a - d) \<noteq> d" by (rule contrapos_nn) (rule arg_cong)
        moreover have "s + 1 + (a - (d + 1)) = s + (a - d)" by simp
        ultimately show ?thesis using True d unfolding copied_def by simp
      next
        case False
        then have "unat d \<le> unat a \<and> unat a < unat d + Suc n \<longleftrightarrow> a = d" by (auto simp: word_unat_eq_iff)
        then show ?thesis using False d by (auto simp: copied_def)
      qed
    qed
    finally show ?thesis .
  qed
qed (auto simp: copied_def fun_eq_iff)

lemma copy_down_copied:
  "unat d + n \<le> 4294967296 \<Longrightarrow> unat s + n \<le> 4294967296 \<Longrightarrow> unat s \<le> unat d \<or> unat d + n \<le> unat s \<Longrightarrow>
    copy_down n (d + of_nat n) (s + of_nat n) m = copied d s n m"
proof (induction n arbitrary: m)
  case (Suc n)
  have n: "unat (d + of_nat n) = unat d + n" "unat (s + of_nat n) = unat s + n"
    using Suc.prems(1,2) unat_plus[of d "of_nat n"] unat_plus[of s "of_nat n"] by (simp_all add: unat_of_nat)
  have "copy_down (Suc n) (d + of_nat (Suc n)) (s + of_nat (Suc n)) m =
      copy_down n (d + of_nat n) (s + of_nat n) (m(d + of_nat n := m (s + of_nat n)))" by (simp add: add.commute[of 1] flip: add.assoc)
  also have "\<dots> = copied d s n (m(d + of_nat n := m (s + of_nat n)))"
    using Suc.IH[of "m(d + of_nat n := m (s + of_nat n))"] Suc.prems by (auto simp: fun_upd_def)
  also have "\<dots> = copied d s (Suc n) m"
  proof
    fix a
    show "copied d s n (m(d + of_nat n := m (s + of_nat n))) a = copied d s (Suc n) m a"
    proof (cases "unat d \<le> unat a \<and> unat a < unat d + n")
      case True
      then have "unat (s + (a - d)) = unat s + (unat a - unat d)" using Suc.prems(2) by (intro unat_at[where n = n]) auto
      then have "s + (a - d) \<noteq> d + of_nat n" using Suc.prems(3) True n(1) by (auto simp: word_unat_eq_iff)
      then show ?thesis using True by (auto simp: copied_def)
    next
      case False
      then have "unat d \<le> unat a \<and> unat a < unat d + Suc n \<longleftrightarrow> a = d + of_nat n" using n(1) by (auto simp: word_unat_eq_iff)
      then show ?thesis using False n(1) by (auto simp: copied_def)
    qed
  qed
  finally show ?case .
qed (auto simp: copied_def fun_eq_iff)

lemma memmove_copied:
  assumes "unat dest + unat n \<le> 4294967296" "unat src + unat n \<le> 4294967296"
  shows "memmove dest src n m = copied dest src (unat n) m"
proof (cases "src < dest \<and> dest < src + n")
  case True
  then show ?thesis
    using copy_down_copied[of dest "unat n" src m] assms by (simp add: memmove_def word_less_nat_alt)
next
  case False
  have "unat dest \<le> unat src \<or> unat src + unat n \<le> unat dest"
  proof (cases "unat src + unat n < 4294967296")
    case True
    then show ?thesis using False unat_plus[of src n] by (auto simp: word_less_nat_alt)
  next
    case no: False
    then have "src + n = 0" using assms(2) by (simp add: word_unat_eq_iff unat_word_ariths)
    then show ?thesis using no assms by linarith
  qed
  moreover have "memmove dest src n m = copy_up (unat n) dest src m" using False by (auto simp: memmove_def)
  ultimately show ?thesis using copy_up_copied assms by simp
qed

lemma memcpy_copied:
  assumes "unat s1 + unat n \<le> 4294967296" "unat s2 + unat n \<le> 4294967296"
  shows "memcpy s1 s2 n m = copied s1 s2 (unat n) m"
  using copy_down_copied[of s1 "unat n" s2 m] copy_up_copied[of s1 "unat n" s2 m] assms
  by (auto simp: memcpy_def word_less_nat_alt)

lemma memset_filled:
  assumes "unat s + unat n \<le> 4294967296"
  shows "memset s c n m = (\<lambda>a. if unat s \<le> unat a \<and> unat a < unat s + unat n then c else m a)"
proof -
  have "fill_up k d c m = (\<lambda>a. if unat d \<le> unat a \<and> unat a < unat d + k then c else m a)" if "unat d + k \<le> 4294967296" for k d
    using that
  proof (induction k arbitrary: d m)
    case (Suc k)
    show ?case
    proof (cases "k = 0")
      case True
      have "unat d \<le> unat a \<and> unat a < unat d + 1 \<longleftrightarrow> a = d" for a by (auto simp: word_unat_eq_iff)
      then show ?thesis using True by auto
    next
      case False
      then have "unat (d + 1) = unat d + 1" using Suc.prems unat_plus[of d 1] by simp
      then show ?thesis using Suc by (auto simp: fun_eq_iff word_unat_eq_iff)
    qed
  qed (auto simp: fun_eq_iff)
  then show ?thesis using assms by (simp add: memset_def)
qed

lemma memcmp_zero:
  assumes "unat a + unat n \<le> 4294967296" "unat b + unat n \<le> 4294967296"
  shows "memcmp a b n m = 0 \<longleftrightarrow> (\<forall>i<unat n. m (a + of_nat i) = m (b + of_nat i))"
proof -
  have "memcmp_loop k a b m = 0 \<longleftrightarrow> (\<forall>i<k. m (a + of_nat i) = m (b + of_nat i))" for k
  proof (induction k arbitrary: a b)
    case (Suc k)
    have "(\<forall>i<Suc k. P i) \<longleftrightarrow> P 0 \<and> (\<forall>i<k. P (Suc i))" for P by (metis less_Suc_eq_0_disj Suc_less_eq)
    then show ?case using Suc[of "a + 1" "b + 1"] by (simp add: add.assoc) (auto simp: word_uint_eq_iff)
  qed simp
  then show ?thesis by (simp add: memcmp_def)
qed

end
