(* ===== verification/Heap.thy ===== *)
theory Heap
  imports Cmem "HOL-Library.Monad_Syntax"
begin

unbundle bit_operations_syntax

text \<open>
  The allocator, \<^verbatim>\<open>src/os/mem.c\<close>. Block headers and user data never overlap, so the state has
  one map for each: \<open>hdr\<close> gives the header at an offset from \<^verbatim>\<open>heap_ptr\<close>, \<open>bytes\<close> the byte at
  an address. The pointers \<^verbatim>\<open>lfree\<close> and \<^verbatim>\<open>heap_end\<close> are kept as offsets too. All arithmetic is
  on 32-bit words, as in the code. The semaphore of the heap is its value and the number of
  threads in its queue. When it is not available, \<^verbatim>\<open>rt_sem_take\<close> queues the caller; what comes
  then depends on the other threads: if one is ready, the call waits and the model stops with
  \<open>Inl Waits\<close>; if none is (\<open>none_ready\<close>), the scheduler returns and the call goes on without the
  semaphore. A failed assertion, which spins, is \<open>Inl Heap_assert\<close>. The loops
  over the block list are partial: \<open>None\<close> is a walk that does not end. The allocator is called
  from threads only, which is what \<^verbatim>\<open>RT_DEBUG_NOT_IN_INTERRUPT\<close> checks.
\<close>

section \<open>State\<close>

record heap_mem =
  magic :: u16
  used :: u16
  nxt :: u32
  prv :: u32

record heap =
  hdr :: "u32 \<Rightarrow> heap_mem"
  bytes :: "u32 \<Rightarrow> u8"
  heap_ptr :: u32
  heap_end :: u32
  lfree :: u32
  mem_size_aligned :: u32
  used_mem :: u32
  max_mem :: u32
  heap_sem :: u16
  heap_waiting :: nat
  none_ready :: bool

datatype heap_halt = Waits | Heap_assert

definition HEAP_MAGIC :: u16 where "HEAP_MAGIC = 0x1ea0"

definition RT_ALIGN :: "u32 \<Rightarrow> u32" where
  "RT_ALIGN sz = (sz + 7) AND NOT 7"

definition RT_ALIGN_DOWN :: "u32 \<Rightarrow> u32" where
  "RT_ALIGN_DOWN sz = sz AND NOT 7"

definition MIN_SIZE :: u32 where "MIN_SIZE = 12"
definition MIN_SIZE_ALIGNED :: u32 where "MIN_SIZE_ALIGNED = 16"
definition SIZEOF_STRUCT_MEM :: u32 where "SIZEOF_STRUCT_MEM = 16"

definition upd_hdr :: "u32 \<Rightarrow> (heap_mem \<Rightarrow> heap_mem) \<Rightarrow> heap \<Rightarrow> heap" where
  "upd_hdr p f h = h\<lparr>hdr := (hdr h)(p := f (hdr h p))\<rparr>"

definition sem_take :: "heap \<Rightarrow> heap_halt + heap" where
  "sem_take h =
    (if heap_sem h > 0 then Inr (h\<lparr>heap_sem := heap_sem h - 1\<rparr>)
     else if none_ready h then Inr (h\<lparr>heap_waiting := heap_waiting h + 1\<rparr>)
     else Inl Waits)"

definition sem_release :: "heap \<Rightarrow> heap" where
  "sem_release h =
    (if heap_waiting h > 0 then h\<lparr>heap_waiting := heap_waiting h - 1\<rparr>
     else h\<lparr>heap_sem := heap_sem h + 1\<rparr>)"

section \<open>Operations\<close>

definition plug_holes :: "u32 \<Rightarrow> heap \<Rightarrow> heap_halt + heap" where
  "plug_holes mem h =
    (if \<not> mem < heap_end h \<or> used (hdr h mem) \<noteq> 0 then Inl Heap_assert
     else
       let nmem = nxt (hdr h mem);
           h = (if mem \<noteq> nmem \<and> used (hdr h nmem) = 0 \<and> nmem \<noteq> heap_end h then
                  let h = (if lfree h = nmem then h\<lparr>lfree := mem\<rparr> else h);
                      h = upd_hdr mem (\<lambda>m. m\<lparr>nxt := nxt (hdr h nmem)\<rparr>) h
                  in upd_hdr (nxt (hdr h nmem)) (\<lambda>m. m\<lparr>prv := mem\<rparr>) h
                else h);
           pmem = prv (hdr h mem);
           h = (if pmem \<noteq> mem \<and> used (hdr h pmem) = 0 then
                  let h = (if lfree h = mem then h\<lparr>lfree := pmem\<rparr> else h);
                      h = upd_hdr pmem (\<lambda>m. m\<lparr>nxt := nxt (hdr h mem)\<rparr>) h
                  in upd_hdr (nxt (hdr h mem)) (\<lambda>m. m\<lparr>prv := pmem\<rparr>) h
                else h)
       in Inr h)"

definition rt_system_heap_init :: "u32 \<Rightarrow> u32 \<Rightarrow> heap \<Rightarrow> heap" where
  "rt_system_heap_init begin_addr end_addr h =
    (let begin_align = RT_ALIGN begin_addr;
         end_align = RT_ALIGN_DOWN end_addr
     in if end_align > 2 * SIZEOF_STRUCT_MEM \<and> end_align - 2 * SIZEOF_STRUCT_MEM \<ge> begin_align then
          let h = h\<lparr>mem_size_aligned := end_align - begin_align - 2 * SIZEOF_STRUCT_MEM\<rparr>;
              h = h\<lparr>heap_ptr := begin_align\<rparr>;
              e = mem_size_aligned h + SIZEOF_STRUCT_MEM;
              h = upd_hdr 0 (\<lambda>_. \<lparr>magic = HEAP_MAGIC, used = 0, nxt = e, prv = 0\<rparr>) h;
              h = h\<lparr>heap_end := e\<rparr>;
              h = upd_hdr e (\<lambda>_. \<lparr>magic = HEAP_MAGIC, used = 1, nxt = e, prv = e\<rparr>) h;
              h = h\<lparr>heap_sem := 1, heap_waiting := 0\<rparr>
          in h\<lparr>lfree := 0\<rparr>
        else h)"

definition mem_stat :: "u32 \<Rightarrow> heap \<Rightarrow> heap" where
  "mem_stat n h =
    (let h = h\<lparr>used_mem := used_mem h + n\<rparr>
     in if max_mem h < used_mem h then h\<lparr>max_mem := used_mem h\<rparr> else h)"

definition malloc_take :: "u32 \<Rightarrow> u32 \<Rightarrow> heap \<Rightarrow> heap" where
  "malloc_take sz ptr h =
    (let h =
       (if nxt (hdr h ptr) - (ptr + SIZEOF_STRUCT_MEM) \<ge> sz + SIZEOF_STRUCT_MEM + MIN_SIZE_ALIGNED then
          let ptr2 = ptr + SIZEOF_STRUCT_MEM + sz;
              h = upd_hdr ptr2 (\<lambda>_. \<lparr>magic = HEAP_MAGIC, used = 0, nxt = nxt (hdr h ptr), prv = ptr\<rparr>) h;
              h = upd_hdr ptr (\<lambda>m. m\<lparr>nxt := ptr2, used := 1\<rparr>) h;
              h = (if nxt (hdr h ptr2) \<noteq> mem_size_aligned h + SIZEOF_STRUCT_MEM
                   then upd_hdr (nxt (hdr h ptr2)) (\<lambda>m. m\<lparr>prv := ptr2\<rparr>) h else h)
          in mem_stat (sz + SIZEOF_STRUCT_MEM) h
        else
          let h = upd_hdr ptr (\<lambda>m. m\<lparr>used := 1\<rparr>) h
          in mem_stat (nxt (hdr h ptr) - ptr) h)
     in upd_hdr ptr (\<lambda>m. m\<lparr>magic := HEAP_MAGIC\<rparr>) h)"

partial_function (option) lfree_walk :: "u32 \<Rightarrow> heap \<Rightarrow> u32 option" where
  "lfree_walk p h =
    (if used (hdr h p) \<noteq> 0 \<and> p \<noteq> heap_end h then lfree_walk (nxt (hdr h p)) h else Some p)"

definition malloc_found :: "u32 \<Rightarrow> u32 \<Rightarrow> heap \<Rightarrow> (heap_halt + u32 \<times> heap) option" where
  "malloc_found sz ptr h =
    do { let h = malloc_take sz ptr h;
         l \<leftarrow> (if ptr = lfree h then lfree_walk (lfree h) h else Some (lfree h));
         let moved = (ptr = lfree h);
         let h = h\<lparr>lfree := l\<rparr>;
         if (moved \<and> \<not> (lfree h = heap_end h \<or> used (hdr h (lfree h)) = 0))
            \<or> \<not> heap_ptr h + ptr + SIZEOF_STRUCT_MEM + sz \<le> heap_ptr h + heap_end h
            \<or> (heap_ptr h + ptr + SIZEOF_STRUCT_MEM) mod 8 \<noteq> 0
            \<or> (heap_ptr h + ptr) AND 7 \<noteq> 0
         then Some (Inl Heap_assert)
         else Some (Inr (heap_ptr h + ptr + SIZEOF_STRUCT_MEM, sem_release h)) }"

partial_function (option) malloc_loop :: "u32 \<Rightarrow> u32 \<Rightarrow> heap \<Rightarrow> (heap_halt + u32 \<times> heap) option" where
  "malloc_loop sz ptr h =
    (if ptr < mem_size_aligned h - sz then
       (if used (hdr h ptr) = 0 \<and> nxt (hdr h ptr) - (ptr + SIZEOF_STRUCT_MEM) \<ge> sz
        then malloc_found sz ptr h
        else malloc_loop sz (nxt (hdr h ptr)) h)
     else Some (Inr (0, sem_release h)))"

definition malloc :: "u32 \<Rightarrow> heap \<Rightarrow> (heap_halt + u32 \<times> heap) option" where
  "malloc sz h =
    (case sem_take h of
       Inl e \<Rightarrow> Some (Inl e)
     | Inr h \<Rightarrow>
       if sz = 0 then Some (Inr (0, h))
       else
         let sz = RT_ALIGN sz in
         if sz > mem_size_aligned h then Some (Inr (0, h))
         else
           let sz = (if sz < MIN_SIZE_ALIGNED then MIN_SIZE_ALIGNED else sz)
           in malloc_loop sz (lfree h) h)"

definition free :: "u32 \<Rightarrow> heap \<Rightarrow> heap_halt + heap" where
  "free rmem h =
    (case sem_take h of
       Inl e \<Rightarrow> Inl e
     | Inr h \<Rightarrow>
       if rmem = 0 then Inr h
       else if rmem AND 7 \<noteq> 0 \<or> \<not> (rmem \<ge> heap_ptr h \<and> rmem < heap_ptr h + heap_end h) then Inl Heap_assert
       else
         let mem = rmem - SIZEOF_STRUCT_MEM - heap_ptr h in
         if used (hdr h mem) = 0 \<or> magic (hdr h mem) \<noteq> HEAP_MAGIC then Inl Heap_assert
         else
           let h = upd_hdr mem (\<lambda>m. m\<lparr>used := 0, magic := HEAP_MAGIC\<rparr>) h;
               h = (if mem < lfree h then h\<lparr>lfree := mem\<rparr> else h);
               h = h\<lparr>used_mem := used_mem h - (nxt (hdr h mem) - mem)\<rparr>
           in (case plug_holes mem h of
                 Inl e \<Rightarrow> Inl e
               | Inr h \<Rightarrow> Inr (sem_release h)))"

definition realloc :: "u32 \<Rightarrow> u32 \<Rightarrow> heap \<Rightarrow> (heap_halt + u32 \<times> heap) option" where
  "realloc rmem newsize h =
    (let newsize = RT_ALIGN newsize in
     if newsize > mem_size_aligned h then Some (Inr (0, h))
     else if newsize = 0 then
       (case free rmem h of Inl e \<Rightarrow> Some (Inl e) | Inr h \<Rightarrow> Some (Inr (0, h)))
     else if rmem = 0 then malloc newsize h
     else case sem_take h of
       Inl e \<Rightarrow> Some (Inl e)
     | Inr h \<Rightarrow>
       if rmem < heap_ptr h \<or> rmem \<ge> heap_ptr h + heap_end h then Some (Inr (rmem, sem_release h))
       else
         let ptr = rmem - SIZEOF_STRUCT_MEM - heap_ptr h;
             sz = nxt (hdr h ptr) - ptr - SIZEOF_STRUCT_MEM in
         if sz = newsize then Some (Inr (rmem, sem_release h))
         else if newsize + SIZEOF_STRUCT_MEM + MIN_SIZE < sz then
           let h = h\<lparr>used_mem := used_mem h - (sz - newsize)\<rparr>;
               ptr2 = ptr + SIZEOF_STRUCT_MEM + newsize;
               h = upd_hdr ptr2 (\<lambda>_. \<lparr>magic = HEAP_MAGIC, used = 0, nxt = nxt (hdr h ptr), prv = ptr\<rparr>) h;
               h = upd_hdr ptr (\<lambda>m. m\<lparr>nxt := ptr2\<rparr>) h;
               h = (if nxt (hdr h ptr2) \<noteq> mem_size_aligned h + SIZEOF_STRUCT_MEM
                    then upd_hdr (nxt (hdr h ptr2)) (\<lambda>m. m\<lparr>prv := ptr2\<rparr>) h else h)
           in (case plug_holes ptr2 h of
                 Inl e \<Rightarrow> Some (Inl e)
               | Inr h \<Rightarrow> Some (Inr (rmem, sem_release h)))
         else
           (case malloc newsize (sem_release h) of
              None \<Rightarrow> None
            | Some (Inl e) \<Rightarrow> Some (Inl e)
            | Some (Inr (nmem, h)) \<Rightarrow>
              if nmem \<noteq> 0 then
                let h = h\<lparr>bytes := memcpy nmem rmem (if sz < newsize then sz else newsize) (bytes h)\<rparr>
                in (case free rmem h of Inl e \<Rightarrow> Some (Inl e) | Inr h \<Rightarrow> Some (Inr (nmem, h)))
              else Some (Inr (nmem, h))))"

definition calloc :: "u32 \<Rightarrow> u32 \<Rightarrow> heap \<Rightarrow> (heap_halt + u32 \<times> heap) option" where
  "calloc count sz h =
    (case malloc (count * sz) h of
       None \<Rightarrow> None
     | Some (Inl e) \<Rightarrow> Some (Inl e)
     | Some (Inr (p, h)) \<Rightarrow>
       if p \<noteq> 0 then Some (Inr (p, h\<lparr>bytes := memset p 0 (count * sz) (bytes h)\<rparr>))
       else Some (Inr (p, h)))"

definition rt_memory_info :: "heap \<Rightarrow> u32 \<times> u32 \<times> u32" where
  "rt_memory_info h = (mem_size_aligned h, used_mem h, max_mem h)"

end
