(* ===== verification/Heap_Inv.thy ===== *)
theory Heap_Inv
  imports Heap
begin

unbundle bit_operations_syntax

text \<open>
  The invariant of the allocator and what its operations do to the list of blocks. A heap is
  abstracted to the list of its blocks, each an offset and whether it is in use; \<open>seg\<close> says that
  the headers chain these blocks in both directions, aligned and in increasing order, up to the
  closing header, and that a block in use has room for data.
\<close>

section \<open>Block lists\<close>

type_synonym block = "u32 \<times> bool"

fun seg :: "(u32 \<Rightarrow> heap_mem) \<Rightarrow> u32 \<Rightarrow> u32 \<Rightarrow> block list \<Rightarrow> u32 \<Rightarrow> bool" where
  "seg H pv p [] e \<longleftrightarrow> p = e"
| "seg H pv p (b # bs) e \<longleftrightarrow> fst b = p \<and> magic (H p) = HEAP_MAGIC \<and> used (H p) = of_bool (snd b) \<and> prv (H p) = pv \<and>
    8 dvd unat p \<and> unat p + 16 \<le> unat (nxt (H p)) \<and> (snd b \<longrightarrow> unat p + 16 < unat (nxt (H p))) \<and> seg H p (nxt (H p)) bs e"

definition lastp :: "u32 \<Rightarrow> block list \<Rightarrow> u32" where
  "lastp pv bs = (if bs = [] then pv else fst (last bs))"

lemma lastp_simps [simp]: "lastp pv [] = pv" "lastp pv (bs @ [b]) = fst b" "lastp pv (b # bs) = lastp (fst b) bs"
  by (simp_all add: lastp_def)

lemma seg_append: "seg H pv p (xs @ ys) e \<longleftrightarrow> (\<exists>m. seg H pv p xs m \<and> seg H (lastp pv xs) m ys e)"
  by (induction xs arbitrary: pv p) auto

lemma seg_cong: "(\<And>q. q \<in> fst ` set bs \<Longrightarrow> H' q = H q) \<Longrightarrow> seg H' pv p bs e = seg H pv p bs e"
proof (induction bs arbitrary: pv p)
  case (Cons b bs)
  show ?case
  proof (cases "fst b = p")
    case True
    then have "H' p = H p" using Cons.prems[of p] by force
    then show ?thesis using Cons.IH[of p "nxt (H p)"] Cons.prems by auto
  qed simp
qed simp

lemma seg_le: "seg H pv p bs e \<Longrightarrow> unat p \<le> unat e"
proof (induction bs arbitrary: pv p)
  case (Cons b bs)
  then show ?case using Cons.IH[of p "nxt (H p)"] by fastforce
qed simp

lemma seg_range: "seg H pv p bs e \<Longrightarrow> b \<in> set bs \<Longrightarrow> unat p \<le> unat (fst b) \<and> unat (fst b) + 16 \<le> unat e"
proof (induction bs arbitrary: pv p)
  case (Cons c bs)
  show ?case
  proof (cases "b = c")
    case True
    then show ?thesis using Cons.prems seg_le[of H p "nxt (H p)" bs e] by force
  next
    case False
    then show ?thesis using Cons.prems Cons.IH[of p "nxt (H p)"] by force
  qed
qed simp

lemma seg_first: "seg H pv p bs e \<Longrightarrow> bs \<noteq> [] \<Longrightarrow> fst (hd bs) = p \<and> prv (H p) = pv"
  by (cases bs) auto

lemma seg_dvd: "seg H pv p bs e \<Longrightarrow> b \<in> set bs \<Longrightarrow> 8 dvd unat (fst b)"
  by (induction bs arbitrary: pv p) auto

text \<open>Splitting a chain at one of its blocks.\<close>

lemma seg_split:
  assumes "seg H pv p (xs @ (q, u) # ys) e"
  shows "seg H pv p xs q" "magic (H q) = HEAP_MAGIC" "used (H q) = of_bool u" "prv (H q) = lastp pv xs" "8 dvd unat q"
    "unat q + 16 \<le> unat (nxt (H q))" "seg H q (nxt (H q)) ys e" "unat (nxt (H q)) \<le> unat e"
    "u \<Longrightarrow> unat q + 16 < unat (nxt (H q))"
  using assms seg_le[of H q "nxt (H q)" ys e] by (auto simp: seg_append)

lemma seg_before: "seg H pv p xs q \<Longrightarrow> b \<in> set xs \<Longrightarrow> unat (fst b) < unat q"
  using seg_range[of H pv p xs q b] by auto

lemma seg_not_in: "seg H pv p bs e \<Longrightarrow> unat q < unat p \<or> unat e \<le> unat q \<Longrightarrow> q \<notin> fst ` set bs"
  using seg_range[of H pv p bs e] by fastforce

text \<open>A header update outside a chain, and the back link of its first block.\<close>

lemma seg_upd [simp]: "q \<notin> fst ` set bs \<Longrightarrow> seg (H(q := m)) pv p bs e = seg H pv p bs e"
  by (rule seg_cong) auto

lemma seg_relink:
  assumes "seg H pv p bs e"
  shows "seg (H(p := (H p)\<lparr>prv := pv'\<rparr>)) pv' p bs e"
proof (cases bs)
  case (Cons b bs')
  then have "seg H p (nxt (H p)) bs' e" "unat p < unat (nxt (H p))" using assms by auto
  then have "p \<notin> fst ` set bs'" by (intro seg_not_in) auto
  then show ?thesis using assms Cons by auto
qed (use assms in simp)

section \<open>Word arithmetic of the allocator\<close>

lemma unat_plus16: "unat (p :: u32) + 16 \<le> unat (n :: u32) \<Longrightarrow> unat (p + 16) = unat p + 16"
  using u32_lt[of n] unat_plus[of p 16] by simp

lemma unat_room: "unat (p :: u32) + 16 \<le> unat (n :: u32) \<Longrightarrow> unat (n - (p + 16)) = unat n - unat p - 16"
  using unat_plus16[of p n] by (subst unat_sub) (auto simp: word_le_nat_alt)

lemma mask_7: "(7 :: u32) = mask 3"
  by (simp add: mask_eq_exp_minus_1)

lemma and_7_iff: "(x :: u32) AND 7 = 0 \<longleftrightarrow> 8 dvd unat x"
proof -
  have "x AND 7 = x mod 8" unfolding mask_7 by (simp flip: take_bit_eq_mask add: take_bit_eq_mod)
  then show ?thesis by (simp add: word_unat_eq_iff unat_mod dvd_eq_mod_eq_0)
qed

lemma align_down_eq: "RT_ALIGN_DOWN x = 8 * (x div 8)"
proof -
  have "x AND NOT (mask 3) = push_bit 3 (drop_bit 3 x)"
    by (intro bit_eqI) (auto simp: bit_and_iff bit_not_iff bit_mask_iff bit_push_bit_iff bit_drop_bit_eq)
  then show ?thesis unfolding RT_ALIGN_DOWN_def mask_7 by (simp add: push_bit_eq_mult drop_bit_eq_div mult.commute)
qed

lemma unat_align_down: "unat (RT_ALIGN_DOWN x) = 8 * (unat x div 8)"
proof -
  have "8 * (unat x div 8) < 4294967296" using u32_lt[of x] by linarith
  then show ?thesis by (simp add: align_down_eq unat_word_ariths unat_div)
qed

lemma unat_align:
  assumes "unat x \<le> 4294967288"
  shows "unat (RT_ALIGN x) = 8 * ((unat x + 7) div 8)"
proof -
  have "RT_ALIGN x = RT_ALIGN_DOWN (x + 7)" by (simp add: RT_ALIGN_def RT_ALIGN_DOWN_def)
  then show ?thesis using unat_plus[of x 7] assms by (simp add: unat_align_down)
qed

section \<open>The invariant\<close>

definition first_free :: "block list \<Rightarrow> u32 \<Rightarrow> u32" where
  "first_free bs e = (case find (\<lambda>b. \<not> snd b) bs of Some b \<Rightarrow> fst b | None \<Rightarrow> e)"

definition merged :: "block list \<Rightarrow> bool" where
  "merged bs \<longleftrightarrow> successively (\<lambda>a b. snd a \<or> snd b) bs"

definition heap_ok :: "heap \<Rightarrow> block list \<Rightarrow> bool" where
  "heap_ok h bs \<longleftrightarrow> seg (hdr h) 0 0 bs (heap_end h) \<and> heap_end h = mem_size_aligned h + 16 \<and>
    used (hdr h (heap_end h)) = 1 \<and> merged bs \<and> lfree h = first_free bs (heap_end h) \<and>
    unat (heap_ptr h) + unat (mem_size_aligned h) + 32 < 4294967296 \<and>
    8 dvd unat (heap_ptr h) \<and> 8 dvd unat (mem_size_aligned h) \<and> heap_waiting h = 0"

lemma heap_okD:
  assumes "heap_ok h bs"
  shows "seg (hdr h) 0 0 bs (heap_end h)" "heap_end h = mem_size_aligned h + 16" "used (hdr h (heap_end h)) = 1"
    "merged bs" "lfree h = first_free bs (heap_end h)"
    "unat (heap_ptr h) + unat (mem_size_aligned h) + 32 < 4294967296" "8 dvd unat (heap_ptr h)"
    "8 dvd unat (mem_size_aligned h)" "unat (heap_end h) = unat (mem_size_aligned h) + 16" "heap_waiting h = 0"
  using assms unat_plus[of "mem_size_aligned h" 16] by (auto simp: heap_ok_def)

lemma first_free_simps [simp]:
  "first_free [] e = e" "first_free ((q, False) # bs) e = q" "first_free ((q, True) # bs) e = first_free bs e"
  by (simp_all add: first_free_def)

lemma first_free_append:
  "first_free (xs @ ys) e = (if \<forall>b\<in>set xs. snd b then first_free ys e else first_free xs e)"
  by (induction xs) (auto simp: first_free_def)

lemma first_free_cases: "first_free bs e = e \<or> (first_free bs e, False) \<in> set bs"
  by (induction bs) (auto simp: first_free_def split: if_splits)

section \<open>Initialisation\<close>

lemma init_heap_ok:
  assumes "unat b \<le> 4294967288" "32 < unat (RT_ALIGN_DOWN e)" "unat (RT_ALIGN b) + 32 \<le> unat (RT_ALIGN_DOWN e)"
  shows "heap_ok (rt_system_heap_init b e h) [(0, False)]" "heap_sem (rt_system_heap_init b e h) = 1"
proof -
  let ?b = "RT_ALIGN b" and ?e = "RT_ALIGN_DOWN e"
  have e32: "unat (?e - 32) = unat ?e - 32" using assms(2) by (subst unat_sub) (auto simp: word_le_nat_alt)
  have c: "?e > 2 * SIZEOF_STRUCT_MEM \<and> ?e - 2 * SIZEOF_STRUCT_MEM \<ge> ?b"
    using assms(2,3) e32 by (simp add: SIZEOF_STRUCT_MEM_def word_less_nat_alt word_le_nat_alt)
  have m: "unat (?e - ?b - 32) = unat ?e - unat ?b - 32"
    using assms(3) unat_minus[of ?b ?e] unat_minus[of 32 "?e - ?b"] by simp
  have n: "unat (?e - ?b - 32 + 16) = unat ?e - unat ?b - 16" using m assms(3) u32_lt[of ?e] by (subst unat_plus) auto
  then have ne: "?e - ?b - 32 + 16 \<noteq> 0" using assms(3) by (intro notI) simp
  have d: "8 dvd unat ?b" "8 dvd unat ?e" using unat_align[OF assms(1)] unat_align_down[of e] by simp_all
  show "heap_ok (rt_system_heap_init b e h) [(0, False)]" "heap_sem (rt_system_heap_init b e h) = 1"
    using c m n ne d assms(3) u32_lt[of ?e]
    by (simp_all add: rt_system_heap_init_def SIZEOF_STRUCT_MEM_def upd_hdr_def heap_ok_def merged_def Let_def dvd_diff_nat)
qed

section \<open>Walks over the blocks\<close>

lemma lfree_walk_eq: "seg (hdr h) pv p bs (heap_end h) \<Longrightarrow> lfree_walk p h = Some (first_free bs (heap_end h))"
proof (induction bs arbitrary: pv p)
  case Nil
  then show ?case by (subst lfree_walk.simps) simp
next
  case (Cons b bs)
  have "p \<noteq> heap_end h" using seg_range[OF Cons.prems, of b] Cons.prems by auto
  then show ?case using Cons by (subst lfree_walk.simps) (cases b, auto)
qed

definition fits :: "heap \<Rightarrow> u32 \<Rightarrow> block \<Rightarrow> bool" where
  "fits h sz b \<longleftrightarrow> \<not> snd b \<and> unat (fst b) + unat sz < unat (mem_size_aligned h) \<and>
    unat (fst b) + 16 + unat sz \<le> unat (nxt (hdr h (fst b)))"

lemma malloc_loop_eq:
  assumes "seg (hdr h) pv p bs (heap_end h)" "unat (heap_end h) = unat (mem_size_aligned h) + 16"
    and "unat sz \<le> unat (mem_size_aligned h)"
  shows "malloc_loop sz p h =
    (case find (fits h sz) bs of Some b \<Rightarrow> malloc_found sz (fst b) h | None \<Rightarrow> Some (Inr (0, sem_release h)))"
  using assms(1)
proof (induction bs arbitrary: pv p)
  case Nil
  then have "\<not> p < mem_size_aligned h - sz" using assms(2,3) by (simp add: word_less_nat_alt unat_minus)
  then show ?case by (subst malloc_loop.simps) simp
next
  case (Cons b bs)
  let ?n = "nxt (hdr h p)"
  have p: "fst b = p" "used (hdr h p) = of_bool (snd b)" "unat p + 16 \<le> unat ?n" "seg (hdr h) p ?n bs (heap_end h)"
    using Cons.prems by auto
  have bound: "p < mem_size_aligned h - sz \<longleftrightarrow> unat p + unat sz < unat (mem_size_aligned h)"
    using assms(3) by (auto simp: word_less_nat_alt unat_minus)
  have room: "?n - (p + SIZEOF_STRUCT_MEM) \<ge> sz \<longleftrightarrow> unat p + 16 + unat sz \<le> unat ?n"
    using unat_room[OF p(3)] p(3) by (auto simp: word_le_nat_alt SIZEOF_STRUCT_MEM_def)
  show ?case
  proof (cases "unat p + unat sz < unat (mem_size_aligned h)")
    case True
    then have "fits h sz b \<longleftrightarrow> \<not> snd b \<and> unat p + 16 + unat sz \<le> unat ?n" using p(1) by (simp add: fits_def)
    then show ?thesis using Cons.IH[OF p(4)] p(1,2) bound room True
      by (subst malloc_loop.simps) auto
  next
    case False
    have "\<not> fits h sz c" if "c \<in> set (b # bs)" for c
      using seg_range[OF Cons.prems that] False by (auto simp: fits_def)
    then have "find (fits h sz) (b # bs) = None" unfolding find_None_iff by blast
    then show ?thesis using False bound by (subst malloc_loop.simps) (simp del: find.simps)
  qed
qed

section \<open>Taking a block\<close>

definition splits :: "heap \<Rightarrow> u32 \<Rightarrow> u32 \<Rightarrow> bool" where
  "splits h sz p \<longleftrightarrow> unat p + unat sz + 48 \<le> unat (nxt (hdr h p))"

lemma mem_stat_frame [simp]:
  "hdr (mem_stat n h) = hdr h" "bytes (mem_stat n h) = bytes h" "heap_ptr (mem_stat n h) = heap_ptr h"
  "heap_end (mem_stat n h) = heap_end h" "lfree (mem_stat n h) = lfree h"
  "mem_size_aligned (mem_stat n h) = mem_size_aligned h" "heap_sem (mem_stat n h) = heap_sem h" "heap_waiting (mem_stat n h) = heap_waiting h"
  by (simp_all add: mem_stat_def Let_def)

lemma upd_hdr_frame [simp]:
  "hdr (upd_hdr p f h) = (hdr h)(p := f (hdr h p))" "bytes (upd_hdr p f h) = bytes h" "heap_ptr (upd_hdr p f h) = heap_ptr h"
  "heap_end (upd_hdr p f h) = heap_end h" "lfree (upd_hdr p f h) = lfree h"
  "mem_size_aligned (upd_hdr p f h) = mem_size_aligned h" "heap_sem (upd_hdr p f h) = heap_sem h" "heap_waiting (upd_hdr p f h) = heap_waiting h"
  "used_mem (upd_hdr p f h) = used_mem h"
  by (simp_all add: upd_hdr_def)

lemma malloc_take_frame:
  "bytes (malloc_take sz p h) = bytes h" "heap_ptr (malloc_take sz p h) = heap_ptr h"
  "heap_end (malloc_take sz p h) = heap_end h" "lfree (malloc_take sz p h) = lfree h"
  "mem_size_aligned (malloc_take sz p h) = mem_size_aligned h" "heap_sem (malloc_take sz p h) = heap_sem h" "heap_waiting (malloc_take sz p h) = heap_waiting h"
  by (simp_all add: malloc_take_def Let_def)

lemma malloc_take_hdr:
  assumes "unat p + 16 \<le> unat (nxt (hdr h p))" "unat sz + 32 < 4294967296" "heap_end h = mem_size_aligned h + 16"
  shows "hdr (malloc_take sz p h) =
    (let n = nxt (hdr h p); p2 = p + 16 + sz in
     if splits h sz p then
       (let H = (hdr h)(p2 := \<lparr>magic = HEAP_MAGIC, used = 0, nxt = n, prv = p\<rparr>);
            H = H(p := (H p)\<lparr>nxt := p2, used := 1\<rparr>);
            H = (if nxt (H p2) \<noteq> heap_end h then H(nxt (H p2) := (H (nxt (H p2)))\<lparr>prv := p2\<rparr>) else H)
        in H(p := (H p)\<lparr>magic := HEAP_MAGIC\<rparr>))
     else (hdr h)(p := (hdr h p)\<lparr>used := 1, magic := HEAP_MAGIC\<rparr>))"
proof -
  have "unat (sz + 16 + 16) = unat sz + 32" using assms(2) unat_plus[of 32 sz] by simp
  then have "nxt (hdr h p) - (p + 16) \<ge> sz + 16 + 16 \<longleftrightarrow> splits h sz p"
    using unat_room[OF assms(1)] assms(1) by (auto simp: word_le_nat_alt splits_def)
  then show ?thesis
    by (simp add: malloc_take_def SIZEOF_STRUCT_MEM_def MIN_SIZE_ALIGNED_def assms(3) Let_def)
qed

lemma malloc_take_seg:
  fixes h :: heap and sz p :: u32
  assumes s: "seg (hdr h) 0 0 (xs @ (p, v) # ys) (heap_end h)" and e: "heap_end h = mem_size_aligned h + 16"
    and r: "unat p + 16 + unat sz \<le> unat (nxt (hdr h p))" "unat sz + 32 < 4294967296" "8 dvd unat sz" "0 < unat sz"
    and u: "used (hdr h (heap_end h)) = 1"
  defines "h' \<equiv> malloc_take sz p h"
  shows "seg (hdr h') 0 0 (xs @ (p, True) # (if splits h sz p then [(p + 16 + sz, False)] else []) @ ys) (heap_end h)"
    "used (hdr h' (heap_end h)) = 1"
proof -
  let ?H = "hdr h" and ?n = "nxt (hdr h p)" and ?p2 = "p + 16 + sz" and ?e = "heap_end h"
  note sp = seg_split[OF s]
  have p2: "unat ?p2 = unat p + 16 + unat sz"
    using unat_plus16[OF sp(6)] unat_plus[of "p + 16" sz] r(1) u32_lt[of ?n] by simp
  have hd: "hdr h' = (let n = nxt (hdr h p); p2 = p + 16 + sz in
     if splits h sz p then
       (let H = (hdr h)(p2 := \<lparr>magic = HEAP_MAGIC, used = 0, nxt = n, prv = p\<rparr>);
            H = H(p := (H p)\<lparr>nxt := p2, used := 1\<rparr>);
            H = (if nxt (H p2) \<noteq> heap_end h then H(nxt (H p2) := (H (nxt (H p2)))\<lparr>prv := p2\<rparr>) else H)
        in H(p := (H p)\<lparr>magic := HEAP_MAGIC\<rparr>))
     else (hdr h)(p := (hdr h p)\<lparr>used := 1, magic := HEAP_MAGIC\<rparr>))"
    unfolding h'_def using malloc_take_hdr[OF sp(6) r(2) e] .
  have xs: "q \<notin> fst ` set xs" if "unat p \<le> unat q" for q using seg_not_in[OF sp(1)] that by auto
  have ys: "q \<notin> fst ` set ys" if "unat q < unat ?n" for q using seg_not_in[OF sp(7)] that by auto
  have pn: "p \<noteq> ?n" "p \<noteq> ?e" using sp(6,8) by auto
  show "seg (hdr h') 0 0 (xs @ (p, True) # (if splits h sz p then [(p + 16 + sz, False)] else []) @ ys) ?e"
  proof (cases "splits h sz p")
    case False
    then show ?thesis using hd sp ys[of p] xs[of p] r(1,4) by (auto simp: seg_append)
  next
    case True
    then have n: "unat ?p2 + 32 \<le> unat ?n" using p2 by (simp add: splits_def)
    have ne: "?p2 \<noteq> p" "?p2 \<noteq> ?n" "?n \<noteq> p"
      using p2 n pn(1) by (metis add.assoc le_add1 add_le_same_cancel1 not_one_le_zero zero_neq_numeral le_zero_eq,
        metis add_le_same_cancel1 le_zero_eq zero_neq_numeral, metis)
    have d: "8 dvd unat ?p2" using p2 sp(5) r(3) by simp
    show ?thesis
    proof (cases "?n = ?e")
      case True
      then have "ys = []" using sp(7) seg_range[OF sp(7)] by (cases ys) fastforce+
      then show ?thesis using hd \<open>splits h sz p\<close> True sp(1-6) ne n p2 d r(4) xs[of p] xs[of ?p2] by (simp add: seg_append Let_def)
    next
      case False
      let ?H1 = "?H(?n := (?H ?n)\<lparr>prv := ?p2\<rparr>)"
      have y: "seg ?H1 ?p2 ?n ys ?e" by (rule seg_relink[OF sp(7)])
      have out: "p \<notin> fst ` set ys" "?p2 \<notin> fst ` set ys" using ys n sp(6) by auto
      have "hdr h' q = ?H1 q" if "q \<in> fst ` set ys" for q
      proof -
        have "q \<noteq> p" "q \<noteq> ?p2" using that out by blast+
        then show ?thesis using hd \<open>splits h sz p\<close> False ne by (simp add: Let_def)
      qed
      then have y': "seg (hdr h') ?p2 ?n ys ?e" using y seg_cong[of ys "hdr h'" ?H1] by simp
      have "seg (hdr h') 0 0 xs p"
        using sp(1) hd \<open>splits h sz p\<close> False ne xs[of p] xs[of ?p2] xs[of ?n] p2 sp(6) by (simp add: Let_def)
      moreover have "hdr h' p = (?H p)\<lparr>nxt := ?p2, used := 1, magic := HEAP_MAGIC\<rparr>"
          "hdr h' ?p2 = \<lparr>magic = HEAP_MAGIC, used = 0, nxt = ?n, prv = p\<rparr>"
        using hd \<open>splits h sz p\<close> False ne by (simp_all add: Let_def)
      ultimately show ?thesis using \<open>splits h sz p\<close> sp(1-6) n p2 d r(4) y' by (simp add: seg_append)
    qed
  qed
  have "?p2 \<noteq> ?e" if "splits h sz p" using that p2 sp(8) by (auto simp: splits_def)
  then show "used (hdr h' ?e) = 1" using hd pn u by (cases "splits h sz p") (auto simp: Let_def)
qed

section \<open>Allocation\<close>

text \<open>The size a request is rounded to, and the block list after the block at \<open>p\<close> is taken.\<close>

definition want :: "u32 \<Rightarrow> u32" where
  "want n = (if RT_ALIGN n < 16 then 16 else RT_ALIGN n)"

definition after_take :: "heap \<Rightarrow> u32 \<Rightarrow> block list \<Rightarrow> u32 \<Rightarrow> block list \<Rightarrow> block list" where
  "after_take h sz xs p ys = xs @ (p, True) # (if splits h sz p then [(p + 16 + sz, False)] else []) @ ys"

lemma seg_from_first_free:
  assumes "seg H pv p bs e"
  shows "\<exists>us vs pv'. bs = us @ vs \<and> (\<forall>b\<in>set us. snd b) \<and> seg H pv' (first_free bs e) vs e"
  using assms
proof (induction bs arbitrary: pv p)
  case (Cons b bs)
  show ?case
  proof (cases "snd b")
    case False
    then have "first_free (b # bs) e = p" using Cons.prems by (cases b) auto
    then show ?thesis using Cons.prems by (intro exI[of _ "[]"] exI[of _ "b # bs"]) auto
  next
    case True
    from Cons.prems have "seg H p (nxt (H p)) bs e" by simp
    from Cons.IH[OF this] obtain us vs pv' where
      "bs = us @ vs" "\<forall>b\<in>set us. snd b" "seg H pv' (first_free bs e) vs e" by blast
    then show ?thesis using True by (intro exI[of _ "b # us"] exI[of _ vs] exI[of _ pv']) (cases b, auto)
  qed
qed auto

lemma seg_distinct: "seg H pv p bs e \<Longrightarrow> distinct (map fst bs)"
proof (induction bs arbitrary: pv p)
  case (Cons b bs)
  then have "fst b \<notin> fst ` set bs" by (intro seg_not_in[of H p "nxt (H p)" bs e]) auto
  then show ?case using Cons by auto
qed simp

lemma first_free_here:
  assumes "seg H pv p (xs @ (q, False) # ys) e"
  shows "first_free (xs @ (q, False) # ys) e = q \<longleftrightarrow> (\<forall>b\<in>set xs. snd b)"
proof
  assume q: "first_free (xs @ (q, False) # ys) e = q"
  show "\<forall>b\<in>set xs. snd b"
  proof (rule ccontr)
    assume n: "\<not> (\<forall>b\<in>set xs. snd b)"
    have f: "first_free xs e = q" using q unfolding first_free_append if_not_P[OF n] .
    have "q \<notin> fst ` set xs" using seg_distinct[OF assms] by auto
    then have "q = e" using first_free_cases[of xs e] f by force
    then show False using seg_range[OF assms, of "(q, False)"] by simp
  qed
qed (simp add: first_free_append)

lemma merged_take: "merged (xs @ (p, False) # ys) \<Longrightarrow> merged (after_take h sz xs p ys)"
  unfolding merged_def after_take_def by (cases ys) (auto simp: successively_append_iff)

lemma first_free_take:
  "first_free (after_take h sz xs p ys) e =
    (if \<forall>b\<in>set xs. snd b then first_free ((if splits h sz p then [(p + 16 + sz, False)] else []) @ ys) e
     else first_free xs e)"
  by (simp add: after_take_def first_free_append)

lemma heap_ok_sem [simp]: "heap_ok (h\<lparr>heap_sem := s\<rparr>) bs = heap_ok h bs"
  by (simp add: heap_ok_def)

lemma fits_sem [simp]: "fits (h\<lparr>heap_sem := s\<rparr>) = fits h" "splits (h\<lparr>heap_sem := s\<rparr>) = splits h"
    "after_take (h\<lparr>heap_sem := s\<rparr>) = after_take h"
  by (simp_all add: fits_def splits_def after_take_def fun_eq_iff)

lemma heap_addr:
  assumes "heap_ok h bs" "unat q \<le> unat (heap_end h)"
  shows "unat (heap_ptr h + q) = unat (heap_ptr h) + unat q" "unat (heap_ptr h) + unat q + 16 < 4294967296"
proof -
  show "unat (heap_ptr h) + unat q + 16 < 4294967296" using heap_okD(6,9)[OF assms(1)] assms(2) by simp
  then show "unat (heap_ptr h + q) = unat (heap_ptr h) + unat q" by (intro unat_plus) simp
qed

lemma malloc_found_eq:
  assumes ok: "heap_ok h (xs @ (p, False) # ys)" and f: "fits h sz (p, False)"
    and sz: "8 dvd unat sz" "unat sz \<le> unat (mem_size_aligned h)" "0 < unat sz"
  shows "\<exists>h'. malloc_found sz p h = Some (Inr (heap_ptr h + p + 16, sem_release h')) \<and>
    heap_ok h' (after_take h sz xs p ys) \<and> heap_sem h' = heap_sem h \<and> bytes h' = bytes h \<and> heap_ptr h' = heap_ptr h \<and> mem_size_aligned h' = mem_size_aligned h"
proof -
  let ?t = "malloc_take sz p h" and ?bs = "after_take h sz xs p ys" and ?e = "heap_end h"
  note okd = heap_okD[OF ok] and fr = malloc_take_frame[of sz p h]
  have r: "unat p + 16 + unat sz \<le> unat (nxt (hdr h p))" using f by (simp add: fits_def)
  have s32: "unat sz + 32 < 4294967296" using sz(2) okd(6) by simp
  have t: "seg (hdr ?t) 0 0 ?bs ?e" "used (hdr ?t ?e) = 1"
    using malloc_take_seg[OF okd(1,2) r s32 sz(1,3) okd(3)] by (simp_all add: after_take_def)
  have pe: "unat p + 16 + unat sz \<le> unat ?e" using r seg_split(8)[OF okd(1)] by simp
  have here: "p = lfree h \<longleftrightarrow> (\<forall>b\<in>set xs. snd b)" using first_free_here[OF okd(1)] okd(5) by auto
  obtain pv where walk: "seg (hdr ?t) pv p ((p, True) # (if splits h sz p then [(p + 16 + sz, False)] else []) @ ys) ?e"
    using t(1) unfolding after_take_def seg_append by auto
  define l where "l = first_free ?bs ?e"
  have l: "(if p = lfree ?t then lfree_walk (lfree ?t) ?t else Some (lfree ?t)) = Some l"
    using lfree_walk_eq[of ?t, unfolded fr, OF walk] here okd(5)
    by (auto simp: fr l_def first_free_take first_free_append)
  have lu: "l = ?e \<or> used (hdr ?t l) = 0"
  proof (cases "l = ?e")
    case False
    then have "(l, False) \<in> set ?bs" using first_free_cases[of ?bs ?e] by (simp add: l_def)
    then obtain us vs where "?bs = us @ (l, False) # vs" by (meson split_list)
    then show ?thesis using seg_split(3)[of "hdr ?t" 0 0 us l False vs ?e] t(1) by simp
  qed simp
  have ad: "unat (heap_ptr h + q) = unat (heap_ptr h) + unat q" if "unat q \<le> unat ?e" for q
    using heap_addr(1)[OF ok that] .
  have q: "unat (p + 16) = unat p + 16" "unat (p + 16 + sz) = unat p + 16 + unat sz"
    using pe unat_plus16[of p ?e] unat_plus[of "p + 16" sz] u32_lt[of ?e] by simp_all
  have d: "8 dvd unat p" by (rule seg_split(5)[OF okd(1)])
  have a1: "heap_ptr h + p + 16 + sz \<le> heap_ptr h + ?e"
    using ad[of "p + 16 + sz"] ad[of ?e] q pe by (simp add: word_le_nat_alt add.assoc)
  have a2: "(heap_ptr h + p + 16) mod 8 = 0"
    using ad[of "p + 16"] q pe d okd(7) by (simp add: word_unat_eq_iff unat_mod add.assoc mod_eq_0_iff_dvd)
  have a3: "(heap_ptr h + p) AND 7 = 0" using ad[of p] pe d okd(7) by (simp add: and_7_iff)
  have "heap_ok (?t\<lparr>lfree := l\<rparr>) ?bs"
    using okd t merged_take[OF okd(4)] by (simp add: heap_ok_def fr l_def)
  moreover have "malloc_found sz p h = Some (Inr (heap_ptr h + p + 16, sem_release (?t\<lparr>lfree := l\<rparr>)))"
    using l lu a1 a2 a3 by (auto simp: malloc_found_def Let_def fr SIZEOF_STRUCT_MEM_def)
  ultimately show ?thesis by (intro exI[of _ "?t\<lparr>lfree := l\<rparr>"]) (simp add: fr)
qed

lemma want_bounds:
  assumes "heap_ok h bs" "16 \<le> unat (mem_size_aligned h)" "unat n \<le> unat (mem_size_aligned h)"
  shows "unat (want n) = max 16 (8 * ((unat n + 7) div 8))" "8 dvd unat (want n)" "unat (want n) \<le> unat (mem_size_aligned h)"
    "unat n \<le> unat (want n)" "RT_ALIGN n \<le> mem_size_aligned h"
proof -
  note okd = heap_okD[OF assms(1)]
  have a: "unat (RT_ALIGN n) = 8 * ((unat n + 7) div 8)" using okd(6) assms(3) by (intro unat_align) simp
  then show w: "unat (want n) = max 16 (8 * ((unat n + 7) div 8))" by (simp add: want_def word_less_nat_alt)
  then show "8 dvd unat (want n)" by (simp add: max_def)
  have "8 * ((unat n + 7) div 8) \<le> unat (mem_size_aligned h)" using assms(3) okd(8) by (auto elim!: dvdE)
  then show "unat (want n) \<le> unat (mem_size_aligned h)" "RT_ALIGN n \<le> mem_size_aligned h"
    using w a assms(2) by (simp_all add: word_le_nat_alt)
  show "unat n \<le> unat (want n)" using w by linarith
qed

lemma malloc_eq:
  assumes ok: "heap_ok h bs" "16 \<le> unat (mem_size_aligned h)" and n: "0 < n" "unat n \<le> unat (mem_size_aligned h)"
    and s: "0 < heap_sem h"
  shows "malloc n h = (case find (fits h (want n)) bs of
      Some b \<Rightarrow> malloc_found (want n) (fst b) (h\<lparr>heap_sem := heap_sem h - 1\<rparr>) | None \<Rightarrow> Some (Inr (0, h)))"
proof -
  let ?h = "h\<lparr>heap_sem := heap_sem h - 1\<rparr>" and ?sz = "want n"
  note okd = heap_okD[OF ok(1)] and w = want_bounds[OF ok n(2)]
  obtain us vs pv where u: "bs = us @ vs" "\<forall>b\<in>set us. snd b" "seg (hdr h) pv (lfree h) vs (heap_end h)"
    using seg_from_first_free[OF okd(1)] okd(5) by metis
  have "malloc n h = malloc_loop ?sz (lfree h) ?h"
    using s n(1) w(5) by (auto simp: malloc_def sem_take_def Let_def want_def MIN_SIZE_ALIGNED_def)
  also have "\<dots> = (case find (fits h ?sz) vs of
      Some b \<Rightarrow> malloc_found ?sz (fst b) ?h | None \<Rightarrow> Some (Inr (0, sem_release ?h)))"
    using malloc_loop_eq[of ?h pv "lfree h" vs ?sz] u(3) okd(9) w(3) by simp
  also have "find (fits h ?sz) vs = find (fits h ?sz) bs"
    using u(1,2) by (induction us arbitrary: bs) (auto simp: fits_def)
  also have "sem_release ?h = h" using okd(10) by (simp add: sem_release_def)
  finally show ?thesis .
qed

lemma malloc_none:
  assumes "heap_ok h bs" "16 \<le> unat (mem_size_aligned h)" "0 < n" "unat n \<le> unat (mem_size_aligned h)" "0 < heap_sem h"
    and "\<forall>b\<in>set bs. \<not> fits h (want n) b"
  shows "malloc n h = Some (Inr (0, h))"
proof -
  have "find (fits h (want n)) bs = None" using assms(6) unfolding find_None_iff by blast
  then show ?thesis using malloc_eq[OF assms(1-5)] by simp
qed

lemma malloc_some:
  assumes "heap_ok h (xs @ (p, False) # ys)" "16 \<le> unat (mem_size_aligned h)" "0 < n" "unat n \<le> unat (mem_size_aligned h)"
    "0 < heap_sem h" and "\<forall>b\<in>set xs. \<not> fits h (want n) b" "fits h (want n) (p, False)"
  shows "\<exists>h'. malloc n h = Some (Inr (heap_ptr h + p + 16, h')) \<and> heap_ok h' (after_take h (want n) xs p ys) \<and>
    heap_sem h' = heap_sem h \<and> bytes h' = bytes h \<and> heap_ptr h' = heap_ptr h \<and> mem_size_aligned h' = mem_size_aligned h"
proof -
  let ?h = "h\<lparr>heap_sem := heap_sem h - 1\<rparr>"
  have "find (fits h (want n)) (xs @ (p, False) # ys) = Some (p, False)"
    using assms(6,7) by (induction xs) auto
  then have m: "malloc n h = malloc_found (want n) p ?h" using malloc_eq[OF assms(1-5)] by simp
  have "\<exists>h'. malloc_found (want n) p ?h = Some (Inr (heap_ptr ?h + p + 16, sem_release h')) \<and>
    heap_ok h' (after_take ?h (want n) xs p ys) \<and> heap_sem h' = heap_sem ?h \<and> bytes h' = bytes ?h \<and> heap_ptr h' = heap_ptr ?h \<and> mem_size_aligned h' = mem_size_aligned ?h"
    by (rule malloc_found_eq) (use assms(1,7) want_bounds[OF assms(1,2,4)] in simp_all)
  then obtain h' where h': "malloc_found (want n) p ?h = Some (Inr (heap_ptr h + p + 16, sem_release h'))"
    "heap_ok h' (after_take h (want n) xs p ys)" "heap_sem h' = heap_sem h - 1" "bytes h' = bytes h" "heap_ptr h' = heap_ptr h"
    "mem_size_aligned h' = mem_size_aligned h"
    by auto
  then show ?thesis unfolding m using heap_okD(10)[OF h'(2)] by (intro exI[of _ "sem_release h'"]) (simp add: sem_release_def)
qed

section \<open>Release\<close>

text \<open>Two neighbours become one block: both steps of \<^const>\<open>plug_holes\<close>.\<close>

definition join_hdr :: "u32 \<Rightarrow> u32 \<Rightarrow> (u32 \<Rightarrow> heap_mem) \<Rightarrow> u32 \<Rightarrow> heap_mem" where
  "join_hdr a b H = (let H' = H(a := (H a)\<lparr>nxt := nxt (H b)\<rparr>) in H'(nxt (H b) := (H' (nxt (H b)))\<lparr>prv := a\<rparr>))"

lemma seg_join:
  assumes s: "seg H pv p (xs @ (a, u) # (b, v) # ys) e"
  shows "seg (join_hdr a b H) pv p (xs @ (a, u) # ys) e" "used (join_hdr a b H e) = used (H e)"
    "q \<noteq> nxt (H b) \<Longrightarrow> q \<noteq> a \<Longrightarrow> join_hdr a b H q = H q"
proof -
  note sa = seg_split[OF s] and sb = seg_split(1-8)[of H pv p "xs @ [(a, u)]" b v ys e, simplified, OF s]
  let ?n = "nxt (H b)"
  have na: "nxt (H a) = b" using sa(7) by auto
  have lt: "unat a < unat b" "unat b < unat ?n" using sa(6) na sb(6) by auto
  have ne: "a \<noteq> ?n" using lt by auto
  have "seg (H(?n := (H ?n)\<lparr>prv := a\<rparr>)) a ?n ys e" by (rule seg_relink[OF sb(7)])
  moreover have "a \<notin> fst ` set ys" using lt by (intro seg_not_in[OF sb(7)]) auto
  ultimately have y: "seg (join_hdr a b H) a ?n ys e"
    using ne by (subst seg_cong[of ys _ "H(?n := (H ?n)\<lparr>prv := a\<rparr>)"]) (auto simp: join_hdr_def Let_def)
  have "?n \<notin> fst ` set xs" "a \<notin> fst ` set xs" using lt by (auto intro!: seg_not_in[OF sa(1)])
  then have x: "seg (join_hdr a b H) pv p xs a" using sa(1) by (auto simp: join_hdr_def Let_def)
  have "join_hdr a b H a = (H a)\<lparr>nxt := ?n\<rparr>" using ne by (simp add: join_hdr_def Let_def)
  then show "seg (join_hdr a b H) pv p (xs @ (a, u) # ys) e"
    using x y sa(2-5) sa(6) na lt sb(6) by (auto simp: seg_append)
  show "used (join_hdr a b H e) = used (H e)" by (simp add: join_hdr_def Let_def)
  show "q \<noteq> nxt (H b) \<Longrightarrow> q \<noteq> a \<Longrightarrow> join_hdr a b H q = H q" by (simp add: join_hdr_def Let_def)
qed

text \<open>The block list after the block at \<open>p\<close>, between \<open>xs\<close> and \<open>ys\<close>, is given back.\<close>

fun drop_free :: "block list \<Rightarrow> block list" where
  "drop_free ((q, False) # ys) = ys"
| "drop_free ys = ys"

definition after_free :: "block list \<Rightarrow> u32 \<Rightarrow> block list \<Rightarrow> block list" where
  "after_free xs p ys = (if xs \<noteq> [] \<and> \<not> snd (last xs) then xs else xs @ [(p, False)]) @ drop_free ys"

lemma merged_free:
  assumes "merged (xs @ (p, True) # ys)" shows "merged (after_free xs p ys)"
proof -
  have y: "successively (\<lambda>a b. snd a \<or> snd b) ys" and x: "successively (\<lambda>a b. snd a \<or> snd b) xs"
    using assms by (auto simp: merged_def successively_append_iff successively_Cons)
  have "successively (\<lambda>a b. snd a \<or> snd b) (drop_free ys) \<and> (drop_free ys \<noteq> [] \<longrightarrow> snd (hd (drop_free ys)))"
    using y by (cases ys rule: drop_free.cases) (auto simp: successively_Cons)
  then show ?thesis using x by (auto simp: merged_def after_free_def successively_append_iff successively_Cons)
qed

lemma first_free_after_free:
  "first_free (after_free xs p ys) e = (if \<forall>b\<in>set xs. snd b then p else first_free xs e)"
proof (cases "xs \<noteq> [] \<and> \<not> snd (last xs)")
  case True
  then have "\<not> (\<forall>b\<in>set xs. snd b)" using last_in_set by blast
  then show ?thesis using True unfolding after_free_def first_free_append by (simp only: if_True if_False simp_thms)
next
  case False
  then have "after_free xs p ys = xs @ (p, False) # drop_free ys" by (auto simp: after_free_def)
  then show ?thesis by (simp only: first_free_append first_free_simps)
qed

text \<open>\<^const>\<open>plug_holes\<close> as its two joins.\<close>

definition join :: "u32 \<Rightarrow> u32 \<Rightarrow> heap \<Rightarrow> heap" where
  "join a b h = h\<lparr>hdr := join_hdr a b (hdr h), lfree := (if lfree h = b then a else lfree h)\<rparr>"

definition plug_next :: "u32 \<Rightarrow> heap \<Rightarrow> heap" where
  "plug_next p h = (let n = nxt (hdr h p) in if p \<noteq> n \<and> used (hdr h n) = 0 \<and> n \<noteq> heap_end h then join p n h else h)"

definition plug_prev :: "u32 \<Rightarrow> heap \<Rightarrow> heap" where
  "plug_prev p h = (let q = prv (hdr h p) in if q \<noteq> p \<and> used (hdr h q) = 0 then join q p h else h)"

lemma join_eq:
  "(let h = (if lfree h = b then h\<lparr>lfree := a\<rparr> else h);
        h = upd_hdr a (\<lambda>m. m\<lparr>nxt := nxt (hdr h b)\<rparr>) h
    in upd_hdr (nxt (hdr h b)) (\<lambda>m. m\<lparr>prv := a\<rparr>) h) = join a b h"
  by (simp add: join_def join_hdr_def upd_hdr_def Let_def)

lemma plug_holes_joins:
  assumes "p < heap_end h" "used (hdr h p) = 0"
  shows "plug_holes p h = Inr (plug_prev p (plug_next p h))"
  using assms unfolding plug_holes_def join_eq plug_next_def plug_prev_def by (simp add: Let_def)

lemma join_frame [simp]:
  "bytes (join a b h) = bytes h" "heap_ptr (join a b h) = heap_ptr h" "heap_end (join a b h) = heap_end h"
  "mem_size_aligned (join a b h) = mem_size_aligned h" "heap_sem (join a b h) = heap_sem h" "heap_waiting (join a b h) = heap_waiting h"
  "used_mem (join a b h) = used_mem h"
  by (simp_all add: join_def)

lemma plug_frame [simp]:
  "bytes (plug_next p h) = bytes h" "heap_ptr (plug_next p h) = heap_ptr h" "heap_end (plug_next p h) = heap_end h"
  "mem_size_aligned (plug_next p h) = mem_size_aligned h" "heap_sem (plug_next p h) = heap_sem h" "heap_waiting (plug_next p h) = heap_waiting h"
  "bytes (plug_prev p h) = bytes h" "heap_ptr (plug_prev p h) = heap_ptr h" "heap_end (plug_prev p h) = heap_end h"
  "mem_size_aligned (plug_prev p h) = mem_size_aligned h" "heap_sem (plug_prev p h) = heap_sem h" "heap_waiting (plug_prev p h) = heap_waiting h"
  by (simp_all add: plug_next_def plug_prev_def Let_def)

lemma plug_next_seg:
  assumes s: "seg (hdr h) 0 0 (xs @ (p, False) # ys) (heap_end h)" and u: "used (hdr h (heap_end h)) = 1"
  shows "seg (hdr (plug_next p h)) 0 0 (xs @ (p, False) # drop_free ys) (heap_end h)"
    "used (hdr (plug_next p h) (heap_end h)) = 1" "lfree h \<le> p \<Longrightarrow> lfree (plug_next p h) = lfree h"
proof -
  note sp = seg_split[OF s]
  have pn: "p \<noteq> nxt (hdr h p)" using sp(6) by auto
  consider (free) q zs where "ys = (q, False) # zs" | (busy) q zs where "ys = (q, True) # zs" | (none) "ys = []"
    by (cases ys rule: drop_free.cases) auto
  then have "seg (hdr (plug_next p h)) 0 0 (xs @ (p, False) # drop_free ys) (heap_end h) \<and>
    used (hdr (plug_next p h) (heap_end h)) = 1 \<and> (lfree h \<le> p \<longrightarrow> lfree (plug_next p h) = lfree h)"
  proof cases
    case (free q zs)
    have q: "nxt (hdr h p) = q" "used (hdr h q) = 0" "q \<noteq> heap_end h"
      using sp(7) free seg_range[OF sp(7), of "(q, False)"] by auto
    have "plug_next p h = join p q h" using q pn by (simp add: plug_next_def)
    moreover have "\<not> q \<le> p" using q(1) sp(6) by (simp add: word_le_nat_alt)
    ultimately show ?thesis using seg_join(1,2)[of "hdr h" 0 0 xs p False q False zs] s u free
      by (auto simp: join_def)
  next
    case (busy q zs)
    then have "used (hdr h (nxt (hdr h p))) = 1" using sp(7) by auto
    then have "plug_next p h = h" by (simp add: plug_next_def)
    then show ?thesis using s u busy by simp
  next
    case none
    then have "nxt (hdr h p) = heap_end h" using sp(7) by auto
    then have "plug_next p h = h" by (simp add: plug_next_def)
    then show ?thesis using s u none by simp
  qed
  then show "seg (hdr (plug_next p h)) 0 0 (xs @ (p, False) # drop_free ys) (heap_end h)"
    "used (hdr (plug_next p h) (heap_end h)) = 1" "lfree h \<le> p \<Longrightarrow> lfree (plug_next p h) = lfree h" by simp_all
qed

lemma plug_prev_seg:
  assumes s: "seg (hdr h) 0 0 (xs @ (p, False) # ys) (heap_end h)" and u: "used (hdr h (heap_end h)) = 1"
  shows "seg (hdr (plug_prev p h)) 0 0 ((if xs \<noteq> [] \<and> \<not> snd (last xs) then xs else xs @ [(p, False)]) @ ys) (heap_end h)"
    "used (hdr (plug_prev p h) (heap_end h)) = 1"
    "lfree (plug_prev p h) = (if xs \<noteq> [] \<and> \<not> snd (last xs) \<and> lfree h = p then fst (last xs) else lfree h)"
proof -
  note sp = seg_split[OF s]
  have *: "seg (hdr (plug_prev p h)) 0 0 ((if xs \<noteq> [] \<and> \<not> snd (last xs) then xs else xs @ [(p, False)]) @ ys) (heap_end h) \<and>
    used (hdr (plug_prev p h) (heap_end h)) = 1 \<and>
    lfree (plug_prev p h) = (if xs \<noteq> [] \<and> \<not> snd (last xs) \<and> lfree h = p then fst (last xs) else lfree h)"
  proof (cases xs rule: rev_cases)
    case Nil
    then have "p = 0" "prv (hdr h p) = 0" using s by auto
    then have "plug_prev p h = h" by (simp add: plug_prev_def)
    then show ?thesis using s u Nil by simp
  next
    case (snoc as b)
    obtain q v where b: "b = (q, v)" by (cases b)
    have q: "prv (hdr h p) = q" "q \<noteq> p" using sp(4) snoc b seg_before[OF sp(1), of b] by auto
    have v: "used (hdr h q) = of_bool v" using seg_split(3)[of "hdr h" 0 0 as q v] sp(1) snoc b by simp
    show ?thesis
    proof (cases v)
      case True
      then have "plug_prev p h = h" using q v by (simp add: plug_prev_def)
      then show ?thesis using s u snoc b True by simp
    next
      case False
      then have "plug_prev p h = join q p h" using q v by (simp add: plug_prev_def)
      then show ?thesis using seg_join(1,2)[of "hdr h" 0 0 as q False p False ys] s u snoc b False
        by (simp add: join_def)
    qed
  qed
  then show "seg (hdr (plug_prev p h)) 0 0 ((if xs \<noteq> [] \<and> \<not> snd (last xs) then xs else xs @ [(p, False)]) @ ys) (heap_end h)"
    "used (hdr (plug_prev p h) (heap_end h)) = 1"
    "lfree (plug_prev p h) = (if xs \<noteq> [] \<and> \<not> snd (last xs) \<and> lfree h = p then fst (last xs) else lfree h)" by simp_all
qed

lemma seg_mark_free:
  assumes s: "seg H pv p (xs @ (q, u) # ys) e"
  shows "seg (H(q := (H q)\<lparr>used := 0, magic := HEAP_MAGIC\<rparr>)) pv p (xs @ (q, False) # ys) e"
proof -
  note sp = seg_split[OF s]
  have "q \<notin> fst ` set xs" using seg_not_in[OF sp(1)] by auto
  moreover have "q \<notin> fst ` set ys" using seg_not_in[OF sp(7)] sp(6) by auto
  ultimately show ?thesis using sp by (auto simp: seg_append)
qed

lemma block_addr:
  assumes ok: "heap_ok h (xs @ (p, True) # ys)"
  shows "unat (heap_ptr h + p + 16) = unat (heap_ptr h) + unat p + 16" "(heap_ptr h + p + 16) AND 7 = 0"
    "heap_ptr h + p + 16 \<noteq> 0" "heap_ptr h \<le> heap_ptr h + p + 16" "heap_ptr h + p + 16 < heap_ptr h + heap_end h"
    "p < heap_end h"
proof -
  note okd = heap_okD[OF ok] and sp = seg_split[OF heap_okD(1)[OF ok]]
  have b: "unat p + 16 < unat (heap_end h)" using sp(8,9) by simp
  show u: "unat (heap_ptr h + p + 16) = unat (heap_ptr h) + unat p + 16"
    using heap_addr(1)[OF ok, of "p + 16"] unat_plus16[of p "heap_end h"] b by (simp add: add.assoc)
  show "(heap_ptr h + p + 16) AND 7 = 0" unfolding and_7_iff u using okd(7) sp(5) by simp
  show "heap_ptr h + p + 16 \<noteq> 0" using u by (intro notI) simp
  show "heap_ptr h \<le> heap_ptr h + p + 16" "heap_ptr h + p + 16 < heap_ptr h + heap_end h" "p < heap_end h"
    using u heap_addr(1)[OF ok, of "heap_end h"] b by (simp_all add: word_le_nat_alt word_less_nat_alt)
qed

lemma first_free_in: "\<not> (\<forall>b\<in>set xs. snd b) \<Longrightarrow> first_free xs e \<in> fst ` set xs"
  by (induction xs) (auto simp: first_free_def)

text \<open>The lowest free block when the block at \<open>p\<close> is marked free, and when it joins the one before it.\<close>

lemma lowest_free:
  assumes ok: "heap_ok h (xs @ (p, True) # ys)"
  shows "(if p < lfree h then p else lfree h) = (if \<forall>b\<in>set xs. snd b then p else first_free xs (heap_end h))"
proof (cases "\<forall>b\<in>set xs. snd b")
  case True
  note sp = seg_split[OF heap_okD(1)[OF ok]]
  have "lfree h = first_free ys (heap_end h)" using heap_okD(5)[OF ok] True by (simp add: first_free_append)
  then have "lfree h = heap_end h \<or> (lfree h, False) \<in> set ys" using first_free_cases[of ys "heap_end h"] by metis
  then have "p < lfree h"
    using block_addr(6)[OF ok] seg_range[OF sp(7), of "(lfree h, False)"] sp(6) by (auto simp: word_less_nat_alt)
  then show ?thesis using True by simp
next
  case False
  note sp = seg_split[OF heap_okD(1)[OF ok]]
  have l: "lfree h = first_free xs (heap_end h)"
    using heap_okD(5)[OF ok] unfolding first_free_append if_not_P[OF False] by simp
  then have "unat (lfree h) < unat p" using seg_before[OF sp(1)] first_free_in[OF False, of "heap_end h"] by auto
  then show ?thesis using l by (simp add: word_less_nat_alt if_not_P[OF False])
qed

lemma lowest_joined:
  assumes "seg H pv a xs p"
  shows "(if xs \<noteq> [] \<and> \<not> snd (last xs) \<and> (if \<forall>b\<in>set xs. snd b then p else first_free xs e) = p then fst (last xs)
    else if \<forall>b\<in>set xs. snd b then p else first_free xs e) = (if \<forall>b\<in>set xs. snd b then p else first_free xs e)"
proof (cases "xs \<noteq> [] \<and> \<not> snd (last xs)")
  case True
  then have f: "\<not> (\<forall>b\<in>set xs. snd b)" using last_in_set by blast
  have "unat (first_free xs e) < unat p" using first_free_in[OF f, of e] seg_before[OF assms] by auto
  then show ?thesis unfolding if_not_P[OF f] by auto
qed auto

lemma plug_used:
  "used (hdr (plug_next p h) q) = used (hdr h q)" "used (hdr (plug_prev p h) q) = used (hdr h q)"
  by (simp_all add: plug_next_def plug_prev_def join_def join_hdr_def Let_def)

lemma free_eq:
  assumes ok: "heap_ok h (xs @ (p, True) # ys)" and s: "0 < heap_sem h"
  shows "\<exists>h'. free (heap_ptr h + p + 16) h = Inr h' \<and> heap_ok h' (after_free xs p ys) \<and>
    heap_sem h' = heap_sem h \<and> bytes h' = bytes h \<and> heap_ptr h' = heap_ptr h \<and> mem_size_aligned h' = mem_size_aligned h \<and>
    used (hdr h' p) = 0"
proof -
  note okd = heap_okD[OF ok] and sp = seg_split[OF heap_okD(1)[OF ok]] and ad = block_addr[OF ok]
  let ?e = "heap_end h"
  define h1 where "h1 = (let h = h\<lparr>heap_sem := heap_sem h - 1\<rparr>;
    h = upd_hdr p (\<lambda>m. m\<lparr>used := 0, magic := HEAP_MAGIC\<rparr>) h;
    h = (if p < lfree h then h\<lparr>lfree := p\<rparr> else h)
    in h\<lparr>used_mem := used_mem h - (nxt (hdr h p) - p)\<rparr>)"
  have h1: "hdr h1 = (hdr h)(p := (hdr h p)\<lparr>used := 0, magic := HEAP_MAGIC\<rparr>)" "heap_end h1 = ?e" "heap_ptr h1 = heap_ptr h"
    "heap_sem h1 = heap_sem h - 1" "heap_waiting h1 = heap_waiting h" "bytes h1 = bytes h" "mem_size_aligned h1 = mem_size_aligned h"
    "lfree h1 = (if p < lfree h then p else lfree h)" by (simp_all add: h1_def Let_def)
  have "p \<noteq> ?e" using ad(6) by auto
  then have u1: "used (hdr h1 (heap_end h1)) = 1" using okd(3) by (simp add: h1)
  have s1: "seg (hdr h1) 0 0 (xs @ (p, False) # ys) (heap_end h1)" unfolding h1 by (rule seg_mark_free[OF okd(1)])
  have l1: "lfree h1 = (if \<forall>b\<in>set xs. snd b then p else first_free xs ?e)"
    using lowest_free[OF ok] by (simp add: h1)
  note n = plug_next_seg[OF s1 u1]
  let ?h2 = "plug_next p h1" let ?h3 = "plug_prev p ?h2"
  have "lfree h1 \<le> p" by (simp add: h1 word_less_nat_alt word_le_nat_alt)
  then have l2: "lfree ?h2 = lfree h1" by (rule n(3))
  have "seg (hdr ?h2) 0 0 (xs @ (p, False) # drop_free ys) (heap_end ?h2)" "used (hdr ?h2 (heap_end ?h2)) = 1"
    using n(1,2) by simp_all
  note q = plug_prev_seg[OF this]
  have l3: "lfree ?h3 = first_free (after_free xs p ys) ?e"
    using q(3) l1 l2 lowest_joined[OF sp(1), of ?e] unfolding first_free_after_free by auto
  have "heap_ok ?h3 (after_free xs p ys)"
    using q(1,2) l3 okd merged_free[OF okd(4)] by (simp add: heap_ok_def h1 after_free_def)
  moreover have "plug_holes p h1 = Inr ?h3" using ad(6) by (intro plug_holes_joins) (simp_all add: h1)
  then have "free (heap_ptr h + p + 16) h = Inr (sem_release ?h3)"
    using s ad sp(2,3) by (simp add: free_def sem_take_def SIZEOF_STRUCT_MEM_def h1_def Let_def)
  ultimately show ?thesis using okd(10) by (intro exI[of _ "sem_release ?h3"]) (simp add: sem_release_def h1 plug_used)
qed

end
