(* ===== verification/Heap_Run.thy ===== *)
theory Heap_Run
  imports Heap_Inv
begin

text \<open>
  What the allocator promises its callers. \<open>allocator\<close> is the contract of \<^verbatim>\<open>malloc\<close> and \<^verbatim>\<open>free\<close>
  over the map of live regions, from address to requested size: a legal call returns, a new region
  is fresh and disjoint from the live ones, and releasing a region removes just that one. The
  contract is interpreted on the model of \<^verbatim>\<open>src/os/mem.c\<close>; the extents of the blocks in use are what
  connects the block list to the live regions.
\<close>

section \<open>Extents\<close>

fun start_of :: "block list \<Rightarrow> u32 \<Rightarrow> u32" where
  "start_of [] e = e"
| "start_of (b # bs) e = fst b"

fun extents :: "block list \<Rightarrow> u32 \<Rightarrow> (u32 \<times> u32) set" where
  "extents [] e = {}"
| "extents (b # bs) e = (if snd b then {(fst b, start_of bs e)} else {}) \<union> extents bs e"

lemma start_of_append [simp]: "start_of (xs @ ys) e = start_of xs (start_of ys e)"
  by (cases xs) auto

lemma extents_append: "extents (xs @ ys) e = extents xs (start_of ys e) \<union> extents ys e"
  by (induction xs) auto

lemma extents_last_free:
  "xs \<noteq> [] \<Longrightarrow> \<not> snd (last xs) \<Longrightarrow> extents xs e = extents xs e'"
  by (cases xs rule: rev_cases) (auto simp: extents_append)

lemma seg_start: "seg H pv p bs e \<Longrightarrow> start_of bs e = p"
  by (cases bs) auto

lemma extents_taken:
  "extents (after_take h sz xs p ys) e =
    insert (p, if splits h sz p then p + 16 + sz else start_of ys e) (extents (xs @ (p, False) # ys) e)"
  by (auto simp: after_take_def extents_append)

lemma extents_freed:
  "extents (after_free xs p ys) e = extents xs p \<union> extents ys e"
proof -
  have "extents (drop_free ys) e = extents ys e" by (cases ys rule: drop_free.cases) auto
  then show ?thesis
    using extents_last_free[of xs "start_of (drop_free ys) e" p] by (auto simp: after_free_def extents_append)
qed

lemma extents_seg: "seg H pv p bs e \<Longrightarrow> (q, n) \<in> extents bs e \<longleftrightarrow> (q, True) \<in> set bs \<and> n = nxt (H q)"
proof (induction bs arbitrary: pv p)
  case (Cons b bs)
  then have "q \<noteq> p" if "(q, True) \<in> set bs" using that seg_range[of H p "nxt (H p)" bs e "(q, True)"] by auto
  then show ?case using Cons seg_start[of H p "nxt (H p)" bs e] by (cases b) auto
qed auto

lemma extents_disjoint:
  "seg H pv p bs e \<Longrightarrow> (q, n) \<in> extents bs e \<Longrightarrow> (r, m) \<in> extents bs e \<Longrightarrow> q \<noteq> r \<Longrightarrow>
    unat n \<le> unat r \<or> unat m \<le> unat q"
proof (induction bs arbitrary: pv p)
  case (Cons b bs)
  note s = Cons.prems(1)
  have t: "seg H p (nxt (H p)) bs e" "fst b = p" "start_of bs e = nxt (H p)" using s seg_start by auto
  have later: "unat (nxt (H p)) \<le> unat a" if "(a, c) \<in> extents bs e" for a c
    using extents_seg[OF t(1), of a c] seg_range[OF t(1), of "(a, True)"] that by simp
  show ?case using Cons.IH[OF t(1)] Cons.prems(2-4) later[of q n] later[of r m] t by (auto split: if_splits)
qed auto

lemma extents_bounds:
  "seg H pv p bs e \<Longrightarrow> (q, n) \<in> extents bs e \<Longrightarrow> unat q + 16 < unat n \<and> unat n \<le> unat e \<and> 8 dvd unat q"
proof -
  assume s: "seg H pv p bs e" and q: "(q, n) \<in> extents bs e"
  then have m: "(q, True) \<in> set bs" "n = nxt (H q)" using extents_seg by blast+
  then obtain xs ys where "bs = xs @ (q, True) # ys" by (meson split_list)
  then show ?thesis using seg_split(5,8,9)[of H pv p xs q True ys e] s m(2) by simp
qed

section \<open>Live regions\<close>

definition heap_live :: "heap \<Rightarrow> (u32 \<rightharpoonup> u32) \<Rightarrow> bool" where
  "heap_live h L \<longleftrightarrow> heap_sem h = 1 \<and> 16 \<le> unat (mem_size_aligned h) \<and>
    (\<exists>bs. heap_ok h bs \<and> (\<forall>a. L a \<noteq> None \<longleftrightarrow> (\<exists>p n. (p, n) \<in> extents bs (heap_end h) \<and> a = heap_ptr h + p + 16)) \<and>
      (\<forall>p n k. (p, n) \<in> extents bs (heap_end h) \<longrightarrow> L (heap_ptr h + p + 16) = Some k \<longrightarrow> unat p + 16 + unat k \<le> unat n))"

lemma heap_liveI:
  assumes "heap_sem h = 1" "16 \<le> unat (mem_size_aligned h)" "heap_ok h bs"
    "\<And>a. L a \<noteq> None \<longleftrightarrow> (\<exists>p n. (p, n) \<in> extents bs (heap_end h) \<and> a = heap_ptr h + p + 16)"
    "\<And>p n k. (p, n) \<in> extents bs (heap_end h) \<Longrightarrow> L (heap_ptr h + p + 16) = Some k \<Longrightarrow> unat p + 16 + unat k \<le> unat n"
  shows "heap_live h L"
  using assms unfolding heap_live_def by blast

lemma heap_liveE:
  assumes "heap_live h L"
  obtains bs where "heap_sem h = 1" "16 \<le> unat (mem_size_aligned h)" "heap_ok h bs"
    "\<And>a. L a \<noteq> None \<longleftrightarrow> (\<exists>p n. (p, n) \<in> extents bs (heap_end h) \<and> a = heap_ptr h + p + 16)"
    "\<And>p n k. (p, n) \<in> extents bs (heap_end h) \<Longrightarrow> L (heap_ptr h + p + 16) = Some k \<Longrightarrow> unat p + 16 + unat k \<le> unat n"
  using assms unfolding heap_live_def by blast

lemma init_live:
  assumes "unat b \<le> 4294967288" "unat (RT_ALIGN b) + 48 \<le> unat (RT_ALIGN_DOWN e)"
  shows "heap_live (rt_system_heap_init b e h) Map.empty"
proof (rule heap_liveI)
  let ?b = "RT_ALIGN b" and ?e = "RT_ALIGN_DOWN e"
  show "heap_ok (rt_system_heap_init b e h) [(0, False)]" "heap_sem (rt_system_heap_init b e h) = 1"
    using assms init_heap_ok[of b e h] by simp_all
  have m: "unat (?e - ?b - 32) = unat ?e - unat ?b - 32"
    using assms(2) unat_minus[of ?b ?e] unat_minus[of 32 "?e - ?b"] by simp
  have "unat (?e - 32) = unat ?e - 32" using assms(2) by (intro unat_minus[of 32, simplified]) simp
  moreover have "unat ?b \<le> unat ?e - 32" using assms(2) by simp
  ultimately have "mem_size_aligned (rt_system_heap_init b e h) = ?e - ?b - 32"
    using assms(2) by (simp add: rt_system_heap_init_def SIZEOF_STRUCT_MEM_def Let_def word_less_nat_alt word_le_nat_alt)
  then show "16 \<le> unat (mem_size_aligned (rt_system_heap_init b e h))" using m assms(2) by simp
qed auto

lemma live_malloc:
  assumes live: "heap_live h L" and n: "0 < n" "n \<le> mem_size_aligned h"
  shows "\<exists>a h'. malloc n h = Some (Inr (a, h')) \<and> (if a = 0 then h' = h else L a = None \<and> heap_live h' (L(a \<mapsto> n))) \<and>
    mem_size_aligned h' = mem_size_aligned h \<and> heap_ptr h' = heap_ptr h \<and> bytes h' = bytes h"
proof -
  from live obtain bs where h: "heap_sem h = 1" "16 \<le> unat (mem_size_aligned h)" "heap_ok h bs"
    and dm: "\<And>a. L a \<noteq> None \<longleftrightarrow> (\<exists>p n. (p, n) \<in> extents bs (heap_end h) \<and> a = heap_ptr h + p + 16)"
    and sz: "\<And>p n k. (p, n) \<in> extents bs (heap_end h) \<Longrightarrow> L (heap_ptr h + p + 16) = Some k \<Longrightarrow> unat p + 16 + unat k \<le> unat n"
    by (rule heap_liveE) blast
  note s = heap_okD(1)[OF h(3)]
  have n': "unat n \<le> unat (mem_size_aligned h)" "0 < heap_sem h" using n(2) h(1) by (simp_all add: word_le_nat_alt)
  show ?thesis
  proof (cases "\<exists>b\<in>set bs. fits h (want n) b")
    case False
    then show ?thesis using malloc_none[OF h(3,2) n(1) n'] by auto
  next
    case True
    then obtain xs b ys where b: "bs = xs @ b # ys" "fits h (want n) b" "\<forall>b\<in>set xs. \<not> fits h (want n) b"
      using split_list_first_prop by metis
    obtain p where p: "b = (p, False)" using b(2) by (cases b) (auto simp: fits_def)
    obtain h' where h': "malloc n h = Some (Inr (heap_ptr h + p + 16, h'))" "heap_ok h' (after_take h (want n) xs p ys)"
      "heap_sem h' = heap_sem h" "heap_ptr h' = heap_ptr h" "mem_size_aligned h' = mem_size_aligned h" "bytes h' = bytes h"
      using malloc_some[of h xs p ys n] h b p n(1) n' by auto
    have e: "heap_end h' = heap_end h" using heap_okD(2)[OF h'(2)] heap_okD(2)[OF h(3)] h'(5) by simp
    let ?a = "heap_ptr h + p + 16" let ?m = "if splits h (want n) p then p + 16 + want n else start_of ys (heap_end h)"
    have ext: "extents (after_take h (want n) xs p ys) (heap_end h') = insert (p, ?m) (extents bs (heap_end h))"
      by (simp add: extents_taken b(1) p e)
    have new: "(p, q) \<notin> extents bs (heap_end h)" for q
      using extents_seg[OF s] seg_distinct[OF s] b(1) p by (auto simp: image_iff)
    then have none: "L ?a = None" using dm[of ?a] by auto
    have "unat p + 16 + unat n \<le> unat ?m"
    proof -
      have m: "nxt (hdr h p) = start_of ys (heap_end h)" using seg_split(7)[of "hdr h" 0 0 xs p False ys] s b(1) p seg_start by metis
      have f: "unat p + 16 + unat (want n) \<le> unat (nxt (hdr h p))" using b(2) p by (simp add: fits_def)
      have "unat p + 16 + unat (want n) < 4294967296" using f u32_lt[of "nxt (hdr h p)"] by linarith
      then have "unat (p + 16 + want n) = unat p + 16 + unat (want n)" using unat_plus[of p 16] unat_plus[of "p + 16" "want n"] by simp
      then show ?thesis using f m want_bounds(4)[OF h(3,2) n'(1)] by simp
    qed
    then have "heap_live h' (L(?a \<mapsto> n))"
      by (intro heap_liveI[OF _ _ h'(2)]) (use h h' ext dm sz new in \<open>auto simp: split: if_splits\<close>)
    moreover have "?a \<noteq> 0" using block_addr(3)[OF h'(2)[unfolded after_take_def]] h'(4) by simp
    ultimately show ?thesis using h' none by simp
  qed
qed

lemma live_free:
  assumes live: "heap_live h L" and a: "L a \<noteq> None"
  shows "\<exists>h'. free a h = Inr h' \<and> heap_live h' (L(a := None)) \<and>
    mem_size_aligned h' = mem_size_aligned h \<and> heap_ptr h' = heap_ptr h \<and> bytes h' = bytes h"
proof -
  from live obtain bs where h: "heap_sem h = 1" "16 \<le> unat (mem_size_aligned h)" "heap_ok h bs"
    and dm: "\<And>a. L a \<noteq> None \<longleftrightarrow> (\<exists>p n. (p, n) \<in> extents bs (heap_end h) \<and> a = heap_ptr h + p + 16)"
    and sz: "\<And>p n k. (p, n) \<in> extents bs (heap_end h) \<Longrightarrow> L (heap_ptr h + p + 16) = Some k \<Longrightarrow> unat p + 16 + unat k \<le> unat n"
    by (rule heap_liveE) blast
  note s = heap_okD(1)[OF h(3)]
  obtain p n where p: "(p, n) \<in> extents bs (heap_end h)" "a = heap_ptr h + p + 16" using dm a by blast
  then obtain xs ys where b: "bs = xs @ (p, True) # ys" using extents_seg[OF s] by (meson split_list)
  obtain h' where h': "free a h = Inr h'" "heap_ok h' (after_free xs p ys)" "heap_sem h' = heap_sem h"
    "heap_ptr h' = heap_ptr h" "mem_size_aligned h' = mem_size_aligned h" "bytes h' = bytes h"
    using free_eq[of h xs p ys] h b p(2) by auto
  have e: "heap_end h' = heap_end h" using heap_okD(2)[OF h'(2)] heap_okD(2)[OF h(3)] h'(5) by simp
  have "(p, q) \<notin> extents xs p" "(p, q) \<notin> extents ys (heap_end h)" for q
    using seg_distinct[OF s] b extents_seg[OF seg_split(1)[OF s[unfolded b]]] extents_seg[OF seg_split(7)[OF s[unfolded b]]]
    by (auto simp: image_iff)
  then have ext: "extents (after_free xs p ys) (heap_end h') = {r \<in> extents bs (heap_end h). fst r \<noteq> p}"
    unfolding extents_freed e by (auto simp: b extents_append)
  have "heap_live h' (L(a := None))"
    by (intro heap_liveI[OF _ _ h'(2)]) (use h h' ext dm sz p(2) in \<open>auto split: if_splits\<close>)
  then show ?thesis using h' by blast
qed

lemma live_disjoint:
  assumes "heap_live h L" "L a = Some n" "L b = Some m" "a \<noteq> b"
  shows "unat a + unat n \<le> unat b \<or> unat b + unat m \<le> unat a"
proof -
  from assms(1) obtain bs where h: "heap_ok h bs"
    and dm: "\<And>a. L a \<noteq> None \<longleftrightarrow> (\<exists>p n. (p, n) \<in> extents bs (heap_end h) \<and> a = heap_ptr h + p + 16)"
    and sz: "\<And>p n k. (p, n) \<in> extents bs (heap_end h) \<Longrightarrow> L (heap_ptr h + p + 16) = Some k \<Longrightarrow> unat p + 16 + unat k \<le> unat n"
    by (rule heap_liveE) blast
  note s = heap_okD(1)[OF h]
  obtain p i q j where p: "(p, i) \<in> extents bs (heap_end h)" "a = heap_ptr h + p + 16"
    and q: "(q, j) \<in> extents bs (heap_end h)" "b = heap_ptr h + q + 16" using dm[of a] dm[of b] assms(2,3) by auto
  have addr: "unat (heap_ptr h + r + 16) = unat (heap_ptr h) + unat r + 16" if "(r, k) \<in> extents bs (heap_end h)" for r k
    using extents_seg[OF s] that block_addr(1)[of h] h by (metis split_list)
  show ?thesis
    using extents_disjoint[OF s p(1) q(1)] sz[OF p(1)] sz[OF q(1)] assms(2-4) p(2) q(2) addr[OF p(1)] addr[OF q(1)] by fastforce
qed

lemma live_inside:
  assumes "heap_live h L" "L a = Some n"
  shows "8 dvd unat a" "unat (heap_ptr h) + 16 \<le> unat a" "unat a + unat n \<le> unat (heap_ptr h) + unat (heap_end h)"
proof -
  from assms(1) obtain bs where h: "heap_ok h bs"
    and dm: "\<And>a. L a \<noteq> None \<longleftrightarrow> (\<exists>p n. (p, n) \<in> extents bs (heap_end h) \<and> a = heap_ptr h + p + 16)"
    and sz: "\<And>p n k. (p, n) \<in> extents bs (heap_end h) \<Longrightarrow> L (heap_ptr h + p + 16) = Some k \<Longrightarrow> unat p + 16 + unat k \<le> unat n"
    by (rule heap_liveE) blast
  note s = heap_okD(1)[OF h]
  obtain p i where p: "(p, i) \<in> extents bs (heap_end h)" "a = heap_ptr h + p + 16" using dm[of a] assms(2) by auto
  have "unat a = unat (heap_ptr h) + unat p + 16"
    using extents_seg[OF s] p block_addr(1)[of h] h by (metis split_list)
  then show "8 dvd unat a" "unat (heap_ptr h) + 16 \<le> unat a" "unat a + unat n \<le> unat (heap_ptr h) + unat (heap_end h)"
    using extents_bounds[OF s p(1)] heap_okD(7)[OF h] sz[OF p(1), of n] p(2) assms(2) by (auto intro!: dvd_add)
qed

section \<open>The contract\<close>

text \<open>Histories of legal calls: a request has a size between 1 and the limit, a release is of a live address.\<close>

inductive calls :: "(u32 \<Rightarrow> 'h \<Rightarrow> (u32 \<times> 'h) option) \<Rightarrow> (u32 \<Rightarrow> 'h \<Rightarrow> 'h option) \<Rightarrow> ('h \<Rightarrow> u32) \<Rightarrow> 'h \<Rightarrow>
    'h \<Rightarrow> (u32 \<rightharpoonup> u32) \<Rightarrow> bool" for al fr lim h0 where
  calls_start: "calls al fr lim h0 h0 Map.empty"
| calls_alloc: "calls al fr lim h0 h L \<Longrightarrow> 0 < n \<Longrightarrow> n \<le> lim h \<Longrightarrow> al n h = Some (a, h') \<Longrightarrow>
    calls al fr lim h0 h' (if a = 0 then L else L(a \<mapsto> n))"
| calls_release: "calls al fr lim h0 h L \<Longrightarrow> L a \<noteq> None \<Longrightarrow> fr a h = Some h' \<Longrightarrow> calls al fr lim h0 h' (L(a := None))"

locale allocator =
  fixes al :: "u32 \<Rightarrow> 'h \<Rightarrow> (u32 \<times> 'h) option" and fr :: "u32 \<Rightarrow> 'h \<Rightarrow> 'h option" and lim :: "'h \<Rightarrow> u32"
    and live :: "'h \<Rightarrow> (u32 \<rightharpoonup> u32) \<Rightarrow> bool"
  assumes alloc: "live h L \<Longrightarrow> 0 < n \<Longrightarrow> n \<le> lim h \<Longrightarrow>
      \<exists>a h'. al n h = Some (a, h') \<and> live h' (if a = 0 then L else L(a \<mapsto> n)) \<and> (a \<noteq> 0 \<longrightarrow> L a = None) \<and> lim h' = lim h"
    and release: "live h L \<Longrightarrow> L a \<noteq> None \<Longrightarrow> \<exists>h'. fr a h = Some h' \<and> live h' (L(a := None)) \<and> lim h' = lim h"
    and apart: "live h L \<Longrightarrow> L a = Some n \<Longrightarrow> L b = Some m \<Longrightarrow> a \<noteq> b \<Longrightarrow> unat a + unat n \<le> unat b \<or> unat b + unat m \<le> unat a"
begin

lemma calls_live:
  assumes "calls al fr lim h0 h L" "live h0 Map.empty"
  shows "live h L \<and> lim h = lim h0"
  using assms
proof (induction rule: calls.induct)
  case (calls_alloc h L n a h')
  then show ?case using alloc[of h L n] by auto
next
  case (calls_release h L a h')
  then show ?case using release[of h L a] by (auto simp: fun_upd_def)
qed simp

lemma never_stuck:
  assumes "calls al fr lim h0 h L" "live h0 Map.empty"
  shows "0 < n \<Longrightarrow> n \<le> lim h0 \<Longrightarrow> \<exists>a h'. al n h = Some (a, h')" "L a \<noteq> None \<Longrightarrow> \<exists>h'. fr a h = Some h'"
  using calls_live[OF assms] alloc[of h L n] release[of h L a] by auto

lemma regions_apart:
  assumes "calls al fr lim h0 h L" "live h0 Map.empty" "L a = Some n" "L b = Some m" "a \<noteq> b"
  shows "unat a + unat n \<le> unat b \<or> unat b + unat m \<le> unat a"
  using calls_live[OF assms(1,2)] apart assms(3-5) by blast

end

text \<open>The calls of the model, as the contract sees them.\<close>

definition malloc_call :: "u32 \<Rightarrow> heap \<Rightarrow> (u32 \<times> heap) option" where
  "malloc_call n h = (case malloc n h of Some (Inr r) \<Rightarrow> Some r | _ \<Rightarrow> None)"

definition free_call :: "u32 \<Rightarrow> heap \<Rightarrow> heap option" where
  "free_call a h = (case free a h of Inr h' \<Rightarrow> Some h' | Inl _ \<Rightarrow> None)"

interpretation mem: allocator malloc_call free_call mem_size_aligned heap_live
proof unfold_locales
  fix h L n assume "heap_live h L" "0 < n" "n \<le> mem_size_aligned h"
  from live_malloc[OF this] \<open>heap_live h L\<close> show "\<exists>a h'. malloc_call n h = Some (a, h') \<and>
      heap_live h' (if a = 0 then L else L(a \<mapsto> n)) \<and> (a \<noteq> 0 \<longrightarrow> L a = None) \<and> mem_size_aligned h' = mem_size_aligned h"
    by (auto simp: malloc_call_def split: if_splits)
next
  fix h L a assume "heap_live h L" "L a \<noteq> None"
  from live_free[OF this] show "\<exists>h'. free_call a h = Some h' \<and> heap_live h' (L(a := None)) \<and> mem_size_aligned h' = mem_size_aligned h"
    by (auto simp: free_call_def)
qed (rule live_disjoint)

section \<open>Bytes of a region\<close>

lemma unat_offset: "unat (d :: u32) + n \<le> 4294967296 \<Longrightarrow> i < n \<Longrightarrow> unat (d + of_nat i) = unat d + i"
  by (subst unat_plus) (simp_all add: unat_of_nat)

lemma copied_in:
  "unat d + n \<le> 4294967296 \<Longrightarrow> i < n \<Longrightarrow> copied d s n m (d + of_nat i) = m (s + of_nat i)"
  by (simp add: copied_def unat_offset)

lemma copied_out: "unat a < unat d \<or> unat d + n \<le> unat a \<Longrightarrow> copied d s n m a = m a"
  by (auto simp: copied_def)

end
