(* ===== verification/Heap_Claims.thy ===== *)
theory Heap_Claims
  imports Heap_Run
begin

unbundle bit_operations_syntax

text \<open>
  The properties of the allocator. Their instances are at a heap of 1 KB that starts at
  \<^verbatim>\<open>0x80100000\<close>.
\<close>

section \<open>A sample heap\<close>

definition no_hdr :: heap_mem where
  "no_hdr = \<lparr>magic = 0, used = 0, nxt = 0, prv = 0\<rparr>"

definition boot_heap :: heap where
  "boot_heap = rt_system_heap_init 0x80100000 0x80100400 \<lparr>hdr = \<lambda>_. no_hdr, bytes = \<lambda>_. 0xAA, heap_ptr = 0,
    heap_end = 0, lfree = 0, mem_size_aligned = 0, used_mem = 0, max_mem = 0, heap_sem = 0, heap_waiting = 0, none_ready = False\<rparr>"

lemma boot_heap_eq:
  "heap_ptr boot_heap = 0x80100000" "mem_size_aligned boot_heap = 992" "heap_end boot_heap = 1008" "lfree boot_heap = 0"
  "heap_sem boot_heap = 1" "heap_waiting boot_heap = 0" "hdr boot_heap = (\<lambda>p. if p = 1008 then \<lparr>magic = HEAP_MAGIC, used = 1, nxt = 1008, prv = 1008\<rparr>
    else if p = 0 then \<lparr>magic = HEAP_MAGIC, used = 0, nxt = 1008, prv = 0\<rparr> else no_hdr)"
  by (simp_all add: boot_heap_def rt_system_heap_init_def RT_ALIGN_def RT_ALIGN_DOWN_def SIZEOF_STRUCT_MEM_def upd_hdr_def
      Let_def fun_eq_iff)

lemma boot_heap_ok: "heap_ok boot_heap [(0, False)]"
  by (simp add: heap_ok_def boot_heap_eq merged_def)

lemma boot_heap_live: "heap_live boot_heap Map.empty"
  by (rule heap_liveI[OF _ _ boot_heap_ok]) (simp_all add: boot_heap_eq)

section \<open>Lemmas\<close>

fun split_at :: "('a \<Rightarrow> bool) \<Rightarrow> 'a list \<Rightarrow> ('a list \<times> 'a \<times> 'a list) option" where
  "split_at P [] = None"
| "split_at P (x # xs) = (if P x then Some ([], x, xs) else map_option (\<lambda>(us, y, vs). (x # us, y, vs)) (split_at P xs))"

lemma split_at_None: "split_at P xs = None \<Longrightarrow> \<forall>x\<in>set xs. \<not> P x"
  by (induction xs) (auto split: if_splits)

lemma split_at_Some: "split_at P xs = Some (us, y, vs) \<Longrightarrow> xs = us @ y # vs \<and> P y \<and> (\<forall>x\<in>set us. \<not> P x)"
  by (induction xs arbitrary: us) (auto split: if_splits)

lemma first_fit_split:
  "find (fits h sz) bs \<noteq> None \<Longrightarrow>
    \<exists>xs p ys. bs = xs @ (p, False) # ys \<and> fits h sz (p, False) \<and> (\<forall>b\<in>set xs. \<not> fits h sz b)"
proof -
  assume "find (fits h sz) bs \<noteq> None"
  then have "\<exists>b\<in>set bs. fits h sz b" unfolding find_None_iff by blast
  then obtain xs b ys where b: "bs = xs @ b # ys" "fits h sz b" "\<forall>b\<in>set xs. \<not> fits h sz b"
    using split_list_first_prop by metis
  moreover have "b = (fst b, False)" using b(2) by (cases b) (simp add: fits_def)
  ultimately show ?thesis by metis
qed

lemma append_Nil_ok: "heap_ok h (b # bs) \<Longrightarrow> heap_ok h ([] @ b # bs)"
  by simp

lemma take_then_free:
  "merged (xs @ (p, False) # ys) \<Longrightarrow>
    after_free xs p ((if splits h sz p then [(p + 16 + sz, False)] else []) @ ys) = xs @ (p, False) # ys"
  unfolding merged_def after_free_def successively_append_iff by (cases ys rule: drop_free.cases) auto

lemma live_bytes [simp]: "heap_live (h\<lparr>bytes := m\<rparr>) L = heap_live h L"
  by (simp add: heap_live_def heap_ok_def)

lemma live_ok: "heap_live h L \<Longrightarrow> \<exists>bs. heap_ok h bs"
  by (auto simp: heap_live_def)

lemma live_no_wrap: "heap_live h L \<Longrightarrow> L a = Some n \<Longrightarrow> unat a + unat n \<le> 4294967296"
proof -
  assume l: "heap_live h L" "L a = Some n"
  then obtain bs where "heap_ok h bs" using live_ok by blast
  then show ?thesis using live_inside(3)[OF l] heap_okD(6,9) by force
qed

lemma live_outside:
  assumes "heap_live h L" "L a = Some n" "L b = Some m" "a \<noteq> b" "i < unat m"
  shows "unat (b + of_nat i) < unat a \<or> unat a + unat n \<le> unat (b + of_nat i)"
proof -
  have "unat (b + of_nat i) = unat b + i" by (rule unat_offset[OF live_no_wrap[OF assms(1,3)] assms(5)])
  then show ?thesis using live_disjoint[OF assms(1-4)] assms(5) by linarith
qed

text \<open>The size of the block that a live region was given.\<close>

definition block_size :: "heap \<Rightarrow> u32 \<Rightarrow> u32" where
  "block_size h a = (let p = a - 16 - heap_ptr h in nxt (hdr h p) - p - 16)"

lemma live_block:
  assumes live: "heap_live h L" and a: "L a = Some k"
  shows "k \<le> block_size h a" "heap_live h (L(a \<mapsto> block_size h a))" "a \<noteq> 0" "heap_ptr h \<le> a" "a < heap_ptr h + heap_end h"
    "heap_sem h = 1"
proof -
  from live obtain bs where h: "heap_sem h = 1" "16 \<le> unat (mem_size_aligned h)" "heap_ok h bs"
    and dm: "\<And>a. L a \<noteq> None \<longleftrightarrow> (\<exists>p n. (p, n) \<in> extents bs (heap_end h) \<and> a = heap_ptr h + p + 16)"
    and sz: "\<And>p n k. (p, n) \<in> extents bs (heap_end h) \<Longrightarrow> L (heap_ptr h + p + 16) = Some k \<Longrightarrow> unat p + 16 + unat k \<le> unat n"
    by (rule heap_liveE) blast
  note s = heap_okD(1)[OF h(3)]
  obtain p n where p: "(p, n) \<in> extents bs (heap_end h)" "a = heap_ptr h + p + 16" using dm[of a] a by auto
  then have n: "n = nxt (hdr h p)" "(p, True) \<in> set bs" using extents_seg[OF s] by blast+
  have b: "unat p + 16 < unat n" using extents_bounds[OF s p(1)] by simp
  have "unat (nxt (hdr h p) - p - 16) = unat n - unat p - 16"
    using b n(1) unat_minus[of p n] unat_minus[of 16 "n - p"] by simp
  then have bs: "unat (block_size h a) = unat n - unat p - 16" by (simp add: block_size_def p(2))
  show "k \<le> block_size h a" using sz[OF p(1), of k] a p(2) bs by (simp add: word_le_nat_alt)
  have one: "m = n" if "(p, m) \<in> extents bs (heap_end h)" for m using that n extents_seg[OF s] by simp
  show "heap_live h (L(a \<mapsto> block_size h a))"
  proof (rule heap_liveI[OF h])
    show "(L(a \<mapsto> block_size h a)) x \<noteq> None \<longleftrightarrow> (\<exists>p n. (p, n) \<in> extents bs (heap_end h) \<and> x = heap_ptr h + p + 16)" for x
      using dm[of x] a by auto
    show "unat q + 16 + unat j \<le> unat m"
      if "(q, m) \<in> extents bs (heap_end h)" "(L(a \<mapsto> block_size h a)) (heap_ptr h + q + 16) = Some j" for q m j
      using that sz[of q m j] one[of m] bs b p(2) by (cases "q = p") auto
  qed
  obtain xs ys where "bs = xs @ (p, True) # ys" using n(2) by (meson split_list)
  then show "a \<noteq> 0" "heap_ptr h \<le> a" "a < heap_ptr h + heap_end h" "heap_sem h = 1"
    using block_addr(3-5)[of h xs p ys] h p(2) by simp_all
qed

lemma seg_end_dvd: "seg H pv p bs e \<Longrightarrow> 8 dvd unat e \<Longrightarrow> 8 dvd unat p"
  by (cases bs) auto

lemma plug_next_lfree:
  assumes "seg (hdr h) 0 0 (xs @ (p, False) # ys) (heap_end h)"
  shows "lfree (plug_next p h) = (if \<exists>zs. ys = (lfree h, False) # zs then p else lfree h)"
proof -
  note sp = seg_split[OF assms]
  have "p \<noteq> nxt (hdr h p)" using sp(6) by auto
  moreover have "q \<noteq> heap_end h" if "ys = (q, u) # zs" for q u zs using seg_range[OF sp(7), of "(q, u)"] that by auto
  ultimately show ?thesis using sp(7)
    by (cases ys rule: drop_free.cases) (auto simp: plug_next_def join_def Let_def)
qed

text \<open>Cutting a block in use writes the same headers as splitting it on allocation.\<close>

definition cut :: "u32 \<Rightarrow> u32 \<Rightarrow> heap \<Rightarrow> heap" where
  "cut sz p h = (let h = h\<lparr>heap_sem := heap_sem h - 1\<rparr>;
    h = h\<lparr>used_mem := used_mem h - (nxt (hdr h p) - p - 16 - sz)\<rparr>;
    h = upd_hdr (p + 16 + sz) (\<lambda>_. \<lparr>magic = HEAP_MAGIC, used = 0, nxt = nxt (hdr h p), prv = p\<rparr>) h;
    h = upd_hdr p (\<lambda>m. m\<lparr>nxt := p + 16 + sz\<rparr>) h
    in if nxt (hdr h (p + 16 + sz)) \<noteq> mem_size_aligned h + 16 then upd_hdr (nxt (hdr h (p + 16 + sz))) (\<lambda>m. m\<lparr>prv := p + 16 + sz\<rparr>) h
       else h)"

lemma cut_frame:
  "heap_end (cut sz p h) = heap_end h" "heap_ptr (cut sz p h) = heap_ptr h" "heap_sem (cut sz p h) = heap_sem h - 1"
  "heap_waiting (cut sz p h) = heap_waiting h"
  "bytes (cut sz p h) = bytes h" "lfree (cut sz p h) = lfree h"
  by (simp_all add: cut_def Let_def)

lemma realloc_cut:
  assumes "RT_ALIGN n \<le> mem_size_aligned h" "RT_ALIGN n \<noteq> 0" "heap_ptr h \<le> heap_ptr h + p + 16"
    "heap_ptr h + p + 16 < heap_ptr h + heap_end h" "heap_ptr h + p + 16 \<noteq> 0"
    "nxt (hdr h p) - p - 16 \<noteq> RT_ALIGN n" "RT_ALIGN n + SIZEOF_STRUCT_MEM + MIN_SIZE < nxt (hdr h p) - p - 16" "0 < heap_sem h"
  shows "realloc (heap_ptr h + p + 16) n h = (case plug_holes (p + 16 + RT_ALIGN n) (cut (RT_ALIGN n) p h) of
    Inl e \<Rightarrow> Some (Inl e) | Inr h' \<Rightarrow> Some (Inr (heap_ptr h + p + 16, sem_release h')))"
proof -
  have "\<not> mem_size_aligned h < RT_ALIGN n" "\<not> heap_ptr h + p + 16 < heap_ptr h" "\<not> heap_ptr h + heap_end h \<le> heap_ptr h + p + 16"
    using assms(1,3,4) by (auto simp: not_less)
  then show ?thesis
    using assms(2,5-8) unfolding cut_def realloc_def Let_def sem_take_def by (simp add: SIZEOF_STRUCT_MEM_def)
qed

lemma shrink_hdr:
  assumes "unat p + 16 \<le> unat (nxt (hdr h p))" "unat sz + 32 < 4294967296" "heap_end h = mem_size_aligned h + 16" "splits h sz p"
    and "used (hdr h p) = 1" "magic (hdr h p) = HEAP_MAGIC"
  shows "hdr (cut sz p h) = hdr (malloc_take sz p h)"
proof -
  have "16 + sz \<noteq> 0" using unat_plus[of 16 sz] assms(2) by (intro notI) simp
  moreover have "nxt (hdr h p) \<noteq> p" using assms(1) by auto
  ultimately show ?thesis unfolding malloc_take_hdr[OF assms(1-3)]
    using assms(3-6) by (auto simp: cut_def Let_def fun_eq_iff add.assoc)
qed

section \<open>Allocation and release\<close>

text \<open>
  C13. Memory safety of the allocator. After any history of requests of a legal size and releases
  of live addresses on a fresh heap, every live region is aligned to 8 bytes, lies between the
  first header and the closing one, and overlaps no other live region; and the next legal call
  returns again, neither waiting for the semaphore nor failing an assertion nor walking forever.
\<close>

theorem heap_calls_safe:
  assumes "unat b \<le> 4294967288" "unat (RT_ALIGN b) + 48 \<le> unat (RT_ALIGN_DOWN e)"
    and "calls malloc_call free_call mem_size_aligned (rt_system_heap_init b e h0) h L"
  shows "(\<forall>a n. L a = Some n \<longrightarrow> 8 dvd unat a \<and> unat (heap_ptr h) + 16 \<le> unat a \<and>
      unat a + unat n \<le> unat (heap_ptr h) + unat (heap_end h)) \<and>
    (\<forall>a n a' n'. L a = Some n \<longrightarrow> L a' = Some n' \<longrightarrow> a \<noteq> a' \<longrightarrow> unat a + unat n \<le> unat a' \<or> unat a' + unat n' \<le> unat a) \<and>
    (\<forall>n. 0 < n \<longrightarrow> n \<le> mem_size_aligned h \<longrightarrow> (\<exists>a h'. malloc n h = Some (Inr (a, h')))) \<and>
    (\<forall>a. L a \<noteq> None \<longrightarrow> (\<exists>h'. free a h = Inr h'))"
proof -
  have live: "heap_live h L" using mem.calls_live[OF assms(3) init_live[OF assms(1,2)]] by blast
  show ?thesis
    using live_inside[OF live] live_disjoint[OF live] live_malloc[OF live] live_free[OF live] by blast
qed

theorem heap_calls_safe_witness:
  "\<exists>h a h'. malloc 100 boot_heap = Some (Inr (a, h)) \<and> 8 dvd unat a \<and> free a h = Inr h'"
proof -
  obtain a h where m: "malloc 100 boot_heap = Some (Inr (a, h))" "if a = 0 then h = boot_heap else heap_live h [a \<mapsto> 100]"
    using live_malloc[OF boot_heap_live, of 100] by (auto simp: boot_heap_eq)
  have "find (fits boot_heap (want 100)) [(0, False)] = Some (0, False)"
    by (simp add: fits_def want_def RT_ALIGN_def boot_heap_eq)
  then have a: "a = 0x80100010" using m(1) malloc_some[of boot_heap "[]" 0 "[]" 100] boot_heap_ok
    by (auto simp: boot_heap_eq split: if_splits)
  have start: "calls malloc_call free_call mem_size_aligned boot_heap boot_heap Map.empty" by (rule calls_start)
  have "calls malloc_call free_call mem_size_aligned boot_heap h [a \<mapsto> 100]"
    using calls_alloc[OF start, of 100 a h] m a by (simp add: malloc_call_def boot_heap_eq)
  note r = heap_calls_safe[OF _ _ this[unfolded boot_heap_def]]
  have "8 dvd unat a \<and> (\<exists>h'. free a h = Inr h')"
    using r by (auto simp: RT_ALIGN_def RT_ALIGN_DOWN_def dest!: spec[of _ a])
  then show ?thesis using m(1) by blast
qed

text \<open>
  The blocks \<^verbatim>\<open>malloc\<close> looks for: free, large enough for the request, and not so that the
  request would end exactly at the end of the heap, which the bound of the search loop excludes.
\<close>

definition suits :: "heap \<Rightarrow> u32 \<Rightarrow> block \<Rightarrow> bool" where
  "suits h sz b \<longleftrightarrow> \<not> snd b \<and> unat (fst b) + 16 + unat sz \<le> unat (nxt (hdr h (fst b))) \<and>
    unat (fst b) + 16 + unat sz \<noteq> unat (heap_end h)"

lemma fits_suits:
  assumes "heap_ok h bs" "b \<in> set bs"
  shows "fits h sz b = suits h sz b"
proof -
  obtain xs ys where "bs = xs @ (fst b, snd b) # ys" using assms(2) by (metis split_list prod.collapse)
  then have "unat (nxt (hdr h (fst b))) \<le> unat (heap_end h)"
    using seg_split(8)[of "hdr h" 0 0 xs "fst b" "snd b" ys "heap_end h"] heap_okD(1)[OF assms(1)] by simp
  then show ?thesis using heap_okD(9)[OF assms(1)] by (auto simp: fits_def suits_def)
qed

text \<open>
  C14. \<^verbatim>\<open>malloc\<close> is first fit. On a well-formed heap a request of a legal size, rounded up to a
  multiple of 8 and at least 16, takes the first free block that is large enough, except that it
  passes over a block at the end of the heap that the request would fill exactly. It splits off
  the rest when it can hold a block of its own, and returns the address after the header; the heap
  stays well-formed with exactly this block list, the lowest-free pointer included, and the
  semaphore is released. It returns \<^verbatim>\<open>NULL\<close>, and changes nothing, exactly when there is no such
  block, so also when the only block large enough is the last one and fits exactly.
\<close>

theorem malloc_first_fit:
  assumes "heap_ok h bs" "16 \<le> unat (mem_size_aligned h)" "0 < n" "unat n \<le> unat (mem_size_aligned h)" "0 < heap_sem h"
  shows "unat (want n) = max 16 (8 * ((unat n + 7) div 8)) \<and>
    (case split_at (suits h (want n)) bs of
       None \<Rightarrow> malloc n h = Some (Inr (0, h))
     | Some (xs, (p, _), ys) \<Rightarrow> \<exists>h'. malloc n h = Some (Inr (heap_ptr h + p + 16, h')) \<and>
         heap_ok h' (xs @ (p, True) # (if splits h (want n) p then [(p + 16 + want n, False)] else []) @ ys) \<and>
         heap_sem h' = heap_sem h \<and> bytes h' = bytes h)"
proof (cases "split_at (suits h (want n)) bs")
  case None
  then have "\<forall>b\<in>set bs. \<not> fits h (want n) b" using split_at_None[OF None] fits_suits[OF assms(1)] by blast
  then show ?thesis using malloc_none[OF assms] want_bounds(1)[OF assms(1,2,4)] None by simp
next
  case (Some r)
  then obtain xs p u ys where r: "r = (xs, (p, u), ys)" by (metis prod.exhaust)
  have b: "bs = xs @ (p, u) # ys" "fits h (want n) (p, u)" "\<forall>b\<in>set xs. \<not> fits h (want n) b"
    using split_at_Some[OF Some[unfolded r]] fits_suits[OF assms(1), of _ "want n"] by auto
  then have u: "u = False" by (simp add: fits_def)
  show ?thesis
    using malloc_some[of h xs p ys n] assms b u Some r want_bounds(1)[OF assms(1,2,4)] by (auto simp: after_take_def)
qed

theorem malloc_first_fit_witness:
  "\<exists>h'. malloc 100 boot_heap = Some (Inr (0x80100010, h')) \<and> heap_ok h' [(0, True), (120, False)] \<and> heap_sem h' = 1"
  using malloc_first_fit[OF boot_heap_ok, of 100]
  by (auto simp: boot_heap_eq suits_def splits_def want_def RT_ALIGN_def)

text \<open>
  C15. \<^verbatim>\<open>free\<close> gives a block back. Given the address of a block in use, it marks the block free and
  joins it with the free blocks on either side, so that no two free blocks are adjacent; the heap
  stays well-formed with exactly this block list, the lowest-free pointer included, user data is
  untouched and the semaphore is released.
\<close>

theorem free_merges:
  assumes "heap_ok h (xs @ (p, True) # ys)" "0 < heap_sem h"
  shows "\<exists>h'. free (heap_ptr h + p + 16) h = Inr h' \<and>
    heap_ok h' ((if xs \<noteq> [] \<and> \<not> snd (last xs) then xs else xs @ [(p, False)]) @
      (case ys of (q, False) # zs \<Rightarrow> zs | _ \<Rightarrow> ys)) \<and>
    heap_sem h' = heap_sem h \<and> bytes h' = bytes h"
proof -
  have "drop_free ys = (case ys of (q, False) # zs \<Rightarrow> zs | _ \<Rightarrow> ys)" by (cases ys rule: drop_free.cases) auto
  then show ?thesis using free_eq[OF assms] by (auto simp: after_free_def)
qed

text \<open>
  Releasing what was just allocated restores the block list, whether the allocation split a
  block or not.
\<close>

lemma malloc_free_roundtrip:
  assumes "heap_ok h bs" "16 \<le> unat (mem_size_aligned h)" "0 < n" "unat n \<le> unat (mem_size_aligned h)" "0 < heap_sem h"
    and "malloc n h = Some (Inr (a, h'))" "a \<noteq> 0"
  shows "\<exists>h''. free a h' = Inr h'' \<and> heap_ok h'' bs"
proof -
  have "find (fits h (want n)) bs \<noteq> None" using malloc_eq[OF assms(1-5)] assms(6,7) by (auto split: option.splits)
  then obtain xs p ys where b: "bs = xs @ (p, False) # ys" "fits h (want n) (p, False)" "\<forall>b\<in>set xs. \<not> fits h (want n) b"
    using first_fit_split by blast
  obtain k where k: "malloc n h = Some (Inr (heap_ptr h + p + 16, k))" "heap_ok k (after_take h (want n) xs p ys)"
    "heap_sem k = heap_sem h" "heap_ptr k = heap_ptr h" using malloc_some[of h xs p ys n] assms b by auto
  then have "a = heap_ptr k + p + 16" "h' = k" using assms(6) by auto
  moreover have "after_free xs p ((if splits h (want n) p then [(p + 16 + want n, False)] else []) @ ys) = bs"
    using heap_okD(4)[OF assms(1)] b(1) take_then_free by simp
  ultimately show ?thesis using free_eq[OF k(2)[unfolded after_take_def]] k(3) assms(5) by auto
qed

theorem free_merges_witness:
  "\<exists>h h'. malloc 100 boot_heap = Some (Inr (0x80100010, h)) \<and> free 0x80100010 h = Inr h' \<and> heap_ok h' [(0, False)]"
proof -
  obtain h where h: "malloc 100 boot_heap = Some (Inr (0x80100010, h))" "heap_ok h [(0, True), (120, False)]"
    "heap_sem h = 1" "heap_ptr h = 0x80100000"
    using malloc_some[OF boot_heap_ok[THEN append_Nil_ok], of 100]
    by (auto simp: boot_heap_eq fits_def splits_def want_def RT_ALIGN_def after_take_def)
  then show ?thesis using free_merges[of h "[]" 0 "[(120, False)]"] by auto
qed

section \<open>Error paths\<close>

text \<open>
  Rounding up wraps: a request of more than \<open>2\<^sup>3\<^sup>2 - 8\<close> bytes is treated as one of 1 byte, so
  it is answered with a block of 16 bytes instead of \<^verbatim>\<open>NULL\<close>.
\<close>

lemma malloc_size_wraps:
  assumes "4294967288 < unat n" "16 \<le> unat (mem_size_aligned h)"
  shows "malloc n h = malloc 1 h"
proof -
  have "unat (n + 7) < 8" using assms(1) u32_lt[of n] by (simp add: unat_word_ariths le_mod_geq)
  then have "unat (RT_ALIGN n) = 0" using unat_align_down[of "n + 7"] by (simp add: RT_ALIGN_def RT_ALIGN_DOWN_def)
  then have "RT_ALIGN n = 0" "n \<noteq> 0" using assms(1) by (auto simp: unat_eq_0)
  moreover have "RT_ALIGN 1 = 8" by (simp add: RT_ALIGN_def)
  moreover have "8 \<le> mem_size_aligned h" using assms(2) by (simp add: word_le_nat_alt)
  ultimately show ?thesis
    by (simp add: malloc_def sem_take_def MIN_SIZE_ALIGNED_def Let_def leD split: sum.split)
qed

text \<open>
  Releasing a block twice is caught: after \<^verbatim>\<open>free\<close> of a block in use, a second \<^verbatim>\<open>free\<close> of the
  same address fails an assertion, also when the block was joined with a neighbour.
\<close>

lemma double_free_asserts:
  assumes "heap_ok h (xs @ (p, True) # ys)" "0 < heap_sem h" "free (heap_ptr h + p + 16) h = Inr h'"
  shows "free (heap_ptr h + p + 16) h' = Inl Heap_assert"
proof -
  note ad = block_addr[OF assms(1)]
  have "used (hdr h' p) = 0" "heap_sem h' = heap_sem h" "heap_ptr h' = heap_ptr h"
    using free_eq[OF assms(1,2)] assms(3) by auto
  then show ?thesis using assms(2) ad by (simp add: free_def sem_take_def SIZEOF_STRUCT_MEM_def Let_def)
qed

section \<open>Clearing and resizing\<close>

text \<open>
  \<^verbatim>\<open>calloc\<close> of a total size that does not wrap beyond the heap returns; when the address is not
  \<^verbatim>\<open>NULL\<close> the new region is zero throughout and no byte of another live region changes.
\<close>

lemma calloc_zeroes:
  assumes "heap_live h L" "0 < count * sz" "count * sz \<le> mem_size_aligned h"
  shows "\<exists>a h'. calloc count sz h = Some (Inr (a, h')) \<and> (a = 0 \<longrightarrow> h' = h) \<and>
    (a \<noteq> 0 \<longrightarrow> L a = None \<and> heap_live h' (L(a \<mapsto> count * sz)) \<and> (\<forall>i<unat (count * sz). bytes h' (a + of_nat i) = 0) \<and>
      (\<forall>b n i. L b = Some n \<longrightarrow> i < unat n \<longrightarrow> bytes h' (b + of_nat i) = bytes h (b + of_nat i)))"
proof -
  let ?n = "count * sz"
  obtain a k where m: "malloc ?n h = Some (Inr (a, k))" "if a = 0 then k = h else L a = None \<and> heap_live k (L(a \<mapsto> ?n))"
    "bytes k = bytes h" using live_malloc[OF assms] by blast
  show ?thesis
  proof (cases "a = 0")
    case True
    then show ?thesis using m by (simp add: calloc_def)
  next
    case False
    let ?k = "k\<lparr>bytes := memset a 0 ?n (bytes k)\<rparr>"
    have live: "heap_live k (L(a \<mapsto> ?n))" "L a = None" using m(2) False by auto
    have w: "unat a + unat ?n \<le> 4294967296" using live_no_wrap[OF live(1), of a ?n] by simp
    have "bytes ?k (b + of_nat i) = bytes h (b + of_nat i)" if b: "L b = Some n" "i < unat n" for b n i
    proof -
      have "b \<noteq> a" using b(1) live(2) by auto
      then show ?thesis using live_outside[OF live(1), of a ?n b n i] b m(3) by (auto simp: memset_filled[OF w])
    qed
    moreover have "bytes ?k (a + of_nat i) = 0" if "i < unat ?n" for i
      using that by (simp add: memset_filled[OF w] unat_offset[OF w])
    ultimately show ?thesis using m(1) False live by (simp add: calloc_def)
  qed
qed

lemma realloc_moves:
  assumes live: "heap_live h L" and a: "L a = Some k" and n: "block_size h a < RT_ALIGN n" "RT_ALIGN n \<le> mem_size_aligned h"
  shows "realloc a n h = (case malloc (RT_ALIGN n) h of None \<Rightarrow> None | Some (Inl e) \<Rightarrow> Some (Inl e) | Some (Inr (b, h1)) \<Rightarrow>
    if b \<noteq> 0 then
      (case free a (h1\<lparr>bytes := memcpy b a (block_size h a) (bytes h1)\<rparr>) of
         Inl e \<Rightarrow> Some (Inl e) | Inr h' \<Rightarrow> Some (Inr (b, h')))
    else Some (Inr (b, h1)))"
proof -
  let ?n = "RT_ALIGN n" and ?sz = "block_size h a"
  note bl = live_block[OF live a]
  obtain bs where ok: "heap_ok h bs" using live_ok[OF live] by blast
  have n0: "0 < ?n" using n(1) by (auto simp: word_less_nat_alt)
  have grow: "\<not> ?n + SIZEOF_STRUCT_MEM + MIN_SIZE < ?sz" "?sz \<noteq> ?n"
  proof -
    have "unat (?n + 16 + 12) = unat ?n + 28"
      using unat_plus[of 28 ?n] n(2) heap_okD(6)[OF ok] by (simp add: word_le_nat_alt)
    then show "\<not> ?n + SIZEOF_STRUCT_MEM + MIN_SIZE < ?sz" "?sz \<noteq> ?n"
      using n(1) by (auto simp: SIZEOF_STRUCT_MEM_def MIN_SIZE_def word_less_nat_alt)
  qed
  have sr: "sem_release (h\<lparr>heap_sem := 0\<rparr>) = h" using bl(6) heap_okD(10)[OF ok] by (simp add: sem_release_def)
  have "\<not> mem_size_aligned h < ?n" "?n \<noteq> 0" "\<not> a < heap_ptr h" "\<not> heap_ptr h + heap_end h \<le> a"
    using n(2) n0 bl(4,5) by (auto simp: not_less)
  moreover have "nxt (hdr h (a - 16 - heap_ptr h)) - (a - 16 - heap_ptr h) - 16 = ?sz" by (simp add: block_size_def)
  ultimately show ?thesis
    using n(1) bl(3,6) grow sr
    by (simp add: realloc_def Let_def sem_take_def SIZEOF_STRUCT_MEM_def split: option.split sum.split)
qed

text \<open>
  Growing a live region with \<^verbatim>\<open>realloc\<close> beyond its block returns. On \<^verbatim>\<open>NULL\<close> the heap is as before;
  otherwise the old region is released, the new one has the rounded size and starts with all
  bytes of the old one, and no byte of another live region changes.
\<close>

lemma realloc_grows:
  assumes live: "heap_live h L" and a: "L a = Some k" and n: "block_size h a < RT_ALIGN n" "RT_ALIGN n \<le> mem_size_aligned h"
  shows "\<exists>b h'. realloc a n h = Some (Inr (b, h')) \<and> (b = 0 \<longrightarrow> h' = h) \<and>
    (b \<noteq> 0 \<longrightarrow> heap_live h' (L(a := None, b \<mapsto> RT_ALIGN n)) \<and>
      (\<forall>i<unat k. bytes h' (b + of_nat i) = bytes h (a + of_nat i)) \<and>
      (\<forall>c m i. L c = Some m \<longrightarrow> c \<noteq> a \<longrightarrow> i < unat m \<longrightarrow> bytes h' (c + of_nat i) = bytes h (c + of_nat i)))"
proof -
  let ?n = "RT_ALIGN n" and ?sz = "block_size h a"
  note bl = live_block[OF live a]
  have n0: "0 < ?n" using n(1) by (auto simp: word_less_nat_alt)
  obtain b h1 where m: "malloc ?n h = Some (Inr (b, h1))"
    "if b = 0 then h1 = h else (L(a \<mapsto> ?sz)) b = None \<and> heap_live h1 (L(a \<mapsto> ?sz, b \<mapsto> ?n))" "bytes h1 = bytes h"
    using live_malloc[OF bl(2) n0 n(2)] by blast
  have r: "realloc a n h = (if b \<noteq> 0 then
      (case free a (h1\<lparr>bytes := memcpy b a ?sz (bytes h1)\<rparr>) of Inl e \<Rightarrow> Some (Inl e) | Inr h' \<Rightarrow> Some (Inr (b, h')))
    else Some (Inr (b, h1)))"
    using realloc_moves[OF assms] m(1) by simp
  show ?thesis
  proof (cases "b = 0")
    case True
    then show ?thesis using r m(2) by simp
  next
    case False
    let ?h2 = "h1\<lparr>bytes := memcpy b a ?sz (bytes h1)\<rparr>"
    have l1: "heap_live h1 (L(a \<mapsto> ?sz, b \<mapsto> ?n))" and ba: "b \<noteq> a" and Lb: "L b = None"
      using m(2) False by (auto split: if_splits)
    obtain h' where f: "free a ?h2 = Inr h'" "heap_live h' (L(a \<mapsto> ?sz, b \<mapsto> ?n, a := None))" "bytes h' = bytes ?h2"
      using live_free[of ?h2 "L(a \<mapsto> ?sz, b \<mapsto> ?n)" a] l1 ba by auto
    have eq: "L(a \<mapsto> ?sz, b \<mapsto> ?n, a := None) = L(a := None, b \<mapsto> ?n)" using ba by auto
    have w: "unat b + unat ?n \<le> 4294967296" "unat a + unat ?sz \<le> 4294967296" "unat ?sz \<le> unat ?n"
      using live_no_wrap[OF l1, of b ?n] live_no_wrap[OF l1, of a ?sz] ba n(1) by (simp_all add: word_less_nat_alt)
    have cp: "bytes h' = copied b a (unat ?sz) (bytes h)"
      using memcpy_copied[of b ?sz a] w f(3) m(3) by simp
    have new: "bytes h' (b + of_nat i) = bytes h (a + of_nat i)" if "i < unat k" for i
      using copied_in[of b "unat ?sz" i a] w that bl(1) unfolding cp by (simp add: word_le_nat_alt)
    have old: "bytes h' (c + of_nat i) = bytes h (c + of_nat i)" if "L c = Some j" "c \<noteq> a" "i < unat j" for c j i
    proof -
      have "c \<noteq> b" using that(1) Lb by auto
      then have "unat (c + of_nat i) < unat b \<or> unat b + unat ?n \<le> unat (c + of_nat i)"
        using live_outside[OF l1, of b ?n c j i] that by simp
      then show ?thesis using w(3) unfolding cp by (intro copied_out) linarith
    qed
    show ?thesis using r False f(1,2) new old unfolding eq by auto
  qed
qed

lemma small_block:
  "\<exists>h. malloc 16 boot_heap = Some (Inr (0x80100010, h)) \<and> heap_live h [0x80100010 \<mapsto> 16] \<and> block_size h 0x80100010 = 16 \<and>
    mem_size_aligned h = 992"
proof -
  obtain h where h: "malloc 16 boot_heap = Some (Inr (0x80100010, h))" "heap_ok h [(0, True), (32, False)]"
    "heap_ptr h = 0x80100000" "mem_size_aligned h = 992"
    using malloc_some[OF boot_heap_ok[THEN append_Nil_ok], of 16]
    by (auto simp: boot_heap_eq fits_def splits_def want_def RT_ALIGN_def after_take_def)
  have "heap_live h [0x80100010 \<mapsto> 16]" using live_malloc[OF boot_heap_live, of 16] h(1) by (auto simp: boot_heap_eq)
  moreover have "nxt (hdr h 0) = 32" using heap_okD(1)[OF h(2)] by auto
  ultimately show ?thesis using h by (simp add: block_size_def)
qed

text \<open>
  Shrinking a block with \<^verbatim>\<open>realloc\<close>, when the rest can hold a block of its own, keeps the address
  and all data, cuts the block and joins the rest with a free block that follows. The
  lowest-free pointer, where \<^verbatim>\<open>malloc\<close> starts its search, moves only when it pointed at that following
  block: otherwise it stays where it is, even when that is above the new free block.
\<close>

lemma realloc_shrinks:
  assumes ok: "heap_ok h (xs @ (p, True) # ys)" and s: "0 < heap_sem h" and n: "0 < n" "unat n \<le> unat (mem_size_aligned h)"
    and less: "unat p + unat (RT_ALIGN n) + 44 < unat (nxt (hdr h p))"
  shows "\<exists>h'. realloc (heap_ptr h + p + 16) n h = Some (Inr (heap_ptr h + p + 16, h')) \<and>
    seg (hdr h') 0 0 (xs @ (p, True) # (p + 16 + RT_ALIGN n, False) # drop_free ys) (heap_end h) \<and>
    lfree h' = (if \<exists>zs. ys = (lfree h, False) # zs then p + 16 + RT_ALIGN n else lfree h) \<and>
    heap_sem h' = heap_sem h \<and> bytes h' = bytes h"
proof -
  let ?a = "heap_ptr h + p + 16" and ?n = "RT_ALIGN n" and ?p2 = "p + 16 + RT_ALIGN n" and ?e = "heap_end h"
  note okd = heap_okD[OF ok] and ad = block_addr[OF ok] and sp = seg_split[OF heap_okD(1)[OF ok]]
  have al: "unat ?n = 8 * ((unat n + 7) div 8)" "8 dvd unat ?n" "0 < unat ?n"
    using unat_align[of n] n okd(6) by (auto simp: word_less_nat_alt)
  have "8 * ((unat n + 7) div 8) \<le> unat (mem_size_aligned h)" using n(2) okd(8) by (auto elim!: dvdE)
  then have nm: "unat ?n \<le> unat (mem_size_aligned h)" using al(1) by simp
  have "8 dvd unat (nxt (hdr h p))" using seg_end_dvd[OF sp(7)] okd(8,9) by simp
  then have split: "splits h ?n p" using less al(2) sp(5) unfolding splits_def by (elim dvdE) presburger
  have b: "unat (nxt (hdr h p) - p - 16) = unat (nxt (hdr h p)) - unat p - 16"
    using less unat_minus[of p "nxt (hdr h p)"] unat_minus[of 16 "nxt (hdr h p) - p"] by simp
  have n28: "unat (?n + SIZEOF_STRUCT_MEM + MIN_SIZE) = unat ?n + 28"
    using unat_plus[of 28 ?n] nm okd(6) by (simp add: SIZEOF_STRUCT_MEM_def MIN_SIZE_def)
  define h1 where "h1 = cut ?n p h"
  note fr = cut_frame[of ?n p h, folded h1_def]
  have hd: "hdr h1 = hdr (malloc_take ?n p h)"
    unfolding h1_def by (rule shrink_hdr[OF sp(6) _ okd(2) split]) (use sp(2,3) nm okd(6) in simp_all)
  have r: "unat p + 16 + unat ?n \<le> unat (nxt (hdr h p))" "unat ?n + 32 < 4294967296" using less nm okd(6) by simp_all
  have s1: "seg (hdr h1) 0 0 ((xs @ [(p, True)]) @ (?p2, False) # ys) (heap_end h1)" "used (hdr h1 (heap_end h1)) = 1"
    using malloc_take_seg[OF okd(1,2) r al(2,3) okd(3)] split by (simp_all add: hd fr)
  note s2 = plug_next_seg(1,2)[OF s1] note s3 = plug_prev_seg[of "plug_next ?p2 h1", unfolded plug_frame, OF s2]
  have lt: "unat ?p2 + 16 \<le> unat ?e" using seg_range[OF s1(1), of "(?p2, False)"] by (simp add: fr)
  have "used (hdr h1 ?p2) = 0" using seg_split(3)[OF s1(1)] by simp
  then have plug: "plug_holes ?p2 h1 = Inr (plug_prev ?p2 (plug_next ?p2 h1))"
    using lt by (intro plug_holes_joins) (simp_all add: fr word_less_nat_alt)
  have "realloc ?a n h = Some (Inr (?a, sem_release (plug_prev ?p2 (plug_next ?p2 h1))))"
    using plug unfolding h1_def
    by (subst realloc_cut) (use nm al(3) ad(3-5) less b n28 s in \<open>auto simp: word_le_nat_alt word_less_nat_alt\<close>)
  then show ?thesis using s3 plug_next_lfree[OF s1(1)] okd(10)
    by (intro exI[of _ "sem_release (plug_prev ?p2 (plug_next ?p2 h1))"]) (simp add: sem_release_def fr)
qed

end
