(* ===== verification/Numconv.thy ===== *)
theory Numconv
  imports Cstring "HOL-Library.Signed_Division"
begin

unbundle bit_operations_syntax

text \<open>
  Numbers and their text: \<^verbatim>\<open>src/libc/atob.c\<close>, the conversions of \<^verbatim>\<open>src/os/common_fun.c\<close> and the random
  numbers of \<^verbatim>\<open>src/os/rand.c\<close>. A conversion that reports failure is \<open>None\<close>, and so is one that
  would divide by zero or write past its buffer; what a failing conversion leaves in its result
  parameter is not modelled. The build (\<^verbatim>\<open>-mips2\<close> in \<^verbatim>\<open>src/Makefile\<close>) leaves \<^verbatim>\<open>HAVE_QUAD\<close> of
  \<^verbatim>\<open>src/include/stdio.h\<close> undefined, so \<^verbatim>\<open>_atob\<close> works on 32-bit values, and \<^verbatim>\<open>llatob\<close> and \<^verbatim>\<open>llbtoa\<close>
  are not part of the program.
\<close>

type_synonym u64 = "64 word"

section \<open>Text to number\<close>

text \<open>The value of a digit in any base up to 16, as the loops of \<^verbatim>\<open>_atob\<close> and \<^verbatim>\<open>gethex\<close> compute it.\<close>

definition digit_value :: "u8 \<Rightarrow> nat option" where
  "digit_value c =
    (if c \<ge> 0x30 \<and> c \<le> 0x39 then Some (unat (c - 0x30))
     else if c \<ge> 0x61 \<and> c \<le> 0x66 then Some (unat (c - 0x61) + 10)
     else if c \<ge> 0x41 \<and> c \<le> 0x46 then Some (unat (c - 0x41) + 10)
     else None)"

fun atob_loop :: "cstring \<Rightarrow> int \<Rightarrow> u32 \<Rightarrow> u32 option" where
  "atob_loop [] base v = Some v"
| "atob_loop (c # p) base v =
    (case digit_value c of
       None \<Rightarrow> None
     | Some digit \<Rightarrow> if int digit \<ge> base then None else atob_loop p base (v * word_of_int base + of_nat digit))"

definition hex_prefix :: "cstring \<Rightarrow> bool" where
  "hex_prefix p \<longleftrightarrow> at p = 0x30 \<and> (at (tl p) = 0x78 \<or> at (tl p) = 0x58)"

lemma strchr_suffix: "strchr p c = Some q \<Longrightarrow> q \<noteq> [] \<and> length q \<le> length p"
  by (induction p) (auto split: if_splits)

function atob_rec :: "cstring \<Rightarrow> int \<Rightarrow> u32 option" where
  "atob_rec p base =
    (let base = (if hex_prefix p then 16 else base);
         p = (if hex_prefix p then drop 2 p else p)
     in case (if base = 16 then strchr p 0x2e else None) of
          Some q \<Rightarrow>
            if length p - length q > 20 - 1 then None
            else (case atob_rec (take (length p - length q) p) 16 of
                None \<Rightarrow> None
              | Some v1 \<Rightarrow>
                if strchr (tl q) 0x2e \<noteq> None then None
                else case atob_rec (tl q) 16 of
                  None \<Rightarrow> None
                | Some v2 \<Rightarrow> Some (push_bit 16 v1 + v2))
        | None \<Rightarrow> atob_loop p base 0)"
  by pat_completeness auto

termination atob_rec
proof (relation "measure (\<lambda>(p, _). length p)", goal_cases)
  case (2 p base b p' q)
  then have "q \<noteq> []" "length q \<le> length p'" "length p' \<le> length p"
    using strchr_suffix[of p' 46 q] by (auto split: if_splits)
  then show ?case by (cases q) auto
next
  case (3 p base b p' q v1)
  then have "q \<noteq> []" "length q \<le> length p'" "length p' \<le> length p"
    using strchr_suffix[of p' 46 q] by (auto split: if_splits)
  then show ?case by (cases q) auto
qed simp

declare atob_rec.simps [simp del]

definition getbase :: "cstring \<Rightarrow> cstring \<times> int" where
  "getbase p =
    (if at p = 0x30 then
       (if at (tl p) = 0x78 then (drop 2 p, 16)
        else if at (tl p) = 0x74 \<or> at (tl p) = 0x6e then (drop 2 p, 10)
        else if at (tl p) = 0x6f then (drop 2 p, 8)
        else (p, 10))
     else (p, 10))"

definition atob :: "cstring \<Rightarrow> int \<Rightarrow> u32 option" where
  "atob p base =
    (let (p, base) = (if base = 0 then getbase p else (p, base))
     in atob_rec p base)"

fun gethex_loop :: "nat \<Rightarrow> cstring \<Rightarrow> u32 \<Rightarrow> u32 option" where
  "gethex_loop 0 p v = Some v"
| "gethex_loop (Suc n) [] v = None"
| "gethex_loop (Suc n) (c # p) v =
    (case digit_value c of None \<Rightarrow> None | Some digit \<Rightarrow> gethex_loop n p (push_bit 4 v OR of_nat digit))"

definition gethex :: "cstring \<Rightarrow> int \<Rightarrow> u32 option" where
  "gethex p n = gethex_loop (nat n) p 0"

fun panduan_hex :: "cstring \<Rightarrow> bool" where
  "panduan_hex [] \<longleftrightarrow> True"
| "panduan_hex (c # p) \<longleftrightarrow> (if digit_value c \<noteq> None then panduan_hex p else False)"

fun str_to_hex_loop :: "cstring \<Rightarrow> u32 \<Rightarrow> u32" where
  "str_to_hex_loop [] tempx = tempx"
| "str_to_hex_loop (c # p) tempx =
    (case digit_value c of None \<Rightarrow> -1 | Some digit \<Rightarrow> str_to_hex_loop p (push_bit 4 tempx + of_nat digit))"

definition str_to_hex :: "cstring \<Rightarrow> u32" where
  "str_to_hex p = str_to_hex_loop p 0"

fun atoi_skip :: "cstring \<Rightarrow> cstring" where
  "atoi_skip [] = []"
| "atoi_skip (c # s) = (if c = 0x20 \<or> (word_of_int (schar c - 9) :: u32) < 5 then atoi_skip s else c # s)"

fun atoi_digits :: "cstring \<Rightarrow> u32 \<Rightarrow> u32" where
  "atoi_digits [] v = v"
| "atoi_digits (c # s) v =
    (if (word_of_int (schar c - 0x30) :: u32) < 10 then atoi_digits s (v * 10 + word_of_int (schar c) - 0x30) else v)"

definition atoi :: "cstring \<Rightarrow> int" where
  "atoi s =
    (let s = atoi_skip s;
         neg = (at s = 0x2d);
         s = (if at s = 0x2d \<or> at s = 0x2b then tl s else s);
         v = atoi_digits s 0
     in sint (if neg then - v else v))"

section \<open>Number to text\<close>

text \<open>The digits, least significant first, into a buffer of \<open>n\<close> bytes.\<close>

fun btoa_loop :: "nat \<Rightarrow> 'a::len word \<Rightarrow> 'a word \<Rightarrow> u8 \<Rightarrow> u8 list option" where
  "btoa_loop n v base digit =
    (if v = 0 then Some []
     else case n of
       0 \<Rightarrow> None
     | Suc n \<Rightarrow>
       let rem = sint (ucast (v mod base) :: u32);
           v = v div base;
           digit = (if rem \<ge> 0 \<and> rem \<le> 9 then word_of_int (rem + 0x30)
                    else if rem \<ge> 10 \<and> rem \<le> 36 then word_of_int (rem - 10 + 0x61)
                    else digit)
       in map_option (Cons digit) (btoa_loop n v base digit))"

declare btoa_loop.simps [simp del]

text \<open>\<open>junk\<close> is the digit variable before it is set.\<close>

definition btoa_text :: "nat \<Rightarrow> u8 \<Rightarrow> 'a::len word \<Rightarrow> int \<Rightarrow> cstring option" where
  "btoa_text n junk v base =
    (if v = 0 then Some [0x30]
     else
       let neg = (base = -10 \<and> bit v (LENGTH('a) - 1));
           v = (if neg then NOT v + 1 else v);
           base = (if base = -10 then 10 else base)
       in if word_of_int base = (0 :: 'a word) then None
          else case btoa_loop n v (word_of_int base) junk of
            None \<Rightarrow> None
          | Some buf \<Rightarrow> if length buf < n then Some (rev (buf @ (if neg then [0x2d] else []))) else None)"

definition btoa :: "u8 \<Rightarrow> u32 \<Rightarrow> int \<Rightarrow> cstring option" where
  "btoa junk v base = btoa_text 34 junk v base"

section \<open>Random numbers\<close>

definition wrap32 :: "int \<Rightarrow> int" where
  "wrap32 x = sint (word_of_int x :: u32)"

definition rand_r :: "u32 \<Rightarrow> int \<times> u32" where
  "rand_r seed =
    (let X = sint seed;
         X = wrap32 (48271 * (X smod 44488) - 3399 * (X sdiv 44488));
         X = (if X < 0 then wrap32 (X + (2 ^ 31 - 1)) else X)
     in (X, word_of_int X))"

definition rand :: "u32 \<Rightarrow> int \<times> u32" where
  "rand seed = rand_r seed"

definition srand :: "u32 \<Rightarrow> u32 \<Rightarrow> u32" where
  "srand i seed = i"

section \<open>Reading back what was written\<close>

definition digit_char :: "nat \<Rightarrow> u8" where
  "digit_char r = (if r \<le> 9 then of_nat (r + 0x30) else of_nat (r - 10 + 0x61))"

lemma less_16_cases:
  "(r :: nat) < 16 \<Longrightarrow> r = 0 \<or> r = 1 \<or> r = 2 \<or> r = 3 \<or> r = 4 \<or> r = 5 \<or> r = 6 \<or> r = 7 \<or> r = 8 \<or> r = 9 \<or> r = 10 \<or>
    r = 11 \<or> r = 12 \<or> r = 13 \<or> r = 14 \<or> r = 15"
  by arith

lemma digit_value_char: "r < 16 \<Longrightarrow> digit_value (digit_char r) = Some r"
  by (drule less_16_cases) (elim disjE; simp add: digit_char_def digit_value_def)

lemma digit_value_lt: "digit_value c = Some d \<Longrightarrow> c \<noteq> 0x2e \<and> c \<noteq> 0x78 \<and> c \<noteq> 0x58 \<and> c \<noteq> 0"
  by (auto simp: digit_value_def)

lemma btoa_loop_step:
  fixes v B :: "'a::len word"
  assumes "v \<noteq> 0" "unat B = b" "2 \<le> b" "b \<le> 16"
  shows "btoa_loop (Suc n) v B d = map_option (Cons (digit_char (unat v mod b))) (btoa_loop n (v div B) B (digit_char (unat v mod b)))"
proof -
  let ?r = "unat v mod b"
  have "?r < b" using assms(3) by (intro mod_less_divisor) simp
  then have r: "?r < 16" using assms(4) by simp
  have "unat (v mod B) = ?r" using assms(2) by (simp add: unat_mod)
  then have "unat (ucast (v mod B) :: u32) = ?r" using r by (simp add: unsigned_ucast_eq take_bit_eq_mod)
  then have "ucast (v mod B) = (of_nat ?r :: u32)" using r by (simp add: word_unat_eq_iff unat_of_nat)
  then have "sint (ucast (v mod B) :: u32) = int ?r" using less_16_cases[OF r] by (elim disjE) simp_all
  moreover have "(if int ?r \<le> 9 then word_of_int (int ?r + 0x30) else word_of_int (int ?r - 10 + 0x61)) = digit_char ?r"
    by (auto simp: digit_char_def of_nat_diff)
  ultimately show ?thesis using assms(1) r by (subst btoa_loop.simps) (auto simp: Let_def)
qed

lemma btoa_loop_total:
  fixes v B :: "'a::len word"
  assumes "unat B = b" "2 \<le> b" "b \<le> 16" "unat v < b ^ k" "k \<le> n"
  shows "\<exists>cs. btoa_loop n v B d = Some cs \<and> length cs \<le> k \<and> (\<forall>c\<in>set cs. digit_value c \<noteq> None) \<and> (v \<noteq> 0 \<longrightarrow> cs \<noteq> [])"
  using assms(4,5)
proof (induction k arbitrary: n v d)
  case 0
  then have "v = 0" by (simp add: unat_eq_0)
  then show ?case by (subst btoa_loop.simps) simp
next
  case (Suc k)
  show ?case
  proof (cases "v = 0")
    case True
    then show ?thesis by (subst btoa_loop.simps) simp
  next
    case False
    obtain n' where n: "n = Suc n'" "k \<le> n'" using Suc.prems(2) by (cases n) auto
    have "unat (v div B) < b ^ k"
      using Suc.prems(1) assms(1,2) by (simp add: unat_div less_mult_imp_div_less mult.commute)
    from Suc.IH[OF this n(2)] obtain cs where cs: "btoa_loop n' (v div B) B (digit_char (unat v mod b)) = Some cs"
      "length cs \<le> k" "\<forall>c\<in>set cs. digit_value c \<noteq> None" by blast
    have "unat v mod b < 16" using assms(2,3) mod_less_divisor[of b "unat v"] by linarith
    then show ?thesis using cs n(1) btoa_loop_step[OF False assms(1-3), of n' d] by (simp add: digit_value_char)
  qed
qed

lemma atob_btoa_loop:
  fixes v B :: "'a::len word"
  assumes "unat B = b" "2 \<le> b" "b \<le> 16" "btoa_loop n v B d = Some cs"
  shows "atob_loop (rev cs @ p) (int b) 0 = atob_loop p (int b) (of_nat (unat v))"
  using assms(4)
proof (induction n arbitrary: v d cs p)
  case 0
  then show ?case by (subst (asm) btoa_loop.simps) (simp split: if_splits)
next
  case (Suc n)
  show ?case
  proof (cases "v = 0")
    case True
    then show ?thesis using Suc.prems by (subst (asm) btoa_loop.simps) simp
  next
    case False
    let ?r = "unat v mod b"
    obtain cs' where cs: "cs = digit_char ?r # cs'" "btoa_loop n (v div B) B (digit_char ?r) = Some cs'"
      using Suc.prems btoa_loop_step[OF False assms(1-3), of n d] by auto
    have r: "?r < b" using assms(2) by (intro mod_less_divisor) simp
    have "atob_loop (rev cs @ p) (int b) 0 = atob_loop (digit_char ?r # p) (int b) (of_nat (unat (v div B)))"
      using Suc.IH[OF cs(2), of "digit_char ?r # p"] cs(1) by simp
    also have "\<dots> = atob_loop p (int b) (of_nat (unat (v div B)) * of_nat b + of_nat ?r)"
      using digit_value_char[of ?r] r assms(3) by simp
    also have "of_nat (unat (v div B)) * of_nat b + of_nat ?r = (of_nat (unat v) :: u32)"
      using assms(1) by (simp add: unat_div flip: of_nat_mult of_nat_add)
    finally show ?thesis .
  qed
qed

lemma atob_rec_digits:
  assumes "\<forall>c\<in>set p. digit_value c \<noteq> None"
  shows "atob_rec p base = atob_loop p base 0"
proof -
  have "at (tl p) \<noteq> 0x78 \<and> at (tl p) \<noteq> 0x58"
    using assms digit_value_lt by (cases p; cases "tl p") auto
  then have "\<not> hex_prefix p" by (simp add: hex_prefix_def)
  moreover have "strchr p 0x2e = None"
    using assms
  proof (induction p)
    case (Cons c p)
    have "schar c \<noteq> 0x2e" using Cons.prems digit_value_lt[of c] schar_inj[of c "0x2e"] by (auto simp: schar_def)
    then show ?case using Cons by simp
  qed simp
  ultimately show ?thesis by (subst atob_rec.simps) simp
qed

lemma btoa_text_digits:
  fixes v :: "'a::len word"
  assumes "2 \<le> b" "b \<le> 16" "5 \<le> LENGTH('a)" "LENGTH('a) < n"
  shows "\<exists>s. btoa_text n junk v (int b) = Some s \<and> (\<forall>c\<in>set s. digit_value c \<noteq> None) \<and>
    atob_loop s (int b) 0 = Some (of_nat (unat v))"
proof (cases "v = 0")
  case True
  then show ?thesis using assms(1) by (simp add: btoa_text_def digit_value_def)
next
  case False
  let ?B = "word_of_int (int b) :: 'a word"
  have "(2 :: nat) ^ 5 \<le> 2 ^ LENGTH('a)" using assms(3) by (intro power_increasing) auto
  then have B: "unat ?B = b" using assms(2) by (simp add: unat_of_nat)
  have "unat v < b ^ LENGTH('a)"
    using unsigned_less[of v, where ?'a = nat] power_mono[of 2 b "LENGTH('a)"] assms(1) by (meson less_le_trans zero_le)
  from btoa_loop_total[OF B assms(1,2) this, of n junk] obtain cs where
    cs: "btoa_loop n v ?B junk = Some cs" "length cs \<le> LENGTH('a)" "\<forall>c\<in>set cs. digit_value c \<noteq> None" using assms(4) by auto
  have "?B \<noteq> 0" using B assms(1) by auto
  then have "btoa_text n junk v (int b) = Some (rev cs)" using False cs(1,2) assms(1,4) by (simp add: btoa_text_def Let_def)
  moreover have "atob_loop (rev cs) (int b) 0 = Some (of_nat (unat v))"
    using atob_btoa_loop[OF B assms(1,2) cs(1), of "[]"] by simp
  ultimately show ?thesis using cs(3) by auto
qed

section \<open>Schrage's method\<close>

lemma wrap32_id: "- 2147483648 \<le> x \<Longrightarrow> x < 2147483648 \<Longrightarrow> wrap32 x = x"
  by (simp add: wrap32_def signed_of_int signed_take_bit_int_eq_self)

lemma schrage_step:
  assumes "- 2147483647 < y" "y < 2147483647"
  shows "wrap32 y = y" "(if y < 0 then wrap32 (y + (2 ^ 31 - 1)) else y) = y mod 2147483647"
proof -
  show "wrap32 y = y" using assms by (intro wrap32_id) auto
  show "(if y < 0 then wrap32 (y + (2 ^ 31 - 1)) else y) = y mod 2147483647"
    using wrap32_id[of "y + 2147483647"] mod_pos_pos_trivial[of y 2147483647] mod_pos_pos_trivial[of "y + 2147483647" 2147483647] assms
    by auto
qed

lemma rand_r_eq:
  assumes "0 < x" "x < 2147483647"
  shows "rand_r (word_of_int x) = (48271 * x mod 2147483647, word_of_int (48271 * x mod 2147483647))"
    "0 < 48271 * x mod 2147483647"
proof -
  let ?q = "x div 44488" and ?r = "x mod 44488"
  define y where "y = 48271 * ?r - 3399 * ?q"
  have r: "0 \<le> ?r" "?r \<le> 44487" "0 \<le> ?q" "?q \<le> 48271" using assms by (auto simp: zdiv_mono1 pos_imp_zdiv_nonneg_iff)
  then have y: "- 2147483647 < y" "y < 2147483647" unfolding y_def by linarith+
  have "y = 48271 * x - 2147483647 * ?q" unfolding y_def using div_mult_mod_eq[of x 44488] by linarith
  then have cong: "y mod 2147483647 = 48271 * x mod 2147483647" by (simp add: mod_diff_eq[symmetric])
  have "sint (word_of_int x :: u32) = x" using wrap32_id[of x] assms by (simp add: wrap32_def)
  moreover have "x sdiv 44488 = ?q" "x smod 44488 = ?r" using assms by (simp_all add: signed_divide_int_def signed_modulo_int_def)
  ultimately show "rand_r (word_of_int x) = (48271 * x mod 2147483647, word_of_int (48271 * x mod 2147483647))"
    using schrage_step[OF y] cong by (simp only: rand_r_def Let_def y_def[symmetric])
  have "\<not> 2147483647 dvd 48271 * x"
  proof
    assume d: "2147483647 dvd 48271 * x"
    have "coprime 2147483647 (48271 :: int)" by (simp add: coprime_iff_gcd_eq_1 gcd_non_0_int)
    then have "2147483647 dvd x" using d coprime_dvd_mult_right_iff by blast
    then show False using assms zdvd_imp_le by fastforce
  qed
  then show "0 < 48271 * x mod 2147483647" by (simp add: dvd_eq_mod_eq_0 order_less_le)
qed

end
