(* ===== verification/Thread_Memory.thy ===== *)
theory Thread_Memory
  imports Boot Heap_Run Numconv
begin

text \<open>
  Threads on the heap: \<^verbatim>\<open>thread_join_init\<close> with its own calls of \<^verbatim>\<open>malloc\<close>, \<^verbatim>\<open>free\<close> and \<^verbatim>\<open>memset\<close>, and the
  idle thread's cleaning loop with its calls of \<^verbatim>\<open>free\<close>. A thread is named by the address of its
  control block. The fields of the control block and the frame on the stack stay in the kernel
  state; the bytes of the heap show the two blocks as \<^verbatim>\<open>memset\<close> leaves them.
\<close>

section \<open>Operations\<close>

text \<open>The size of \<^verbatim>\<open>struct rt_thread\<close> with 4-byte pointers and natural alignment.\<close>

definition SIZEOF_STRUCT_THREAD :: u32 where "SIZEOF_STRUCT_THREAD = 132"

definition fill :: "u32 \<Rightarrow> u8 \<Rightarrow> u32 \<Rightarrow> heap \<Rightarrow> heap" where
  "fill a c n h = h\<lparr>bytes := memset a c n (bytes h)\<rparr>"

definition free_ret :: "'r \<Rightarrow> u32 \<Rightarrow> heap \<Rightarrow> (heap_halt + 'r \<times> heap) option" where
  "free_ret r a h = (case free a h of Inl e \<Rightarrow> Some (Inl e) | Inr h \<Rightarrow> Some (Inr (r, h)))"

definition thread_alloc :: "int \<Rightarrow> int \<Rightarrow> heap \<Rightarrow> (heap_halt + (u32 option \<times> u32 option) \<times> heap) option" where
  "thread_alloc stackSize priority h =
    (if priority > 32 - 1 then Some (Inr ((None, None), h))
     else case malloc SIZEOF_STRUCT_THREAD h of
       None \<Rightarrow> None
     | Some (Inl e) \<Rightarrow> Some (Inl e)
     | Some (Inr (newThread, h)) \<Rightarrow>
       if newThread = 0 then Some (Inr ((None, None), h))
       else
         let h = fill newThread 0 SIZEOF_STRUCT_THREAD h in
         if stackSize = 0 then free_ret (Some newThread, None) newThread h
         else case malloc (word_of_int stackSize) h of
           None \<Rightarrow> None
         | Some (Inl e) \<Rightarrow> Some (Inl e)
         | Some (Inr (stack, h)) \<Rightarrow>
           if stack = 0 then free_ret (Some newThread, None) newThread h
           else Some (Inr ((Some newThread, Some stack), fill stack 0x23 (word_of_int stackSize) h)))"

definition create_thread ::
  "cstring \<Rightarrow> u32 \<Rightarrow> u32 \<Rightarrow> int \<Rightarrow> int \<Rightarrow> int \<Rightarrow> machine \<Rightarrow> thread_statics \<Rightarrow> heap \<Rightarrow> 'z kernel_scheme \<Rightarrow>
    (heap_halt + tid option \<times> thread_statics \<times> heap \<times> 'z kernel_scheme) option" where
  "create_thread name fn userdata stackSize priority runtick m st h k =
    (case thread_alloc stackSize priority h of
       None \<Rightarrow> None
     | Some (Inl e) \<Rightarrow> Some (Inl e)
     | Some (Inr ((newThread, stack), h)) \<Rightarrow>
       let m = m\<lparr>malloc_tcb := map_option unat newThread, malloc_stack := stack\<rparr>;
           (r, st, k) = thread_join_init name fn userdata stackSize priority runtick m st k
       in Some (Inr (r, st, h, k)))"

fun free_threads :: "(u32 \<times> tid) list \<Rightarrow> heap \<Rightarrow> heap_halt + heap" where
  "free_threads [] h = Inr h"
| "free_threads ((stack, t) # ts) h =
    (case free stack h of
       Inl e \<Rightarrow> Inl e
     | Inr h \<Rightarrow> (case free (of_nat t) h of Inl e \<Rightarrow> Inl e | Inr h \<Rightarrow> free_threads ts h))"

definition idle_round_heap :: "heap \<Rightarrow> 'z kernel_scheme \<Rightarrow> ((halt + heap_halt) + heap \<times> 'z kernel_scheme) option" where
  "idle_round_heap h k =
    (case idle_round k of
       None \<Rightarrow> None
     | Some (Inl e) \<Rightarrow> Some (Inl (Inl e))
     | Some (Inr (freed, k)) \<Rightarrow>
       (case free_threads (rev freed) h of Inl e \<Rightarrow> Some (Inl (Inr e)) | Inr h \<Rightarrow> Some (Inr (h, k))))"

text \<open>The shell command that ends a thread by its number.\<close>

definition kill :: "cstring list \<Rightarrow> 'z kernel_scheme \<Rightarrow> (halt + 'z kernel_scheme) option" where
  "kill argv k =
    (if length argv \<noteq> 2 then Some (Inr k) else killThreadFun (word_of_int (atoi (argv ! 1))) k)"

section \<open>The memory of the threads\<close>

text \<open>
  Each thread owns a live block for its control block and one for its stack, all of them
  different.
\<close>

definition thread_mem :: "(u32 \<rightharpoonup> u32) \<Rightarrow> tid set \<Rightarrow> 'z kernel_scheme \<Rightarrow> bool" where
  "thread_mem R L k \<longleftrightarrow>
    (\<forall>t\<in>L. t < 2 ^ 32 \<and> R (of_nat t) = Some SIZEOF_STRUCT_THREAD \<and>
      R (stack_addr (tcb k t)) = Some (stack_size (tcb k t))) \<and>
    inj_on (\<lambda>t. stack_addr (tcb k t)) L \<and> (\<forall>t\<in>L. \<forall>t'\<in>L. stack_addr (tcb k t) \<noteq> of_nat t')"

lemma thread_mem_cong:
  assumes "thread_mem R L k" "L' \<subseteq> L" "\<And>t. t \<in> L' \<Longrightarrow> stack_addr (tcb k' t) = stack_addr (tcb k t)"
    "\<And>t. t \<in> L' \<Longrightarrow> stack_size (tcb k' t) = stack_size (tcb k t)"
    and "\<And>t. t \<in> L' \<Longrightarrow> R' (of_nat t) = R (of_nat t)" "\<And>t. t \<in> L' \<Longrightarrow> R' (stack_addr (tcb k t)) = R (stack_addr (tcb k t))"
  shows "thread_mem R' L' k'"
  using assms unfolding thread_mem_def inj_on_def by (simp add: subset_iff)

lemma thread_memD:
  assumes "thread_mem R L k" "t \<in> L"
  shows "t < 2 ^ 32" "R (of_nat t) \<noteq> None" "R (stack_addr (tcb k t)) \<noteq> None"
  using assms by (simp_all add: thread_mem_def)

lemma of_nat_tid: "t < 2 ^ 32 \<Longrightarrow> t' < 2 ^ 32 \<Longrightarrow> (of_nat t :: u32) = of_nat t' \<longleftrightarrow> t = t'"
  by (simp add: word_unat_eq_iff unat_of_nat take_bit_nat_eq_self)

lemma live_fill [simp]: "heap_live (fill a c n h) R = heap_live h R"
  by (simp add: fill_def heap_live_def heap_ok_def)

lemma fill_fields [simp]: "mem_size_aligned (fill a c n h) = mem_size_aligned h" "heap_ptr (fill a c n h) = heap_ptr h"
  by (simp_all add: fill_def)

lemma free_ret_live:
  assumes "heap_live h (R(a \<mapsto> n))" "R a = None"
  shows "\<exists>h'. free_ret r a h = Some (Inr (r, h')) \<and> heap_live h' R \<and> mem_size_aligned h' = mem_size_aligned h"
  using live_free[OF assms(1), of a] assms(2) by (auto simp: free_ret_def fun_upd_idem)

text \<open>The allocation returns, and a refused one leaves the live blocks as they were.\<close>

definition alloc_result :: "int \<Rightarrow> (u32 \<rightharpoonup> u32) \<Rightarrow> u32 option \<times> u32 option \<Rightarrow> (u32 \<rightharpoonup> u32) \<Rightarrow> bool" where
  "alloc_result n R r R' \<longleftrightarrow>
    (\<exists>a s. r = (Some a, Some s) \<and> R a = None \<and> R s = None \<and> a \<noteq> s \<and>
      R' = R(a \<mapsto> SIZEOF_STRUCT_THREAD, s \<mapsto> word_of_int n)) \<or> (snd r = None \<and> R' = R)"

definition no_memory :: "int \<Rightarrow> heap \<Rightarrow> bool" where
  "no_memory n h \<longleftrightarrow> (case malloc_call SIZEOF_STRUCT_THREAD h of
     None \<Rightarrow> False
   | Some (a, h) \<Rightarrow> a = 0 \<or> map_option fst (malloc_call (word_of_int n) (fill a 0 SIZEOF_STRUCT_THREAD h)) = Some 0)"

lemma stack_size_word:
  assumes "0 < n" "n \<le> uint (w :: u32)"
  shows "0 < (word_of_int n :: u32)" "(word_of_int n :: u32) \<le> w" "uint (word_of_int n :: u32) = n"
proof -
  have "n < 2 ^ 32" using assms(2) uint_bounded[of w] by simp
  then show u: "uint (word_of_int n :: u32) = n" using assms(1) by (simp add: uint_word_of_int)
  show "0 < (word_of_int n :: u32)" "(word_of_int n :: u32) \<le> w" using assms u by (simp_all add: word_less_def word_le_def)
qed

lemma thread_alloc_live:
  assumes h: "heap_live h R" and sz: "SIZEOF_STRUCT_THREAD \<le> mem_size_aligned h"
    and n: "0 \<le> n" "n \<le> uint (mem_size_aligned h)"
  shows "\<exists>r h' R'. thread_alloc n prio h = Some (Inr (r, h')) \<and> heap_live h' R' \<and> alloc_result n R r R' \<and>
    (snd r = None \<longleftrightarrow> prio > 31 \<or> n = 0 \<or> no_memory n h) \<and> mem_size_aligned h' = mem_size_aligned h"
proof (cases "prio > 31")
  case True
  then show ?thesis using h by (simp add: thread_alloc_def alloc_result_def)
next
  case p: False
  let ?z = "SIZEOF_STRUCT_THREAD"
  have z: "0 < ?z" by (simp add: SIZEOF_STRUCT_THREAD_def)
  obtain a h1 where 1: "malloc ?z h = Some (Inr (a, h1))" "if a = 0 then h1 = h else R a = None \<and> heap_live h1 (R(a \<mapsto> ?z))"
      "mem_size_aligned h1 = mem_size_aligned h"
    using live_malloc[OF h z sz] by blast
  let ?h = "fill a 0 ?z h1"
  consider "a = 0" | "a \<noteq> 0" "n = 0" | "a \<noteq> 0" "0 < n" using n(1) by linarith
  then show ?thesis
  proof cases
    case 1
    then show ?thesis using p \<open>malloc ?z h = _\<close> h \<open>if a = 0 then _ else _\<close> by (auto simp: thread_alloc_def alloc_result_def no_memory_def malloc_call_def)
  next
    case 2
    then have "heap_live ?h (R(a \<mapsto> ?z))" "R a = None" using 1(2) by simp_all
    from free_ret_live[OF this, of "(Some a, None)"] show ?thesis
      using p 1 2 by (auto simp: thread_alloc_def alloc_result_def Let_def)
  next
    case 3
    then have l: "heap_live ?h (R(a \<mapsto> ?z))" "R a = None" using 1(2) by simp_all
    note w = stack_size_word[OF 3(2) n(2)]
    obtain s h2 where 2: "malloc (word_of_int n) ?h = Some (Inr (s, h2))"
        "if s = 0 then h2 = ?h else (R(a \<mapsto> ?z)) s = None \<and> heap_live h2 (R(a \<mapsto> ?z, s \<mapsto> word_of_int n))"
        "mem_size_aligned h2 = mem_size_aligned h"
      using live_malloc[OF l(1) w(1)] w(2) 1(3) by auto
    show ?thesis
    proof (cases "s = 0")
      case True
      then show ?thesis
        using free_ret_live[OF l, of "(Some a, None)"] p 1 2 3
        by (auto simp: thread_alloc_def alloc_result_def no_memory_def malloc_call_def Let_def)
    next
      case False
      then have "alloc_result n R (Some a, Some s) (R(a \<mapsto> ?z, s \<mapsto> word_of_int n))"
        using 2(2) l(2) by (auto simp: alloc_result_def split: if_splits)
      then show ?thesis using False p 1 2 3 by (fastforce simp: thread_alloc_def no_memory_def malloc_call_def Let_def)
    qed
  qed
qed

section \<open>Creation\<close>

lemma live_end:
  assumes "heap_live h R" "R a = Some n"
  shows "uint a + uint n < 2 ^ 32" "a \<noteq> 0"
proof -
  from assms(1) obtain bs where "heap_ok h bs" by (rule heap_liveE)
  then have "unat (heap_ptr h) + unat (heap_end h) < 4294967296" using heap_okD[of h bs] by simp
  then have "int (unat a + unat n) < int 4294967296"
    using live_inside(3)[OF assms] by (simp only: of_nat_less_iff)
  then show "uint a + uint n < 2 ^ 32" by simp
  show "a \<noteq> 0" using live_inside(2)[OF assms] by auto
qed

lemma join_tcb_mem:
  "stack_addr (join_tcb name fn ud n prio run m st addr) = addr" "stack_size (join_tcb name fn ud n prio run m st addr) = word_of_int n"
  "thread_id (join_tcb name fn ud n prio run m st addr) = threadIdIndex st" "thread_name (join_tcb name fn ud n prio run m st addr) = take 23 name"
  by (simp_all add: join_tcb_def new_tcb_def Let_def split_def RT_NAME_MAX_def strlen_length)

text \<open>
  What a creation does to the memory, whatever the state of the scheduler: a new thread has a
  fresh control block and a fresh stack, a refusal gives back what it took.
\<close>

definition created :: "int \<Rightarrow> machine \<Rightarrow> tid \<Rightarrow> machine \<Rightarrow> bool" where
  "created n m t m' \<longleftrightarrow> mem_ok n t m' \<and> (\<exists>a s. m' = m\<lparr>malloc_tcb := a, malloc_stack := s\<rparr>)"

lemma create_mem:
  assumes h: "heap_live h R" and sz: "SIZEOF_STRUCT_THREAD \<le> mem_size_aligned h"
    and n: "0 \<le> n" "n \<le> uint (mem_size_aligned h)" and L: "thread_mem R L k"
  obtains (new) t m' h' R' where "prio < 32" "n \<noteq> 0" "\<not> no_memory n h" "t \<notin> L" "created n m t m'" "heap_live h' R'" "R \<subseteq>\<^sub>m R'"
      "mem_size_aligned h' = mem_size_aligned h"
      "create_thread name fn ud n prio run m st h k = Some (Inr (Some t, fst (snd (thread_join_init name fn ud n prio run m' st k)),
        h', snd (snd (thread_join_init name fn ud n prio run m' st k))))"
      "thread_mem R' (insert t L) (snd (snd (thread_join_init name fn ud n prio run m' st k)))"
  | (refused) h' where "prio > 31 \<or> n = 0 \<or> no_memory n h" "heap_live h' R" "mem_size_aligned h' = mem_size_aligned h"
      "create_thread name fn ud n prio run m st h k =
        Some (Inr (None, st, h', if rt_current_thread k = None then k else k\<lparr>irq := False\<rparr>))"
proof -
  obtain r h' R' where r: "thread_alloc n prio h = Some (Inr (r, h'))" "heap_live h' R'" "alloc_result n R r R'"
      "snd r = None \<longleftrightarrow> prio > 31 \<or> n = 0 \<or> no_memory n h" "mem_size_aligned h' = mem_size_aligned h"
    using thread_alloc_live[OF h sz n, of prio] by metis
  show thesis
  proof (cases "snd r")
    case None
    then have "R' = R" using r(3) by (auto simp: alloc_result_def)
    moreover have "thread_join_init name fn ud n prio run (m\<lparr>malloc_tcb := map_option unat (fst r), malloc_stack := None\<rparr>) st k =
        (None, st, if rt_current_thread k = None then k else k\<lparr>irq := False\<rparr>)"
      by (auto simp: thread_join_init_def irq_defs Let_def split: option.splits)
    ultimately show thesis using refused[of h'] r None by (cases r) (simp add: create_thread_def)
  next
    case (Some s)
    then obtain a where a: "r = (Some a, Some s)" "R a = None" "R s = None" "a \<noteq> s"
        "R' = R(a \<mapsto> SIZEOF_STRUCT_THREAD, s \<mapsto> word_of_int n)" "prio < 32" "n \<noteq> 0" "\<not> no_memory n h"
      using r(3,4) by (auto simp: alloc_result_def)
    let ?m = "m\<lparr>malloc_tcb := Some (unat a), malloc_stack := Some s\<rparr>" and ?t = "unat a"
    let ?j = "thread_join_init name fn ud n prio run ?m st k"
    have n32: "uint (word_of_int n :: u32) = n" using stack_size_word(3)[of n] n a(7) by simp
    have "created n m ?t ?m" using live_end(1)[OF r(2), of s "word_of_int n"] a(5) n32 by (auto simp: created_def mem_ok_def)
    moreover have t: "?t \<notin> L" using L a(2) by (auto simp: thread_mem_def)
    moreover have "R \<subseteq>\<^sub>m R'" using a(2,3,5) by (auto simp: map_le_def)
    moreover have "thread_mem R' (insert ?t L) (snd (snd ?j))"
    proof -
      have "fst ?j = Some ?t" and tcb: "tcb (snd (snd ?j)) t' = (if t' = ?t then join_tcb name fn ud n prio run ?m st s else tcb k t')" for t'
        using join_state[of prio ?m ?t n s name fn ud run st k] a(6,7) by (simp_all add: upd_links_def upd_tcb_def)
      have "t' < 2 ^ 32" "R (of_nat t') \<noteq> None" "R (stack_addr (tcb k t')) \<noteq> None" if "t' \<in> L" for t'
        using L that by (simp_all add: thread_mem_def)
      then show ?thesis
        using L t a(2-5) by (auto simp: thread_mem_def tcb join_tcb_mem inj_on_def u32_lt)
    qed
    moreover have "fst ?j = Some ?t" using join_state(1)[of prio ?m ?t n s name fn ud run st k] a(6,7) by simp
    ultimately show thesis
      using new[of ?t ?m h' R'] a r by (simp add: create_thread_def split_def Let_def prod_eq_iff)
  qed
qed


lemma create_sys:
  assumes k: "sys_inv S L q k" "rt_current_thread k = Some c" "rt_interrupt_nest k = 0" and h: "heap_live h R" "thread_mem R L k"
    and sz: "SIZEOF_STRUCT_THREAD \<le> mem_size_aligned h" and a: "0 \<le> prio" "n = 0 \<or> 160 \<le> n" "n \<le> uint (mem_size_aligned h)"
  shows "\<exists>r st' h' k'. create_thread name fn ud n prio run m st h k = Some (Inr (r, st', h', k')) \<and>
    (r = None \<longleftrightarrow> 31 < prio \<or> n = 0 \<or> no_memory n h) \<and>
    (case r of
       None \<Rightarrow> heap_live h' R \<and> st' = st \<and> k' = k\<lparr>irq := False\<rparr>
     | Some t \<Rightarrow> t \<notin> L \<and> sys_inv S (insert t L) (join_queue t (nat prio) q) k' \<and> statu_of k' t = RT_THREAD_READY \<and>
         thread_id (tcb k' t) = threadIdIndex st \<and> thread_name (tcb k' t) = take 23 name \<and>
         (\<forall>t'\<in>L. tcb k' t' = tcb k t') \<and> irq k' = irq k \<and> rt_current_thread k' = Some c \<and> (\<exists>R'. R \<subseteq>\<^sub>m R' \<and> heap_live h' R' \<and> thread_mem R' (insert t L) k'))"
proof -
  have n0: "0 \<le> n" using a(2) by auto
  show ?thesis
  proof (rule create_mem[OF h(1) sz n0 a(3) h(2), of prio m name fn ud run st])
    fix t m' h' R'
    let ?j = "snd (thread_join_init name fn ud n prio run m' st k)"
    assume g: "prio < 32" "n \<noteq> 0" "\<not> no_memory n h" "t \<notin> L" "created n m t m'" "heap_live h' R'" "R \<subseteq>\<^sub>m R'"
      "create_thread name fn ud n prio run m st h k = Some (Inr (Some t, fst ?j, h', snd ?j))" "thread_mem R' (insert t L) (snd ?j)"
    then obtain addr where m': "malloc_tcb m' = Some t" "malloc_stack m' = Some addr" "uint addr + n < 2 ^ 32" "160 \<le> n"
      using a(2) by (auto simp: created_def mem_ok_def)
    have "statu_of (snd ?j) t = RT_THREAD_READY" "irq (snd ?j) = irq k" "rt_current_thread (snd ?j) = rt_current_thread k"
        "thread_id (tcb (snd ?j) t) = threadIdIndex st" "thread_name (tcb (snd ?j) t) = take 23 name"
      using join_state(2)[OF g(1) m'(1) g(2) m'(2), of name fn ud run st k] join_tcb_mem(3,4)[of name fn ud n prio run m' st addr]
        join_tcb_fields(3)[OF a(1) g(1), of name fn ud n run m' st addr] by (simp_all add: upd_links_def upd_tcb_def)
    moreover have "\<forall>t'\<in>L. tcb (snd ?j) t' = tcb k t'"
      using join_state(2)[OF g(1) m'(1) g(2) m'(2), of name fn ud run st k] g(4) by (auto simp: upd_links_def upd_tcb_def)
    moreover have "cpu k \<noteq> Some t"
      using sys_invD(5)[OF k(1)] k(2,3) kinv_current[OF sys_invD(1)[OF k(1)] k(2)] g(4) by (auto simp: ctx_ok_def between_interrupts_def)
    ultimately show ?thesis using g join_sys_inv[OF k(1) g(4) _ a(1) g(1) m'(1,2,4,3), of name fn ud run st] k(2) by auto
  next
    fix h'
    assume "31 < prio \<or> n = 0 \<or> no_memory n h" "heap_live h' R"
      "create_thread name fn ud n prio run m st h k =
        Some (Inr (None, st, h', if rt_current_thread k = None then k else k\<lparr>irq := False\<rparr>))"
    then show ?thesis using k(2) by auto
  qed
qed

definition stacks_apart :: "'z kernel_scheme \<Rightarrow> tid \<Rightarrow> tid \<Rightarrow> bool" where
  "stacks_apart k t t' \<longleftrightarrow>
    unat (stack_addr (tcb k t)) + unat (stack_size (tcb k t)) \<le> unat (stack_addr (tcb k t')) \<or>
    unat (stack_addr (tcb k t')) + unat (stack_size (tcb k t')) \<le> unat (stack_addr (tcb k t))"

lemma stacks_are_apart:
  assumes "heap_live h R" "thread_mem R L k" "t \<in> L" "t' \<in> L" "t \<noteq> t'"
  shows "stacks_apart k t t'"
proof -
  have "stack_addr (tcb k t) \<noteq> stack_addr (tcb k t')" using assms(2-5) by (auto simp: thread_mem_def inj_on_def)
  then show ?thesis using mem.apart[OF assms(1)] assms(2-4) unfolding stacks_apart_def thread_mem_def by blast
qed

section \<open>Reclaiming\<close>

lemma free_threads_live:
  assumes "heap_live h R" "distinct ts" "inj_on sa (set ts)" "inj_on (of_nat :: nat \<Rightarrow> u32) (set ts)"
    "\<forall>t\<in>set ts. R (of_nat t) \<noteq> None \<and> R (sa t) \<noteq> None" "\<forall>t\<in>set ts. \<forall>t'\<in>set ts. sa t \<noteq> of_nat t'"
  shows "\<exists>h'. free_threads (map (\<lambda>t. (sa t, t)) ts) h = Inr h' \<and>
    heap_live h' (R |` (- (sa ` set ts \<union> of_nat ` set ts))) \<and> mem_size_aligned h' = mem_size_aligned h"
  using assms
proof (induction ts arbitrary: h R)
  case Nil
  then show ?case by (simp add: restrict_map_def)
next
  case (Cons t ts)
  let ?R = "R(sa t := None, of_nat t := None)"
  obtain h1 where 1: "free (sa t) h = Inr h1" "heap_live h1 (R(sa t := None))" "mem_size_aligned h1 = mem_size_aligned h"
    using live_free[OF Cons.prems(1), of "sa t"] Cons.prems(5) by auto
  obtain h2 where 2: "free (of_nat t) h1 = Inr h2" "heap_live h2 ?R" "mem_size_aligned h2 = mem_size_aligned h"
    using live_free[OF 1(2), of "of_nat t"] Cons.prems(5,6) 1(3) by (auto simp: eq_commute)
  have "\<forall>t'\<in>set ts. ?R (of_nat t') \<noteq> None \<and> ?R (sa t') \<noteq> None"
    using Cons.prems(2-6) by (fastforce simp: inj_on_def)
  moreover have "distinct ts" "inj_on sa (set ts)" "inj_on (of_nat :: nat \<Rightarrow> u32) (set ts)"
      "\<forall>t\<in>set ts. \<forall>t'\<in>set ts. sa t \<noteq> of_nat t'" using Cons.prems(2-4,6) by simp_all
  ultimately obtain h' where "free_threads (map (\<lambda>t. (sa t, t)) ts) h2 = Inr h'"
      "heap_live h' (?R |` (- (sa ` set ts \<union> of_nat ` set ts)))" "mem_size_aligned h' = mem_size_aligned h2"
    using Cons.IH[OF 2(2)] by blast
  moreover have "?R |` (- (sa ` set ts \<union> of_nat ` set ts)) = R |` (- (sa ` set (t # ts) \<union> of_nat ` set (t # ts)))"
    by (auto simp: restrict_map_def fun_eq_iff)
  ultimately show ?case using 1 2 by simp
qed


text \<open>The blocks of a set of threads.\<close>

definition thread_blocks :: "'z kernel_scheme \<Rightarrow> tid set \<Rightarrow> u32 set" where
  "thread_blocks k T = (\<lambda>t. stack_addr (tcb k t)) ` T \<union> of_nat ` T"

lemma reclaim_mem:
  assumes k: "sys_inv S L q k" and c: "rt_current_thread k = Some c" "statu_of k c \<noteq> RT_THREAD_CLOSE"
    and d: "q Dead = map TList ts" "ts \<noteq> []" and h: "heap_live h R" "thread_mem R L k"
  shows "\<exists>h' k' q'. idle_round_heap h k = Some (Inr (h', k')) \<and> sys_inv S (L - set ts) q' k' \<and> q' Dead = [] \<and> irq k' = irq k \<and>
    heap_live h' (R |` (- thread_blocks k (set ts))) \<and> thread_mem (R |` (- thread_blocks k (set ts))) (L - set ts) k'"
proof -
  let ?sa = "\<lambda>t. stack_addr (tcb k t)" and ?R = "R |` (- thread_blocks k (set ts))"
  obtain k' q' where r: "idle_round k = Some (Inr (rev (map (\<lambda>t. (?sa t, t)) ts), k'))" "sys_inv S (L - set ts) q' k'"
      "q' Dead = []" "irq k' = irq k" "tcb k' = tcb k"
    using idle_clean_total[OF k c d] by blast
  have ts: "set ts \<subseteq> L" "distinct ts"
    using kinv_in_L(1)[OF sys_invD(1)[OF k], of Dead] kinv_distinct[OF sys_invD(1)[OF k], of Dead] d(1)
    by (auto simp: distinct_map)
  have inj: "inj_on ?sa L" "inj_on (of_nat :: nat \<Rightarrow> u32) L" "\<forall>t\<in>L. \<forall>t'\<in>L. ?sa t \<noteq> of_nat t'"
    using h(2) of_nat_tid thread_memD(1)[OF h(2)] unfolding thread_mem_def by (blast, meson inj_onI, blast)
  then have inj3: "\<forall>t\<in>L. \<forall>t'\<in>L. of_nat t' \<noteq> ?sa t" by metis
  have "\<forall>t\<in>set ts. R (of_nat t) \<noteq> None \<and> R (?sa t) \<noteq> None" "\<forall>t\<in>set ts. \<forall>t'\<in>set ts. ?sa t \<noteq> of_nat t'"
    using ts(1) inj(3) thread_memD[OF h(2)] by blast+
  from free_threads_live[OF h(1) ts(2) inj_on_subset[OF inj(1) ts(1)] inj_on_subset[OF inj(2) ts(1)] this]
  obtain h' where "free_threads (map (\<lambda>t. (?sa t, t)) ts) h = Inr h'" "heap_live h' ?R"
    unfolding thread_blocks_def by blast
  moreover have "thread_mem ?R (L - set ts) k'"
  proof (rule thread_mem_cong[OF h(2)])
    have "of_nat t \<notin> thread_blocks k (set ts)" "?sa t \<notin> thread_blocks k (set ts)" if "t \<in> L - set ts" for t
    proof -
      have "of_nat t \<notin> (of_nat :: nat \<Rightarrow> u32) ` set ts" "?sa t \<notin> ?sa ` set ts"
        using that ts(1) inj_on_image_mem_iff[OF inj(1), of t "set ts"] inj_on_image_mem_iff[OF inj(2), of t "set ts"] by blast+
      moreover have "of_nat t \<notin> ?sa ` set ts" "?sa t \<notin> of_nat ` set ts"
        using that ts(1) inj(3) inj3 by blast+
      ultimately show "of_nat t \<notin> thread_blocks k (set ts)" "?sa t \<notin> thread_blocks k (set ts)"
        unfolding thread_blocks_def by blast+
    qed
    then show "?R (of_nat t) = R (of_nat t)" "?R (?sa t) = R (?sa t)" if "t \<in> L - set ts" for t using that by simp_all
  qed (use r(5) in simp_all)
  ultimately show ?thesis using r by (auto simp: idle_round_heap_def rev_map)
qed

lemma remove1_TList: "remove1 (TList t) (map TList ts) = map TList (remove1 t ts)"
  by (induction ts) auto

lemma kill_reclaim:
  assumes k: "sys_inv S L q k" and c: "rt_current_thread k = Some c" "statu_of k c \<noteq> RT_THREAD_CLOSE"
    and d: "q Dead = map TList ts" and h: "heap_live h R" "thread_mem R L k"
    and t: "find_result q ident k = Some t" "\<not> protected (thread_name (tcb k t))" "t \<noteq> c"
  shows "\<exists>k1 h' k' q'. killThreadFun ident k = Some (Inr k1) \<and> idle_round_heap h k1 = Some (Inr (h', k')) \<and>
    sys_inv S (L - insert t (set ts)) q' k' \<and> q' Dead = [] \<and> irq k' = irq k \<and>
    heap_live h' (R |` (- thread_blocks k (insert t (set ts)))) \<and>
    thread_mem (R |` (- thread_blocks k (insert t (set ts)))) (L - insert t (set ts)) k'"
proof -
  let ?k = "close_thread t k" and ?ts = "t # remove1 t ts"
  note ki = sys_invD(1)[OF k]
  have f: "find_thread_by_id ident (k\<lparr>irq := False\<rparr>) = Some (Inr (find_result q ident k))"
    using find_thread_eq[of "{}" S L q "k\<lparr>irq := False\<rparr>" ident] ki by (simp add: frame_simps find_result_def)
  have tL: "t \<in> L" using find_result_spec(2)[OF ki t(1)] by simp
  have kill: "killThreadFun ident k = Some (Inr ?k)"
    using f t c(1) by (simp add: killThreadFun_def irq_defs protected_def close_thread_irq close_thread_frame)
  have fr: "stack_addr (tcb ?k t') = stack_addr (tcb k t')" "stack_size (tcb ?k t') = stack_size (tcb k t')" for t'
    by (simp_all add: close_thread_eq rt_schedule_remove_thread_eq rt_timer_stop_eq set_statu_def upd_tcb_def upd_links_def upd_timer_def)
  have "distinct ts" using kinv_distinct[OF ki, of Dead] d by (simp add: distinct_map)
  then have ts: "set ?ts = insert t (set ts)" by auto
  have dq: "dead_queue t q Dead = map TList ?ts" using d by (simp add: dead_queue_def unqueue_def stop_queue_def remove1_TList)
  have "rt_current_thread ?k = Some c" "statu_of ?k c \<noteq> RT_THREAD_CLOSE" using c t(3) by (simp_all add: close_thread_frame)
  moreover have "thread_mem R L ?k" by (rule thread_mem_cong[OF h(2)]) (use fr in simp_all)
  moreover have "thread_blocks ?k T = thread_blocks k T" for T by (simp add: thread_blocks_def fr)
  ultimately show ?thesis
    using reclaim_mem[OF close_thread_sys_inv[OF k tL] _ _ dq _ h(1)] kill ts by (auto simp: close_thread_frame)
qed

end
