(* ===== verification/Memory_Claims.thy ===== *)
theory Memory_Claims
  imports Thread_Memory Sample
begin

text \<open>
  The properties of threads on the heap. Their instances are at a system with one running thread
  whose memory comes from a heap of 16 KB at \<^verbatim>\<open>0x81b00000\<close>.
\<close>

section \<open>Allocation from the end of the heap\<close>

lemma malloc_tail:
  assumes ok: "heap_ok h (xs @ [(p, False)])" "\<forall>b\<in>set xs. snd b" "heap_sem h = 1" "0 < n"
    and room: "unat p + unat n + 72 \<le> unat (mem_size_aligned h)"
  shows "\<exists>a h'. malloc n h = Some (Inr (a, h')) \<and> a \<noteq> 0 \<and> heap_ok h' (xs @ [(p, True), (p + 16 + want n, False)]) \<and>
    heap_sem h' = 1 \<and> mem_size_aligned h' = mem_size_aligned h"
proof -
  have m: "16 \<le> unat (mem_size_aligned h)" "unat n \<le> unat (mem_size_aligned h)" using room by simp_all
  have nx: "unat (nxt (hdr h p)) = unat (mem_size_aligned h) + 16"
    using seg_split(7)[OF heap_okD(1)[OF ok(1)]] heap_okD(2,6)[OF ok(1)] unat_plus[of "mem_size_aligned h" 16] by simp
  have w: "unat (want n) \<le> unat n + 23" 
    using want_bounds(1)[OF ok(1) m] times_div_less_eq_dividend[of 8 "unat n + 7"] by linarith
  then have f: "fits h (want n) (p, False)" "splits h (want n) p" using room nx by (simp_all add: fits_def splits_def)
  have "\<forall>b\<in>set xs. \<not> fits h (want n) b" using ok(2) by (simp add: fits_def)
  then obtain h' where h': "malloc n h = Some (Inr (heap_ptr h + p + 16, h'))" "heap_ok h' (after_take h (want n) xs p [])"
      "heap_sem h' = heap_sem h" "heap_ptr h' = heap_ptr h" "mem_size_aligned h' = mem_size_aligned h"
    using malloc_some[OF ok(1) m(1) ok(4) m(2)] f(1) ok(3) by auto
  moreover have "heap_ptr h + p + 16 \<noteq> 0" using block_addr(3)[of h' xs p] h'(2,4) by (simp add: after_take_def)
  ultimately show ?thesis using f(2) ok(3) by (simp add: after_take_def)
qed

lemma fill_ok [simp]: "heap_ok (fill a c n h) bs = heap_ok h bs" "heap_sem (fill a c n h) = heap_sem h"
  by (simp_all add: fill_def heap_ok_def)

lemma alloc_tail:
  assumes ok: "heap_ok h (xs @ [(p, False)])" "\<forall>b\<in>set xs. snd b" "heap_sem h = 1" "0 < n" "n < 2 ^ 31" "prio < 32"
    and room: "uint p + n + 312 \<le> uint (mem_size_aligned h)"
  shows "\<exists>r h'. thread_alloc n prio h = Some (Inr (r, h')) \<and> snd r \<noteq> None \<and> heap_sem h' = 1 \<and>
    heap_ok h' (xs @ [(p, True), (p + 152, True), (p + 168 + want (word_of_int n), False)]) \<and>
    mem_size_aligned h' = mem_size_aligned h"
proof -
  let ?z = "SIZEOF_STRUCT_THREAD" and ?w = "word_of_int n :: u32"
  have z: "0 < ?z" "unat ?z = 132" "p + 16 + want ?z = p + 152"
    by (simp_all add: SIZEOF_STRUCT_THREAD_def want_def RT_ALIGN_def)
  have "uint ?w = n" using ok(4,5) by (simp add: uint_word_of_int)
  then have w: "0 < ?w" "int (unat ?w) = n" using ok(4) by (simp_all add: word_less_def)
  have r: "unat p + unat ?w + 312 \<le> unat (mem_size_aligned h)" 
  proof -
    have "int (unat p + unat ?w + 312) \<le> int (unat (mem_size_aligned h))" using room w(2) by simp
    then show ?thesis by (simp only: of_nat_le_iff)
  qed
  then have u: "unat (p + 152) = unat p + 152" using u32_lt[of "mem_size_aligned h"] by (subst unat_plus) simp_all
  obtain a h1 where 1: "malloc ?z h = Some (Inr (a, h1))" "a \<noteq> 0" "heap_ok h1 (xs @ [(p, True), (p + 152, False)])"
      "heap_sem h1 = 1" "mem_size_aligned h1 = mem_size_aligned h"
    using malloc_tail[OF ok(1-3) z(1)] r z(2,3) by auto
  let ?h = "fill a 0 ?z h1"
  obtain s h2 where 2: "malloc ?w ?h = Some (Inr (s, h2))" "s \<noteq> 0" "heap_sem h2 = 1"
      "heap_ok h2 ((xs @ [(p, True)]) @ [(p + 152, True), (p + 152 + 16 + want ?w, False)])" "mem_size_aligned h2 = mem_size_aligned h"
    using malloc_tail[of ?h "xs @ [(p, True)]" "p + 152" ?w] 1 w(1) ok(2) r u by auto
  then show ?thesis using 1 ok(4,6) by (simp add: thread_alloc_def Let_def add.commute[of 168])
qed


section \<open>A system with one thread\<close>

definition mem_heap :: heap where
  "mem_heap = rt_system_heap_init 0x81b00000 0x81b04000 \<lparr>hdr = \<lambda>_. \<lparr>magic = 0, used = 0, nxt = 0, prv = 0\<rparr>, bytes = \<lambda>_. 0xAA,
    heap_ptr = 0, heap_end = 0, lfree = 0, mem_size_aligned = 0, used_mem = 0, max_mem = 0, heap_sem = 0, heap_waiting = 0, none_ready = False\<rparr>"

definition one_created :: "tid option \<times> thread_statics \<times> heap \<times> ipc" where
  "one_created = projr (the (create_thread [105] 0x80211000 0 2048 20 8 (sample_machine 0 0) sample_statics mem_heap (thread_init raw_ipc)))"

definition one_heap :: heap where "one_heap = fst (snd (snd one_created))"
definition one_tid :: tid where "one_tid = the (fst one_created)"
definition one_kernel :: ipc where "one_kernel = projr (thread_start (snd (snd (snd one_created))))"

lemma mem_heap_facts:
  "heap_live mem_heap Map.empty" "mem_size_aligned mem_heap = 16352" "heap_ok mem_heap [(0, False)]" "heap_sem mem_heap = 1"
proof -
  show "heap_live mem_heap Map.empty" unfolding mem_heap_def by (rule init_live) (simp_all add: RT_ALIGN_def RT_ALIGN_DOWN_def)
  show "heap_ok mem_heap [(0, False)]" "heap_sem mem_heap = 1"
    unfolding mem_heap_def by (rule init_heap_ok; simp add: RT_ALIGN_def RT_ALIGN_DOWN_def)+
  show "mem_size_aligned mem_heap = 16352"
    by (simp add: mem_heap_def RT_ALIGN_def RT_ALIGN_DOWN_def rt_system_heap_init_def SIZEOF_STRUCT_MEM_def upd_hdr_def Let_def)
qed

definition one_queues :: "node \<Rightarrow> node list" where
  "one_queues = unqueue one_tid (join_queue one_tid 20 (\<lambda>_. []))"

lemma one_system:
  "\<exists>R. sys_inv {} {one_tid} one_queues one_kernel \<and> heap_live one_heap R \<and> thread_mem R {one_tid} one_kernel"
  "rt_current_thread one_kernel = Some one_tid" "statu_of one_kernel one_tid = RT_THREAD_RUNNING" "rt_interrupt_nest one_kernel = 0"
  "heap_ok one_heap [(0, True), (152, True), (2216, False)]" "heap_sem one_heap = 1" "mem_size_aligned one_heap = 16352"
proof -
  let ?k = "thread_init raw_ipc" and ?st = sample_statics and ?m = "sample_machine 0 0"
  have cur: "rt_current_thread raw_ipc = None" "cpu raw_ipc = None" "rt_interrupt_nest raw_ipc = 0" "\<not> rt_thread_switch_interrupt_flag raw_ipc"
    by (simp_all add: raw_ipc_def)
  have k0: "queue_good {} {} (\<lambda>_. []) ?k"
    using thread_init_kinv[OF cur(1)] cur
    by (simp add: queue_good_def stacks_ok_def thread_init_def upd_links_def del: upt_rec_numeral)
  have al: "\<exists>r h'. thread_alloc 2048 20 mem_heap = Some (Inr (r, h')) \<and> snd r \<noteq> None \<and> heap_sem h' = 1 \<and>
      heap_ok h' [(0, True), (152, True), (2216, False)] \<and> mem_size_aligned h' = 16352"
    using alloc_tail[of mem_heap "[]" 0 2048 20] mem_heap_facts by (simp add: want_def RT_ALIGN_def)
  have sz: "SIZEOF_STRUCT_THREAD \<le> mem_size_aligned mem_heap" "2048 \<le> uint (mem_size_aligned mem_heap)"
    by (simp_all add: mem_heap_facts SIZEOF_STRUCT_THREAD_def)
  have mm: "thread_mem Map.empty {} ?k" by (simp add: thread_mem_def)
  obtain t m' h' R' where c: "t \<notin> {}" "created 2048 ?m t m'" "heap_live h' R'"
      "create_thread [105] 0x80211000 0 2048 20 8 ?m ?st mem_heap ?k = Some (Inr (Some t,
        fst (snd (thread_join_init [105] 0x80211000 0 2048 20 8 m' ?st ?k)), h', snd (snd (thread_join_init [105] 0x80211000 0 2048 20 8 m' ?st ?k))))"
      "thread_mem R' {t} (snd (snd (thread_join_init [105] 0x80211000 0 2048 20 8 m' ?st ?k)))"
  proof (rule create_mem[OF mem_heap_facts(1) sz(1) _ sz(2) mm, of 20 ?m "[105]" "0x80211000" 0 8 ?st])
    assume no: "20 > (31 :: int) \<or> 2048 = (0 :: int) \<or> no_memory 2048 mem_heap"
    obtain r h1 where "thread_alloc 2048 20 mem_heap = Some (Inr (r, h1))" "snd r = None"
      using thread_alloc_live[OF mem_heap_facts(1) sz(1) _ sz(2), of 20] no by auto
    then show thesis using al by simp
  qed auto
  let ?j = "snd (snd (thread_join_init [105] 0x80211000 0 2048 20 8 m' ?st ?k))"
  have one: "one_tid = t" "one_heap = h'" "one_kernel = projr (thread_start ?j)"
    using c(4) by (simp_all add: one_tid_def one_heap_def one_kernel_def one_created_def)
  have g: "queue_good {} {t} (join_queue t 20 (\<lambda>_. [])) ?j" "same_base ?k ?j"
    using join_good[OF k0, of t 20 2048 m' "[105]" "0x80211000" 0 8 ?st] c(2) by (simp_all add: created_def)
  have nr: "next_ready (join_queue t 20 (\<lambda>_. [])) 20 t" by (auto simp: next_ready_def join_queue_def)
  have z: "rt_interrupt_nest ?j = 0" "\<not> rt_thread_switch_interrupt_flag ?j"
    using g(2) cur by (simp_all add: same_base_def thread_init_def upd_links_def del: upt_rec_numeral)
  obtain k where k: "one_kernel = k" "sys_inv {} {t} one_queues k" "rt_current_thread k = Some t"
      "tcb k = (tcb ?j)(t := (tcb ?j t)\<lparr>statu := RT_THREAD_RUNNING\<rparr>)" "same_base ?j k"
    using start_good[OF g(1) nr z] one by (auto simp: one_queues_def)
  have "thread_mem R' {t} k" by (rule thread_mem_cong[OF c(5)]) (simp_all add: k(4))
  then show "\<exists>R. sys_inv {} {one_tid} one_queues one_kernel \<and> heap_live one_heap R \<and> thread_mem R {one_tid} one_kernel"
    using one k(1,2) c(3) by auto
  show "rt_current_thread one_kernel = Some one_tid" "statu_of one_kernel one_tid = RT_THREAD_RUNNING"
    using one k by simp_all
  show "rt_interrupt_nest one_kernel = 0" using k(1,5) z(1) by (simp add: same_base_def)
  show "heap_ok one_heap [(0, True), (152, True), (2216, False)]" "heap_sem one_heap = 1" "mem_size_aligned one_heap = 16352"
    using al c(4) one(2) by (auto simp: create_thread_def split: prod.splits)
qed


lemma one_room: "\<not> no_memory 2048 one_heap"
proof -
  from one_system(1) obtain R where R: "heap_live one_heap R" by blast
  have sz: "SIZEOF_STRUCT_THREAD \<le> mem_size_aligned one_heap" "0 \<le> (2048 :: int)" "2048 \<le> uint (mem_size_aligned one_heap)"
    by (simp_all add: one_system SIZEOF_STRUCT_THREAD_def)
  have "\<exists>r h'. thread_alloc 2048 10 one_heap = Some (Inr (r, h')) \<and> snd r \<noteq> None"
    using alloc_tail[of one_heap "[(0, True), (152, True)]" 2216 2048 10] one_system(5-7) by auto
  then show ?thesis using thread_alloc_live[OF R sz, of 10] by auto
qed

definition two_statics :: thread_statics where
  "two_statics = \<lparr>threadIdIndex = 2, g_sr = 0x10008401, g_gp = 0x80300000\<rparr>"

section \<open>Creating and reclaiming threads\<close>

text \<open>
  C36. \<^verbatim>\<open>thread_join_init\<close> on the heap, called by a running thread outside interrupts with a
  priority that is not negative and a stack size that is zero or at least 160 and at most the size
  of the heap (a larger request would keep the semaphore of the heap). It returns \<^verbatim>\<open>NULL\<close> exactly when the
  priority is above 31, the stack size is zero or one of its two allocations finds no block; then
  the live blocks of the heap are the ones before the call, no thread and no queue changes, and the
  interrupts stay disabled. Otherwise the new thread is ready at the tail of its queue, the
  system invariant holds for one thread more, no other control block changes, every live block is still live, control block and
  stack are live blocks that no other thread has, and its stack overlaps no other thread's stack.
\<close>

theorem thread_create_on_heap:
  assumes "sys_inv S L q k" "rt_current_thread k = Some c" "rt_interrupt_nest k = 0" "heap_live h R" "thread_mem R L k"
    and "SIZEOF_STRUCT_THREAD \<le> mem_size_aligned h" "0 \<le> prio" "n = 0 \<or> 160 \<le> n" "n \<le> uint (mem_size_aligned h)"
  shows "\<exists>r st' h' k'. create_thread name fn ud n prio run m st h k = Some (Inr (r, st', h', k')) \<and>
    (r = None \<longleftrightarrow> 31 < prio \<or> n = 0 \<or> no_memory n h) \<and>
    (case r of
       None \<Rightarrow> heap_live h' R \<and> st' = st \<and> k' = k\<lparr>irq := False\<rparr>
     | Some t \<Rightarrow> t \<notin> L \<and> sys_inv S (insert t L) (join_queue t (nat prio) q) k' \<and> statu_of k' t = RT_THREAD_READY \<and>
         thread_id (tcb k' t) = threadIdIndex st \<and> thread_name (tcb k' t) = take 23 name \<and>
         (\<forall>t'\<in>L. tcb k' t' = tcb k t') \<and> irq k' = irq k \<and> rt_current_thread k' = Some c \<and>
         (\<exists>R'. R \<subseteq>\<^sub>m R' \<and> heap_live h' R' \<and> thread_mem R' (insert t L) k') \<and>
         (\<forall>t'\<in>L. stacks_apart k' t t'))"
  using create_sys[OF assms, of name fn ud run m st] stacks_are_apart by (fastforce split: option.splits)

theorem thread_create_on_heap_witness:
  "(\<exists>t st' h' k'. create_thread [116] 0x80215000 0 2048 10 8 (sample_machine 0 0) two_statics one_heap one_kernel =
      Some (Inr (Some t, st', h', k')) \<and> t \<noteq> one_tid \<and> statu_of k' t = RT_THREAD_READY \<and> stacks_apart k' t one_tid) \<and>
    (\<exists>h'. create_thread [116] 0x80215000 0 2048 32 8 (sample_machine 0 0) two_statics one_heap one_kernel =
      Some (Inr (None, two_statics, h', one_kernel\<lparr>irq := False\<rparr>)))"
proof -
  from one_system(1) obtain R where s: "sys_inv {} {one_tid} one_queues one_kernel"
    and R: "heap_live one_heap R" "thread_mem R {one_tid} one_kernel" by blast
  have sz: "SIZEOF_STRUCT_THREAD \<le> mem_size_aligned one_heap" "2048 \<le> uint (mem_size_aligned one_heap)"
    by (simp_all add: one_system SIZEOF_STRUCT_THREAD_def)
  note c = thread_create_on_heap[OF s one_system(2,4) R sz(1) _ _ sz(2), of _ "[116]" "0x80215000" 0 8 "sample_machine 0 0" two_statics]
  show ?thesis using c[of 10] c[of 32] one_room by (auto split: option.splits)
qed

text \<open>
  C39. Ending a thread gives its memory back. When the command \<^verbatim>\<open>kill\<close> ends another thread by its number
  (not the idle thread and not the shell), the next cleaning round of the idle loop frees exactly the
  stack and the control block of that thread and of the threads that were dead before: no call of
  \<^verbatim>\<open>free\<close> fails its assertions, every other live block stays live, the dead list is empty, and the
  system invariant holds for the threads that are left, with their memory.
\<close>

theorem killed_thread_reclaimed:
  assumes "sys_inv S L q k" "rt_current_thread k = Some c" "statu_of k c \<noteq> RT_THREAD_CLOSE" "q Dead = map TList ts"
    and "heap_live h R" "thread_mem R L k"
    and "find_result q (word_of_int (atoi num)) k = Some t" "\<not> protected (thread_name (tcb k t))" "t \<noteq> c"
  shows "\<exists>k1 h' k' q'. kill [cmd, num] k = Some (Inr k1) \<and> idle_round_heap h k1 = Some (Inr (h', k')) \<and>
    sys_inv S (L - insert t (set ts)) q' k' \<and> q' Dead = [] \<and> irq k' = irq k \<and>
    heap_live h' (R |` (- thread_blocks k (insert t (set ts)))) \<and>
    thread_mem (R |` (- thread_blocks k (insert t (set ts)))) (L - insert t (set ts)) k'"
  using kill_reclaim[OF assms] by (simp add: kill_def)

theorem killed_thread_reclaimed_witness:
  "\<exists>t st' h k k1 h' k'. create_thread [116] 0x80215000 0 2048 10 8 (sample_machine 0 0) two_statics one_heap one_kernel =
      Some (Inr (Some t, st', h, k)) \<and> kill [map chr ''kill'', map chr ''2''] k = Some (Inr k1) \<and> idle_round_heap h k1 = Some (Inr (h', k')) \<and> irq k' = irq k"
proof -
  from one_system(1) obtain R where s: "sys_inv {} {one_tid} one_queues one_kernel"
    and R: "heap_live one_heap R" "thread_mem R {one_tid} one_kernel" by blast
  have sz: "SIZEOF_STRUCT_THREAD \<le> mem_size_aligned one_heap" "2048 \<le> uint (mem_size_aligned one_heap)"
    by (simp_all add: one_system SIZEOF_STRUCT_THREAD_def)
  from create_sys[OF s one_system(2,4) R sz(1) _ _ sz(2), of 10 "[116]" "0x80215000" 0 8 "sample_machine 0 0" two_statics] one_room
  obtain t st' h k R' where k: "create_thread [116] 0x80215000 0 2048 10 8 (sample_machine 0 0) two_statics one_heap one_kernel =
      Some (Inr (Some t, st', h, k))" "t \<noteq> one_tid" "sys_inv {} {t, one_tid} (join_queue t 10 one_queues) k"
      "thread_id (tcb k t) = 2" "thread_name (tcb k t) = [116]" "irq k = irq one_kernel" "rt_current_thread k = Some one_tid"
      "heap_live h R'" "thread_mem R' {t, one_tid} k" "tcb k one_tid = tcb one_kernel one_tid"
    by (auto simp: two_statics_def split: option.splits)
  have a: "atoi (map chr ''2'') = 2" by (simp add: atoi_def chr_def schar_def)
  have f: "find_result (join_queue t 10 one_queues) (word_of_int (atoi (map chr ''2''))) k = Some t" unfolding a using k(4) by (simp add: find_result_def join_queue_def)
  have d: "join_queue t 10 one_queues Dead = map TList []" by (simp add: one_queues_def join_queue_def unqueue_def)
  have p: "\<not> protected (thread_name (tcb k t))" by (simp add: k(5) protected_def idle_name_def shell_name_def chr_def striequ_def)
  have "statu_of k one_tid \<noteq> RT_THREAD_CLOSE" using k(10) one_system(3) by simp
  from killed_thread_reclaimed[OF k(3,7) this d k(8,9) f p k(2), of "map chr ''kill''"] show ?thesis using k(1) by auto
qed

end
