(* ===== verification/Library_Claims.thy ===== *)
theory Library_Claims
  imports Numconv Cmem Bit_Search
begin

unbundle bit_operations_syntax

text \<open>
  The properties of the library routines: memory
  copies, numbers and their text, random numbers and bit searches.
\<close>

section \<open>Memory\<close>

text \<open>
  The two copying routines agree: on regions that do not run past the end of the address
  space, overlapping or not, \<^verbatim>\<open>memcpy\<close> and \<^verbatim>\<open>memmove\<close> give every destination byte the value its source
  byte had before the call, and change no other byte.
\<close>

lemma copies_agree:
  assumes "unat d + unat n \<le> 4294967296" "unat s + unat n \<le> 4294967296"
  shows "memcpy d s n m = memmove d s n m \<and> (\<forall>i<unat n. memmove d s n m (d + of_nat i) = m (s + of_nat i)) \<and>
    (\<forall>a. unat a < unat d \<or> unat d + unat n \<le> unat a \<longrightarrow> memmove d s n m a = m a)"
proof -
  have "copied d s (unat n) m (d + of_nat i) = m (s + of_nat i)" if "i < unat n" for i
    using that assms(1) unat_plus[of d "of_nat i"] by (simp add: copied_def unat_of_nat)
  then show ?thesis using memmove_copied[OF assms] memcpy_copied[OF assms] by (auto simp: copied_def)
qed

section \<open>Numbers\<close>

text \<open>
  C34. A 32-bit number written by \<^verbatim>\<open>btoa\<close> in any base from 2 to 16 is read back by \<^verbatim>\<open>atob\<close> in the
  same base, and so is it behind the prefix \<^verbatim>\<open>0x\<close> for base 16 when the base is left to \<^verbatim>\<open>atob\<close>; the
  buffer is large enough and the text consists of digits.
\<close>

theorem btoa_atob_roundtrip:
  assumes "2 \<le> b" "b \<le> 16"
  shows "\<exists>s. btoa junk v (int b) = Some s \<and> (\<forall>c\<in>set s. digit_value c \<noteq> None) \<and> cstring_ok s \<and>
    atob s (int b) = Some v \<and> (b = 16 \<longrightarrow> atob (0x30 # 0x78 # s) 0 = Some v)"
proof -
  have ok: "cstring_ok s" if "\<forall>c\<in>set s. digit_value c \<noteq> None" for s
    using that digit_value_lt[of 0] by (auto simp: cstring_ok_def)
  obtain s where s: "btoa junk v (int b) = Some s" "\<forall>c\<in>set s. digit_value c \<noteq> None" "atob_loop s (int b) 0 = Some (of_nat (unat v))"
    using btoa_text_digits[OF assms, of 34 junk v] by (auto simp: btoa_def)
  have "atob s (int b) = Some v" "b = 16 \<longrightarrow> atob (0x30 # 0x78 # s) 0 = Some v"
    using s assms(1) atob_rec_digits[OF s(2)] by (auto simp: atob_def getbase_def)
  then show ?thesis using s ok by blast
qed

theorem btoa_atob_roundtrip_witness:
  "\<exists>s. btoa 0 0xBFE4C000 16 = Some s \<and> atob s 16 = Some 0xBFE4C000"
  using btoa_atob_roundtrip[of 16 0 "0xBFE4C000"] by auto

text \<open>
  Schrage's method computes the Lehmer generator without overflow: for a seed \<open>x\<close> between 1
  and \<open>2\<^sup>3\<^sup>1 - 2\<close>, \<^verbatim>\<open>rand_r\<close> returns \<open>48271 x mod (2\<^sup>3\<^sup>1 - 1)\<close> and stores it as the next seed, which is
  again in that range; so every later call has this form too.
\<close>

lemma rand_r_lehmer:
  assumes "0 < x" "x < 2 ^ 31 - 1"
  shows "rand_r (word_of_int x) = (48271 * x mod (2 ^ 31 - 1), word_of_int (48271 * x mod (2 ^ 31 - 1))) \<and>
    0 < 48271 * x mod (2 ^ 31 - 1) \<and> 48271 * x mod (2 ^ 31 - 1) < 2 ^ 31 - 1"
  using rand_r_eq[of x] assms by simp

section \<open>Bit searches\<close>

text \<open>
  The table-driven \<^verbatim>\<open>__rt_ffs\<close> of the scheduler and the shifting \<^verbatim>\<open>ffs\<close> of the library agree: both give
  one plus the index of the lowest set bit, and \<^verbatim>\<open>fls\<close> one plus the index of the highest; all give 0
  for 0.
\<close>

lemma bit_searches_agree:
  "rt_ffs w = int (ffs w) \<and> (w = 0 \<longrightarrow> ffs w = 0 \<and> fls w = 0) \<and>
    (w \<noteq> 0 \<longrightarrow> (\<exists>l h. ffs w = l + 1 \<and> fls w = int h + 1 \<and> bit w l \<and> bit w h \<and> (\<forall>j. bit w j \<longrightarrow> l \<le> j \<and> j \<le> h)))"
proof (cases "w = 0")
  case True
  then show ?thesis by (simp add: rt_ffs_def ffs_def fls_def)
next
  case False
  obtain h where h: "top_bit w h" using top_bit_exists[OF False] by blast
  have f: "ffs w = lowest w + 1" using False ffs_loop_lowest[OF False, of 1] by (simp add: ffs_def)
  have "bit w (lowest w)" "\<forall>j. bit w j \<longrightarrow> lowest w \<le> j" using bit_lowest[OF False] lowest_least[of _ w] by (auto simp flip: not_less)
  then show ?thesis using False f h fls_top[OF h] rt_ffs_lowest[OF False] by (auto simp: top_bit_def simp flip: not_less)
qed

end
