(* ===== verification/Shell.thy ===== *)
theory Shell
  imports Cstring "HOL-Library.Monad_Syntax"
begin

text \<open>
  The command shell, \<^verbatim>\<open>src/os/shell.c\<close>: line editing, history, splitting of a command line into
  arguments and lookup of the command. What is printed is not modelled, and a command of the
  table is a function from its arguments to its return value. The buffers are lists of their
  fixed length; an access outside a buffer, a search for a terminator that leaves it, and blanks
  that run past the given length are \<open>None\<close>.
\<close>

section \<open>State\<close>

datatype input_stat = WAIT_NORMAL | WAIT_SPEC_KEY | WAIT_FUNC_KEY

record finsh_shell =
  stat :: input_stat
  echo_mode :: bool
  prompt_mode :: bool
  current_history :: u16
  history_count :: u16
  cmd_history :: "u8 list list"
  line :: "u8 list"
  line_char_counter :: u8
  line_curpos :: u8

record finsh_syscall =
  sys_name :: cstring
  sys_func :: "cstring list \<Rightarrow> int"

definition FINSH_HISTORY_LINES :: nat where "FINSH_HISTORY_LINES = 15"
definition FINSH_CMD_SIZE :: nat where "FINSH_CMD_SIZE = 80"
definition FINSH_ARG_MAX :: nat where "FINSH_ARG_MAX = 10"

definition counter :: "finsh_shell \<Rightarrow> nat" where "counter sh = unat (line_char_counter sh)"
definition curpos :: "finsh_shell \<Rightarrow> nat" where "curpos sh = unat (line_curpos sh)"

text \<open>\<^verbatim>\<open>memmove\<close> and a store within the line buffer, and \<^verbatim>\<open>strlen\<close> of a buffer.\<close>

definition move_line :: "nat \<Rightarrow> nat \<Rightarrow> nat \<Rightarrow> u8 list \<Rightarrow> u8 list option" where
  "move_line d s n l =
    (if d + n \<le> length l \<and> s + n \<le> length l then Some (take d l @ take n (drop s l) @ drop (d + n) l) else None)"

definition put_line :: "nat \<Rightarrow> u8 \<Rightarrow> u8 list \<Rightarrow> u8 list option" where
  "put_line i c l = (if i < length l then Some (l[i := c]) else None)"

definition buf_strlen :: "u8 list \<Rightarrow> nat option" where
  "buf_strlen l = (if 0 \<in> set l then Some (length (takeWhile (\<lambda>c. c \<noteq> 0) l)) else None)"

definition set_line :: "u8 list \<Rightarrow> finsh_shell \<Rightarrow> finsh_shell option" where
  "set_line l sh = map_option (\<lambda>n. sh\<lparr>line := l, line_char_counter := of_nat n, line_curpos := of_nat n\<rparr>) (buf_strlen l)"

section \<open>Commands\<close>

definition blank :: "u8 \<Rightarrow> bool" where
  "blank c \<longleftrightarrow> c = 0x20 \<or> c = 0x09"

definition is_cmd :: "finsh_syscall \<Rightarrow> bool" where
  "is_cmd e \<longleftrightarrow> strncmp (sys_name e) (map chr ''__cmd_'') 6 = 0"

definition msh_get_cmd :: "finsh_syscall list \<Rightarrow> cstring \<Rightarrow> nat \<Rightarrow> finsh_syscall option" where
  "msh_get_cmd table cmd n =
    find (\<lambda>e. is_cmd e \<and> strncmp (drop 6 (sys_name e)) cmd n = 0 \<and> at (drop (6 + n) (sys_name e)) = 0) table"

function strip_blanks :: "nat \<Rightarrow> nat \<Rightarrow> u8 list \<Rightarrow> nat \<times> u8 list" where
  "strip_blanks len pos buf =
    (if pos < len \<and> blank (buf ! pos) then strip_blanks len (pos + 1) (buf[pos := 0]) else (pos, buf))"
  by pat_completeness auto
termination by (relation "measure (\<lambda>(len, pos, _). len - pos)") auto

function word_end :: "nat \<Rightarrow> nat \<Rightarrow> u8 list \<Rightarrow> nat" where
  "word_end len pos buf = (if pos < len \<and> \<not> blank (buf ! pos) then word_end len (pos + 1) buf else pos)"
  by pat_completeness auto
termination by (relation "measure (\<lambda>(len, pos, _). len - pos)") auto

function quote_end :: "nat \<Rightarrow> nat \<Rightarrow> u8 list \<Rightarrow> nat" where
  "quote_end len pos buf =
    (if pos < len \<and> buf ! pos \<noteq> 0x22 then
       quote_end len (if buf ! pos = 0x5c \<and> buf ! (pos + 1) = 0x22 then pos + 2 else pos + 1) buf
     else pos)"
  by pat_completeness auto
termination by (relation "measure (\<lambda>(len, pos, _). len - pos)") auto

declare strip_blanks.simps [simp del] word_end.simps [simp del] quote_end.simps [simp del]

lemma strip_blanks_ge: "pos \<le> fst (strip_blanks len pos buf)"
  by (induction len pos buf rule: strip_blanks.induct) (subst strip_blanks.simps, auto)

lemma strip_blanks_stop: "strip_blanks len pos buf = (p, b) \<Longrightarrow> p < len \<Longrightarrow> \<not> blank (b ! p)"
  by (induction len pos buf rule: strip_blanks.induct) (subst (asm) (2) strip_blanks.simps, auto split: if_splits)

lemma word_end_ge: "pos \<le> word_end len pos buf"
  by (induction len pos buf rule: word_end.induct) (subst word_end.simps, auto)

lemma quote_end_ge: "pos \<le> quote_end len pos buf"
  by (induction len pos buf rule: quote_end.induct) (subst quote_end.simps, auto split: if_splits)

lemma word_end_gt: "pos < len \<Longrightarrow> \<not> blank (buf ! pos) \<Longrightarrow> pos < word_end len pos buf"
  using word_end_ge[of "pos + 1" len buf] by (subst word_end.simps) simp

function split_loop :: "nat \<Rightarrow> nat \<Rightarrow> nat list \<Rightarrow> u8 list \<Rightarrow> nat list \<times> u8 list" where
  "split_loop len pos argv buf =
    (if pos < len then
       let (pos, buf) = strip_blanks len pos buf in
       if length argv \<ge> FINSH_ARG_MAX then (argv, buf)
       else if pos \<ge> len then (argv, buf)
       else if buf ! pos = 0x22 then
         let pos = pos + 1;
             argv = argv @ [pos];
             pos = quote_end len pos buf
         in if pos \<ge> len then (argv, buf) else split_loop len (pos + 1) argv (buf[pos := 0])
       else
         let argv = argv @ [pos];
             pos = word_end len pos buf
         in if pos \<ge> len then (argv, buf) else split_loop len pos argv buf
     else (argv, buf))"
  by pat_completeness auto

termination split_loop
proof (relation "measure (\<lambda>(len, pos, _). len - pos)", goal_cases)
  case (2 len pos argv buf x p b p1 argv1 p2)
  then have "pos \<le> p" using strip_blanks_ge[of pos len buf] by (metis fst_conv)
  then show ?case using 2 quote_end_ge[of p1 len b] by auto
next
  case (3 len pos argv buf x p b argv1 p2)
  then have "pos \<le> p" "\<not> blank (b ! p)"
    using strip_blanks_ge[of pos len buf] strip_blanks_stop[of len pos buf p b] by (metis fst_conv, metis not_le)
  then show ?case using 3 word_end_gt[of p len b] by auto
qed simp

declare split_loop.simps [simp del]

text \<open>The arguments are the strings at the recorded places of the changed buffer.\<close>

definition string_at :: "u8 list \<Rightarrow> nat \<Rightarrow> cstring" where
  "string_at buf p = takeWhile (\<lambda>c. c \<noteq> 0) (drop p buf)"

definition msh_split :: "u8 list \<Rightarrow> nat \<Rightarrow> cstring list" where
  "msh_split cmd len = (let (argv, buf) = split_loop len 0 [] cmd in map (string_at buf) argv)"

datatype run = Idle | Not_found | Ran finsh_syscall "cstring list" int

definition msh_exec_cmd :: "finsh_syscall list \<Rightarrow> u8 list \<Rightarrow> nat \<Rightarrow> run" where
  "msh_exec_cmd table cmd len =
    (let cmd0_size = word_end len 0 cmd in
     if cmd0_size = 0 then Not_found
     else case msh_get_cmd table (string_at cmd 0) cmd0_size of
       None \<Rightarrow> Not_found
     | Some cmd_func \<Rightarrow>
       let argv = msh_split cmd len in
       if argv = [] then Not_found else Ran cmd_func argv (sys_func cmd_func argv))"

definition msh_exec :: "finsh_syscall list \<Rightarrow> u8 list \<Rightarrow> nat \<Rightarrow> run option" where
  "msh_exec table cmd len =
    (let k = length (takeWhile blank cmd) in
     if k = length cmd \<or> k > len then None
     else if len - k = 0 then Some Idle
     else Some (msh_exec_cmd table (drop k cmd) (len - k)))"

section \<open>Completion and history\<close>

fun complete_loop :: "finsh_syscall list \<Rightarrow> cstring \<Rightarrow> cstring option \<times> nat \<Rightarrow> cstring option \<times> nat" where
  "complete_loop [] prefix r = r"
| "complete_loop (e # es) prefix (name_ptr, min_length) =
    (if \<not> is_cmd e then complete_loop es prefix (name_ptr, min_length)
     else
       let cmd_name = drop 6 (sys_name e) in
       if strncmp prefix cmd_name (strlen prefix) = 0 then
         let (name_ptr, min_length) = (if min_length = 0 then (Some cmd_name, strlen cmd_name) else (name_ptr, min_length));
             l = str_common (case name_ptr of Some s \<Rightarrow> s | None \<Rightarrow> []) cmd_name
         in complete_loop es prefix (name_ptr, if l < min_length then l else min_length)
       else complete_loop es prefix (name_ptr, min_length))"

text \<open>\<^verbatim>\<open>strncpy\<close> of at most the length of the name, into the line buffer.\<close>

definition msh_auto_complete :: "finsh_syscall list \<Rightarrow> u8 list \<Rightarrow> u8 list option" where
  "msh_auto_complete table prefix =
    do { n \<leftarrow> buf_strlen prefix;
         if n = 0 then Some prefix
         else case complete_loop table (take n prefix) (None, 0) of
           (None, _) \<Rightarrow> Some prefix
         | (Some name, k) \<Rightarrow> if k \<le> length prefix then Some (take k name @ drop k prefix) else None }"

definition shell_auto_complete :: "finsh_syscall list \<Rightarrow> u8 list \<Rightarrow> u8 list option" where
  "shell_auto_complete table prefix = msh_auto_complete table prefix"

definition history_entry :: "finsh_shell \<Rightarrow> u8 list" where
  "history_entry sh = take (counter sh) (line sh) @ replicate (FINSH_CMD_SIZE - counter sh) 0"

definition shell_push_history :: "finsh_shell \<Rightarrow> finsh_shell" where
  "shell_push_history sh =
    (let sh =
       (if line_char_counter sh \<noteq> 0 then
          (if unat (history_count sh) \<ge> FINSH_HISTORY_LINES then
             (if cmd_history sh ! (FINSH_HISTORY_LINES - 1) \<noteq> line sh then
                sh\<lparr>cmd_history := tl (cmd_history sh) @ [history_entry sh], history_count := of_nat FINSH_HISTORY_LINES\<rparr>
              else sh)
           else if history_count sh = 0 \<or> cmd_history sh ! (unat (history_count sh) - 1) \<noteq> line sh then
             let sh = sh\<lparr>current_history := history_count sh\<rparr>;
                 sh = sh\<lparr>cmd_history := (cmd_history sh)[unat (history_count sh) := history_entry sh]\<rparr>
             in sh\<lparr>history_count := history_count sh + 1\<rparr>
           else sh)
        else sh)
     in sh\<lparr>current_history := history_count sh\<rparr>)"

definition recall :: "finsh_shell \<Rightarrow> finsh_shell option" where
  "recall sh =
    (if unat (current_history sh) < length (cmd_history sh)
     then set_line (cmd_history sh ! unat (current_history sh)) sh else None)"

section \<open>Keys\<close>

text \<open>The four cursor keys, after the prefix \<^verbatim>\<open>0x1b 0x5b\<close>; another key is not handled here.\<close>

definition cursor_key :: "int \<Rightarrow> finsh_shell \<Rightarrow> finsh_shell option option" where
  "cursor_key ch sh =
    (if ch = 0x41 then
       Some (if current_history sh > 0 then recall (sh\<lparr>current_history := current_history sh - 1\<rparr>)
             else Some (sh\<lparr>current_history := 0\<rparr>))
     else if ch = 0x42 then
       Some (if uint (current_history sh) < uint (history_count sh) - 1
             then recall (sh\<lparr>current_history := current_history sh + 1\<rparr>)
             else if history_count sh \<noteq> 0 then recall (sh\<lparr>current_history := history_count sh - 1\<rparr>)
             else Some sh)
     else if ch = 0x44 then Some (Some (if line_curpos sh \<noteq> 0 then sh\<lparr>line_curpos := line_curpos sh - 1\<rparr> else sh))
     else if ch = 0x43 then
       Some (Some (if line_curpos sh < line_char_counter sh then sh\<lparr>line_curpos := line_curpos sh + 1\<rparr> else sh))
     else None)"

definition backspace :: "finsh_shell \<Rightarrow> finsh_shell option" where
  "backspace sh =
    (if line_curpos sh = 0 then Some sh
     else
       let sh = sh\<lparr>line_char_counter := line_char_counter sh - 1\<rparr>;
           sh = sh\<lparr>line_curpos := line_curpos sh - 1\<rparr>
       in do { l \<leftarrow> (if line_char_counter sh > line_curpos sh
                     then move_line (curpos sh) (curpos sh + 1) (counter sh - curpos sh) (line sh) else Some (line sh));
               l \<leftarrow> put_line (counter sh) 0 l;
               Some (sh\<lparr>line := l\<rparr>) })"

definition normal_char :: "int \<Rightarrow> finsh_shell \<Rightarrow> finsh_shell option" where
  "normal_char ch sh =
    (let sh = (if counter sh \<ge> FINSH_CMD_SIZE then sh\<lparr>line_char_counter := 0\<rparr> else sh) in
     do { l \<leftarrow> (if line_curpos sh < line_char_counter sh then
                  do { l \<leftarrow> move_line (curpos sh + 1) (curpos sh) (counter sh - curpos sh) (line sh);
                       put_line (curpos sh) (word_of_int ch) l }
                else put_line (counter sh) (word_of_int ch) (line sh));
          let sh = sh\<lparr>line := l\<rparr>;
          let sh = sh\<lparr>line_char_counter := line_char_counter sh + 1\<rparr>;
          let sh = sh\<lparr>line_curpos := line_curpos sh + 1\<rparr>;
          Some (if counter sh \<ge> FINSH_CMD_SIZE then sh\<lparr>line_char_counter := 0, line_curpos := 0\<rparr> else sh) })"

definition enter :: "finsh_syscall list \<Rightarrow> finsh_shell \<Rightarrow> (finsh_shell \<times> run) option" where
  "enter table sh =
    (let sh = shell_push_history sh in
     do { r \<leftarrow> msh_exec table (line sh) (counter sh);
          let sh = sh\<lparr>line := replicate FINSH_CMD_SIZE 0\<rparr>;
          Some (sh\<lparr>line_curpos := 0, line_char_counter := 0\<rparr>, r) })"

definition plain_key :: "finsh_syscall list \<Rightarrow> int \<Rightarrow> finsh_shell \<Rightarrow> (finsh_shell \<times> run) option" where
  "plain_key table ch sh =
    (if ch = 0 \<or> ch = 0xFF then Some (sh, Idle)
     else if ch = 0x09 then
       do { l \<leftarrow> shell_auto_complete table (line sh); sh \<leftarrow> set_line l sh; Some (sh, Idle) }
     else if ch = 0x7f \<or> ch = 0x08 then do { sh \<leftarrow> backspace sh; Some (sh, Idle) }
     else if ch = 0x0d \<or> ch = 0x0a then enter table sh
     else do { sh \<leftarrow> normal_char ch sh; Some (sh, Idle) })"

text \<open>One round of the loop of the shell thread: the state after the key, and what was run.\<close>

definition shell_key :: "finsh_syscall list \<Rightarrow> int \<Rightarrow> finsh_shell \<Rightarrow> (finsh_shell \<times> run) option" where
  "shell_key table ch sh =
    (if ch < 0 then Some (sh, Idle)
     else if ch = 0x1b then Some (sh\<lparr>stat := WAIT_SPEC_KEY\<rparr>, Idle)
     else case stat sh of
       WAIT_SPEC_KEY \<Rightarrow>
         if ch = 0x5b then Some (sh\<lparr>stat := WAIT_FUNC_KEY\<rparr>, Idle)
         else plain_key table ch (sh\<lparr>stat := WAIT_NORMAL\<rparr>)
     | WAIT_FUNC_KEY \<Rightarrow>
         let sh = sh\<lparr>stat := WAIT_NORMAL\<rparr> in
         (case cursor_key ch sh of
            Some r \<Rightarrow> map_option (\<lambda>sh. (sh, Idle)) r
          | None \<Rightarrow> plain_key table ch sh)
     | WAIT_NORMAL \<Rightarrow> plain_key table ch sh)"

fun shell_keys :: "finsh_syscall list \<Rightarrow> int list \<Rightarrow> finsh_shell \<Rightarrow> (finsh_shell \<times> run list) option" where
  "shell_keys table [] sh = Some (sh, [])"
| "shell_keys table (ch # chs) sh =
    do { (sh, r) \<leftarrow> shell_key table ch sh; (sh, rs) \<leftarrow> shell_keys table chs sh; Some (sh, r # rs) }"

text \<open>\<^verbatim>\<open>shellInit\<close> keeps whatever history the allocated memory holds.\<close>

definition shellInit :: "finsh_shell \<Rightarrow> finsh_shell" where
  "shellInit sh = sh\<lparr>echo_mode := True, prompt_mode := True, line := replicate FINSH_CMD_SIZE 0, line_char_counter := 0, line_curpos := 0\<rparr>"

end
