(* ===== verification/Shell_Edit.thy ===== *)
theory Shell_Edit
  imports Shell
begin

text \<open>
  Line editing refines an abstract editor, the text before and after the cursor, as long as the
  line does not fill up; a line of words separated by single spaces is split into these words, and
  the command found is the one with the first word as its name.
\<close>

section \<open>The abstract editor\<close>

type_synonym editor = "u8 list \<times> u8 list"

datatype edit = Type u8 | Rubout | Left | Right

fun apply_edit :: "edit \<Rightarrow> editor \<Rightarrow> editor" where
  "apply_edit (Type c) (b, a) = (b @ [c], a)"
| "apply_edit Rubout (b, a) = (butlast b, a)"
| "apply_edit Left (b, a) = (if b = [] then (b, a) else (butlast b, last b # a))"
| "apply_edit Right (b, a) = (if a = [] then (b, a) else (b @ [hd a], tl a))"

text \<open>The bytes a terminal sends for each edit.\<close>

fun keys_of :: "edit \<Rightarrow> int list" where
  "keys_of (Type c) = [sint c]"
| "keys_of Rubout = [0x7f]"
| "keys_of Left = [0x1b, 0x5b, 0x44]"
| "keys_of Right = [0x1b, 0x5b, 0x43]"

fun printable :: "edit \<Rightarrow> bool" where
  "printable (Type c) \<longleftrightarrow> 0x20 \<le> c \<and> c < 0x7f"
| "printable _ \<longleftrightarrow> True"

definition shows_line :: "finsh_shell \<Rightarrow> editor \<Rightarrow> bool" where
  "shows_line sh = (\<lambda>(b, a). stat sh = WAIT_NORMAL \<and> length (b @ a) < 80 \<and>
    line sh = b @ a @ replicate (80 - length (b @ a)) 0 \<and>
    line_char_counter sh = of_nat (length (b @ a)) \<and> line_curpos sh = of_nat (length b))"

lemma shows_lineD:
  assumes "shows_line sh (b, a)"
  shows "counter sh = length b + length a" "curpos sh = length b" "length b + length a < 80" "length (line sh) = 80"
    "line sh = b @ a @ replicate (80 - (length b + length a)) 0" "stat sh = WAIT_NORMAL"
  using assms by (auto simp: shows_line_def counter_def curpos_def unat_of_nat simp flip: of_nat_add)

lemma of_nat_pred: "0 < n \<Longrightarrow> (of_nat n :: u8) - 1 = of_nat (n - 1)"
  by (cases n) auto

lemma type_shows:
  assumes "shows_line sh (b, a)" "length (b @ a) < 79"
  shows "\<exists>sh'. normal_char ch sh = Some sh' \<and> shows_line sh' (b @ [word_of_int ch], a) \<and>
    history_count sh' = history_count sh \<and> cmd_history sh' = cmd_history sh"
proof -
  note d = shows_lineD[OF assms(1)]
  let ?n = "length b + length a" and ?c = "word_of_int ch :: u8"
  have lt: "line_curpos sh < line_char_counter sh \<longleftrightarrow> a \<noteq> []"
    using d(1,2) by (auto simp: word_less_nat_alt counter_def curpos_def)
  have l: "(if a \<noteq> [] then do { l \<leftarrow> move_line (length b + 1) (length b) (length a) (line sh); put_line (length b) ?c l }
      else put_line ?n ?c (line sh)) = Some (b @ ?c # a @ replicate (79 - ?n) 0)"
  proof -
    have z: "replicate (80 - ?n) 0 = 0 # replicate (79 - ?n) (0 :: u8)" using assms(2) by (simp add: Suc_diff_le flip: replicate_Suc)
    show ?thesis using assms(2) unfolding d(5) z
      by (cases a) (auto simp: move_line_def put_line_def nth_append list_update_append take_Suc)
  qed
  let ?sh = "sh\<lparr>line := b @ ?c # a @ replicate (79 - ?n) 0, line_char_counter := line_char_counter sh + 1, line_curpos := line_curpos sh + 1\<rparr>"
  have "unat (line_char_counter sh + 1) = ?n + 1"
    using d(1,3) unat_inc_lt[of "line_char_counter sh" 80] by (simp add: counter_def)
  then have "normal_char ch sh = Some ?sh"
    using l lt d(1,2,3) assms(2)
    by (cases "a = []") (auto simp: normal_char_def FINSH_CMD_SIZE_def Let_def counter_def curpos_def bind_eq_Some_conv)
  moreover have "shows_line ?sh (b @ [?c], a)"
    using assms by (simp add: shows_line_def)
  ultimately show ?thesis by auto
qed

lemma rubout_shows:
  assumes "shows_line sh (b, a)"
  shows "\<exists>sh'. backspace sh = Some sh' \<and> shows_line sh' (butlast b, a) \<and>
    history_count sh' = history_count sh \<and> cmd_history sh' = cmd_history sh"
proof (cases b rule: rev_cases)
  case Nil
  then show ?thesis using assms by (auto simp: backspace_def shows_line_def)
next
  case (snoc b' c)
  note d = shows_lineD[OF assms]
  let ?n = "length b' + length a"
  let ?sh = "sh\<lparr>line_char_counter := line_char_counter sh - 1, line_curpos := line_curpos sh - 1\<rparr>"
  have nz: "line_curpos sh \<noteq> 0" using d(2) snoc by (auto simp: curpos_def)
  have cnt: "line_char_counter ?sh = of_nat ?n" "line_curpos ?sh = of_nat (length b')"
    using assms snoc of_nat_pred[of "length b' + length a + 1"] of_nat_pred[of "length b' + 1"] by (simp_all add: shows_line_def)
  then have u: "counter ?sh = ?n" "curpos ?sh = length b'" using d(3) snoc by (simp_all add: counter_def curpos_def unat_of_nat flip: of_nat_add)
  have lt: "line_char_counter ?sh > line_curpos ?sh \<longleftrightarrow> a \<noteq> []" using u by (auto simp: word_less_nat_alt counter_def curpos_def)
  have ln: "line sh = b' @ c # a @ replicate (79 - ?n) 0" using d(5) snoc by simp
  have "(if a \<noteq> [] then move_line (length b') (length b' + 1) (length a) (line sh) else Some (line sh)) \<bind> put_line ?n 0 =
      Some (b' @ a @ replicate (80 - ?n) 0)"
  proof -
    have z: "replicate (80 - ?n) 0 = 0 # replicate (79 - ?n) (0 :: u8)" using d(3) snoc by (simp add: Suc_diff_le flip: replicate_Suc)
    show ?thesis using d(3) snoc unfolding ln z
      by (cases a rule: rev_cases) (auto simp: move_line_def put_line_def list_update_append split: nat.splits)
  qed
  then have "backspace sh = Some (?sh\<lparr>line := b' @ a @ replicate (80 - ?n) 0\<rparr>)"
    using nz lt u by (cases "a = []") (auto simp: backspace_def Let_def bind_eq_Some_conv)
  moreover have "shows_line (?sh\<lparr>line := b' @ a @ replicate (80 - ?n) 0\<rparr>) (b', a)"
    using cnt d(3,6) snoc by (simp add: shows_line_def)
  ultimately show ?thesis using snoc by auto
qed

lemma cursor_shows:
  assumes "shows_line sh (b, a)"
  shows "\<exists>sh'. cursor_key 0x44 sh = Some (Some sh') \<and> shows_line sh' (apply_edit Left (b, a)) \<and>
      history_count sh' = history_count sh \<and> cmd_history sh' = cmd_history sh"
    "\<exists>sh'. cursor_key 0x43 sh = Some (Some sh') \<and> shows_line sh' (apply_edit Right (b, a)) \<and>
      history_count sh' = history_count sh \<and> cmd_history sh' = cmd_history sh"
proof -
  note d = shows_lineD[OF assms]
  have z: "line_curpos sh = 0 \<longleftrightarrow> b = []" using d(2) by (auto simp: curpos_def unat_eq_0)
  have lt: "line_curpos sh < line_char_counter sh \<longleftrightarrow> a \<noteq> []" using d(1,2) by (auto simp: word_less_nat_alt counter_def curpos_def)
  show "\<exists>sh'. cursor_key 0x44 sh = Some (Some sh') \<and> shows_line sh' (apply_edit Left (b, a)) \<and>
      history_count sh' = history_count sh \<and> cmd_history sh' = cmd_history sh"
    using assms z by (cases b rule: rev_cases) (auto simp: cursor_key_def shows_line_def)
  show "\<exists>sh'. cursor_key 0x43 sh = Some (Some sh') \<and> shows_line sh' (apply_edit Right (b, a)) \<and>
      history_count sh' = history_count sh \<and> cmd_history sh' = cmd_history sh"
    using assms lt by (cases a) (auto simp: cursor_key_def shows_line_def)
qed

section \<open>Key sequences\<close>

lemma shell_keys_append:
  "shell_keys table (xs @ ys) sh =
    do { (sh, rs) \<leftarrow> shell_keys table xs sh; (sh, ss) \<leftarrow> shell_keys table ys sh; Some (sh, rs @ ss) }"
  by (induction xs arbitrary: sh) (auto split: bind_splits)

lemma sint_u8_small: "unat (c :: u8) < 128 \<Longrightarrow> sint c = int (unat c)"
proof -
  assume "unat c < 128"
  then have "uint c < 128" by (metis of_nat_less_iff of_nat_numeral uint_nat)
  moreover have "- (2 ^ 7) \<le> uint c" by (rule order_trans[of _ 0]) simp_all
  ultimately have "signed_take_bit 7 (uint c) = uint c" by (intro signed_take_bit_int_eq_self) simp_all
  then show ?thesis by (simp add: sint_uint)
qed

lemma cursor_keys:
  assumes "stat sh = WAIT_NORMAL" "0 \<le> ch" "ch \<noteq> 0x1b" "cursor_key ch sh = Some (Some sh')"
  shows "shell_keys table [0x1b, 0x5b, ch] sh = Some (sh', [Idle, Idle, Idle])"
  using assms by (cases sh) (simp add: shell_key_def Let_def)

lemma plain_type:
  assumes "stat sh = WAIT_NORMAL" "0x20 \<le> ch" "ch < 0x7f"
  shows "shell_key table ch sh = map_option (\<lambda>sh. (sh, Idle)) (normal_char ch sh)"
proof -
  have "shell_key table ch sh = do { sh \<leftarrow> normal_char ch sh; Some (sh, Idle) }"
    using assms by (simp add: shell_key_def plain_key_def)
  then show ?thesis by (cases "normal_char ch sh") simp_all
qed

lemma edit_shows:
  assumes "shows_line sh (b, a)" "printable e" "length (b @ a) + (case e of Type _ \<Rightarrow> 1 | _ \<Rightarrow> 0) < 80"
  shows "\<exists>sh' rs. shell_keys table (keys_of e) sh = Some (sh', rs) \<and> set rs \<subseteq> {Idle} \<and> shows_line sh' (apply_edit e (b, a)) \<and>
    history_count sh' = history_count sh \<and> cmd_history sh' = cmd_history sh"
proof (cases e)
  case (Type c)
  obtain sh' where "normal_char (sint c) sh = Some sh'" "shows_line sh' (b @ [c], a)"
    "history_count sh' = history_count sh" "cmd_history sh' = cmd_history sh"
    using type_shows[OF assms(1), of "sint c"] assms(3) Type by auto
  moreover have "32 \<le> unat c" "unat c < 127" using assms(2) Type by (simp_all add: word_le_nat_alt word_less_nat_alt)
  then have "32 \<le> sint c" "sint c < 127" using sint_u8_small[of c] by linarith+
  ultimately show ?thesis using plain_type[OF shows_lineD(6)[OF assms(1)], of "sint c" table] Type by auto
next
  case Rubout
  obtain sh' where "backspace sh = Some sh'" "shows_line sh' (butlast b, a)"
    "history_count sh' = history_count sh" "cmd_history sh' = cmd_history sh"
    using rubout_shows[OF assms(1)] by auto
  then show ?thesis using Rubout shows_lineD(6)[OF assms(1)] by (auto simp: shell_key_def plain_key_def)
next
  case Left
  then show ?thesis
    using cursor_shows(1)[OF assms(1)] cursor_keys[OF shows_lineD(6)[OF assms(1)], of "0x44"] by auto
next
  case Right
  then show ?thesis
    using cursor_shows(2)[OF assms(1)] cursor_keys[OF shows_lineD(6)[OF assms(1)], of "0x43"] by auto
qed

text \<open>The line never gets longer than the 79 characters that fit.\<close>

fun never_full :: "edit list \<Rightarrow> editor \<Rightarrow> bool" where
  "never_full [] ed \<longleftrightarrow> True"
| "never_full (e # es) ed \<longleftrightarrow>
    length (fst (apply_edit e ed) @ snd (apply_edit e ed)) < 80 \<and> never_full es (apply_edit e ed)"

lemma edits_show:
  assumes "shows_line sh (b, a)" "\<forall>e\<in>set es. printable e" "never_full es (b, a)"
  shows "\<exists>sh' rs. shell_keys table (concat (map keys_of es)) sh = Some (sh', rs) \<and> set rs \<subseteq> {Idle} \<and>
    shows_line sh' (fold apply_edit es (b, a)) \<and> history_count sh' = history_count sh \<and> cmd_history sh' = cmd_history sh"
  using assms
proof (induction es arbitrary: sh b a)
  case (Cons e es)
  have "length (b @ a) + (case e of Type _ \<Rightarrow> 1 | _ \<Rightarrow> 0) < 80"
    using Cons.prems(3) shows_lineD(3)[OF Cons.prems(1)] by (cases e) auto
  then obtain sh1 rs1 where 1: "shell_keys table (keys_of e) sh = Some (sh1, rs1)" "set rs1 \<subseteq> {Idle}"
    "shows_line sh1 (apply_edit e (b, a))" "history_count sh1 = history_count sh" "cmd_history sh1 = cmd_history sh"
    using edit_shows[OF Cons.prems(1), of e table] Cons.prems(2) by auto
  obtain b1 a1 where ba: "apply_edit e (b, a) = (b1, a1)" by fastforce
  obtain sh2 rs2 where 2: "shell_keys table (concat (map keys_of es)) sh1 = Some (sh2, rs2)" "set rs2 \<subseteq> {Idle}"
    "shows_line sh2 (fold apply_edit es (b1, a1))" "history_count sh2 = history_count sh1" "cmd_history sh2 = cmd_history sh1"
    using Cons.IH[of sh1 b1 a1] 1(3) ba Cons.prems(2,3) by auto
  have "shell_keys table (concat (map keys_of (e # es))) sh = Some (sh2, rs1 @ rs2)"
    using 1(1) 2(1) by (simp add: shell_keys_append)
  then show ?case using 1 2 ba by auto
qed auto

section \<open>Splitting a line into words\<close>

definition word_ok :: "u8 list \<Rightarrow> bool" where
  "word_ok w \<longleftrightarrow> w \<noteq> [] \<and> hd w \<noteq> 0x22 \<and> (\<forall>c\<in>set w. \<not> blank c \<and> c \<noteq> 0)"

fun join_words :: "u8 \<Rightarrow> u8 list list \<Rightarrow> u8 list" where
  "join_words s [] = []"
| "join_words s [w] = w"
| "join_words s (w # ws) = w @ s # join_words s ws"

fun word_places :: "nat \<Rightarrow> u8 list list \<Rightarrow> nat list" where
  "word_places p [] = []"
| "word_places p (w # ws) = p # word_places (p + length w + 1) ws"

lemma word_end_word:
  assumes "\<forall>c\<in>set w. \<not> blank c" "len = length pre + length w \<or> length pre + length w < len \<and> blank (buf ! (length pre + length w))"
    and "buf = pre @ w @ tail"
  shows "word_end len (length pre) buf = length pre + length w"
  using assms
proof (induction w arbitrary: pre)
  case Nil
  then show ?case by (subst word_end.simps) auto
next
  case (Cons c w)
  have "word_end len (length (pre @ [c])) buf = length (pre @ [c]) + length w"
    using Cons.prems by (intro Cons.IH) auto
  then show ?case using Cons.prems by (subst word_end.simps) auto
qed

lemma split_loop_blank:
  assumes "p < len" "blank (buf ! p)" "buf[p := 0] = buf'" "p + 1 < len" "\<not> blank (buf' ! (p + 1))"
  shows "split_loop len p argv buf = split_loop len (p + 1) argv buf'"
proof -
  have s: "strip_blanks len (p + 1) buf' = (p + 1, buf')" using assms(5) by (subst strip_blanks.simps) simp
  then have "strip_blanks len p buf = (p + 1, buf')" using assms(1-3) by (subst strip_blanks.simps) simp
  then show ?thesis using s assms(1,4) by (subst (1 2) split_loop.simps) simp
qed

lemma first_of_join: "w \<noteq> [] \<Longrightarrow> \<exists>r. join_words s (w # ws) = hd w # r"
  by (cases w; cases ws) auto

lemma split_words:
  assumes "\<forall>w\<in>set ws. word_ok w" "ws \<noteq> []" "length argv + length ws \<le> 10"
    and "buf = pre @ join_words 0x20 ws @ tail" "len = length pre + length (join_words 0x20 ws)"
  shows "split_loop len (length pre) argv buf = (argv @ word_places (length pre) ws, pre @ join_words 0 ws @ tail)"
  using assms
proof (induction ws arbitrary: argv pre buf)
  case (Cons w ws)
  have w: "w \<noteq> []" "hd w \<noteq> 0x22" "\<forall>c\<in>set w. \<not> blank c" using Cons.prems(1) by (auto simp: word_ok_def)
  then obtain c w' where cw: "w = c # w'" by (cases w) auto
  have first: "length pre < len" "buf ! length pre = c" using Cons.prems(4,5) cw by (cases ws; auto simp: nth_append)+
  have strip: "strip_blanks len (length pre) buf = (length pre, buf)"
    using first w(3) cw by (subst strip_blanks.simps) simp
  show ?case
  proof (cases ws)
    case Nil
    have "word_end len (length pre) buf = len" using word_end_word[of w len pre buf tail] w(3) Cons.prems(4,5) Nil by simp
    then show ?thesis using first strip w(2) cw Cons.prems(3,4) Nil by (subst split_loop.simps) (simp add: FINSH_ARG_MAX_def)
  next
    case (Cons v vs)
    let ?m = "length pre + length w"
    have b: "buf = pre @ w @ 0x20 # join_words 0x20 ws @ tail" "len = ?m + 1 + length (join_words 0x20 ws)"
      using Cons.prems(4,5) Cons by simp_all
    have m: "?m < len" "buf ! ?m = 0x20" using b by (simp_all add: nth_append)
    have e: "word_end len (length pre) buf = ?m"
      using word_end_word[of w len pre buf] w(3) b m by (simp add: blank_def)
    have "split_loop len (length pre) argv buf = split_loop len ?m (argv @ [length pre]) buf"
      using first strip w(2) cw Cons.prems(3) e m(1) by (subst split_loop.simps) (simp add: FINSH_ARG_MAX_def)
    also have "\<dots> = split_loop len (?m + 1) (argv @ [length pre]) (pre @ w @ 0 # join_words 0x20 ws @ tail)"
    proof (rule split_loop_blank)
      obtain x r where x: "join_words 0x20 ws = x # r" "\<not> blank x"
        using first_of_join[of v "0x20" vs] Cons.prems(1) Cons by (auto simp: word_ok_def)
      show "blank (buf ! ?m)" using m(2) by (simp add: blank_def)
      show "buf[?m := 0] = pre @ w @ 0 # join_words 0x20 ws @ tail" using b(1) by (simp add: list_update_append)
      show "?m + 1 < len" using b(2) x(1) by simp
      show "\<not> blank ((pre @ w @ 0 # join_words 0x20 ws @ tail) ! (?m + 1))" using x by (simp add: nth_append)
    qed (rule m(1))
    also have "\<dots> = (argv @ length pre # word_places (?m + 1) ws, pre @ w @ 0 # join_words 0 ws @ tail)"
      using Cons.IH[of "argv @ [length pre]" "pre @ w @ 0 # join_words 0x20 ws @ tail" "pre @ w @ [0]"] Cons.prems Cons b by (simp add: add.assoc)
    finally show ?thesis using Cons by simp
  qed
qed simp

lemma string_at_word: "\<forall>c\<in>set w. c \<noteq> 0 \<Longrightarrow> string_at (pre @ w @ 0 # tail) (length pre) = w"
  by (simp add: string_at_def)

lemma word_strings:
  assumes "\<forall>w\<in>set ws. word_ok w"
  shows "map (string_at (pre @ join_words 0 ws @ 0 # tail)) (word_places (length pre) ws) = ws"
  using assms
proof (induction ws arbitrary: pre)
  case (Cons w ws)
  have w: "\<forall>c\<in>set w. c \<noteq> 0" using Cons.prems by (auto simp: word_ok_def)
  show ?case
  proof (cases ws)
    case Nil
    then show ?thesis using string_at_word[OF w] by simp
  next
    case (Cons v vs)
    then have j: "join_words 0 (w # ws) = w @ 0 # join_words 0 ws" by simp
    then show ?thesis using Cons.IH[of "pre @ w @ [0]"] Cons.prems string_at_word[OF w, of pre] by simp
  qed
qed simp

lemma msh_split_words:
  assumes "\<forall>w\<in>set ws. word_ok w" "ws \<noteq> []" "length ws \<le> 10"
  shows "msh_split (join_words 0x20 ws @ 0 # tail) (length (join_words 0x20 ws)) = ws"
  using split_words[OF assms(1,2), of "[]" "join_words 0x20 ws @ 0 # tail" "[]" "0 # tail"] word_strings[OF assms(1), of "[]" tail] assms(3)
  by (simp add: msh_split_def)

section \<open>Finding the command\<close>

lemma cmd_found:
  assumes "cstring_ok (sys_name e)" "cstring_ok cmd" "n \<le> length cmd"
  shows "is_cmd e \<and> strncmp (drop 6 (sys_name e)) cmd n = 0 \<and> at (drop (6 + n) (sys_name e)) = 0 \<longleftrightarrow>
    sys_name e = map chr ''__cmd_'' @ take n cmd"
proof -
  define s p where "s = sys_name e" and "p = (map chr ''__cmd_'' :: cstring)"
  have p: "cstring_ok p" "length p = 6" by (simp_all add: cstring_ok_def chr_def p_def)
  have s: "cstring_ok s" using assms(1) by (simp add: s_def)
  then have d: "cstring_ok (drop k s)" for k by (auto simp: cstring_ok_def dest: in_set_dropD)
  have z: "at t = 0 \<longleftrightarrow> t = []" if "cstring_ok t" for t using that by (cases t) (auto simp: cstring_ok_def)
  have "is_cmd e \<longleftrightarrow> take 6 s = p" using strncmp_zero[OF s p(1), of 6] p(2) by (simp add: is_cmd_def s_def p_def)
  moreover have "strncmp (drop 6 s) cmd n = 0 \<longleftrightarrow> take n (drop 6 s) = take n cmd" by (rule strncmp_zero[OF d assms(2)])
  moreover have "at (drop (6 + n) s) = 0 \<longleftrightarrow> drop n (drop 6 s) = []" using z[OF d] by (simp add: add.commute)
  moreover have "take 6 s = p \<and> take n (drop 6 s) = take n cmd \<and> drop n (drop 6 s) = [] \<longleftrightarrow> s = p @ take n cmd"
  proof
    assume a: "take 6 s = p \<and> take n (drop 6 s) = take n cmd \<and> drop n (drop 6 s) = []"
    have "s = take 6 s @ take n (drop 6 s) @ drop n (drop 6 s)" by (simp only: append_take_drop_id)
    then show "s = p @ take n cmd" using a by (simp only: append_Nil2)
  qed (use p(2) assms(3) in simp)
  ultimately show ?thesis by (simp add: s_def p_def)
qed

lemma join_ok: "\<forall>w\<in>set ws. word_ok w \<Longrightarrow> cstring_ok (join_words 0x20 ws)"
  by (induction "0x20 :: u8" ws rule: join_words.induct) (auto simp: word_ok_def cstring_ok_def)

lemma exec_words:
  assumes "\<forall>w\<in>set (w # ws). word_ok w" "length ws < 10" "\<forall>e\<in>set table. cstring_ok (sys_name e)"
    and "find (\<lambda>e. sys_name e = map chr ''__cmd_'' @ w) table = Some e" and "text = join_words 0x20 (w # ws)"
  shows "msh_exec table (text @ 0 # tail) (length text) = Some (Ran e (w # ws) (sys_func e (w # ws)))"
proof -
  let ?cmd = "text @ 0 # tail"
  have w: "w \<noteq> []" "\<forall>c\<in>set w. \<not> blank c \<and> c \<noteq> 0" using assms(1) by (auto simp: word_ok_def)
  obtain r where r: "text = hd w # r" using first_of_join[OF w(1), of "0x20" ws] assms(5) by auto
  have "takeWhile blank ?cmd = []" using r w by simp
  moreover obtain u where u: "text = w @ u" "u = [] \<or> blank (hd u)" using assms(5) by (cases ws) (auto simp: blank_def)
  have e: "word_end (length text) 0 ?cmd = length w"
    using word_end_word[of w "length text" "[]" ?cmd "u @ 0 # tail"] w(2) u by (cases u) (auto simp: nth_append)
  have ok: "cstring_ok text" using join_ok[OF assms(1)] assms(5) by simp
  then have str: "string_at ?cmd 0 = text" by (auto simp: string_at_def cstring_ok_def takeWhile_append)
  have "msh_get_cmd table text (length w) = find (\<lambda>e. sys_name e = map chr ''__cmd_'' @ w) table"
    unfolding msh_get_cmd_def
    by (rule find_cong) (use cmd_found[OF _ ok, of _ "length w"] assms(3) u(1) in auto)
  then have get: "msh_get_cmd table text (length w) = Some e" using assms(4) by simp
  have "msh_split ?cmd (length text) = w # ws" using msh_split_words[of "w # ws" tail] assms by simp
  ultimately show ?thesis using e str get w(1) r by (simp add: msh_exec_def msh_exec_cmd_def Let_def)
qed

end
