(* ===== verification/Shell_Claims.thy ===== *)
theory Shell_Claims
  imports Shell_Edit
begin

text \<open>
  The properties of the shell, with instances at a table of two commands.
\<close>

section \<open>Lemmas\<close>

lemma push_keeps:
  "line (shell_push_history sh) = line sh" "line_char_counter (shell_push_history sh) = line_char_counter sh"
  "line_curpos (shell_push_history sh) = line_curpos sh" "stat (shell_push_history sh) = stat sh"
  by (simp_all add: shell_push_history_def Let_def)

lemma enter_shows:
  assumes "shows_line sh (b, a)" "msh_exec table (b @ a @ replicate (80 - length (b @ a)) 0) (length (b @ a)) = Some r"
  shows "\<exists>sh'. shell_keys table [0x0d] sh = Some (sh', [r]) \<and> shows_line sh' ([], [])"
proof -
  note d = shows_lineD[OF assms(1)]
  have "counter (shell_push_history sh) = length b + length a" using d(1) by (simp add: counter_def push_keeps)
  then have "\<exists>sh'. enter table sh = Some (sh', r) \<and> shows_line sh' ([], [])"
    using assms(2) d(5,6) by (simp add: enter_def Let_def push_keeps shows_line_def FINSH_CMD_SIZE_def)
  then show ?thesis using d(6) by (auto simp: shell_key_def plain_key_def)
qed

lemma init_shows: "stat sh = WAIT_NORMAL \<Longrightarrow> shows_line (shellInit sh) ([], [])"
  by (simp add: shows_line_def shellInit_def FINSH_CMD_SIZE_def)

definition sample_table :: "finsh_syscall list" where
  "sample_table = [\<lparr>sys_name = map chr ''__cmd_list_mem'', sys_func = \<lambda>_. 0\<rparr>, \<lparr>sys_name = map chr ''__cmd_kill'', sys_func = \<lambda>argv. int (length argv)\<rparr>]"

definition sample_shell :: finsh_shell where
  "sample_shell = shellInit \<lparr>stat = WAIT_NORMAL, echo_mode = False, prompt_mode = False, current_history = 0, history_count = 0,
    cmd_history = replicate 15 (replicate 80 0), line = replicate 80 0xA5, line_char_counter = 3, line_curpos = 9\<rparr>"

section \<open>Editing\<close>

text \<open>
  C37. Line editing refines the abstract editor. From a line that shows \<open>b\<close> before and \<open>a\<close>
  after the cursor, any sequence of printable characters, rubouts and left and right cursor keys
  that never makes the line longer than 79 characters stays within the buffers, runs no command,
  leaves the history alone, and ends with a line that shows what the abstract editor shows.
\<close>

theorem shell_edits_refine:
  assumes "shows_line sh (b, a)" "\<forall>e\<in>set es. printable e" "never_full es (b, a)"
  shows "\<exists>sh' rs. shell_keys table (concat (map keys_of es)) sh = Some (sh', rs) \<and> set rs \<subseteq> {Idle} \<and>
    shows_line sh' (fold apply_edit es (b, a)) \<and> history_count sh' = history_count sh \<and> cmd_history sh' = cmd_history sh"
  by (rule edits_show[OF assms])

theorem shell_edits_refine_witness:
  "\<exists>sh' rs. shell_keys sample_table [0x6b, 0x6c, 0x1b, 0x5b, 0x44, 0x69] sample_shell = Some (sh', rs) \<and>
    shows_line sh' ([0x6b, 0x69], [0x6c])"
proof -
  have "shows_line sample_shell ([], [])" unfolding sample_shell_def by (rule init_shows) simp
  from shell_edits_refine[OF this, of "[Type 0x6b, Type 0x6c, Left, Type 0x69]" sample_table]
  show ?thesis by auto
qed

text \<open>
  C38. A typed line runs its command. When printable characters, rubouts and cursor keys that never make the line longer
  than 79 characters turn an empty line into one of at most ten words separated by single spaces, none of them starting
  with a quote, and the table holds the first word as a command, Enter calls the first such command with exactly these words as its arguments and leaves an empty line.
\<close>

theorem shell_runs_command:
  assumes "shows_line sh ([], [])" "\<forall>e\<in>set es. printable e" "never_full es ([], [])"
    and "fold apply_edit es ([], []) = (b, a)" "b @ a = join_words 0x20 (w # ws)"
    and "\<forall>w\<in>set (w # ws). word_ok w" "length ws < 10"
    and "\<forall>e\<in>set table. cstring_ok (sys_name e)" "find (\<lambda>e. sys_name e = map chr ''__cmd_'' @ w) table = Some c"
  shows "\<exists>sh' rs. shell_keys table (concat (map keys_of es) @ [0x0d]) sh = Some (sh', rs @ [Ran c (w # ws) (sys_func c (w # ws))]) \<and>
    set rs \<subseteq> {Idle} \<and> shows_line sh' ([], [])"
proof -
  obtain sh1 rs where 1: "shell_keys table (concat (map keys_of es)) sh = Some (sh1, rs)" "set rs \<subseteq> {Idle}" "shows_line sh1 (b, a)"
    using edits_show[OF assms(1,2), of table] assms(3,4) by auto
  have "length (b @ a) < 80" using shows_lineD(3)[OF 1(3)] by simp
  then have z: "replicate (80 - length (b @ a)) (0 :: u8) = 0 # replicate (79 - length (b @ a)) 0"
    by (simp add: Suc_diff_le flip: replicate_Suc)
  have "msh_exec table ((b @ a) @ 0 # replicate (79 - length (b @ a)) 0) (length (b @ a)) = Some (Ran c (w # ws) (sys_func c (w # ws)))"
    using exec_words[OF assms(6,7,8,9,5)] .
  then obtain sh2 where "shell_keys table [0x0d] sh1 = Some (sh2, [Ran c (w # ws) (sys_func c (w # ws))])" "shows_line sh2 ([], [])"
    using enter_shows[OF 1(3), of table] z by (metis append.assoc)
  then have "shell_keys table (concat (map keys_of es) @ [0x0d]) sh = Some (sh2, rs @ [Ran c (w # ws) (sys_func c (w # ws))])"
    using 1(1) by (simp add: shell_keys_append del: shell_keys.simps)
  then show ?thesis using 1(2) \<open>shows_line sh2 ([], [])\<close> by blast
qed

theorem shell_runs_command_witness:
  "\<exists>sh' rs. shell_keys sample_table ([0x6b, 0x69, 0x6c, 0x6c, 0x20, 0x35] @ [0x0d]) sample_shell =
    Some (sh', rs @ [Ran (sample_table ! 1) [map chr ''kill'', map chr ''5''] 2])"
proof -
  have s: "shows_line sample_shell ([], [])" unfolding sample_shell_def by (rule init_shows) simp
  from shell_runs_command[OF s, of "map Type [0x6b, 0x69, 0x6c, 0x6c, 0x20, 0x35]" _ _ "[0x6b, 0x69, 0x6c, 0x6c]" "[[0x35]]" sample_table "sample_table ! 1"]
  show ?thesis
    by (auto simp: word_ok_def blank_def sample_table_def cstring_ok_def chr_def)
qed

end
