(* ===== verification/Strbuf.thy ===== *)
theory Strbuf
  imports Cstring "HOL-Library.Monad_Syntax"
begin

text \<open>
  The string functions that write (\<^verbatim>\<open>src/libc\<close>). The destination is a buffer of bytes with an
  index for the pointer into it; an access outside the buffer is \<open>None\<close>. The source of a copy is the
  string it points to, \<open>None\<close> for a null pointer.
\<close>

section \<open>Buffers\<close>

definition rd :: "u8 list \<Rightarrow> nat \<Rightarrow> u8 option" where
  "rd buf i = (if i < length buf then Some (buf ! i) else None)"

definition wr :: "nat \<Rightarrow> u8 \<Rightarrow> u8 list \<Rightarrow> u8 list option" where
  "wr i c buf = (if i < length buf then Some (buf[i := c]) else None)"

fun put_string :: "cstring \<Rightarrow> nat \<Rightarrow> u8 list \<Rightarrow> (nat \<times> u8 list) option" where
  "put_string [] ep buf = Some (ep, buf)"
| "put_string (c # s) ep buf = do { buf \<leftarrow> wr ep c buf; put_string s (ep + 1) buf }"

lemma rd_append [simp]: "rd (pre @ c # post) (length pre) = Some c"
  by (simp add: rd_def)

lemma put_string_eq:
  "ep + length s \<le> length buf \<Longrightarrow> put_string s ep buf = Some (ep + length s, take ep buf @ s @ drop (ep + length s) buf)"
proof (induction s arbitrary: ep buf)
  case (Cons c s)
  let ?b = "buf[ep := c]"
  have "put_string s (ep + 1) ?b = Some (ep + 1 + length s, take (ep + 1) ?b @ s @ drop (ep + 1 + length s) ?b)"
    using Cons.prems by (intro Cons.IH) simp
  then show ?case using Cons.prems by (simp add: wr_def take_Suc_conv_app_nth)
qed simp

lemma put_string_none: "s \<noteq> [] \<Longrightarrow> length buf < ep + length s \<Longrightarrow> put_string s ep buf = None"
proof (induction s arbitrary: ep buf)
  case (Cons c s)
  then show ?case using Cons.IH[of "buf[ep := c]" "ep + 1"] by (cases "s = []") (auto simp: wr_def)
qed simp

lemma put_string_append:
  "put_string (s @ t) ep buf = Option.bind (put_string s ep buf) (\<lambda>(ep, buf). put_string t ep buf)"
proof (induction s arbitrary: ep buf)
  case (Cons c s)
  then show ?case by (cases "wr ep c buf") simp_all
qed simp

section \<open>The functions\<close>

text \<open>The loop \<^verbatim>\<open>for (; *d; d++);\<close>.\<close>

function strend :: "u8 list \<Rightarrow> nat \<Rightarrow> nat option" where
  "strend b d = (if d < length b then if b ! d = 0 then Some d else strend b (d + 1) else None)"
  by pat_completeness auto
termination by (relation "measure (\<lambda>(b, d). length b - d)") auto

declare strend.simps [simp del]

definition strcpy :: "nat \<Rightarrow> cstring option \<Rightarrow> u8 list \<Rightarrow> u8 list option" where
  "strcpy dstp srcp b =
    do { b \<leftarrow> wr dstp 0 b;
         case srcp of None \<Rightarrow> Some b | Some s \<Rightarrow> map_option snd (put_string (s @ [0]) dstp b) }"

fun strlcpy_loop :: "nat \<Rightarrow> cstring \<Rightarrow> nat \<Rightarrow> u8 list \<Rightarrow> (nat \<times> u8 list) option" where
  "strlcpy_loop len s d b =
    (if len \<le> 1 then do { b \<leftarrow> wr d 0 b; Some (0, b) }
     else do {
       b \<leftarrow> wr d (at s) b;
       if at s = 0 then Some (len - 1, b) else strlcpy_loop (len - 1) (tl s) (d + 1) b })"

declare strlcpy_loop.simps [simp del]

definition strlcpy :: "nat \<Rightarrow> cstring option \<Rightarrow> nat \<Rightarrow> u8 list \<Rightarrow> (nat \<times> u8 list) option" where
  "strlcpy d src l b =
    (if l = 0 then Some (0, b)
     else do {
       b \<leftarrow> wr d 0 b;
       case src of
         None \<Rightarrow> Some (0, b)
       | Some s \<Rightarrow> do { (len, b) \<leftarrow> strlcpy_loop l s d b; Some (l - len, b) } })"

fun strncpy_loop :: "cstring \<Rightarrow> nat \<Rightarrow> nat \<Rightarrow> u8 list \<Rightarrow> u8 list option" where
  "strncpy_loop src d 0 b = Some b"
| "strncpy_loop [] d (Suc n) b = do { b \<leftarrow> wr d 0 b; strncpy_loop [] (d + 1) n b }"
| "strncpy_loop (c # src) d (Suc n) b = do { b \<leftarrow> wr d c b; strncpy_loop src (d + 1) n b }"

definition strncpy :: "nat \<Rightarrow> cstring option \<Rightarrow> nat \<Rightarrow> u8 list \<Rightarrow> u8 list option" where
  "strncpy dst src n b = (case src of None \<Rightarrow> Some b | Some s \<Rightarrow> strncpy_loop s dst n b)"

definition strcat :: "nat \<Rightarrow> cstring option \<Rightarrow> u8 list \<Rightarrow> u8 list option" where
  "strcat dst src b =
    (case src of
       None \<Rightarrow> Some b
     | Some s \<Rightarrow> do { d \<leftarrow> strend b dst; (_, b) \<leftarrow> put_string (s @ [0]) d b; Some b })"

text \<open>The moving loop of \<^verbatim>\<open>strichr\<close>, from the terminator down; the counter is \<^verbatim>\<open>t - p + 1\<close>.\<close>

fun shift_up :: "nat \<Rightarrow> nat \<Rightarrow> u8 list \<Rightarrow> u8 list option" where
  "shift_up p 0 b = Some b"
| "shift_up p (Suc k) b = do { c \<leftarrow> rd b (p + k); b \<leftarrow> wr (p + k + 1) c b; shift_up p k b }"

definition strichr :: "nat \<Rightarrow> u8 \<Rightarrow> u8 list \<Rightarrow> u8 list option" where
  "strichr p c b = do { t \<leftarrow> strend b p; b \<leftarrow> shift_up p (Suc (t - p)) b; wr p c b }"

text \<open>The table of \<^verbatim>\<open>toupper.c\<close> has an entry for \<^verbatim>\<open>EOF\<close> and one for each byte.\<close>

definition toupper :: "int \<Rightarrow> int option" where
  "toupper c = (if c < - 1 \<or> 255 < c then None else if 0x61 \<le> c \<and> c \<le> 0x7a then Some (c - 0x20) else Some c)"

function strtoupper :: "nat \<Rightarrow> u8 list \<Rightarrow> u8 list option" where
  "strtoupper p b =
    (if p < length b then
       if b ! p = 0 then Some b
       else case toupper (schar (b ! p)) of None \<Rightarrow> None | Some c \<Rightarrow> strtoupper (p + 1) (b[p := word_of_int c])
     else None)"
  by pat_completeness auto
termination by (relation "measure (\<lambda>(p, b). length b - p)") auto

declare strtoupper.simps [simp del]

lemma toupper_ascii:
  assumes "c < 0x80"
  shows "toupper (schar c) = Some (uint (if 0x61 \<le> c \<and> c \<le> 0x7a then c - 0x20 else c))"
proof -
  have "uint c < 128" using assms by (simp add: word_less_def)
  moreover have "- 128 \<le> uint c" using uint_ge_0[of c] by linarith
  ultimately have "schar c = uint c" using signed_take_bit_int_eq_self[of 7 "uint c"] by (simp add: schar_def sint_uint)
  moreover have "uint (c - 0x20) = uint c - 0x20" if "0x61 \<le> c" using that by (simp add: uint_sub_if' word_le_def)
  moreover have "\<not> uint c < - 1" using uint_ge_0[of c] by linarith
  ultimately show ?thesis using \<open>uint c < 128\<close> by (auto simp: toupper_def word_le_def)
qed

section \<open>What they do to a string in a buffer\<close>

definition holds :: "u8 list \<Rightarrow> nat \<Rightarrow> cstring \<Rightarrow> bool" where
  "holds b p s \<longleftrightarrow> p + length s < length b \<and> take (length s + 1) (drop p b) = s @ [0] \<and> cstring_ok s"

text \<open>The buffer has the same size and the same bytes before \<open>p\<close>, and the string \<open>s\<close> stands at \<open>p\<close>.\<close>

definition writes :: "nat \<Rightarrow> cstring \<Rightarrow> u8 list \<Rightarrow> u8 list \<Rightarrow> bool" where
  "writes p s b b' \<longleftrightarrow> length b' = length b \<and> take p b' = take p b \<and> holds b' p s"

lemma holds_split: "holds b p s \<longleftrightarrow> cstring_ok s \<and> (\<exists>pre post. b = pre @ s @ 0 # post \<and> length pre = p)"
proof
  assume h: "holds b p s"
  then have "drop p b = (s @ [0]) @ drop (length s + 1) (drop p b)" by (metis append_take_drop_id holds_def)
  then have "b = take p b @ s @ 0 # drop (length s + 1) (drop p b)" by (metis append.assoc append_Cons append_Nil append_take_drop_id)
  then show "cstring_ok s \<and> (\<exists>pre post. b = pre @ s @ 0 # post \<and> length pre = p)" using h
    by (intro conjI exI[of _ "take p b"] exI[of _ "drop (length s + 1) (drop p b)"]) (auto simp: holds_def)
qed (auto simp: holds_def)

lemma writes_trans: "writes p s b b' \<Longrightarrow> writes p t b' b'' \<Longrightarrow> writes p t b b''"
  by (simp add: writes_def)

lemma strend_holds: "holds b p s \<Longrightarrow> strend b p = Some (p + length s)"
proof (induction s arbitrary: p)
  case (Cons c s)
  then obtain pre post where b: "b = pre @ (c # s) @ 0 # post" "length pre = p" "cstring_ok (c # s)" unfolding holds_split by auto
  then have "holds b (p + 1) s" unfolding holds_split by (intro conjI exI[of _ "pre @ [c]"] exI[of _ post]) (auto simp: cstring_ok_def)
  moreover have "p < length b" "b ! p \<noteq> 0" using b by (auto simp: nth_append cstring_ok_def)
  ultimately show ?case using Cons.IH[of "p + 1"] by (subst strend.simps) simp
next
  case Nil
  then show ?case by (subst strend.simps) (auto simp: holds_split)
qed

lemma put_writes:
  assumes "cstring_ok s" "p + length s < length b"
  shows "\<exists>b'. put_string (s @ [0]) p b = Some (p + length s + 1, b') \<and> writes p s b b'"
  using put_string_eq[of p "s @ [0]" b] assms
  by (auto simp: writes_def holds_def)

lemma strcpy_writes:
  assumes "cstring_ok s" "p + length s < length b"
  shows "\<exists>b'. strcpy p (Some s) b = Some b' \<and> writes p s b b'"
proof -
  obtain b' where "put_string (s @ [0]) p (b[p := 0]) = Some (p + length s + 1, b')" "writes p s (b[p := 0]) b'"
    using put_writes[of s p "b[p := 0]"] assms by auto
  then show ?thesis using assms(2) by (auto simp: strcpy_def wr_def writes_def)
qed

lemma strcat_writes:
  assumes "holds b p s" "cstring_ok t" "p + length s + length t < length b"
  shows "\<exists>b'. strcat p (Some t) b = Some b' \<and> writes p (s @ t) b b'"
proof -
  obtain pre post where b: "b = pre @ s @ 0 # post" "length pre = p" "cstring_ok s" using assms(1) unfolding holds_split by auto
  have "put_string (t @ [0]) (p + length s) b = Some (p + length s + length (t @ [0]), take (p + length s) b @ (t @ [0]) @ drop (p + length s + length (t @ [0])) b)"
    using assms(3) by (intro put_string_eq) simp
  moreover have "take (p + length s) b = pre @ s" using b by simp
  ultimately have "strcat p (Some t) b = Some (pre @ (s @ t) @ 0 # drop (p + length s + length (t @ [0])) b)"
    using strend_holds[OF assms(1)] by (simp add: strcat_def)
  then show ?thesis using b assms by (auto simp: writes_def holds_split cstring_ok_def)
qed

lemma shift_up_eq:
  "b = pre @ xs @ y # post \<Longrightarrow> shift_up (length pre) (length xs) b = Some (pre @ hd (xs @ [y]) # xs @ post)"
proof (induction xs arbitrary: b y post rule: rev_induct)
  case (snoc z xs)
  have "rd b (length pre + length xs) = Some z" unfolding snoc.prems by (simp add: rd_def nth_append)
  moreover have "wr (length pre + length xs + 1) z b = Some (pre @ xs @ z # z # post)"
    unfolding snoc.prems by (simp add: wr_def list_update_append)
  moreover have "hd (xs @ [z, y]) = hd (xs @ [z])" by (cases xs) auto
  ultimately show ?case using snoc.IH[of "pre @ xs @ z # z # post" z "z # post"] by simp
qed simp

lemma strichr_writes:
  assumes "holds b p s" "c \<noteq> 0" "p + length s + 1 < length b"
  shows "\<exists>b'. strichr p c b = Some b' \<and> writes p (c # s) b b'"
proof -
  obtain pre post where b: "b = pre @ s @ 0 # post" "length pre = p" "cstring_ok s" using assms(1) unfolding holds_split by auto
  then obtain y post' where post: "post = y # post'" using assms(3) by (cases post) auto
  have "shift_up p (Suc (length s)) b = Some (pre @ hd ((s @ [0]) @ [y]) # (s @ [0]) @ post')"
    using shift_up_eq[of b pre "s @ [0]" y post'] b post by simp
  then have "strichr p c b = Some (pre @ c # s @ 0 # post')"
    using strend_holds[OF assms(1)] b(2) by (simp add: strichr_def wr_def list_update_append del: shift_up.simps)
  moreover have "writes p (c # s) b (pre @ c # s @ 0 # post')"
    unfolding writes_def holds_split using b post assms(2) by (auto simp: cstring_ok_def)
  ultimately show ?thesis by blast
qed

text \<open>\<^verbatim>\<open>strlcpy\<close> writes at most \<open>l\<close> bytes and always a terminator.\<close>

lemma strlcpy_loop_eq:
  "cstring_ok s \<Longrightarrow> 0 < l \<Longrightarrow> d + min (length s + 1) l \<le> length b \<Longrightarrow>
    strlcpy_loop l s d b = Some (l - min (length s + 1) l, take d b @ (take (l - 1) s @ [0]) @ drop (d + min (length s + 1) l) b)"
proof (induction s arbitrary: l d b)
  case Nil
  then show ?case by (subst strlcpy_loop.simps) (auto simp: wr_def upd_conv_take_nth_drop)
next
  case (Cons c s)
  show ?case
  proof (cases "l \<le> 1")
    case True
    then have "l = 1" using Cons.prems(2) by simp
    then show ?thesis using Cons.prems by (subst strlcpy_loop.simps) (auto simp: wr_def upd_conv_take_nth_drop)
  next
    case False
    then obtain k where l: "l = Suc k" "0 < k" by (cases l) auto
    have c: "c \<noteq> 0" "cstring_ok s" using Cons.prems(1) by (auto simp: cstring_ok_def)
    have d: "d < length b" using Cons.prems(3) l by auto
    have "strlcpy_loop k s (d + 1) (b[d := c]) =
        Some (k - min (length s + 1) k, take (d + 1) (b[d := c]) @ (take (k - 1) s @ [0]) @ drop (d + 1 + min (length s + 1) k) (b[d := c]))"
      using Cons.IH[OF c(2) l(2), of "d + 1" "b[d := c]"] Cons.prems(3) l by simp
    moreover have "take (d + 1) (b[d := c]) = take d b @ [c]" using d by (simp add: take_Suc_conv_app_nth)
    moreover have "take (Suc k - 1) (c # s) = c # take (k - 1) s" using l(2) by (cases k) auto
    ultimately show ?thesis using c(1) d l by (subst strlcpy_loop.simps) (simp add: wr_def)
  qed
qed

lemma place_writes:
  assumes "cstring_ok t" "d + length t < length b" "b' = take d b @ (t @ [0]) @ drop (d + (length t + 1)) b"
  shows "writes d t b b'" "length t < k \<Longrightarrow> drop (d + k) b' = drop (d + k) b"
proof -
  show "writes d t b b'" unfolding writes_def holds_split using assms by auto
  show "drop (d + k) b' = drop (d + k) b" if "length t < k" using assms(2,3) that by (simp add: drop_Cons' add.commute)
qed

lemma strlcpy_writes:
  assumes "cstring_ok s" "0 < l" "d + min (length s + 1) l \<le> length b"
  shows "\<exists>b'. strlcpy d (Some s) l b = Some (min (length s + 1) l, b') \<and> writes d (take (l - 1) s) b b' \<and> drop (d + l) b' = drop (d + l) b"
proof -
  let ?b = "b[d := 0]" and ?t = "take (l - 1) s"
  have m: "min (length s + 1) l = length ?t + 1" using assms(2) by (auto simp: min_def)
  let ?b' = "take d b @ (?t @ [0]) @ drop (d + (length ?t + 1)) b"
  have t: "cstring_ok ?t" "d + length ?t < length b" "length ?t < l" "length ?t + 1 \<le> l"
    using assms m by (auto simp: cstring_ok_def dest: in_set_takeD)
  have "take d ?b = take d b" "drop (d + (length ?t + 1)) ?b = drop (d + (length ?t + 1)) b" by (simp_all add: drop_update_cancel)
  then have "strlcpy_loop l s d ?b = Some (l - (length ?t + 1), ?b')"
    using strlcpy_loop_eq[OF assms(1,2), of d ?b] assms(3) unfolding m by simp
  then have "strlcpy d (Some s) l b = Some (length ?t + 1, ?b')" using assms(2) t by (simp add: strlcpy_def wr_def)
  then show ?thesis using place_writes[OF t(1,2) refl] t(3) unfolding m by blast
qed

lemma strncpy_loop_eq:
  "d + n \<le> length b \<Longrightarrow> strncpy_loop s d n b = Some (take d b @ take n (s @ replicate n 0) @ drop (d + n) b)"
proof (induction s d n b rule: strncpy_loop.induct)
  case (2 d n b)
  then show ?case by (simp add: wr_def take_Suc_conv_app_nth)
next
  case (3 c s d n b)
  have "take n (s @ 0 # replicate n 0) = take n (s @ replicate n 0)" by (simp add: replicate_append_same[symmetric] del: replicate_Suc flip: replicate_Suc)
  then show ?case using 3 by (simp add: wr_def take_Suc_conv_app_nth)
qed simp

lemma strtoupper_eq:
  "b = pre @ s @ 0 # post \<Longrightarrow> \<forall>c\<in>set s. c \<noteq> 0 \<and> c < 0x80 \<Longrightarrow>
    strtoupper (length pre) b = Some (pre @ map (\<lambda>c. if 0x61 \<le> c \<and> c \<le> 0x7a then c - 0x20 else c) s @ 0 # post)"
proof (induction s arbitrary: b pre)
  case Nil
  then show ?case by (subst strtoupper.simps) simp
next
  case (Cons c s)
  let ?u = "if 0x61 \<le> c \<and> c \<le> 0x7a then c - 0x20 else c"
  have c: "c \<noteq> 0" "c < 0x80" using Cons.prems(2) by auto
  have "toupper (schar c) = Some (uint ?u)" by (rule toupper_ascii[OF c(2)])
  moreover have "strtoupper (length (pre @ [?u])) ((pre @ [?u]) @ s @ 0 # post) = Some ((pre @ [?u]) @ map (\<lambda>c. if 0x61 \<le> c \<and> c \<le> 0x7a then c - 0x20 else c) s @ 0 # post)"
    by (rule Cons.IH) (use Cons.prems(2) in auto)
  ultimately show ?case using c(1) Cons.prems(1) by (subst strtoupper.simps) (simp add: list_update_append)
qed

end
