(* ===== verification/Env.thy ===== *)
theory Env
  imports Numconv Strbuf
begin

unbundle bit_operations_syntax

text \<open>
  The environment variables, \<^verbatim>\<open>src/os/env.c\<close>: a table of 64 pairs in memory and a sector of 4096
  bytes in the NOR flash with a 16-bit checksum and the strings \<^verbatim>\<open>name=value\<close> behind it. The sector
  is a list of bytes, a pointer into it an index. An access outside a sector buffer, and a loop that
  does not end, is \<open>None\<close>. Of the flash only the contents of this sector matter, and of \<^verbatim>\<open>malloc\<close> only
  whether it grants a block: the \<open>i\<close>-th request is granted when \<open>granted i\<close>.
\<close>

section \<open>State\<close>

definition NVRAM_SECSIZE :: nat where "NVRAM_SECSIZE = 4096"
definition NVAR :: nat where "NVAR = 64"

type_synonym envpair = "cstring \<times> cstring option"

record env =
  envvar :: "envpair option list"
  envinited :: bool
  nvram_invalid :: int
  nor :: "u8 list"
  granted :: "nat \<Rightarrow> bool"
  requests :: nat

definition alloc :: "env \<Rightarrow> bool \<times> env" where
  "alloc e = (granted e (requests e), e\<lparr>requests := requests e + 1\<rparr>)"

section \<open>The table in memory\<close>

definition envsize :: "env \<Rightarrow> nat \<times> nat" where
  "envsize e =
    foldl (\<lambda>(ec, slen) ep. case ep of
        None \<Rightarrow> (ec, slen)
      | Some (name, val) \<Rightarrow>
        (ec + 1, slen + (strlen name + 2) + (case val of None \<Rightarrow> 0 | Some v \<Rightarrow> strlen v)))
      (0, 0) (envvar e)"

definition envbuild :: "env \<Rightarrow> cstring list" where
  "envbuild e =
    map (\<lambda>(name, val). name @ [0x3d] @ (case val of None \<Rightarrow> [] | Some v \<Rightarrow> v)) (map the (filter (\<lambda>ep. ep \<noteq> None) (envvar e)))"

fun env_find :: "cstring \<Rightarrow> nat \<Rightarrow> envpair option list \<Rightarrow> nat option" where
  "env_find name i [] = None"
| "env_find name i (None # eps) = env_find name (i + 1) eps"
| "env_find name i (Some (n, v) # eps) = (if striequ name n then Some i else env_find name (i + 1) eps)"

fun env_free :: "nat \<Rightarrow> envpair option list \<Rightarrow> nat option" where
  "env_free i [] = None"
| "env_free i (None # eps) = Some i"
| "env_free i (Some ep # eps) = env_free (i + 1) eps"

text \<open>
  What \<^verbatim>\<open>getenv\<close> returns: a string, a null pointer before the initialisation, and nothing defined
  when the search falls off the end of the function.
\<close>

datatype getenv_result = Text cstring | Null | Undefined

definition getenv :: "cstring \<Rightarrow> env \<Rightarrow> getenv_result" where
  "getenv name e =
    (if envinited e then
       (case env_find name 0 (envvar e) of
          Some i \<Rightarrow> (case envvar e ! i of Some (_, Some v) \<Rightarrow> Text v | _ \<Rightarrow> Text [])
        | None \<Rightarrow> Undefined)
     else Null)"

definition env_value :: "nat \<Rightarrow> cstring \<Rightarrow> cstring option \<Rightarrow> env \<Rightarrow> int \<times> env" where
  "env_value i name val e =
    (case val of
       None \<Rightarrow> (1, e\<lparr>envvar := (envvar e)[i := Some (name, None)]\<rparr>)
     | Some v \<Rightarrow>
       let (ok, e) = alloc e in
       if \<not> ok then (0, e\<lparr>envvar := (envvar e)[i := None]\<rparr>)
       else (1, e\<lparr>envvar := (envvar e)[i := Some (name, Some v)]\<rparr>))"

definition set_mem_env :: "cstring \<Rightarrow> cstring option \<Rightarrow> env \<Rightarrow> int \<times> env" where
  "set_mem_env name val e =
    (case env_find name 0 (envvar e) of
       Some i \<Rightarrow> env_value i (case envvar e ! i of Some (n, _) \<Rightarrow> n | None \<Rightarrow> []) val e
     | None \<Rightarrow>
       (case env_free 0 (envvar e) of
          Some i \<Rightarrow> let (ok, e) = alloc e in if \<not> ok then (0, e) else env_value i name val e
        | None \<Rightarrow> (0, e)))"

section \<open>The sector\<close>

fun cksum_loop :: "nat \<Rightarrow> nat \<Rightarrow> u8 list \<Rightarrow> u16 \<Rightarrow> u16" where
  "cksum_loop 0 sp p s = s"
| "cksum_loop (Suc sz) sp p s = cksum_loop sz (sp + 2) p (s + push_bit 8 (ucast (p ! sp)) + ucast (p ! (sp + 1)))"

definition cksum :: "u8 list \<Rightarrow> nat \<Rightarrow> bool \<Rightarrow> u16 \<times> u8 list" where
  "cksum p s do_set =
    (let p = (if do_set then p[0 := 0, 1 := 0] else p);
         sum = cksum_loop (s div 2) 0 p 0
     in if do_set then (- sum, p[0 := ucast (drop_bit 8 (- sum)), 1 := ucast (- sum)]) else (sum, p))"

definition nvram_get :: "env \<Rightarrow> u8 list" where
  "nvram_get e = nor e"

definition nvram_put :: "u8 list \<Rightarrow> env \<Rightarrow> env" where
  "nvram_put buffer e = e\<lparr>nor := buffer\<rparr>"

definition resetNorEnvSpace :: "env \<Rightarrow> env" where
  "resetNorEnvSpace e =
    (if nvram_invalid e \<noteq> 0 then
       let (ok, e) = alloc e in
       if \<not> ok then e
       else
         let nvrambuf = replicate NVRAM_SECSIZE (- 1);
             nvrambuf = nvrambuf[2 := 0, 3 := 0];
             (_, nvrambuf) = cksum nvrambuf NVRAM_SECSIZE True;
             e = nvram_put nvrambuf e
         in e\<lparr>nvram_invalid := 0\<rparr>
     else e)"

text \<open>
  The loops over the strings: comparing with a name, skipping to behind a terminator and
  moving the rest of the sector down.
\<close>

fun name_match :: "u8 list \<Rightarrow> cstring \<Rightarrow> nat \<Rightarrow> (cstring \<times> nat) option" where
  "name_match buf [] ep = map_option (\<lambda>_. ([], ep)) (rd buf ep)"
| "name_match buf (n # np) ep =
    do { c \<leftarrow> rd buf ep;
         if c = n \<and> c \<noteq> 0x3d then name_match buf np (ep + 1) else Some (n # np, ep) }"

function skip_string :: "u8 list \<Rightarrow> nat \<Rightarrow> nat option" where
  "skip_string buf ep =
    (if ep < length buf then if buf ! ep = 0 then Some (ep + 1) else skip_string buf (ep + 1) else None)"
  by pat_completeness auto
termination by (relation "measure (\<lambda>(buf, ep). length buf - ep)") auto

function move_down :: "nat \<Rightarrow> nat \<Rightarrow> u8 list \<Rightarrow> u8 list" where
  "move_down sp ep buf =
    (if ep < length buf then move_down (sp + 1) (ep + 1) (buf[sp := buf ! ep]) else buf)"
  by pat_completeness auto
termination by (relation "measure (\<lambda>(sp, ep, buf). length buf - ep)") auto

declare skip_string.simps [simp del] move_down.simps [simp del]

partial_function (option) unset_loop :: "cstring \<Rightarrow> nat \<Rightarrow> u8 list \<Rightarrow> (bool \<times> u8 list) option" where
  "unset_loop name ep buf =
    do { c \<leftarrow> rd buf ep;
         if c = 0 then Some (False, buf)
         else do {
           (np, ep') \<leftarrow> name_match buf name ep;
           d \<leftarrow> rd buf ep';
           if np = [] \<and> (d = 0 \<or> d = 0x3d) then do {
             ep'' \<leftarrow> skip_string buf ep';
             let buf = move_down ep ep'' buf;
             let buf = (if buf ! 2 = 0 then buf[3 := 0] else buf);
             Some (True, snd (cksum buf NVRAM_SECSIZE True)) }
           else if d \<noteq> 0 then do { ep'' \<leftarrow> skip_string buf ep'; unset_loop name ep'' buf }
           else unset_loop name ep' buf } }"

definition unset_rom_env :: "cstring \<Rightarrow> env \<Rightarrow> (int \<times> env) option" where
  "unset_rom_env name e =
    (if nvram_invalid e \<noteq> 0 then Some (0, e)
     else
       let (ok, e) = alloc e in
       if \<not> ok then Some (0, e)
       else do {
         (found, buf) \<leftarrow> unset_loop name 2 (nvram_get e);
         if found then Some (1, nvram_put buf e) else Some (0, e) })"

partial_function (option) env_end :: "u8 list \<Rightarrow> nat \<Rightarrow> nat option" where
  "env_end buf ep =
    do { ep \<leftarrow> skip_string buf ep; c \<leftarrow> rd buf ep; if c \<noteq> 0 then env_end buf (ep + 1) else Some ep }"

definition set_rom_env :: "cstring \<Rightarrow> cstring option \<Rightarrow> env \<Rightarrow> (int \<times> env) option" where
  "set_rom_env name val e =
    (let envlen = strlen name in
     if envlen = 0 then Some (0, e)
     else
       let envlen = envlen + (case val of None \<Rightarrow> 0 | Some v \<Rightarrow> strlen v) + 2 in
       if envlen > 255 then Some (0, e)
       else
         let e = (if nvram_invalid e \<noteq> 0 then resetNorEnvSpace e else e);
             (ok, e) = alloc e in
         if \<not> ok then Some (-1, e)
         else do {
           (_, e) \<leftarrow> unset_rom_env name e;
           let buf = nvram_get e;
           c \<leftarrow> rd buf 2;
           ep \<leftarrow> (if c \<noteq> 0 then env_end buf 2 else Some 2);
           if int ep + int NVRAM_SECSIZE - int ep < int envlen + 1 then Some (0, e)
           else do {
             (ep, buf) \<leftarrow> put_string name ep buf;
             (ep, buf) \<leftarrow> (case val of Some v \<Rightarrow> put_string ([0x3d] @ v @ [0]) ep buf | None \<Rightarrow> put_string [0] ep buf);
             (_, buf) \<leftarrow> put_string [0] ep buf;
             let buf = snd (cksum buf NVRAM_SECSIZE True);
             Some (1, nvram_put buf e) } })"

section \<open>Reading the sector\<close>

text \<open>
  One string: its bytes go to the name up to the first equals sign and to the value behind it.
  The result has the place behind the string and the number of bytes counted.
\<close>

partial_function (option) entry_loop ::
  "u8 list \<Rightarrow> nat \<Rightarrow> nat \<Rightarrow> cstring \<Rightarrow> cstring option \<Rightarrow> (nat \<times> nat \<times> cstring \<times> cstring option) option" where
  "entry_loop buf ep i name val =
    do { c \<leftarrow> rd buf ep;
         let ep = ep + 1;
         if c \<noteq> 0 \<and> ep \<le> NVRAM_SECSIZE - 1 then
           (if i < 255 then
              case val of
                None \<Rightarrow> if c = 0x3d then entry_loop buf ep (i + 1) name (Some []) else entry_loop buf ep (i + 1) (name @ [c]) None
              | Some v \<Rightarrow> entry_loop buf ep (i + 1) name (Some (v @ [c]))
            else Some (ep, i + 1, name, val))
         else Some (ep, i, name, val) }"

partial_function (option) map_loop :: "u8 list \<Rightarrow> nat \<Rightarrow> env \<Rightarrow> env option" where
  "map_loop buf ep e =
    do { c \<leftarrow> rd buf ep;
         if c = 0 then Some e
         else do {
           (ep, i, name, val) \<leftarrow> entry_loop buf ep 0 [] None;
           if ep \<le> NVRAM_SECSIZE - 1 \<and> i < 255 then map_loop buf ep (snd (set_mem_env name val e))
           else Some (e\<lparr>nvram_invalid := 2\<rparr>) } }"

definition map_rom_env :: "env \<Rightarrow> env option" where
  "map_rom_env e =
    (let (ok, e) = alloc e in
     if \<not> ok then Some e
     else
       let buf = nvram_get e in
       if fst (cksum buf NVRAM_SECSIZE False) \<noteq> 0 then Some (resetNorEnvSpace (e\<lparr>nvram_invalid := 1\<rparr>))
       else map_loop buf 2 e)"


section \<open>Setting a variable\<close>

definition mac_byte :: "cstring \<Rightarrow> nat \<Rightarrow> int" where
  "mac_byte macStr i = sint (str_to_hex [macStr ! i, macStr ! (i + 1)])"

definition check_mac_format :: "cstring \<Rightarrow> bool" where
  "check_mac_format macStr \<longleftrightarrow>
    strlen macStr = 17 \<and> (\<forall>i\<in>set [2, 5, 8, 11, 14]. macStr ! i = 0x3a) \<and>
    (\<forall>i\<in>set [0, 3, 6, 9, 12, 15]. mac_byte macStr i \<ge> 0 \<and> mac_byte macStr i < 0xff)"

definition mac_str_to_hex :: "cstring \<Rightarrow> u8 list option" where
  "mac_str_to_hex macStr =
    (if check_mac_format macStr then Some (map (\<lambda>i. word_of_int (mac_byte macStr i)) [0, 3, 6, 9, 12, 15]) else None)"

definition do_setenv :: "cstring \<Rightarrow> cstring \<Rightarrow> env \<Rightarrow> env option" where
  "do_setenv name v e =
    (if striequ name (map chr ''ethaddr'') \<and> \<not> check_mac_format v then Some e
     else
       let (_, e) = set_mem_env name (Some v) e
       in map_option snd (set_rom_env name (Some v) e))"

text \<open>
  The command \<^verbatim>\<open>set\<close>. With one word it prints the table. The test for two words compares the
  argument array, not the number of words, and never holds.
\<close>

definition set_cmd :: "cstring list \<Rightarrow> env \<Rightarrow> env option" where
  "set_cmd argv e = (if length argv = 3 then do_setenv (argv ! 1) (argv ! 2) e else Some e)"

definition stdenvtab :: "(string \<times> string) list" where
  "stdenvtab =
   [(''localIp'', ''192.168.11.3''),
    (''localMask'', ''255.255.255.0''),
    (''localGateway'', ''192.168.11.1''),
    (''ethaddr'', ''00:55:7B:B5:7D:F7''),
    (''tftpServerIp'', ''192.168.11.2''),
    (''pmonBinName'', ''luojios.bin''),
    (''mtdparts'', ''ls1x-nand:14M@0(kernel),100M@14M(rootfs),14M@114M(data);spi-flash:512K@0(pmon),4K@520192(nvram)''),
    (''memsize'', ''32''),
    (''highmemsize'', ''0''),
    (''pll_reg0'', ''0x8000549c''),
    (''pll_reg1'', ''0x00008283''),
    (''cpuclock'', ''252000000''),
    (''busclock'', ''126000000''),
    (''xres'', ''480''),
    (''yres'', ''272''),
    (''depth'', ''16''),
    (''systype'', ''FCR''),
    (''moresz'', ''10''),
    (''brkcmd'', ''l -r @cpc 1''),
    (''TZ'', ''UTC8''),
    (''datasize'', ''-b''),
    (''dlecho'', ''off''),
    (''dlproto'', ''none''),
    (''bootp'', ''no''),
    (''hostport'', ''tty0''),
    (''inalpha'', ''hex''),
    (''inbase'', ''16''),
    (''regstyle'', ''sw''),
    (''rptcmd'', ''trace''),
    (''trabort'', ''^K''),
    (''ulcr'', ''cr''),
    (''uleof'', ''%''),
    (''showsym'', ''yes''),
    (''fpfmt'', ''both''),
    (''fpdis'', ''yes''),
    (''bootdelay'', ''8''),
    (''loadelfAddr'', ''/dev/mtd0''),
    (''append'', ''console=ttyS2,115200 root=/dev/mtdblock1 rw rootfstype=yaffs2 video=ls1bfb:vga1024x768-24@60 panic=10 noswap''),
    (''al'', ''mtd0'')]"

text \<open>
  \<^verbatim>\<open>envinit\<close>; \<open>left\<close> tells whether what the register holds when \<^verbatim>\<open>getenv\<close> falls off its end is taken
  for a string.
\<close>

fun defaults :: "bool \<Rightarrow> (string \<times> string) list \<Rightarrow> env \<Rightarrow> env option" where
  "defaults left [] e = Some e"
| "defaults left ((n, v) # tab) e =
    (case getenv (map chr n) e of
       Text _ \<Rightarrow> defaults left tab e
     | Null \<Rightarrow> do { e \<leftarrow> do_setenv (map chr n) (map chr v) e; defaults left tab e }
     | Undefined \<Rightarrow>
       if left then defaults left tab e
       else do { e \<leftarrow> do_setenv (map chr n) (map chr v) e; defaults left tab e })"

definition envinit :: "bool \<Rightarrow> env \<Rightarrow> env option" where
  "envinit left e =
    do { let e = e\<lparr>envvar := replicate NVAR None\<rparr>;
         e \<leftarrow> map_rom_env e;
         defaults left stdenvtab (e\<lparr>envinited := True\<rparr>) }"

end
