(* ===== verification/Env_Inv.thy ===== *)
theory Env_Inv
  imports Env
begin

unbundle bit_operations_syntax

text \<open>
  The contents of the sector. \<open>sector_holds buf es\<close> says that a sector has a valid checksum and
  stores the variables \<open>es\<close> in this order; the loops of \<^verbatim>\<open>env.c\<close> are computed on such sectors.
\<close>

section \<open>The checksum\<close>

lemma cksum_loop_add: "cksum_loop n sp p s = s + cksum_loop n sp p 0"
proof (induction n arbitrary: sp s)
  case (Suc n)
  show ?case using Suc[of "sp + 2" "s + push_bit 8 (ucast (p ! sp)) + ucast (p ! (sp + 1))"]
      Suc[of "sp + 2" "push_bit 8 (ucast (p ! sp)) + ucast (p ! (sp + 1))"] by (simp add: add.assoc)
qed simp

lemma cksum_loop_cong: "(\<And>i. sp \<le> i \<Longrightarrow> p ! i = p' ! i) \<Longrightarrow> cksum_loop n sp p s = cksum_loop n sp p' s"
  by (induction n arbitrary: sp s) auto

lemma hi_lo: "push_bit 8 (ucast (ucast (drop_bit 8 w) :: u8)) + ucast (ucast w :: u8) = (w :: u16)"
proof -
  have "ucast (ucast w :: u8) = take_bit 8 w" by (simp add: bit_eq_iff bit_simps; blast)
  moreover have "push_bit 8 (ucast (ucast (drop_bit 8 w) :: u8)) = push_bit 8 (drop_bit 8 w)"
    by (simp add: bit_eq_iff bit_simps) fastforce
  ultimately show ?thesis by (simp add: bits_ident)
qed

lemma cksum_set: "2 \<le> n \<Longrightarrow> n \<le> length p \<Longrightarrow> fst (cksum (snd (cksum p n True)) n False) = 0"
proof -
  assume n: "2 \<le> n" "n \<le> length p"
  obtain m where m: "n div 2 = Suc m" using n(1) by (cases "n div 2") auto
  obtain a b r where p: "p = a # b # r" using n by (metis One_nat_def Suc_1 Suc_le_length_iff le_trans)
  let ?p = "p[0 := 0, 1 := 0]" and ?S = "cksum_loop m 2 (p[0 := 0, 1 := 0]) 0"
  have s: "cksum_loop (Suc m) 0 ?p 0 = ?S" by (simp add: p numeral_2_eq_2)
  let ?q = "?p[0 := ucast (drop_bit 8 (- ?S)), 1 := ucast (- ?S)]"
  have "cksum_loop m 2 ?q 0 = ?S" by (rule cksum_loop_cong) simp
  then have "cksum_loop (Suc m) 0 ?q 0 = (push_bit 8 (ucast (ucast (drop_bit 8 (- ?S)) :: u8)) + ucast (ucast (- ?S) :: u8)) + ?S"
    using cksum_loop_add[of m 2 ?q "push_bit 8 (ucast (?q ! 0)) + ucast (?q ! 1)"] by (simp add: p numeral_2_eq_2)
  then have "cksum_loop (Suc m) 0 ?q 0 = 0" unfolding hi_lo by simp
  then show ?thesis using m s by (simp add: cksum_def Let_def)
qed

lemma cksum_keeps: "i \<ge> 2 \<Longrightarrow> snd (cksum p n b) ! i = p ! i" "length (snd (cksum p n b)) = length p"
  by (simp_all add: cksum_def Let_def)


text \<open>A single wrong byte changes the sum.\<close>

lemma cksum_loop_upd:
  assumes "sp \<le> i" "i < sp + 2 * n" "i < length p"
  shows "cksum_loop n sp (p[i := c]) 0 =
    cksum_loop n sp p 0 + (if even (i - sp) then push_bit 8 (ucast c) - push_bit 8 (ucast (p ! i)) else ucast c - ucast (p ! i))"
  using assms
proof (induction n arbitrary: sp)
  case (Suc n)
  let ?a = "\<lambda>p. push_bit 8 (ucast (p ! sp)) + ucast (p ! (sp + 1)) :: u16"
  have u: "cksum_loop (Suc n) sp q 0 = ?a q + cksum_loop n (sp + 2) q 0" for q :: "u8 list"
    using cksum_loop_add[of n "sp + 2" q "?a q"] by simp
  consider "i = sp" | "i = sp + 1" | "sp + 2 \<le> i" using Suc.prems(1) by linarith
  then show ?case
  proof cases
    case 3
    moreover from 3 have "even (i - (sp + 2)) = even (i - sp)" by auto
    ultimately show ?thesis using Suc.IH[of "sp + 2"] Suc.prems unfolding u by simp
  next
    case 1
    moreover have "cksum_loop n (sp + 2) (p[i := c]) 0 = cksum_loop n (sp + 2) p 0"
      by (rule cksum_loop_cong) (use 1 in simp)
    ultimately show ?thesis using Suc.prems(3) unfolding u by simp
  next
    case 2
    moreover have "cksum_loop n (sp + 2) (p[i := c]) 0 = cksum_loop n (sp + 2) p 0"
      by (rule cksum_loop_cong) (use 2 in simp)
    ultimately show ?thesis using Suc.prems(3) unfolding u by simp
  qed
qed simp

lemma byte_shift_inj: "push_bit 8 (ucast a) = (push_bit 8 (ucast b) :: u16) \<longleftrightarrow> (a :: u8) = b"
proof
  assume "push_bit 8 (ucast a) = (push_bit 8 (ucast b) :: u16)"
  then have e: "bit (push_bit 8 (ucast a) :: u16) (i + 8) = bit (push_bit 8 (ucast b) :: u16) (i + 8)" for i by simp
  have "bit a i = bit b i" if "i < 8" for i using that e[of i] by (simp add: bit_simps)
  then show "a = b" by (auto intro!: bit_word_eqI)
qed simp

lemma byte_widen: "ucast (ucast a :: u16) = (a :: u8)"
  by (simp add: bit_eq_iff bit_simps)

lemma cksum_detects:
  assumes "fst (cksum p n False) = 0" "even n" "i < n" "n \<le> length p" "c \<noteq> p ! i"
  shows "fst (cksum (p[i := c]) n False) \<noteq> 0"
proof -
  have "cksum_loop (n div 2) 0 p 0 = 0" using assms(1) by (simp add: cksum_def Let_def)
  moreover have "(ucast c :: u16) \<noteq> ucast (p ! i)" using assms(5) by (metis byte_widen)
  ultimately show ?thesis
    using cksum_loop_upd[of 0 i "n div 2" p c] assms(2-5) byte_shift_inj[of c "p ! i"] by (simp add: cksum_def Let_def)
qed

section \<open>Layout\<close>

type_synonym entry = "cstring \<times> cstring"

definition enc :: "entry \<Rightarrow> u8 list" where
  "enc x = fst x @ 0x3d # snd x @ [0]"

definition encs :: "entry list \<Rightarrow> u8 list" where
  "encs es = concat (map enc es)"

lemma encs_simps [simp]: "encs [] = []" "encs (x # es) = enc x @ encs es" "encs (es @ fs) = encs es @ encs fs"
  by (simp_all add: encs_def)

definition name_ok :: "cstring \<Rightarrow> bool" where
  "name_ok n \<longleftrightarrow> n \<noteq> [] \<and> 0 \<notin> set n \<and> 0x3d \<notin> set n"

definition entry_ok :: "entry \<Rightarrow> bool" where
  "entry_ok x \<longleftrightarrow> name_ok (fst x) \<and> 0 \<notin> set (snd x) \<and> length (fst x) + length (snd x) + 2 \<le> 255"

definition layout :: "u8 list \<Rightarrow> entry list \<Rightarrow> bool" where
  "layout buf es \<longleftrightarrow> length buf = NVRAM_SECSIZE \<and> (\<forall>x\<in>set es. entry_ok x) \<and> (\<exists>c0 c1 rest. buf = c0 # c1 # encs es @ 0 # rest)"

definition sector_holds :: "u8 list \<Rightarrow> entry list \<Rightarrow> bool" where
  "sector_holds buf es \<longleftrightarrow> layout buf es \<and> fst (cksum buf NVRAM_SECSIZE False) = 0"

lemma layoutE:
  assumes "layout buf es"
  obtains c0 c1 rest where "buf = [c0, c1] @ encs es @ 0 # rest" "length buf = 4096" "\<forall>x\<in>set es. entry_ok x"
  using assms by (auto simp: layout_def NVRAM_SECSIZE_def)

lemma layout_cksum: "layout buf es \<Longrightarrow> sector_holds (snd (cksum buf NVRAM_SECSIZE True)) es"
proof -
  assume l: "layout buf es"
  then obtain c0 c1 rest where b: "buf = [c0, c1] @ encs es @ 0 # rest" "length buf = 4096" by (rule layoutE)
  then have "\<exists>d0 d1. snd (cksum buf NVRAM_SECSIZE True) = d0 # d1 # encs es @ 0 # rest" by (simp add: cksum_def Let_def)
  then have "layout (snd (cksum buf NVRAM_SECSIZE True)) es"
    using l cksum_keeps(2)[of buf NVRAM_SECSIZE True] by (auto simp: layout_def)
  then show ?thesis using cksum_set[of NVRAM_SECSIZE buf] l by (simp add: sector_holds_def layout_def NVRAM_SECSIZE_def)
qed

section \<open>Walking over the strings\<close>

lemma skip_string_eq:
  "0 \<notin> set s \<Longrightarrow> skip_string (pre @ s @ 0 # post) (length pre) = Some (length pre + length s + 1)"
proof (induction s arbitrary: pre)
  case Nil
  show ?case by (subst skip_string.simps) simp
next
  case (Cons c s)
  then show ?case using Cons.IH[of "pre @ [c]"] by (subst skip_string.simps) (simp add: nth_append)
qed

lemma name_match_eq:
  assumes "0x3d \<notin> set name" "0x3d \<notin> set n"
  shows "\<exists>np k. name_match (pre @ n @ 0x3d # post) name (length pre) = Some (np, length pre + k) \<and> k \<le> length n \<and>
    (np = [] \<and> k = length n \<longleftrightarrow> name = n)"
  using assms
proof (induction name arbitrary: n pre)
  case Nil
  have "rd (pre @ n @ 0x3d # post) (length pre) \<noteq> None" by (simp add: rd_def)
  then show ?case by (intro exI[of _ "[]"] exI[of _ 0]) auto
next
  case (Cons a name)
  show ?case
  proof (cases n)
    case Nil
    then show ?thesis using Cons.prems by (intro exI[of _ "a # name"] exI[of _ 0]) simp
  next
    case (Cons b n')
    show ?thesis
    proof (cases "a = b")
      case True
      obtain np k where "name_match ((pre @ [b]) @ n' @ 0x3d # post) name (length (pre @ [b])) = Some (np, length (pre @ [b]) + k)"
          "k \<le> length n'" "np = [] \<and> k = length n' \<longleftrightarrow> name = n'"
        using Cons.IH[of n' "pre @ [b]"] Cons.prems Cons by auto
      then show ?thesis using True Cons Cons.prems by (intro exI[of _ np] exI[of _ "Suc k"]) auto
    next
      case False
      then show ?thesis using Cons by (intro exI[of _ "a # name"] exI[of _ 0]) auto
    qed
  qed
qed


lemma move_down_eq:
  "sp \<le> ep \<Longrightarrow> ep \<le> length buf \<Longrightarrow>
    move_down sp ep buf = take sp buf @ drop ep buf @ drop (sp + (length buf - ep)) buf"
proof (induction "length buf - ep" arbitrary: sp ep buf)
  case 0
  then show ?case by (subst move_down.simps) simp
next
  case (Suc d)
  then have lt: "ep < length buf" "sp < length buf" by simp_all
  let ?b = "buf[sp := buf ! ep]"
  have "move_down (sp + 1) (ep + 1) ?b = take (sp + 1) ?b @ drop (ep + 1) ?b @ drop (sp + 1 + (length ?b - (ep + 1))) ?b"
    using Suc lt by (intro Suc.hyps(1)) simp_all
  moreover have "take (sp + 1) ?b = take sp buf @ [buf ! ep]" using lt by (simp add: take_Suc_conv_app_nth)
  moreover have "drop (ep + 1) ?b = drop (ep + 1) buf" using Suc.prems(1) by simp
  moreover have "sp + 1 + (length ?b - (ep + 1)) = sp + (length buf - ep)" using lt by simp
  moreover have "drop (sp + (length buf - ep)) ?b = drop (sp + (length buf - ep)) buf" using lt by simp
  moreover have "drop ep buf = buf ! ep # drop (ep + 1) buf" using lt by (simp add: Cons_nth_drop_Suc)
  ultimately show ?case using lt by (subst move_down.simps) simp
qed

text \<open>The first variable with a name, removed.\<close>

fun del :: "cstring \<Rightarrow> entry list \<Rightarrow> entry list" where
  "del name [] = []"
| "del name (x # es) = (if fst x = name then es else x # del name es)"

lemma del_set: "set (del name es) \<subseteq> set es"
  by (induction es) auto

lemma del_names: "distinct (map fst es) \<Longrightarrow> distinct (map fst (del name es)) \<and> name \<notin> fst ` set (del name es)"
proof (induction es)
  case (Cons x es)
  then show ?case using image_mono[OF del_set[of name es], of fst] by auto
qed simp

definition dropped :: "nat \<Rightarrow> nat \<Rightarrow> u8 list \<Rightarrow> u8 list" where
  "dropped a b buf =
    (let buf = take a buf @ drop b buf @ drop (a + (length buf - b)) buf
     in snd (cksum (if buf ! 2 = 0 then buf[3 := 0] else buf) NVRAM_SECSIZE True))"

lemma unset_loop_eq:
  assumes "buf = pre @ encs es @ 0 # rest" "\<forall>x\<in>set es. entry_ok x" "name_ok name"
  shows "unset_loop name (length pre) buf =
    (if name \<in> fst ` set es
     then Some (True, dropped (length pre + length (encs (takeWhile (\<lambda>x. fst x \<noteq> name) es)))
       (length pre + length (encs (takeWhile (\<lambda>x. fst x \<noteq> name) es)) + length (enc (hd (dropWhile (\<lambda>x. fst x \<noteq> name) es)))) buf)
     else Some (False, buf))"
  using assms
proof (induction es arbitrary: pre)
  case Nil
  then show ?case by (simp add: unset_loop.simps)
next
  case (Cons x es)
  obtain n v where x: "x = (n, v)" by (cases x)
  have ok: "n \<noteq> []" "0 \<notin> set n" "0x3d \<notin> set n" "0 \<notin> set v" "0x3d \<notin> set name"
    using Cons.prems(2,3) by (auto simp: x entry_ok_def name_ok_def)
  let ?post = "v @ 0 # encs es @ 0 # rest"
  have b: "buf = pre @ n @ 0x3d # ?post" using Cons.prems(1) by (simp add: x enc_def)
  obtain np k where m: "name_match buf name (length pre) = Some (np, length pre + k)" "k \<le> length n"
      "np = [] \<and> k = length n \<longleftrightarrow> name = n"
    using name_match_eq[OF ok(5,3), of pre ?post] b by auto
  have c: "rd buf (length pre) = Some (hd n)" "hd n \<noteq> 0" using ok(1,2) b by (cases n; simp)+
  let ?s = "drop k (n @ 0x3d # v)"
  have sp: "buf = (pre @ take k n) @ ?s @ 0 # encs es @ 0 # rest" "0 \<notin> set ?s" "length (pre @ take k n) = length pre + k"
    using m(2) b ok(2,4) by (auto dest: in_set_dropD)
  have sk: "skip_string buf (length pre + k) = Some (length pre + length (enc x))"
    using skip_string_eq[OF sp(2), of "pre @ take k n" "encs es @ 0 # rest"] sp(3) m(2) unfolding sp(1)[symmetric]
    by (simp add: x enc_def)
  have d: "rd buf (length pre + k) = Some (if k < length n then n ! k else 0x3d)"
    using m(2) b by (auto simp: rd_def nth_append)
  have d0: "k < length n \<Longrightarrow> n ! k \<noteq> 0 \<and> n ! k \<noteq> 0x3d" using ok(2,3) by (metis nth_mem)
  show ?case
  proof (cases "name = n")
    case True
    then have "np = []" "k = length n" using m(3) by auto
    moreover have "length pre + length (enc x) \<le> length buf" using Cons.prems(1) by simp
    ultimately show ?thesis using True c m(1) sk d move_down_eq[of "length pre" "length pre + length (enc x)" buf]
      by (subst unset_loop.simps) (simp add: x dropped_def Let_def)
  next
    case False
    then have "\<not> (np = [] \<and> k = length n)" using m(3) by simp
    then have "unset_loop name (length pre) buf = unset_loop name (length (pre @ enc x)) buf"
      using c m(1,2) sk d d0 by (auto simp: unset_loop.simps[of name "length pre"])
    also have "\<dots> = (if name \<in> fst ` set es
     then Some (True, dropped (length (pre @ enc x) + length (encs (takeWhile (\<lambda>x. fst x \<noteq> name) es)))
       (length (pre @ enc x) + length (encs (takeWhile (\<lambda>x. fst x \<noteq> name) es)) + length (enc (hd (dropWhile (\<lambda>x. fst x \<noteq> name) es)))) buf)
     else Some (False, buf))"
      by (rule Cons.IH) (use Cons.prems in simp_all)
    finally show ?thesis using False by (auto simp: x add.assoc)
  qed
qed


section \<open>Removing a variable\<close>

lemma first_byte: "entry_ok x \<Longrightarrow> (enc x @ r) ! 0 \<noteq> 0"
  by (cases "fst x") (auto simp: entry_ok_def name_ok_def enc_def)

lemma clear_layout:
  assumes "c = [c0, c1] @ encs zs @ 0 # t" "length c = NVRAM_SECSIZE" "\<forall>y\<in>set zs. entry_ok y"
  shows "layout (if c ! 2 = 0 then c[3 := 0] else c) zs"
proof (cases zs)
  case Nil
  then show ?thesis using assms by (auto simp: layout_def numeral_2_eq_2 numeral_3_eq_3)
next
  case (Cons y ys)
  then have "c ! 2 \<noteq> 0" using first_byte[of y] assms(1,3) by (simp add: numeral_2_eq_2)
  then show ?thesis using assms by (auto simp: layout_def)
qed

lemma dropped_layout:
  assumes "layout buf (xs @ x # ys)"
  shows "sector_holds (dropped (2 + length (encs xs)) (2 + length (encs xs) + length (enc x)) buf) (xs @ ys)"
proof -
  let ?a = "2 + length (encs xs)" and ?b = "2 + length (encs xs) + length (enc x)"
  obtain c0 c1 rest where b: "buf = [c0, c1] @ encs (xs @ x # ys) @ 0 # rest" "length buf = 4096" "\<forall>y\<in>set (xs @ x # ys). entry_ok y"
    using assms by (rule layoutE)
  let ?c = "take ?a buf @ drop ?b buf @ drop (?a + (length buf - ?b)) buf"
  let ?t = "rest @ drop (?a + (length buf - ?b)) buf"
  have t: "take ?a buf = [c0, c1] @ encs xs" "drop ?b buf = encs ys @ 0 # rest" by (simp_all add: b(1))
  have c: "?c = [c0, c1] @ encs (xs @ ys) @ 0 # ?t" unfolding t by simp
  have "?b \<le> length buf" by (simp add: b(1))
  then have len: "length ?c = NVRAM_SECSIZE" using b(2) by (simp add: NVRAM_SECSIZE_def)
  have ok: "\<forall>y\<in>set (xs @ ys). entry_ok y" using b(3) by simp
  have "layout (if ?c ! 2 = 0 then ?c[3 := 0] else ?c) (xs @ ys)" by (rule clear_layout[OF c len ok])
  then show ?thesis using layout_cksum unfolding dropped_def Let_def by blast
qed

lemma del_split:
  "name \<in> fst ` set es \<Longrightarrow> es = takeWhile (\<lambda>x. fst x \<noteq> name) es @ hd (dropWhile (\<lambda>x. fst x \<noteq> name) es) # tl (dropWhile (\<lambda>x. fst x \<noteq> name) es) \<and>
    del name es = takeWhile (\<lambda>x. fst x \<noteq> name) es @ tl (dropWhile (\<lambda>x. fst x \<noteq> name) es)"
  by (induction es) auto

lemma del_idle: "name \<notin> fst ` set es \<Longrightarrow> del name es = es"
  by (induction es) auto

lemma unset_rom_env_eq:
  assumes s: "sector_holds (nor e) es" "nvram_invalid e = 0" "granted e (requests e)" and n: "name_ok name"
  shows "\<exists>r b. unset_rom_env name e = Some (r, e\<lparr>requests := requests e + 1, nor := b\<rparr>) \<and> sector_holds b (del name es) \<and>
    r = (if name \<in> fst ` set es then 1 else 0)"
proof -
  have l: "layout (nor e) es" using s(1) by (simp add: sector_holds_def)
  then obtain c0 c1 rest where b: "nor e = [c0, c1] @ encs es @ 0 # rest" "\<forall>x\<in>set es. entry_ok x" by (rule layoutE)
  note u = unset_loop_eq[OF b n, simplified]
  show ?thesis
  proof (cases "name \<in> fst ` set es")
    case True
    let ?xs = "takeWhile (\<lambda>x. fst x \<noteq> name) es" and ?d = "dropWhile (\<lambda>x. fst x \<noteq> name) es"
    have "sector_holds (dropped (2 + length (encs ?xs)) (2 + length (encs ?xs) + length (enc (hd ?d))) (nor e)) (del name es)"
      using dropped_layout[of "nor e" ?xs "hd ?d" "tl ?d"] del_split[OF True] l by simp
    then show ?thesis using u True s by (auto simp: unset_rom_env_def alloc_def nvram_get_def nvram_put_def numeral_2_eq_2)
  next
    case False
    then show ?thesis using u s del_idle[OF False]
      by (intro exI[of _ 0] exI[of _ "nor e"]) (auto simp: unset_rom_env_def alloc_def nvram_get_def numeral_2_eq_2)
  qed
qed

section \<open>Appending a variable\<close>

lemma env_end_eq:
  assumes "buf = pre @ s @ 0 # encs es @ 0 # rest" "0 \<notin> set s" "\<forall>x\<in>set es. entry_ok x"
  shows "env_end buf (length pre) = Some (length pre + length s + 1 + length (encs es))"
  using assms
proof (induction es arbitrary: pre s)
  case Nil
  have "skip_string buf (length pre) = Some (length pre + length s + 1)" using skip_string_eq[of s pre] Nil by simp
  moreover have "rd buf (length pre + length s + 1) = Some 0" using Nil(1) rd_append[of "pre @ s @ [0]" 0 rest] by simp
  ultimately show ?case by (simp add: env_end.simps)
next
  case (Cons x es)
  obtain c n where x: "fst x = c # n" "c \<noteq> 0" "0 \<notin> set n" "0 \<notin> set (snd x)"
    using Cons.prems(3) by (cases "fst x") (auto simp: entry_ok_def name_ok_def)
  let ?p = "pre @ s @ [0]"
  have "skip_string buf (length pre) = Some (length pre + length s + 1)"
    using skip_string_eq[OF Cons.prems(2), of pre] Cons.prems(1) by simp
  moreover have "rd buf (length pre + length s + 1) = Some c"
    using Cons.prems(1) rd_append[of ?p c] by (simp add: enc_def x(1))
  ultimately have "env_end buf (length pre) = env_end buf (length (?p @ [c]))"
    using x(2) by (simp add: env_end.simps[of buf "length pre"])
  also have "\<dots> = Some (length (?p @ [c]) + length (n @ 0x3d # snd x) + 1 + length (encs es))"
    by (rule Cons.IH) (use Cons.prems x in \<open>simp_all add: enc_def\<close>)
  finally show ?case by (simp add: enc_def x(1))
qed

lemma env_end_layout:
  assumes "buf = [c0, c1] @ encs es @ 0 # rest" "\<forall>x\<in>set es. entry_ok x"
  shows "\<exists>c. rd buf 2 = Some c \<and> (if c \<noteq> 0 then env_end buf 2 else Some 2) = Some (2 + length (encs es))"
proof (cases es)
  case Nil
  then show ?thesis using assms by (simp add: rd_def numeral_2_eq_2)
next
  case (Cons x xs)
  have ok: "entry_ok x" using assms(2) Cons by simp
  then have "buf ! 2 \<noteq> 0" using first_byte assms(1) Cons by (simp add: numeral_2_eq_2)
  moreover have "env_end buf (length [c0, c1]) = Some (length [c0, c1] + length (fst x @ 0x3d # snd x) + 1 + length (encs xs))"
    by (rule env_end_eq[of _ _ _ _ rest]) (use assms Cons ok in \<open>auto simp: enc_def entry_ok_def name_ok_def\<close>)
  ultimately show ?thesis using assms(1) Cons by (simp add: rd_def enc_def numeral_2_eq_2)
qed

lemma set_rom_env_put:
  assumes s: "sector_holds (nor e) es" "nvram_invalid e = 0" "\<And>i. granted e i" and n: "entry_ok (name, v)"
  shows "\<exists>c0 c1 rest b0. b0 = [c0, c1] @ encs (del name es) @ 0 # rest \<and> length b0 = NVRAM_SECSIZE \<and>
    set_rom_env name (Some v) e =
      Option.bind (put_string (enc (name, v) @ [0]) (2 + length (encs (del name es))) b0)
        (\<lambda>(_, b). Some (1, e\<lparr>requests := requests e + 2, nor := snd (cksum b NVRAM_SECSIZE True)\<rparr>))"
proof -
  let ?e = "e\<lparr>requests := requests e + 1\<rparr>" and ?ds = "del name es"
  obtain r b0 where u: "unset_rom_env name ?e = Some (r, e\<lparr>requests := requests e + 2, nor := b0\<rparr>)" "sector_holds b0 ?ds"
    using unset_rom_env_eq[of ?e es name] s n by (auto simp: entry_ok_def)
  then obtain c0 c1 rest where b: "b0 = [c0, c1] @ encs ?ds @ 0 # rest" "length b0 = 4096" "\<forall>x\<in>set ?ds. entry_ok x"
    by (auto simp: sector_holds_def elim!: layoutE)
  obtain c where c: "rd b0 2 = Some c" "(if c \<noteq> 0 then env_end b0 2 else Some 2) = Some (2 + length (encs ?ds))"
    using env_end_layout[OF b(1,3)] by blast
  have len: "name \<noteq> []" "length name + length v + 2 \<le> 255" using n by (auto simp: entry_ok_def name_ok_def)
  have e: "enc (name, v) @ [0] = name @ ([0x3d] @ v @ [0]) @ [0]" by (simp add: enc_def)
  have p: "put_string (enc (name, v) @ [0]) ep b0 = Option.bind (put_string name ep b0) (\<lambda>(ep, buf).
      Option.bind (put_string ([0x3d] @ v @ [0]) ep buf) (\<lambda>(ep, buf). put_string [0] ep buf))" for ep
    by (simp only: e put_string_append[of name] put_string_append[of "[0x3d] @ v @ [0]" "[0]"])
  have "set_rom_env name (Some v) e = Option.bind (put_string (enc (name, v) @ [0]) (2 + length (encs ?ds)) b0)
        (\<lambda>(_, b). Some (1, e\<lparr>requests := requests e + 2, nor := snd (cksum b NVRAM_SECSIZE True)\<rparr>))"
    unfolding p using u(1) c s len
    by (simp add: set_rom_env_def strlen_length alloc_def nvram_get_def nvram_put_def split_def NVRAM_SECSIZE_def)
  then show ?thesis using b(1,2) unfolding NVRAM_SECSIZE_def by blast
qed


lemma set_rom_env_eq:
  assumes s: "sector_holds (nor e) es" "nvram_invalid e = 0" "\<And>i. granted e i" and n: "entry_ok (name, v)"
    and room: "3 + length (encs (del name es @ [(name, v)])) \<le> NVRAM_SECSIZE"
  shows "\<exists>b. set_rom_env name (Some v) e = Some (1, e\<lparr>requests := requests e + 2, nor := b\<rparr>) \<and>
    sector_holds b (del name es @ [(name, v)])"
proof -
  let ?ds = "del name es" and ?x = "(name, v)"
  obtain c0 c1 rest b0 where b: "b0 = [c0, c1] @ encs ?ds @ 0 # rest" "length b0 = NVRAM_SECSIZE"
      "set_rom_env name (Some v) e = Option.bind (put_string (enc ?x @ [0]) (2 + length (encs ?ds)) b0)
        (\<lambda>(_, b). Some (1, e\<lparr>requests := requests e + 2, nor := snd (cksum b NVRAM_SECSIZE True)\<rparr>))"
    using set_rom_env_put[OF s n] by blast
  let ?ep = "2 + length (encs ?ds)" and ?r = "drop (2 + length (encs ?ds) + length (enc ?x @ [0])) b0"
  let ?b = "[c0, c1] @ encs (?ds @ [?x]) @ 0 # ?r"
  have fit: "?ep + length (enc ?x @ [0]) \<le> length b0" using room b(2) by simp
  have "take ?ep b0 = [c0, c1] @ encs ?ds" by (simp add: b(1))
  then have put: "put_string (enc ?x @ [0]) ?ep b0 = Some (?ep + length (enc ?x @ [0]), ?b)" using put_string_eq[OF fit] by simp
  have "length ?b = NVRAM_SECSIZE" using fit b(2) by simp
  moreover have "\<forall>x\<in>set (?ds @ [?x]). entry_ok x" using s(1) n del_set[of name es] by (auto simp: sector_holds_def layout_def)
  ultimately have "layout ?b (?ds @ [?x])" by (auto simp: layout_def)
  then show ?thesis using layout_cksum b(3) put by auto
qed

text \<open>The test for room compares the size of the whole sector, so a full sector is written past its end.\<close>

lemma set_rom_env_overflow:
  assumes s: "sector_holds (nor e) es" "nvram_invalid e = 0" "\<And>i. granted e i" and n: "entry_ok (name, v)"
    and full: "NVRAM_SECSIZE < 3 + length (encs (del name es @ [(name, v)]))"
  shows "set_rom_env name (Some v) e = None"
proof -
  obtain c0 c1 rest b0 where b: "length b0 = NVRAM_SECSIZE"
      "set_rom_env name (Some v) e = Option.bind (put_string (enc (name, v) @ [0]) (2 + length (encs (del name es))) b0)
        (\<lambda>(_, b). Some (1, e\<lparr>requests := requests e + 2, nor := snd (cksum b NVRAM_SECSIZE True)\<rparr>))"
    using set_rom_env_put[OF s n] by blast
  then show ?thesis using put_string_none[of "enc (name, v) @ [0]" b0 "2 + length (encs (del name es))"] full by simp
qed

section \<open>Reading the variables\<close>

lemma entry_value:
  assumes "buf = pre @ s @ 0 # post" "length buf = NVRAM_SECSIZE" "0 \<notin> set s" "i + length s \<le> 255"
  shows "entry_loop buf (length pre) i name (Some w) = Some (length pre + length s + 1, i + length s, name, Some (w @ s))"
  using assms
proof (induction s arbitrary: pre i w)
  case Nil
  then show ?case by (simp add: entry_loop.simps)
next
  case (Cons c s)
  have "entry_loop buf (length (pre @ [c])) (i + 1) name (Some (w @ [c])) =
      Some (length (pre @ [c]) + length s + 1, i + 1 + length s, name, Some ((w @ [c]) @ s))"
    by (rule Cons.IH) (use Cons.prems in simp_all)
  moreover have "length pre + 1 \<le> NVRAM_SECSIZE - 1" using Cons.prems(1,2) by (simp add: NVRAM_SECSIZE_def)
  ultimately show ?case using Cons.prems by (subst entry_loop.simps) simp
qed

lemma entry_name:
  assumes "buf = pre @ n @ 0x3d # v @ 0 # post" "length buf = NVRAM_SECSIZE" "0 \<notin> set n" "0x3d \<notin> set n" "0 \<notin> set v"
    "i + length n + length v < 255"
  shows "entry_loop buf (length pre) i name None =
    Some (length pre + length n + length v + 2, i + length n + length v + 1, name @ n, Some v)"
  using assms
proof (induction n arbitrary: pre i name)
  case Nil
  have "entry_loop buf (length (pre @ [0x3d])) (i + 1) name (Some []) =
      Some (length (pre @ [0x3d]) + length v + 1, i + 1 + length v, name, Some ([] @ v))"
    by (rule entry_value) (use Nil in simp_all)
  moreover have "length pre + 1 \<le> NVRAM_SECSIZE - 1" using Nil(1,2) by (simp add: NVRAM_SECSIZE_def)
  ultimately show ?case using Nil by (subst entry_loop.simps) simp
next
  case (Cons c n)
  have "entry_loop buf (length (pre @ [c])) (i + 1) (name @ [c]) None =
      Some (length (pre @ [c]) + length n + length v + 2, i + 1 + length n + length v + 1, (name @ [c]) @ n, Some v)"
    by (rule Cons.IH) (use Cons.prems in simp_all)
  moreover have "length pre + 1 \<le> NVRAM_SECSIZE - 1" using Cons.prems(1,2) by (simp add: NVRAM_SECSIZE_def)
  ultimately show ?case using Cons.prems by (subst entry_loop.simps) simp
qed

definition load :: "entry list \<Rightarrow> env \<Rightarrow> env" where
  "load es e = foldl (\<lambda>e x. snd (set_mem_env (fst x) (Some (snd x)) e)) e es"

lemma map_loop_eq:
  assumes "buf = pre @ encs es @ 0 # rest" "length buf = NVRAM_SECSIZE" "\<forall>x\<in>set es. entry_ok x"
  shows "map_loop buf (length pre) e = Some (load es e)"
  using assms
proof (induction es arbitrary: pre e)
  case Nil
  then show ?case by (simp add: map_loop.simps load_def)
next
  case (Cons x es)
  obtain n v where x: "x = (n, v)" by (cases x)
  have ok: "n \<noteq> []" "0 \<notin> set n" "0x3d \<notin> set n" "0 \<notin> set v" "length n + length v + 2 \<le> 255"
    using Cons.prems(3) by (auto simp: x entry_ok_def name_ok_def)
  have b: "buf = pre @ n @ 0x3d # v @ 0 # encs es @ 0 # rest" using Cons.prems(1) by (simp add: x enc_def)
  have r: "entry_loop buf (length pre) 0 [] None = Some (length pre + length n + length v + 2, 0 + length n + length v + 1, [] @ n, Some v)"
    by (rule entry_name[OF b Cons.prems(2)]) (use ok in simp_all)
  have c: "rd buf (length pre) = Some (hd n)" "hd n \<noteq> 0" using ok(1,2) b by (cases n; simp)+
  have "length pre + length n + length v + 2 \<le> NVRAM_SECSIZE - 1" using Cons.prems(2) b by (simp add: NVRAM_SECSIZE_def)
  then have "map_loop buf (length pre) e = map_loop buf (length (pre @ enc x)) (snd (set_mem_env n (Some v) e))"
    using c r ok(5) by (simp add: map_loop.simps[of buf "length pre"] x enc_def add.assoc)
  also have "\<dots> = Some (load es (snd (set_mem_env n (Some v) e)))" by (rule Cons.IH) (use Cons.prems in simp_all)
  finally show ?case by (simp add: load_def x)
qed


section \<open>The table in memory\<close>

definition slot :: "entry \<Rightarrow> envpair option" where
  "slot x = Some (fst x, Some (snd x))"

definition table_holds :: "env \<Rightarrow> entry list \<Rightarrow> bool" where
  "table_holds e es \<longleftrightarrow> envvar e = map slot es @ replicate (NVAR - length es) None \<and> length es \<le> NVAR \<and>
    distinct (map fst es) \<and> (\<forall>x\<in>set es. cstring_ok (fst x))"

text \<open>Assigning in place, or behind the last variable.\<close>

fun assign :: "cstring \<Rightarrow> cstring \<Rightarrow> entry list \<Rightarrow> entry list" where
  "assign name v [] = [(name, v)]"
| "assign name v (x # es) = (if fst x = name then (name, v) # es else x # assign name v es)"

lemma assign_names: "fst ` set (assign name v es) = insert name (fst ` set es)"
  by (induction es) auto

lemma assign_new: "name \<notin> fst ` set es \<Longrightarrow> assign name v es = es @ [(name, v)]"
  by (induction es) auto

lemma assign_map_of: "distinct (map fst es) \<Longrightarrow> map_of (assign name v es) = (map_of es)(name \<mapsto> v)"
  by (induction es) (auto simp: fun_eq_iff)

lemma assign_distinct: "distinct (map fst es) \<Longrightarrow> distinct (map fst (assign name v es))"
proof (induction es)
  case (Cons x es)
  then show ?case using assign_names[of name v es] by auto
qed simp

lemma find_none_slots: "env_find name i (replicate k None) = None"
  by (induction k arbitrary: i) auto

lemma env_find_slots:
  assumes "cstring_ok name" "\<forall>x\<in>set es. cstring_ok (fst x)"
  shows "env_find name i (map slot es @ replicate k None) =
    (if name \<in> fst ` set es then Some (i + length (takeWhile (\<lambda>x. fst x \<noteq> name) es)) else None)"
  using assms(2)
proof (induction es arbitrary: i)
  case Nil
  then show ?case by (simp add: find_none_slots)
next
  case (Cons x es)
  then have "striequ name (fst x) \<longleftrightarrow> name = fst x" using striequ_eq assms(1) by simp
  then show ?case using Cons by (auto simp: slot_def)
qed

lemma env_free_slots: "env_free i (map slot es @ replicate k None) = (if k = 0 then None else Some (i + length es))"
  by (induction es arbitrary: i) (auto simp: slot_def gr0_conv_Suc intro: arg_cong[of _ _ "\<lambda>k. env_free _ (replicate k None)"])

lemma assign_slots:
  "name \<in> fst ` set es \<Longrightarrow> (map slot es @ r)[length (takeWhile (\<lambda>x. fst x \<noteq> name) es) := slot (name, v)] = map slot (assign name v es) @ r \<and>
    (map slot es @ r) ! length (takeWhile (\<lambda>x. fst x \<noteq> name) es) = slot (name, the (map_of es name)) \<and>
    length (assign name v es) = length es"
  by (induction es) (auto simp: slot_def)

definition same_rom :: "env \<Rightarrow> env \<Rightarrow> bool" where
  "same_rom e e' \<longleftrightarrow> nor e' = nor e \<and> nvram_invalid e' = nvram_invalid e \<and> envinited e' = envinited e \<and> granted e' = granted e"

lemma set_mem_env_eq:
  assumes t: "table_holds e es" and g: "\<And>i. granted e i" and n: "cstring_ok name" and room: "name \<in> fst ` set es \<or> length es < NVAR"
  shows "same_rom e (snd (set_mem_env name (Some v) e)) \<and>
    fst (set_mem_env name (Some v) e) = 1 \<and> table_holds (snd (set_mem_env name (Some v) e)) (assign name v es)"
proof -
  let ?r = "replicate (NVAR - length es) None :: envpair option list"
  have ev: "envvar e = map slot es @ ?r" "length es \<le> NVAR" "distinct (map fst es)" "\<forall>x\<in>set es. cstring_ok (fst x)"
    using t by (auto simp: table_holds_def)
  note fd = env_find_slots[OF n ev(4), of 0 "NVAR - length es"]
  have ok: "distinct (map fst (assign name v es))" "\<forall>x\<in>set (assign name v es). cstring_ok (fst x)"
  proof -
    show "distinct (map fst (assign name v es))" by (rule assign_distinct[OF ev(3)])
    have "\<forall>m\<in>fst ` set (assign name v es). cstring_ok m" unfolding assign_names using ev(4) n by simp
    then show "\<forall>x\<in>set (assign name v es). cstring_ok (fst x)" by simp
  qed
  show ?thesis
  proof (cases "name \<in> fst ` set es")
    case True
    from assign_slots[OF this, of ?r v] show ?thesis using fd True ev ok g
      by (auto simp: set_mem_env_def env_value_def alloc_def table_holds_def slot_def same_rom_def Let_def)
  next
    case False
    then have lt: "length es < NVAR" using room by simp
    have "(map slot es @ ?r)[length es := slot (name, v)] = map slot (es @ [(name, v)]) @ replicate (NVAR - length (es @ [(name, v)])) None"
      using lt by (cases "NVAR - length es") (auto simp: list_update_append split: nat.splits)
    then show ?thesis using fd False ev ok g lt env_free_slots[of 0 es "NVAR - length es"] assign_new[OF False, of v]
      by (auto simp: set_mem_env_def env_value_def alloc_def table_holds_def slot_def same_rom_def Let_def)
  qed
qed

lemma getenv_table:
  assumes "table_holds e es" "envinited e" "cstring_ok name"
  shows "getenv name e = (case map_of es name of Some v \<Rightarrow> Text v | None \<Rightarrow> Undefined)"
proof -
  have ev: "envvar e = map slot es @ replicate (NVAR - length es) None" "\<forall>x\<in>set es. cstring_ok (fst x)"
    using assms(1) by (auto simp: table_holds_def)
  have "name \<in> fst ` set es \<longleftrightarrow> map_of es name \<noteq> None" by (simp add: map_of_eq_None_iff)
  then show ?thesis
    using env_find_slots[OF assms(3) ev(2), of 0 "NVAR - length es"] assign_slots[of name es "replicate (NVAR - length es) None"] assms(2) ev(1)
    by (auto simp: getenv_def slot_def split: option.splits)
qed


lemma load_table:
  assumes "table_holds e ts" "\<And>i. granted e i" "\<forall>x\<in>set es. cstring_ok (fst x)" "length ts + length es \<le> NVAR"
    "distinct (map fst (ts @ es))"
  shows "same_rom e (load es e) \<and> table_holds (load es e) (ts @ es)"
  using assms
proof (induction es arbitrary: e ts)
  case Nil
  then show ?case by (simp add: load_def same_rom_def)
next
  case (Cons x es)
  let ?e = "snd (set_mem_env (fst x) (Some (snd x)) e)"
  have new: "fst x \<notin> fst ` set ts" using Cons.prems(5) by auto
  have 1: "same_rom e ?e" "table_holds ?e (ts @ [x])"
    using set_mem_env_eq[OF Cons.prems(1,2), of "fst x" "snd x"] Cons.prems(3,4) assign_new[OF new] by auto
  have "same_rom ?e (load es ?e) \<and> table_holds (load es ?e) ((ts @ [x]) @ es)"
    by (rule Cons.IH[OF 1(2)]) (use Cons.prems 1(1) in \<open>auto simp: same_rom_def\<close>)
  then show ?case using 1(1) by (simp add: load_def same_rom_def)
qed

section \<open>Booting\<close>

definition fresh_table :: "env \<Rightarrow> env" where
  "fresh_table e = e\<lparr>envvar := replicate NVAR None\<rparr>"

lemma map_rom_env_eq:
  assumes s: "sector_holds (nor e) es" "\<And>i. granted e i" and d: "distinct (map fst es)" "length es \<le> NVAR"
  shows "\<exists>e'. map_rom_env (fresh_table e) = Some e' \<and> same_rom e e' \<and> table_holds e' es"
proof -
  let ?e = "(fresh_table e)\<lparr>requests := requests e + 1\<rparr>"
  obtain c0 c1 rest where b: "nor e = [c0, c1] @ encs es @ 0 # rest" "length (nor e) = 4096" "\<forall>x\<in>set es. entry_ok x"
    using s(1) by (auto simp: sector_holds_def elim!: layoutE)
  have "map_loop (nor e) 2 ?e = Some (load es ?e)"
    using map_loop_eq[OF b(1) _ b(3), of ?e] b(2) by (simp add: NVRAM_SECSIZE_def numeral_2_eq_2)
  then have "map_rom_env (fresh_table e) = Some (load es ?e)"
    using s by (simp add: map_rom_env_def alloc_def fresh_table_def nvram_get_def sector_holds_def)
  moreover have "same_rom ?e (load es ?e) \<and> table_holds (load es ?e) ([] @ es)"
    by (rule load_table) (use s(2) d b(3) in \<open>auto simp: table_holds_def fresh_table_def cstring_ok_def entry_ok_def name_ok_def\<close>)
  ultimately show ?thesis by (auto simp: same_rom_def fresh_table_def)
qed

lemma reset_eq:
  assumes "nvram_invalid e \<noteq> 0" "granted e (requests e)"
  shows "sector_holds (nor (resetNorEnvSpace e)) [] \<and> nvram_invalid (resetNorEnvSpace e) = 0 \<and> envvar (resetNorEnvSpace e) = envvar e"
proof -
  let ?b = "(replicate NVRAM_SECSIZE (- 1) :: u8 list)[2 := 0, 3 := 0]"
  have "?b = -1 # -1 # 0 # 0 # replicate (NVRAM_SECSIZE - 4) (- 1)"
    by (simp add: NVRAM_SECSIZE_def numeral_eq_Suc)
  then have "layout ?b []" by (auto simp: layout_def NVRAM_SECSIZE_def)
  from layout_cksum[OF this] show ?thesis using assms by (simp add: resetNorEnvSpace_def alloc_def nvram_put_def split_def Let_def)
qed

lemma map_rom_env_invalid:
  assumes "fst (cksum (nor e) NVRAM_SECSIZE False) \<noteq> 0" "\<And>i. granted e i"
  shows "\<exists>e'. map_rom_env e = Some e' \<and> sector_holds (nor e') [] \<and> nvram_invalid e' = 0 \<and> envvar e' = envvar e"
  using reset_eq[of "e\<lparr>requests := requests e + 1, nvram_invalid := 1\<rparr>"] assms
  by (simp add: map_rom_env_def alloc_def nvram_get_def)

end
