(* ===== verification/Env_Claims.thy ===== *)
theory Env_Claims
  imports Env_Inv
begin

text \<open>
  The properties of the environment variables, with instances at an empty sector and at one that is
  full.
\<close>

section \<open>Sample states\<close>

definition blank_env :: env where
  "blank_env = resetNorEnvSpace \<lparr>envvar = replicate NVAR None, envinited = True, nvram_invalid = 1,
    nor = replicate NVRAM_SECSIZE 0xAB, granted = \<lambda>_. True, requests = 0\<rparr>"

definition many :: "entry list" where
  "many = map (\<lambda>i. ([of_nat (97 + i)], replicate 250 0x62)) [0..<16]"

definition full_env :: env where
  "full_env = blank_env\<lparr>nor := snd (cksum ([0, 0] @ encs many @ 0 # replicate 45 0) NVRAM_SECSIZE True)\<rparr>"

lemma blank_facts:
  "sector_holds (nor blank_env) []" "nvram_invalid blank_env = 0" "table_holds blank_env []" "granted blank_env i" "envinited blank_env"
proof -
  show "sector_holds (nor blank_env) []" "nvram_invalid blank_env = 0" unfolding blank_env_def by (simp_all add: reset_eq)
  show "table_holds blank_env []" "granted blank_env i" "envinited blank_env"
    by (simp_all add: blank_env_def resetNorEnvSpace_def alloc_def nvram_put_def split_def Let_def table_holds_def)
qed

lemma many_length: "length (encs many) = 4048"
  by (simp add: many_def encs_def enc_def upt_rec)

lemma full_sector: "sector_holds (nor full_env) many"
proof -
  have "\<forall>x\<in>set many. entry_ok x" by (simp add: many_def entry_ok_def name_ok_def upt_rec)
  then have "layout ([0, 0] @ encs many @ 0 # replicate 45 0) many" by (auto simp: layout_def many_length NVRAM_SECSIZE_def)
  then show ?thesis unfolding full_env_def by (simp add: layout_cksum)
qed

section \<open>Setting\<close>

lemma del_map: "distinct (map fst es) \<Longrightarrow> map_of (del name es) = (map_of es)(name := None)"
proof (induction es)
  case (Cons x es)
  then have "map_of es (fst x) = None" by (simp add: map_of_eq_None_iff)
  then show ?case using Cons by (auto simp: fun_eq_iff)
qed (simp add: fun_eq_iff)

lemma del_map_of: "distinct (map fst es) \<Longrightarrow> map_of (del name es @ [(name, v)]) = (map_of es)(name \<mapsto> v)"
  by (auto simp: del_map fun_eq_iff map_add_def split: option.splits)

text \<open>
  C35. A variable set by the command survives a restart. With room in the table and in the sector
  the command \<^verbatim>\<open>set name value\<close> replaces the variable in memory and in the flash, whose checksum
  stays valid; afterwards \<^verbatim>\<open>getenv\<close> gives the value, and after the table has been cleared and
  read back from the flash it gives the new value for this name and the stored value for
  every other name.
\<close>

theorem set_survives_reboot:
  assumes "table_holds e ts" "sector_holds (nor e) es" "distinct (map fst es)" "nvram_invalid e = 0" "envinited e" "\<And>i. granted e i"
    and "entry_ok (name, v)" "name = map chr ''ethaddr'' \<longrightarrow> check_mac_format v"
    and "name \<in> fst ` set ts \<or> length ts < NVAR" "length (del name es) < NVAR"
    and "3 + length (encs (del name es @ [(name, v)])) \<le> NVRAM_SECSIZE"
  shows "\<exists>e1 e2. set_cmd [cmd, name, v] e = Some e1 \<and> table_holds e1 (assign name v ts) \<and> getenv name e1 = Text v \<and>
    sector_holds (nor e1) (del name es @ [(name, v)]) \<and> map_rom_env (fresh_table e1) = Some e2 \<and>
    (\<forall>n. cstring_ok n \<longrightarrow> getenv n (e2\<lparr>envinited := True\<rparr>) =
      (case ((map_of es)(name \<mapsto> v)) n of Some w \<Rightarrow> Text w | None \<Rightarrow> Undefined))"
proof -
  let ?m = "set_mem_env name (Some v) e" and ?fs = "del name es @ [(name, v)]"
  have n: "cstring_ok name" using assms(7) by (simp add: entry_ok_def name_ok_def cstring_ok_def)
  have m: "same_rom e (snd ?m)" "table_holds (snd ?m) (assign name v ts)"
    using set_mem_env_eq[OF assms(1,6) n assms(9), of v] by blast+
  obtain b where b: "set_rom_env name (Some v) (snd ?m) = Some (1, (snd ?m)\<lparr>requests := requests (snd ?m) + 2, nor := b\<rparr>)" "sector_holds b ?fs"
    using set_rom_env_eq[of "snd ?m" es name v] m(1) assms(2,4,6,7,11) by (auto simp: same_rom_def)
  let ?e1 = "(snd ?m)\<lparr>requests := requests (snd ?m) + 2, nor := b\<rparr>"
  have "striequ name (map chr ''ethaddr'') \<longleftrightarrow> name = map chr ''ethaddr''"
    by (rule striequ_eq[OF n]) (simp add: cstring_ok_def chr_def)
  then have 1: "set_cmd [cmd, name, v] e = Some ?e1" using assms(8) b(1) by (auto simp: set_cmd_def do_setenv_def split_def)
  have t1: "table_holds ?e1 (assign name v ts)" "envinited ?e1" using m assms(5) by (auto simp: table_holds_def same_rom_def)
  have "distinct (map fst ts)" using assms(1) by (simp add: table_holds_def)
  then have g: "getenv name ?e1 = Text v" using getenv_table[OF t1 n] by (simp add: assign_map_of)
  have "distinct (map fst ?fs)" using del_names[OF assms(3)] by auto
  then obtain e2 where 2: "map_rom_env (fresh_table ?e1) = Some e2" "table_holds e2 ?fs"
    using map_rom_env_eq[of ?e1 ?fs] b(2) m(1) assms(6,10) by (auto simp: same_rom_def)
  then have "getenv k (e2\<lparr>envinited := True\<rparr>) = (case ((map_of es)(name \<mapsto> v)) k of Some w \<Rightarrow> Text w | None \<Rightarrow> Undefined)" if "cstring_ok k" for k
    using getenv_table[of "e2\<lparr>envinited := True\<rparr>" ?fs k] that unfolding del_map_of[OF assms(3)] by (simp add: table_holds_def)
  then show ?thesis using 1 2 t1 g b(2) by (intro exI[of _ ?e1] exI[of _ e2]) auto
qed

theorem set_survives_reboot_witness:
  "\<exists>e1 e2. set_cmd [map chr ''set'', map chr ''xres'', map chr ''480''] blank_env = Some e1 \<and>
    map_rom_env (fresh_table e1) = Some e2 \<and> getenv (map chr ''xres'') (e2\<lparr>envinited := True\<rparr>) = Text (map chr ''480'') \<and>
    getenv (map chr ''yres'') (e2\<lparr>envinited := True\<rparr>) = Undefined"
proof -
  have ok: "entry_ok (map chr ''xres'', map chr ''480'')" "cstring_ok (map chr ''xres'')" "cstring_ok (map chr ''yres'')"
    by (simp_all add: entry_ok_def name_ok_def cstring_ok_def chr_def)
  have "\<exists>e1 e2. set_cmd [map chr ''set'', map chr ''xres'', map chr ''480''] blank_env = Some e1 \<and> table_holds e1 (assign (map chr ''xres'') (map chr ''480'') []) \<and>
    getenv (map chr ''xres'') e1 = Text (map chr ''480'') \<and>
    sector_holds (nor e1) (del (map chr ''xres'') [] @ [(map chr ''xres'', map chr ''480'')]) \<and> map_rom_env (fresh_table e1) = Some e2 \<and>
    (\<forall>n. cstring_ok n \<longrightarrow> getenv n (e2\<lparr>envinited := True\<rparr>) =
      (case ((map_of [])(map chr ''xres'' \<mapsto> map chr ''480'')) n of Some w \<Rightarrow> Text w | None \<Rightarrow> Undefined))"
    by (rule set_survives_reboot[OF blank_facts(3,1) _ blank_facts(2,5,4) ok(1)])
      (simp_all add: NVAR_def NVRAM_SECSIZE_def enc_def chr_def)
  then show ?thesis using ok(2,3) by (auto simp: chr_def)
qed

text \<open>
  The test for room in the sector compares the size of the sector with itself: when the sector
  has no room for the new variable, \<^verbatim>\<open>set_rom_env\<close> does not refuse it but writes past the end
  of its buffer.
\<close>

lemma set_rom_env_overruns:
  assumes "sector_holds (nor e) es" "nvram_invalid e = 0" "\<And>i. granted e i" "entry_ok (name, v)"
    and "NVRAM_SECSIZE < 3 + length (encs (del name es @ [(name, v)]))"
  shows "set_rom_env name (Some v) e = None"
  by (rule set_rom_env_overflow[OF assms])

text \<open>
  A damaged sector is recognised: when a single byte of a sector with a valid checksum has
  changed, whichever it is, \<^verbatim>\<open>map_rom_env\<close> takes no variable from it and replaces it by an empty
  sector with a valid checksum.
\<close>

lemma damaged_sector_reset:
  assumes "sector_holds (nor e) es" "i < NVRAM_SECSIZE" "c \<noteq> nor e ! i" "\<And>i. granted e i"
  shows "\<exists>e'. map_rom_env (e\<lparr>nor := (nor e)[i := c]\<rparr>) = Some e' \<and> sector_holds (nor e') [] \<and> nvram_invalid e' = 0 \<and>
    envvar e' = envvar e"
proof -
  have "length (nor e) = NVRAM_SECSIZE" "fst (cksum (nor e) NVRAM_SECSIZE False) = 0" using assms(1) by (simp_all add: sector_holds_def layout_def)
  then have "fst (cksum ((nor e)[i := c]) NVRAM_SECSIZE False) \<noteq> 0"
    using cksum_detects[of "nor e" NVRAM_SECSIZE i c] assms(2,3) by (simp add: NVRAM_SECSIZE_def)
  then show ?thesis using map_rom_env_invalid[of "e\<lparr>nor := (nor e)[i := c]\<rparr>"] assms(4) by simp
qed

end
