(* ===== verification/Spi_Flash.thy ===== *)
theory Spi_Flash
  imports Bit_Search "HOL-Library.Monad_Syntax"
begin

unbundle bit_operations_syntax

text \<open>
  The serial NOR flash, \<^verbatim>\<open>src/os/hardware/spi_flash.c\<close>. The SPI controller and the chip behind it are
  hardware: an unknown state of type \<open>'s\<close> with two operations, reading and writing one of the
  controller's byte registers. Every function of the driver takes these operations as its first
  argument. A polling loop that never ends is \<open>None\<close>.
\<close>

section \<open>Registers and state\<close>

definition REG_SPCR :: nat where "REG_SPCR = 0"
definition REG_SPSR :: nat where "REG_SPSR = 1"
definition REG_TXFIFO :: nat where "REG_TXFIFO = 2"
definition REG_RXFIFO :: nat where "REG_RXFIFO = 2"
definition REG_SPER :: nat where "REG_SPER = 3"
definition REG_PARAM :: nat where "REG_PARAM = 4"
definition REG_SOFTCS :: nat where "REG_SOFTCS = 5"
definition REG_TIMING :: nat where "REG_TIMING = 6"

record 's spi_io =
  rd_io :: "nat \<Rightarrow> 's \<Rightarrow> u8 \<times> 's"
  wr_io :: "u8 \<Rightarrow> nat \<Rightarrow> 's \<Rightarrow> 's"

record ls1x_spi =
  hw_chip_select :: u8
  clk :: u32
  div_reg :: u32
  speed_hz :: u32
  hw_mode :: u32

record spi_device =
  max_speed_hz :: u32
  chip_select :: u8
  spi_mode :: u8

record 's spi =
  spi0 :: ls1x_spi
  spi_flash :: spi_device
  dev :: 's

definition readb :: "'s spi_io \<Rightarrow> nat \<Rightarrow> 's spi \<Rightarrow> u8 \<times> 's spi" where
  "readb B r d = (let (v, s) = rd_io B r (dev d) in (v, d\<lparr>dev := s\<rparr>))"

definition writeb :: "'s spi_io \<Rightarrow> u8 \<Rightarrow> nat \<Rightarrow> 's spi \<Rightarrow> 's spi" where
  "writeb B v r d = d\<lparr>dev := wr_io B v r (dev d)\<rparr>"

section \<open>The controller\<close>

definition DIV_ROUND_UP :: "u32 \<Rightarrow> u32 \<Rightarrow> u32" where
  "DIV_ROUND_UP n d = (n + d - 1) div d"

definition ls1x_spi_div :: "ls1x_spi \<Rightarrow> u32 \<Rightarrow> u32" where
  "ls1x_spi_div hw hz =
    (let dv = DIV_ROUND_UP (clk hw) hz;
         dv = (if dv < 2 then 2 else dv);
         dv = (if dv > 4096 then 4096 else dv);
         b = nat (fls dv - 1)
     in if b = 4 then (if dv > 16 then 2 + 1 else 2)
        else if b = 5 then (if dv > 32 then 3 + 2 else 3)
        else if b = 3 then (if dv > 8 then 4 - 2 else 4)
        else if dv > push_bit b 1 then of_nat b - 1 + 1 else of_nat b - 1)"

definition ls1x_spi_setup :: "'s spi_io \<Rightarrow> 's spi \<Rightarrow> 's spi" where
  "ls1x_spi_setup B d =
    (let hw = spi0 d; spi = spi_flash d;
         hw = (if max_speed_hz spi \<noteq> speed_hz hw
               then (let hw = hw\<lparr>speed_hz := max_speed_hz spi\<rparr> in hw\<lparr>div_reg := ls1x_spi_div hw (speed_hz hw)\<rparr>)
               else hw);
         hw = hw\<lparr>hw_mode := ucast (spi_mode spi) AND 3\<rparr>;
         d = d\<lparr>spi0 := hw\<rparr>;
         (ret, d) = readb B REG_SPCR d;
         ret = ret AND 0xf0;
         ret = ret OR ucast (push_bit 2 (hw_mode hw)) OR ucast (div_reg hw AND 3);
         d = writeb B ret REG_SPCR d;
         (ret, d) = readb B REG_SPER d;
         ret = ret AND 0xfc;
         ret = ret OR ucast (drop_bit 2 (div_reg hw))
     in writeb B ret REG_SPER d)"

definition ls1x_spi_hw_init :: "'s spi_io \<Rightarrow> 's spi \<Rightarrow> 's spi" where
  "ls1x_spi_hw_init B d =
    (let d = writeb B 0x53 REG_SPCR d;
         d = writeb B 0xc0 REG_SPSR d;
         d = writeb B 0x03 REG_SPER d;
         d = writeb B 0xff REG_SOFTCS d;
         (val, d) = readb B REG_PARAM d;
         d = writeb B (val AND 0xfe) REG_PARAM d
     in writeb B 0x05 REG_TIMING d)"

definition ls1x_spi_chipselect :: "'s spi_io \<Rightarrow> bool \<Rightarrow> 's spi \<Rightarrow> 's spi" where
  "ls1x_spi_chipselect B is_active d =
    (let cs = chip_select (spi_flash d);
         d = (if cs \<noteq> hw_chip_select (spi0 d)
              then (let d = ls1x_spi_setup B d in d\<lparr>spi0 := (spi0 d)\<lparr>hw_chip_select := cs\<rparr>\<rparr>)
              else d);
         (ret, d) = readb B REG_SOFTCS d;
         ret = (ret AND 0xf0) OR push_bit (unat cs) 0x01
     in if is_active then writeb B (ret AND NOT (push_bit (unat cs) 0x10)) REG_SOFTCS d
        else writeb B (ret OR push_bit (unat cs) 0x10) REG_SOFTCS d)"

definition ls1x_spi_wait_rxe :: "'s spi_io \<Rightarrow> 's spi \<Rightarrow> 's spi" where
  "ls1x_spi_wait_rxe B d =
    (let (ret, d) = readb B REG_SPSR d;
         d = writeb B (ret OR 0x80) REG_SPSR d;
         (ret, d) = readb B REG_SPSR d
     in if ret AND 0x40 \<noteq> 0 then writeb B (ret AND 0xbf) REG_SPSR d else d)"

partial_function (option) ls1x_spi_wait_txe :: "'s spi_io \<Rightarrow> 's spi \<Rightarrow> 's spi option" where
  "ls1x_spi_wait_txe B d =
    (let (v, d) = readb B REG_SPSR d in if v AND 0x80 \<noteq> 0 then Some d else ls1x_spi_wait_txe B d)"

definition ls1x_spi_writeb :: "'s spi_io \<Rightarrow> u8 \<Rightarrow> 's spi \<Rightarrow> 's spi option" where
  "ls1x_spi_writeb B v d =
    do { d \<leftarrow> ls1x_spi_wait_txe B (writeb B v REG_TXFIFO d);
         Some (ls1x_spi_wait_rxe B (snd (readb B REG_RXFIFO d))) }"

definition ls1x_spi_readb :: "'s spi_io \<Rightarrow> 's spi \<Rightarrow> (u8 \<times> 's spi) option" where
  "ls1x_spi_readb B d =
    do { d \<leftarrow> ls1x_spi_wait_txe B (writeb B 0 REG_TXFIFO d);
         let (v, d) = readb B REG_RXFIFO d;
         Some (v, ls1x_spi_wait_rxe B d) }"

text \<open>The bytes of a command in their order, and the bytes read after it.\<close>

fun send_bytes :: "'s spi_io \<Rightarrow> u8 list \<Rightarrow> 's spi \<Rightarrow> 's spi option" where
  "send_bytes B [] d = Some d"
| "send_bytes B (v # vs) d = do { d \<leftarrow> ls1x_spi_writeb B v d; send_bytes B vs d }"

fun recv_bytes :: "'s spi_io \<Rightarrow> nat \<Rightarrow> 's spi \<Rightarrow> (u8 list \<times> 's spi) option" where
  "recv_bytes B 0 d = Some ([], d)"
| "recv_bytes B (Suc n) d =
    do { (v, d) \<leftarrow> ls1x_spi_readb B d; (vs, d) \<leftarrow> recv_bytes B n d; Some (v # vs, d) }"

section \<open>Commands of the chip\<close>

definition read_status :: "'s spi_io \<Rightarrow> 's spi \<Rightarrow> (u8 \<times> 's spi) option" where
  "read_status B d =
    do { let d = ls1x_spi_chipselect B True d;
         d \<leftarrow> ls1x_spi_writeb B 0x05 d;
         (val, d) \<leftarrow> ls1x_spi_readb B d;
         Some (val, ls1x_spi_chipselect B False d) }"

partial_function (option) wait_ready :: "'s spi_io \<Rightarrow> 's spi \<Rightarrow> 's spi option" where
  "wait_ready B d = do { (val, d) \<leftarrow> read_status B d; if val AND 1 \<noteq> 0 then wait_ready B d else Some d }"

definition read_jedecid :: "'s spi_io \<Rightarrow> 's spi \<Rightarrow> (u8 list \<times> 's spi) option" where
  "read_jedecid B d =
    do { let d = ls1x_spi_chipselect B True d;
         d \<leftarrow> ls1x_spi_writeb B 0x9f d;
         (p, d) \<leftarrow> recv_bytes B 3 d;
         Some (p, ls1x_spi_chipselect B False d) }"

text \<open>
  Of a known device the name, the maker, the identification and the size in bytes are used. The
  cache \<^verbatim>\<open>nor_dev\<close> with its flag \<^verbatim>\<open>init_id\<close> is an option: \<open>None\<close> before the first identification.
\<close>

type_synonym fl_device = "string \<times> u8 \<times> u8 \<times> nat"

definition fl_known_dev :: "fl_device list" where
  "fl_known_dev =
   [(''sst25vf080'', 0xbf, 0x8e, 1024 * 1024),
    (''winb25x128'', 0xef, 0x18, 16384 * 1024),
    (''winb25x64'', 0xef, 0x17, 8192 * 1024),
    (''winb25x80'', 0xef, 0x14, 1024 * 1024),
    (''winb25x40'', 0xef, 0x13, 512 * 1024),
    (''winb25x20'', 0xef, 0x12, 256 * 1024),
    (''winb25x10'', 0xef, 0x11, 128 * 1024)]"

fun find_dev :: "u8 list \<Rightarrow> fl_device list \<Rightarrow> fl_device option" where
  "find_dev flash_id [] = None"
| "find_dev flash_id ((name, mfg, ident, sz) # devs) =
    (if mfg = flash_id ! 0 \<and> ident = flash_id ! 2 then Some (name, mfg, ident, sz) else find_dev flash_id devs)"

definition findNorFlashType :: "'s spi_io \<Rightarrow> 's spi \<Rightarrow> (fl_device option \<times> 's spi) option" where
  "findNorFlashType B d = do { (flash_id, d) \<leftarrow> read_jedecid B d; Some (find_dev flash_id fl_known_dev, d) }"

definition ls1x_spi_probe :: "'s spi_io \<Rightarrow> u32 \<Rightarrow> 's spi \<Rightarrow> 's spi option" where
  "ls1x_spi_probe B apb_rate d =
    do { let d = d\<lparr>spi0 := (spi0 d)\<lparr>clk := apb_rate\<rparr>\<rparr>;
         let d = ls1x_spi_hw_init B d;
         let d = d\<lparr>spi_flash := \<lparr>max_speed_hz = 60000000, chip_select = 0, spi_mode = 0\<rparr>\<rparr>;
         let d = ls1x_spi_setup B d;
         map_option snd (findNorFlashType B d) }"

definition write_enable :: "'s spi_io \<Rightarrow> 's spi \<Rightarrow> 's spi option" where
  "write_enable B d =
    do { d \<leftarrow> wait_ready B d;
         let d = ls1x_spi_chipselect B True d;
         d \<leftarrow> ls1x_spi_writeb B 0x06 d;
         Some (ls1x_spi_chipselect B False d) }"

definition write_status :: "'s spi_io \<Rightarrow> u8 \<Rightarrow> 's spi \<Rightarrow> 's spi option" where
  "write_status B val d =
    do { d \<leftarrow> write_enable B d;
         d \<leftarrow> wait_ready B d;
         let d = ls1x_spi_chipselect B True d;
         d \<leftarrow> send_bytes B [0x01, val] d;
         Some (ls1x_spi_chipselect B False d) }"

definition addr2 :: "u32 \<Rightarrow> u8" where "addr2 a = ucast (drop_bit 16 a)"
definition addr1 :: "u32 \<Rightarrow> u8" where "addr1 a = ucast (drop_bit 8 a)"
definition addr0 :: "u32 \<Rightarrow> u8" where "addr0 a = ucast a"

definition spi_flash_read_area :: "'s spi_io \<Rightarrow> u32 \<Rightarrow> nat \<Rightarrow> 's spi \<Rightarrow> (u8 list \<times> 's spi) option" where
  "spi_flash_read_area B flashaddr sz d =
    do { let d = ls1x_spi_chipselect B True d;
         d \<leftarrow> send_bytes B [0x0b, addr2 flashaddr, addr1 flashaddr, addr0 flashaddr, 0x00] d;
         (buffer, d) \<leftarrow> recv_bytes B sz d;
         let d = ls1x_spi_chipselect B False d;
         d \<leftarrow> wait_ready B d;
         Some (buffer, d) }"

text \<open>
  One erase command: a sector with \<open>0x20\<close>, a block with \<open>0xd8\<close>. The loops of
  \<^verbatim>\<open>spi_flash_erase_sector\<close> and \<^verbatim>\<open>spi_flash_erase_area\<close> step with wrap-around.
\<close>

definition erase_cmd :: "'s spi_io \<Rightarrow> u8 \<Rightarrow> u32 \<Rightarrow> 's spi \<Rightarrow> 's spi option" where
  "erase_cmd B cmd addr d =
    do { d \<leftarrow> write_enable B d;
         d \<leftarrow> write_status B 0x00 d;
         d \<leftarrow> wait_ready B d;
         d \<leftarrow> write_enable B d;
         let d = ls1x_spi_chipselect B True d;
         d \<leftarrow> send_bytes B [cmd, addr2 addr, addr1 addr, addr0 addr] d;
         let d = ls1x_spi_chipselect B False d;
         wait_ready B d }"

partial_function (option) erase_loop :: "'s spi_io \<Rightarrow> u8 \<Rightarrow> u32 \<Rightarrow> u32 \<Rightarrow> u32 \<Rightarrow> 's spi \<Rightarrow> 's spi option" where
  "erase_loop B cmd addr eaddr sectorsize d =
    (if addr < eaddr then do { d \<leftarrow> erase_cmd B cmd addr d; erase_loop B cmd (addr + sectorsize) eaddr sectorsize d }
     else wait_ready B d)"

definition spi_flash_erase_sector :: "'s spi_io \<Rightarrow> u32 \<Rightarrow> u32 \<Rightarrow> u32 \<Rightarrow> 's spi \<Rightarrow> 's spi option" where
  "spi_flash_erase_sector B saddr eaddr sectorsize d = erase_loop B 0x20 saddr eaddr sectorsize d"

definition spi_flash_erase_area :: "'s spi_io \<Rightarrow> u32 \<Rightarrow> u32 \<Rightarrow> u32 \<Rightarrow> 's spi \<Rightarrow> 's spi option" where
  "spi_flash_erase_area B saddr eaddr sectorsize d = erase_loop B 0xd8 saddr eaddr sectorsize d"

definition spi_flash_write_byte :: "'s spi_io \<Rightarrow> u32 \<Rightarrow> u8 \<Rightarrow> 's spi \<Rightarrow> 's spi option" where
  "spi_flash_write_byte B addr data d =
    do { d \<leftarrow> write_enable B d;
         d \<leftarrow> wait_ready B d;
         let d = ls1x_spi_chipselect B True d;
         d \<leftarrow> send_bytes B [0x02, addr2 addr, addr1 addr, addr0 addr, data] d;
         Some (ls1x_spi_chipselect B False d) }"

definition read_flash_data :: "'s spi_io \<Rightarrow> u32 \<Rightarrow> u32 \<Rightarrow> 's spi \<Rightarrow> (u8 list \<times> 's spi) option" where
  "read_flash_data B addr read_len d =
    (if read_len < 1 then Some ([], d) else spi_flash_read_area B addr (if sint read_len > 0 then unat read_len else 0) d)"

fun write_loop :: "'s spi_io \<Rightarrow> u32 \<Rightarrow> u8 list \<Rightarrow> 's spi \<Rightarrow> 's spi option" where
  "write_loop B flashaddr [] d = Some d"
| "write_loop B flashaddr (v # buffer) d =
    do { d \<leftarrow> spi_flash_write_byte B flashaddr v d; write_loop B (flashaddr + 1) buffer d }"

definition spi_flash_write_area :: "'s spi_io \<Rightarrow> u32 \<Rightarrow> u8 list \<Rightarrow> 's spi \<Rightarrow> 's spi option" where
  "spi_flash_write_area B flashaddr buffer d =
    do { d \<leftarrow> write_status B 0x00 d; d \<leftarrow> write_loop B flashaddr buffer d; wait_ready B d }"

partial_function (option) chip_erase_loop :: "'s spi_io \<Rightarrow> u32 \<Rightarrow> 's spi \<Rightarrow> 's spi option" where
  "chip_erase_loop B i d =
    (if i = 0 then Some d
     else do { (val, d) \<leftarrow> read_status B d; if val AND 1 = 1 then chip_erase_loop B (i + 1) d else Some d })"

definition chipErase :: "'s spi_io \<Rightarrow> 's spi \<Rightarrow> 's spi option" where
  "chipErase B d =
    do { d \<leftarrow> write_enable B d;
         d \<leftarrow> wait_ready B d;
         let d = ls1x_spi_chipselect B True d;
         d \<leftarrow> ls1x_spi_writeb B 0xc7 d;
         let d = ls1x_spi_chipselect B False d;
         chip_erase_loop B 1 d }"

section \<open>Programming\<close>

definition spi_flash_write_byte_fast :: "'s spi_io \<Rightarrow> u32 \<Rightarrow> u8 list \<Rightarrow> 's spi \<Rightarrow> 's spi option" where
  "spi_flash_write_byte_fast B addr data d =
    do { d \<leftarrow> write_enable B d;
         d \<leftarrow> wait_ready B d;
         let d = ls1x_spi_chipselect B True d;
         d \<leftarrow> send_bytes B [0x02, addr2 addr, addr1 addr, addr0 addr] d;
         d \<leftarrow> send_bytes B data d;
         let d = ls1x_spi_chipselect B False d;
         wait_ready B d }"

function write_fast_loop :: "'s spi_io \<Rightarrow> u32 \<Rightarrow> u8 list \<Rightarrow> 's spi \<Rightarrow> 's spi option" where
  "write_fast_loop B flashaddr buffer d =
    (if buffer = [] then Some d
     else if length buffer \<ge> 256 then
       do { d \<leftarrow> spi_flash_write_byte_fast B flashaddr (take 256 buffer) d;
            write_fast_loop B (flashaddr + 256) (drop 256 buffer) d }
     else spi_flash_write_byte_fast B flashaddr buffer d)"
  by pat_completeness auto
termination by (relation "measure (\<lambda>(B, a, buffer, d). length buffer)") auto

declare write_fast_loop.simps [simp del]

definition spi_flash_write_area_fast :: "'s spi_io \<Rightarrow> u32 \<Rightarrow> u8 list \<Rightarrow> 's spi \<Rightarrow> 's spi option" where
  "spi_flash_write_area_fast B flashaddr buffer d =
    do { d \<leftarrow> write_status B 0x00 d; d \<leftarrow> write_fast_loop B flashaddr buffer d; wait_ready B d }"

fun aai_loop :: "'s spi_io \<Rightarrow> u8 list \<Rightarrow> 's spi \<Rightarrow> 's spi option" where
  "aai_loop B (v # w # buffer) d =
    do { let d = ls1x_spi_chipselect B True d;
         d \<leftarrow> send_bytes B [0xad, v, w] d;
         let d = ls1x_spi_chipselect B False d;
         d \<leftarrow> wait_ready B d;
         aai_loop B buffer d }"
| "aai_loop B buffer d = Some d"

text \<open>The caller has made the number of bytes even and not zero.\<close>

definition spi_flash_write_area_sst_AAI :: "'s spi_io \<Rightarrow> u32 \<Rightarrow> u8 list \<Rightarrow> 's spi \<Rightarrow> 's spi option" where
  "spi_flash_write_area_sst_AAI B flashaddr buffer d =
    do { d \<leftarrow> write_status B 0x00 d;
         d \<leftarrow> write_enable B d;
         d \<leftarrow> wait_ready B d;
         let d = ls1x_spi_chipselect B True d;
         d \<leftarrow> send_bytes B [0xad, addr2 flashaddr, addr1 flashaddr, addr0 flashaddr, buffer ! 0, buffer ! 1] d;
         let d = ls1x_spi_chipselect B False d;
         d \<leftarrow> wait_ready B d;
         d \<leftarrow> aai_loop B (drop 2 buffer) d;
         let d = ls1x_spi_chipselect B True d;
         d \<leftarrow> ls1x_spi_writeb B 0x04 d;
         let d = ls1x_spi_chipselect B False d;
         wait_ready B d }"

definition spi_flash_write_area_sst_fast :: "'s spi_io \<Rightarrow> u32 \<Rightarrow> u8 list \<Rightarrow> 's spi \<Rightarrow> 's spi option" where
  "spi_flash_write_area_sst_fast B flashaddr buffer d =
    do { (flashaddr, buffer, d) \<leftarrow>
           (if length buffer mod 2 \<noteq> 0
            then do { d \<leftarrow> spi_flash_write_area B flashaddr (take 1 buffer) d; Some (flashaddr + 1, drop 1 buffer, d) }
            else Some (flashaddr, buffer, d));
         if buffer \<noteq> [] then spi_flash_write_area_sst_AAI B flashaddr buffer d else Some d }"

text \<open>
  The one mapped flash area of the board (\<^verbatim>\<open>W25X40B\<close>) and the functions that take addresses in it.
  A null map is dereferenced: \<open>None\<close>.
\<close>

definition fl_find_map :: "u32 \<Rightarrow> (u32 \<times> u32) option" where
  "fl_find_map base =
    (if 0xbfc00000 > base \<or> 0xbfc00000 + 0x00080000 - 1 < base then None else Some (0xbfc00000, 0x00080000))"

definition fl_erase_device :: "'s spi_io \<Rightarrow> u32 \<Rightarrow> u32 \<Rightarrow> 's spi \<Rightarrow> 's spi option" where
  "fl_erase_device B fl_base sz d =
    do { (map_base, _) \<leftarrow> fl_find_map fl_base;
         let off = fl_base - map_base;
         spi_flash_erase_area B off (off + sz) 0x10000 d }"

text \<open>\<^verbatim>\<open>fl_devident\<close> as \<^verbatim>\<open>fl_program_device\<close> calls it, without a place for the map.\<close>

definition fl_devident :: "'s spi_io \<Rightarrow> fl_device option option \<Rightarrow> 's spi \<Rightarrow> (fl_device option \<times> fl_device option option \<times> 's spi) option" where
  "fl_devident B nor_dev d =
    (case nor_dev of
       None \<Rightarrow> do { (flash_id, d) \<leftarrow> read_jedecid B d; let dv = find_dev flash_id fl_known_dev; Some (dv, Some dv, d) }
     | Some dv \<Rightarrow> Some (dv, nor_dev, d))"

definition fl_program_device ::
  "'s spi_io \<Rightarrow> u32 \<Rightarrow> u8 list \<Rightarrow> fl_device option option \<Rightarrow> 's spi \<Rightarrow> (fl_device option option \<times> 's spi) option" where
  "fl_program_device B fl_base data nor_dev d =
    do { (dv, nor_dev, d) \<leftarrow> fl_devident B nor_dev d;
         (map_base, _) \<leftarrow> fl_find_map fl_base;
         let off = fl_base - map_base;
         d \<leftarrow> (case dv of
                Some (_, mfg, _, _) \<Rightarrow>
                  if mfg = 0xbf then spi_flash_write_area_sst_fast B off data d
                  else if mfg = 0xef then spi_flash_write_area_fast B off data d
                  else Some d
              | None \<Rightarrow> spi_flash_write_area B off data d);
         Some (nor_dev, d) }"

definition ls1x_spi_flash_ren :: "'s spi_io \<Rightarrow> bool \<Rightarrow> 's spi \<Rightarrow> 's spi" where
  "ls1x_spi_flash_ren B en d =
    (let (val, d) = readb B REG_PARAM d in writeb B (if en then val OR 0x01 else val AND 0xfe) REG_PARAM d)"

end
