(* ===== verification/Flash_Chip.thy ===== *)
theory Flash_Chip
  imports Spi_Flash
begin

unbundle bit_operations_syntax

text \<open>
  What the driver of the serial flash relies on. The data sheet of the chip is the function
  \<open>command\<close> (what a command does when the chip is deselected) and \<open>reply\<close> (what the chip answers); the
  locale \<open>flash_hw\<close> says how register accesses of the controller reach a chip of that kind, with
  delays that are only known to end. Inside the locale every function of the driver
  is shown to return and its effect on the cells of the chip is given. At the end the locale is
  interpreted on a controller and chip that can be executed.
\<close>

section \<open>The chip\<close>

record nor_chip =
  cells :: "nat \<Rightarrow> u8"
  wel :: bool
  sreg :: u8
  frame :: "u8 list option"

definition addr24 :: "u8 list \<Rightarrow> nat" where
  "addr24 bs = unat (bs ! 0) * 65536 + unat (bs ! 1) * 256 + unat (bs ! 2)"

definition erased :: "nat \<Rightarrow> nat \<Rightarrow> (nat \<Rightarrow> u8) \<Rightarrow> nat \<Rightarrow> u8" where
  "erased k a m = (\<lambda>i. if i div k = a div k then 0xff else m i)"

text \<open>Programming clears bits and wraps around at the end of a page of 256 bytes.\<close>

fun programmed :: "nat \<Rightarrow> u8 list \<Rightarrow> (nat \<Rightarrow> u8) \<Rightarrow> nat \<Rightarrow> u8" where
  "programmed a [] m = m"
| "programmed a (v # vs) m = programmed (a div 256 * 256 + (a + 1) mod 256) vs (m(a := m a AND v))"

text \<open>
  A command takes effect when the chip is deselected. The flag of the result tells whether it
  starts an operation that keeps the chip busy.
\<close>

definition command :: "(u8 \<Rightarrow> nat \<Rightarrow> bool) \<Rightarrow> u8 list \<Rightarrow> nor_chip \<Rightarrow> nor_chip \<times> bool" where
  "command prot bs c =
    (case bs of
       [] \<Rightarrow> (c, False)
     | cmd # args \<Rightarrow>
       let a = addr24 args in
       if cmd = 0x06 \<and> args = [] then (c\<lparr>wel := True\<rparr>, False)
       else if cmd = 0x04 \<and> args = [] then (c\<lparr>wel := False\<rparr>, False)
       else if \<not> wel c then (c, False)
       else if cmd = 0x01 \<and> length args = 1 then (c\<lparr>sreg := args ! 0 AND 0x9c, wel := False\<rparr>, True)
       else if cmd = 0xc7 \<and> args = [] \<and> sreg c = 0 then (c\<lparr>cells := (\<lambda>_. 0xff), wel := False\<rparr>, True)
       else if cmd = 0x20 \<and> length args = 3 \<and> \<not> prot (sreg c) a then (c\<lparr>cells := erased 4096 a (cells c), wel := False\<rparr>, True)
       else if cmd = 0xd8 \<and> length args = 3 \<and> \<not> prot (sreg c) a then (c\<lparr>cells := erased 65536 a (cells c), wel := False\<rparr>, True)
       else if cmd = 0x02 \<and> length args > 3 \<and> length args \<le> 259 \<and> \<not> prot (sreg c) a
       then (c\<lparr>cells := programmed a (drop 3 args) (cells c), wel := False\<rparr>, True)
       else (c, False))"

definition reply :: "u8 list \<Rightarrow> bool \<Rightarrow> nor_chip \<Rightarrow> u8 list \<Rightarrow> u8" where
  "reply ident working c bs =
    (case bs of
       [] \<Rightarrow> 0
     | cmd # args \<Rightarrow>
       if cmd = 0x05 then (if working then 1 else 0) OR (if wel c then 2 else 0) OR (sreg c AND 0xfc)
       else if cmd = 0x9f then (if length args < length ident then ident ! length args else 0)
       else if cmd = 0x0b \<and> length args \<ge> 4 then cells c ((addr24 args + (length args - 4)) mod 16777216)
       else 0)"

lemma addr24_bytes:
  assumes "unat a < 16777216"
  shows "addr24 ([addr2 a, addr1 a, addr0 a] @ bs) = unat a"
proof -
  have "unat (addr2 a) = unat a div 65536 mod 256" "unat (addr1 a) = unat a div 256 mod 256" "unat (addr0 a) = unat a mod 256"
    by (simp_all add: addr2_def addr1_def addr0_def unsigned_ucast_eq take_bit_eq_mod drop_bit_eq_div unat_div)
  moreover have "(n div 65536 mod 256) * 65536 + (n div 256 mod 256) * 256 + n mod 256 = n" if "n < 16777216" for n :: nat
  proof -
    have "n div 256 div 256 = n div 65536" by (simp flip: div_mult2_eq)
    moreover have "n div 65536 mod 256 = n div 65536" using that by (simp add: less_mult_imp_div_less)
    ultimately show ?thesis using div_mult_mod_eq[of n 256] div_mult_mod_eq[of "n div 256" 256] by linarith
  qed
  ultimately show ?thesis using assms by (simp add: addr24_def)
qed

lemmas addr24_bytes' = addr24_bytes[where bs = "[]", simplified]

text \<open>What programming and erasing do to a stretch of cells.\<close>

definition stored :: "nat \<Rightarrow> u8 list \<Rightarrow> (nat \<Rightarrow> u8) \<Rightarrow> nat \<Rightarrow> u8" where
  "stored a vs m = (\<lambda>i. if a \<le> i \<and> i < a + length vs then m i AND vs ! (i - a) else m i)"

definition cleared :: "nat \<Rightarrow> nat \<Rightarrow> (nat \<Rightarrow> u8) \<Rightarrow> nat \<Rightarrow> u8" where
  "cleared a n m = (\<lambda>i. if a \<le> i \<and> i < a + n then 0xff else m i)"

lemma chip_update_order: "c\<lparr>wel := w, sreg := r, cells := x\<rparr> = c\<lparr>cells := x, wel := w, sreg := r\<rparr>"
  by (cases c) simp

lemma stored_Nil [simp]: "stored a [] m = m"
  by (auto simp: stored_def fun_eq_iff)

lemma stored_Cons: "stored a (v # vs) m = stored (a + 1) vs (m(a := m a AND v))"
  by (auto simp: stored_def fun_eq_iff nth_Cons')

lemma stored_append: "stored a (vs @ ws) m = stored (a + length vs) ws (stored a vs m)"
  by (induction vs arbitrary: a m) (simp_all add: stored_Cons ac_simps)

lemma erased_cleared:
  assumes "0 < k" "k dvd a"
  shows "erased k a m = cleared a k m"
proof -
  obtain q where q: "a = q * k" using assms(2) by (metis dvd_div_mult_self)
  have "i div k = q \<longleftrightarrow> q * k \<le> i \<and> i < q * k + k" for i
    using assms(1) div_nat_eqI[of k q i] div_times_less_eq_dividend[of i k] dividend_less_div_times[of k i] by (auto simp: mult.commute)
  then show ?thesis using assms(1) by (auto simp: erased_def cleared_def q fun_eq_iff)
qed

lemma cleared_cleared: "cleared (a + k) n (cleared a k m) = cleared a (k + n) m"
  by (auto simp: cleared_def fun_eq_iff)

lemma programmed_append:
  "programmed a (vs @ ws) m = programmed (a div 256 * 256 + (a + length vs) mod 256) ws (programmed a vs m)"
proof (induction vs arbitrary: a m)
  case (Cons v vs)
  let ?b = "a div 256 * 256 + (a + 1) mod 256"
  have "?b div 256 = a div 256" by simp
  moreover have "(?b + length vs) mod 256 = (a + length (v # vs)) mod 256" by (simp add: mod_simps add.assoc)
  ultimately show ?case using Cons.IH[of ?b "m(a := m a AND v)"] by (simp only: append_Cons programmed.simps)
qed simp

lemma programmed_page: "a mod 256 + length vs \<le> 256 \<Longrightarrow> programmed a vs m = stored a vs m"
proof (induction vs arbitrary: a m)
  case (Cons v vs)
  show ?case
  proof (cases "vs = []")
    case False
    then have *: "(a + 1) mod 256 = a mod 256 + 1" using Cons.prems by (cases vs) (auto simp: mod_Suc)
    then have "a div 256 * 256 + (a + 1) mod 256 = a + 1" using div_mult_mod_eq[of a 256] by linarith
    then show ?thesis using Cons.IH[of "a + 1"] Cons.prems * by (simp add: stored_Cons)
  qed (simp add: stored_Cons)
qed simp

text \<open>Pages as \<^verbatim>\<open>spi_flash_write_area_fast\<close> cuts them: 256 bytes from wherever the area starts.\<close>

function pages :: "nat \<Rightarrow> u8 list \<Rightarrow> (nat \<Rightarrow> u8) \<Rightarrow> nat \<Rightarrow> u8" where
  "pages a vs m = (if vs = [] then m else pages (a + 256) (drop 256 vs) (programmed a (take 256 vs) m))"
  by pat_completeness auto
termination by (relation "measure (\<lambda>(a, vs, m). length vs)") auto

declare pages.simps [simp del]

lemma pages_Nil [simp]: "pages a [] m = m"
  by (subst pages.simps) simp

lemma pages_aligned: "256 dvd a \<Longrightarrow> pages a vs m = stored a vs m"
proof (induction a vs m rule: pages.induct)
  case (1 a vs m)
  show ?case
  proof (cases "vs = []")
    case False
    have t: "programmed a (take 256 vs) m = stored a (take 256 vs) m" using 1(2) by (intro programmed_page) auto
    have "pages a vs m = stored (a + 256) (drop 256 vs) (stored a (take 256 vs) m)"
      using False 1 by (subst pages.simps) (simp add: t)
    also have "\<dots> = stored a vs m"
      using stored_append[of a "take 256 vs" "drop 256 vs" m] by (cases "length vs \<le> 256") auto
    finally show ?thesis .
  qed simp
qed

lemma reply_frame [simp]: "reply ident w (c\<lparr>frame := f\<rparr>) bs = reply ident w c bs"
  by (simp add: reply_def split: list.split)

lemma command_frame: "command prot bs (c\<lparr>frame := f\<rparr>) = apfst (\<lambda>c. c\<lparr>frame := f\<rparr>) (command prot bs c)"
  by (simp add: command_def Let_def split: list.split)

lemma command_keeps_frame [simp]: "frame (fst (command prot bs c)) = frame c"
  by (simp add: command_def Let_def split: list.split)

lemma status_busy:
  "((if w then 1 else 0) OR (if b then 2 else 0) OR (r AND 0xfc)) AND (1 :: u8) = (if w then 1 else 0)"
  by (simp add: bit.conj_disj_distrib2 and.assoc)

lemma flash_map:
  assumes "unat off < 0x80000"
  shows "fl_find_map (0xbfc00000 + off) = Some (0xbfc00000, 0x80000)"
proof -
  have "\<not> (0xbfc00000 > 0xbfc00000 + off \<or> 0xbfc00000 + 0x00080000 - 1 < 0xbfc00000 + off)"
    using assms unat_plus[of "0xbfc00000" off] by (auto simp: word_less_nat_alt)
  then show ?thesis unfolding fl_find_map_def by (simp only: if_False)
qed

section \<open>The controller\<close>

definition undisturbed :: "('s \<Rightarrow> bool) \<Rightarrow> ('s \<Rightarrow> nor_chip) \<Rightarrow> ('s \<Rightarrow> nat) \<Rightarrow> ('s \<Rightarrow> u8) \<Rightarrow> 's \<Rightarrow> 's \<Rightarrow> bool" where
  "undisturbed on chip busy softcs s s' \<longleftrightarrow> on s' \<and> chip s' = chip s \<and> busy s' \<le> busy s \<and> softcs s' = softcs s"

text \<open>
  \<open>on\<close>: the controller is enabled as \<^verbatim>\<open>ls1x_spi_hw_init\<close> leaves it. \<open>chip\<close>: the chip it drives. \<open>busy\<close>: how many
  readings of the status register it takes at most until the chip has finished. \<open>lag\<close>: how many
  polls of the controller's status it takes until the transfer under way is done.
  \<open>rx\<close>: the byte received. \<open>softcs\<close>: the chip select register. \<open>prot\<close>: the addresses a value of the chip's
  status register protects.
\<close>

locale flash_hw =
  fixes B :: "'s spi_io" and ident :: "u8 list" and prot :: "u8 \<Rightarrow> nat \<Rightarrow> bool"
    and on :: "'s \<Rightarrow> bool" and chip :: "'s \<Rightarrow> nor_chip" and busy :: "'s \<Rightarrow> nat" and lag :: "'s \<Rightarrow> nat option"
    and rx :: "'s \<Rightarrow> u8" and softcs :: "'s \<Rightarrow> u8"
  assumes prot_0: "\<not> prot 0 a"
    and rd_softcs: "on s \<Longrightarrow> rd_io B REG_SOFTCS s = (v, s') \<Longrightarrow> v = softcs s \<and> undisturbed on chip busy softcs s s'"
    and rd_spsr: "on s \<Longrightarrow> rd_io B REG_SPSR s = (v, s') \<Longrightarrow> undisturbed on chip busy softcs s s'"
    and rd_spsr_lag: "on s \<Longrightarrow> lag s = Some n \<Longrightarrow> rd_io B REG_SPSR s = (v, s') \<Longrightarrow>
      rx s' = rx s \<and> (if v AND 0x80 \<noteq> 0 then lag s' = Some 0 else \<exists>k<n. lag s' = Some k)"
    and rd_rx: "on s \<Longrightarrow> lag s = Some 0 \<Longrightarrow> rd_io B REG_RXFIFO s = (v, s') \<Longrightarrow> v = rx s \<and> undisturbed on chip busy softcs s s'"
    and wr_spsr: "on s \<Longrightarrow> undisturbed on chip busy softcs s (wr_io B v REG_SPSR s)"
    and wr_tx: "on s \<Longrightarrow> frame (chip s) = Some bs \<Longrightarrow> s' = wr_io B v REG_TXFIFO s \<Longrightarrow>
      on s' \<and> softcs s' = softcs s \<and> chip s' = (chip s)\<lparr>frame := Some (bs @ [v])\<rparr> \<and> busy s' \<le> busy s \<and> (\<exists>n. lag s' = Some n)"
    and wr_tx_status: "on s \<Longrightarrow> frame (chip s) = Some (0x05 # bs) \<Longrightarrow> s' = wr_io B v REG_TXFIFO s \<Longrightarrow>
      rx s' = reply ident (busy s > 0) (chip s) (0x05 # bs) \<and> (busy s > 0 \<longrightarrow> busy s' < busy s)"
    and wr_tx_data: "on s \<Longrightarrow> frame (chip s) = Some bs \<Longrightarrow> busy s = 0 \<Longrightarrow> s' = wr_io B v REG_TXFIFO s \<Longrightarrow>
      rx s' = reply ident False (chip s) bs"
    and wr_select: "on s \<Longrightarrow> frame (chip s) = None \<Longrightarrow> v AND 0x11 = 0x01 \<Longrightarrow> s' = wr_io B v REG_SOFTCS s \<Longrightarrow>
      on s' \<and> chip s' = (chip s)\<lparr>frame := Some []\<rparr> \<and> busy s' \<le> busy s"
    and wr_deselect: "on s \<Longrightarrow> frame (chip s) = Some bs \<Longrightarrow> v AND 0x11 = 0x11 \<Longrightarrow> s' = wr_io B v REG_SOFTCS s \<Longrightarrow>
      (c, started) = (if busy s = 0 then command prot bs (chip s) else (chip s, False)) \<Longrightarrow>
      on s' \<and> chip s' = c\<lparr>frame := None\<rparr> \<and> (started \<or> busy s' \<le> busy s)"
begin

definition good :: "'s spi \<Rightarrow> bool" where
  "good d \<longleftrightarrow> on (dev d) \<and> chip_select (spi_flash d) = 0 \<and> hw_chip_select (spi0 d) = 0"

text \<open>The chip is deselected, and in the second case has nothing under way.\<close>

definition idle :: "'s spi \<Rightarrow> nor_chip \<Rightarrow> bool" where
  "idle d c \<longleftrightarrow> good d \<and> chip (dev d) = c \<and> frame c = None"

definition ready :: "'s spi \<Rightarrow> nor_chip \<Rightarrow> bool" where
  "ready d c \<longleftrightarrow> idle d c \<and> busy (dev d) = 0"

definition selected :: "'s spi \<Rightarrow> nor_chip \<Rightarrow> u8 list \<Rightarrow> bool" where
  "selected d c bs \<longleftrightarrow> good d \<and> chip (dev d) = c\<lparr>frame := Some bs\<rparr>"

lemma cs_words:
  "((v AND 0xf0 OR 0x01) AND NOT 0x10) AND 0x11 = (0x01 :: u8)"
  "((v AND 0xf0 OR 0x01) OR 0x10) AND 0x11 = (0x11 :: u8)"
proof -
  show "((v AND 0xf0 OR 0x01) AND NOT 0x10) AND 0x11 = (0x01 :: u8)"
    by (simp add: bit.conj_disj_distrib2 bit.conj_disj_distrib and.assoc)
  have 1: "(v AND 0x10) OR 0x10 = (0x10 :: u8)" by (rule bit_eqI) (auto simp: bit_or_iff bit_and_iff)
  have "(v AND 0x10) OR (0x11 :: u8) = ((v AND 0x10) OR 0x10) OR 0x01" unfolding or.assoc by simp
  then have "(v AND 0x10) OR 0x11 = (0x11 :: u8)" unfolding 1 by simp
  then show "((v AND 0xf0 OR 0x01) OR 0x10) AND 0x11 = (0x11 :: u8)"
    by (simp add: bit.conj_disj_distrib2 and.assoc or.assoc)
qed

lemma select_chip:
  assumes "idle d c"
  shows "selected (ls1x_spi_chipselect B True d) c [] \<and> busy (dev (ls1x_spi_chipselect B True d)) \<le> busy (dev d)"
proof -
  obtain v s where r: "rd_io B REG_SOFTCS (dev d) = (v, s)" by (meson surj_pair)
  then have u: "undisturbed on chip busy softcs (dev d) s" using assms rd_softcs by (simp add: idle_def good_def)
  then have "on s" "frame (chip s) = None" using assms by (simp_all add: undisturbed_def idle_def)
  from wr_select[OF this cs_words(1)[of v] refl] u r assms show ?thesis
    by (auto simp: ls1x_spi_chipselect_def readb_def writeb_def selected_def idle_def good_def undisturbed_def Let_def)
qed

lemma deselect_chip:
  assumes "selected d c bs" "busy (dev d) = 0 \<or> command prot bs (c\<lparr>frame := Some bs\<rparr>) = (c\<lparr>frame := Some bs\<rparr>, False)"
    and "command prot bs (c\<lparr>frame := Some bs\<rparr>) = (c', started)"
  shows "idle (ls1x_spi_chipselect B False d) (c'\<lparr>frame := None\<rparr>) \<and>
    (started \<or> busy (dev (ls1x_spi_chipselect B False d)) \<le> busy (dev d))"
proof -
  obtain v s where r: "rd_io B REG_SOFTCS (dev d) = (v, s)" by (meson surj_pair)
  then have u: "undisturbed on chip busy softcs (dev d) s" using assms rd_softcs by (simp add: selected_def good_def)
  then have s: "on s" "chip s = c\<lparr>frame := Some bs\<rparr>" using assms by (simp_all add: undisturbed_def selected_def)
  have "(c', started) = (if busy s = 0 then command prot bs (chip s) else (chip s, False))"
    using assms(2,3) u by (auto simp: s(2) undisturbed_def)
  from wr_deselect[OF s(1) _ cs_words(2)[of v] refl this] s u r assms(1) show ?thesis
    by (auto simp: ls1x_spi_chipselect_def readb_def writeb_def selected_def idle_def good_def undisturbed_def Let_def)
qed

lemma wait_txe:
  "on (dev d) \<Longrightarrow> lag (dev d) = Some n \<Longrightarrow>
    \<exists>s. ls1x_spi_wait_txe B d = Some (d\<lparr>dev := s\<rparr>) \<and> undisturbed on chip busy softcs (dev d) s \<and> rx s = rx (dev d) \<and> lag s = Some 0"
proof (induction n arbitrary: d rule: less_induct)
  case (less n)
  obtain v s where r: "rd_io B REG_SPSR (dev d) = (v, s)" by (meson surj_pair)
  note u = rd_spsr[OF less.prems(1) r] rd_spsr_lag[OF less.prems r]
  show ?case
  proof (cases "v AND 0x80 = 0")
    case True
    then obtain k where k: "k < n" "lag s = Some k" using u by auto
    then obtain s' where "ls1x_spi_wait_txe B (d\<lparr>dev := s\<rparr>) = Some (d\<lparr>dev := s\<rparr>\<lparr>dev := s'\<rparr>)"
        "undisturbed on chip busy softcs s s'" "rx s' = rx s" "lag s' = Some 0"
      using less.IH[OF k(1), of "d\<lparr>dev := s\<rparr>"] u by (auto simp: undisturbed_def)
    then show ?thesis using u True by (subst ls1x_spi_wait_txe.simps) (auto simp: readb_def r undisturbed_def)
  next
    case False
    then show ?thesis using u by (subst ls1x_spi_wait_txe.simps) (auto simp: readb_def r)
  qed
qed

lemma wait_rxe:
  assumes "on (dev d)"
  shows "\<exists>s. ls1x_spi_wait_rxe B d = d\<lparr>dev := s\<rparr> \<and> undisturbed on chip busy softcs (dev d) s"
proof -
  obtain v s where r: "rd_io B REG_SPSR (dev d) = (v, s)" by (meson surj_pair)
  note u = rd_spsr[OF assms r]
  let ?s = "wr_io B (v OR 0x80) REG_SPSR s"
  have u': "undisturbed on chip busy softcs s ?s" using u wr_spsr by (simp add: undisturbed_def)
  obtain w t where q: "rd_io B REG_SPSR ?s = (w, t)" by (meson surj_pair)
  have u'': "undisturbed on chip busy softcs ?s t" using rd_spsr[OF _ q] u' by (simp add: undisturbed_def)
  then have "undisturbed on chip busy softcs t (wr_io B (w AND 0xbf) REG_SPSR t)" by (intro wr_spsr) (simp add: undisturbed_def)
  then show ?thesis using u u' u'' by (auto simp: ls1x_spi_wait_rxe_def readb_def writeb_def r q undisturbed_def)
qed

text \<open>One byte goes to the chip and one comes back.\<close>

lemma transfer:
  assumes "selected d c bs" "s' = wr_io B v REG_TXFIFO (dev d)"
  shows "\<exists>d1 d2. ls1x_spi_wait_txe B (writeb B v REG_TXFIFO d) = Some d1 \<and> readb B REG_RXFIFO d1 = (rx s', d2) \<and>
    selected (ls1x_spi_wait_rxe B d2) c (bs @ [v]) \<and> busy (dev (ls1x_spi_wait_rxe B d2)) \<le> busy s'"
proof -
  have d: "on (dev d)" "frame (chip (dev d)) = Some bs" using assms(1) by (auto simp: selected_def good_def)
  note t = wr_tx[OF d assms(2)]
  then obtain n where "lag s' = Some n" by blast
  then obtain s1 where 1: "ls1x_spi_wait_txe B (writeb B v REG_TXFIFO d) = Some (d\<lparr>dev := s1\<rparr>)"
      "undisturbed on chip busy softcs s' s1" "rx s1 = rx s'" "lag s1 = Some 0"
    using wait_txe[of "d\<lparr>dev := s'\<rparr>" n] t by (auto simp: writeb_def assms(2))
  obtain w s2 where r: "rd_io B REG_RXFIFO s1 = (w, s2)" by (meson surj_pair)
  have 2: "w = rx s1" "undisturbed on chip busy softcs s1 s2" using rd_rx[OF _ 1(4) r] 1(2) by (auto simp: undisturbed_def)
  then obtain s3 where "ls1x_spi_wait_rxe B (d\<lparr>dev := s2\<rparr>) = d\<lparr>dev := s3\<rparr>" "undisturbed on chip busy softcs s2 s3"
    using wait_rxe[of "d\<lparr>dev := s2\<rparr>"] by (auto simp: undisturbed_def)
  then show ?thesis using 1 2 t assms(1) r by (auto simp: readb_def selected_def good_def undisturbed_def)
qed

lemma send_byte:
  assumes "selected d c bs"
  shows "\<exists>d'. ls1x_spi_writeb B v d = Some d' \<and> selected d' c (bs @ [v]) \<and> busy (dev d') \<le> busy (dev d)"
proof -
  have "busy (wr_io B v REG_TXFIFO (dev d)) \<le> busy (dev d)"
    using assms wr_tx[of "dev d" bs] by (auto simp: selected_def good_def)
  then show ?thesis using transfer[OF assms refl, of v] by (fastforce simp: ls1x_spi_writeb_def)
qed

lemma send_one: "ls1x_spi_writeb B v d = send_bytes B [v] d"
  by (cases "ls1x_spi_writeb B v d") simp_all

lemma send_all:
  "selected d c bs \<Longrightarrow> \<exists>d'. send_bytes B vs d = Some d' \<and> selected d' c (bs @ vs) \<and> busy (dev d') \<le> busy (dev d)"
proof (induction vs arbitrary: d bs)
  case (Cons v vs)
  obtain d1 where 1: "ls1x_spi_writeb B v d = Some d1" "selected d1 c (bs @ [v])" "busy (dev d1) \<le> busy (dev d)"
    using send_byte[OF Cons.prems] by blast
  then show ?case using Cons.IH[OF 1(2)] by fastforce
qed simp

lemma recv_byte:
  assumes "selected d c bs" "busy (dev d) = 0"
  shows "\<exists>d'. ls1x_spi_readb B d = Some (reply ident False (c\<lparr>frame := Some bs\<rparr>) bs, d') \<and> selected d' c (bs @ [0]) \<and> busy (dev d') = 0"
proof -
  have d: "on (dev d)" "frame (chip (dev d)) = Some bs" "chip (dev d) = c\<lparr>frame := Some bs\<rparr>"
    using assms(1) by (auto simp: selected_def good_def)
  have "busy (wr_io B 0 REG_TXFIFO (dev d)) = 0" using wr_tx[OF d(1,2) refl, of 0] assms(2) by simp
  moreover have "rx (wr_io B 0 REG_TXFIFO (dev d)) = reply ident False (c\<lparr>frame := Some bs\<rparr>) bs"
    using wr_tx_data[OF d(1,2) assms(2) refl, of 0] d(3) by simp
  ultimately show ?thesis using transfer[OF assms(1) refl, of 0] by (auto simp: ls1x_spi_readb_def)
qed

lemma recv_all:
  "selected d c bs \<Longrightarrow> busy (dev d) = 0 \<Longrightarrow>
    \<exists>d'. recv_bytes B n d = Some (map (\<lambda>i. reply ident False c (bs @ replicate i 0)) [0..<n], d') \<and>
      selected d' c (bs @ replicate n 0) \<and> busy (dev d') = 0"
proof (induction n arbitrary: d bs)
  case (Suc n)
  obtain d1 where 1: "ls1x_spi_readb B d = Some (reply ident False c bs, d1)" "selected d1 c (bs @ [0])" "busy (dev d1) = 0"
    using recv_byte[OF Suc.prems] by auto
  have "map f [0..<Suc n] = f 0 # map (\<lambda>i. f (Suc i)) [0..<n]" for f :: "nat \<Rightarrow> u8" by (simp add: map_upt_Suc del: upt_Suc)
  then show ?case using Suc.IH[OF 1(2,3)] 1(1) by (auto simp del: upt_Suc)
qed simp

text \<open>A whole command.\<close>

lemma transaction:
  assumes "ready d c" "command prot bs c = (c', started)"
  shows "\<exists>d1. send_bytes B bs (ls1x_spi_chipselect B True d) = Some d1 \<and> idle (ls1x_spi_chipselect B False d1) c' \<and>
    (started \<or> ready (ls1x_spi_chipselect B False d1) c')"
proof -
  have 0: "selected (ls1x_spi_chipselect B True d) c []" "busy (dev (ls1x_spi_chipselect B True d)) = 0"
    using select_chip[of d c] assms(1) by (auto simp: ready_def)
  then obtain d1 where 1: "send_bytes B bs (ls1x_spi_chipselect B True d) = Some d1" "selected d1 c bs" "busy (dev d1) = 0"
    using send_all[OF 0(1), of bs] by auto
  have f: "frame c = None" using assms(1) by (simp add: ready_def idle_def)
  have "(c'\<lparr>frame := Some bs\<rparr>)\<lparr>frame := None\<rparr> = c'" using command_keeps_frame[of prot bs c] assms(2) f by simp
  then show ?thesis using deselect_chip[OF 1(2) disjI1[OF 1(3)], of "c'\<lparr>frame := Some bs\<rparr>" started] 1 assms(2)
    by (auto simp: command_frame ready_def)
qed

lemma status_read:
  assumes "idle d c"
  shows "\<exists>v d'. read_status B d = Some (v, d') \<and> idle d' c \<and>
    (if v AND 1 \<noteq> 0 then busy (dev d') < busy (dev d) else busy (dev d') = 0)"
proof -
  have 0: "selected (ls1x_spi_chipselect B True d) c []" "busy (dev (ls1x_spi_chipselect B True d)) \<le> busy (dev d)"
    using select_chip[OF assms] by auto
  then obtain d1 where 1: "ls1x_spi_writeb B 0x05 (ls1x_spi_chipselect B True d) = Some d1" "selected d1 c [5]" "busy (dev d1) \<le> busy (dev d)"
    using send_byte[OF 0(1), of 5] by auto
  let ?s = "wr_io B 0 REG_TXFIFO (dev d1)" let ?v = "rx ?s"
  have on: "on (dev d1)" "frame (chip (dev d1)) = Some [5]" "chip (dev d1) = c\<lparr>frame := Some [5]\<rparr>"
    using 1(2) by (auto simp: selected_def good_def)
  have v: "?v AND 1 = (if busy (dev d1) > 0 then 1 else 0)" and b: "busy (dev d1) > 0 \<longrightarrow> busy ?s < busy (dev d1)"
    using wr_tx_status[OF on(1,2) refl, of 0] on(3) by (simp_all add: reply_def status_busy)
  have b': "busy ?s \<le> busy (dev d1)" using wr_tx[OF on(1,2) refl] by blast
  obtain d2 where 2: "ls1x_spi_readb B d1 = Some (?v, d2)" "selected d2 c [5, 0]" "busy (dev d2) \<le> busy ?s"
    using transfer[OF 1(2) refl, of 0] by (auto simp: ls1x_spi_readb_def)
  have "idle (ls1x_spi_chipselect B False d2) (c\<lparr>frame := Some [5, 0], frame := None\<rparr>) \<and>
      (False \<or> busy (dev (ls1x_spi_chipselect B False d2)) \<le> busy (dev d2))"
    by (rule deselect_chip[OF 2(2)]) (simp_all add: command_def Let_def)
  moreover have "c\<lparr>frame := Some [5, 0], frame := None\<rparr> = c" using assms by (simp add: idle_def)
  ultimately show ?thesis using 1 2 v b b' by (auto simp: read_status_def)
qed

lemma wait_until_ready: "idle d c \<Longrightarrow> \<exists>d'. wait_ready B d = Some d' \<and> ready d' c"
proof (induction "busy (dev d)" arbitrary: d rule: less_induct)
  case less
  obtain v d1 where 1: "read_status B d = Some (v, d1)" "idle d1 c"
      "if v AND 1 \<noteq> 0 then busy (dev d1) < busy (dev d) else busy (dev d1) = 0"
    using status_read[OF less.prems] by blast
  show ?case
  proof (cases "v AND 1 = 0")
    case True
    then show ?thesis using 1 by (subst wait_ready.simps) (simp add: ready_def)
  next
    case False
    then show ?thesis using less.hyps[of d1] 1 by (subst wait_ready.simps) simp
  qed
qed

lemma write_enabled:
  assumes "idle d c"
  shows "\<exists>d'. write_enable B d = Some d' \<and> ready d' (c\<lparr>wel := True\<rparr>)"
proof -
  obtain d1 where 1: "wait_ready B d = Some d1" "ready d1 c" using wait_until_ready[OF assms] by blast
  have "command prot [6] c = (c\<lparr>wel := True\<rparr>, False)" by (simp add: command_def)
  from transaction[OF 1(2) this] show ?thesis using 1(1) by (auto simp: write_enable_def send_one simp del: send_bytes.simps)
qed

text \<open>A command that needs the write enable latch, with the waiting around it.\<close>

lemma enabled_command:
  assumes "idle d c" "command prot bs (c\<lparr>wel := True\<rparr>) = (c', started)"
  shows "\<exists>d1 d2 d3. write_enable B d = Some d1 \<and> ready d1 (c\<lparr>wel := True\<rparr>) \<and> wait_ready B d1 = Some d2 \<and>
    send_bytes B bs (ls1x_spi_chipselect B True d2) = Some d3 \<and> idle (ls1x_spi_chipselect B False d3) c'"
proof -
  obtain d1 where 1: "write_enable B d = Some d1" "ready d1 (c\<lparr>wel := True\<rparr>)" using write_enabled[OF assms(1)] by blast
  then obtain d2 where 2: "wait_ready B d1 = Some d2" "ready d2 (c\<lparr>wel := True\<rparr>)"
    using wait_until_ready[of d1] by (auto simp: ready_def)
  then show ?thesis using 1 transaction[OF 2(2) assms(2)] by blast
qed

lemma status_cleared:
  assumes "idle d c"
  shows "\<exists>d'. write_status B 0 d = Some d' \<and> idle d' (c\<lparr>wel := False, sreg := 0\<rparr>)"
proof -
  have "command prot [1, 0] (c\<lparr>wel := True\<rparr>) = (c\<lparr>wel := False, sreg := 0\<rparr>, True)" by (cases c) (simp add: command_def)
  from enabled_command[OF assms this] show ?thesis by (auto simp: write_status_def simp del: send_bytes.simps)
qed

section \<open>Areas of the flash\<close>

lemma read_area:
  assumes "ready d c" "unat a + n \<le> 16777216" "n > 0"
  shows "\<exists>d'. spi_flash_read_area B a n d = Some (map (cells c) [unat a..<unat a + n], d') \<and> ready d' c"
proof -
  let ?cmd = "[0x0b, addr2 a, addr1 a, addr0 a, 0x00]"
  have 0: "selected (ls1x_spi_chipselect B True d) c []" "busy (dev (ls1x_spi_chipselect B True d)) = 0"
    using select_chip[of d c] assms(1) by (auto simp: ready_def)
  then obtain d1 where 1: "send_bytes B ?cmd (ls1x_spi_chipselect B True d) = Some d1" "selected d1 c ?cmd" "busy (dev d1) = 0"
    using send_all[OF 0(1), of ?cmd] by (metis append_Nil le_zero_eq)
  then obtain d2 where 2: "recv_bytes B n d1 = Some (map (\<lambda>i. reply ident False c (?cmd @ replicate i 0)) [0..<n], d2)"
      "selected d2 c (?cmd @ replicate n 0)" "busy (dev d2) = 0"
    using recv_all[OF 1(2,3)] by blast
  have "reply ident False c (?cmd @ replicate i 0) = cells c (unat a + i)" if "i < n" for i
    using that assms(2) addr24_bytes[of a "0 # replicate i 0"] by (simp add: reply_def)
  then have r: "map (\<lambda>i. reply ident False c (?cmd @ replicate i 0)) [0..<n] = map (cells c) [unat a..<unat a + n]"
    by (intro nth_equalityI) auto
  have "command prot (?cmd @ replicate n 0) (c\<lparr>frame := Some (?cmd @ replicate n 0)\<rparr>) = (c\<lparr>frame := Some (?cmd @ replicate n 0)\<rparr>, False)"
    by (simp add: command_def Let_def)
  from deselect_chip[OF 2(2) disjI1[OF 2(3)] this]
  have 3: "idle (ls1x_spi_chipselect B False d2) c" using assms(1) by (simp add: ready_def idle_def)
  then obtain d' where "wait_ready B (ls1x_spi_chipselect B False d2) = Some d'" "ready d' c" using wait_until_ready[OF 3] by blast
  then show ?thesis using 1(1) 2(1) unfolding r by (simp add: spi_flash_read_area_def del: send_bytes.simps)
qed

lemma erase_command:
  assumes "idle d c" "unat a < 16777216" "cmd = 0x20 \<and> k = 4096 \<or> cmd = 0xd8 \<and> k = 65536"
  shows "\<exists>d'. erase_cmd B cmd a d = Some d' \<and> ready d' (c\<lparr>cells := erased k (unat a) (cells c), wel := False, sreg := 0\<rparr>)"
proof -
  obtain d1 where 1: "write_enable B d = Some d1" "ready d1 (c\<lparr>wel := True\<rparr>)" using write_enabled[OF assms(1)] by blast
  obtain d2 where 2: "write_status B 0 d1 = Some d2" "idle d2 (c\<lparr>wel := False, sreg := 0\<rparr>)"
    using status_cleared[of d1 "c\<lparr>wel := True\<rparr>"] 1(2) by (auto simp: ready_def)
  obtain d3 where 3: "wait_ready B d2 = Some d3" "ready d3 (c\<lparr>wel := False, sreg := 0\<rparr>)" using wait_until_ready[OF 2(2)] by blast
  then obtain d4 where 4: "write_enable B d3 = Some d4" "ready d4 (c\<lparr>wel := True, sreg := 0\<rparr>)"
    using write_enabled[of d3 "c\<lparr>wel := False, sreg := 0\<rparr>"] by (cases c) (auto simp: ready_def)
  have "command prot [cmd, addr2 a, addr1 a, addr0 a] (c\<lparr>wel := True, sreg := 0\<rparr>) =
      (c\<lparr>cells := erased k (unat a) (cells c), wel := False, sreg := 0\<rparr>, True)"
    using assms(2,3) prot_0 by (auto simp: command_def Let_def addr24_bytes')
  then obtain d5 where 5: "send_bytes B [cmd, addr2 a, addr1 a, addr0 a] (ls1x_spi_chipselect B True d4) = Some d5"
      "idle (ls1x_spi_chipselect B False d5) (c\<lparr>cells := erased k (unat a) (cells c), wel := False, sreg := 0\<rparr>)"
    using transaction[OF 4(2)] by blast
  then obtain d' where "wait_ready B (ls1x_spi_chipselect B False d5) = Some d'"
      "ready d' (c\<lparr>cells := erased k (unat a) (cells c), wel := False, sreg := 0\<rparr>)"
    using wait_until_ready[OF 5(2)] by blast
  then show ?thesis using 1 2 3 4 5 by (simp add: erase_cmd_def del: send_bytes.simps)
qed

text \<open>Erasing one unit that lies at its own boundary.\<close>

lemma erase_one:
  assumes "idle d c" "unat a + k < 16777216" "cmd = 0x20 \<and> k = 4096 \<or> cmd = 0xd8 \<and> k = 65536"
  shows "\<exists>d'. erase_loop B cmd a (a + of_nat k) (of_nat k) d = Some d' \<and>
    ready d' (c\<lparr>cells := erased k (unat a) (cells c), wel := False, sreg := 0\<rparr>)"
proof -
  have k: "0 < k" "k < 4294967296" using assms(3) by auto
  have "a < a + of_nat k" using assms(2) k by (simp add: word_less_nat_alt unat_plus unat_of_nat)
  moreover obtain d1 where 1: "erase_cmd B cmd a d = Some d1" "ready d1 (c\<lparr>cells := erased k (unat a) (cells c), wel := False, sreg := 0\<rparr>)"
    using erase_command[OF assms(1) _ assms(3), of a] assms(2) by auto
  moreover obtain d2 where "wait_ready B d1 = Some d2" "ready d2 (c\<lparr>cells := erased k (unat a) (cells c), wel := False, sreg := 0\<rparr>)"
    using wait_until_ready[of d1] 1(2) by (auto simp: ready_def)
  ultimately show ?thesis by (simp add: erase_loop.simps[of B cmd a] erase_loop.simps[of B cmd "a + of_nat k"])
qed

lemma write_byte:
  assumes "idle d c" "sreg c = 0" "unat a < 16777216"
  shows "\<exists>d'. spi_flash_write_byte B a v d = Some d' \<and> idle d' (c\<lparr>cells := (cells c)(unat a := cells c (unat a) AND v), wel := False\<rparr>)"
proof -
  have "command prot [2, addr2 a, addr1 a, addr0 a, v] (c\<lparr>wel := True\<rparr>) =
      (c\<lparr>wel := True\<rparr>\<lparr>cells := (cells c)(unat a := cells c (unat a) AND v), wel := False\<rparr>, True)"
    using assms(2,3) prot_0 addr24_bytes[of a "[v]"] by (auto simp: command_def Let_def)
  from enabled_command[OF assms(1) this] show ?thesis by (auto simp: spi_flash_write_byte_def simp del: send_bytes.simps)
qed

lemma write_all:
  "idle d c \<Longrightarrow> sreg c = 0 \<Longrightarrow> \<not> wel c \<Longrightarrow> unat a + length vs \<le> 16777216 \<Longrightarrow>
    \<exists>d'. write_loop B a vs d = Some d' \<and> idle d' (c\<lparr>cells := stored (unat a) vs (cells c)\<rparr>)"
proof (induction vs arbitrary: a c d)
  case (Cons v vs)
  define m where "m = (cells c)(unat a := cells c (unat a) AND v)"
  have c: "c\<lparr>cells := m, wel := False\<rparr> = c\<lparr>cells := m\<rparr>" using Cons.prems(3) by (cases c) simp
  obtain d1 where 1: "spi_flash_write_byte B a v d = Some d1" "idle d1 (c\<lparr>cells := m\<rparr>)"
    using write_byte[OF Cons.prems(1,2), of a v] Cons.prems(4) unfolding m_def[symmetric] c by auto
  have "unat (a + 1) = unat a + 1" using Cons.prems(4) by (simp add: unat_plus)
  then show ?case using Cons.IH[OF 1(2), of "a + 1"] Cons.prems 1(1) by (simp add: stored_Cons flip: m_def)
qed simp

lemma write_area:
  assumes "idle d c" "unat a + length vs \<le> 16777216"
  shows "\<exists>d'. spi_flash_write_area B a vs d = Some d' \<and> ready d' (c\<lparr>cells := stored (unat a) vs (cells c), wel := False, sreg := 0\<rparr>)"
proof -
  obtain d1 where 1: "write_status B 0 d = Some d1" "idle d1 (c\<lparr>wel := False, sreg := 0\<rparr>)" using status_cleared[OF assms(1)] by blast
  obtain d2 where 2: "write_loop B a vs d1 = Some d2" "idle d2 (c\<lparr>cells := stored (unat a) vs (cells c), wel := False, sreg := 0\<rparr>)"
    using write_all[OF 1(2), of a vs] assms(2) unfolding chip_update_order by auto
  then show ?thesis using 1(1) wait_until_ready[OF 2(2)] by (auto simp: spi_flash_write_area_def)
qed

lemma send_append: "send_bytes B (vs @ ws) d = send_bytes B vs d \<bind> send_bytes B ws"
proof (induction vs arbitrary: d)
  case (Cons v vs)
  then show ?case by (cases "ls1x_spi_writeb B v d") simp_all
qed simp

lemma write_page:
  assumes "idle d c" "sreg c = 0" "\<not> wel c" "unat a < 16777216" "vs \<noteq> []" "length vs \<le> 256"
  shows "\<exists>d'. spi_flash_write_byte_fast B a vs d = Some d' \<and> ready d' (c\<lparr>cells := programmed (unat a) vs (cells c)\<rparr>)"
proof -
  let ?h = "[2, addr2 a, addr1 a, addr0 a]" and ?c = "c\<lparr>cells := programmed (unat a) vs (cells c)\<rparr>"
  have "command prot (?h @ vs) (c\<lparr>wel := True\<rparr>) = (c\<lparr>wel := True, cells := programmed (unat a) vs (cells c), wel := False\<rparr>, True)"
    using assms(2,4-6) prot_0 addr24_bytes[of a vs] by (auto simp: command_def Let_def)
  moreover have "c\<lparr>wel := True, cells := programmed (unat a) vs (cells c), wel := False\<rparr> = ?c" using assms(3) by (cases c) simp
  ultimately obtain d1 d2 d3 where *: "write_enable B d = Some d1" "wait_ready B d1 = Some d2"
      "send_bytes B (?h @ vs) (ls1x_spi_chipselect B True d2) = Some d3" and 3: "idle (ls1x_spi_chipselect B False d3) ?c"
    using enabled_command[OF assms(1), of "?h @ vs"] by metis
  then show ?thesis using wait_until_ready[OF 3]
    by (auto simp: spi_flash_write_byte_fast_def send_append bind_eq_Some_conv simp del: send_bytes.simps append.simps)
qed

lemma write_pages:
  "idle d c \<Longrightarrow> sreg c = 0 \<Longrightarrow> \<not> wel c \<Longrightarrow> unat a + length vs \<le> 16777216 \<Longrightarrow>
    \<exists>d'. write_fast_loop B a vs d = Some d' \<and> idle d' (c\<lparr>cells := pages (unat a) vs (cells c)\<rparr>)"
proof (induction vs arbitrary: a c d rule: length_induct)
  case (1 vs)
  consider "vs = []" | "vs \<noteq> []" "length vs < 256" | "256 \<le> length vs" by linarith
  then show ?case
  proof cases
    case 1
    then show ?thesis using \<open>idle d c\<close> by (subst write_fast_loop.simps) simp
  next
    case 2
    then obtain d' where "spi_flash_write_byte_fast B a vs d = Some d'" "ready d' (c\<lparr>cells := programmed (unat a) vs (cells c)\<rparr>)"
      using write_page[OF \<open>idle d c\<close>, of a vs] "1.prems" by (cases vs) auto
    then show ?thesis using 2 by (subst write_fast_loop.simps, subst pages.simps) (auto simp: ready_def)
  next
    case 3
    let ?c = "c\<lparr>cells := programmed (unat a) (take 256 vs) (cells c)\<rparr>"
    have "vs \<noteq> []" using 3 by auto
    then obtain d1 where d1: "spi_flash_write_byte_fast B a (take 256 vs) d = Some d1" "idle d1 ?c"
      using write_page[OF \<open>idle d c\<close>, of a "take 256 vs"] "1.prems" 3 by (auto simp: ready_def)
    have "length (drop 256 vs) < length vs" "unat (a + 256) = unat a + 256" "vs \<noteq> []" using 3 "1.prems" by (auto simp: unat_plus)
    then show ?thesis using "1.IH"[rule_format, OF _ d1(2), of "drop 256 vs" "a + 256"] d1(1) 3 "1.prems"
      by (subst write_fast_loop.simps, subst pages.simps) simp
  qed
qed

lemma write_area_fast:
  assumes "idle d c" "unat a + length vs \<le> 16777216"
  shows "\<exists>d'. spi_flash_write_area_fast B a vs d = Some d' \<and> ready d' (c\<lparr>cells := pages (unat a) vs (cells c), wel := False, sreg := 0\<rparr>)"
proof -
  obtain d1 where 1: "write_status B 0 d = Some d1" "idle d1 (c\<lparr>wel := False, sreg := 0\<rparr>)" using status_cleared[OF assms(1)] by blast
  obtain d2 where 2: "write_fast_loop B a vs d1 = Some d2" "idle d2 (c\<lparr>cells := pages (unat a) vs (cells c), wel := False, sreg := 0\<rparr>)"
    using write_pages[OF 1(2), of a vs] assms(2) unfolding chip_update_order by auto
  then show ?thesis using 1(1) wait_until_ready[OF 2(2)] by (auto simp: spi_flash_write_area_fast_def)
qed

text \<open>Erasing several units from a boundary on; the last one may reach beyond the end address.\<close>

lemma erase_many:
  assumes "cmd = 0x20 \<and> k = 4096 \<or> cmd = 0xd8 \<and> k = 65536"
  shows "idle d c \<Longrightarrow> k dvd unat a \<Longrightarrow> unat a + Suc n * k \<le> 16777216 \<Longrightarrow> unat a + n * k < unat e \<Longrightarrow> unat e \<le> unat a + Suc n * k \<Longrightarrow>
    \<exists>d'. erase_loop B cmd a e (of_nat k) d = Some d' \<and>
      ready d' (c\<lparr>cells := cleared (unat a) (Suc n * k) (cells c), wel := False, sreg := 0\<rparr>)"
proof (induction n arbitrary: a c d)
  have k: "0 < k" "k < 4294967296" using assms by auto
  define m where "m c' a' = c'\<lparr>cells := cleared (unat a') k (cells c'), wel := False, sreg := 0\<rparr>" for c' :: nor_chip and a' :: u32
  have step: "\<exists>d'. erase_cmd B cmd a d = Some d' \<and> ready d' (m c a)" if "idle d c" "k dvd unat a" "unat a < 16777216" for a c d
    using erase_command[OF that(1,3) assms] erased_cleared[OF k(1) that(2)] by (simp add: m_def)
  {
    case 0
    obtain d1 where 1: "erase_cmd B cmd a d = Some d1" "ready d1 (m c a)" using step[OF 0(1,2)] 0(3) k by auto
    obtain d2 where 2: "wait_ready B d1 = Some d2" "ready d2 (m c a)" using wait_until_ready[of d1] 1(2) by (auto simp: ready_def)
    have "a < e" "\<not> a + of_nat k < e" using 0 k by (auto simp: word_less_nat_alt unat_plus unat_of_nat)
    then show ?case using 1(1) 2 by (simp add: erase_loop.simps[of B cmd a] erase_loop.simps[of B cmd "a + of_nat k"] m_def)
  next
    case (Suc n)
    obtain d1 where 1: "erase_cmd B cmd a d = Some d1" "ready d1 (m c a)" using step[OF Suc(2,3)] Suc(4) k by auto
    have a: "unat (a + of_nat k) = unat a + k" using Suc k by (simp add: unat_plus unat_of_nat)
    have "(m c a)\<lparr>cells := cleared (unat a + k) (Suc n * k) (cells (m c a)), wel := False, sreg := 0\<rparr> =
        c\<lparr>cells := cleared (unat a) (Suc (Suc n) * k) (cells c), wel := False, sreg := 0\<rparr>"
      by (cases c) (simp add: m_def cleared_cleared)
    moreover have "a < e" using Suc(5) by (simp add: word_less_nat_alt)
    moreover have "idle d1 (m c a)" using 1(2) by (simp add: ready_def)
    moreover have "k dvd unat (a + of_nat k)" using Suc(3) a by simp
    ultimately show ?case using Suc(1)[of d1 "m c a" "a + of_nat k"] Suc(4-6) 1(1)
      by (subst erase_loop.simps) (simp add: a algebra_simps)
  }
qed

lemma jedec:
  assumes "ready d c" "length ident = 3"
  shows "\<exists>d'. read_jedecid B d = Some (ident, d') \<and> ready d' c"
proof -
  have 0: "selected (ls1x_spi_chipselect B True d) c []" "busy (dev (ls1x_spi_chipselect B True d)) = 0"
    using select_chip[of d c] assms(1) by (auto simp: ready_def)
  then obtain d1 where 1: "ls1x_spi_writeb B 0x9f (ls1x_spi_chipselect B True d) = Some d1" "selected d1 c [0x9f]" "busy (dev d1) = 0"
    using send_byte[OF 0(1), of "0x9f"] by auto
  have r: "map (\<lambda>i. reply ident False c ([0x9f] @ replicate i 0)) [0..<3] = ident"
    using assms(2) by (intro nth_equalityI) (auto simp: reply_def)
  then obtain d2 where 2: "recv_bytes B 3 d1 = Some (ident, d2)" "selected d2 c (0x9f # replicate 3 0)" "busy (dev d2) = 0"
    using recv_all[OF 1(2,3), of 3] by auto
  have "command prot (0x9f # replicate 3 0) (c\<lparr>frame := Some (0x9f # replicate 3 0)\<rparr>) = (c\<lparr>frame := Some (0x9f # replicate 3 0)\<rparr>, False)"
    by (simp add: command_def Let_def)
  from deselect_chip[OF 2(2) disjI1[OF 2(3)] this] assms(1)
  have "ready (ls1x_spi_chipselect B False d2) c" using 2(3) by (simp add: ready_def idle_def)
  then show ?thesis using 1(1) 2(1) by (simp add: read_jedecid_def)
qed

text \<open>The functions on mapped addresses, for a chip of Winbond.\<close>

lemma program_device:
  assumes "idle d c" "nor_dev = None \<and> ready d c \<and> length ident = 3 \<and> find_dev ident fl_known_dev = Some dv \<or> nor_dev = Some (Some dv)"
    and "fst (snd dv) = 0xef" "unat off < 0x80000" "unat off + length data \<le> 16777216"
  shows "\<exists>d'. fl_program_device B (0xbfc00000 + off) data nor_dev d = Some (Some (Some dv), d') \<and>
    ready d' (c\<lparr>cells := pages (unat off) data (cells c), wel := False, sreg := 0\<rparr>)"
proof -
  obtain d1 where 1: "fl_devident B nor_dev d = Some (Some dv, Some (Some dv), d1)" "idle d1 c"
  proof (cases nor_dev)
    case None
    then show ?thesis using that jedec[of d c] assms(1,2) by (auto simp: fl_devident_def ready_def Let_def)
  next
    case (Some x)
    then show ?thesis using that assms(1,2) by (auto simp: fl_devident_def)
  qed
  have "fl_find_map (0xbfc00000 + off) = Some (0xbfc00000, 0x80000)" by (rule flash_map[OF assms(4)])
  then show ?thesis using 1 write_area_fast[OF 1(2) assms(5)] assms(3)
    by (cases dv) (auto simp: fl_program_device_def)
qed

end

section \<open>A controller and a chip\<close>

text \<open>A transfer takes one poll, an operation of the chip three readings of its status.\<close>

record w25x =
  w_chip :: nor_chip
  w_busy :: nat
  w_lag :: "nat option"
  w_rx :: u8
  w_softcs :: u8

definition w25x_ident :: "u8 list" where "w25x_ident = [0xef, 0x30, 0x13]"

definition w25x_prot :: "u8 \<Rightarrow> nat \<Rightarrow> bool" where "w25x_prot r a \<longleftrightarrow> r AND 0x1c \<noteq> 0"

definition w25x_rd :: "nat \<Rightarrow> w25x \<Rightarrow> u8 \<times> w25x" where
  "w25x_rd r s =
    (if r = REG_SOFTCS then (w_softcs s, s)
     else if r = REG_RXFIFO then (w_rx s, s)
     else if r = REG_SPSR then
       (case w_lag s of
          None \<Rightarrow> (0x05, s)
        | Some n \<Rightarrow> if n = 0 then (0x84, s) else (0x04, s\<lparr>w_lag := Some (n - 1)\<rparr>))
     else (0, s))"

definition w25x_wr :: "u8 \<Rightarrow> nat \<Rightarrow> w25x \<Rightarrow> w25x" where
  "w25x_wr v r s =
    (if r = REG_TXFIFO then
       (case frame (w_chip s) of
          None \<Rightarrow> s
        | Some bs \<Rightarrow> s\<lparr>w_chip := (w_chip s)\<lparr>frame := Some (bs @ [v])\<rparr>, w_rx := reply w25x_ident (w_busy s > 0) (w_chip s) bs,
            w_lag := Some 1, w_busy := w_busy s - 1\<rparr>)
     else if r = REG_SPSR then (if v AND 0x80 \<noteq> 0 then s\<lparr>w_lag := None\<rparr> else s)
     else if r = REG_SOFTCS then
       (let s = s\<lparr>w_softcs := v\<rparr> in
        if v AND 0x11 = 0x01 then (if frame (w_chip s) = None then s\<lparr>w_chip := (w_chip s)\<lparr>frame := Some []\<rparr>\<rparr> else s)
        else
          (case frame (w_chip s) of
             None \<Rightarrow> s
           | Some bs \<Rightarrow>
             if w_busy s = 0 then
               let (c, started) = command w25x_prot bs (w_chip s)
               in s\<lparr>w_chip := c\<lparr>frame := None\<rparr>, w_busy := if started then 3 else 0\<rparr>
             else s\<lparr>w_chip := (w_chip s)\<lparr>frame := None\<rparr>\<rparr>))
     else s)"

definition w25x_io :: "w25x spi_io" where "w25x_io = \<lparr>rd_io = w25x_rd, wr_io = w25x_wr\<rparr>"

lemmas reg_defs = REG_SPSR_def REG_TXFIFO_def REG_RXFIFO_def REG_SOFTCS_def

interpretation w25x: flash_hw w25x_io w25x_ident w25x_prot "\<lambda>_. True" w_chip w_busy w_lag w_rx w_softcs
proof
  show "\<not> w25x_prot 0 a" for a by (simp add: w25x_prot_def)
qed (auto simp: w25x_io_def w25x_rd_def w25x_wr_def reg_defs undisturbed_def Let_def split: option.splits if_splits prod.splits)

definition sample_flash :: "w25x spi" where
  "sample_flash =
   \<lparr>spi0 = \<lparr>hw_chip_select = 0, clk = 126000000, div_reg = 1, speed_hz = 60000000, hw_mode = 0\<rparr>,
    spi_flash = \<lparr>max_speed_hz = 60000000, chip_select = 0, spi_mode = 0\<rparr>,
    dev = \<lparr>w_chip = \<lparr>cells = (\<lambda>i. of_nat i), wel = False, sreg = 0x1c, frame = None\<rparr>, w_busy = 0, w_lag = None, w_rx = 0, w_softcs = 0x11\<rparr>\<rparr>"

lemma sample_flash_ready: "w25x.ready sample_flash (w_chip (dev sample_flash))"
  by (simp add: w25x.ready_def w25x.idle_def w25x.good_def sample_flash_def)

end
