(* ===== verification/Nvram.thy ===== *)
theory Nvram
  imports Env_Inv Flash_Chip
begin

unbundle bit_operations_syntax

text \<open>
  The sector of the environment variables on the serial flash: the functions of
  \<^verbatim>\<open>src/os/env.c\<close> that call the flash driver, composed with \<open>Spi_Flash\<close>. In \<open>Env\<close> the sector is a list
  of bytes; here it is the cells of the chip from \<open>NVRAM_POS\<close> on.
\<close>

definition bootRomSize :: u32 where "bootRomSize = (512 - 4 * 10) * 1024"

definition NVRAM_POS :: u32 where "NVRAM_POS = bootRomSize - of_nat NVRAM_SECSIZE"

definition nvram_get_flash :: "'s spi_io \<Rightarrow> 's spi \<Rightarrow> (u8 list \<times> 's spi) option" where
  "nvram_get_flash B d = spi_flash_read_area B NVRAM_POS NVRAM_SECSIZE d"

definition nvram_put_flash :: "'s spi_io \<Rightarrow> u8 list \<Rightarrow> 's spi \<Rightarrow> 's spi option" where
  "nvram_put_flash B buffer d =
    do { d \<leftarrow> spi_flash_erase_sector B NVRAM_POS (NVRAM_POS + of_nat NVRAM_SECSIZE) 4096 d;
         spi_flash_write_area B NVRAM_POS buffer d }"

definition bootSpaceErase :: "'s spi_io \<Rightarrow> 's spi \<Rightarrow> 's spi option" where
  "bootSpaceErase B d = spi_flash_erase_sector B 0 (bootRomSize - of_nat NVRAM_SECSIZE) 4096 d"

definition clearEnv :: "'s spi_io \<Rightarrow> 's spi \<Rightarrow> 's spi option" where
  "clearEnv B d = spi_flash_erase_sector B (bootRomSize - of_nat NVRAM_SECSIZE) bootRomSize 4096 d"

section \<open>The sector as cells\<close>

definition sector :: "(nat \<Rightarrow> u8) \<Rightarrow> u8 list" where
  "sector m = map m [479232..<479232 + NVRAM_SECSIZE]"

lemma NVRAM_POS_eq: "NVRAM_POS = 479232" "unat NVRAM_POS = 479232"
  by (simp_all add: NVRAM_POS_def bootRomSize_def NVRAM_SECSIZE_def)

definition outside_sector :: "(nat \<Rightarrow> u8) \<Rightarrow> (nat \<Rightarrow> u8) \<Rightarrow> bool" where
  "outside_sector m m' \<longleftrightarrow> (\<forall>i. i < 479232 \<or> 479232 + NVRAM_SECSIZE \<le> i \<longrightarrow> m' i = m i)"

lemma and_ff [simp]: "0xff AND v = (v :: u8)"
proof -
  have "(0xff :: u8) = - 1" by simp
  then show ?thesis by (metis and.left_neutral)
qed

lemma stretch_written: "map (stored a buf (cleared a (length buf) m)) [a..<a + length buf] = buf"
  by (auto intro!: nth_equalityI simp: stored_def cleared_def)

lemma stretch_cleared: "map (cleared a n m) [a..<a + n] = replicate n 0xff"
  by (auto intro!: nth_equalityI simp: cleared_def)

lemma sector_written:
  assumes "length buf = NVRAM_SECSIZE"
  shows "sector (stored 479232 buf (cleared 479232 NVRAM_SECSIZE m)) = buf"
    "outside_sector m (stored 479232 buf (cleared 479232 NVRAM_SECSIZE m))"
proof -
  show "sector (stored 479232 buf (cleared 479232 NVRAM_SECSIZE m)) = buf"
    using stretch_written[of 479232 buf m] unfolding sector_def assms .
  show "outside_sector m (stored 479232 buf (cleared 479232 NVRAM_SECSIZE m))"
    using assms by (auto simp: outside_sector_def stored_def cleared_def)
qed

lemma sector_cleared: "sector (cleared 479232 NVRAM_SECSIZE m) = replicate NVRAM_SECSIZE 0xff" "outside_sector m (cleared 479232 NVRAM_SECSIZE m)"
  unfolding sector_def by (rule stretch_cleared) (auto simp: cleared_def outside_sector_def)

section \<open>The driver on the sector\<close>

context flash_hw
begin

lemma nvram_erased:
  assumes "idle d c"
  shows "\<exists>d'. spi_flash_erase_sector B 479232 483328 4096 d = Some d' \<and>
    ready d' (c\<lparr>cells := cleared 479232 NVRAM_SECSIZE (cells c), wel := False, sreg := 0\<rparr>)"
proof -
  have "\<exists>d'. erase_loop B 0x20 479232 483328 (of_nat 4096) d = Some d' \<and>
      ready d' (c\<lparr>cells := cleared (unat (479232 :: u32)) (Suc 0 * 4096) (cells c), wel := False, sreg := 0\<rparr>)"
    by (rule erase_many[OF _ assms]) simp_all
  then show ?thesis by (simp add: spi_flash_erase_sector_def NVRAM_SECSIZE_def)
qed

lemma nvram_read:
  assumes "ready d c"
  shows "\<exists>d'. nvram_get_flash B d = Some (sector (cells c), d') \<and> ready d' c"
proof -
  have "unat NVRAM_POS + NVRAM_SECSIZE \<le> 16777216" "NVRAM_SECSIZE > 0" by (simp_all add: NVRAM_POS_eq NVRAM_SECSIZE_def)
  from read_area[OF assms this] show ?thesis unfolding nvram_get_flash_def sector_def NVRAM_POS_eq(2) .
qed

lemma nvram_written:
  assumes "ready d c" "length buf = NVRAM_SECSIZE"
  shows "\<exists>d' c'. nvram_put_flash B buf d = Some d' \<and> ready d' c' \<and> sector (cells c') = buf \<and> outside_sector (cells c) (cells c')"
proof -
  let ?m = "cleared 479232 NVRAM_SECSIZE (cells c)"
  obtain d1 where 1: "spi_flash_erase_sector B 479232 483328 4096 d = Some d1" "idle d1 (c\<lparr>cells := ?m, wel := False, sreg := 0\<rparr>)"
    using nvram_erased[of d c] assms(1) by (auto simp: ready_def)
  obtain d2 where "spi_flash_write_area B NVRAM_POS buf d1 = Some d2"
      "ready d2 (c\<lparr>cells := ?m, wel := False, sreg := 0\<rparr>\<lparr>cells := stored 479232 buf ?m, wel := False, sreg := 0\<rparr>)"
    using write_area[OF 1(2), of NVRAM_POS buf] assms(2) by (auto simp: NVRAM_POS_eq NVRAM_SECSIZE_def)
  moreover have "NVRAM_POS = 479232" "NVRAM_POS + of_nat NVRAM_SECSIZE = 483328" by (simp_all add: NVRAM_POS_eq NVRAM_SECSIZE_def)
  ultimately show ?thesis using 1(1) sector_written[OF assms(2), of "cells c"]
    unfolding nvram_put_flash_def by fastforce
qed

lemma env_cleared:
  assumes "ready d c"
  shows "\<exists>d' c'. clearEnv B d = Some d' \<and> ready d' c' \<and> sector (cells c') = replicate NVRAM_SECSIZE 0xff \<and> outside_sector (cells c) (cells c')"
proof -
  obtain d1 where 1: "spi_flash_erase_sector B 479232 483328 4096 d = Some d1"
      "ready d1 (c\<lparr>cells := cleared 479232 NVRAM_SECSIZE (cells c), wel := False, sreg := 0\<rparr>)"
    using nvram_erased[of d c] assms by (auto simp: ready_def)
  moreover have "bootRomSize - of_nat NVRAM_SECSIZE = 479232" "bootRomSize = 483328" by (simp_all add: bootRomSize_def NVRAM_SECSIZE_def)
  ultimately show ?thesis using sector_cleared[of "cells c"] unfolding clearEnv_def by fastforce
qed

end

end
