(* ===== verification/Flash_Claims.thy ===== *)
theory Flash_Claims
  imports Nvram
begin

unbundle bit_operations_syntax

text \<open>
  Properties of the serial flash and of the environment sector on it. They hold for every
  controller and chip that follow the contract \<open>flash_hw\<close>, whatever its delays are.
\<close>

text \<open>The controller is set up, the chip is deselected and has nothing under way.\<close>

definition at_rest :: "('s \<Rightarrow> bool) \<Rightarrow> ('s \<Rightarrow> nor_chip) \<Rightarrow> ('s \<Rightarrow> nat) \<Rightarrow> 's spi \<Rightarrow> bool" where
  "at_rest on chip busy d \<longleftrightarrow> on (dev d) \<and> chip_select (spi_flash d) = 0 \<and> hw_chip_select (spi0 d) = 0 \<and>
    frame (chip (dev d)) = None \<and> busy (dev d) = 0"

lemma at_rest_ready:
  assumes "flash_hw B ident prot on chip busy lag rx softcs"
  shows "at_rest on chip busy d \<longleftrightarrow> flash_hw.ready on chip busy d (chip (dev d))"
    and "flash_hw.ready on chip busy d c \<Longrightarrow> at_rest on chip busy d \<and> chip (dev d) = c"
  by (auto simp: at_rest_def flash_hw.ready_def[OF assms] flash_hw.idle_def[OF assms] flash_hw.good_def[OF assms])

text \<open>
  C17. The sector on the flash implements the sector of the environment: reading it gives the bytes
  the abstract sector has, and writing a buffer of a sector's size ends, with erasing,
  unprotecting and programming byte by byte, in a chip whose sector is the buffer, as
  the abstract write says, and that has no other cell changed.
\<close>

theorem nvram_flash_refines:
  assumes "flash_hw B ident prot on chip busy lag rx softcs" "at_rest on chip busy d" "nor e = sector (cells (chip (dev d)))"
    and "length buf = NVRAM_SECSIZE"
  shows "(\<exists>d'. nvram_get_flash B d = Some (nvram_get e, d') \<and> at_rest on chip busy d' \<and> chip (dev d') = chip (dev d)) \<and>
    (\<exists>d'. nvram_put_flash B buf d = Some d' \<and> at_rest on chip busy d' \<and> nor (nvram_put buf e) = sector (cells (chip (dev d'))) \<and>
      outside_sector (cells (chip (dev d))) (cells (chip (dev d'))))"
proof -
  note r = at_rest_ready[OF assms(1)]
  have d: "flash_hw.ready on chip busy d (chip (dev d))" using assms(2) r(1) by blast
  have "\<exists>d'. nvram_get_flash B d = Some (nvram_get e, d') \<and> at_rest on chip busy d' \<and> chip (dev d') = chip (dev d)"
    using flash_hw.nvram_read[OF assms(1) d] r(2) assms(3) by (fastforce simp: nvram_get_def)
  moreover have "\<exists>d'. nvram_put_flash B buf d = Some d' \<and> at_rest on chip busy d' \<and> nor (nvram_put buf e) = sector (cells (chip (dev d'))) \<and>
      outside_sector (cells (chip (dev d))) (cells (chip (dev d')))"
    using flash_hw.nvram_written[OF assms(1) d assms(4)] r(2) by (fastforce simp: nvram_put_def)
  ultimately show ?thesis by blast
qed

theorem nvram_flash_refines_witness:
  "\<exists>d'. nvram_put_flash w25x_io (replicate NVRAM_SECSIZE 0x2a) sample_flash = Some d' \<and>
    sector (cells (w_chip (dev d'))) = replicate NVRAM_SECSIZE 0x2a"
proof -
  have "at_rest (\<lambda>_. True) w_chip w_busy sample_flash" by (simp add: at_rest_def sample_flash_def)
  from nvram_flash_refines[OF w25x.flash_hw_axioms this, of "\<lparr>envvar = [], envinited = False, nvram_invalid = 0,
      nor = sector (cells (w_chip (dev sample_flash))), granted = (\<lambda>_. True), requests = 0\<rparr>" "replicate NVRAM_SECSIZE 0x2a"]
  show ?thesis by (auto simp: nvram_put_def)
qed

text \<open>
  C18. Programming the flash: for a Winbond chip and an offset at a 64 kB boundary, erasing and then
  programming leaves the data in the cells from the offset on, the rest of the last erased block
  empty, and every cell outside the erased blocks as it was.
\<close>

theorem flash_program_stores:
  assumes "flash_hw B ident prot on chip busy lag rx softcs" "at_rest on chip busy d"
    and "length ident = 3" "find_dev ident fl_known_dev = Some (name, 0xef, devid, len)"
    and "65536 dvd unat off" "unat off + Suc n * 65536 \<le> 0x80000" "n * 65536 < length data" "length data \<le> Suc n * 65536"
  shows "\<exists>d1 d2. fl_erase_device B (0xbfc00000 + off) (of_nat (length data)) d = Some d1 \<and>
    fl_program_device B (0xbfc00000 + off) data None d1 = Some (Some (Some (name, 0xef, devid, len)), d2) \<and> at_rest on chip busy d2 \<and>
    (\<forall>i. cells (chip (dev d2)) i =
      (if unat off \<le> i \<and> i < unat off + length data then data ! (i - unat off)
       else if unat off \<le> i \<and> i < unat off + Suc n * 65536 then 0xff else cells (chip (dev d)) i))"
proof -
  note r = at_rest_ready[OF assms(1)]
  let ?c = "chip (dev d)" let ?m = "cleared (unat off) (Suc n * 65536) (cells ?c)"
  let ?c1 = "?c\<lparr>cells := ?m, wel := False, sreg := 0\<rparr>"
  have d: "flash_hw.ready on chip busy d ?c" using assms(2) r(1) by blast
  have idle: "flash_hw.idle on chip d' c" if "flash_hw.ready on chip busy d' c" for d' c
    using that by (simp add: flash_hw.ready_def[OF assms(1)])
  have len: "unat (of_nat (length data) :: u32) = length data" using assms(6,8) by (simp add: unat_of_nat)
  then have e: "unat (off + of_nat (length data)) = unat off + length data" using assms(6,8) by (subst unat_plus) auto
  obtain d1 where 1: "erase_loop B 0xd8 off (off + of_nat (length data)) (of_nat 65536) d = Some d1" "flash_hw.ready on chip busy d1 ?c1"
    using flash_hw.erase_many[OF assms(1) _ idle[OF d] assms(5), of "0xd8" n "off + of_nat (length data)"] assms(6-8) e by auto
  have map: "fl_find_map (0xbfc00000 + off) = Some (0xbfc00000, 0x80000)" if "unat off < 0x80000"
    by (rule flash_map[OF that])
  have off: "unat off < 0x80000" "unat off + length data \<le> 16777216" using assms(6,8) by auto
  obtain d2 where 2: "fl_program_device B (0xbfc00000 + off) data None d1 = Some (Some (Some (name, 0xef, devid, len)), d2)"
      "flash_hw.ready on chip busy d2 (?c1\<lparr>cells := pages (unat off) data ?m, wel := False, sreg := 0\<rparr>)"
    using flash_hw.program_device[OF assms(1) idle[OF 1(2)], of None "(name, 0xef, devid, len)" off data] 1(2) assms(3,4) off by auto
  have "256 dvd unat off" using assms(5) by (rule dvd_trans[rotated]) simp
  then have p: "pages (unat off) data ?m = stored (unat off) data ?m" by (rule pages_aligned)
  show ?thesis
    using 1(1) 2 r(2)[OF 2(2)] map off assms(8) unfolding p
    by (auto simp: fl_erase_device_def spi_flash_erase_area_def stored_def cleared_def)
qed

theorem flash_program_stores_witness:
  "\<exists>d1 d2. fl_erase_device w25x_io 0xbfc10000 3 sample_flash = Some d1 \<and>
    fl_program_device w25x_io 0xbfc10000 [1, 2, 3] None d1 = Some (Some (Some (''winb25x40'', 0xef, 0x13, 524288)), d2) \<and>
    cells (w_chip (dev d2)) 0x10001 = 2 \<and> cells (w_chip (dev d2)) 0x20000 = 0"
proof -
  have r: "at_rest (\<lambda>_. True) w_chip w_busy sample_flash" by (simp add: at_rest_def sample_flash_def)
  have "find_dev w25x_ident fl_known_dev = Some (''winb25x40'', 0xef, 0x13, 524288)" by (simp add: w25x_ident_def fl_known_dev_def)
  from flash_program_stores[OF w25x.flash_hw_axioms r _ this, of "0x10000" 0 "[1, 2, 3]"]
  obtain d1 d2 where *: "fl_erase_device w25x_io (0xbfc00000 + 0x10000) (of_nat (length [1, 2, 3 :: u8])) sample_flash = Some d1"
      "fl_program_device w25x_io (0xbfc00000 + 0x10000) [1, 2, 3] None d1 = Some (Some (Some (''winb25x40'', 0xef, 0x13, 524288)), d2)"
      "\<And>i. cells (w_chip (dev d2)) i =
      (if unat (0x10000 :: u32) \<le> i \<and> i < unat (0x10000 :: u32) + length [1, 2, 3 :: u8] then [1, 2, 3] ! (i - unat (0x10000 :: u32))
       else if unat (0x10000 :: u32) \<le> i \<and> i < unat (0x10000 :: u32) + Suc 0 * 65536 then 0xff else cells (w_chip (dev sample_flash)) i)"
    by (auto simp: w25x_ident_def)
  then show ?thesis using *(3)[of "0x10001"] *(3)[of "0x20000"] by (auto simp: sample_flash_def)
qed

text \<open>
  The fast programming routine cuts the data into pieces of 256 bytes from wherever it starts.
  When the start is not at a page boundary, the chip wraps inside the page: the last bytes of a
  piece go to the beginning of the page, before the start of the area, and the next page stays as
  it was.
\<close>

lemma flash_unaligned_wraps:
  assumes "flash_hw B ident prot on chip busy lag rx softcs" "at_rest on chip busy d"
    and "length data = 256" "unat off mod 256 = r" "0 < r" "unat off + 256 \<le> 16777216"
  shows "\<exists>d'. spi_flash_write_area_fast B off data d = Some d' \<and>
    (\<forall>j<r. cells (chip (dev d')) (unat off - r + j) = cells (chip (dev d)) (unat off - r + j) AND data ! (256 - r + j)) \<and>
    (\<forall>i\<ge>unat off - r + 256. cells (chip (dev d')) i = cells (chip (dev d)) i)"
proof -
  note h = at_rest_ready[OF assms(1)]
  let ?a = "unat off" and ?m = "cells (chip (dev d))"
  let ?vs = "take (256 - r) data" and ?ws = "drop (256 - r) data"
  have "flash_hw.idle on chip d (chip (dev d))" using assms(2) h(1) flash_hw.ready_def[OF assms(1)] by blast
  from flash_hw.write_area_fast[OF assms(1) this, of off data]
  obtain d' where d': "spi_flash_write_area_fast B off data d = Some d'" "cells (chip (dev d')) = pages ?a data ?m"
    using assms(3,6) h(2) by fastforce
  have r: "r < 256" "?a div 256 * 256 = ?a - r" "r \<le> ?a" using assms(4) by (auto simp: minus_mod_eq_div_mult[symmetric])
  have "?a + (256 - r) = (?a div 256 + 1) * 256" using r by simp
  then have next0: "(?a + (256 - r)) mod 256 = 0" by simp
  have "pages ?a data ?m = programmed ?a (?vs @ ?ws) ?m" using assms(3) by (subst pages.simps) auto
  also have "\<dots> = programmed (?a - r) ?ws (programmed ?a ?vs ?m)" using next0 r assms(3) unfolding programmed_append by (simp add: min_def)
  also have "programmed ?a ?vs ?m = stored ?a ?vs ?m" using assms(4) r(1) by (intro programmed_page) simp
  also have "programmed (?a - r) ?ws (stored ?a ?vs ?m) = stored (?a - r) ?ws (stored ?a ?vs ?m)"
    using assms(3) r by (intro programmed_page) (simp flip: r(2))
  finally show ?thesis using d' assms(3) r by (auto simp: stored_def)
qed

end
