(* ===== verification/Printf.thy ===== *)
theory Printf
  imports Numconv Strbuf
begin

unbundle bit_operations_syntax

text \<open>
  Formatted output: \<^verbatim>\<open>src/libc/vsprintf.c\<close>, \<^verbatim>\<open>str_fmt.c\<close>, \<^verbatim>\<open>sprintf.c\<close> and \<^verbatim>\<open>printf.c\<close>. The text is written into a
  buffer with a given size, as the C code does it: the converted value first, then the
  cut at the precision, then the padding in place. \<open>None\<close> is an access outside the buffer or past
  the end of the format, and an argument of another kind than the directive reads. The conversion
  of a floating-point number is the parameter \<open>dtoa\<close>. Without \<^verbatim>\<open>HAVE_QUAD\<close> the argument of an \<^verbatim>\<open>ll\<close>
  conversion is read as a \<^verbatim>\<open>long long\<close> and cut to a \<^verbatim>\<open>long\<close> of 32 bits.
\<close>

section \<open>Padding\<close>

datatype fmt = FMT_RJUST | FMT_LJUST | FMT_RJUST0 | FMT_CENTER

fun ntimes :: "nat \<Rightarrow> ('a \<Rightarrow> 'a option) \<Rightarrow> 'a \<Rightarrow> 'a option" where
  "ntimes 0 f x = Some x"
| "ntimes (Suc n) f x = do { x \<leftarrow> f x; ntimes n f x }"

definition str_fmt :: "nat \<Rightarrow> int \<Rightarrow> fmt \<Rightarrow> u8 list \<Rightarrow> u8 list option" where
  "str_fmt p sz fm b =
    do { e \<leftarrow> strend b p;
         let len = int (e - p);
         case fm of
           FMT_RJUST \<Rightarrow> ntimes (nat (sz - len)) (strichr p 0x20) b
         | FMT_LJUST \<Rightarrow> ntimes (nat (sz - len)) (strcat p (Some [0x20])) b
         | FMT_RJUST0 \<Rightarrow> ntimes (nat (sz - len)) (strichr p 0x30) b
         | FMT_CENTER \<Rightarrow>
           (let m = (sz - len) sdiv 2; n = sz - (len + m)
            in do { b \<leftarrow> ntimes (nat m) (strcat p (Some [0x20])) b; ntimes (nat n) (strichr p 0x20) b }) }"

section \<open>Arguments and directives\<close>

datatype 'd arg = IntArg u32 | QuadArg u64 | PtrArg "cstring option" | DblArg 'd

fun next_int :: "'d arg list \<Rightarrow> (u32 \<times> 'd arg list) option" where
  "next_int (IntArg v # ap) = Some (v, ap)"
| "next_int _ = None"

fun next_quad :: "'d arg list \<Rightarrow> (u32 \<times> 'd arg list) option" where
  "next_quad (QuadArg v # ap) = Some (ucast v, ap)"
| "next_quad _ = None"

fun next_ptr :: "'d arg list \<Rightarrow> (cstring option \<times> 'd arg list) option" where
  "next_ptr (PtrArg p # ap) = Some (p, ap)"
| "next_ptr _ = None"

fun next_dbl :: "'d arg list \<Rightarrow> ('d \<times> 'd arg list) option" where
  "next_dbl (DblArg x # ap) = Some (x, ap)"
| "next_dbl _ = None"

record dirv =
  fm :: fmt
  width :: int
  trunc :: int
  haddot :: bool

definition isdigit :: "u8 \<Rightarrow> bool" where
  "isdigit c \<longleftrightarrow> 0x30 \<le> c \<and> c \<le> 0x39"

definition one_of :: "string \<Rightarrow> u8 \<Rightarrow> bool" where
  "one_of cs c \<longleftrightarrow> strchr (map chr cs) (schar c) \<noteq> None"

definition set_number :: "int \<Rightarrow> dirv \<Rightarrow> dirv" where
  "set_number n q = (if haddot q then q\<lparr>trunc := n\<rparr> else q\<lparr>width := n\<rparr>)"

text \<open>The loop over the flags, the width and the precision; it stops at the conversion.\<close>

function flags :: "cstring \<Rightarrow> dirv \<Rightarrow> 'd arg list \<Rightarrow> (cstring \<times> dirv \<times> 'd arg list) option" where
  "flags [] q ap = Some ([], q, ap)"
| "flags (c # s) q ap =
    (if one_of ''dobpxXulscefg%'' c then Some (c # s, q, ap)
     else if c = 0x2d then flags s (q\<lparr>fm := FMT_LJUST\<rparr>) ap
     else if c = 0x30 then flags s (q\<lparr>fm := FMT_RJUST0\<rparr>) ap
     else if c = 0x7e then flags s (q\<lparr>fm := FMT_CENTER\<rparr>) ap
     else if c = 0x2a then do { (n, ap) \<leftarrow> next_int ap; flags s (set_number (sint n) q) ap }
     else if isdigit c then
       (let t = takeWhile isdigit (c # s) in
        if length t \<ge> 40 then None
        else do { n \<leftarrow> atob t 10; flags (dropWhile isdigit s) (set_number (sint n) q) ap })
     else if c = 0x2e then flags s (q\<lparr>haddot := True\<rparr>) ap
     else flags s q ap)"
  by pat_completeness auto
termination
  by (relation "measure (\<lambda>(s, _, _). length s)") (auto simp: le_imp_less_Suc length_dropWhile_le)

declare flags.simps [simp del]

section \<open>One conversion\<close>

text \<open>
  The number after its \<^verbatim>\<open>l\<close> or \<^verbatim>\<open>ll\<close> has been skipped. The digit variable of \<^verbatim>\<open>btoa\<close> is set for every
  digit of these bases, so its first contents do not matter.
\<close>

definition number_base :: "u8 \<Rightarrow> int" where
  "number_base c =
    (if c = 0x64 then - 10 else if c = 0x75 then 10 else if c = 0x78 \<or> c = 0x58 \<or> c = 0x70 then 16
     else if c = 0x6f then 8 else 2)"

definition number :: "bool \<Rightarrow> u8 \<Rightarrow> dirv \<Rightarrow> u8 list \<Rightarrow> nat \<Rightarrow> 'd arg list \<Rightarrow> (dirv \<times> u8 list \<times> nat \<times> 'd arg list) option" where
  "number longlong c q b d ap =
    do { (q, b, d) \<leftarrow>
           (if c = 0x70 then do { b \<leftarrow> wr d 0x30 b; b \<leftarrow> wr (d + 1) 0x78 b; Some (q\<lparr>fm := FMT_RJUST0, width := 8\<rparr>, b, d + 2) }
            else Some (q, b, d));
         (t, ap) \<leftarrow>
           (if longlong then do { (v, ap) \<leftarrow> next_quad ap; t \<leftarrow> btoa 0 v (number_base c); Some (t, ap) }
            else do { (v, ap) \<leftarrow> next_int ap; t \<leftarrow> btoa 0 v (number_base c); Some (t, ap) });
         (_, b) \<leftarrow> put_string (t @ [0]) d b;
         b \<leftarrow> (if c = 0x58 then strtoupper d b else Some b);
         Some (q, b, d, ap) }"

definition convert ::
  "('d \<Rightarrow> u8 \<Rightarrow> int \<Rightarrow> int \<Rightarrow> cstring) \<Rightarrow> cstring \<Rightarrow> dirv \<Rightarrow> u8 list \<Rightarrow> nat \<Rightarrow> 'd arg list \<Rightarrow> (cstring \<times> dirv \<times> u8 list \<times> nat \<times> 'd arg list) option" where
  "convert dtoa s q b d ap =
    (if at s = 0x25 then do { b \<leftarrow> wr d 0x25 b; b \<leftarrow> wr (d + 1) 0 b; Some (s, q, b, d + 1, ap) }
     else if at s = 0x73 then
       do { (p, ap) \<leftarrow> next_ptr ap;
            b \<leftarrow> strcpy d (Some (case p of Some t \<Rightarrow> t | None \<Rightarrow> map chr ''(null)'')) b;
            Some (s, q, b, d, ap) }
     else if at s = 0x63 then
       do { (n, ap) \<leftarrow> next_int ap; b \<leftarrow> wr d (ucast n) b; b \<leftarrow> wr (d + 1) 0 b; Some (s, q, b, d, ap) }
     else
       let l = (at s = 0x6c);
           s = (if l then tl s else s);
           longlong = (l \<and> at s = 0x6c);
           s = (if longlong then tl s else s)
       in if one_of ''dobpxXu'' (at s) then
            do { (q, b, d, ap) \<leftarrow> number longlong (at s) q b d ap; Some (s, q, b, d, ap) }
          else if one_of ''eEfgG'' (at s) then
            do { (x, ap) \<leftarrow> next_dbl ap;
                 (_, b) \<leftarrow> put_string (dtoa x (at s) (width q) (trunc q) @ [0]) d b;
                 Some (s, q\<lparr>trunc := 0\<rparr>, b, d, ap) }
          else Some (s, q, b, d, ap))"

definition finish :: "dirv \<Rightarrow> u8 list \<Rightarrow> nat \<Rightarrow> (u8 list \<times> nat) option" where
  "finish q b d =
    do { b \<leftarrow> (if trunc q \<noteq> 0 then if int d + trunc q < 0 then None else wr (nat (int d + trunc q)) 0 b else Some b);
         b \<leftarrow> (if width q \<noteq> 0 then str_fmt d (width q) (fm q) b else Some b);
         d \<leftarrow> strend b d;
         Some (b, d) }"

section \<open>The functions\<close>

partial_function (option) vs_loop ::
  "('d \<Rightarrow> u8 \<Rightarrow> int \<Rightarrow> int \<Rightarrow> cstring) \<Rightarrow> cstring \<Rightarrow> u8 list \<Rightarrow> nat \<Rightarrow> 'd arg list \<Rightarrow> (u8 list \<times> nat \<times> 'd arg list) option" where
  "vs_loop dtoa s b d ap =
    (if s = [] then do { b \<leftarrow> wr d 0 b; Some (b, d, ap) }
     else if at s = 0x25 then
       do { (s, q, ap) \<leftarrow> flags (tl s) \<lparr>fm = FMT_RJUST, width = 0, trunc = 0, haddot = False\<rparr> ap;
            (s, q, b, d, ap) \<leftarrow> convert dtoa s q b d ap;
            (b, d) \<leftarrow> finish q b d;
            if s = [] then None else vs_loop dtoa (tl s) b d ap }
     else do { b \<leftarrow> wr d (at s) b; vs_loop dtoa (tl s) b (d + 1) ap })"

declare vs_loop.simps [code]

definition vsprintf ::
  "('d \<Rightarrow> u8 \<Rightarrow> int \<Rightarrow> int \<Rightarrow> cstring) \<Rightarrow> nat \<Rightarrow> cstring \<Rightarrow> 'd arg list \<Rightarrow> u8 list \<Rightarrow> (int \<times> u8 list) option" where
  "vsprintf dtoa d s ap b = do { (b, e, _) \<leftarrow> vs_loop dtoa s b d ap; Some (int e - int d, b) }"

definition sprintf ::
  "('d \<Rightarrow> u8 \<Rightarrow> int \<Rightarrow> int \<Rightarrow> cstring) \<Rightarrow> nat \<Rightarrow> cstring \<Rightarrow> 'd arg list \<Rightarrow> u8 list \<Rightarrow> (int \<times> u8 list) option" where
  "sprintf dtoa buf s ap b = vsprintf dtoa buf s ap b"

definition PRINTF_BUF_SIZE :: nat where "PRINTF_BUF_SIZE = 1024"

text \<open>\<^verbatim>\<open>printf\<close>: the length it returns, the bytes it hands to \<^verbatim>\<open>uart_debug_print\<close> and its buffer.\<close>

definition printf ::
  "('d \<Rightarrow> u8 \<Rightarrow> int \<Rightarrow> int \<Rightarrow> cstring) \<Rightarrow> cstring \<Rightarrow> 'd arg list \<Rightarrow> u8 list \<Rightarrow> (int \<times> cstring \<times> u8 list) option" where
  "printf dtoa s ap printfbuf =
    do { (len, printfbuf) \<leftarrow> vsprintf dtoa 0 s ap printfbuf;
         let len = (if len > int PRINTF_BUF_SIZE - 1 then int PRINTF_BUF_SIZE - 1 else len);
         Some (len, take (nat len) printfbuf, printfbuf) }"

end
