(* ===== verification/Printf_Inv.thy ===== *)
theory Printf_Inv
  imports Printf
begin

unbundle bit_operations_syntax

text \<open>
  What formatted output means: a format is a sequence of items, an item has a text given its
  arguments, and the output is the concatenation of the texts. The lemmas relate every step of
  \<open>vs_loop\<close> to this reading.
\<close>

section \<open>Numerals\<close>

function digits :: "nat \<Rightarrow> nat \<Rightarrow> cstring" where
  "digits b n = (if b < 2 \<or> n < b then [digit_char n] else digits b (n div b) @ [digit_char (n mod b)])"
  by pat_completeness auto
termination by (relation "measure (\<lambda>(b, n). n)") auto

declare digits.simps [simp del]

lemma digits_set: "2 \<le> b \<Longrightarrow> b \<le> 16 \<Longrightarrow> c \<in> set (digits b n) \<Longrightarrow> \<exists>r<16. c = digit_char r"
proof (induction b n rule: digits.induct)
  case (1 b n)
  have r: "n mod b < 16" "n < b \<longrightarrow> n < 16" using 1(2,3) mod_less_divisor[of b n] by linarith+
  show ?case
  proof (cases "n < b")
    case True
    then show ?thesis using 1(4) r(2) digits.simps[of b n] by auto
  next
    case False
    then have "digits b n = digits b (n div b) @ [digit_char (n mod b)]" using 1(2) digits.simps[of b n] by simp
    then show ?thesis using 1 False r(1) by auto
  qed
qed

lemma digit_char_ascii: "r < 16 \<Longrightarrow> digit_char r \<noteq> 0 \<and> digit_char r < 0x80"
  by (drule less_16_cases) (elim disjE; simp add: digit_char_def)

lemma btoa_loop_digits:
  fixes v B :: "'a::len word"
  assumes "unat B = b" "2 \<le> b" "b \<le> 16"
  shows "v \<noteq> 0 \<Longrightarrow> btoa_loop n v B d = Some cs \<Longrightarrow> cs = rev (digits b (unat v))"
proof (induction n arbitrary: v d cs)
  case 0
  then show ?case by (subst (asm) btoa_loop.simps) simp
next
  case (Suc n)
  let ?r = "unat v mod b"
  obtain cs' where cs: "cs = digit_char ?r # cs'" "btoa_loop n (v div B) B (digit_char ?r) = Some cs'"
    using Suc.prems btoa_loop_step[OF _ assms, of v n d] by auto
  have q: "unat (v div B) = unat v div b" using assms(1) by (simp add: unat_div)
  show ?case
  proof (cases "unat v < b")
    case True
    then have "v div B = 0" using q by (simp add: unat_eq_0[symmetric])
    then have "cs' = []" using cs(2) by (subst (asm) btoa_loop.simps) simp
    then show ?thesis using cs(1) True by (subst digits.simps) simp
  next
    case False
    then have "v div B \<noteq> 0" using q assms(2) div_greater_zero_iff[of "unat v" b] by (auto simp: unat_eq_0[symmetric])
    then show ?thesis using Suc.IH[OF _ cs(2)] cs(1) False q assms(2) by (subst digits.simps) simp
  qed
qed

lemma btoa_loop_reads:
  fixes v :: "'a::len word"
  assumes "2 \<le> b" "b \<le> 16" "5 \<le> LENGTH('a)" "LENGTH('a) < n" "v \<noteq> 0"
  shows "btoa_loop n v (word_of_int (int b)) junk = Some (rev (digits b (unat v))) \<and> length (digits b (unat v)) < n \<and> word_of_int (int b) \<noteq> (0 :: 'a word)"
proof -
  let ?B = "word_of_int (int b) :: 'a word"
  have "(2 :: nat) ^ 5 \<le> 2 ^ LENGTH('a)" using assms(3) by (intro power_increasing) auto
  then have B: "unat ?B = b" using assms(2) by (simp add: unat_of_nat)
  have "unat v < b ^ LENGTH('a)"
    using unsigned_less[of v, where ?'a = nat] power_mono[of 2 b "LENGTH('a)"] assms(1) by (meson less_le_trans zero_le)
  from btoa_loop_total[OF B assms(1,2) this, of n junk] obtain cs where cs: "btoa_loop n v ?B junk = Some cs" "length cs \<le> LENGTH('a)"
    using assms(4) by auto
  moreover have "?B \<noteq> 0" using B assms(1) by auto
  ultimately show ?thesis using btoa_loop_digits[OF B assms(1,2,5) cs(1)] assms(4) by simp
qed

lemma btoa_unsigned:
  fixes v :: "'a::len word"
  assumes "2 \<le> b" "b \<le> 16" "5 \<le> LENGTH('a)" "LENGTH('a) < n"
  shows "btoa_text n junk v (int b) = Some (digits b (unat v))"
proof (cases "v = 0")
  case True
  then show ?thesis using assms(1) by (subst digits.simps) (simp add: btoa_text_def digit_char_def)
next
  case False
  then show ?thesis using btoa_loop_reads[OF assms False, of junk] by (simp add: btoa_text_def Let_def)
qed

definition signed_text :: "int \<Rightarrow> cstring" where
  "signed_text i = (if i < 0 then 0x2d # digits 10 (nat (- i)) else digits 10 (nat i))"

lemma btoa_signed:
  fixes v :: "'a::len word"
  assumes "5 \<le> LENGTH('a)" "LENGTH('a) < n"
  shows "btoa_text n junk v (- 10) = Some (signed_text (sint v))"
proof (cases "v = 0")
  case True
  then show ?thesis by (simp add: btoa_text_def signed_text_def, subst digits.simps) (simp add: digit_char_def)
next
  case False
  define w where "w = (if sint v < 0 then - v else v)"
  have w0: "w \<noteq> 0" using False by (simp add: w_def)
  have w: "unat w = nat \<bar>sint v\<bar>"
  proof -
    have "(2 :: int) ^ (LENGTH('a) - Suc 0) < 2 ^ LENGTH('a)" by (rule power_strict_increasing) auto
    then have "\<bar>sint v\<bar> < 2 ^ LENGTH('a)" using sint_greater_eq[of v] sint_less[of v] by linarith
    moreover have "w = word_of_int \<bar>sint v\<bar>" by (simp add: w_def)
    ultimately have "uint w = \<bar>sint v\<bar>" by (simp only: uint_word_of_int_eq) (simp add: take_bit_int_eq_self)
    then show ?thesis by (simp flip: nat_uint_eq)
  qed
  have loop: "btoa_loop n w 10 junk = Some (rev (digits 10 (unat w)))" "length (digits 10 (unat w)) < n" "(10 :: 'a word) \<noteq> 0"
    using btoa_loop_reads[OF _ _ assms w0, of 10 junk] by auto
  show ?thesis
  proof (cases "sint v < 0")
    case True
    then have "bit v (LENGTH('a) - Suc 0)" "NOT v + 1 = w" by (simp_all add: bit_last_iff w_def not_eq_complement)
    then show ?thesis using False True loop w by (simp add: btoa_text_def Let_def signed_text_def)
  next
    case pos: False
    then have "\<not> bit v (LENGTH('a) - Suc 0)" "v = w" by (simp_all add: bit_last_iff w_def)
    then show ?thesis using False pos loop w by (simp add: btoa_text_def Let_def signed_text_def)
  qed
qed

section \<open>Padding and cutting\<close>

fun pad :: "fmt \<Rightarrow> nat \<Rightarrow> cstring \<Rightarrow> cstring" where
  "pad FMT_RJUST w s = replicate (w - length s) 0x20 @ s"
| "pad FMT_LJUST w s = s @ replicate (w - length s) 0x20"
| "pad FMT_RJUST0 w s = replicate (w - length s) 0x30 @ s"
| "pad FMT_CENTER w s =
    replicate (w - length s - (w - length s) div 2) 0x20 @ s @ replicate ((w - length s) div 2) 0x20"

lemma pad_length: "length (pad j w s) = max w (length s)"
  by (cases j) auto

lemma pad_0 [simp]: "pad j 0 s = s"
  by (cases j) auto

lemma pad_ok: "cstring_ok s \<Longrightarrow> cstring_ok (pad j w s)"
  by (cases j) (auto simp: cstring_ok_def)

lemma writes_refl: "holds b p s \<Longrightarrow> writes p s b b"
  by (simp add: writes_def)

lemma writes_holds: "writes p s b b' \<Longrightarrow> holds b' p s" "writes p s b b' \<Longrightarrow> length b' = length b"
  by (simp_all add: writes_def)

lemma ntimes_strichr:
  "holds b p s \<Longrightarrow> c \<noteq> 0 \<Longrightarrow> p + length s + n < length b \<Longrightarrow>
    \<exists>b'. ntimes n (strichr p c) b = Some b' \<and> writes p (replicate n c @ s) b b'"
proof (induction n arbitrary: b s)
  case (Suc n)
  obtain b1 where 1: "strichr p c b = Some b1" "writes p (c # s) b b1" using strichr_writes[OF Suc.prems(1,2)] Suc.prems(3) by auto
  then obtain b2 where 2: "ntimes n (strichr p c) b1 = Some b2" "writes p (replicate n c @ c # s) b1 b2"
    using Suc.IH[of b1 "c # s"] Suc.prems writes_holds[OF 1(2)] by auto
  have "replicate n c @ c # s = replicate (Suc n) c @ s" using replicate_append_same[of n c] by (metis append.assoc append_Cons append_Nil replicate_Suc)
  then have "writes p (replicate (Suc n) c @ s) b b2" using writes_trans[OF 1(2) 2(2)] by metis
  then show ?case using 1(1) 2(1) by (simp del: replicate_Suc)
qed (auto intro: writes_refl)

lemma ntimes_strcat:
  "holds b p s \<Longrightarrow> c \<noteq> 0 \<Longrightarrow> p + length s + n < length b \<Longrightarrow>
    \<exists>b'. ntimes n (strcat p (Some [c])) b = Some b' \<and> writes p (s @ replicate n c) b b'"
proof (induction n arbitrary: b s)
  case (Suc n)
  have "cstring_ok [c]" using Suc.prems(2) by (simp add: cstring_ok_def)
  then obtain b1 where 1: "strcat p (Some [c]) b = Some b1" "writes p (s @ [c]) b b1" using strcat_writes[OF Suc.prems(1)] Suc.prems(3) by fastforce
  then obtain b2 where 2: "ntimes n (strcat p (Some [c])) b1 = Some b2" "writes p ((s @ [c]) @ replicate n c) b1 b2"
    using Suc.IH[of b1 "s @ [c]"] Suc.prems writes_holds[OF 1(2)] by auto
  then show ?case using 1 2 writes_trans[OF 1(2) 2(2)] by simp
qed (auto intro: writes_refl)

lemma str_fmt_pads:
  assumes "holds b p s" "p + max (length s) w < length b"
  shows "\<exists>b'. str_fmt p (int w) j b = Some b' \<and> writes p (pad j w s) b b'"
proof -
  let ?n = "w - length s"
  have n: "nat (int w - int (length s)) = ?n" "p + length s + ?n < length b" using assms(2) by (auto simp: max_def split: if_splits)
  show ?thesis
  proof (cases j)
    case FMT_CENTER
    let ?m = "?n div 2"
    have m: "nat ((int w - int (length s)) sdiv 2) = ?m"
      by (cases "length s \<le> w") (auto simp: signed_divide_int_def of_nat_diff nat_div_distrib sgn_if not_le)
    have k: "nat (int w - (int (length s) + (int w - int (length s)) sdiv 2)) = ?n - ?m"
    proof (cases "length s \<le> w")
      case True
      then have "(int w - int (length s)) sdiv 2 = int ?m" by (auto simp: signed_divide_int_def of_nat_diff sgn_if zdiv_int)
      then show ?thesis using True by simp
    next
      case False
      then have "(int w - int (length s)) sdiv 2 = - ((int (length s) - int w) div 2)" by (auto simp: signed_divide_int_def sgn_if)
      then show ?thesis using False by simp
    qed
    have mn: "?m \<le> ?n" by simp
    then have "p + length s + ?m < length b" using n(2) by linarith
    then obtain b1 where 1: "ntimes ?m (strcat p (Some [0x20])) b = Some b1" "writes p (s @ replicate ?m 0x20) b b1"
      using ntimes_strcat[OF assms(1), of "0x20" ?m] by auto
    have "p + length (s @ replicate ?m 0x20) + (?n - ?m) < length b1" using writes_holds(2)[OF 1(2)] mn n(2) by simp
    then obtain b2 where 2: "ntimes (?n - ?m) (strichr p 0x20) b1 = Some b2" "writes p (replicate (?n - ?m) 0x20 @ s @ replicate ?m 0x20) b1 b2"
      using ntimes_strichr[OF writes_holds(1)[OF 1(2)], of "0x20" "?n - ?m"] by auto
    then show ?thesis using 1 FMT_CENTER m k strend_holds[OF assms(1)] writes_trans[OF 1(2) 2(2)] by (simp add: str_fmt_def Let_def)
  qed (use n strend_holds[OF assms(1)] ntimes_strichr[OF assms(1), of _ ?n] ntimes_strcat[OF assms(1), of _ ?n] in \<open>auto simp: str_fmt_def Let_def\<close>)
qed

lemma cut_writes:
  assumes "holds b d t" "0 < k" "d + k < length b"
  shows "writes d (take k t) b (b[d + k := 0])"
proof -
  obtain pre post where b: "b = pre @ t @ 0 # post" "length pre = d" "cstring_ok t" using assms(1) unfolding holds_split by blast
  have "holds (b[d + k := 0]) d (take k t)"
  proof (cases "k < length t")
    case True
    then have "b[d + k := 0] = pre @ take k t @ 0 # drop (Suc k) t @ 0 # post"
      using b by (simp add: list_update_append upd_conv_take_nth_drop)
    then show ?thesis using b unfolding holds_split by (auto simp: cstring_ok_def dest: in_set_takeD)
  next
    case False
    then have "b[d + k := 0] = pre @ t @ (0 # post)[k - length t := 0]" using b by (simp add: list_update_append)
    moreover obtain post' where "(0 # post)[k - length t := 0] = 0 # post'" by (cases "k - length t") auto
    ultimately show ?thesis using b False unfolding holds_split by auto
  qed
  then show ?thesis by (simp add: writes_def)
qed

lemma finish_writes:
  assumes "holds b d t" "trunc q = int k" "width q = int w" "d + max (max (length t) k) w < length b"
  shows "\<exists>b'. finish q b d = Some (b', d + length (pad (fm q) w (if k = 0 then t else take k t))) \<and>
    writes d (pad (fm q) w (if k = 0 then t else take k t)) b b'"
proof -
  let ?t = "if k = 0 then t else take k t" and ?b = "if k = 0 then b else b[d + k := 0]"
  have 1: "writes d ?t b ?b" using cut_writes[OF assms(1), of k] writes_refl[OF assms(1)] assms(4) by (cases "k = 0") auto
  have c: "(if trunc q \<noteq> 0 then if int d + trunc q < 0 then None else wr (nat (int d + trunc q)) 0 b else Some b) = Some ?b"
    using assms(2,4) by (auto simp: wr_def nat_add_distrib)
  obtain b' where 2: "(if width q \<noteq> 0 then str_fmt d (width q) (fm q) ?b else Some ?b) = Some b'" "writes d (pad (fm q) w ?t) ?b b'"
  proof (cases "w = 0")
    case True
    then show ?thesis using that assms(3) writes_refl[OF writes_holds(1)[OF 1]] by simp
  next
    case False
    have "d + max (length ?t) w < length ?b" using assms(4) by auto
    then show ?thesis using that False assms(3) str_fmt_pads[OF writes_holds(1)[OF 1], of w "fm q"] by auto
  qed
  show ?thesis using c 2 writes_trans[OF 1 2(2)] strend_holds[OF writes_holds(1)[OF 2(2)]] unfolding finish_def c by auto
qed

section \<open>Formats\<close>

text \<open>
  A conversion is a number in one of the bases (the flag for \<^verbatim>\<open>ll\<close>, and the letter), a string or a
  character; a directive has a justification, the digits of its width and of its precision (empty
  when there is none) and a conversion.
\<close>

datatype conv = Num bool u8 | Strv | Chrv

datatype item = Lit u8 | Percent | Dir fmt cstring cstring conv

definition num_text :: "u8 \<Rightarrow> 'a::len word \<Rightarrow> cstring" where
  "num_text c v =
    (if c = 0x64 then signed_text (sint v)
     else if c = 0x75 then digits 10 (unat v)
     else if c = 0x78 then digits 16 (unat v)
     else if c = 0x58 then map (\<lambda>c. if 0x61 \<le> c \<and> c \<le> 0x7a then c - 0x20 else c) (digits 16 (unat v))
     else if c = 0x6f then digits 8 (unat v)
     else digits 2 (unat v))"

fun conv_chars :: "conv \<Rightarrow> cstring" where
  "conv_chars (Num ll c) = (if ll then [0x6c, 0x6c] else []) @ [c]"
| "conv_chars Strv = [0x73]"
| "conv_chars Chrv = [0x63]"

fun conv_ok :: "conv \<Rightarrow> bool" where
  "conv_ok (Num ll c) \<longleftrightarrow> c \<in> {0x64, 0x75, 0x78, 0x58, 0x6f, 0x62}"
| "conv_ok _ \<longleftrightarrow> True"

text \<open>The text of a conversion and the arguments after it.\<close>

fun conv_text :: "conv \<Rightarrow> 'd arg list \<Rightarrow> (cstring \<times> 'd arg list) option" where
  "conv_text (Num ll c) (IntArg v # ap) = (if ll then None else Some (num_text c v, ap))"
| "conv_text (Num ll c) (QuadArg v # ap) = (if ll then Some (num_text c (ucast v :: u32), ap) else None)"
| "conv_text Strv (PtrArg p # ap) =
    (let t = (case p of Some t \<Rightarrow> t | None \<Rightarrow> map chr ''(null)'') in if cstring_ok t then Some (t, ap) else None)"
| "conv_text Chrv (IntArg v # ap) = (if ucast v = (0 :: u8) then None else Some ([ucast v], ap))"
| "conv_text _ _ = None"

definition dec :: "cstring \<Rightarrow> nat" where
  "dec ds = foldl (\<lambda>n c. n * 10 + (unat c - 48)) 0 ds"

definition number_ok :: "cstring \<Rightarrow> bool" where
  "number_ok ds \<longleftrightarrow> ds = [] \<or> hd ds \<noteq> 0x30 \<and> (\<forall>c\<in>set ds. isdigit c) \<and> length ds < 40 \<and> dec ds < 2147483648"

fun just_chars :: "fmt \<Rightarrow> cstring" where
  "just_chars FMT_RJUST = []"
| "just_chars FMT_LJUST = [0x2d]"
| "just_chars FMT_RJUST0 = [0x30]"
| "just_chars FMT_CENTER = [0x7e]"

fun item_chars :: "item \<Rightarrow> cstring" where
  "item_chars (Lit c) = [c]"
| "item_chars Percent = [0x25, 0x25]"
| "item_chars (Dir j ws ps cv) = 0x25 # just_chars j @ ws @ (if ps = [] then [] else 0x2e # ps) @ conv_chars cv"

fun item_ok :: "item \<Rightarrow> bool" where
  "item_ok (Lit c) \<longleftrightarrow> c \<noteq> 0 \<and> c \<noteq> 0x25"
| "item_ok Percent \<longleftrightarrow> True"
| "item_ok (Dir j ws ps cv) \<longleftrightarrow> number_ok ws \<and> number_ok ps \<and> conv_ok cv"

text \<open>The text of an item, how many bytes are written for it, and the arguments after it.\<close>

fun item_text :: "item \<Rightarrow> 'd arg list \<Rightarrow> (cstring \<times> nat \<times> 'd arg list) option" where
  "item_text (Lit c) ap = Some ([c], 1, ap)"
| "item_text Percent ap = Some ([0x25], 1, ap)"
| "item_text (Dir j ws ps cv) ap =
    do { (t, ap) \<leftarrow> conv_text cv ap;
         Some (pad j (dec ws) (if ps = [] then t else take (dec ps) t), max (max (length t) (dec ps)) (dec ws), ap) }"

text \<open>The whole output and the size of the buffer it takes, from a given place on.\<close>

fun render :: "nat \<Rightarrow> item list \<Rightarrow> 'd arg list \<Rightarrow> (cstring \<times> nat) option" where
  "render d [] ap = Some ([], d + 1)"
| "render d (i # is) ap =
    do { (t, n, ap) \<leftarrow> item_text i ap;
         (ts, m) \<leftarrow> render (d + length t) is ap;
         Some (t @ ts, max (d + n + 1) m) }"

section \<open>Reading a directive\<close>

lemma isdigit_value:
  assumes "isdigit c"
  shows "digit_value c = Some (unat c - 48)" "unat c - 48 < 10"
proof -
  have c: "0x30 \<le> c" "c \<le> 0x39" using assms by (simp_all add: isdigit_def)
  then have "unat (c - 0x30) = unat c - 48" by (subst unat_sub) auto
  then show "digit_value c = Some (unat c - 48)" using c by (simp add: digit_value_def)
  show "unat c - 48 < 10" using c(2) by (simp add: word_le_nat_alt)
qed

lemma atob_loop_dec:
  "\<forall>c\<in>set ds. isdigit c \<Longrightarrow> atob_loop ds 10 (of_nat n) = Some (of_nat (foldl (\<lambda>n c. n * 10 + (unat c - 48)) n ds))"
proof (induction ds arbitrary: n)
  case (Cons c ds)
  then have c: "digit_value c = Some (unat c - 48)" "unat c - 48 < 10" using isdigit_value[of c] by auto
  have "of_nat n * 10 + of_nat (unat c - 48) = (of_nat (n * 10 + (unat c - 48)) :: u32)" by (simp only: of_nat_add of_nat_mult of_nat_numeral)
  then show ?case using Cons.IH[of "n * 10 + (unat c - 48)"] Cons.prems c by simp
qed simp

lemma atob_dec:
  assumes "\<forall>c\<in>set ds. isdigit c" "dec ds < 2147483648"
  shows "\<exists>n. atob ds 10 = Some n \<and> sint n = int (dec ds)"
proof -
  have "\<forall>c\<in>set ds. digit_value c \<noteq> None" using assms(1) isdigit_value(1) by auto
  then have "atob ds 10 = Some (of_nat (dec ds))"
    using atob_loop_dec[OF assms(1), of 0] by (simp add: atob_def atob_rec_digits dec_def)
  moreover have "sint (of_nat (dec ds) :: u32) = int (dec ds)" using wrap32_id[of "int (dec ds)"] assms(2) by (simp add: wrap32_def)
  ultimately show ?thesis by auto
qed

lemma one_of_set: "one_of cs c \<longleftrightarrow> c \<in> set (map chr cs)"
  by (simp add: one_of_def strchr_dropWhile)

lemma flags_number:
  assumes "number_ok ds" "ds \<noteq> []" "s \<noteq> []" "\<not> isdigit (hd s)"
  shows "flags (ds @ s) q ap = flags s (set_number (int (dec ds)) q) ap"
proof -
  obtain c ds' where ds: "ds = c # ds'" using assms(2) by (cases ds) auto
  have c: "isdigit c" "c \<noteq> 0x30" and ok: "\<forall>c\<in>set ds. isdigit c" "length ds < 40" "dec ds < 2147483648"
    using assms(1) ds by (auto simp: number_ok_def)
  have "\<not> one_of ''dobpxXulscefg%'' c" "c \<noteq> 0x2d" "c \<noteq> 0x7e" "c \<noteq> 0x2a"
    using c(1) by (auto simp: one_of_set chr_def isdigit_def)
  moreover have t: "takeWhile isdigit (ds @ s) = ds" "dropWhile isdigit (ds' @ s) = s"
    using ok(1) ds assms(3,4) by (cases s; simp)+
  moreover obtain n where "atob ds 10 = Some n" "sint n = int (dec ds)" using atob_dec[OF ok(1,3)] by blast
  ultimately show ?thesis using c ok(2) t(1) unfolding ds append_Cons by (subst flags.simps) (simp add: Let_def)
qed

lemma flags_just:
  "flags (just_chars j @ s) \<lparr>fm = FMT_RJUST, width = 0, trunc = 0, haddot = False\<rparr> ap =
    flags s \<lparr>fm = j, width = 0, trunc = 0, haddot = False\<rparr> ap"
proof (cases j)
  case FMT_RJUST
  then show ?thesis by simp
qed (simp, subst flags.simps, simp add: one_of_set chr_def)+

lemma flags_stop: "one_of ''dobpxXulscefg%'' c \<Longrightarrow> flags (c # s) q ap = Some (c # s, q, ap)"
  by (subst flags.simps) simp

text \<open>The letters at which the loop over the flags stops.\<close>

lemma conv_first:
  assumes "conv_ok cv"
  shows "\<exists>c s. conv_chars cv = c # s \<and> one_of ''dobpxXulscefg%'' c \<and> \<not> isdigit c \<and> c \<noteq> 0x2e"
  using assms by (cases cv) (auto simp: one_of_set chr_def isdigit_def)

lemma flags_directive:
  assumes "number_ok ws" "number_ok ps" "conv_ok cv"
  shows "\<exists>h. flags (just_chars j @ ws @ (if ps = [] then [] else 0x2e # ps) @ conv_chars cv @ s) \<lparr>fm = FMT_RJUST, width = 0, trunc = 0, haddot = False\<rparr> ap =
    Some (conv_chars cv @ s, \<lparr>fm = j, width = int (dec ws), trunc = int (dec ps), haddot = h\<rparr>, ap)"
proof -
  obtain c cs where cv: "conv_chars cv = c # cs" "one_of ''dobpxXulscefg%'' c" "\<not> isdigit c" using conv_first[OF assms(3)] by blast
  let ?p = "(if ps = [] then [] else 0x2e # ps) @ conv_chars cv @ s"
  have p: "?p \<noteq> []" "\<not> isdigit (hd ?p)" using cv by (auto simp: isdigit_def)
  have 1: "flags (ws @ ?p) q ap = flags ?p (q\<lparr>width := int (dec ws)\<rparr>) ap" if "\<not> haddot q" "width q = 0" for q
  proof -
    have q: "q\<lparr>width := int (dec [])\<rparr> = q" using that(2) by (cases q) (simp add: dec_def)
    show ?thesis
    proof (cases "ws = []")
      case True
      show ?thesis unfolding True q append_Nil ..
    next
      case False
      then show ?thesis using flags_number[OF assms(1) False p, of q ap] that by (simp add: set_number_def)
    qed
  qed
  have 2: "flags ?p q ap = Some (conv_chars cv @ s, q\<lparr>trunc := int (dec ps), haddot := (ps \<noteq> [])\<rparr>, ap)" if "\<not> haddot q" "trunc q = 0" for q
  proof (cases "ps = []")
    case True
    then show ?thesis using that cv flags_stop[OF cv(2)] by (cases q) (simp add: dec_def)
  next
    case False
    have "flags (0x2e # ps @ conv_chars cv @ s) q ap = flags (ps @ conv_chars cv @ s) (q\<lparr>haddot := True\<rparr>) ap"
      by (subst flags.simps) (simp add: one_of_set chr_def isdigit_def)
    also have "\<dots> = flags (conv_chars cv @ s) (q\<lparr>haddot := True, trunc := int (dec ps)\<rparr>) ap"
      using flags_number[OF assms(2) False, of "conv_chars cv @ s" "q\<lparr>haddot := True\<rparr>" ap] cv by (simp add: set_number_def)
    finally show ?thesis using False cv flags_stop[OF cv(2)] by (cases q) simp
  qed
  show ?thesis using 1[of "\<lparr>fm = j, width = 0, trunc = 0, haddot = False\<rparr>"] 2[of "\<lparr>fm = j, width = int (dec ws), trunc = 0, haddot = False\<rparr>"]
    flags_just[of j "ws @ ?p" ap] by simp
qed

section \<open>Writing a directive\<close>

lemma digits_ascii: "2 \<le> b \<Longrightarrow> b \<le> 16 \<Longrightarrow> c \<in> set (digits b n) \<Longrightarrow> c \<noteq> 0 \<and> c < 0x80"
  by (metis digits_set digit_char_ascii)

lemma upper_nonzero: "c \<noteq> 0 \<Longrightarrow> (if 0x61 \<le> c \<and> c \<le> 0x7a then c - 0x20 else c) \<noteq> (0 :: u8)"
  by auto

lemma num_text_ok: "cstring_ok (num_text c v)"
proof -
  have "cstring_ok (digits b n)" if "2 \<le> b" "b \<le> 16" for b n using digits_ascii[OF that] by (auto simp: cstring_ok_def)
  moreover have "cstring_ok (map (\<lambda>c. if 0x61 \<le> c \<and> c \<le> 0x7a then c - 0x20 else c) (digits 16 n))" for n
    using digits_ascii[of 16 _ n] upper_nonzero by (force simp: cstring_ok_def)
  ultimately show ?thesis by (auto simp: num_text_def signed_text_def) (auto simp: cstring_ok_def)
qed

lemma raw_ok: "cstring_ok (if c = 0x58 then digits 16 n else num_text c v)"
  using digits_ascii[of 16 _ n] num_text_ok[of c v] by (auto simp: cstring_ok_def)

lemma btoa_num:
  fixes v :: "'a::len word"
  assumes "c \<in> {0x64, 0x75, 0x78, 0x58, 0x6f, 0x62}" "5 \<le> LENGTH('a)" "LENGTH('a) < n"
  shows "btoa_text n junk v (number_base c) = Some (if c = 0x58 then digits 16 (unat v) else num_text c v)"
  using assms(1) btoa_signed[OF assms(2,3), of junk v] btoa_unsigned[OF _ _ assms(2,3), of 10 junk v]
    btoa_unsigned[OF _ _ assms(2,3), of 16 junk v] btoa_unsigned[OF _ _ assms(2,3), of 8 junk v]
    btoa_unsigned[OF _ _ assms(2,3), of 2 junk v]
  by (elim insertE) (simp_all add: number_base_def num_text_def)

lemma upper_writes:
  assumes "writes d (digits 16 n) b b1"
  shows "\<exists>b'. strtoupper d b1 = Some b' \<and> writes d (map (\<lambda>c. if 0x61 \<le> c \<and> c \<le> 0x7a then c - 0x20 else c) (digits 16 n)) b b'"
proof -
  let ?up = "\<lambda>c. if 0x61 \<le> c \<and> c \<le> 0x7a then c - 0x20 else (c :: u8)"
  obtain pre post where b: "b1 = pre @ digits 16 n @ 0 # post" "length pre = d"
    using writes_holds(1)[OF assms] unfolding holds_split by blast
  have a: "\<forall>c\<in>set (digits 16 n). c \<noteq> 0 \<and> c < 0x80" using digits_ascii[of 16 _ n] by auto
  have "strtoupper d b1 = Some (pre @ map ?up (digits 16 n) @ 0 # post)" using strtoupper_eq[OF b(1) a] b(2) by simp
  moreover have "cstring_ok (map ?up (digits 16 n))" using a upper_nonzero by (force simp: cstring_ok_def)
  ultimately show ?thesis using assms b unfolding writes_def holds_split by auto
qed

lemma number_writes:
  assumes "c \<in> {0x64, 0x75, 0x78, 0x58, 0x6f, 0x62}" "conv_text (Num ll c) ap = Some (t, ap')" "d + length t < length b"
  shows "\<exists>b'. number ll c q b d ap = Some (q, b', d, ap') \<and> writes d t b b'"
proof -
  obtain raw where raw: "(if ll then do { (v, ap) \<leftarrow> next_quad ap; t \<leftarrow> btoa 0 v (number_base c); Some (t, ap) }
            else do { (v, ap) \<leftarrow> next_int ap; t \<leftarrow> btoa 0 v (number_base c); Some (t, ap) }) = Some (raw, ap')"
      "cstring_ok raw" "length raw = length t" "c \<noteq> 0x58 \<Longrightarrow> raw = t"
      "c = 0x58 \<Longrightarrow> \<exists>n. raw = digits 16 n \<and> t = map (\<lambda>c. if 0x61 \<le> c \<and> c \<le> 0x7a then c - 0x20 else c) (digits 16 n)"
  proof -
    show ?thesis using assms(2)
    proof (cases "(Num ll c, ap)" rule: conv_text.cases)
      case (1 ll' c' v ap1)
      then have "btoa 0 v (number_base c) = Some (if c = 0x58 then digits 16 (unat v) else num_text c v)"
        using btoa_num[OF assms(1), where n = 34 and v = v] by (simp add: btoa_def)
      then show ?thesis using that[of "if c = 0x58 then digits 16 (unat v) else num_text c v"] raw_ok[of c "unat v" v] 1 assms(2)
        by (auto simp: num_text_def split: if_splits) blast
    next
      case (2 ll' c' v ap1)
      let ?v = "ucast v :: u32"
      have "btoa 0 ?v (number_base c) = Some (if c = 0x58 then digits 16 (unat ?v) else num_text c ?v)"
        using btoa_num[OF assms(1), where n = 34 and v = ?v] by (simp add: btoa_def)
      then show ?thesis using that[of "if c = 0x58 then digits 16 (unat ?v) else num_text c ?v"] raw_ok[of c "unat ?v" ?v] 2 assms(2)
        by (auto simp: num_text_def split: if_splits) blast
    qed auto
  qed
  obtain b1 where 1: "put_string (raw @ [0]) d b = Some (d + length raw + 1, b1)" "writes d raw b b1"
    using put_writes[OF raw(2), of d b] raw(3) assms(3) by auto
  have p: "c \<noteq> 0x70" using assms(1) by auto
  show ?thesis
  proof (cases "c = 0x58")
    case True
    then obtain n where n: "raw = digits 16 n" "t = map (\<lambda>c. if 0x61 \<le> c \<and> c \<le> 0x7a then c - 0x20 else c) (digits 16 n)" using raw(5) by blast
    obtain b' where "strtoupper d b1 = Some b'" "writes d t b b'" using upper_writes[of d n b b1] 1(2) n by auto
    then show ?thesis using 1 p True unfolding number_def raw(1) by simp
  next
    case False
    then show ?thesis using 1 raw(4) p unfolding number_def raw(1) by simp
  qed
qed

lemma writes_take: "writes d t b b' \<Longrightarrow> length b' = length b \<and> take (d + length t) b' = take d b @ t"
  unfolding writes_def holds_split by auto

lemma dec_le: "n \<le> foldl (\<lambda>n c. n * 10 + (unat c - 48)) n ds"
proof (induction ds arbitrary: n)
  case (Cons c ds)
  have "n \<le> n * 10 + (unat c - 48)" by simp
  then show ?case using Cons[of "n * 10 + (unat c - 48)"] by (simp only: foldl.simps)
qed simp

lemma dec_pos:
  assumes "number_ok ds" "ds \<noteq> []"
  shows "0 < dec ds"
proof -
  obtain c ds' where ds: "ds = c # ds'" using assms(2) by (cases ds) auto
  have "0x30 \<le> c" "c \<noteq> 0x30" using assms(1) ds by (auto simp: number_ok_def isdigit_def)
  then have "0x30 < c" by simp
  then have "0 < unat c - 48" by (simp add: word_less_nat_alt)
  then show ?thesis using dec_le[of "unat c - 48" ds'] unfolding ds dec_def by simp
qed

lemma convert_writes:
  assumes "conv_ok cv" "conv_text cv ap = Some (t, ap')" "d + length t < length b"
  shows "\<exists>c b'. convert dtoa (conv_chars cv @ s) q b d ap = Some (c # s, q, b', d, ap') \<and> writes d t b b'"
proof (cases cv)
  case (Num ll c)
  then have c: "c \<in> {0x64, 0x75, 0x78, 0x58, 0x6f, 0x62}" using assms(1) by simp
  then have k: "c \<noteq> 0x25" "c \<noteq> 0x73" "c \<noteq> 0x63" "c \<noteq> 0x6c" "one_of ''dobpxXu'' c" by (auto simp: one_of_set chr_def)
  obtain b' where "number ll c q b d ap = Some (q, b', d, ap')" "writes d t b b'"
    using number_writes[OF c, of ll ap t ap' d b q] assms(2,3) Num by auto
  then show ?thesis using k Num by (cases ll) (simp_all add: convert_def Let_def)
next
  case Strv
  then obtain p where p: "ap = PtrArg p # ap'" "t = (case p of Some t \<Rightarrow> t | None \<Rightarrow> map chr ''(null)'')" "cstring_ok t"
    using assms(2) by (cases "(cv, ap)" rule: conv_text.cases) (auto simp: Let_def split: if_splits)
  then show ?thesis using Strv strcpy_writes[OF p(3) assms(3)] by (auto simp: convert_def)
next
  case Chrv
  then obtain v where v: "ap = IntArg v # ap'" "t = [ucast v]" "ucast v \<noteq> (0 :: u8)"
    using assms(2) by (cases "(cv, ap)" rule: conv_text.cases) (auto split: if_splits)
  then obtain b' where "put_string ([ucast v] @ [0]) d b = Some (d + 2, b')" "writes d t b b'"
    using put_writes[of t d b] assms(3) by (auto simp: cstring_ok_def)
  then show ?thesis using Chrv v by (auto simp: convert_def bind_eq_Some_conv)
qed

text \<open>One item of the format.\<close>

lemma item_step:
  assumes "item_ok i" "item_text i ap = Some (t, n, ap')" "d + n < length b"
  shows "\<exists>b'. vs_loop dtoa (item_chars i @ s) b d ap = vs_loop dtoa s b' (d + length t) ap' \<and>
    length b' = length b \<and> take (d + length t) b' = take d b @ t"
proof (cases i)
  case (Lit c)
  then show ?thesis using assms by (subst vs_loop.simps) (auto simp: wr_def take_Suc_conv_app_nth)
next
  case Percent
  let ?q = "\<lparr>fm = FMT_RJUST, width = 0, trunc = 0, haddot = False\<rparr>" and ?b = "b[d := 0x25, Suc d := 0]"
  have d: "Suc d < length b" "t = [0x25]" "ap' = ap" using assms(2,3) Percent by auto
  then have "convert dtoa (0x25 # s) ?q b d ap = Some (0x25 # s, ?q, ?b, Suc d, ap)" by (simp add: convert_def wr_def)
  moreover have "strend ?b (Suc d) = Some (Suc d)" using d(1) by (subst strend.simps) simp
  then have "finish ?q ?b (Suc d) = Some (?b, Suc d)" by (simp add: finish_def)
  moreover have "flags (0x25 # s) ?q ap = Some (0x25 # s, ?q, ap)" by (rule flags_stop) (simp add: one_of_set chr_def)
  ultimately have "vs_loop dtoa (item_chars i @ s) b d ap = vs_loop dtoa s ?b (d + length t) ap'"
    using Percent d by (subst vs_loop.simps) simp
  moreover have "take (d + length t) ?b = take d b @ t" using d by (simp add: take_Suc_conv_app_nth)
  ultimately show ?thesis by auto
next
  case (Dir j ws ps cv)
  then obtain x where x: "conv_text cv ap = Some (x, ap')" "t = pad j (dec ws) (if ps = [] then x else take (dec ps) x)"
      "n = max (max (length x) (dec ps)) (dec ws)"
    using assms(2) by (auto simp: bind_eq_Some_conv)
  have ok: "number_ok ws" "number_ok ps" "conv_ok cv" using assms(1) Dir by auto
  obtain h where fl: "flags (just_chars j @ ws @ (if ps = [] then [] else 0x2e # ps) @ conv_chars cv @ s) \<lparr>fm = FMT_RJUST, width = 0, trunc = 0, haddot = False\<rparr> ap =
      Some (conv_chars cv @ s, \<lparr>fm = j, width = int (dec ws), trunc = int (dec ps), haddot = h\<rparr>, ap)"
    using flags_directive[OF ok] by blast
  let ?q = "\<lparr>fm = j, width = int (dec ws), trunc = int (dec ps), haddot = h\<rparr>"
  have "d + length x < length b" using assms(3) x(3) by simp
  then obtain c b1 where c: "convert dtoa (conv_chars cv @ s) ?q b d ap = Some (c # s, ?q, b1, d, ap')" "writes d x b b1"
    using convert_writes[OF ok(3) x(1)] by blast
  have "dec ps = 0 \<longleftrightarrow> ps = []" using dec_pos[OF ok(2)] by (cases "ps = []") (simp_all add: dec_def)
  then obtain b2 where f: "finish ?q b1 d = Some (b2, d + length t)" "writes d t b1 b2"
    using finish_writes[OF writes_holds(1)[OF c(2)], of ?q "dec ps" "dec ws"] writes_holds(2)[OF c(2)] assms(3) x(2,3) by auto
  have "vs_loop dtoa (item_chars i @ s) b d ap = vs_loop dtoa s b2 (d + length t) ap'"
    unfolding Dir by (subst vs_loop.simps) (simp add: fl c(1) f(1))
  moreover have "writes d t b b2" using writes_trans c(2) f(2) by blast
  ultimately show ?thesis by (auto simp: writes_take)
qed

text \<open>The whole format.\<close>

lemma vs_loop_render:
  "\<forall>i\<in>set is. item_ok i \<Longrightarrow> render d is ap = Some (out, m) \<Longrightarrow> m \<le> length b \<Longrightarrow>
    \<exists>b' ap'. vs_loop dtoa (concat (map item_chars is)) b d ap = Some (b', d + length out, ap') \<and> length b' = length b \<and>
      take (d + length out + 1) b' = take d b @ out @ [0]"
proof (induction "is" arbitrary: b d ap out m)
  case Nil
  then show ?case by (subst vs_loop.simps) (auto simp: wr_def take_Suc_conv_app_nth)
next
  case (Cons i "is")
  then obtain t n ap1 ts k where r: "item_text i ap = Some (t, n, ap1)" "render (d + length t) is ap1 = Some (ts, k)"
      "out = t @ ts" "m = max (d + n + 1) k"
    by (auto simp: bind_eq_Some_conv)
  obtain b1 where 1: "vs_loop dtoa (item_chars i @ concat (map item_chars is)) b d ap = vs_loop dtoa (concat (map item_chars is)) b1 (d + length t) ap1"
      "length b1 = length b" "take (d + length t) b1 = take d b @ t"
    using item_step[OF _ r(1), of d b dtoa "concat (map item_chars is)"] Cons.prems r(4) by auto
  show ?case using Cons.IH[OF _ r(2), of b1] 1 r Cons.prems by (auto simp: add.assoc)
qed

end
