(* ===== verification/Printf_Claims.thy ===== *)
theory Printf_Claims
  imports Printf_Inv
begin

unbundle bit_operations_syntax

text \<open>Properties of the formatted output and of the string functions that write.\<close>

text \<open>
  C19. Formatted output renders its format: for a format made of plain characters, \<^verbatim>\<open>%%\<close> and
  directives with justification, width, precision and a conversion among \<^verbatim>\<open>d u x X o b s c\<close> and the
  \<^verbatim>\<open>ll\<close> forms, which print the low 32 bits of their 64-bit argument, and arguments that fit it,
  \<^verbatim>\<open>vsprintf\<close> writes the concatenation of the rendered items
  and a terminator, leaves what stands before its start, and returns the length; this takes a
  buffer of the size \<open>render\<close> gives. The precision cuts the text of a number too, and zeros are padded
  before the sign.
\<close>

theorem vsprintf_renders:
  assumes "\<forall>i\<in>set is. item_ok i" "render d is ap = Some (out, m)" "m \<le> length b"
  shows "\<exists>b'. vsprintf dtoa d (concat (map item_chars is)) ap b = Some (int (length out), b') \<and> length b' = length b \<and>
    take (d + length out + 1) b' = take d b @ out @ [0]"
  using vs_loop_render[OF assms, of dtoa] by (auto simp: vsprintf_def)

theorem vsprintf_renders_witness:
  "\<exists>b'. vsprintf (\<lambda>(x :: unit) c w p. []) 0 (map chr ''a=%05d|%-4X|%.2s'')
      [IntArg (- 42), IntArg 255, PtrArg (Some (map chr ''xyz''))] (replicate 20 1) = Some (15, b') \<and>
    take 16 b' = map chr ''a=00-42|FF  |xy'' @ [0]"
proof -
  let ?is = "[Lit 0x61, Lit 0x3d, Dir FMT_RJUST0 [0x35] [] (Num False 0x64), Lit 0x7c, Dir FMT_LJUST [0x34] [] (Num False 0x58), Lit 0x7c,
      Dir FMT_RJUST [] [0x32] Strv]"
  let ?ap = "[IntArg (- 42), IntArg 255, PtrArg (Some (map chr ''xyz''))] :: unit arg list"
  have f: "concat (map item_chars ?is) = map chr ''a=%05d|%-4X|%.2s''" by (simp add: chr_def)
  have r: "render 0 ?is ?ap = Some (map chr ''a=00-42|FF  |xy'', 17)" by code_simp
  have "\<forall>i\<in>set ?is. item_ok i" by (simp add: number_ok_def isdigit_def dec_def)
  from vsprintf_renders[OF this r, of "replicate 20 1" "\<lambda>x c w p. []"] show ?thesis unfolding f by (auto simp: numeral_eq_Suc)
qed

lemma vs_loop_plain:
  "\<forall>c\<in>set s. c \<noteq> 0x25 \<Longrightarrow>
    vs_loop dtoa s b d ap = (if d + length s < length b then Some (take d b @ s @ 0 # drop (d + length s + 1) b, d + length s, ap) else None)"
proof (induction s arbitrary: b d)
  case Nil
  then show ?case by (subst vs_loop.simps) (auto simp: wr_def upd_conv_take_nth_drop)
next
  case (Cons c s)
  then have "vs_loop dtoa (c # s) b d ap = Option.bind (wr d c b) (\<lambda>b. vs_loop dtoa s b (d + 1) ap)"
    by (subst vs_loop.simps) simp
  then show ?case using Cons.IH[of "b[d := c]" "d + 1"] Cons.prems by (auto simp: wr_def take_Suc_conv_app_nth)
qed

text \<open>
  The limit on the printed length comes too late: a text of plain characters is printed as it
  is when it fits the buffer of 1024 bytes with its terminator; a longer one is not shortened
  but written past the end of the buffer, because the length is only limited after \<^verbatim>\<open>vsprintf\<close>
  has written the text.
\<close>

lemma printf_overruns:
  assumes "length printfbuf = PRINTF_BUF_SIZE" "\<forall>c\<in>set s. c \<noteq> 0x25"
  shows "(length s < PRINTF_BUF_SIZE \<longrightarrow> (\<exists>b. printf dtoa s ap printfbuf = Some (int (length s), s, b) \<and> length b = PRINTF_BUF_SIZE)) \<and>
    (PRINTF_BUF_SIZE \<le> length s \<longrightarrow> printf dtoa s ap printfbuf = None)"
  using vs_loop_plain[OF assms(2), of dtoa printfbuf 0 ap] assms(1) by (auto simp: printf_def vsprintf_def Let_def PRINTF_BUF_SIZE_def)

text \<open>
  \<^verbatim>\<open>strlcpy\<close> keeps to its bound: with a bound \<open>l\<close> greater than 0 it writes at most \<open>l\<close> bytes from the
  destination on, always with a terminator among them, copies the longest prefix of the source that
  fits, and returns the number of bytes written.
\<close>

lemma strlcpy_bounded:
  assumes "cstring_ok s" "0 < l" "d + min (length s + 1) l \<le> length b"
  shows "\<exists>b'. strlcpy d (Some s) l b = Some (min (length s + 1) l, b') \<and> length b' = length b \<and> take d b' = take d b \<and>
    take (min (length s + 1) l) (drop d b') = take (l - 1) s @ [0] \<and> drop (d + l) b' = drop (d + l) b"
proof -
  obtain b' where b': "strlcpy d (Some s) l b = Some (min (length s + 1) l, b')" "writes d (take (l - 1) s) b b'" "drop (d + l) b' = drop (d + l) b"
    using strlcpy_writes[OF assms] by blast
  have "min (length s + 1) l = length (take (l - 1) s) + 1" using assms(2) by (auto simp: min_def)
  then show ?thesis using b' by (auto simp: writes_def holds_def)
qed

end
