(* ===== verification/Textscan.thy ===== *)
theory Textscan
  imports Printf_Inv
begin

unbundle bit_operations_syntax

text \<open>
  Reading numbers and matching patterns: \<^verbatim>\<open>strtoul\<close>, \<^verbatim>\<open>strcasecmp\<close> and \<^verbatim>\<open>strpat\<close> of \<^verbatim>\<open>src/os/common_fun.c\<close> with the
  character classes of \<^verbatim>\<open>src/libc/ctype.c\<close>, and \<^verbatim>\<open>memparse\<close> of \<^verbatim>\<open>src/os/hardware/nand/cmdlinepart.c\<close>.
\<close>

section \<open>Character classes\<close>

definition isspace :: "u8 \<Rightarrow> bool" where
  "isspace c \<longleftrightarrow> 0x09 \<le> c \<and> c \<le> 0x0d \<or> c = 0x20"

definition isupper :: "u8 \<Rightarrow> bool" where
  "isupper c \<longleftrightarrow> 0x41 \<le> c \<and> c \<le> 0x5a"

definition isalpha :: "u8 \<Rightarrow> bool" where
  "isalpha c \<longleftrightarrow> isupper c \<or> 0x61 \<le> c \<and> c \<le> 0x7a"

definition tolower_tab :: "u8 \<Rightarrow> int" where
  "tolower_tab c = (if isupper c then uint c + 0x20 else uint c)"

section \<open>Numbers\<close>

definition alnum_digit :: "u8 \<Rightarrow> nat option" where
  "alnum_digit c =
    (if isdigit c then Some (unat (c - 0x30))
     else if isalpha c then Some (unat (c - (if isupper c then 0x41 else 0x61)) + 10)
     else None)"

text \<open>The loop: the value, whether it has overflowed, and the text where it stopped.\<close>

fun strtoul_loop :: "cstring \<Rightarrow> nat \<Rightarrow> u32 \<Rightarrow> bool \<Rightarrow> u32 \<times> bool \<times> cstring" where
  "strtoul_loop [] base result overflow = (result, overflow, [])"
| "strtoul_loop (c # s) base result overflow =
    (case alnum_digit c of
       None \<Rightarrow> (result, overflow, c # s)
     | Some digit \<Rightarrow>
       if digit \<ge> base then (result, overflow, c # s)
       else
         let overflow = (overflow \<or> result > 0xffffffff div of_nat base)
         in if overflow then strtoul_loop s base result True
            else
              let result = of_nat base * result
              in if of_nat digit > 0xffffffff - result then strtoul_loop s base result True
                 else strtoul_loop s base (result + of_nat digit) False)"

text \<open>The result, where it points to, and whether \<^verbatim>\<open>errno\<close> is set to \<^verbatim>\<open>ERANGE\<close>.\<close>

definition strtoul :: "cstring \<Rightarrow> nat \<Rightarrow> u32 \<times> cstring \<times> bool" where
  "strtoul nptr base =
    (let s = dropWhile isspace nptr;
         negative = (at s = 0x2d);
         s = (if at s = 0x2b \<or> at s = 0x2d then tl s else s);
         (base, s) =
           (if base = 0 then
              if at s = 0x30 then
                if at (tl s) = 0x78 \<or> at (tl s) = 0x58 then (16, tl (tl s)) else (8, tl s)
              else (10, s)
            else if base = 16 \<and> at s = 0x30 then (16, if at (tl s) = 0x78 then tl (tl s) else tl s)
            else (base, s));
         (result, overflow, s) = strtoul_loop s base 0 False;
         result = (if negative \<and> \<not> overflow then - result else result);
         result = (if overflow then 0xffffffff else result)
     in (result, s, overflow))"

definition memparse :: "cstring \<Rightarrow> u64 \<times> cstring" where
  "memparse ptr =
    (let (r, retptr, _) = strtoul ptr 0;
         ret = ucast r;
         c = at retptr
     in if c = 0x47 \<or> c = 0x67 then (push_bit 10 (push_bit 10 (push_bit 10 ret)), tl retptr)
        else if c = 0x4d \<or> c = 0x6d then (push_bit 10 (push_bit 10 ret), tl retptr)
        else if c = 0x4b \<or> c = 0x6b then (push_bit 10 ret, tl retptr)
        else (ret, retptr))"

section \<open>Comparing and matching\<close>

fun strcasecmp :: "cstring \<Rightarrow> cstring \<Rightarrow> int" where
  "strcasecmp s1 s2 =
    (if tolower_tab (at s1) = tolower_tab (at s2) then
       (case s1 of [] \<Rightarrow> 0 | c # s1' \<Rightarrow> if c = 0 then 0 else strcasecmp s1' (tl s2))
     else tolower_tab (at s1) - tolower_tab (at s2))"

declare strcasecmp.simps [simp del]

text \<open>The loop of \<^verbatim>\<open>strpat\<close> on the text and the pattern between their anchors.\<close>

definition plain_char :: "u8 \<Rightarrow> bool" where
  "plain_char c \<longleftrightarrow> c \<noteq> 0x2a \<and> c \<noteq> 0x3f"

function strpat_loop :: "cstring \<Rightarrow> cstring \<Rightarrow> bool" where
  "strpat_loop p pat =
    (if p \<noteq> [] \<and> pat \<noteq> [] then
       if at pat = 0x2a then
         (let tmp = takeWhile plain_char (tl pat); pat = dropWhile plain_char (tl pat)
          in case strposn (Some p) (Some tmp) of
               None \<Rightarrow> False
             | Some t \<Rightarrow> strpat_loop (drop (strlen tmp) t) pat)
       else if at pat = 0x3f \<or> at pat = at p then strpat_loop (tl p) (tl pat)
       else False
     else p = [] \<and> (pat = [] \<or> at pat = 0x2a \<and> tl pat = []))"
  by pat_completeness auto
termination
  by (relation "measure (\<lambda>(p, pat). length pat)") (auto simp: neq_Nil_conv le_imp_less_Suc length_dropWhile_le)

declare strpat_loop.simps [simp del]

definition MAXLN :: nat where "MAXLN = 256"

definition strpat :: "cstring \<Rightarrow> cstring \<Rightarrow> bool option" where
  "strpat s1 s2 =
    (if length s1 + 3 > MAXLN \<or> length s2 + 3 > MAXLN then None
     else Some (strpat_loop (0xde # s1 @ [0xa4]) (0xde # s2 @ [0xa4])))"

section \<open>The value that is read\<close>

definition digit_val :: "u8 \<Rightarrow> nat" where
  "digit_val c = (case alnum_digit c of Some d \<Rightarrow> d | None \<Rightarrow> 0)"

definition digit_in :: "nat \<Rightarrow> u8 \<Rightarrow> bool" where
  "digit_in b c \<longleftrightarrow> (\<exists>d<b. alnum_digit c = Some d)"

definition value_from :: "nat \<Rightarrow> nat \<Rightarrow> cstring \<Rightarrow> nat" where
  "value_from b n cs = foldl (\<lambda>n c. n * b + digit_val c) n cs"

lemma value_from_ge: "0 < b \<Longrightarrow> n \<le> value_from b n cs"
proof (induction cs arbitrary: n)
  case (Cons c cs)
  have "n \<le> n * b + digit_val c" using Cons.prems by (simp add: trans_le_add1)
  then show ?case using Cons.IH[OF Cons.prems, of "n * b + digit_val c"] by (simp add: value_from_def)
qed (simp add: value_from_def)

lemma strtoul_overflowed:
  "\<forall>c\<in>set cs. digit_in b c \<Longrightarrow> (rest = [] \<or> \<not> digit_in b (hd rest)) \<Longrightarrow> \<exists>r'. strtoul_loop (cs @ rest) b r True = (r', True, rest)"
proof (induction cs)
  case Nil
  then show ?case by (cases rest) (auto simp: digit_in_def split: option.split)
qed (auto simp: digit_in_def)

lemma strtoul_loop_value:
  assumes "2 \<le> b" "b \<le> 36" "rest = [] \<or> \<not> digit_in b (hd rest)"
  shows "\<forall>c\<in>set cs. digit_in b c \<Longrightarrow> n < 4294967296 \<Longrightarrow>
    \<exists>r. strtoul_loop (cs @ rest) b (of_nat n) False = (r, 4294967296 \<le> value_from b n cs, rest) \<and>
      (value_from b n cs < 4294967296 \<longrightarrow> r = of_nat (value_from b n cs))"
proof (induction cs arbitrary: n)
  case Nil
  then show ?case using assms(3) by (cases rest) (auto simp: digit_in_def value_from_def split: option.split)
next
  case (Cons c cs)
  obtain d where d: "alnum_digit c = Some d" "d < b" "digit_val c = d" using Cons.prems(1) by (auto simp: digit_in_def digit_val_def)
  have b32: "unat (of_nat b :: u32) = b" using assms(2) by (simp add: unat_of_nat)
  have n32: "unat (of_nat n :: u32) = n" using Cons.prems(2) by (simp add: unat_of_nat)
  have lim: "of_nat n > (0xffffffff div of_nat b :: u32) \<longleftrightarrow> 4294967296 \<le> n * b"
  proof -
    have "unat (0xffffffff div of_nat b :: u32) = 4294967295 div b" by (simp add: unat_div b32)
    then have "of_nat n > (0xffffffff div of_nat b :: u32) \<longleftrightarrow> 4294967295 div b < n" by (simp add: word_less_nat_alt n32)
    also have "\<dots> \<longleftrightarrow> 4294967295 < n * b" using assms(1) by (simp add: div_less_iff_less_mult)
    finally show ?thesis by auto
  qed
  have v: "value_from b n (c # cs) = value_from b (n * b + d) cs" using d(3) by (simp add: value_from_def)
  have ge: "n * b + d \<le> value_from b (n * b + d) cs" using assms(1) by (intro value_from_ge) simp
  have cs: "\<forall>c\<in>set cs. digit_in b c" using Cons.prems(1) by simp
  have over: "\<And>r. \<exists>r'. strtoul_loop (cs @ rest) b r True = (r', True, rest)" using strtoul_overflowed[OF cs assms(3)] by blast
  show ?case
  proof (cases "4294967296 \<le> n * b")
    case True
    then show ?thesis using over[of "of_nat n"] d v ge lim by (auto simp: Let_def)
  next
    case False
    then have nb: "unat (of_nat b * of_nat n :: u32) = n * b" by (simp add: unat_word_ariths b32 n32 mult.commute)
    have d32: "unat (of_nat d :: u32) = d" using d(2) assms(2) by (simp add: unat_of_nat)
    have "of_nat d > 0xffffffff - (of_nat b * of_nat n :: u32) \<longleftrightarrow> 4294967295 - n * b < d"
      using False nb by (simp add: word_less_nat_alt d32 unat_minus)
    then have dig: "of_nat d > 0xffffffff - (of_nat b * of_nat n :: u32) \<longleftrightarrow> 4294967296 \<le> n * b + d" using False by linarith
    show ?thesis
    proof (cases "4294967296 \<le> n * b + d")
      case True
      then show ?thesis using over[of "of_nat b * of_nat n"] d v ge lim dig False by (auto simp: Let_def)
    next
      case fits: False
      have eq: "(of_nat b * of_nat n + of_nat d :: u32) = of_nat (n * b + d)" by (simp add: mult.commute)
      have "strtoul_loop ((c # cs) @ rest) b (of_nat n) False = strtoul_loop (cs @ rest) b (of_nat (n * b + d)) False"
        unfolding eq[symmetric] using d lim dig False fits by (simp add: Let_def)
      then show ?thesis using Cons.IH[OF cs, of "n * b + d"] v fits by simp
    qed
  qed
qed

section \<open>Reading printed numbers\<close>

lemma digit_char_10: "r < 10 \<Longrightarrow> isdigit (digit_char r) \<and> alnum_digit (digit_char r) = Some r \<and> (digit_char r = 0x30 \<longleftrightarrow> r = 0)"
proof -
  assume r: "r < 10"
  then have "r < 16" by simp
  from less_16_cases[OF this] r show ?thesis by (elim disjE; simp add: digit_char_def isdigit_def alnum_digit_def)
qed

lemma digits_10: "(\<forall>c\<in>set (digits 10 n). isdigit c \<and> digit_in 10 c) \<and> value_from 10 0 (digits 10 n) = n \<and> digits 10 n \<noteq> [] \<and> (hd (digits 10 n) = 0x30 \<longleftrightarrow> n = 0)"
proof (induction n rule: less_induct)
  case (less n)
  show ?case
  proof (cases "n < 10")
    case True
    then have "digits 10 n = [digit_char n]" by (subst digits.simps) simp
    then show ?thesis using digit_char_10[OF True] True by (simp add: digit_in_def value_from_def digit_val_def)
  next
    case False
    then have e: "digits 10 n = digits 10 (n div 10) @ [digit_char (n mod 10)]" by (subst digits.simps) simp
    have "n div 10 < n" "n div 10 \<noteq> 0" using False by auto
    then show ?thesis using less.IH[of "n div 10"] digit_char_10[of "n mod 10"] unfolding e
      by (auto simp: digit_in_def value_from_def digit_val_def)
  qed
qed

lemma strtoul_digits:
  assumes "n < 4294967296" "rest = [] \<or> \<not> digit_in 10 (hd rest) \<and> hd rest \<noteq> 0x78 \<and> hd rest \<noteq> 0x58"
  shows "strtoul (digits 10 n @ rest) 0 = (of_nat n, rest, False)"
proof -
  let ?s = "digits 10 n @ rest"
  have dg: "\<forall>c\<in>set (digits 10 n). isdigit c \<and> digit_in 10 c" "value_from 10 0 (digits 10 n) = n" "digits 10 n \<noteq> []"
    "hd (digits 10 n) = 0x30 \<longleftrightarrow> n = 0" using digits_10[of n] by blast+
  obtain c cs where c: "digits 10 n = c # cs" using dg(3) by (cases "digits 10 n") auto
  have cd: "isdigit c" using dg(1) c by simp
  then have "\<not> isspace c" "c \<noteq> 0x2b" "c \<noteq> 0x2d" by (auto simp: isdigit_def isspace_def word_le_nat_alt)
  show ?thesis
  proof (cases "n = 0")
    case True
    then have "digits 10 n = [0x30]" by (subst digits.simps) (simp add: digit_char_def)
    moreover have "strtoul_loop rest 8 0 False = (0, False, rest)"
      using assms(2) by (cases rest) (auto simp: digit_in_def split: option.split)
    moreover have "at rest \<noteq> 0x78" "at rest \<noteq> 0x58" using assms(2) by (cases rest; auto)+
    ultimately show ?thesis using True by (simp add: strtoul_def isspace_def)
  next
    case False
    then have "c \<noteq> 0x30" using dg(4) c by simp
    moreover have "strtoul_loop ?s 10 0 False = (of_nat n, False, rest)"
      using strtoul_loop_value[of 10 rest "digits 10 n" 0] dg assms by auto
    ultimately show ?thesis using c cd \<open>\<not> isspace c\<close> \<open>c \<noteq> 0x2b\<close> \<open>c \<noteq> 0x2d\<close> by (simp add: strtoul_def Let_def)
  qed
qed

text \<open>Sizes with a unit: none, \<^verbatim>\<open>K\<close>, \<^verbatim>\<open>M\<close> or \<^verbatim>\<open>G\<close>.\<close>

fun unit_char :: "nat \<Rightarrow> cstring" where
  "unit_char u = (if u = 0 then [] else if u = 1 then [0x4b] else if u = 2 then [0x4d] else [0x47])"

lemma unit_stop: "\<not> digit_in 10 0x4b" "\<not> digit_in 10 0x4d" "\<not> digit_in 10 0x47"
  by (simp_all add: digit_in_def alnum_digit_def isdigit_def isalpha_def isupper_def)

lemma memparse_size:
  assumes "n < 4294967296" "u \<le> 3" "rest = [] \<or> \<not> isdigit (hd rest) \<and> \<not> isalpha (hd rest)"
  shows "memparse (digits 10 n @ unit_char u @ rest) = (of_nat (n * 1024 ^ u), rest)"
proof -
  have stop: "rest = [] \<or> \<not> digit_in 10 (hd rest) \<and> hd rest \<noteq> 0x78 \<and> hd rest \<noteq> 0x58"
    using assms(3) by (auto simp: digit_in_def alnum_digit_def isalpha_def isupper_def)
  have "unit_char u @ rest = [] \<or> \<not> digit_in 10 (hd (unit_char u @ rest)) \<and> hd (unit_char u @ rest) \<noteq> 0x78 \<and> hd (unit_char u @ rest) \<noteq> 0x58"
    using stop unit_stop by (cases "u = 0") auto
  then have r: "strtoul (digits 10 n @ unit_char u @ rest) 0 = (of_nat n, unit_char u @ rest, False)" by (rule strtoul_digits[OF assms(1)])
  have "at rest \<notin> {0x47, 0x67, 0x4d, 0x6d, 0x4b, 0x6b}" using assms(3) by (cases rest) (auto simp: isalpha_def isupper_def)
  moreover have "ucast (of_nat n :: u32) = (of_nat n :: u64)" using assms(1) by (simp add: unsigned_of_nat take_bit_nat_eq_self)
  moreover have "u = 0 \<or> u = 1 \<or> u = 2 \<or> u = 3" using assms(2) by auto
  ultimately show ?thesis using r
    by (elim disjE) (simp_all add: memparse_def push_bit_eq_mult)
qed

end
