(* ===== verification/Mtd.thy ===== *)
theory Mtd
  imports Textscan
begin

unbundle bit_operations_syntax

text \<open>
  The flash partitions: their list in \<^verbatim>\<open>src/os/filesys/mtd.c\<close>, built with the list macros of
  \<^verbatim>\<open>src/os/include/queue.h\<close>, and the parser of the \<^verbatim>\<open>mtdparts\<close> variable in
  \<^verbatim>\<open>src/os/hardware/nand/cmdlinepart.c\<close>. The list elements are blocks of the heap, named by the
  number of the request that was granted; whether the \<open>i\<close>-th request is granted is \<open>granted i\<close>. A
  field \<open>le_prev\<close> holds the address of the \<open>le_next\<close> field of an element and is modelled by that
  element. An access to a block that is not allocated and a loop that does not end are \<open>None\<close>.
  The messages are left out.
\<close>

section \<open>State\<close>

record mtd_info =
  is_nand :: bool
  dev_size :: u32
  erasesize :: u32
  writesize :: u32

record mtdfile =
  mtd :: nat
  refs :: u32
  index :: u32
  part_size :: u32
  part_offset :: u32
  le_next :: "nat option"
  le_prev :: "nat option"
  name :: cstring

record mtds =
  nodes :: "nat \<Rightarrow> mtdfile option"
  lh_first :: "nat option"
  mtdidx :: u32
  goodpart0 :: "nat option"
  mtd_offset :: u32
  this_part :: u32
  devs :: "nat \<Rightarrow> mtd_info"
  granted :: "nat \<Rightarrow> bool"
  requests :: nat

definition malloc_block :: "mtds \<Rightarrow> nat option \<times> mtds" where
  "malloc_block m = (if granted m (requests m) then Some (requests m) else None, m\<lparr>requests := requests m + 1\<rparr>)"

definition upd :: "nat option \<Rightarrow> (mtdfile \<Rightarrow> mtdfile) \<Rightarrow> mtds \<Rightarrow> mtds option" where
  "upd p f m = do { p \<leftarrow> p; n \<leftarrow> nodes m p; Some (m\<lparr>nodes := (nodes m)(p \<mapsto> f n)\<rparr>) }"

section \<open>The list\<close>

definition LIST_INSERT_BEFORE :: "nat \<Rightarrow> nat \<Rightarrow> mtds \<Rightarrow> mtds option" where
  "LIST_INSERT_BEFORE listelm elm m =
    do { l \<leftarrow> nodes m listelm;
         m \<leftarrow> upd (Some elm) (\<lambda>n. n\<lparr>le_prev := le_prev l\<rparr>) m;
         m \<leftarrow> upd (Some elm) (\<lambda>n. n\<lparr>le_next := Some listelm\<rparr>) m;
         l \<leftarrow> nodes m listelm;
         m \<leftarrow> upd (le_prev l) (\<lambda>n. n\<lparr>le_next := Some elm\<rparr>) m;
         upd (Some listelm) (\<lambda>n. n\<lparr>le_prev := Some elm\<rparr>) m }"

definition LIST_REMOVE :: "nat \<Rightarrow> mtds \<Rightarrow> mtds option" where
  "LIST_REMOVE elm m =
    do { e \<leftarrow> nodes m elm;
         m \<leftarrow> (case le_next e of None \<Rightarrow> Some m | Some x \<Rightarrow> upd (Some x) (\<lambda>n. n\<lparr>le_prev := le_prev e\<rparr>) m);
         e \<leftarrow> nodes m elm;
         upd (le_prev e) (\<lambda>n. n\<lparr>le_next := le_next e\<rparr>) m }"

text \<open>A loop \<^verbatim>\<open>LIST_FOREACH\<close> that leaves at the first element with a property.\<close>

partial_function (option) LIST_FOREACH :: "(mtdfile \<Rightarrow> bool) \<Rightarrow> nat option \<Rightarrow> mtds \<Rightarrow> nat option option" where
  "LIST_FOREACH P var m =
    (case var of
       None \<Rightarrow> Some None
     | Some p \<Rightarrow> do { n \<leftarrow> nodes m p; if P n then Some (Some p) else LIST_FOREACH P (le_next n) m })"

declare LIST_FOREACH.simps [code]

text \<open>The new element, cleared and filled in.\<close>

definition new_node :: "nat \<Rightarrow> u32 \<Rightarrow> u32 \<Rightarrow> cstring option \<Rightarrow> mtds \<Rightarrow> mtdfile" where
  "new_node dev offset sz nm m =
    \<lparr>mtd = dev, refs = 0, index = mtdidx m, part_size = (if sz \<noteq> 0 then sz else dev_size (devs m dev) - offset),
     part_offset = offset, le_next = None, le_prev = None, name = (case nm of None \<Rightarrow> [] | Some n \<Rightarrow> n)\<rparr>"

definition add_mtd_device :: "nat \<Rightarrow> u32 \<Rightarrow> u32 \<Rightarrow> cstring option \<Rightarrow> mtds \<Rightarrow> (int \<times> mtds) option" where
  "add_mtd_device dev offset sz nm m =
    (case malloc_block m of
       (None, m) \<Rightarrow> Some (0, m)
     | (Some rmp, m) \<Rightarrow>
       do { let node = new_node dev offset sz nm m;
            let m = m\<lparr>mtdidx := mtdidx m + 1, nodes := (nodes m)(rmp \<mapsto> node)\<rparr>;
            m \<leftarrow> (case lh_first m of
                None \<Rightarrow>
                  do { m \<leftarrow> upd (Some rmp) (\<lambda>n. n\<lparr>le_next := None, le_prev := Some rmp\<rparr>) m;
                       Some (m\<lparr>lh_first := Some rmp\<rparr>) }
              | Some first \<Rightarrow>
                  do { f \<leftarrow> nodes m first;
                       m \<leftarrow> upd (le_prev f) (\<lambda>n. n\<lparr>le_next := Some first\<rparr>) m;
                       m \<leftarrow> LIST_INSERT_BEFORE first rmp m;
                       f \<leftarrow> nodes m first;
                       upd (le_prev f) (\<lambda>n. n\<lparr>le_next := None\<rparr>) m });
            nm \<leftarrow> nm;
            Some (0, if strcmp nm (map chr ''g0'') = 0 then m\<lparr>goodpart0 := Some rmp\<rparr> else m) })"

definition del_mtd_device :: "nat \<Rightarrow> mtds \<Rightarrow> (int \<times> mtds) option" where
  "del_mtd_device dev m =
    do { r \<leftarrow> LIST_FOREACH (\<lambda>n. mtd n = dev) (lh_first m) m;
         case r of
           None \<Rightarrow> Some (- 1, m)
         | Some rmp \<Rightarrow>
           do { n \<leftarrow> nodes m rmp;
                if refs n = 0 then do { m \<leftarrow> LIST_REMOVE rmp m; Some (0, m\<lparr>nodes := (nodes m)(rmp := None)\<rparr>) }
                else Some (- 1, m) } }"

section \<open>The parser\<close>

definition SIZE_REMAINING :: u32 where "SIZE_REMAINING = 0xffffffff"
definition PAGE_SIZE :: u32 where "PAGE_SIZE = 4096"

text \<open>A string as it is read from a buffer.\<close>

definition string_in :: "u8 list \<Rightarrow> cstring option" where
  "string_in b = (if 0 \<in> set b then Some (takeWhile (\<lambda>c. c \<noteq> 0) b) else None)"

text \<open>The three parts of a definition: the size, with whether it is large enough, the offset and the name.\<close>

definition fetch_size :: "cstring \<Rightarrow> u32 \<times> cstring \<times> bool" where
  "fetch_size s =
    (if at s = 0x2d then (SIZE_REMAINING, tl s, True)
     else let (r, s) = memparse s; sz = ucast r in (sz, s, \<not> sz < PAGE_SIZE))"

definition fetch_offset :: "cstring \<Rightarrow> mtds \<Rightarrow> mtds \<times> cstring" where
  "fetch_offset s m =
    (if at s = 0x40 then let (r, s) = memparse (tl s) in (m\<lparr>mtd_offset := ucast r\<rparr>, s) else (m, s))"

text \<open>The buffer \<^verbatim>\<open>realname\<close> and the text after the name; \<open>Some None\<close> when no bracket closes the name.\<close>

definition fetch_name :: "cstring \<Rightarrow> u32 \<Rightarrow> (u8 list \<times> cstring) option option" where
  "fetch_name s k =
    (let realname = replicate 200 0 in
     if at s = 0x28 then
       (case strchr (tl s) (schar 0x29) of
          None \<Rightarrow> Some None
        | Some p \<Rightarrow>
          do { realname \<leftarrow> strncpy 0 (Some (tl s)) (length (tl s) - length p) realname; Some (Some (realname, tl p)) })
     else do {
       (_, realname) \<leftarrow> sprintf (\<lambda>(x :: unit) c w p. []) 0 (map chr ''mtd%d'') [IntArg k] realname;
       Some (Some (realname, s)) })"

text \<open>
  \<^verbatim>\<open>newpart\<close> for the device \<open>dev\<close> (\<^verbatim>\<open>ls1x_mtd\<close>): the text at which the parser goes on, or \<open>None\<close> when
  it returns 0.
\<close>

definition newpart :: "nat \<Rightarrow> cstring \<Rightarrow> mtds \<Rightarrow> (cstring option \<times> mtds) option" where
  "newpart dev s m =
    (case fetch_size s of
       (sz, s, False) \<Rightarrow> Some (None, m)
     | (sz, s, True) \<Rightarrow>
       (case fetch_offset s m of
          (m, s) \<Rightarrow>
            do { r \<leftarrow> fetch_name s (this_part m);
                 case r of
                   None \<Rightarrow> Some (None, m)
                 | Some (realname, s) \<Rightarrow>
                   do { let sz = (if sz = SIZE_REMAINING then dev_size (devs m dev) - mtd_offset m else sz);
                        let m = m\<lparr>this_part := this_part m + 1\<rparr>;
                        nm \<leftarrow> string_in realname;
                        (_, m) \<leftarrow> add_mtd_device dev (mtd_offset m) sz (Some nm) m;
                        if at s = 0x2c then Some (Some s, m\<lparr>mtd_offset := mtd_offset m + sz\<rparr>) else Some (None, m) } }))"

partial_function (option) newparts :: "nat \<Rightarrow> cstring \<Rightarrow> mtds \<Rightarrow> mtds option" where
  "newparts dev p m =
    do { (s, m) \<leftarrow> newpart dev (tl p) m;
         case s of None \<Rightarrow> Some m | Some s \<Rightarrow> newparts dev s m }"

declare newparts.simps [code]

definition mtdpart_setup_real :: "nat \<Rightarrow> cstring \<Rightarrow> mtds \<Rightarrow> mtds option" where
  "mtdpart_setup_real dev s m =
    (case strchr s (schar 0x3a) of None \<Rightarrow> Some m | Some p \<Rightarrow> newparts dev p m)"

end
