(* ===== verification/Mtd_Inv.thy ===== *)
theory Mtd_Inv
  imports Mtd
begin

unbundle bit_operations_syntax

text \<open>
  The list of partitions: \<open>linked m xs\<close> says that the elements \<open>xs\<close> are chained from \<open>lh_first\<close>
  on, with the \<open>le_prev\<close> field of the first element referring to the last one, which is what
  \<^verbatim>\<open>add_mtd_device\<close> relies on to append. The parser is then compared with a reference reading
  of the text.
\<close>

section \<open>The list\<close>

definition prev_of :: "nat list \<Rightarrow> nat \<Rightarrow> nat" where
  "prev_of xs i = xs ! (if i = 0 then length xs - 1 else i - 1)"

definition next_of :: "nat list \<Rightarrow> nat \<Rightarrow> nat option" where
  "next_of xs i = (if i + 1 < length xs then Some (xs ! (i + 1)) else None)"

definition linked :: "mtds \<Rightarrow> nat list \<Rightarrow> bool" where
  "linked m xs \<longleftrightarrow> lh_first m = (if xs = [] then None else Some (hd xs)) \<and> distinct xs \<and>
    (\<forall>i<length xs. \<exists>n. nodes m (xs ! i) = Some n \<and> le_next n = next_of xs i \<and> le_prev n = Some (prev_of xs i)) \<and>
    (\<forall>p n. nodes m p = Some n \<longrightarrow> p < requests m)"

definition part_of :: "mtdfile \<Rightarrow> nat \<times> u32 \<times> u32 \<times> u32 \<times> cstring" where
  "part_of n = (mtd n, index n, part_offset n, part_size n, name n)"

definition parts :: "mtds \<Rightarrow> nat list \<Rightarrow> (nat \<times> u32 \<times> u32 \<times> u32 \<times> cstring) list" where
  "parts m xs = map (\<lambda>p. case nodes m p of Some n \<Rightarrow> part_of n | None \<Rightarrow> (0, 0, 0, 0, [])) xs"

lemma mtdfile_same [simp]: "n\<lparr>le_next := le_next n\<rparr> = n" "n\<lparr>le_prev := le_prev n\<rparr> = (n :: mtdfile)"
  by simp_all

definition appended :: "nat \<Rightarrow> nat \<Rightarrow> nat \<Rightarrow> mtdfile \<Rightarrow> (nat \<Rightarrow> mtdfile option) \<Rightarrow> nat \<Rightarrow> mtdfile option" where
  "appended r f l node ns p =
    (if p = r then Some (node\<lparr>le_prev := Some l, le_next := None\<rparr>)
     else map_option (\<lambda>n. n\<lparr>le_next := (if p = l then Some r else le_next n), le_prev := (if p = f then Some r else le_prev n)\<rparr>) (ns p))"

definition added :: "cstring \<Rightarrow> (nat \<Rightarrow> mtdfile option) \<Rightarrow> nat \<Rightarrow> mtds \<Rightarrow> mtds" where
  "added nm ns first m = m\<lparr>nodes := ns, lh_first := Some first, mtdidx := mtdidx m + 1,
      goodpart0 := (if strcmp nm (map chr ''g0'') = 0 then Some (requests m) else goodpart0 m), requests := requests m + 1\<rparr>"

lemma insert_nodes:
  assumes "nodes m r = Some node" "nodes m f = Some nf" "le_prev nf = Some l" "nodes m l = Some nl" "r \<noteq> f" "r \<noteq> l"
  shows "do { m \<leftarrow> upd (Some l) (\<lambda>n. n\<lparr>le_next := Some f\<rparr>) m;
              m \<leftarrow> LIST_INSERT_BEFORE f r m;
              f \<leftarrow> nodes m f;
              upd (le_prev f) (\<lambda>n. n\<lparr>le_next := None\<rparr>) m } = Some (m\<lparr>nodes := appended r f l node (nodes m)\<rparr>)"
proof (cases "l = f")
  case True
  then have "(nodes m)(f \<mapsto> nl\<lparr>le_next := Some r, le_prev := Some r\<rparr>, r \<mapsto> node\<lparr>le_prev := Some f, le_next := None\<rparr>) = appended r f l node (nodes m)"
    using assms by (auto simp: appended_def fun_eq_iff option.map_ident)
  then show ?thesis using assms True by (simp add: upd_def LIST_INSERT_BEFORE_def)
next
  case False
  then have "(nodes m)(l \<mapsto> nl\<lparr>le_next := Some r\<rparr>, f \<mapsto> nf\<lparr>le_prev := Some r\<rparr>, r \<mapsto> node\<lparr>le_prev := Some l, le_next := None\<rparr>) =
      appended r f l node (nodes m)"
    using assms by (auto simp: appended_def fun_eq_iff option.map_ident)
  then show ?thesis using assms False by (simp add: upd_def LIST_INSERT_BEFORE_def)
qed

lemma linked_first: "linked m (x # xs) \<Longrightarrow> lh_first m = Some x \<and> (\<exists>n. nodes m x = Some n \<and> le_prev n = Some (last (x # xs)))"
  by (auto simp: linked_def prev_of_def last_conv_nth dest: spec[of _ 0])

lemma linked_alloc: "linked m xs \<Longrightarrow> p \<in> set xs \<Longrightarrow> \<exists>n. nodes m p = Some n"
  by (auto simp: linked_def in_set_conv_nth)

lemma linked_fresh: "linked m xs \<Longrightarrow> nodes m (requests m) = None"
  unfolding linked_def by (metis less_irrefl not_None_eq)

lemma linked_new: "linked m xs \<Longrightarrow> requests m \<notin> set xs"
  using linked_alloc linked_fresh by fastforce

lemma new_node_requests: "new_node dev offset sz nm (m\<lparr>requests := k\<rparr>) = new_node dev offset sz nm m"
  by (simp add: new_node_def)

lemma added_state:
  "linked m xs \<Longrightarrow> granted m (requests m) \<Longrightarrow>
    add_mtd_device dev offset sz (Some nm) m =
      Some (0, added nm (appended (requests m) (hd (xs @ [requests m])) (last (requests m # xs)) (new_node dev offset sz (Some nm) m) (nodes m)) (hd (xs @ [requests m])) m)"
proof (cases xs)
  case Nil
  assume m: "linked m xs" "granted m (requests m)"
  let ?r = "requests m" and ?n = "new_node dev offset sz (Some nm) m"
  have "(nodes m)(?r \<mapsto> ?n\<lparr>le_next := None, le_prev := Some ?r\<rparr>) = appended ?r ?r ?r ?n (nodes m)"
    by (auto simp: appended_def fun_eq_iff option.map_ident)
  then show ?thesis using m Nil unfolding added_def
    by (simp add: add_mtd_device_def malloc_block_def upd_def linked_def Let_def new_node_requests)
next
  case (Cons f ys)
  assume m: "linked m xs" "granted m (requests m)"
  let ?r = "requests m" and ?n = "new_node dev offset sz (Some nm) m"
  let ?l = "last xs"
  obtain nf where f: "lh_first m = Some f" "nodes m f = Some nf" "le_prev nf = Some ?l" using linked_first[of m f ys] m(1) Cons by auto
  have "?l \<in> set xs" using Cons by (intro last_in_set) simp
  then obtain nl where l: "nodes m ?l = Some nl" using linked_alloc[OF m(1)] by blast
  have r: "nodes m ?r = None" using linked_fresh[OF m(1)] .
  let ?m = "m\<lparr>requests := ?r + 1, mtdidx := mtdidx m + 1, nodes := (nodes m)(?r \<mapsto> ?n)\<rparr>"
  have "?r \<noteq> f" "?r \<noteq> ?l" using f(2) l r by auto
  then have ins: "do { m \<leftarrow> upd (Some ?l) (\<lambda>n. n\<lparr>le_next := Some f\<rparr>) ?m; m \<leftarrow> LIST_INSERT_BEFORE f ?r m; f \<leftarrow> nodes m f;
      upd (le_prev f) (\<lambda>n. n\<lparr>le_next := None\<rparr>) m } = Some (?m\<lparr>nodes := appended ?r f ?l ?n (nodes ?m)\<rparr>)"
    using f l by (intro insert_nodes[where nf = nf and nl = nl]) auto
  have ap: "appended ?r f ?l ?n (nodes ?m) = appended ?r f ?l ?n (nodes m)" by (auto simp: appended_def fun_eq_iff)
  show ?thesis using m Cons f ins ap \<open>?r \<noteq> f\<close>
    by (simp add: add_mtd_device_def malloc_block_def added_def Let_def new_node_requests)
qed

lemma next_of_append:
  "i < length xs \<Longrightarrow> next_of (xs @ [r]) i = (if i + 1 = length xs then Some r else next_of xs i)"
  by (auto simp: next_of_def nth_append)

lemma prev_of_append:
  "i < length xs \<Longrightarrow> prev_of (xs @ [r]) i = (if i = 0 then r else prev_of xs i)"
  by (auto simp: prev_of_def nth_append)

lemma linked_added:
  assumes "linked m xs"
  defines "r \<equiv> requests m"
  shows "linked (added nm (appended r (hd (xs @ [r])) (last (r # xs)) node (nodes m)) (hd (xs @ [r])) m) (xs @ [r])"
proof -
  let ?m = "added nm (appended r (hd (xs @ [r])) (last (r # xs)) node (nodes m)) (hd (xs @ [r])) m"
  have d: "distinct (xs @ [r])" "r \<notin> set xs" using assms linked_new[OF assms(1)] by (auto simp: linked_def)
  have "\<exists>n. nodes ?m ((xs @ [r]) ! i) = Some n \<and> le_next n = next_of (xs @ [r]) i \<and> le_prev n = Some (prev_of (xs @ [r]) i)" if i: "i < length (xs @ [r])" for i
  proof (cases "i = length xs")
    case True
    then show ?thesis by (auto simp: added_def appended_def next_of_def prev_of_def nth_append last_conv_nth)
  next
    case False
    then have il: "i < length xs" using i by simp
    then obtain n where n: "nodes m (xs ! i) = Some n" "le_next n = next_of xs i" "le_prev n = Some (prev_of xs i)"
      using assms(1) by (auto simp: linked_def)
    have "xs ! i \<noteq> r" using il d(2) nth_mem by metis
    moreover have "xs ! i = last (r # xs) \<longleftrightarrow> i + 1 = length xs"
    proof -
      have "last (r # xs) = xs ! (length xs - 1)" using il by (cases xs) (auto simp: last_conv_nth)
      then show ?thesis using il d(1) by (auto simp: nth_eq_iff_index_eq)
    qed
    moreover have "xs ! i = hd (xs @ [r]) \<longleftrightarrow> i = 0"
    proof -
      have "hd (xs @ [r]) = xs ! 0" using il by (cases xs) auto
      then show ?thesis using il d(1) by (metis distinct_append gr_zeroI length_greater_0_conv list.size(3) not_less0 nth_eq_iff_index_eq)
    qed
    ultimately show ?thesis using n il next_of_append[OF il, of r] prev_of_append[OF il, of r]
      by (simp add: added_def appended_def nth_append)
  qed
  moreover have "p < requests ?m" if "nodes ?m p = Some n" for p n
    using that assms(1) by (auto simp: added_def appended_def linked_def r_def less_Suc_eq split: if_splits)
  ultimately show ?thesis unfolding linked_def using d by (auto simp: added_def)
qed

lemma parts_added:
  assumes "linked m xs"
  defines "r \<equiv> requests m"
  shows "parts (added nm (appended r f l node (nodes m)) g m) (xs @ [r]) = parts m xs @ [part_of node]"
proof -
  have "r \<notin> set xs" using linked_new[OF assms(1)] by (simp add: r_def)
  then show ?thesis
    by (auto simp: parts_def added_def appended_def part_of_def split: option.split)
qed

text \<open>\<^verbatim>\<open>add_mtd_device\<close> appends to the list.\<close>

lemma add_appends:
  assumes "linked m xs" "granted m (requests m)"
  shows "\<exists>m'. add_mtd_device dev offset sz (Some nm) m = Some (0, m') \<and> linked m' (xs @ [requests m]) \<and>
    parts m' (xs @ [requests m]) = parts m xs @ [(dev, mtdidx m, offset, if sz \<noteq> 0 then sz else dev_size (devs m dev) - offset, nm)] \<and>
    mtdidx m' = mtdidx m + 1 \<and> requests m' = requests m + 1 \<and> devs m' = devs m \<and> granted m' = granted m \<and>
    mtd_offset m' = mtd_offset m \<and> this_part m' = this_part m"
proof -
  have "part_of (new_node dev offset sz (Some nm) m) = (dev, mtdidx m, offset, if sz \<noteq> 0 then sz else dev_size (devs m dev) - offset, nm)"
    by (simp add: part_of_def new_node_def)
  then show ?thesis unfolding added_state[OF assms] using linked_added[OF assms(1), of nm] parts_added[OF assms(1), of nm]
    by (auto simp: added_def)
qed

section \<open>Searching and removing\<close>

lemma foreach_find:
  assumes "linked m xs"
  shows "ys = drop i xs \<Longrightarrow> i \<le> length xs \<Longrightarrow>
    LIST_FOREACH P (if ys = [] then None else Some (hd ys)) m = Some (List.find (\<lambda>p. P (the (nodes m p))) ys)"
proof (induction ys arbitrary: i)
  case Nil
  then show ?case by (simp add: LIST_FOREACH.simps)
next
  case (Cons y ys)
  then have i: "i < length xs" "y = xs ! i" "ys = drop (i + 1) xs"
    by (metis drop_eq_Nil2 list.distinct(1) not_le_imp_less, metis Cons.prems(1) hd_drop_conv_nth drop_eq_Nil2 list.distinct(1) list.sel(1) not_le_imp_less,
        metis Cons.prems(1) drop_Suc list.sel(3) tl_drop Suc_eq_plus1)
  obtain n where n: "nodes m y = Some n" "le_next n = next_of xs i" using assms i by (auto simp: linked_def)
  have "le_next n = (if ys = [] then None else Some (hd ys))" using n(2) i by (auto simp: next_of_def hd_drop_conv_nth)
  then show ?case using Cons.IH[OF i(3)] i(1) n(1) by (subst LIST_FOREACH.simps) simp
qed

lemma foreach_list: "linked m xs \<Longrightarrow> LIST_FOREACH P (lh_first m) m = Some (List.find (\<lambda>p. P (the (nodes m p))) xs)"
  using foreach_find[of m xs xs 0 P] by (simp add: linked_def)

lemma del_first_dangles:
  assumes "linked m (x # xs)" "nodes m x = Some n" "mtd n = dev" "refs n = 0"
  shows "\<exists>m'. del_mtd_device dev m = Some (0, m') \<and> lh_first m' = Some x \<and> nodes m' x = None \<and>
    requests m' = requests m \<and> granted m' = granted m"
proof -
  have f: "LIST_FOREACH (\<lambda>n. mtd n = dev) (lh_first m) m = Some (Some x)" using foreach_list[OF assms(1)] assms by simp
  have h: "lh_first m = Some x" "le_prev n = Some (last (x # xs))" using linked_first[OF assms(1)] assms(2) by auto
  have ne: "le_next n = next_of (x # xs) 0" using assms(1,2) by (auto simp: linked_def dest: spec[of _ 0])
  have "last (x # xs) \<in> set (x # xs)" by (rule last_in_set) simp
  then obtain nl where l: "nodes m (last (x # xs)) = Some nl" using linked_alloc[OF assms(1)] by blast
  show ?thesis
  proof (cases xs)
    case Nil
    then show ?thesis using f h ne l assms by (auto simp: del_mtd_device_def LIST_REMOVE_def upd_def next_of_def)
  next
    case (Cons y ys)
    have "x \<noteq> y" using assms(1) Cons by (simp add: linked_def)
    have "y \<in> set (x # xs)" using Cons by simp
    then obtain ny where "nodes m y = Some ny" using linked_alloc[OF assms(1)] by blast
    then show ?thesis using f h ne l assms Cons \<open>x \<noteq> y\<close>
      by (auto simp: del_mtd_device_def LIST_REMOVE_def upd_def next_of_def split: option.splits)
  qed
qed

lemma add_after_dangle:
  assumes "lh_first m = Some x" "nodes m x = None" "granted m (requests m)" "requests m \<noteq> x"
  shows "add_mtd_device dev offset sz nm m = None"
  using assms by (simp add: add_mtd_device_def malloc_block_def Let_def)

end
