(* ===== verification/Mtd_Parse.thy ===== *)
theory Mtd_Parse
  imports Mtd_Inv "HOL-Library.Sublist"
begin

unbundle bit_operations_syntax

text \<open>
  A reference reading of the \<^verbatim>\<open>mtdparts\<close> text: a list of partitions with a size, an optional offset
  and an optional name, written as the documentation of the format writes them, and the place
  each of them takes on the device. The lemmas show that \<^verbatim>\<open>newpart\<close> and the loop of
  \<^verbatim>\<open>mtdpart_setup_real\<close> register exactly these partitions.
\<close>

section \<open>The text and its meaning\<close>

type_synonym amount = "nat \<times> nat"

definition amount_text :: "amount \<Rightarrow> cstring" where
  "amount_text a = digits 10 (fst a) @ unit_char (snd a)"

definition amount_val :: "amount \<Rightarrow> nat" where
  "amount_val a = fst a * 1024 ^ snd a"

definition amount_ok :: "amount \<Rightarrow> bool" where
  "amount_ok a \<longleftrightarrow> snd a \<le> 3 \<and> amount_val a < 4294967296"

text \<open>No size is \<^verbatim>\<open>-\<close>, the rest of the device.\<close>

record spec =
  psize :: "amount option"
  poffset :: "amount option"
  pname :: "cstring option"

definition offset_text :: "amount option \<Rightarrow> cstring" where
  "offset_text off = (case off of None \<Rightarrow> [] | Some a \<Rightarrow> 0x40 # amount_text a)"

definition name_text :: "cstring option \<Rightarrow> cstring" where
  "name_text nm = (case nm of None \<Rightarrow> [] | Some n \<Rightarrow> 0x28 # n @ [0x29])"

definition spec_text :: "spec \<Rightarrow> cstring" where
  "spec_text p = (case psize p of None \<Rightarrow> [0x2d] | Some a \<Rightarrow> amount_text a) @ offset_text (poffset p) @ name_text (pname p)"

definition name_ok :: "cstring \<Rightarrow> bool" where
  "name_ok nm \<longleftrightarrow> cstring_ok nm \<and> 0x29 \<notin> set nm \<and> length nm < 200"

definition spec_ok :: "spec \<Rightarrow> bool" where
  "spec_ok p \<longleftrightarrow>
    (case psize p of None \<Rightarrow> True | Some a \<Rightarrow> amount_ok a \<and> 4096 \<le> amount_val a \<and> amount_val a \<noteq> 4294967295) \<and>
    (case poffset p of None \<Rightarrow> True | Some a \<Rightarrow> amount_ok a) \<and>
    (case pname p of None \<Rightarrow> True | Some nm \<Rightarrow> name_ok nm)"

definition spec_offset :: "u32 \<Rightarrow> spec \<Rightarrow> u32" where
  "spec_offset off p = (case poffset p of None \<Rightarrow> off | Some a \<Rightarrow> of_nat (amount_val a))"

definition spec_size :: "u32 \<Rightarrow> u32 \<Rightarrow> spec \<Rightarrow> u32" where
  "spec_size dsize off p = (case psize p of None \<Rightarrow> dsize - spec_offset off p | Some a \<Rightarrow> of_nat (amount_val a))"

definition spec_name :: "u32 \<Rightarrow> spec \<Rightarrow> cstring" where
  "spec_name k p = (case pname p of None \<Rightarrow> map chr ''mtd'' @ signed_text (sint k) | Some nm \<Rightarrow> nm)"

fun layout :: "u32 \<Rightarrow> u32 \<Rightarrow> u32 \<Rightarrow> spec list \<Rightarrow> (u32 \<times> u32 \<times> cstring) list" where
  "layout dsize off k [] = []"
| "layout dsize off k (p # ps) =
    (spec_offset off p, spec_size dsize off p, spec_name k p) # layout dsize (spec_offset off p + spec_size dsize off p) (k + 1) ps"

fun specs_text :: "spec list \<Rightarrow> cstring" where
  "specs_text [] = []"
| "specs_text [p] = spec_text p"
| "specs_text (p # ps) = spec_text p @ 0x2c # specs_text ps"

text \<open>The text after a partition: neither a letter or digit nor one of \<^verbatim>\<open>@\<close> and \<^verbatim>\<open>(\<close>.\<close>

definition ends :: "cstring \<Rightarrow> bool" where
  "ends rest \<longleftrightarrow> rest = [] \<or> \<not> isdigit (hd rest) \<and> \<not> isalpha (hd rest) \<and> hd rest \<noteq> 0x40 \<and> hd rest \<noteq> 0x28"

section \<open>Sizes and offsets\<close>

lemma amount_memparse:
  assumes "amount_ok a" "rest = [] \<or> \<not> isdigit (hd rest) \<and> \<not> isalpha (hd rest)"
  shows "memparse (amount_text a @ rest) = (of_nat (amount_val a), rest)"
proof -
  have "fst a * 1 \<le> amount_val a" unfolding amount_val_def by (intro mult_le_mono2) simp
  then have "fst a < 4294967296" using assms(1) by (simp add: amount_ok_def)
  then show ?thesis using memparse_size[of "fst a" "snd a" rest] assms by (simp add: amount_ok_def amount_text_def amount_val_def)
qed

lemma amount_first: "at (amount_text a @ rest) \<noteq> 0x2d"
proof -
  have d: "\<forall>c\<in>set (digits 10 (fst a)). isdigit c" "digits 10 (fst a) \<noteq> []" using digits_10[of "fst a"] by blast+
  then obtain c cs where c: "digits 10 (fst a) = c # cs" "isdigit c" by (cases "digits 10 (fst a)") auto
  have "\<not> isdigit 0x2d" by (simp add: isdigit_def)
  then have "c \<noteq> 0x2d" using c(2) by auto
  then show ?thesis by (simp add: amount_text_def c)
qed

lemma ucast_amount: "amount_val a < 4294967296 \<Longrightarrow> (ucast (of_nat (amount_val a) :: u64) :: u32) = of_nat (amount_val a)"
  by (simp add: unsigned_of_nat take_bit_nat_eq_self)

lemma unat_amount: "amount_val a < 4294967296 \<Longrightarrow> unat (of_nat (amount_val a) :: u32) = amount_val a"
  by (simp add: unat_of_nat)

section \<open>Names\<close>

lemma string_in_pad: "cstring_ok nm \<Longrightarrow> string_in (nm @ 0 # rest) = Some nm"
proof -
  assume "cstring_ok nm"
  then have "takeWhile (\<lambda>c. c \<noteq> 0) (nm @ 0 # rest) = nm" by (subst takeWhile_append2) (auto simp: cstring_ok_def)
  then show ?thesis by (simp add: string_in_def)
qed

lemma name_copied:
  assumes "name_ok nm"
  shows "\<exists>b. strncpy 0 (Some (nm @ rest)) (length nm) (replicate 200 0) = Some b \<and> string_in b = Some nm"
proof -
  have n: "length nm < 200" "cstring_ok nm" using assms by (simp_all add: name_ok_def)
  have "strncpy 0 (Some (nm @ rest)) (length nm) (replicate 200 0) = Some (nm @ replicate (200 - length nm) 0)"
    using n strncpy_loop_eq[of 0 "length nm" "replicate 200 0" "nm @ rest"] by (simp add: strncpy_def)
  moreover have "replicate (200 - length nm) 0 = (0 :: u8) # replicate (199 - length nm) 0"
    using n(1) by (simp add: Suc_diff_Suc[symmetric] flip: replicate_Suc)
  ultimately show ?thesis using string_in_pad[OF n(2)] by simp
qed

lemma digits_length: "n < 10 ^ Suc k \<Longrightarrow> length (digits 10 n) \<le> Suc k"
proof (induction k arbitrary: n)
  case 0
  then show ?case by (subst digits.simps) simp
next
  case (Suc k)
  then show ?case using Suc.IH[of "n div 10"] by (subst digits.simps) (simp add: less_mult_imp_div_less)
qed

lemma signed_text_length: "length (signed_text (sint (v :: u32))) \<le> 11"
proof -
  have "\<bar>sint v\<bar> \<le> 2147483648" using sint_range_size[of v] by (auto simp: word_size abs_le_iff)
  then have "nat \<bar>sint v\<bar> < 10 ^ Suc 9" by simp
  from digits_length[OF this] show ?thesis by (auto simp: signed_text_def)
qed

lemma default_name:
  "\<exists>r b. sprintf (\<lambda>(x :: unit) c w p. []) 0 (map chr ''mtd%d'') [IntArg k] (replicate 200 0) = Some (r, b) \<and>
    string_in b = Some (map chr ''mtd'' @ signed_text (sint k))"
proof -
  let ?is = "[Lit 0x6d, Lit 0x74, Lit 0x64, Dir FMT_RJUST [] [] (Num False 0x64)]"
  let ?out = "map chr ''mtd'' @ signed_text (sint k)"
  have t: "concat (map item_chars ?is) = map chr ''mtd%d''" by (simp add: chr_def)
  have ok: "\<forall>i\<in>set ?is. item_ok i" by (simp add: number_ok_def isdigit_def dec_def)
  have "\<exists>m. render 0 ?is ([IntArg k] :: unit arg list) = Some (?out, m) \<and> m \<le> 200"
    using signed_text_length[of k] by (auto simp: num_text_def dec_def chr_def)
  then obtain m where "render 0 ?is ([IntArg k] :: unit arg list) = Some (?out, m)" "m \<le> length (replicate 200 (0 :: u8))" by auto
  from vs_loop_render[OF ok this, of "\<lambda>(x :: unit) c w p. []"]
  obtain b ap where b: "vs_loop (\<lambda>(x :: unit) c w p. []) (map chr ''mtd%d'') (replicate 200 0) 0 [IntArg k] = Some (b, length ?out, ap)"
    "take (length ?out + 1) b = ?out @ [0]" unfolding t by auto
  have "b = ?out @ 0 # drop (length ?out + 1) b" using b(2) by (metis append.assoc append_Cons append_Nil append_take_drop_id)
  moreover have "cstring_ok ?out" using num_text_ok[where c = "0x64" and v = k] by (auto simp: cstring_ok_def num_text_def chr_def)
  ultimately have "string_in b = Some ?out" by (metis string_in_pad)
  then show ?thesis using b(1) by (simp add: sprintf_def vsprintf_def)
qed

section \<open>One partition\<close>

text \<open>What \<^verbatim>\<open>newpart\<close> does once the text of the partition is read.\<close>

definition register :: "nat \<Rightarrow> u32 \<Rightarrow> u32 \<Rightarrow> cstring \<Rightarrow> cstring \<Rightarrow> mtds \<Rightarrow> (cstring option \<times> mtds) option" where
  "register dev off sz nm rest m =
    do { (_, m) \<leftarrow> add_mtd_device dev off sz (Some nm) (m\<lparr>mtd_offset := off, this_part := this_part m + 1\<rparr>);
         if at rest = 0x2c then Some (Some rest, m\<lparr>mtd_offset := mtd_offset m + sz\<rparr>) else Some (None, m) }"

lemma not_alnum: "\<not> isdigit 0x40 \<and> \<not> isalpha 0x40" "\<not> isdigit 0x28 \<and> \<not> isalpha 0x28"
  by (simp_all add: isdigit_def isalpha_def isupper_def)

lemma name_stop: "ends rest \<Longrightarrow> name_text nm @ rest = [] \<or> \<not> isdigit (hd (name_text nm @ rest)) \<and> \<not> isalpha (hd (name_text nm @ rest)) \<and> hd (name_text nm @ rest) \<noteq> 0x40"
  using not_alnum by (cases nm) (auto simp: name_text_def ends_def)

lemma offset_stop: "ends rest \<Longrightarrow> offset_text off @ name_text nm @ rest = [] \<or>
    \<not> isdigit (hd (offset_text off @ name_text nm @ rest)) \<and> \<not> isalpha (hd (offset_text off @ name_text nm @ rest))"
  using not_alnum name_stop[of rest nm] by (cases off) (auto simp: offset_text_def)

lemma read_size:
  assumes "spec_ok p" "ends rest"
  defines "s \<equiv> offset_text (poffset p) @ name_text (pname p) @ rest"
  shows "fetch_size (spec_text p @ rest) =
    ((case psize p of None \<Rightarrow> SIZE_REMAINING | Some a \<Rightarrow> of_nat (amount_val a)), s, True)"
proof (cases "psize p")
  case None
  then show ?thesis by (simp add: spec_text_def s_def fetch_size_def)
next
  case (Some a)
  then have a: "amount_ok a" "4096 \<le> amount_val a" "amount_val a < 4294967296" using assms(1) by (simp_all add: spec_ok_def amount_ok_def)
  have "memparse (spec_text p @ rest) = (of_nat (amount_val a), s)"
    using amount_memparse[OF a(1) offset_stop[OF assms(2), of "poffset p" "pname p"]] Some by (simp add: spec_text_def s_def)
  moreover have "at (spec_text p @ rest) \<noteq> 0x2d" using amount_first Some by (simp add: spec_text_def)
  moreover have "\<not> (of_nat (amount_val a) :: u32) < PAGE_SIZE" using a(2) unat_amount[OF a(3)] by (simp add: PAGE_SIZE_def word_less_nat_alt)
  ultimately show ?thesis using Some ucast_amount[OF a(3)] by (simp add: fetch_size_def)
qed

lemma read_offset:
  assumes "spec_ok p" "ends rest"
  defines "s \<equiv> name_text (pname p) @ rest"
  shows "fetch_offset (offset_text (poffset p) @ s) m = (m\<lparr>mtd_offset := spec_offset (mtd_offset m) p\<rparr>, s)"
proof (cases "poffset p")
  case None
  have "at s \<noteq> 0x40" using name_stop[OF assms(2), of "pname p"] by (cases s) (auto simp: s_def[symmetric])
  then show ?thesis using None by (simp add: fetch_offset_def offset_text_def spec_offset_def)
next
  case (Some a)
  then have a: "amount_ok a" "amount_val a < 4294967296" using assms(1) by (simp_all add: spec_ok_def amount_ok_def)
  have "memparse (amount_text a @ s) = (of_nat (amount_val a), s)" using name_stop[OF assms(2), of "pname p"] by (intro amount_memparse[OF a(1)]) (auto simp: s_def)
  then show ?thesis using Some ucast_amount[OF a(2)] by (simp add: fetch_offset_def offset_text_def spec_offset_def)
qed

lemma read_name:
  assumes "spec_ok p" "ends rest"
  defines "s \<equiv> name_text (pname p) @ rest"
  shows "\<exists>b. fetch_name s k = Some (Some (b, rest)) \<and> string_in b = Some (spec_name k p)"
proof (cases "pname p")
  case None
  then have "at s \<noteq> 0x28" using assms(2) by (cases rest) (auto simp: s_def name_text_def ends_def)
  then show ?thesis using None default_name[of k] by (auto simp: fetch_name_def s_def name_text_def spec_name_def)
next
  case (Some nm)
  then have nm: "name_ok nm" using assms(1) by (simp add: spec_ok_def)
  then have "0x29 \<notin> set nm" by (simp add: name_ok_def)
  then have "dropWhile (\<lambda>x. x \<noteq> 0x29) (nm @ 0x29 # rest) = 0x29 # rest" by (subst dropWhile_append2) auto
  then have c: "strchr (nm @ 0x29 # rest) (schar 0x29) = Some (0x29 # rest)" by (simp add: strchr_dropWhile)
  obtain b where "strncpy 0 (Some (nm @ 0x29 # rest)) (length nm) (replicate 200 0) = Some b" "string_in b = Some nm" using name_copied[OF nm] by blast
  then show ?thesis using Some c by (simp add: fetch_name_def s_def name_text_def spec_name_def)
qed

lemma newpart_spec:
  assumes "spec_ok p" "ends rest"
  shows "newpart dev (spec_text p @ rest) m =
    register dev (spec_offset (mtd_offset m) p) (spec_size (dev_size (devs m dev)) (mtd_offset m) p) (spec_name (this_part m) p) rest m"
proof -
  let ?m = "m\<lparr>mtd_offset := spec_offset (mtd_offset m) p\<rparr>"
  let ?z = "case psize p of None \<Rightarrow> SIZE_REMAINING | Some a \<Rightarrow> of_nat (amount_val a)"
  have sz: "(if ?z = SIZE_REMAINING then dev_size (devs ?m dev) - mtd_offset ?m else ?z) = spec_size (dev_size (devs m dev)) (mtd_offset m) p"
  proof (cases "psize p")
    case (Some a)
    then have a: "amount_val a < 4294967296" "amount_val a \<noteq> 4294967295" using assms(1) by (simp_all add: spec_ok_def amount_ok_def)
    then have "unat (of_nat (amount_val a) :: u32) \<noteq> unat SIZE_REMAINING" by (simp add: unat_amount SIZE_REMAINING_def)
    then have "(of_nat (amount_val a) :: u32) \<noteq> SIZE_REMAINING" by metis
    then show ?thesis using Some by (simp add: spec_size_def)
  qed (simp add: spec_size_def)
  obtain b where n: "fetch_name (name_text (pname p) @ rest) (this_part ?m) = Some (Some (b, rest))" "string_in b = Some (spec_name (this_part m) p)"
    using read_name[OF assms, of "this_part ?m"] by auto
  show ?thesis unfolding newpart_def read_size[OF assms] prod.case bool.case read_offset[OF assms] n(1) using sz n(2)
    by (simp add: register_def Let_def)
qed

section \<open>The whole text\<close>

fun numbered :: "nat \<Rightarrow> u32 \<Rightarrow> (u32 \<times> u32 \<times> cstring) list \<Rightarrow> (nat \<times> u32 \<times> u32 \<times> u32 \<times> cstring) list" where
  "numbered dev i [] = []"
| "numbered dev i ((off, sz, nm) # ps) = (dev, i, off, sz, nm) # numbered dev (i + 1) ps"

lemma linked_cong:
  "nodes m' = nodes m \<Longrightarrow> lh_first m' = lh_first m \<Longrightarrow> requests m' = requests m \<Longrightarrow> linked m' xs = linked m xs"
  by (simp add: linked_def)

lemma parts_cong: "nodes m' = nodes m \<Longrightarrow> parts m' xs = parts m xs"
  by (simp add: parts_def)

lemma spec_size_default: "spec_ok p \<Longrightarrow> (if spec_size d off p \<noteq> 0 then spec_size d off p else d - spec_offset off p) = spec_size d off p"
proof (cases "psize p")
  case (Some a)
  moreover assume "spec_ok p"
  ultimately have "unat (of_nat (amount_val a) :: u32) \<noteq> 0" by (auto simp: spec_ok_def amount_ok_def unat_amount)
  then have "(of_nat (amount_val a) :: u32) \<noteq> 0" by auto
  then show ?thesis using Some by (simp add: spec_size_def)
qed (auto simp: spec_size_def)

lemma register_appends:
  fixes dev :: nat
  assumes "linked m xs" "granted m (requests m)" "spec_ok p"
  defines "off \<equiv> spec_offset (mtd_offset m) p" and "sz \<equiv> spec_size (dev_size (devs m dev)) (mtd_offset m) p"
  shows "\<exists>m'. register dev off sz (spec_name (this_part m) p) rest m = Some (if at rest = 0x2c then Some rest else None, m') \<and>
    linked m' (xs @ [requests m]) \<and> parts m' (xs @ [requests m]) = parts m xs @ [(dev, mtdidx m, off, sz, spec_name (this_part m) p)] \<and>
    mtdidx m' = mtdidx m + 1 \<and> requests m' = requests m + 1 \<and> devs m' = devs m \<and> granted m' = granted m \<and>
    (at rest = 0x2c \<longrightarrow> mtd_offset m' = off + sz) \<and> this_part m' = this_part m + 1"
proof -
  let ?m = "m\<lparr>mtd_offset := off, this_part := this_part m + 1\<rparr>" and ?xs = "xs @ [requests m]"
  have l: "linked ?m xs" using assms(1) by (subst linked_cong[of _ m]) simp_all
  have g: "granted ?m (requests ?m)" using assms(2) by simp
  have pm: "parts ?m xs = parts m xs" by (rule parts_cong) simp
  have dz: "(if sz \<noteq> 0 then sz else dev_size (devs ?m dev) - off) = sz"
    using spec_size_default[OF assms(3), of "dev_size (devs m dev)" "mtd_offset m"] by (auto simp: off_def sz_def split: if_splits)
  obtain m' where m': "add_mtd_device dev off sz (Some (spec_name (this_part m) p)) ?m = Some (0, m')" "linked m' ?xs"
    "parts m' ?xs = parts m xs @ [(dev, mtdidx m, off, sz, spec_name (this_part m) p)]"
    "mtdidx m' = mtdidx m + 1" "requests m' = requests m + 1" "devs m' = devs m" "granted m' = granted m"
    "mtd_offset m' = off" "this_part m' = this_part m + 1"
    using add_appends[OF l g, of dev off sz "spec_name (this_part m) p"] pm dz by auto
  show ?thesis
  proof (cases "at rest = 0x2c")
    case True
    let ?m' = "m'\<lparr>mtd_offset := off + sz\<rparr>"
    have "register dev off sz (spec_name (this_part m) p) rest m = Some (Some rest, ?m')" using m'(1,8) True by (simp add: register_def)
    moreover have "linked ?m' ?xs" using m'(2) by (subst linked_cong[of _ m']) simp_all
    moreover have "parts ?m' ?xs = parts m xs @ [(dev, mtdidx m, off, sz, spec_name (this_part m) p)]" using m'(3) by (subst parts_cong[of _ m']) simp_all
    ultimately show ?thesis using m' True by (intro exI[of _ ?m']) simp
  next
    case False
    then show ?thesis using m' by (intro exI[of _ m']) (simp add: register_def)
  qed
qed

lemma newparts_specs:
  assumes "ends tail" "at tail \<noteq> 0x2c"
  shows "ps \<noteq> [] \<Longrightarrow> \<forall>p\<in>set ps. spec_ok p \<Longrightarrow> linked m xs \<Longrightarrow> \<forall>i. granted m i \<Longrightarrow>
    \<exists>m' ys. newparts dev (c # specs_text ps @ tail) m = Some m' \<and> linked m' (xs @ ys) \<and>
      parts m' (xs @ ys) = parts m xs @ numbered dev (mtdidx m) (layout (dev_size (devs m dev)) (mtd_offset m) (this_part m) ps)"
proof (induction ps arbitrary: m xs c rule: specs_text.induct)
  case (2 p)
  obtain m' where m': "newpart dev (spec_text p @ tail) m = Some (None, m')" "linked m' (xs @ [requests m])"
    "parts m' (xs @ [requests m]) = parts m xs @
      [(dev, mtdidx m, spec_offset (mtd_offset m) p, spec_size (dev_size (devs m dev)) (mtd_offset m) p, spec_name (this_part m) p)]"
    using register_appends[of m xs p dev tail] newpart_spec[of p tail dev m] 2 assms by auto
  then show ?case by (subst newparts.simps) (auto intro!: exI[of _ m'] exI[of _ "[requests m]"])
next
  case (3 p q ps)
  let ?rest = "0x2c # specs_text (q # ps) @ tail"
  have "ends ?rest" by (simp add: ends_def isdigit_def isalpha_def isupper_def)
  then obtain m' where m': "newpart dev (spec_text p @ ?rest) m = Some (Some ?rest, m')" "linked m' (xs @ [requests m])"
    "parts m' (xs @ [requests m]) = parts m xs @
      [(dev, mtdidx m, spec_offset (mtd_offset m) p, spec_size (dev_size (devs m dev)) (mtd_offset m) p, spec_name (this_part m) p)]"
    "mtdidx m' = mtdidx m + 1" "devs m' = devs m" "granted m' = granted m" "this_part m' = this_part m + 1"
    "mtd_offset m' = spec_offset (mtd_offset m) p + spec_size (dev_size (devs m dev)) (mtd_offset m) p"
    using register_appends[of m xs p dev ?rest] newpart_spec[of p ?rest dev m] 3(3,4,5) by auto
  obtain m'' ys where "newparts dev ?rest m' = Some m''" "linked m'' ((xs @ [requests m]) @ ys)"
    "parts m'' ((xs @ [requests m]) @ ys) = parts m' (xs @ [requests m]) @
      numbered dev (mtdidx m') (layout (dev_size (devs m' dev)) (mtd_offset m') (this_part m') (q # ps))"
    using 3(1)[of m' "xs @ [requests m]" "0x2c"] m'(2,6) 3(3,5) by auto
  then show ?case using m' by (subst newparts.simps) (auto intro!: exI[of _ m''] exI[of _ "requests m # ys"])
qed simp

lemma setup_specs:
  assumes "0x3a \<notin> set mtd_id"
  shows "mtdpart_setup_real dev (mtd_id @ 0x3a # s) m = newparts dev (0x3a # s) m"
proof -
  have "dropWhile (\<lambda>x. x \<noteq> 0x3a) (mtd_id @ 0x3a # s) = 0x3a # s" using assms by (subst dropWhile_append2) auto
  then show ?thesis by (simp add: mtdpart_setup_real_def strchr_dropWhile)
qed

section \<open>Any text\<close>

text \<open>Every name in brackets leaves room for its terminator in the buffer of 200 bytes.\<close>

definition names_short :: "cstring \<Rightarrow> bool" where
  "names_short s \<longleftrightarrow> (\<forall>pre nm post. s = pre @ 0x28 # nm @ 0x29 # post \<and> 0x29 \<notin> set nm \<longrightarrow> length nm < 200)"

lemma names_short_suffix: "names_short s \<Longrightarrow> suffix t s \<Longrightarrow> names_short t"
  unfolding names_short_def suffix_def by (metis append.assoc)

lemma suffix_tl': "suffix s t \<Longrightarrow> suffix (tl s) t"
  by (meson suffix_order.trans suffix_tl)

lemma strtoul_loop_suffix: "strtoul_loop s b r v = (r', v', t) \<Longrightarrow> suffix t s"
proof (induction s b r v rule: strtoul_loop.induct)
  case (2 c s b r v)
  then show ?case by (auto simp: Let_def suffix_Cons split: option.splits if_splits)
qed simp

lemma suffix_from: "suffix t (tl s) \<Longrightarrow> suffix t s" "suffix t (dropWhile P s) \<Longrightarrow> suffix t s"
  by (meson suffix_order.trans suffix_tl, meson suffix_order.trans suffix_dropWhile)

lemma strtoul_suffix: "strtoul s b = (r, t, v) \<Longrightarrow> suffix t s"
  unfolding strtoul_def by (auto simp: Let_def dest!: strtoul_loop_suffix suffix_from split: prod.splits if_splits)

lemma memparse_suffix: "memparse s = (r, t) \<Longrightarrow> suffix t s"
  using strtoul_suffix[of s 0] by (auto simp: memparse_def Let_def suffix_tl' split: prod.splits if_splits)

lemma add_any:
  assumes "linked m xs"
  shows "\<exists>m' ys. add_mtd_device dev off sz (Some nm) m = Some (0, m') \<and> linked m' (xs @ ys)"
proof (cases "granted m (requests m)")
  case True
  then show ?thesis using add_appends[OF assms] by blast
next
  case False
  then show ?thesis using assms by (auto simp: add_mtd_device_def malloc_block_def linked_def less_Suc_eq intro!: exI[of _ "[]"])
qed

lemma fetch_size_suffix: "fetch_size s = (sz, t, ok) \<Longrightarrow> suffix t s"
  using memparse_suffix[of s] by (auto simp: fetch_size_def Let_def suffix_tl split: if_splits prod.splits)

lemma fetch_offset_suffix:
  "fetch_offset s m = (m', t) \<Longrightarrow> suffix t s \<and> nodes m' = nodes m \<and> lh_first m' = lh_first m \<and> requests m' = requests m"
  using memparse_suffix[of "tl s"] suffix_from(1) by (auto simp: fetch_offset_def split: if_splits prod.splits)

lemma fetch_name_any:
  assumes "names_short s"
  shows "fetch_name s k = Some None \<or> (\<exists>b t nm. fetch_name s k = Some (Some (b, t)) \<and> string_in b = Some nm \<and> suffix t s)"
proof (cases "at s = 0x28")
  case False
  then show ?thesis using default_name[of k] by (auto simp: fetch_name_def)
next
  case True
  then obtain u where s: "s = 0x28 # u" by (cases s) auto
  show ?thesis
  proof (cases "0x29 \<in> set u")
    case False
    then show ?thesis using s by (simp add: fetch_name_def strchr_dropWhile)
  next
    case True
    then obtain nm post where u: "u = nm @ 0x29 # post" "0x29 \<notin> set nm" by (metis split_list_first)
    then have "length nm < 200" using assms s unfolding names_short_def by (metis append_Nil)
    moreover have "dropWhile (\<lambda>x. x \<noteq> 0x29) (nm @ 0x29 # post) = 0x29 # post" using u(2) by (subst dropWhile_append2) auto
    moreover have "strncpy 0 (Some (nm @ 0x29 # post)) (length nm) (replicate 200 0) = Some (nm @ replicate (200 - length nm) 0)"
      if "length nm < 200" using that strncpy_loop_eq[of 0 "length nm" "replicate 200 0" "nm @ 0x29 # post"] by (simp add: strncpy_def)
    ultimately have "fetch_name s k = Some (Some (nm @ replicate (200 - length nm) 0, post))" "0 \<in> set (nm @ replicate (200 - length nm) 0)"
      using s u(1) by (simp_all add: fetch_name_def strchr_dropWhile)
    moreover have "suffix post s" unfolding s u(1) suffix_def by (intro exI[of _ "0x28 # nm @ [0x29]"]) simp
    ultimately show ?thesis by (simp add: string_in_def)
  qed
qed

lemma newpart_any:
  assumes "linked m xs" "names_short s"
  shows "\<exists>r m' ys. newpart dev s m = Some (r, m') \<and> linked m' (xs @ ys) \<and> (\<forall>t. r = Some t \<longrightarrow> suffix t s \<and> t \<noteq> [])"
proof -
  obtain sz s1 ok where 1: "fetch_size s = (sz, s1, ok)" by (metis prod_cases3)
  obtain m2 s2 where 2: "fetch_offset s1 m = (m2, s2)" by (metis surj_pair)
  have suf: "suffix s2 s" using fetch_size_suffix[OF 1] fetch_offset_suffix[OF 2] suffix_order.trans by blast
  have l2: "linked m2 xs" using fetch_offset_suffix[OF 2] assms(1) by (auto simp: linked_def)
  consider "\<not> ok" | "ok" "fetch_name s2 (this_part m2) = Some None"
    | b s3 nm where "ok" "fetch_name s2 (this_part m2) = Some (Some (b, s3))" "string_in b = Some nm" "suffix s3 s2"
    using fetch_name_any[OF names_short_suffix[OF assms(2) suf], of "this_part m2"] by blast
  then show ?thesis
  proof cases
    case 3
    let ?sz = "if sz = SIZE_REMAINING then dev_size (devs m2 dev) - mtd_offset m2 else sz" and ?m = "m2\<lparr>this_part := this_part m2 + 1\<rparr>"
    have "linked ?m xs" using l2 by (subst linked_cong[of _ m2]) simp_all
    then obtain m' ys where m': "add_mtd_device dev (mtd_offset ?m) ?sz (Some nm) ?m = Some (0, m')" "linked m' (xs @ ys)" using add_any by blast
    have "linked (m'\<lparr>mtd_offset := x\<rparr>) (xs @ ys)" for x using m'(2) by (subst linked_cong[of _ m']) simp_all
    moreover have "newpart dev s m = (if at s3 = 0x2c then Some (Some s3, m'\<lparr>mtd_offset := mtd_offset m' + ?sz\<rparr>) else Some (None, m'))"
      using 1 2 3(1,2,3) m'(1) by (simp add: newpart_def Let_def)
    moreover have "suffix s3 s" using 3(4) suf suffix_order.trans by blast
    moreover have "at s3 = 0x2c \<Longrightarrow> s3 \<noteq> []" by auto
    ultimately show ?thesis using m'(2) by (cases "at s3 = 0x2c") auto
  qed (use 1 2 l2 assms(1) in \<open>auto simp: newpart_def intro!: exI[of _ "[]"]\<close>)
qed

lemma newparts_any:
  "linked m xs \<Longrightarrow> names_short p \<Longrightarrow> p \<noteq> [] \<Longrightarrow> \<exists>m' ys. newparts dev p m = Some m' \<and> linked m' (xs @ ys)"
proof (induction "length p" arbitrary: p m xs rule: less_induct)
  case less
  have "names_short (tl p)" using names_short_suffix[OF less.prems(2) suffix_tl] .
  then obtain r m' ys where n: "newpart dev (tl p) m = Some (r, m')" "linked m' (xs @ ys)" "\<forall>t. r = Some t \<longrightarrow> suffix t (tl p) \<and> t \<noteq> []"
    using newpart_any[OF less.prems(1)] by blast
  show ?case
  proof (cases r)
    case None
    then show ?thesis using n by (subst newparts.simps) auto
  next
    case (Some t)
    have "length t < length p" using n(3) Some less.prems(3) suffix_length_le[of t "tl p"] by (cases p) auto
    moreover have "names_short t" using n(3) Some names_short_suffix[OF \<open>names_short (tl p)\<close>] by blast
    ultimately obtain m'' zs where "newparts dev t m' = Some m''" "linked m'' ((xs @ ys) @ zs)"
      using less.hyps[OF _ n(2)] n(3) Some by blast
    then show ?thesis using n(1) Some by (subst newparts.simps) (auto intro!: exI[of _ "ys @ zs"])
  qed
qed

end
