(* ===== verification/Mtd_Claims.thy ===== *)
theory Mtd_Claims
  imports Mtd_Parse
begin

unbundle bit_operations_syntax

text \<open>Properties of the flash partitions.\<close>

text \<open>The state at start-up, on a device of a given size with memory to spare.\<close>

definition mtd_boot :: "u32 \<Rightarrow> mtds" where
  "mtd_boot n = \<lparr>nodes = (\<lambda>_. None), lh_first = None, mtdidx = 0, goodpart0 = None, mtd_offset = 0, this_part = 0,
    devs = (\<lambda>_. \<lparr>is_nand = True, dev_size = n, erasesize = 0x20000, writesize = 0x800\<rparr>), granted = (\<lambda>_. True), requests = 0\<rparr>"

lemma linked_boot: "linked (mtd_boot n) []"
  by (simp add: linked_def mtd_boot_def)

text \<open>
  C20. Reading back the partition table: for a device id without a colon and a list of partitions, each
  with a size of at least a page or \<^verbatim>\<open>-\<close>, an optional offset and an optional name of less than 200 bytes,
  \<^verbatim>\<open>mtdpart_setup_real\<close> on the text \<^verbatim>\<open>id:size@offset(name),...\<close> appends exactly these partitions to the
  list, in order and numbered on, each at its offset or behind the one before it; what follows a
  character that cannot continue a partition, such as the \<^verbatim>\<open>;\<close> before a second device, is ignored.
\<close>

theorem mtdparts_registered:
  assumes "linked m xs" "\<forall>i. granted m i" "0x3a \<notin> set mtd_id" "ps \<noteq> []" "\<forall>p\<in>set ps. spec_ok p" "ends tail" "at tail \<noteq> 0x2c"
  shows "\<exists>m' ys. mtdpart_setup_real dev (mtd_id @ 0x3a # specs_text ps @ tail) m = Some m' \<and> linked m' (xs @ ys) \<and>
    parts m' (xs @ ys) = parts m xs @ numbered dev (mtdidx m) (layout (dev_size (devs m dev)) (mtd_offset m) (this_part m) ps)"
  using newparts_specs[OF assms(6,7,4,5,1,2), of dev "0x3a"] setup_specs[OF assms(3)] by simp

definition default_specs :: "spec list" where
  "default_specs =
    [\<lparr>psize = Some (14, 2), poffset = Some (0, 0), pname = Some (map chr ''kernel'')\<rparr>,
     \<lparr>psize = Some (100, 2), poffset = Some (14, 2), pname = Some (map chr ''rootfs'')\<rparr>,
     \<lparr>psize = Some (14, 2), poffset = Some (114, 2), pname = Some (map chr ''data'')\<rparr>]"

theorem mtdparts_registered_witness:
  "\<exists>m' ys. mtdpart_setup_real 0
      (map chr ''ls1x-nand:14M@0(kernel),100M@14M(rootfs),14M@114M(data);spi-flash:512K@0(pmon),4K@520192(nvram)'') (mtd_boot 0x8000000) = Some m' \<and>
    linked m' ys \<and> parts m' ys =
      [(0, 0, 0, 0xe00000, map chr ''kernel''), (0, 1, 0xe00000, 0x6400000, map chr ''rootfs''), (0, 2, 0x7200000, 0xe00000, map chr ''data'')]"
proof -
  let ?id = "map chr ''ls1x-nand''" and ?tail = "map chr '';spi-flash:512K@0(pmon),4K@520192(nvram)''"
  have t: "map chr ''ls1x-nand:14M@0(kernel),100M@14M(rootfs),14M@114M(data);spi-flash:512K@0(pmon),4K@520192(nvram)'' =
    ?id @ 0x3a # specs_text default_specs @ ?tail" by code_simp
  have "\<forall>p\<in>set default_specs. spec_ok p"
    by (simp add: default_specs_def spec_ok_def amount_ok_def amount_val_def name_ok_def cstring_ok_def chr_def)
  moreover have "0x3a \<notin> set ?id" "at ?tail \<noteq> 0x2c" "default_specs \<noteq> []" by code_simp+
  moreover have "ends ?tail" by code_simp
  moreover have "\<forall>i. granted (mtd_boot 0x8000000) i" by (simp add: mtd_boot_def)
  moreover have "numbered 0 (mtdidx (mtd_boot 0x8000000))
      (layout (dev_size (devs (mtd_boot 0x8000000) 0)) (mtd_offset (mtd_boot 0x8000000)) (this_part (mtd_boot 0x8000000)) default_specs) =
      [(0, 0, 0, 0xe00000, map chr ''kernel''), (0, 1, 0xe00000, 0x6400000, map chr ''rootfs''), (0, 2, 0x7200000, 0xe00000, map chr ''data'')]"
    by (simp add: mtd_boot_def default_specs_def spec_offset_def spec_size_def spec_name_def amount_val_def)
  ultimately show ?thesis unfolding t
    using mtdparts_registered[OF linked_boot, of "0x8000000" ?id default_specs ?tail 0] by (auto simp: parts_def)
qed

text \<open>
  C21. The parser always comes to an end: on any text in which no name in brackets is longer than 199
  bytes, well formed or not, and whether or not the memory suffices, \<^verbatim>\<open>mtdpart_setup_real\<close> returns,
  and the list of partitions is intact afterwards, the old entries first.
\<close>

theorem mtdpart_setup_returns:
  assumes "linked m xs" "names_short s"
  shows "\<exists>m' ys. mtdpart_setup_real dev s m = Some m' \<and> linked m' (xs @ ys)"
proof (cases "0x3a \<in> set s")
  case False
  then show ?thesis using assms(1) by (auto simp: mtdpart_setup_real_def strchr_dropWhile intro!: exI[of _ "[]"])
next
  case True
  let ?p = "dropWhile (\<lambda>x. x \<noteq> 0x3a) s"
  have "?p \<noteq> []" using True by auto
  moreover have "names_short ?p" using names_short_suffix[OF assms(2) suffix_dropWhile] .
  ultimately show ?thesis using newparts_any[OF assms(1)] True by (simp add: mtdpart_setup_real_def strchr_dropWhile)
qed

theorem mtdpart_setup_returns_witness:
  "\<exists>m' ys. mtdpart_setup_real 0 (map chr ''nand:64K(a),2M(b'') (mtd_boot 0x8000000) = Some m' \<and> linked m' ys"
proof -
  have "names_short (map chr ''nand:64K(a),2M(b'')"
    unfolding names_short_def by (auto dest!: arg_cong[where f = length])
  from mtdpart_setup_returns[OF linked_boot this, of 0 "0x8000000"] show ?thesis by simp
qed

text \<open>
  Unregistering a partition breaks the list: when the first partition of the list belongs to the device
  and is not open, \<^verbatim>\<open>del_mtd_device\<close> returns 0 and frees it, but the head of the list still points to
  the freed block, because the \<^verbatim>\<open>le_prev\<close> field of the first element refers to the last element and not
  to the head; the next registration accesses the freed block.
\<close>

lemma del_mtd_device_dangles:
  assumes "linked m (x # xs)" "nodes m x = Some n" "mtd n = dev" "refs n = 0" "\<forall>i. granted m i"
  shows "\<exists>m'. del_mtd_device dev m = Some (0, m') \<and> lh_first m' = Some x \<and> nodes m' x = None \<and>
    add_mtd_device dev off sz nm m' = None"
proof -
  obtain m' where m': "del_mtd_device dev m = Some (0, m')" "lh_first m' = Some x" "nodes m' x = None"
    "requests m' = requests m" "granted m' = granted m" using del_first_dangles[OF assms(1-4)] by blast
  have "x < requests m" using assms(1,2) by (auto simp: linked_def)
  then show ?thesis using m' assms(5) add_after_dangle[of m' x] by auto
qed

end
