(* ===== verification/Nand_Ecc.thy ===== *)
theory Nand_Ecc
  imports Prelude
begin

unbundle bit_operations_syntax

text \<open>
  The error-correcting code of the NAND driver, \<^verbatim>\<open>src/os/hardware/nand/nand_ecc.c\<close>: the three code bytes
  of a 256-byte block, and the correction of a block against the code read from the chip. A
  \<^verbatim>\<open>u_char\<close> pointer is a function from the offset to the byte there; the bytes the code leaves
  alone stay as they are. \<^verbatim>\<open>CONFIG_NAND_ECC_SMC\<close> is not defined in this repository, so the code bytes
  are in the other order. The lemmas show that the code separates every pair of bit errors: one
  wrong bit is corrected and two are detected.
\<close>

section \<open>The code\<close>

definition nand_ecc_precalc_table :: "u8 list" where
  "nand_ecc_precalc_table =
  [0x00, 0x55, 0x56, 0x03, 0x59, 0x0c, 0x0f, 0x5a, 0x5a, 0x0f, 0x0c, 0x59, 0x03, 0x56, 0x55, 0x00,
   0x65, 0x30, 0x33, 0x66, 0x3c, 0x69, 0x6a, 0x3f, 0x3f, 0x6a, 0x69, 0x3c, 0x66, 0x33, 0x30, 0x65,
   0x66, 0x33, 0x30, 0x65, 0x3f, 0x6a, 0x69, 0x3c, 0x3c, 0x69, 0x6a, 0x3f, 0x65, 0x30, 0x33, 0x66,
   0x03, 0x56, 0x55, 0x00, 0x5a, 0x0f, 0x0c, 0x59, 0x59, 0x0c, 0x0f, 0x5a, 0x00, 0x55, 0x56, 0x03,
   0x69, 0x3c, 0x3f, 0x6a, 0x30, 0x65, 0x66, 0x33, 0x33, 0x66, 0x65, 0x30, 0x6a, 0x3f, 0x3c, 0x69,
   0x0c, 0x59, 0x5a, 0x0f, 0x55, 0x00, 0x03, 0x56, 0x56, 0x03, 0x00, 0x55, 0x0f, 0x5a, 0x59, 0x0c,
   0x0f, 0x5a, 0x59, 0x0c, 0x56, 0x03, 0x00, 0x55, 0x55, 0x00, 0x03, 0x56, 0x0c, 0x59, 0x5a, 0x0f,
   0x6a, 0x3f, 0x3c, 0x69, 0x33, 0x66, 0x65, 0x30, 0x30, 0x65, 0x66, 0x33, 0x69, 0x3c, 0x3f, 0x6a,
   0x6a, 0x3f, 0x3c, 0x69, 0x33, 0x66, 0x65, 0x30, 0x30, 0x65, 0x66, 0x33, 0x69, 0x3c, 0x3f, 0x6a,
   0x0f, 0x5a, 0x59, 0x0c, 0x56, 0x03, 0x00, 0x55, 0x55, 0x00, 0x03, 0x56, 0x0c, 0x59, 0x5a, 0x0f,
   0x0c, 0x59, 0x5a, 0x0f, 0x55, 0x00, 0x03, 0x56, 0x56, 0x03, 0x00, 0x55, 0x0f, 0x5a, 0x59, 0x0c,
   0x69, 0x3c, 0x3f, 0x6a, 0x30, 0x65, 0x66, 0x33, 0x33, 0x66, 0x65, 0x30, 0x6a, 0x3f, 0x3c, 0x69,
   0x03, 0x56, 0x55, 0x00, 0x5a, 0x0f, 0x0c, 0x59, 0x59, 0x0c, 0x0f, 0x5a, 0x00, 0x55, 0x56, 0x03,
   0x66, 0x33, 0x30, 0x65, 0x3f, 0x6a, 0x69, 0x3c, 0x3c, 0x69, 0x6a, 0x3f, 0x65, 0x30, 0x33, 0x66,
   0x65, 0x30, 0x33, 0x66, 0x3c, 0x69, 0x6a, 0x3f, 0x3f, 0x6a, 0x69, 0x3c, 0x66, 0x33, 0x30, 0x65,
   0x00, 0x55, 0x56, 0x03, 0x59, 0x0c, 0x0f, 0x5a, 0x5a, 0x0f, 0x0c, 0x59, 0x03, 0x56, 0x55, 0x00]"

text \<open>One round of the loop over the block: \<^verbatim>\<open>reg1\<close>, \<^verbatim>\<open>reg2\<close>, \<^verbatim>\<open>reg3\<close> after byte \<open>d\<close> at index \<open>i\<close>.\<close>

definition ecc_round :: "u8 \<Rightarrow> u8 \<Rightarrow> u8 \<times> u8 \<times> u8 \<Rightarrow> u8 \<times> u8 \<times> u8" where
  "ecc_round i d = (\<lambda>(reg1, reg2, reg3).
    let idx = nand_ecc_precalc_table ! unat d;
        reg1 = reg1 XOR (idx AND 0x3f)
    in if idx AND 0x40 \<noteq> 0 then (reg1, reg2 XOR NOT i, reg3 XOR i) else (reg1, reg2, reg3))"

fun ecc_loop :: "nat \<Rightarrow> nat \<Rightarrow> (nat \<Rightarrow> u8) \<Rightarrow> u8 \<times> u8 \<times> u8 \<Rightarrow> u8 \<times> u8 \<times> u8" where
  "ecc_loop 0 i dat regs = regs"
| "ecc_loop (Suc n) i dat regs = ecc_loop n (Suc i) dat (ecc_round (of_nat i) (dat i) regs)"

definition ecc_tmp1 :: "u8 \<Rightarrow> u8 \<Rightarrow> u8" where
  "ecc_tmp1 reg2 reg3 =
    drop_bit 0 (reg3 AND 0x80) OR drop_bit 1 (reg2 AND 0x80) OR
    drop_bit 1 (reg3 AND 0x40) OR drop_bit 2 (reg2 AND 0x40) OR
    drop_bit 2 (reg3 AND 0x20) OR drop_bit 3 (reg2 AND 0x20) OR
    drop_bit 3 (reg3 AND 0x10) OR drop_bit 4 (reg2 AND 0x10)"

definition ecc_tmp2 :: "u8 \<Rightarrow> u8 \<Rightarrow> u8" where
  "ecc_tmp2 reg2 reg3 =
    push_bit 4 (reg3 AND 0x08) OR push_bit 3 (reg2 AND 0x08) OR
    push_bit 3 (reg3 AND 0x04) OR push_bit 2 (reg2 AND 0x04) OR
    push_bit 2 (reg3 AND 0x02) OR push_bit 1 (reg2 AND 0x02) OR
    push_bit 1 (reg3 AND 0x01) OR push_bit 0 (reg2 AND 0x01)"

type_synonym ecc = "u8 \<times> u8 \<times> u8"

definition nand_calculate_ecc :: "(nat \<Rightarrow> u8) \<Rightarrow> ecc" where
  "nand_calculate_ecc dat =
    (let (reg1, reg2, reg3) = ecc_loop 256 0 dat (0, 0, 0);
         tmp1 = ecc_tmp1 reg2 reg3;
         tmp2 = ecc_tmp2 reg2 reg3
     in (NOT tmp1, NOT tmp2, push_bit 2 (NOT reg1) OR 0x03))"

section \<open>The correction\<close>

function countbits_loop :: "int \<Rightarrow> u32 \<Rightarrow> int" where
  "countbits_loop res b = (if b = 0 then res else countbits_loop (res + uint (b AND 1)) (drop_bit 1 b))"
  by pat_completeness auto

termination countbits_loop
proof (relation "measure (\<lambda>(_, b). unat b)")
  fix res :: int and b :: u32 assume "b \<noteq> 0"
  then have "0 < unat b" by (simp add: unat_gt_0)
  moreover have "unat (drop_bit 1 b) = unat b div 2" by (simp add: drop_bit_eq_div unat_div)
  ultimately show "((res + uint (b AND 1), drop_bit 1 b), res, b) \<in> measure (\<lambda>(_, b). unat b)" by simp
qed simp

declare countbits_loop.simps [simp del]

definition countbits :: "u32 \<Rightarrow> int" where
  "countbits b = countbits_loop 0 b"

definition ecc_byteoffs :: "u8 \<Rightarrow> u8 \<Rightarrow> u32" where
  "ecc_byteoffs s0 s1 =
    (let s0 = ucast s0; s1 = ucast s1 in
     push_bit 0 s1 AND 0x80 OR push_bit 1 s1 AND 0x40 OR push_bit 2 s1 AND 0x20 OR push_bit 3 s1 AND 0x10 OR
     drop_bit 4 s0 AND 0x08 OR drop_bit 3 s0 AND 0x04 OR drop_bit 2 s0 AND 0x02 OR drop_bit 1 s0 AND 0x01)"

definition ecc_bitnum :: "u8 \<Rightarrow> u32" where
  "ecc_bitnum s2 =
    (let s2 = ucast s2 in
     drop_bit 5 s2 AND 0x04 OR drop_bit 4 s2 AND 0x02 OR drop_bit 3 s2 AND 0x01)"

definition nand_correct_data :: "(nat \<Rightarrow> u8) \<Rightarrow> ecc \<Rightarrow> ecc \<Rightarrow> int \<times> (nat \<Rightarrow> u8)" where
  "nand_correct_data dat read_ecc calc_ecc =
    (let (c0, c1, c2) = calc_ecc;
         (r0, r1, r2) = read_ecc;
         s1 = c0 XOR r0;
         s0 = c1 XOR r1;
         s2 = c2 XOR r2
     in if s0 OR s1 OR s2 = 0 then (0, dat)
        else if (s0 XOR drop_bit 1 s0) AND 0x55 = 0x55 \<and> (s1 XOR drop_bit 1 s1) AND 0x55 = 0x55 \<and>
                (s2 XOR drop_bit 1 s2) AND 0x54 = 0x54 then
          let byteoffs = ecc_byteoffs s0 s1;
              bitnum = ecc_bitnum s2
          in (1, dat(unat byteoffs := dat (unat byteoffs) XOR push_bit (unat bitnum) 1))
        else if countbits (ucast s0 OR push_bit 8 (ucast s1) OR push_bit 16 (ucast s2)) = 1 then (1, dat)
        else (-1, dat))"

section \<open>Column parity is linear\<close>

text \<open>The table entry of a byte is the sum of the entries of its bits.\<close>

definition column :: "nat \<Rightarrow> u8" where
  "column k = [0x55, 0x56, 0x59, 0x5a, 0x65, 0x66, 0x69, 0x6a] ! k"

definition parity :: "int \<Rightarrow> u8" where
  "parity b = (if bit b 0 then 0x55 else 0) XOR (if bit b 1 then 0x56 else 0) XOR (if bit b 2 then 0x59 else 0) XOR
    (if bit b 3 then 0x5a else 0) XOR (if bit b 4 then 0x65 else 0) XOR (if bit b 5 then 0x66 else 0) XOR
    (if bit b 6 then 0x69 else 0) XOR (if bit b 7 then 0x6a else 0)"

lemma table_parity: "table_ok (\<lambda>i w. w = parity i) 0 nand_ecc_precalc_table"
  by (simp add: nand_ecc_precalc_table_def parity_def)

lemma length_table: "length nand_ecc_precalc_table = 256"
  by (simp add: nand_ecc_precalc_table_def)

lemma u8_lt: "unat (d :: u8) < 256"
  using unsigned_less[of d, where ?'a = nat] by simp

lemma table_entry: "nand_ecc_precalc_table ! unat (d :: u8) = parity (uint d)"
  using table_ok_nth[OF table_parity, of "unat d"] u8_lt[of d] by (simp add: length_table)

lemma less_8_cases: "(k :: nat) < 8 \<Longrightarrow> k = 0 \<or> k = 1 \<or> k = 2 \<or> k = 3 \<or> k = 4 \<or> k = 5 \<or> k = 6 \<or> k = 7"
  by linarith

definition flip :: "nat \<Rightarrow> nat \<Rightarrow> (nat \<Rightarrow> u8) \<Rightarrow> nat \<Rightarrow> u8" where
  "flip j k dat = dat(j := dat j XOR 2 ^ k)"

lemma flip_if: "(if \<not> P then c else 0) = (if P then c else 0) XOR (c :: u8)"
  by simp

lemma table_flip:
  fixes d :: u8
  assumes "k < 8"
  shows "nand_ecc_precalc_table ! unat (d XOR 2 ^ k) = (nand_ecc_precalc_table ! unat d) XOR column k"
proof -
  define e where "e = d XOR 2 ^ k"
  have b: "bit (uint e) n \<longleftrightarrow> (if n = k then \<not> bit d n else bit d n)" "bit (uint d) n = bit d n" if "n < 8" for n
    using that assms by (auto simp: e_def bit_uint_iff bit_xor_iff bit_exp_iff dest: bit_imp_le_length)
  show ?thesis using less_8_cases[OF assms] unfolding e_def[symmetric] table_entry parity_def
    by (elim disjE) (simp_all add: b column_def flip_if ac_simps split del: if_split)
qed

section \<open>Registers of a changed block\<close>

definition add3 :: "ecc \<Rightarrow> ecc \<Rightarrow> ecc" where
  "add3 = (\<lambda>(a, b, c) (x, y, z). (a XOR x, b XOR y, c XOR z))"

lemma add3_simps [simp]: "add3 (a, b, c) (x, y, z) = (a XOR x, b XOR y, c XOR z)"
  by (simp add: add3_def)

lemma add3_assoc: "add3 (add3 r x) y = add3 r (add3 x y)"
  by (cases r; cases x; cases y) (simp add: ac_simps)

lemma round_add: "ecc_round i d (add3 r x) = add3 (ecc_round i d r) x"
  by (cases r; cases x) (simp add: ecc_round_def Let_def ac_simps)

lemma loop_add: "ecc_loop n i dat (add3 r x) = add3 (ecc_loop n i dat r) x"
  by (induction n arbitrary: i r) (simp_all add: round_add)

lemma loop_outside: "j < i \<or> i + n \<le> j \<Longrightarrow> ecc_loop n i (flip j k dat) r = ecc_loop n i dat r"
proof (induction n arbitrary: i r)
  case (Suc n)
  then have "flip j k dat i = dat i" by (auto simp: flip_def)
  moreover have "j < Suc i \<or> Suc i + n \<le> j" using Suc.prems by auto
  ultimately show ?case using Suc.IH[of "Suc i" "ecc_round (of_nat i) (dat i) r"] by simp
qed simp

lemma and_xor: "(a XOR b) AND c = (a AND c) XOR (b AND (c :: u8))"
  by (auto simp: bit_eq_iff bit_and_iff bit_xor_iff)

lemma and_single: "(x :: u8) AND 0x40 = 0 \<longleftrightarrow> \<not> bit x 6"
  using and_exp_eq_0_iff_not_bit[of x 6] by simp

lemma column_bit_6: "k < 8 \<Longrightarrow> bit (column k) 6"
  by (drule less_8_cases) (auto simp: column_def)

definition error_regs :: "nat \<Rightarrow> nat \<Rightarrow> ecc" where
  "error_regs j k = (column k AND 0x3f, NOT (of_nat j), of_nat j)"

lemma round_flip:
  assumes "k < 8"
  shows "ecc_round (of_nat j) (d XOR 2 ^ k) r = add3 (ecc_round (of_nat j) d r) (error_regs j k)"
  using column_bit_6[OF assms]
  by (cases r) (simp add: ecc_round_def error_regs_def Let_def and_single table_flip[OF assms] bit_xor_iff and_xor ac_simps)

lemma loop_flip:
  assumes "k < 8" "i \<le> j" "j < i + n"
  shows "ecc_loop n i (flip j k dat) r = add3 (ecc_loop n i dat r) (error_regs j k)"
  using assms(2,3)
proof (induction n arbitrary: i r)
  case (Suc n)
  show ?case
  proof (cases "i = j")
    case True
    have "flip j k dat j = dat j XOR 2 ^ k" by (simp add: flip_def)
    then show ?thesis using True by (simp add: loop_outside round_flip[OF assms(1)] loop_add)
  next
    case False
    then show ?thesis using Suc by (simp add: flip_def)
  qed
qed simp

section \<open>Syndromes\<close>

lemma bit_u8_lt: "bit (w :: u8) n \<Longrightarrow> n < 8"
  by (auto dest: bit_imp_le_length)

lemma u8_eqI: "(\<And>n. n < 8 \<Longrightarrow> bit a n = bit b n) \<Longrightarrow> a = (b :: u8)"
  by (rule bit_eqI) (auto dest: bit_imp_le_length)

lemma bit_x2: "bit (b * 2) n \<longleftrightarrow> 0 < n \<and> n < LENGTH('a) \<and> bit (b :: 'a::len word) (n - 1)"
  using bit_push_bit_iff[of 1 b n] by auto

text \<open>The line parities interleave the bits of the two registers.\<close>

lemma bit_tmp1:
  "bit (ecc_tmp1 a b) 0 = bit a 4" "bit (ecc_tmp1 a b) (Suc 0) = bit b 4" "bit (ecc_tmp1 a b) 2 = bit a 5" "bit (ecc_tmp1 a b) 3 = bit b 5"
  "bit (ecc_tmp1 a b) 4 = bit a 6" "bit (ecc_tmp1 a b) 5 = bit b 6" "bit (ecc_tmp1 a b) 6 = bit a 7" "bit (ecc_tmp1 a b) 7 = bit b 7"
  by (simp_all add: ecc_tmp1_def bit_or_iff bit_and_iff bit_drop_bit_eq)

lemma bit_tmp2:
  "bit (ecc_tmp2 a b) 0 = bit a 0" "bit (ecc_tmp2 a b) (Suc 0) = bit b 0" "bit (ecc_tmp2 a b) 2 = bit a 1" "bit (ecc_tmp2 a b) 3 = bit b 1"
  "bit (ecc_tmp2 a b) 4 = bit a 2" "bit (ecc_tmp2 a b) 5 = bit b 2" "bit (ecc_tmp2 a b) 6 = bit a 3" "bit (ecc_tmp2 a b) 7 = bit b 3"
  by (simp_all add: ecc_tmp2_def bit_or_iff bit_and_iff bit_push_bit_iff bit_x2)

lemma tmp_xor:
  "ecc_tmp1 (a XOR c) (b XOR d) = ecc_tmp1 a b XOR ecc_tmp1 c d" "ecc_tmp2 (a XOR c) (b XOR d) = ecc_tmp2 a b XOR ecc_tmp2 c d"
  by (rule u8_eqI, drule less_8_cases, auto simp: bit_tmp1 bit_tmp2 bit_xor_iff)+

definition code_of :: "ecc \<Rightarrow> ecc" where
  "code_of = (\<lambda>(reg1, reg2, reg3). (NOT (ecc_tmp1 reg2 reg3), NOT (ecc_tmp2 reg2 reg3), push_bit 2 (NOT reg1) OR 0x03))"

lemma calculate_code_of: "nand_calculate_ecc dat = code_of (ecc_loop 256 0 dat (0, 0, 0))"
  by (simp add: nand_calculate_ecc_def code_of_def Let_def split: prod.split)

definition syndrome :: "ecc \<Rightarrow> ecc" where
  "syndrome = (\<lambda>(reg1, reg2, reg3). (ecc_tmp1 reg2 reg3, ecc_tmp2 reg2 reg3, push_bit 2 reg1))"

lemma code_difference: "add3 (code_of (add3 r x)) (code_of r) = syndrome x"
proof -
  have "(push_bit 2 (NOT (a XOR b)) OR 3) XOR (push_bit 2 (NOT a) OR 3) = push_bit 2 (b :: u8)" for a b
    by (rule u8_eqI, drule less_8_cases) (auto simp: bit_xor_iff bit_or_iff bit_not_iff bit_push_bit_iff)
  moreover have "NOT (a XOR b) XOR NOT a = (b :: u8)" for a b
    by (rule u8_eqI) (auto simp: bit_xor_iff bit_not_iff)
  ultimately show ?thesis by (cases r; cases x) (simp add: code_of_def syndrome_def tmp_xor)
qed

text \<open>The correction as a function of the syndrome.\<close>

lemma correct_by_syndrome:
  assumes "add3 calc_ecc read_ecc = (s1, s0, s2)"
  shows "nand_correct_data dat read_ecc calc_ecc =
    (if s0 OR s1 OR s2 = 0 then (0, dat)
     else if (s0 XOR drop_bit 1 s0) AND 0x55 = 0x55 \<and> (s1 XOR drop_bit 1 s1) AND 0x55 = 0x55 \<and>
             (s2 XOR drop_bit 1 s2) AND 0x54 = 0x54 then
       (1, flip (unat (ecc_byteoffs s0 s1)) (unat (ecc_bitnum s2)) dat)
     else if countbits (ucast s0 OR push_bit 8 (ucast s1) OR push_bit 16 (ucast s2)) = 1 then (1, dat)
     else (-1, dat))"
  using assms by (cases calc_ecc; cases read_ecc) (simp add: nand_correct_data_def flip_def Let_def)

lemma read_zero: "add3 r r = (0, 0, 0)"
  by (cases r) simp

lemma flip_syndrome:
  assumes "j < 256" "k < 8"
  shows "add3 (nand_calculate_ecc (flip j k dat)) (nand_calculate_ecc dat) = syndrome (error_regs j k)"
  using code_difference loop_flip[OF assms(2), of 0 j 256 dat "(0, 0, 0)"] assms(1) by (simp add: calculate_code_of)

text \<open>In the syndrome of one wrong bit every pair of bits differs, and the pairs spell its position.\<close>

lemma single_pairs:
  "(ecc_tmp1 (NOT w) w XOR drop_bit 1 (ecc_tmp1 (NOT w) w)) AND 0x55 = 0x55"
  "(ecc_tmp2 (NOT w) w XOR drop_bit 1 (ecc_tmp2 (NOT w) w)) AND 0x55 = 0x55"
  by (rule u8_eqI, drule less_8_cases,
      auto simp: bit_and_iff bit_xor_iff bit_drop_bit_eq bit_tmp1 bit_tmp2 bit_not_iff)+

lemma single_column:
  "k < 8 \<Longrightarrow> (push_bit 2 (column k AND 0x3f) XOR drop_bit 1 (push_bit 2 (column k AND 0x3f))) AND 0x54 = 0x54"
  "k < 8 \<Longrightarrow> ecc_bitnum (push_bit 2 (column k AND 0x3f)) = of_nat k"
  by (drule less_8_cases, auto simp: column_def ecc_bitnum_def Let_def)+

lemma single_offset: "ecc_byteoffs (ecc_tmp2 (NOT w) w) (ecc_tmp1 (NOT w) w) = ucast w"
proof (rule bit_eqI)
  fix n :: nat
  show "bit (ecc_byteoffs (ecc_tmp2 (NOT w) w) (ecc_tmp1 (NOT w) w)) n \<longleftrightarrow> bit (ucast w :: u32) n"
  proof (cases "n < 8")
    case True
    from less_8_cases[OF this] show ?thesis
      by (elim disjE)
        (simp_all add: ecc_byteoffs_def Let_def bit_or_iff bit_and_iff bit_push_bit_iff bit_drop_bit_eq bit_ucast_iff bit_tmp1 bit_tmp2 bit_x2)
  next
    case False
    then show ?thesis
      using bit_exp_u32[of 7 n] bit_exp_u32[of 6 n] bit_exp_u32[of 5 n] bit_exp_u32[of 4 n] bit_exp_u32[of 3 n] bit_exp_u32[of 2 n]
        bit_exp_u32[of 1 n] bit_exp_u32[of 0 n] bit_u8_lt[of w n]
      by (auto simp: ecc_byteoffs_def Let_def bit_or_iff bit_and_iff bit_ucast_iff)
  qed
qed

section \<open>Counting bits\<close>

lemma card_bits: "card {n. bit (b :: u32) n} = of_bool (odd b) + card {n. bit (drop_bit 1 b) n}"
proof -
  have f: "finite {n. bit (drop_bit 1 b) n}" by (rule finite_subset[of _ "{..<32}"]) (auto dest: bit_u32_lt)
  have "{n. bit b n} = (if odd b then {0} else {}) \<union> Suc ` {n. bit (drop_bit 1 b) n}"
  proof (rule set_eqI)
    fix n show "n \<in> {n. bit b n} \<longleftrightarrow> n \<in> (if odd b then {0} else {}) \<union> Suc ` {n. bit (drop_bit 1 b) n}"
      by (cases n) (auto simp: bit_0 bit_drop_bit_eq)
  qed
  then show ?thesis using f by (auto simp: card_insert_if card_image)
qed

lemma countbits_loop_card: "countbits_loop r b = r + int (card {n. bit b n})"
proof (induction r b rule: countbits_loop.induct)
  case (1 r b)
  show ?case
  proof (cases "b = 0")
    case True
    then show ?thesis by (simp add: countbits_loop.simps)
  next
    case False
    have "uint (b AND 1) = of_bool (odd b)" by (simp add: and_one_eq mod2_eq_if)
    then show ?thesis using 1[OF False] False card_bits[of b] by (subst countbits_loop.simps) simp
  qed
qed

lemma countbits_card: "countbits b = int (card {n. bit b n})"
  by (simp add: countbits_def countbits_loop_card)

lemma countbits_pairs:
  assumes "\<And>i. bit b (2 * i) = bit b (2 * i + 1)"
  shows "countbits b \<noteq> 1"
proof
  assume "countbits b = 1"
  then obtain n where n: "{n. bit b n} = {n}" by (auto simp: countbits_card card_1_singleton_iff)
  then have "bit b n" by blast
  then have "bit b (if even n then n + 1 else n - 1)" using assms[of "n div 2"] by (auto elim!: evenE oddE)
  then have "(if even n then n + 1 else n - 1) \<in> {n. bit b n}" by simp
  then have "(if even n then n + 1 else n - 1) = n" unfolding n by simp
  then show False by (auto split: if_splits elim: oddE)
qed

definition paired :: "u8 \<Rightarrow> bool" where
  "paired s \<longleftrightarrow> bit s 0 = bit s 1 \<and> bit s 2 = bit s 3 \<and> bit s 4 = bit s 5 \<and> bit s 6 = bit s 7"

lemma paired_word:
  assumes "paired s0" "paired s1" "paired s2"
  shows "countbits (ucast s0 OR push_bit 8 (ucast s1) OR push_bit 16 (ucast s2)) \<noteq> 1"
proof (rule countbits_pairs)
  fix i :: nat
  let ?w = "ucast s0 OR push_bit 8 (ucast s1) OR push_bit 16 (ucast s2) :: u32"
  have b: "bit ?w n \<longleftrightarrow> bit s0 n \<or> 8 \<le> n \<and> bit s1 (n - 8) \<or> 16 \<le> n \<and> bit s2 (n - 16)" for n
    by (auto simp: bit_or_iff bit_push_bit_iff bit_ucast_iff dest: bit_u8_lt)
  have "i = 0 \<or> i = 1 \<or> i = 2 \<or> i = 3 \<or> i = 4 \<or> i = 5 \<or> i = 6 \<or> i = 7 \<or> i = 8 \<or> i = 9 \<or> i = 10 \<or> i = 11 \<or> 12 \<le> i" by arith
  moreover have "\<not> bit s n" if "8 \<le> n" for s :: u8 and n using bit_u8_lt[of s n] that by auto
  ultimately show "bit ?w (2 * i) = bit ?w (2 * i + 1)"
    using assms unfolding paired_def b by (elim disjE) auto
qed

section \<open>Two wrong bits\<close>

lemma same_tmp_paired: "paired (ecc_tmp1 x x)" "paired (ecc_tmp2 x x)"
  by (simp_all add: paired_def bit_tmp1 bit_tmp2)

lemma paired_no_pattern: "paired s \<Longrightarrow> (s XOR drop_bit 1 s) AND 0x55 = 0"
  by (rule u8_eqI, drule less_8_cases) (auto simp: paired_def bit_and_iff bit_xor_iff bit_drop_bit_eq)

lemma tmp_zero: "ecc_tmp1 x x = 0 \<Longrightarrow> ecc_tmp2 x x = 0 \<Longrightarrow> x = 0"
proof (rule u8_eqI)
  fix n :: nat
  assume z: "ecc_tmp1 x x = 0" "ecc_tmp2 x x = 0" and "n < 8"
  from less_8_cases[OF this(3)] show "bit x n = bit 0 n"
    using bit_tmp1[of x x] bit_tmp2[of x x] z by (elim disjE) simp_all
qed

lemma columns_differ:
  assumes "k < 8" "l < 8"
  shows "paired (push_bit 2 ((column k AND 0x3f) XOR (column l AND 0x3f)))"
    "push_bit 2 ((column k AND 0x3f) XOR (column l AND 0x3f)) = 0 \<Longrightarrow> k = l"
  using less_8_cases[OF assms(1)] less_8_cases[OF assms(2)]
  by (elim disjE; simp add: column_def paired_def)+

lemma double_syndrome:
  "syndrome (add3 (error_regs i k) (error_regs j l)) =
    (ecc_tmp1 (of_nat i XOR of_nat j) (of_nat i XOR of_nat j), ecc_tmp2 (of_nat i XOR of_nat j) (of_nat i XOR of_nat j),
     push_bit 2 ((column k AND 0x3f) XOR (column l AND 0x3f)))"
proof -
  have "NOT a XOR NOT b = a XOR (b :: u8)" for a b by (rule u8_eqI) (auto simp: bit_xor_iff bit_not_iff)
  then show ?thesis by (simp add: syndrome_def error_regs_def)
qed

lemma double_flip_syndrome:
  assumes "i < 256" "k < 8" "j < 256" "l < 8"
  shows "add3 (nand_calculate_ecc (flip i k (flip j l dat))) (nand_calculate_ecc dat) =
    syndrome (add3 (error_regs i k) (error_regs j l))"
proof -
  have "ecc_loop 256 0 (flip i k (flip j l dat)) (0, 0, 0) =
      add3 (ecc_loop 256 0 dat (0, 0, 0)) (add3 (error_regs j l) (error_regs i k))"
    using loop_flip[OF assms(2), of 0 i 256] loop_flip[OF assms(4), of 0 j 256] assms(1,3) by (simp add: add3_assoc)
  moreover have "add3 (error_regs j l) (error_regs i k) = add3 (error_regs i k) (error_regs j l)"
    by (simp add: error_regs_def ac_simps)
  ultimately show ?thesis using code_difference by (simp add: calculate_code_of)
qed

lemma of_nat_u8_eq: "i < 256 \<Longrightarrow> j < 256 \<Longrightarrow> (of_nat i :: u8) XOR of_nat j = 0 \<longleftrightarrow> i = j"
proof -
  assume ij: "i < 256" "j < 256"
  have "(a :: u8) XOR b = 0 \<longleftrightarrow> a = b" for a b by (auto simp: bit_eq_iff bit_xor_iff)
  moreover have "(of_nat i :: u8) = of_nat j \<longleftrightarrow> i = j"
    using ij by (auto simp: word_unat_eq_iff unat_of_nat)
  ultimately show ?thesis by simp
qed

section \<open>What is corrected\<close>

lemma single_corrected:
  assumes "j < 256" "k < 8"
  shows "nand_correct_data (dat(j := dat j XOR 2 ^ k)) (nand_calculate_ecc dat) (nand_calculate_ecc (dat(j := dat j XOR 2 ^ k))) = (1, dat) \<and>
    nand_correct_data dat (nand_calculate_ecc dat) (nand_calculate_ecc dat) = (0, dat)"
proof -
  let ?w = "of_nat j :: u8" and ?d = "flip j k dat"
  have syn: "add3 (nand_calculate_ecc ?d) (nand_calculate_ecc dat) =
      (ecc_tmp1 (NOT ?w) ?w, ecc_tmp2 (NOT ?w) ?w, push_bit 2 (column k AND 0x3f))"
    using flip_syndrome[OF assms] by (simp add: syndrome_def error_regs_def)
  have "unat (ucast ?w :: u32) = j" using assms(1) by (simp add: unsigned_ucast_eq unat_of_nat take_bit_eq_mod)
  moreover have "ecc_tmp2 (NOT ?w) ?w \<noteq> 0" using single_pairs(2)[of ?w] by auto
  moreover have "unat (of_nat k :: u32) = k" using assms(2) by (simp add: unat_of_nat)
  moreover have "flip j k ?d = dat" by (simp add: flip_def xor.assoc)
  ultimately have "nand_correct_data ?d (nand_calculate_ecc dat) (nand_calculate_ecc ?d) = (1, dat)"
    using single_pairs[of ?w] single_column[OF assms(2)] single_offset[of ?w]
    unfolding correct_by_syndrome[OF syn] by (simp add: or_eq_0_iff)
  then show ?thesis using correct_by_syndrome[OF read_zero[of "nand_calculate_ecc dat"]] by (simp add: flip_def)
qed

lemma double_detected:
  assumes "i < 256" "k < 8" "j < 256" "l < 8" "(i, k) \<noteq> (j, l)"
  shows "nand_correct_data (flip i k (flip j l dat)) (nand_calculate_ecc dat) (nand_calculate_ecc (flip i k (flip j l dat))) =
    (-1, flip i k (flip j l dat))"
proof -
  let ?x = "of_nat i XOR of_nat j :: u8" and ?s2 = "push_bit 2 ((column k AND 0x3f) XOR (column l AND 0x3f))"
  note syn = double_flip_syndrome[OF assms(1-4), of dat, unfolded double_syndrome]
  have "\<not> (ecc_tmp2 ?x ?x = 0 \<and> ecc_tmp1 ?x ?x = 0 \<and> ?s2 = 0)"
    using tmp_zero[of ?x] of_nat_u8_eq[OF assms(1,3)] columns_differ(2)[OF assms(2,4)] assms(5) by auto
  then have "ecc_tmp2 ?x ?x OR ecc_tmp1 ?x ?x OR ?s2 \<noteq> 0" unfolding or_eq_0_iff .
  then show ?thesis
    using paired_no_pattern[OF same_tmp_paired(2), of ?x] paired_word[OF same_tmp_paired(2,1) columns_differ(1)[OF assms(2,4)], of ?x ?x]
    unfolding correct_by_syndrome[OF syn] by simp
qed

text \<open>
  A wrong bit of the stored code itself is recognised: when the block is intact and the code
  read from the chip differs from the code written in one bit, the correction reports 1 and
  changes nothing.
\<close>

lemma code_error_harmless:
  assumes "m < 8" "e = (2 ^ m, 0, 0) \<or> e = (0, 2 ^ m, 0) \<or> e = (0, 0, 2 ^ m)"
  shows "nand_correct_data dat (add3 (nand_calculate_ecc dat) e) (nand_calculate_ecc dat) = (1, dat)"
proof -
  obtain s1 s0 s2 where s: "e = (s1, s0, s2)" by (metis prod.exhaust)
  have syn: "add3 (nand_calculate_ecc dat) (add3 (nand_calculate_ecc dat) e) = (s1, s0, s2)"
    by (simp add: s flip: add3_assoc) (simp add: read_zero)
  have one: "{n. bit (2 ^ p :: u32) n} = {p}" if "p < 32" for p using that by (auto simp: bit_exp_u32)
  have w: "ucast (2 ^ m :: u8) = (2 ^ m :: u32)" 
    by (rule bit_eqI) (use assms(1) in \<open>auto simp: bit_ucast_iff bit_exp_iff\<close>)
  have nz: "(2 :: u8) ^ m \<noteq> 0" using assms(1) by (auto simp: bit_eq_iff bit_exp_iff)
  have "push_bit p (2 ^ m) = (2 ^ (p + m) :: u32)" for p by (simp add: push_bit_eq_mult power_add mult.commute)
  moreover have "countbits (2 ^ p) = 1" if "p < 32" for p using one[OF that] by (simp add: countbits_card)
  ultimately show ?thesis using assms s w unfolding correct_by_syndrome[OF syn] by (elim disjE) (auto dest: nz[THEN notE])
qed

end
