(* ===== verification/Nand_Base.thy ===== *)
theory Nand_Base
  imports Nand_Ecc "HOL-Library.Monad_Syntax"
begin

unbundle bit_operations_syntax

text \<open>
  Reading and writing a NAND flash, \<^verbatim>\<open>src/os/hardware/nand/nand_base.c\<close> with the software error
  correction, the lookup in the bad block table of \<^verbatim>\<open>nand_bbt.c\<close> and the reading around bad blocks of
  \<^verbatim>\<open>nand_util.c\<close>. The functions of the board driver that \<^verbatim>\<open>struct nand_chip\<close> points to are the fields of
  the record \<open>chip_ops\<close> over a hardware state \<open>'s\<close>. Offsets, page numbers and lengths are integers: the
  64-bit and 32-bit values of the code do not overflow below the size of a device. A wait that does not
  end and a loop that does not end are \<open>None\<close>. The locking is reduced to the state of the chip.
\<close>

section \<open>The device\<close>

definition NAND_CMD_READ0 :: nat where "NAND_CMD_READ0 = 0"
definition NAND_CMD_READOOB :: nat where "NAND_CMD_READOOB = 0x50"
definition NAND_CMD_PAGEPROG :: nat where "NAND_CMD_PAGEPROG = 0x10"
definition NAND_CMD_SEQIN :: nat where "NAND_CMD_SEQIN = 0x80"
definition NAND_CMD_STATUS :: nat where "NAND_CMD_STATUS = 0x70"

definition EINVAL :: int where "EINVAL = 22"
definition EIO :: int where "EIO = 5"
definition EBADMSG :: int where "EBADMSG = 1"
definition EUCLEAN :: int where "EUCLEAN = 2"

datatype fl_state = FL_READY | FL_READING | FL_WRITING | FL_ERASING | FL_SYNCING | FL_CACHEDPRG | FL_PM_SUSPENDED

record geometry =
  msize :: int
  wsize :: nat
  oobsize :: nat
  esize :: int
  page_shift :: nat
  phys_erase_shift :: nat
  chip_shift :: nat
  pagemask :: int
  autoincr :: bool
  no_readrdy :: bool
  eccpos :: "nat list"
  eccsteps :: nat
  badblockpos :: int
  bbt_erase_shift :: nat

record 's chip_ops =
  cmdfunc :: "nat \<Rightarrow> int \<Rightarrow> int \<Rightarrow> 's \<Rightarrow> 's"
  read_buf :: "nat \<Rightarrow> 's \<Rightarrow> u8 list \<times> 's"
  write_buf :: "u8 list \<Rightarrow> 's \<Rightarrow> 's"
  read_byte :: "'s \<Rightarrow> u8 \<times> 's"
  waitfunc :: "'s \<Rightarrow> u32 \<times> 's"
  select_chip :: "int \<Rightarrow> 's \<Rightarrow> 's"
  wait_ready :: "'s \<Rightarrow> 's"

record 's nand =
  fl :: fl_state
  pagebuf :: int
  databuf :: "u8 list"
  oobrbuf :: "u8 list"
  oobwbuf :: "u8 list"
  failed :: u32
  corrected :: u32
  bbt :: "u8 list option"
  hw :: 's

definition nand_get_device :: "fl_state \<Rightarrow> 's nand \<Rightarrow> 's nand option" where
  "nand_get_device new_state c = (if fl c = FL_READY then Some (c\<lparr>fl := new_state\<rparr>) else None)"

definition nand_release_device :: "'s chip_ops \<Rightarrow> 's nand \<Rightarrow> 's nand" where
  "nand_release_device ops c = c\<lparr>hw := select_chip ops (- 1) (hw c), fl := FL_READY\<rparr>"

section \<open>Pages\<close>

text \<open>The bytes \<open>bs\<close> stored at index \<open>k\<close> of a buffer.\<close>

definition put_at :: "nat \<Rightarrow> u8 list \<Rightarrow> u8 list \<Rightarrow> u8 list" where
  "put_at k bs buf = take k buf @ bs @ drop (k + length bs) buf"

definition nand_read_page_raw :: "geometry \<Rightarrow> 's chip_ops \<Rightarrow> u8 list \<Rightarrow> 's nand \<Rightarrow> u8 list \<times> 's nand" where
  "nand_read_page_raw g ops buf c =
    (let (bs, h) = read_buf ops (wsize g) (hw c);
         (os, h) = read_buf ops (oobsize g) h
     in (put_at 0 bs buf, c\<lparr>hw := h, oobrbuf := put_at 0 os (oobrbuf c)\<rparr>))"

text \<open>The 256 bytes of a step of the error correction.\<close>

definition chunk :: "nat \<Rightarrow> u8 list \<Rightarrow> nat \<Rightarrow> u8" where
  "chunk i buf j = (if j < 256 then buf ! (256 * i + j) else 0)"

definition ecc_bytes :: "ecc \<Rightarrow> u8 list" where
  "ecc_bytes e = (case e of (a, b, c) \<Rightarrow> [a, b, c])"

definition ecc_at :: "nat \<Rightarrow> u8 list \<Rightarrow> ecc" where
  "ecc_at i xs = (xs ! (3 * i), xs ! (3 * i + 1), xs ! (3 * i + 2))"

fun calc_loop :: "nat \<Rightarrow> nat \<Rightarrow> u8 list \<Rightarrow> u8 list" where
  "calc_loop 0 i buf = []"
| "calc_loop (Suc steps) i buf = ecc_bytes (nand_calculate_ecc (chunk i buf)) @ calc_loop steps (i + 1) buf"

fun correct_loop :: "nat \<Rightarrow> nat \<Rightarrow> u8 list \<Rightarrow> u8 list \<Rightarrow> u8 list \<Rightarrow> 's nand \<Rightarrow> u8 list \<times> 's nand" where
  "correct_loop 0 i code calc buf c = (buf, c)"
| "correct_loop (Suc steps) i code calc buf c =
    (let (stat, dat) = nand_correct_data (chunk i buf) (ecc_at i code) (ecc_at i calc);
         buf = put_at (256 * i) (map dat [0..<256]) buf;
         c = (if stat = - 1 then c\<lparr>failed := failed c + 1\<rparr> else c\<lparr>corrected := corrected c + word_of_int stat\<rparr>)
     in correct_loop steps (i + 1) code calc buf c)"

definition nand_read_page_swecc :: "geometry \<Rightarrow> 's chip_ops \<Rightarrow> u8 list \<Rightarrow> 's nand \<Rightarrow> u8 list \<times> 's nand" where
  "nand_read_page_swecc g ops buf c =
    (let (buf, c) = nand_read_page_raw g ops buf c;
         ecc_calc = calc_loop (eccsteps g) 0 buf;
         ecc_code = map (\<lambda>i. oobrbuf c ! (eccpos g ! i)) [0..<3 * eccsteps g]
     in correct_loop (eccsteps g) 0 ecc_code ecc_calc buf c)"

section \<open>Reading\<close>

text \<open>
  The loop of \<^verbatim>\<open>nand_do_read_ops\<close> without a buffer for the spare area: \<open>k\<close> is the index into the
  buffer \<open>dat\<close> of the caller. The result is the buffer, what is left to read, and the chip.
\<close>

definition read_step :: "geometry \<Rightarrow> 's chip_ops \<Rightarrow> int \<Rightarrow> nat \<Rightarrow> bool \<Rightarrow> nat \<Rightarrow> nat \<Rightarrow> u8 list \<Rightarrow> 's nand \<Rightarrow> u8 list \<times> bool \<times> 's nand" where
  "read_step g ops realpage col sndcmd bytes k dat c =
    (let page = realpage AND pagemask g;
         aligned = (bytes = wsize g)
     in if realpage \<noteq> pagebuf c then
          let c = (if sndcmd then c\<lparr>hw := cmdfunc ops NAND_CMD_READ0 0 page (hw c)\<rparr> else c);
              (bufpoi, c) = nand_read_page_swecc g ops (if aligned then take (wsize g) (drop k dat) else databuf c) c;
              (dat, c) =
                (if aligned then (put_at k bufpoi dat, c)
                 else (put_at k (take bytes (drop col bufpoi)) dat, c\<lparr>databuf := bufpoi, pagebuf := realpage\<rparr>));
              c = (if no_readrdy g then c else c\<lparr>hw := wait_ready ops (hw c)\<rparr>)
          in (dat, False, c)
        else (put_at k (take bytes (drop col (databuf c))) dat, sndcmd, c))"

partial_function (option) read_loop ::
  "geometry \<Rightarrow> 's chip_ops \<Rightarrow> int \<Rightarrow> int \<Rightarrow> nat \<Rightarrow> bool \<Rightarrow> nat \<Rightarrow> nat \<Rightarrow> u8 list \<Rightarrow> 's nand \<Rightarrow> (u8 list \<times> nat \<times> 's nand) option" where
  "read_loop g ops chipnr realpage col sndcmd readlen k dat c =
    (let bytes = min (wsize g - col) readlen;
         (dat, sndcmd, c) = read_step g ops realpage col sndcmd bytes k dat c;
         readlen = readlen - bytes
     in if readlen = 0 then Some (dat, readlen, c)
        else
          let realpage = realpage + 1;
              page = realpage AND pagemask g;
              (chipnr, c) =
                (if page = 0 then (chipnr + 1, c\<lparr>hw := select_chip ops (chipnr + 1) (select_chip ops (- 1) (hw c))\<rparr>)
                 else (chipnr, c));
              sndcmd = (sndcmd \<or> \<not> autoincr g \<or> page AND (2 ^ (phys_erase_shift g - page_shift g) - 1) = 0)
          in read_loop g ops chipnr realpage 0 sndcmd readlen (k + bytes) dat c)"

declare read_loop.simps [code]

definition nand_do_read_ops :: "geometry \<Rightarrow> 's chip_ops \<Rightarrow> int \<Rightarrow> nat \<Rightarrow> u8 list \<Rightarrow> 's nand \<Rightarrow> (int \<times> nat \<times> u8 list \<times> 's nand) option" where
  "nand_do_read_ops g ops start len dat c =
    (let stats_failed = failed c; stats_corrected = corrected c;
         chipnr = drop_bit (chip_shift g) start;
         c = c\<lparr>hw := select_chip ops chipnr (hw c)\<rparr>;
         realpage = drop_bit (page_shift g) start;
         col = nat (start AND (int (wsize g) - 1))
     in do {
       (dat, readlen, c) \<leftarrow> read_loop g ops chipnr realpage col True len 0 dat c;
       Some (if failed c - stats_failed \<noteq> 0 then - EBADMSG
             else if corrected c - stats_corrected \<noteq> 0 then - EUCLEAN else 0, len - readlen, dat, c) })"

text \<open>
  \<^verbatim>\<open>nand_read\<close>: the result, the length read, which is unchanged when the request is refused or empty, the
  buffer and the chip.
\<close>

definition nand_read :: "geometry \<Rightarrow> 's chip_ops \<Rightarrow> int \<Rightarrow> nat \<Rightarrow> nat \<Rightarrow> u8 list \<Rightarrow> 's nand \<Rightarrow> (int \<times> nat \<times> u8 list \<times> 's nand) option" where
  "nand_read g ops start len retlen dat c =
    (if start + int len > msize g then Some (- EINVAL, retlen, dat, c)
     else if len = 0 then Some (0, retlen, dat, c)
     else do {
       c \<leftarrow> nand_get_device FL_READING c;
       (ret, retlen, dat, c) \<leftarrow> nand_do_read_ops g ops start len dat c;
       Some (ret, retlen, dat, nand_release_device ops c) })"

section \<open>Writing\<close>

definition nand_write_page_raw :: "geometry \<Rightarrow> 's chip_ops \<Rightarrow> u8 list \<Rightarrow> 's nand \<Rightarrow> 's nand" where
  "nand_write_page_raw g ops buf c =
    c\<lparr>hw := write_buf ops (take (oobsize g) (oobwbuf c)) (write_buf ops (take (wsize g) buf) (hw c))\<rparr>"

fun oob_store :: "nat list \<Rightarrow> u8 list \<Rightarrow> u8 list \<Rightarrow> u8 list" where
  "oob_store (p # ps) (e # es) oob = oob_store ps es (oob[p := e])"
| "oob_store _ _ oob = oob"

definition nand_write_page_swecc :: "geometry \<Rightarrow> 's chip_ops \<Rightarrow> u8 list \<Rightarrow> 's nand \<Rightarrow> 's nand" where
  "nand_write_page_swecc g ops buf c =
    (let ecc_calc = calc_loop (eccsteps g) 0 buf;
         c = c\<lparr>oobwbuf := oob_store (take (3 * eccsteps g) (eccpos g)) ecc_calc (oobwbuf c)\<rparr>
     in nand_write_page_raw g ops buf c)"

definition NAND_STATUS_FAIL :: u32 where "NAND_STATUS_FAIL = 1"
definition NAND_STATUS_WP :: u8 where "NAND_STATUS_WP = 0x80"

definition nand_write_page :: "geometry \<Rightarrow> 's chip_ops \<Rightarrow> u8 list \<Rightarrow> int \<Rightarrow> 's nand \<Rightarrow> int \<times> 's nand" where
  "nand_write_page g ops buf page c =
    (let c = c\<lparr>hw := cmdfunc ops NAND_CMD_SEQIN 0 page (hw c)\<rparr>;
         c = nand_write_page_swecc g ops buf c;
         (status, h) = waitfunc ops (cmdfunc ops NAND_CMD_PAGEPROG (- 1) (- 1) (hw c))
     in (if status AND NAND_STATUS_FAIL \<noteq> 0 then - EIO else 0, c\<lparr>hw := h\<rparr>))"

definition nand_check_wp :: "'s chip_ops \<Rightarrow> 's nand \<Rightarrow> bool \<times> 's nand" where
  "nand_check_wp ops c =
    (let (b, h) = read_byte ops (cmdfunc ops NAND_CMD_STATUS (- 1) (- 1) (hw c))
     in (b AND NAND_STATUS_WP = 0, c\<lparr>hw := h\<rparr>))"

partial_function (option) write_loop ::
  "geometry \<Rightarrow> 's chip_ops \<Rightarrow> int \<Rightarrow> int \<Rightarrow> nat \<Rightarrow> u8 list \<Rightarrow> 's nand \<Rightarrow> (int \<times> nat \<times> 's nand) option" where
  "write_loop g ops chipnr realpage writelen buf c =
    (let (ret, c) = nand_write_page g ops buf (realpage AND pagemask g) c
     in if ret \<noteq> 0 then Some (ret, writelen, c)
        else
          let writelen = writelen - wsize g
          in if writelen = 0 then Some (ret, writelen, c)
             else
               let realpage = realpage + 1;
                   (chipnr, c) =
                     (if realpage AND pagemask g = 0
                      then (chipnr + 1, c\<lparr>hw := select_chip ops (chipnr + 1) (select_chip ops (- 1) (hw c))\<rparr>)
                      else (chipnr, c))
               in write_loop g ops chipnr realpage writelen (drop (wsize g) buf) c)"

declare write_loop.simps [code]

definition nand_do_write_ops :: "geometry \<Rightarrow> 's chip_ops \<Rightarrow> int \<Rightarrow> nat \<Rightarrow> u8 list \<Rightarrow> 's nand \<Rightarrow> (int \<times> nat \<times> 's nand) option" where
  "nand_do_write_ops g ops to len buf c =
    (if to AND (int (wsize g) - 1) \<noteq> 0 \<or> int len AND (int (wsize g) - 1) \<noteq> 0 then Some (- EINVAL, 0, c)
     else if len = 0 then Some (0, 0, c)
     else
       let chipnr = drop_bit (chip_shift g) to;
           c = c\<lparr>hw := select_chip ops chipnr (hw c)\<rparr>;
           (wp, c) = nand_check_wp ops c
       in if wp then Some (- EIO, 0, c)
          else
            let realpage = drop_bit (page_shift g) to;
                cached = push_bit (page_shift g) (pagebuf c);
                c = (if to \<le> cached \<and> cached < to + int len then c\<lparr>pagebuf := - 1\<rparr> else c)
            in do {
              (ret, writelen, c) \<leftarrow> write_loop g ops chipnr realpage len buf c;
              Some (ret, len - writelen, c) })"

definition nand_write :: "geometry \<Rightarrow> 's chip_ops \<Rightarrow> int \<Rightarrow> nat \<Rightarrow> nat \<Rightarrow> u8 list \<Rightarrow> 's nand \<Rightarrow> (int \<times> nat \<times> 's nand) option" where
  "nand_write g ops to len retlen buf c =
    (if to + int len > msize g then Some (- EINVAL, retlen, c)
     else if len = 0 then Some (0, retlen, c)
     else do {
       c \<leftarrow> nand_get_device FL_WRITING c;
       (ret, retlen, c) \<leftarrow> nand_do_write_ops g ops to len buf c;
       Some (ret, retlen, nand_release_device ops c) })"

section \<open>Bad blocks\<close>

definition nand_block_bad :: "geometry \<Rightarrow> 's chip_ops \<Rightarrow> int \<Rightarrow> 's nand \<Rightarrow> (int \<times> 's nand) option" where
  "nand_block_bad g ops ofs c =
    do { c \<leftarrow> nand_get_device FL_READING c;
         let h = select_chip ops (drop_bit (chip_shift g) ofs) (hw c);
         let (b, h) = read_byte ops (cmdfunc ops NAND_CMD_READOOB (badblockpos g) (drop_bit (page_shift g) ofs AND pagemask g) h);
         Some (if b \<noteq> 0xff then 1 else 0, nand_release_device ops (c\<lparr>hw := h\<rparr>)) }"

definition nand_isbad_bbt :: "geometry \<Rightarrow> u8 list \<Rightarrow> int \<Rightarrow> bool \<Rightarrow> int option" where
  "nand_isbad_bbt g table offs allowbbt =
    (let block = drop_bit (bbt_erase_shift g - 1) offs
     in if drop_bit 3 block < 0 \<or> int (length table) \<le> drop_bit 3 block then None
        else
          let res = drop_bit (nat (block AND 6)) (table ! nat (drop_bit 3 block)) AND 3
          in Some (if res = 0 then 0 else if res = 1 then 1 else if res = 2 then (if allowbbt then 0 else 1) else 1))"

definition nand_block_checkbad :: "geometry \<Rightarrow> 's chip_ops \<Rightarrow> int \<Rightarrow> bool \<Rightarrow> 's nand \<Rightarrow> (int \<times> 's nand) option" where
  "nand_block_checkbad g ops ofs allowbbt c =
    (case bbt c of
       None \<Rightarrow> nand_block_bad g ops ofs c
     | Some table \<Rightarrow> map_option (\<lambda>r. (r, c)) (nand_isbad_bbt g table ofs allowbbt))"

definition nand_block_isbad :: "geometry \<Rightarrow> 's chip_ops \<Rightarrow> int \<Rightarrow> 's nand \<Rightarrow> (int \<times> 's nand) option" where
  "nand_block_isbad g ops offs c =
    (if offs > msize g then Some (- EINVAL, c) else nand_block_checkbad g ops offs False c)"

section \<open>Reading around bad blocks\<close>

text \<open>\<^verbatim>\<open>check_skip_len\<close>: 0, 1 or -1 and the chip.\<close>

partial_function (option) skip_loop :: "geometry \<Rightarrow> 's chip_ops \<Rightarrow> int \<Rightarrow> int \<Rightarrow> int \<Rightarrow> int \<Rightarrow> 's nand \<Rightarrow> (int \<times> 's nand) option" where
  "skip_loop g ops offset len excl ret c =
    (if excl < len then
       if offset \<ge> msize g then Some (- 1, c)
       else
         let block_off = offset AND (esize g - 1);
             block_len = esize g - block_off
         in do {
           (bad, c) \<leftarrow> nand_block_isbad g ops (offset AND NOT (esize g - 1)) c;
           if bad = 0 then skip_loop g ops (offset + block_len) len (excl + block_len) ret c
           else skip_loop g ops (offset + block_len) len excl 1 c }
     else Some (ret, c))"

declare skip_loop.simps [code]

definition check_skip_len :: "geometry \<Rightarrow> 's chip_ops \<Rightarrow> int \<Rightarrow> nat \<Rightarrow> 's nand \<Rightarrow> (int \<times> 's nand) option" where
  "check_skip_len g ops offset len c = skip_loop g ops offset (int len) 0 0 c"

partial_function (option) skip_read ::
  "geometry \<Rightarrow> 's chip_ops \<Rightarrow> int \<Rightarrow> nat \<Rightarrow> nat \<Rightarrow> nat \<Rightarrow> u8 list \<Rightarrow> 's nand \<Rightarrow> (int \<times> nat \<times> u8 list \<times> 's nand) option" where
  "skip_read g ops offset len left k dat c =
    (if left > 0 then
       let block_offset = offset AND (esize g - 1)
       in do {
         (bad, c) \<leftarrow> nand_block_isbad g ops (offset AND NOT (esize g - 1)) c;
         if bad \<noteq> 0 then skip_read g ops (offset + (esize g - block_offset)) len left k dat c
         else do {
           let read_length = (if int left < esize g - block_offset then left else nat (esize g - block_offset));
           (rval, read_length, bs, c) \<leftarrow> nand_read g ops offset read_length read_length (drop k dat) c;
           let dat = take k dat @ bs;
           if rval \<noteq> 0 \<and> rval \<noteq> - EUCLEAN then Some (rval, len - left, dat, c)
           else skip_read g ops (offset + int read_length) len (left - read_length) (k + read_length) dat c } }
     else Some (0, len, dat, c))"

declare skip_read.simps [code]

text \<open>\<^verbatim>\<open>nand_read_skip_bad\<close>: the result, the length, the buffer and the chip.\<close>

definition nand_read_skip_bad :: "geometry \<Rightarrow> 's chip_ops \<Rightarrow> int \<Rightarrow> nat \<Rightarrow> u8 list \<Rightarrow> 's nand \<Rightarrow> (int \<times> nat \<times> u8 list \<times> 's nand) option" where
  "nand_read_skip_bad g ops offset len dat c =
    do { (need_skip, c) \<leftarrow> check_skip_len g ops offset len c;
         if need_skip < 0 then Some (- EINVAL, 0, dat, c)
         else if need_skip = 0 then
           do { (rval, len, dat, c) \<leftarrow> nand_read g ops offset len len dat c;
                if rval = 0 \<or> rval = - EUCLEAN then Some (0, len, dat, c) else Some (rval, 0, dat, c) }
         else skip_read g ops offset len len 0 dat c }"

end
