(* ===== verification/Nand_Inv.thy ===== *)
theory Nand_Inv
  imports Nand_Base
begin

unbundle bit_operations_syntax

text \<open>
  What the functions of \<^verbatim>\<open>nand_base.c\<close> do on a chip that follows its contract. The contract is the locale
  \<open>nand_dev\<close>: a page command followed by two buffer reads gives the page and its spare area, and a
  program command stores them. A page reads as \<open>d\<close> when every 256-byte step of it has at most one wrong bit in
  the data or in the code.
\<close>

section \<open>Buffers\<close>

lemma put_at_length: "k + length bs \<le> length buf \<Longrightarrow> length (put_at k bs buf) = length buf"
  by (simp add: put_at_def)

lemma put_at_twice:
  "k + length xs + length ys \<le> length buf \<Longrightarrow> put_at (k + length xs) ys (put_at k xs buf) = put_at k (xs @ ys) buf"
  by (simp add: put_at_def ac_simps)

lemma put_at_take: "k + length bs \<le> length buf \<Longrightarrow> take k (put_at k bs buf) = take k buf"
  by (simp add: put_at_def)

section \<open>The code of a page\<close>

definition code_bits :: "ecc \<Rightarrow> bool" where
  "code_bits e \<longleftrightarrow> (\<exists>m<8. e = (2 ^ m, 0, 0) \<or> e = (0, 2 ^ m, 0) \<or> e = (0, 0, 2 ^ m))"

definition chunk_reads :: "(nat \<Rightarrow> u8) \<Rightarrow> (nat \<Rightarrow> u8) \<Rightarrow> ecc \<Rightarrow> bool" where
  "chunk_reads d r e \<longleftrightarrow>
    (r = d \<or> (\<exists>j<256. \<exists>k<8. r = flip j k d)) \<and> e = nand_calculate_ecc d \<or>
    r = d \<and> (\<exists>b. code_bits b \<and> e = add3 (nand_calculate_ecc d) b)"

lemma chunk_corrected: "chunk_reads d r e \<Longrightarrow> \<exists>st. nand_correct_data r e (nand_calculate_ecc r) = (st, d) \<and> st \<noteq> - 1"
  using single_corrected[of _ _ d] single_corrected[of 0 0 d] code_error_harmless[of _ _ d]
  by (fastforce simp: chunk_reads_def code_bits_def flip_def)

definition page_code :: "geometry \<Rightarrow> u8 list \<Rightarrow> u8 list" where
  "page_code g oob = map (\<lambda>i. oob ! (eccpos g ! i)) [0..<3 * eccsteps g]"

definition readable :: "geometry \<Rightarrow> u8 list \<Rightarrow> u8 list \<Rightarrow> u8 list \<Rightarrow> bool" where
  "readable g d m s \<longleftrightarrow> length d = wsize g \<and>
    (\<forall>i<eccsteps g. chunk_reads (chunk i d) (chunk i m) (ecc_at i (page_code g s)))"

lemma ecc_at_0: "ecc_at 0 (ecc_bytes e @ xs) = e"
  by (cases e) (simp add: ecc_at_def ecc_bytes_def)

lemma ecc_at_Suc: "ecc_at (Suc i) (ecc_bytes e @ xs) = ecc_at i xs"
  by (cases e) (simp add: ecc_at_def ecc_bytes_def)

lemma calc_loop_at: "j < n \<Longrightarrow> ecc_at j (calc_loop n i buf) = nand_calculate_ecc (chunk (i + j) buf)"
proof (induction n arbitrary: i j)
  case (Suc n)
  then show ?case by (cases j) (auto simp: ecc_at_0 ecc_at_Suc)
qed simp

lemma calc_loop_length: "length (calc_loop n i buf) = 3 * n"
  by (induction n arbitrary: i) (auto simp: ecc_bytes_def split: prod.split)

lemma chunk_append: "256 * i + 256 \<le> length xs \<Longrightarrow> chunk i (xs @ ys) = chunk i xs"
  by (rule ext) (simp add: chunk_def nth_append)

lemma chunk_drop: "256 * i + 256 \<le> length m \<Longrightarrow> length xs = 256 * i \<Longrightarrow> chunk i (xs @ drop (256 * i) m) = chunk i m"
  by (rule ext) (simp add: chunk_def nth_append)

lemma chunk_map: "256 * i + 256 \<le> length d \<Longrightarrow> map (chunk i d) [0..<256] = take 256 (drop (256 * i) d)"
  by (rule nth_equalityI) (simp_all add: chunk_def)

lemma correct_loop_reads:
  assumes "length d = 256 * steps" "length m = 256 * steps"
    and "\<And>j. j < steps \<Longrightarrow> chunk_reads (chunk j d) (chunk j m) (ecc_at j code)"
    and "\<And>j. j < steps \<Longrightarrow> ecc_at j calc = nand_calculate_ecc (chunk j m)"
  shows "i + n = steps \<Longrightarrow>
    \<exists>x. correct_loop n i code calc (take (256 * i) d @ drop (256 * i) m @ t) c = (d @ t, c\<lparr>corrected := x\<rparr>)"
proof (induction n arbitrary: i c)
  case 0
  then show ?case using assms(1,2) by (auto intro!: exI[of _ "corrected c"])
next
  case (Suc n)
  let ?b = "take (256 * i) d @ drop (256 * i) m @ t"
  have i: "256 * i + 256 \<le> length d" "256 * i + 256 \<le> length m" "i < steps" using Suc.prems assms(1,2) by auto
  have "chunk i ?b = chunk i m"
    using chunk_append[of i "take (256 * i) d @ drop (256 * i) m" t] chunk_drop[of i m "take (256 * i) d"] i by simp
  then obtain st where st: "nand_correct_data (chunk i ?b) (ecc_at i code) (ecc_at i calc) = (st, chunk i d)" "st \<noteq> - 1"
    using chunk_corrected[OF assms(3)[OF i(3)]] assms(4)[OF i(3)] by auto
  have "put_at (256 * i) (map (chunk i d) [0..<256]) ?b = take (256 * (i + 1)) d @ drop (256 * (i + 1)) m @ t"
  proof -
    have "take (256 * (i + 1)) d = take (256 * i) d @ take 256 (drop (256 * i) d)" using take_add[of "256 * i" 256 d] by (simp add: add.commute)
    then show ?thesis using i chunk_map[OF i(1)] by (simp add: put_at_def add.commute)
  qed
  then have "correct_loop (Suc n) i code calc ?b c =
      correct_loop n (i + 1) code calc (take (256 * (i + 1)) d @ drop (256 * (i + 1)) m @ t) (c\<lparr>corrected := corrected c + word_of_int st\<rparr>)"
    using st by (simp only: correct_loop.simps prod.case Let_def) simp
  then show ?case using Suc.IH[of "i + 1" "c\<lparr>corrected := corrected c + word_of_int st\<rparr>"] Suc.prems by auto
qed

text \<open>The loop changes the two counters and keeps the length of the buffer; a step that cannot be corrected is counted.\<close>

lemma correct_loop_counts:
  "256 * (i + n) \<le> length buf \<Longrightarrow> \<exists>buf' m x. correct_loop n i code calc buf c = (buf', c\<lparr>failed := failed c + of_nat m, corrected := x\<rparr>) \<and>
    length buf' = length buf \<and> m \<le> n \<and>
    ((\<exists>j\<in>{i..<i + n}. fst (nand_correct_data (chunk j buf) (ecc_at j code) (ecc_at j calc)) = - 1) \<longrightarrow> 0 < m)"
proof (induction n arbitrary: i buf c)
  case (Suc n)
  obtain st dat where r: "nand_correct_data (chunk i buf) (ecc_at i code) (ecc_at i calc) = (st, dat)" by (metis surj_pair)
  let ?b = "put_at (256 * i) (map dat [0..<256]) buf"
  let ?c = "if st = - 1 then c\<lparr>failed := failed c + 1\<rparr> else c\<lparr>corrected := corrected c + word_of_int st\<rparr>"
  have len: "length ?b = length buf" using Suc.prems by (intro put_at_length) simp
  then have b: "256 * (i + 1 + n) \<le> length ?b" using Suc.prems by simp
  have later: "chunk j ?b = chunk j buf" if "i < j" "j < i + Suc n" for j
  proof
    fix l
    have "256 * i + 256 \<le> 256 * j + l" "l < 256 \<Longrightarrow> 256 * j + l < length buf" using that Suc.prems by auto
    then show "chunk j ?b l = chunk j buf l" by (auto simp: chunk_def put_at_def nth_append)
  qed
  obtain buf' m x where IH: "correct_loop n (i + 1) code calc ?b ?c = (buf', ?c\<lparr>failed := failed ?c + of_nat m, corrected := x\<rparr>)"
    "length buf' = length ?b" "m \<le> n" "(\<exists>j\<in>{i + 1..<i + 1 + n}. fst (nand_correct_data (chunk j ?b) (ecc_at j code) (ecc_at j calc)) = - 1) \<longrightarrow> 0 < m"
    using Suc.IH[OF b, of ?c] by blast
  define m' where "m' = (if st = - 1 then Suc m else m)"
  have "correct_loop (Suc n) i code calc buf c = (buf', c\<lparr>failed := failed c + of_nat m', corrected := x\<rparr>)"
    using IH(1) r by (simp add: m'_def Let_def ac_simps)
  moreover have "0 < m'" if j: "j \<in> {i..<i + Suc n}" "fst (nand_correct_data (chunk j buf) (ecc_at j code) (ecc_at j calc)) = - 1" for j
  proof (cases "j = i")
    case False
    then have "j \<in> {i + 1..<i + 1 + n}" using j(1) by auto
    moreover have "chunk j ?b = chunk j buf" using j(1) False by (intro later) auto
    ultimately have "0 < m" using IH(4) j(2) by metis
    then show ?thesis by (simp add: m'_def)
  qed (use j(2) r in \<open>simp add: m'_def\<close>)
  ultimately show ?case using IH(2,3) len by (intro exI[of _ buf'] exI[of _ m'] exI[of _ x]) (auto simp: m'_def)
next
  case 0
  then show ?case by (intro exI[of _ buf] exI[of _ 0] exI[of _ "corrected c"]) simp
qed

lemma oob_store_other: "j \<notin> set ps \<Longrightarrow> oob_store ps es oob ! j = oob ! j"
proof (induction ps es oob rule: oob_store.induct)
  case (1 p ps e es oob)
  then show ?case by (auto simp: nth_list_update)
qed auto

lemma oob_store_length [simp]: "length (oob_store ps es oob) = length oob"
  by (induction ps es oob rule: oob_store.induct) auto

lemma oob_store_nth:
  "distinct ps \<Longrightarrow> length es = length ps \<Longrightarrow> \<forall>p\<in>set ps. p < length oob \<Longrightarrow> i < length ps \<Longrightarrow> oob_store ps es oob ! (ps ! i) = es ! i"
proof (induction ps es oob arbitrary: i rule: oob_store.induct)
  case (1 p ps e es oob)
  then show ?case by (cases i) (auto simp: oob_store_other)
qed auto

lemma calc_loop_append: "256 * (i + n) \<le> length xs \<Longrightarrow> calc_loop n i (xs @ ys) = calc_loop n i xs"
proof (induction n arbitrary: i)
  case (Suc n)
  then show ?case using chunk_append[of i xs ys] by simp
qed simp

lemma and_ones: "length d = n \<Longrightarrow> map2 (AND) (replicate n 0xff) d = (d :: u8 list)"
proof -
  have ff: "(0xff :: u8) = - 1" by simp
  have "0xff AND x = x" for x :: u8 unfolding ff by (rule and.left_neutral)
  then show "length d = n \<Longrightarrow> ?thesis" by (auto intro: nth_equalityI)
qed

text \<open>The code of an erased step is what an erased spare area holds, so an erased page reads as itself.\<close>

lemma ecc_ff: "nand_calculate_ecc (\<lambda>j. if j < 256 then 0xff else 0) = (0xff, 0xff, 0xff)"
  by code_simp

lemma chunk_ff: "256 * i + 256 \<le> n \<Longrightarrow> chunk i (replicate n 0xff) = (\<lambda>j. if j < 256 then 0xff else 0)"
  by (auto simp: chunk_def)

lemma code_ff:
  assumes "length (eccpos g) = 3 * eccsteps g" "\<And>p. p \<in> set (eccpos g) \<Longrightarrow> p < oobsize g" "i < eccsteps g"
  shows "ecc_at i (page_code g (replicate (oobsize g) 0xff)) = (0xff, 0xff, 0xff)"
proof -
  have "page_code g (replicate (oobsize g) 0xff) ! k = 0xff" if "k < 3 * eccsteps g" for k
    using that assms(1,2) by (simp add: page_code_def)
  then show ?thesis using assms(3) by (simp add: ecc_at_def)
qed

lemma erased_readable:
  assumes "length (eccpos g) = 3 * eccsteps g" "\<And>p. p \<in> set (eccpos g) \<Longrightarrow> p < oobsize g" "wsize g = 256 * eccsteps g"
  shows "readable g (replicate (wsize g) 0xff) (replicate (wsize g) 0xff) (replicate (oobsize g) 0xff)"
proof -
  have "chunk i (replicate (wsize g) 0xff) = (\<lambda>j. if j < 256 then 0xff else 0)" if "i < eccsteps g" for i
    using that assms(3) by (intro chunk_ff) simp
  then show ?thesis using code_ff[OF assms(1,2)] by (simp add: readable_def chunk_reads_def ecc_ff)
qed

section \<open>The bytes of a device\<close>

text \<open>The \<open>n\<close> bytes from address \<open>a\<close> on of a device with pages \<open>D\<close>.\<close>

definition bytes_of :: "nat \<Rightarrow> (int \<Rightarrow> u8 list) \<Rightarrow> int \<Rightarrow> nat \<Rightarrow> u8 list" where
  "bytes_of ws D a n = map (\<lambda>i. D ((a + int i) div int ws) ! nat ((a + int i) mod int ws)) [0..<n]"

lemma bytes_of_length [simp]: "length (bytes_of ws D a n) = n"
  by (simp add: bytes_of_def)

lemma bytes_of_append: "bytes_of ws D a (n + m) = bytes_of ws D a n @ bytes_of ws D (a + int n) m"
  by (rule nth_equalityI) (auto simp: bytes_of_def nth_append ac_simps)

lemma bytes_of_page:
  assumes "col + n \<le> ws" "length (D p) = ws" "0 < ws"
  shows "bytes_of ws D (p * int ws + int col) n = take n (drop col (D p))"
proof (rule nth_equalityI)
  fix i assume i: "i < length (bytes_of ws D (p * int ws + int col) n)"
  then have "int col + int i < int ws" using assms(1) by simp
  then have "(int col + int i + p * int ws) div int ws = p" "(int col + int i + p * int ws) mod int ws = int col + int i"
    using assms(3) by (simp_all add: div_pos_pos_trivial mod_pos_pos_trivial)
  then show "bytes_of ws D (p * int ws + int col) n ! i = take n (drop col (D p)) ! i"
    using i assms by (simp add: bytes_of_def ac_simps nat_add_distrib)
qed (use assms in simp)

section \<open>The contract of a chip\<close>

locale nand_dev =
  fixes g :: geometry and ops :: "'s chip_ops" and ok :: "'s \<Rightarrow> bool"
    and main :: "'s \<Rightarrow> int \<Rightarrow> u8 list" and spare :: "'s \<Rightarrow> int \<Rightarrow> u8 list" and np :: int
  assumes page_size: "wsize g = 2 ^ page_shift g" "wsize g = 256 * eccsteps g"
    and ecc_layout: "length (eccpos g) = 3 * eccsteps g" "distinct (eccpos g)" "\<And>p. p \<in> set (eccpos g) \<Longrightarrow> p < oobsize g"
    and one_chip: "msize g = np * int (wsize g)" "\<And>p. 0 \<le> p \<Longrightarrow> p < np \<Longrightarrow> p AND pagemask g = p"
    and no_incr: "\<not> autoincr g"
    and page_len: "\<And>h p. ok h \<Longrightarrow> 0 \<le> p \<Longrightarrow> p < np \<Longrightarrow> length (main h p) = wsize g \<and> length (spare h p) = oobsize g"
    and read_law: "\<And>h p d h1 s h2. ok h \<Longrightarrow> 0 \<le> p \<Longrightarrow> p < np \<Longrightarrow>
      read_buf ops (wsize g) (cmdfunc ops NAND_CMD_READ0 0 p h) = (d, h1) \<Longrightarrow> read_buf ops (oobsize g) h1 = (s, h2) \<Longrightarrow>
      d = main h p \<and> s = spare h p \<and> ok h2 \<and> main h2 = main h \<and> spare h2 = spare h"
    and select_law: "\<And>h n. ok h \<Longrightarrow> ok (select_chip ops n h) \<and> main (select_chip ops n h) = main h \<and> spare (select_chip ops n h) = spare h"
    and wait_law: "\<And>h. ok h \<Longrightarrow> ok (wait_ready ops h) \<and> main (wait_ready ops h) = main h \<and> spare (wait_ready ops h) = spare h"
    and status_law: "\<And>h b h'. ok h \<Longrightarrow> read_byte ops (cmdfunc ops NAND_CMD_STATUS (- 1) (- 1) h) = (b, h') \<Longrightarrow>
      b AND NAND_STATUS_WP \<noteq> 0 \<and> ok h' \<and> main h' = main h \<and> spare h' = spare h"
    and prog_law: "\<And>h p d s st h'. ok h \<Longrightarrow> 0 \<le> p \<Longrightarrow> p < np \<Longrightarrow> length d = wsize g \<Longrightarrow> length s = oobsize g \<Longrightarrow>
      waitfunc ops (cmdfunc ops NAND_CMD_PAGEPROG (- 1) (- 1) (write_buf ops s (write_buf ops d (cmdfunc ops NAND_CMD_SEQIN 0 p h)))) = (st, h') \<Longrightarrow>
      st AND NAND_STATUS_FAIL = 0 \<and> ok h' \<and> main h' = (main h)(p := map2 (AND) (main h p) d) \<and>
      spare h' = (spare h)(p := map2 (AND) (spare h p) s)"
begin

lemma wsize_pos: "0 < wsize g"
  by (simp add: page_size(1))

text \<open>The chip with the pages of \<open>c\<close>, and a cached page that is the page of the device.\<close>

definition same :: "'s nand \<Rightarrow> 's nand \<Rightarrow> bool" where
  "same c c' \<longleftrightarrow> ok (hw c') \<and> main (hw c') = main (hw c) \<and> spare (hw c') = spare (hw c) \<and> bbt c' = bbt c \<and>
    oobwbuf c' = oobwbuf c \<and> length (databuf c') = length (databuf c)"

definition reads_as :: "(int \<Rightarrow> u8 list) \<Rightarrow> int set \<Rightarrow> 's nand \<Rightarrow> bool" where
  "reads_as D P c \<longleftrightarrow> ok (hw c) \<and> wsize g \<le> length (databuf c) \<and> (\<forall>p\<in>P. 0 \<le> p \<and> p < np) \<and>
    (\<forall>p\<in>P. readable g (D p) (main (hw c) p) (spare (hw c) p)) \<and>
    (pagebuf c \<in> P \<longrightarrow> take (wsize g) (databuf c) = D (pagebuf c))"

lemma same_refl: "ok (hw c) \<Longrightarrow> same c c"
  by (simp add: same_def)

lemma same_trans: "same c c' \<Longrightarrow> same c' c'' \<Longrightarrow> same c c''"
  by (simp add: same_def)

lemma same_hw: "same c c' \<Longrightarrow> ok h \<Longrightarrow> main h = main (hw c') \<Longrightarrow> spare h = spare (hw c') \<Longrightarrow> same c (c'\<lparr>hw := h\<rparr>)"
  by (simp add: same_def)

text \<open>Reading a page that can be read gives it, whatever was in the buffer.\<close>

lemma page_read:
  assumes "ok h" "0 \<le> p" "p < np" "readable g d (main h p) (spare h p)" "wsize g \<le> length buf"
    and "hw c = cmdfunc ops NAND_CMD_READ0 0 p h"
  shows "\<exists>c'. nand_read_page_swecc g ops buf c = (d @ drop (wsize g) buf, c') \<and> ok (hw c') \<and> main (hw c') = main h \<and> spare (hw c') = spare h \<and>
    failed c' = failed c \<and> fl c' = fl c \<and> pagebuf c' = pagebuf c \<and> databuf c' = databuf c \<and> bbt c' = bbt c \<and> oobwbuf c' = oobwbuf c"
proof -
  obtain m h1 where r1: "read_buf ops (wsize g) (hw c) = (m, h1)" by (metis surj_pair)
  obtain s h2 where r2: "read_buf ops (oobsize g) h1 = (s, h2)" by (metis surj_pair)
  have l: "m = main h p" "s = spare h p" "ok h2" "main h2 = main h" "spare h2 = spare h"
    using read_law[OF assms(1-3), of m h1 s h2] r1 r2 assms(6) by auto
  have len: "length m = wsize g" "length s = oobsize g" using page_len[OF assms(1-3)] l by auto
  let ?c = "c\<lparr>hw := h2, oobrbuf := put_at 0 s (oobrbuf c)\<rparr>" and ?t = "drop (wsize g) buf"
  have raw: "nand_read_page_raw g ops buf c = (m @ ?t, ?c)" using r1 r2 len by (simp add: nand_read_page_raw_def put_at_def)
  let ?calc = "calc_loop (eccsteps g) 0 (m @ ?t)"
  have code: "map (\<lambda>i. oobrbuf ?c ! (eccpos g ! i)) [0..<3 * eccsteps g] = page_code g s"
    unfolding page_code_def using ecc_layout(1,3) len(2) by (auto simp: put_at_def nth_append nth_mem)
  have "chunk j (m @ ?t) = chunk j m" if "j < eccsteps g" for j using that len(1) page_size(2) by (intro chunk_append) auto
  then have calc: "ecc_at j ?calc = nand_calculate_ecc (chunk j m)" if "j < eccsteps g" for j using calc_loop_at[of j "eccsteps g" 0] that by simp
  have "\<exists>x. correct_loop (eccsteps g) 0 (page_code g s) ?calc (take (256 * 0) d @ drop (256 * 0) m @ ?t) ?c = (d @ ?t, ?c\<lparr>corrected := x\<rparr>)"
    using assms(4) l(1,2) len(1) page_size(2) calc by (intro correct_loop_reads[where steps = "eccsteps g"]) (auto simp: readable_def)
  then show ?thesis using l(3-5) raw code by (auto simp: nand_read_page_swecc_def Let_def)
qed

text \<open>One page of a read.\<close>

lemma read_step_page:
  assumes "reads_as D P c" "rp \<in> P" "col < wsize g" "bytes = min (wsize g - col) n" "0 < bytes" "k + bytes \<le> length dat"
  shows "\<exists>snd c'. read_step g ops rp col True bytes k dat c = (put_at k (bytes_of (wsize g) D (rp * int (wsize g) + int col) bytes) dat, snd, c') \<and>
    same c c' \<and> reads_as D P c' \<and> failed c' = failed c \<and> fl c' = fl c"
proof -
  have r: "ok (hw c)" "wsize g \<le> length (databuf c)" "0 \<le> rp" "rp < np" "readable g (D rp) (main (hw c) rp) (spare (hw c) rp)"
    "rp = pagebuf c \<Longrightarrow> take (wsize g) (databuf c) = D rp"
    using assms(1,2) by (auto simp: reads_as_def)
  have len: "length (D rp) = wsize g" using r(5) by (simp add: readable_def)
  have out: "bytes_of (wsize g) D (rp * int (wsize g) + int col) bytes = take bytes (drop col (D rp))"
    using assms(3,4) len wsize_pos by (intro bytes_of_page) auto
  show ?thesis
  proof (cases "rp = pagebuf c")
    case True
    have "take bytes (drop col (databuf c)) = take bytes (drop col (take (wsize g) (databuf c)))"
      using assms(3,4) by (simp add: drop_take min_def)
    then show ?thesis using True r(6)[OF True] out assms(1) same_refl[OF r(1)] by (auto simp: read_step_def)
  next
    case False
    let ?c = "c\<lparr>hw := cmdfunc ops NAND_CMD_READ0 0 rp (hw c)\<rparr>"
    let ?buf = "if bytes = wsize g then take (wsize g) (drop k dat) else databuf c"
    have buf: "wsize g \<le> length ?buf" using assms(6) r(2) by auto
    obtain c1 where c1: "nand_read_page_swecc g ops ?buf ?c = (D rp @ drop (wsize g) ?buf, c1)" "ok (hw c1)" "main (hw c1) = main (hw c)"
      "spare (hw c1) = spare (hw c)" "failed c1 = failed c" "fl c1 = fl c" "pagebuf c1 = pagebuf c" "databuf c1 = databuf c" "bbt c1 = bbt c" "oobwbuf c1 = oobwbuf c"
      using page_read[OF r(1,3,4,5) buf, of ?c] by auto
    define c2 where "c2 = (if bytes = wsize g then c1 else c1\<lparr>databuf := D rp @ drop (wsize g) (databuf c), pagebuf := rp\<rparr>)"
    define c3 where "c3 = (if no_readrdy g then c2 else c2\<lparr>hw := wait_ready ops (hw c2)\<rparr>)"
    have "col = 0" if "bytes = wsize g" using that assms(3,4) by auto
    then have "read_step g ops rp col True bytes k dat c = (put_at k (take bytes (drop col (D rp))) dat, False, c3)"
      using False c1(1) one_chip(2)[OF r(3,4)] assms(3,4) len by (auto simp: read_step_def c2_def c3_def Let_def)
    moreover have "same c c3" using c1 wait_law[OF c1(2)] r(2) len by (auto simp: same_def c2_def c3_def)
    moreover have "reads_as D P c3" using assms(1) c1 wait_law[OF c1(2)] len by (auto simp: reads_as_def c2_def c3_def)
    moreover have "failed c3 = failed c \<and> fl c3 = fl c" using c1 by (auto simp: c2_def c3_def)
    ultimately show ?thesis using out by metis
  qed
qed

lemma reads_as_hw:
  "reads_as D P c \<Longrightarrow> ok h \<Longrightarrow> main h = main (hw c) \<Longrightarrow> spare h = spare (hw c) \<Longrightarrow> reads_as D P (c\<lparr>hw := h\<rparr>)"
  by (simp add: reads_as_def)

lemma read_loop_bytes:
  "reads_as D P c \<Longrightarrow> {rp..rp + (int col + int n - 1) div int (wsize g)} \<subseteq> P \<Longrightarrow> col < wsize g \<Longrightarrow> 0 < n \<Longrightarrow> k + n \<le> length dat \<Longrightarrow>
    \<exists>c'. read_loop g ops cn rp col True n k dat c = Some (put_at k (bytes_of (wsize g) D (rp * int (wsize g) + int col) n) dat, 0, c') \<and>
      same c c' \<and> reads_as D P c' \<and> failed c' = failed c \<and> fl c' = fl c"
proof (induction n arbitrary: cn rp col k dat c rule: less_induct)
  case (less n)
  let ?ws = "wsize g" and ?b = "min (wsize g - col) n"
  have "0 \<le> (int col + int n - 1) div int ?ws" using less.prems(4) wsize_pos by (intro pos_imp_zdiv_nonneg_iff[THEN iffD2]) auto
  then have "rp \<in> P" using less.prems(2) by auto
  moreover have b: "0 < ?b" "k + ?b \<le> length dat" using less.prems(3,4,5) by auto
  ultimately obtain sd c1 where s: "read_step g ops rp col True ?b k dat c = (put_at k (bytes_of ?ws D (rp * int ?ws + int col) ?b) dat, sd, c1)"
    "same c c1" "reads_as D P c1" "failed c1 = failed c" "fl c1 = fl c"
    using read_step_page[OF less.prems(1) _ less.prems(3), of rp ?b n k dat] by blast
  let ?dat = "put_at k (bytes_of ?ws D (rp * int ?ws + int col) ?b) dat"
  show ?case
  proof (cases "n - ?b = 0")
    case True
    then have "?b = n" by simp
    then show ?thesis using s True by (subst read_loop.simps) (auto simp: Let_def)
  next
    case False
    then have bw: "?b = ?ws - col" "?ws - col < n" by auto
    define cn' c2 where "cn' = (if (rp + 1) AND pagemask g = 0 then cn + 1 else cn)"
      and "c2 = (if (rp + 1) AND pagemask g = 0 then c1\<lparr>hw := select_chip ops (cn + 1) (select_chip ops (- 1) (hw c1))\<rparr> else c1)"
    have ok1: "ok (hw c1)" using s(2) by (simp add: same_def)
    have sel: "ok (select_chip ops (cn + 1) (select_chip ops (- 1) (hw c1)))"
      "main (select_chip ops (cn + 1) (select_chip ops (- 1) (hw c1))) = main (hw c1)"
      "spare (select_chip ops (cn + 1) (select_chip ops (- 1) (hw c1))) = spare (hw c1)"
      using select_law[OF ok1, of "- 1"] select_law by metis+
    have c2: "same c c2" "reads_as D P c2" "failed c2 = failed c" "fl c2 = fl c"
      using s same_hw[OF s(2) sel] reads_as_hw[OF s(3) sel] by (auto simp: c2_def)
    have pg: "{rp + 1..rp + 1 + (int 0 + int (n - ?b) - 1) div int ?ws} \<subseteq> P"
    proof -
      have "int col + int n - 1 = (int (n - ?b) - 1) + 1 * int ?ws" using bw less.prems(3) by auto
      then have "(int col + int n - 1) div int ?ws = (int (n - ?b) - 1) div int ?ws + 1"
        using wsize_pos by (simp only: div_mult_self1)
      then show ?thesis using less.prems(2) by auto
    qed
    have "length ?dat = length dat" using b(2) by (simp add: put_at_length)
    then have "\<exists>c3. read_loop g ops cn' (rp + 1) 0 True (n - ?b) (k + ?b) ?dat c2 =
        Some (put_at (k + ?b) (bytes_of ?ws D ((rp + 1) * int ?ws + int 0) (n - ?b)) ?dat, 0, c3) \<and>
      same c2 c3 \<and> reads_as D P c3 \<and> failed c3 = failed c2 \<and> fl c3 = fl c2"
      using b less.prems(5) False wsize_pos by (intro less.IH[OF _ c2(2) pg]) simp_all
    then obtain c3 where c3: "read_loop g ops cn' (rp + 1) 0 True (n - ?b) (k + ?b) ?dat c2 =
        Some (put_at (k + ?b) (bytes_of ?ws D ((rp + 1) * int ?ws + int 0) (n - ?b)) ?dat, 0, c3)"
      "same c2 c3" "reads_as D P c3" "failed c3 = failed c2" "fl c3 = fl c2" by blast
    have a: "(rp + 1) * int ?ws + int 0 = rp * int ?ws + int col + int ?b" using bw(1) less.prems(3) by (simp add: distrib_right)
    have "put_at (k + ?b) (bytes_of ?ws D (rp * int ?ws + int col + int ?b) (n - ?b)) ?dat =
        put_at k (bytes_of ?ws D (rp * int ?ws + int col) ?b @ bytes_of ?ws D (rp * int ?ws + int col + int ?b) (n - ?b)) dat"
      using put_at_twice[of k "bytes_of ?ws D (rp * int ?ws + int col) ?b"] less.prems(5) by simp
    also have "\<dots> = put_at k (bytes_of ?ws D (rp * int ?ws + int col) n) dat"
      using bytes_of_append[of ?ws D "rp * int ?ws + int col" ?b "n - ?b"] by simp
    finally have dat: "put_at (k + ?b) (bytes_of ?ws D (rp * int ?ws + int col + int ?b) (n - ?b)) ?dat = put_at k (bytes_of ?ws D (rp * int ?ws + int col) n) dat" .
    have "read_loop g ops cn rp col True n k dat c = read_loop g ops cn' (rp + 1) 0 True (n - ?b) (k + ?b) ?dat c2"
      using False s(1) no_incr by (subst read_loop.simps) (simp add: Let_def cn'_def c2_def)
    then show ?thesis using c3 c2 same_trans[OF c2(1) c3(2)] unfolding a dat by auto
  qed
qed

text \<open>The page numbers that a stretch of bytes touches.\<close>

definition pages :: "int \<Rightarrow> nat \<Rightarrow> int set" where
  "pages a n = {a div int (wsize g)..(a + int n - 1) div int (wsize g)}"

lemma nand_read_bytes:
  assumes "reads_as D P c" "fl c = FL_READY" "0 \<le> a" "0 < n" "a + int n \<le> msize g" "pages a n \<subseteq> P" "n \<le> length dat"
  shows "\<exists>r c'. nand_read g ops a n n dat c = Some (r, n, put_at 0 (bytes_of (wsize g) D a n) dat, c') \<and> r \<in> {0, - EUCLEAN} \<and>
    same c c' \<and> reads_as D P c' \<and> fl c' = FL_READY"
proof -
  let ?ws = "wsize g"
  let ?rp = "drop_bit (page_shift g) a" and ?col = "nat (a AND (int ?ws - 1))"
  have rp: "?rp = a div int ?ws" by (simp add: drop_bit_eq_div page_size(1))
  have "int ?ws - 1 = mask (page_shift g)" by (simp add: page_size(1) mask_eq_exp_minus_1)
  then have "a AND (int ?ws - 1) = a mod int ?ws" by (simp add: page_size(1) flip: take_bit_eq_mask take_bit_eq_mod)
  then have col: "int ?col = a mod int ?ws" "?col < ?ws" using wsize_pos by (auto simp: nat_less_iff)
  have a: "a div int ?ws * int ?ws + int ?col = a" using col(1) by simp
  have last: "?rp + (int ?col + int n - 1) div int ?ws = (a + int n - 1) div int ?ws"
  proof -
    have "a + int n - 1 = (int ?col + int n - 1) + (a div int ?ws) * int ?ws" using a by linarith
    then show ?thesis using wsize_pos rp by (simp only: div_mult_self1)
  qed
  let ?c = "c\<lparr>fl := FL_READING, hw := select_chip ops (drop_bit (chip_shift g) a) (hw c)\<rparr>"
  have ok: "ok (hw c)" using assms(1) by (simp add: reads_as_def)
  have "reads_as D P ?c" using assms(1) select_law[OF ok] by (simp add: reads_as_def)
  moreover have "{?rp..?rp + (int ?col + int n - 1) div int ?ws} \<subseteq> P" using assms(6) unfolding pages_def last[symmetric] rp .
  ultimately obtain c1 where c1: "read_loop g ops (drop_bit (chip_shift g) a) ?rp ?col True n 0 dat ?c =
      Some (put_at 0 (bytes_of ?ws D (?rp * int ?ws + int ?col) n) dat, 0, c1)" "same ?c c1" "reads_as D P c1" "failed c1 = failed c"
    using read_loop_bytes[of D P ?c ?rp ?col n 0 dat] col(2) assms(4,7) by auto
  define c2 where "c2 = nand_release_device ops c1"
  have ok1: "ok (hw c1)" using c1(2) by (simp add: same_def)
  have c2: "same c c2" "reads_as D P c2" "fl c2 = FL_READY"
    using c1(2,3) select_law[OF ok1] select_law[OF ok] by (auto simp: c2_def same_def reads_as_def nand_release_device_def)
  have "nand_read g ops a n n dat c = Some (if corrected c1 - corrected c \<noteq> 0 then - EUCLEAN else 0, n, put_at 0 (bytes_of ?ws D a n) dat, c2)"
    using assms(2,4,5) c1(1,4) a rp by (simp add: nand_read_def nand_get_device_def nand_do_read_ops_def Let_def c2_def)
  then show ?thesis using c2 by auto
qed

text \<open>A page with a step that cannot be corrected: what is read of it stays in the buffer of the chip.\<close>

definition uncorrectable :: "'s \<Rightarrow> int \<Rightarrow> bool" where
  "uncorrectable h p \<longleftrightarrow> (\<exists>i<eccsteps g. fst (nand_correct_data (chunk i (main h p)) (ecc_at i (page_code g (spare h p)))
    (nand_calculate_ecc (chunk i (main h p)))) = - 1)"

lemma page_failed:
  assumes "ok h" "0 \<le> p" "p < np" "uncorrectable h p" "wsize g \<le> length buf" "hw c = cmdfunc ops NAND_CMD_READ0 0 p h" "eccsteps g < 2 ^ 32"
  shows "\<exists>b c'. nand_read_page_swecc g ops buf c = (b, c') \<and> length b = length buf \<and> ok (hw c') \<and> failed c' \<noteq> failed c \<and>
    fl c' = fl c \<and> pagebuf c' = pagebuf c"
proof -
  obtain m h1 where r1: "read_buf ops (wsize g) (hw c) = (m, h1)" by (metis surj_pair)
  obtain s h2 where r2: "read_buf ops (oobsize g) h1 = (s, h2)" by (metis surj_pair)
  have l: "m = main h p" "s = spare h p" "ok h2" using read_law[OF assms(1-3), of m h1 s h2] r1 r2 assms(6) by auto
  have len: "length m = wsize g" "length s = oobsize g" using page_len[OF assms(1-3)] l by auto
  define b0 where "b0 = put_at 0 m buf"
  define c1 where "c1 = c\<lparr>hw := h2, oobrbuf := put_at 0 s (oobrbuf c)\<rparr>"
  define code where "code = map (\<lambda>i. oobrbuf c1 ! (eccpos g ! i)) [0..<3 * eccsteps g]"
  have b0: "length b0 = length buf" "256 * (0 + eccsteps g) \<le> length b0" using put_at_length[of 0 m buf] len assms(5) page_size(2) by (auto simp: b0_def)
  have ch: "chunk i b0 = chunk i m" if "i < eccsteps g" for i
    using that chunk_append[of i m "drop (wsize g) buf"] len(1) page_size(2) by (simp add: b0_def put_at_def)
  have code: "code = page_code g s"
    using ecc_layout len(2) by (auto simp: code_def page_code_def c1_def put_at_def nth_append)
  obtain i where i: "i < eccsteps g" "fst (nand_correct_data (chunk i m) (ecc_at i code) (nand_calculate_ecc (chunk i m))) = - 1"
    using assms(4) unfolding uncorrectable_def code l(1,2) by blast
  have "fst (nand_correct_data (chunk i b0) (ecc_at i code) (ecc_at i (calc_loop (eccsteps g) 0 b0))) = - 1"
    using i calc_loop_at[of i "eccsteps g" 0 b0] ch by simp
  then obtain b m x where cl: "correct_loop (eccsteps g) 0 code (calc_loop (eccsteps g) 0 b0) b0 c1 = (b, c1\<lparr>failed := failed c1 + of_nat m, corrected := x\<rparr>)"
    "length b = length b0" "m \<le> eccsteps g" "0 < m"
    using correct_loop_counts[OF b0(2), of code "calc_loop (eccsteps g) 0 b0" c1] i(1) by fastforce
  have "of_nat m \<noteq> (0 :: u32)" using cl(3,4) assms(7) by (simp add: word_unat_eq_iff unat_of_nat)
  moreover have "nand_read_page_swecc g ops buf c = (b, c1\<lparr>failed := failed c1 + of_nat m, corrected := x\<rparr>)"
    using cl(1) r1 r2 by (simp add: nand_read_page_swecc_def nand_read_page_raw_def Let_def b0_def[symmetric] c1_def[symmetric] code_def[symmetric])
  ultimately show ?thesis using cl(2) b0(1) l(3) by (simp add: c1_def)
qed

text \<open>The address of a byte of a page.\<close>

lemma page_address:
  assumes "col < wsize g"
  shows "drop_bit (page_shift g) (p * int (wsize g) + int col) = p" "nat ((p * int (wsize g) + int col) AND (int (wsize g) - 1)) = col"
proof -
  have w: "0 < int (wsize g)" using wsize_pos by simp
  have "drop_bit (page_shift g) (p * int (wsize g) + int col) = (p * int (wsize g) + int col) div int (wsize g)"
    by (simp add: drop_bit_eq_div page_size(1))
  then show "drop_bit (page_shift g) (p * int (wsize g) + int col) = p" using assms w by (simp add: div_pos_pos_trivial)
  have "int (wsize g) - 1 = mask (page_shift g)" by (simp add: page_size(1) mask_eq_exp_minus_1)
  then have "(p * int (wsize g) + int col) AND (int (wsize g) - 1) = (p * int (wsize g) + int col) mod int (wsize g)"
    by (simp add: page_size(1) flip: take_bit_eq_mask take_bit_eq_mod)
  then show "nat ((p * int (wsize g) + int col) AND (int (wsize g) - 1)) = col" using assms w by simp
qed

lemma failed_read_repeats:
  assumes "ok (hw c)" "fl c = FL_READY" "0 \<le> p" "p < np" "uncorrectable (hw c) p" "wsize g \<le> length (databuf c)" "pagebuf c \<noteq> p"
    and "0 < n" "col + n \<le> wsize g" "n < wsize g" "n \<le> length dat" "eccsteps g < 2 ^ 32"
  shows "\<exists>bs c1 c2. length bs = n \<and> nand_read g ops (p * int (wsize g) + int col) n n dat c = Some (- EBADMSG, n, put_at 0 bs dat, c1) \<and>
    nand_read g ops (p * int (wsize g) + int col) n n dat c1 = Some (0, n, put_at 0 bs dat, c2)"
proof -
  let ?a = "p * int (wsize g) + int col"
  note pa = page_address[of col p]
  have col: "col < wsize g" using assms(8,9) by simp
  have mask: "p AND pagemask g = p" using one_chip(2) assms(3,4) by blast
  have "(p + 1) * int (wsize g) \<le> msize g" unfolding one_chip(1) using assms(4) by (intro mult_right_mono) auto
  then have fits: "\<not> msize g < ?a + int n" using assms(9) by (simp add: distrib_right)
  have byt: "min (wsize g - col) n = n" using assms(9) by simp
  let ?h = "select_chip ops (drop_bit (chip_shift g) ?a) (hw c)"
  have h: "ok ?h" "uncorrectable ?h p" using select_law[OF assms(1)] assms(5) by (auto simp: uncorrectable_def)
  let ?c0 = "c\<lparr>fl := FL_READING, hw := cmdfunc ops NAND_CMD_READ0 0 p ?h\<rparr>"
  obtain b c1 where pf: "nand_read_page_swecc g ops (databuf c) ?c0 = (b, c1)" "length b = length (databuf c)" "failed c1 \<noteq> failed c"
    using page_failed[OF h(1) assms(3,4) h(2) assms(6), of ?c0] assms(12) by auto
  define bs where "bs = take n (drop col b)"
  define c2 where "c2 = nand_release_device ops ((if no_readrdy g then c1 else c1\<lparr>hw := wait_ready ops (hw c1)\<rparr>)\<lparr>databuf := b, pagebuf := p\<rparr>)"
  have "read_step g ops p col True n 0 dat (c\<lparr>fl := FL_READING, hw := ?h\<rparr>) =
      (put_at 0 bs dat, False, (if no_readrdy g then c1 else c1\<lparr>hw := wait_ready ops (hw c1)\<rparr>)\<lparr>databuf := b, pagebuf := p\<rparr>)"
    using pf(1) assms(7,10) by (simp add: read_step_def mask bs_def)
  then have "nand_read g ops ?a n n dat c = Some (- EBADMSG, n, put_at 0 bs dat, c2)"
    using fits assms(2,8) pf(3) byt
    by (simp add: nand_read_def nand_get_device_def nand_do_read_ops_def pa[OF col] read_loop.simps[of g ops _ p] c2_def)
  moreover have "\<exists>c3. nand_read g ops ?a n n dat c2 = Some (0, n, put_at 0 bs dat, c3)"
    using fits assms(8) byt
    by (simp add: nand_read_def nand_get_device_def nand_do_read_ops_def pa[OF col] read_loop.simps[of g ops _ p] read_step_def
        c2_def nand_release_device_def bs_def)
  moreover have "length bs = n" using pf(2) assms(6,9) by (simp add: bs_def)
  ultimately show ?thesis by blast
qed

text \<open>Writing an erased page.\<close>

definition blank :: "'s \<Rightarrow> int \<Rightarrow> bool" where
  "blank h p \<longleftrightarrow> main h p = replicate (wsize g) 0xff \<and> spare h p = replicate (oobsize g) 0xff"

lemma page_written:
  assumes "ok (hw c)" "0 \<le> p" "p < np" "blank (hw c) p" "wsize g \<le> length buf" "length (oobwbuf c) = oobsize g"
  shows "\<exists>c' s. nand_write_page g ops buf p c = (0, c') \<and> ok (hw c') \<and> main (hw c') = (main (hw c))(p := take (wsize g) buf) \<and>
    spare (hw c') = (spare (hw c))(p := s) \<and> readable g (take (wsize g) buf) (take (wsize g) buf) s \<and>
    length (oobwbuf c') = oobsize g \<and> databuf c' = databuf c \<and> pagebuf c' = pagebuf c \<and> fl c' = fl c \<and> bbt c' = bbt c"
proof -
  let ?d = "take (wsize g) buf" and ?calc = "calc_loop (eccsteps g) 0 buf"
  let ?s = "oob_store (eccpos g) ?calc (oobwbuf c)"
  have len: "length ?d = wsize g" "length ?s = oobsize g" using assms(5,6) by simp_all
  obtain st h where w: "waitfunc ops (cmdfunc ops NAND_CMD_PAGEPROG (- 1) (- 1) (write_buf ops ?s (write_buf ops ?d (cmdfunc ops NAND_CMD_SEQIN 0 p (hw c))))) = (st, h)"
    by (metis surj_pair)
  have h: "st AND NAND_STATUS_FAIL = 0" "ok h" "main h = (main (hw c))(p := ?d)" "spare h = (spare (hw c))(p := ?s)"
    using prog_law[OF assms(1-3) len w] assms(4) len by (simp_all add: blank_def and_ones)
  have ps: "take (3 * eccsteps g) (eccpos g) = eccpos g" using ecc_layout(1) by simp
  have "nand_write_page g ops buf p c = (0, c\<lparr>oobwbuf := ?s, hw := h\<rparr>)"
    using w h(1) assms(6) ps by (simp add: nand_write_page_def nand_write_page_swecc_def nand_write_page_raw_def Let_def)
  moreover have "page_code g ?s = ?calc"
    unfolding page_code_def using ecc_layout assms(6) calc_loop_length[of "eccsteps g" 0 buf]
    by (intro nth_equalityI) (auto simp: oob_store_nth)
  moreover have "chunk i buf = chunk i ?d" if "i < eccsteps g" for i
    using that chunk_append[of i ?d "drop (wsize g) buf"] len(1) page_size(2) by simp
  ultimately show ?thesis using h len calc_loop_at[of _ "eccsteps g" 0 buf]
    by (intro exI[of _ "c\<lparr>oobwbuf := ?s, hw := h\<rparr>"] exI[of _ ?s]) (auto simp: readable_def chunk_reads_def)
qed

text \<open>The pages from \<open>rp\<close> on hold the buffer, the others what they held.\<close>

definition written :: "int \<Rightarrow> nat \<Rightarrow> u8 list \<Rightarrow> (int \<Rightarrow> u8 list) \<Rightarrow> int \<Rightarrow> u8 list" where
  "written rp m buf D p = (if rp \<le> p \<and> p < rp + int m then take (wsize g) (drop (nat (p - rp) * wsize g) buf) else D p)"

lemma written_Suc: "written (rp + 1) m (drop (wsize g) buf) (D(rp := take (wsize g) buf)) = written rp (Suc m) buf D"
proof (rule ext)
  fix p
  show "written (rp + 1) m (drop (wsize g) buf) (D(rp := take (wsize g) buf)) p = written rp (Suc m) buf D p"
  proof (cases "rp < p \<and> p < rp + 1 + int m")
    case True
    then have "nat (p - rp) = Suc (nat (p - (rp + 1)))" by arith
    then show ?thesis using True by (simp add: written_def add.commute)
  qed (auto simp: written_def)
qed

lemma bytes_of_written:
  assumes "k + n \<le> m * wsize g" "m * wsize g \<le> length buf"
  shows "bytes_of (wsize g) (written rp m buf D) (rp * int (wsize g) + int k) n = take n (drop k buf)"
proof (rule nth_equalityI)
  show "length (bytes_of (wsize g) (written rp m buf D) (rp * int (wsize g) + int k) n) = length (take n (drop k buf))"
    using assms by simp
next
  fix i assume "i < length (bytes_of (wsize g) (written rp m buf D) (rp * int (wsize g) + int k) n)"
  then have i: "i < n" by simp
  let ?q = "(k + i) div wsize g" and ?r = "(k + i) mod wsize g"
  have w: "0 < int (wsize g)" using wsize_pos by simp
  have a: "rp * int (wsize g) + int k + int i = int (k + i) + rp * int (wsize g)" by simp
  have d: "(rp * int (wsize g) + int k + int i) div int (wsize g) = rp + int ?q" "(rp * int (wsize g) + int k + int i) mod int (wsize g) = int ?r"
    unfolding a using w by (simp_all only: div_mult_self1[OF less_imp_neq[OF w, symmetric]] mod_mult_self1 zdiv_int zmod_int add.commute)
  have qr: "?q * wsize g + ?r = k + i" by simp
  have "k + i < m * wsize g" using i assms(1) by simp
  then have "?q < m" using wsize_pos by (simp add: less_mult_imp_div_less)
  moreover have "?r < wsize g" "?q * wsize g + ?r < length buf" using wsize_pos i assms unfolding qr by simp_all
  moreover have "?q * wsize g \<le> length buf" using calculation(3) div_times_less_eq_dividend[of "k + i" "wsize g"] unfolding qr by linarith
  ultimately have "written rp m buf D (rp + int ?q) ! ?r = buf ! (k + i)" by (simp add: written_def qr)
  then show "bytes_of (wsize g) (written rp m buf D) (rp * int (wsize g) + int k) n ! i = take n (drop k buf) ! i"
    using i assms by (simp add: bytes_of_def d)
qed

lemma write_loop_pages:
  "reads_as D P c \<Longrightarrow> 0 < m \<Longrightarrow> 0 \<le> rp \<Longrightarrow> rp + int m \<le> np \<Longrightarrow> \<forall>p\<in>{rp..<rp + int m}. blank (hw c) p \<Longrightarrow> m * wsize g \<le> length buf \<Longrightarrow>
    length (oobwbuf c) = oobsize g \<Longrightarrow> pagebuf c \<notin> {rp..<rp + int m} \<Longrightarrow>
    \<exists>c'. write_loop g ops cn rp (m * wsize g) buf c = Some (0, 0, c') \<and> reads_as (written rp m buf D) (P \<union> {rp..<rp + int m}) c' \<and>
      length (oobwbuf c') = oobsize g \<and> fl c' = fl c \<and> bbt c' = bbt c \<and> length (databuf c') = length (databuf c) \<and>
      (\<forall>p. p \<notin> {rp..<rp + int m} \<longrightarrow> main (hw c') p = main (hw c) p \<and> spare (hw c') p = spare (hw c) p)"
proof (induction m arbitrary: cn rp buf c D P)
  case (Suc m)
  have rp: "0 \<le> rp" "rp < np" "blank (hw c) rp" "ok (hw c)" "wsize g \<le> length buf" using Suc.prems by (auto simp: reads_as_def)
  obtain c1 s where c1: "nand_write_page g ops buf rp c = (0, c1)" "ok (hw c1)" "main (hw c1) = (main (hw c))(rp := take (wsize g) buf)"
    "spare (hw c1) = (spare (hw c))(rp := s)" "readable g (take (wsize g) buf) (take (wsize g) buf) s" "length (oobwbuf c1) = oobsize g"
    "databuf c1 = databuf c" "pagebuf c1 = pagebuf c" "fl c1 = fl c" "bbt c1 = bbt c"
    using page_written[OF rp(4,1,2,3,5) Suc.prems(7)] by auto
  have r1: "reads_as (D(rp := take (wsize g) buf)) (insert rp P) c1"
    using Suc.prems(1,8) c1 rp by (auto simp: reads_as_def)
  show ?case
  proof (cases "m = 0")
    case True
    have "written rp (Suc m) buf D = D(rp := take (wsize g) buf)" using True by (auto simp: written_def)
    moreover have "{rp..<rp + int (Suc m)} = {rp}" using True by auto
    ultimately show ?thesis using True c1 r1 one_chip(2)[OF rp(1,2)] wsize_pos
      by (subst write_loop.simps) (auto simp: Let_def)
  next
    case False
    define cn' c2 where "cn' = (if (rp + 1) AND pagemask g = 0 then cn + 1 else cn)"
      and "c2 = (if (rp + 1) AND pagemask g = 0 then c1\<lparr>hw := select_chip ops (cn + 1) (select_chip ops (- 1) (hw c1))\<rparr> else c1)"
    have sel: "ok (select_chip ops (cn + 1) (select_chip ops (- 1) (hw c1)))"
      "main (select_chip ops (cn + 1) (select_chip ops (- 1) (hw c1))) = main (hw c1)"
      "spare (select_chip ops (cn + 1) (select_chip ops (- 1) (hw c1))) = spare (hw c1)"
      using select_law[OF c1(2), of "- 1"] select_law by metis+
    have c2: "reads_as (D(rp := take (wsize g) buf)) (insert rp P) c2" "main (hw c2) = main (hw c1)" "spare (hw c2) = spare (hw c1)"
      "length (oobwbuf c2) = oobsize g" "databuf c2 = databuf c" "pagebuf c2 = pagebuf c" "fl c2 = fl c" "bbt c2 = bbt c"
      using r1 c1 sel reads_as_hw[OF r1 sel] by (auto simp: c2_def)
    have step: "write_loop g ops cn rp (Suc m * wsize g) buf c = write_loop g ops cn' (rp + 1) (m * wsize g) (drop (wsize g) buf) c2"
      using False c1(1) one_chip(2)[OF rp(1,2)] wsize_pos by (subst write_loop.simps) (simp add: Let_def cn'_def c2_def)
    have "\<forall>p\<in>{rp + 1..<rp + 1 + int m}. blank (hw c2) p" using Suc.prems(5) c2(2,3) c1(3,4) by (auto simp: blank_def)
    moreover have "pagebuf c2 \<notin> {rp + 1..<rp + 1 + int m}" "m * wsize g \<le> length (drop (wsize g) buf)" "rp + 1 + int m \<le> np" "0 \<le> rp + 1" "0 < m"
      using Suc.prems c2(6) False by auto
    ultimately obtain c3 where c3: "write_loop g ops cn' (rp + 1) (m * wsize g) (drop (wsize g) buf) c2 = Some (0, 0, c3)"
      "reads_as (written (rp + 1) m (drop (wsize g) buf) (D(rp := take (wsize g) buf))) (insert rp P \<union> {rp + 1..<rp + 1 + int m}) c3"
      "length (oobwbuf c3) = oobsize g" "fl c3 = fl c2" "bbt c3 = bbt c2" "length (databuf c3) = length (databuf c2)"
      "\<forall>p. p \<notin> {rp + 1..<rp + 1 + int m} \<longrightarrow> main (hw c3) p = main (hw c2) p \<and> spare (hw c3) p = spare (hw c2) p"
      using Suc.IH[OF c2(1), of "rp + 1" "drop (wsize g) buf" cn'] c2(4) by blast
    moreover have "insert rp P \<union> {rp + 1..<rp + 1 + int m} = P \<union> {rp..<rp + int (Suc m)}" by auto
    ultimately show ?thesis using step c1(3,4) c2 unfolding written_Suc by auto
  qed
qed simp

lemma page_offset: "(p * int (wsize g)) AND (int (wsize g) - 1) = 0" "drop_bit (page_shift g) (p * int (wsize g)) = p"
  "push_bit (page_shift g) p = p * int (wsize g)"
proof -
  have "int (wsize g) - 1 = mask (page_shift g)" by (simp add: page_size(1) mask_eq_exp_minus_1)
  then have "(p * int (wsize g)) AND (int (wsize g) - 1) = take_bit (page_shift g) (p * int (wsize g))" by (simp flip: take_bit_eq_mask)
  then show "(p * int (wsize g)) AND (int (wsize g) - 1) = 0" by (simp add: page_size(1) take_bit_eq_mod)
qed (simp_all add: drop_bit_eq_div push_bit_eq_mult page_size(1))

lemma nand_write_pages:
  assumes "reads_as D P c" "fl c = FL_READY" "0 < m" "0 \<le> rp" "rp + int m \<le> np" "\<forall>p\<in>{rp..<rp + int m}. blank (hw c) p"
    "m * wsize g \<le> length buf" "length (oobwbuf c) = oobsize g"
  shows "\<exists>c'. nand_write g ops (rp * int (wsize g)) (m * wsize g) (m * wsize g) buf c = Some (0, m * wsize g, c') \<and>
    reads_as (written rp m buf D) (P \<union> {rp..<rp + int m}) c' \<and> fl c' = FL_READY \<and> bbt c' = bbt c \<and> length (oobwbuf c') = oobsize g \<and>
    (\<forall>p. p \<notin> {rp..<rp + int m} \<longrightarrow> main (hw c') p = main (hw c) p \<and> spare (hw c') p = spare (hw c) p)"
proof -
  let ?a = "rp * int (wsize g)" and ?n = "m * wsize g"
  let ?c = "c\<lparr>fl := FL_WRITING, hw := select_chip ops (drop_bit (chip_shift g) ?a) (hw c)\<rparr>"
  have ok: "ok (hw c)" using assms(1) by (simp add: reads_as_def)
  then have okc: "ok (hw ?c)" using select_law by simp
  obtain b h where st: "read_byte ops (cmdfunc ops NAND_CMD_STATUS (- 1) (- 1) (hw ?c)) = (b, h)" by (metis surj_pair)
  have h: "b AND NAND_STATUS_WP \<noteq> 0" "ok h" "main h = main (hw c)" "spare h = spare (hw c)"
    using status_law[OF okc st] select_law[OF ok] by auto
  define pb where "pb = (if ?a \<le> push_bit (page_shift g) (pagebuf c) \<and> push_bit (page_shift g) (pagebuf c) < ?a + int ?n then - 1 else pagebuf c)"
  let ?c1 = "c\<lparr>fl := FL_WRITING, hw := h, pagebuf := pb\<rparr>"
  have w: "0 < int (wsize g)" using wsize_pos by simp
  have an: "?a + int ?n = (rp + int m) * int (wsize g)" by (simp add: distrib_right)
  have "pb \<notin> {rp..<rp + int m}" unfolding pb_def page_offset(3) an using assms(4) w by (auto simp: mult_le_cancel_right mult_less_cancel_right)
  moreover have "reads_as D P ?c1" using assms(1) h by (auto simp: reads_as_def pb_def)
  moreover have "\<forall>p\<in>{rp..<rp + int m}. blank (hw ?c1) p" using assms(6) h by (simp add: blank_def)
  ultimately obtain c2 where c2: "write_loop g ops (drop_bit (chip_shift g) ?a) rp ?n buf ?c1 = Some (0, 0, c2)"
    "reads_as (written rp m buf D) (P \<union> {rp..<rp + int m}) c2" "length (oobwbuf c2) = oobsize g" "bbt c2 = bbt c"
    "\<forall>p. p \<notin> {rp..<rp + int m} \<longrightarrow> main (hw c2) p = main (hw c) p \<and> spare (hw c2) p = spare (hw c) p"
    using write_loop_pages[of D P ?c1 m rp buf "drop_bit (chip_shift g) ?a"] assms(3,4,5,7,8) h by auto
  have ok2: "ok (hw c2)" using c2(2) by (simp add: reads_as_def)
  have "int ?n AND (int (wsize g) - 1) = 0" using page_offset(1)[of "int m"] by simp
  moreover have "\<not> msize g < ?a + int ?n" unfolding an one_chip(1) using assms(5) w by (simp add: mult_le_cancel_right not_less)
  moreover have "0 < ?n" using assms(3) wsize_pos by simp
  ultimately have "nand_write g ops ?a ?n ?n buf c = Some (0, ?n, nand_release_device ops c2)"
    using assms(2) st h(1) c2(1) page_offset(1,2)[of rp]
    by (auto simp: nand_write_def nand_get_device_def nand_do_write_ops_def nand_check_wp_def Let_def pb_def)
  then show ?thesis using c2 select_law[OF ok2, of "- 1"] by (auto simp: nand_release_device_def reads_as_def)
qed

end

end
