(* ===== verification/Nand_Skip.thy ===== *)
theory Nand_Skip
  imports Nand_Inv
begin

unbundle bit_operations_syntax

text \<open>
  Reading around bad blocks (\<^verbatim>\<open>check_skip_len\<close> and \<^verbatim>\<open>nand_read_skip_bad\<close> of \<^verbatim>\<open>nand_util.c\<close>). The reference
  is the list of the good addresses of the device from the start on: the function reads the first ones of
  them, and refuses a request for which there are not enough. The contract \<open>nand_dev\<close> of the
  chip is extended by the blocks and by the bad block table in memory.
\<close>

section \<open>Good addresses\<close>

definition good_addrs :: "int \<Rightarrow> (int \<Rightarrow> bool) \<Rightarrow> int \<Rightarrow> int \<Rightarrow> int list" where
  "good_addrs es bad a e = filter (\<lambda>x. \<not> bad (x div es)) [a..e - 1]"

lemma good_addrs_split: "a \<le> b \<Longrightarrow> b \<le> e \<Longrightarrow> good_addrs es bad a e = good_addrs es bad a b @ good_addrs es bad b e"
proof (cases "b = e")
  case True
  then show ?thesis by (simp add: good_addrs_def)
next
  case False
  assume "a \<le> b" "b \<le> e"
  then have "[a..e - 1] = [a..b - 1] @ [b..e - 1]" using False by (intro upto_split1) auto
  then show ?thesis by (simp add: good_addrs_def)
qed

lemma good_addrs_block:
  assumes "\<And>x. a \<le> x \<Longrightarrow> x < b \<Longrightarrow> x div es = q"
  shows "good_addrs es bad a b = (if bad q then [] else [a..b - 1])"
  using assms by (auto simp: good_addrs_def filter_empty_conv filter_id_conv)

definition byte_of :: "nat \<Rightarrow> (int \<Rightarrow> u8 list) \<Rightarrow> int \<Rightarrow> u8" where
  "byte_of ws D a = D (a div int ws) ! nat (a mod int ws)"

lemma bytes_of_upto: "bytes_of ws D a n = map (byte_of ws D) [a..a + int n - 1]"
proof (rule nth_equalityI)
  fix i assume "i < length (bytes_of ws D a n)"
  then show "bytes_of ws D a n ! i = map (byte_of ws D) [a..a + int n - 1] ! i" by (simp add: bytes_of_def byte_of_def nth_upto)
qed simp

lemma div_below:
  fixes a e n :: int
  assumes "0 < e" "a < n * e"
  shows "a div e < n"
proof (rule ccontr)
  assume "\<not> a div e < n"
  then have "n * e \<le> a div e * e" using assms(1) by (intro mult_right_mono) auto
  moreover have "a div e * e \<le> a" using pos_mod_sign[OF assms(1), of a] by (simp add: minus_mod_eq_div_mult[symmetric])
  ultimately show False using assms(2) by linarith
qed

section \<open>Blocks\<close>

locale nand_blocks = nand_dev +
  fixes nb :: int and T :: "u8 list"
  assumes block_size: "esize g = 2 ^ phys_erase_shift g" "int (wsize g) dvd esize g" "msize g = nb * esize g"
    and table: "\<And>b. 0 \<le> b \<Longrightarrow> b < nb \<Longrightarrow> nand_isbad_bbt g T (b * esize g) False \<noteq> None"
begin

definition bad :: "int \<Rightarrow> bool" where
  "bad b \<longleftrightarrow> nand_isbad_bbt g T (b * esize g) False \<noteq> Some 0"

lemma es_pos: "0 < esize g"
  by (simp add: block_size(1))

lemma block_start: "a AND NOT (esize g - 1) = a div esize g * esize g" "a AND (esize g - 1) = a mod esize g"
proof -
  let ?k = "phys_erase_shift g"
  have m: "esize g - 1 = mask ?k" by (simp add: block_size(1) mask_eq_exp_minus_1)
  have "a AND (esize g - 1) = take_bit ?k a" unfolding m by (simp flip: take_bit_eq_mask)
  then show "a AND (esize g - 1) = a mod esize g" by (simp add: block_size(1) take_bit_eq_mod)
  have "a AND NOT (mask ?k) = push_bit ?k (drop_bit ?k a)" by (rule bit_eqI) (auto simp: bit_simps)
  then show "a AND NOT (esize g - 1) = a div esize g * esize g" unfolding m by (simp add: block_size(1) push_bit_eq_mult drop_bit_eq_div)
qed

lemma isbad_block:
  assumes "bbt c = Some T" "0 \<le> a" "a < msize g"
  shows "\<exists>r. nand_block_isbad g ops (a AND NOT (esize g - 1)) c = Some (r, c) \<and> (r = 0 \<longleftrightarrow> \<not> bad (a div esize g))"
proof -
  let ?b = "a div esize g"
  have b: "0 \<le> ?b" "?b < nb" using assms(2,3) es_pos div_below[OF es_pos] by (auto simp: pos_imp_zdiv_nonneg_iff block_size(3))
  then obtain r where r: "nand_isbad_bbt g T (?b * esize g) False = Some r" using table by blast
  have "?b * esize g \<le> a" using pos_mod_sign[OF es_pos, of a] by (simp add: minus_mod_eq_div_mult[symmetric])
  then have "\<not> msize g < ?b * esize g" using assms(3) by simp
  then show ?thesis using r assms(1) unfolding block_start by (simp add: nand_block_isbad_def nand_block_checkbad_def bad_def)
qed

text \<open>The end of the block of an address.\<close>

definition block_end :: "int \<Rightarrow> int" where
  "block_end a = a + (esize g - a mod esize g)"

lemma block_end_bounds:
  assumes "0 \<le> a" "a < msize g"
  shows "a < block_end a" "block_end a \<le> msize g" "a \<le> x \<Longrightarrow> x < block_end a \<Longrightarrow> x div esize g = a div esize g"
proof -
  let ?q = "a div esize g"
  have e: "block_end a = (?q + 1) * esize g" unfolding block_end_def by (simp add: distrib_right minus_mod_eq_div_mult[symmetric])
  show "a < block_end a" using es_pos by (simp add: block_end_def)
  have "?q < nb" using assms(2) div_below[OF es_pos] by (simp add: block_size(3))
  then show "block_end a \<le> msize g" unfolding e block_size(3) using es_pos by (simp add: mult_le_cancel_right)
  assume x: "a \<le> x" "x < block_end a"
  have "?q \<le> x div esize g" using x(1) es_pos by (intro zdiv_mono1) auto
  moreover have "x div esize g < ?q + 1" using x(2) div_below[OF es_pos] unfolding e by blast
  ultimately show "x div esize g = ?q" by simp
qed

abbreviation good_from :: "int \<Rightarrow> int list" where
  "good_from a \<equiv> good_addrs (esize g) bad a (msize g)"

lemma good_from_step:
  assumes "0 \<le> a" "a < msize g"
  shows "good_from a = (if bad (a div esize g) then [] else [a..block_end a - 1]) @ good_from (block_end a)"
proof -
  note be = block_end_bounds[OF assms]
  have "good_from a = good_addrs (esize g) bad a (block_end a) @ good_from (block_end a)" using be(1,2) by (intro good_addrs_split) auto
  moreover have "good_addrs (esize g) bad a (block_end a) = (if bad (a div esize g) then [] else [a..block_end a - 1])"
    using be(3) by (intro good_addrs_block) blast
  ultimately show ?thesis by simp
qed

lemma good_from_end: "msize g \<le> a \<Longrightarrow> good_from a = []"
  by (simp add: good_addrs_def)

text \<open>\<^verbatim>\<open>check_skip_len\<close>: whether there are enough good bytes, and 0 only when none is skipped.\<close>

lemma skip_loop_counts:
  "0 \<le> a \<Longrightarrow> bbt c = Some T \<Longrightarrow> ret = 0 \<or> ret = 1 \<Longrightarrow> 
    \<exists>r. skip_loop g ops a len excl ret c = Some (r, c) \<and>
      (if excl + int (length (good_from a)) < len then r = - 1
       else (r = 0 \<or> r = 1) \<and> (r = 0 \<longrightarrow> ret = 0 \<and> take (nat (len - excl)) (good_from a) = [a..a + (len - excl) - 1]))"
proof (induction "nat (msize g - a)" arbitrary: a excl ret rule: less_induct)
  case less
  show ?case
  proof (cases "excl < len \<and> a < msize g")
    case False
    then show ?thesis using less.prems good_from_end[of a] by (subst skip_loop.simps) auto
  next
    case True
    note be = block_end_bounds[OF less.prems(1) conjunct2[OF True]]
    let ?e = "block_end a" and ?n = "esize g - a mod esize g"
    obtain r where r: "nand_block_isbad g ops (a AND NOT (esize g - 1)) c = Some (r, c)" "r = 0 \<longleftrightarrow> \<not> bad (a div esize g)"
      using isbad_block[OF less.prems(2,1) conjunct2[OF True]] by blast
    have ae: "a + (esize g - a mod esize g) = ?e" by (simp add: block_end_def)
    have m: "nat (msize g - ?e) < nat (msize g - a)" "0 \<le> ?e" using be(1,2) less.prems(1) by auto
    have len: "int (length [a..?e - 1]) = ?n" using be(1) by (simp add: block_end_def)
    show ?thesis
    proof (cases "r = 0")
      case good: True
      have st: "skip_loop g ops a len excl ret c = skip_loop g ops ?e len (excl + ?n) ret c"
        using True r good by (subst skip_loop.simps) (simp add: block_start(2) Let_def ae)
      have gf: "good_from a = [a..?e - 1] @ good_from ?e" using good_from_step[of a] less.prems(1) True r(2) good by simp
      obtain r' where r': "skip_loop g ops ?e len (excl + ?n) ret c = Some (r', c)"
        "if excl + ?n + int (length (good_from ?e)) < len then r' = - 1
         else (r' = 0 \<or> r' = 1) \<and> (r' = 0 \<longrightarrow> ret = 0 \<and> take (nat (len - (excl + ?n))) (good_from ?e) = [?e..?e + (len - (excl + ?n)) - 1])"
        using less.hyps[OF m(1) m(2) less.prems(2,3), of "excl + ?n"] by blast
      have "take (nat (len - excl)) (good_from a) = [a..a + (len - excl) - 1]"
        if t: "take (nat (len - (excl + ?n))) (good_from ?e) = [?e..?e + (len - (excl + ?n)) - 1]"
      proof (cases "len - excl \<le> ?n")
        case True
        then have "nat (len - excl) \<le> length [a..?e - 1]" using len by linarith
        moreover have "[a..?e - 1] = [a..a + (len - excl) - 1] @ [a + (len - excl)..?e - 1]"
          using True \<open>excl < len \<and> a < msize g\<close> be(1) unfolding block_end_def by (cases "len - excl = ?n") (auto simp: upto_split1)
        moreover have "length [a..a + (len - excl) - 1] = nat (len - excl)" by simp
        ultimately show ?thesis unfolding gf by (metis append.assoc append_eq_conv_conj)
      next
        case False
        then have "[a..a + (len - excl) - 1] = [a..?e - 1] @ [?e..a + (len - excl) - 1]" using be(1) by (intro upto_split1) (auto simp: block_end_def)
        moreover have "nat (len - excl) - length [a..?e - 1] = nat (len - (excl + ?n))" using len by linarith
        moreover have "?e + (len - (excl + ?n)) - 1 = a + (len - excl) - 1" by (simp add: block_end_def)
        moreover have "length [a..?e - 1] \<le> nat (len - excl)" using len False by linarith
        ultimately show ?thesis using t unfolding gf take_append by (metis take_all)
      qed
      then show ?thesis using r' st gf len by (auto split: if_splits)
    next
      case bd: False
      have st: "skip_loop g ops a len excl ret c = skip_loop g ops ?e len excl 1 c"
        using True r bd by (subst skip_loop.simps) (simp add: block_start(2) Let_def ae)
      have gf: "good_from a = good_from ?e" using good_from_step[of a] less.prems(1) True r(2) bd by simp
      show ?thesis using less.hyps[OF m(1) m(2) less.prems(2), of 1 excl] unfolding st gf by fastforce
    qed
  qed
qed

text \<open>The pages of the good blocks.\<close>

definition good_pages :: "int set" where
  "good_pages = {p. 0 \<le> p \<and> p < np \<and> \<not> bad (p * int (wsize g) div esize g)}"

lemma pages_good:
  assumes "0 \<le> a" "a < msize g" "\<not> bad (a div esize g)" "0 < n" "a + int n \<le> block_end a"
  shows "pages a n \<subseteq> good_pages"
proof
  fix p assume "p \<in> pages a n"
  then have p: "a div int (wsize g) \<le> p" "p \<le> (a + int n - 1) div int (wsize g)" by (auto simp: pages_def)
  have w: "0 < int (wsize g)" using wsize_pos by simp
  obtain q where q: "esize g = int (wsize g) * q" using block_size(2) by (elim dvdE)
  have q0: "0 < q" using es_pos w q by (simp add: zero_less_mult_iff)
  let ?x = "a + int n - 1"
  have x: "?x div esize g = a div esize g" using block_end_bounds(3)[OF assms(1,2), of ?x] assms(4,5) by simp
  have dv: "y div esize g = y div int (wsize g) div q" for y unfolding q using q0 by (simp add: zdiv_zmult2_eq)
  have "a div esize g \<le> p div q" "p div q \<le> ?x div esize g" unfolding dv using p q0 by (auto intro: zdiv_mono1)
  then have "p div q = a div esize g" using x by simp
  moreover have "p * int (wsize g) div esize g = p div q" using dv[of "p * int (wsize g)"] w by simp
  moreover have "p < np"
  proof -
    have "?x < np * int (wsize g)" using block_end_bounds(2)[OF assms(1,2)] assms(5) one_chip(1) by simp
    then show ?thesis using div_below[OF w] p(2) by fastforce
  qed
  moreover have "0 \<le> p" using p(1) assms(1) w by (meson order.trans pos_imp_zdiv_nonneg_iff)
  ultimately show "p \<in> good_pages" using assms(3) by (simp add: good_pages_def)
qed

lemma page_block: "x div esize g = x div int (wsize g) * int (wsize g) div esize g"
proof -
  have w: "0 < int (wsize g)" using wsize_pos by simp
  obtain q where q: "esize g = int (wsize g) * q" using block_size(2) by (elim dvdE)
  have "0 < q" using es_pos w q by (simp add: zero_less_mult_iff)
  then have "y div esize g = y div int (wsize g) div q" for y unfolding q by (simp add: zdiv_zmult2_eq)
  then show ?thesis using w by simp
qed

lemma pages_of_good:
  assumes "0 \<le> a" "\<forall>x\<in>{a..<a + int n}. x \<in> set (good_from a)" "0 < n"
  shows "pages a n \<subseteq> good_pages"
proof
  fix p assume "p \<in> pages a n"
  then have p: "a div int (wsize g) \<le> p" "p \<le> (a + int n - 1) div int (wsize g)" by (auto simp: pages_def)
  have w: "0 < int (wsize g)" using wsize_pos by simp
  let ?x = "max a (p * int (wsize g))"
  have px: "p * int (wsize g) \<le> a + int n - 1"
  proof -
    have "p * int (wsize g) \<le> (a + int n - 1) div int (wsize g) * int (wsize g)" using p(2) w by (intro mult_right_mono) auto
    also have "\<dots> \<le> a + int n - 1" using pos_mod_sign[OF w, of "a + int n - 1"] by (simp add: minus_mod_eq_div_mult[symmetric])
    finally show ?thesis .
  qed
  then have x: "?x \<in> set (good_from a)" using assms(2,3) by auto
  moreover have xp: "?x div int (wsize g) = p"
  proof (cases "a \<le> p * int (wsize g)")
    case False
    then have "p \<le> a div int (wsize g)" using zdiv_mono1[of "p * int (wsize g)" a "int (wsize g)"] w by simp
    then show ?thesis using False p(1) by (simp add: max_def)
  qed (use w in \<open>simp add: max_def\<close>)
  moreover have "0 \<le> p" using p(1) assms(1) w by (meson order.trans pos_imp_zdiv_nonneg_iff)
  moreover have "p < np" using x xp div_below[OF w, of ?x np] by (simp add: good_addrs_def one_chip(1))
  ultimately show "p \<in> good_pages" using page_block[of ?x] by (auto simp: good_pages_def good_addrs_def)
qed

lemma skip_read_bytes:
  "0 \<le> a \<Longrightarrow> reads_as D good_pages c \<Longrightarrow> fl c = FL_READY \<Longrightarrow> bbt c = Some T \<Longrightarrow> left \<le> length (good_from a) \<Longrightarrow> pos + left \<le> length dat \<Longrightarrow>
    \<exists>c'. skip_read g ops a len left pos dat c = Some (0, len, put_at pos (map (byte_of (wsize g) D) (take left (good_from a))) dat, c') \<and>
      same c c' \<and> reads_as D good_pages c' \<and> fl c' = FL_READY"
proof (induction "nat (msize g - a)" arbitrary: a left pos dat c rule: less_induct)
  case less
  have ok: "ok (hw c)" using less.prems(2) by (simp add: reads_as_def)
  show ?case
  proof (cases "left = 0")
    case True
    then show ?thesis using less.prems same_refl[OF ok] by (subst skip_read.simps) (simp add: put_at_def)
  next
    case left: False
    have am: "a < msize g" using left less.prems(5) good_from_end[of a] by (cases "a < msize g") auto
    note be = block_end_bounds[OF less.prems(1) am]
    let ?e = "block_end a" and ?n = "esize g - a mod esize g"
    obtain r where r: "nand_block_isbad g ops (a AND NOT (esize g - 1)) c = Some (r, c)" "r = 0 \<longleftrightarrow> \<not> bad (a div esize g)"
      using isbad_block[OF less.prems(4,1) am] by blast
    have ae: "a + ?n = ?e" by (simp add: block_end_def)
    have m: "nat (msize g - ?e) < nat (msize g - a)" "0 \<le> ?e" using be(1,2) less.prems(1) by auto
    show ?thesis
    proof (cases "r = 0")
      case bd: False
      have "skip_read g ops a len left pos dat c = skip_read g ops ?e len left pos dat c"
        using left r bd by (subst skip_read.simps) (simp add: block_start(2) Let_def ae)
      moreover have "good_from a = good_from ?e" using good_from_step[of a] less.prems(1) am r(2) bd by simp
      ultimately show ?thesis using less.hyps[OF m(1) m(2) less.prems(2-4), of left pos dat] less.prems(5,6) by simp
    next
      case good: True
      define rl where "rl = (if int left < ?n then left else nat ?n)"
      have n0: "0 < ?n" using be(1) ae by simp
      have rl: "0 < rl" "rl \<le> left" "a + int rl \<le> ?e" "int rl = min (int left) ?n" using left n0 by (auto simp: rl_def ae[symmetric])
      have gf: "good_from a = [a..?e - 1] @ good_from ?e" using good_from_step[of a] less.prems(1) am r(2) good by simp
      have "pages a rl \<subseteq> good_pages" using pages_good[OF less.prems(1) am _ rl(1,3)] r(2) good by simp
      moreover have "a + int rl \<le> msize g" "rl \<le> length (drop pos dat)" using rl be(2) less.prems(6) by auto
      ultimately obtain v c1 where c1: "nand_read g ops a rl rl (drop pos dat) c = Some (v, rl, put_at 0 (bytes_of (wsize g) D a rl) (drop pos dat), c1)"
        "v \<in> {0, - EUCLEAN}" "same c c1" "reads_as D good_pages c1" "fl c1 = FL_READY"
        using nand_read_bytes[OF less.prems(2,3,1) rl(1)] by blast
      have b1: "bbt c1 = Some T" using c1(3) less.prems(4) by (simp add: same_def)
      let ?dat = "put_at pos (bytes_of (wsize g) D a rl) dat"
      have dat: "take pos dat @ put_at 0 (bytes_of (wsize g) D a rl) (drop pos dat) = ?dat" by (simp add: put_at_def add.commute)
      have dl: "length ?dat = length dat" using less.prems(6) rl(2) by (simp add: put_at_length)
      have st: "skip_read g ops a len left pos dat c = skip_read g ops (a + int rl) len (left - rl) (pos + rl) ?dat c1"
      proof -
        have v: "\<not> (v \<noteq> 0 \<and> v \<noteq> - EUCLEAN)" using c1(2) by auto
        show ?thesis using left r(1) good c1(1) unfolding skip_read.simps[of g ops a len left pos dat c] block_start(2) Let_def rl_def[symmetric]
          by (simp add: v dat)
      qed
      have m1: "nat (msize g - (a + int rl)) < nat (msize g - a)" "0 \<le> a + int rl" using rl(1) am less.prems(1) by auto
      have gr: "good_from a = [a..a + int rl - 1] @ good_from (a + int rl)"
      proof -
        have "good_from a = good_addrs (esize g) bad a (a + int rl) @ good_from (a + int rl)" using rl be(2) by (intro good_addrs_split) auto
        moreover have "good_addrs (esize g) bad a (a + int rl) = (if bad (a div esize g) then [] else [a..a + int rl - 1])"
        proof (rule good_addrs_block)
          show "x div esize g = a div esize g" if "a \<le> x" "x < a + int rl" for x using that rl(3) by (intro be(3)) linarith+
        qed
        ultimately show ?thesis using r(2) good by simp
      qed
      have all: "map (byte_of (wsize g) D) (take left (good_from a)) =
          bytes_of (wsize g) D a rl @ map (byte_of (wsize g) D) (take (left - rl) (good_from (a + int rl)))"
        unfolding gr bytes_of_upto using rl(2) by simp
      have "left - rl \<le> length (good_from (a + int rl))" using less.prems(5) gr rl(2) by simp
      then obtain c2 where c2: "skip_read g ops (a + int rl) len (left - rl) (pos + rl) ?dat c1 =
          Some (0, len, put_at (pos + rl) (map (byte_of (wsize g) D) (take (left - rl) (good_from (a + int rl)))) ?dat, c2)"
        "same c1 c2" "reads_as D good_pages c2" "fl c2 = FL_READY"
        using less.hyps[OF m1 c1(4,5) b1, of "left - rl" "pos + rl" ?dat] less.prems(6) rl(2) dl by auto
      have "put_at (pos + rl) (map (byte_of (wsize g) D) (take (left - rl) (good_from (a + int rl)))) ?dat =
          put_at pos (map (byte_of (wsize g) D) (take left (good_from a))) dat"
        unfolding all using put_at_twice[of pos "bytes_of (wsize g) D a rl"] less.prems(6) rl(2) by simp
      then show ?thesis using st c2 same_trans[OF c1(3) c2(2)] by auto
    qed
  qed
qed

text \<open>The function agrees with the reference.\<close>

lemma skip_bad_reads:
  assumes "0 \<le> a" "reads_as D good_pages c" "fl c = FL_READY" "bbt c = Some T" "n \<le> length dat" "0 < n"
  shows "if length (good_from a) < n then nand_read_skip_bad g ops a n dat c = Some (- EINVAL, 0, dat, c)
    else \<exists>c'. nand_read_skip_bad g ops a n dat c = Some (0, n, put_at 0 (map (byte_of (wsize g) D) (take n (good_from a))) dat, c') \<and>
      same c c' \<and> reads_as D good_pages c' \<and> fl c' = FL_READY"
proof -
  obtain r where r: "check_skip_len g ops a n c = Some (r, c)"
    "if int (length (good_from a)) < int n then r = - 1
     else (r = 0 \<or> r = 1) \<and> (r = 0 \<longrightarrow> take n (good_from a) = [a..a + int n - 1])"
    using skip_loop_counts[OF assms(1,4), of 0 "int n" 0] unfolding check_skip_len_def by (auto split: if_splits)
  show ?thesis
  proof (cases "length (good_from a) < n")
    case True
    then show ?thesis using r by (simp add: nand_read_skip_bad_def)
  next
    case False
    then have e: "r = 0 \<or> r = 1" "r = 0 \<Longrightarrow> take n (good_from a) = [a..a + int n - 1]" using r(2) by auto
    show ?thesis
    proof (cases "r = 0")
      case one: False
      then show ?thesis using False e(1) r(1) skip_read_bytes[OF assms(1-4), of n 0 dat n] assms(5) by (auto simp: nand_read_skip_bad_def)
    next
      case zero: True
      have all: "\<forall>x\<in>{a..<a + int n}. x \<in> set (good_from a)"
      proof -
        have "set [a..a + int n - 1] \<subseteq> set (good_from a)" unfolding e(2)[OF zero, symmetric] by (rule set_take_subset)
        then show ?thesis by auto
      qed
      then have "pages a n \<subseteq> good_pages" using pages_of_good[OF assms(1) _ assms(6)] by blast
      moreover have "a + int n \<le> msize g" using all assms(6) by (auto simp: good_addrs_def dest: bspec[of _ _ "a + int n - 1"])
      ultimately have "\<exists>v c'. nand_read g ops a n n dat c = Some (v, n, put_at 0 (bytes_of (wsize g) D a n) dat, c') \<and> v \<in> {0, - EUCLEAN} \<and>
          same c c' \<and> reads_as D good_pages c' \<and> fl c' = FL_READY"
        using nand_read_bytes[OF assms(2,3,1,6) _ _ assms(5)] by blast
      then show ?thesis using False zero r(1) e(2)[OF zero] by (auto simp: nand_read_skip_bad_def bytes_of_upto)
    qed
  qed
qed

end

end
