(* ===== verification/Ls1x_Nand.thy ===== *)
theory Ls1x_Nand
  imports Nand_Skip
begin

unbundle bit_operations_syntax

text \<open>
  The board driver of the NAND controller, \<^verbatim>\<open>src/os/hardware/nand/ls1x_nand.c\<close>: the functions that
  \<^verbatim>\<open>struct nand_chip\<close> points to. The hardware is the parameter \<open>nand_hw\<close>: the registers of the controller and
  the transfer of a descriptor, including the wait for its end, by the DMA engine. The contract of
  the hardware is the locale \<open>ls1x_hw\<close>; the driver then meets the contract \<open>nand_dev\<close>.
\<close>

section \<open>Registers\<close>

definition NAND_CMD :: nat where "NAND_CMD = 0x00"
definition NAND_ADDR_L :: nat where "NAND_ADDR_L = 0x04"
definition NAND_ADDR_H :: nat where "NAND_ADDR_H = 0x08"
definition NAND_IDL :: nat where "NAND_IDL = 0x10"
definition NAND_IDH :: nat where "NAND_IDH = 0x14"
definition NAND_PARAM :: nat where "NAND_PARAM = 0x18"
definition NAND_OPNUM :: nat where "NAND_OPNUM = 0x1c"

definition SPARE :: u32 where "SPARE = 0x200"
definition MAIN :: u32 where "MAIN = 0x100"
definition READ_STATUS :: u32 where "READ_STATUS = 0x80"
definition RESET :: u32 where "RESET = 0x40"
definition READ_ID :: u32 where "READ_ID = 0x20"
definition ERASE :: u32 where "ERASE = 0x08"
definition WRITE :: u32 where "WRITE = 0x04"
definition READ :: u32 where "READ = 0x02"

definition DMA_ORDERED :: nat where "DMA_ORDERED = 0x00"
definition DMA_SADDR :: nat where "DMA_SADDR = 0x04"
definition DMA_DADDR :: nat where "DMA_DADDR = 0x08"
definition DMA_LENGTH :: nat where "DMA_LENGTH = 0x0c"
definition DMA_STEP_LENGTH :: nat where "DMA_STEP_LENGTH = 0x10"
definition DMA_STEP_TIMES :: nat where "DMA_STEP_TIMES = 0x14"
definition DMA_CMD :: nat where "DMA_CMD = 0x18"
definition DMA_ACCESS_ADDR :: u32 where "DMA_ACCESS_ADDR = 0x1fe78040"

definition MAIN_SPARE_ADDRL :: "u32 \<Rightarrow> u32" where "MAIN_SPARE_ADDRL x = push_bit 12 x"
definition MAIN_SPARE_ADDRH :: "u32 \<Rightarrow> u32" where "MAIN_SPARE_ADDRH x = x"
definition MAIN_ADDRL :: "u32 \<Rightarrow> u32" where "MAIN_ADDRL x = push_bit 12 x"
definition MAIN_ADDRH :: "u32 \<Rightarrow> u32" where "MAIN_ADDRH x = x"

definition NAND_CMD_RESET :: nat where "NAND_CMD_RESET = 0xff"
definition NAND_CMD_ERASE1 :: nat where "NAND_CMD_ERASE1 = 0x60"
definition NAND_CMD_ERASE2 :: nat where "NAND_CMD_ERASE2 = 0xd0"
definition NAND_CMD_READID :: nat where "NAND_CMD_READID = 0x90"

section \<open>The driver\<close>

record 'h nand_hw =
  hw_readl :: "nat \<Rightarrow> 'h \<Rightarrow> u32 \<times> 'h"
  hw_writel :: "nat \<Rightarrow> u32 \<Rightarrow> 'h \<Rightarrow> 'h"
  hw_dma :: "(nat \<Rightarrow> u32) \<Rightarrow> u8 list \<Rightarrow> 'h \<Rightarrow> u8 list \<times> 'h"

record 'h ls1x_nand_info =
  buf_start :: u32
  buf_count :: u32
  seqin_column :: u32
  seqin_page_addr :: u32
  dma_desc :: "nat \<Rightarrow> u32"
  data_buff :: "u8 list"
  data_buff_phys :: u32
  dev :: 'h

definition nand_writel :: "'h nand_hw \<Rightarrow> nat \<Rightarrow> u32 \<Rightarrow> 'h ls1x_nand_info \<Rightarrow> 'h ls1x_nand_info" where
  "nand_writel B off v i = i\<lparr>dev := hw_writel B off v (dev i)\<rparr>"

definition nand_readl :: "'h nand_hw \<Rightarrow> nat \<Rightarrow> 'h ls1x_nand_info \<Rightarrow> u32 \<times> 'h ls1x_nand_info" where
  "nand_readl B off i = (let (v, h) = hw_readl B off (dev i) in (v, i\<lparr>dev := h\<rparr>))"

definition ls1x_nand_start :: "'h nand_hw \<Rightarrow> 'h ls1x_nand_info \<Rightarrow> 'h ls1x_nand_info" where
  "ls1x_nand_start B i = (let (v, i) = nand_readl B NAND_CMD i in nand_writel B NAND_CMD (v OR 1) i)"

text \<open>The polling loop; the argument is the timeout before the decrement.\<close>

fun done_loop :: "'h nand_hw \<Rightarrow> nat \<Rightarrow> 'h ls1x_nand_info \<Rightarrow> nat \<times> 'h ls1x_nand_info" where
  "done_loop B 0 i = (0, i)"
| "done_loop B (Suc timeout) i =
    (let (ret, i) = nand_readl B NAND_CMD i
     in if ret AND 0x400 \<noteq> 0x400 \<and> timeout \<noteq> 0 then done_loop B timeout i else (timeout, i))"

definition ls1x_nand_done :: "'h nand_hw \<Rightarrow> 'h ls1x_nand_info \<Rightarrow> nat \<times> 'h ls1x_nand_info" where
  "ls1x_nand_done B i = done_loop B 400000 i"

definition start_dma_nand :: "'h nand_hw \<Rightarrow> bool \<Rightarrow> 'h ls1x_nand_info \<Rightarrow> 'h ls1x_nand_info" where
  "start_dma_nand B flags i =
    (let i = i\<lparr>dma_desc := (dma_desc i)(DMA_ORDERED := 0, DMA_SADDR := data_buff_phys i, DMA_DADDR := DMA_ACCESS_ADDR,
               DMA_LENGTH := (buf_count i + 3) div 4, DMA_STEP_LENGTH := 0, DMA_STEP_TIMES := 1,
               DMA_CMD := (if flags then 0x1001 else 1))\<rparr>;
         i = ls1x_nand_start B i;
         (b, h) = hw_dma B (dma_desc i) (data_buff i) (dev i);
         i = i\<lparr>data_buff := b, dev := h\<rparr>
     in snd (ls1x_nand_done B i))"

definition set_param :: "'h nand_hw \<Rightarrow> u32 \<Rightarrow> 'h ls1x_nand_info \<Rightarrow> 'h ls1x_nand_info" where
  "set_param B n i = (let (v, i) = nand_readl B NAND_PARAM i in nand_writel B NAND_PARAM (v AND 0xc000ffff OR push_bit 16 n) i)"

definition run_command :: "'h nand_hw \<Rightarrow> u32 \<Rightarrow> 'h ls1x_nand_info \<Rightarrow> nat \<times> 'h ls1x_nand_info" where
  "run_command B cmd i = ls1x_nand_done B (ls1x_nand_start B (nand_writel B NAND_CMD cmd i))"

definition read_id_bytes :: "'h nand_hw \<Rightarrow> 'h ls1x_nand_info \<Rightarrow> 'h ls1x_nand_info" where
  "read_id_bytes B i =
    (let (a, i) = nand_readl B NAND_IDH i; (b, i) = nand_readl B NAND_IDL i; (c, i) = nand_readl B NAND_IDL i;
         (d, i) = nand_readl B NAND_IDL i; (e, i) = nand_readl B NAND_IDL i
     in i\<lparr>data_buff := put_at 0 [ucast a, ucast (drop_bit 24 b), ucast (drop_bit 16 c), ucast (drop_bit 8 d), ucast e] (data_buff i)\<rparr>)"

definition ls1x_nand_cmdfunc :: "'h nand_hw \<Rightarrow> geometry \<Rightarrow> nat \<Rightarrow> int \<Rightarrow> int \<Rightarrow> 'h ls1x_nand_info \<Rightarrow> 'h ls1x_nand_info" where
  "ls1x_nand_cmdfunc B g command colm page_addr i =
    (let ws = of_nat (wsize g); os = of_nat (oobsize g); col = word_of_int colm; page = word_of_int page_addr;
         i =
      (if command = NAND_CMD_READOOB then
         let i = i\<lparr>buf_count := os, buf_start := col\<rparr>;
             i = nand_writel B NAND_CMD (SPARE OR READ) i;
             i = nand_writel B NAND_ADDR_L (MAIN_SPARE_ADDRL page + ws) i;
             i = nand_writel B NAND_ADDR_H (MAIN_SPARE_ADDRH page) i;
             i = nand_writel B NAND_OPNUM (buf_count i) i;
             i = set_param B (buf_count i) i
         in start_dma_nand B False i
       else if command = NAND_CMD_READ0 then
         let i = i\<lparr>buf_count := ws + os, buf_start := col\<rparr>;
             i = nand_writel B NAND_CMD (SPARE OR MAIN OR READ) i;
             i = nand_writel B NAND_ADDR_L (MAIN_SPARE_ADDRL page) i;
             i = nand_writel B NAND_ADDR_H (MAIN_SPARE_ADDRH page) i;
             i = nand_writel B NAND_OPNUM (buf_count i) i;
             i = set_param B (buf_count i) i
         in start_dma_nand B False i
       else if command = NAND_CMD_SEQIN then
         i\<lparr>buf_count := ws + os - col, buf_start := 0, seqin_column := col, seqin_page_addr := page\<rparr>
       else if command = NAND_CMD_PAGEPROG then
         let i = nand_writel B NAND_CMD (if seqin_column i < ws then SPARE OR MAIN OR WRITE else SPARE OR WRITE) i;
             i = nand_writel B NAND_ADDR_L (MAIN_SPARE_ADDRL (seqin_page_addr i) + seqin_column i) i;
             i = nand_writel B NAND_ADDR_H (MAIN_SPARE_ADDRH (seqin_page_addr i)) i;
             i = nand_writel B NAND_OPNUM (buf_count i) i;
             i = set_param B (buf_count i) i
         in start_dma_nand B True i
       else if command = NAND_CMD_RESET then snd (run_command B RESET (i\<lparr>buf_count := 0, buf_start := 0\<rparr>))
       else if command = NAND_CMD_ERASE1 then
         let i = i\<lparr>buf_count := 0, buf_start := 0\<rparr>;
             i = nand_writel B NAND_ADDR_L (MAIN_ADDRL page) i;
             i = nand_writel B NAND_ADDR_H (MAIN_ADDRH page) i;
             i = nand_writel B NAND_OPNUM 1 i;
             i = set_param B 1 i
         in snd (run_command B ERASE i)
       else if command = NAND_CMD_STATUS then
         let (_, i) = run_command B READ_STATUS (i\<lparr>buf_count := 1, buf_start := 0\<rparr>);
             (v, i) = nand_readl B NAND_IDH i
         in i\<lparr>data_buff := put_at 0 [ucast (drop_bit 8 v) OR 0x80] (data_buff i)\<rparr>
       else if command = NAND_CMD_READID then
         let (timeout, i) = run_command B READ_ID (i\<lparr>buf_count := 5, buf_start := 0\<rparr>)
         in if timeout = 0 then i else read_id_bytes B i
       else i\<lparr>buf_count := 0, buf_start := 0\<rparr>)
     in nand_writel B NAND_CMD 0 i)"

definition ls1x_nand_read_byte :: "'h ls1x_nand_info \<Rightarrow> u8 \<times> 'h ls1x_nand_info" where
  "ls1x_nand_read_byte i =
    (if buf_start i < buf_count i then (data_buff i ! unat (buf_start i), i\<lparr>buf_start := buf_start i + 1\<rparr>) else (0xff, i))"

definition ls1x_nand_read_buf :: "nat \<Rightarrow> 'h ls1x_nand_info \<Rightarrow> u8 list \<times> 'h ls1x_nand_info" where
  "ls1x_nand_read_buf len i =
    (let real_len = min len (unat (buf_count i - buf_start i))
     in (take real_len (drop (unat (buf_start i)) (data_buff i)), i\<lparr>buf_start := buf_start i + of_nat real_len\<rparr>))"

definition ls1x_nand_write_buf :: "u8 list \<Rightarrow> 'h ls1x_nand_info \<Rightarrow> 'h ls1x_nand_info" where
  "ls1x_nand_write_buf buf i =
    (let real_len = min (length buf) (unat (buf_count i - buf_start i))
     in i\<lparr>data_buff := put_at (unat (buf_start i)) (take real_len buf) (data_buff i), buf_start := buf_start i + of_nat real_len\<rparr>)"

definition ls1x_nand_waitfunc :: "'h ls1x_nand_info \<Rightarrow> u32 \<times> 'h ls1x_nand_info" where
  "ls1x_nand_waitfunc i = (0, i)"

definition ls1x_nand_select_chip :: "int \<Rightarrow> 'h ls1x_nand_info \<Rightarrow> 'h ls1x_nand_info" where
  "ls1x_nand_select_chip chip i = i"

definition ls1x_nand_dev_ready :: "'h nand_hw \<Rightarrow> 'h ls1x_nand_info \<Rightarrow> bool \<times> 'h ls1x_nand_info" where
  "ls1x_nand_dev_ready B i = (let (v, i) = nand_readl B NAND_CMD i in (v AND 0x000f0000 \<noteq> 0, i))"

text \<open>\<^verbatim>\<open>nand_wait_ready\<close>, with the number of polls that fit into its timeout.\<close>

fun nand_wait_ready :: "'h nand_hw \<Rightarrow> nat \<Rightarrow> 'h ls1x_nand_info \<Rightarrow> 'h ls1x_nand_info" where
  "nand_wait_ready B 0 i = i"
| "nand_wait_ready B (Suc n) i = (let (r, i) = ls1x_nand_dev_ready B i in if r then i else nand_wait_ready B n i)"

definition ls1x_ops :: "'h nand_hw \<Rightarrow> geometry \<Rightarrow> nat \<Rightarrow> 'h ls1x_nand_info chip_ops" where
  "ls1x_ops B g polls =
    \<lparr>cmdfunc = ls1x_nand_cmdfunc B g, read_buf = ls1x_nand_read_buf, write_buf = ls1x_nand_write_buf,
     read_byte = ls1x_nand_read_byte, waitfunc = ls1x_nand_waitfunc, select_chip = ls1x_nand_select_chip,
     wait_ready = nand_wait_ready B polls\<rparr>"

section \<open>The contract of the hardware\<close>

text \<open>A row of the chip is a page with its spare area. The descriptor of a transfer of \<open>n\<close> bytes.\<close>

definition transfer :: "(nat \<Rightarrow> u32) \<Rightarrow> bool \<Rightarrow> nat \<Rightarrow> bool" where
  "transfer d out n \<longleftrightarrow> d DMA_ORDERED = 0 \<and> d DMA_DADDR = DMA_ACCESS_ADDR \<and> d DMA_LENGTH = (of_nat n + 3) div 4 \<and>
    d DMA_STEP_LENGTH = 0 \<and> d DMA_STEP_TIMES = 1 \<and> d DMA_CMD = (if out then 0x1001 else 1)"

text \<open>The registers select the whole row \<open>p\<close> for a command.\<close>

definition whole_row :: "(nat \<Rightarrow> u32) \<Rightarrow> u32 \<Rightarrow> int \<Rightarrow> nat \<Rightarrow> bool" where
  "whole_row r cmd p n \<longleftrightarrow> r NAND_CMD AND 0x3ff = cmd OR 1 \<and> r NAND_ADDR_L = push_bit 12 (word_of_int p) \<and> r NAND_ADDR_H = word_of_int p \<and>
    r NAND_OPNUM = of_nat n \<and> (\<exists>x. r NAND_PARAM = x AND 0xc000ffff OR push_bit 16 (of_nat n))"

locale ls1x_hw =
  fixes B :: "'h nand_hw" and on :: "'h \<Rightarrow> bool" and row :: "'h \<Rightarrow> int \<Rightarrow> u8 list" and regs :: "'h \<Rightarrow> nat \<Rightarrow> u32"
    and rows :: int and rsize :: nat
  assumes sizes: "rsize < 8192" "rows \<le> 0x100000"
    and row_size: "\<And>h p. on h \<Longrightarrow> 0 \<le> p \<Longrightarrow> p < rows \<Longrightarrow> length (row h p) = rsize"
    and rd_law: "\<And>h off v h'. on h \<Longrightarrow> hw_readl B off h = (v, h') \<Longrightarrow> on h' \<and> row h' = row h \<and> regs h' = regs h \<and>
      (off = NAND_CMD \<longrightarrow> v AND 0x3ff = regs h NAND_CMD AND 0x3ff)"
    and wr_law: "\<And>h off v h'. on h \<Longrightarrow> v AND 0x18 = 0 \<or> off \<noteq> NAND_CMD \<Longrightarrow>
      h' = hw_writel B off v h \<Longrightarrow> on h' \<and> row h' = row h \<and> regs h' = (regs h)(off := v)"
    and dma_in: "\<And>h d p b b' h'. on h \<Longrightarrow> 0 \<le> p \<Longrightarrow> p < rows \<Longrightarrow> whole_row (regs h) (SPARE OR MAIN OR READ) p rsize \<Longrightarrow> transfer d False rsize \<Longrightarrow>
      length b = 8192 \<Longrightarrow> hw_dma B d b h = (b', h') \<Longrightarrow>
      on h' \<and> row h' = row h \<and> length b' = 8192 \<and> take rsize b' = row h p"
    and dma_out: "\<And>h d p b b' h'. on h \<Longrightarrow> 0 \<le> p \<Longrightarrow> p < rows \<Longrightarrow> whole_row (regs h) (SPARE OR MAIN OR WRITE) p rsize \<Longrightarrow> transfer d True rsize \<Longrightarrow>
      length b = 8192 \<Longrightarrow> hw_dma B d b h = (b', h') \<Longrightarrow>
      on h' \<and> row h' = (row h)(p := map2 (AND) (row h p) (take rsize b)) \<and> length b' = 8192"
begin

lemma readl_eq:
  assumes "on (dev i)"
  shows "\<exists>v h. nand_readl B off i = (v, i\<lparr>dev := h\<rparr>) \<and> on h \<and> row h = row (dev i) \<and> regs h = regs (dev i) \<and>
    (off = NAND_CMD \<longrightarrow> v AND 0x3ff = regs (dev i) NAND_CMD AND 0x3ff)"
proof -
  obtain v h where "hw_readl B off (dev i) = (v, h)" by (metis surj_pair)
  then show ?thesis using rd_law[OF assms] by (intro exI[of _ v] exI[of _ h]) (simp add: nand_readl_def)
qed

lemma writel_eq:
  assumes "on (dev i)" "v AND 0x18 = 0 \<or> off \<noteq> NAND_CMD"
  shows "\<exists>h. nand_writel B off v i = i\<lparr>dev := h\<rparr> \<and> on h \<and> row h = row (dev i) \<and> regs h = (regs (dev i))(off := v)"
  using wr_law[OF assms refl] by (intro exI[of _ "hw_writel B off v (dev i)"]) (simp add: nand_writel_def)

lemma done_keeps:
  "on (dev i) \<Longrightarrow> \<exists>n h. done_loop B t i = (n, i\<lparr>dev := h\<rparr>) \<and> on h \<and> row h = row (dev i) \<and> regs h = regs (dev i)"
proof (induction t arbitrary: i)
  case 0
  then show ?case by (intro exI[of _ 0] exI[of _ "dev i"]) simp
next
  case (Suc t)
  obtain v h where h: "nand_readl B NAND_CMD i = (v, i\<lparr>dev := h\<rparr>)" "on h" "row h = row (dev i)" "regs h = regs (dev i)"
    using readl_eq[OF Suc.prems] by blast
  then show ?case using Suc.IH[of "i\<lparr>dev := h\<rparr>"] by auto
qed

lemma start_eq:
  assumes "on (dev i)" "regs (dev i) NAND_CMD AND 0x18 = 0"
  shows "\<exists>h v. ls1x_nand_start B i = i\<lparr>dev := h\<rparr> \<and> on h \<and> row h = row (dev i) \<and> regs h = (regs (dev i))(NAND_CMD := v) \<and>
    v AND 0x3ff = (regs (dev i) NAND_CMD OR 1) AND 0x3ff"
proof -
  obtain v h where h: "nand_readl B NAND_CMD i = (v, i\<lparr>dev := h\<rparr>)" "on h" "row h = row (dev i)" "regs h = regs (dev i)"
    "v AND 0x3ff = regs (dev i) NAND_CMD AND 0x3ff"
    using readl_eq[OF assms(1), of NAND_CMD] by blast
  have "x AND 0x18 = (x AND 0x3ff) AND 0x18" for x :: u32 by (simp add: and.assoc)
  then have "v AND 0x18 = 0" using h(5) assms(2) by metis
  then have "(v OR 1) AND 0x18 = 0" by (simp add: bit.conj_disj_distrib2)
  then obtain h' where "nand_writel B NAND_CMD (v OR 1) (i\<lparr>dev := h\<rparr>) = i\<lparr>dev := h'\<rparr>" "on h'" "row h' = row h" "regs h' = (regs h)(NAND_CMD := v OR 1)"
    using writel_eq[of "i\<lparr>dev := h\<rparr>" "v OR 1" NAND_CMD] h(2) by auto
  moreover have "(v OR 1) AND 0x3ff = (regs (dev i) NAND_CMD OR 1) AND 0x3ff" using h(5) by (simp add: bit.conj_disj_distrib2)
  ultimately show ?thesis using h by (intro exI[of _ h'] exI[of _ "v OR 1"]) (simp add: ls1x_nand_start_def)
qed

lemmas reg_offsets = NAND_CMD_def NAND_ADDR_L_def NAND_ADDR_H_def NAND_OPNUM_def NAND_PARAM_def NAND_IDH_def NAND_IDL_def

text \<open>The five registers of a transfer.\<close>

lemma setup_eq:
  assumes "on (dev i)" "c AND 0x18 = 0"
  shows "\<exists>h. set_param B n (nand_writel B NAND_OPNUM n (nand_writel B NAND_ADDR_H b (nand_writel B NAND_ADDR_L a (nand_writel B NAND_CMD c i)))) = i\<lparr>dev := h\<rparr> \<and>
    on h \<and> row h = row (dev i) \<and> regs h NAND_CMD = c \<and> regs h NAND_ADDR_L = a \<and> regs h NAND_ADDR_H = b \<and> regs h NAND_OPNUM = n \<and>
    (\<exists>x. regs h NAND_PARAM = x AND 0xc000ffff OR push_bit 16 n)"
proof -
  obtain h1 where 1: "nand_writel B NAND_CMD c i = i\<lparr>dev := h1\<rparr>" "on h1" "row h1 = row (dev i)" "regs h1 = (regs (dev i))(NAND_CMD := c)"
    using writel_eq[OF assms(1), of c NAND_CMD] assms(2) by auto
  obtain h2 where 2: "nand_writel B NAND_ADDR_L a (i\<lparr>dev := h1\<rparr>) = i\<lparr>dev := h2\<rparr>" "on h2" "row h2 = row h1" "regs h2 = (regs h1)(NAND_ADDR_L := a)"
    using writel_eq[of "i\<lparr>dev := h1\<rparr>" a NAND_ADDR_L] 1(2) by (auto simp: reg_offsets)
  obtain h3 where 3: "nand_writel B NAND_ADDR_H b (i\<lparr>dev := h2\<rparr>) = i\<lparr>dev := h3\<rparr>" "on h3" "row h3 = row h2" "regs h3 = (regs h2)(NAND_ADDR_H := b)"
    using writel_eq[of "i\<lparr>dev := h2\<rparr>" b NAND_ADDR_H] 2(2) by (auto simp: reg_offsets)
  obtain h4 where 4: "nand_writel B NAND_OPNUM n (i\<lparr>dev := h3\<rparr>) = i\<lparr>dev := h4\<rparr>" "on h4" "row h4 = row h3" "regs h4 = (regs h3)(NAND_OPNUM := n)"
    using writel_eq[of "i\<lparr>dev := h3\<rparr>" n NAND_OPNUM] 3(2) by (auto simp: reg_offsets)
  obtain v h5 where 5: "nand_readl B NAND_PARAM (i\<lparr>dev := h4\<rparr>) = (v, i\<lparr>dev := h5\<rparr>)" "on h5" "row h5 = row h4" "regs h5 = regs h4"
    using readl_eq[of "i\<lparr>dev := h4\<rparr>" NAND_PARAM] 4(2) by auto
  obtain h6 where 6: "nand_writel B NAND_PARAM (v AND 0xc000ffff OR push_bit 16 n) (i\<lparr>dev := h5\<rparr>) = i\<lparr>dev := h6\<rparr>" "on h6" "row h6 = row h5"
    "regs h6 = (regs h5)(NAND_PARAM := v AND 0xc000ffff OR push_bit 16 n)"
    using writel_eq[of "i\<lparr>dev := h5\<rparr>" "v AND 0xc000ffff OR push_bit 16 n" NAND_PARAM] 5(2) by (auto simp: reg_offsets)
  show ?thesis using 1 2 3 4 5 6 by (intro exI[of _ h6]) (auto simp: set_param_def reg_offsets)
qed

definition ready :: "'h ls1x_nand_info \<Rightarrow> bool" where
  "ready i \<longleftrightarrow> on (dev i) \<and> length (data_buff i) = 8192"

lemma dma_eq:
  assumes "ready i" "0 \<le> p" "p < rows" "buf_count i = of_nat rsize" "cmd \<in> {SPARE OR MAIN OR READ, SPARE OR MAIN OR WRITE}"
    "regs (dev i) NAND_CMD = cmd" "regs (dev i) NAND_ADDR_L = push_bit 12 (word_of_int p)" "regs (dev i) NAND_ADDR_H = word_of_int p"
    "regs (dev i) NAND_OPNUM = of_nat rsize" "\<exists>x. regs (dev i) NAND_PARAM = x AND 0xc000ffff OR push_bit 16 (of_nat rsize)"
    "flags = (cmd = (SPARE OR MAIN OR WRITE))"
  shows "\<exists>i'. start_dma_nand B flags i = i' \<and> ready i' \<and> buf_start i' = buf_start i \<and> buf_count i' = buf_count i \<and>
    (if flags then row (dev i') = (row (dev i))(p := map2 (AND) (row (dev i) p) (take rsize (data_buff i)))
     else row (dev i') = row (dev i) \<and> take rsize (data_buff i') = row (dev i) p)"
proof -
  define i1 where "i1 = i\<lparr>dma_desc := (dma_desc i)(DMA_ORDERED := 0, DMA_SADDR := data_buff_phys i, DMA_DADDR := DMA_ACCESS_ADDR,
    DMA_LENGTH := (buf_count i + 3) div 4, DMA_STEP_LENGTH := 0, DMA_STEP_TIMES := 1, DMA_CMD := (if flags then 0x1001 else 1))\<rparr>"
  have i1: "on (dev i1)" "dev i1 = dev i" "buf_start i1 = buf_start i" "buf_count i1 = buf_count i" "data_buff i1 = data_buff i"
    using assms(1) by (simp_all add: i1_def ready_def)
  have tr: "transfer (dma_desc i1) flags rsize" using assms(4)
    by (simp add: transfer_def i1_def DMA_ORDERED_def DMA_SADDR_def DMA_DADDR_def DMA_LENGTH_def DMA_STEP_LENGTH_def DMA_STEP_TIMES_def DMA_CMD_def)
  have c: "cmd AND 0x18 = 0" "(cmd OR 1) AND 0x3ff = cmd OR 1" using assms(5) by (auto simp: SPARE_def MAIN_def READ_def WRITE_def)
  obtain h v where st: "ls1x_nand_start B i1 = i1\<lparr>dev := h\<rparr>" "on h" "row h = row (dev i)" "regs h = (regs (dev i))(NAND_CMD := v)" "v AND 0x3ff = cmd OR 1"
    using start_eq[OF i1(1)] c assms(6) i1(2) by auto
  have wr: "whole_row (regs h) cmd p rsize" using assms(7-10) st(4,5) by (auto simp: whole_row_def reg_offsets)
  obtain b h2 where d: "hw_dma B (dma_desc i1) (data_buff i) h = (b, h2)" by (metis surj_pair)
  have len: "length (data_buff i) = 8192" using assms(1) by (simp add: ready_def)
  have h2: "on h2" "length b = 8192" "if flags then row h2 = (row h)(p := map2 (AND) (row h p) (take rsize (data_buff i))) else row h2 = row h \<and> take rsize b = row h p"
    using dma_in[OF st(2) assms(2,3) _ _ len d] dma_out[OF st(2) assms(2,3) _ _ len d] wr tr assms(5,11) by (auto split: if_splits)
  define i2 where "i2 = i1\<lparr>data_buff := b, dev := h2\<rparr>"
  obtain n h3 where dn: "ls1x_nand_done B i2 = (n, i2\<lparr>dev := h3\<rparr>)" "on h3" "row h3 = row h2"
    using done_keeps[of i2 400000] h2(1) by (auto simp: ls1x_nand_done_def i2_def)
  have "start_dma_nand B flags i = i2\<lparr>dev := h3\<rparr>"
    using st(1) d dn(1) i1(5) by (simp add: start_dma_nand_def Let_def i1_def[symmetric] i2_def)
  then show ?thesis using dn h2 st(3) i1 by (intro exI[of _ "i2\<lparr>dev := h3\<rparr>"]) (auto simp: ready_def i2_def)
qed

lemma read_cmd:
  assumes "ready i" "0 \<le> p" "p < rows" "wsize g + oobsize g = rsize"
  shows "\<exists>i'. ls1x_nand_cmdfunc B g NAND_CMD_READ0 0 p i = i' \<and> ready i' \<and> buf_start i' = 0 \<and> buf_count i' = of_nat rsize \<and>
    row (dev i') = row (dev i) \<and> take rsize (data_buff i') = row (dev i) p"
proof -
  let ?n = "of_nat rsize :: u32" and ?c = "SPARE OR MAIN OR READ"
  have n: "of_nat (wsize g) + of_nat (oobsize g) = ?n" using assms(4) by (metis of_nat_add)
  define i1 where "i1 = i\<lparr>buf_count := ?n, buf_start := 0\<rparr>"
  have on1: "on (dev i1)" using assms(1) by (simp add: i1_def ready_def)
  obtain h where h: "set_param B ?n (nand_writel B NAND_OPNUM ?n (nand_writel B NAND_ADDR_H (MAIN_SPARE_ADDRH (word_of_int p))
      (nand_writel B NAND_ADDR_L (MAIN_SPARE_ADDRL (word_of_int p)) (nand_writel B NAND_CMD ?c i1)))) = i1\<lparr>dev := h\<rparr>"
    "on h" "row h = row (dev i1)" "regs h NAND_CMD = ?c" "regs h NAND_ADDR_L = push_bit 12 (word_of_int p)" "regs h NAND_ADDR_H = word_of_int p"
    "regs h NAND_OPNUM = ?n" "\<exists>x. regs h NAND_PARAM = x AND 0xc000ffff OR push_bit 16 ?n"
    using setup_eq[OF on1, of ?c ?n "MAIN_SPARE_ADDRH (word_of_int p)" "MAIN_SPARE_ADDRL (word_of_int p)"]
    by (auto simp: SPARE_def MAIN_def READ_def MAIN_SPARE_ADDRH_def MAIN_SPARE_ADDRL_def)
  let ?i = "i1\<lparr>dev := h\<rparr>"
  have rdy: "ready ?i" using assms(1) h(2) by (simp add: ready_def i1_def)
  obtain i2 where i2: "start_dma_nand B False ?i = i2" "ready i2" "buf_start i2 = 0" "buf_count i2 = ?n" "row (dev i2) = row (dev i)" "take rsize (data_buff i2) = row (dev i) p"
    using dma_eq[OF rdy assms(2,3), of ?c False] h by (auto simp: i1_def SPARE_def MAIN_def READ_def WRITE_def)
  obtain h3 where h3: "nand_writel B NAND_CMD 0 i2 = i2\<lparr>dev := h3\<rparr>" "on h3" "row h3 = row (dev i2)"
    using writel_eq[of i2 0 NAND_CMD] i2(2) by (auto simp: ready_def)
  have bc: "buf_count (nand_writel B off v j) = buf_count j" for off v j by (simp add: nand_writel_def)
  have "ls1x_nand_cmdfunc B g NAND_CMD_READ0 0 p i = i2\<lparr>dev := h3\<rparr>"
    using i2(1) h(1) h3(1) n by (simp add: ls1x_nand_cmdfunc_def NAND_CMD_READ0_def NAND_CMD_READOOB_def Let_def bc i1_def)
  then show ?thesis using i2 h3 by (intro exI[of _ "i2\<lparr>dev := h3\<rparr>"]) (auto simp: ready_def)
qed

lemma small_word: "n \<le> rsize \<Longrightarrow> unat (of_nat n :: u32) = n"
  using sizes(1) by (simp add: unat_of_nat)

text \<open>A page is read with two buffers.\<close>

lemma read_row:
  assumes "ready i" "0 \<le> p" "p < rows" "wsize g + oobsize g = rsize"
    "ls1x_nand_read_buf (wsize g) (ls1x_nand_cmdfunc B g NAND_CMD_READ0 0 p i) = (d, i1)" "ls1x_nand_read_buf (oobsize g) i1 = (s, i2)"
  shows "d = take (wsize g) (row (dev i) p) \<and> s = drop (wsize g) (row (dev i) p) \<and> ready i2 \<and> row (dev i2) = row (dev i)"
proof -
  obtain j where j: "ls1x_nand_cmdfunc B g NAND_CMD_READ0 0 p i = j" "ready j" "buf_start j = 0" "buf_count j = of_nat rsize"
    "row (dev j) = row (dev i)" "take rsize (data_buff j) = row (dev i) p" using read_cmd[OF assms(1-4)] by blast
  have d: "d = take (wsize g) (data_buff j)" "i1 = j\<lparr>buf_start := of_nat (wsize g)\<rparr>"
    using assms(4,5) j(1,3,4) small_word[of rsize] by (auto simp: ls1x_nand_read_buf_def Let_def min_def)
  have "(of_nat rsize :: u32) - of_nat (wsize g) = of_nat (oobsize g)" using assms(4) by (simp add: of_nat_diff[symmetric] flip: assms(4))
  then have s: "s = take (oobsize g) (drop (wsize g) (data_buff j))" "i2 = i1\<lparr>buf_start := of_nat (wsize g) + of_nat (oobsize g)\<rparr>"
    using assms(4,6) d(2) j(4) small_word[of "oobsize g"] small_word[of "wsize g"] by (auto simp: ls1x_nand_read_buf_def Let_def)
  have "d = take (wsize g) (row (dev i) p)" using d(1) j(6) assms(4) by (simp flip: j(6))
  moreover have "s = drop (wsize g) (row (dev i) p)" using s(1) assms(4) by (simp add: drop_take flip: j(6) assms(4))
  ultimately show ?thesis using j d s by (simp add: ready_def)
qed

lemma write_buf_eq:
  assumes "length (data_buff i) = 8192" "buf_start i = of_nat k" "buf_count i = of_nat rsize" "k + length xs \<le> rsize"
  shows "ls1x_nand_write_buf xs i = i\<lparr>data_buff := put_at k xs (data_buff i), buf_start := of_nat (k + length xs)\<rparr>"
proof -
  have "(of_nat rsize :: u32) - of_nat k = of_nat (rsize - k)" using assms(4) by (simp add: of_nat_diff)
  then have "unat (buf_count i - buf_start i) = rsize - k" using assms(2,3) small_word[of "rsize - k"] by simp
  then show ?thesis using assms small_word[of k] by (simp add: ls1x_nand_write_buf_def Let_def min_def)
qed

text \<open>A page is programmed from two buffers.\<close>

lemma prog_row:
  assumes "ready i" "0 \<le> p" "p < rows" "wsize g + oobsize g = rsize" "0 < wsize g" "length d = wsize g" "length s = oobsize g"
    "ls1x_nand_waitfunc (ls1x_nand_cmdfunc B g NAND_CMD_PAGEPROG (- 1) (- 1)
      (ls1x_nand_write_buf s (ls1x_nand_write_buf d (ls1x_nand_cmdfunc B g NAND_CMD_SEQIN 0 p i)))) = (st, i')"
  shows "st = 0 \<and> ready i' \<and> row (dev i') = (row (dev i))(p := map2 (AND) (row (dev i) p) (d @ s))"
proof -
  let ?n = "of_nat rsize :: u32" and ?c = "SPARE OR MAIN OR WRITE"
  have n: "of_nat (wsize g) + of_nat (oobsize g) = ?n" using assms(4) by (metis of_nat_add)
  obtain h0 where h0: "hw_writel B NAND_CMD 0 (dev i) = h0" "on h0" "row h0 = row (dev i)"
    using wr_law[of "dev i" 0 NAND_CMD] assms(1) by (auto simp: ready_def)
  define i0 where "i0 = i\<lparr>buf_count := ?n, buf_start := 0, seqin_column := 0, seqin_page_addr := word_of_int p, dev := h0\<rparr>"
  have seq: "ls1x_nand_cmdfunc B g NAND_CMD_SEQIN 0 p i = i0"
    using n h0(1) by (simp add: ls1x_nand_cmdfunc_def i0_def nand_writel_def NAND_CMD_SEQIN_def NAND_CMD_READ0_def NAND_CMD_READOOB_def Let_def)
  have len: "length (data_buff i) = 8192" using assms(1) by (simp add: ready_def)
  define i2 where "i2 = ls1x_nand_write_buf s (ls1x_nand_write_buf d i0)"
  have b1: "ls1x_nand_write_buf d i0 = i0\<lparr>data_buff := put_at 0 d (data_buff i), buf_start := of_nat (wsize g)\<rparr>"
    using write_buf_eq[of i0 0 d] len assms(4,6) by (simp add: i0_def)
  have "length (put_at 0 d (data_buff i)) = 8192" using put_at_length[of 0 d "data_buff i"] len assms(4,6) sizes(1) by simp
  then have i2: "i2 = i0\<lparr>data_buff := put_at (wsize g) s (put_at 0 d (data_buff i)), buf_start := ?n\<rparr>"
    unfolding i2_def b1 using write_buf_eq[of "i0\<lparr>data_buff := put_at 0 d (data_buff i), buf_start := of_nat (wsize g)\<rparr>" "wsize g" s] assms(4,7)
    by (simp add: i0_def)
  have db: "take rsize (data_buff i2) = d @ s" "length (data_buff i2) = 8192"
    using len assms(4,6,7) sizes(1) by (auto simp: i2 put_at_def)
  have on2: "on (dev i2)" "row (dev i2) = row (dev i)" "buf_count i2 = ?n" "seqin_column i2 = 0" "seqin_page_addr i2 = word_of_int p"
    using h0 by (simp_all add: i2 i0_def)
  obtain h where h: "set_param B ?n (nand_writel B NAND_OPNUM ?n (nand_writel B NAND_ADDR_H (MAIN_SPARE_ADDRH (word_of_int p))
      (nand_writel B NAND_ADDR_L (MAIN_SPARE_ADDRL (word_of_int p)) (nand_writel B NAND_CMD ?c i2)))) = i2\<lparr>dev := h\<rparr>"
    "on h" "row h = row (dev i2)" "regs h NAND_CMD = ?c" "regs h NAND_ADDR_L = push_bit 12 (word_of_int p)" "regs h NAND_ADDR_H = word_of_int p"
    "regs h NAND_OPNUM = ?n" "\<exists>x. regs h NAND_PARAM = x AND 0xc000ffff OR push_bit 16 ?n"
    using setup_eq[OF on2(1), of ?c ?n "MAIN_SPARE_ADDRH (word_of_int p)" "MAIN_SPARE_ADDRL (word_of_int p)"]
    by (auto simp: SPARE_def MAIN_def WRITE_def MAIN_SPARE_ADDRH_def MAIN_SPARE_ADDRL_def)
  let ?i = "i2\<lparr>dev := h\<rparr>"
  have rdy: "ready ?i" using db(2) h(2) by (simp add: ready_def)
  obtain i3 where i3: "start_dma_nand B True ?i = i3" "ready i3" "row (dev i3) = (row (dev i))(p := map2 (AND) (row (dev i) p) (d @ s))"
    using dma_eq[OF rdy assms(2,3), of ?c True] h db(1) on2 by auto
  obtain h3 where h3: "nand_writel B NAND_CMD 0 i3 = i3\<lparr>dev := h3\<rparr>" "on h3" "row h3 = row (dev i3)"
    using writel_eq[of i3 0 NAND_CMD] i3(2) by (auto simp: ready_def)
  have ws: "0 < (of_nat (wsize g) :: u32)" using assms(4,5) small_word[of "wsize g"] by (simp add: word_less_nat_alt)
  have fr: "buf_count (nand_writel B off v j) = buf_count j" "seqin_page_addr (nand_writel B off v j) = seqin_page_addr j"
    "seqin_column (nand_writel B off v j) = seqin_column j" for off v j by (simp_all add: nand_writel_def)
  have "ls1x_nand_cmdfunc B g NAND_CMD_PAGEPROG (- 1) (- 1) i2 = i3\<lparr>dev := h3\<rparr>"
    using i3(1) h(1) h3(1) on2(3-5) ws
    by (simp add: ls1x_nand_cmdfunc_def NAND_CMD_PAGEPROG_def NAND_CMD_SEQIN_def NAND_CMD_READ0_def NAND_CMD_READOOB_def Let_def fr)
  then have "st = 0" "i' = i3\<lparr>dev := h3\<rparr>" using assms(8) unfolding seq i2_def[symmetric] by (simp_all add: ls1x_nand_waitfunc_def)
  then show ?thesis using i3(2,3) h3(2,3) by (simp add: ready_def)
qed

lemma run_eq:
  assumes "on (dev i)" "c AND 0x18 = 0"
  shows "\<exists>n h. run_command B c i = (n, i\<lparr>dev := h\<rparr>) \<and> on h \<and> row h = row (dev i)"
proof -
  obtain h1 where 1: "nand_writel B NAND_CMD c i = i\<lparr>dev := h1\<rparr>" "on h1" "row h1 = row (dev i)" "regs h1 = (regs (dev i))(NAND_CMD := c)"
    using writel_eq[OF assms(1), of c NAND_CMD] assms(2) by auto
  obtain h2 where 2: "ls1x_nand_start B (i\<lparr>dev := h1\<rparr>) = i\<lparr>dev := h2\<rparr>" "on h2" "row h2 = row h1"
    using start_eq[of "i\<lparr>dev := h1\<rparr>"] 1(2,4) assms(2) by auto
  obtain n h3 where 3: "ls1x_nand_done B (i\<lparr>dev := h2\<rparr>) = (n, i\<lparr>dev := h3\<rparr>)" "on h3" "row h3 = row h2"
    using done_keeps[of "i\<lparr>dev := h2\<rparr>" 400000] 2(2) by (auto simp: ls1x_nand_done_def)
  show ?thesis using 1 2 3 by (intro exI[of _ n] exI[of _ h3]) (simp add: run_command_def)
qed

lemma status_row:
  assumes "ready i" "ls1x_nand_read_byte (ls1x_nand_cmdfunc B g NAND_CMD_STATUS (- 1) (- 1) i) = (b, i')"
  shows "b AND NAND_STATUS_WP \<noteq> 0 \<and> ready i' \<and> row (dev i') = row (dev i)"
proof -
  define i0 where "i0 = i\<lparr>buf_count := 1, buf_start := 0\<rparr>"
  have on0: "on (dev i0)" using assms(1) by (simp add: i0_def ready_def)
  obtain n h1 where 1: "run_command B READ_STATUS i0 = (n, i0\<lparr>dev := h1\<rparr>)" "on h1" "row h1 = row (dev i0)"
    using run_eq[OF on0, of READ_STATUS] by (auto simp: READ_STATUS_def)
  obtain v h2 where 2: "nand_readl B NAND_IDH (i0\<lparr>dev := h1\<rparr>) = (v, i0\<lparr>dev := h2\<rparr>)" "on h2" "row h2 = row h1"
    using readl_eq[of "i0\<lparr>dev := h1\<rparr>" NAND_IDH] 1(2) by auto
  define x :: u8 where "x = ucast (drop_bit 8 v) OR 0x80"
  define i3 where "i3 = i0\<lparr>dev := h2, data_buff := put_at 0 [x] (data_buff i)\<rparr>"
  obtain h3 where 3: "nand_writel B NAND_CMD 0 i3 = i3\<lparr>dev := h3\<rparr>" "on h3" "row h3 = row h2"
    using writel_eq[of i3 0 NAND_CMD] 2(2) by (auto simp: i3_def)
  have len: "length (put_at 0 [x] (data_buff i)) = 8192" "put_at 0 [x] (data_buff i) ! 0 = x"
    using assms(1) put_at_length[of 0 "[x]" "data_buff i"] by (simp_all add: ready_def put_at_def)
  have d0: "data_buff i0 = data_buff i" by (simp add: i0_def)
  have "ls1x_nand_cmdfunc B g NAND_CMD_STATUS (- 1) (- 1) i = i3\<lparr>dev := h3\<rparr>"
    using 1(1) 2(1) 3(1) d0
    by (simp add: ls1x_nand_cmdfunc_def NAND_CMD_STATUS_def NAND_CMD_PAGEPROG_def NAND_CMD_SEQIN_def NAND_CMD_READ0_def NAND_CMD_READOOB_def
        NAND_CMD_RESET_def NAND_CMD_ERASE1_def Let_def i0_def[symmetric] i3_def x_def)
  moreover have "buf_start i3 = 0" "buf_count i3 = 1" "data_buff i3 ! 0 = x" using len(2) by (simp_all add: i3_def i0_def)
  then have "ls1x_nand_read_byte (i3\<lparr>dev := h3\<rparr>) = (x, i3\<lparr>dev := h3, buf_start := 1\<rparr>)" by (simp add: ls1x_nand_read_byte_def)
  ultimately have bi: "b = x" "i' = i3\<lparr>dev := h3, buf_start := 1\<rparr>" using assms(2) by simp_all
  moreover have "x AND NAND_STATUS_WP \<noteq> 0" by (simp add: x_def NAND_STATUS_WP_def bit.conj_disj_distrib2)
  ultimately show ?thesis using bi 1(3) 2(3) 3(2,3) len by (simp add: ready_def i3_def i0_def)
qed

lemma wait_keeps: "ready i \<Longrightarrow> ready (nand_wait_ready B n i) \<and> row (dev (nand_wait_ready B n i)) = row (dev i)"
proof (induction n arbitrary: i)
  case (Suc n)
  obtain v h where h: "nand_readl B NAND_CMD i = (v, i\<lparr>dev := h\<rparr>)" "on h" "row h = row (dev i)"
    using readl_eq[of i NAND_CMD] Suc.prems by (auto simp: ready_def)
  have "ready (i\<lparr>dev := h\<rparr>)" using Suc.prems h(2) by (simp add: ready_def)
  then show ?case using Suc.IH[of "i\<lparr>dev := h\<rparr>"] h by (simp add: ls1x_nand_dev_ready_def)
qed simp

end

section \<open>The driver as a chip\<close>

locale ls1x_chip = ls1x_hw +
  fixes g :: geometry and polls :: nat
  assumes page: "wsize g = 2 ^ page_shift g" "wsize g = 256 * eccsteps g" "wsize g + oobsize g = rsize"
    and layout: "length (eccpos g) = 3 * eccsteps g" "distinct (eccpos g)" "\<And>p. p \<in> set (eccpos g) \<Longrightarrow> p < oobsize g"
    and chip: "msize g = rows * int (wsize g)" "\<And>p. 0 \<le> p \<Longrightarrow> p < rows \<Longrightarrow> p AND pagemask g = p" "\<not> autoincr g"
begin

lemma map2_append: "length xs = length us \<Longrightarrow> map2 f (xs @ ys) (us @ vs) = map2 f xs us @ map2 f ys vs"
  by simp

lemma meets_contract:
  "nand_dev g (ls1x_ops B g polls) ready (\<lambda>i p. take (wsize g) (row (dev i) p)) (\<lambda>i p. drop (wsize g) (row (dev i) p)) rows"
proof
  show "length (take (wsize g) (row (dev h) p)) = wsize g \<and> length (drop (wsize g) (row (dev h) p)) = oobsize g"
    if "ready h" "0 \<le> p" "p < rows" for h p using row_size[of "dev h" p] that page(3) by (auto simp: ready_def)
next
  fix h p d h1 s h2
  assume h: "ready h" "0 \<le> p" "p < rows"
    and r: "read_buf (ls1x_ops B g polls) (wsize g) (cmdfunc (ls1x_ops B g polls) NAND_CMD_READ0 0 p h) = (d, h1)"
      "read_buf (ls1x_ops B g polls) (oobsize g) h1 = (s, h2)"
  then show "d = take (wsize g) (row (dev h) p) \<and> s = drop (wsize g) (row (dev h) p) \<and> ready h2 \<and>
      (\<lambda>p. take (wsize g) (row (dev h2) p)) = (\<lambda>p. take (wsize g) (row (dev h) p)) \<and>
      (\<lambda>p. drop (wsize g) (row (dev h2) p)) = (\<lambda>p. drop (wsize g) (row (dev h) p))"
    using read_row[OF h page(3), of d h1 s h2] by (simp add: ls1x_ops_def)
next
  fix h b h'
  assume "ready h" "read_byte (ls1x_ops B g polls) (cmdfunc (ls1x_ops B g polls) NAND_CMD_STATUS (- 1) (- 1) h) = (b, h')"
  then show "b AND NAND_STATUS_WP \<noteq> 0 \<and> ready h' \<and>
      (\<lambda>p. take (wsize g) (row (dev h') p)) = (\<lambda>p. take (wsize g) (row (dev h) p)) \<and>
      (\<lambda>p. drop (wsize g) (row (dev h') p)) = (\<lambda>p. drop (wsize g) (row (dev h) p))"
    using status_row[of h g b h'] by (simp add: ls1x_ops_def)
next
  fix h p d s st h'
  assume h: "ready h" "0 \<le> p" "p < rows" and len: "length d = wsize g" "length s = oobsize g"
    and w: "waitfunc (ls1x_ops B g polls) (cmdfunc (ls1x_ops B g polls) NAND_CMD_PAGEPROG (- 1) (- 1) (write_buf (ls1x_ops B g polls) s
      (write_buf (ls1x_ops B g polls) d (cmdfunc (ls1x_ops B g polls) NAND_CMD_SEQIN 0 p h)))) = (st, h')"
  have "0 < wsize g" using page(1) by simp
  then have r: "st = 0" "ready h'" "row (dev h') = (row (dev h))(p := map2 (AND) (row (dev h) p) (d @ s))"
    using prog_row[OF h page(3) _ len, of st h'] w by (simp_all add: ls1x_ops_def)
  have "length (row (dev h) p) = rsize" using row_size[of "dev h" p] h by (simp add: ready_def)
  then have "take (wsize g) (map2 (AND) (row (dev h) p) (d @ s)) = map2 (AND) (take (wsize g) (row (dev h) p)) d"
    "drop (wsize g) (map2 (AND) (row (dev h) p) (d @ s)) = map2 (AND) (drop (wsize g) (row (dev h) p)) s"
    using len by (simp_all add: take_map drop_map take_zip drop_zip)
  then show "st AND NAND_STATUS_FAIL = 0 \<and> ready h' \<and>
      (\<lambda>q. take (wsize g) (row (dev h') q)) = (\<lambda>q. take (wsize g) (row (dev h) q))(p := map2 (AND) (take (wsize g) (row (dev h) p)) d) \<and>
      (\<lambda>q. drop (wsize g) (row (dev h') q)) = (\<lambda>q. drop (wsize g) (row (dev h) q))(p := map2 (AND) (drop (wsize g) (row (dev h) p)) s)"
    using r by (auto simp: fun_eq_iff)
qed (use page layout chip wait_keeps in \<open>simp_all add: ls1x_ops_def ls1x_nand_select_chip_def\<close>)

end

sublocale ls1x_chip < page: nand_dev g "ls1x_ops B g polls" ready "\<lambda>i p. take (wsize g) (row (dev i) p)" "\<lambda>i p. drop (wsize g) (row (dev i) p)" rows
  by (rule meets_contract)

end
