(* ===== verification/Nand_Erase.thy ===== *)
theory Nand_Erase
  imports Ls1x_Nand
begin

unbundle bit_operations_syntax

text \<open>
  Erasing blocks, \<^verbatim>\<open>nand_erase_nand\<close> of \<^verbatim>\<open>src/os/hardware/nand/nand_base.c\<close>, for chips whose bad block
  table is not refreshed automatically and without a callback. The instruction keeps its 32-bit fields.
  The locale \<open>nand_eraser\<close> adds the erase command to the contract of a chip with blocks; the driver of the board meets it
  when the controller follows the locale \<open>ls1x_eraser\<close>.
\<close>

section \<open>The code\<close>

datatype erase_state = MTD_ERASE_PENDING | MTD_ERASING | MTD_ERASE_SUSPEND | MTD_ERASE_DONE | MTD_ERASE_FAILED

record erase_info =
  erase_addr :: u32
  fail_addr :: u32
  erase_len :: u32
  erase_st :: erase_state

definition single_erase_cmd :: "'s chip_ops \<Rightarrow> int \<Rightarrow> 's nand \<Rightarrow> 's nand" where
  "single_erase_cmd ops page c = c\<lparr>hw := cmdfunc ops NAND_CMD_ERASE2 (- 1) (- 1) (cmdfunc ops NAND_CMD_ERASE1 (- 1) page (hw c))\<rparr>"

text \<open>\<^verbatim>\<open>nand_block_checkbad\<close> with the chip already taken: the offset is then used as a page number.\<close>

definition nand_block_bad_held :: "geometry \<Rightarrow> 's chip_ops \<Rightarrow> int \<Rightarrow> 's nand \<Rightarrow> int \<times> 's nand" where
  "nand_block_bad_held g ops ofs c =
    (let (b, h) = read_byte ops (cmdfunc ops NAND_CMD_READOOB (badblockpos g) (ofs AND pagemask g) (hw c))
     in (if b \<noteq> 0xff then 1 else 0, c\<lparr>hw := h\<rparr>))"

definition checkbad_held :: "geometry \<Rightarrow> 's chip_ops \<Rightarrow> int \<Rightarrow> bool \<Rightarrow> 's nand \<Rightarrow> (int \<times> 's nand) option" where
  "checkbad_held g ops ofs allowbbt c =
    (case bbt c of
       None \<Rightarrow> Some (nand_block_bad_held g ops ofs c)
     | Some table \<Rightarrow> map_option (\<lambda>r. (r, c)) (nand_isbad_bbt g table ofs allowbbt))"

partial_function (option) erase_loop ::
  "geometry \<Rightarrow> 's chip_ops \<Rightarrow> bool \<Rightarrow> int \<Rightarrow> int \<Rightarrow> int \<Rightarrow> erase_info \<Rightarrow> 's nand \<Rightarrow> (erase_info \<times> 's nand) option" where
  "erase_loop g ops allowbbt page chipnr len i c =
    (if len = 0 then Some (i\<lparr>erase_st := MTD_ERASE_DONE\<rparr>, c)
     else do {
       (bad, c) \<leftarrow> checkbad_held g ops (push_bit (page_shift g) page) allowbbt c;
       if bad \<noteq> 0 then Some (i\<lparr>erase_st := MTD_ERASE_FAILED\<rparr>, c)
       else
         let pages_per_block = 2 ^ (phys_erase_shift g - page_shift g);
             c = (if page \<le> pagebuf c \<and> pagebuf c < page + pages_per_block then c\<lparr>pagebuf := - 1\<rparr> else c);
             c = single_erase_cmd ops (page AND pagemask g) c;
             (status, h) = waitfunc ops (hw c);
             c = c\<lparr>hw := h\<rparr>
         in if status AND NAND_STATUS_FAIL \<noteq> 0
            then Some (i\<lparr>erase_st := MTD_ERASE_FAILED, fail_addr := word_of_int (push_bit (page_shift g) page)\<rparr>, c)
            else
              let len = len - 2 ^ phys_erase_shift g;
                  page = page + pages_per_block;
                  (chipnr, c) =
                    (if len \<noteq> 0 \<and> page AND pagemask g = 0
                     then (chipnr + 1, c\<lparr>hw := select_chip ops (chipnr + 1) (select_chip ops (- 1) (hw c))\<rparr>)
                     else (chipnr, c))
              in erase_loop g ops allowbbt page chipnr len i c })"

declare erase_loop.simps [code]

definition nand_erase_nand :: "geometry \<Rightarrow> 's chip_ops \<Rightarrow> erase_info \<Rightarrow> bool \<Rightarrow> 's nand \<Rightarrow> (int \<times> erase_info \<times> 's nand) option" where
  "nand_erase_nand g ops i allowbbt c =
    (if uint (erase_addr i) AND (2 ^ phys_erase_shift g - 1) \<noteq> 0 \<or> uint (erase_len i) AND (2 ^ phys_erase_shift g - 1) \<noteq> 0 \<or>
        uint (erase_len i + erase_addr i) > msize g
     then Some (- EINVAL, i, c)
     else do {
       let i = i\<lparr>fail_addr := 0xffffffff\<rparr>;
       c \<leftarrow> nand_get_device FL_ERASING c;
       let page = drop_bit (page_shift g) (uint (erase_addr i));
       let chipnr = drop_bit (chip_shift g) (uint (erase_addr i));
       let c = c\<lparr>hw := select_chip ops chipnr (hw c)\<rparr>;
       let (wp, c) = nand_check_wp ops c;
       (i, c) \<leftarrow> (if wp then Some (i\<lparr>erase_st := MTD_ERASE_FAILED\<rparr>, c)
                 else erase_loop g ops allowbbt page chipnr (sint (erase_len i)) (i\<lparr>erase_st := MTD_ERASING\<rparr>) c);
       Some (if erase_st i = MTD_ERASE_DONE then 0 else - EIO, i, nand_release_device ops c) })"

definition nand_erase :: "geometry \<Rightarrow> 's chip_ops \<Rightarrow> erase_info \<Rightarrow> 's nand \<Rightarrow> (int \<times> erase_info \<times> 's nand) option" where
  "nand_erase g ops i c = nand_erase_nand g ops i False c"

section \<open>Erased blocks\<close>

text \<open>The pages with those from \<open>a\<close> to below \<open>b\<close> cleared to \<open>n\<close> bytes \<open>0xff\<close>.\<close>

definition wiped :: "nat \<Rightarrow> int \<Rightarrow> int \<Rightarrow> (int \<Rightarrow> u8 list) \<Rightarrow> int \<Rightarrow> u8 list" where
  "wiped n a b D p = (if a \<le> p \<and> p < b then replicate n 0xff else D p)"

lemma wiped_empty: "wiped n a a D = D"
  by (auto simp: wiped_def fun_eq_iff)

lemma wiped_join: "a \<le> b \<Longrightarrow> b \<le> c \<Longrightarrow> wiped n b c (wiped n a b D) = wiped n a c D"
  by (auto simp: wiped_def fun_eq_iff)

locale nand_eraser = nand_blocks +
  fixes ppb :: int
  assumes block_pages: "page_shift g \<le> phys_erase_shift g" "ppb = 2 ^ (phys_erase_shift g - page_shift g)"
    and erase_law: "\<And>h b st h'. ok h \<Longrightarrow> 0 \<le> b \<Longrightarrow> b < nb \<Longrightarrow>
      waitfunc ops (cmdfunc ops NAND_CMD_ERASE2 (- 1) (- 1) (cmdfunc ops NAND_CMD_ERASE1 (- 1) (b * ppb) h)) = (st, h') \<Longrightarrow>
      st AND NAND_STATUS_FAIL = 0 \<and> ok h' \<and> main h' = wiped (wsize g) (b * ppb) ((b + 1) * ppb) (main h) \<and>
      spare h' = wiped (oobsize g) (b * ppb) ((b + 1) * ppb) (spare h)"
begin

lemma ppb_pos: "0 < ppb"
  by (simp add: block_pages(2))

lemma block_bytes: "esize g = ppb * int (wsize g)"
  using block_pages page_size(1) block_size(1) by (simp flip: power_add)

lemma pages_total: "np = nb * ppb"
proof -
  have "np * int (wsize g) = nb * ppb * int (wsize g)" using one_chip(1) block_size(3) block_bytes by (metis mult.assoc)
  then show ?thesis using wsize_pos by simp
qed

definition wiped_chip :: "int \<Rightarrow> int \<Rightarrow> 'a nand \<Rightarrow> 'a nand \<Rightarrow> bool" where
  "wiped_chip b e c c' \<longleftrightarrow> ok (hw c') \<and> main (hw c') = wiped (wsize g) (b * ppb) (e * ppb) (main (hw c)) \<and>
    spare (hw c') = wiped (oobsize g) (b * ppb) (e * ppb) (spare (hw c)) \<and> bbt c' = bbt c \<and> oobwbuf c' = oobwbuf c \<and> databuf c' = databuf c \<and>
    pagebuf c' = (if b * ppb \<le> pagebuf c \<and> pagebuf c < e * ppb then - 1 else pagebuf c)"

lemma wiped_chip_trans:
  assumes "wiped_chip b e c c'" "wiped_chip e f c' c''" "0 \<le> b" "b \<le> e" "e \<le> f"
  shows "wiped_chip b f c c''"
proof -
  have le: "b * ppb \<le> e * ppb" "e * ppb \<le> f * ppb" "0 \<le> b * ppb" using assms(3-5) ppb_pos by (simp_all add: mult_right_mono)
  then show ?thesis using assms(1,2) by (auto simp: wiped_chip_def wiped_join)
qed

text \<open>One block: a bad one ends the loop, a good one is cleared.\<close>

lemma good_block_erased:
  assumes "ok (hw c)" "0 \<le> b" "b < nb"
  defines "c0 \<equiv> (if b * ppb \<le> pagebuf c \<and> pagebuf c < b * ppb + ppb then c\<lparr>pagebuf := - 1\<rparr> else c)"
  shows "\<exists>st h. waitfunc ops (hw (single_erase_cmd ops (b * ppb AND pagemask g) c0)) = (st, h) \<and> st AND NAND_STATUS_FAIL = 0 \<and>
    (\<forall>h'. ok h' \<longrightarrow> main h' = main h \<longrightarrow> spare h' = spare h \<longrightarrow> wiped_chip b (b + 1) c (single_erase_cmd ops (b * ppb AND pagemask g) c0\<lparr>hw := h'\<rparr>)) \<and> ok h"
proof -
  have p: "0 \<le> b * ppb" using assms(2) ppb_pos by simp
  have "(b + 1) * ppb \<le> nb * ppb" using assms(3) ppb_pos by (intro mult_right_mono) auto
  then have "b * ppb < np" using ppb_pos unfolding pages_total distrib_right by linarith
  then have m: "b * ppb AND pagemask g = b * ppb" using one_chip(2) p by blast
  obtain st h where w: "waitfunc ops (cmdfunc ops NAND_CMD_ERASE2 (- 1) (- 1) (cmdfunc ops NAND_CMD_ERASE1 (- 1) (b * ppb) (hw c))) = (st, h)" by (metis surj_pair)
  note l = erase_law[OF assms(1-3) w]
  have "hw c0 = hw c" by (simp add: c0_def)
  then have "waitfunc ops (hw (single_erase_cmd ops (b * ppb AND pagemask g) c0)) = (st, h)" using w by (simp add: single_erase_cmd_def m)
  moreover have "wiped_chip b (b + 1) c (single_erase_cmd ops (b * ppb AND pagemask g) c0\<lparr>hw := h'\<rparr>)"
    if "ok h'" "main h' = main h" "spare h' = spare h" for h'
    using l that by (auto simp: wiped_chip_def single_erase_cmd_def c0_def distrib_right)
  ultimately show ?thesis using l by blast
qed

lemma table_block:
  assumes "bbt c = Some T" "0 \<le> b" "b < nb"
  shows "\<exists>r. checkbad_held g ops (push_bit (page_shift g) (b * ppb)) False c = Some (r, c) \<and> (r = 0 \<longleftrightarrow> \<not> bad b)"
proof -
  have "push_bit (page_shift g) (b * ppb) = b * esize g" by (simp add: push_bit_eq_mult block_bytes page_size(1))
  moreover obtain r where "nand_isbad_bbt g T (b * esize g) False = Some r" using table[OF assms(2,3)] by blast
  ultimately show ?thesis using assms(1) by (auto simp: checkbad_held_def bad_def)
qed

text \<open>The loop erases up to the first bad block.\<close>

lemma erase_loop_blocks:
  "ok (hw c) \<Longrightarrow> bbt c = Some T \<Longrightarrow> 0 \<le> b \<Longrightarrow> b + int k \<le> nb \<Longrightarrow>
    \<exists>i' c' e. erase_loop g ops False (b * ppb) cn (int k * esize g) i c = Some (i', c') \<and> fl c' = fl c \<and> b \<le> e \<and> e \<le> b + int k \<and> wiped_chip b e c c' \<and>
      (\<forall>x. b \<le> x \<and> x < e \<longrightarrow> \<not> bad x) \<and> (e < b + int k \<longrightarrow> bad e) \<and> (erase_st i' = MTD_ERASE_DONE \<longleftrightarrow> e = b + int k) \<and>
      erase_addr i' = erase_addr i \<and> erase_len i' = erase_len i"
proof (induction k arbitrary: b c cn)
  case 0
  then show ?case
    by (intro exI[of _ "i\<lparr>erase_st := MTD_ERASE_DONE\<rparr>"] exI[of _ c] exI[of _ b])
      (auto simp: erase_loop.simps wiped_chip_def wiped_empty)
next
  case (Suc k)
  have b: "b < nb" using Suc.prems(4) by simp
  have nz: "int (Suc k) * esize g \<noteq> 0" using es_pos by simp
  obtain r where r: "checkbad_held g ops (push_bit (page_shift g) (b * ppb)) False c = Some (r, c)" "r = 0 \<longleftrightarrow> \<not> bad b"
    using table_block[OF Suc.prems(2,3) b] by blast
  show ?case
  proof (cases "bad b")
    case True
    then have "erase_loop g ops False (b * ppb) cn (int (Suc k) * esize g) i c = Some (i\<lparr>erase_st := MTD_ERASE_FAILED\<rparr>, c)"
      using r nz by (simp add: erase_loop.simps[of g ops False "b * ppb"])
    then show ?thesis using True Suc.prems(1)
      by (intro exI[of _ "i\<lparr>erase_st := MTD_ERASE_FAILED\<rparr>"] exI[of _ c] exI[of _ b]) (auto simp: wiped_chip_def wiped_empty)
  next
    case False
    let ?c0 = "if b * ppb \<le> pagebuf c \<and> pagebuf c < b * ppb + ppb then c\<lparr>pagebuf := - 1\<rparr> else c"
    obtain st h where g: "waitfunc ops (hw (single_erase_cmd ops (b * ppb AND pagemask g) ?c0)) = (st, h)" "st AND NAND_STATUS_FAIL = 0" "ok h"
      "\<And>h'. ok h' \<Longrightarrow> main h' = main h \<Longrightarrow> spare h' = spare h \<Longrightarrow> wiped_chip b (b + 1) c (single_erase_cmd ops (b * ppb AND pagemask g) ?c0\<lparr>hw := h'\<rparr>)"
      using good_block_erased[OF Suc.prems(1,3) b] by blast
    let ?p = "b * ppb + ppb" and ?l = "int (Suc k) * esize g - esize g"
    define cross where "cross \<longleftrightarrow> ?l \<noteq> 0 \<and> ?p AND pagemask g = 0"
    define h1 where "h1 = (if cross then select_chip ops (cn + 1) (select_chip ops (- 1) h) else h)"
    define c1 where "c1 = single_erase_cmd ops (b * ppb AND pagemask g) ?c0\<lparr>hw := h1\<rparr>"
    have h1: "ok h1" "main h1 = main h" "spare h1 = spare h" using g(3) select_law by (auto simp: h1_def)
    have c1: "wiped_chip b (b + 1) c c1" using g(4)[OF h1] by (simp add: c1_def)
    have l: "?l = int k * esize g" and p: "?p = (b + 1) * ppb" by (simp_all add: distrib_right)
    have "erase_loop g ops False (b * ppb) cn (int (Suc k) * esize g) i c = erase_loop g ops False ?p (if cross then cn + 1 else cn) ?l i c1"
      using r False nz g(1,2) by (subst erase_loop.simps) (simp add: Let_def block_pages(2)[symmetric] block_size(1)[symmetric] cross_def c1_def h1_def)
    then have step: "erase_loop g ops False (b * ppb) cn (int (Suc k) * esize g) i c = erase_loop g ops False ((b + 1) * ppb) (if cross then cn + 1 else cn) (int k * esize g) i c1"
      unfolding l p .
    have c1': "ok (hw c1)" "bbt c1 = Some T" "fl c1 = fl c" using c1 Suc.prems(2) by (auto simp: wiped_chip_def c1_def single_erase_cmd_def)
    obtain i' c' e where e: "erase_loop g ops False ((b + 1) * ppb) (if cross then cn + 1 else cn) (int k * esize g) i c1 = Some (i', c')" "fl c' = fl c1" "b + 1 \<le> e" "e \<le> b + 1 + int k"
      "wiped_chip (b + 1) e c1 c'" "\<forall>x. b + 1 \<le> x \<and> x < e \<longrightarrow> \<not> bad x" "e < b + 1 + int k \<longrightarrow> bad e" "erase_st i' = MTD_ERASE_DONE \<longleftrightarrow> e = b + 1 + int k"
      "erase_addr i' = erase_addr i" "erase_len i' = erase_len i"
      using Suc.IH[OF c1'(1,2), of "b + 1" "if cross then cn + 1 else cn"] Suc.prems(3,4) by (auto simp: ac_simps)
    have "wiped_chip b e c c'" using wiped_chip_trans[OF c1 e(5) Suc.prems(3)] e(3) by simp
    moreover have "\<not> bad x" if "b \<le> x" "x < e" for x using that False e(6) by (cases "x = b") auto
    ultimately show ?thesis unfolding step using e c1'(3) by (intro exI[of _ i'] exI[of _ c'] exI[of _ e]) auto
  qed
qed

lemma low_bits: "x AND (2 ^ n - 1) = x mod 2 ^ n" for x :: int
  by (simp add: take_bit_eq_mask mask_eq_exp_minus_1 flip: take_bit_eq_mod)

text \<open>A whole stretch of blocks: cleared when all of them are good, else refused at the first bad one.\<close>

lemma nand_erase_blocks:
  assumes "ok (hw c)" "fl c = FL_READY" "bbt c = Some T" "0 \<le> b" "b + int k \<le> nb" "uint (erase_addr i) = b * esize g" "uint (erase_len i) = int k * esize g"
    "msize g < 2 ^ 31"
  shows "\<exists>r i' c' e. nand_erase g ops i c = Some (r, i', c') \<and> fl c' = FL_READY \<and> b \<le> e \<and> e \<le> b + int k \<and> wiped_chip b e c c' \<and>
    (\<forall>x. b \<le> x \<and> x < e \<longrightarrow> \<not> bad x) \<and> (e < b + int k \<longrightarrow> bad e) \<and> (r = 0 \<longleftrightarrow> e = b + int k) \<and> (r = 0 \<or> r = - EIO) \<and>
    erase_addr i' = erase_addr i \<and> erase_len i' = erase_len i"
proof -
  have fin: "(b + int k) * esize g \<le> msize g" unfolding block_size(3) using assms(5) es_pos by (intro mult_right_mono) auto
  have nn: "0 \<le> b * esize g" "0 \<le> int k * esize g" using assms(4) es_pos by auto
  have sum: "uint (erase_len i + erase_addr i) = (b + int k) * esize g"
    using fin nn assms(6-8) by (simp add: uint_word_ariths distrib_right)
  have len: "sint (erase_len i) = int k * esize g"
    using fin nn assms(7,8) by (simp add: sint_uint signed_take_bit_int_eq_self distrib_right)
  have al: "uint (erase_addr i) AND (2 ^ phys_erase_shift g - 1) = 0" "uint (erase_len i) AND (2 ^ phys_erase_shift g - 1) = 0"
    unfolding low_bits assms(6,7) by (simp_all add: block_size(1))
  have pg: "drop_bit (page_shift g) (uint (erase_addr i)) = b * ppb"
    using wsize_pos unfolding assms(6) drop_bit_eq_div block_bytes page_size(1)[symmetric] of_nat_power[symmetric] by (simp add: page_size(1))
  let ?h = "select_chip ops (drop_bit (chip_shift g) (uint (erase_addr i))) (hw c)"
  have h: "ok ?h" "main ?h = main (hw c)" "spare ?h = spare (hw c)" using select_law[OF assms(1)] by auto
  obtain x h1 where x: "read_byte ops (cmdfunc ops NAND_CMD_STATUS (- 1) (- 1) ?h) = (x, h1)" by (metis surj_pair)
  note st = status_law[OF h(1) x]
  define c1 where "c1 = c\<lparr>fl := FL_ERASING, hw := h1\<rparr>"
  define i1 where "i1 = i\<lparr>fail_addr := 0xffffffff, erase_st := MTD_ERASING\<rparr>"
  have "ok (hw c1)" "bbt c1 = Some T" using st assms(3) by (simp_all add: c1_def)
  then obtain i2 c2 e where e: "erase_loop g ops False (b * ppb) (drop_bit (chip_shift g) (uint (erase_addr i))) (int k * esize g) i1 c1 = Some (i2, c2)"
    "b \<le> e" "e \<le> b + int k" "wiped_chip b e c1 c2" "\<forall>x. b \<le> x \<and> x < e \<longrightarrow> \<not> bad x" "e < b + int k \<longrightarrow> bad e" "erase_st i2 = MTD_ERASE_DONE \<longleftrightarrow> e = b + int k"
    "erase_addr i2 = erase_addr i1" "erase_len i2 = erase_len i1"
    using erase_loop_blocks[of c1 b k "drop_bit (chip_shift g) (uint (erase_addr i))" i1] assms(4,5) by blast
  define c3 where "c3 = nand_release_device ops c2"
  have "wiped_chip b e c c3"
    using e(4) h st select_law[of "hw c2" "- 1"] by (auto simp: wiped_chip_def c1_def c3_def nand_release_device_def)
  moreover have "nand_erase g ops i c = Some (if erase_st i2 = MTD_ERASE_DONE then 0 else - EIO, i2, c3)"
    using assms(2) al sum fin pg len x st e(1)
    by (simp add: nand_erase_def nand_erase_nand_def nand_get_device_def nand_check_wp_def Let_def c3_def c1_def i1_def)
  ultimately show ?thesis using e
    by (intro exI[of _ "if erase_st i2 = MTD_ERASE_DONE then 0 else - EIO"] exI[of _ i2] exI[of _ c3] exI[of _ e])
      (auto simp: c3_def nand_release_device_def i1_def EIO_def)
qed

text \<open>An erased page reads as itself, and a page belongs to the block its number says.\<close>

lemma wiped_reads:
  assumes "reads_as D good_pages c" "wiped_chip b e c c'"
  shows "reads_as (wiped (wsize g) (b * ppb) (e * ppb) D) good_pages c'"
proof -
  have "readable g (replicate (wsize g) 0xff) (replicate (wsize g) 0xff) (replicate (oobsize g) 0xff)"
    using ecc_layout(1,3) page_size(2) by (rule erased_readable)
  moreover have "- 1 \<notin> good_pages" by (simp add: good_pages_def)
  ultimately show ?thesis using assms by (auto simp: reads_as_def wiped_chip_def wiped_def)
qed

lemma page_in_block: "p * int (wsize g) div esize g = p div ppb"
  using wsize_pos by (simp add: block_bytes)

lemma good_stretch:
  assumes "\<And>x. b \<le> x \<Longrightarrow> x < e \<Longrightarrow> \<not> bad x" "0 \<le> b" "e \<le> nb"
  shows "{b * ppb..<e * ppb} \<subseteq> good_pages"
proof
  fix p assume p: "p \<in> {b * ppb..<e * ppb}"
  have "p div ppb < e" using p div_below[OF ppb_pos] by simp
  moreover have "b * ppb div ppb \<le> p div ppb" using p ppb_pos by (intro zdiv_mono1) simp_all
  then have "b \<le> p div ppb" using ppb_pos by simp
  moreover have "0 \<le> b * ppb" "e * ppb \<le> np" using assms(2,3) ppb_pos by (simp_all add: pages_total mult_right_mono)
  ultimately show "p \<in> good_pages" using p assms(1) by (simp add: good_pages_def page_in_block)
qed

end

section \<open>The driver\<close>

locale ls1x_eraser = ls1x_chip +
  fixes nb :: int and T :: "u8 list" and ppb :: int
  assumes blocks: "esize g = 2 ^ phys_erase_shift g" "int (wsize g) dvd esize g" "msize g = nb * esize g"
    and block_table: "\<And>b. 0 \<le> b \<Longrightarrow> b < nb \<Longrightarrow> nand_isbad_bbt g T (b * esize g) False \<noteq> None"
    and block_rows: "page_shift g \<le> phys_erase_shift g" "ppb = 2 ^ (phys_erase_shift g - page_shift g)"
    and erase_set: "\<And>h h'. on h \<Longrightarrow> h' = hw_writel B NAND_CMD ERASE h \<Longrightarrow> on h' \<and> row h' = row h \<and> regs h' = (regs h)(NAND_CMD := ERASE)"
    and erase_start: "\<And>h v b h'. on h \<Longrightarrow> 0 \<le> b \<Longrightarrow> b < nb \<Longrightarrow> regs h NAND_CMD = ERASE \<Longrightarrow> regs h NAND_ADDR_L = push_bit 12 (word_of_int (b * ppb)) \<Longrightarrow>
      regs h NAND_ADDR_H = word_of_int (b * ppb) \<Longrightarrow> regs h NAND_OPNUM = 1 \<Longrightarrow> v AND 0x3ff = ERASE OR 1 \<Longrightarrow> h' = hw_writel B NAND_CMD v h \<Longrightarrow>
      on h' \<and> row h' = wiped rsize (b * ppb) ((b + 1) * ppb) (row h)"
begin

lemma erase_row:
  assumes "ready i" "0 \<le> b" "b < nb"
    "ls1x_nand_waitfunc (ls1x_nand_cmdfunc B g NAND_CMD_ERASE2 (- 1) (- 1) (ls1x_nand_cmdfunc B g NAND_CMD_ERASE1 (- 1) (b * ppb) i)) = (st, i')"
  shows "st = 0 \<and> ready i' \<and> row (dev i') = wiped rsize (b * ppb) ((b + 1) * ppb) (row (dev i))"
proof -
  let ?w = "word_of_int (b * ppb) :: u32"
  define i0 where "i0 = i\<lparr>buf_count := 0, buf_start := 0\<rparr>"
  have on0: "on (dev i0)" "row (dev i0) = row (dev i)" using assms(1) by (simp_all add: i0_def ready_def)
  obtain h1 where 1: "nand_writel B NAND_ADDR_L (MAIN_ADDRL ?w) i0 = i0\<lparr>dev := h1\<rparr>" "on h1" "row h1 = row (dev i)" "regs h1 = (regs (dev i0))(NAND_ADDR_L := push_bit 12 ?w)"
    using writel_eq[OF on0(1), of "MAIN_ADDRL ?w" NAND_ADDR_L] on0(2) by (auto simp: reg_offsets MAIN_ADDRL_def)
  obtain h2 where 2: "nand_writel B NAND_ADDR_H (MAIN_ADDRH ?w) (i0\<lparr>dev := h1\<rparr>) = i0\<lparr>dev := h2\<rparr>" "on h2" "row h2 = row h1" "regs h2 = (regs h1)(NAND_ADDR_H := ?w)"
    using writel_eq[of "i0\<lparr>dev := h1\<rparr>" "MAIN_ADDRH ?w" NAND_ADDR_H] 1(2) by (auto simp: reg_offsets MAIN_ADDRH_def)
  obtain h3 where 3: "nand_writel B NAND_OPNUM 1 (i0\<lparr>dev := h2\<rparr>) = i0\<lparr>dev := h3\<rparr>" "on h3" "row h3 = row h2" "regs h3 = (regs h2)(NAND_OPNUM := 1)"
    using writel_eq[of "i0\<lparr>dev := h2\<rparr>" 1 NAND_OPNUM] 2(2) by (auto simp: reg_offsets)
  obtain v4 h4 where 4: "nand_readl B NAND_PARAM (i0\<lparr>dev := h3\<rparr>) = (v4, i0\<lparr>dev := h4\<rparr>)" "on h4" "row h4 = row h3" "regs h4 = regs h3"
    using readl_eq[of "i0\<lparr>dev := h3\<rparr>" NAND_PARAM] 3(2) by auto
  obtain h5 where 5: "nand_writel B NAND_PARAM (v4 AND 0xc000ffff OR push_bit 16 1) (i0\<lparr>dev := h4\<rparr>) = i0\<lparr>dev := h5\<rparr>" "on h5" "row h5 = row h4"
    "regs h5 = (regs h4)(NAND_PARAM := v4 AND 0xc000ffff OR push_bit 16 1)"
    using writel_eq[of "i0\<lparr>dev := h4\<rparr>" "v4 AND 0xc000ffff OR push_bit 16 1" NAND_PARAM] 4(2) by (auto simp: reg_offsets)
  obtain h6 where 6: "nand_writel B NAND_CMD ERASE (i0\<lparr>dev := h5\<rparr>) = i0\<lparr>dev := h6\<rparr>" "on h6" "row h6 = row h5" "regs h6 = (regs h5)(NAND_CMD := ERASE)"
    using erase_set[OF 5(2) refl] by (auto simp: nand_writel_def)
  obtain v7 h7 where 7: "nand_readl B NAND_CMD (i0\<lparr>dev := h6\<rparr>) = (v7, i0\<lparr>dev := h7\<rparr>)" "on h7" "row h7 = row h6" "regs h7 = regs h6" "v7 AND 0x3ff = regs h6 NAND_CMD AND 0x3ff"
    using readl_eq[of "i0\<lparr>dev := h6\<rparr>" NAND_CMD] 6(2) by auto
  have v: "(v7 OR 1) AND 0x3ff = ERASE OR 1" using 7(5) 6(4) by (simp add: bit.conj_disj_distrib2 ERASE_def)
  have rg: "regs h7 NAND_CMD = ERASE" "regs h7 NAND_ADDR_L = push_bit 12 ?w" "regs h7 NAND_ADDR_H = ?w" "regs h7 NAND_OPNUM = 1"
    using 1(4) 2(4) 3(4) 4(4) 5(4) 6(4) 7(4) by (simp_all add: reg_offsets)
  define h8 where "h8 = hw_writel B NAND_CMD (v7 OR 1) h7"
  have 8: "nand_writel B NAND_CMD (v7 OR 1) (i0\<lparr>dev := h7\<rparr>) = i0\<lparr>dev := h8\<rparr>" "on h8" "row h8 = wiped rsize (b * ppb) ((b + 1) * ppb) (row h7)"
    using erase_start[OF 7(2) assms(2,3) rg v h8_def] by (simp_all add: nand_writel_def h8_def)
  obtain n h9 where 9: "ls1x_nand_done B (i0\<lparr>dev := h8\<rparr>) = (n, i0\<lparr>dev := h9\<rparr>)" "on h9" "row h9 = row h8"
    using done_keeps[of "i0\<lparr>dev := h8\<rparr>" 400000] 8(2) by (auto simp: ls1x_nand_done_def)
  obtain ha where a: "nand_writel B NAND_CMD 0 (i0\<lparr>dev := h9\<rparr>) = i0\<lparr>dev := ha\<rparr>" "on ha" "row ha = row h9"
    using writel_eq[of "i0\<lparr>dev := h9\<rparr>" 0 NAND_CMD] 9(2) by auto
  obtain hb where b: "nand_writel B NAND_CMD 0 (i0\<lparr>dev := ha\<rparr>) = i0\<lparr>dev := hb\<rparr>" "on hb" "row hb = row ha"
    using writel_eq[of "i0\<lparr>dev := ha\<rparr>" 0 NAND_CMD] a(2) by auto
  have run: "run_command B ERASE (i0\<lparr>dev := h5\<rparr>) = (n, i0\<lparr>dev := h9\<rparr>)"
    using 6(1) 7(1) 8(1) 9(1) by (simp add: run_command_def ls1x_nand_start_def)
  have e1: "ls1x_nand_cmdfunc B g NAND_CMD_ERASE1 (- 1) (b * ppb) i = i0\<lparr>dev := ha\<rparr>"
    using 1(1) 2(1) 3(1) 4(1) 5(1) run a(1)
    by (simp add: ls1x_nand_cmdfunc_def NAND_CMD_ERASE1_def NAND_CMD_PAGEPROG_def NAND_CMD_SEQIN_def NAND_CMD_READ0_def NAND_CMD_READOOB_def
        NAND_CMD_RESET_def Let_def i0_def[symmetric] set_param_def)
  have e2: "ls1x_nand_cmdfunc B g NAND_CMD_ERASE2 (- 1) (- 1) (i0\<lparr>dev := ha\<rparr>) = i0\<lparr>dev := hb\<rparr>"
  proof -
    have "i0\<lparr>dev := ha, buf_count := 0, buf_start := 0\<rparr> = i0\<lparr>dev := ha\<rparr>" by (rule ls1x_nand_info.equality) (simp_all add: i0_def)
    then show ?thesis using b(1) by (simp add: ls1x_nand_cmdfunc_def NAND_CMD_ERASE2_def NAND_CMD_ERASE1_def NAND_CMD_PAGEPROG_def NAND_CMD_SEQIN_def NAND_CMD_READ0_def
        NAND_CMD_READOOB_def NAND_CMD_RESET_def NAND_CMD_STATUS_def NAND_CMD_READID_def Let_def)
  qed
  have "st = 0" "i' = i0\<lparr>dev := hb\<rparr>" using assms(4) unfolding e1 e2 by (simp_all add: ls1x_nand_waitfunc_def)
  then show ?thesis using assms(1) 1 2 3 4 5 6 7 8 9 a b by (simp add: ready_def i0_def)
qed

lemma take_wiped: "(\<lambda>p. take n (wiped (n + m) a b D p)) = wiped n a b (\<lambda>p. take n (D p))"
  "(\<lambda>p. drop n (wiped (n + m) a b D p)) = wiped m a b (\<lambda>p. drop n (D p))"
  by (auto simp: wiped_def fun_eq_iff)

lemma meets_erase:
  "nand_eraser g (ls1x_ops B g polls) ready (\<lambda>i p. take (wsize g) (row (dev i) p)) (\<lambda>i p. drop (wsize g) (row (dev i) p)) rows nb T ppb"
proof (intro nand_eraser.intro nand_blocks.intro nand_blocks_axioms.intro nand_eraser_axioms.intro meets_contract)
  fix h b st h'
  assume h: "ready h" "0 \<le> b" "b < nb"
    "waitfunc (ls1x_ops B g polls) (cmdfunc (ls1x_ops B g polls) NAND_CMD_ERASE2 (- 1) (- 1) (cmdfunc (ls1x_ops B g polls) NAND_CMD_ERASE1 (- 1) (b * ppb) h)) = (st, h')"
  then have "st = 0" "ready h'" "row (dev h') = wiped (wsize g + oobsize g) (b * ppb) ((b + 1) * ppb) (row (dev h))"
    using erase_row[OF h(1-3), of st h'] by (simp_all add: ls1x_ops_def page(3))
  then show "st AND NAND_STATUS_FAIL = 0 \<and> ready h' \<and>
      (\<lambda>p. take (wsize g) (row (dev h') p)) = wiped (wsize g) (b * ppb) ((b + 1) * ppb) (\<lambda>p. take (wsize g) (row (dev h) p)) \<and>
      (\<lambda>p. drop (wsize g) (row (dev h') p)) = wiped (oobsize g) (b * ppb) ((b + 1) * ppb) (\<lambda>p. drop (wsize g) (row (dev h) p))"
    by (simp add: take_wiped)
qed (use blocks block_table block_rows in simp_all)

end

sublocale ls1x_eraser < blk: nand_eraser g "ls1x_ops B g polls" ready "\<lambda>i p. take (wsize g) (row (dev i) p)" "\<lambda>i p. drop (wsize g) (row (dev i) p)" rows nb T ppb
  by (rule meets_erase)

end
