(* ===== verification/Nand_Sim.thy ===== *)
theory Nand_Sim
  imports Nand_Erase
begin

unbundle bit_operations_syntax

text \<open>
  A NAND controller and chip that follow the contracts \<open>ls1x_hw\<close> and \<open>ls1x_eraser\<close>: 65536 rows of 2048 and 64 bytes in 1024
  blocks, as the 128 MB chips the driver is written for. A command is finished when it is polled
  for the first time. Programming clears bits, and an erase command sets all of them in the block of its row.
\<close>

record sim =
  s_regs :: "nat \<Rightarrow> u32"
  s_row :: "int \<Rightarrow> u8 list"

definition sim_readl :: "nat \<Rightarrow> sim \<Rightarrow> u32 \<times> sim" where
  "sim_readl off h = (if off = NAND_CMD then s_regs h off OR 0xf0400 else s_regs h off, h)"

definition sim_writel :: "nat \<Rightarrow> u32 \<Rightarrow> sim \<Rightarrow> sim" where
  "sim_writel off v h =
    (let h' = h\<lparr>s_regs := (s_regs h)(off := v)\<rparr>;
         b = uint (s_regs h NAND_ADDR_H) div 64
     in if off = NAND_CMD \<and> v AND 0x3ff = 0x009 then h'\<lparr>s_row := wiped 2112 (b * 64) ((b + 1) * 64) (s_row h)\<rparr> else h')"

definition sim_dma :: "(nat \<Rightarrow> u32) \<Rightarrow> u8 list \<Rightarrow> sim \<Rightarrow> u8 list \<times> sim" where
  "sim_dma d b h =
    (let p = uint (s_regs h NAND_ADDR_H)
     in if s_regs h NAND_CMD AND 0x3ff = 0x303 then (put_at 0 (s_row h p) b, h)
        else if s_regs h NAND_CMD AND 0x3ff = 0x305 then (b, h\<lparr>s_row := (s_row h)(p := map2 (AND) (s_row h p) (take 2112 b))\<rparr>)
        else (b, h))"

definition sim_hw :: "sim nand_hw" where
  "sim_hw = \<lparr>hw_readl = sim_readl, hw_writel = sim_writel, hw_dma = sim_dma\<rparr>"

definition sim_on :: "sim \<Rightarrow> bool" where
  "sim_on h \<longleftrightarrow> (\<forall>p. length (s_row h p) = 2112)"

definition ls1c_geometry :: geometry where
  "ls1c_geometry = \<lparr>msize = 134217728, wsize = 2048, oobsize = 64, esize = 131072, page_shift = 11, phys_erase_shift = 17,
    chip_shift = 27, pagemask = 65535, autoincr = False, no_readrdy = True, eccpos = [40..<64], eccsteps = 8,
    badblockpos = 0, bbt_erase_shift = 17\<rparr>"

lemma ls1c_fields [simp]:
  "wsize ls1c_geometry = 2048" "oobsize ls1c_geometry = 64" "esize ls1c_geometry = 131072" "msize ls1c_geometry = 134217728"
  "eccsteps ls1c_geometry = 8" "phys_erase_shift ls1c_geometry = 17" "bbt_erase_shift ls1c_geometry = 17"
  by (simp_all add: ls1c_geometry_def)

lemma row_number: "0 \<le> p \<Longrightarrow> p < 65536 \<Longrightarrow> uint (word_of_int p :: u32) = p"
  by (simp add: unsigned_of_int take_bit_eq_mod)

text \<open>A table with the second block bad and the fourth one reserved.\<close>

definition sample_bbt :: "u8 list" where
  "sample_bbt = 0x84 # replicate 255 0"

lemma table_covers:
  assumes "length T = 256" "0 \<le> b" "b < 1024"
  shows "nand_isbad_bbt ls1c_geometry T (b * 131072) False \<noteq> None"
proof -
  have "drop_bit 16 (b * 131072) = b * 2" by (simp add: drop_bit_eq_div)
  moreover have "b * 2 div 8 < 256" "0 \<le> b * 2 div 8" using assms by auto
  ultimately show ?thesis using assms(1) by (simp add: nand_isbad_bbt_def Let_def drop_bit_eq_div)
qed

lemma sim_board:
  assumes "length T = 256"
  shows "ls1x_eraser sim_hw sim_on s_row s_regs 65536 2112 ls1c_geometry 1024 T 64"
proof
  show "(2112 :: nat) < 8192" "(65536 :: int) \<le> 0x100000" by simp_all
  show "length (s_row h p) = 2112" if "sim_on h" for h p using that by (simp add: sim_on_def)
next
  fix h off v h'
  assume "sim_on h" "hw_readl sim_hw off h = (v, h')"
  moreover have "(x OR 0xf0400) AND 0x3ff = x AND 0x3ff" for x :: u32 by (simp add: bit.conj_disj_distrib2)
  ultimately show "sim_on h' \<and> s_row h' = s_row h \<and> s_regs h' = s_regs h \<and> (off = NAND_CMD \<longrightarrow> v AND 0x3ff = s_regs h NAND_CMD AND 0x3ff)"
    by (auto simp: sim_hw_def sim_readl_def)
next
  fix h off v h'
  assume a: "sim_on h" "v AND 0x18 = 0 \<or> off \<noteq> NAND_CMD" "h' = hw_writel sim_hw off v h"
  have "v AND 0x18 = (v AND 0x3ff) AND 0x18" by (simp add: and.assoc)
  then have "\<not> (off = NAND_CMD \<and> v AND 0x3ff = 0x009)" using a(2) by auto
  then show "sim_on h' \<and> s_row h' = s_row h \<and> s_regs h' = (s_regs h)(off := v)"
    using a(1,3) by (auto simp: sim_hw_def sim_writel_def sim_on_def Let_def)
next
  fix h d p b b' h'
  assume a: "sim_on h" "0 \<le> p" "p < (65536 :: int)" "whole_row (s_regs h) (SPARE OR MAIN OR READ) p 2112" "length b = 8192" "hw_dma sim_hw d b h = (b', h')"
  then have "b' = put_at 0 (s_row h p) b" "h' = h"
    by (auto simp: sim_hw_def sim_dma_def Let_def whole_row_def row_number SPARE_def MAIN_def READ_def)
  then show "sim_on h' \<and> s_row h' = s_row h \<and> length b' = 8192 \<and> take 2112 b' = s_row h p"
    using a(1,5) by (simp add: sim_on_def put_at_def)
next
  fix h d p b b' h'
  assume a: "sim_on h" "0 \<le> p" "p < (65536 :: int)" "whole_row (s_regs h) (SPARE OR MAIN OR WRITE) p 2112" "length b = 8192" "hw_dma sim_hw d b h = (b', h')"
  then have "b' = b" "h' = h\<lparr>s_row := (s_row h)(p := map2 (AND) (s_row h p) (take 2112 b))\<rparr>"
    by (auto simp: sim_hw_def sim_dma_def Let_def whole_row_def row_number SPARE_def MAIN_def WRITE_def)
  then show "sim_on h' \<and> s_row h' = (s_row h)(p := map2 (AND) (s_row h p) (take 2112 b)) \<and> length b' = 8192"
    using a(1,5) by (simp add: sim_on_def)
next
  fix p :: int
  assume p: "0 \<le> p" "p < 65536"
  have "p AND 65535 = take_bit 16 p" by (simp add: take_bit_eq_mask mask_eq_exp_minus_1)
  then show "p AND pagemask ls1c_geometry = p" using p by (simp add: ls1c_geometry_def take_bit_eq_mod)
next
  fix h h'
  assume "sim_on h" "h' = hw_writel sim_hw NAND_CMD ERASE h"
  then show "sim_on h' \<and> s_row h' = s_row h \<and> s_regs h' = (s_regs h)(NAND_CMD := ERASE)"
    by (simp add: sim_hw_def sim_writel_def sim_on_def Let_def ERASE_def)
next
  fix h v b h'
  assume a: "sim_on h" "0 \<le> b" "b < (1024 :: int)" "s_regs h NAND_ADDR_H = word_of_int (b * 64)" "v AND 0x3ff = ERASE OR 1" "h' = hw_writel sim_hw NAND_CMD v h"
  have "uint (s_regs h NAND_ADDR_H) div 64 = b" unfolding a(4) using a(2,3) row_number[of "b * 64"] by simp
  then show "sim_on h' \<and> s_row h' = wiped 2112 (b * 64) ((b + 1) * 64) (s_row h)"
    using a(1,5,6) by (simp add: sim_hw_def sim_writel_def sim_on_def Let_def ERASE_def wiped_def)
next
  show "nand_isbad_bbt ls1c_geometry T (b * esize ls1c_geometry) False \<noteq> None" if "0 \<le> b" "b < 1024" for b
    using table_covers[OF assms that] by simp
qed (auto simp: ls1c_geometry_def simp del: upt_rec_numeral)

interpretation board: ls1x_eraser sim_hw sim_on s_row s_regs 65536 2112 ls1c_geometry 5 1024 sample_bbt 64
  by (rule sim_board) (simp add: sample_bbt_def)

definition erased_chip :: "sim ls1x_nand_info nand" where
  "erased_chip = \<lparr>fl = FL_READY, pagebuf = - 1, databuf = replicate 2112 0, oobrbuf = replicate 64 0, oobwbuf = replicate 64 0xff,
    failed = 0, corrected = 0, bbt = Some sample_bbt,
    hw = \<lparr>buf_start = 0, buf_count = 0, seqin_column = 0, seqin_page_addr = 0, dma_desc = (\<lambda>_. 0), data_buff = replicate 8192 0,
      data_buff_phys = 0, dev = \<lparr>s_regs = (\<lambda>_. 0), s_row = (\<lambda>_. replicate 2112 0xff)\<rparr>\<rparr>\<rparr>"

end
