(* ===== verification/Nand_Claims.thy ===== *)
theory Nand_Claims
  imports Nand_Sim
begin

unbundle bit_operations_syntax

text \<open>
  Properties of the NAND flash: the functions of the chip layer over the driver of the board, for
  every controller and chip that follow the contract \<open>ls1x_hw\<close>.
\<close>

definition driver_ok :: "('h \<Rightarrow> bool) \<Rightarrow> geometry \<Rightarrow> 'h ls1x_nand_info nand \<Rightarrow> bool" where
  "driver_ok on g c \<longleftrightarrow> on (dev (hw c)) \<and> length (data_buff (hw c)) = 8192 \<and> fl c = FL_READY \<and> wsize g \<le> length (databuf c) \<and>
    length (oobwbuf c) = oobsize g"

text \<open>Page \<open>i\<close> of a buffer, and a row that holds a page with at most one wrong bit in each step of 256 bytes and its code.\<close>

definition page_of :: "geometry \<Rightarrow> u8 list \<Rightarrow> nat \<Rightarrow> u8 list" where
  "page_of g buf i = take (wsize g) (drop (i * wsize g) buf)"

definition row_reads :: "geometry \<Rightarrow> u8 list \<Rightarrow> u8 list \<Rightarrow> bool" where
  "row_reads g d r \<longleftrightarrow> readable g d (take (wsize g) r) (drop (wsize g) r)"

lemma rows_from_halves: "take n r = take n r' \<Longrightarrow> drop n r = drop n r' \<Longrightarrow> r = r'"
  by (metis append_take_drop_id)

lemma ready_iff: "ls1x_chip B on row regs rows rsize g \<Longrightarrow> ls1x_hw.ready on i \<longleftrightarrow> on (dev i) \<and> length (data_buff i) = 8192"
  by (rule ls1x_hw.ready_def) (rule ls1x_chip.axioms)

context ls1x_chip
begin

lemma ok_ready: "driver_ok on g c \<longleftrightarrow> ready (hw c) \<and> fl c = FL_READY \<and> wsize g \<le> length (databuf c) \<and> length (oobwbuf c) = oobsize g"
  by (auto simp: driver_ok_def ready_def)

lemma erased_page: "readable g (replicate (wsize g) 0xff) (replicate (wsize g) 0xff) (replicate (oobsize g) 0xff)"
  using layout(1,3) page(2) by (rule erased_readable)

lemma written_row:
  "0 \<le> i \<Longrightarrow> i < m \<Longrightarrow> page.written rp m buf D (rp + int i) = page_of g buf i"
  by (simp add: page.written_def page_of_def)

lemma stretch_pages:
  assumes "k + n \<le> m * wsize g" "0 < n"
  shows "page.pages (rp * int (wsize g) + int k) n \<subseteq> {rp..<rp + int m}"
proof
  fix p assume "p \<in> page.pages (rp * int (wsize g) + int k) n"
  then have p: "(rp * int (wsize g) + int k) div int (wsize g) \<le> p" "p \<le> (rp * int (wsize g) + int k + int n - 1) div int (wsize g)"
    by (auto simp: page.pages_def)
  have w: "0 < int (wsize g)" using page.wsize_pos by simp
  have "rp = rp * int (wsize g) div int (wsize g)" using w by simp
  also have "\<dots> \<le> (rp * int (wsize g) + int k) div int (wsize g)" by (rule zdiv_mono1[OF _ w]) simp
  finally have "rp \<le> p" using p(1) by simp
  moreover have "int (k + n) \<le> int m * int (wsize g)" using assms(1) by (metis of_nat_le_iff of_nat_mult)
  then have "rp * int (wsize g) + int k + int n - 1 < (rp + int m) * int (wsize g)" by (simp add: distrib_right)
  then have "(rp * int (wsize g) + int k + int n - 1) div int (wsize g) < rp + int m" by (rule div_below[OF w])
  ultimately show "p \<in> {rp..<rp + int m}" using p(2) by simp
qed

lemma write_then_read:
  assumes "driver_ok on g c" "0 < m" "0 \<le> rp" "rp + int m \<le> rows"
    and "\<forall>i<m. row (dev (hw c)) (rp + int i) = replicate rsize 0xff" "length buf = m * wsize g"
  shows "\<exists>c'. nand_write g (ls1x_ops B g polls) (rp * int (wsize g)) (m * wsize g) (m * wsize g) buf c = Some (0, m * wsize g, c') \<and>
    driver_ok on g c' \<and> (\<forall>p. p < rp \<or> rp + int m \<le> p \<longrightarrow> row (dev (hw c')) p = row (dev (hw c)) p) \<and>
    (\<forall>i<m. row_reads g (page_of g buf i) (row (dev (hw c')) (rp + int i))) \<and>
    (\<forall>h k n dat. on h \<and> (\<forall>i<m. row_reads g (page_of g buf i) (row h (rp + int i))) \<and> 0 < n \<and> k + n \<le> m * wsize g \<and> n \<le> length dat \<longrightarrow>
      (\<exists>r c''. nand_read g (ls1x_ops B g polls) (rp * int (wsize g) + int k) n n dat (c'\<lparr>hw := (hw c')\<lparr>dev := h\<rparr>\<rparr>) =
        Some (r, n, put_at 0 (take n (drop k buf)) dat, c'') \<and> r \<in> {0, - EUCLEAN}))"
proof -
  let ?R = "{rp..<rp + int m}" and ?W = "page.written rp m buf (\<lambda>_. [])"
  have idx: "\<exists>i<m. p = rp + int i" if "p \<in> ?R" for p using that by (intro exI[of _ "nat (p - rp)"]) auto
  have c: "ready (hw c)" "fl c = FL_READY" "wsize g \<le> length (databuf c)" "length (oobwbuf c) = oobsize g" using assms(1) by (auto simp: ok_ready)
  have r0: "page.reads_as (\<lambda>_. []) {} c" using c by (simp add: page.reads_as_def)
  have bl: "\<forall>p\<in>?R. page.blank (hw c) p"
  proof
    fix p assume "p \<in> ?R"
    then obtain i where "i < m" "p = rp + int i" using idx by blast
    then have "row (dev (hw c)) p = replicate rsize 0xff" using assms(5) by blast
    moreover have "rsize - wsize g = oobsize g" using page(3) by simp
    ultimately show "page.blank (hw c) p" using page(3) by (simp add: page.blank_def)
  qed
  obtain c' where w: "nand_write g (ls1x_ops B g polls) (rp * int (wsize g)) (m * wsize g) (m * wsize g) buf c = Some (0, m * wsize g, c')"
    "page.reads_as ?W ({} \<union> ?R) c'" "fl c' = FL_READY" "length (oobwbuf c') = oobsize g"
    "\<forall>p. p \<notin> ?R \<longrightarrow> take (wsize g) (row (dev (hw c')) p) = take (wsize g) (row (dev (hw c)) p) \<and> drop (wsize g) (row (dev (hw c')) p) = drop (wsize g) (row (dev (hw c)) p)"
    using page.nand_write_pages[OF r0 c(2) assms(2-4) bl, of buf] assms(6) c(4) by auto
  have ok: "driver_ok on g c'" using w(2-4) by (simp add: ok_ready page.reads_as_def)
  have others: "row (dev (hw c')) p = row (dev (hw c)) p" if "p < rp \<or> rp + int m \<le> p" for p
  proof (rule rows_from_halves[of "wsize g"])
    have "p \<notin> ?R" using that by auto
    then show "take (wsize g) (row (dev (hw c')) p) = take (wsize g) (row (dev (hw c)) p)"
      "drop (wsize g) (row (dev (hw c')) p) = drop (wsize g) (row (dev (hw c)) p)" using w(5) by blast+
  qed
  have own: "row_reads g (page_of g buf i) (row (dev (hw c')) (rp + int i))" if "i < m" for i
  proof -
    have "rp + int i \<in> {} \<union> ?R" using that by simp
    then have "readable g (?W (rp + int i)) (take (wsize g) (row (dev (hw c')) (rp + int i))) (drop (wsize g) (row (dev (hw c')) (rp + int i)))"
      using w(2) unfolding page.reads_as_def by blast
    then show ?thesis using written_row[OF _ that] by (simp add: row_reads_def)
  qed
  have again: "\<exists>r c''. nand_read g (ls1x_ops B g polls) (rp * int (wsize g) + int k) n n dat (c'\<lparr>hw := (hw c')\<lparr>dev := h\<rparr>\<rparr>) =
        Some (r, n, put_at 0 (take n (drop k buf)) dat, c'') \<and> r \<in> {0, - EUCLEAN}"
    if h: "on h" "\<forall>i<m. row_reads g (page_of g buf i) (row h (rp + int i))" and n: "0 < n" "k + n \<le> m * wsize g" "n \<le> length dat" for h k n dat
  proof -
    let ?c = "c'\<lparr>hw := (hw c')\<lparr>dev := h\<rparr>\<rparr>"
    have "readable g (?W p) (take (wsize g) (row h p)) (drop (wsize g) (row h p))" if "p \<in> ?R" for p
      using idx[OF that] h(2) written_row[of _ m rp buf "\<lambda>_. []"] by (auto simp: row_reads_def)
    then have r: "page.reads_as ?W ?R ?c" using w(2) h(1) by (auto simp: page.reads_as_def ready_def)
    have "(rp + int m) * int (wsize g) \<le> msize g" unfolding chip(1) using assms(4) by (intro mult_right_mono) auto
    moreover have "int (k + n) \<le> int m * int (wsize g)" using n(2) by (metis of_nat_le_iff of_nat_mult)
    ultimately have fits: "rp * int (wsize g) + int k + int n \<le> msize g" by (simp add: distrib_right)
    have "0 \<le> rp * int (wsize g) + int k" using assms(3) by simp
    from page.nand_read_bytes[OF r _ this n(1) fits stretch_pages[OF n(2,1)] n(3)] w(3)
    show ?thesis using page.bytes_of_written[OF n(2)] assms(6) by fastforce
  qed
  show ?thesis using w(1) ok others own again by blast
qed

lemma double_error_cached:
  assumes "driver_ok on g c" "0 \<le> p" "p < rows" "pagebuf c \<noteq> p" "0 < n" "col + n \<le> wsize g" "n < wsize g" "n \<le> length dat"
    and "i < eccsteps g" "chunk i (row (dev (hw c)) p) = flip j k (flip j' k' d)" "j < 256" "k < 8" "j' < 256" "k' < 8" "(j, k) \<noteq> (j', k')"
    and "ecc_at i (page_code g (drop (wsize g) (row (dev (hw c)) p))) = nand_calculate_ecc d"
  shows "\<exists>bs c1 c2. length bs = n \<and>
    nand_read g (ls1x_ops B g polls) (p * int (wsize g) + int col) n n dat c = Some (- EBADMSG, n, put_at 0 bs dat, c1) \<and>
    nand_read g (ls1x_ops B g polls) (p * int (wsize g) + int col) n n dat c1 = Some (0, n, put_at 0 bs dat, c2)"
proof -
  have c: "ready (hw c)" "fl c = FL_READY" "wsize g \<le> length (databuf c)" using assms(1) by (auto simp: ok_ready)
  have len: "length (row (dev (hw c)) p) = rsize" using row_size assms(2,3) c(1) by (simp add: ready_def)
  have "256 * i + 256 \<le> wsize g" using assms(9) page(2) by simp
  then have "256 * i + 256 \<le> length (take (wsize g) (row (dev (hw c)) p))" using len page(3) by simp
  then have "chunk i (take (wsize g) (row (dev (hw c)) p) @ drop (wsize g) (row (dev (hw c)) p)) = chunk i (take (wsize g) (row (dev (hw c)) p))"
    by (rule chunk_append)
  then have "chunk i (take (wsize g) (row (dev (hw c)) p)) = flip j k (flip j' k' d)" using assms(10) by simp
  then have "page.uncorrectable (hw c) p"
    using double_detected[OF assms(11-15), of d] assms(9,16) unfolding page.uncorrectable_def by (intro exI[of _ i]) simp
  moreover have "eccsteps g < 2 ^ 32" using page(2,3) sizes(1) by simp
  ultimately show ?thesis using page.failed_read_repeats[OF c(1,2) assms(2,3) _ c(3) assms(4-8)] by blast
qed

end

text \<open>
  C22. What is written to erased pages of the flash is read back: writing whole pages succeeds, leaves every
  other row as it was, and afterwards, even when one bit of each 256 bytes or of their code
  has changed since, reading any stretch of the pages returns the bytes that were written.
\<close>

theorem nand_write_read_back:
  assumes "ls1x_chip B on row regs rows rsize g" "driver_ok on g c" "0 < m" "0 \<le> rp" "rp + int m \<le> rows"
    and "\<forall>i<m. row (dev (hw c)) (rp + int i) = replicate rsize 0xff" "length buf = m * wsize g"
  shows "\<exists>c'. nand_write g (ls1x_ops B g polls) (rp * int (wsize g)) (m * wsize g) (m * wsize g) buf c = Some (0, m * wsize g, c') \<and>
    driver_ok on g c' \<and> (\<forall>p. p < rp \<or> rp + int m \<le> p \<longrightarrow> row (dev (hw c')) p = row (dev (hw c)) p) \<and>
    (\<forall>i<m. row_reads g (page_of g buf i) (row (dev (hw c')) (rp + int i))) \<and>
    (\<forall>h k n dat. on h \<and> (\<forall>i<m. row_reads g (page_of g buf i) (row h (rp + int i))) \<and> 0 < n \<and> k + n \<le> m * wsize g \<and> n \<le> length dat \<longrightarrow>
      (\<exists>r c''. nand_read g (ls1x_ops B g polls) (rp * int (wsize g) + int k) n n dat (c'\<lparr>hw := (hw c')\<lparr>dev := h\<rparr>\<rparr>) =
        Some (r, n, put_at 0 (take n (drop k buf)) dat, c'') \<and> r \<in> {0, - EUCLEAN}))"
  by (rule ls1x_chip.write_then_read[OF assms])

theorem nand_write_read_back_witness:
  "\<exists>c' r c''. nand_write ls1c_geometry (ls1x_ops sim_hw ls1c_geometry 5) 10240 2048 2048 (replicate 2048 0x5a) erased_chip = Some (0, 2048, c') \<and>
    nand_read ls1c_geometry (ls1x_ops sim_hw ls1c_geometry 5) 10340 3 3 [0, 0, 0] c' = Some (r, 3, [0x5a, 0x5a, 0x5a], c'')"
proof -
  have ok: "driver_ok sim_on ls1c_geometry erased_chip" by (simp add: driver_ok_def erased_chip_def sim_on_def)
  have "\<forall>i<1. s_row (dev (hw erased_chip)) (5 + int i) = replicate 2112 0xff" by (simp add: erased_chip_def)
  define b where "b = replicate 2048 (0x5a :: u8)"
  note T = nand_write_read_back[OF board.ls1x_chip_axioms ok _ _ _ \<open>\<forall>i<1. _\<close>, of b 5]
  from T obtain c' where c': "nand_write ls1c_geometry (ls1x_ops sim_hw ls1c_geometry 5) 10240 2048 2048 b erased_chip = Some (0, 2048, c')"
    "driver_ok sim_on ls1c_geometry c'" "row_reads ls1c_geometry (page_of ls1c_geometry b 0) (s_row (dev (hw c')) 5)"
    and rd: "\<forall>h k n dat. sim_on h \<and> row_reads ls1c_geometry (page_of ls1c_geometry b 0) (s_row h 5) \<and> 0 < n \<and>
      k + n \<le> 2048 \<and> n \<le> length dat \<longrightarrow> (\<exists>r c''. nand_read ls1c_geometry (ls1x_ops sim_hw ls1c_geometry 5) (10240 + int k) n n dat (c'\<lparr>hw := (hw c')\<lparr>dev := h\<rparr>\<rparr>) =
        Some (r, n, put_at 0 (take n (drop k b)) dat, c'') \<and> r \<in> {0, - EUCLEAN})"
    by (auto simp: b_def[THEN arg_cong[of _ _ length]])
  have same: "c'\<lparr>hw := (hw c')\<lparr>dev := dev (hw c')\<rparr>\<rparr> = c'" by simp
  have on: "sim_on (dev (hw c'))" using c'(2) by (simp add: driver_ok_def)
  have "take 3 (drop 100 b) = replicate 3 0x5a" by (simp add: b_def)
  moreover have "put_at 0 (replicate 3 0x5a) [0, 0, 0] = [0x5a, 0x5a, 0x5a]" by code_simp
  ultimately have "put_at 0 (take 3 (drop 100 b)) [0, 0, 0] = [0x5a, 0x5a, 0x5a]" by simp
  then show ?thesis using c'(1) rd[rule_format, of "dev (hw c')" 3 100 "[0, 0, 0]"] on c'(3) unfolding same b_def[symmetric] by auto
qed

text \<open>The block structure of a device with a table of bad blocks for its \<open>nb\<close> blocks.\<close>

definition block_table :: "geometry \<Rightarrow> int \<Rightarrow> u8 list \<Rightarrow> bool" where
  "block_table g nb T \<longleftrightarrow> esize g = 2 ^ phys_erase_shift g \<and> int (wsize g) dvd esize g \<and> msize g = nb * esize g \<and>
    (\<forall>b. 0 \<le> b \<and> b < nb \<longrightarrow> nand_isbad_bbt g T (b * esize g) False \<noteq> None)"

definition bad_block :: "geometry \<Rightarrow> u8 list \<Rightarrow> int \<Rightarrow> bool" where
  "bad_block g T b \<longleftrightarrow> nand_isbad_bbt g T (b * esize g) False \<noteq> Some 0"

lemma skip_blocks:
  assumes "ls1x_chip B on row regs rows rsize g" "block_table g nb T"
  shows "nand_blocks g (ls1x_ops B g polls) (ls1x_hw.ready on) (\<lambda>i p. take (wsize g) (row (dev i) p)) (\<lambda>i p. drop (wsize g) (row (dev i) p)) rows nb T"
  using ls1x_chip.meets_contract[OF assms(1)] assms(2)
  by (auto intro!: nand_blocks.intro nand_blocks_axioms.intro simp: block_table_def)

text \<open>
  C23. Reading around bad blocks is reading the good addresses: \<^verbatim>\<open>nand_read_skip_bad\<close> returns the first
  bytes, from the offset on, of the device with its bad and reserved blocks taken out, and it
  refuses the request, touching nothing, when the good blocks behind the offset hold too few bytes.
\<close>

theorem nand_skip_bad_equals_good:
  assumes "ls1x_chip B on row regs rows rsize g" "block_table g nb T" "driver_ok on g c" "bbt c = Some T" "0 \<le> a" "0 < n" "n \<le> length dat"
    and "\<And>p. 0 \<le> p \<Longrightarrow> p < rows \<Longrightarrow> \<not> bad_block g T (p * int (wsize g) div esize g) \<Longrightarrow> row_reads g (D p) (row (dev (hw c)) p)"
    and "0 \<le> pagebuf c \<Longrightarrow> take (wsize g) (databuf c) = D (pagebuf c)"
    and "good = good_addrs (esize g) (bad_block g T) a (msize g)"
  shows "if length good < n then nand_read_skip_bad g (ls1x_ops B g polls) a n dat c = Some (- EINVAL, 0, dat, c)
    else \<exists>c'. nand_read_skip_bad g (ls1x_ops B g polls) a n dat c = Some (0, n, put_at 0 (map (byte_of (wsize g) D) (take n good)) dat, c')"
proof -
  note nb = skip_blocks[OF assms(1,2), of polls] and rdy = ready_iff[OF assms(1)]
  note nd = nand_blocks.axioms(1)[OF nb]
  have bad: "nand_blocks.bad g T = bad_block g T" by (simp add: fun_eq_iff nand_blocks.bad_def[OF nb] bad_block_def)
  have "nand_dev.reads_as g (ls1x_hw.ready on) (\<lambda>i p. take (wsize g) (row (dev i) p)) (\<lambda>i p. drop (wsize g) (row (dev i) p)) rows D
      (nand_blocks.good_pages g rows T) c"
    using assms(3,8,9) by (auto simp: nand_dev.reads_as_def[OF nd] nand_blocks.good_pages_def[OF nb] bad rdy driver_ok_def row_reads_def)
  from nand_blocks.skip_bad_reads[OF nb assms(5) this _ assms(4,7,6)] assms(3)
  show ?thesis unfolding bad assms(10) by (auto simp: driver_ok_def split: if_splits)
qed

lemma sample_blocks: "block_table ls1c_geometry 1024 sample_bbt"
  using table_covers[of sample_bbt] by (simp add: block_table_def sample_bbt_def)

lemma sample_bad: "\<not> bad_block ls1c_geometry sample_bbt 0" "bad_block ls1c_geometry sample_bbt 1" "\<not> bad_block ls1c_geometry sample_bbt 2"
  by (simp_all add: bad_block_def nand_isbad_bbt_def sample_bbt_def Let_def ls1c_geometry_def drop_bit_eq_div)

text \<open>Behind the first block of the sample comes the bad second one, then the good third one.\<close>

theorem nand_skip_bad_equals_good_witness:
  "\<exists>c'. nand_read_skip_bad ls1c_geometry (ls1x_ops sim_hw ls1c_geometry 5) 131071 2 [0, 0] erased_chip = Some (0, 2, [0xff, 0xff], c')"
proof -
  let ?G = "good_addrs 131072 (bad_block ls1c_geometry sample_bbt)"
  have b0: "?G 131071 131072 = [131071]"
    using good_addrs_block[of 131071 131072 131072 0 "bad_block ls1c_geometry sample_bbt"] sample_bad(1) by simp
  have b1: "?G 131072 262144 = []"
  proof -
    have "x div 131072 = 1" if "131072 \<le> x" "x < 262144" for x :: int using that by linarith
    then show ?thesis using good_addrs_block[of 131072 262144 131072 1 "bad_block ls1c_geometry sample_bbt"] sample_bad(2) by simp
  qed
  have b2: "?G 262144 262145 = [262144]"
    using good_addrs_block[of 262144 262145 131072 2 "bad_block ls1c_geometry sample_bbt"] sample_bad(3) by simp
  have G: "?G 131071 134217728 = 131071 # 262144 # ?G 262145 134217728"
    using good_addrs_split[of 131071 131072 134217728] good_addrs_split[of 131072 262144 134217728] good_addrs_split[of 262144 262145 134217728] b0 b1 b2
    by simp
  have ok: "driver_ok sim_on ls1c_geometry erased_chip" by (simp add: driver_ok_def erased_chip_def sim_on_def)
  have "row_reads ls1c_geometry (replicate 2048 0xff) (s_row (dev (hw erased_chip)) p)" for p
    using board.erased_page by (simp add: row_reads_def erased_chip_def)
  moreover have "pagebuf erased_chip = - 1" "bbt erased_chip = Some sample_bbt" by (simp_all add: erased_chip_def)
  ultimately have "\<exists>c'. nand_read_skip_bad ls1c_geometry (ls1x_ops sim_hw ls1c_geometry 5) 131071 2 [0, 0] erased_chip =
      Some (0, 2, put_at 0 (map (byte_of 2048 (\<lambda>_. replicate 2048 0xff)) [131071, 262144]) [0, 0], c')"
    using nand_skip_bad_equals_good[OF board.ls1x_chip_axioms sample_blocks ok, of 131071 2 "[0, 0]" "\<lambda>_. replicate 2048 0xff"
      "131071 # 262144 # ?G 262145 134217728" 5] G by simp
  moreover have "put_at 0 (map (byte_of 2048 (\<lambda>_. replicate 2048 0xff)) [131071, 262144]) [0, 0] = [0xff, 0xff]"
    by (simp add: byte_of_def put_at_def)
  ultimately show ?thesis by simp
qed

text \<open>
  C24. A page that cannot be corrected is reported once: when a step of a page has two wrong bits, reading
  a part of the page returns \<^verbatim>\<open>-EBADMSG\<close>, but the damaged page is now the cached one, and the same read again returns
  the same bytes with result 0.
\<close>

theorem nand_double_error_cached:
  assumes "ls1x_chip B on row regs rows rsize g" "driver_ok on g c" "0 \<le> p" "p < rows" "pagebuf c \<noteq> p" "0 < n" "col + n \<le> wsize g" "n < wsize g" "n \<le> length dat"
    and "i < eccsteps g" "chunk i (row (dev (hw c)) p) = flip j k (flip j' k' d)" "j < 256" "k < 8" "j' < 256" "k' < 8" "(j, k) \<noteq> (j', k')"
    and "ecc_at i (page_code g (drop (wsize g) (row (dev (hw c)) p))) = nand_calculate_ecc d"
  shows "\<exists>bs c1 c2. length bs = n \<and>
    nand_read g (ls1x_ops B g polls) (p * int (wsize g) + int col) n n dat c = Some (- EBADMSG, n, put_at 0 bs dat, c1) \<and>
    nand_read g (ls1x_ops B g polls) (p * int (wsize g) + int col) n n dat c1 = Some (0, n, put_at 0 bs dat, c2)"
  by (rule ls1x_chip.double_error_cached[OF assms])

definition worn_chip :: "sim ls1x_nand_info nand" where
  "worn_chip = erased_chip\<lparr>hw := (hw erased_chip)\<lparr>dev := \<lparr>s_regs = (\<lambda>_. 0), s_row = (\<lambda>_. 0xfe # 0xfe # replicate 2110 0xff)\<rparr>\<rparr>\<rparr>"

theorem nand_double_error_cached_witness:
  "\<exists>bs c1 c2. length bs = 4 \<and>
    nand_read ls1c_geometry (ls1x_ops sim_hw ls1c_geometry 5) 6144 4 4 [0, 0, 0, 0] worn_chip = Some (- EBADMSG, 4, put_at 0 bs [0, 0, 0, 0], c1) \<and>
    nand_read ls1c_geometry (ls1x_ops sim_hw ls1c_geometry 5) 6144 4 4 [0, 0, 0, 0] c1 = Some (0, 4, put_at 0 bs [0, 0, 0, 0], c2)"
proof -
  have ok: "driver_ok sim_on ls1c_geometry worn_chip" by (simp add: driver_ok_def worn_chip_def erased_chip_def sim_on_def)
  have ch: "chunk 0 (s_row (dev (hw worn_chip)) 3) = flip 0 0 (flip 1 0 (\<lambda>j. if j < 256 then 0xff else 0))"
    by (auto simp: worn_chip_def chunk_def flip_def nth_Cons split: nat.split)
  have e: "ecc_at 0 (page_code ls1c_geometry (drop (wsize ls1c_geometry) (s_row (dev (hw worn_chip)) 3))) = nand_calculate_ecc (\<lambda>j. if j < 256 then 0xff else 0)"
    using code_ff[OF board.layout(1,3), of 0] by (simp add: ecc_ff worn_chip_def)
  have "pagebuf worn_chip \<noteq> 3" by (simp add: worn_chip_def erased_chip_def)
  from nand_double_error_cached[OF board.ls1x_chip_axioms ok _ _ this _ _ _ _ _ ch _ _ _ _ _ e, of 4 0 "[0, 0, 0, 0]" 5]
  show ?thesis by simp
qed

end
