(* ===== verification/Filesys.thy ===== *)
theory Filesys
  imports Textscan
begin

text \<open>
  The file layer, \<^verbatim>\<open>src/os/filesys/filesys.c\<close>: the table of open files and the calls that go to the file
  system behind a descriptor. A file system registered in the list is a number; the functions its
  structure points to are given by the parameter \<open>F\<close> and work on the whole state, which has the state of
  the devices as its field \<open>world\<close>. A \<^verbatim>\<open>NULL\<close> function pointer is \<open>None\<close>. An access outside the table, a string that
  overruns its buffer and a copy into a block that was not granted are \<open>None\<close>. File positions are 64-bit numbers and do not
  overflow; they are integers here.
\<close>

section \<open>State\<close>

definition OPEN_MAX :: nat where "OPEN_MAX = 10"
definition FS_NULL :: int where "FS_NULL = 0"
definition FS_MEM :: int where "FS_MEM = 5"
definition FS_FILE :: int where "FS_FILE = 6"
definition ENOENT :: int where "ENOENT = 2"
definition EMFILE :: int where "EMFILE = 24"
definition O_RDWR :: int where "O_RDWR = 2"

record 'd File =
  valid :: bool
  posn :: int
  fs :: "nat option"
  data :: "'d option"

record ('d, 'w) fsys =
  file_tab :: "'d File list"
  errno :: int
  FileSystems :: "nat list"
  mem_granted :: "nat \<Rightarrow> bool"
  mem_requests :: nat
  world :: 'w

record 's FileSystem =
  devname :: cstring
  fstype :: int
  open_op :: "(int \<Rightarrow> cstring \<Rightarrow> int \<Rightarrow> int \<Rightarrow> 's \<Rightarrow> (int \<times> 's) option) option"
  read_op :: "(int \<Rightarrow> u8 list \<Rightarrow> u32 \<Rightarrow> 's \<Rightarrow> (int \<times> u8 list \<times> 's) option) option"
  write_op :: "(int \<Rightarrow> u8 list \<Rightarrow> u32 \<Rightarrow> 's \<Rightarrow> (int \<times> 's) option) option"
  lseek_op :: "(int \<Rightarrow> int \<Rightarrow> int \<Rightarrow> 's \<Rightarrow> (int \<times> 's) option) option"
  close_op :: "(int \<Rightarrow> 's \<Rightarrow> (int \<times> 's) option) option"
  ioctl_op :: "(int \<Rightarrow> u32 \<Rightarrow> u32 \<Rightarrow> 's \<Rightarrow> (int \<times> 's) option) option"

definition empty_file :: "'d File" where
  "empty_file = \<lparr>valid = False, posn = 0, fs = None, data = None\<rparr>"

text \<open>An element of \<^verbatim>\<open>_file\<close>; an index outside the array is \<open>None\<close>.\<close>

definition file_at :: "int \<Rightarrow> ('d, 'w) fsys \<Rightarrow> 'd File option" where
  "file_at fd s = (if 0 \<le> fd \<and> nat fd < length (file_tab s) then Some (file_tab s ! nat fd) else None)"

definition set_file :: "int \<Rightarrow> ('d File \<Rightarrow> 'd File) \<Rightarrow> ('d, 'w) fsys \<Rightarrow> ('d, 'w) fsys option" where
  "set_file fd f s = do { e \<leftarrow> file_at fd s; Some (s\<lparr>file_tab := (file_tab s)[nat fd := f e]\<rparr>) }"

text \<open>The heap, as far as whether a request is granted; the block is named by the number of the request.\<close>

definition alloc :: "('d, 'w) fsys \<Rightarrow> nat option \<times> ('d, 'w) fsys" where
  "alloc s = (if mem_granted s (mem_requests s) then Some (mem_requests s) else None, s\<lparr>mem_requests := mem_requests s + 1\<rparr>)"

section \<open>Opening\<close>

text \<open>
  The loop of \<^verbatim>\<open>__try_open\<close>: \<open>Inl r\<close> when it returns, \<open>Inr\<close> the value of \<^verbatim>\<open>fsp\<close> after the loop.
\<close>

fun try_find :: "(nat \<Rightarrow> ('d, 'w) fsys FileSystem) \<Rightarrow> cstring \<Rightarrow> int \<Rightarrow> cstring option \<Rightarrow> int \<Rightarrow> int \<Rightarrow> nat list \<Rightarrow> ('d, 'w) fsys \<Rightarrow>
    ((int + nat option) \<times> ('d, 'w) fsys) option" where
  "try_find F fname mode dname lu ftype [] s = Some (Inr None, s)"
| "try_find F fname mode dname lu ftype (fsp # rest) s =
    (if dname \<noteq> None \<and> strbequ dname (Some (devname (F fsp))) then
       (case open_op (F fsp) of
          None \<Rightarrow> Some (Inr (Some fsp), s)
        | Some f \<Rightarrow> do { (xx, s) \<leftarrow> f lu fname mode 0 s; Some (if xx \<noteq> lu then Inl (- 1) else Inr (Some fsp), s) })
     else if ftype \<noteq> FS_NULL \<and> fstype (F fsp) = ftype then
       (case open_op (F fsp) of
          None \<Rightarrow> try_find F fname mode dname lu ftype rest s
        | Some f \<Rightarrow>
          do { (xx, s) \<leftarrow> f lu fname mode 0 s;
               if xx = lu then Some (Inr (Some fsp), s) else try_find F fname mode dname lu ftype rest s })
     else try_find F fname mode dname lu ftype rest s)"

definition try_open :: "(nat \<Rightarrow> ('d, 'w) fsys FileSystem) \<Rightarrow> cstring \<Rightarrow> int \<Rightarrow> cstring option \<Rightarrow> int \<Rightarrow> int \<Rightarrow> ('d, 'w) fsys \<Rightarrow>
    (int \<times> ('d, 'w) fsys) option" where
  "try_open F fname mode dname lu ftype s =
    do { (r, s) \<leftarrow> try_find F fname mode dname lu ftype (FileSystems s) s;
         case r of
           Inl i \<Rightarrow> Some (i, s)
         | Inr (Some fsp) \<Rightarrow> do { s \<leftarrow> set_file lu (\<lambda>e. e\<lparr>valid := True, posn := 0, fs := Some fsp\<rparr>) s; Some (lu, s) }
         | Inr None \<Rightarrow> Some (- 1, s\<lparr>errno := ENOENT\<rparr>) }"

text \<open>The first entry of the table that is not valid, or \<^verbatim>\<open>OPEN_MAX\<close>.\<close>

definition free_slot :: "'d File list \<Rightarrow> nat" where
  "free_slot t = length (takeWhile valid t)"

text \<open>The choice by the form of the name.\<close>

definition open_named :: "(nat \<Rightarrow> ('d, 'w) fsys FileSystem) \<Rightarrow> cstring \<Rightarrow> int \<Rightarrow> int \<Rightarrow> ('d, 'w) fsys \<Rightarrow> (int \<times> ('d, 'w) fsys) option" where
  "open_named F fname mode lu s =
    (if strncmp fname (map chr ''/dev/'') 5 = 0 then try_open F fname mode (Some (drop 5 fname)) lu 0 s
     else do {
       ftp \<leftarrow> strpat fname (map chr ''*ftp://*'');
       if ftp then try_open F fname mode (Some (map chr ''net'')) lu 0 s
       else do {
         file \<leftarrow> strpat fname (map chr ''file://*'');
         if file then try_open F (drop 6 fname) mode None lu FS_FILE s
         else do {
           http \<leftarrow> strpat fname (map chr ''http://*'');
           nfs \<leftarrow> strpat fname (map chr ''nfs://*'');
           if http \<or> nfs then try_open F fname mode (Some (map chr ''net'')) lu 0 s
           else try_open F fname mode (Some fname) lu 0 s } } })"

definition open_call :: "(nat \<Rightarrow> ('d, 'w) fsys FileSystem) \<Rightarrow> cstring \<Rightarrow> int \<Rightarrow> ('d, 'w) fsys \<Rightarrow> (int \<times> ('d, 'w) fsys) option" where
  "open_call F filename mode s =
    (case alloc s of
       (None, s) \<Rightarrow> None
     | (Some fname, s) \<Rightarrow>
       let lu = free_slot (file_tab s)
       in if lu = OPEN_MAX then Some (- 1, s\<lparr>errno := EMFILE\<rparr>)
          else do {
            s \<leftarrow> set_file (int lu) (\<lambda>e. empty_file\<lparr>valid := True\<rparr>) s;
            (i, s) \<leftarrow> open_named F filename mode (int lu) s;
            s \<leftarrow> (if i = - 1 then set_file (int lu) (\<lambda>e. e\<lparr>valid := False\<rparr>) s else Some s);
            Some (i, s) })"

section \<open>The other calls\<close>

text \<open>A descriptor below \<^verbatim>\<open>OPEN_MAX\<close> with a valid entry: the entry and its file system. \<open>Some None\<close> when the test fails.\<close>

definition live :: "int \<Rightarrow> ('d, 'w) fsys \<Rightarrow> ('d File \<times> nat option) option option" where
  "live fd s =
    (if fd < int OPEN_MAX then do { e \<leftarrow> file_at fd s; Some (if valid e then Some (e, fs e) else None) }
     else Some None)"

definition close_call :: "(nat \<Rightarrow> ('d, 'w) fsys FileSystem) \<Rightarrow> int \<Rightarrow> ('d, 'w) fsys \<Rightarrow> (int \<times> ('d, 'w) fsys) option" where
  "close_call F fd s =
    do { l \<leftarrow> live fd s;
         case l of
           None \<Rightarrow> Some (0, s)
         | Some (e, f) \<Rightarrow>
           do { s \<leftarrow> set_file fd (\<lambda>e. e\<lparr>valid := False\<rparr>) s;
                f \<leftarrow> f;
                case close_op (F f) of None \<Rightarrow> Some (- 1, s) | Some c \<Rightarrow> c fd s } }"

definition read_call :: "(nat \<Rightarrow> ('d, 'w) fsys FileSystem) \<Rightarrow> int \<Rightarrow> u8 list \<Rightarrow> u32 \<Rightarrow> ('d, 'w) fsys \<Rightarrow> (int \<times> u8 list \<times> ('d, 'w) fsys) option" where
  "read_call F fd buf n s =
    do { l \<leftarrow> live fd s;
         case l of
           None \<Rightarrow> Some (- 1, buf, s)
         | Some (e, f) \<Rightarrow> do { f \<leftarrow> f; case read_op (F f) of None \<Rightarrow> Some (- 1, buf, s) | Some r \<Rightarrow> r fd buf n s } }"

definition write_call :: "(nat \<Rightarrow> ('d, 'w) fsys FileSystem) \<Rightarrow> int \<Rightarrow> u8 list \<Rightarrow> u32 \<Rightarrow> ('d, 'w) fsys \<Rightarrow> (int \<times> ('d, 'w) fsys) option" where
  "write_call F fd buf n s =
    do { l \<leftarrow> live fd s;
         case l of
           None \<Rightarrow> Some (- 1, s)
         | Some (e, f) \<Rightarrow> do { f \<leftarrow> f; case write_op (F f) of None \<Rightarrow> Some (- 1, s) | Some w \<Rightarrow> w fd buf n s } }"

definition lseek_call :: "(nat \<Rightarrow> ('d, 'w) fsys FileSystem) \<Rightarrow> int \<Rightarrow> int \<Rightarrow> int \<Rightarrow> ('d, 'w) fsys \<Rightarrow> (int \<times> ('d, 'w) fsys) option" where
  "lseek_call F fd offset whence s =
    do { l \<leftarrow> live fd s;
         case l of
           None \<Rightarrow> Some (- 1, s)
         | Some (e, f) \<Rightarrow> do { f \<leftarrow> f; case lseek_op (F f) of None \<Rightarrow> Some (- 1, s) | Some w \<Rightarrow> w fd offset whence s } }"

definition ioctl_call :: "(nat \<Rightarrow> ('d, 'w) fsys FileSystem) \<Rightarrow> int \<Rightarrow> u32 \<Rightarrow> u32 \<Rightarrow> ('d, 'w) fsys \<Rightarrow> (int \<times> ('d, 'w) fsys) option" where
  "ioctl_call F fd op argp s =
    do { l \<leftarrow> live fd s;
         case l of
           None \<Rightarrow> Some (- 1, s)
         | Some (e, f) \<Rightarrow> do { f \<leftarrow> f; case ioctl_op (F f) of None \<Rightarrow> Some (- 1, s) | Some w \<Rightarrow> w fd op argp s } }"

definition filefs_init :: "nat \<Rightarrow> ('d, 'w) fsys \<Rightarrow> int \<times> ('d, 'w) fsys" where
  "filefs_init f s = (0, s\<lparr>FileSystems := f # FileSystems s\<rparr>)"

section \<open>The table of files\<close>

lemma file_at_set:
  "set_file fd f s = Some s' \<Longrightarrow> file_at fd' s' = (if fd' = fd then map_option f (file_at fd s) else file_at fd' s)"
  by (auto simp: set_file_def file_at_def split: if_splits bind_splits)

lemma set_file_frame:
  "set_file fd f s = Some s' \<Longrightarrow> length (file_tab s') = length (file_tab s) \<and> FileSystems s' = FileSystems s \<and> errno s' = errno s \<and>
    world s' = world s \<and> mem_granted s' = mem_granted s \<and> mem_requests s' = mem_requests s"
  by (auto simp: set_file_def split: bind_splits)

lemma set_file_some: "file_at fd s = Some e \<Longrightarrow> set_file fd f s = Some (s\<lparr>file_tab := (file_tab s)[nat fd := f e]\<rparr>)"
  by (simp add: set_file_def)

lemma file_at_fields [simp]:
  "file_at fd (s\<lparr>errno := x\<rparr>) = file_at fd s" "file_at fd (s\<lparr>world := w\<rparr>) = file_at fd s" "file_at fd (s\<lparr>mem_requests := k\<rparr>) = file_at fd s"
  by (simp_all add: file_at_def)

lemma free_slot_below: "free_slot t \<le> length t"
  by (simp add: free_slot_def length_takeWhile_le)

lemma free_slot_first: "free_slot t < length t \<Longrightarrow> \<not> valid (t ! free_slot t) \<and> (\<forall>i<free_slot t. valid (t ! i))"
  using nth_length_takeWhile[of valid t] takeWhile_nth[of _ valid t] by (metis free_slot_def nth_mem set_takeWhileD)

lemma free_slot_full: "free_slot t = length t \<longleftrightarrow> (\<forall>e\<in>set t. valid e)"
  by (induction t) (auto simp: free_slot_def)

text \<open>
  What the layer relies on: the open function of a file system returns the descriptor it was given or
  -1 and changes no other entry of the table.
\<close>

locale file_systems =
  fixes F :: "nat \<Rightarrow> ('d, 'w) fsys FileSystem"
  assumes open_frame: "\<And>f op lu fname mode s r s'. open_op (F f) = Some op \<Longrightarrow> op lu fname mode 0 s = Some (r, s') \<Longrightarrow>
    (\<forall>fd. fd \<noteq> lu \<longrightarrow> file_at fd s' = file_at fd s) \<and> length (file_tab s') = length (file_tab s) \<and> (r = lu \<or> r = - 1)"
begin

definition framed :: "int \<Rightarrow> ('d, 'w) fsys \<Rightarrow> ('d, 'w) fsys \<Rightarrow> bool" where
  "framed lu s s' \<longleftrightarrow> (\<forall>fd. fd \<noteq> lu \<longrightarrow> file_at fd s' = file_at fd s) \<and> length (file_tab s') = length (file_tab s)"

lemma framed_trans: "framed lu s s' \<Longrightarrow> framed lu s' s'' \<Longrightarrow> framed lu s s''"
  by (simp add: framed_def)

lemma framed_set: "set_file lu f s = Some s' \<Longrightarrow> framed lu s s'"
  using file_at_set[of lu f s s'] set_file_frame[of lu f s s'] by (simp add: framed_def)

definition outcome :: "nat list \<Rightarrow> int + nat option \<Rightarrow> bool" where
  "outcome fl r \<longleftrightarrow> (\<forall>i. r = Inl i \<longrightarrow> i = - 1) \<and> (\<forall>f. r = Inr (Some f) \<longrightarrow> f \<in> set fl)"

lemma try_find_frame: "try_find F fname mode dname lu ftype fl s = Some (r, s') \<Longrightarrow> framed lu s s' \<and> outcome fl r"
proof (induction fl arbitrary: s)
  case (Cons f fl)
  have here: "framed lu s s" by (simp add: framed_def)
  have fr: "framed lu s s1" if "open_op (F f) = Some op" "op lu fname mode 0 s = Some (x, s1)" for op x s1
    using open_frame[OF that] by (simp add: framed_def)
  have later: "framed lu s s' \<and> outcome (f # fl) r" if "try_find F fname mode dname lu ftype fl s1 = Some (r, s')" "framed lu s s1" for s1
    using Cons.IH[OF that(1)] framed_trans[OF that(2)] by (auto simp: outcome_def)
  consider (direct) "dname \<noteq> None \<and> strbequ dname (Some (devname (F f)))"
    | (kind) "\<not> (dname \<noteq> None \<and> strbequ dname (Some (devname (F f))))" "ftype \<noteq> FS_NULL \<and> fstype (F f) = ftype"
    | (other) "\<not> (dname \<noteq> None \<and> strbequ dname (Some (devname (F f))))" "\<not> (ftype \<noteq> FS_NULL \<and> fstype (F f) = ftype)" by blast
  then show ?case
  proof cases
    case direct
    then show ?thesis using Cons.prems here fr by (cases "open_op (F f)") (auto simp: outcome_def split: bind_splits if_splits)
  next
    case kind
    note step = Cons.prems[unfolded try_find.simps if_not_P[OF kind(1)] if_P[OF kind(2)]]
    show ?thesis
    proof (cases "open_op (F f)")
      case None
      then have "try_find F fname mode dname lu ftype fl s = Some (r, s')" using step by simp
      then show ?thesis by (rule later) (rule here)
    next
      case (Some op)
      then obtain x s1 where x: "op lu fname mode 0 s = Some (x, s1)" "(if x = lu then Some (Inr (Some f), s1) else try_find F fname mode dname lu ftype fl s1) = Some (r, s')"
        using step by (cases "op lu fname mode 0 s") auto
      show ?thesis using x(2) later[OF _ fr[OF Some x(1)]] fr[OF Some x(1)] by (cases "x = lu") (auto simp: outcome_def)
    qed
  next
    case other
    have "try_find F fname mode dname lu ftype fl s = Some (r, s')" using Cons.prems unfolding try_find.simps if_not_P[OF other(1)] if_not_P[OF other(2)] .
    then show ?thesis by (rule later) (rule here)
  qed
qed (auto simp: framed_def outcome_def)

lemma try_open_frame:
  assumes "try_open F fname mode dname lu ftype s = Some (r, s')"
  shows "framed lu s s' \<and> (r = - 1 \<or> r = lu \<and> (\<exists>e f. file_at lu s' = Some e \<and> valid e \<and> posn e = 0 \<and> fs e = Some f \<and> f \<in> set (FileSystems s)))"
proof -
  obtain q s1 where q: "try_find F fname mode dname lu ftype (FileSystems s) s = Some (q, s1)"
    using assms by (auto simp: try_open_def split: bind_splits)
  note fr = try_find_frame[OF q]
  show ?thesis
  proof (cases q)
    case (Inl i)
    then show ?thesis using assms q fr by (simp add: try_open_def outcome_def)
  next
    case (Inr x)
    show ?thesis
    proof (cases x)
      case None
      then show ?thesis using assms q fr Inr by (auto simp: try_open_def framed_def)
    next
      case (Some f)
      then obtain s2 where s2: "set_file lu (\<lambda>e. e\<lparr>valid := True, posn := 0, fs := Some f\<rparr>) s1 = Some s2" "r = lu" "s' = s2"
        using assms q Inr by (auto simp: try_open_def split: bind_splits)
      have "file_at lu s1 \<noteq> None" using s2(1) by (auto simp: set_file_def split: bind_splits)
      then show ?thesis using framed_trans[OF _ framed_set[OF s2(1)]] fr file_at_set[OF s2(1), of lu] s2(2,3) Inr Some by (auto simp: outcome_def)
    qed
  qed
qed

lemma open_named_frame:
  "open_named F fname mode lu s = Some (r, s') \<Longrightarrow>
    framed lu s s' \<and> (r = - 1 \<or> r = lu \<and> (\<exists>e f. file_at lu s' = Some e \<and> valid e \<and> posn e = 0 \<and> fs e = Some f \<and> f \<in> set (FileSystems s)))"
  by (auto simp: open_named_def split: if_splits bind_splits dest: try_open_frame)

text \<open>A call of \<^verbatim>\<open>open\<close> gives the lowest free descriptor, or none, and touches no other entry.\<close>

lemma open_table:
  assumes "length (file_tab s) = OPEN_MAX" "open_call F filename mode s = Some (r, s')"
  shows "(\<forall>fd. fd \<noteq> int (free_slot (file_tab s)) \<longrightarrow> file_at fd s' = file_at fd s) \<and> length (file_tab s') = OPEN_MAX \<and>
    (if \<forall>e\<in>set (file_tab s). valid e then r = - 1 \<and> file_tab s' = file_tab s \<and> errno s' = EMFILE
     else \<exists>e. file_at (int (free_slot (file_tab s))) s' = Some e \<and>
       (r = - 1 \<and> \<not> valid e \<or> r = int (free_slot (file_tab s)) \<and> valid e \<and> posn e = 0 \<and> (\<exists>f\<in>set (FileSystems s). fs e = Some f)))"
proof (cases "\<forall>e\<in>set (file_tab s). valid e")
  case True
  then have "free_slot (file_tab s) = OPEN_MAX" using free_slot_full assms(1) by metis
  then show ?thesis using assms True by (auto simp: open_call_def alloc_def Let_def split: if_splits)
next
  case False
  let ?lu = "free_slot (file_tab s)"
  have lt: "?lu < OPEN_MAX" using False free_slot_full[of "file_tab s"] free_slot_below[of "file_tab s"] assms(1) by (metis le_neq_implies_less)
  let ?s0 = "s\<lparr>mem_requests := mem_requests s + 1\<rparr>"
  obtain s1 where s1: "set_file (int ?lu) (\<lambda>e. empty_file\<lparr>valid := True\<rparr>) ?s0 = Some s1"
    using assms lt by (auto simp: open_call_def alloc_def Let_def split: if_splits bind_splits)
  obtain s2 where s2: "open_named F filename mode (int ?lu) s1 = Some (r, s2)"
    "(if r = - 1 then set_file (int ?lu) (\<lambda>e. e\<lparr>valid := False\<rparr>) s2 else Some s2) = Some s'"
    using assms lt s1 by (auto simp: open_call_def alloc_def Let_def split: if_splits bind_splits)
  have f1: "framed (int ?lu) s s1" using framed_set[OF s1] by (simp add: framed_def)
  note nm = open_named_frame[OF s2(1)]
  have f2: "framed (int ?lu) s s2" using framed_trans[OF f1] nm by blast
  have fl: "FileSystems s1 = FileSystems s" using set_file_frame[OF s1] by simp
  show ?thesis
  proof (cases "r = - 1")
    case True
    then have st: "set_file (int ?lu) (\<lambda>e. e\<lparr>valid := False\<rparr>) s2 = Some s'" using s2(2) by simp
    have "file_at (int ?lu) s2 \<noteq> None" using st by (auto simp: set_file_def split: bind_splits)
    then show ?thesis using framed_trans[OF f2 framed_set[OF st]] file_at_set[OF st, of "int ?lu"] True False assms(1) by (auto simp: framed_def)
  next
    case r: False
    then have "s' = s2" using s2(2) by simp
    then show ?thesis using f2 nm r False fl assms(1) by (auto simp: framed_def)
  qed
qed

end

end
