(* ===== verification/Mtdfile.thy ===== *)
theory Mtdfile
  imports Filesys Mtd_Inv Nand_Erase
begin

unbundle bit_operations_syntax

text \<open>
  The partitions as files, \<^verbatim>\<open>mtdfile_open\<close> to \<^verbatim>\<open>mtdfile_lseek\<close> of \<^verbatim>\<open>src/os/filesys/mtd.c\<close>. The devices are the list of
  partitions, the NAND chip (\<open>g\<close> is its geometry and \<open>ops\<close> its driver), and the private data of the
  open files, blocks of the heap that the descriptors point to. The functions of a NOR flash are the
  parameter \<open>N\<close>. A buffer that is not filled before it is read is \<open>junk\<close>. What is printed is left out.
\<close>

section \<open>State\<close>

record mtdpriv =
  pfile :: nat
  open_offset :: u32
  open_size :: u32

record 's flash =
  mtdl :: mtds
  chip :: "'s nand"
  privs :: "nat \<Rightarrow> mtdpriv option"
  yaf_use :: bool
  yaf_w :: bool

type_synonym 's mtd_sys = "(nat, 's flash) fsys"

record 's nor_ops =
  nor_read :: "nat \<Rightarrow> u32 \<Rightarrow> u32 \<Rightarrow> 's mtd_sys \<Rightarrow> u8 list \<times> 's mtd_sys"
  nor_erase :: "nat \<Rightarrow> u32 \<Rightarrow> u32 \<Rightarrow> 's mtd_sys \<Rightarrow> 's mtd_sys"
  nor_write :: "nat \<Rightarrow> u32 \<Rightarrow> u8 list \<Rightarrow> 's mtd_sys \<Rightarrow> u32 \<times> 's mtd_sys"

text \<open>The private data and the partition behind a descriptor.\<close>

definition file_priv :: "int \<Rightarrow> 's mtd_sys \<Rightarrow> (nat File \<times> mtdpriv \<times> mtdfile) option" where
  "file_priv fd s =
    do { e \<leftarrow> file_at fd s; d \<leftarrow> data e; priv \<leftarrow> privs (world s) d; p \<leftarrow> nodes (mtdl (world s)) (pfile priv); Some (e, priv, p) }"

definition set_world :: "('s flash \<Rightarrow> 's flash) \<Rightarrow> 's mtd_sys \<Rightarrow> 's mtd_sys" where
  "set_world f s = s\<lparr>world := f (world s)\<rparr>"

section \<open>Opening and closing\<close>

text \<open>The text before and after the first \<open>c\<close>, where the code writes a terminator.\<close>

definition cut :: "u8 \<Rightarrow> cstring \<Rightarrow> cstring \<times> cstring option" where
  "cut c t = (case strchr t (schar c) of None \<Rightarrow> (t, None) | Some r \<Rightarrow> (take (length t - length r) t, Some (tl r)))"

text \<open>Finding the partition: its block, or \<open>None\<close>, and the text after the \<^verbatim>\<open>@\<close>.\<close>

definition by_index :: "u32 \<Rightarrow> mtds \<Rightarrow> nat option option" where
  "by_index idx m = LIST_FOREACH (\<lambda>p. idx \<noteq> 0xffffffff \<and> index p = idx) (lh_first m) m"

definition find_part :: "cstring \<Rightarrow> mtds \<Rightarrow> (nat option \<times> cstring option) option" where
  "find_part dname m =
    (if at dname = 0x2a then do { p \<leftarrow> by_index 0xffffffff m; Some (p, None) }
     else if at dname = 0x2f then
       (let dname = tl dname
        in if dname \<noteq> [] then
             let (dname, poffset) = cut 0x40 dname
             in do { p \<leftarrow> LIST_FOREACH (\<lambda>p. strcmp (name p) dname = 0) (lh_first m) m;
                     case p of
                       Some q \<Rightarrow> Some (Some q, poffset)
                     | None \<Rightarrow> do { p \<leftarrow> by_index 0xffffffff m; Some (p, poffset) } }
           else do { p \<leftarrow> by_index 0xffffffff m; Some (p, None) })
     else if isdigit (at dname) then
       let (dname, poffset) = cut 0x40 dname
       in do { p \<leftarrow> by_index (fst (strtoul dname 0)) m; Some (p, poffset) }
     else do { p \<leftarrow> by_index 0xffffffff m; Some (p, None) })"

definition open_range :: "cstring option \<Rightarrow> u32 \<times> u32" where
  "open_range poffset =
    (case poffset of
       None \<Rightarrow> (0, 0)
     | Some t \<Rightarrow>
       let (t, psize) = cut 0x2c t
       in (fst (strtoul t 0), case psize of None \<Rightarrow> 0 | Some z \<Rightarrow> fst (strtoul z 0)))"

definition mtdfile_open :: "u8 list \<Rightarrow> int \<Rightarrow> cstring \<Rightarrow> int \<Rightarrow> int \<Rightarrow> 's mtd_sys \<Rightarrow> (int \<times> 's mtd_sys) option" where
  "mtdfile_open junk fd fname mode perms s =
    do { namebuf \<leftarrow> strncpy 0 (Some fname) 63 junk;
         dname \<leftarrow> string_in namebuf;
         let dname = (if strncmp dname (map chr ''/dev/'') 5 = 0 then drop 5 dname else dname);
         if strncmp dname (map chr ''mtd'') 3 \<noteq> 0 then Some (- 1, s)
         else do {
           (p, poffset) \<leftarrow> find_part (drop 3 dname) (mtdl (world s));
           case p of
             None \<Rightarrow> Some (- 1, s)
           | Some q \<Rightarrow>
             do { let (offset, sz) = open_range poffset;
                  m \<leftarrow> upd (Some q) (\<lambda>n. n\<lparr>refs := refs n + 1\<rparr>) (mtdl (world s));
                  n \<leftarrow> nodes m q;
                  let (priv, s) = alloc s;
                  priv \<leftarrow> priv;
                  let pr = \<lparr>pfile = q, open_offset = offset, open_size = (if sz \<noteq> 0 then sz else part_size n)\<rparr>;
                  let s = set_world (\<lambda>w. w\<lparr>mtdl := m, privs := (privs w)(priv \<mapsto> pr)\<rparr>) s;
                  s \<leftarrow> set_file fd (\<lambda>e. e\<lparr>posn := 0, data := Some priv\<rparr>) s;
                  Some (fd, s) } } }"

definition mtdfile_close :: "int \<Rightarrow> 's mtd_sys \<Rightarrow> (int \<times> 's mtd_sys) option" where
  "mtdfile_close fd s =
    do { (e, priv, p) \<leftarrow> file_priv fd s;
         m \<leftarrow> upd (Some (pfile priv)) (\<lambda>n. n\<lparr>refs := refs n - 1\<rparr>) (mtdl (world s));
         d \<leftarrow> data e;
         Some (0, set_world (\<lambda>w. w\<lparr>mtdl := m, privs := (privs w)(d := None)\<rparr>) s) }"

section \<open>Positions on a NOR flash\<close>

partial_function (option) goodpart_loop :: "nat option \<Rightarrow> u32 \<Rightarrow> u32 \<Rightarrow> u32 \<Rightarrow> u32 \<Rightarrow> mtds \<Rightarrow> (nat option \<times> u32) option" where
  "goodpart_loop goodpart add offset file_start pos m =
    (case goodpart of
       None \<Rightarrow> Some (None, offset)
     | Some q \<Rightarrow>
       do { n \<leftarrow> nodes m q;
            let offset = (if file_start < part_offset n then offset + add else offset);
            if part_offset n \<le> file_start + pos + offset \<and> file_start + pos + offset < part_offset n + part_size n
            then Some (Some q, offset)
            else do {
              add \<leftarrow> (case le_next n of
                  None \<Rightarrow> Some add
                | Some r \<Rightarrow> do { n' \<leftarrow> nodes m r; Some (part_offset n' - part_offset n - part_size n) });
              goodpart_loop (le_next n) add offset file_start pos m } })"

declare goodpart_loop.simps [code]

text \<open>The position on the device and what is left of its part.\<close>

definition file_to_mtd_pos :: "int \<Rightarrow> 's mtd_sys \<Rightarrow> (u32 \<times> u32) option" where
  "file_to_mtd_pos fd s =
    do { (e, priv, p) \<leftarrow> file_priv fd s;
         let file_start = part_offset p + open_offset priv;
         let pos = word_of_int (posn e);
         let m = mtdl (world s);
         g0 \<leftarrow> goodpart0 m;
         n0 \<leftarrow> nodes m g0;
         (gp, offset) \<leftarrow> goodpart_loop (Some g0) (part_offset n0) 0 file_start pos m;
         gp \<leftarrow> gp;
         n \<leftarrow> nodes m gp;
         Some (file_start + pos + offset, part_offset n + part_size n - (file_start + pos + offset)) }"

section \<open>Reading\<close>

text \<open>The loop over a NOR flash: what is left and the buffer from index \<open>k\<close> on.\<close>

partial_function (option) nor_read_loop :: "'s nor_ops \<Rightarrow> int \<Rightarrow> u32 \<Rightarrow> nat \<Rightarrow> u8 list \<Rightarrow> 's mtd_sys \<Rightarrow> (u32 \<times> u8 list \<times> 's mtd_sys) option" where
  "nor_read_loop N fd left k buf s =
    (if left = 0 then Some (left, buf, s)
     else do {
       (newpos, maxlen) \<leftarrow> file_to_mtd_pos fd s;
       (e, priv, p) \<leftarrow> file_priv fd s;
       let (bs, s) = nor_read N (mtd p) newpos (min left maxlen) s;
       let buf = put_at k bs buf;
       if bs = [] then Some (left, buf, s)
       else do {
         s \<leftarrow> set_file fd (\<lambda>e. e\<lparr>posn := posn e + int (length bs)\<rparr>) s;
         nor_read_loop N fd (left - of_nat (length bs)) (k + length bs) buf s } })"

declare nor_read_loop.simps [code]

text \<open>The length of a request that does not run past the end of the opened range.\<close>

definition within :: "int \<Rightarrow> u32 \<Rightarrow> u32 \<Rightarrow> u32" where
  "within pos n sz = (if pos + uint n > uint sz then word_of_int (uint sz - pos) else n)"

definition mtdfile_read :: "geometry \<Rightarrow> 's chip_ops \<Rightarrow> 's nor_ops \<Rightarrow> int \<Rightarrow> u8 list \<Rightarrow> u32 \<Rightarrow> 's mtd_sys \<Rightarrow> (int \<times> u8 list \<times> 's mtd_sys) option" where
  "mtdfile_read g ops N fd buf n s =
    do { (e, priv, p) \<leftarrow> file_priv fd s;
         let left = n;
         let n = within (posn e) n (open_size priv);
         let dv = devs (mtdl (world s)) (mtd p);
         if is_nand dv then do {
           (block_inc, n, buf, c) \<leftarrow> nand_read_skip_bad g ops (posn e + uint (open_offset priv) + uint (part_offset p)) (unat n) buf (chip (world s));
           let skipped = (if block_inc > 0 then block_inc * uint (erasesize dv) else 0);
           s \<leftarrow> set_file fd (\<lambda>e. e\<lparr>posn := posn e + skipped + int n\<rparr>) (set_world (\<lambda>w. w\<lparr>chip := c\<rparr>) s);
           Some (sint (of_nat n :: u32), buf, s) }
         else do { (left, buf, s) \<leftarrow> nor_read_loop N fd left 0 buf s; Some (sint (n - left), buf, s) } }"

section \<open>Writing\<close>

text \<open>Erasing, with a step to the next block after every failure; and stepping over bad blocks.\<close>

partial_function (option) erase_skip :: "geometry \<Rightarrow> 's chip_ops \<Rightarrow> u32 \<Rightarrow> erase_info \<Rightarrow> u32 \<Rightarrow> int \<Rightarrow> 's nand \<Rightarrow> (u32 \<times> int \<times> 's nand) option" where
  "erase_skip g ops es i start_addr pos c =
    do { (r, i, c) \<leftarrow> nand_erase g ops i c;
         if r \<noteq> 0 then erase_skip g ops es (i\<lparr>erase_addr := erase_addr i + es\<rparr>) (start_addr + es) (pos + uint es) c
         else Some (start_addr, pos, c) }"

declare erase_skip.simps [code]

partial_function (option) bad_skip :: "geometry \<Rightarrow> 's chip_ops \<Rightarrow> u32 \<Rightarrow> u32 \<Rightarrow> int \<Rightarrow> 's nand \<Rightarrow> (u32 \<times> int \<times> 's nand) option" where
  "bad_skip g ops es start_addr pos c =
    do { (bad, c) \<leftarrow> nand_block_isbad g ops (uint (start_addr AND NOT (es - 1))) c;
         if bad \<noteq> 0 then bad_skip g ops es (start_addr + es) (pos + uint es) c else Some (start_addr, pos, c) }"

declare bad_skip.simps [code]

definition round_up :: "u32 \<Rightarrow> u32 \<Rightarrow> u32" where
  "round_up x k = (x + k - 1) AND NOT (k - 1)"

definition write_nand :: "geometry \<Rightarrow> 's chip_ops \<Rightarrow> int \<Rightarrow> u8 list \<Rightarrow> u32 \<Rightarrow> nat File \<times> mtdpriv \<times> mtdfile \<Rightarrow> 's mtd_sys \<Rightarrow> 's mtd_sys option" where
  "write_nand g ops fd buf n f s =
    (case f of (e, priv, p) \<Rightarrow>
       let dv = devs (mtdl (world s)) (mtd p);
           start_addr = word_of_int (posn e) + open_offset priv + part_offset p;
           n = round_up n (writesize dv);
           i = \<lparr>erase_addr = round_up start_addr (erasesize dv), fail_addr = 0, erase_len = round_up n (erasesize dv), erase_st = MTD_ERASE_PENDING\<rparr>
       in do {
         (start_addr, pos, c) \<leftarrow>
           (if yaf_w (world s) then
              if start_addr \<le> erase_addr i \<and> erase_addr i < start_addr + erase_len i
              then erase_skip g ops (erasesize dv) i start_addr (posn e) (chip (world s))
              else Some (start_addr, posn e, chip (world s))
            else bad_skip g ops (erasesize dv) start_addr (posn e) (chip (world s)));
         if length buf < unat n then None
         else do {
           (_, n, c) \<leftarrow> nand_write g ops (uint start_addr) (unat n) (unat n) buf c;
           set_file fd (\<lambda>e. e\<lparr>posn := pos + int n\<rparr>) (set_world (\<lambda>w. w\<lparr>chip := c\<rparr>) s) } })"

partial_function (option) nor_write_loop :: "'s nor_ops \<Rightarrow> int \<Rightarrow> u32 \<Rightarrow> u8 list \<Rightarrow> 's mtd_sys \<Rightarrow> (u32 \<times> 's mtd_sys) option" where
  "nor_write_loop N fd left buf s =
    (if left = 0 then Some (left, s)
     else do {
       (start_addr, maxlen) \<leftarrow> file_to_mtd_pos fd s;
       (e, priv, p) \<leftarrow> file_priv fd s;
       let maxlen = min left maxlen;
       let es = erasesize (devs (mtdl (world s)) (mtd p));
       let ea = round_up start_addr es;
       let s = (if start_addr \<le> ea \<and> ea < start_addr + maxlen then nor_erase N (mtd p) ea (round_up maxlen es) s else s);
       if length buf < unat maxlen then None
       else do {
         let (retlen, s) = nor_write N (mtd p) start_addr (take (unat maxlen) buf) s;
         if retlen = 0 then Some (left, s)
         else do {
           s \<leftarrow> set_file fd (\<lambda>e. e\<lparr>posn := posn e + uint retlen\<rparr>) s;
           nor_write_loop N fd (if left > retlen then left - retlen else 0) (drop (unat retlen) buf) s } } })"

declare nor_write_loop.simps [code]

definition mtdfile_write :: "geometry \<Rightarrow> 's chip_ops \<Rightarrow> 's nor_ops \<Rightarrow> int \<Rightarrow> u8 list \<Rightarrow> u32 \<Rightarrow> 's mtd_sys \<Rightarrow> (int \<times> 's mtd_sys) option" where
  "mtdfile_write g ops N fd buf n s =
    do { let left = n;
         let n1 = n;
         let n = (if yaf_use (world s) then n - 4096 else n);
         (e, priv, p) \<leftarrow> file_priv fd s;
         let n = within (posn e) n (open_size priv);
         if is_nand (devs (mtdl (world s)) (mtd p))
         then do { s \<leftarrow> write_nand g ops fd buf n (e, priv, p) s; Some (sint n1, s) }
         else do { (left, s) \<leftarrow> nor_write_loop N fd left buf s; Some (sint (n - left), s) } }"

section \<open>Moving the position\<close>

definition mtdfile_lseek :: "int \<Rightarrow> int \<Rightarrow> int \<Rightarrow> 's mtd_sys \<Rightarrow> (int \<times> 's mtd_sys) option" where
  "mtdfile_lseek fd offset whence s =
    do { (e, priv, p) \<leftarrow> file_priv fd s;
         if whence = 0 \<or> whence = 1 \<or> whence = 2 then do {
           let pos = (if whence = 0 then offset else if whence = 1 then posn e + offset else uint (open_size priv) + offset);
           s \<leftarrow> set_file fd (\<lambda>e. e\<lparr>posn := pos\<rparr>) s;
           Some (pos, s) }
         else Some (- 1, s\<lparr>errno := EINVAL\<rparr>) }"

definition mtdfs :: "geometry \<Rightarrow> 's chip_ops \<Rightarrow> 's nor_ops \<Rightarrow> u8 list \<Rightarrow> 's mtd_sys FileSystem" where
  "mtdfs g ops N junk =
    \<lparr>devname = map chr ''mtd'', fstype = FS_MEM, open_op = Some (mtdfile_open junk), read_op = Some (mtdfile_read g ops N),
     write_op = Some (mtdfile_write g ops N), lseek_op = Some mtdfile_lseek, close_op = Some mtdfile_close, ioctl_op = None\<rparr>"

definition init_fs_mtdfs :: "nat \<Rightarrow> 's mtd_sys \<Rightarrow> 's mtd_sys" where
  "init_fs_mtdfs f s = snd (filefs_init f s)"

section \<open>The erase command\<close>

text \<open>The loop over the blocks of a partition, one erase instruction each; a failure is passed over.\<close>

fun erase_blocks :: "geometry \<Rightarrow> 's chip_ops \<Rightarrow> 's nor_ops \<Rightarrow> nat \<Rightarrow> u32 \<Rightarrow> nat \<Rightarrow> erase_info \<Rightarrow> 's mtd_sys \<Rightarrow> 's mtd_sys option" where
  "erase_blocks g ops N d es 0 i s = Some s"
| "erase_blocks g ops N d es (Suc k) i s =
    do { (i, s) \<leftarrow>
           (if is_nand (devs (mtdl (world s)) d)
            then do { (_, i, c) \<leftarrow> nand_erase g ops i (chip (world s)); Some (i, set_world (\<lambda>w. w\<lparr>chip := c\<rparr>) s) }
            else Some (i, nor_erase N d (erase_addr i) (erase_len i) s));
         erase_blocks g ops N d es k (i\<lparr>erase_addr := erase_addr i + es\<rparr>) s }"

definition mtd_erase :: "(nat \<Rightarrow> 's mtd_sys FileSystem) \<Rightarrow> geometry \<Rightarrow> 's chip_ops \<Rightarrow> 's nor_ops \<Rightarrow> cstring list \<Rightarrow> 's mtd_sys \<Rightarrow> (int \<times> 's mtd_sys) option" where
  "mtd_erase F g ops N argv s =
    (if length argv < 2 then Some (- 1, s)
     else do {
       (fd, s) \<leftarrow> open_call F (argv ! 1) O_RDWR s;
       (e, priv, p) \<leftarrow> file_priv fd s;
       let es = erasesize (devs (mtdl (world s)) (mtd p));
       if es = 0 then None
       else do {
         let erase_block = part_size p div es;
         let start_addr = word_of_int (posn e) + open_offset priv + part_offset p;
         let i = \<lparr>erase_addr = round_up start_addr es, fail_addr = 0, erase_len = es, erase_st = MTD_ERASE_PENDING\<rparr>;
         s \<leftarrow> erase_blocks g ops N (mtd p) es (nat (sint erase_block)) i s;
         (_, s) \<leftarrow> close_call F fd s;
         Some (0, s) } })"

end
