(* ===== verification/Mtdfile_Inv.thy ===== *)
theory Mtdfile_Inv
  imports Mtdfile Mtd_Parse
begin

unbundle bit_operations_syntax

text \<open>
  What the calls on a partition do: opening by number, reading the good blocks, and erasing and writing.
\<close>

section \<open>Opening\<close>

lemma set_world_fields [simp]:
  "file_tab (set_world f s) = file_tab s" "FileSystems (set_world f s) = FileSystems s" "errno (set_world f s) = errno s"
  "world (set_world f s) = f (world s)" "mem_granted (set_world f s) = mem_granted s" "mem_requests (set_world f s) = mem_requests s"
  "file_at fd (set_world f s) = file_at fd s"
  by (simp_all add: set_world_def)

lemma mtdfile_open_frame:
  assumes "mtdfile_open junk lu fname mode perms s = Some (r, s')"
  shows "(\<forall>fd. fd \<noteq> lu \<longrightarrow> file_at fd s' = file_at fd s) \<and> length (file_tab s') = length (file_tab s) \<and> (r = lu \<or> r = - 1)"
proof -
  have "r = - 1 \<and> s' = s \<or> r = lu \<and> (\<exists>f w. set_file lu f (set_world w (snd (alloc s))) = Some s')"
    using assms by (auto simp: mtdfile_open_def Let_def alloc_def split: if_splits bind_splits option.splits prod.splits)
  then show ?thesis
  proof
    assume r: "r = lu \<and> (\<exists>f w. set_file lu f (set_world w (snd (alloc s))) = Some s')"
    then obtain f w where fw: "set_file lu f (set_world w (snd (alloc s))) = Some s'" by blast
    show ?thesis using r file_at_set[OF fw] set_file_frame[OF fw] by (auto simp: alloc_def)
  qed auto
qed

interpretation mtd_files: file_systems "\<lambda>_. mtdfs g ops N junk" for g ops N junk
  by unfold_locales (auto simp: mtdfs_def dest: mtdfile_open_frame)

lemma cut_none: "c \<notin> set t \<Longrightarrow> cut c t = (t, None)"
  by (simp add: cut_def strchr_dropWhile)

lemma name_held:
  assumes "cstring_ok nm" "length nm < 63" "length junk = 64"
  shows "\<exists>b. strncpy 0 (Some nm) 63 junk = Some b \<and> string_in b = Some nm"
proof -
  have "take 63 (nm @ replicate 63 0) = nm @ replicate (63 - length nm) 0" using assms(2) by simp
  then have "strncpy 0 (Some nm) 63 junk = Some (nm @ replicate (63 - length nm) 0 @ drop 63 junk)"
    using strncpy_loop_eq[of 0 63 junk nm] assms(3) by (simp add: strncpy_def)
  moreover have "replicate (63 - length nm) (0 :: u8) = 0 # replicate (62 - length nm) 0"
    using assms(2) by (simp add: Suc_diff_Suc flip: replicate_Suc)
  ultimately show ?thesis using string_in_pad[OF assms(1)] by simp
qed

text \<open>The name of partition number \<open>k\<close>.\<close>

definition part_name :: "nat \<Rightarrow> cstring" where
  "part_name k = map chr ''/dev/mtd'' @ digits 10 k"

lemma dev_text: "map chr ''/dev/mtd'' = [0x2f, 0x64, 0x65, 0x76, 0x2f, 0x6d, 0x74, 0x64]" "map chr ''/dev/'' = [0x2f, 0x64, 0x65, 0x76, 0x2f]"
  "map chr ''mtd'' = [0x6d, 0x74, 0x64]"
  by (simp_all add: chr_def)

lemma digits_clean: "c \<in> set (digits 10 k) \<Longrightarrow> isdigit c \<and> c \<noteq> 0 \<and> c \<noteq> 0x40"
  using digits_10[of k] by (auto simp: isdigit_def)

lemma part_name_ok: "cstring_ok (part_name k)" "k < 4294967296 \<Longrightarrow> length (part_name k) < 63"
proof -
  show "cstring_ok (part_name k)" using digits_clean unfolding part_name_def dev_text by (auto simp: cstring_ok_def)
  assume "k < 4294967296"
  then have "length (digits 10 k) \<le> Suc 9" by (intro digits_length) simp
  then show "length (part_name k) < 63" by (simp add: part_name_def)
qed

lemma find_part_index:
  assumes "linked m xs" "k < 4294967295" "List.find (\<lambda>p. index (the (nodes m p)) = of_nat k) xs = Some q"
  shows "find_part (digits 10 k) m = Some (Some q, None)"
proof -
  have d: "digits 10 k \<noteq> []" "isdigit (hd (digits 10 k))" using digits_10[of k] by auto
  then have at: "at (digits 10 k) = hd (digits 10 k)" by (cases "digits 10 k") auto
  then have "at (digits 10 k) \<noteq> 0x2a" "at (digits 10 k) \<noteq> 0x2f" "isdigit (at (digits 10 k))" using d by (auto simp: isdigit_def)
  moreover have "cut 0x40 (digits 10 k) = (digits 10 k, None)" using digits_clean by (intro cut_none) blast
  moreover have "fst (strtoul (digits 10 k) 0) = of_nat k" using strtoul_digits[of k "[]"] assms(2) by simp
  moreover have "of_nat k \<noteq> (0xffffffff :: u32)" using assms(2) by (simp add: word_unat_eq_iff unat_of_nat)
  then have "by_index (of_nat k) m = Some (Some q)" using foreach_list[OF assms(1)] assms(3) by (simp add: by_index_def)
  ultimately show ?thesis by (simp add: find_part_def)
qed

definition opened :: "int \<Rightarrow> nat \<Rightarrow> mtdfile \<Rightarrow> 's mtd_sys \<Rightarrow> 's mtd_sys" where
  "opened fd q p s =
    s\<lparr>mem_requests := mem_requests s + 1,
      world := (world s)\<lparr>mtdl := (mtdl (world s))\<lparr>nodes := (nodes (mtdl (world s)))(q \<mapsto> p\<lparr>refs := refs p + 1\<rparr>)\<rparr>,
        privs := (privs (world s))(mem_requests s \<mapsto> \<lparr>pfile = q, open_offset = 0, open_size = part_size p\<rparr>)\<rparr>,
      file_tab := (file_tab s)[nat fd := (file_tab s ! nat fd)\<lparr>posn := 0, data := Some (mem_requests s)\<rparr>]\<rparr>"

lemma mtdfile_open_part:
  assumes "linked (mtdl (world s)) xs" "k < 4294967295" "List.find (\<lambda>p. index (the (nodes (mtdl (world s)) p)) = of_nat k) xs = Some q"
    "nodes (mtdl (world s)) q = Some p" "length junk = 64" "file_at fd s \<noteq> None" "mem_granted s (mem_requests s)"
  shows "mtdfile_open junk fd (part_name k) mode perms s = Some (fd, opened fd q p s)"
proof -
  obtain b where b: "strncpy 0 (Some (part_name k)) 63 junk = Some b" "string_in b = Some (part_name k)"
    using name_held[OF part_name_ok(1) part_name_ok(2) assms(5), of k] assms(2) by auto
  have ok: "cstring_ok (map chr ''/dev/'')" "cstring_ok (map chr ''mtd'')" "cstring_ok (drop 5 (part_name k))"
    using part_name_ok(1)[of k] unfolding dev_text by (auto simp: cstring_ok_def dest: in_set_dropD)
  have n1: "strncmp (part_name k) (map chr ''/dev/'') 5 = 0" "strncmp (drop 5 (part_name k)) (map chr ''mtd'') 3 = 0"
    using strncmp_zero[OF part_name_ok(1) ok(1), of k 5] strncmp_zero[OF ok(3,2), of 3] unfolding part_name_def dev_text by simp_all
  have d: "drop 3 (drop 5 (part_name k)) = digits 10 k" unfolding part_name_def dev_text by simp
  obtain e where e: "0 \<le> fd" "nat fd < length (file_tab s)" using assms(6) by (auto simp: file_at_def split: if_splits)
  show ?thesis
    using b n1 d find_part_index[OF assms(1-3)] assms(4,7) e
    by (simp add: mtdfile_open_def open_range_def upd_def alloc_def set_file_def file_at_def opened_def set_world_def Let_def)
qed

text \<open>The open call on the name of a partition, when the partition file system was registered last.\<close>

definition open_part :: "nat \<Rightarrow> nat \<Rightarrow> nat \<Rightarrow> mtdfile \<Rightarrow> 's mtd_sys \<Rightarrow> 's mtd_sys" where
  "open_part lu f q p s =
    s\<lparr>mem_requests := mem_requests s + 2,
      world := (world s)\<lparr>mtdl := (mtdl (world s))\<lparr>nodes := (nodes (mtdl (world s)))(q \<mapsto> p\<lparr>refs := refs p + 1\<rparr>)\<rparr>,
        privs := (privs (world s))(mem_requests s + 1 \<mapsto> \<lparr>pfile = q, open_offset = 0, open_size = part_size p\<rparr>)\<rparr>,
      file_tab := (file_tab s)[lu := \<lparr>valid = True, posn = 0, fs = Some f, data = Some (mem_requests s + 1)\<rparr>]\<rparr>"

lemma open_call_part:
  assumes "map_option F (Some f) = Some (mtdfs g ops N junk)" "FileSystems s = f # rest" "lu = free_slot (file_tab s)" "lu < length (file_tab s)" "lu \<noteq> OPEN_MAX"
    and "linked (mtdl (world s)) xs" "k < 4294967295" "List.find (\<lambda>p. index (the (nodes (mtdl (world s)) p)) = of_nat k) xs = Some q"
    and "nodes (mtdl (world s)) q = Some p" "length junk = 64" "mem_granted s (mem_requests s)" "mem_granted s (mem_requests s + 1)"
  shows "open_call F (part_name k) mode s = Some (int lu, open_part lu f q p s)"
proof -
  let ?s = "s\<lparr>mem_requests := mem_requests s + 1, file_tab := (file_tab s)[lu := empty_file\<lparr>valid := True\<rparr>]\<rparr>"
  have at: "file_at (int lu) ?s \<noteq> None" using assms(4) by (simp add: file_at_def)
  have o: "mtdfile_open junk (int lu) (part_name k) mode 0 ?s = Some (int lu, opened (int lu) q p ?s)"
    using assms(6-10,12) at by (intro mtdfile_open_part) simp_all
  have dev: "strncmp (part_name k) (map chr ''/dev/'') 5 = 0"
    using strncmp_zero[OF part_name_ok(1), of "map chr ''/dev/''" k 5] unfolding part_name_def dev_text by (simp add: cstring_ok_def)
  have "strbequ (Some (drop 5 (part_name k))) (Some (map chr ''mtd''))"
    using digits_10[of k] unfolding part_name_def dev_text by (cases "digits 10 k") (auto simp: strbequ_def)
  then have "open_named F (part_name k) mode (int lu) ?s =
      do { s \<leftarrow> set_file (int lu) (\<lambda>e. e\<lparr>valid := True, posn := 0, fs := Some f\<rparr>) (opened (int lu) q p ?s); Some (int lu, s) }"
    using assms(1,2) o dev by (simp add: open_named_def try_open_def mtdfs_def)
  moreover have "set_file (int lu) (\<lambda>e. e\<lparr>valid := True, posn := 0, fs := Some f\<rparr>) (opened (int lu) q p ?s) = Some (open_part lu f q p s)"
    using assms(4) by (simp add: set_file_def file_at_def opened_def open_part_def empty_file_def)
  moreover have "set_file (int lu) (\<lambda>e. empty_file\<lparr>valid := True\<rparr>) (s\<lparr>mem_requests := mem_requests s + 1\<rparr>) = Some ?s"
    using assms(4) by (simp add: set_file_def file_at_def)
  ultimately show ?thesis using assms(3,5,11) by (simp add: open_call_def alloc_def Let_def)
qed

lemma open_part_priv:
  assumes "lu < length (file_tab s)" "nodes (mtdl (world s)) q = Some p"
  shows "file_priv (int lu) (open_part lu f q p s) = Some (\<lparr>valid = True, posn = 0, fs = Some f, data = Some (mem_requests s + 1)\<rparr>,
    \<lparr>pfile = q, open_offset = 0, open_size = part_size p\<rparr>, p\<lparr>refs := refs p + 1\<rparr>)"
  using assms by (simp add: file_priv_def file_at_def open_part_def)

section \<open>Rounding\<close>

lemma uint_exp: "j < 32 \<Longrightarrow> uint (2 ^ j :: u32) = 2 ^ j"
  using power_strict_increasing[of j 32 "2 :: int"] uint_word_of_int[where 'a = 32, of "2 ^ j"] by (simp add: take_bit_eq_mod)

lemma uint_plus_small: "uint x + uint y < 2 ^ 32 \<Longrightarrow> uint (x + y) = uint x + uint (y :: u32)"
  by (simp add: uint_word_ariths mod_pos_pos_trivial)

lemma round_up_word:
  assumes "j < 32" "uint x + 2 ^ j - 1 < 2 ^ 32"
  shows "uint (round_up x (2 ^ j)) = (uint x + 2 ^ j - 1) div 2 ^ j * 2 ^ j"
proof -
  have "x + 2 ^ j - 1 = word_of_int (uint x + 2 ^ j - 1)" by simp
  also have "uint \<dots> = uint x + 2 ^ j - 1"
  proof -
    have "(1 :: int) \<le> 2 ^ j" by simp
    then have "0 \<le> uint x + 2 ^ j - 1" using uint_ge_0[of x] by linarith
    then show ?thesis using assms(2) by (intro word_of_int_inverse[OF refl]) simp_all
  qed
  finally show ?thesis using and_not_low[of "x + 2 ^ j - 1" j] by (simp add: round_up_def)
qed

lemma round_up_same:
  assumes "j < 32" "uint x = q * 2 ^ j" "uint x + 2 ^ j - 1 < 2 ^ 32"
  shows "uint (round_up x (2 ^ j)) = uint x"
proof -
  have "(q * 2 ^ j + 2 ^ j - 1) div 2 ^ j = ((2 ^ j - 1) + q * 2 ^ j) div (2 ^ j :: int)" by (simp add: algebra_simps)
  also have "\<dots> = q + (2 ^ j - 1) div 2 ^ j" by (rule div_mult_self1) simp
  also have "(2 ^ j - 1) div 2 ^ j = (0 :: int)" by (rule div_pos_pos_trivial) simp_all
  finally show ?thesis using round_up_word[OF assms(1,3)] assms(2) by simp
qed

section \<open>Reading and writing\<close>

definition moved :: "int \<Rightarrow> int \<Rightarrow> 's nand \<Rightarrow> 's mtd_sys \<Rightarrow> 's mtd_sys" where
  "moved fd pos c s = s\<lparr>world := (world s)\<lparr>chip := c\<rparr>, file_tab := (file_tab s)[nat fd := (file_tab s ! nat fd)\<lparr>posn := pos\<rparr>]\<rparr>"

lemma file_priv_at: "file_priv fd s = Some (e, priv, p) \<Longrightarrow> 0 \<le> fd \<and> nat fd < length (file_tab s) \<and> file_tab s ! nat fd = e \<and> file_at fd s = Some e"
  by (auto simp: file_priv_def file_at_def split: if_splits bind_splits)

lemma moved_set:
  "file_priv fd s = Some (e, priv, p) \<Longrightarrow> set_file fd (\<lambda>e. e\<lparr>posn := f e\<rparr>) (set_world (\<lambda>w. w\<lparr>chip := c\<rparr>) s) = Some (moved fd (f e) c s)"
  by (drule file_priv_at) (simp add: set_file_def moved_def set_world_def)

lemma moved_priv: "file_priv fd s = Some (e, priv, p) \<Longrightarrow> file_priv fd (moved fd pos c s) = Some (e\<lparr>posn := pos\<rparr>, priv, p)"
  by (frule file_priv_at) (auto simp: file_priv_def moved_def file_at_def split: bind_splits)

lemma moved_world [simp]:
  "chip (world (moved fd pos c s)) = c" "mtdl (world (moved fd pos c s)) = mtdl (world s)" "yaf_w (world (moved fd pos c s)) = yaf_w (world s)"
  "yaf_use (world (moved fd pos c s)) = yaf_use (world s)"
  by (simp_all add: moved_def)

lemma within_small: "0 \<le> pos \<Longrightarrow> pos + uint n \<le> uint sz \<Longrightarrow> within pos n sz = n"
  by (simp add: within_def)

context ls1x_eraser
begin

text \<open>The chip behind the files: its good pages read as \<open>D\<close>.\<close>

definition keeps :: "(int \<Rightarrow> u8 list) \<Rightarrow> 'a ls1x_nand_info nand \<Rightarrow> bool" where
  "keeps D c \<longleftrightarrow> page.reads_as D blk.good_pages c \<and> fl c = FL_READY \<and> bbt c = Some T \<and> length (oobwbuf c) = oobsize g"

lemma file_reads:
  assumes "file_priv fd s = Some (e, priv, p)" "is_nand (devs (mtdl (world s)) (mtd p))" "keeps D (chip (world s))"
    and "0 \<le> posn e" "posn e + uint n \<le> uint (open_size priv)" "0 < n" "unat n \<le> length buf"
    and "a = posn e + uint (open_offset priv) + uint (part_offset p)" "unat n \<le> length (blk.good_from a)"
  shows "\<exists>c. mtdfile_read g (ls1x_ops B g polls) N fd buf n s =
    Some (sint n, put_at 0 (map (byte_of (wsize g) D) (take (unat n) (blk.good_from a))) buf, moved fd (posn e + uint n) c s) \<and> keeps D c"
proof -
  have k: "page.reads_as D blk.good_pages (chip (world s))" "fl (chip (world s)) = FL_READY" "bbt (chip (world s)) = Some T" "length (oobwbuf (chip (world s))) = oobsize g"
    using assms(3) by (simp_all add: keeps_def)
  have a: "0 \<le> a" using assms(4,8) by simp
  have n: "0 < unat n" using assms(6) by (simp add: unat_gt_0)
  obtain c where c: "nand_read_skip_bad g (ls1x_ops B g polls) a (unat n) buf (chip (world s)) =
      Some (0, unat n, put_at 0 (map (byte_of (wsize g) D) (take (unat n) (blk.good_from a))) buf, c)"
    "page.same (chip (world s)) c" "page.reads_as D blk.good_pages c" "fl c = FL_READY"
    using blk.skip_bad_reads[OF a k(1-3) assms(7) n] assms(9) by auto
  have "keeps D c" using c(2-4) k by (simp add: keeps_def page.same_def)
  moreover have "mtdfile_read g (ls1x_ops B g polls) N fd buf n s =
    Some (sint n, put_at 0 (map (byte_of (wsize g) D) (take (unat n) (blk.good_from a))) buf, moved fd (posn e + uint n) c s)"
    using assms(1,2) c(1) within_small[OF assms(4,5)] moved_set[OF assms(1), of "\<lambda>e. posn e + uint n" c]
    by (simp add: mtdfile_read_def Let_def flip: assms(8))
  ultimately show ?thesis by blast
qed

lemma device_words:
  assumes "msize g < 2 ^ 31" "0 < nb"
  shows "phys_erase_shift g < 31" "page_shift g < 31" "word_of_int (esize g) = (2 ^ phys_erase_shift g :: u32)" "of_nat (wsize g) = (2 ^ page_shift g :: u32)"
proof -
  have "1 * esize g \<le> nb * esize g" using assms(2) blk.es_pos by (intro mult_right_mono) auto
  then have "esize g \<le> msize g" unfolding blocks(3) by simp
  then have "(2 :: int) ^ phys_erase_shift g < 2 ^ 31" using assms(1) unfolding blocks(1) by (rule le_less_trans)
  then show "phys_erase_shift g < 31" by (rule power_less_imp_less_exp[rotated]) simp
  then show "page_shift g < 31" using block_rows(1) by simp
  show "word_of_int (esize g) = (2 ^ phys_erase_shift g :: u32)" "of_nat (wsize g) = (2 ^ page_shift g :: u32)"
    using blocks(1) page(1) by simp_all
qed

text \<open>The file \<open>fd\<close> stands at the start \<open>a\<close> of block \<open>b\<close> of the NAND device.\<close>

definition file_on_block :: "int \<Rightarrow> 'a ls1x_nand_info mtd_sys \<Rightarrow> nat File \<Rightarrow> mtdpriv \<Rightarrow> mtdfile \<Rightarrow> int \<Rightarrow> bool" where
  "file_on_block fd s e priv p b \<longleftrightarrow> file_priv fd s = Some (e, priv, p) \<and> is_nand (devs (mtdl (world s)) (mtd p)) \<and>
    erasesize (devs (mtdl (world s)) (mtd p)) = word_of_int (esize g) \<and> writesize (devs (mtdl (world s)) (mtd p)) = of_nat (wsize g) \<and>
    yaf_w (world s) \<and> \<not> yaf_use (world s) \<and> 0 \<le> posn e \<and> posn e + uint (open_offset priv) + uint (part_offset p) = b * esize g"

lemma write_setup:
  assumes "file_on_block fd s e priv p b" "msize g < 2 ^ 31" "uint n = int m * int (wsize g)" "0 < m"
    and "k = (uint n + esize g - 1) div esize g" "0 \<le> b" "b + k \<le> nb"
  shows "uint (word_of_int (posn e) + open_offset priv + part_offset p) = b * esize g" "round_up n (of_nat (wsize g)) = n"
    "uint (round_up (word_of_int (posn e) + open_offset priv + part_offset p) (word_of_int (esize g))) = b * esize g"
    "uint (round_up n (word_of_int (esize g))) = k * esize g" "0 < k" "uint n \<le> k * esize g" "(b + k) * esize g \<le> msize g"
proof -
  let ?st = "word_of_int (posn e) + open_offset priv + part_offset p :: u32" and ?es = "esize g"
  have es: "0 < ?es" by (rule blk.es_pos)
  have n0: "0 < uint n" unfolding assms(3) using assms(4) page.wsize_pos by simp
  have kq: "k * ?es = uint n + ?es - 1 - (uint n + ?es - 1) mod ?es" unfolding assms(5) by (simp add: minus_mod_eq_div_mult)
  have md: "0 \<le> (uint n + ?es - 1) mod ?es" "(uint n + ?es - 1) mod ?es < ?es" using es by simp_all
  show nk: "uint n \<le> k * ?es" using kq md by linarith
  then show k0: "0 < k" using n0 es by (smt (verit) zero_less_mult_iff mult_nonpos_nonneg)
  show lim: "(b + k) * ?es \<le> msize g" unfolding blocks(3) using assms(7) es by (intro mult_right_mono) auto
  have nb: "0 < nb" using assms(6,7) k0 by linarith
  note w = device_words[OF assms(2) nb]
  have b0: "0 \<le> b * ?es" using assms(6) es by simp
  have sum: "b * ?es + k * ?es < 2 ^ 31" using lim assms(2) by (simp add: distrib_right)
  have e31: "?es \<le> k * ?es" using k0 es mult_right_mono[of 1 k ?es] by simp
  have "posn e + uint (open_offset priv) + uint (part_offset p) = b * ?es" using assms(1) by (simp add: file_on_block_def)
  then have "word_of_int (posn e + uint (open_offset priv) + uint (part_offset p)) = (word_of_int (b * ?es) :: u32)" by (rule arg_cong)
  then have "word_of_int (b * ?es) = ?st" by (simp add: of_int_add)
  then show st: "uint ?st = b * ?es" using b0 sum nk n0 by (intro word_of_int_inverse[of "b * ?es"]) auto
  have "uint (round_up n (2 ^ page_shift g)) = uint n"
  proof (rule round_up_same)
    show "page_shift g < 32" using w(2) by simp
    show "uint n = int m * 2 ^ page_shift g" using assms(3) page(1) by simp
    have "(2 :: int) ^ page_shift g \<le> 2 ^ phys_erase_shift g" using block_rows(1) by (intro power_increasing) auto
    then have "2 ^ page_shift g \<le> ?es" unfolding blocks(1) .
    moreover have "(2 :: int) ^ 31 + 2 ^ 31 = 2 ^ 32" by simp
    ultimately show "uint n + 2 ^ page_shift g - 1 < 2 ^ 32" using nk sum b0 e31 by linarith
  qed
  then show "round_up n (of_nat (wsize g)) = n" unfolding w(4) by (simp add: word_uint_eq_iff)
  have big: "(2 :: int) ^ 31 + 2 ^ 31 = 2 ^ 32" "0 \<le> (2 :: int) ^ 31" by simp_all
  have s1: "uint ?st + ?es - 1 < 2 ^ 32" using st sum e31 big by linarith
  have s2: "uint n + ?es - 1 < 2 ^ 32" using sum e31 nk b0 big by linarith
  have "uint (round_up ?st (2 ^ phys_erase_shift g)) = uint ?st"
    using w(1) st s1 unfolding blocks(1) by (intro round_up_same[of _ _ b]) simp_all
  then show "uint (round_up ?st (word_of_int ?es)) = b * ?es" unfolding w(3) using st by simp
  have "uint (round_up n (2 ^ phys_erase_shift g)) = (uint n + 2 ^ phys_erase_shift g - 1) div 2 ^ phys_erase_shift g * 2 ^ phys_erase_shift g"
    using w(1) s2 unfolding blocks(1) by (intro round_up_word) simp_all
  then show "uint (round_up n (word_of_int ?es)) = k * ?es" unfolding w(3) assms(5) using blocks(1) by simp
qed

lemma file_writes:
  assumes "file_on_block fd s e priv p b" "msize g < 2 ^ 31" "uint n = int m * int (wsize g)" "0 < m"
    and "k = (uint n + esize g - 1) div esize g" "0 \<le> b" "b + k \<le> nb" "\<And>x. b \<le> x \<Longrightarrow> x < b + k \<Longrightarrow> \<not> blk.bad x"
    and "keeps D (chip (world s))" "posn e + uint n \<le> uint (open_size priv)" "unat n \<le> length buf"
  shows "\<exists>c. mtdfile_write g (ls1x_ops B g polls) N fd buf n s = Some (sint n, moved fd (posn e + uint n) c s) \<and>
    keeps (page.written (b * ppb) m buf (wiped (wsize g) (b * ppb) ((b + k) * ppb) D)) c"
proof -
  note ws = write_setup[OF assms(1-7)]
  let ?st = "word_of_int (posn e) + open_offset priv + part_offset p :: u32"
  let ?i = "\<lparr>erase_addr = round_up ?st (word_of_int (esize g)), fail_addr = 0, erase_len = round_up n (word_of_int (esize g)), erase_st = MTD_ERASE_PENDING\<rparr>"
  have f: "file_priv fd s = Some (e, priv, p)" "is_nand (devs (mtdl (world s)) (mtd p))" "erasesize (devs (mtdl (world s)) (mtd p)) = word_of_int (esize g)"
    "writesize (devs (mtdl (world s)) (mtd p)) = of_nat (wsize g)" "yaf_w (world s)" "\<not> yaf_use (world s)" "0 \<le> posn e"
    using assms(1) by (simp_all add: file_on_block_def)
  have kp: "page.reads_as D blk.good_pages (chip (world s))" "ready (hw (chip (world s)))" "fl (chip (world s)) = FL_READY" "bbt (chip (world s)) = Some T"
    "length (oobwbuf (chip (world s))) = oobsize g"
    using assms(9) by (simp_all add: keeps_def page.reads_as_def)
  have kk: "int (nat k) = k" using ws(5) by simp
  have "\<exists>r i' c1 e'. nand_erase g (ls1x_ops B g polls) ?i (chip (world s)) = Some (r, i', c1) \<and> fl c1 = FL_READY \<and> b \<le> e' \<and> e' \<le> b + int (nat k) \<and>
      blk.wiped_chip b e' (chip (world s)) c1 \<and> (\<forall>x. b \<le> x \<and> x < e' \<longrightarrow> \<not> blk.bad x) \<and> (e' < b + int (nat k) \<longrightarrow> blk.bad e') \<and> (r = 0 \<longleftrightarrow> e' = b + int (nat k)) \<and>
      (r = 0 \<or> r = - EIO) \<and> erase_addr i' = erase_addr ?i \<and> erase_len i' = erase_len ?i"
    using ws kk assms(2,6,7) by (intro blk.nand_erase_blocks[OF kp(2-4)]) simp_all
  then obtain i' c1 where er: "nand_erase g (ls1x_ops B g polls) ?i (chip (world s)) = Some (0, i', c1)" "fl c1 = FL_READY" "blk.wiped_chip b (b + k) (chip (world s)) c1"
    unfolding kk using assms(8) by (smt (verit))
  let ?D = "wiped (wsize g) (b * ppb) ((b + k) * ppb) D"
  have r1: "page.reads_as ?D blk.good_pages c1" by (rule blk.wiped_reads[OF kp(1) er(3)])
  have "int m * int (wsize g) \<le> k * ppb * int (wsize g)" using ws(6) assms(3) blk.block_bytes by (simp add: mult.assoc)
  then have mk: "int m \<le> k * ppb" using page.wsize_pos by simp
  have R: "{b * ppb..<b * ppb + int m} \<subseteq> {b * ppb..<(b + k) * ppb}" using mk by (auto simp: distrib_right)
  have wp: "take (wsize g) (row (dev (hw c1)) q) = wiped (wsize g) (b * ppb) ((b + k) * ppb) (\<lambda>p. take (wsize g) (row (dev (hw (chip (world s)))) p)) q"
    "drop (wsize g) (row (dev (hw c1)) q) = wiped (oobsize g) (b * ppb) ((b + k) * ppb) (\<lambda>p. drop (wsize g) (row (dev (hw (chip (world s)))) p)) q" for q
    using er(3) by (simp_all add: blk.wiped_chip_def fun_eq_iff)
  have blank: "\<forall>q\<in>{b * ppb..<b * ppb + int m}. page.blank (hw c1) q" using R by (auto simp: page.blank_def wp wiped_def)
  have bn: "0 \<le> b * ppb" "b * ppb + int m \<le> rows"
    using assms(6,7) blk.ppb_pos mk mult_right_mono[of "b + k" nb ppb] by (auto simp: blk.pages_total distrib_right)
  have nm: "unat n = m * wsize g" using assms(3) by (metis nat_int of_nat_mult unat_eq_nat_uint)
  have ob: "length (oobwbuf c1) = oobsize g" using er(3) kp(5) by (simp add: blk.wiped_chip_def)
  obtain c2 where w: "nand_write g (ls1x_ops B g polls) (b * ppb * int (wsize g)) (m * wsize g) (m * wsize g) buf c1 = Some (0, m * wsize g, c2)"
    "page.reads_as (page.written (b * ppb) m buf ?D) (blk.good_pages \<union> {b * ppb..<b * ppb + int m}) c2" "fl c2 = FL_READY" "bbt c2 = bbt c1" "length (oobwbuf c2) = oobsize g"
    using page.nand_write_pages[OF r1 er(2) assms(4) bn blank _ ob, of buf] assms(11) nm by auto
  have "{b * ppb..<(b + k) * ppb} \<subseteq> blk.good_pages" using assms(6-8) by (intro blk.good_stretch)
  then have "blk.good_pages \<union> {b * ppb..<b * ppb + int m} = blk.good_pages" using R by blast
  then have keep: "keeps (page.written (b * ppb) m buf ?D) c2" using w(2-5) er(3) kp(4) by (simp add: keeps_def blk.wiped_chip_def)
  have addr: "b * ppb * int (wsize g) = uint ?st" using ws(1) blk.block_bytes by simp
  have nz: "uint (?st + round_up n (word_of_int (esize g))) = (b + k) * esize g"
  proof -
    have "uint ?st + uint (round_up n (word_of_int (esize g))) = (b + k) * esize g" unfolding ws(1,4) by (simp add: distrib_right)
    then show ?thesis using uint_plus_small[of ?st "round_up n (word_of_int (esize g))"] ws(7) assms(2) by simp
  qed
  have "?st < ?st + round_up n (word_of_int (esize g))" unfolding word_less_def nz ws(1) using ws(5) blk.es_pos by (simp add: distrib_right)
  moreover have "round_up ?st (word_of_int (esize g)) = ?st" using ws(1,3) by (simp add: word_uint_eq_iff)
  ultimately have cond: "?st \<le> erase_addr ?i \<and> erase_addr ?i < ?st + erase_len ?i" by simp
  have sk: "erase_skip g (ls1x_ops B g polls) (word_of_int (esize g)) ?i ?st (posn e) (chip (world s)) = Some (?st, posn e, c1)"
    by (subst erase_skip.simps) (simp add: er(1))
  have "write_nand g (ls1x_ops B g polls) fd buf n (e, priv, p) s = Some (moved fd (posn e + uint n) c2 s)"
    using f(3-5) ws(2) cond sk assms(11) w(1)[unfolded addr] nm moved_set[OF f(1), of "\<lambda>_. posn e + uint n" c2] assms(3)
    by (simp add: write_nand_def Let_def)
  then show ?thesis using f(1,2,6) within_small[OF f(7) assms(10)] keep by (auto simp: mtdfile_write_def Let_def)
qed

text \<open>Past the end of the device every erasure is refused, until the address wraps and the table is read outside its bounds.\<close>

lemma erase_refused:
  assumes "uint (erase_addr i) = q * esize g" "uint (erase_len i) = esize g" "nb \<le> q" "(q + 1) * esize g < 2 ^ 32"
  shows "nand_erase g ops i c = Some (- EINVAL, i, c)"
proof -
  have "uint (erase_len i + erase_addr i) = (q + 1) * esize g" using assms(1,2,4) uint_plus_small[of "erase_len i" "erase_addr i"] by (simp add: distrib_right)
  moreover have "nb * esize g \<le> q * esize g" using assms(3) blk.es_pos by (intro mult_right_mono) auto
  then have "msize g < (q + 1) * esize g" using blk.es_pos unfolding blocks(3) distrib_right by linarith
  ultimately show ?thesis by (simp add: nand_erase_def nand_erase_nand_def)
qed

lemma erase_outside:
  assumes "uint (erase_addr i) = q * esize g" "uint (erase_len i) = esize g" "(q + 1) * esize g = 2 ^ 32" "ready (hw c)" "fl c = FL_READY" "bbt c = Some T"
    "nand_isbad_bbt g T (2 ^ 32 - esize g) False = None" "0 \<le> msize g"
  shows "nand_erase g (ls1x_ops B g polls) i c = None"
proof -
  have "uint (erase_len i) + uint (erase_addr i) = 2 ^ 32" using assms(1-3) by (simp add: distrib_right)
  then have "uint (erase_len i + erase_addr i) = 0" by (simp add: uint_word_ariths)
  then have sum: "erase_len i + erase_addr i = 0" by (simp add: uint_0_iff)
  have al: "uint (erase_addr i) AND (2 ^ phys_erase_shift g - 1) = 0" "uint (erase_len i) AND (2 ^ phys_erase_shift g - 1) = 0"
    unfolding blk.low_bits assms(1,2) by (simp_all add: blocks(1))
  have off: "q * esize g = 2 ^ 32 - esize g" using assms(3) by (simp add: distrib_right)
  have pg: "push_bit (page_shift g) (drop_bit (page_shift g) (uint (erase_addr i))) = 2 ^ 32 - esize g"
  proof -
    have "push_bit (page_shift g) (drop_bit (page_shift g) (q * esize g)) = q * esize g"
      using page.wsize_pos unfolding push_bit_eq_mult drop_bit_eq_div blk.block_bytes by (simp add: page(1))
    then show ?thesis unfolding assms(1) off .
  qed
  let ?h = "select_chip (ls1x_ops B g polls) (drop_bit (chip_shift g) (uint (erase_addr i))) (hw c)"
  have h: "ready ?h" using page.select_law[OF assms(4)] by blast
  obtain x h1 where x: "read_byte (ls1x_ops B g polls) (cmdfunc (ls1x_ops B g polls) NAND_CMD_STATUS (- 1) (- 1) ?h) = (x, h1)" by (metis surj_pair)
  have "erase_len i \<noteq> 0" using assms(2) blk.es_pos by auto
  then have "sint (erase_len i) \<noteq> 0" by (simp add: signed_eq_0_iff)
  then have lp: "erase_loop g (ls1x_ops B g polls) False (drop_bit (page_shift g) (uint (erase_addr i))) cn (sint (erase_len i)) j (c\<lparr>fl := FL_ERASING, hw := h1\<rparr>) = None" for cn j
    using assms(6,7) pg by (subst erase_loop.simps) (simp add: checkbad_held_def)
  show ?thesis using sum al assms(5,8) x page.status_law[OF h x] lp
    by (simp add: nand_erase_def nand_erase_nand_def nand_get_device_def nand_check_wp_def Let_def)
qed

lemma skip_runs_off:
  assumes "ready (hw c)" "fl c = FL_READY" "bbt c = Some T" "nand_isbad_bbt g T (2 ^ 32 - esize g) False = None" "0 \<le> msize g" "phys_erase_shift g < 32"
  shows "uint (erase_addr i) = q * esize g \<Longrightarrow> uint (erase_len i) = esize g \<Longrightarrow> nb \<le> q \<Longrightarrow> (q + 1) * esize g \<le> 2 ^ 32 \<Longrightarrow>
    erase_skip g (ls1x_ops B g polls) (2 ^ phys_erase_shift g) i st pos c = None"
proof (induction "nat (2 ^ 32 - q * esize g)" arbitrary: q i st pos rule: less_induct)
  case less
  show ?case
  proof (cases "(q + 1) * esize g = 2 ^ 32")
    case True
    then show ?thesis using erase_outside[OF less.prems(1,2) True assms(1-5)] by (subst erase_skip.simps) simp
  next
    case False
    then have lt: "(q + 1) * esize g < 2 ^ 32" using less.prems(4) by simp
    let ?i = "i\<lparr>erase_addr := erase_addr i + 2 ^ phys_erase_shift g\<rparr>"
    have u: "uint (2 ^ phys_erase_shift g :: u32) = esize g" using uint_exp[OF assms(6)] blocks(1) by simp
    then have a: "uint (erase_addr ?i) = (q + 1) * esize g"
      using uint_plus_small[of "erase_addr i" "2 ^ phys_erase_shift g"] less.prems(1) lt by (simp add: distrib_right)
    have "(q + 2) * esize g \<le> 2 ^ 32"
    proof -
      obtain d where d: "(2 :: int) ^ 32 = d * esize g" using assms(6) blocks(1) by (metis le_imp_power_dvd dvd_def less_imp_le mult.commute)
      have "(q + 1) * esize g < d * esize g" using lt unfolding d .
      then have "q + 1 < d" using blk.es_pos by (simp add: mult_less_cancel_right_pos)
      then show ?thesis unfolding d using blk.es_pos by (intro mult_right_mono) auto
    qed
    then have "erase_skip g (ls1x_ops B g polls) (2 ^ phys_erase_shift g) ?i (st + 2 ^ phys_erase_shift g) (pos + uint (2 ^ phys_erase_shift g :: u32)) c = None"
      using lt less.prems a blk.es_pos by (intro less.hyps[OF _ a]) (simp_all add: distrib_right)
    then show ?thesis using erase_refused[OF less.prems(1-3) lt, of "ls1x_ops B g polls" c] by (subst erase_skip.simps) (simp add: EINVAL_def)
  qed
qed

lemma write_runs_off:
  assumes "file_on_block fd s e priv p (nb - 1)" "msize g < 2 ^ 31" "uint n = int m * int (wsize g)" "0 < m" "uint n \<le> esize g" "0 < nb"
    and "blk.bad (nb - 1)" "keeps D (chip (world s))" "posn e + uint n \<le> uint (open_size priv)" "nand_isbad_bbt g T (2 ^ 32 - esize g) False = None"
  shows "mtdfile_write g (ls1x_ops B g polls) N fd buf n s = None"
proof -
  have es: "0 < esize g" by (rule blk.es_pos)
  have n0: "0 < uint n" unfolding assms(3) using assms(4) page.wsize_pos by simp
  have "(uint n + esize g - 1) div esize g = ((uint n - 1) + 1 * esize g) div esize g" by (simp add: algebra_simps)
  also have "\<dots> = 1 + (uint n - 1) div esize g" using es by (intro div_mult_self1) simp
  also have "(uint n - 1) div esize g = 0" using assms(5) n0 by (intro div_pos_pos_trivial) simp_all
  finally have k: "1 = (uint n + esize g - 1) div esize g" by simp
  note ws = write_setup[OF assms(1-4) k]
  have b: "0 \<le> nb - 1" "nb - 1 + 1 \<le> nb" using assms(6) by simp_all
  note w = device_words[OF assms(2,6)]
  let ?st = "word_of_int (posn e) + open_offset priv + part_offset p :: u32"
  let ?i = "\<lparr>erase_addr = round_up ?st (word_of_int (esize g)), fail_addr = 0, erase_len = round_up n (word_of_int (esize g)), erase_st = MTD_ERASE_PENDING\<rparr>"
  have f: "file_priv fd s = Some (e, priv, p)" "is_nand (devs (mtdl (world s)) (mtd p))" "erasesize (devs (mtdl (world s)) (mtd p)) = word_of_int (esize g)"
    "writesize (devs (mtdl (world s)) (mtd p)) = of_nat (wsize g)" "yaf_w (world s)" "\<not> yaf_use (world s)" "0 \<le> posn e"
    using assms(1) by (simp_all add: file_on_block_def)
  have kp: "ready (hw (chip (world s)))" "fl (chip (world s)) = FL_READY" "bbt (chip (world s)) = Some T" using assms(8) by (simp_all add: keeps_def page.reads_as_def)
  have "\<exists>r i' c1 e'. nand_erase g (ls1x_ops B g polls) ?i (chip (world s)) = Some (r, i', c1) \<and> fl c1 = FL_READY \<and> nb - 1 \<le> e' \<and> e' \<le> nb - 1 + int 1 \<and>
      blk.wiped_chip (nb - 1) e' (chip (world s)) c1 \<and> (\<forall>x. nb - 1 \<le> x \<and> x < e' \<longrightarrow> \<not> blk.bad x) \<and> (e' < nb - 1 + int 1 \<longrightarrow> blk.bad e') \<and> (r = 0 \<longleftrightarrow> e' = nb - 1 + int 1) \<and>
      (r = 0 \<or> r = - EIO) \<and> erase_addr i' = erase_addr ?i \<and> erase_len i' = erase_len ?i"
    using ws b assms(2) by (intro blk.nand_erase_blocks[OF kp]) simp_all
  then obtain r i' c1 where er: "nand_erase g (ls1x_ops B g polls) ?i (chip (world s)) = Some (r, i', c1)" "r \<noteq> 0" "fl c1 = FL_READY" "ready (hw c1)" "bbt c1 = Some T"
    "uint (erase_addr i') = (nb - 1) * esize g" "uint (erase_len i') = esize g"
    using assms(7) kp(3) ws(3,4)[OF b] by (smt (verit, best) blk.wiped_chip_def erase_info.select_convs(1) erase_info.select_convs(3) mult_1 of_nat_1)
  have lim: "(nb + 1) * esize g \<le> 2 ^ 32"
  proof -
    have "1 * esize g \<le> nb * esize g" using assms(6) es by (intro mult_right_mono) auto
    moreover have "nb * esize g < 2 ^ 31" using assms(2) unfolding blocks(3) .
    moreover have "(2 :: int) ^ 31 + 2 ^ 31 = 2 ^ 32" by simp
    ultimately show ?thesis unfolding distrib_right by linarith
  qed
  have u: "uint (2 ^ phys_erase_shift g :: u32) = esize g" using uint_exp[of "phys_erase_shift g"] w(1) blocks(1) by simp
  have a: "uint (erase_addr (i'\<lparr>erase_addr := erase_addr i' + 2 ^ phys_erase_shift g\<rparr>)) = nb * esize g"
    using uint_plus_small[of "erase_addr i'" "2 ^ phys_erase_shift g"] er(6) u assms(2) by (simp add: blocks(3) left_diff_distrib)
  have "0 \<le> msize g" using assms(6) es by (simp add: blocks(3))
  then have "erase_skip g (ls1x_ops B g polls) (2 ^ phys_erase_shift g) (i'\<lparr>erase_addr := erase_addr i' + 2 ^ phys_erase_shift g\<rparr>) (?st + 2 ^ phys_erase_shift g)
      (posn e + uint (2 ^ phys_erase_shift g :: u32)) c1 = None"
    using skip_runs_off[OF er(4,3,5) assms(10) _ _ a] er(7) lim w(1) by simp
  then have sk: "erase_skip g (ls1x_ops B g polls) (word_of_int (esize g)) ?i ?st (posn e) (chip (world s)) = None"
    unfolding w(3) by (subst erase_skip.simps) (use er(1,2) w(3) in simp)
  have nz: "uint (?st + round_up n (word_of_int (esize g))) = nb * esize g"
  proof -
    have "uint ?st + uint (round_up n (word_of_int (esize g))) = nb * esize g" unfolding ws(1)[OF b] ws(4)[OF b] by (simp add: left_diff_distrib)
    then show ?thesis using uint_plus_small[of ?st "round_up n (word_of_int (esize g))"] assms(2) blocks(3) by simp
  qed
  have "?st < ?st + round_up n (word_of_int (esize g))" unfolding word_less_def nz ws(1)[OF b] using es by (simp add: left_diff_distrib)
  moreover have "round_up ?st (word_of_int (esize g)) = ?st" using ws(1,3)[OF b] by (simp add: word_uint_eq_iff)
  ultimately have cond: "?st \<le> erase_addr ?i \<and> erase_addr ?i < ?st + erase_len ?i" by simp
  have "write_nand g (ls1x_ops B g polls) fd buf n (e, priv, p) s = None"
    using f(3-5) ws(2)[OF b] cond sk by (simp add: write_nand_def Let_def)
  then show ?thesis using f(1,2,6) within_small[OF f(7) assms(9)] by (simp add: mtdfile_write_def Let_def)
qed

text \<open>A pass over the blocks of a partition erases the good ones.\<close>

lemma bad_wiped:
  assumes "keeps D c" "blk.bad b"
  shows "keeps (wiped (wsize g) (b * ppb) ((b + 1) * ppb) D) c"
proof -
  have "wiped (wsize g) (b * ppb) ((b + 1) * ppb) D p = D p" if "p \<in> blk.good_pages" for p
  proof -
    have "p div ppb = b" if "b * ppb \<le> p" "p < (b + 1) * ppb"
      using div_below[OF blk.ppb_pos that(2)] zdiv_mono1[OF that(1) blk.ppb_pos] blk.ppb_pos by simp
    moreover have "\<not> blk.bad (p div ppb)" using that by (simp add: blk.good_pages_def blk.page_in_block)
    ultimately show ?thesis using assms(2) by (auto simp: wiped_def)
  qed
  then show ?thesis using assms(1) by (auto simp: keeps_def page.reads_as_def)
qed

lemma erase_block:
  assumes "keeps D c" "0 \<le> b" "b < nb" "uint (erase_addr i) = b * esize g" "uint (erase_len i) = esize g" "msize g < 2 ^ 31"
  shows "\<exists>r i' c'. nand_erase g (ls1x_ops B g polls) i c = Some (r, i', c') \<and> keeps (wiped (wsize g) (b * ppb) ((b + 1) * ppb) D) c' \<and>
    erase_addr i' = erase_addr i \<and> erase_len i' = erase_len i"
proof -
  have k: "page.reads_as D blk.good_pages c" "ready (hw c)" "fl c = FL_READY" "bbt c = Some T" "length (oobwbuf c) = oobsize g"
    using assms(1) by (simp_all add: keeps_def page.reads_as_def)
  obtain r i' c' e where er: "nand_erase g (ls1x_ops B g polls) i c = Some (r, i', c')" "fl c' = FL_READY" "b \<le> e" "e \<le> b + 1" "blk.wiped_chip b e c c'"
    "e < b + 1 \<longrightarrow> blk.bad e" "erase_addr i' = erase_addr i" "erase_len i' = erase_len i"
    using blk.nand_erase_blocks[OF k(2-4) assms(2) _ assms(4), of 1] assms(3,5,6) unfolding of_nat_1 mult_1 by fastforce
  have "keeps (wiped (wsize g) (b * ppb) (e * ppb) D) c'"
    using blk.wiped_reads[OF k(1) er(5)] er(2,5) k(4,5) by (simp add: keeps_def blk.wiped_chip_def)
  moreover have "e = b \<or> e = b + 1" using er(3,4) by linarith
  ultimately have "keeps (wiped (wsize g) (b * ppb) ((b + 1) * ppb) D) c'" using bad_wiped er(6) by (auto simp: wiped_empty)
  then show ?thesis using er(1,7,8) by blast
qed

lemma erase_blocks_clear:
  assumes "msize g < 2 ^ 31"
  shows "keeps D (chip (world s)) \<Longrightarrow> is_nand (devs (mtdl (world s)) d) \<Longrightarrow> uint (erase_addr i) = b * esize g \<Longrightarrow> uint (erase_len i) = esize g \<Longrightarrow>
    0 \<le> b \<Longrightarrow> b + int k \<le> nb \<Longrightarrow>
    \<exists>c. erase_blocks g (ls1x_ops B g polls) N d (word_of_int (esize g)) k i s = Some (set_world (\<lambda>w. w\<lparr>chip := c\<rparr>) s) \<and>
      keeps (wiped (wsize g) (b * ppb) ((b + int k) * ppb) D) c"
proof (induction k arbitrary: b D i s)
  case 0
  have "set_world (\<lambda>w. w\<lparr>chip := chip (world s)\<rparr>) s = s" by (simp add: set_world_def)
  then show ?case using 0 by (intro exI[of _ "chip (world s)"]) (simp add: wiped_empty)
next
  case (Suc k)
  have b: "b < nb" "0 \<le> b + 1" "b + 1 + int k \<le> nb" using Suc.prems(5,6) by simp_all
  obtain r i' c' where e: "nand_erase g (ls1x_ops B g polls) i (chip (world s)) = Some (r, i', c')" "keeps (wiped (wsize g) (b * ppb) ((b + 1) * ppb) D) c'"
    "erase_addr i' = erase_addr i" "erase_len i' = erase_len i"
    using erase_block[OF Suc.prems(1,5) b(1) Suc.prems(3,4) assms] by blast
  let ?i = "i'\<lparr>erase_addr := erase_addr i' + word_of_int (esize g)\<rparr>" and ?s = "set_world (\<lambda>w. w\<lparr>chip := c'\<rparr>) s"
  have "nb * esize g < 2 ^ 31" using assms unfolding blocks(3) .
  moreover have "(b + 1) * esize g \<le> nb * esize g" using b(1) blk.es_pos by (intro mult_right_mono) auto
  moreover have "0 \<le> b * esize g" using Suc.prems(5) blk.es_pos by simp
  ultimately have sum: "b * esize g + esize g < 2 ^ 31" "esize g < 2 ^ 31" by (simp_all add: distrib_right)
  have "uint (word_of_int (esize g) :: u32) = esize g" using sum(2) blk.es_pos by (intro word_of_int_inverse[OF refl]) simp_all
  then have a: "uint (erase_addr ?i) = (b + 1) * esize g" "uint (erase_len ?i) = esize g"
    using uint_plus_small[of "erase_addr i'" "word_of_int (esize g)"] e(3,4) Suc.prems(3,4) sum by (simp_all add: distrib_right)
  have "keeps (wiped (wsize g) (b * ppb) ((b + 1) * ppb) D) (chip (world ?s))" "is_nand (devs (mtdl (world ?s)) d)" using e(2) Suc.prems(2) by simp_all
  from Suc.IH[OF this a b(2,3)] obtain c where
    c: "erase_blocks g (ls1x_ops B g polls) N d (word_of_int (esize g)) k ?i ?s = Some (set_world (\<lambda>w. w\<lparr>chip := c\<rparr>) ?s)"
      "keeps (wiped (wsize g) ((b + 1) * ppb) ((b + 1 + int k) * ppb) (wiped (wsize g) (b * ppb) ((b + 1) * ppb) D)) c" by blast
  have "b * ppb \<le> (b + 1) * ppb" "(b + 1) * ppb \<le> (b + 1 + int k) * ppb" using blk.ppb_pos by (simp_all add: mult_right_mono)
  then have "keeps (wiped (wsize g) (b * ppb) ((b + int (Suc k)) * ppb) D) c" using c(2) by (simp add: wiped_join algebra_simps)
  then show ?case using c(1) e(1) Suc.prems(2) by (auto simp: set_world_def)
qed

end

end
