(* ===== verification/File_Claims.thy ===== *)
theory File_Claims
  imports Mtdfile_Inv Nand_Claims
begin

unbundle bit_operations_syntax

text \<open>
  Properties of the file layer and of the flash partitions behind it, for every NAND controller and chip
  that follow the contracts of \<open>Nand_Erase\<close>.
\<close>

section \<open>A board\<close>

text \<open>
  The simulated chip with a table of bad blocks, one partition on it, and a file of the partition open at its start.
\<close>

definition no_nor :: "'s nor_ops" where
  "no_nor = \<lparr>nor_read = (\<lambda>_ _ _ s. ([], s)), nor_erase = (\<lambda>_ _ _ s. s), nor_write = (\<lambda>_ _ _ s. (0, s))\<rparr>"

definition board_fs :: "nat \<Rightarrow> sim ls1x_nand_info mtd_sys FileSystem" where
  "board_fs f = mtdfs ls1c_geometry (ls1x_ops sim_hw ls1c_geometry 5) no_nor (replicate 64 0)"

definition board_part :: "u32 \<Rightarrow> u32 \<Rightarrow> mtdfile" where
  "board_part off sz = \<lparr>mtd = 0, refs = 1, index = 0, part_size = sz, part_offset = off, le_next = None, le_prev = Some 0, name = map chr ''data''\<rparr>"

definition board_entry :: "nat File" where
  "board_entry = \<lparr>valid = True, posn = 0, fs = Some 0, data = Some 0\<rparr>"

definition board_priv :: "u32 \<Rightarrow> mtdpriv" where
  "board_priv sz = \<lparr>pfile = 0, open_offset = 0, open_size = sz\<rparr>"

definition board_sys :: "u8 list \<Rightarrow> u32 \<Rightarrow> u32 \<Rightarrow> sim ls1x_nand_info mtd_sys" where
  "board_sys T off sz = \<lparr>file_tab = board_entry # replicate 9 empty_file, errno = 0, FileSystems = [0], mem_granted = (\<lambda>_. True), mem_requests = 1,
    world = \<lparr>mtdl = \<lparr>nodes = [0 \<mapsto> board_part off sz], lh_first = Some 0, mtdidx = 1, goodpart0 = None, mtd_offset = 0, this_part = 0,
        devs = (\<lambda>_. \<lparr>is_nand = True, dev_size = 134217728, erasesize = 131072, writesize = 2048\<rparr>), granted = (\<lambda>_. True), requests = 1\<rparr>,
      chip = erased_chip\<lparr>bbt := Some T\<rparr>, privs = [0 \<mapsto> board_priv sz], yaf_use = False, yaf_w = True\<rparr>\<rparr>"

lemma board_files: "file_systems board_fs"
  unfolding board_fs_def by (rule mtd_files.file_systems_axioms)

lemma board_fs0: "map_option board_fs (Some 0) = Some (mtdfs ls1c_geometry (ls1x_ops sim_hw ls1c_geometry 5) no_nor (replicate 64 0))"
  by (simp add: board_fs_def)

lemma board_linked: "linked (mtdl (world (board_sys T off sz))) [0]"
  by (simp add: linked_def board_sys_def board_part_def next_of_def prev_of_def)

lemma board_table:
  "length (file_tab (board_sys T off sz)) = 10" "free_slot (file_tab (board_sys T off sz)) = 1" "FileSystems (board_sys T off sz) = [0]"
  "nodes (mtdl (world (board_sys T off sz))) 0 = Some (board_part off sz)" "mem_granted (board_sys T off sz) i" "OPEN_MAX = 10"
  by (simp_all add: board_sys_def free_slot_def board_entry_def empty_file_def OPEN_MAX_def)

section \<open>Descriptors\<close>

text \<open>
  C25. Opening a file takes the lowest descriptor that is not in use and changes no other entry of the
  table. When all ten are in use it is refused with \<^verbatim>\<open>EMFILE\<close>; when no file system opens the file, the descriptor
  is free again; otherwise the entry is valid, stands at position 0 and belongs to a registered file system.
\<close>

theorem open_lowest_free:
  assumes "file_systems F" "length (file_tab s) = OPEN_MAX" "open_call F filename mode s = Some (r, s')" "lu = free_slot (file_tab s)"
  shows "(\<forall>fd. fd \<noteq> int lu \<longrightarrow> file_at fd s' = file_at fd s) \<and> (\<forall>i<lu. valid (file_tab s ! i)) \<and>
    (if lu = OPEN_MAX then r = - 1 \<and> file_tab s' = file_tab s \<and> errno s' = EMFILE
     else \<not> valid (file_tab s ! lu) \<and> (\<exists>e. file_at (int lu) s' = Some e \<and>
       (r = - 1 \<and> \<not> valid e \<or> r = int lu \<and> valid e \<and> posn e = 0 \<and> (\<exists>f\<in>set (FileSystems s). fs e = Some f))))"
proof (cases "lu = OPEN_MAX")
  case True
  then have "\<forall>e\<in>set (file_tab s). valid e" using free_slot_full assms(2,4) by metis
  then show ?thesis using file_systems.open_table[OF assms(1-3)] True assms(2,4) by auto
next
  case False
  then have lt: "lu < length (file_tab s)" using free_slot_below[of "file_tab s"] assms(2,4) by simp
  then have "\<not> (\<forall>e\<in>set (file_tab s). valid e)" using free_slot_full[of "file_tab s"] assms(4) by auto
  then show ?thesis using file_systems.open_table[OF assms(1-3)] free_slot_first[of "file_tab s"] lt False unfolding assms(4) by auto
qed

text \<open>The first entry is in use, so the second one is taken.\<close>

theorem open_lowest_free_witness:
  "\<exists>s'. open_call board_fs (part_name 0) 0 (board_sys sample_bbt 0 0x200000) = Some (1, s') \<and>
    (\<forall>fd. fd \<noteq> 1 \<longrightarrow> file_at fd s' = file_at fd (board_sys sample_bbt 0 0x200000))"
proof -
  have "List.find (\<lambda>p. index (the (nodes (mtdl (world (board_sys sample_bbt 0 0x200000))) p)) = of_nat 0) [0] = Some 0"
    by (simp add: board_sys_def board_part_def)
  then obtain s' where s': "open_call board_fs (part_name 0) 0 (board_sys sample_bbt 0 0x200000) = Some (1, s')"
    using open_call_part[OF board_fs0 _ _ _ _ board_linked, where k = 0 and lu = 1] by (simp add: board_table)
  show ?thesis using open_lowest_free[OF board_files _ s' refl] s' by (auto simp: board_table)
qed

section \<open>Partitions\<close>

text \<open>The good pages of the chip read as \<open>D\<close>.\<close>

definition flash_keeps :: "geometry \<Rightarrow> ('h \<Rightarrow> bool) \<Rightarrow> ('h \<Rightarrow> int \<Rightarrow> u8 list) \<Rightarrow> int \<Rightarrow> u8 list \<Rightarrow> (int \<Rightarrow> u8 list) \<Rightarrow> 'h ls1x_nand_info nand \<Rightarrow> bool" where
  "flash_keeps g on row rows T D c \<longleftrightarrow> driver_ok on g c \<and> bbt c = Some T \<and>
    (\<forall>p. 0 \<le> p \<and> p < rows \<and> \<not> bad_block g T (p * int (wsize g) div esize g) \<longrightarrow>
      row_reads g (D p) (row (dev (hw c)) p) \<and> (pagebuf c = p \<longrightarrow> take (wsize g) (databuf c) = D p))"

definition file_at_block :: "geometry \<Rightarrow> int \<Rightarrow> 's mtd_sys \<Rightarrow> nat File \<Rightarrow> mtdpriv \<Rightarrow> mtdfile \<Rightarrow> int \<Rightarrow> bool" where
  "file_at_block g fd s e priv p b \<longleftrightarrow> file_priv fd s = Some (e, priv, p) \<and> is_nand (devs (mtdl (world s)) (mtd p)) \<and>
    erasesize (devs (mtdl (world s)) (mtd p)) = word_of_int (esize g) \<and> writesize (devs (mtdl (world s)) (mtd p)) = of_nat (wsize g) \<and>
    yaf_w (world s) \<and> \<not> yaf_use (world s) \<and> 0 \<le> posn e \<and> posn e + uint (open_offset priv) + uint (part_offset p) = b * esize g"

text \<open>The pages of a device after \<open>m\<close> pages of \<open>buf\<close> were written from page \<open>q\<close> on, with the pages from \<open>q\<close> to below \<open>q'\<close> erased before.\<close>

definition rewritten :: "geometry \<Rightarrow> int \<Rightarrow> int \<Rightarrow> nat \<Rightarrow> u8 list \<Rightarrow> (int \<Rightarrow> u8 list) \<Rightarrow> int \<Rightarrow> u8 list" where
  "rewritten g q q' m buf D p =
    (if q \<le> p \<and> p < q + int m then page_of g buf (nat (p - q))
     else if q \<le> p \<and> p < q' then replicate (wsize g) 0xff else D p)"

context ls1x_eraser
begin

lemma bad_eq: "blk.bad = bad_block g T"
  by (simp add: fun_eq_iff blk.bad_def bad_block_def)

lemma keeps_iff: "keeps D c \<longleftrightarrow> flash_keeps g on row rows T D c"
  by (auto simp: keeps_def flash_keeps_def ok_ready page.reads_as_def blk.good_pages_def bad_eq row_reads_def)

lemma rewritten_eq: "page.written q m buf (wiped (wsize g) q q' D) = rewritten g q q' m buf D"
  by (auto simp: fun_eq_iff page.written_def wiped_def rewritten_def page_of_def)

lemma on_block_iff: "file_on_block fd s e priv p b \<longleftrightarrow> file_at_block g fd s e priv p b"
  by (simp add: file_on_block_def file_at_block_def)

lemma part_words:
  assumes "msize g < 2 ^ 31" "uint (off :: u32) = b * esize g" "uint (sz :: u32) = int m * esize g" "b + int m \<le> nb" "0 < m"
  shows "0 \<le> b" "(word_of_int (esize g) :: u32) \<noteq> 0" "uint (word_of_int (esize g) :: u32) = esize g"
    "uint (round_up off (word_of_int (esize g))) = b * esize g" "nat (sint (sz div word_of_int (esize g))) = m"
proof -
  have es: "0 < esize g" by (rule blk.es_pos)
  have "0 \<le> b * esize g" using uint_ge_0[of off] assms(2) by simp
  then show b: "0 \<le> b" using es by (simp add: zero_le_mult_iff)
  have nb: "0 < nb" using b assms(4,5) by linarith
  note w = device_words[OF assms(1) nb]
  have "(b + int m) * esize g \<le> msize g" unfolding blocks(3) using assms(4) es by (intro mult_right_mono) auto
  then have sum: "b * esize g + int m * esize g < 2 ^ 31" using assms(1) by (simp add: distrib_right)
  have "1 * esize g \<le> int m * esize g" using assms(5) es by (intro mult_right_mono) auto
  then have e31: "b * esize g + esize g < 2 ^ 31" "esize g < 2 ^ 31" using sum b es \<open>0 \<le> b * esize g\<close> by linarith+
  show u: "uint (word_of_int (esize g) :: u32) = esize g" using e31(2) es by (intro word_of_int_inverse[OF refl]) simp_all
  then show "(word_of_int (esize g) :: u32) \<noteq> 0" using es by auto
  show "uint (round_up off (word_of_int (esize g))) = b * esize g" unfolding w(3) assms(2)[symmetric]
    using w(1) assms(2) e31(1) blocks(1) by (intro round_up_same[of _ _ b]) simp_all
  have "uint (sz div word_of_int (esize g)) = int m" using es by (simp add: uint_div_distrib u assms(3))
  moreover have "int m < 2 ^ 31"
  proof -
    have "int m * 1 \<le> int m * esize g" using es by (intro mult_left_mono) auto
    then show ?thesis using sum \<open>0 \<le> b * esize g\<close> by linarith
  qed
  ultimately show "nat (sint (sz div word_of_int (esize g))) = m" by (simp add: sint_uint signed_take_bit_int_eq_self)
qed

lemma good_prefix:
  assumes "\<And>x. a \<le> x \<Longrightarrow> x < a + int n \<Longrightarrow> \<not> blk.bad (x div esize g)" "a + int n \<le> msize g"
  shows "take n (blk.good_from a) = [a..a + int n - 1]" "n \<le> length (blk.good_from a)"
proof -
  have "good_addrs (esize g) blk.bad a (a + int n) = [a..a + int n - 1]" using assms(1) by (auto simp: good_addrs_def filter_id_conv)
  then have g: "blk.good_from a = [a..a + int n - 1] @ blk.good_from (a + int n)" using good_addrs_split[of a "a + int n" "msize g"] assms(2) by simp
  show "take n (blk.good_from a) = [a..a + int n - 1]" "n \<le> length (blk.good_from a)" unfolding g by simp_all
qed

lemma good_after_bad:
  assumes "blk.bad b" "\<not> blk.bad (b + 1)" "0 \<le> b" "b + 2 \<le> nb" "int n = esize g"
  shows "blk.good_from (b * esize g) = blk.good_from ((b + 1) * esize g)" "take n (blk.good_from ((b + 1) * esize g)) = [(b + 1) * esize g..(b + 2) * esize g - 1]"
    "n \<le> length (blk.good_from ((b + 1) * esize g))"
proof -
  have es: "0 < esize g" by (rule blk.es_pos)
  have le: "(b + 2) * esize g \<le> msize g" unfolding blocks(3) using assms(4) es by (intro mult_right_mono) auto
  have st: "0 \<le> b * esize g" "0 \<le> (b + 1) * esize g" "b * esize g < msize g" "(b + 1) * esize g < msize g"
    using assms(3) es le by (auto simp: distrib_right)
  have be: "blk.block_end (b * esize g) = (b + 1) * esize g" "blk.block_end ((b + 1) * esize g) = (b + 2) * esize g"
    by (simp_all add: blk.block_end_def distrib_right)
  show "blk.good_from (b * esize g) = blk.good_from ((b + 1) * esize g)" using blk.good_from_step[OF st(1,3)] assms(1) es unfolding be by simp
  have "blk.good_from ((b + 1) * esize g) = [(b + 1) * esize g..(b + 2) * esize g - 1] @ blk.good_from ((b + 2) * esize g)"
    using blk.good_from_step[OF st(2,4)] assms(2) es unfolding be by simp
  moreover have "length [(b + 1) * esize g..(b + 2) * esize g - 1] = n" using assms(5) by (simp add: distrib_right)
  ultimately show "take n (blk.good_from ((b + 1) * esize g)) = [(b + 1) * esize g..(b + 2) * esize g - 1]" "n \<le> length (blk.good_from ((b + 1) * esize g))"
    by simp_all
qed

lemma write_then_read_file:
  assumes "file_at_block g fd s e priv p b" "flash_keeps g on row rows T D (chip (world s))" "msize g < 2 ^ 31" "uint n = int m * int (wsize g)" "0 < m"
    and "k = (uint n + esize g - 1) div esize g" "0 \<le> b" "b + k \<le> nb" "\<And>x. b \<le> x \<Longrightarrow> x < b + k \<Longrightarrow> \<not> bad_block g T x"
    and "posn e + uint n \<le> uint (open_size priv)" "length dat = unat n" "unat n \<le> length buf"
  shows "\<exists>c c'. mtdfile_write g (ls1x_ops B g polls) N fd dat n s = Some (sint n, moved fd (posn e + uint n) c s) \<and>
    flash_keeps g on row rows T (rewritten g (b * ppb) ((b + k) * ppb) m dat D) c \<and>
    mtdfile_read g (ls1x_ops B g polls) N fd buf n (moved fd (posn e) c s) = Some (sint n, put_at 0 dat buf, moved fd (posn e + uint n) c' (moved fd (posn e) c s))"
proof -
  let ?D = "page.written (b * ppb) m dat (wiped (wsize g) (b * ppb) ((b + k) * ppb) D)"
  note ob = assms(1)[folded on_block_iff]
  have bad: "\<not> blk.bad x" if "b \<le> x" "x < b + k" for x using assms(9) that by (simp add: bad_eq)
  obtain c where c: "mtdfile_write g (ls1x_ops B g polls) N fd dat n s = Some (sint n, moved fd (posn e + uint n) c s)" "keeps ?D c"
    using file_writes[OF ob assms(3-8) bad _ assms(10), of D dat] assms(2,11) by (auto simp: keeps_iff)
  note ws = write_setup[OF ob assms(3-8)]
  have f: "file_priv fd s = Some (e, priv, p)" "is_nand (devs (mtdl (world s)) (mtd p))" "0 \<le> posn e" "posn e + uint (open_offset priv) + uint (part_offset p) = b * esize g"
    using assms(1) by (simp_all add: file_at_block_def)
  have es: "0 < esize g" by (rule blk.es_pos)
  have un: "int (unat n) = uint n" by simp
  have fits: "b * esize g + int (unat n) \<le> msize g" using ws(6,7) unfolding un by (simp add: distrib_right)
  have inb: "\<not> blk.bad (x div esize g)" if "b * esize g \<le> x" "x < b * esize g + int (unat n)" for x
  proof -
    have "x < (b + k) * esize g" using that(2) ws(6) unfolding un by (simp add: distrib_right)
    then have "x div esize g < b + k" by (rule div_below[OF es])
    moreover have "b * esize g div esize g \<le> x div esize g" using that(1) es by (intro zdiv_mono1)
    ultimately show ?thesis using bad es by simp
  qed
  have gp: "take (unat n) (blk.good_from (b * esize g)) = [b * esize g..b * esize g + int (unat n) - 1]" "unat n \<le> length (blk.good_from (b * esize g))"
    using good_prefix[OF inb fits] by blast+
  have a: "b * esize g = b * ppb * int (wsize g) + int 0" using blk.block_bytes by simp
  have "map (byte_of (wsize g) ?D) (take (unat n) (blk.good_from (b * esize g))) = bytes_of (wsize g) ?D (b * ppb * int (wsize g) + int 0) (unat n)"
    by (simp only: gp(1) bytes_of_upto a[symmetric])
  also have "\<dots> = take (unat n) (drop 0 dat)"
  proof (rule page.bytes_of_written)
    have "int (unat n) = int (m * wsize g)" using assms(4) by simp
    then have "unat n = m * wsize g" unfolding of_nat_eq_iff .
    then show "0 + unat n \<le> m * wsize g" "m * wsize g \<le> length dat" using assms(11) by simp_all
  qed
  finally have got: "map (byte_of (wsize g) ?D) (take (unat n) (blk.good_from (b * esize g))) = dat" using assms(11) by simp
  have n0: "0 < n" using assms(4,5) page.wsize_pos by (simp add: word_less_def)
  obtain c' where "mtdfile_read g (ls1x_ops B g polls) N fd buf n (moved fd (posn e) c s) =
      Some (sint n, put_at 0 (map (byte_of (wsize g) ?D) (take (unat n) (blk.good_from (b * esize g)))) buf, moved fd (posn e + uint n) c' (moved fd (posn e) c s))"
    using file_reads[OF moved_priv[OF f(1), of "posn e" c], of ?D n buf "b * esize g"] f(2-4) c(2) assms(10,12) n0 gp(2) by auto
  then show ?thesis using c unfolding got by (auto simp: rewritten_eq keeps_iff)
qed

lemma reads_again:
  assumes "file_priv fd s = Some (e, priv, p)" "is_nand (devs (mtdl (world s)) (mtd p))" "flash_keeps g on row rows T D (chip (world s))"
    and "0 \<le> posn e" "posn e + 2 * esize g \<le> uint (open_size priv)" "uint n = esize g" "unat n \<le> length buf"
    and "posn e + uint (open_offset priv) + uint (part_offset p) = b * esize g" "bad_block g T b" "\<not> bad_block g T (b + 1)" "0 \<le> b" "b + 2 \<le> nb"
  defines "bs \<equiv> map (byte_of (wsize g) D) [(b + 1) * esize g..(b + 2) * esize g - 1]"
  shows "\<exists>c c'. mtdfile_read g (ls1x_ops B g polls) N fd buf n s = Some (sint n, put_at 0 bs buf, moved fd (posn e + uint n) c s) \<and>
    mtdfile_read g (ls1x_ops B g polls) N fd buf n (moved fd (posn e + uint n) c s) =
      Some (sint n, put_at 0 bs buf, moved fd (posn e + 2 * uint n) c' (moved fd (posn e + uint n) c s))"
proof -
  have es: "0 < esize g" by (rule blk.es_pos)
  have n0: "0 < n" using assms(6) es by (simp add: word_less_def)
  have "int (unat n) = esize g" using assms(6) by simp
  note ga = good_after_bad[of b "unat n", OF _ _ assms(11,12) this]
  have gd: "blk.good_from (b * esize g) = blk.good_from ((b + 1) * esize g)" "take (unat n) (blk.good_from ((b + 1) * esize g)) = [(b + 1) * esize g..(b + 2) * esize g - 1]"
    "unat n \<le> length (blk.good_from ((b + 1) * esize g))" using ga assms(9,10) by (simp_all add: bad_eq)
  obtain c where c: "mtdfile_read g (ls1x_ops B g polls) N fd buf n s = Some (sint n, put_at 0 bs buf, moved fd (posn e + uint n) c s)" "keeps D c"
    using file_reads[OF assms(1,2) _ assms(4) _ n0 assms(7) assms(8)[symmetric], of D] assms(3,5,6) es gd by (auto simp: keeps_iff bs_def)
  have a2: "(b + 1) * esize g = posn e + uint n + uint (open_offset priv) + uint (part_offset p)" using assms(6,8) by (simp add: distrib_right)
  obtain c' where "mtdfile_read g (ls1x_ops B g polls) N fd buf n (moved fd (posn e + uint n) c s) =
      Some (sint n, put_at 0 bs buf, moved fd (posn e + uint n + uint n) c' (moved fd (posn e + uint n) c s))"
    using file_reads[OF moved_priv[OF assms(1), of "posn e + uint n" c], of D n buf "(b + 1) * esize g"] assms(2,4-7) c(2) n0 es gd a2 by (auto simp: bs_def)
  then show ?thesis using c(1) by (auto simp: algebra_simps)
qed

end

text \<open>A valid descriptor of the partition file system: the calls reach its functions.\<close>

lemma mtd_calls:
  assumes "file_at fd s = Some e" "fd < int OPEN_MAX" "valid e" "map_option F (fs e) = Some (mtdfs g ops N junk)"
  shows "read_call F fd buf n s = mtdfile_read g ops N fd buf n s" "write_call F fd buf n s = mtdfile_write g ops N fd buf n s"
    "lseek_call F fd off wh s = mtdfile_lseek fd off wh s"
    "close_call F fd s = mtdfile_close fd (s\<lparr>file_tab := (file_tab s)[nat fd := e\<lparr>valid := False\<rparr>]\<rparr>)"
  using assms by (auto simp: read_call_def write_call_def lseek_call_def close_call_def live_def mtdfs_def set_file_def)

lemma moved_at: "file_at fd s = Some e \<Longrightarrow> file_at fd (moved fd pos c s) = Some (e\<lparr>posn := pos\<rparr>)"
  by (auto simp: file_at_def moved_def split: if_splits)

lemma lseek_set: "file_priv fd s = Some (e, priv, p) \<Longrightarrow> mtdfile_lseek fd pos 0 s = Some (pos, moved fd pos (chip (world s)) s)"
  using moved_set[of fd s e priv p "\<lambda>_. pos" "chip (world s)"] by (simp add: mtdfile_lseek_def set_world_def)

lemma moved_moved: "moved fd p c (moved fd q d s) = moved fd p c s"
  by (cases "nat fd < length (file_tab s)") (simp_all add: moved_def list_update_beyond)

text \<open>Closing a file that was opened by the name of its partition.\<close>

lemma close_part:
  assumes "map_option F (Some f) = Some (mtdfs g ops N junk)" "lu = free_slot (file_tab s)" "lu < length (file_tab s)" "length (file_tab s) = OPEN_MAX"
    and "nodes (mtdl (world s)) q = Some p"
  shows "\<exists>s3. close_call F (int lu) (moved (int lu) pos c (open_part lu f q p s)) = Some (0, s3) \<and> mtdl (world s3) = mtdl (world s) \<and>
    map valid (file_tab s3) = map valid (file_tab s) \<and> chip (world s3) = c"
proof -
  let ?s2 = "moved (int lu) pos c (open_part lu f q p s)" and ?e = "\<lparr>valid = False, posn = pos, fs = Some f, data = Some (mem_requests s + 1)\<rparr>"
  have "file_at (int lu) (open_part lu f q p s) = Some \<lparr>valid = True, posn = 0, fs = Some f, data = Some (mem_requests s + 1)\<rparr>"
    using file_priv_at[OF open_part_priv[OF assms(3,5)]] by blast
  then have "close_call F (int lu) ?s2 = mtdfile_close (int lu) (?s2\<lparr>file_tab := (file_tab ?s2)[lu := ?e]\<rparr>)"
    using mtd_calls(4)[OF moved_at, where F = F] assms(1,3,4) by fastforce
  also have "\<dots> = Some (0, ?s2\<lparr>file_tab := (file_tab s)[lu := ?e],
      world := (world ?s2)\<lparr>mtdl := mtdl (world s), privs := (privs (world ?s2))(mem_requests s + 1 := None)\<rparr>\<rparr>)"
    using assms(3,5) by (simp add: mtdfile_close_def file_priv_def file_at_def moved_def open_part_def upd_def set_world_def fun_upd_idem)
  finally have "close_call F (int lu) ?s2 = \<dots>" .
  moreover have "map valid ((file_tab s)[lu := ?e]) = map valid (file_tab s)"
    using free_slot_first[of "file_tab s"] assms(2,3) by (simp add: map_update list_update_same_conv)
  ultimately show ?thesis by simp
qed

text \<open>The sample board: an erased flash, with the file at the start of a block.\<close>

lemma board_keeps: "flash_keeps ls1c_geometry sim_on s_row 65536 T (\<lambda>_. replicate 2048 0xff) (chip (world (board_sys T off sz)))"
  using board.erased_page by (simp add: flash_keeps_def board_sys_def driver_ok_def erased_chip_def sim_on_def row_reads_def)

lemma board_block:
  assumes "uint off = b * 131072"
  shows "file_at_block ls1c_geometry 0 (board_sys T off sz) board_entry (board_priv sz) (board_part off sz) b"
  using assms by (simp add: file_at_block_def board_sys_def file_priv_def file_at_def board_entry_def board_priv_def board_part_def)

lemma board_open: "valid board_entry" "fs board_entry = Some 0" "posn board_entry = 0" "open_size (board_priv sz) = sz" "open_offset (board_priv sz) = 0"
  "part_offset (board_part off sz) = off" "part_size (board_part off sz) = sz" "is_nand (devs (mtdl (world (board_sys T off sz))) d)"
  by (simp_all add: board_entry_def board_priv_def board_part_def board_sys_def)

lemma sample_bbt_length: "length sample_bbt = 256"
  by (simp add: sample_bbt_def)

lemmas sample_eraser = sim_board[OF sample_bbt_length] and board_mtdfs = board_fs_def[of 0]

text \<open>
  C26. Files on a partition keep what is written: writing whole pages at the start of a block, within the
  open size of the file and to blocks none of which is bad, erases and programs these blocks, so that the good
  pages of the flash are the old ones with the new pages in their place, the rest of the last block empty, and no
  other page changed; after moving back to the position, reading returns the bytes that were written.
\<close>

theorem mtd_write_read_back:
  assumes "ls1x_eraser B on row regs rows rsize g nb T ppb" "F f = mtdfs g (ls1x_ops B g polls) N junk"
    and "file_at_block g fd s e priv p b" "fd < int OPEN_MAX" "valid e" "fs e = Some f" "flash_keeps g on row rows T D (chip (world s))"
    and "msize g < 2 ^ 31" "uint n = int m * int (wsize g)" "0 < m" "k = (uint n + esize g - 1) div esize g" "0 \<le> b" "b + k \<le> nb"
    and "\<And>x. b \<le> x \<Longrightarrow> x < b + k \<Longrightarrow> \<not> bad_block g T x" "posn e + uint n \<le> uint (open_size priv)" "length dat = unat n" "unat n \<le> length buf"
  shows "\<exists>s1 s2 s3. write_call F fd dat n s = Some (sint n, s1) \<and>
    flash_keeps g on row rows T (rewritten g (b * ppb) ((b + k) * ppb) m dat D) (chip (world s1)) \<and>
    lseek_call F fd (posn e) 0 s1 = Some (posn e, s2) \<and> read_call F fd buf n s2 = Some (sint n, put_at 0 dat buf, s3)"
proof -
  have f: "file_priv fd s = Some (e, priv, p)" using assms(3) by (simp add: file_at_block_def)
  have F: "map_option F (fs e) = Some (mtdfs g (ls1x_ops B g polls) N junk)" using assms(2,6) by simp
  note at = file_priv_at[OF f, THEN conjunct2, THEN conjunct2, THEN conjunct2]
  obtain c c' where w: "mtdfile_write g (ls1x_ops B g polls) N fd dat n s = Some (sint n, moved fd (posn e + uint n) c s)"
    "flash_keeps g on row rows T (rewritten g (b * ppb) ((b + k) * ppb) m dat D) c"
    "mtdfile_read g (ls1x_ops B g polls) N fd buf n (moved fd (posn e) c s) = Some (sint n, put_at 0 dat buf, moved fd (posn e + uint n) c' (moved fd (posn e) c s))"
    using ls1x_eraser.write_then_read_file[OF assms(1,3,7-17), where N = N and polls = polls] by blast
  let ?s1 = "moved fd (posn e + uint n) c s" and ?s2 = "moved fd (posn e) c s"
  have "lseek_call F fd (posn e) 0 ?s1 = Some (posn e, ?s2)"
    using mtd_calls(3)[OF moved_at[OF at] assms(4), where F = F] F assms(5) lseek_set[OF moved_priv[OF f], of "posn e"] by (simp add: moved_moved)
  moreover have "read_call F fd buf n ?s2 = Some (sint n, put_at 0 dat buf, moved fd (posn e + uint n) c' ?s2)"
    using mtd_calls(1)[OF moved_at[OF at] assms(4), where F = F] F assms(5) w(3) by simp
  moreover have "write_call F fd dat n s = Some (sint n, ?s1)" using mtd_calls(2)[OF at assms(4,5) F] w(1) by simp
  moreover have "chip (world ?s1) = c" by (simp add: moved_def)
  ultimately show ?thesis using w(2) by metis
qed

theorem mtd_write_read_back_witness:
  "\<exists>s1 s2 s3. write_call board_fs 0 (replicate 4096 0x5a) 4096 (board_sys sample_bbt 0 0x200000) = Some (4096, s1) \<and>
    lseek_call board_fs 0 0 0 s1 = Some (0, s2) \<and> read_call board_fs 0 (replicate 4096 0) 4096 s2 = Some (4096, put_at 0 (replicate 4096 0x5a) (replicate 4096 0), s3)"
proof -
  have good: "\<not> bad_block ls1c_geometry sample_bbt x" if "0 \<le> x" "x < 0 + 1" for x
  proof -
    have "x = 0" using that by linarith
    then show ?thesis using sample_bad(1) by simp
  qed
  note T = mtd_write_read_back[where F = board_fs and f = 0, OF sample_eraser board_mtdfs board_block[where off = 0 and b = 0 and T = sample_bbt and sz = "0x200000"] _ _ _ board_keeps, where n = 4096 and m = 2 and k = 1
    and dat = "replicate 4096 0x5a" and buf = "replicate 4096 0"]
  show ?thesis using T good by (simp add: board_open OPEN_MAX_def) blast
qed


text \<open>
  C27. A partition is read through its name: opening \<^verbatim>\<open>/dev/mtd\<close> with the number of a partition takes the lowest free descriptor, reading
  returns the first bytes of the good blocks from the start of the partition on, and closing gives the list of partitions its reference
  count back and frees the descriptor, with the contents of the flash unchanged.
\<close>

theorem mtd_file_session:
  assumes "ls1x_eraser B on row regs rows rsize g nb T ppb" "F f = mtdfs g (ls1x_ops B g polls) N junk" "length junk = 64" "FileSystems s = f # rest"
    and "lu = free_slot (file_tab s)" "length (file_tab s) = OPEN_MAX" "lu \<noteq> OPEN_MAX" "mem_granted s (mem_requests s)" "mem_granted s (mem_requests s + 1)"
    and "linked (mtdl (world s)) xs" "k < 4294967295" "List.find (\<lambda>p. index (the (nodes (mtdl (world s)) p)) = of_nat k) xs = Some q"
    and "nodes (mtdl (world s)) q = Some p" "is_nand (devs (mtdl (world s)) (mtd p))" "flash_keeps g on row rows T D (chip (world s))"
    and "0 < n" "n \<le> part_size p" "unat n \<le> length buf"
    and "good = good_addrs (esize g) (bad_block g T) (uint (part_offset p)) (msize g)" "unat n \<le> length good"
  shows "\<exists>s1 s2 s3. open_call F (part_name k) mode s = Some (int lu, s1) \<and>
    read_call F (int lu) buf n s1 = Some (sint n, put_at 0 (map (byte_of (wsize g) D) (take (unat n) good)) buf, s2) \<and>
    close_call F (int lu) s2 = Some (0, s3) \<and> mtdl (world s3) = mtdl (world s) \<and>
    map valid (file_tab s3) = map valid (file_tab s) \<and> flash_keeps g on row rows T D (chip (world s3))"
proof -
  let ?s1 = "open_part lu f q p s"
  have lu: "lu < length (file_tab s)" using free_slot_below[of "file_tab s"] assms(5-7) by simp
  have F: "map_option F (Some f) = Some (mtdfs g (ls1x_ops B g polls) N junk)" using assms(2) by simp
  have o: "open_call F (part_name k) mode s = Some (int lu, ?s1)"
    by (rule open_call_part[OF F assms(4,5) lu assms(7,10-13,3,8,9)])
  note pr = open_part_priv[OF lu assms(13), of f]
  obtain c where r: "mtdfile_read g (ls1x_ops B g polls) N (int lu) buf n ?s1 =
      Some (sint n, put_at 0 (map (byte_of (wsize g) D) (take (unat n) good)) buf, moved (int lu) (uint n) c ?s1)" "flash_keeps g on row rows T D c"
    using ls1x_eraser.file_reads[OF assms(1) pr, of D n buf "uint (part_offset p)" polls N] assms(14-20)
    by (auto simp: ls1x_eraser.keeps_iff[OF assms(1)] ls1x_eraser.bad_eq[OF assms(1)] open_part_def word_le_def)
  let ?s2 = "moved (int lu) (uint n) c ?s1"
  have at: "file_at (int lu) ?s1 = Some \<lparr>valid = True, posn = 0, fs = Some f, data = Some (mem_requests s + 1)\<rparr>" using file_priv_at[OF pr] by blast
  have rd: "read_call F (int lu) buf n ?s1 = mtdfile_read g (ls1x_ops B g polls) N (int lu) buf n ?s1"
    using F lu assms(6) by (intro mtd_calls[OF at]) simp_all
  show ?thesis using o rd r close_part[OF F assms(5) lu assms(6,13), of "uint n" c] by auto
qed

text \<open>The partition starts with the bad second block: its first bytes are those of the third one.\<close>

theorem mtd_file_session_witness:
  "\<exists>s1 s2 s3. open_call board_fs (part_name 0) 0 (board_sys sample_bbt 131072 0x200000) = Some (1, s1) \<and>
    read_call board_fs 1 [0, 0] 2 s1 = Some (2, [0xff, 0xff], s2) \<and> close_call board_fs 1 s2 = Some (0, s3)"
proof -
  let ?G = "good_addrs 131072 (bad_block ls1c_geometry sample_bbt)" and ?s = "board_sys sample_bbt 131072 0x200000"
  have "x div 131072 = 1" if "131072 \<le> x" "x < 262144" for x :: int using that by linarith
  then have b1: "?G 131072 262144 = []" using good_addrs_block[of 131072 262144 131072 1 "bad_block ls1c_geometry sample_bbt"] sample_bad(2) by simp
  have b2: "?G 262144 262146 = [262144, 262145]"
    using good_addrs_block[of 262144 262146 131072 2 "bad_block ls1c_geometry sample_bbt"] sample_bad(3) by simp
  have G: "?G 131072 134217728 = 262144 # 262145 # ?G 262146 134217728"
    using good_addrs_split[of 131072 262144 134217728] good_addrs_split[of 262144 262146 134217728] b1 b2 by simp
  have "List.find (\<lambda>p. index (the (nodes (mtdl (world ?s)) p)) = of_nat 0) [0] = Some 0" by (simp add: board_sys_def board_part_def)
  note T = mtd_file_session[where F = board_fs and f = 0, OF sample_eraser board_mtdfs _ board_table(3) board_table(2)[symmetric] _ _ board_table(5) board_table(5) board_linked _ this board_table(4) board_open(8) board_keeps,
    where n = 2 and buf = "[0, 0]" and good = "262144 # 262145 # ?G 262146 134217728"]
  have "put_at 0 (map (byte_of 2048 (\<lambda>_. replicate 2048 0xff)) [262144, 262145]) [0, 0] = [0xff, 0xff]" by (simp add: byte_of_def put_at_def)
  then show ?thesis using T G by (simp add: board_open board_table) blast
qed


text \<open>
  C28. The erase command clears a partition: for a partition that starts at a block and is a whole number of blocks long,
  \<^verbatim>\<open>mtd_erase\<close> with its name returns 0, afterwards every page of its good blocks reads as erased and every
  good page outside of it as before, and the list of partitions and the descriptors are as they were.
\<close>

theorem mtd_erase_clears:
  assumes "ls1x_eraser B on row regs rows rsize g nb T ppb" "F f = mtdfs g (ls1x_ops B g polls) N junk" "length junk = 64" "FileSystems s = f # rest"
    and "lu = free_slot (file_tab s)" "length (file_tab s) = OPEN_MAX" "lu \<noteq> OPEN_MAX" "mem_granted s (mem_requests s)" "mem_granted s (mem_requests s + 1)"
    and "linked (mtdl (world s)) xs" "k < 4294967295" "List.find (\<lambda>p. index (the (nodes (mtdl (world s)) p)) = of_nat k) xs = Some q"
    and "nodes (mtdl (world s)) q = Some p" "is_nand (devs (mtdl (world s)) (mtd p))" "erasesize (devs (mtdl (world s)) (mtd p)) = word_of_int (esize g)"
    and "flash_keeps g on row rows T D (chip (world s))" "msize g < 2 ^ 31"
    and "uint (part_offset p) = b * esize g" "uint (part_size p) = int m * esize g" "b + int m \<le> nb" "0 < m" "1 < length argv" "argv ! 1 = part_name k"
  shows "\<exists>s'. mtd_erase F g (ls1x_ops B g polls) N argv s = Some (0, s') \<and>
    flash_keeps g on row rows T (wiped (wsize g) (b * ppb) ((b + int m) * ppb) D) (chip (world s')) \<and>
    mtdl (world s') = mtdl (world s) \<and> map valid (file_tab s') = map valid (file_tab s)"
proof -
  let ?s1 = "open_part lu f q p s"
  have lu: "lu < length (file_tab s)" using free_slot_below[of "file_tab s"] assms(5-7) by simp
  have F: "map_option F (Some f) = Some (mtdfs g (ls1x_ops B g polls) N junk)" using assms(2) by simp
  have o: "open_call F (part_name k) O_RDWR s = Some (int lu, ?s1)"
    by (rule open_call_part[OF F assms(4,5) lu assms(7,10-13,3,8,9)])
  note pr = open_part_priv[OF lu assms(13), of f] and pw = ls1x_eraser.part_words[OF assms(1,17-21)]
  let ?i = "\<lparr>erase_addr = round_up (part_offset p) (word_of_int (esize g)), fail_addr = 0, erase_len = word_of_int (esize g), erase_st = MTD_ERASE_PENDING\<rparr>"
  have "\<exists>c. erase_blocks g (ls1x_ops B g polls) N (mtd p) (word_of_int (esize g)) m ?i ?s1 = Some (set_world (\<lambda>w. w\<lparr>chip := c\<rparr>) ?s1) \<and>
      flash_keeps g on row rows T (wiped (wsize g) (b * ppb) ((b + int m) * ppb) D) c"
    unfolding ls1x_eraser.keeps_iff[OF assms(1), symmetric] using assms(14,16,17,20) pw
    by (intro ls1x_eraser.erase_blocks_clear[OF assms(1)]) (simp_all add: open_part_def ls1x_eraser.keeps_iff[OF assms(1)])
  then obtain c where c: "erase_blocks g (ls1x_ops B g polls) N (mtd p) (word_of_int (esize g)) m ?i ?s1 = Some (set_world (\<lambda>w. w\<lparr>chip := c\<rparr>) ?s1)"
    "flash_keeps g on row rows T (wiped (wsize g) (b * ppb) ((b + int m) * ppb) D) c" by blast
  have "set_world (\<lambda>w. w\<lparr>chip := c\<rparr>) ?s1 = moved (int lu) 0 c ?s1" using lu by (simp add: moved_def set_world_def open_part_def)
  then obtain s3 where s3: "close_call F (int lu) (set_world (\<lambda>w. w\<lparr>chip := c\<rparr>) ?s1) = Some (0, s3)" "mtdl (world s3) = mtdl (world s)"
    "map valid (file_tab s3) = map valid (file_tab s)" "chip (world s3) = c" using close_part[OF F assms(5) lu assms(6,13), of 0 c] by auto
  have "devs (mtdl (world ?s1)) = devs (mtdl (world s))" by (simp add: open_part_def)
  then have "mtd_erase F g (ls1x_ops B g polls) N argv s = Some (0, s3)"
    using o pr c(1) s3(1) pw assms(15,22,23) by (simp add: mtd_erase_def)
  then show ?thesis using c(2) s3 by blast
qed

text \<open>A partition of two blocks, the second and the third; the second one is bad.\<close>

theorem mtd_erase_clears_witness:
  "\<exists>s'. mtd_erase board_fs ls1c_geometry (ls1x_ops sim_hw ls1c_geometry 5) no_nor [map chr ''mtd_erase'', part_name 0] (board_sys sample_bbt 131072 262144) = Some (0, s') \<and>
    mtdl (world s') = mtdl (world (board_sys sample_bbt 131072 262144))"
proof -
  let ?s = "board_sys sample_bbt 131072 262144"
  have "List.find (\<lambda>p. index (the (nodes (mtdl (world ?s)) p)) = of_nat 0) [0] = Some 0" by (simp add: board_sys_def board_part_def)
  note T = mtd_erase_clears[where F = board_fs and f = 0, OF sample_eraser board_mtdfs _ board_table(3) board_table(2)[symmetric] _ _ board_table(5) board_table(5) board_linked _ this
    board_table(4) board_open(8) _ board_keeps, where b = 1 and m = 2 and argv = "[map chr ''mtd_erase'', part_name 0]"]
  have "erasesize (devs (mtdl (world ?s)) 0) = 131072" "mtd (board_part 131072 262144) = 0" by (simp_all add: board_sys_def board_part_def)
  then show ?thesis using T by (simp add: board_open board_table) blast
qed

text \<open>
  C29. Skipped blocks are counted out of the position: when the position of a file is at the start of a bad block and
  the block behind it is good, reading the size of a block returns the good block and moves the position to its
  start, so that the next read returns the same bytes again.
\<close>

theorem mtd_read_repeats:
  assumes "ls1x_eraser B on row regs rows rsize g nb T ppb" "F f = mtdfs g (ls1x_ops B g polls) N junk"
    and "file_priv fd s = Some (e, priv, p)" "is_nand (devs (mtdl (world s)) (mtd p))" "fd < int OPEN_MAX" "valid e" "fs e = Some f"
    and "flash_keeps g on row rows T D (chip (world s))" "0 \<le> posn e" "posn e + 2 * esize g \<le> uint (open_size priv)" "uint n = esize g" "unat n \<le> length buf"
    and "posn e + uint (open_offset priv) + uint (part_offset p) = b * esize g" "bad_block g T b" "\<not> bad_block g T (b + 1)" "0 \<le> b" "b + 2 \<le> nb"
    and "bs = map (byte_of (wsize g) D) [(b + 1) * esize g..(b + 2) * esize g - 1]"
  shows "\<exists>s1 s2. read_call F fd buf n s = Some (sint n, put_at 0 bs buf, s1) \<and> read_call F fd buf n s1 = Some (sint n, put_at 0 bs buf, s2)"
proof -
  have F: "map_option F (fs e) = Some (mtdfs g (ls1x_ops B g polls) N junk)" using assms(2,7) by simp
  note at = file_priv_at[OF assms(3), THEN conjunct2, THEN conjunct2, THEN conjunct2]
  obtain c c' where r: "mtdfile_read g (ls1x_ops B g polls) N fd buf n s = Some (sint n, put_at 0 bs buf, moved fd (posn e + uint n) c s)"
    "mtdfile_read g (ls1x_ops B g polls) N fd buf n (moved fd (posn e + uint n) c s) =
      Some (sint n, put_at 0 bs buf, moved fd (posn e + 2 * uint n) c' (moved fd (posn e + uint n) c s))"
    using ls1x_eraser.reads_again[OF assms(1,3,4,8-17), where N = N and polls = polls] unfolding assms(18) by blast
  then show ?thesis using mtd_calls(1)[OF at assms(5,6) F] mtd_calls(1)[OF moved_at[OF at] assms(5), where F = F] F assms(6) by simp
qed

theorem mtd_read_repeats_witness:
  "\<exists>bs s1 s2. read_call board_fs 0 (replicate 131072 0) 131072 (board_sys sample_bbt 131072 0x200000) = Some (131072, put_at 0 bs (replicate 131072 0), s1) \<and>
    read_call board_fs 0 (replicate 131072 0) 131072 s1 = Some (131072, put_at 0 bs (replicate 131072 0), s2)"
proof -
  have f: "file_priv 0 (board_sys sample_bbt 131072 0x200000) = Some (board_entry, board_priv 0x200000, board_part 131072 0x200000)"
    using board_block[where off = 131072 and b = 1 and T = sample_bbt and sz = "0x200000"] by (simp add: file_at_block_def)
  note T = mtd_read_repeats[where F = board_fs and f = 0, OF sample_eraser board_mtdfs f _ _ _ _ board_keeps _ _ _ _ _ _ _ _ _ refl, where n = 131072 and b = 1 and buf = "replicate 131072 0"]
  show ?thesis using T sample_bad(2,3) by (simp add: board_open OPEN_MAX_def del: upto_rec_numeral) blast
qed

end
