(* ===== verification/Can.thy ===== *)
theory Can
  imports Prelude "HOL-Library.Monad_Syntax"
begin

unbundle bit_operations_syntax

text \<open>
  The CAN controller, \<^verbatim>\<open>src/lib/ls1c_can.c\<close>. The registers are the bytes of \<^verbatim>\<open>CAN_TypeDef\<close>, named by their offset; reading and
  writing them are the parameter \<open>B\<close>, since the controller changes its mode and its buffers by itself. The
  delays between two polls and the messages are left out. A message longer than the arrays hold is \<open>None\<close>.
\<close>

section \<open>Registers and messages\<close>

record 'h can_io =
  can_rd :: "nat \<Rightarrow> 'h \<Rightarrow> u8 \<times> 'h"
  can_wr :: "nat \<Rightarrow> u8 \<Rightarrow> 'h \<Rightarrow> 'h"

definition MOD :: nat where "MOD = 0"
definition CMR :: nat where "CMR = 1"
definition IER :: nat where "IER = 4"
definition BTR0 :: nat where "BTR0 = 6"
definition BTR1 :: nat where "BTR1 = 7"
definition RXERR :: nat where "RXERR = 14"
definition TXERR :: nat where "TXERR = 15"
definition IDE_RTR_DLC :: nat where "IDE_RTR_DLC = 16"
definition ID :: nat where "ID = 17"
definition BUF :: nat where "BUF = 21"
definition CDR :: nat where "CDR = 30"

definition CAN_Mode_RM :: u8 where "CAN_Mode_RM = 0x01"
definition CAN_Mode_LOM :: u8 where "CAN_Mode_LOM = 0x02"
definition CAN_Mode_STM :: u8 where "CAN_Mode_STM = 0x04"
definition CAN_Mode_AFM :: u8 where "CAN_Mode_AFM = 0x08"
definition CAN_Mode_SM :: u8 where "CAN_Mode_SM = 0x10"
definition CAN_CMR_TR :: u8 where "CAN_CMR_TR = 0x01"
definition CAN_IR_BEI :: u8 where "CAN_IR_BEI = 0x80"

record CAN_InitTypeDef =
  CAN_Prescaler :: u8
  CAN_Mode :: u8
  CAN_SJW :: u8
  CAN_BS1 :: u8
  CAN_BS2 :: u8

record CAN_FilterInitTypeDef =
  CAN_FilterId0 :: u8
  CAN_FilterMaskId0 :: u8
  CAN_FilterId1 :: u8
  CAN_FilterMaskId1 :: u8
  CAN_FilterId2 :: u8
  CAN_FilterMaskId2 :: u8
  CAN_FilterId3 :: u8
  CAN_FilterMaskId3 :: u8

record can_msg =
  StdId :: u32
  ExtId :: u32
  IDE :: u8
  RTR :: u8
  DLC :: u8
  Data :: "u8 list"

definition or_reg :: "'h can_io \<Rightarrow> nat \<Rightarrow> u8 \<Rightarrow> 'h \<Rightarrow> 'h" where
  "or_reg B off v h = (let (x, h) = can_rd B off h in can_wr B off (x OR v) h)"

definition and_reg :: "'h can_io \<Rightarrow> nat \<Rightarrow> u8 \<Rightarrow> 'h \<Rightarrow> 'h" where
  "and_reg B off v h = (let (x, h) = can_rd B off h in can_wr B off (x AND v) h)"

text \<open>Bytes written to successive registers.\<close>

fun put_regs :: "'h can_io \<Rightarrow> nat \<Rightarrow> u8 list \<Rightarrow> 'h \<Rightarrow> 'h" where
  "put_regs B off [] h = h"
| "put_regs B off (x # xs) h = put_regs B (Suc off) xs (can_wr B off x h)"

section \<open>Operations\<close>

fun reset_loop :: "'h can_io \<Rightarrow> nat \<Rightarrow> u8 \<Rightarrow> 'h \<Rightarrow> u8 \<times> 'h" where
  "reset_loop B 0 status h = (0, h)"
| "reset_loop B (Suc n) status h =
    (if status AND CAN_Mode_RM = CAN_Mode_RM then (1, h)
     else let h = or_reg B MOD CAN_Mode_RM h; (status, h) = can_rd B MOD h in reset_loop B n status h)"

definition set_reset_mode :: "'h can_io \<Rightarrow> 'h \<Rightarrow> u8 \<times> 'h" where
  "set_reset_mode B h =
    (let (status, h) = can_rd B MOD h;
         h = can_wr B IER 0x00 h
     in reset_loop B 100 status h)"

fun normal_loop :: "'h can_io \<Rightarrow> nat \<Rightarrow> u8 \<Rightarrow> 'h \<Rightarrow> u8 \<times> 'h" where
  "normal_loop B 0 status h = (0, h)"
| "normal_loop B (Suc n) status h =
    (if status AND CAN_Mode_RM \<noteq> CAN_Mode_RM then (1, or_reg B IER (NOT CAN_IR_BEI) h)
     else let h = and_reg B MOD (NOT CAN_Mode_RM) h; (status, h) = can_rd B MOD h in normal_loop B n status h)"

definition set_normal_mode :: "'h can_io \<Rightarrow> 'h \<Rightarrow> u8 \<times> 'h" where
  "set_normal_mode B h = (let (status, h) = can_rd B MOD h in normal_loop B 100 status h)"

definition set_start :: "'h can_io \<Rightarrow> 'h \<Rightarrow> u8 \<times> 'h" where
  "set_start B h =
    (let h = can_wr B TXERR 0 h;
         h = can_wr B RXERR 0 h;
         h = can_wr B CDR 0xC0 h
     in set_normal_mode B h)"

definition CAN_Init :: "'h can_io \<Rightarrow> CAN_InitTypeDef \<Rightarrow> 'h \<Rightarrow> u8 \<times> 'h" where
  "CAN_Init B i h =
    (let (status, h) = can_rd B MOD h
     in if status = 0xFF then (0, h)
        else
          let (InitStatus, h) = set_reset_mode B h;
              h = (if CAN_Mode i AND CAN_Mode_SM = CAN_Mode_SM then or_reg B MOD CAN_Mode_SM h
                   else if CAN_Mode i AND CAN_Mode_LOM = CAN_Mode_LOM then or_reg B MOD CAN_Mode_LOM h
                   else if CAN_Mode i AND CAN_Mode_AFM = CAN_Mode_AFM then or_reg B MOD CAN_Mode_AFM h
                   else if CAN_Mode i AND CAN_Mode_STM = CAN_Mode_STM then or_reg B MOD CAN_Mode_STM h
                   else h);
              h = can_wr B BTR0 ((CAN_Prescaler i - 1) OR push_bit 6 (CAN_SJW i)) h;
              h = can_wr B BTR1 (CAN_BS1 i OR push_bit 4 (CAN_BS2 i) OR push_bit 7 (CAN_SJW i)) h;
              (_, h) = set_start B h
          in (InitStatus, h))"

definition CAN_FilterInit :: "'h can_io \<Rightarrow> CAN_FilterInitTypeDef \<Rightarrow> 'h \<Rightarrow> 'h" where
  "CAN_FilterInit B f h =
    (let (_, h) = set_reset_mode B h;
         h = put_regs B IDE_RTR_DLC [CAN_FilterId0 f, CAN_FilterId1 f, CAN_FilterId2 f, CAN_FilterId3 f] h;
         h = put_regs B (ID + 3) [CAN_FilterMaskId0 f, CAN_FilterMaskId1 f, CAN_FilterMaskId2 f, CAN_FilterMaskId3 f] h
     in snd (set_start B h))"

text \<open>The byte of the frame format: kind of identifier, remote frame, length.\<close>

definition frame_info :: "can_msg \<Rightarrow> u8" where
  "frame_info m = push_bit 7 (IDE m AND 0x01) OR push_bit 6 (RTR m AND 0x01) OR (DLC m AND 0x0F)"

definition CAN_Transmit :: "'h can_io \<Rightarrow> can_msg \<Rightarrow> 'h \<Rightarrow> 'h option" where
  "CAN_Transmit B m h =
    do { h \<leftarrow>
           (if IDE m = 1 then
              let h = put_regs B ID [ucast (drop_bit 21 (ExtId m)), ucast (drop_bit 13 (ExtId m)), ucast (drop_bit 5 (ExtId m)), ucast (push_bit 3 (ExtId m))] h;
                  h = can_wr B IDE_RTR_DLC (frame_info m) h
              in if unat (DLC m) > 8 then None else Some (put_regs B BUF (take (unat (DLC m)) (Data m)) h)
            else if IDE m = 0 then
              let h = put_regs B ID [ucast (drop_bit 3 (StdId m)), ucast (push_bit 5 (StdId m))] h;
                  h = can_wr B IDE_RTR_DLC (frame_info m) h;
                  h = put_regs B (ID + 2) [Data m ! 0, Data m ! 1] h
              in if unat (DLC m) > 8 then None else Some (put_regs B BUF (take (unat (DLC m) - 2) (drop 2 (Data m))) h)
            else Some h);
         Some (can_wr B CMR CAN_CMR_TR h) }"

text \<open>The registers from \<open>off\<close> on, read one after the other.\<close>

fun get_regs :: "'h can_io \<Rightarrow> nat \<Rightarrow> nat \<Rightarrow> 'h \<Rightarrow> u8 list \<times> 'h" where
  "get_regs B off 0 h = ([], h)"
| "get_regs B off (Suc n) h = (let (x, h) = can_rd B off h; (xs, h) = get_regs B (Suc off) n h in (x # xs, h))"

definition CAN_Receive :: "'h can_io \<Rightarrow> can_msg \<Rightarrow> 'h \<Rightarrow> can_msg \<times> 'h" where
  "CAN_Receive B m h =
    (let (x, h) = can_rd B IDE_RTR_DLC h; m = m\<lparr>IDE := drop_bit 7 (x AND 0x80)\<rparr>;
         (x, h) = can_rd B IDE_RTR_DLC h; m = m\<lparr>RTR := drop_bit 4 (x AND 0x40)\<rparr>;
         (x, h) = can_rd B IDE_RTR_DLC h; m = m\<lparr>DLC := x AND 0x0F\<rparr>
     in if IDE m = 0 then
          let (ids, h) = get_regs B ID 2 h;
              m = m\<lparr>StdId := push_bit 3 (ucast (ids ! 0)) OR drop_bit 5 (ucast (ids ! 1))\<rparr>;
              (ds, h) = get_regs B (ID + 2) 8 h
          in (m\<lparr>Data := ds\<rparr>, h)
        else if IDE m = 1 then
          let (ids, h) = get_regs B ID 4 h;
              m = m\<lparr>ExtId := push_bit 21 (ucast (ids ! 0)) OR push_bit 13 (ucast (ids ! 1)) OR push_bit 5 (ucast (ids ! 2)) OR drop_bit 3 (ucast (ids ! 3))\<rparr>;
              (ds, h) = get_regs B BUF 8 h
          in (m\<lparr>Data := ds\<rparr>, h)
        else (m, h))"

section \<open>The transmit buffer\<close>

text \<open>What the controller keeps of the writes to its frame registers, and a controller that shows a frame for reading.\<close>

locale can_sender =
  fixes B :: "'h can_io" and tx :: "'h \<Rightarrow> nat \<Rightarrow> u8"
  assumes frame_write: "\<And>off v h. 16 \<le> off \<Longrightarrow> off \<le> 28 \<Longrightarrow> tx (can_wr B off v h) = (tx h)(off := v)"
    and command_write: "\<And>v h. tx (can_wr B CMR v h) = tx h"
begin

lemma put_regs_tx:
  "16 \<le> off \<Longrightarrow> off + length xs \<le> 29 \<Longrightarrow>
    tx (put_regs B off xs h) = (\<lambda>i. if off \<le> i \<and> i < off + length xs then xs ! (i - off) else tx h i)"
proof (induction xs arbitrary: off h)
  case (Cons x xs)
  have "tx (put_regs B off (x # xs) h) i = (if off \<le> i \<and> i < off + length (x # xs) then (x # xs) ! (i - off) else tx h i)" for i
    using Cons.IH[of "Suc off" "can_wr B off x h"] Cons.prems frame_write[of off x h] by (cases "i = off") (auto simp: nth_Cons')
  then show ?case by blast
qed (auto simp: fun_eq_iff)

text \<open>The frame registers after a transmission.\<close>

lemma sent_ext:
  assumes "IDE m = 1" "unat (DLC m) \<le> 8" "length (Data m) = 8"
  shows "\<exists>h1. CAN_Transmit B m h = Some h1 \<and> tx h1 IDE_RTR_DLC = frame_info m \<and>
    map (tx h1) [ID..<ID + 4] = [ucast (drop_bit 21 (ExtId m)), ucast (drop_bit 13 (ExtId m)), ucast (drop_bit 5 (ExtId m)), ucast (push_bit 3 (ExtId m))] \<and>
    (\<forall>i<unat (DLC m). tx h1 (BUF + i) = Data m ! i)"
  using assms by (simp add: CAN_Transmit_def Let_def put_regs_tx frame_write command_write ID_def BUF_def IDE_RTR_DLC_def upt_rec)

lemma sent_std:
  assumes "IDE m = 0" "unat (DLC m) \<le> 8" "length (Data m) = 8"
  shows "\<exists>h1. CAN_Transmit B m h = Some h1 \<and> tx h1 IDE_RTR_DLC = frame_info m \<and>
    map (tx h1) [ID..<ID + 2] = [ucast (drop_bit 3 (StdId m)), ucast (push_bit 5 (StdId m))] \<and>
    (\<forall>i<unat (DLC m). tx h1 (ID + 2 + i) = Data m ! i)"
proof -
  let ?h = "can_wr B CMR CAN_CMR_TR (put_regs B BUF (take (unat (DLC m) - 2) (drop 2 (Data m))) (put_regs B (ID + 2) [Data m ! 0, Data m ! 1]
    (can_wr B IDE_RTR_DLC (frame_info m) (put_regs B ID [ucast (drop_bit 3 (StdId m)), ucast (push_bit 5 (StdId m))] h))))"
  have "CAN_Transmit B m h = Some ?h" using assms by (simp add: CAN_Transmit_def Let_def)
  moreover have "tx ?h (ID + 2 + i) = Data m ! i" if "i < unat (DLC m)" for i
  proof (cases "i < 2")
    case True
    then show ?thesis using that assms(2,3) by (auto simp: put_regs_tx frame_write command_write ID_def BUF_def IDE_RTR_DLC_def less_2_cases_iff)
  next
    case False
    then obtain j where "i = Suc (Suc j)" by (metis add_2_eq_Suc le_Suc_ex not_less)
    then show ?thesis using that assms(2,3) by (simp add: put_regs_tx frame_write command_write ID_def BUF_def IDE_RTR_DLC_def)
  qed
  moreover have "tx ?h IDE_RTR_DLC = frame_info m" "map (tx ?h) [ID..<ID + 2] = [ucast (drop_bit 3 (StdId m)), ucast (push_bit 5 (StdId m))]"
    using assms(2,3) by (simp_all add: put_regs_tx frame_write command_write ID_def BUF_def IDE_RTR_DLC_def upt_rec)
  ultimately show ?thesis by (intro exI[of _ ?h] conjI allI impI)
qed

end

definition shows_frame :: "'h can_io \<Rightarrow> (nat \<Rightarrow> u8) \<Rightarrow> 'h \<Rightarrow> bool" where
  "shows_frame B f h \<longleftrightarrow> (\<forall>off. 16 \<le> off \<and> off \<le> 28 \<longrightarrow> can_rd B off h = (f off, h))"

lemma get_regs_shown: "shows_frame B f h \<Longrightarrow> 16 \<le> off \<Longrightarrow> off + n \<le> 29 \<Longrightarrow> get_regs B off n h = (map f [off..<off + n], h)"
  by (induction n arbitrary: off) (auto simp: shows_frame_def upt_rec)

text \<open>Taking the frame format and the identifiers apart again.\<close>

lemma frame_info_parts:
  assumes "IDE m = 0 \<or> IDE m = 1" "unat (DLC m) \<le> 8"
  shows "drop_bit 7 (frame_info m AND 0x80) = IDE m" "drop_bit 4 (frame_info m AND 0x40) = push_bit 2 (RTR m AND 1)" "frame_info m AND 0x0F = DLC m"
proof -
  have "DLC m = of_nat (unat (DLC m))" by simp
  moreover have "unat (DLC m) \<in> {0, 1, 2, 3, 4, 5, 6, 7, 8}" using assms(2) by auto
  ultimately have d: "DLC m \<in> {0, 1, 2, 3, 4, 5, 6, 7, 8}" by (auto simp del: of_nat_unat)
  obtain r where r: "RTR m AND 1 = r" "r = 0 \<or> r = 1" by (auto simp: and_one_eq mod_2_eq_odd)
  have f: "frame_info m = push_bit 7 (IDE m AND 1) OR push_bit 6 r OR (DLC m AND 0x0F)" by (simp add: frame_info_def r(1))
  show "drop_bit 7 (frame_info m AND 0x80) = IDE m" "drop_bit 4 (frame_info m AND 0x40) = push_bit 2 (RTR m AND 1)" "frame_info m AND 0x0F = DLC m"
    unfolding f r(1) using assms(1) d r(2) by auto
qed

lemma std_id_parts: "push_bit 3 (ucast (ucast (drop_bit 3 i) :: u8)) OR drop_bit 5 (ucast (ucast (push_bit 5 i) :: u8)) = take_bit 11 (i :: u32)"
  by (rule bit_eqI) (auto simp: bit_simps)

lemma ext_id_parts:
  "push_bit 21 (ucast (ucast (drop_bit 21 i) :: u8)) OR push_bit 13 (ucast (ucast (drop_bit 13 i) :: u8)) OR push_bit 5 (ucast (ucast (drop_bit 5 i) :: u8)) OR
    drop_bit 3 (ucast (ucast (push_bit 3 i) :: u8)) = take_bit 29 (i :: u32)" (is "?l = ?r")
proof (rule bit_eqI)
  fix n :: nat
  consider "n < 13" | "13 \<le> n" "n < 21" | "21 \<le> n" by linarith
  then show "bit ?l n = bit ?r n" by cases (auto simp: bit_simps)
qed

text \<open>A controller as a plain register file.\<close>

definition reg_file :: "(nat \<Rightarrow> u8) can_io" where
  "reg_file = \<lparr>can_rd = (\<lambda>off h. (h off, h)), can_wr = (\<lambda>off v h. h(off := v))\<rparr>"

interpretation register_file: can_sender reg_file "\<lambda>h. h(CMR := 0)"
  by unfold_locales (auto simp: reg_file_def CMR_def)

end
