(* ===== verification/Cache.thy ===== *)
theory Cache
  imports Bit_Search "HOL-Library.Monad_Syntax"
begin

unbundle bit_operations_syntax

text \<open>
  The caches, \<^verbatim>\<open>src/lib/ls1c_cache.c\<close>. The descriptors keep the widths of their fields, so that a line of 256 bytes does
  not fit. What a function does to the cache is the sequence of its cache instructions, each an
  operation and an address. A loop that does not end is \<open>None\<close>.
\<close>

section \<open>Descriptors\<close>

datatype cache_op = Index_Invalidate_I | Index_Writeback_Inv_D | Hit_Invalidate_I | Hit_Writeback_Inv_D

record cache_desc =
  waysize :: u32
  sets :: "16 word"
  ways :: u8
  linesz :: u8
  waybit :: u8
  cachesize :: u32

text \<open>The state before \<^verbatim>\<open>cache_probe\<close>: the descriptors are global and start as zero.\<close>

definition unprobed :: cache_desc where
  "unprobed = \<lparr>waysize = 0, sets = 0, ways = 0, linesz = 0, waybit = 0, cachesize = 0\<rparr>"

definition probe_desc :: "u32 \<Rightarrow> u32 \<Rightarrow> u32 \<Rightarrow> cache_desc" where
  "probe_desc lsize s a =
    (let linesz = ucast (push_bit (unat lsize) 2 :: u32);
         sets = ucast (push_bit (unat s) 64 :: u32);
         ways = ucast (1 + a);
         cachesize = ucast sets * ucast ways * ucast linesz;
         waysize = cachesize div ucast ways
     in \<lparr>waysize = waysize, sets = sets, ways = ways, linesz = linesz, waybit = of_nat (ffs waysize), cachesize = cachesize\<rparr>)"

definition cache_probe :: "u32 \<Rightarrow> cache_desc \<times> cache_desc \<Rightarrow> cache_desc \<times> cache_desc" where
  "cache_probe config1 st =
    (case st of (icache, dcache) \<Rightarrow>
       let lsize = drop_bit 19 config1 AND 7
       in if lsize = 0 then (icache\<lparr>linesz := 0, cachesize := 0\<rparr>, dcache)
          else
            let icache = probe_desc lsize (drop_bit 22 config1 AND 7) (drop_bit 16 config1 AND 7);
                lsize = drop_bit 10 config1 AND 7
            in if lsize = 0 then (icache, dcache\<lparr>linesz := 0, cachesize := 0\<rparr>)
               else (icache, probe_desc lsize (drop_bit 13 config1 AND 7) (drop_bit 7 config1 AND 7)))"

section \<open>Operations\<close>

definition cache32_unroll32 :: "u32 \<Rightarrow> cache_op \<Rightarrow> (cache_op \<times> u32) list" where
  "cache32_unroll32 base op = map (\<lambda>i. (op, base + of_nat (0x20 * i))) [0..<32]"

partial_function (option) addr_loop :: "cache_op \<Rightarrow> u32 \<Rightarrow> u8 \<Rightarrow> u32 \<Rightarrow> u32 \<Rightarrow> (cache_op \<times> u32) list option" where
  "addr_loop op ws lsize addr limit =
    (if addr < limit then do { tr \<leftarrow> addr_loop op ws lsize (addr + ucast lsize * 32) limit; Some (cache32_unroll32 (addr OR ws) op @ tr) }
     else Some [])"

declare addr_loop.simps [code]

partial_function (option) ws_loop :: "cache_op \<Rightarrow> cache_desc \<Rightarrow> u32 \<Rightarrow> u32 \<Rightarrow> u32 \<Rightarrow> (cache_op \<times> u32) list option" where
  "ws_loop op d ws ws_inc ws_end =
    (if ws < ws_end then do {
       tr \<leftarrow> addr_loop op ws (linesz d) 0x80000000 (0x80000000 + waysize d);
       tr' \<leftarrow> ws_loop op d (ws + ws_inc) ws_inc ws_end;
       Some (tr @ tr') }
     else Some [])"

declare ws_loop.simps [code]

definition whole_cache :: "cache_op \<Rightarrow> cache_desc \<Rightarrow> (cache_op \<times> u32) list option" where
  "whole_cache op d = ws_loop op d 0 (push_bit (unat (waybit d)) 1) (push_bit (unat (waybit d)) (ucast (ways d)))"

definition dcache_writeback_invalidate_all :: "cache_desc \<Rightarrow> (cache_op \<times> u32) list option" where
  "dcache_writeback_invalidate_all d = whole_cache Index_Writeback_Inv_D d"

definition icache_invalidate_all :: "cache_desc \<Rightarrow> (cache_op \<times> u32) list option" where
  "icache_invalidate_all d = whole_cache Index_Invalidate_I d"

partial_function (option) range_loop :: "cache_op \<Rightarrow> u32 \<Rightarrow> u32 \<Rightarrow> u32 \<Rightarrow> (cache_op \<times> u32) list option" where
  "range_loop op line_size addr aend =
    (if addr = aend then Some [(op, addr)]
     else do { tr \<leftarrow> range_loop op line_size (addr + line_size) aend; Some ((op, addr) # tr) })"

declare range_loop.simps [code]

definition line_range :: "cache_op \<Rightarrow> cache_desc \<Rightarrow> u32 \<Rightarrow> u32 \<Rightarrow> (cache_op \<times> u32) list option" where
  "line_range op d start limit =
    (let line_size = ucast (linesz d)
     in range_loop op line_size (start AND NOT (line_size - 1)) ((limit - 1) AND NOT (line_size - 1)))"

definition dcache_writeback_invalidate_range :: "cache_desc \<Rightarrow> u32 \<Rightarrow> u32 \<Rightarrow> (cache_op \<times> u32) list option" where
  "dcache_writeback_invalidate_range d start limit =
    (if limit - start > cachesize d then dcache_writeback_invalidate_all d else line_range Hit_Writeback_Inv_D d start limit)"

definition icache_invalidate_range :: "cache_desc \<Rightarrow> u32 \<Rightarrow> u32 \<Rightarrow> (cache_op \<times> u32) list option" where
  "icache_invalidate_range d start limit =
    (if limit - start > cachesize d then icache_invalidate_all d else line_range Hit_Invalidate_I d start limit)"

section \<open>What is reached\<close>

lemma of_nat_u32_less: "a < b \<Longrightarrow> b < 2 ^ 32 \<Longrightarrow> (of_nat a :: u32) < of_nat b"
  by (simp add: word_less_nat_alt unat_of_nat)

lemma range_loop_lines:
  "a \<le> b \<Longrightarrow> b * 2 ^ k < 2 ^ 32 \<Longrightarrow> range_loop op (2 ^ k) (of_nat (a * 2 ^ k)) (of_nat (b * 2 ^ k)) = Some (map (\<lambda>j. (op, of_nat (j * 2 ^ k))) [a..<Suc b])"
proof (induction "b - a" arbitrary: a)
  case 0
  then show ?case by (subst range_loop.simps) simp
next
  case (Suc x)
  then have lt: "a < b" by simp
  then have "a * 2 ^ k < b * 2 ^ k" by simp
  then have "of_nat (a * 2 ^ k) < (of_nat (b * 2 ^ k) :: u32)" by (rule of_nat_u32_less) (rule Suc.prems(2))
  then have "of_nat (a * 2 ^ k) \<noteq> (of_nat (b * 2 ^ k) :: u32)" by (rule less_imp_neq)
  moreover have "of_nat (a * 2 ^ k) + 2 ^ k = (of_nat (Suc a * 2 ^ k) :: u32)" by simp
  then have "range_loop op (2 ^ k) (of_nat (a * 2 ^ k) + 2 ^ k) (of_nat (b * 2 ^ k)) = Some (map (\<lambda>j. (op, of_nat (j * 2 ^ k))) [Suc a..<Suc b])"
    using Suc.hyps(1)[of "Suc a"] Suc.hyps(2) Suc.prems lt by (simp only:)
  ultimately show ?case using lt by (subst range_loop.simps) (simp add: upt_conv_Cons del: of_nat_mult upt_Suc)
qed

text \<open>A cache that was not probed is not touched.\<close>

lemma unprobed_idle: "whole_cache op unprobed = Some []"
  by (simp add: whole_cache_def unprobed_def ws_loop.simps)

lemma unprobed_range: "start \<noteq> limit \<Longrightarrow> dcache_writeback_invalidate_range unprobed start limit = Some []"
  using unprobed_idle[of Index_Writeback_Inv_D] word_neq_0_conv[of "limit - start"]
  by (simp add: dcache_writeback_invalidate_range_def dcache_writeback_invalidate_all_def) (simp add: unprobed_def)

text \<open>The loops over a whole cache with lines of 32 bytes.\<close>

lemma addr_loop_eq:
  "i \<le> m \<Longrightarrow> 1024 * m < 2 ^ 31 \<Longrightarrow> addr_loop op ws 32 (0x80000000 + of_nat (1024 * i)) (0x80000000 + of_nat (1024 * m)) =
    Some (concat (map (\<lambda>j. cache32_unroll32 ((0x80000000 + of_nat (1024 * j)) OR ws) op) [i..<m]))"
proof (induction "m - i" arbitrary: i)
  case 0
  then show ?case by (subst addr_loop.simps) simp
next
  case (Suc x)
  have base: "unat (0x80000000 + of_nat (1024 * j) :: u32) = 2 ^ 31 + 1024 * j" if "j \<le> m" for j
    using that Suc.prems(2) by (simp add: unat_word_ariths unat_of_nat del: of_nat_mult)
  have lt: "i < m" using Suc by simp
  then have "0x80000000 + of_nat (1024 * i) < (0x80000000 + of_nat (1024 * m) :: u32)" unfolding word_less_nat_alt using base by simp
  moreover have "0x80000000 + of_nat (1024 * i) + ucast (32 :: u8) * 32 = (0x80000000 + of_nat (1024 * Suc i) :: u32)" by simp
  moreover have "addr_loop op ws 32 (0x80000000 + of_nat (1024 * Suc i)) (0x80000000 + of_nat (1024 * m)) =
      Some (concat (map (\<lambda>j. cache32_unroll32 ((0x80000000 + of_nat (1024 * j)) OR ws) op) [Suc i..<m]))"
    using Suc lt by (intro Suc.hyps(1)) simp_all
  ultimately show ?case using lt by (subst addr_loop.simps) (simp add: upt_conv_Cons del: of_nat_mult)
qed

definition way_ops :: "cache_op \<Rightarrow> nat \<Rightarrow> u32 \<Rightarrow> (cache_op \<times> u32) list" where
  "way_ops op m ws = concat (map (\<lambda>j. cache32_unroll32 ((0x80000000 + of_nat (1024 * j)) OR ws) op) [0..<m])"

lemma ws_loop_eq:
  assumes "linesz d = 32" "waysize d = of_nat (1024 * m)" "1024 * m < 2 ^ 31" "0 < inc"
  shows "i \<le> n \<Longrightarrow> inc * n < 2 ^ 32 \<Longrightarrow> ws_loop op d (of_nat (inc * i)) (of_nat inc) (of_nat (inc * n)) = Some (concat (map (\<lambda>i. way_ops op m (of_nat (inc * i))) [i..<n]))"
proof (induction "n - i" arbitrary: i)
  case 0
  then show ?case by (subst ws_loop.simps) simp
next
  case (Suc x)
  have lt: "i < n" using Suc by simp
  then have less: "inc * i < inc * n" using assms(4) by simp
  then have "of_nat (inc * i) < (of_nat (inc * n) :: u32)" by (rule of_nat_u32_less) (rule Suc.prems(2))
  moreover have "of_nat (inc * i) + of_nat inc = (of_nat (inc * Suc i) :: u32)" by (simp add: algebra_simps)
  then have "ws_loop op d (of_nat (inc * i) + of_nat inc) (of_nat inc) (of_nat (inc * n)) = Some (concat (map (\<lambda>i. way_ops op m (of_nat (inc * i))) [Suc i..<n]))"
    using Suc lt by (simp only:)
  moreover have "addr_loop op ws (linesz d) 0x80000000 (0x80000000 + waysize d) = Some (way_ops op m ws)" for ws
    using addr_loop_eq[of 0 m op ws] assms(1-3) by (simp add: way_ops_def)
  ultimately show ?case using lt by (subst ws_loop.simps) (simp add: upt_conv_Cons del: of_nat_mult)
qed

lemma ffs_exp: "w < 32 \<Longrightarrow> ffs (2 ^ w) = w + 1"
proof -
  assume "w < 32"
  then have "lowest (2 ^ w) = w" by (intro lowest_eqI) (auto simp: bit_exp_u32)
  moreover have "(2 ^ w :: u32) \<noteq> 0" using \<open>w < 32\<close> by (metis bit_exp_u32 bit_0_eq bot_apply bot_bool_def)
  ultimately show ?thesis by (simp add: ffs_def ffs_loop_lowest)
qed

text \<open>With the bit number counted from one, the ways are stepped through two at a time: the bit that tells way 0 from way 1 is never set.\<close>

lemma way_ops_bit:
  assumes "(op', x) \<in> set (way_ops op m (of_nat (2 ^ (w + 1) * i)))" "1024 * m = 2 ^ w" "w < 31"
  shows "\<not> bit x w"
proof -
  let ?ws = "of_nat (2 ^ (w + 1) * i) :: u32"
  obtain j t where j: "j < m" "t < 32" "x = ((0x80000000 + of_nat (1024 * j)) OR ?ws) + of_nat (32 * t)"
    using assms(1) by (auto simp: way_ops_def cache32_unroll32_def)
  let ?A = "(0x80000000 + of_nat (1024 * j)) OR ?ws"
  have lt: "1024 * j + 32 * t < 2 ^ w" using j(1,2) assms(2) by linarith
  let ?L = "\<lambda>x :: u32. take_bit (w + 1) (uint x)"
  have dv: "(2 :: int) ^ (w + 1) dvd 2 ^ 32" using assms(3) by (intro le_imp_power_dvd) simp
  have plus: "?L (a + b) = take_bit (w + 1) (?L a + ?L b)" for a b
    unfolding uint_word_ariths take_bit_eq_mod mod_add_eq by (rule mod_mod_cancel) (use dv in simp)
  have ws: "?L ?ws = 0"
  proof -
    have "?L ?ws = int (2 ^ (w + 1) * i) mod 2 ^ 32 mod 2 ^ (w + 1)" by (simp add: take_bit_eq_mod uint_nat unat_of_nat zmod_int del: of_nat_mult)
    then show ?thesis unfolding mod_mod_cancel[OF dv] by simp
  qed
  have "?L 0x80000000 = 0"
  proof -
    have "uint (0x80000000 :: u32) = push_bit 31 1" by simp
    then show ?thesis using assms(3) by (simp only: take_bit_push_bit) simp
  qed
  then have "?L ?A = ?L (of_nat (1024 * j))" using plus[of "0x80000000" "of_nat (1024 * j)"] ws by (simp add: unsigned_or_eq)
  then have "?L x = ?L (of_nat (1024 * j) + of_nat (32 * t))" unfolding j(3) by (simp only: plus)
  then have "bit (uint x) w \<longleftrightarrow> bit (uint (of_nat (1024 * j + 32 * t) :: u32)) w" by (metis bit_take_bit_iff less_add_one of_nat_add)
  moreover have "\<not> bit (1024 * j + 32 * t) w" using lt by (metis bit_take_bit_iff less_irrefl take_bit_nat_eq_self)
  ultimately show ?thesis using assms(3) by (simp add: bit_uint_iff bit_of_nat_iff del: of_nat_add of_nat_mult)
qed

text \<open>A probed cache with lines of 32 bytes.\<close>

lemma three_bits: "(x :: u32) AND 7 \<in> {0, 1, 2, 3, 4, 5, 6, 7}"
proof -
  have "unat (x AND 7) \<le> unat (7 :: u32)" by (intro word_le_nat_alt[THEN iffD1] word_and_le1)
  then have "unat (x AND 7) \<in> {0, 1, 2, 3, 4, 5, 6, 7}" by auto
  then have "(of_nat (unat (x AND 7)) :: u32) \<in> {0, 1, 2, 3, 4, 5, 6, 7}" by (auto simp del: of_nat_unat)
  then show ?thesis by simp
qed

lemma probed:
  assumes "s \<in> {0, 1, 2, 3, 4, 5, 6, 7}" "a \<in> {0, 1, 2, 3, 4, 5, 6, 7}"
  shows "linesz (probe_desc 4 s a) = 32" "waysize (probe_desc 4 s a) = 2 ^ (11 + unat s)" "waybit (probe_desc 4 s a) = of_nat (12 + unat s)"
    "ways (probe_desc 4 s a) = of_nat (1 + unat a)"
proof -
  show "linesz (probe_desc 4 s a) = 32" by (simp add: probe_desc_def Let_def)
  show w: "waysize (probe_desc 4 s a) = 2 ^ (11 + unat s)" using assms by (auto simp: probe_desc_def Let_def)
  have "waybit (probe_desc 4 s a) = of_nat (ffs (waysize (probe_desc 4 s a)))" by (simp add: probe_desc_def Let_def)
  moreover have "11 + unat s < 32" using assms(1) by auto
  ultimately show "waybit (probe_desc 4 s a) = of_nat (12 + unat s)" unfolding w by (simp add: ffs_exp)
  show "ways (probe_desc 4 s a) = of_nat (1 + unat a)" using assms(2) by (auto simp: probe_desc_def Let_def)
qed

end
