(* ===== verification/Hw_I2c.thy ===== *)
theory Hw_I2c
  imports Prelude "HOL-Library.Monad_Syntax"
begin

unbundle bit_operations_syntax

text \<open>
  The two-wire controllers of the chip, \<^verbatim>\<open>src/lib/ls1c_i2c.c\<close>. Reading and writing a byte register are the parameter \<open>B\<close>: the
  controller changes its status while it is polled. The delays are left out. The rate of the bus clock is an argument of \<open>i2c_init\<close>; a division by zero is \<open>None\<close>.
\<close>

section \<open>Registers\<close>

record 'h byte_io =
  io_rd :: "u32 \<Rightarrow> 'h \<Rightarrow> u8 \<times> 'h"
  io_wr :: "u8 \<Rightarrow> u32 \<Rightarrow> 'h \<Rightarrow> 'h"

datatype ls1c_i2c = LS1C_I2C_0 | LS1C_I2C_1 | LS1C_I2C_2
datatype ls1c_i2c_direction = LS1C_I2C_DIRECTION_WRITE | LS1C_I2C_DIRECTION_READ
datatype ls1c_i2c_ack = LS1C_I2C_ACK | LS1C_I2C_NACK

record ls1c_i2c_info =
  I2Cx :: ls1c_i2c
  i2c_hz :: u32

definition LS1C_I2C_RET_OK :: int where "LS1C_I2C_RET_OK = 0"
definition LS1C_I2C_RET_TIMEOUT :: int where "LS1C_I2C_RET_TIMEOUT = 1"
definition LS1C_I2C_CLOCK_MAX :: u32 where "LS1C_I2C_CLOCK_MAX = 400000"

definition LS1C_I2C_PRER_LOW_OFFSET :: u32 where "LS1C_I2C_PRER_LOW_OFFSET = 0"
definition LS1C_I2C_PRER_HIGH_OFFSET :: u32 where "LS1C_I2C_PRER_HIGH_OFFSET = 1"
definition LS1C_I2C_CONTROL_OFFSET :: u32 where "LS1C_I2C_CONTROL_OFFSET = 2"
definition LS1C_I2C_DATA_OFFSET :: u32 where "LS1C_I2C_DATA_OFFSET = 3"
definition LS1C_I2C_CMD_OFFSET :: u32 where "LS1C_I2C_CMD_OFFSET = 4"
definition LS1C_I2C_STATUS_OFFSET :: u32 where "LS1C_I2C_STATUS_OFFSET = 4"
definition LS1C_I2C_CONTROL_EN :: u8 where "LS1C_I2C_CONTROL_EN = 0x80"
definition LS1C_I2C_CONTROL_IEN :: u8 where "LS1C_I2C_CONTROL_IEN = 0x40"
definition LS1C_I2C_CMD_START :: u8 where "LS1C_I2C_CMD_START = 0x90"
definition LS1C_I2C_CMD_STOP :: u8 where "LS1C_I2C_CMD_STOP = 0x40"
definition LS1C_I2C_CMD_WRITE :: u8 where "LS1C_I2C_CMD_WRITE = 0x10"
definition LS1C_I2C_CMD_READ_ACK :: u8 where "LS1C_I2C_CMD_READ_ACK = 0x20"
definition LS1C_I2C_CMD_READ_NACK :: u8 where "LS1C_I2C_CMD_READ_NACK = 0x28"
definition LS1C_I2C_CMD_IACK :: u8 where "LS1C_I2C_CMD_IACK = 0x00"
definition LS1C_I2C_STATUS_TIP :: u8 where "LS1C_I2C_STATUS_TIP = 0x02"
definition LS1C_I2C_STATUS_BUSY :: u8 where "LS1C_I2C_STATUS_BUSY = 0x40"
definition LS1C_I2C_STATUS_NACK :: u8 where "LS1C_I2C_STATUS_NACK = 0x80"

definition i2c_get_base :: "ls1c_i2c \<Rightarrow> u32" where
  "i2c_get_base x = (case x of LS1C_I2C_0 \<Rightarrow> 0xbfe58000 | LS1C_I2C_1 \<Rightarrow> 0xbfe68000 | LS1C_I2C_2 \<Rightarrow> 0xbfe70000)"

section \<open>Commands and status\<close>

definition i2c_cmd :: "'h byte_io \<Rightarrow> ls1c_i2c_info \<Rightarrow> u8 \<Rightarrow> 'h \<Rightarrow> 'h" where
  "i2c_cmd B i cmd h = io_wr B cmd (i2c_get_base (I2Cx i) + LS1C_I2C_CMD_OFFSET) h"

definition i2c_cmd_start :: "'h byte_io \<Rightarrow> ls1c_i2c_info \<Rightarrow> 'h \<Rightarrow> 'h" where
  "i2c_cmd_start B i h = i2c_cmd B i LS1C_I2C_CMD_START h"

definition i2c_cmd_stop :: "'h byte_io \<Rightarrow> ls1c_i2c_info \<Rightarrow> 'h \<Rightarrow> 'h" where
  "i2c_cmd_stop B i h = i2c_cmd B i LS1C_I2C_CMD_STOP h"

definition i2c_cmd_write :: "'h byte_io \<Rightarrow> ls1c_i2c_info \<Rightarrow> 'h \<Rightarrow> 'h" where
  "i2c_cmd_write B i h = i2c_cmd B i LS1C_I2C_CMD_WRITE h"

definition i2c_cmd_read_ack :: "'h byte_io \<Rightarrow> ls1c_i2c_info \<Rightarrow> 'h \<Rightarrow> 'h" where
  "i2c_cmd_read_ack B i h = i2c_cmd B i LS1C_I2C_CMD_READ_ACK h"

definition i2c_cmd_read_nack :: "'h byte_io \<Rightarrow> ls1c_i2c_info \<Rightarrow> 'h \<Rightarrow> 'h" where
  "i2c_cmd_read_nack B i h = i2c_cmd B i LS1C_I2C_CMD_READ_NACK h"

definition i2c_cmd_iack :: "'h byte_io \<Rightarrow> ls1c_i2c_info \<Rightarrow> 'h \<Rightarrow> 'h" where
  "i2c_cmd_iack B i h = i2c_cmd B i LS1C_I2C_CMD_IACK h"

definition i2c_get_status :: "'h byte_io \<Rightarrow> ls1c_i2c_info \<Rightarrow> 'h \<Rightarrow> u8 \<times> 'h" where
  "i2c_get_status B i h = io_rd B (i2c_get_base (I2Cx i) + LS1C_I2C_STATUS_OFFSET) h"

text \<open>The polling loop; the argument is the counter before the decrement.\<close>

fun poll_loop :: "'h byte_io \<Rightarrow> ls1c_i2c_info \<Rightarrow> u8 \<Rightarrow> nat \<Rightarrow> 'h \<Rightarrow> bool \<times> 'h" where
  "poll_loop B i b 0 h = (False, h)"
| "poll_loop B i b (Suc n) h =
    (let (st, h) = i2c_get_status B i h in if st AND b \<noteq> 0 then poll_loop B i b n h else (True, h))"

definition i2c_poll_status :: "'h byte_io \<Rightarrow> ls1c_i2c_info \<Rightarrow> u8 \<Rightarrow> 'h \<Rightarrow> bool \<times> 'h" where
  "i2c_poll_status B i b h = poll_loop B i b 20000 h"

definition i2c_init :: "'h byte_io \<Rightarrow> u32 \<Rightarrow> ls1c_i2c_info \<Rightarrow> 'h \<Rightarrow> 'h option" where
  "i2c_init B apb i h =
    (let base = i2c_get_base (I2Cx i);
         (ctrl, h) = io_rd B (base + LS1C_I2C_CONTROL_OFFSET) h;
         ctrl = ctrl AND NOT (LS1C_I2C_CONTROL_EN OR LS1C_I2C_CONTROL_IEN);
         h = io_wr B ctrl (base + LS1C_I2C_CONTROL_OFFSET) h;
         hz = (if i2c_hz i > LS1C_I2C_CLOCK_MAX then LS1C_I2C_CLOCK_MAX else i2c_hz i)
     in if 5 * hz = 0 then None
        else
          let prescale = apb div (5 * hz) - 1;
              h = io_wr B (ucast (prescale AND 0xff)) (base + LS1C_I2C_PRER_LOW_OFFSET) h;
              h = io_wr B (ucast (drop_bit 8 prescale)) (base + LS1C_I2C_PRER_HIGH_OFFSET) h;
              h = i2c_cmd_iack B i h
          in Some (io_wr B (ctrl OR LS1C_I2C_CONTROL_EN) (base + LS1C_I2C_CONTROL_OFFSET) h))"

section \<open>Transfers\<close>

definition i2c_receive_ack :: "'h byte_io \<Rightarrow> ls1c_i2c_info \<Rightarrow> 'h \<Rightarrow> ls1c_i2c_ack \<times> 'h" where
  "i2c_receive_ack B i h =
    (let (st, h) = i2c_get_status B i h in (if LS1C_I2C_STATUS_NACK AND st \<noteq> 0 then LS1C_I2C_NACK else LS1C_I2C_ACK, h))"

text \<open>The loop that receives, with the number of bytes left: the result and the bytes stored.\<close>

fun receive_loop :: "'h byte_io \<Rightarrow> ls1c_i2c_info \<Rightarrow> nat \<Rightarrow> 'h \<Rightarrow> int \<times> u8 list \<times> 'h" where
  "receive_loop B i 0 h = (LS1C_I2C_RET_OK, [], h)"
| "receive_loop B i (Suc n) h =
    (let h = (if n \<noteq> 0 then i2c_cmd_read_ack B i h else i2c_cmd_read_nack B i h);
         (ok, h) = i2c_poll_status B i LS1C_I2C_STATUS_TIP h
     in if \<not> ok then (LS1C_I2C_RET_TIMEOUT, [], h)
        else
          let (x, h) = io_rd B (i2c_get_base (I2Cx i) + LS1C_I2C_DATA_OFFSET) h;
              (r, xs, h) = receive_loop B i n h
          in (r, x # xs, h))"

definition i2c_receive_data :: "'h byte_io \<Rightarrow> ls1c_i2c_info \<Rightarrow> int \<Rightarrow> 'h \<Rightarrow> int \<times> u8 list \<times> 'h" where
  "i2c_receive_data B i len h = receive_loop B i (nat len) h"

definition i2c_send_start_and_addr :: "'h byte_io \<Rightarrow> ls1c_i2c_info \<Rightarrow> u8 \<Rightarrow> ls1c_i2c_direction \<Rightarrow> 'h \<Rightarrow> int \<times> 'h" where
  "i2c_send_start_and_addr B i slave_addr direction h =
    (let (ok, h) = i2c_poll_status B i LS1C_I2C_STATUS_BUSY h
     in if \<not> ok then (LS1C_I2C_RET_TIMEOUT, h)
        else
          let x = push_bit 1 slave_addr OR (if direction = LS1C_I2C_DIRECTION_READ then 1 else 0);
              h = io_wr B x (i2c_get_base (I2Cx i) + LS1C_I2C_DATA_OFFSET) h;
              h = i2c_cmd_start B i h;
              (ok, h) = i2c_poll_status B i LS1C_I2C_STATUS_TIP h
          in (if ok then LS1C_I2C_RET_OK else LS1C_I2C_RET_TIMEOUT, h))"

fun send_loop :: "'h byte_io \<Rightarrow> ls1c_i2c_info \<Rightarrow> int \<Rightarrow> u8 list \<Rightarrow> 'h \<Rightarrow> int \<times> 'h" where
  "send_loop B i len [] h = (LS1C_I2C_RET_OK, h)"
| "send_loop B i len (x # xs) h =
    (let h = io_wr B x (i2c_get_base (I2Cx i) + LS1C_I2C_DATA_OFFSET) h;
         h = io_wr B LS1C_I2C_CMD_WRITE (i2c_get_base (I2Cx i) + LS1C_I2C_CMD_OFFSET) h;
         (ok, h) = i2c_poll_status B i LS1C_I2C_STATUS_TIP h
     in if \<not> ok then (LS1C_I2C_RET_TIMEOUT, h)
        else
          let (ack, h) = i2c_receive_ack B i h
          in if ack \<noteq> LS1C_I2C_ACK then (len, h) else send_loop B i len xs h)"

text \<open>Sending the bytes of \<open>xs\<close>; the length is theirs.\<close>

definition i2c_send_data :: "'h byte_io \<Rightarrow> ls1c_i2c_info \<Rightarrow> u8 list \<Rightarrow> 'h \<Rightarrow> int \<times> 'h" where
  "i2c_send_data B i xs h = send_loop B i (int (length xs)) xs h"

definition i2c_send_stop :: "'h byte_io \<Rightarrow> ls1c_i2c_info \<Rightarrow> 'h \<Rightarrow> 'h" where
  "i2c_send_stop B i h = i2c_cmd_stop B i h"

section \<open>Sending\<close>

text \<open>The status shows the bit for \<open>n\<close> more readings; \<open>h'\<close> is the state when it is first seen clear.\<close>

fun settles :: "'h byte_io \<Rightarrow> ls1c_i2c_info \<Rightarrow> u8 \<Rightarrow> nat \<Rightarrow> 'h \<Rightarrow> 'h \<Rightarrow> bool" where
  "settles B i b 0 h h' = (case i2c_get_status B i h of (st, h1) \<Rightarrow> st AND b = 0 \<and> h1 = h')"
| "settles B i b (Suc n) h h' = (case i2c_get_status B i h of (st, h1) \<Rightarrow> st AND b \<noteq> 0 \<and> settles B i b n h1 h')"

lemma poll_loop_settles: "settles B i b n h h' \<Longrightarrow> n < k \<Longrightarrow> poll_loop B i b k h = (True, h')"
proof (induction n arbitrary: h k)
  case 0
  then show ?case by (cases k) (auto split: prod.splits)
next
  case (Suc n)
  then show ?case by (cases k) (auto split: prod.splits)
qed

text \<open>
  A controller with a slave: a byte written with the write command is on the wire when the transfer ends, in time, and the slave answers
  by what it has got so far.
\<close>

locale i2c_bus =
  fixes B :: "'h byte_io" and i :: ls1c_i2c_info and idle :: "'h \<Rightarrow> bool" and wire :: "'h \<Rightarrow> u8 list" and acked :: "u8 list \<Rightarrow> bool"
  assumes write_law: "\<And>x h. idle h \<Longrightarrow> \<exists>n h'. n < 20000 \<and> idle h' \<and> wire h' = wire h @ [x] \<and>
      settles B i LS1C_I2C_STATUS_TIP n (io_wr B LS1C_I2C_CMD_WRITE (i2c_get_base (I2Cx i) + LS1C_I2C_CMD_OFFSET)
        (io_wr B x (i2c_get_base (I2Cx i) + LS1C_I2C_DATA_OFFSET) h)) h'"
    and status_law: "\<And>h st h'. idle h \<Longrightarrow> i2c_get_status B i h = (st, h') \<Longrightarrow> idle h' \<and> wire h' = wire h \<and> (LS1C_I2C_STATUS_NACK AND st = 0 \<longleftrightarrow> acked (wire h))"
begin

lemma send_loop_acked:
  "idle h \<Longrightarrow> \<exists>h'. idle h' \<and> send_loop B i len xs h = (if \<forall>k<length xs. acked (wire h @ take (Suc k) xs) then 0 else len, h') \<and>
    (\<exists>k\<le>length xs. wire h' = wire h @ take k xs \<and> (\<forall>j<k - 1. acked (wire h @ take (Suc j) xs)) \<and> (k < length xs \<longrightarrow> 0 < k \<and> \<not> acked (wire h @ take k xs)))"
proof (induction xs arbitrary: h)
  case Nil
  then show ?case by (auto simp: LS1C_I2C_RET_OK_def)
next
  case (Cons x xs)
  let ?h1 = "io_wr B LS1C_I2C_CMD_WRITE (i2c_get_base (I2Cx i) + LS1C_I2C_CMD_OFFSET) (io_wr B x (i2c_get_base (I2Cx i) + LS1C_I2C_DATA_OFFSET) h)"
  obtain n h2 where n: "n < 20000" "idle h2" "wire h2 = wire h @ [x]" "settles B i LS1C_I2C_STATUS_TIP n ?h1 h2" using write_law[OF Cons.prems] by blast
  have poll: "i2c_poll_status B i LS1C_I2C_STATUS_TIP ?h1 = (True, h2)" unfolding i2c_poll_status_def by (rule poll_loop_settles[OF n(4,1)])
  obtain st h3 where st: "i2c_get_status B i h2 = (st, h3)" by (metis surj_pair)
  note sl = status_law[OF n(2) st]
  show ?case
  proof (cases "acked (wire h @ [x])")
    case True
    then have step: "send_loop B i len (x # xs) h = send_loop B i len xs h3" using poll st sl n(3) by (simp add: i2c_receive_ack_def)
    obtain h' k where ih: "idle h'" "send_loop B i len xs h3 = (if \<forall>k<length xs. acked (wire h3 @ take (Suc k) xs) then 0 else len, h')"
      "k \<le> length xs" "wire h' = wire h3 @ take k xs" "\<forall>j<k - 1. acked (wire h3 @ take (Suc j) xs)" "k < length xs \<longrightarrow> 0 < k \<and> \<not> acked (wire h3 @ take k xs)"
      using Cons.IH[of h3] sl by blast
    have w: "wire h3 = wire h @ [x]" using sl n(3) by simp
    have all: "(\<forall>k<length (x # xs). acked (wire h @ take (Suc k) (x # xs))) \<longleftrightarrow> (\<forall>k<length xs. acked (wire h3 @ take (Suc k) xs))"
      using True by (simp add: w All_less_Suc2)
    have "\<forall>j<k. acked (wire h @ take (Suc j) (x # xs))" 
    proof (intro allI impI)
      fix j assume "j < k"
      then show "acked (wire h @ take (Suc j) (x # xs))" using True ih(5) w by (cases j) auto
    qed
    then show ?thesis using ih(1-4,6) step unfolding all by (intro exI[of _ h'] conjI exI[of _ "Suc k"]) (auto simp: w)
  next
    case False
    then have "send_loop B i len (x # xs) h = (len, h3)" using poll st sl n(3) by (simp add: i2c_receive_ack_def)
    moreover have "\<not> (\<forall>k<length (x # xs). acked (wire h @ take (Suc k) (x # xs)))" using False by auto
    ultimately show ?thesis using sl n(3) False by (intro exI[of _ h3] conjI exI[of _ 1]) auto
  qed
qed

end

text \<open>A controller whose transfers take three readings of the status, and a slave that answers by \<open>A\<close>.\<close>

record i2c_sim =
  on_wire :: "u8 list"
  out_reg :: u8
  left_busy :: nat

definition sim_i2c :: "(u8 list \<Rightarrow> bool) \<Rightarrow> i2c_sim byte_io" where
  "sim_i2c A = \<lparr>io_rd = (\<lambda>a h. if left_busy h > 0 then (LS1C_I2C_STATUS_TIP, h\<lparr>left_busy := left_busy h - 1\<rparr>) else (if A (on_wire h) then 0 else LS1C_I2C_STATUS_NACK, h)),
    io_wr = (\<lambda>v a h. if a AND 7 = LS1C_I2C_DATA_OFFSET then h\<lparr>out_reg := v\<rparr>
      else if v = LS1C_I2C_CMD_WRITE then h\<lparr>on_wire := on_wire h @ [out_reg h], left_busy := 3\<rparr> else h)\<rparr>"

interpretation i2c_board: i2c_bus "sim_i2c A" i "\<lambda>h. left_busy h = 0" on_wire A for A i
proof
  fix x and h :: i2c_sim
  assume "left_busy h = 0"
  have a: "(i2c_get_base (I2Cx i) + LS1C_I2C_DATA_OFFSET) AND 7 = LS1C_I2C_DATA_OFFSET" "(i2c_get_base (I2Cx i) + LS1C_I2C_CMD_OFFSET) AND 7 \<noteq> LS1C_I2C_DATA_OFFSET"
    by (cases "I2Cx i"; simp add: i2c_get_base_def LS1C_I2C_DATA_OFFSET_def LS1C_I2C_CMD_OFFSET_def)+
  let ?h = "h\<lparr>on_wire := on_wire h @ [x], out_reg := x, left_busy := 0\<rparr>"
  have "settles (sim_i2c A) i LS1C_I2C_STATUS_TIP 3 (io_wr (sim_i2c A) LS1C_I2C_CMD_WRITE (i2c_get_base (I2Cx i) + LS1C_I2C_CMD_OFFSET)
      (io_wr (sim_i2c A) x (i2c_get_base (I2Cx i) + LS1C_I2C_DATA_OFFSET) h)) ?h"
    using a by (simp add: sim_i2c_def i2c_get_status_def numeral_3_eq_3 LS1C_I2C_STATUS_TIP_def LS1C_I2C_STATUS_NACK_def)
  then show "\<exists>n h'. n < 20000 \<and> left_busy h' = 0 \<and> on_wire h' = on_wire h @ [x] \<and>
      settles (sim_i2c A) i LS1C_I2C_STATUS_TIP n (io_wr (sim_i2c A) LS1C_I2C_CMD_WRITE (i2c_get_base (I2Cx i) + LS1C_I2C_CMD_OFFSET)
        (io_wr (sim_i2c A) x (i2c_get_base (I2Cx i) + LS1C_I2C_DATA_OFFSET) h)) h'"
    by (intro exI[of _ 3] exI[of _ ?h]) simp
next
  fix h st h'
  assume "left_busy h = 0" "i2c_get_status (sim_i2c A) i h = (st, h')"
  then show "left_busy h' = 0 \<and> on_wire h' = on_wire h \<and> (LS1C_I2C_STATUS_NACK AND st = 0 \<longleftrightarrow> A (on_wire h))"
    by (auto simp: sim_i2c_def i2c_get_status_def LS1C_I2C_STATUS_NACK_def split: if_splits)
qed

end
