(* ===== verification/Hw_Spi.thy ===== *)
theory Hw_Spi
  imports Hw_I2c Spi_Flash
begin

unbundle bit_operations_syntax

text \<open>
  The SPI controllers of the chip as a driver for any device, \<^verbatim>\<open>src/lib/ls1c_spi.c\<close>. The registers are accessed as in \<open>Hw_I2c\<close>;
  the rate of the bus clock is an argument, and a division by zero is \<open>None\<close>. The driver of the flash (\<open>Spi_Flash\<close>) has its own
  copy of the calculation of the divider: the two agree.
\<close>

datatype ls1c_spi = LS1C_SPI_0 | LS1C_SPI_1

record ls1c_spi_info =
  SPIx :: ls1c_spi
  spi_hz :: u32
  cs :: u8
  cpol :: u8
  cpha :: u8

definition LS1C_SPI_SPCR_OFFSET :: u32 where "LS1C_SPI_SPCR_OFFSET = 0"
definition LS1C_SPI_SPSR_OFFSET :: u32 where "LS1C_SPI_SPSR_OFFSET = 1"
definition LS1C_SPI_TxFIFO_OFFSET :: u32 where "LS1C_SPI_TxFIFO_OFFSET = 2"
definition LS1C_SPI_RxFIFO_OFFSET :: u32 where "LS1C_SPI_RxFIFO_OFFSET = 2"
definition LS1C_SPI_SPER_OFFSET :: u32 where "LS1C_SPI_SPER_OFFSET = 3"
definition LS1C_SPI_SFC_PARAM_OFFSET :: u32 where "LS1C_SPI_SFC_PARAM_OFFSET = 4"
definition LS1C_SPI_SFC_SOFTCS_OFFSET :: u32 where "LS1C_SPI_SFC_SOFTCS_OFFSET = 5"
definition LS1C_SPI_SFC_TIMING_OFFSET :: u32 where "LS1C_SPI_SFC_TIMING_OFFSET = 6"
definition LS1C_SPI_SPCR_CPOL_MASK :: u8 where "LS1C_SPI_SPCR_CPOL_MASK = 0x08"
definition LS1C_SPI_SPCR_CPHA_MASK :: u8 where "LS1C_SPI_SPCR_CPHA_MASK = 0x04"
definition LS1C_SPI_SPCR_SPR_MASK :: u8 where "LS1C_SPI_SPCR_SPR_MASK = 0x03"
definition LS1C_SPI_SPSR_SPIF_MASK :: u8 where "LS1C_SPI_SPSR_SPIF_MASK = 0x80"
definition LS1C_SPI_SPSR_WCOL_MASK :: u8 where "LS1C_SPI_SPSR_WCOL_MASK = 0x40"
definition LS1C_SPI_SPER_SPRE_MASK :: u8 where "LS1C_SPI_SPER_SPRE_MASK = 0x03"
definition LS1C_SPI_TX_TIMEOUT :: nat where "LS1C_SPI_TX_TIMEOUT = 20000"

definition spi_get_base :: "ls1c_spi \<Rightarrow> u32" where
  "spi_get_base x = (case x of LS1C_SPI_0 \<Rightarrow> 0xbfe80000 | LS1C_SPI_1 \<Rightarrow> 0xbfec0000)"

definition spi_get_div :: "u32 \<Rightarrow> u32 \<Rightarrow> u32 option" where
  "spi_get_div apb hz =
    (if hz = 0 then None
     else
       let dv = (apb + hz - 1) div hz;
           dv = (if dv < 2 then 2 else dv);
           dv = (if dv > 4096 then 4096 else dv);
           b = nat (fls dv - 1)
       in Some (if push_bit b 1 = (16 :: u32) then (if dv > push_bit b 1 then 2 + 1 else 2)
                else if push_bit b 1 = (32 :: u32) then (if dv > push_bit b 1 then 3 + 2 else 3)
                else if push_bit b 1 = (8 :: u32) then (if dv > push_bit b 1 then 4 - 2 else 4)
                else if dv > push_bit b 1 then of_nat b - 1 + 1 else of_nat b - 1))"

text \<open>Changing some bits of a register.\<close>

definition update_reg :: "'h byte_io \<Rightarrow> u32 \<Rightarrow> (u8 \<Rightarrow> u8) \<Rightarrow> 'h \<Rightarrow> 'h" where
  "update_reg B a f h = (let (val, h) = io_rd B a h in io_wr B (f val) a h)"

definition spi_set_clock :: "'h byte_io \<Rightarrow> u32 \<Rightarrow> ls1c_spi_info \<Rightarrow> 'h \<Rightarrow> 'h option" where
  "spi_set_clock B apb i h =
    do { let base = spi_get_base (SPIx i);
         dv \<leftarrow> spi_get_div apb (spi_hz i);
         let h = update_reg B (base + LS1C_SPI_SPCR_OFFSET) (\<lambda>val. (val AND NOT LS1C_SPI_SPCR_SPR_MASK) OR (ucast dv AND LS1C_SPI_SPCR_SPR_MASK)) h;
         Some (update_reg B (base + LS1C_SPI_SPER_OFFSET) (\<lambda>val. (val AND NOT LS1C_SPI_SPER_SPRE_MASK) OR (ucast (drop_bit 2 dv) AND LS1C_SPI_SPER_SPRE_MASK)) h) }"

definition spi_set_mode :: "'h byte_io \<Rightarrow> ls1c_spi_info \<Rightarrow> 'h \<Rightarrow> 'h" where
  "spi_set_mode B i h =
    update_reg B (spi_get_base (SPIx i) + LS1C_SPI_SPCR_OFFSET)
      (\<lambda>val. (((val AND NOT LS1C_SPI_SPCR_CPOL_MASK) OR push_bit 3 (cpol i)) AND NOT LS1C_SPI_SPCR_CPHA_MASK) OR push_bit 2 (cpha i)) h"

definition spi_set_cs :: "'h byte_io \<Rightarrow> ls1c_spi_info \<Rightarrow> int \<Rightarrow> 'h \<Rightarrow> 'h" where
  "spi_set_cs B i new_status h =
    update_reg B (spi_get_base (SPIx i) + LS1C_SPI_SFC_SOFTCS_OFFSET)
      (\<lambda>val. let val = val OR push_bit (unat (cs i)) 0x01
             in if new_status \<noteq> 0 then val OR push_bit (unat (cs i)) 0x10 else val AND NOT (push_bit (unat (cs i)) 0x10)) h"

definition spi_init :: "'h byte_io \<Rightarrow> u32 \<Rightarrow> ls1c_spi_info \<Rightarrow> 'h \<Rightarrow> 'h option" where
  "spi_init B apb i h =
    do { let base = spi_get_base (SPIx i);
         let h = io_wr B 0x53 (base + LS1C_SPI_SPCR_OFFSET) h;
         let h = io_wr B 0xc0 (base + LS1C_SPI_SPSR_OFFSET) h;
         let h = io_wr B 0x03 (base + LS1C_SPI_SPER_OFFSET) h;
         let h = update_reg B (base + LS1C_SPI_SFC_PARAM_OFFSET) (\<lambda>val. val AND 0xfe) h;
         let h = io_wr B 0x05 (base + LS1C_SPI_SFC_TIMING_OFFSET) h;
         h \<leftarrow> spi_set_clock B apb i h;
         Some (spi_set_mode B i h) }"

fun txrx_loop :: "'h byte_io \<Rightarrow> u32 \<Rightarrow> nat \<Rightarrow> 'h \<Rightarrow> 'h" where
  "txrx_loop B a 0 h = h"
| "txrx_loop B a (Suc n) h = (let (st, h) = io_rd B a h in if LS1C_SPI_SPSR_SPIF_MASK AND st \<noteq> 0 then h else txrx_loop B a n h)"

definition spi_wait_txrx_done :: "'h byte_io \<Rightarrow> ls1c_spi_info \<Rightarrow> 'h \<Rightarrow> 'h" where
  "spi_wait_txrx_done B i h = txrx_loop B (spi_get_base (SPIx i) + LS1C_SPI_SPSR_OFFSET) LS1C_SPI_TX_TIMEOUT h"

definition spi_clear :: "'h byte_io \<Rightarrow> ls1c_spi_info \<Rightarrow> 'h \<Rightarrow> 'h" where
  "spi_clear B i h =
    (let a = spi_get_base (SPIx i) + LS1C_SPI_SPSR_OFFSET;
         h = update_reg B a (\<lambda>val. val OR LS1C_SPI_SPSR_SPIF_MASK) h;
         (val, h) = io_rd B a h
     in if LS1C_SPI_SPSR_WCOL_MASK AND val \<noteq> 0 then io_wr B (val AND NOT LS1C_SPI_SPSR_WCOL_MASK) a h else h)"

definition spi_txrx_byte :: "'h byte_io \<Rightarrow> ls1c_spi_info \<Rightarrow> u8 \<Rightarrow> 'h \<Rightarrow> u8 \<times> 'h" where
  "spi_txrx_byte B i tx_ch h =
    (let base = spi_get_base (SPIx i);
         h = io_wr B tx_ch (base + LS1C_SPI_TxFIFO_OFFSET) h;
         h = spi_wait_txrx_done B i h;
         (rx_ch, h) = io_rd B (base + LS1C_SPI_RxFIFO_OFFSET) h
     in (rx_ch, spi_clear B i h))"

section \<open>The divider\<close>

lemma pow2_word: "b < 32 \<Longrightarrow> k < 32 \<Longrightarrow> push_bit b (1 :: u32) = 2 ^ k \<longleftrightarrow> b = k"
  by (metis bit_exp_u32 push_bit_eq_mult mult_1)

lemma spi_dividers_agree: "hz \<noteq> 0 \<Longrightarrow> spi_get_div (clk hw) hz = Some (ls1x_spi_div hw hz)"
proof -
  assume hz: "hz \<noteq> 0"
  define d0 where "d0 = (clk hw + hz - 1) div hz"
  define d where "d = (if (if d0 < 2 then 2 else d0) > 4096 then 4096 else (if d0 < 2 then 2 else d0))"
  have "d \<noteq> 0" by (auto simp: d_def)
  then obtain b where b: "b < 32" "top_bit d b" using top_bit_exists by blast
  have f: "nat (fls d - 1) = b" using fls_top[OF b(2)] by simp
  have e: "push_bit b (1 :: u32) = 16 \<longleftrightarrow> b = 4" "push_bit b (1 :: u32) = 32 \<longleftrightarrow> b = 5" "push_bit b (1 :: u32) = 8 \<longleftrightarrow> b = 3"
    using pow2_word[OF b(1), of 4] pow2_word[OF b(1), of 5] pow2_word[OF b(1), of 3] by simp_all
  have "spi_get_div (clk hw) hz = Some (if b = 4 then if d > push_bit b 1 then 2 + 1 else 2 else if b = 5 then if d > push_bit b 1 then 3 + 2 else 3
      else if b = 3 then if d > push_bit b 1 then 4 - 2 else 4 else if d > push_bit b 1 then of_nat b - 1 + 1 else of_nat b - 1)"
    unfolding spi_get_div_def Let_def d0_def[symmetric] d_def[symmetric] f e if_not_P[OF hz] by (rule refl)
  moreover have "ls1x_spi_div hw hz = (if b = 4 then if d > 16 then 2 + 1 else 2 else if b = 5 then if d > 32 then 3 + 2 else 3
      else if b = 3 then if d > 8 then 4 - 2 else 4 else if d > push_bit b 1 then of_nat b - 1 + 1 else of_nat b - 1)"
    unfolding ls1x_spi_div_def Let_def DIV_ROUND_UP_def d0_def[symmetric] d_def[symmetric] f by (rule refl)
  ultimately show ?thesis using e by (cases "b = 4"; cases "b = 5"; cases "b = 3") simp_all
qed

end
