(* ===== verification/Device_Claims.thy ===== *)
theory Device_Claims
  imports Can Cache Hw_Spi
begin

unbundle bit_operations_syntax

text \<open>
  Properties of the drivers for the CAN, two-wire and SPI controllers and of the caches.
\<close>

lemma received_std:
  assumes "shows_frame B f h" "f IDE_RTR_DLC = frame_info m" "IDE m = 0" "unat (DLC m) \<le> 8"
  shows "CAN_Receive B m0 h = (m0\<lparr>IDE := 0, RTR := push_bit 2 (RTR m AND 1), DLC := DLC m,
    StdId := push_bit 3 (ucast (map f [ID..<ID + 2] ! 0)) OR drop_bit 5 (ucast (map f [ID..<ID + 2] ! 1)), Data := map f [ID + 2..<ID + 2 + 8]\<rparr>, h)"
proof -
  have rd: "can_rd B IDE_RTR_DLC h = (frame_info m, h)" using assms(1,2) by (simp add: shows_frame_def IDE_RTR_DLC_def)
  have "get_regs B ID 2 h = (map f [ID..<ID + 2], h)" "get_regs B (ID + 2) 8 h = (map f [ID + 2..<ID + 2 + 8], h)"
    using assms(1) by (intro get_regs_shown; simp add: ID_def)+
  then show ?thesis using frame_info_parts[of m] assms(3,4) rd unfolding CAN_Receive_def by (simp del: upt_rec_numeral upt_Suc)
qed

lemma received_ext:
  assumes "shows_frame B f h" "f IDE_RTR_DLC = frame_info m" "IDE m = 1" "unat (DLC m) \<le> 8"
  shows "CAN_Receive B m0 h = (m0\<lparr>IDE := 1, RTR := push_bit 2 (RTR m AND 1), DLC := DLC m,
    ExtId := push_bit 21 (ucast (map f [ID..<ID + 4] ! 0)) OR push_bit 13 (ucast (map f [ID..<ID + 4] ! 1)) OR push_bit 5 (ucast (map f [ID..<ID + 4] ! 2)) OR
      drop_bit 3 (ucast (map f [ID..<ID + 4] ! 3)), Data := map f [BUF..<BUF + 8]\<rparr>, h)"
proof -
  have rd: "can_rd B IDE_RTR_DLC h = (frame_info m, h)" using assms(1,2) by (simp add: shows_frame_def IDE_RTR_DLC_def)
  have "get_regs B ID 4 h = (map f [ID..<ID + 4], h)" "get_regs B BUF 8 h = (map f [BUF..<BUF + 8], h)"
    using assms(1) by (intro get_regs_shown; simp add: ID_def BUF_def)+
  then show ?thesis using frame_info_parts[of m] assms(3,4) rd unfolding CAN_Receive_def by (simp del: upt_rec_numeral upt_Suc)
qed

text \<open>
  C30. A frame that is sent is received: when a message with at most eight bytes of data goes out through one controller and another
  controller shows the same frame registers, the received message has the kind of identifier, the identifier cut to its 11 or 29
  bits, the length and the data of the one that was sent. Only the mark of a remote frame is lost: a 1 arrives as a 4, which
  \<^verbatim>\<open>CAN_Transmit\<close> takes for a data frame.
\<close>

theorem can_frame_roundtrip:
  assumes "can_sender B tx" "IDE m = 0 \<or> IDE m = 1" "unat (DLC m) \<le> 8" "length (Data m) = 8"
  shows "\<exists>h1. CAN_Transmit B m h = Some h1 \<and> (\<forall>B' (h' :: 'k) m0. shows_frame B' (tx h1) h' \<longrightarrow>
    (\<exists>m'. CAN_Receive B' m0 h' = (m', h') \<and> IDE m' = IDE m \<and> DLC m' = DLC m \<and> RTR m' = push_bit 2 (RTR m AND 1) \<and>
      (if IDE m = 0 then StdId m' = take_bit 11 (StdId m) else ExtId m' = take_bit 29 (ExtId m)) \<and>
      take (unat (DLC m)) (Data m') = take (unat (DLC m)) (Data m)))"
proof (cases "IDE m = 0")
  case True
  obtain h1 where h1: "CAN_Transmit B m h = Some h1" "tx h1 IDE_RTR_DLC = frame_info m" "map (tx h1) [ID..<ID + 2] = [ucast (drop_bit 3 (StdId m)), ucast (push_bit 5 (StdId m))]"
    "\<And>i. i < unat (DLC m) \<Longrightarrow> tx h1 (ID + 2 + i) = Data m ! i" using can_sender.sent_std[OF assms(1) True assms(3,4)] by metis
  have data: "take (unat (DLC m)) (map (tx h1) [ID + 2..<ID + 2 + 8]) = take (unat (DLC m)) (Data m)"
    using h1(4) assms(3,4) by (intro nth_equalityI) simp_all
  show ?thesis
  proof (intro exI[of _ h1] conjI allI impI)
    fix B' :: "'k can_io" and h' m0
    assume "shows_frame B' (tx h1) h'"
    from received_std[where f = "tx h1", OF this h1(2) True assms(3), unfolded h1(3)] show "\<exists>m'. CAN_Receive B' m0 h' = (m', h') \<and> IDE m' = IDE m \<and> DLC m' = DLC m \<and>
      RTR m' = push_bit 2 (RTR m AND 1) \<and> (if IDE m = 0 then StdId m' = take_bit 11 (StdId m) else ExtId m' = take_bit 29 (ExtId m)) \<and>
      take (unat (DLC m)) (Data m') = take (unat (DLC m)) (Data m)"
      using True data std_id_parts[of "StdId m"] by simp
  qed (rule h1(1))
next
  case False
  then have e: "IDE m = 1" using assms(2) by blast
  obtain h1 where h1: "CAN_Transmit B m h = Some h1" "tx h1 IDE_RTR_DLC = frame_info m"
    "map (tx h1) [ID..<ID + 4] = [ucast (drop_bit 21 (ExtId m)), ucast (drop_bit 13 (ExtId m)), ucast (drop_bit 5 (ExtId m)), ucast (push_bit 3 (ExtId m))]"
    "\<And>i. i < unat (DLC m) \<Longrightarrow> tx h1 (BUF + i) = Data m ! i" using can_sender.sent_ext[OF assms(1) e assms(3,4)] by metis
  have data: "take (unat (DLC m)) (map (tx h1) [BUF..<BUF + 8]) = take (unat (DLC m)) (Data m)"
    using h1(4) assms(3,4) by (intro nth_equalityI) simp_all
  show ?thesis
  proof (intro exI[of _ h1] conjI allI impI)
    fix B' :: "'k can_io" and h' m0
    assume "shows_frame B' (tx h1) h'"
    from received_ext[where f = "tx h1", OF this h1(2) e assms(3), unfolded h1(3)] show "\<exists>m'. CAN_Receive B' m0 h' = (m', h') \<and> IDE m' = IDE m \<and> DLC m' = DLC m \<and>
      RTR m' = push_bit 2 (RTR m AND 1) \<and> (if IDE m = 0 then StdId m' = take_bit 11 (StdId m) else ExtId m' = take_bit 29 (ExtId m)) \<and>
      take (unat (DLC m)) (Data m') = take (unat (DLC m)) (Data m)"
      using e data ext_id_parts[of "ExtId m"] by simp
  qed (rule h1(1))
qed

theorem can_frame_roundtrip_witness:
  "\<exists>h1. CAN_Transmit reg_file \<lparr>StdId = 0x123, ExtId = 0, IDE = 0, RTR = 0, DLC = 3, Data = [1, 2, 3, 4, 5, 6, 7, 8]\<rparr> (\<lambda>_. 0) = Some h1 \<and>
    (\<exists>m'. CAN_Receive reg_file \<lparr>StdId = 0, ExtId = 0, IDE = 0, RTR = 0, DLC = 0, Data = []\<rparr> (h1(CMR := 0)) = (m', h1(CMR := 0)) \<and>
      StdId m' = 0x123 \<and> take 3 (Data m') = [1, 2, 3])"
proof -
  let ?m = "\<lparr>StdId = 0x123, ExtId = 0, IDE = 0, RTR = 0, DLC = 3, Data = [1, 2, 3, 4, 5, 6, 7, 8]\<rparr>"
  from can_frame_roundtrip[where 'k = "nat \<Rightarrow> u8", OF register_file.can_sender_axioms, of ?m "\<lambda>_. 0"]
  obtain h1 where h1: "CAN_Transmit reg_file ?m (\<lambda>_. 0) = Some h1"
    "\<forall>B' (h' :: nat \<Rightarrow> u8). shows_frame B' (h1(CMR := 0)) h' \<longrightarrow>
      (\<forall>m0. \<exists>m'. CAN_Receive B' m0 h' = (m', h') \<and> IDE m' = 0 \<and> DLC m' = 3 \<and> RTR m' = 0 \<and> StdId m' = 0x123 \<and> take 3 (Data m') = [1, 2, 3])"
    by auto
  have "shows_frame reg_file (h1(CMR := 0)) (h1(CMR := 0))" by (simp add: shows_frame_def reg_file_def)
  then show ?thesis using h1 by blast
qed

section \<open>Caches\<close>

lemma line_down: "x AND NOT (2 ^ k - 1) = (of_nat (unat x div 2 ^ k * 2 ^ k) :: u32)"
proof -
  have "x AND NOT (2 ^ k - 1) = word_of_int (uint (x AND NOT (2 ^ k - 1)))" by simp
  also have "\<dots> = word_of_int (int (unat x div 2 ^ k * 2 ^ k))" unfolding and_not_low by (simp add: of_nat_div)
  finally show ?thesis by simp
qed

lemma line_numbers:
  assumes "0 < L" "a < (b :: nat)"
  shows "(\<lambda>j. j * L) ` {a div L..<Suc ((b - 1) div L)} = {x. L dvd x \<and> a < x + L \<and> x < b}"
proof (intro set_eqI iffI)
  fix x assume "x \<in> (\<lambda>j. j * L) ` {a div L..<Suc ((b - 1) div L)}"
  then obtain j where j: "x = j * L" "a div L \<le> j" "j \<le> (b - 1) div L" unfolding image_iff by (metis atLeastLessThan_iff less_Suc_eq_le)
  have "a < Suc (a div L) * L" using assms(1) by (simp add: dividend_less_div_times)
  also have "\<dots> \<le> Suc j * L" using j(2) by (intro mult_right_mono) auto
  finally have "a < x + L" using j(1) by simp
  moreover have "j * L \<le> (b - 1) div L * L" using j(3) by (intro mult_right_mono) auto
  then have "x < b" using j(1) div_times_less_eq_dividend[of "b - 1" L] assms(2) by linarith
  ultimately show "x \<in> {x. L dvd x \<and> a < x + L \<and> x < b}" using j(1) by simp
next
  fix x assume "x \<in> {x. L dvd x \<and> a < x + L \<and> x < b}"
  then obtain j where j: "x = j * L" "a < j * L + L" "j * L < b" by (auto simp: dvd_def mult.commute)
  have "a div L < Suc j" using j(2) assms(1) by (simp add: less_mult_imp_div_less)
  moreover have "j \<le> (b - 1) div L" using j(3) assms(1) by (simp add: less_eq_div_iff_mult_less_eq)
  ultimately show "x \<in> (\<lambda>j. j * L) ` {a div L..<Suc ((b - 1) div L)}" using j(1) by auto
qed

lemma line_range_lines:
  assumes "unat (linesz d) = 2 ^ k" "start < limit"
  shows "\<exists>ls. (\<forall>op. line_range op d start limit = Some (map (Pair op) ls)) \<and> distinct ls \<and>
    set ls = {a. 2 ^ k dvd unat a \<and> unat start < unat a + 2 ^ k \<and> a < limit}"
proof -
  let ?a = "unat start div 2 ^ k" and ?b = "(unat limit - 1) div 2 ^ k"
  let ?ls = "map (\<lambda>j. of_nat (j * 2 ^ k)) [?a..<Suc ?b] :: u32 list"
  have lt: "unat start < unat limit" using assms(2) by (simp add: word_less_nat_alt)
  have "(ucast (linesz d) :: u32) = of_nat (unat (linesz d))" by simp
  then have L: "(ucast (linesz d) :: u32) = 2 ^ k" unfolding assms(1) by simp
  have lim: "unat (limit - 1) = unat limit - 1" using lt by (simp add: unat_minus)
  have "?b * 2 ^ k \<le> unat limit - 1" by (rule div_times_less_eq_dividend)
  also have "unat limit - 1 < 2 ^ 32" using u32_lt[of limit] by simp
  finally have top: "?b * 2 ^ k < 2 ^ 32" .
  have le: "?a \<le> ?b" using lt by (intro div_le_mono) simp
  have run: "line_range op d start limit = Some (map (Pair op) ?ls)" for op
    using range_loop_lines[OF le top, of op] by (simp add: line_range_def L line_down lim comp_def del: of_nat_mult upt_Suc)
  have small: "unat (of_nat (j * 2 ^ k) :: u32) = j * 2 ^ k" if "j \<le> ?b" for j
  proof -
    have "j * 2 ^ k \<le> ?b * 2 ^ k" using that by (intro mult_right_mono) auto
    then have "j * 2 ^ k < 2 ^ 32" using top by (rule le_less_trans)
    then show ?thesis by (simp add: unat_of_nat del: of_nat_mult)
  qed
  have "inj_on (\<lambda>j. of_nat (j * 2 ^ k) :: u32) {?a..<Suc ?b}"
  proof (rule inj_onI)
    fix x y assume xy: "x \<in> {?a..<Suc ?b}" "y \<in> {?a..<Suc ?b}" "(of_nat (x * 2 ^ k) :: u32) = of_nat (y * 2 ^ k)"
    then have "x * 2 ^ k = y * 2 ^ k" using small by (metis atLeastLessThan_iff less_Suc_eq_le)
    then show "x = y" by simp
  qed
  then have dist: "distinct ?ls" unfolding distinct_map by (simp only: distinct_upt set_upt)
  have "unat ` set ?ls = (\<lambda>j. j * 2 ^ k) ` {?a..<Suc ?b}" unfolding set_map image_image set_upt using small by (intro image_cong) auto
  also have "\<dots> = {x. 2 ^ k dvd x \<and> unat start < x + 2 ^ k \<and> x < unat limit}" by (rule line_numbers) (use lt in auto)
  finally have im: "unat ` set ?ls = {x. 2 ^ k dvd x \<and> unat start < x + 2 ^ k \<and> x < unat limit}" .
  have "x \<in> set ?ls \<longleftrightarrow> unat x \<in> unat ` set ?ls" for x by (auto simp: inj_image_mem_iff)
  then have "set ?ls = {a. 2 ^ k dvd unat a \<and> unat start < unat a + 2 ^ k \<and> a < limit}" unfolding im by (auto simp: word_less_nat_alt)
  then show ?thesis using run dist by blast
qed

text \<open>
  C31. Writing back or invalidating a range covers it: for a range that is not empty and not larger than the cache, the loop ends,
  and each line that has a byte of the range gets exactly one cache instruction, and no other line gets one.
\<close>

theorem cache_range_lines:
  assumes "unat (linesz d) = 2 ^ k" "start < limit" "limit - start \<le> cachesize d"
  shows "\<exists>ls. dcache_writeback_invalidate_range d start limit = Some (map (Pair Hit_Writeback_Inv_D) ls) \<and>
    icache_invalidate_range d start limit = Some (map (Pair Hit_Invalidate_I) ls) \<and> distinct ls \<and>
    set ls = {a. 2 ^ k dvd unat a \<and> unat start < unat a + 2 ^ k \<and> a < limit}"
  using line_range_lines[OF assms(1,2)] assms(3)
  by (auto simp: dcache_writeback_invalidate_range_def icache_invalidate_range_def not_less[symmetric])

text \<open>Three lines of a cache of 16 kB with four ways.\<close>

theorem cache_range_lines_witness:
  "\<exists>ls. dcache_writeback_invalidate_range (probe_desc 4 1 3) 0x80001010 0x80001050 = Some (map (Pair Hit_Writeback_Inv_D) ls) \<and> 0x80001020 \<in> set ls"
proof -
  have "unat (linesz (probe_desc 4 1 3)) = 2 ^ 5" "(0x80001050 - 0x80001010 :: u32) \<le> cachesize (probe_desc 4 1 3)" by (simp_all add: probe_desc_def Let_def)
  from cache_range_lines[OF this(1) _ this(2)] show ?thesis by auto
qed

lemma whole_skips_ways:
  assumes "s \<in> {0, 1, 2, 3, 4, 5, 6, 7}" "a \<in> {0, 1, 2, 3, 4, 5, 6, 7}" "w = 11 + unat s"
  shows "waysize (probe_desc 4 s a) = 2 ^ w \<and> (\<exists>tr. whole_cache op (probe_desc 4 s a) = Some tr \<and> (\<forall>(op', x)\<in>set tr. \<not> bit x w))"
proof -
  define d where "d = probe_desc 4 s a"
  note p = probed[OF assms(1,2), folded d_def assms(3)]
  have sa: "unat s \<le> 7" "unat a \<le> 7" using assms(1,2) by auto
  let ?m = "2 ^ (1 + unat s) :: nat"
  have m: "1024 * ?m = 2 ^ w" unfolding assms(3) by (simp add: power_add)
  have w: "w < 19" using sa(1) assms(3) by simp
  have "(2 :: nat) ^ w \<le> 2 ^ 18" using w by (intro power_increasing) simp_all
  then have lim: "1024 * ?m < 2 ^ 31" unfolding m by simp
  have n: "1 + unat a \<le> 8" using sa(2) by simp
  have "(2 :: nat) ^ (w + 1) * (1 + unat a) \<le> 2 ^ 19 * 8" using w n by (intro mult_mono power_increasing) simp_all
  then have top: "2 ^ (w + 1) * (1 + unat a) < (2 ^ 32 :: nat)" by simp
  have "waybit d = of_nat (w + 1)" using p(3) unfolding assms(3) by (simp add: ac_simps)
  then have wb: "unat (waybit d) = w + 1" using w by (simp add: unat_of_nat del: of_nat_add of_nat_Suc)
  have wd: "waysize d = of_nat (1024 * ?m)" using p(2) unfolding m by simp
  have inc: "push_bit (unat (waybit d)) (1 :: u32) = of_nat (2 ^ (w + 1))" "push_bit (unat (waybit d)) (ucast (ways d)) = (of_nat (2 ^ (w + 1) * (1 + unat a)) :: u32)"
  proof -
    have "(ucast (ways d) :: u32) = of_nat (1 + unat a)" unfolding p(4) using n by (simp only: unsigned_of_nat take_bit_nat_eq_self) (simp add: take_bit_nat_eq_self del: of_nat_add of_nat_Suc)
    then show "push_bit (unat (waybit d)) (1 :: u32) = of_nat (2 ^ (w + 1))" "push_bit (unat (waybit d)) (ucast (ways d)) = (of_nat (2 ^ (w + 1) * (1 + unat a)) :: u32)"
      unfolding wb by (simp_all add: push_bit_eq_mult algebra_simps)
  qed
  let ?F = "\<lambda>i. way_ops op ?m (of_nat (2 ^ (w + 1) * i))"
  have "whole_cache op d = Some (concat (map ?F [0..<1 + unat a]))"
    using ws_loop_eq[OF p(1) wd lim, of "2 ^ (w + 1)" 0 "1 + unat a" op] top unfolding whole_cache_def inc by simp
  moreover have "\<forall>(op', x)\<in>set (concat (map ?F [0..<1 + unat a])). \<not> bit x w"
  proof clarify
    fix op' x assume "(op', x) \<in> set (concat (map ?F [0..<1 + unat a]))" and b: "bit x w"
    then obtain i where "(op', x) \<in> set (?F i)" unfolding set_concat set_map by blast
    then show False using way_ops_bit[OF _ m] b w by simp
  qed
  ultimately show ?thesis using p(2) unfolding d_def by blast
qed

text \<open>
  C32. The functions for a whole cache, \<^verbatim>\<open>dcache_writeback_invalidate_all\<close> and \<^verbatim>\<open>icache_invalidate_all\<close>, miss every second
  way: after \<^verbatim>\<open>cache_probe\<close> found lines of 32 bytes in both caches, they end, but in no cache instruction is the lowest of
  the bits set that select the way, since \<^verbatim>\<open>ffs\<close> counts bits from one.
\<close>

theorem cache_all_skips_ways:
  assumes "drop_bit 19 config1 AND 7 = 4" "drop_bit 10 config1 AND 7 = 4" "cache_probe config1 st = (ic, dc)"
    and "wi = 11 + unat (drop_bit 22 config1 AND 7)" "wd = 11 + unat (drop_bit 13 config1 AND 7)"
  shows "waysize ic = 2 ^ wi \<and> (\<exists>tr. icache_invalidate_all ic = Some tr \<and> (\<forall>(op, x)\<in>set tr. \<not> bit x wi)) \<and>
    waysize dc = 2 ^ wd \<and> (\<exists>tr. dcache_writeback_invalidate_all dc = Some tr \<and> (\<forall>(op, x)\<in>set tr. \<not> bit x wd))"
proof -
  have "ic = probe_desc 4 (drop_bit 22 config1 AND 7) (drop_bit 16 config1 AND 7)"
    "dc = probe_desc 4 (drop_bit 13 config1 AND 7) (drop_bit 7 config1 AND 7)"
    using assms(1-3) by (simp_all add: cache_probe_def Let_def split: prod.splits)
  then show ?thesis
    using whole_skips_ways[OF three_bits[of "drop_bit 22 config1"] three_bits[of "drop_bit 16 config1"] assms(4), of Index_Invalidate_I]
      whole_skips_ways[OF three_bits[of "drop_bit 13 config1"] three_bits[of "drop_bit 7 config1"] assms(5), of Index_Writeback_Inv_D]
    unfolding icache_invalidate_all_def dcache_writeback_invalidate_all_def by blast
qed

text \<open>Caches of 16 kB with four ways of 128 lines of 32 bytes each.\<close>

theorem cache_all_skips_ways_witness:
  "\<exists>ic dc. cache_probe 0x00633180 (unprobed, unprobed) = (ic, dc) \<and> waysize ic = 2 ^ 12 \<and> waysize dc = 2 ^ 12 \<and>
    (\<exists>tr. icache_invalidate_all ic = Some tr \<and> (\<forall>(op, x)\<in>set tr. \<not> bit x 12)) \<and>
    (\<exists>tr. dcache_writeback_invalidate_all dc = Some tr \<and> (\<forall>(op, x)\<in>set tr. \<not> bit x 12))"
proof -
  obtain ic dc where c: "cache_probe 0x00633180 (unprobed, unprobed) = (ic, dc)" by (cases "cache_probe 0x00633180 (unprobed, unprobed)")
  have "drop_bit 19 (0x00633180 :: u32) AND 7 = 4" "drop_bit 10 (0x00633180 :: u32) AND 7 = 4"
    "12 = 11 + unat (drop_bit 22 (0x00633180 :: u32) AND 7)" "12 = 11 + unat (drop_bit 13 (0x00633180 :: u32) AND 7)" by code_simp+
  from cache_all_skips_ways[OF this(1,2) c this(3,4)] show ?thesis using c by blast
qed

section \<open>The two-wire controller\<close>

text \<open>
  C33. Sending on the two-wire bus stops at the first byte that is not acknowledged: the bytes before it and this byte are on the
  wire, in order, and nothing else. The call returns 0 exactly when every byte was acknowledged, and the length of the
  message otherwise.
\<close>

theorem i2c_send_acked:
  assumes "i2c_bus B i idle wire acked" "idle h"
  shows "\<exists>h'. idle h' \<and> i2c_send_data B i xs h = (if \<forall>k<length xs. acked (wire h @ take (Suc k) xs) then 0 else int (length xs), h') \<and>
    (\<exists>k\<le>length xs. wire h' = wire h @ take k xs \<and> (\<forall>j<k - 1. acked (wire h @ take (Suc j) xs)) \<and>
      (k < length xs \<longrightarrow> 0 < k \<and> \<not> acked (wire h @ take k xs)))"
  unfolding i2c_send_data_def by (rule i2c_bus.send_loop_acked[OF assms])

text \<open>A slave that takes two bytes: the third one is not acknowledged, the fourth not sent.\<close>

theorem i2c_send_acked_witness:
  "\<exists>h'. i2c_send_data (sim_i2c (\<lambda>w. length w < 3)) \<lparr>I2Cx = LS1C_I2C_0, i2c_hz = 100000\<rparr> [1, 2, 3, 4] \<lparr>on_wire = [], out_reg = 0, left_busy = 0\<rparr> = (4, h') \<and>
    on_wire h' = [1, 2, 3]"
proof -
  let ?A = "\<lambda>w :: u8 list. length w < 3" and ?h = "\<lparr>on_wire = [], out_reg = 0, left_busy = 0\<rparr>" and ?i = "\<lparr>I2Cx = LS1C_I2C_0, i2c_hz = 100000\<rparr>"
  define xs :: "u8 list" where "xs = [1, 2, 3, 4]"
  have len: "length xs = 4" by (simp add: xs_def)
  obtain h' k where r: "i2c_send_data (sim_i2c ?A) ?i xs ?h = (if \<forall>k<4. ?A (take (Suc k) xs) then 0 else 4, h')" and
    k: "k \<le> 4" "on_wire h' = take k xs" "\<forall>j<k - 1. ?A (take (Suc j) xs)" "k < 4 \<longrightarrow> 0 < k \<and> \<not> ?A (take k xs)"
    using i2c_send_acked[OF i2c_board.i2c_bus_axioms, of ?h ?A ?i xs, unfolded len i2c_sim.select_convs append_Nil of_nat_numeral, OF refl] by blast
  have "\<not> (\<forall>k<4. ?A (take (Suc k) xs))" by (auto simp: len intro!: exI[of _ 2])
  then have "i2c_send_data (sim_i2c ?A) ?i xs ?h = (4, h')" using r by (simp only: if_False)
  moreover have "k \<noteq> 4" using k(3) by (auto simp: len dest: spec[of _ 2])
  then have "k = 3" using k(1,4) by (cases "k < 3") (auto simp: len)
  ultimately show ?thesis using k(2) by (simp add: xs_def)
qed

end
