(* ===== verification/Spec2Isabelle.thy ===== *)
theory Spec2Isabelle
  imports Kernel_Claims Driver_Claims Heap_Claims Memory_Claims Library_Claims Shell_Claims Env_Claims Flash_Claims Printf_Claims Mtd_Claims Nand_Claims File_Claims Device_Claims
begin

text \<open>
  \<^bold>\<open>A verification library for luojiOs on the Loongson 1C.\<close>

  luojiOs is a small operating system for one MIPS processor: a preemptive thread kernel with
  semaphores and mailboxes, a first-fit heap, drivers for the on-chip devices, a C library and a
  command shell. The library models the C code as HOL functions on explicit states. A machine
  integer keeps its width (\<open>u8\<close>, \<open>u16\<close>, \<open>u32\<close> are words of \<open>Prelude\<close>); a C \<^verbatim>\<open>int\<close> is an \<open>int\<close> where
  the code keeps it in range, and its wrap-around is written out where it matters. An assertion
  that spins, an access outside a buffer and a broken list are error values, never unspecified
  ones.

  \<^bold>\<open>How the parts interact.\<close> \<^verbatim>\<open>osMain\<close> builds five threads on the heap and starts the first. A timer
  interrupt advances the tick, charges the running thread, and ends the waits that are over;
  \<^verbatim>\<open>rt_schedule\<close> picks the next thread from the ready queues. Threads wait for each other through
  semaphores and mailboxes, whose wait queues are lists of the same kind as the ready queues.
  Interrupts of the devices reach their handlers through the table of \<^verbatim>\<open>ls1c_irq.c\<close>; the handler of
  the serial line fills the ring that \<^verbatim>\<open>getchar\<close> empties for the shell, and the shell runs commands.

  \<^bold>\<open>The thread kernel\<close> (\<^verbatim>\<open>src/os/thread.c\<close>, \<^verbatim>\<open>src/lib/ls1c_sys_tick.c\<close>, \<^verbatim>\<open>src/os/context_gcc.S\<close>,
  \<^verbatim>\<open>src/os/include/stackframe.h\<close>).
  \<^item> \<open>Rt_List\<close>: the intrusive doubly linked lists as a heap of links (\<open>links\<close>, \<open>rt_list_insert_before\<close>,
    \<open>rt_list_remove\<close>). A list is related to the sequence it stands for by \<open>dll\<close>; the locale
    \<open>queue_store\<close> is what the kernel relies on for several disjoint lists in one heap of links.
  \<^item> \<open>Bit_Search\<close>: the lowest set bit by table and by shifting.
  \<^item> \<open>Kernel\<close>: the state \<open>kernel\<close> (links, control blocks, current thread, ready bitmap, tick,
    interrupt nesting, interrupt enable, the thread on the processor with its stack pointer, and the
    register frames that the other threads have on their stacks) and one definition per
    function of the scheduler, the timers and the tick. \<open>rt_hw_context_switch\<close> saves the frame of the
    caller with its interrupt level (\<open>SAVE_ALL\<close>), stores its stack pointer in the control block and lets
    the other thread go on with its own frame (\<open>RESTORE_ALL_AND_RET\<close>); the state after a switch is the
    one in which that thread goes on. \<open>timer_interrupt\<close> is the path of \<^verbatim>\<open>handle_int\<close> for a timer
    interrupt, which switches on the way out. A switch is one step: interrupts between its
    instructions are not modelled.
  \<^item> \<open>Kernel_Inv\<close>, \<open>Scheduler\<close>, \<open>Thread_Ops\<close>: the invariant \<open>kinv\<close> (each queue is a well-formed list,
    the bitmap says which ready queues are non-empty, a thread is in the queue its status asks for)
    and that every operation keeps it, with the exact effect on the abstract queues.
  \<^item> \<open>Threads\<close>, \<open>Thread_Inv\<close>: creation with the initial stack frame, killing, and the idle thread's
    reclaiming; \<open>sys_inv\<close> adds that every stack pointer is inside its stack with room for a frame,
    that the one in the control block passes the scheduler's check and is the address of the saved
    frame, and that the context on the processor is the right one. \<open>handed\<close> and \<open>interrupted\<close> say
    what a call of the scheduler and an interrupt do to the registers.
  \<^item> \<open>Ring\<close>, \<open>Ipc\<close>, \<open>Ipc_Inv\<close>: semaphores and mailboxes. A call whose \<^verbatim>\<open>rt_schedule\<close> switches to
    another thread ends with \<open>Blocked\<close> and the locals that survive; the \<open>_resumed\<close> function is the rest of
    the call. When no thread is ready, \<^verbatim>\<open>rt_schedule\<close> returns, the rest follows at once, and the
    mailbox calls start their next round (\<open>mb_send_loop\<close>, \<open>mb_recv_loop\<close>). The message ring implements the locale \<open>bounded_queue\<close> of \<open>Ring\<close>.
  \<^item> \<open>Boot\<close>, \<open>System\<close>, \<open>Sample\<close>: the boot sequence, the step relation \<open>sys_step\<close> over all operations,
    interrupts and the threads' own code, and a concrete booted system at which the properties are
    instantiated. \<open>sys_step\<close> asks two things of the threads: their stack pointer leaves room for a
    frame in the stack, and a thread gives up the processor only when another one is ready. C16 shows
    what happens otherwise.

  \<^bold>\<open>The heap\<close> (\<^verbatim>\<open>src/os/mem.c\<close>). \<open>Heap\<close> has one definition per function, with headers at addresses of
  the heap and the block contents in one memory (\<open>Cmem\<close>: \<^verbatim>\<open>memcpy\<close>, \<^verbatim>\<open>memmove\<close>, \<^verbatim>\<open>memset\<close>, \<^verbatim>\<open>memcmp\<close>). \<open>Heap_Inv\<close>
  relates the headers to a sequence of blocks that tiles the heap without two free neighbours and
  proves what each call does to it. The semaphore of the heap is a value and a number of queued threads; whether
  another thread is ready when it is not available is a field of the state, since the call waits then and goes on
  without the semaphore otherwise. \<open>Heap_Run\<close> states the promise to callers as the locale
  \<open>allocator\<close> (live blocks are disjoint, inside the heap, and a call changes no other live block) and
  interprets it on the code. \<open>Thread_Memory\<close> puts kernel and heap together: thread creation with its own
  calls of \<^verbatim>\<open>malloc\<close> and \<^verbatim>\<open>free\<close>, the idle thread's cleaning with its calls of \<^verbatim>\<open>free\<close>, and the invariant
  \<open>thread_mem\<close> that every thread owns a live block for its control block and one for its stack.

  \<^bold>\<open>The drivers\<close> (\<^verbatim>\<open>src/lib\<close>, \<^verbatim>\<open>src/os/getchar.c\<close>). \<open>Bus\<close> is the register file with its trace; \<open>Gpio\<close> the pins
  and their alternate functions; \<open>I2c\<close> the two-wire protocol driven on two pins; \<open>Irq\<close> the handler
  table and the dispatch; \<open>Clock\<close> the clock tree and the hardware timer; \<open>Serial\<close> the UART, its receive
  ring and \<^verbatim>\<open>getchar\<close>. That ring drops its oldest byte when it is full: it implements the locale
  \<open>lossy_queue\<close>, which extends \<open>bounded_queue\<close>.
  \<^item> \<open>Can\<close>, \<open>Hw_I2c\<close>, \<open>Hw_Spi\<close> (\<^verbatim>\<open>ls1c_can.c\<close>, \<^verbatim>\<open>ls1c_i2c.c\<close>, \<^verbatim>\<open>ls1c_spi.c\<close>): the drivers of the three controllers over any
    device that answers reads and writes of its registers. The locale \<open>can_sender\<close> says that a device keeps what is written to its
    frame registers, \<open>i2c_bus\<close> that every byte takes a bounded number of polls and is acknowledged or not.
  \<^item> \<open>Cache\<close> (\<^verbatim>\<open>ls1c_cache.c\<close>): the routines for the caches, as the list of cache instructions they execute.

  \<^bold>\<open>The library and the shell.\<close> \<open>Cstring\<close> (searching and comparing strings), \<open>Numconv\<close> (numbers and text,
  random numbers), \<open>Nand_Ecc\<close> (\<^verbatim>\<open>src/os/hardware/nand/nand_ecc.c\<close>), and \<open>Shell\<close> with \<open>Shell_Edit\<close>
  (\<^verbatim>\<open>src/os/shell.c\<close>): the latter relates the line buffer to an abstract editor with text before and
  after the cursor.

  \<^bold>\<open>The environment variables\<close> (\<^verbatim>\<open>src/os/env.c\<close>). \<open>Env\<close> has the table in memory, the sector in flash with its
  checksum, and every operation on them; \<open>Env_Inv\<close> relates the bytes of the sector to the list of variables
  stored there and the table to an association list, and gives each operation as an update of these.

  \<^bold>\<open>The serial flash\<close> (\<^verbatim>\<open>src/os/hardware/spi_flash.c\<close>). \<open>Spi_Flash\<close> is the driver over any controller, \<open>Flash_Chip\<close> a contract
  for controller and chip (the locale \<open>flash_hw\<close>) and what the routines do to the cells, and \<open>Nvram\<close> the sector of the
  environment as cells of the flash: it refines the sector of \<open>Env\<close>.

  \<^bold>\<open>Text\<close> (\<^verbatim>\<open>src/libc\<close>, \<^verbatim>\<open>src/os/common_fun.c\<close>). \<open>Strbuf\<close> is copying into a buffer with bounds, \<open>Printf\<close> the formatted output and
  \<open>Printf_Inv\<close> its agreement with a rendering of directives, \<open>Textscan\<close> reading numbers and matching patterns.

  \<^bold>\<open>The NAND flash\<close> (\<^verbatim>\<open>src/os/hardware/nand\<close>). \<open>Nand_Base\<close> is the chip layer: reading and writing pages with error
  correction, the page cache, the table of bad blocks and reading around them; \<open>Nand_Erase\<close> erases blocks. \<open>Ls1x_Nand\<close> is
  the driver of the controller. The layer is proved once over the locale \<open>nand_dev\<close> (\<open>Nand_Inv\<close>), with \<open>nand_blocks\<close>
  (\<open>Nand_Skip\<close>) and \<open>nand_eraser\<close> (\<open>Nand_Erase\<close>) for the blocks; the driver meets these contracts for every
  controller and chip with the laws of \<open>ls1x_hw\<close>, \<open>ls1x_chip\<close> and \<open>ls1x_eraser\<close>, and \<open>Nand_Sim\<close> is such a chip.

  \<^bold>\<open>Partitions and files\<close> (\<^verbatim>\<open>src/os/filesys\<close>, \<^verbatim>\<open>cmdlinepart.c\<close>). \<open>Mtd\<close> is the list of partitions and the parser of the
  \<^verbatim>\<open>mtdparts\<close> variable, \<open>Mtd_Inv\<close> and \<open>Mtd_Parse\<close> relate the linked list to a sequence of partitions and show what the parser
  registers. \<open>Filesys\<close> is the table of open files, with the locale \<open>file_systems\<close> for what it relies on; \<open>Mtdfile\<close> makes partitions
  files, and \<open>Mtdfile_Inv\<close> follows its calls down to the pages of the flash.

  \<^bold>\<open>The properties\<close> are numbered C1 to C39.
  \<^item> \<open>Kernel_Claims\<close>: C1 to C8. Scheduling with the context switch, timer interrupts, the invariant of every
    reachable state, sleeping, semaphores, mailboxes; C16: the timer interrupt that never ends when the idle
    thread sleeps alone.
  \<^item> \<open>Driver_Claims\<close>: C9 to C12. The bytes on the two-wire bus, dispatch of interrupts,
    the receive ring, \<^verbatim>\<open>getchar\<close>.
  \<^item> \<open>Heap_Claims\<close>: C13 to C15. Safety of any sequence of calls, first fit, merging.
  \<^item> \<open>Flash_Claims\<close>: C17 and C18. The sector on the flash, programming an area; also where an unaligned one goes wrong.
  \<^item> \<open>Printf_Claims\<close>: C19. What a format prints; also the buffer it overruns.
  \<^item> \<open>Mtd_Claims\<close>: C20 and C21. The partitions of a text and the end of the parser; also removal from the list.
  \<^item> \<open>Nand_Claims\<close>: C22 to C24. Written pages are read back in spite of bit errors, bad blocks are skipped, and a failed
    correction is hidden by the cache.
  \<^item> \<open>File_Claims\<close>: C25 to C29. Descriptors, writing and reading a partition, a session from open to close, the erase
    command, and a fault at bad blocks.
  \<^item> \<open>Device_Claims\<close>: C30 to C33. A CAN frame from sender to receiver, the lines of a cache that a range touches, the ways that
    are skipped when all of a cache is treated, and bytes on the hardware two-wire bus.
  \<^item> \<open>Library_Claims\<close>: C34. Printing and reading numbers; also that the bit searches agree.
  \<^item> \<open>Env_Claims\<close>: C35. Variables survive a restart; also where the sector overruns.
  \<^item> \<open>Memory_Claims\<close>: C36 and C39. A created thread has memory of its own and a refused creation
    leaks none; a killed thread's memory is given back.
  \<^item> \<open>Shell_Claims\<close>: C37 and C38. Editing and running a command line.

  \<^bold>\<open>Bounds and fuel.\<close> Loops over lists (\<open>timer_walk\<close>, \<open>find_walk\<close>, \<open>resume_walk\<close>, the walk of the heap), the
  rounds of a mailbox call and loops of the flash layers are partial functions into \<open>option\<close>; the properties prove that they
  return in every state with the invariant, the mailbox calls that have to wait when another thread is ready. Loops with a counter recurse on it. Waiting for a device is counted in polls: \<open>uart_wait\<close>
  and \<open>getchar\<close> take the sequence of what the device shows, and the properties say how long it
  has to be; the drivers of the CAN, SPI, two-wire and NAND controllers count their own polls, and \<open>polls\<close> is the number that fit into the time limit of \<^verbatim>\<open>nand_wait_ready\<close>.

  \<^bold>\<open>Not modelled.\<close> Code that the build leaves out (\<^verbatim>\<open>HAVE_QUAD\<close>: \<^verbatim>\<open>llatob\<close>, \<^verbatim>\<open>llbtoa\<close>); what is printed on the console, \<^verbatim>\<open>scanf.c\<close>, and the conversion of floating-point numbers, which
  is a parameter; comparing the serial flash through its mapped memory (\<^verbatim>\<open>fl_verify_device\<close>, \<^verbatim>\<open>tgt_flashprogram\<close>); the identification
  of NAND chips, the scan that builds their bad block table, and their spare area commands; the assembler start-up and cache
  code; the imported layers: lwIP, tftp and the Ethernet driver under \<^verbatim>\<open>src/os/net\<close>, the USB and display code under
  \<^verbatim>\<open>src/os/hardware\<close>, the FAT file system, the ELF loader and zlib under \<^verbatim>\<open>src/os/filesys\<close>, and the
  mathematics library; the demonstrations under \<^verbatim>\<open>src/example\<close> and \<^verbatim>\<open>src/app\<close>. The result of \<^verbatim>\<open>malloc\<close> for a
  new semaphore or mailbox, for a partition and an open file, and for a thread outside \<open>Thread_Memory\<close>, is a parameter of the operations
  that create them.
\<close>

end
